(* ===== verification/Prelude.thy ===== *)
theory Prelude
  imports "HOL-Library.Word"
begin

text \<open>
  The vocabulary the component theories share: names for the machine integers of the C++ code,
  the C reading of a value as a condition, the write to the low part of a register union, and the
  lemmas on words, bits and lists that the component proofs use through the collections
  \<open>word_views\<close> and \<open>carry_facts\<close>.
\<close>

unbundle bit_operations_syntax

type_synonym u8 = "8 word"
type_synonym u16 = "16 word"
type_synonym u32 = "32 word"
type_synonym u64 = "64 word"

named_theorems word_views \<open>reading back what was written to a register union\<close>
named_theorems carry_facts \<open>carries, borrows and overflows as integer statements\<close>

section \<open>C conditions and unions\<close>

definition truth :: "'a::len word \<Rightarrow> bool" where
  "truth w \<longleftrightarrow> w \<noteq> 0"

lemma truth_of_bool [simp]: "truth (of_bool b :: 'a::len word) \<longleftrightarrow> b"
  by (simp add: truth_def)

lemma truth_one [simp]: "truth 1"
  by (simp add: truth_def)

lemma truth_zero [simp]: "\<not> truth 0"
  by (simp add: truth_def)

text \<open>
  Assigning to \<open>byte[0]\<close>, \<open>word[0]\<close> or \<open>dword[0]\<close> of a \<open>GenReg32\<close> replaces the low bits and
  keeps the others.
\<close>

definition set_low :: "u32 \<Rightarrow> 'a::len word \<Rightarrow> u32" where
  "set_low w v = (w AND NOT (mask LENGTH('a))) OR ucast v"

lemma bit_set_low:
  "bit (set_low w (v :: 'a::len word)) n \<longleftrightarrow>
     n < 32 \<and> (if n < LENGTH('a) then bit v n else bit w n)"
  by (auto simp: set_low_def bit_simps dest: bit_imp_le_length)

lemma ucast_set_low [simp, word_views]:
  "LENGTH('a) \<le> 32 \<Longrightarrow> (ucast (set_low w (v :: 'a::len word)) :: 'a word) = v"
  by (rule bit_word_eqI) (auto simp: bit_simps bit_set_low)

lemma set_low_dword [simp, word_views]: "set_low w (v :: u32) = v"
  by (rule bit_word_eqI) (auto simp: bit_set_low)

lemma ucast_set_low_narrow:
  "LENGTH('b) \<le> LENGTH('a) \<Longrightarrow> LENGTH('a) \<le> 32 \<Longrightarrow>
     (ucast (set_low w (v :: 'a::len word)) :: 'b::len word) = ucast v"
  by (rule bit_word_eqI) (auto simp: bit_simps bit_set_low)

section \<open>Single-bit tests\<close>

lemma and_power_two_truth:
  "truth (w AND 2 ^ n) \<longleftrightarrow> bit (w :: 'a::len word) n"
proof -
  have "w AND 2 ^ n = of_bool (bit w n) * 2 ^ n"
    by (rule bit_word_eqI) (auto simp: bit_simps)
  then show ?thesis
    by (auto simp: truth_def dest: bit_imp_le_length)
qed

section \<open>Carries, borrows and overflows\<close>

lemma unat_minus_one [simp]: "unat (- 1 :: 'a::len word) = 2 ^ LENGTH('a) - 1"
  by (simp add: unsigned_minus_1_eq_mask mask_eq_exp_minus_1)

lemma unat_bound: "unat a < 2 ^ LENGTH('a)" for a :: "'a::len word"
  by simp

lemma carry_add_less [carry_facts]:
  "(a + b < a) \<longleftrightarrow> 2 ^ LENGTH('a) \<le> unat a + unat (b :: 'a::len word)"
  using unat_bound [of a] unat_bound [of b]
  by (auto simp: word_less_nat_alt unat_plus_if' simp del: unsigned_less)

lemma unat_adc: "unat (a + b + of_bool c) =
   (if unat a + unat b + of_bool c < 2 ^ LENGTH('a) then unat a + unat b + of_bool c
    else unat a + unat b + of_bool c - 2 ^ LENGTH('a))" for a b :: "'a::len word"
proof -
  have "unat (a + b + of_bool c) = (unat a + unat b + of_bool c) mod 2 ^ LENGTH('a)"
    by (cases c) (simp_all add: unat_word_ariths mod_simps)
  moreover have "unat a + unat b + of_bool c < 2 * 2 ^ LENGTH('a)"
    using unat_bound [of a] unat_bound [of b] by (cases c) (simp_all del: unsigned_less)
  ultimately show ?thesis by (simp add: mod_if)
qed

lemma carry_adc_less [carry_facts]:
  "(a + b + of_bool c < a \<or> (c \<and> a + b + of_bool c = a)) \<longleftrightarrow>
     2 ^ LENGTH('a) \<le> unat a + unat (b :: 'a::len word) + of_bool c"
  using unat_bound [of a] unat_bound [of b]
  by (auto simp: word_less_nat_alt word_unat_eq_iff unat_adc simp del: unsigned_less)

lemma unat_sbb: "unat (a - (b + of_bool c)) =
   (if unat b + of_bool c \<le> unat a then unat a - (unat b + of_bool c)
    else unat a + 2 ^ LENGTH('a) - (unat b + of_bool c))" for a b :: "'a::len word"
  using unat_bound [of a] unat_bound [of b]
  by (cases c) (auto simp: unat_sub_if' unat_plus_if' simp del: unsigned_less)

lemma borrow_sbb [carry_facts]:
  "(a < a - (b + of_bool c) \<or> (c \<and> b = - 1)) \<longleftrightarrow> unat a < unat (b :: 'a::len word) + of_bool c"
  using unat_bound [of a] unat_bound [of b]
  by (auto simp: word_less_nat_alt word_unat_eq_iff unat_sbb simp del: unsigned_less)

definition sgn_bit :: "'a::len word \<Rightarrow> bool" where
  "sgn_bit a \<longleftrightarrow> bit a (LENGTH('a) - 1)"

lemma sgn_bit_iff_sint: "sgn_bit a \<longleftrightarrow> sint a < 0"
  by (simp add: sgn_bit_def sint_uint bit_unsigned_iff)

lemma two_pow_len: "(2::nat) ^ LENGTH('a::len) = 2 * 2 ^ (LENGTH('a) - 1)"
  by (metis len_gt_0 power_minus_mult mult.commute)

lemma sint_unat_sgn:
  "sint a = int (unat a) - (if sgn_bit a then 2 * int (2 ^ (LENGTH('a) - 1)) else 0)" for a :: "'a::len word"
proof -
  obtain n where n: "LENGTH('a) = Suc n" by (metis len_gt_0 gr0_implies_Suc)
  have "uint a < 2 ^ Suc n" "0 \<le> uint a" using n unsigned_less[of a] by simp_all
  then show ?thesis
    by (simp add: sgn_bit_def sint_uint n signed_take_bit_eq_take_bit_minus take_bit_int_eq_self bit_unsigned_iff)
qed

lemma sgn_bit_iff_unat: "sgn_bit a \<longleftrightarrow> 2 ^ (LENGTH('a) - 1) \<le> unat a" for a :: "'a::len word"
proof -
  have "sgn_bit a \<longleftrightarrow> int (2 ^ (LENGTH('a) - 1)) \<le> int (unat a)"
    using sint_unat_sgn [of a] sint_greater_eq [of a] sint_less [of a]
    by (auto split: if_splits)
  then show ?thesis by (simp only: of_nat_le_iff)
qed

lemma unat_bound2: "unat a < 2 * 2 ^ (LENGTH('a) - 1)" for a :: "'a::len word"
  using unat_bound [of a] by (simp add: two_pow_len del: unsigned_less)

lemma bit4_unat: "LENGTH('a) > 4 \<Longrightarrow> bit (a :: 'a::len word) 4 \<longleftrightarrow> odd (unat a div 16)"
  using bit_iff_odd[of "unat a" 4] by (simp add: bit_unsigned_iff)

lemma adc_sign_arith:
  fixes x y h k :: nat
  assumes "x < 2 * h" "y < 2 * h" "k \<le> 1"
    and r: "r = (if x + y + k < 2 * h then x + y + k else x + y + k - 2 * h)"
    and sx: "sx = int x - (if h \<le> x then 2 * int h else 0)"
    and sy: "sy = int y - (if h \<le> y then 2 * int h else 0)"
  shows "((h \<le> x) = (h \<le> y) \<and> (h \<le> r) \<noteq> (h \<le> y)) \<longleftrightarrow>
     \<not> (- int h \<le> sx + sy + int k \<and> sx + sy + int k < int h)"
  using assms(1-3) unfolding r sx sy by (auto split: if_splits)

lemma sbb_sign_arith:
  fixes x y h k :: nat
  assumes "x < 2 * h" "y < 2 * h" "k \<le> 1"
    and r: "r = (if y + k \<le> x then x - (y + k) else x + 2 * h - (y + k))"
    and sx: "sx = int x - (if h \<le> x then 2 * int h else 0)"
    and sy: "sy = int y - (if h \<le> y then 2 * int h else 0)"
  shows "((h \<le> x) \<noteq> (h \<le> y) \<and> (h \<le> r) \<noteq> (h \<le> x)) \<longleftrightarrow>
     \<not> (- int h \<le> sx - sy - int k \<and> sx - sy - int k < int h)"
  using assms(1-3) unfolding r sx sy by (auto split: if_splits)

lemma overflow_adc_bits [carry_facts]:
  "(sgn_bit a = sgn_bit b \<and> sgn_bit (a + b + of_bool c) \<noteq> sgn_bit b) \<longleftrightarrow>
     \<not> (- int (2 ^ (LENGTH('a) - 1)) \<le> sint a + sint b + int (of_bool c) \<and>
        sint a + sint b + int (of_bool c) < int (2 ^ (LENGTH('a) - 1)))" for a b :: "'a::len word"
  unfolding sgn_bit_iff_unat
  by (rule adc_sign_arith [OF unat_bound2 unat_bound2])
     (simp, rule unat_adc [unfolded two_pow_len], (rule sint_unat_sgn [unfolded sgn_bit_iff_unat])+)

lemma overflow_sbb_bits [carry_facts]:
  "(sgn_bit a \<noteq> sgn_bit b \<and> sgn_bit (a - (b + of_bool c)) \<noteq> sgn_bit a) \<longleftrightarrow>
     \<not> (- int (2 ^ (LENGTH('a) - 1)) \<le> sint a - sint b - int (of_bool c) \<and>
        sint a - sint b - int (of_bool c) < int (2 ^ (LENGTH('a) - 1)))" for a b :: "'a::len word"
  unfolding sgn_bit_iff_unat
  by (rule sbb_sign_arith [OF unat_bound2 unat_bound2])
     (simp, rule unat_sbb [unfolded two_pow_len], (rule sint_unat_sgn [unfolded sgn_bit_iff_unat])+)

lemma nibble_add:
  fixes x y k :: nat
  assumes "k \<le> 1"
  shows "odd ((x + y + k) div 16) \<longleftrightarrow>
    ((odd (x div 16) \<noteq> odd (y div 16)) \<noteq> (16 \<le> x mod 16 + y mod 16 + k))"
proof -
  have *: "odd ((16 * p + i + (16 * q + j) + k) div 16) \<longleftrightarrow> ((odd p \<noteq> odd q) \<noteq> (16 \<le> i + j + k))"
    if "i < 16" "j < 16" for p q i j
  proof -
    have "16 * p + i + (16 * q + j) + k = (i + j + k) + (p + q) * 16" by simp
    then have "(16 * p + i + (16 * q + j) + k) div 16 = p + q + (i + j + k) div 16"
      by (simp only: div_mult_self1)
    moreover have "(i + j + k) div 16 = of_bool (16 \<le> i + j + k)"
      using assms that by (cases "16 \<le> i + j + k") (auto intro: div_nat_eqI)
    ultimately show ?thesis by auto
  qed
  show ?thesis using * [of "x mod 16" "y mod 16" "x div 16" "y div 16"] by simp
qed

lemma bit_4_mod: "bit w 4 \<longleftrightarrow> odd (n div 16)"
  if "LENGTH('a) > 4" "unat w = n mod 2 ^ LENGTH('a)" for w :: "'a::len word"
proof -
  have "bit w 4 \<longleftrightarrow> bit (take_bit LENGTH('a) n) 4"
    using that(2) by (simp add: take_bit_eq_mod bit_unsigned_iff flip: that(2))
  also have "\<dots> \<longleftrightarrow> bit n 4" using that(1) by (simp only: bit_take_bit_iff simp_thms)
  finally show ?thesis by (simp add: bit_iff_odd)
qed

lemma unat_adc_mod: "unat (a + b + of_bool c) = (unat a + unat b + of_bool c) mod 2 ^ LENGTH('a)"
  for a b :: "'a::len word"
  by (cases c) (simp_all add: unat_word_ariths mod_simps)

lemma aux_adc_bits [carry_facts]:
  fixes a b :: "'a::len word"
  assumes "LENGTH('a) > 4"
  shows "bit (a XOR b XOR (a + b + of_bool c)) 4 \<longleftrightarrow> 16 \<le> unat a mod 16 + unat b mod 16 + of_bool c"
  using assms nibble_add [of "of_bool c" "unat a" "unat b"] bit_4_mod [OF assms unat_adc_mod, of a b c]
  by (simp add: bit_xor_iff bit4_unat) blast

lemma aux_sbb_bits [carry_facts]:
  fixes a b :: "'a::len word"
  assumes "LENGTH('a) > 4"
  shows "bit (a XOR b XOR (a - (b + of_bool c))) 4 \<longleftrightarrow> unat a mod 16 < unat b mod 16 + of_bool c"
proof -
  define r where "r = a - (b + of_bool c)"
  have a: "r + b + of_bool c = a" by (simp add: r_def)
  have "(16 :: nat) dvd 2 ^ LENGTH('a)"
    using assms le_imp_power_dvd [of 4 "LENGTH('a)" "2 :: nat"] by simp
  then have "unat a mod 16 = (unat r + unat b + of_bool c) mod 16"
    using unat_adc_mod [of r b c] by (simp only: a mod_mod_cancel)
  also have "\<dots> = (unat r mod 16 + unat b mod 16 + of_bool c) mod 16"
    by (metis mod_add_eq mod_add_left_eq)
  finally have "16 \<le> unat r mod 16 + unat b mod 16 + of_bool c \<longleftrightarrow> unat a mod 16 < unat b mod 16 + of_bool c"
    using mod_less_divisor [of 16 "unat r"] mod_less_divisor [of 16 "unat b"]
    by (cases "unat r mod 16 + unat b mod 16 + of_bool c < 16"; cases c)
       (simp_all add: le_mod_geq del: mod_less_divisor, linarith+)
  moreover have "bit (r XOR b XOR (r + b + of_bool c)) 4 \<longleftrightarrow> bit (a XOR b XOR r) 4"
    unfolding a by (auto simp: bit_xor_iff)
  ultimately show ?thesis
    using aux_adc_bits [OF assms, of r b c] by (simp only: r_def)
qed

lemma sub_order_arith:
  fixes x y h :: nat
  assumes "x < 2 * h" "y < 2 * h"
    and r: "r = (if y \<le> x then x - y else x + 2 * h - y)"
    and sx: "sx = int x - (if h \<le> x then 2 * int h else 0)"
    and sy: "sy = int y - (if h \<le> y then 2 * int h else 0)"
  shows "((h \<le> r) \<noteq> (sx - sy < - int h \<or> int h \<le> sx - sy)) \<longleftrightarrow> sx < sy"
  using assms(1,2) unfolding r sx sy by (auto split: if_splits)

lemma sub_sign_order [carry_facts]:
  "(sgn_bit (a - b) \<noteq> (sint a - sint b < - int (2 ^ (LENGTH('a) - 1)) \<or> int (2 ^ (LENGTH('a) - 1)) \<le> sint a - sint b))
     \<longleftrightarrow> sint a < sint b" for a b :: "'a::len word"
proof -
  have "unat (a - b) = (if unat b \<le> unat a then unat a - unat b
      else unat a + 2 * 2 ^ (LENGTH('a) - 1) - unat b)"
    using unat_sbb [of a b False] by (simp add: two_pow_len)
  from sub_order_arith [OF unat_bound2 unat_bound2 this sint_unat_sgn [unfolded sgn_bit_iff_unat]
      sint_unat_sgn [unfolded sgn_bit_iff_unat]]
  show ?thesis by (simp only: sgn_bit_iff_unat)
qed

section \<open>Adding and subtracting one, negation\<close>

lemma low_nibble_unat: "unat (x AND 0xf) = unat x mod 16" for x :: "'a::len word"
proof -
  have "x AND 0xf = take_bit 4 x" by (simp add: take_bit_eq_mask mask_eq_exp_minus_1)
  then show ?thesis by (simp only: unsigned_take_bit_eq) (simp add: take_bit_eq_mod)
qed

lemma nibble_succ: "(m + 1) mod 16 = 0 \<longleftrightarrow> 16 \<le> m mod 16 + 1" "m mod 16 = 15 \<longleftrightarrow> (m + 1) mod 16 < 1" for m :: nat
  by presburger+

lemma low_nibble_inc:
  assumes "5 \<le> LENGTH('a)"
  shows "(x + 1 :: 'a::len word) AND 0xf = 0 \<longleftrightarrow> 16 \<le> unat x mod 16 + 1"
    "(x - 1 :: 'a::len word) AND 0xf = 0xf \<longleftrightarrow> unat x mod 16 < 1"
proof -
  have d: "(16 :: nat) dvd 2 ^ LENGTH('a)"
    using assms le_imp_power_dvd [of 4 "LENGTH('a)" "2 :: nat"] by simp
  have step: "unat (y + 1) mod 16 = (unat y + 1) mod 16" for y :: "'a word"
    using d unat_adc_mod [of y 0 True] by (simp add: mod_mod_cancel)
  show "(x + 1) AND 0xf = 0 \<longleftrightarrow> 16 \<le> unat x mod 16 + 1"
    unfolding nibble_succ(1) [symmetric] by (simp only: word_unat_eq_iff low_nibble_unat step unsigned_0)
  have "(2 :: nat) ^ 5 \<le> 2 ^ LENGTH('a)" using assms by (rule power_increasing) simp
  then have "unat (0xf :: 'a word) = 15"
    by (simp add: unsigned_numeral take_bit_eq_mod)
  then have "(x - 1) AND 0xf = 0xf \<longleftrightarrow> unat (x - 1) mod 16 = 15"
    by (simp only: word_unat_eq_iff low_nibble_unat)
  then show "(x - 1) AND 0xf = 0xf \<longleftrightarrow> unat x mod 16 < 1"
    using step [of "x - 1"] by (simp only: nibble_succ(2) diff_add_cancel)
qed

lemma unat_half: "unat (2 ^ (LENGTH('a) - 1) :: 'a::len word) = 2 ^ (LENGTH('a) - 1)"
proof -
  have "unat (word_of_nat (2 ^ (LENGTH('a) - 1)) :: 'a word) = 2 ^ (LENGTH('a) - 1) mod 2 ^ LENGTH('a)"
    by (rule unat_of_nat)
  then show ?thesis by (simp add: two_pow_len)
qed

lemma inc_overflow:
  "x + 1 = 2 ^ (LENGTH('a) - 1) \<longleftrightarrow> sint x + 1 < - (2 ^ (LENGTH('a) - 1)) \<or> 2 ^ (LENGTH('a) - 1) \<le> sint x + 1"
  for x :: "'a::len word"
proof -
  define h :: nat where "h = 2 ^ (LENGTH('a) - 1)"
  have r: "unat (x + 1) = (if unat x + 1 < 2 * h then unat x + 1 else unat x + 1 - 2 * h)"
    using unat_adc [of x 0 True] by (simp add: two_pow_len h_def)
  have s: "sint x = int (unat x) - (if h \<le> unat x then 2 * int h else 0)" and b: "unat x < 2 * h"
    using sint_unat_sgn [of x] unat_bound2 [of x] by (simp_all add: sgn_bit_iff_unat h_def)
  have "0 < h" by (simp add: h_def)
  then have "unat (x + 1) = h \<longleftrightarrow> sint x + 1 < - int h \<or> int h \<le> sint x + 1"
    unfolding s r using b by (auto simp del: of_nat_unat)
  then show ?thesis using unat_half [where 'a = 'a] by (simp add: word_unat_eq_iff h_def)
qed

lemma half_sint: "x = 2 ^ (LENGTH('a) - 1) \<longleftrightarrow> sint x = - (2 ^ (LENGTH('a) - 1))" for x :: "'a::len word"
proof -
  define h :: nat where "h = 2 ^ (LENGTH('a) - 1)"
  have s: "sint x = int (unat x) - (if h \<le> unat x then 2 * int h else 0)" and b: "unat x < 2 * h"
    using sint_unat_sgn [of x] unat_bound2 [of x] by (simp_all add: sgn_bit_iff_unat h_def)
  have "0 < h" by (simp add: h_def)
  then have "unat x = h \<longleftrightarrow> sint x = - int h"
    unfolding s using b by (auto simp del: of_nat_unat)
  then show ?thesis using unat_half [where 'a = 'a] by (simp add: word_unat_eq_iff h_def)
qed

lemma dec_overflow:
  "x - 1 = 2 ^ (LENGTH('a) - 1) - 1 \<longleftrightarrow> sint x - 1 < - (2 ^ (LENGTH('a) - 1)) \<or> 2 ^ (LENGTH('a) - 1) \<le> sint x - 1"
  for x :: "'a::len word"
  using half_sint [of x] sint_greater_eq [of x] sint_less [of x] by auto

lemma neg_overflow:
  "x = 2 ^ (LENGTH('a) - 1) \<longleftrightarrow> - sint x < - (2 ^ (LENGTH('a) - 1)) \<or> 2 ^ (LENGTH('a) - 1) \<le> - sint x"
  for x :: "'a::len word"
  using half_sint [of x] sint_greater_eq [of x] sint_less [of x] by auto

section \<open>Sequences of steps that may fail\<close>

primrec run_all :: "('a \<Rightarrow> 's \<Rightarrow> 's option) \<Rightarrow> 'a list \<Rightarrow> 's \<Rightarrow> 's option" where
  "run_all step [] s = Some s"
| "run_all step (a # as) s = (case step a s of None \<Rightarrow> None | Some t \<Rightarrow> run_all step as t)"

text \<open>
  The contract of a component whose operations return and act on an abstract value: \<open>abs\<close>
  relates states to values, \<open>frame\<close> is what an operation keeps, \<open>spec\<close> what it does to the value.
\<close>

locale refined_steps =
  fixes abs :: "'s \<Rightarrow> 'v \<Rightarrow> bool"
    and frame :: "'s \<Rightarrow> 's \<Rightarrow> bool"
    and step :: "'a \<Rightarrow> 's \<Rightarrow> 's option"
    and spec :: "'a \<Rightarrow> 'v \<Rightarrow> 'v"
  assumes step_abs: "abs s v \<Longrightarrow> \<exists>t. step a s = Some t \<and> frame s t \<and> abs t (spec a v)"
    and frame_refl: "frame s s"
    and frame_trans: "frame s t \<Longrightarrow> frame t u \<Longrightarrow> frame s u"
begin

lemma run_all_abs:
  "abs s v \<Longrightarrow> \<exists>t. run_all step as s = Some t \<and> frame s t \<and> abs t (fold spec as v)"
proof (induction as arbitrary: s v)
  case Nil
  then show ?case by (simp add: frame_refl)
next
  case (Cons a as)
  from step_abs [OF Cons.prems, of a] obtain t where t: "step a s = Some t" "frame s t" "abs t (spec a v)" by blast
  from Cons.IH [OF t(3)] obtain u where "run_all step as t = Some u" "frame t u" "abs u (fold spec as (spec a v))" by blast
  then show ?case using t frame_trans by auto
qed

end

section \<open>Replacing a part of a list\<close>

definition overwrite :: "nat \<Rightarrow> 'a list \<Rightarrow> 'a list \<Rightarrow> 'a list" where
  "overwrite pos vs d = take pos d @ vs @ drop (pos + length vs) d"

lemma overwrite_simps [simp]:
  "pos + length vs \<le> length d \<Longrightarrow> length (overwrite pos vs d) = length d"
  "overwrite pos [] d = d"
  by (simp_all add: overwrite_def)

lemma nth_overwrite:
  "pos + length vs \<le> length d \<Longrightarrow> i < length d \<Longrightarrow>
     overwrite pos vs d ! i = (if pos \<le> i \<and> i < pos + length vs then vs ! (i - pos) else d ! i)"
  by (auto simp: overwrite_def nth_append min_def)

lemma overwrite_Cons: "pos < length d \<Longrightarrow> overwrite (Suc pos) vs (d[pos := v]) = overwrite pos (v # vs) d"
  by (simp add: overwrite_def take_Suc_conv_app_nth)

lemma overwrite_same:
  assumes "pos + length vs \<le> length d" "\<And>j. j < length vs \<Longrightarrow> d ! (pos + j) = vs ! j"
  shows "overwrite pos vs d = d"
proof (rule nth_equalityI)
  fix i
  assume "i < length (overwrite pos vs d)"
  then show "overwrite pos vs d ! i = d ! i" using assms(1) assms(2) [of "i - pos"] by (auto simp: nth_overwrite)
qed (simp add: assms)

lemma overwrite_append:
  "pos + length vs + length ws \<le> length d \<Longrightarrow> overwrite (pos + length vs) ws (overwrite pos vs d) = overwrite pos (vs @ ws) d"
  by (rule nth_equalityI) (auto simp: nth_overwrite nth_append)

end
