(* ===== verification/Cpu_Flags.thy ===== *)
theory Cpu_Flags
  imports Prelude
begin

text \<open>
  The lazy flags of the CPU core, \<open>src/src/cpu/flags.cpp\<close> and \<open>src/src/cpu/lazyflags.h\<close>: an
  arithmetic instruction records its operands, its result and its kind in \<open>lflags\<close>, and the six
  test flags are computed only when something asks for them. \<open>get_CF\<close> to \<open>get_PF\<close> compute one
  flag; \<open>FillFlags\<close> writes all of them to \<open>reg_flags\<close>; \<open>FillFlagsNoCFOF\<close> writes four.

  The fields of \<open>struct LazyFlags\<close> are the record of the same name, and the registers the
  instructions of \<open>instructions.h\<close> touch extend it. \<open>GenReg32\<close> is a 32-bit word whose byte and
  word parts are its low bits. The enumeration of flag kinds is named by the operation and the
  operand width; the abbreviations give the source's names. A shift count that the C++ code may
  not use (a negative or too large one) is unspecified there; the model's value for it is not
  relied on by any theorem.
\<close>

section \<open>State\<close>

datatype width = Wb | Ww | Wd

datatype alu_kind =
    k_ADD | k_OR | k_ADC | k_SBB | k_AND | k_SUB | k_XOR | k_CMP | k_INC | k_DEC | k_TEST
  | k_SHL | k_SHR | k_SAR | k_ROL | k_ROR | k_RCL | k_RCR | k_NEG | k_DSHL | k_DSHR

datatype lazy_type = t_UNKNOWN | LF alu_kind width | t_MUL | t_DIV | t_NOTDONE | t_LASTFLAG

abbreviation "t_ADDb \<equiv> LF k_ADD Wb"
abbreviation "t_ADDw \<equiv> LF k_ADD Ww"
abbreviation "t_ADDd \<equiv> LF k_ADD Wd"
abbreviation "t_ORb \<equiv> LF k_OR Wb"
abbreviation "t_ORw \<equiv> LF k_OR Ww"
abbreviation "t_ORd \<equiv> LF k_OR Wd"
abbreviation "t_ADCb \<equiv> LF k_ADC Wb"
abbreviation "t_ADCw \<equiv> LF k_ADC Ww"
abbreviation "t_ADCd \<equiv> LF k_ADC Wd"
abbreviation "t_SBBb \<equiv> LF k_SBB Wb"
abbreviation "t_SBBw \<equiv> LF k_SBB Ww"
abbreviation "t_SBBd \<equiv> LF k_SBB Wd"
abbreviation "t_ANDb \<equiv> LF k_AND Wb"
abbreviation "t_ANDw \<equiv> LF k_AND Ww"
abbreviation "t_ANDd \<equiv> LF k_AND Wd"
abbreviation "t_SUBb \<equiv> LF k_SUB Wb"
abbreviation "t_SUBw \<equiv> LF k_SUB Ww"
abbreviation "t_SUBd \<equiv> LF k_SUB Wd"
abbreviation "t_XORb \<equiv> LF k_XOR Wb"
abbreviation "t_XORw \<equiv> LF k_XOR Ww"
abbreviation "t_XORd \<equiv> LF k_XOR Wd"
abbreviation "t_CMPb \<equiv> LF k_CMP Wb"
abbreviation "t_CMPw \<equiv> LF k_CMP Ww"
abbreviation "t_CMPd \<equiv> LF k_CMP Wd"
abbreviation "t_INCb \<equiv> LF k_INC Wb"
abbreviation "t_INCw \<equiv> LF k_INC Ww"
abbreviation "t_INCd \<equiv> LF k_INC Wd"
abbreviation "t_DECb \<equiv> LF k_DEC Wb"
abbreviation "t_DECw \<equiv> LF k_DEC Ww"
abbreviation "t_DECd \<equiv> LF k_DEC Wd"
abbreviation "t_TESTb \<equiv> LF k_TEST Wb"
abbreviation "t_TESTw \<equiv> LF k_TEST Ww"
abbreviation "t_TESTd \<equiv> LF k_TEST Wd"
abbreviation "t_SHLb \<equiv> LF k_SHL Wb"
abbreviation "t_SHLw \<equiv> LF k_SHL Ww"
abbreviation "t_SHLd \<equiv> LF k_SHL Wd"
abbreviation "t_SHRb \<equiv> LF k_SHR Wb"
abbreviation "t_SHRw \<equiv> LF k_SHR Ww"
abbreviation "t_SHRd \<equiv> LF k_SHR Wd"
abbreviation "t_SARb \<equiv> LF k_SAR Wb"
abbreviation "t_SARw \<equiv> LF k_SAR Ww"
abbreviation "t_SARd \<equiv> LF k_SAR Wd"
abbreviation "t_ROLb \<equiv> LF k_ROL Wb"
abbreviation "t_ROLw \<equiv> LF k_ROL Ww"
abbreviation "t_ROLd \<equiv> LF k_ROL Wd"
abbreviation "t_RORb \<equiv> LF k_ROR Wb"
abbreviation "t_RORw \<equiv> LF k_ROR Ww"
abbreviation "t_RORd \<equiv> LF k_ROR Wd"
abbreviation "t_RCLb \<equiv> LF k_RCL Wb"
abbreviation "t_RCLw \<equiv> LF k_RCL Ww"
abbreviation "t_RCLd \<equiv> LF k_RCL Wd"
abbreviation "t_RCRb \<equiv> LF k_RCR Wb"
abbreviation "t_RCRw \<equiv> LF k_RCR Ww"
abbreviation "t_RCRd \<equiv> LF k_RCR Wd"
abbreviation "t_NEGb \<equiv> LF k_NEG Wb"
abbreviation "t_NEGw \<equiv> LF k_NEG Ww"
abbreviation "t_NEGd \<equiv> LF k_NEG Wd"
abbreviation "t_DSHLw \<equiv> LF k_DSHL Ww"
abbreviation "t_DSHLd \<equiv> LF k_DSHL Wd"
abbreviation "t_DSHRw \<equiv> LF k_DSHR Ww"
abbreviation "t_DSHRd \<equiv> LF k_DSHR Wd"

record LazyFlags =
  lf_var1 :: u32
  lf_var2 :: u32
  lf_res :: u32
  lf_type :: lazy_type
  lf_oldcf :: u8

record cpu = LazyFlags +
  reg_flags :: u32
  reg_eax :: u32
  reg_ecx :: u32
  reg_edx :: u32
  reg_ebx :: u32

abbreviation FLAG_CF :: u32 where "FLAG_CF \<equiv> 0x1"
abbreviation FLAG_PF :: u32 where "FLAG_PF \<equiv> 0x4"
abbreviation FLAG_AF :: u32 where "FLAG_AF \<equiv> 0x10"
abbreviation FLAG_ZF :: u32 where "FLAG_ZF \<equiv> 0x40"
abbreviation FLAG_SF :: u32 where "FLAG_SF \<equiv> 0x80"
abbreviation FLAG_OF :: u32 where "FLAG_OF \<equiv> 0x800"

definition GETFLAG :: "u32 \<Rightarrow> cpu \<Rightarrow> u32" where
  "GETFLAG f s = reg_flags s AND f"

definition SETFLAGBIT :: "u32 \<Rightarrow> bool \<Rightarrow> cpu \<Rightarrow> cpu" where
  "SETFLAGBIT f test s =
     (if test then s\<lparr>reg_flags := reg_flags s OR f\<rparr> else s\<lparr>reg_flags := reg_flags s AND NOT f\<rparr>)"

abbreviation lf_var1b :: "cpu \<Rightarrow> u8" where "lf_var1b s \<equiv> ucast (lf_var1 s)"
abbreviation lf_var2b :: "cpu \<Rightarrow> u8" where "lf_var2b s \<equiv> ucast (lf_var2 s)"
abbreviation lf_resb :: "cpu \<Rightarrow> u8" where "lf_resb s \<equiv> ucast (lf_res s)"
abbreviation lf_var1w :: "cpu \<Rightarrow> u16" where "lf_var1w s \<equiv> ucast (lf_var1 s)"
abbreviation lf_var2w :: "cpu \<Rightarrow> u16" where "lf_var2w s \<equiv> ucast (lf_var2 s)"
abbreviation lf_resw :: "cpu \<Rightarrow> u16" where "lf_resw s \<equiv> ucast (lf_res s)"
abbreviation lf_var1d :: "cpu \<Rightarrow> u32" where "lf_var1d s \<equiv> lf_var1 s"
abbreviation lf_var2d :: "cpu \<Rightarrow> u32" where "lf_var2d s \<equiv> lf_var2 s"
abbreviation lf_resd :: "cpu \<Rightarrow> u32" where "lf_resd s \<equiv> lf_res s"

definition lf_var2b_minus_one :: "cpu \<Rightarrow> nat" where
  "lf_var2b_minus_one s = unat (lf_var2b s - 1)"

section \<open>Reading one flag\<close>

definition get_CF :: "cpu \<Rightarrow> u32" where
  "get_CF s = (case lf_type s of
      t_UNKNOWN \<Rightarrow> GETFLAG FLAG_CF s
    | t_INCb \<Rightarrow> GETFLAG FLAG_CF s
    | t_INCw \<Rightarrow> GETFLAG FLAG_CF s
    | t_INCd \<Rightarrow> GETFLAG FLAG_CF s
    | t_DECb \<Rightarrow> GETFLAG FLAG_CF s
    | t_DECw \<Rightarrow> GETFLAG FLAG_CF s
    | t_DECd \<Rightarrow> GETFLAG FLAG_CF s
    | t_MUL \<Rightarrow> GETFLAG FLAG_CF s
    | t_ADDb \<Rightarrow> of_bool (lf_resb s < lf_var1b s)
    | t_ADDw \<Rightarrow> of_bool (lf_resw s < lf_var1w s)
    | t_ADDd \<Rightarrow> of_bool (lf_resd s < lf_var1d s)
    | t_ADCb \<Rightarrow> of_bool (lf_resb s < lf_var1b s \<or> (truth (lf_oldcf s) \<and> lf_resb s = lf_var1b s))
    | t_ADCw \<Rightarrow> of_bool (lf_resw s < lf_var1w s \<or> (truth (lf_oldcf s) \<and> lf_resw s = lf_var1w s))
    | t_ADCd \<Rightarrow> of_bool (lf_resd s < lf_var1d s \<or> (truth (lf_oldcf s) \<and> lf_resd s = lf_var1d s))
    | t_SBBb \<Rightarrow> of_bool (lf_var1b s < lf_resb s \<or> (truth (lf_oldcf s) \<and> lf_var2b s = 0xff))
    | t_SBBw \<Rightarrow> of_bool (lf_var1w s < lf_resw s \<or> (truth (lf_oldcf s) \<and> lf_var2w s = 0xffff))
    | t_SBBd \<Rightarrow> of_bool (lf_var1d s < lf_resd s \<or> (truth (lf_oldcf s) \<and> lf_var2d s = 0xffffffff))
    | t_SUBb \<Rightarrow> of_bool (lf_var1b s < lf_var2b s)
    | t_CMPb \<Rightarrow> of_bool (lf_var1b s < lf_var2b s)
    | t_SUBw \<Rightarrow> of_bool (lf_var1w s < lf_var2w s)
    | t_CMPw \<Rightarrow> of_bool (lf_var1w s < lf_var2w s)
    | t_SUBd \<Rightarrow> of_bool (lf_var1d s < lf_var2d s)
    | t_CMPd \<Rightarrow> of_bool (lf_var1d s < lf_var2d s)
    | t_SHLb \<Rightarrow> if lf_var2b s > 8 then 0 else ucast (drop_bit (8 - unat (lf_var2b s)) (lf_var1b s) AND 1)
    | t_SHLw \<Rightarrow> if lf_var2b s > 16 then 0 else ucast (drop_bit (16 - unat (lf_var2b s)) (lf_var1w s) AND 1)
    | t_SHLd \<Rightarrow> ucast (drop_bit (32 - unat (lf_var2b s)) (lf_var1d s) AND 1)
    | t_DSHLw \<Rightarrow> ucast (drop_bit (32 - unat (lf_var2b s)) (lf_var1d s) AND 1)
    | t_DSHLd \<Rightarrow> ucast (drop_bit (32 - unat (lf_var2b s)) (lf_var1d s) AND 1)
    | t_RCRb \<Rightarrow> ucast (drop_bit (lf_var2b_minus_one s) (lf_var1b s) AND 1)
    | t_SHRb \<Rightarrow> ucast (drop_bit (lf_var2b_minus_one s) (lf_var1b s) AND 1)
    | t_RCRw \<Rightarrow> ucast (drop_bit (lf_var2b_minus_one s) (lf_var1w s) AND 1)
    | t_SHRw \<Rightarrow> ucast (drop_bit (lf_var2b_minus_one s) (lf_var1w s) AND 1)
    | t_RCRd \<Rightarrow> ucast (drop_bit (lf_var2b_minus_one s) (lf_var1d s) AND 1)
    | t_SHRd \<Rightarrow> ucast (drop_bit (lf_var2b_minus_one s) (lf_var1d s) AND 1)
    | t_DSHRw \<Rightarrow> ucast (drop_bit (lf_var2b_minus_one s) (lf_var1d s) AND 1)
    | t_DSHRd \<Rightarrow> ucast (drop_bit (lf_var2b_minus_one s) (lf_var1d s) AND 1)
    | t_SARb \<Rightarrow> signed_drop_bit (lf_var2b_minus_one s) (scast (lf_var1b s) :: u32) AND 1
    | t_SARw \<Rightarrow> signed_drop_bit (lf_var2b_minus_one s) (scast (lf_var1w s) :: u32) AND 1
    | t_SARd \<Rightarrow> signed_drop_bit (lf_var2b_minus_one s) (scast (lf_var1d s) :: u32) AND 1
    | t_NEGb \<Rightarrow> ucast (lf_var1b s)
    | t_NEGw \<Rightarrow> ucast (lf_var1w s)
    | t_NEGd \<Rightarrow> ucast (lf_var1d s)
    | t_ORb \<Rightarrow> 0
    | t_ORw \<Rightarrow> 0
    | t_ORd \<Rightarrow> 0
    | t_ANDb \<Rightarrow> 0
    | t_ANDw \<Rightarrow> 0
    | t_ANDd \<Rightarrow> 0
    | t_XORb \<Rightarrow> 0
    | t_XORw \<Rightarrow> 0
    | t_XORd \<Rightarrow> 0
    | t_TESTb \<Rightarrow> 0
    | t_TESTw \<Rightarrow> 0
    | t_TESTd \<Rightarrow> 0
    | t_DIV \<Rightarrow> 0
    | _ \<Rightarrow> 0)"

definition get_AF :: "cpu \<Rightarrow> u32" where
  "get_AF s = (case lf_type s of
      t_UNKNOWN \<Rightarrow> GETFLAG FLAG_AF s
    | t_ADDb \<Rightarrow> ucast ((lf_var1b s XOR lf_var2b s XOR lf_resb s) AND 0x10)
    | t_ADCb \<Rightarrow> ucast ((lf_var1b s XOR lf_var2b s XOR lf_resb s) AND 0x10)
    | t_SBBb \<Rightarrow> ucast ((lf_var1b s XOR lf_var2b s XOR lf_resb s) AND 0x10)
    | t_SUBb \<Rightarrow> ucast ((lf_var1b s XOR lf_var2b s XOR lf_resb s) AND 0x10)
    | t_CMPb \<Rightarrow> ucast ((lf_var1b s XOR lf_var2b s XOR lf_resb s) AND 0x10)
    | t_ADDw \<Rightarrow> ucast ((lf_var1w s XOR lf_var2w s XOR lf_resw s) AND 0x10)
    | t_ADCw \<Rightarrow> ucast ((lf_var1w s XOR lf_var2w s XOR lf_resw s) AND 0x10)
    | t_SBBw \<Rightarrow> ucast ((lf_var1w s XOR lf_var2w s XOR lf_resw s) AND 0x10)
    | t_SUBw \<Rightarrow> ucast ((lf_var1w s XOR lf_var2w s XOR lf_resw s) AND 0x10)
    | t_CMPw \<Rightarrow> ucast ((lf_var1w s XOR lf_var2w s XOR lf_resw s) AND 0x10)
    | t_ADCd \<Rightarrow> ucast ((lf_var1d s XOR lf_var2d s XOR lf_resd s) AND 0x10)
    | t_ADDd \<Rightarrow> ucast ((lf_var1d s XOR lf_var2d s XOR lf_resd s) AND 0x10)
    | t_SBBd \<Rightarrow> ucast ((lf_var1d s XOR lf_var2d s XOR lf_resd s) AND 0x10)
    | t_SUBd \<Rightarrow> ucast ((lf_var1d s XOR lf_var2d s XOR lf_resd s) AND 0x10)
    | t_CMPd \<Rightarrow> ucast ((lf_var1d s XOR lf_var2d s XOR lf_resd s) AND 0x10)
    | t_INCb \<Rightarrow> of_bool (lf_resb s AND 0x0f = 0)
    | t_INCw \<Rightarrow> of_bool (lf_resw s AND 0x0f = 0)
    | t_INCd \<Rightarrow> of_bool (lf_resd s AND 0x0f = 0)
    | t_DECb \<Rightarrow> of_bool (lf_resb s AND 0x0f = 0x0f)
    | t_DECw \<Rightarrow> of_bool (lf_resw s AND 0x0f = 0x0f)
    | t_DECd \<Rightarrow> of_bool (lf_resd s AND 0x0f = 0x0f)
    | t_NEGb \<Rightarrow> ucast (lf_var1b s AND 0x0f)
    | t_NEGw \<Rightarrow> ucast (lf_var1w s AND 0x0f)
    | t_NEGd \<Rightarrow> ucast (lf_var1d s AND 0x0f)
    | t_SHLb \<Rightarrow> ucast (lf_var2b s AND 0x1f)
    | t_SHRb \<Rightarrow> ucast (lf_var2b s AND 0x1f)
    | t_SARb \<Rightarrow> ucast (lf_var2b s AND 0x1f)
    | t_SHLw \<Rightarrow> ucast (lf_var2w s AND 0x1f)
    | t_SHRw \<Rightarrow> ucast (lf_var2w s AND 0x1f)
    | t_SARw \<Rightarrow> ucast (lf_var2w s AND 0x1f)
    | t_SHLd \<Rightarrow> ucast (lf_var2d s AND 0x1f)
    | t_SHRd \<Rightarrow> ucast (lf_var2d s AND 0x1f)
    | t_SARd \<Rightarrow> ucast (lf_var2d s AND 0x1f)
    | t_ORb \<Rightarrow> 0
    | t_ORw \<Rightarrow> 0
    | t_ORd \<Rightarrow> 0
    | t_ANDb \<Rightarrow> 0
    | t_ANDw \<Rightarrow> 0
    | t_ANDd \<Rightarrow> 0
    | t_XORb \<Rightarrow> 0
    | t_XORw \<Rightarrow> 0
    | t_XORd \<Rightarrow> 0
    | t_TESTb \<Rightarrow> 0
    | t_TESTw \<Rightarrow> 0
    | t_TESTd \<Rightarrow> 0
    | t_DSHLw \<Rightarrow> 0
    | t_DSHLd \<Rightarrow> 0
    | t_DSHRw \<Rightarrow> 0
    | t_DSHRd \<Rightarrow> 0
    | t_DIV \<Rightarrow> 0
    | t_MUL \<Rightarrow> 0
    | _ \<Rightarrow> 0)"

definition get_ZF :: "cpu \<Rightarrow> u32" where
  "get_ZF s = (case lf_type s of
      t_UNKNOWN \<Rightarrow> GETFLAG FLAG_ZF s
    | t_ADDb \<Rightarrow> of_bool (lf_resb s = 0)
    | t_ORb \<Rightarrow> of_bool (lf_resb s = 0)
    | t_ADCb \<Rightarrow> of_bool (lf_resb s = 0)
    | t_SBBb \<Rightarrow> of_bool (lf_resb s = 0)
    | t_ANDb \<Rightarrow> of_bool (lf_resb s = 0)
    | t_XORb \<Rightarrow> of_bool (lf_resb s = 0)
    | t_SUBb \<Rightarrow> of_bool (lf_resb s = 0)
    | t_CMPb \<Rightarrow> of_bool (lf_resb s = 0)
    | t_INCb \<Rightarrow> of_bool (lf_resb s = 0)
    | t_DECb \<Rightarrow> of_bool (lf_resb s = 0)
    | t_TESTb \<Rightarrow> of_bool (lf_resb s = 0)
    | t_SHLb \<Rightarrow> of_bool (lf_resb s = 0)
    | t_SHRb \<Rightarrow> of_bool (lf_resb s = 0)
    | t_SARb \<Rightarrow> of_bool (lf_resb s = 0)
    | t_NEGb \<Rightarrow> of_bool (lf_resb s = 0)
    | t_ADDw \<Rightarrow> of_bool (lf_resw s = 0)
    | t_ORw \<Rightarrow> of_bool (lf_resw s = 0)
    | t_ADCw \<Rightarrow> of_bool (lf_resw s = 0)
    | t_SBBw \<Rightarrow> of_bool (lf_resw s = 0)
    | t_ANDw \<Rightarrow> of_bool (lf_resw s = 0)
    | t_XORw \<Rightarrow> of_bool (lf_resw s = 0)
    | t_SUBw \<Rightarrow> of_bool (lf_resw s = 0)
    | t_CMPw \<Rightarrow> of_bool (lf_resw s = 0)
    | t_INCw \<Rightarrow> of_bool (lf_resw s = 0)
    | t_DECw \<Rightarrow> of_bool (lf_resw s = 0)
    | t_TESTw \<Rightarrow> of_bool (lf_resw s = 0)
    | t_SHLw \<Rightarrow> of_bool (lf_resw s = 0)
    | t_SHRw \<Rightarrow> of_bool (lf_resw s = 0)
    | t_SARw \<Rightarrow> of_bool (lf_resw s = 0)
    | t_DSHLw \<Rightarrow> of_bool (lf_resw s = 0)
    | t_DSHRw \<Rightarrow> of_bool (lf_resw s = 0)
    | t_NEGw \<Rightarrow> of_bool (lf_resw s = 0)
    | t_ADDd \<Rightarrow> of_bool (lf_resd s = 0)
    | t_ORd \<Rightarrow> of_bool (lf_resd s = 0)
    | t_ADCd \<Rightarrow> of_bool (lf_resd s = 0)
    | t_SBBd \<Rightarrow> of_bool (lf_resd s = 0)
    | t_ANDd \<Rightarrow> of_bool (lf_resd s = 0)
    | t_XORd \<Rightarrow> of_bool (lf_resd s = 0)
    | t_SUBd \<Rightarrow> of_bool (lf_resd s = 0)
    | t_CMPd \<Rightarrow> of_bool (lf_resd s = 0)
    | t_INCd \<Rightarrow> of_bool (lf_resd s = 0)
    | t_DECd \<Rightarrow> of_bool (lf_resd s = 0)
    | t_TESTd \<Rightarrow> of_bool (lf_resd s = 0)
    | t_SHLd \<Rightarrow> of_bool (lf_resd s = 0)
    | t_SHRd \<Rightarrow> of_bool (lf_resd s = 0)
    | t_SARd \<Rightarrow> of_bool (lf_resd s = 0)
    | t_DSHLd \<Rightarrow> of_bool (lf_resd s = 0)
    | t_DSHRd \<Rightarrow> of_bool (lf_resd s = 0)
    | t_NEGd \<Rightarrow> of_bool (lf_resd s = 0)
    | t_DIV \<Rightarrow> 0
    | t_MUL \<Rightarrow> 0
    | _ \<Rightarrow> 0)"

definition get_SF :: "cpu \<Rightarrow> u32" where
  "get_SF s = (case lf_type s of
      t_UNKNOWN \<Rightarrow> GETFLAG FLAG_SF s
    | t_ADDb \<Rightarrow> ucast (lf_resb s AND 0x80)
    | t_ORb \<Rightarrow> ucast (lf_resb s AND 0x80)
    | t_ADCb \<Rightarrow> ucast (lf_resb s AND 0x80)
    | t_SBBb \<Rightarrow> ucast (lf_resb s AND 0x80)
    | t_ANDb \<Rightarrow> ucast (lf_resb s AND 0x80)
    | t_XORb \<Rightarrow> ucast (lf_resb s AND 0x80)
    | t_SUBb \<Rightarrow> ucast (lf_resb s AND 0x80)
    | t_CMPb \<Rightarrow> ucast (lf_resb s AND 0x80)
    | t_INCb \<Rightarrow> ucast (lf_resb s AND 0x80)
    | t_DECb \<Rightarrow> ucast (lf_resb s AND 0x80)
    | t_TESTb \<Rightarrow> ucast (lf_resb s AND 0x80)
    | t_SHLb \<Rightarrow> ucast (lf_resb s AND 0x80)
    | t_SHRb \<Rightarrow> ucast (lf_resb s AND 0x80)
    | t_SARb \<Rightarrow> ucast (lf_resb s AND 0x80)
    | t_NEGb \<Rightarrow> ucast (lf_resb s AND 0x80)
    | t_ADDw \<Rightarrow> ucast (lf_resw s AND 0x8000)
    | t_ORw \<Rightarrow> ucast (lf_resw s AND 0x8000)
    | t_ADCw \<Rightarrow> ucast (lf_resw s AND 0x8000)
    | t_SBBw \<Rightarrow> ucast (lf_resw s AND 0x8000)
    | t_ANDw \<Rightarrow> ucast (lf_resw s AND 0x8000)
    | t_XORw \<Rightarrow> ucast (lf_resw s AND 0x8000)
    | t_SUBw \<Rightarrow> ucast (lf_resw s AND 0x8000)
    | t_CMPw \<Rightarrow> ucast (lf_resw s AND 0x8000)
    | t_INCw \<Rightarrow> ucast (lf_resw s AND 0x8000)
    | t_DECw \<Rightarrow> ucast (lf_resw s AND 0x8000)
    | t_TESTw \<Rightarrow> ucast (lf_resw s AND 0x8000)
    | t_SHLw \<Rightarrow> ucast (lf_resw s AND 0x8000)
    | t_SHRw \<Rightarrow> ucast (lf_resw s AND 0x8000)
    | t_SARw \<Rightarrow> ucast (lf_resw s AND 0x8000)
    | t_DSHLw \<Rightarrow> ucast (lf_resw s AND 0x8000)
    | t_DSHRw \<Rightarrow> ucast (lf_resw s AND 0x8000)
    | t_NEGw \<Rightarrow> ucast (lf_resw s AND 0x8000)
    | t_ADDd \<Rightarrow> ucast (lf_resd s AND 0x80000000)
    | t_ORd \<Rightarrow> ucast (lf_resd s AND 0x80000000)
    | t_ADCd \<Rightarrow> ucast (lf_resd s AND 0x80000000)
    | t_SBBd \<Rightarrow> ucast (lf_resd s AND 0x80000000)
    | t_ANDd \<Rightarrow> ucast (lf_resd s AND 0x80000000)
    | t_XORd \<Rightarrow> ucast (lf_resd s AND 0x80000000)
    | t_SUBd \<Rightarrow> ucast (lf_resd s AND 0x80000000)
    | t_CMPd \<Rightarrow> ucast (lf_resd s AND 0x80000000)
    | t_INCd \<Rightarrow> ucast (lf_resd s AND 0x80000000)
    | t_DECd \<Rightarrow> ucast (lf_resd s AND 0x80000000)
    | t_TESTd \<Rightarrow> ucast (lf_resd s AND 0x80000000)
    | t_SHLd \<Rightarrow> ucast (lf_resd s AND 0x80000000)
    | t_SHRd \<Rightarrow> ucast (lf_resd s AND 0x80000000)
    | t_SARd \<Rightarrow> ucast (lf_resd s AND 0x80000000)
    | t_DSHLd \<Rightarrow> ucast (lf_resd s AND 0x80000000)
    | t_DSHRd \<Rightarrow> ucast (lf_resd s AND 0x80000000)
    | t_NEGd \<Rightarrow> ucast (lf_resd s AND 0x80000000)
    | t_DIV \<Rightarrow> 0
    | t_MUL \<Rightarrow> 0
    | _ \<Rightarrow> 0)"

definition get_OF :: "cpu \<Rightarrow> u32" where
  "get_OF s = (case lf_type s of
      t_UNKNOWN \<Rightarrow> GETFLAG FLAG_OF s
    | t_MUL \<Rightarrow> GETFLAG FLAG_OF s
    | t_ADDb \<Rightarrow> ucast (((lf_var1b s XOR lf_var2b s XOR 0x80) AND (lf_resb s XOR lf_var2b s)) AND 0x80)
    | t_ADCb \<Rightarrow> ucast (((lf_var1b s XOR lf_var2b s XOR 0x80) AND (lf_resb s XOR lf_var2b s)) AND 0x80)
    | t_ADDw \<Rightarrow> ucast (((lf_var1w s XOR lf_var2w s XOR 0x8000) AND (lf_resw s XOR lf_var2w s)) AND 0x8000)
    | t_ADCw \<Rightarrow> ucast (((lf_var1w s XOR lf_var2w s XOR 0x8000) AND (lf_resw s XOR lf_var2w s)) AND 0x8000)
    | t_ADDd \<Rightarrow> ucast (((lf_var1d s XOR lf_var2d s XOR 0x80000000) AND (lf_resd s XOR lf_var2d s)) AND 0x80000000)
    | t_ADCd \<Rightarrow> ucast (((lf_var1d s XOR lf_var2d s XOR 0x80000000) AND (lf_resd s XOR lf_var2d s)) AND 0x80000000)
    | t_SBBb \<Rightarrow> ucast (((lf_var1b s XOR lf_var2b s) AND (lf_var1b s XOR lf_resb s)) AND 0x80)
    | t_SUBb \<Rightarrow> ucast (((lf_var1b s XOR lf_var2b s) AND (lf_var1b s XOR lf_resb s)) AND 0x80)
    | t_CMPb \<Rightarrow> ucast (((lf_var1b s XOR lf_var2b s) AND (lf_var1b s XOR lf_resb s)) AND 0x80)
    | t_SBBw \<Rightarrow> ucast (((lf_var1w s XOR lf_var2w s) AND (lf_var1w s XOR lf_resw s)) AND 0x8000)
    | t_SUBw \<Rightarrow> ucast (((lf_var1w s XOR lf_var2w s) AND (lf_var1w s XOR lf_resw s)) AND 0x8000)
    | t_CMPw \<Rightarrow> ucast (((lf_var1w s XOR lf_var2w s) AND (lf_var1w s XOR lf_resw s)) AND 0x8000)
    | t_SBBd \<Rightarrow> ucast (((lf_var1d s XOR lf_var2d s) AND (lf_var1d s XOR lf_resd s)) AND 0x80000000)
    | t_SUBd \<Rightarrow> ucast (((lf_var1d s XOR lf_var2d s) AND (lf_var1d s XOR lf_resd s)) AND 0x80000000)
    | t_CMPd \<Rightarrow> ucast (((lf_var1d s XOR lf_var2d s) AND (lf_var1d s XOR lf_resd s)) AND 0x80000000)
    | t_INCb \<Rightarrow> of_bool (lf_resb s = 0x80)
    | t_INCw \<Rightarrow> of_bool (lf_resw s = 0x8000)
    | t_INCd \<Rightarrow> of_bool (lf_resd s = 0x80000000)
    | t_DECb \<Rightarrow> of_bool (lf_resb s = 0x7f)
    | t_DECw \<Rightarrow> of_bool (lf_resw s = 0x7fff)
    | t_DECd \<Rightarrow> of_bool (lf_resd s = 0x7fffffff)
    | t_NEGb \<Rightarrow> of_bool (lf_var1b s = 0x80)
    | t_NEGw \<Rightarrow> of_bool (lf_var1w s = 0x8000)
    | t_NEGd \<Rightarrow> of_bool (lf_var1d s = 0x80000000)
    | t_SHLb \<Rightarrow> ucast ((lf_resb s XOR lf_var1b s) AND 0x80)
    | t_SHLw \<Rightarrow> ucast ((lf_resw s XOR lf_var1w s) AND 0x8000)
    | t_DSHRw \<Rightarrow> ucast ((lf_resw s XOR lf_var1w s) AND 0x8000)
    | t_DSHLw \<Rightarrow> ucast ((lf_resw s XOR lf_var1w s) AND 0x8000)
    | t_SHLd \<Rightarrow> ucast ((lf_resd s XOR lf_var1d s) AND 0x80000000)
    | t_DSHRd \<Rightarrow> ucast ((lf_resd s XOR lf_var1d s) AND 0x80000000)
    | t_DSHLd \<Rightarrow> ucast ((lf_resd s XOR lf_var1d s) AND 0x80000000)
    | t_SHRb \<Rightarrow> if lf_var2b s AND 0x1f = 1 then of_bool (lf_var1b s > 0x80) else 0
    | t_SHRw \<Rightarrow> if lf_var2b s AND 0x1f = 1 then of_bool (lf_var1w s > 0x8000) else 0
    | t_SHRd \<Rightarrow> if lf_var2b s AND 0x1f = 1 then of_bool (lf_var1d s > 0x80000000) else 0
    | t_ORb \<Rightarrow> 0
    | t_ORw \<Rightarrow> 0
    | t_ORd \<Rightarrow> 0
    | t_ANDb \<Rightarrow> 0
    | t_ANDw \<Rightarrow> 0
    | t_ANDd \<Rightarrow> 0
    | t_XORb \<Rightarrow> 0
    | t_XORw \<Rightarrow> 0
    | t_XORd \<Rightarrow> 0
    | t_TESTb \<Rightarrow> 0
    | t_TESTw \<Rightarrow> 0
    | t_TESTd \<Rightarrow> 0
    | t_SARb \<Rightarrow> 0
    | t_SARw \<Rightarrow> 0
    | t_SARd \<Rightarrow> 0
    | t_DIV \<Rightarrow> 0
    | _ \<Rightarrow> 0)"

definition parity_lookup :: "u16 list" where
  "parity_lookup = map ucast [
     FLAG_PF, 0, 0, FLAG_PF, 0, FLAG_PF, FLAG_PF, 0, 0, FLAG_PF, FLAG_PF, 0, FLAG_PF, 0, 0, FLAG_PF,
     0, FLAG_PF, FLAG_PF, 0, FLAG_PF, 0, 0, FLAG_PF, FLAG_PF, 0, 0, FLAG_PF, 0, FLAG_PF, FLAG_PF, 0,
     0, FLAG_PF, FLAG_PF, 0, FLAG_PF, 0, 0, FLAG_PF, FLAG_PF, 0, 0, FLAG_PF, 0, FLAG_PF, FLAG_PF, 0,
     FLAG_PF, 0, 0, FLAG_PF, 0, FLAG_PF, FLAG_PF, 0, 0, FLAG_PF, FLAG_PF, 0, FLAG_PF, 0, 0, FLAG_PF,
     0, FLAG_PF, FLAG_PF, 0, FLAG_PF, 0, 0, FLAG_PF, FLAG_PF, 0, 0, FLAG_PF, 0, FLAG_PF, FLAG_PF, 0,
     FLAG_PF, 0, 0, FLAG_PF, 0, FLAG_PF, FLAG_PF, 0, 0, FLAG_PF, FLAG_PF, 0, FLAG_PF, 0, 0, FLAG_PF,
     FLAG_PF, 0, 0, FLAG_PF, 0, FLAG_PF, FLAG_PF, 0, 0, FLAG_PF, FLAG_PF, 0, FLAG_PF, 0, 0, FLAG_PF,
     0, FLAG_PF, FLAG_PF, 0, FLAG_PF, 0, 0, FLAG_PF, FLAG_PF, 0, 0, FLAG_PF, 0, FLAG_PF, FLAG_PF, 0,
     0, FLAG_PF, FLAG_PF, 0, FLAG_PF, 0, 0, FLAG_PF, FLAG_PF, 0, 0, FLAG_PF, 0, FLAG_PF, FLAG_PF, 0,
     FLAG_PF, 0, 0, FLAG_PF, 0, FLAG_PF, FLAG_PF, 0, 0, FLAG_PF, FLAG_PF, 0, FLAG_PF, 0, 0, FLAG_PF,
     FLAG_PF, 0, 0, FLAG_PF, 0, FLAG_PF, FLAG_PF, 0, 0, FLAG_PF, FLAG_PF, 0, FLAG_PF, 0, 0, FLAG_PF,
     0, FLAG_PF, FLAG_PF, 0, FLAG_PF, 0, 0, FLAG_PF, FLAG_PF, 0, 0, FLAG_PF, 0, FLAG_PF, FLAG_PF, 0,
     FLAG_PF, 0, 0, FLAG_PF, 0, FLAG_PF, FLAG_PF, 0, 0, FLAG_PF, FLAG_PF, 0, FLAG_PF, 0, 0, FLAG_PF,
     0, FLAG_PF, FLAG_PF, 0, FLAG_PF, 0, 0, FLAG_PF, FLAG_PF, 0, 0, FLAG_PF, 0, FLAG_PF, FLAG_PF, 0,
     0, FLAG_PF, FLAG_PF, 0, FLAG_PF, 0, 0, FLAG_PF, FLAG_PF, 0, 0, FLAG_PF, 0, FLAG_PF, FLAG_PF, 0,
     FLAG_PF, 0, 0, FLAG_PF, 0, FLAG_PF, FLAG_PF, 0, 0, FLAG_PF, FLAG_PF, 0, FLAG_PF, 0, 0, FLAG_PF]"

definition get_PF :: "cpu \<Rightarrow> u32" where
  "get_PF s = (case lf_type s of
      t_UNKNOWN \<Rightarrow> GETFLAG FLAG_PF s
    | _ \<Rightarrow> ucast (parity_lookup ! unat (lf_resb s)))"

section \<open>Writing the flags back\<close>

definition DOFLAG_PF :: "cpu \<Rightarrow> cpu" where
  "DOFLAG_PF s = s\<lparr>reg_flags := (reg_flags s AND NOT FLAG_PF) OR ucast (parity_lookup ! unat (lf_resb s))\<rparr>"

definition DOFLAG_AF :: "cpu \<Rightarrow> cpu" where
  "DOFLAG_AF s = s\<lparr>reg_flags := (reg_flags s AND NOT FLAG_AF)
     OR ucast ((lf_var1b s XOR lf_var2b s XOR lf_resb s) AND 0x10)\<rparr>"

definition DOFLAG_ZFb :: "cpu \<Rightarrow> cpu" where
  "DOFLAG_ZFb s = SETFLAGBIT FLAG_ZF (lf_resb s = 0) s"

definition DOFLAG_ZFw :: "cpu \<Rightarrow> cpu" where
  "DOFLAG_ZFw s = SETFLAGBIT FLAG_ZF (lf_resw s = 0) s"

definition DOFLAG_ZFd :: "cpu \<Rightarrow> cpu" where
  "DOFLAG_ZFd s = SETFLAGBIT FLAG_ZF (lf_resd s = 0) s"

definition DOFLAG_SFb :: "cpu \<Rightarrow> cpu" where
  "DOFLAG_SFb s = s\<lparr>reg_flags := (reg_flags s AND NOT FLAG_SF) OR ucast (lf_resb s AND 0x80)\<rparr>"

definition DOFLAG_SFw :: "cpu \<Rightarrow> cpu" where
  "DOFLAG_SFw s = s\<lparr>reg_flags := (reg_flags s AND NOT FLAG_SF)
     OR ucast (drop_bit 8 (lf_resw s AND 0x8000))\<rparr>"

definition DOFLAG_SFd :: "cpu \<Rightarrow> cpu" where
  "DOFLAG_SFd s = s\<lparr>reg_flags := (reg_flags s AND NOT FLAG_SF)
     OR drop_bit 24 (lf_resd s AND 0x80000000)\<rparr>"

text \<open>
  The cases of the switch in \<open>FillFlags\<close>, one definition per group of case labels; \<open>None\<close> is a
  flag kind with no label in the group.
\<close>

definition FillFlags_add :: "cpu \<Rightarrow> cpu option" where
  "FillFlags_add s = (case lf_type s of
      t_ADDb \<Rightarrow> Some (
        let s = SETFLAGBIT FLAG_CF (lf_resb s < lf_var1b s) s;
            s = DOFLAG_AF s;
            s = DOFLAG_ZFb s;
            s = DOFLAG_SFb s;
            s = SETFLAGBIT FLAG_OF (truth (ucast (((lf_var1b s XOR lf_var2b s XOR 0x80) AND (lf_resb s XOR lf_var1b s)) AND 0x80) :: u32)) s;
            s = DOFLAG_PF s
        in s)
    | t_ADDw \<Rightarrow> Some (
        let s = SETFLAGBIT FLAG_CF (lf_resw s < lf_var1w s) s;
            s = DOFLAG_AF s;
            s = DOFLAG_ZFw s;
            s = DOFLAG_SFw s;
            s = SETFLAGBIT FLAG_OF (truth (ucast (((lf_var1w s XOR lf_var2w s XOR 0x8000) AND (lf_resw s XOR lf_var1w s)) AND 0x8000) :: u32)) s;
            s = DOFLAG_PF s
        in s)
    | t_ADDd \<Rightarrow> Some (
        let s = SETFLAGBIT FLAG_CF (lf_resd s < lf_var1d s) s;
            s = DOFLAG_AF s;
            s = DOFLAG_ZFd s;
            s = DOFLAG_SFd s;
            s = SETFLAGBIT FLAG_OF (truth (ucast (((lf_var1d s XOR lf_var2d s XOR 0x80000000) AND (lf_resd s XOR lf_var1d s)) AND 0x80000000) :: u32)) s;
            s = DOFLAG_PF s
        in s)
    | t_ADCb \<Rightarrow> Some (
        let s = SETFLAGBIT FLAG_CF (lf_resb s < lf_var1b s \<or> (truth (lf_oldcf s) \<and> lf_resb s = lf_var1b s)) s;
            s = DOFLAG_AF s;
            s = DOFLAG_ZFb s;
            s = DOFLAG_SFb s;
            s = SETFLAGBIT FLAG_OF (truth (ucast (((lf_var1b s XOR lf_var2b s XOR 0x80) AND (lf_resb s XOR lf_var1b s)) AND 0x80) :: u32)) s;
            s = DOFLAG_PF s
        in s)
    | t_ADCw \<Rightarrow> Some (
        let s = SETFLAGBIT FLAG_CF (lf_resw s < lf_var1w s \<or> (truth (lf_oldcf s) \<and> lf_resw s = lf_var1w s)) s;
            s = DOFLAG_AF s;
            s = DOFLAG_ZFw s;
            s = DOFLAG_SFw s;
            s = SETFLAGBIT FLAG_OF (truth (ucast (((lf_var1w s XOR lf_var2w s XOR 0x8000) AND (lf_resw s XOR lf_var1w s)) AND 0x8000) :: u32)) s;
            s = DOFLAG_PF s
        in s)
    | t_ADCd \<Rightarrow> Some (
        let s = SETFLAGBIT FLAG_CF (lf_resd s < lf_var1d s \<or> (truth (lf_oldcf s) \<and> lf_resd s = lf_var1d s)) s;
            s = DOFLAG_AF s;
            s = DOFLAG_ZFd s;
            s = DOFLAG_SFd s;
            s = SETFLAGBIT FLAG_OF (truth (ucast (((lf_var1d s XOR lf_var2d s XOR 0x80000000) AND (lf_resd s XOR lf_var1d s)) AND 0x80000000) :: u32)) s;
            s = DOFLAG_PF s
        in s)
    | _ \<Rightarrow> None)"

definition FillFlags_sub :: "cpu \<Rightarrow> cpu option" where
  "FillFlags_sub s = (case lf_type s of
      t_SBBb \<Rightarrow> Some (
        let s = SETFLAGBIT FLAG_CF (lf_var1b s < lf_resb s \<or> (truth (lf_oldcf s) \<and> lf_var2b s = 0xff)) s;
            s = DOFLAG_AF s;
            s = DOFLAG_ZFb s;
            s = DOFLAG_SFb s;
            s = SETFLAGBIT FLAG_OF (truth (ucast (((lf_var1b s XOR lf_var2b s) AND (lf_var1b s XOR lf_resb s)) AND 0x80) :: u32)) s;
            s = DOFLAG_PF s
        in s)
    | t_SBBw \<Rightarrow> Some (
        let s = SETFLAGBIT FLAG_CF (lf_var1w s < lf_resw s \<or> (truth (lf_oldcf s) \<and> lf_var2w s = 0xffff)) s;
            s = DOFLAG_AF s;
            s = DOFLAG_ZFw s;
            s = DOFLAG_SFw s;
            s = SETFLAGBIT FLAG_OF (truth (ucast (((lf_var1w s XOR lf_var2w s) AND (lf_var1w s XOR lf_resw s)) AND 0x8000) :: u32)) s;
            s = DOFLAG_PF s
        in s)
    | t_SBBd \<Rightarrow> Some (
        let s = SETFLAGBIT FLAG_CF (lf_var1d s < lf_resd s \<or> (truth (lf_oldcf s) \<and> lf_var2d s = 0xffffffff)) s;
            s = DOFLAG_AF s;
            s = DOFLAG_ZFd s;
            s = DOFLAG_SFd s;
            s = SETFLAGBIT FLAG_OF (truth (ucast (((lf_var1d s XOR lf_var2d s) AND (lf_var1d s XOR lf_resd s)) AND 0x80000000) :: u32)) s;
            s = DOFLAG_PF s
        in s)
    | t_SUBb \<Rightarrow> Some (
        let s = SETFLAGBIT FLAG_CF (lf_var1b s < lf_var2b s) s;
            s = DOFLAG_AF s;
            s = DOFLAG_ZFb s;
            s = DOFLAG_SFb s;
            s = SETFLAGBIT FLAG_OF (truth (ucast (((lf_var1b s XOR lf_var2b s) AND (lf_var1b s XOR lf_resb s)) AND 0x80) :: u32)) s;
            s = DOFLAG_PF s
        in s)
    | t_CMPb \<Rightarrow> Some (
        let s = SETFLAGBIT FLAG_CF (lf_var1b s < lf_var2b s) s;
            s = DOFLAG_AF s;
            s = DOFLAG_ZFb s;
            s = DOFLAG_SFb s;
            s = SETFLAGBIT FLAG_OF (truth (ucast (((lf_var1b s XOR lf_var2b s) AND (lf_var1b s XOR lf_resb s)) AND 0x80) :: u32)) s;
            s = DOFLAG_PF s
        in s)
    | t_SUBw \<Rightarrow> Some (
        let s = SETFLAGBIT FLAG_CF (lf_var1w s < lf_var2w s) s;
            s = DOFLAG_AF s;
            s = DOFLAG_ZFw s;
            s = DOFLAG_SFw s;
            s = SETFLAGBIT FLAG_OF (truth (ucast (((lf_var1w s XOR lf_var2w s) AND (lf_var1w s XOR lf_resw s)) AND 0x8000) :: u32)) s;
            s = DOFLAG_PF s
        in s)
    | t_CMPw \<Rightarrow> Some (
        let s = SETFLAGBIT FLAG_CF (lf_var1w s < lf_var2w s) s;
            s = DOFLAG_AF s;
            s = DOFLAG_ZFw s;
            s = DOFLAG_SFw s;
            s = SETFLAGBIT FLAG_OF (truth (ucast (((lf_var1w s XOR lf_var2w s) AND (lf_var1w s XOR lf_resw s)) AND 0x8000) :: u32)) s;
            s = DOFLAG_PF s
        in s)
    | t_SUBd \<Rightarrow> Some (
        let s = SETFLAGBIT FLAG_CF (lf_var1d s < lf_var2d s) s;
            s = DOFLAG_AF s;
            s = DOFLAG_ZFd s;
            s = DOFLAG_SFd s;
            s = SETFLAGBIT FLAG_OF (truth (ucast (((lf_var1d s XOR lf_var2d s) AND (lf_var1d s XOR lf_resd s)) AND 0x80000000) :: u32)) s;
            s = DOFLAG_PF s
        in s)
    | t_CMPd \<Rightarrow> Some (
        let s = SETFLAGBIT FLAG_CF (lf_var1d s < lf_var2d s) s;
            s = DOFLAG_AF s;
            s = DOFLAG_ZFd s;
            s = DOFLAG_SFd s;
            s = SETFLAGBIT FLAG_OF (truth (ucast (((lf_var1d s XOR lf_var2d s) AND (lf_var1d s XOR lf_resd s)) AND 0x80000000) :: u32)) s;
            s = DOFLAG_PF s
        in s)
    | _ \<Rightarrow> None)"

definition FillFlags_logic :: "cpu \<Rightarrow> cpu option" where
  "FillFlags_logic s = (case lf_type s of
      t_ORb \<Rightarrow> Some (
        let s = SETFLAGBIT FLAG_CF (False) s;
            s = SETFLAGBIT FLAG_AF (False) s;
            s = DOFLAG_ZFb s;
            s = DOFLAG_SFb s;
            s = SETFLAGBIT FLAG_OF (False) s;
            s = DOFLAG_PF s
        in s)
    | t_TESTb \<Rightarrow> Some (
        let s = SETFLAGBIT FLAG_CF (False) s;
            s = SETFLAGBIT FLAG_AF (False) s;
            s = DOFLAG_ZFb s;
            s = DOFLAG_SFb s;
            s = SETFLAGBIT FLAG_OF (False) s;
            s = DOFLAG_PF s
        in s)
    | t_ANDb \<Rightarrow> Some (
        let s = SETFLAGBIT FLAG_CF (False) s;
            s = SETFLAGBIT FLAG_AF (False) s;
            s = DOFLAG_ZFb s;
            s = DOFLAG_SFb s;
            s = SETFLAGBIT FLAG_OF (False) s;
            s = DOFLAG_PF s
        in s)
    | t_XORb \<Rightarrow> Some (
        let s = SETFLAGBIT FLAG_CF (False) s;
            s = SETFLAGBIT FLAG_AF (False) s;
            s = DOFLAG_ZFb s;
            s = DOFLAG_SFb s;
            s = SETFLAGBIT FLAG_OF (False) s;
            s = DOFLAG_PF s
        in s)
    | t_ORw \<Rightarrow> Some (
        let s = SETFLAGBIT FLAG_CF (False) s;
            s = SETFLAGBIT FLAG_AF (False) s;
            s = DOFLAG_ZFw s;
            s = DOFLAG_SFw s;
            s = SETFLAGBIT FLAG_OF (False) s;
            s = DOFLAG_PF s
        in s)
    | t_TESTw \<Rightarrow> Some (
        let s = SETFLAGBIT FLAG_CF (False) s;
            s = SETFLAGBIT FLAG_AF (False) s;
            s = DOFLAG_ZFw s;
            s = DOFLAG_SFw s;
            s = SETFLAGBIT FLAG_OF (False) s;
            s = DOFLAG_PF s
        in s)
    | t_ANDw \<Rightarrow> Some (
        let s = SETFLAGBIT FLAG_CF (False) s;
            s = SETFLAGBIT FLAG_AF (False) s;
            s = DOFLAG_ZFw s;
            s = DOFLAG_SFw s;
            s = SETFLAGBIT FLAG_OF (False) s;
            s = DOFLAG_PF s
        in s)
    | t_XORw \<Rightarrow> Some (
        let s = SETFLAGBIT FLAG_CF (False) s;
            s = SETFLAGBIT FLAG_AF (False) s;
            s = DOFLAG_ZFw s;
            s = DOFLAG_SFw s;
            s = SETFLAGBIT FLAG_OF (False) s;
            s = DOFLAG_PF s
        in s)
    | t_ORd \<Rightarrow> Some (
        let s = SETFLAGBIT FLAG_CF (False) s;
            s = SETFLAGBIT FLAG_AF (False) s;
            s = DOFLAG_ZFd s;
            s = DOFLAG_SFd s;
            s = SETFLAGBIT FLAG_OF (False) s;
            s = DOFLAG_PF s
        in s)
    | t_TESTd \<Rightarrow> Some (
        let s = SETFLAGBIT FLAG_CF (False) s;
            s = SETFLAGBIT FLAG_AF (False) s;
            s = DOFLAG_ZFd s;
            s = DOFLAG_SFd s;
            s = SETFLAGBIT FLAG_OF (False) s;
            s = DOFLAG_PF s
        in s)
    | t_ANDd \<Rightarrow> Some (
        let s = SETFLAGBIT FLAG_CF (False) s;
            s = SETFLAGBIT FLAG_AF (False) s;
            s = DOFLAG_ZFd s;
            s = DOFLAG_SFd s;
            s = SETFLAGBIT FLAG_OF (False) s;
            s = DOFLAG_PF s
        in s)
    | t_XORd \<Rightarrow> Some (
        let s = SETFLAGBIT FLAG_CF (False) s;
            s = SETFLAGBIT FLAG_AF (False) s;
            s = DOFLAG_ZFd s;
            s = DOFLAG_SFd s;
            s = SETFLAGBIT FLAG_OF (False) s;
            s = DOFLAG_PF s
        in s)
    | _ \<Rightarrow> None)"

definition FillFlags_shl :: "cpu \<Rightarrow> cpu option" where
  "FillFlags_shl s = (case lf_type s of
      t_SHLb \<Rightarrow> Some (
        let s = (if lf_var2b s > 8 then SETFLAGBIT FLAG_CF (False) s else SETFLAGBIT FLAG_CF (truth (ucast (drop_bit (8 - unat (lf_var2b s)) (lf_var1b s) AND 1) :: u32)) s);
            s = DOFLAG_ZFb s;
            s = DOFLAG_SFb s;
            s = SETFLAGBIT FLAG_OF (truth (ucast ((lf_resb s XOR lf_var1b s) AND 0x80) :: u32)) s;
            s = DOFLAG_PF s;
            s = SETFLAGBIT FLAG_AF (truth (ucast (lf_var2b s AND 0x1f) :: u32)) s
        in s)
    | t_SHLw \<Rightarrow> Some (
        let s = (if lf_var2b s > 16 then SETFLAGBIT FLAG_CF (False) s else SETFLAGBIT FLAG_CF (truth (ucast (drop_bit (16 - unat (lf_var2b s)) (lf_var1w s) AND 1) :: u32)) s);
            s = DOFLAG_ZFw s;
            s = DOFLAG_SFw s;
            s = SETFLAGBIT FLAG_OF (truth (ucast ((lf_resw s XOR lf_var1w s) AND 0x8000) :: u32)) s;
            s = DOFLAG_PF s;
            s = SETFLAGBIT FLAG_AF (truth (ucast (lf_var2w s AND 0x1f) :: u32)) s
        in s)
    | t_SHLd \<Rightarrow> Some (
        let s = SETFLAGBIT FLAG_CF (truth (ucast (drop_bit (32 - unat (lf_var2b s)) (lf_var1d s) AND 1) :: u32)) s;
            s = DOFLAG_ZFd s;
            s = DOFLAG_SFd s;
            s = SETFLAGBIT FLAG_OF (truth (ucast ((lf_resd s XOR lf_var1d s) AND 0x80000000) :: u32)) s;
            s = DOFLAG_PF s;
            s = SETFLAGBIT FLAG_AF (truth (ucast (lf_var2d s AND 0x1f) :: u32)) s
        in s)
    | t_DSHLw \<Rightarrow> Some (
        let s = SETFLAGBIT FLAG_CF (truth (ucast (drop_bit (32 - unat (lf_var2b s)) (lf_var1d s) AND 1) :: u32)) s;
            s = DOFLAG_ZFw s;
            s = DOFLAG_SFw s;
            s = SETFLAGBIT FLAG_OF (truth (ucast ((lf_resw s XOR lf_var1w s) AND 0x8000) :: u32)) s;
            s = DOFLAG_PF s
        in s)
    | t_DSHLd \<Rightarrow> Some (
        let s = SETFLAGBIT FLAG_CF (truth (ucast (drop_bit (32 - unat (lf_var2b s)) (lf_var1d s) AND 1) :: u32)) s;
            s = DOFLAG_ZFd s;
            s = DOFLAG_SFd s;
            s = SETFLAGBIT FLAG_OF (truth (ucast ((lf_resd s XOR lf_var1d s) AND 0x80000000) :: u32)) s;
            s = DOFLAG_PF s
        in s)
    | _ \<Rightarrow> None)"

definition FillFlags_shr :: "cpu \<Rightarrow> cpu option" where
  "FillFlags_shr s = (case lf_type s of
      t_SHRb \<Rightarrow> Some (
        let s = SETFLAGBIT FLAG_CF (truth (ucast (drop_bit (lf_var2b_minus_one s) (lf_var1b s) AND 1) :: u32)) s;
            s = DOFLAG_ZFb s;
            s = DOFLAG_SFb s;
            s = (if lf_var2b s AND 0x1f = 1 then SETFLAGBIT FLAG_OF (lf_var1b s \<ge> 0x80) s else SETFLAGBIT FLAG_OF (False) s);
            s = DOFLAG_PF s;
            s = SETFLAGBIT FLAG_AF (truth (ucast (lf_var2b s AND 0x1f) :: u32)) s
        in s)
    | t_SHRw \<Rightarrow> Some (
        let s = SETFLAGBIT FLAG_CF (truth (ucast (drop_bit (lf_var2b_minus_one s) (lf_var1w s) AND 1) :: u32)) s;
            s = DOFLAG_ZFw s;
            s = DOFLAG_SFw s;
            s = (if lf_var2w s AND 0x1f = 1 then SETFLAGBIT FLAG_OF (lf_var1w s \<ge> 0x8000) s else SETFLAGBIT FLAG_OF (False) s);
            s = DOFLAG_PF s;
            s = SETFLAGBIT FLAG_AF (truth (ucast (lf_var2w s AND 0x1f) :: u32)) s
        in s)
    | t_SHRd \<Rightarrow> Some (
        let s = SETFLAGBIT FLAG_CF (truth (ucast (drop_bit (lf_var2b_minus_one s) (lf_var1d s) AND 1) :: u32)) s;
            s = DOFLAG_ZFd s;
            s = DOFLAG_SFd s;
            s = (if lf_var2d s AND 0x1f = 1 then SETFLAGBIT FLAG_OF (lf_var1d s \<ge> 0x80000000) s else SETFLAGBIT FLAG_OF (False) s);
            s = DOFLAG_PF s;
            s = SETFLAGBIT FLAG_AF (truth (ucast (lf_var2d s AND 0x1f) :: u32)) s
        in s)
    | t_DSHRw \<Rightarrow> Some (
        let s = SETFLAGBIT FLAG_CF (truth (ucast (drop_bit (lf_var2b_minus_one s) (lf_var1d s) AND 1) :: u32)) s;
            s = DOFLAG_ZFw s;
            s = DOFLAG_SFw s;
            s = SETFLAGBIT FLAG_OF (truth (ucast ((lf_resw s XOR lf_var1w s) AND 0x8000) :: u32)) s;
            s = DOFLAG_PF s
        in s)
    | t_DSHRd \<Rightarrow> Some (
        let s = SETFLAGBIT FLAG_CF (truth (ucast (drop_bit (lf_var2b_minus_one s) (lf_var1d s) AND 1) :: u32)) s;
            s = DOFLAG_ZFd s;
            s = DOFLAG_SFd s;
            s = SETFLAGBIT FLAG_OF (truth (ucast ((lf_resd s XOR lf_var1d s) AND 0x80000000) :: u32)) s;
            s = DOFLAG_PF s
        in s)
    | t_SARb \<Rightarrow> Some (
        let s = SETFLAGBIT FLAG_CF (truth (signed_drop_bit (lf_var2b_minus_one s) (scast (lf_var1b s) :: u32) AND 1 :: u32)) s;
            s = DOFLAG_ZFb s;
            s = DOFLAG_SFb s;
            s = SETFLAGBIT FLAG_OF (False) s;
            s = DOFLAG_PF s;
            s = SETFLAGBIT FLAG_AF (truth (ucast (lf_var2b s AND 0x1f) :: u32)) s
        in s)
    | t_SARw \<Rightarrow> Some (
        let s = SETFLAGBIT FLAG_CF (truth (signed_drop_bit (lf_var2b_minus_one s) (scast (lf_var1w s) :: u32) AND 1 :: u32)) s;
            s = DOFLAG_ZFw s;
            s = DOFLAG_SFw s;
            s = SETFLAGBIT FLAG_OF (False) s;
            s = DOFLAG_PF s;
            s = SETFLAGBIT FLAG_AF (truth (ucast (lf_var2w s AND 0x1f) :: u32)) s
        in s)
    | t_SARd \<Rightarrow> Some (
        let s = SETFLAGBIT FLAG_CF (truth (signed_drop_bit (lf_var2b_minus_one s) (scast (lf_var1d s) :: u32) AND 1 :: u32)) s;
            s = DOFLAG_ZFd s;
            s = DOFLAG_SFd s;
            s = SETFLAGBIT FLAG_OF (False) s;
            s = DOFLAG_PF s;
            s = SETFLAGBIT FLAG_AF (truth (ucast (lf_var2d s AND 0x1f) :: u32)) s
        in s)
    | _ \<Rightarrow> None)"

definition FillFlags_step :: "cpu \<Rightarrow> cpu option" where
  "FillFlags_step s = (case lf_type s of
      t_INCb \<Rightarrow> Some (
        let s = SETFLAGBIT FLAG_AF (lf_resb s AND 0x0f = 0) s;
            s = DOFLAG_ZFb s;
            s = DOFLAG_SFb s;
            s = SETFLAGBIT FLAG_OF (lf_resb s = 0x80) s;
            s = DOFLAG_PF s
        in s)
    | t_INCw \<Rightarrow> Some (
        let s = SETFLAGBIT FLAG_AF (lf_resw s AND 0x0f = 0) s;
            s = DOFLAG_ZFw s;
            s = DOFLAG_SFw s;
            s = SETFLAGBIT FLAG_OF (lf_resw s = 0x8000) s;
            s = DOFLAG_PF s
        in s)
    | t_INCd \<Rightarrow> Some (
        let s = SETFLAGBIT FLAG_AF (lf_resd s AND 0x0f = 0) s;
            s = DOFLAG_ZFd s;
            s = DOFLAG_SFd s;
            s = SETFLAGBIT FLAG_OF (lf_resd s = 0x80000000) s;
            s = DOFLAG_PF s
        in s)
    | t_DECb \<Rightarrow> Some (
        let s = SETFLAGBIT FLAG_AF (lf_resb s AND 0x0f = 0x0f) s;
            s = DOFLAG_ZFb s;
            s = DOFLAG_SFb s;
            s = SETFLAGBIT FLAG_OF (lf_resb s = 0x7f) s;
            s = DOFLAG_PF s
        in s)
    | t_DECw \<Rightarrow> Some (
        let s = SETFLAGBIT FLAG_AF (lf_resw s AND 0x0f = 0x0f) s;
            s = DOFLAG_ZFw s;
            s = DOFLAG_SFw s;
            s = SETFLAGBIT FLAG_OF (lf_resw s = 0x7fff) s;
            s = DOFLAG_PF s
        in s)
    | t_DECd \<Rightarrow> Some (
        let s = SETFLAGBIT FLAG_AF (lf_resd s AND 0x0f = 0x0f) s;
            s = DOFLAG_ZFd s;
            s = DOFLAG_SFd s;
            s = SETFLAGBIT FLAG_OF (lf_resd s = 0x7fffffff) s;
            s = DOFLAG_PF s
        in s)
    | t_NEGb \<Rightarrow> Some (
        let s = SETFLAGBIT FLAG_CF (lf_var1b s \<noteq> 0) s;
            s = SETFLAGBIT FLAG_AF (lf_resb s AND 0x0f \<noteq> 0) s;
            s = DOFLAG_ZFb s;
            s = DOFLAG_SFb s;
            s = SETFLAGBIT FLAG_OF (lf_var1b s = 0x80) s;
            s = DOFLAG_PF s
        in s)
    | t_NEGw \<Rightarrow> Some (
        let s = SETFLAGBIT FLAG_CF (lf_var1w s \<noteq> 0) s;
            s = SETFLAGBIT FLAG_AF (lf_resw s AND 0x0f \<noteq> 0) s;
            s = DOFLAG_ZFw s;
            s = DOFLAG_SFw s;
            s = SETFLAGBIT FLAG_OF (lf_var1w s = 0x8000) s;
            s = DOFLAG_PF s
        in s)
    | t_NEGd \<Rightarrow> Some (
        let s = SETFLAGBIT FLAG_CF (lf_var1d s \<noteq> 0) s;
            s = SETFLAGBIT FLAG_AF (lf_resd s AND 0x0f \<noteq> 0) s;
            s = DOFLAG_ZFd s;
            s = DOFLAG_SFd s;
            s = SETFLAGBIT FLAG_OF (lf_var1d s = 0x80000000) s;
            s = DOFLAG_PF s
        in s)
    | t_DIV \<Rightarrow> Some s
    | t_MUL \<Rightarrow> Some s
    | _ \<Rightarrow> None)"

definition FillFlags_switch :: "cpu \<Rightarrow> cpu option" where
  "FillFlags_switch s =
     (if lf_type s = t_UNKNOWN then Some s
      else case FillFlags_add s of Some s' \<Rightarrow> Some s'
      | None \<Rightarrow> (case FillFlags_sub s of Some s' \<Rightarrow> Some s'
      | None \<Rightarrow> (case FillFlags_logic s of Some s' \<Rightarrow> Some s'
      | None \<Rightarrow> (case FillFlags_shl s of Some s' \<Rightarrow> Some s'
      | None \<Rightarrow> (case FillFlags_shr s of Some s' \<Rightarrow> Some s'
      | None \<Rightarrow> FillFlags_step s)))))"

text \<open>An unhandled kind returns 0 and leaves \<open>lflags.type\<close> as it is.\<close>

definition FillFlags :: "cpu \<Rightarrow> u32 \<times> cpu" where
  "FillFlags s = (case FillFlags_switch s of
      None \<Rightarrow> (0, s)
    | Some s' \<Rightarrow> (let s'' = s'\<lparr>lf_type := t_UNKNOWN\<rparr> in (reg_flags s'', s'')))"

definition FillFlagsNoCFOF_add :: "cpu \<Rightarrow> cpu option" where
  "FillFlagsNoCFOF_add s = (case lf_type s of
      t_ADDb \<Rightarrow> Some (
        let s = DOFLAG_AF s;
            s = DOFLAG_ZFb s;
            s = DOFLAG_SFb s;
            s = DOFLAG_PF s
        in s)
    | t_ADDw \<Rightarrow> Some (
        let s = DOFLAG_AF s;
            s = DOFLAG_ZFw s;
            s = DOFLAG_SFw s;
            s = DOFLAG_PF s
        in s)
    | t_ADDd \<Rightarrow> Some (
        let s = DOFLAG_AF s;
            s = DOFLAG_ZFd s;
            s = DOFLAG_SFd s;
            s = DOFLAG_PF s
        in s)
    | t_ADCb \<Rightarrow> Some (
        let s = DOFLAG_AF s;
            s = DOFLAG_ZFb s;
            s = DOFLAG_SFb s;
            s = DOFLAG_PF s
        in s)
    | t_ADCw \<Rightarrow> Some (
        let s = DOFLAG_AF s;
            s = DOFLAG_ZFw s;
            s = DOFLAG_SFw s;
            s = DOFLAG_PF s
        in s)
    | t_ADCd \<Rightarrow> Some (
        let s = DOFLAG_AF s;
            s = DOFLAG_ZFd s;
            s = DOFLAG_SFd s;
            s = DOFLAG_PF s
        in s)
    | t_SBBb \<Rightarrow> Some (
        let s = DOFLAG_AF s;
            s = DOFLAG_ZFb s;
            s = DOFLAG_SFb s;
            s = DOFLAG_PF s
        in s)
    | t_SBBw \<Rightarrow> Some (
        let s = DOFLAG_AF s;
            s = DOFLAG_ZFw s;
            s = DOFLAG_SFw s;
            s = DOFLAG_PF s
        in s)
    | t_SBBd \<Rightarrow> Some (
        let s = DOFLAG_AF s;
            s = DOFLAG_ZFd s;
            s = DOFLAG_SFd s;
            s = DOFLAG_PF s
        in s)
    | t_SUBb \<Rightarrow> Some (
        let s = DOFLAG_AF s;
            s = DOFLAG_ZFb s;
            s = DOFLAG_SFb s;
            s = DOFLAG_PF s
        in s)
    | t_CMPb \<Rightarrow> Some (
        let s = DOFLAG_AF s;
            s = DOFLAG_ZFb s;
            s = DOFLAG_SFb s;
            s = DOFLAG_PF s
        in s)
    | t_SUBw \<Rightarrow> Some (
        let s = DOFLAG_AF s;
            s = DOFLAG_ZFw s;
            s = DOFLAG_SFw s;
            s = DOFLAG_PF s
        in s)
    | t_CMPw \<Rightarrow> Some (
        let s = DOFLAG_AF s;
            s = DOFLAG_ZFw s;
            s = DOFLAG_SFw s;
            s = DOFLAG_PF s
        in s)
    | t_SUBd \<Rightarrow> Some (
        let s = DOFLAG_AF s;
            s = DOFLAG_ZFd s;
            s = DOFLAG_SFd s;
            s = DOFLAG_PF s
        in s)
    | t_CMPd \<Rightarrow> Some (
        let s = DOFLAG_AF s;
            s = DOFLAG_ZFd s;
            s = DOFLAG_SFd s;
            s = DOFLAG_PF s
        in s)
    | _ \<Rightarrow> None)"

definition FillFlagsNoCFOF_logic :: "cpu \<Rightarrow> cpu option" where
  "FillFlagsNoCFOF_logic s = (case lf_type s of
      t_ORb \<Rightarrow> Some (
        let s = SETFLAGBIT FLAG_AF (False) s;
            s = DOFLAG_ZFb s;
            s = DOFLAG_SFb s;
            s = DOFLAG_PF s
        in s)
    | t_TESTb \<Rightarrow> Some (
        let s = SETFLAGBIT FLAG_AF (False) s;
            s = DOFLAG_ZFb s;
            s = DOFLAG_SFb s;
            s = DOFLAG_PF s
        in s)
    | t_ANDb \<Rightarrow> Some (
        let s = SETFLAGBIT FLAG_AF (False) s;
            s = DOFLAG_ZFb s;
            s = DOFLAG_SFb s;
            s = DOFLAG_PF s
        in s)
    | t_XORb \<Rightarrow> Some (
        let s = SETFLAGBIT FLAG_AF (False) s;
            s = DOFLAG_ZFb s;
            s = DOFLAG_SFb s;
            s = DOFLAG_PF s
        in s)
    | t_ORw \<Rightarrow> Some (
        let s = SETFLAGBIT FLAG_AF (False) s;
            s = DOFLAG_ZFw s;
            s = DOFLAG_SFw s;
            s = DOFLAG_PF s
        in s)
    | t_TESTw \<Rightarrow> Some (
        let s = SETFLAGBIT FLAG_AF (False) s;
            s = DOFLAG_ZFw s;
            s = DOFLAG_SFw s;
            s = DOFLAG_PF s
        in s)
    | t_ANDw \<Rightarrow> Some (
        let s = SETFLAGBIT FLAG_AF (False) s;
            s = DOFLAG_ZFw s;
            s = DOFLAG_SFw s;
            s = DOFLAG_PF s
        in s)
    | t_XORw \<Rightarrow> Some (
        let s = SETFLAGBIT FLAG_AF (False) s;
            s = DOFLAG_ZFw s;
            s = DOFLAG_SFw s;
            s = DOFLAG_PF s
        in s)
    | t_ORd \<Rightarrow> Some (
        let s = SETFLAGBIT FLAG_AF (False) s;
            s = DOFLAG_ZFd s;
            s = DOFLAG_SFd s;
            s = DOFLAG_PF s
        in s)
    | t_TESTd \<Rightarrow> Some (
        let s = SETFLAGBIT FLAG_AF (False) s;
            s = DOFLAG_ZFd s;
            s = DOFLAG_SFd s;
            s = DOFLAG_PF s
        in s)
    | t_ANDd \<Rightarrow> Some (
        let s = SETFLAGBIT FLAG_AF (False) s;
            s = DOFLAG_ZFd s;
            s = DOFLAG_SFd s;
            s = DOFLAG_PF s
        in s)
    | t_XORd \<Rightarrow> Some (
        let s = SETFLAGBIT FLAG_AF (False) s;
            s = DOFLAG_ZFd s;
            s = DOFLAG_SFd s;
            s = DOFLAG_PF s
        in s)
    | t_DSHLw \<Rightarrow> Some (
        let s = DOFLAG_ZFw s;
            s = DOFLAG_SFw s;
            s = DOFLAG_PF s
        in s)
    | t_DSHRw \<Rightarrow> Some (
        let s = DOFLAG_ZFw s;
            s = DOFLAG_SFw s;
            s = DOFLAG_PF s
        in s)
    | t_DSHLd \<Rightarrow> Some (
        let s = DOFLAG_ZFd s;
            s = DOFLAG_SFd s;
            s = DOFLAG_PF s
        in s)
    | t_DSHRd \<Rightarrow> Some (
        let s = DOFLAG_ZFd s;
            s = DOFLAG_SFd s;
            s = DOFLAG_PF s
        in s)
    | t_SHLb \<Rightarrow> Some (
        let s = DOFLAG_ZFb s;
            s = DOFLAG_SFb s;
            s = DOFLAG_PF s;
            s = SETFLAGBIT FLAG_AF (truth (ucast (lf_var2b s AND 0x1f) :: u32)) s
        in s)
    | t_SHRb \<Rightarrow> Some (
        let s = DOFLAG_ZFb s;
            s = DOFLAG_SFb s;
            s = DOFLAG_PF s;
            s = SETFLAGBIT FLAG_AF (truth (ucast (lf_var2b s AND 0x1f) :: u32)) s
        in s)
    | t_SARb \<Rightarrow> Some (
        let s = DOFLAG_ZFb s;
            s = DOFLAG_SFb s;
            s = DOFLAG_PF s;
            s = SETFLAGBIT FLAG_AF (truth (ucast (lf_var2b s AND 0x1f) :: u32)) s
        in s)
    | t_SHLw \<Rightarrow> Some (
        let s = DOFLAG_ZFw s;
            s = DOFLAG_SFw s;
            s = DOFLAG_PF s;
            s = SETFLAGBIT FLAG_AF (truth (ucast (lf_var2w s AND 0x1f) :: u32)) s
        in s)
    | t_SHRw \<Rightarrow> Some (
        let s = DOFLAG_ZFw s;
            s = DOFLAG_SFw s;
            s = DOFLAG_PF s;
            s = SETFLAGBIT FLAG_AF (truth (ucast (lf_var2w s AND 0x1f) :: u32)) s
        in s)
    | t_SARw \<Rightarrow> Some (
        let s = DOFLAG_ZFw s;
            s = DOFLAG_SFw s;
            s = DOFLAG_PF s;
            s = SETFLAGBIT FLAG_AF (truth (ucast (lf_var2w s AND 0x1f) :: u32)) s
        in s)
    | t_SHLd \<Rightarrow> Some (
        let s = DOFLAG_ZFd s;
            s = DOFLAG_SFd s;
            s = DOFLAG_PF s;
            s = SETFLAGBIT FLAG_AF (truth (ucast (lf_var2d s AND 0x1f) :: u32)) s
        in s)
    | t_SHRd \<Rightarrow> Some (
        let s = DOFLAG_ZFd s;
            s = DOFLAG_SFd s;
            s = DOFLAG_PF s;
            s = SETFLAGBIT FLAG_AF (truth (ucast (lf_var2d s AND 0x1f) :: u32)) s
        in s)
    | t_SARd \<Rightarrow> Some (
        let s = DOFLAG_ZFd s;
            s = DOFLAG_SFd s;
            s = DOFLAG_PF s;
            s = SETFLAGBIT FLAG_AF (truth (ucast (lf_var2d s AND 0x1f) :: u32)) s
        in s)
    | _ \<Rightarrow> None)"

definition FillFlagsNoCFOF_step :: "cpu \<Rightarrow> cpu option" where
  "FillFlagsNoCFOF_step s = (case lf_type s of
      t_INCb \<Rightarrow> Some (
        let s = SETFLAGBIT FLAG_AF (lf_resb s AND 0x0f = 0) s;
            s = DOFLAG_ZFb s;
            s = DOFLAG_SFb s;
            s = DOFLAG_PF s
        in s)
    | t_INCw \<Rightarrow> Some (
        let s = SETFLAGBIT FLAG_AF (lf_resw s AND 0x0f = 0) s;
            s = DOFLAG_ZFw s;
            s = DOFLAG_SFw s;
            s = DOFLAG_PF s
        in s)
    | t_INCd \<Rightarrow> Some (
        let s = SETFLAGBIT FLAG_AF (lf_resd s AND 0x0f = 0) s;
            s = DOFLAG_ZFd s;
            s = DOFLAG_SFd s;
            s = DOFLAG_PF s
        in s)
    | t_DECb \<Rightarrow> Some (
        let s = SETFLAGBIT FLAG_AF (lf_resb s AND 0x0f = 0x0f) s;
            s = DOFLAG_ZFb s;
            s = DOFLAG_SFb s;
            s = DOFLAG_PF s
        in s)
    | t_DECw \<Rightarrow> Some (
        let s = SETFLAGBIT FLAG_AF (lf_resw s AND 0x0f = 0x0f) s;
            s = DOFLAG_ZFw s;
            s = DOFLAG_SFw s;
            s = DOFLAG_PF s
        in s)
    | t_DECd \<Rightarrow> Some (
        let s = SETFLAGBIT FLAG_AF (lf_resd s AND 0x0f = 0x0f) s;
            s = DOFLAG_ZFd s;
            s = DOFLAG_SFd s;
            s = DOFLAG_PF s
        in s)
    | t_NEGb \<Rightarrow> Some (
        let s = SETFLAGBIT FLAG_AF (lf_resb s AND 0x0f \<noteq> 0) s;
            s = DOFLAG_ZFb s;
            s = DOFLAG_SFb s;
            s = DOFLAG_PF s
        in s)
    | t_NEGw \<Rightarrow> Some (
        let s = SETFLAGBIT FLAG_AF (lf_resw s AND 0x0f \<noteq> 0) s;
            s = DOFLAG_ZFw s;
            s = DOFLAG_SFw s;
            s = DOFLAG_PF s
        in s)
    | t_NEGd \<Rightarrow> Some (
        let s = SETFLAGBIT FLAG_AF (lf_resd s AND 0x0f \<noteq> 0) s;
            s = DOFLAG_ZFd s;
            s = DOFLAG_SFd s;
            s = DOFLAG_PF s
        in s)
    | t_DIV \<Rightarrow> Some s
    | t_MUL \<Rightarrow> Some s
    | _ \<Rightarrow> None)"

text \<open>Here an unhandled kind is logged and falls through to the reset of the type.\<close>

definition FillFlagsNoCFOF :: "cpu \<Rightarrow> cpu" where
  "FillFlagsNoCFOF s =
     (if lf_type s = t_UNKNOWN then s
      else (case FillFlagsNoCFOF_add s of Some s' \<Rightarrow> s'
        | None \<Rightarrow> (case FillFlagsNoCFOF_logic s of Some s' \<Rightarrow> s'
        | None \<Rightarrow> (case FillFlagsNoCFOF_step s of Some s' \<Rightarrow> s'
        | None \<Rightarrow> s)))\<lparr>lf_type := t_UNKNOWN\<rparr>)"

definition DestroyConditionFlags :: "cpu \<Rightarrow> cpu" where
  "DestroyConditionFlags s = s\<lparr>lf_type := t_UNKNOWN\<rparr>"

section \<open>Conditions of the jump instructions\<close>

definition TFLG_O :: "cpu \<Rightarrow> bool" where "TFLG_O s \<longleftrightarrow> truth (get_OF s)"
definition TFLG_NO :: "cpu \<Rightarrow> bool" where "TFLG_NO s \<longleftrightarrow> \<not> truth (get_OF s)"
definition TFLG_B :: "cpu \<Rightarrow> bool" where "TFLG_B s \<longleftrightarrow> truth (get_CF s)"
definition TFLG_NB :: "cpu \<Rightarrow> bool" where "TFLG_NB s \<longleftrightarrow> \<not> truth (get_CF s)"
definition TFLG_Z :: "cpu \<Rightarrow> bool" where "TFLG_Z s \<longleftrightarrow> truth (get_ZF s)"
definition TFLG_NZ :: "cpu \<Rightarrow> bool" where "TFLG_NZ s \<longleftrightarrow> \<not> truth (get_ZF s)"
definition TFLG_BE :: "cpu \<Rightarrow> bool" where
  "TFLG_BE s \<longleftrightarrow> truth (get_CF s) \<or> truth (get_ZF s)"
definition TFLG_NBE :: "cpu \<Rightarrow> bool" where
  "TFLG_NBE s \<longleftrightarrow> \<not> truth (get_CF s) \<and> \<not> truth (get_ZF s)"
definition TFLG_S :: "cpu \<Rightarrow> bool" where "TFLG_S s \<longleftrightarrow> truth (get_SF s)"
definition TFLG_NS :: "cpu \<Rightarrow> bool" where "TFLG_NS s \<longleftrightarrow> \<not> truth (get_SF s)"
definition TFLG_P :: "cpu \<Rightarrow> bool" where "TFLG_P s \<longleftrightarrow> truth (get_PF s)"
definition TFLG_NP :: "cpu \<Rightarrow> bool" where "TFLG_NP s \<longleftrightarrow> \<not> truth (get_PF s)"
definition TFLG_L :: "cpu \<Rightarrow> bool" where
  "TFLG_L s \<longleftrightarrow> (get_SF s \<noteq> 0) \<noteq> (get_OF s \<noteq> 0)"
definition TFLG_NL :: "cpu \<Rightarrow> bool" where
  "TFLG_NL s \<longleftrightarrow> (get_SF s \<noteq> 0) = (get_OF s \<noteq> 0)"
definition TFLG_LE :: "cpu \<Rightarrow> bool" where
  "TFLG_LE s \<longleftrightarrow> truth (get_ZF s) \<or> ((get_SF s \<noteq> 0) \<noteq> (get_OF s \<noteq> 0))"
definition TFLG_NLE :: "cpu \<Rightarrow> bool" where
  "TFLG_NLE s \<longleftrightarrow> \<not> truth (get_ZF s) \<and> ((get_SF s \<noteq> 0) = (get_OF s \<noteq> 0))"

lemmas TFLG_defs = TFLG_O_def TFLG_NO_def TFLG_B_def TFLG_NB_def TFLG_Z_def TFLG_NZ_def
  TFLG_BE_def TFLG_NBE_def TFLG_S_def TFLG_NS_def TFLG_P_def TFLG_NP_def TFLG_L_def TFLG_NL_def
  TFLG_LE_def TFLG_NLE_def

end
