(* ===== verification/Alu.thy ===== *)
theory Alu
  imports Cpu_Flags "HOL-Library.Signed_Division"
begin

text \<open>
  The arithmetic macros of \<open>src/src/cpu/instructions.h\<close>. A macro loads its first operand, computes,
  records operands and result in \<open>lflags\<close> and saves the result. The model takes the loaded value
  as its argument and returns the value to save with the new state, \<open>None\<close> where the macro
  leaves the operand alone (\<open>break\<close> on a zero count).
\<close>

section \<open>Operands\<close>

definition set_var1 :: "'a::len word \<Rightarrow> cpu \<Rightarrow> cpu" where
  "set_var1 v s = s\<lparr>lf_var1 := set_low (lf_var1 s) v\<rparr>"

definition set_var2 :: "'a::len word \<Rightarrow> cpu \<Rightarrow> cpu" where
  "set_var2 v s = s\<lparr>lf_var2 := set_low (lf_var2 s) v\<rparr>"

definition set_res :: "'a::len word \<Rightarrow> cpu \<Rightarrow> cpu" where
  "set_res v s = s\<lparr>lf_res := set_low (lf_res s) v\<rparr>"

definition set_type :: "lazy_type \<Rightarrow> cpu \<Rightarrow> cpu" where
  "set_type t s = s\<lparr>lf_type := t\<rparr>"

definition set_oldcf :: "cpu \<Rightarrow> cpu" where
  "set_oldcf s = s\<lparr>lf_oldcf := of_bool (truth (get_CF s))\<rparr>"

definition LoadCF :: "cpu \<Rightarrow> cpu" where
  "LoadCF s = SETFLAGBIT FLAG_CF (truth (get_CF s)) s"

abbreviation oldcf :: "cpu \<Rightarrow> 'a::len word" where "oldcf s \<equiv> ucast (lf_oldcf s)"

abbreviation reg_al :: "cpu \<Rightarrow> u8" where "reg_al s \<equiv> ucast (reg_eax s)"
abbreviation reg_ah :: "cpu \<Rightarrow> u8" where "reg_ah s \<equiv> ucast (drop_bit 8 (reg_eax s))"
abbreviation reg_ax :: "cpu \<Rightarrow> u16" where "reg_ax s \<equiv> ucast (reg_eax s)"
abbreviation reg_dx :: "cpu \<Rightarrow> u16" where "reg_dx s \<equiv> ucast (reg_edx s)"

definition set_al :: "u8 \<Rightarrow> cpu \<Rightarrow> cpu" where
  "set_al v s = s\<lparr>reg_eax := set_low (reg_eax s) v\<rparr>"

definition set_ah :: "u8 \<Rightarrow> cpu \<Rightarrow> cpu" where
  "set_ah v s = s\<lparr>reg_eax := (reg_eax s AND NOT 0xff00) OR push_bit 8 (ucast v)\<rparr>"

definition set_ax :: "u16 \<Rightarrow> cpu \<Rightarrow> cpu" where
  "set_ax v s = s\<lparr>reg_eax := set_low (reg_eax s) v\<rparr>"

definition set_dx :: "u16 \<Rightarrow> cpu \<Rightarrow> cpu" where
  "set_dx v s = s\<lparr>reg_edx := set_low (reg_edx s) v\<rparr>"

section \<open>General instructions, byte operands\<close>

definition ADDB :: "u8 \<Rightarrow> u8 \<Rightarrow> cpu \<Rightarrow> u8 \<times> cpu" where
  "ADDB op1 op2 s =
     (let s = set_var1 op1 s;
          s = set_var2 op2 s;
          s = set_res (lf_var1b s + lf_var2b s) s
      in (lf_resb s, set_type t_ADDb s))"

definition ADCB :: "u8 \<Rightarrow> u8 \<Rightarrow> cpu \<Rightarrow> u8 \<times> cpu" where
  "ADCB op1 op2 s =
     (let s = set_oldcf s;
          s = set_var1 op1 s;
          s = set_var2 op2 s;
          s = set_res (lf_var1b s + lf_var2b s + oldcf s) s
      in (lf_resb s, set_type t_ADCb s))"

definition SBBB :: "u8 \<Rightarrow> u8 \<Rightarrow> cpu \<Rightarrow> u8 \<times> cpu" where
  "SBBB op1 op2 s =
     (let s = set_oldcf s;
          s = set_var1 op1 s;
          s = set_var2 op2 s;
          s = set_res (lf_var1b s - (lf_var2b s + oldcf s)) s
      in (lf_resb s, set_type t_SBBb s))"

definition SUBB :: "u8 \<Rightarrow> u8 \<Rightarrow> cpu \<Rightarrow> u8 \<times> cpu" where
  "SUBB op1 op2 s =
     (let s = set_var1 op1 s;
          s = set_var2 op2 s;
          s = set_res (lf_var1b s - lf_var2b s) s
      in (lf_resb s, set_type t_SUBb s))"

definition ORB :: "u8 \<Rightarrow> u8 \<Rightarrow> cpu \<Rightarrow> u8 \<times> cpu" where
  "ORB op1 op2 s =
     (let s = set_var1 op1 s;
          s = set_var2 op2 s;
          s = set_res (lf_var1b s OR lf_var2b s) s
      in (lf_resb s, set_type t_ORb s))"

definition XORB :: "u8 \<Rightarrow> u8 \<Rightarrow> cpu \<Rightarrow> u8 \<times> cpu" where
  "XORB op1 op2 s =
     (let s = set_var1 op1 s;
          s = set_var2 op2 s;
          s = set_res (lf_var1b s XOR lf_var2b s) s
      in (lf_resb s, set_type t_XORb s))"

definition ANDB :: "u8 \<Rightarrow> u8 \<Rightarrow> cpu \<Rightarrow> u8 \<times> cpu" where
  "ANDB op1 op2 s =
     (let s = set_var1 op1 s;
          s = set_var2 op2 s;
          s = set_res (lf_var1b s AND lf_var2b s) s
      in (lf_resb s, set_type t_ANDb s))"

definition CMPB :: "u8 \<Rightarrow> u8 \<Rightarrow> cpu \<Rightarrow> cpu" where
  "CMPB op1 op2 s =
     (let s = set_var1 op1 s;
          s = set_var2 op2 s;
          s = set_res (lf_var1b s - lf_var2b s) s
      in set_type t_CMPb s)"

definition TESTB :: "u8 \<Rightarrow> u8 \<Rightarrow> cpu \<Rightarrow> cpu" where
  "TESTB op1 op2 s =
     (let s = set_var1 op1 s;
          s = set_var2 op2 s;
          s = set_res (lf_var1b s AND lf_var2b s) s
      in set_type t_TESTb s)"

section \<open>General instructions, word operands\<close>

definition ADDW :: "u16 \<Rightarrow> u16 \<Rightarrow> cpu \<Rightarrow> u16 \<times> cpu" where
  "ADDW op1 op2 s =
     (let s = set_var1 op1 s;
          s = set_var2 op2 s;
          s = set_res (lf_var1w s + lf_var2w s) s
      in (lf_resw s, set_type t_ADDw s))"

definition ADCW :: "u16 \<Rightarrow> u16 \<Rightarrow> cpu \<Rightarrow> u16 \<times> cpu" where
  "ADCW op1 op2 s =
     (let s = set_oldcf s;
          s = set_var1 op1 s;
          s = set_var2 op2 s;
          s = set_res (lf_var1w s + lf_var2w s + oldcf s) s
      in (lf_resw s, set_type t_ADCw s))"

definition SBBW :: "u16 \<Rightarrow> u16 \<Rightarrow> cpu \<Rightarrow> u16 \<times> cpu" where
  "SBBW op1 op2 s =
     (let s = set_oldcf s;
          s = set_var1 op1 s;
          s = set_var2 op2 s;
          s = set_res (lf_var1w s - (lf_var2w s + oldcf s)) s
      in (lf_resw s, set_type t_SBBw s))"

definition SUBW :: "u16 \<Rightarrow> u16 \<Rightarrow> cpu \<Rightarrow> u16 \<times> cpu" where
  "SUBW op1 op2 s =
     (let s = set_var1 op1 s;
          s = set_var2 op2 s;
          s = set_res (lf_var1w s - lf_var2w s) s
      in (lf_resw s, set_type t_SUBw s))"

definition ORW :: "u16 \<Rightarrow> u16 \<Rightarrow> cpu \<Rightarrow> u16 \<times> cpu" where
  "ORW op1 op2 s =
     (let s = set_var1 op1 s;
          s = set_var2 op2 s;
          s = set_res (lf_var1w s OR lf_var2w s) s
      in (lf_resw s, set_type t_ORw s))"

definition XORW :: "u16 \<Rightarrow> u16 \<Rightarrow> cpu \<Rightarrow> u16 \<times> cpu" where
  "XORW op1 op2 s =
     (let s = set_var1 op1 s;
          s = set_var2 op2 s;
          s = set_res (lf_var1w s XOR lf_var2w s) s
      in (lf_resw s, set_type t_XORw s))"

definition ANDW :: "u16 \<Rightarrow> u16 \<Rightarrow> cpu \<Rightarrow> u16 \<times> cpu" where
  "ANDW op1 op2 s =
     (let s = set_var1 op1 s;
          s = set_var2 op2 s;
          s = set_res (lf_var1w s AND lf_var2w s) s
      in (lf_resw s, set_type t_ANDw s))"

definition CMPW :: "u16 \<Rightarrow> u16 \<Rightarrow> cpu \<Rightarrow> cpu" where
  "CMPW op1 op2 s =
     (let s = set_var1 op1 s;
          s = set_var2 op2 s;
          s = set_res (lf_var1w s - lf_var2w s) s
      in set_type t_CMPw s)"

definition TESTW :: "u16 \<Rightarrow> u16 \<Rightarrow> cpu \<Rightarrow> cpu" where
  "TESTW op1 op2 s =
     (let s = set_var1 op1 s;
          s = set_var2 op2 s;
          s = set_res (lf_var1w s AND lf_var2w s) s
      in set_type t_TESTw s)"

section \<open>General instructions, dword operands\<close>

definition ADDD :: "u32 \<Rightarrow> u32 \<Rightarrow> cpu \<Rightarrow> u32 \<times> cpu" where
  "ADDD op1 op2 s =
     (let s = set_var1 op1 s;
          s = set_var2 op2 s;
          s = set_res (lf_var1d s + lf_var2d s) s
      in (lf_resd s, set_type t_ADDd s))"

definition ADCD :: "u32 \<Rightarrow> u32 \<Rightarrow> cpu \<Rightarrow> u32 \<times> cpu" where
  "ADCD op1 op2 s =
     (let s = set_oldcf s;
          s = set_var1 op1 s;
          s = set_var2 op2 s;
          s = set_res (lf_var1d s + lf_var2d s + oldcf s) s
      in (lf_resd s, set_type t_ADCd s))"

definition SBBD :: "u32 \<Rightarrow> u32 \<Rightarrow> cpu \<Rightarrow> u32 \<times> cpu" where
  "SBBD op1 op2 s =
     (let s = set_oldcf s;
          s = set_var1 op1 s;
          s = set_var2 op2 s;
          s = set_res (lf_var1d s - (lf_var2d s + oldcf s)) s
      in (lf_resd s, set_type t_SBBd s))"

definition SUBD :: "u32 \<Rightarrow> u32 \<Rightarrow> cpu \<Rightarrow> u32 \<times> cpu" where
  "SUBD op1 op2 s =
     (let s = set_var1 op1 s;
          s = set_var2 op2 s;
          s = set_res (lf_var1d s - lf_var2d s) s
      in (lf_resd s, set_type t_SUBd s))"

definition ORD :: "u32 \<Rightarrow> u32 \<Rightarrow> cpu \<Rightarrow> u32 \<times> cpu" where
  "ORD op1 op2 s =
     (let s = set_var1 op1 s;
          s = set_var2 op2 s;
          s = set_res (lf_var1d s OR lf_var2d s) s
      in (lf_resd s, set_type t_ORd s))"

definition XORD :: "u32 \<Rightarrow> u32 \<Rightarrow> cpu \<Rightarrow> u32 \<times> cpu" where
  "XORD op1 op2 s =
     (let s = set_var1 op1 s;
          s = set_var2 op2 s;
          s = set_res (lf_var1d s XOR lf_var2d s) s
      in (lf_resd s, set_type t_XORd s))"

definition ANDD :: "u32 \<Rightarrow> u32 \<Rightarrow> cpu \<Rightarrow> u32 \<times> cpu" where
  "ANDD op1 op2 s =
     (let s = set_var1 op1 s;
          s = set_var2 op2 s;
          s = set_res (lf_var1d s AND lf_var2d s) s
      in (lf_resd s, set_type t_ANDd s))"

definition CMPD :: "u32 \<Rightarrow> u32 \<Rightarrow> cpu \<Rightarrow> cpu" where
  "CMPD op1 op2 s =
     (let s = set_var1 op1 s;
          s = set_var2 op2 s;
          s = set_res (lf_var1d s - lf_var2d s) s
      in set_type t_CMPd s)"

definition TESTD :: "u32 \<Rightarrow> u32 \<Rightarrow> cpu \<Rightarrow> cpu" where
  "TESTD op1 op2 s =
     (let s = set_var1 op1 s;
          s = set_var2 op2 s;
          s = set_res (lf_var1d s AND lf_var2d s) s
      in set_type t_TESTd s)"

section \<open>Increment, decrement, negate\<close>

definition INCB :: "u8 \<Rightarrow> cpu \<Rightarrow> u8 \<times> cpu" where
  "INCB op1 s =
     (let s = LoadCF s;
          s = set_var1 op1 s;
          s = set_res (lf_var1b s + 1) s
      in (lf_resb s, set_type t_INCb s))"

definition INCW :: "u16 \<Rightarrow> cpu \<Rightarrow> u16 \<times> cpu" where
  "INCW op1 s =
     (let s = LoadCF s;
          s = set_var1 op1 s;
          s = set_res (lf_var1w s + 1) s
      in (lf_resw s, set_type t_INCw s))"

definition INCD :: "u32 \<Rightarrow> cpu \<Rightarrow> u32 \<times> cpu" where
  "INCD op1 s =
     (let s = LoadCF s;
          s = set_var1 op1 s;
          s = set_res (lf_var1d s + 1) s
      in (lf_resd s, set_type t_INCd s))"

definition DECB :: "u8 \<Rightarrow> cpu \<Rightarrow> u8 \<times> cpu" where
  "DECB op1 s =
     (let s = LoadCF s;
          s = set_var1 op1 s;
          s = set_res (lf_var1b s - 1) s
      in (lf_resb s, set_type t_DECb s))"

definition DECW :: "u16 \<Rightarrow> cpu \<Rightarrow> u16 \<times> cpu" where
  "DECW op1 s =
     (let s = LoadCF s;
          s = set_var1 op1 s;
          s = set_res (lf_var1w s - 1) s
      in (lf_resw s, set_type t_DECw s))"

definition DECD :: "u32 \<Rightarrow> cpu \<Rightarrow> u32 \<times> cpu" where
  "DECD op1 s =
     (let s = LoadCF s;
          s = set_var1 op1 s;
          s = set_res (lf_var1d s - 1) s
      in (lf_resd s, set_type t_DECd s))"

definition NEGB :: "u8 \<Rightarrow> cpu \<Rightarrow> u8 \<times> cpu" where
  "NEGB op1 s =
     (let s = set_type t_NEGb s;
          s = set_var1 op1 s;
          s = set_res (0 - lf_var1b s) s
      in (lf_resb s, s))"

definition NEGW :: "u16 \<Rightarrow> cpu \<Rightarrow> u16 \<times> cpu" where
  "NEGW op1 s =
     (let s = set_type t_NEGw s;
          s = set_var1 op1 s;
          s = set_res (0 - lf_var1w s) s
      in (lf_resw s, s))"

definition NEGD :: "u32 \<Rightarrow> cpu \<Rightarrow> u32 \<times> cpu" where
  "NEGD op1 s =
     (let s = set_type t_NEGd s;
          s = set_var1 op1 s;
          s = set_res (0 - lf_var1d s) s
      in (lf_resd s, s))"

section \<open>Rotates\<close>

definition ROLB :: "u8 \<Rightarrow> u8 \<Rightarrow> cpu \<Rightarrow> u8 \<times> cpu" where
  "ROLB op1 op2 s =
     (let s = FillFlagsNoCFOF s;
          s = set_var1 op1 s;
          s = set_var2 (op2 AND 0x07) s;
          s = set_res (push_bit (unat (lf_var2b s)) (lf_var1b s)
                     OR drop_bit (8 - unat (lf_var2b s)) (lf_var1b s)) s;
          s = SETFLAGBIT FLAG_CF (truth (lf_resb s AND 1)) s;
          s = SETFLAGBIT FLAG_OF (truth ((lf_resb s AND 1) XOR drop_bit 7 (lf_resb s))) s
      in (lf_resb s, s))"

definition ROLW :: "u16 \<Rightarrow> u8 \<Rightarrow> cpu \<Rightarrow> u16 \<times> cpu" where
  "ROLW op1 op2 s =
     (let s = FillFlagsNoCFOF s;
          s = set_var1 op1 s;
          s = set_var2 (op2 AND 0x0f) s;
          s = set_res (push_bit (unat (lf_var2b s)) (lf_var1w s)
                     OR drop_bit (16 - unat (lf_var2b s)) (lf_var1w s)) s;
          s = SETFLAGBIT FLAG_CF (truth (lf_resw s AND 1)) s;
          s = SETFLAGBIT FLAG_OF (truth ((lf_resw s AND 1) XOR drop_bit 15 (lf_resw s))) s
      in (lf_resw s, s))"

definition ROLD :: "u32 \<Rightarrow> u8 \<Rightarrow> cpu \<Rightarrow> u32 \<times> cpu" where
  "ROLD op1 op2 s =
     (let s = FillFlagsNoCFOF s;
          s = set_var1 op1 s;
          s = set_var2 (op2) s;
          s = set_res (push_bit (unat (lf_var2b s)) (lf_var1d s)
                     OR drop_bit (32 - unat (lf_var2b s)) (lf_var1d s)) s;
          s = SETFLAGBIT FLAG_CF (truth (lf_resd s AND 1)) s;
          s = SETFLAGBIT FLAG_OF (truth ((lf_resd s AND 1) XOR drop_bit 31 (lf_resd s))) s
      in (lf_resd s, s))"

definition RORB :: "u8 \<Rightarrow> u8 \<Rightarrow> cpu \<Rightarrow> u8 \<times> cpu" where
  "RORB op1 op2 s =
     (let s = FillFlagsNoCFOF s;
          s = set_var1 op1 s;
          s = set_var2 (op2 AND 0x07) s;
          s = set_res (drop_bit (unat (lf_var2b s)) (lf_var1b s)
                     OR push_bit (8 - unat (lf_var2b s)) (lf_var1b s)) s;
          s = SETFLAGBIT FLAG_CF (truth (lf_resb s AND 0x80)) s;
          s = SETFLAGBIT FLAG_OF (truth ((lf_resb s XOR push_bit 1 (lf_resb s)) AND 0x80)) s
      in (lf_resb s, s))"

definition RORW :: "u16 \<Rightarrow> u8 \<Rightarrow> cpu \<Rightarrow> u16 \<times> cpu" where
  "RORW op1 op2 s =
     (let s = FillFlagsNoCFOF s;
          s = set_var1 op1 s;
          s = set_var2 (op2 AND 0x0f) s;
          s = set_res (drop_bit (unat (lf_var2b s)) (lf_var1w s)
                     OR push_bit (16 - unat (lf_var2b s)) (lf_var1w s)) s;
          s = SETFLAGBIT FLAG_CF (truth (lf_resw s AND 0x8000)) s;
          s = SETFLAGBIT FLAG_OF (truth ((lf_resw s XOR push_bit 1 (lf_resw s)) AND 0x8000)) s
      in (lf_resw s, s))"

definition RORD :: "u32 \<Rightarrow> u8 \<Rightarrow> cpu \<Rightarrow> u32 \<times> cpu" where
  "RORD op1 op2 s =
     (let s = FillFlagsNoCFOF s;
          s = set_var1 op1 s;
          s = set_var2 (op2) s;
          s = set_res (drop_bit (unat (lf_var2b s)) (lf_var1d s)
                     OR push_bit (32 - unat (lf_var2b s)) (lf_var1d s)) s;
          s = SETFLAGBIT FLAG_CF (truth (lf_resd s AND 0x80000000)) s;
          s = SETFLAGBIT FLAG_OF (truth ((lf_resd s XOR push_bit 1 (lf_resd s)) AND 0x80000000)) s
      in (lf_resd s, s))"

definition RCLB :: "u8 \<Rightarrow> u8 \<Rightarrow> cpu \<Rightarrow> u8 option \<times> cpu" where
  "RCLB op1 op2 s =
     (if op2 mod 9 = 0 then (None, s)
      else let (fl, s) = FillFlags s;
          cf = (ucast fl :: u8) AND 1;
          s = set_var1 op1 s;
          s = set_var2 (op2 mod 9) s;
          s = set_res (push_bit (unat (lf_var2b s)) (lf_var1b s)
                     OR push_bit (unat (lf_var2b s) - 1) cf
                     OR drop_bit (9 - unat (lf_var2b s)) (lf_var1b s)) s;
          s = SETFLAGBIT FLAG_CF (truth (drop_bit (8 - unat (lf_var2b s)) (lf_var1b s) AND 1)) s;
          s = SETFLAGBIT FLAG_OF (truth ((reg_flags s AND 1) XOR ucast (drop_bit 7 (lf_resb s)))) s
      in (Some (lf_resb s), s))"

definition RCLW :: "u16 \<Rightarrow> u8 \<Rightarrow> cpu \<Rightarrow> u16 option \<times> cpu" where
  "RCLW op1 op2 s =
     (if op2 mod 17 = 0 then (None, s)
      else let (fl, s) = FillFlags s;
          cf = (ucast fl :: u16) AND 1;
          s = set_var1 op1 s;
          s = set_var2 (op2 mod 17) s;
          s = set_res (push_bit (unat (lf_var2b s)) (lf_var1w s)
                     OR push_bit (unat (lf_var2b s) - 1) cf
                     OR drop_bit (17 - unat (lf_var2b s)) (lf_var1w s)) s;
          s = SETFLAGBIT FLAG_CF (truth (drop_bit (16 - unat (lf_var2b s)) (lf_var1w s) AND 1)) s;
          s = SETFLAGBIT FLAG_OF (truth ((reg_flags s AND 1) XOR ucast (drop_bit 15 (lf_resw s)))) s
      in (Some (lf_resw s), s))"

definition RCLD :: "u32 \<Rightarrow> u8 \<Rightarrow> cpu \<Rightarrow> u32 option \<times> cpu" where
  "RCLD op1 op2 s =
     (if op2 = 0 then (None, s)
      else let (fl, s) = FillFlags s;
          cf = (ucast fl :: u32) AND 1;
          s = set_var1 op1 s;
          s = set_var2 op2 s;
          s = (if lf_var2b s = 1 then set_res (push_bit 1 (lf_var1d s) OR cf) s
               else set_res (push_bit (unat (lf_var2b s)) (lf_var1d s)
                     OR push_bit (lf_var2b_minus_one s) cf
                     OR drop_bit (33 - unat (lf_var2b s)) (lf_var1d s)) s);
          s = SETFLAGBIT FLAG_CF (truth (drop_bit (32 - unat (lf_var2b s)) (lf_var1d s) AND 1)) s;
          s = SETFLAGBIT FLAG_OF (truth ((reg_flags s AND 1) XOR ucast (drop_bit 31 (lf_resd s)))) s
      in (Some (lf_resd s), s))"

definition RCRB :: "u8 \<Rightarrow> u8 \<Rightarrow> cpu \<Rightarrow> u8 option \<times> cpu" where
  "RCRB op1 op2 s =
     (if op2 mod 9 = 0 then (None, s)
      else let (fl, s) = FillFlags s;
          cf = (ucast fl :: u8) AND 1;
          s = set_var1 op1 s;
          s = set_var2 (op2 mod 9) s;
          s = set_res (drop_bit (unat (lf_var2b s)) (lf_var1b s)
                     OR push_bit (8 - unat (lf_var2b s)) cf
                     OR push_bit (9 - unat (lf_var2b s)) (lf_var1b s)) s;
          s = SETFLAGBIT FLAG_CF (truth (drop_bit (lf_var2b_minus_one s) (lf_var1b s) AND 1)) s;
          s = SETFLAGBIT FLAG_OF (truth ((lf_resb s XOR push_bit 1 (lf_resb s)) AND 0x80)) s
      in (Some (lf_resb s), s))"

definition RCRW :: "u16 \<Rightarrow> u8 \<Rightarrow> cpu \<Rightarrow> u16 option \<times> cpu" where
  "RCRW op1 op2 s =
     (if op2 mod 17 = 0 then (None, s)
      else let (fl, s) = FillFlags s;
          cf = (ucast fl :: u16) AND 1;
          s = set_var1 op1 s;
          s = set_var2 (op2 mod 17) s;
          s = set_res (drop_bit (unat (lf_var2b s)) (lf_var1w s)
                     OR push_bit (16 - unat (lf_var2b s)) cf
                     OR push_bit (17 - unat (lf_var2b s)) (lf_var1w s)) s;
          s = SETFLAGBIT FLAG_CF (truth (drop_bit (lf_var2b_minus_one s) (lf_var1w s) AND 1)) s;
          s = SETFLAGBIT FLAG_OF (truth ((lf_resw s XOR push_bit 1 (lf_resw s)) AND 0x8000)) s
      in (Some (lf_resw s), s))"

definition RCRD :: "u32 \<Rightarrow> u8 \<Rightarrow> cpu \<Rightarrow> u32 option \<times> cpu" where
  "RCRD op1 op2 s =
     (if op2 = 0 then (None, s)
      else let (fl, s) = FillFlags s;
          cf = (ucast fl :: u32) AND 1;
          s = set_var1 op1 s;
          s = set_var2 op2 s;
          s = (if lf_var2b s = 1 then set_res (drop_bit 1 (lf_var1d s) OR push_bit 31 cf) s
               else set_res (drop_bit (unat (lf_var2b s)) (lf_var1d s)
                     OR push_bit (32 - unat (lf_var2b s)) cf
                     OR push_bit (33 - unat (lf_var2b s)) (lf_var1d s)) s);
          s = SETFLAGBIT FLAG_CF (truth (drop_bit (lf_var2b_minus_one s) (lf_var1d s) AND 1)) s;
          s = SETFLAGBIT FLAG_OF (truth ((lf_resd s XOR push_bit 1 (lf_resd s)) AND 0x80000000)) s
      in (Some (lf_resd s), s))"

section \<open>Shifts\<close>

definition SHLB :: "u8 \<Rightarrow> u8 \<Rightarrow> cpu \<Rightarrow> u8 \<times> cpu" where
  "SHLB op1 op2 s =
     (let s = set_var1 op1 s;
          s = set_var2 op2 s;
          s = set_res (push_bit (unat (lf_var2b s)) (lf_var1b s)) s
      in (lf_resb s, set_type t_SHLb s))"

definition SHLW :: "u16 \<Rightarrow> u8 \<Rightarrow> cpu \<Rightarrow> u16 \<times> cpu" where
  "SHLW op1 op2 s =
     (let s = set_var1 op1 s;
          s = set_var2 op2 s;
          s = set_res (push_bit (unat (lf_var2b s)) (lf_var1w s)) s
      in (lf_resw s, set_type t_SHLw s))"

definition SHLD :: "u32 \<Rightarrow> u8 \<Rightarrow> cpu \<Rightarrow> u32 \<times> cpu" where
  "SHLD op1 op2 s =
     (let s = set_var1 op1 s;
          s = set_var2 op2 s;
          s = set_res (push_bit (unat (lf_var2b s)) (lf_var1d s)) s
      in (lf_resd s, set_type t_SHLd s))"

definition SHRB :: "u8 \<Rightarrow> u8 \<Rightarrow> cpu \<Rightarrow> u8 \<times> cpu" where
  "SHRB op1 op2 s =
     (let s = set_var1 op1 s;
          s = set_var2 op2 s;
          s = set_res (drop_bit (unat (lf_var2b s)) (lf_var1b s)) s
      in (lf_resb s, set_type t_SHRb s))"

definition SHRW :: "u16 \<Rightarrow> u8 \<Rightarrow> cpu \<Rightarrow> u16 \<times> cpu" where
  "SHRW op1 op2 s =
     (let s = set_var1 op1 s;
          s = set_var2 op2 s;
          s = set_res (drop_bit (unat (lf_var2b s)) (lf_var1w s)) s
      in (lf_resw s, set_type t_SHRw s))"

definition SHRD :: "u32 \<Rightarrow> u8 \<Rightarrow> cpu \<Rightarrow> u32 \<times> cpu" where
  "SHRD op1 op2 s =
     (let s = set_var1 op1 s;
          s = set_var2 op2 s;
          s = set_res (drop_bit (unat (lf_var2b s)) (lf_var1d s)) s
      in (lf_resd s, set_type t_SHRd s))"

definition SARB :: "u8 \<Rightarrow> u8 \<Rightarrow> cpu \<Rightarrow> u8 \<times> cpu" where
  "SARB op1 op2 s =
     (let s = set_var1 op1 s;
          s = set_var2 op2 s;
          s = (if lf_var2b s > 8 then set_var2 (8 :: u8) s else s);
          s = (if truth (lf_var1b s AND 0x80)
               then set_res (drop_bit (unat (lf_var2b s)) (lf_var1b s)
                     OR push_bit (8 - unat (lf_var2b s)) 0xff) s
               else set_res (drop_bit (unat (lf_var2b s)) (lf_var1b s)) s)
      in (lf_resb s, set_type t_SARb s))"

definition SARW :: "u16 \<Rightarrow> u8 \<Rightarrow> cpu \<Rightarrow> u16 \<times> cpu" where
  "SARW op1 op2 s =
     (let s = set_var1 op1 s;
          s = set_var2 op2 s;
          s = (if lf_var2b s > 16 then set_var2 (16 :: u8) s else s);
          s = (if truth (lf_var1w s AND 0x8000)
               then set_res (drop_bit (unat (lf_var2b s)) (lf_var1w s)
                     OR push_bit (16 - unat (lf_var2b s)) 0xffff) s
               else set_res (drop_bit (unat (lf_var2b s)) (lf_var1w s)) s)
      in (lf_resw s, set_type t_SARw s))"

definition SARD :: "u32 \<Rightarrow> u8 \<Rightarrow> cpu \<Rightarrow> u32 \<times> cpu" where
  "SARD op1 op2 s =
     (let s = set_var2 op2 s;
          s = set_var1 op1 s;
          s = (if truth (lf_var1d s AND 0x80000000)
               then set_res (drop_bit (unat (lf_var2b s)) (lf_var1d s)
                     OR push_bit (32 - unat (lf_var2b s)) 0xffffffff) s
               else set_res (drop_bit (unat (lf_var2b s)) (lf_var1d s)) s)
      in (lf_resd s, set_type t_SARd s))"

text \<open>
  The shift groups: the modr/m byte selects the operation and the count is taken modulo 32; a
  zero count does nothing.
\<close>

definition GRP2B :: "u8 \<Rightarrow> u8 \<Rightarrow> u8 \<Rightarrow> cpu \<Rightarrow> u8 option \<times> cpu" where
  "GRP2B rm blah op1 s =
     (let which = drop_bit 3 rm AND 7; val = blah AND 0x1f
      in if val = 0 then (None, s)
      else if which = 0 then map_prod Some id (ROLB op1 val s)
      else if which = 1 then map_prod Some id (RORB op1 val s)
      else if which = 2 then RCLB op1 val s
      else if which = 3 then RCRB op1 val s
      else if which = 4 \<or> which = 6 then map_prod Some id (SHLB op1 val s)
      else if which = 5 then map_prod Some id (SHRB op1 val s)
      else map_prod Some id (SARB op1 val s))"

definition GRP2W :: "u8 \<Rightarrow> u8 \<Rightarrow> u16 \<Rightarrow> cpu \<Rightarrow> u16 option \<times> cpu" where
  "GRP2W rm blah op1 s =
     (let which = drop_bit 3 rm AND 7; val = blah AND 0x1f
      in if val = 0 then (None, s)
      else if which = 0 then map_prod Some id (ROLW op1 val s)
      else if which = 1 then map_prod Some id (RORW op1 val s)
      else if which = 2 then RCLW op1 val s
      else if which = 3 then RCRW op1 val s
      else if which = 4 \<or> which = 6 then map_prod Some id (SHLW op1 val s)
      else if which = 5 then map_prod Some id (SHRW op1 val s)
      else map_prod Some id (SARW op1 val s))"

definition GRP2D :: "u8 \<Rightarrow> u8 \<Rightarrow> u32 \<Rightarrow> cpu \<Rightarrow> u32 option \<times> cpu" where
  "GRP2D rm blah op1 s =
     (let which = drop_bit 3 rm AND 7; val = blah AND 0x1f
      in if val = 0 then (None, s)
      else if which = 0 then map_prod Some id (ROLD op1 val s)
      else if which = 1 then map_prod Some id (RORD op1 val s)
      else if which = 2 then RCLD op1 val s
      else if which = 3 then RCRD op1 val s
      else if which = 4 \<or> which = 6 then map_prod Some id (SHLD op1 val s)
      else if which = 5 then map_prod Some id (SHRD op1 val s)
      else map_prod Some id (SARD op1 val s))"

section \<open>Double-precision shifts\<close>

definition DSHLW :: "u16 \<Rightarrow> u16 \<Rightarrow> u8 \<Rightarrow> cpu \<Rightarrow> u16 option \<times> cpu" where
  "DSHLW op1 op2 op3 s =
     (let val = op3 AND 0x1f
      in if val = 0 then (None, s)
      else let s = set_var2 val s;
          s = set_var1 (push_bit 16 (ucast op1) OR ucast op2 :: u32) s;
          tempd = push_bit (unat (lf_var2b s)) (lf_var1d s);
          tempd = (if lf_var2b s > 16 then tempd OR push_bit (unat (lf_var2b s) - 16) (ucast op2) else tempd);
          s = set_res (ucast (drop_bit 16 tempd) :: u16) s
      in (Some (lf_resw s), set_type t_DSHLw s))"

definition DSHLD :: "u32 \<Rightarrow> u32 \<Rightarrow> u8 \<Rightarrow> cpu \<Rightarrow> u32 option \<times> cpu" where
  "DSHLD op1 op2 op3 s =
     (let val = op3 AND 0x1f
      in if val = 0 then (None, s)
      else let s = set_var2 val s;
          s = set_var1 op1 s;
          s = set_res (push_bit (unat (lf_var2b s)) (lf_var1d s)
                OR drop_bit (32 - unat (lf_var2b s)) op2) s
      in (Some (lf_resd s), set_type t_DSHLd s))"

definition DSHRW :: "u16 \<Rightarrow> u16 \<Rightarrow> u8 \<Rightarrow> cpu \<Rightarrow> u16 option \<times> cpu" where
  "DSHRW op1 op2 op3 s =
     (let val = op3 AND 0x1f
      in if val = 0 then (None, s)
      else let s = set_var2 val s;
          s = set_var1 (push_bit 16 (ucast op2) OR ucast op1 :: u32) s;
          tempd = drop_bit (unat (lf_var2b s)) (lf_var1d s);
          tempd = (if lf_var2b s > 16 then tempd OR push_bit (32 - unat (lf_var2b s)) (ucast op2) else tempd);
          s = set_res (ucast tempd :: u16) s
      in (Some (lf_resw s), set_type t_DSHRw s))"

definition DSHRD :: "u32 \<Rightarrow> u32 \<Rightarrow> u8 \<Rightarrow> cpu \<Rightarrow> u32 option \<times> cpu" where
  "DSHRD op1 op2 op3 s =
     (let val = op3 AND 0x1f
      in if val = 0 then (None, s)
      else let s = set_var2 val s;
          s = set_var1 op1 s;
          s = set_res (drop_bit (unat (lf_var2b s)) (lf_var1d s)
                OR push_bit (32 - unat (lf_var2b s)) op2) s
      in (Some (lf_resd s), set_type t_DSHRd s))"

definition BSWAPW :: "u16 \<Rightarrow> u16" where
  "BSWAPW op1 = 0"

definition BSWAPD :: "u32 \<Rightarrow> u32" where
  "BSWAPD op1 = drop_bit 24 op1 OR (drop_bit 8 op1 AND 0xFF00)
     OR (push_bit 8 op1 AND 0xFF0000) OR (push_bit 24 op1 AND 0xFF000000)"

end
