(* ===== verification/Flags_Correct.thy ===== *)
theory Flags_Correct
  imports Alu
begin

text \<open>
  The flags of the CPU core against the processor's. \<open>lazy_flags\<close> is what the six getters report,
  \<open>eager_flags\<close> what \<open>reg_flags\<close> holds. The flags an x86 sets are stated as facts
  about integers. The locale \<open>lazy_width\<close> is the interface of one operand width:
  its laws are the cases of the getters and the bodies of the macros for that width, its lemmas
  hold for bytes, words and dwords by interpretation.
\<close>

section \<open>The six test flags as one value\<close>

record flags6 =
  fCF :: bool
  fPF :: bool
  fAF :: bool
  fZF :: bool
  fSF :: bool
  fOF :: bool

definition lazy_flags :: "cpu \<Rightarrow> flags6" where
  "lazy_flags s = \<lparr>fCF = truth (get_CF s), fPF = truth (get_PF s), fAF = truth (get_AF s),
     fZF = truth (get_ZF s), fSF = truth (get_SF s), fOF = truth (get_OF s)\<rparr>"

definition eager_flags :: "cpu \<Rightarrow> flags6" where
  "eager_flags s = (let f = reg_flags s in \<lparr>fCF = bit f 0, fPF = bit f 2, fAF = bit f 4,
     fZF = bit f 6, fSF = bit f 7, fOF = bit f 11\<rparr>)"

definition even_parity :: "'a::len word \<Rightarrow> bool" where
  "even_parity r \<longleftrightarrow> even (length (filter (bit r) [0..<8]))"

section \<open>The parity table\<close>

lemma parity_lookup_table:
  "\<forall>n \<in> set [0..<256]. parity_lookup ! n = (if even_parity (word_of_nat n :: u8) then 4 else 0)"
  by code_simp

lemma parity_lookup_eq: "parity_lookup ! unat (b :: u8) = (if even_parity b then 4 else 0)"
proof -
  have "unat b \<in> set [0..<256]" using unat_bound [of b] by simp
  then show ?thesis using parity_lookup_table by fastforce
qed

lemma truth_parity: "truth (ucast (parity_lookup ! unat (b :: u8)) :: u32) \<longleftrightarrow> even_parity b"
  by (simp add: parity_lookup_eq truth_def)

lemma even_parity_ucast:
  assumes "8 \<le> LENGTH('a)" "8 \<le> LENGTH('b)"
  shows "even_parity (ucast (r :: 'a::len word) :: 'b::len word) = even_parity r"
proof -
  have "filter (bit (ucast r :: 'b word)) [0..<8] = filter (bit r) [0..<8]"
    using assms by (intro filter_cong) (auto simp: bit_ucast_iff)
  then show ?thesis by (simp add: even_parity_def)
qed

section \<open>Flag bits in \<open>reg_flags\<close>\<close>

lemma eager_SETFLAGBIT [simp]:
  "eager_flags (SETFLAGBIT FLAG_CF b s) = (eager_flags s)\<lparr>fCF := b\<rparr>"
  "eager_flags (SETFLAGBIT FLAG_PF b s) = (eager_flags s)\<lparr>fPF := b\<rparr>"
  "eager_flags (SETFLAGBIT FLAG_AF b s) = (eager_flags s)\<lparr>fAF := b\<rparr>"
  "eager_flags (SETFLAGBIT FLAG_ZF b s) = (eager_flags s)\<lparr>fZF := b\<rparr>"
  "eager_flags (SETFLAGBIT FLAG_SF b s) = (eager_flags s)\<lparr>fSF := b\<rparr>"
  "eager_flags (SETFLAGBIT FLAG_OF b s) = (eager_flags s)\<lparr>fOF := b\<rparr>"
  by (simp_all add: eager_flags_def SETFLAGBIT_def Let_def bit_simps)

lemma eager_DOFLAG [simp]:
  "eager_flags (DOFLAG_PF s) = (eager_flags s)\<lparr>fPF := even_parity (lf_resb s)\<rparr>"
  "eager_flags (DOFLAG_AF s) = (eager_flags s)\<lparr>fAF := bit (lf_var1b s XOR lf_var2b s XOR lf_resb s) 4\<rparr>"
  "eager_flags (DOFLAG_ZFb s) = (eager_flags s)\<lparr>fZF := (lf_resb s = 0)\<rparr>"
  "eager_flags (DOFLAG_ZFw s) = (eager_flags s)\<lparr>fZF := (lf_resw s = 0)\<rparr>"
  "eager_flags (DOFLAG_ZFd s) = (eager_flags s)\<lparr>fZF := (lf_resd s = 0)\<rparr>"
  "eager_flags (DOFLAG_SFb s) = (eager_flags s)\<lparr>fSF := sgn_bit (lf_resb s)\<rparr>"
  "eager_flags (DOFLAG_SFw s) = (eager_flags s)\<lparr>fSF := sgn_bit (lf_resw s)\<rparr>"
  "eager_flags (DOFLAG_SFd s) = (eager_flags s)\<lparr>fSF := sgn_bit (lf_resd s)\<rparr>"
  by (simp_all add: eager_flags_def DOFLAG_PF_def DOFLAG_AF_def DOFLAG_ZFb_def DOFLAG_ZFw_def
      DOFLAG_ZFd_def DOFLAG_SFb_def DOFLAG_SFw_def DOFLAG_SFd_def SETFLAGBIT_def Let_def bit_simps
      parity_lookup_eq sgn_bit_def)

lemmas flag_writers = SETFLAGBIT_def DOFLAG_PF_def DOFLAG_AF_def DOFLAG_ZFb_def DOFLAG_ZFw_def
  DOFLAG_ZFd_def DOFLAG_SFb_def DOFLAG_SFw_def DOFLAG_SFd_def

text \<open>Writing flags leaves the recorded operands alone.\<close>

lemma frame_writers [simp]:
  "lf_var1 (SETFLAGBIT f b s) = lf_var1 s" "lf_var2 (SETFLAGBIT f b s) = lf_var2 s"
  "lf_res (SETFLAGBIT f b s) = lf_res s" "lf_type (SETFLAGBIT f b s) = lf_type s"
  "lf_oldcf (SETFLAGBIT f b s) = lf_oldcf s"
  "lf_var1 (DOFLAG_PF s) = lf_var1 s" "lf_var2 (DOFLAG_PF s) = lf_var2 s" "lf_res (DOFLAG_PF s) = lf_res s"
  "lf_var1 (DOFLAG_AF s) = lf_var1 s" "lf_var2 (DOFLAG_AF s) = lf_var2 s" "lf_res (DOFLAG_AF s) = lf_res s"
  "lf_var1 (DOFLAG_ZFb s) = lf_var1 s" "lf_var2 (DOFLAG_ZFb s) = lf_var2 s" "lf_res (DOFLAG_ZFb s) = lf_res s"
  "lf_var1 (DOFLAG_ZFw s) = lf_var1 s" "lf_var2 (DOFLAG_ZFw s) = lf_var2 s" "lf_res (DOFLAG_ZFw s) = lf_res s"
  "lf_var1 (DOFLAG_ZFd s) = lf_var1 s" "lf_var2 (DOFLAG_ZFd s) = lf_var2 s" "lf_res (DOFLAG_ZFd s) = lf_res s"
  "lf_var1 (DOFLAG_SFb s) = lf_var1 s" "lf_var2 (DOFLAG_SFb s) = lf_var2 s" "lf_res (DOFLAG_SFb s) = lf_res s"
  "lf_var1 (DOFLAG_SFw s) = lf_var1 s" "lf_var2 (DOFLAG_SFw s) = lf_var2 s" "lf_res (DOFLAG_SFw s) = lf_res s"
  "lf_var1 (DOFLAG_SFd s) = lf_var1 s" "lf_var2 (DOFLAG_SFd s) = lf_var2 s" "lf_res (DOFLAG_SFd s) = lf_res s"
  by (simp_all add: flag_writers)

lemma eager_set_type [simp]: "eager_flags (s\<lparr>lf_type := t\<rparr>) = eager_flags s"
  by (simp add: eager_flags_def)

lemma truth_ucast: "LENGTH('a) \<le> LENGTH('b) \<Longrightarrow> truth (ucast (x :: 'a::len word) :: 'b::len word) = truth x"
  by (auto simp: truth_def bit_eq_iff bit_ucast_iff dest: bit_imp_le_length intro: less_le_trans)

lemma truth_neg_operand:
  "truth (ucast (lf_var1b c) :: u32) \<longleftrightarrow> lf_var1b c \<noteq> 0"
  "truth (ucast (lf_var1w c) :: u32) \<longleftrightarrow> lf_var1w c \<noteq> 0"
  "truth (lf_var1d c) \<longleftrightarrow> lf_var1d c \<noteq> 0"
  "truth (ucast (x AND 0x0f :: u8) :: u32) \<longleftrightarrow> x AND 0x0f \<noteq> 0"
  "truth (ucast (y AND 0x0f :: u16) :: u32) \<longleftrightarrow> y AND 0x0f \<noteq> 0"
  "truth (z AND 0x0f :: u32) \<longleftrightarrow> z AND 0x0f \<noteq> 0"
  by (simp_all add: truth_ucast) (simp_all add: truth_def)

lemma truth_masks [simp]:
  "truth (ucast (x AND 0x80 :: u8) :: u32) \<longleftrightarrow> sgn_bit x"
  "truth (ucast (y AND 0x8000 :: u16) :: u32) \<longleftrightarrow> sgn_bit y"
  "truth (z AND 0x80000000 :: u32) \<longleftrightarrow> sgn_bit z"
  "truth (ucast (x AND 0x10 :: u8) :: u32) \<longleftrightarrow> bit x 4"
  "truth (ucast (y AND 0x10 :: u16) :: u32) \<longleftrightarrow> bit y 4"
  "truth (z AND 0x10 :: u32) \<longleftrightarrow> bit z 4"
  using and_power_two_truth [of x 7] and_power_two_truth [of y 15] and_power_two_truth [of z 31]
    and_power_two_truth [of x 4] and_power_two_truth [of y 4] and_power_two_truth [of z 4]
  by (simp_all add: truth_ucast sgn_bit_def)

lemma truth_and_one [simp]:
  "truth (ucast (x AND 1 :: u8) :: u32) \<longleftrightarrow> bit x 0"
  "truth (ucast (y AND 1 :: u16) :: u32) \<longleftrightarrow> bit y 0"
  "truth (z AND 1 :: 'a::len word) \<longleftrightarrow> bit z 0"
  using and_power_two_truth [of x 0] and_power_two_truth [of y 0] and_power_two_truth [of z 0]
  by (simp_all add: truth_ucast)

lemma sgn_bit_simps [simp]:
  "sgn_bit (x XOR y) \<longleftrightarrow> sgn_bit x \<noteq> sgn_bit y"
  "sgn_bit (x AND y) \<longleftrightarrow> sgn_bit x \<and> sgn_bit y"
  "sgn_bit (0x80 :: u8)" "sgn_bit (0x8000 :: u16)" "sgn_bit (0x80000000 :: u32)"
  by (simp_all add: sgn_bit_def bit_simps)

lemma truth_GETFLAG [simp]:
  "truth (GETFLAG FLAG_CF s) = fCF (eager_flags s)" "truth (GETFLAG FLAG_PF s) = fPF (eager_flags s)"
  "truth (GETFLAG FLAG_AF s) = fAF (eager_flags s)" "truth (GETFLAG FLAG_ZF s) = fZF (eager_flags s)"
  "truth (GETFLAG FLAG_SF s) = fSF (eager_flags s)" "truth (GETFLAG FLAG_OF s) = fOF (eager_flags s)"
  using and_power_two_truth [of "reg_flags s" 0] and_power_two_truth [of "reg_flags s" 2]
    and_power_two_truth [of "reg_flags s" 4] and_power_two_truth [of "reg_flags s" 6]
    and_power_two_truth [of "reg_flags s" 7] and_power_two_truth [of "reg_flags s" 11]
  by (simp_all add: GETFLAG_def eager_flags_def Let_def)

section \<open>Reading the getters\<close>

lemmas getter_defs = get_CF_def get_PF_def get_AF_def get_ZF_def get_SF_def get_OF_def
lemmas fill_defs = FillFlags_def FillFlags_switch_def FillFlags_add_def FillFlags_sub_def
  FillFlags_logic_def FillFlags_shl_def FillFlags_shr_def FillFlags_step_def

lemmas flag_reading = lazy_flags_def getter_defs truth_parity Let_def bit_simps

section \<open>The architectural flags\<close>

text \<open>
  What an x86 processor sets after an addition with carry, a subtraction with borrow and a logical
  operation, stated on integers.
\<close>

definition x86_add :: "'a::len word \<Rightarrow> 'a word \<Rightarrow> bool \<Rightarrow> flags6" where
  "x86_add a b c = (let r = a + b + of_bool c; h = 2 ^ (LENGTH('a) - 1); t = sint a + sint b + of_bool c in
     \<lparr>fCF = (2 ^ LENGTH('a) \<le> unat a + unat b + of_bool c), fPF = even_parity r,
      fAF = (16 \<le> unat a mod 16 + unat b mod 16 + of_bool c), fZF = (r = 0), fSF = (sint r < 0),
      fOF = (t < - h \<or> h \<le> t)\<rparr>)"

definition x86_sub :: "'a::len word \<Rightarrow> 'a word \<Rightarrow> bool \<Rightarrow> flags6" where
  "x86_sub a b c = (let r = a - (b + of_bool c); h = 2 ^ (LENGTH('a) - 1); t = sint a - sint b - of_bool c in
     \<lparr>fCF = (unat a < unat b + of_bool c), fPF = even_parity r,
      fAF = (unat a mod 16 < unat b mod 16 + of_bool c), fZF = (r = 0), fSF = (sint r < 0),
      fOF = (t < - h \<or> h \<le> t)\<rparr>)"

definition x86_logic :: "'a::len word \<Rightarrow> flags6" where
  "x86_logic r = \<lparr>fCF = False, fPF = even_parity r, fAF = False, fZF = (r = 0), fSF = (sint r < 0),
     fOF = False\<rparr>"

definition add_bits :: "bool \<Rightarrow> 'a::len word \<Rightarrow> 'a word \<Rightarrow> 'a word \<Rightarrow> flags6" where
  "add_bits c a b r = \<lparr>fCF = c, fPF = even_parity r, fAF = bit (a XOR b XOR r) 4, fZF = (r = 0),
     fSF = sgn_bit r, fOF = (sgn_bit a = sgn_bit b \<and> sgn_bit r \<noteq> sgn_bit b)\<rparr>"

definition sub_bits :: "bool \<Rightarrow> 'a::len word \<Rightarrow> 'a word \<Rightarrow> 'a word \<Rightarrow> flags6" where
  "sub_bits c a b r = \<lparr>fCF = c, fPF = even_parity r, fAF = bit (a XOR b XOR r) 4, fZF = (r = 0),
     fSF = sgn_bit r, fOF = (sgn_bit a \<noteq> sgn_bit b \<and> sgn_bit r \<noteq> sgn_bit a)\<rparr>"

lemma range_negated: "(t < - h \<or> h \<le> t) \<longleftrightarrow> \<not> (- h \<le> t \<and> t < h)" for t h :: int
  by auto

lemma add_bits_exact:
  assumes "8 \<le> LENGTH('a::len)" "r = a + b + of_bool c" "k \<longleftrightarrow> (r < a \<or> (c \<and> r = a))"
  shows "add_bits k a b (r :: 'a word) = x86_add a b c"
proof -
  have "4 < LENGTH('a)" using assms(1) by simp
  then show ?thesis
    using overflow_adc_bits [of a b c] carry_adc_less [of a b c] aux_adc_bits [of a b c] assms(3)
    unfolding assms(2) add_bits_def x86_add_def Let_def sgn_bit_iff_sint range_negated
    by (simp only: of_nat_power of_nat_numeral of_nat_of_bool not_False_eq_True)
qed

lemma sub_bits_exact:
  assumes "8 \<le> LENGTH('a::len)" "r = a - (b + of_bool c)" "k \<longleftrightarrow> unat a < unat b + of_bool c"
  shows "sub_bits k a b (r :: 'a word) = x86_sub a b c"
proof -
  have "4 < LENGTH('a)" using assms(1) by simp
  then show ?thesis
    using overflow_sbb_bits [of a b c] aux_sbb_bits [of a b c] assms(3)
    unfolding assms(2) sub_bits_def x86_sub_def Let_def sgn_bit_iff_sint range_negated
    by (simp only: of_nat_power of_nat_numeral of_nat_of_bool not_False_eq_True)
qed

section \<open>One operand width\<close>


lemmas lf_writers = set_var1_def set_var2_def set_res_def set_type_def set_oldcf_def

definition commit :: "lazy_type \<Rightarrow> 'a::len word \<Rightarrow> 'a word \<Rightarrow> 'a word \<Rightarrow> cpu \<Rightarrow> cpu" where
  "commit t a b r s = set_type t (set_res r (set_var2 b (set_var1 a s)))"

lemma commit_fields [simp]:
  "lf_type (commit t a b r s) = t" "lf_oldcf (commit t a b r s) = lf_oldcf s"
  by (simp_all add: commit_def lf_writers)

lemma commit_views [simp]:
  assumes "LENGTH('a::len) \<le> 32"
  shows "(ucast (lf_var1 (commit t a b r s)) :: 'a word) = a"
    "(ucast (lf_var2 (commit t a b r s)) :: 'a word) = b"
    "(ucast (lf_res (commit t a b r s)) :: 'a word) = r"
  using assms by (simp_all add: commit_def lf_writers)

lemma byte_flags:
  "lf_type s = LF k_ADD Wb \<Longrightarrow> lazy_flags s = add_bits ((ucast (lf_res s) :: u8) < (ucast (lf_var1 s) :: u8)) (ucast (lf_var1 s) :: u8) (ucast (lf_var2 s) :: u8) (ucast (lf_res s) :: u8)"
  "lf_type s = LF k_ADC Wb \<Longrightarrow> lazy_flags s = add_bits ((ucast (lf_res s) :: u8) < (ucast (lf_var1 s) :: u8) \<or> (truth (lf_oldcf s) \<and> (ucast (lf_res s) :: u8) = (ucast (lf_var1 s) :: u8))) (ucast (lf_var1 s) :: u8) (ucast (lf_var2 s) :: u8) (ucast (lf_res s) :: u8)"
  "lf_type s = LF k_SUB Wb \<Longrightarrow> lazy_flags s = sub_bits ((ucast (lf_var1 s) :: u8) < (ucast (lf_var2 s) :: u8)) (ucast (lf_var1 s) :: u8) (ucast (lf_var2 s) :: u8) (ucast (lf_res s) :: u8)"
  "lf_type s = LF k_CMP Wb \<Longrightarrow> lazy_flags s = sub_bits ((ucast (lf_var1 s) :: u8) < (ucast (lf_var2 s) :: u8)) (ucast (lf_var1 s) :: u8) (ucast (lf_var2 s) :: u8) (ucast (lf_res s) :: u8)"
  "lf_type s = LF k_SBB Wb \<Longrightarrow> lazy_flags s = sub_bits ((ucast (lf_var1 s) :: u8) < (ucast (lf_res s) :: u8) \<or> (truth (lf_oldcf s) \<and> (ucast (lf_var2 s) :: u8) = - 1)) (ucast (lf_var1 s) :: u8) (ucast (lf_var2 s) :: u8) (ucast (lf_res s) :: u8)"
  "lf_type s = LF k_OR Wb \<Longrightarrow> lazy_flags s = x86_logic (ucast (lf_res s) :: u8)"
  "lf_type s = LF k_AND Wb \<Longrightarrow> lazy_flags s = x86_logic (ucast (lf_res s) :: u8)"
  "lf_type s = LF k_XOR Wb \<Longrightarrow> lazy_flags s = x86_logic (ucast (lf_res s) :: u8)"
  "lf_type s = LF k_TEST Wb \<Longrightarrow> lazy_flags s = x86_logic (ucast (lf_res s) :: u8)"
  by (auto simp: lazy_flags_def add_bits_def sub_bits_def x86_logic_def getter_defs truth_parity
      even_parity_ucast bit_simps simp flip: sgn_bit_iff_sint)

lemma word_flags:
  "lf_type s = LF k_ADD Ww \<Longrightarrow> lazy_flags s = add_bits ((ucast (lf_res s) :: u16) < (ucast (lf_var1 s) :: u16)) (ucast (lf_var1 s) :: u16) (ucast (lf_var2 s) :: u16) (ucast (lf_res s) :: u16)"
  "lf_type s = LF k_ADC Ww \<Longrightarrow> lazy_flags s = add_bits ((ucast (lf_res s) :: u16) < (ucast (lf_var1 s) :: u16) \<or> (truth (lf_oldcf s) \<and> (ucast (lf_res s) :: u16) = (ucast (lf_var1 s) :: u16))) (ucast (lf_var1 s) :: u16) (ucast (lf_var2 s) :: u16) (ucast (lf_res s) :: u16)"
  "lf_type s = LF k_SUB Ww \<Longrightarrow> lazy_flags s = sub_bits ((ucast (lf_var1 s) :: u16) < (ucast (lf_var2 s) :: u16)) (ucast (lf_var1 s) :: u16) (ucast (lf_var2 s) :: u16) (ucast (lf_res s) :: u16)"
  "lf_type s = LF k_CMP Ww \<Longrightarrow> lazy_flags s = sub_bits ((ucast (lf_var1 s) :: u16) < (ucast (lf_var2 s) :: u16)) (ucast (lf_var1 s) :: u16) (ucast (lf_var2 s) :: u16) (ucast (lf_res s) :: u16)"
  "lf_type s = LF k_SBB Ww \<Longrightarrow> lazy_flags s = sub_bits ((ucast (lf_var1 s) :: u16) < (ucast (lf_res s) :: u16) \<or> (truth (lf_oldcf s) \<and> (ucast (lf_var2 s) :: u16) = - 1)) (ucast (lf_var1 s) :: u16) (ucast (lf_var2 s) :: u16) (ucast (lf_res s) :: u16)"
  "lf_type s = LF k_OR Ww \<Longrightarrow> lazy_flags s = x86_logic (ucast (lf_res s) :: u16)"
  "lf_type s = LF k_AND Ww \<Longrightarrow> lazy_flags s = x86_logic (ucast (lf_res s) :: u16)"
  "lf_type s = LF k_XOR Ww \<Longrightarrow> lazy_flags s = x86_logic (ucast (lf_res s) :: u16)"
  "lf_type s = LF k_TEST Ww \<Longrightarrow> lazy_flags s = x86_logic (ucast (lf_res s) :: u16)"
  by (auto simp: lazy_flags_def add_bits_def sub_bits_def x86_logic_def getter_defs truth_parity
      even_parity_ucast bit_simps simp flip: sgn_bit_iff_sint)

lemma dword_flags:
  "lf_type s = LF k_ADD Wd \<Longrightarrow> lazy_flags s = add_bits (lf_res s < lf_var1 s) (lf_var1 s) (lf_var2 s) (lf_res s)"
  "lf_type s = LF k_ADC Wd \<Longrightarrow> lazy_flags s = add_bits (lf_res s < lf_var1 s \<or> (truth (lf_oldcf s) \<and> lf_res s = lf_var1 s)) (lf_var1 s) (lf_var2 s) (lf_res s)"
  "lf_type s = LF k_SUB Wd \<Longrightarrow> lazy_flags s = sub_bits (lf_var1 s < lf_var2 s) (lf_var1 s) (lf_var2 s) (lf_res s)"
  "lf_type s = LF k_CMP Wd \<Longrightarrow> lazy_flags s = sub_bits (lf_var1 s < lf_var2 s) (lf_var1 s) (lf_var2 s) (lf_res s)"
  "lf_type s = LF k_SBB Wd \<Longrightarrow> lazy_flags s = sub_bits (lf_var1 s < lf_res s \<or> (truth (lf_oldcf s) \<and> lf_var2 s = - 1)) (lf_var1 s) (lf_var2 s) (lf_res s)"
  "lf_type s = LF k_OR Wd \<Longrightarrow> lazy_flags s = x86_logic (lf_res s)"
  "lf_type s = LF k_AND Wd \<Longrightarrow> lazy_flags s = x86_logic (lf_res s)"
  "lf_type s = LF k_XOR Wd \<Longrightarrow> lazy_flags s = x86_logic (lf_res s)"
  "lf_type s = LF k_TEST Wd \<Longrightarrow> lazy_flags s = x86_logic (lf_res s)"
  by (auto simp: lazy_flags_def add_bits_def sub_bits_def x86_logic_def getter_defs truth_parity
      even_parity_ucast bit_simps simp flip: sgn_bit_iff_sint)

lemmas byte_macros = ADDB_def ADCB_def SUBB_def SBBB_def ORB_def ANDB_def XORB_def CMPB_def TESTB_def

lemmas word_macros = ADDW_def ADCW_def SUBW_def SBBW_def ORW_def ANDW_def XORW_def CMPW_def TESTW_def

lemmas dword_macros = ADDD_def ADCD_def SUBD_def SBBD_def ORD_def ANDD_def XORD_def CMPD_def TESTD_def

lemma TFLG_lazy:
  "TFLG_B s \<longleftrightarrow> fCF (lazy_flags s)" "TFLG_BE s \<longleftrightarrow> fCF (lazy_flags s) \<or> fZF (lazy_flags s)"
  "TFLG_Z s \<longleftrightarrow> fZF (lazy_flags s)" "TFLG_L s \<longleftrightarrow> fSF (lazy_flags s) \<noteq> fOF (lazy_flags s)"
  "TFLG_LE s \<longleftrightarrow> fZF (lazy_flags s) \<or> fSF (lazy_flags s) \<noteq> fOF (lazy_flags s)"
  "TFLG_NB s \<longleftrightarrow> \<not> TFLG_B s" "TFLG_NBE s \<longleftrightarrow> \<not> TFLG_BE s" "TFLG_NZ s \<longleftrightarrow> \<not> TFLG_Z s"
  "TFLG_NL s \<longleftrightarrow> \<not> TFLG_L s" "TFLG_NLE s \<longleftrightarrow> \<not> TFLG_LE s"
  by (auto simp: TFLG_defs lazy_flags_def truth_def)

lemma signed_order_x86_sub:
  "fSF (x86_sub a b False) \<noteq> fOF (x86_sub a b False) \<longleftrightarrow> sint a < sint b"
  using sub_sign_order [of a b] by (simp add: x86_sub_def Let_def sgn_bit_iff_sint)

locale lazy_width =
  fixes W :: width
    and ADD ADC SUB SBB ORO ANDO XORO :: "'a::len word \<Rightarrow> 'a word \<Rightarrow> cpu \<Rightarrow> 'a word \<times> cpu"
    and CMP TEST :: "'a word \<Rightarrow> 'a word \<Rightarrow> cpu \<Rightarrow> cpu"
  assumes len: "8 \<le> LENGTH('a)" "LENGTH('a) \<le> 32"
    and flags_ADD: "\<And>s. lf_type s = LF k_ADD W \<Longrightarrow> lazy_flags s = add_bits ((ucast (lf_res s) :: 'a word) < (ucast (lf_var1 s) :: 'a word)) (ucast (lf_var1 s) :: 'a word) (ucast (lf_var2 s) :: 'a word) (ucast (lf_res s) :: 'a word)"
    and flags_ADC: "\<And>s. lf_type s = LF k_ADC W \<Longrightarrow> lazy_flags s = add_bits ((ucast (lf_res s) :: 'a word) < (ucast (lf_var1 s) :: 'a word) \<or> (truth (lf_oldcf s) \<and> (ucast (lf_res s) :: 'a word) = (ucast (lf_var1 s) :: 'a word))) (ucast (lf_var1 s) :: 'a word) (ucast (lf_var2 s) :: 'a word) (ucast (lf_res s) :: 'a word)"
    and flags_SUB: "\<And>s. lf_type s = LF k_SUB W \<Longrightarrow> lazy_flags s = sub_bits ((ucast (lf_var1 s) :: 'a word) < (ucast (lf_var2 s) :: 'a word)) (ucast (lf_var1 s) :: 'a word) (ucast (lf_var2 s) :: 'a word) (ucast (lf_res s) :: 'a word)"
    and flags_CMP: "\<And>s. lf_type s = LF k_CMP W \<Longrightarrow> lazy_flags s = sub_bits ((ucast (lf_var1 s) :: 'a word) < (ucast (lf_var2 s) :: 'a word)) (ucast (lf_var1 s) :: 'a word) (ucast (lf_var2 s) :: 'a word) (ucast (lf_res s) :: 'a word)"
    and flags_SBB: "\<And>s. lf_type s = LF k_SBB W \<Longrightarrow> lazy_flags s = sub_bits ((ucast (lf_var1 s) :: 'a word) < (ucast (lf_res s) :: 'a word) \<or> (truth (lf_oldcf s) \<and> (ucast (lf_var2 s) :: 'a word) = - 1)) (ucast (lf_var1 s) :: 'a word) (ucast (lf_var2 s) :: 'a word) (ucast (lf_res s) :: 'a word)"
    and flags_OR: "\<And>s. lf_type s = LF k_OR W \<Longrightarrow> lazy_flags s = x86_logic (ucast (lf_res s) :: 'a word)"
    and flags_AND: "\<And>s. lf_type s = LF k_AND W \<Longrightarrow> lazy_flags s = x86_logic (ucast (lf_res s) :: 'a word)"
    and flags_XOR: "\<And>s. lf_type s = LF k_XOR W \<Longrightarrow> lazy_flags s = x86_logic (ucast (lf_res s) :: 'a word)"
    and flags_TEST: "\<And>s. lf_type s = LF k_TEST W \<Longrightarrow> lazy_flags s = x86_logic (ucast (lf_res s) :: 'a word)"
    and ADD_eq: "\<And>a b s. ADD a b s = (a + b, commit (LF k_ADD W) a b (a + b) s)"
    and ADC_eq: "\<And>a b s. ADC a b s = (let r = a + b + of_bool (truth (get_CF s)) in
      (r, commit (LF k_ADC W) a b r (set_oldcf s)))"
    and SUB_eq: "\<And>a b s. SUB a b s = (a - b, commit (LF k_SUB W) a b (a - b) s)"
    and SBB_eq: "\<And>a b s. SBB a b s = (let r = a - (b + of_bool (truth (get_CF s))) in
      (r, commit (LF k_SBB W) a b r (set_oldcf s)))"
    and CMP_eq: "\<And>a b s. CMP a b s = commit (LF k_CMP W) a b (a - b) s"
    and ORO_eq: "\<And>a b s. ORO a b s = (a OR b, commit (LF k_OR W) a b (a OR b) s)"
    and ANDO_eq: "\<And>a b s. ANDO a b s = (a AND b, commit (LF k_AND W) a b (a AND b) s)"
    and XORO_eq: "\<And>a b s. XORO a b s = (a XOR b, commit (LF k_XOR W) a b (a XOR b) s)"
    and TEST_eq: "\<And>a b s. TEST a b s = commit (LF k_TEST W) a b (a AND b) s"
begin

lemma add_exact: "fst (ADD a b s) = a + b \<and> lazy_flags (snd (ADD a b s)) = x86_add a b False"
  using add_bits_exact [OF len(1), where c = False and k = "a + b < a"]
  by (simp add: ADD_eq flags_ADD len)

lemma adc_exact: "fst (ADC a b s) = a + b + of_bool (fCF (lazy_flags s)) \<and>
    lazy_flags (snd (ADC a b s)) = x86_add a b (fCF (lazy_flags s))"
  by (simp add: ADC_eq Let_def flags_ADC len add_bits_exact set_oldcf_def lazy_flags_def [of s] del: of_bool_eq_iff)

lemma sub_exact: "fst (SUB a b s) = a - b \<and> lazy_flags (snd (SUB a b s)) = x86_sub a b False"
  using sub_bits_exact [OF len(1), where c = False and k = "a < b"]
  by (simp add: SUB_eq flags_SUB len word_less_nat_alt)

lemma cmp_exact: "lazy_flags (CMP a b s) = x86_sub a b False"
  using sub_bits_exact [OF len(1), where c = False and k = "a < b"]
  by (simp add: CMP_eq flags_CMP len word_less_nat_alt)

lemma sbb_exact: "fst (SBB a b s) = a - (b + of_bool (fCF (lazy_flags s))) \<and>
    lazy_flags (snd (SBB a b s)) = x86_sub a b (fCF (lazy_flags s))"
  using borrow_sbb [of a b "truth (get_CF s)"]
  by (simp add: SBB_eq Let_def flags_SBB len sub_bits_exact set_oldcf_def lazy_flags_def [of s])

lemma logic_exact:
  "fst (ORO a b s) = a OR b \<and> lazy_flags (snd (ORO a b s)) = x86_logic (a OR b)"
  "fst (ANDO a b s) = a AND b \<and> lazy_flags (snd (ANDO a b s)) = x86_logic (a AND b)"
  "fst (XORO a b s) = a XOR b \<and> lazy_flags (snd (XORO a b s)) = x86_logic (a XOR b)"
  "lazy_flags (TEST a b s) = x86_logic (a AND b)"
  by (simp_all add: ORO_eq ANDO_eq XORO_eq TEST_eq flags_OR flags_AND flags_XOR flags_TEST len)

lemma cmp_conditions:
  "TFLG_B (CMP a b s) \<longleftrightarrow> a < b" "TFLG_BE (CMP a b s) \<longleftrightarrow> a \<le> b"
  "TFLG_Z (CMP a b s) \<longleftrightarrow> a = b"
  "TFLG_L (CMP a b s) \<longleftrightarrow> sint a < sint b" "TFLG_LE (CMP a b s) \<longleftrightarrow> sint a \<le> sint b"
proof -
  have eq: "a = b \<longleftrightarrow> sint a = sint b" by (auto intro: signed_word_eqI)
  have z: "fZF (x86_sub a b False) \<longleftrightarrow> a = b" by (simp add: x86_sub_def Let_def)
  show "TFLG_LE (CMP a b s) \<longleftrightarrow> sint a \<le> sint b"
    by (simp only: TFLG_lazy cmp_exact signed_order_x86_sub z) (simp only: eq, linarith)
  show "TFLG_L (CMP a b s) \<longleftrightarrow> sint a < sint b"
    by (simp only: TFLG_lazy cmp_exact signed_order_x86_sub)
qed (auto simp: TFLG_lazy cmp_exact x86_sub_def Let_def simp flip: word_less_nat_alt)
end

interpretation byte: lazy_width Wb ADDB ADCB SUBB SBBB ORB ANDB XORB CMPB TESTB
  by unfold_locales (simp_all add: byte_flags byte_macros commit_def lf_writers Let_def)

interpretation word: lazy_width Ww ADDW ADCW SUBW SBBW ORW ANDW XORW CMPW TESTW
  by unfold_locales (simp_all add: word_flags word_macros commit_def lf_writers Let_def)

interpretation dword: lazy_width Wd ADDD ADCD SUBD SBBD ORD ANDD XORD CMPD TESTD
  by unfold_locales (simp_all add: dword_flags dword_macros commit_def lf_writers Let_def)

text \<open>A state for the witnesses: a byte with only its top bit set has just been shifted right by one.\<close>

definition cpu0 :: cpu where
  "cpu0 = \<lparr>lf_var1 = 0x80, lf_var2 = 1, lf_res = 0x40, lf_type = t_SHRb, lf_oldcf = 0, reg_flags = 2,
     reg_eax = 0, reg_ecx = 0, reg_edx = 0, reg_ebx = 0\<rparr>"

end
