(* ===== verification/Fill_Correct.thy ===== *)
theory Fill_Correct
  imports Flags_Correct
begin

text \<open>
  \<open>FillFlags\<close> and \<open>FillFlagsNoCFOF\<close> write the flags the getters report to \<open>reg_flags\<close>. The
  lemmas go through the groups of the switch; two groups differ from the getters: \<open>SHR\<close> by one
  of a value with only its top bit set (\<open>shr_boundary\<close>), and the auxiliary carry of the double
  shifts. Everything outside the six test flags is left alone (\<open>beside_flags\<close>).
\<close>

section \<open>The groups of the switch\<close>

lemma fill_unknown: "lf_type s = t_UNKNOWN \<Longrightarrow> eager_flags (snd (FillFlags s)) = lazy_flags s"
  by (auto simp: fill_defs flag_reading intro!: flags6.equality)

lemma fill_arith:
  assumes "lf_type s = LF k w" "k \<in> {k_ADD, k_ADC, k_SBB, k_SUB, k_CMP}"
  shows "eager_flags (snd (FillFlags s)) = lazy_flags s"
  using assms
  by (cases w; elim insertE emptyE) (auto simp: fill_defs flag_reading intro!: flags6.equality)

lemma fill_logic:
  assumes "lf_type s = LF k w" "k \<in> {k_OR, k_AND, k_XOR, k_TEST}"
  shows "eager_flags (snd (FillFlags s)) = lazy_flags s"
  using assms
  by (cases w; elim insertE emptyE) (auto simp: fill_defs flag_reading intro!: flags6.equality)

lemma fill_shift:
  assumes "lf_type s = LF k w" "k \<in> {k_SHL, k_SAR, k_INC, k_DEC}"
  shows "eager_flags (snd (FillFlags s)) = lazy_flags s"
  using assms
  by (cases w; elim insertE emptyE) (auto simp: fill_defs flag_reading intro!: flags6.equality)

text \<open>For \<open>NEG\<close> the auxiliary carry is read off the result in one place and off the operand in the
  other.\<close>

lemma neg_low_nibble: "(- a :: 'a::len word) AND 0xf = 0 \<longleftrightarrow> a AND 0xf = 0"
proof -
  have nib: "x AND 0xf = take_bit 4 x" for x :: "'a word"
    by (simp add: take_bit_eq_mask mask_eq_exp_minus_1)
  show ?thesis by (simp add: nib take_bit_eq_0_iff)
qed

definition neg_recorded :: "cpu \<Rightarrow> bool" where
  "neg_recorded s \<longleftrightarrow> (lf_type s = t_NEGb \<longrightarrow> lf_resb s = - lf_var1b s)
     \<and> (lf_type s = t_NEGw \<longrightarrow> lf_resw s = - lf_var1w s)
     \<and> (lf_type s = t_NEGd \<longrightarrow> lf_resd s = - lf_var1d s)"

lemma fill_neg:
  assumes "lf_type s = LF k_NEG w" "neg_recorded s"
  shows "eager_flags (snd (FillFlags s)) = lazy_flags s"
  using assms by (cases w)
   (auto simp: fill_defs flag_reading neg_recorded_def neg_low_nibble truth_neg_operand intro!: flags6.equality)

text \<open>\<open>SHR\<close> by one: the getter uses \<open>>\<close> where \<open>FillFlags\<close> uses \<open>\<ge>\<close>.\<close>

definition shr_boundary :: "cpu \<Rightarrow> bool" where
  "shr_boundary s \<longleftrightarrow> lf_var2 s AND 0x1f = 1 \<and>
     ((lf_type s = t_SHRb \<and> lf_var1b s = 0x80) \<or> (lf_type s = t_SHRw \<and> lf_var1w s = 0x8000)
      \<or> (lf_type s = t_SHRd \<and> lf_var1d s = 0x80000000))"

lemma unat_count: "unat (w AND 0x1f) = unat w mod 32" for w :: "'a::len word"
proof -
  have "w AND 0x1f = take_bit 5 w" by (simp add: take_bit_eq_mask mask_eq_exp_minus_1)
  then show ?thesis by (simp only: unsigned_take_bit_eq) (simp add: take_bit_eq_mod)
qed

lemma unat_ucast_count:
  assumes "5 \<le> LENGTH('a)"
  shows "unat (ucast x :: 'a::len word) mod 32 = unat (x :: 'b::len word) mod 32"
proof -
  have "(32 :: nat) dvd 2 ^ LENGTH('a)"
    using assms le_imp_power_dvd [of 5 "LENGTH('a)" "2 :: nat"] by simp
  then show ?thesis by (simp add: unsigned_ucast_eq take_bit_eq_mod mod_mod_cancel)
qed

lemma var2_count_views:
  "lf_var2b s AND 0x1f = 1 \<longleftrightarrow> lf_var2 s AND 0x1f = 1"
  "lf_var2w s AND 0x1f = 1 \<longleftrightarrow> lf_var2 s AND 0x1f = 1"
  by (simp_all add: word_unat_eq_iff unat_count unat_ucast_count)

lemma fill_shr:
  assumes "lf_type s = LF k_SHR w"
  shows "eager_flags (snd (FillFlags s)) = (lazy_flags s)\<lparr>fOF := fOF (lazy_flags s) \<or> shr_boundary s\<rparr>"
  using assms
  by (cases w) (auto simp: fill_defs flag_reading shr_boundary_def var2_count_views intro!: flags6.equality)

lemma fill_dsh:
  assumes "lf_type s = LF k w" "k \<in> {k_DSHL, k_DSHR}" "w \<noteq> Wb"
  shows "eager_flags (snd (FillFlags s)) = (lazy_flags s)\<lparr>fAF := fAF (eager_flags s)\<rparr>"
  using assms
  by (cases w; elim insertE emptyE) (auto simp: fill_defs flag_reading intro!: flags6.equality)

section \<open>Writing the flags out\<close>

definition recorded_kind :: "lazy_type \<Rightarrow> bool" where
  "recorded_kind t \<longleftrightarrow> (case t of t_UNKNOWN \<Rightarrow> True
     | LF k w \<Rightarrow> (k \<in> {k_DSHL, k_DSHR} \<longrightarrow> w \<noteq> Wb) \<and> k \<notin> {k_ROL, k_ROR, k_RCL, k_RCR}
     | _ \<Rightarrow> False)"

definition dsh_kind :: "lazy_type \<Rightarrow> bool" where
  "dsh_kind t \<longleftrightarrow> (case t of LF k w \<Rightarrow> k \<in> {k_DSHL, k_DSHR} | _ \<Rightarrow> False)"

lemma fill_flags_agree:
  assumes "recorded_kind (lf_type s)" "neg_recorded s"
  shows "eager_flags (snd (FillFlags s)) = (lazy_flags s)
     \<lparr>fOF := fOF (lazy_flags s) \<or> shr_boundary s,
      fAF := (if dsh_kind (lf_type s) then fAF (eager_flags s) else fAF (lazy_flags s))\<rparr>"
proof (cases "lf_type s")
  case (LF k w)
  have not_shr: "\<not> shr_boundary s" if "k \<noteq> k_SHR"
    using that LF by (simp add: shr_boundary_def)
  have dsh: "dsh_kind (lf_type s) \<longleftrightarrow> k \<in> {k_DSHL, k_DSHR}"
    using LF by (simp add: dsh_kind_def)
  consider "k \<in> {k_ADD, k_ADC, k_SBB, k_SUB, k_CMP}" | "k \<in> {k_OR, k_AND, k_XOR, k_TEST}"
    | "k \<in> {k_SHL, k_SAR, k_INC, k_DEC}" | "k = k_NEG" | "k = k_SHR" | "k \<in> {k_DSHL, k_DSHR}"
    using assms(1) LF by (cases k) (simp_all add: recorded_kind_def)
  then show ?thesis
  proof cases
    case 1 with LF not_shr dsh show ?thesis by (auto simp: fill_arith)
  next
    case 2 with LF not_shr dsh show ?thesis by (auto simp: fill_logic)
  next
    case 3 with LF not_shr dsh show ?thesis by (auto simp: fill_shift)
  next
    case 4 with LF not_shr dsh assms(2) show ?thesis by (simp add: fill_neg)
  next
    case 5 with LF dsh show ?thesis by (simp add: fill_shr)
  next
    case 6
    then have "w \<noteq> Wb" using assms(1) LF by (simp add: recorded_kind_def)
    with 6 LF not_shr dsh show ?thesis by (auto simp: fill_dsh)
  qed
qed (use assms in \<open>simp_all add: recorded_kind_def fill_unknown shr_boundary_def dsh_kind_def\<close>)

text \<open>The registers outside the test flags are left alone, and reading again gives the same.\<close>

definition FMASK_TEST :: u32 where
  "FMASK_TEST = FLAG_CF OR FLAG_PF OR FLAG_AF OR FLAG_ZF OR FLAG_SF OR FLAG_OF"

definition beside_flags :: "cpu \<Rightarrow> cpu" where
  "beside_flags s = s\<lparr>reg_flags := reg_flags s AND NOT FMASK_TEST, lf_type := t_UNKNOWN\<rparr>"

lemma masked_write:
  fixes x :: "'a::len word"
  assumes "m AND M = m"
  shows "(x OR m) AND NOT M = x AND NOT M" "(x AND NOT m) AND NOT M = x AND NOT M"
proof -
  have "bit M n" if "bit m n" for n using that assms by (metis bit_and_iff)
  then show "(x OR m) AND NOT M = x AND NOT M" "(x AND NOT m) AND NOT M = x AND NOT M"
    by (auto intro!: bit_word_eqI simp: bit_simps)
qed

lemma beside_SETFLAGBIT_mask: "m AND FMASK_TEST = m \<Longrightarrow> beside_flags (SETFLAGBIT m b s) = beside_flags s"
  by (simp add: beside_flags_def SETFLAGBIT_def masked_write)

lemma beside_SETFLAGBIT [simp]:
  "beside_flags (SETFLAGBIT FLAG_CF b s) = beside_flags s" "beside_flags (SETFLAGBIT FLAG_PF b s) = beside_flags s"
  "beside_flags (SETFLAGBIT FLAG_AF b s) = beside_flags s" "beside_flags (SETFLAGBIT FLAG_ZF b s) = beside_flags s"
  "beside_flags (SETFLAGBIT FLAG_SF b s) = beside_flags s" "beside_flags (SETFLAGBIT FLAG_OF b s) = beside_flags s"
  by (rule beside_SETFLAGBIT_mask, simp add: FMASK_TEST_def)+

lemma and_power_two_eq: "w AND 2 ^ n = (if bit w n then 2 ^ n else 0)" for w :: "'a::len word"
  by (rule bit_word_eqI) (auto simp: bit_simps)

lemma flag_write:
  assumes "v = (if b then m else 0)"
  shows "s\<lparr>reg_flags := (reg_flags s AND NOT m) OR v\<rparr> = SETFLAGBIT m b s"
proof -
  have "(reg_flags s AND NOT m) OR m = reg_flags s OR m"
    by (rule bit_word_eqI) (auto simp: bit_simps)
  then show ?thesis by (simp add: assms SETFLAGBIT_def)
qed

lemma DOFLAG_SETFLAGBIT:
  "DOFLAG_PF s = SETFLAGBIT FLAG_PF (even_parity (lf_resb s)) s"
  "DOFLAG_AF s = SETFLAGBIT FLAG_AF (bit (lf_var1b s XOR lf_var2b s XOR lf_resb s) 4) s"
  "DOFLAG_SFb s = SETFLAGBIT FLAG_SF (sgn_bit (lf_resb s)) s"
  "DOFLAG_SFw s = SETFLAGBIT FLAG_SF (sgn_bit (lf_resw s)) s"
  "DOFLAG_SFd s = SETFLAGBIT FLAG_SF (sgn_bit (lf_resd s)) s"
  using and_power_two_eq [of "lf_resb s" 7] and_power_two_eq [of "lf_resw s" 15] and_power_two_eq [of "lf_resd s" 31]
    and_power_two_eq [of "lf_var1b s XOR lf_var2b s XOR lf_resb s" 4]
  unfolding DOFLAG_PF_def DOFLAG_AF_def DOFLAG_SFb_def DOFLAG_SFw_def DOFLAG_SFd_def
  by - (rule flag_write, simp add: parity_lookup_eq sgn_bit_def)+

lemma beside_DOFLAG [simp]:
  "beside_flags (DOFLAG_PF s) = beside_flags s" "beside_flags (DOFLAG_AF s) = beside_flags s"
  "beside_flags (DOFLAG_ZFb s) = beside_flags s" "beside_flags (DOFLAG_ZFw s) = beside_flags s"
  "beside_flags (DOFLAG_ZFd s) = beside_flags s" "beside_flags (DOFLAG_SFb s) = beside_flags s"
  "beside_flags (DOFLAG_SFw s) = beside_flags s" "beside_flags (DOFLAG_SFd s) = beside_flags s"
  by (simp_all only: DOFLAG_SETFLAGBIT DOFLAG_ZFb_def DOFLAG_ZFw_def DOFLAG_ZFd_def beside_SETFLAGBIT)

lemma FillFlags_switch_frame: "FillFlags_switch s = Some s' \<Longrightarrow> beside_flags s' = beside_flags s"
  by (auto simp: FillFlags_switch_def FillFlags_add_def FillFlags_sub_def
      FillFlags_logic_def FillFlags_shl_def FillFlags_shr_def FillFlags_step_def Let_def
      split: if_splits option.splits lazy_type.splits alu_kind.splits width.splits)

lemma lazy_flags_unknown: "lf_type s = t_UNKNOWN \<Longrightarrow> lazy_flags s = eager_flags s"
  by (auto simp: flag_reading intro!: flags6.equality)

lemma FillFlags_switch_defined: "recorded_kind (lf_type s) \<Longrightarrow> FillFlags_switch s \<noteq> None"
  by (cases "lf_type s"; simp add: recorded_kind_def FillFlags_switch_def)
     (auto simp: FillFlags_add_def FillFlags_sub_def FillFlags_logic_def FillFlags_shl_def
      FillFlags_shr_def FillFlags_step_def Let_def split: option.splits alu_kind.splits width.splits)

lemmas nocfof_defs = FillFlagsNoCFOF_def FillFlagsNoCFOF_add_def FillFlagsNoCFOF_logic_def FillFlagsNoCFOF_step_def

lemma nocfof_frame: "beside_flags (FillFlagsNoCFOF s) = beside_flags s"
proof -
  have type: "beside_flags (s'\<lparr>lf_type := t\<rparr>) = beside_flags s'" for s' t
    by (simp add: beside_flags_def)
  have "FillFlagsNoCFOF_add s = Some s' \<Longrightarrow> beside_flags s' = beside_flags s"
    "FillFlagsNoCFOF_logic s = Some s' \<Longrightarrow> beside_flags s' = beside_flags s"
    "FillFlagsNoCFOF_step s = Some s' \<Longrightarrow> beside_flags s' = beside_flags s" for s'
    by (auto simp: nocfof_defs Let_def split: if_splits option.splits lazy_type.splits alu_kind.splits width.splits)
  then show ?thesis by (auto simp: FillFlagsNoCFOF_def type split: option.splits)
qed

definition keep_CFOF :: "flags6 \<Rightarrow> flags6 \<Rightarrow> flags6" where
  "keep_CFOF new old = new\<lparr>fCF := fCF old, fOF := fOF old\<rparr>"

lemma nocfof_arith:
  assumes "lf_type s = LF k w" "k \<in> {k_ADD, k_ADC, k_SBB, k_SUB, k_CMP}"
  shows "eager_flags (FillFlagsNoCFOF s) = keep_CFOF (lazy_flags s) (eager_flags s)"
  using assms
  by (cases w; elim insertE emptyE) (auto simp: keep_CFOF_def nocfof_defs flag_reading intro!: flags6.equality)

lemma nocfof_logic:
  assumes "lf_type s = LF k w" "k \<in> {k_OR, k_AND, k_XOR, k_TEST}"
  shows "eager_flags (FillFlagsNoCFOF s) = keep_CFOF (lazy_flags s) (eager_flags s)"
  using assms
  by (cases w; elim insertE emptyE) (auto simp: keep_CFOF_def nocfof_defs flag_reading intro!: flags6.equality)

lemma nocfof_shift:
  assumes "lf_type s = LF k w" "k \<in> {k_SHL, k_SHR, k_SAR, k_INC, k_DEC}"
  shows "eager_flags (FillFlagsNoCFOF s) = keep_CFOF (lazy_flags s) (eager_flags s)"
  using assms
  by (cases w; elim insertE emptyE) (auto simp: keep_CFOF_def nocfof_defs flag_reading intro!: flags6.equality)

lemma nocfof_neg:
  assumes "lf_type s = LF k_NEG w" "neg_recorded s"
  shows "eager_flags (FillFlagsNoCFOF s) = keep_CFOF (lazy_flags s) (eager_flags s)"
  using assms by (cases w)
   (auto simp: keep_CFOF_def nocfof_defs flag_reading neg_recorded_def neg_low_nibble truth_neg_operand intro!: flags6.equality)

lemma nocfof_unknown: "lf_type s = t_UNKNOWN \<Longrightarrow> eager_flags (FillFlagsNoCFOF s) = keep_CFOF (lazy_flags s) (eager_flags s)"
  by (simp add: FillFlagsNoCFOF_def lazy_flags_unknown keep_CFOF_def)

lemma nocfof_dsh:
  assumes "lf_type s = LF k w" "k \<in> {k_DSHL, k_DSHR}" "w \<noteq> Wb"
  shows "eager_flags (FillFlagsNoCFOF s) = (keep_CFOF (lazy_flags s) (eager_flags s))\<lparr>fAF := fAF (eager_flags s)\<rparr>"
  using assms
  by (cases w; elim insertE emptyE) (auto simp: keep_CFOF_def nocfof_defs flag_reading intro!: flags6.equality)

lemma nocfof_agree:
  assumes "recorded_kind (lf_type s)" "neg_recorded s" "\<not> dsh_kind (lf_type s)"
  shows "eager_flags (FillFlagsNoCFOF s) = keep_CFOF (lazy_flags s) (eager_flags s)"
proof (cases "lf_type s")
  case (LF k w)
  consider "k \<in> {k_ADD, k_ADC, k_SBB, k_SUB, k_CMP}" | "k \<in> {k_OR, k_AND, k_XOR, k_TEST}"
    | "k \<in> {k_SHL, k_SHR, k_SAR, k_INC, k_DEC}" | "k = k_NEG"
    using assms(1,3) LF by (cases k) (simp_all add: recorded_kind_def dsh_kind_def)
  then show ?thesis
    by cases (use LF assms(2) in \<open>simp_all add: nocfof_arith nocfof_logic nocfof_shift nocfof_neg\<close>)
qed (use assms in \<open>simp_all add: recorded_kind_def nocfof_unknown\<close>)

lemma FillFlags_eqs:
  assumes "recorded_kind (lf_type s)"
  shows "lf_type (snd (FillFlags s)) = t_UNKNOWN" "fst (FillFlags s) = reg_flags (snd (FillFlags s))"
    "beside_flags (snd (FillFlags s)) = beside_flags s"
proof -
  obtain s' where s': "FillFlags_switch s = Some s'"
    using FillFlags_switch_defined [OF assms] by blast
  then show "lf_type (snd (FillFlags s)) = t_UNKNOWN" "fst (FillFlags s) = reg_flags (snd (FillFlags s))"
    by (simp_all add: FillFlags_def Let_def)
  show "beside_flags (snd (FillFlags s)) = beside_flags s"
    using FillFlags_switch_frame [OF s'] by (simp add: FillFlags_def Let_def s' beside_flags_def)
qed

text \<open>C20: \<open>FillFlags\<close> writes to \<open>reg_flags\<close> what the six getters report, except the overflow flag of
  \<open>SHR\<close> by one of a value whose only bit is the top one, and the auxiliary carry of the double
  shifts, which it leaves; it returns \<open>reg_flags\<close>, marks the lazy state as written out, changes no
  other register and no other flag bit, and the getters report the written flags from then on.\<close>

theorem FillFlags_writes_getters:
  assumes "recorded_kind (lf_type s)" "neg_recorded s"
  shows "eager_flags (snd (FillFlags s)) = (lazy_flags s)
     \<lparr>fOF := fOF (lazy_flags s) \<or> shr_boundary s,
      fAF := (if dsh_kind (lf_type s) then fAF (eager_flags s) else fAF (lazy_flags s))\<rparr> \<and>
    fst (FillFlags s) = reg_flags (snd (FillFlags s)) \<and> lf_type (snd (FillFlags s)) = t_UNKNOWN \<and>
    lazy_flags (snd (FillFlags s)) = eager_flags (snd (FillFlags s)) \<and>
    beside_flags (snd (FillFlags s)) = beside_flags s"
  using fill_flags_agree [OF assms] FillFlags_eqs [OF assms(1)] lazy_flags_unknown by blast

theorem FillFlags_writes_getters_witness:
  "recorded_kind (lf_type cpu0) \<and> neg_recorded cpu0 \<and> shr_boundary cpu0 \<and>
   fOF (eager_flags (snd (FillFlags cpu0))) \<and> \<not> fOF (lazy_flags cpu0)"
proof -
  have h: "recorded_kind (lf_type cpu0)" "neg_recorded cpu0" "shr_boundary cpu0"
    by (simp_all add: cpu0_def recorded_kind_def neg_recorded_def shr_boundary_def)
  from FillFlags_writes_getters [OF h(1,2)] h show ?thesis
    by (simp add: lazy_flags_def [of cpu0]) (simp add: cpu0_def get_OF_def)
qed
end
