(* ===== verification/Alu_Correct.thy ===== *)
theory Alu_Correct
  imports Flags_Correct
begin

text \<open>
  The arithmetic instructions against the processor. The properties of the carry chain, the
  comparisons and the logical operations are instances of the lemmas of \<open>lazy_width\<close>; the
  shifts and rotates are stated with the library's word operations.
\<close>

section \<open>Addition, subtraction, comparison\<close>

text \<open>C17: for every operand width, \<open>ADD\<close> and \<open>ADC\<close> return the sum modulo the width, and the six
  flags later read through the lazy state are the ones the integers dictate: carry out of the top
  bit, carry out of bit 3, zero, sign, even parity of the low byte, signed overflow.\<close>

theorem add_flags_exact:
  fixes a b :: u8 and c d :: u16 and e f :: u32
  shows "fst (ADDB a b s) = a + b \<and> lazy_flags (snd (ADDB a b s)) = x86_add a b False \<and>
    fst (ADDW c d s) = c + d \<and> lazy_flags (snd (ADDW c d s)) = x86_add c d False \<and>
    fst (ADDD e f s) = e + f \<and> lazy_flags (snd (ADDD e f s)) = x86_add e f False \<and>
    (let k = fCF (lazy_flags s) in
      fst (ADCB a b s) = a + b + of_bool k \<and> lazy_flags (snd (ADCB a b s)) = x86_add a b k \<and>
      fst (ADCW c d s) = c + d + of_bool k \<and> lazy_flags (snd (ADCW c d s)) = x86_add c d k \<and>
      fst (ADCD e f s) = e + f + of_bool k \<and> lazy_flags (snd (ADCD e f s)) = x86_add e f k)"
  unfolding Let_def
  using byte.add_exact [of a b s] word.add_exact [of c d s] dword.add_exact [of e f s]
    byte.adc_exact [of a b s] word.adc_exact [of c d s] dword.adc_exact [of e f s]
  by (simp only: simp_thms)

text \<open>C18: \<open>SUB\<close> and \<open>SBB\<close> return the difference modulo the width, and the flags read afterwards
  are borrow, borrow into bit 4, zero, sign, parity and signed overflow of the exact difference,
  the incoming borrow included.\<close>

theorem sub_flags_exact:
  fixes a b :: u8 and c d :: u16 and e f :: u32
  shows "fst (SUBB a b s) = a - b \<and> lazy_flags (snd (SUBB a b s)) = x86_sub a b False \<and>
    fst (SUBW c d s) = c - d \<and> lazy_flags (snd (SUBW c d s)) = x86_sub c d False \<and>
    fst (SUBD e f s) = e - f \<and> lazy_flags (snd (SUBD e f s)) = x86_sub e f False \<and>
    (let k = fCF (lazy_flags s) in
      fst (SBBB a b s) = a - (b + of_bool k) \<and> lazy_flags (snd (SBBB a b s)) = x86_sub a b k \<and>
      fst (SBBW c d s) = c - (d + of_bool k) \<and> lazy_flags (snd (SBBW c d s)) = x86_sub c d k \<and>
      fst (SBBD e f s) = e - (f + of_bool k) \<and> lazy_flags (snd (SBBD e f s)) = x86_sub e f k)"
  unfolding Let_def
  using byte.sub_exact [of a b s] word.sub_exact [of c d s] dword.sub_exact [of e f s]
    byte.sbb_exact [of a b s] word.sbb_exact [of c d s] dword.sbb_exact [of e f s]
  by (simp only: simp_thms)

text \<open>C19: after \<open>CMP a, b\<close> of any width the conditions of the jump instructions decide the
  unsigned order (\<open>B\<close>, \<open>BE\<close>, \<open>NB\<close>, \<open>NBE\<close>), equality (\<open>Z\<close>) and the signed order (\<open>L\<close>, \<open>LE\<close>,
  \<open>NL\<close>, \<open>NLE\<close>) of the operands.\<close>

theorem compare_and_jump:
  fixes a b :: u8 and c d :: u16 and e f :: u32
  shows "(TFLG_B (CMPB a b s) \<longleftrightarrow> a < b) \<and> (TFLG_NBE (CMPB a b s) \<longleftrightarrow> b < a) \<and> (TFLG_Z (CMPB a b s) \<longleftrightarrow> a = b) \<and>
    (TFLG_L (CMPB a b s) \<longleftrightarrow> sint a < sint b) \<and> (TFLG_NLE (CMPB a b s) \<longleftrightarrow> sint b < sint a) \<and>
    (TFLG_B (CMPW c d s) \<longleftrightarrow> c < d) \<and> (TFLG_NBE (CMPW c d s) \<longleftrightarrow> d < c) \<and> (TFLG_Z (CMPW c d s) \<longleftrightarrow> c = d) \<and>
    (TFLG_L (CMPW c d s) \<longleftrightarrow> sint c < sint d) \<and> (TFLG_NLE (CMPW c d s) \<longleftrightarrow> sint d < sint c) \<and>
    (TFLG_BE (CMPD e f s) \<longleftrightarrow> e \<le> f) \<and> (TFLG_NB (CMPD e f s) \<longleftrightarrow> f \<le> e) \<and> (TFLG_NZ (CMPD e f s) \<longleftrightarrow> e \<noteq> f) \<and>
    (TFLG_LE (CMPD e f s) \<longleftrightarrow> sint e \<le> sint f) \<and> (TFLG_NL (CMPD e f s) \<longleftrightarrow> sint f \<le> sint e)"
  by (simp add: TFLG_lazy(6-) byte.cmp_conditions word.cmp_conditions dword.cmp_conditions not_le not_less)

text \<open>The logical operations of every width return the bitwise result, clear carry, overflow
  and auxiliary carry and set zero, sign and parity from the result; \<open>TEST\<close> sets the flags of
  \<open>AND\<close>.\<close>

theorem logic_flags_exact:
  fixes a b :: u8 and c d :: u16 and e f :: u32
  shows "fst (ORB a b s) = a OR b \<and> lazy_flags (snd (ORB a b s)) = x86_logic (a OR b) \<and>
    fst (ANDW c d s) = c AND d \<and> lazy_flags (snd (ANDW c d s)) = x86_logic (c AND d) \<and>
    fst (XORD e f s) = e XOR f \<and> lazy_flags (snd (XORD e f s)) = x86_logic (e XOR f) \<and>
    fst (ANDB a b s) = a AND b \<and> lazy_flags (snd (ANDB a b s)) = x86_logic (a AND b) \<and>
    fst (XORB a b s) = a XOR b \<and> lazy_flags (snd (XORB a b s)) = x86_logic (a XOR b) \<and>
    fst (ORW c d s) = c OR d \<and> lazy_flags (snd (ORW c d s)) = x86_logic (c OR d) \<and>
    fst (XORW c d s) = c XOR d \<and> lazy_flags (snd (XORW c d s)) = x86_logic (c XOR d) \<and>
    fst (ORD e f s) = e OR f \<and> lazy_flags (snd (ORD e f s)) = x86_logic (e OR f) \<and>
    fst (ANDD e f s) = e AND f \<and> lazy_flags (snd (ANDD e f s)) = x86_logic (e AND f) \<and>
    lazy_flags (TESTB a b s) = x86_logic (a AND b) \<and> lazy_flags (TESTW c d s) = x86_logic (c AND d) \<and>
    lazy_flags (TESTD e f s) = x86_logic (e AND f)"
  by (simp add: byte.logic_exact word.logic_exact dword.logic_exact)

text \<open>A 32-bit addition done as \<open>ADD\<close> of the low words and \<open>ADC\<close> of the high words gives the
  exact 33-bit sum, its top bit in the carry flag: the carry survives the lazy state between the
  two instructions.\<close>

theorem add_adc_multiword:
  fixes lo1 hi1 lo2 hi2 :: u16
  shows "(case ADDW lo1 lo2 s of (lo, s1) \<Rightarrow> (case ADCW hi1 hi2 s1 of (hi, s2) \<Rightarrow>
    unat lo + 2 ^ 16 * unat hi + 2 ^ 32 * of_bool (TFLG_B s2)
      = (unat lo1 + 2 ^ 16 * unat hi1) + (unat lo2 + 2 ^ 16 * unat hi2)))"
proof -
  define s1 where "s1 = snd (ADDW lo1 lo2 s)"
  define k where "k = (2 ^ 16 \<le> unat lo1 + unat lo2)"
  have lo: "unat (lo1 + lo2) + 2 ^ 16 * of_bool k = unat lo1 + unat lo2"
    using unat_bound [of lo1] unat_bound [of lo2] by (auto simp: k_def unat_plus_if')
  have k: "fCF (lazy_flags s1) = k"
    using word.add_exact [of lo1 lo2 s] by (simp add: s1_def k_def x86_add_def Let_def)
  have hi: "unat (hi1 + hi2 + of_bool k) + 2 ^ 16 * of_bool (TFLG_B (snd (ADCW hi1 hi2 s1)))
      = unat hi1 + unat hi2 + of_bool k"
    using unat_bound [of hi1] unat_bound [of hi2] word.adc_exact [of hi1 hi2 s1] k
    by (auto simp: TFLG_lazy(1) x86_add_def Let_def unat_adc)
  show ?thesis
    using lo hi word.add_exact [of lo1 lo2 s] word.adc_exact [of hi1 hi2 s1] k
    by (simp add: s1_def split_def algebra_simps)
qed

section \<open>Increment, decrement, negate\<close>

definition inc_bits :: "bool \<Rightarrow> 'a::len word \<Rightarrow> flags6" where
  "inc_bits c r = \<lparr>fCF = c, fPF = even_parity r, fAF = (r AND 0xf = 0), fZF = (r = 0), fSF = sgn_bit r,
     fOF = (r = 2 ^ (LENGTH('a) - 1))\<rparr>"

definition dec_bits :: "bool \<Rightarrow> 'a::len word \<Rightarrow> flags6" where
  "dec_bits c r = \<lparr>fCF = c, fPF = even_parity r, fAF = (r AND 0xf = 0xf), fZF = (r = 0), fSF = sgn_bit r,
     fOF = (r = 2 ^ (LENGTH('a) - 1) - 1)\<rparr>"

definition neg_bits :: "'a::len word \<Rightarrow> 'a::len word \<Rightarrow> flags6" where
  "neg_bits a r = \<lparr>fCF = (a \<noteq> 0), fPF = even_parity r, fAF = (a AND 0xf \<noteq> 0), fZF = (r = 0), fSF = sgn_bit r,
     fOF = (a = 2 ^ (LENGTH('a) - 1))\<rparr>"

lemma inc_bits_exact: "5 \<le> LENGTH('a) \<Longrightarrow> inc_bits c (a + 1) = (x86_add a 1 False)\<lparr>fCF := c\<rparr>" for a :: "'a::len word"
  using inc_overflow [of a] low_nibble_inc(1) [of a]
  by (simp add: inc_bits_def x86_add_def Let_def sgn_bit_iff_sint)

lemma dec_bits_exact: "5 \<le> LENGTH('a) \<Longrightarrow> dec_bits c (a - 1) = (x86_sub a 1 False)\<lparr>fCF := c\<rparr>" for a :: "'a::len word"
  using dec_overflow [of a] low_nibble_inc(2) [of a]
  by (simp add: dec_bits_def x86_sub_def Let_def sgn_bit_iff_sint)

lemma neg_bits_exact: "neg_bits a (- a) = x86_sub 0 a False" for a :: "'a::len word"
  using neg_overflow [of a] low_nibble_unat [of a] word_unat_eq_iff [of a 0] word_unat_eq_iff [of "a AND 0xf" 0]
  by (simp add: neg_bits_def x86_sub_def Let_def sgn_bit_iff_sint)

lemma byte_step_flags:
  "lf_type s = LF k_INC Wb \<Longrightarrow> lazy_flags s = inc_bits (fCF (eager_flags s)) (lf_resb s)"
  "lf_type s = LF k_DEC Wb \<Longrightarrow> lazy_flags s = dec_bits (fCF (eager_flags s)) (lf_resb s)"
  "lf_type s = LF k_NEG Wb \<Longrightarrow> lazy_flags s = neg_bits (lf_var1b s) (lf_resb s)"
  by (auto simp: lazy_flags_def inc_bits_def dec_bits_def neg_bits_def getter_defs truth_parity even_parity_ucast
      truth_neg_operand)

lemma word_step_flags:
  "lf_type s = LF k_INC Ww \<Longrightarrow> lazy_flags s = inc_bits (fCF (eager_flags s)) (lf_resw s)"
  "lf_type s = LF k_DEC Ww \<Longrightarrow> lazy_flags s = dec_bits (fCF (eager_flags s)) (lf_resw s)"
  "lf_type s = LF k_NEG Ww \<Longrightarrow> lazy_flags s = neg_bits (lf_var1w s) (lf_resw s)"
  by (auto simp: lazy_flags_def inc_bits_def dec_bits_def neg_bits_def getter_defs truth_parity even_parity_ucast
      truth_neg_operand)

lemma dword_step_flags:
  "lf_type s = LF k_INC Wd \<Longrightarrow> lazy_flags s = inc_bits (fCF (eager_flags s)) (lf_resd s)"
  "lf_type s = LF k_DEC Wd \<Longrightarrow> lazy_flags s = dec_bits (fCF (eager_flags s)) (lf_resd s)"
  "lf_type s = LF k_NEG Wd \<Longrightarrow> lazy_flags s = neg_bits (lf_var1d s) (lf_resd s)"
  by (auto simp: lazy_flags_def inc_bits_def dec_bits_def neg_bits_def getter_defs truth_parity even_parity_ucast
      truth_neg_operand)


definition commit1 :: "lazy_type \<Rightarrow> 'a::len word \<Rightarrow> 'a word \<Rightarrow> cpu \<Rightarrow> cpu" where
  "commit1 t a r s = set_type t (set_res r (set_var1 a s))"

lemma commit1_views [simp]:
  "lf_type (commit1 t a r s) = t" "eager_flags (commit1 t a r s) = eager_flags s"
  "LENGTH('a::len) \<le> 32 \<Longrightarrow> (ucast (lf_var1 (commit1 t (a :: 'a word) r s)) :: 'a word) = a"
  "LENGTH('a::len) \<le> 32 \<Longrightarrow> (ucast (lf_res (commit1 t (a :: 'a word) r s)) :: 'a word) = r"
  "lf_var1 (commit1 t (e :: u32) f s) = e" "lf_res (commit1 t (e :: u32) f s) = f"
  by (simp_all add: commit1_def lf_writers eager_flags_def)

lemma eager_LoadCF [simp]: "fCF (eager_flags (LoadCF s)) = fCF (lazy_flags s)"
  by (simp add: LoadCF_def lazy_flags_def)

lemma step_macros:
  "INCB a s = (a + 1, commit1 t_INCb a (a + 1) (LoadCF s))" "INCW c s = (c + 1, commit1 t_INCw c (c + 1) (LoadCF s))"
  "INCD e s = (e + 1, commit1 t_INCd e (e + 1) (LoadCF s))" "DECB a s = (a - 1, commit1 t_DECb a (a - 1) (LoadCF s))"
  "DECW c s = (c - 1, commit1 t_DECw c (c - 1) (LoadCF s))" "DECD e s = (e - 1, commit1 t_DECd e (e - 1) (LoadCF s))"
  "NEGB a s = (- a, commit1 t_NEGb a (- a) s)" "NEGW c s = (- c, commit1 t_NEGw c (- c) s)"
  "NEGD e s = (- e, commit1 t_NEGd e (- e) s)"
  by (simp_all add: INCB_def INCW_def INCD_def DECB_def DECW_def DECD_def NEGB_def NEGW_def NEGD_def
      commit1_def lf_writers Let_def)

text \<open>\<open>INC\<close> and \<open>DEC\<close> of any width add and subtract one, keep the carry flag that was pending in
  the lazy state and set the other five flags of the addition and subtraction; \<open>NEG\<close> returns the
  two's complement and sets the flags of the subtraction from zero.\<close>

theorem inc_dec_neg_exact:
  fixes a :: u8 and c :: u16 and e :: u32
  shows "let k = fCF (lazy_flags s) in fst (INCB a s) = a + 1 \<and> lazy_flags (snd (INCB a s)) = (x86_add a 1 False)\<lparr>fCF := k\<rparr> \<and>
    fst (INCW c s) = c + 1 \<and> lazy_flags (snd (INCW c s)) = (x86_add c 1 False)\<lparr>fCF := k\<rparr> \<and>
    fst (INCD e s) = e + 1 \<and> lazy_flags (snd (INCD e s)) = (x86_add e 1 False)\<lparr>fCF := k\<rparr> \<and>
    fst (DECB a s) = a - 1 \<and> lazy_flags (snd (DECB a s)) = (x86_sub a 1 False)\<lparr>fCF := k\<rparr> \<and>
    fst (DECW c s) = c - 1 \<and> lazy_flags (snd (DECW c s)) = (x86_sub c 1 False)\<lparr>fCF := k\<rparr> \<and>
    fst (DECD e s) = e - 1 \<and> lazy_flags (snd (DECD e s)) = (x86_sub e 1 False)\<lparr>fCF := k\<rparr> \<and>
    fst (NEGB a s) = - a \<and> lazy_flags (snd (NEGB a s)) = x86_sub 0 a False \<and>
    fst (NEGW c s) = - c \<and> lazy_flags (snd (NEGW c s)) = x86_sub 0 c False \<and>
    fst (NEGD e s) = - e \<and> lazy_flags (snd (NEGD e s)) = x86_sub 0 e False"
  unfolding Let_def
  by (simp add: step_macros byte_step_flags word_step_flags dword_step_flags inc_bits_exact dec_bits_exact
      neg_bits_exact)

section \<open>Shifts\<close>

lemma count_minus_one: "0 < unat n \<Longrightarrow> unat (n - 1) = unat n - 1" for n :: u8
  by (simp add: unat_sub_if' word_le_nat_alt Suc_leI)

lemma shl_unat: "unat (push_bit n a) = unat a * 2 ^ n mod 2 ^ LENGTH('a)" for a :: "'a::len word"
  by (simp only: unsigned_push_bit_eq) (simp add: take_bit_eq_mod push_bit_eq_mult)

lemma shr_unat: "unat (drop_bit n a) = unat a div 2 ^ n" for a :: "'a::len word"
  by (simp only: unsigned_drop_bit_eq) (simp add: drop_bit_eq_div take_bit_nat_eq_self)

lemma sar_sint: "sint (signed_drop_bit n a) = sint a div 2 ^ n" for a :: "'a::len word"
  by (simp add: sint_signed_drop_bit_eq drop_bit_eq_div)

lemma shl_carry: "odd (unat a * 2 ^ n div 2 ^ LENGTH('a)) \<longleftrightarrow> n \<le> LENGTH('a) \<and> bit a (LENGTH('a) - n)"
  for a :: "'a::len word"
proof -
  have "odd (unat a * 2 ^ n div 2 ^ LENGTH('a)) \<longleftrightarrow> bit (push_bit n (unat a)) LENGTH('a)"
    by (simp add: bit_iff_odd push_bit_eq_mult)
  also have "\<dots> \<longleftrightarrow> n \<le> LENGTH('a) \<and> bit a (LENGTH('a) - n)"
    by (auto simp: bit_push_bit_iff bit_unsigned_iff)
  finally show ?thesis .
qed

lemma shr_carry: "odd (unat a div 2 ^ k) \<longleftrightarrow> bit a k" for a :: "'a::len word"
  using bit_iff_odd [of "unat a" k] by (simp add: bit_unsigned_iff)

lemma sar_carry: "odd (sint a div 2 ^ k) \<longleftrightarrow> bit a (min k (LENGTH('a) - 1))" for a :: "'a::len word"
  using bit_iff_odd [of "sint a" k] by (simp add: bit_signed_iff min.commute)


definition shift_bits :: "bool \<Rightarrow> bool \<Rightarrow> bool \<Rightarrow> 'a::len word \<Rightarrow> flags6" where
  "shift_bits c af ov r = \<lparr>fCF = c, fPF = even_parity r, fAF = af, fZF = (r = 0), fSF = sgn_bit r, fOF = ov\<rparr>"

lemma truth_count:
  "truth (ucast (x AND 0x1f :: u8) :: u32) \<longleftrightarrow> x AND 0x1f \<noteq> 0"
  "truth (ucast (y AND 0x1f :: u16) :: u32) \<longleftrightarrow> y AND 0x1f \<noteq> 0"
  "truth (z AND 0x1f :: u32) \<longleftrightarrow> z AND 0x1f \<noteq> 0"
  by (simp_all add: truth_ucast) (simp_all add: truth_def)

lemma byte_shift_flags:
  "lf_type s = LF k_SHL Wb \<Longrightarrow> lazy_flags s = shift_bits (unat (lf_var2b s) \<le> 8 \<and> bit (lf_var1b s) (8 - unat (lf_var2b s))) (lf_var2b s AND 0x1f \<noteq> 0) (sgn_bit (lf_resb s) \<noteq> sgn_bit (lf_var1b s)) (lf_resb s)"
  "lf_type s = LF k_SHR Wb \<Longrightarrow> lazy_flags s = shift_bits (bit (lf_var1b s) (lf_var2b_minus_one s)) (lf_var2b s AND 0x1f \<noteq> 0) (lf_var2b s AND 0x1f = 1 \<and> lf_var1b s > 0x80) (lf_resb s)"
  "lf_type s = LF k_SAR Wb \<Longrightarrow> lazy_flags s = shift_bits (bit (lf_var1b s) (min (lf_var2b_minus_one s) 7)) (lf_var2b s AND 0x1f \<noteq> 0) False (lf_resb s)"
  by (auto simp: lazy_flags_def shift_bits_def getter_defs truth_parity even_parity_ucast truth_count bit_simps
      word_less_nat_alt not_less min.commute simp flip: sgn_bit_iff_sint)

lemma word_shift_flags:
  "lf_type s = LF k_SHL Ww \<Longrightarrow> lazy_flags s = shift_bits (unat (lf_var2b s) \<le> 16 \<and> bit (lf_var1w s) (16 - unat (lf_var2b s))) (lf_var2w s AND 0x1f \<noteq> 0) (sgn_bit (lf_resw s) \<noteq> sgn_bit (lf_var1w s)) (lf_resw s)"
  "lf_type s = LF k_SHR Ww \<Longrightarrow> lazy_flags s = shift_bits (bit (lf_var1w s) (lf_var2b_minus_one s)) (lf_var2w s AND 0x1f \<noteq> 0) (lf_var2b s AND 0x1f = 1 \<and> lf_var1w s > 0x8000) (lf_resw s)"
  "lf_type s = LF k_SAR Ww \<Longrightarrow> lazy_flags s = shift_bits (bit (lf_var1w s) (min (lf_var2b_minus_one s) 15)) (lf_var2w s AND 0x1f \<noteq> 0) False (lf_resw s)"
  by (auto simp: lazy_flags_def shift_bits_def getter_defs truth_parity even_parity_ucast truth_count bit_simps
      word_less_nat_alt not_less min.commute simp flip: sgn_bit_iff_sint)

lemma dword_shift_flags:
  "lf_type s = LF k_SHL Wd \<Longrightarrow> lazy_flags s = shift_bits (bit (lf_var1d s) (32 - unat (lf_var2b s))) (lf_var2d s AND 0x1f \<noteq> 0) (sgn_bit (lf_resd s) \<noteq> sgn_bit (lf_var1d s)) (lf_resd s)"
  "lf_type s = LF k_SHR Wd \<Longrightarrow> lazy_flags s = shift_bits (bit (lf_var1d s) (lf_var2b_minus_one s)) (lf_var2d s AND 0x1f \<noteq> 0) (lf_var2b s AND 0x1f = 1 \<and> lf_var1d s > 0x80000000) (lf_resd s)"
  "lf_type s = LF k_SAR Wd \<Longrightarrow> lazy_flags s = shift_bits (bit (lf_var1d s) (min (lf_var2b_minus_one s) 31)) (lf_var2d s AND 0x1f \<noteq> 0) False (lf_resd s)"
  by (auto simp: lazy_flags_def shift_bits_def getter_defs truth_parity even_parity_ucast truth_count bit_simps
      word_less_nat_alt not_less min.commute simp flip: sgn_bit_iff_sint)


definition result_flags :: "'a::len word \<Rightarrow> flags6 \<Rightarrow> bool" where
  "result_flags r f \<longleftrightarrow> fZF f = (r = 0) \<and> fSF f = (sint r < 0) \<and> fPF f = even_parity r"

lemma shift_bits_simps [simp]: "fCF (shift_bits c af ov r) = c" "result_flags r (shift_bits c af ov r)"
  by (simp_all add: shift_bits_def result_flags_def sgn_bit_iff_sint)

definition commit_count :: "lazy_type \<Rightarrow> 'a::len word \<Rightarrow> u8 \<Rightarrow> 'a word \<Rightarrow> cpu \<Rightarrow> cpu" where
  "commit_count t a n r s = set_type t (set_res r (set_var2 n (set_var1 a s)))"

lemma commit_count_views [simp]:
  "lf_type (commit_count t a n r s) = t" "lf_var2b (commit_count t a n r s) = n"
  "lf_var2b_minus_one (commit_count t a n r s) = unat (n - 1)"
  "LENGTH('a::len) \<le> 32 \<Longrightarrow> (ucast (lf_var1 (commit_count t (a :: 'a word) n r s)) :: 'a word) = a"
  "LENGTH('a::len) \<le> 32 \<Longrightarrow> (ucast (lf_res (commit_count t (a :: 'a word) n r s)) :: 'a word) = r"
  "lf_var1 (commit_count t (e :: u32) n f s) = e" "lf_res (commit_count t (e :: u32) n f s) = f"
  by (simp_all add: commit_count_def lf_writers lf_var2b_minus_one_def)

lemma sar_fill:
  fixes a :: "'a::len word"
  assumes "n \<le> l" "l = LENGTH('a)" "v = - 1"
  shows "(if sgn_bit a then drop_bit n a OR push_bit (l - n) v else drop_bit n a) = signed_drop_bit n a"
proof (rule bit_word_eqI)
  fix m assume "m < LENGTH('a)"
  then show "bit (if sgn_bit a then drop_bit n a OR push_bit (l - n) v else drop_bit n a) m
      = bit (signed_drop_bit n a) m"
    using assms bit_imp_le_length [of a "n + m"]
    by (cases "n + m < LENGTH('a)") (auto simp: bit_simps sgn_bit_def not_less le_diff_conv)
qed

lemma sar_saturated: "LENGTH('a) \<le> n \<Longrightarrow> signed_drop_bit n a = signed_drop_bit LENGTH('a) a" for a :: "'a::len word"
  by (auto intro!: bit_word_eqI simp: bit_simps)

lemma shift_macros:
  "SHLB a n s = (push_bit (unat n) a, commit_count t_SHLb a n (push_bit (unat n) a) s)"
  "SHLW c n s = (push_bit (unat n) c, commit_count t_SHLw c n (push_bit (unat n) c) s)"
  "SHLD e n s = (push_bit (unat n) e, commit_count t_SHLd e n (push_bit (unat n) e) s)"
  "SHRB a n s = (drop_bit (unat n) a, commit_count t_SHRb a n (drop_bit (unat n) a) s)"
  "SHRW c n s = (drop_bit (unat n) c, commit_count t_SHRw c n (drop_bit (unat n) c) s)"
  "SHRD e n s = (drop_bit (unat n) e, commit_count t_SHRd e n (drop_bit (unat n) e) s)"
  by (simp_all add: SHLB_def SHLW_def SHLD_def SHRB_def SHRW_def SHRD_def commit_count_def lf_writers Let_def)

lemma sign_mask: "truth (a AND 0x80) = sgn_bit a" "truth (c AND 0x8000) = sgn_bit c" for a :: u8 and c :: u16
  using and_power_two_truth [of a 7] and_power_two_truth [of c 15] by (simp_all add: sgn_bit_def)

lemma sar_save:
  assumes "m \<le> l" "l = LENGTH('a::len)" "v = - 1"
  shows "(if sgn_bit a then set_res (drop_bit m a OR push_bit (l - m) v) s else set_res (drop_bit m a) s)
    = set_res (signed_drop_bit m (a :: 'a word)) s"
  using sar_fill [OF assms, of a] by (simp split: if_splits)

lemma clip_var2:
  "(if k < lf_var2b (set_var2 n s) then set_var2 k (set_var2 n s) else set_var2 n s) = set_var2 (min n k) s"
  for k n :: u8
proof -
  have "set_low (set_low x n) k = set_low x k" for x
    by (rule bit_word_eqI) (simp add: bit_set_low)
  then show ?thesis by (simp add: set_var2_def min_def not_le [symmetric])
qed

lemma var_views [simp]:
  "LENGTH('a::len) \<le> 32 \<Longrightarrow> (ucast (lf_var1 (set_var1 (a :: 'a word) s)) :: 'a word) = a"
  "lf_var1 (set_var2 n s) = lf_var1 s" "lf_var2 (set_var1 a s) = lf_var2 s" "lf_var2 (set_res a s) = lf_var2 s"
  "LENGTH('a::len) \<le> 32 \<Longrightarrow> (ucast (lf_var2 (set_var2 (a :: 'a word) s)) :: 'a word) = a"
  "LENGTH('a::len) \<le> 32 \<Longrightarrow> (ucast (lf_res (set_res (a :: 'a word) s)) :: 'a word) = a"
  "lf_var1 (set_var1 (e :: u32) s) = e" "lf_res (set_res (e :: u32) s) = e"
  by (simp_all add: lf_writers)

lemma var_swap: "set_var1 a (set_var2 n s) = set_var2 n (set_var1 a s)"
  by (simp add: lf_writers)

lemma sar_macros:
  "SARB a n s = (let r = signed_drop_bit (unat (min n 8)) a in (r, commit_count t_SARb a (min n 8) r s))"
  "SARW c n s = (let r = signed_drop_bit (unat (min n 16)) c in (r, commit_count t_SARw c (min n 16) r s))"
  "unat n \<le> 32 \<Longrightarrow> SARD e n s = (let r = signed_drop_bit (unat n) e in (r, commit_count t_SARd e n r s))"
proof -
  define m k where "m = min n 8" and "k = min n 16"
  have "unat m \<le> 8" "unat k \<le> 16" by (simp_all add: m_def k_def min_def word_le_nat_alt)
  then show "SARB a n s = (let r = signed_drop_bit (unat (min n 8)) a in (r, commit_count t_SARb a (min n 8) r s))"
    "SARW c n s = (let r = signed_drop_bit (unat (min n 16)) c in (r, commit_count t_SARw c (min n 16) r s))"
    unfolding SARB_def SARW_def Let_def clip_var2 m_def [symmetric] k_def [symmetric]
    by (simp_all add: sar_save sign_mask commit_count_def set_type_def cong: if_cong)
  show "SARD e n s = (let r = signed_drop_bit (unat n) e in (r, commit_count t_SARd e n r s))" if "unat n \<le> 32"
    using that by (simp add: SARD_def Let_def var_swap sar_save sign_mask commit_count_def set_type_def cong: if_cong)
qed

text \<open>for a count from 1 to 31, the counts the shift group lets through, \<open>SHL\<close>, \<open>SHR\<close> and
  \<open>SAR\<close> of every width multiply and divide by the power of two (\<open>SAR\<close> rounding down), and the
  carry flag is the last bit shifted out; zero, sign and parity describe the result.\<close>

theorem shift_exact:
  fixes a :: u8 and c :: u16 and e :: u32
  assumes "0 < unat n" "unat n < 32"
  shows "unat (fst (SHLB a n s)) = unat a * 2 ^ unat n mod 2 ^ 8 \<and>
    fCF (lazy_flags (snd (SHLB a n s))) = odd (unat a * 2 ^ unat n div 2 ^ 8) \<and>
    result_flags (fst (SHLB a n s)) (lazy_flags (snd (SHLB a n s))) \<and>
    unat (fst (SHRB a n s)) = unat a div 2 ^ unat n \<and>
    fCF (lazy_flags (snd (SHRB a n s))) = odd (unat a div 2 ^ (unat n - 1)) \<and>
    result_flags (fst (SHRB a n s)) (lazy_flags (snd (SHRB a n s))) \<and>
    sint (fst (SARB a n s)) = sint a div 2 ^ unat n \<and>
    fCF (lazy_flags (snd (SARB a n s))) = odd (sint a div 2 ^ (unat n - 1)) \<and>
    result_flags (fst (SARB a n s)) (lazy_flags (snd (SARB a n s))) \<and>
    unat (fst (SHLW c n s)) = unat c * 2 ^ unat n mod 2 ^ 16 \<and>
    fCF (lazy_flags (snd (SHLW c n s))) = odd (unat c * 2 ^ unat n div 2 ^ 16) \<and>
    result_flags (fst (SHLW c n s)) (lazy_flags (snd (SHLW c n s))) \<and>
    unat (fst (SHRW c n s)) = unat c div 2 ^ unat n \<and>
    fCF (lazy_flags (snd (SHRW c n s))) = odd (unat c div 2 ^ (unat n - 1)) \<and>
    result_flags (fst (SHRW c n s)) (lazy_flags (snd (SHRW c n s))) \<and>
    sint (fst (SARW c n s)) = sint c div 2 ^ unat n \<and>
    fCF (lazy_flags (snd (SARW c n s))) = odd (sint c div 2 ^ (unat n - 1)) \<and>
    result_flags (fst (SARW c n s)) (lazy_flags (snd (SARW c n s))) \<and>
    unat (fst (SHLD e n s)) = unat e * 2 ^ unat n mod 2 ^ 32 \<and>
    fCF (lazy_flags (snd (SHLD e n s))) = odd (unat e * 2 ^ unat n div 2 ^ 32) \<and>
    result_flags (fst (SHLD e n s)) (lazy_flags (snd (SHLD e n s))) \<and>
    unat (fst (SHRD e n s)) = unat e div 2 ^ unat n \<and>
    fCF (lazy_flags (snd (SHRD e n s))) = odd (unat e div 2 ^ (unat n - 1)) \<and>
    result_flags (fst (SHRD e n s)) (lazy_flags (snd (SHRD e n s))) \<and>
    sint (fst (SARD e n s)) = sint e div 2 ^ unat n \<and>
    fCF (lazy_flags (snd (SARD e n s))) = odd (sint e div 2 ^ (unat n - 1)) \<and>
    result_flags (fst (SARD e n s)) (lazy_flags (snd (SARD e n s)))"
proof -
  have n1: "unat (n - 1) = unat n - 1" using assms(1) by (rule count_minus_one)
  have "unat (min n 8) = min (unat n) 8" "unat (min n 16) = min (unat n) 16"
    by (simp_all add: min_def word_le_nat_alt)
  moreover have "0 < min (unat n) 8" "0 < min (unat n) 16" using assms(1) by simp_all
  ultimately have m: "unat (min n 8 - 1) = min (unat n) 8 - 1" "unat (min n 16 - 1) = min (unat n) 16 - 1"
    "signed_drop_bit (unat (min n 8)) a = signed_drop_bit (unat n) a"
    "signed_drop_bit (unat (min n 16)) c = signed_drop_bit (unat n) c"
    using sar_saturated [of "unat n" a] sar_saturated [of "unat n" c] by (simp_all add: count_minus_one min_def)
  have k: "min (min (unat n) 8 - 1) 7 = min (unat n - 1) 7" "min (min (unat n) 16 - 1) 15 = min (unat n - 1) 15"
    "min (unat n) 8 - Suc 0 = min (unat n - Suc 0) 7" "min (unat n) 16 - Suc 0 = min (unat n - Suc 0) 15"
    using assms(1) by auto
  note carries = shl_carry [of a] shl_carry [of c] shl_carry [of e] shr_carry sar_carry
  show ?thesis
    using assms(2)
    by (simp add: shift_macros sar_macros Let_def m n1 k byte_shift_flags word_shift_flags dword_shift_flags
      shl_unat shr_unat sar_sint carries [simplified])
qed

theorem shift_exact_witness:
  "0 < unat (3 :: u8) \<and> unat (3 :: u8) < 32 \<and> unat (fst (SHLB 0xA5 3 cpu0)) = 0x28 \<and>
   fCF (lazy_flags (snd (SHLB 0xA5 3 cpu0))) \<and> sint (fst (SARW 0x8001 3 cpu0)) = - 4096 \<and>
   unat (fst (SHRD 0x80000008 3 cpu0)) = 0x10000001"
  using shift_exact [of 3 "0xA5" cpu0 "0x8001" "0x80000008"] by simp

end
