(* ===== verification/Rotate_Correct.thy ===== *)
theory Rotate_Correct
  imports Fill_Correct Alu_Correct
begin

text \<open>
  The rotates. They write the pending flags out first and then set carry and overflow, so the
  properties need a state whose pending flags \<open>FillFlags\<close> writes faithfully (\<open>settled\<close>). Rotating
  through the carry is a rotation of a word one bit wider (\<open>with_carry\<close>).
\<close>

section \<open>Rotations as shifts\<close>

lemma rotl_parts:
  fixes w :: "'a::len word"
  assumes "k < LENGTH('a)"
  shows "push_bit k w OR drop_bit (LENGTH('a) - k) w = word_rotl k w"
proof (rule bit_word_eqI)
  fix m assume m: "m < LENGTH('a)"
  then show "bit (push_bit k w OR drop_bit (LENGTH('a) - k) w) m = bit (word_rotl k w) m"
    using assms bit_imp_le_length [of w "LENGTH('a) - k + m"]
    by (cases "m < k") (auto simp: bit_simps mod_if add.commute)
qed

lemma rotr_parts:
  fixes w :: "'a::len word"
  assumes "k < LENGTH('a)"
  shows "drop_bit k w OR push_bit (LENGTH('a) - k) w = word_rotr k w"
proof (rule bit_word_eqI)
  fix m assume m: "m < LENGTH('a)"
  then show "bit (drop_bit k w OR push_bit (LENGTH('a) - k) w) m = bit (word_rotr k w) m"
    using assms bit_imp_le_length [of w "k + m"]
    by (cases "m + k < LENGTH('a)") (auto simp: bit_simps mod_if add.commute le_diff_conv)
qed

text \<open>The carry flag above the operand, as one word a bit wider.\<close>

definition with_carry :: "bool \<Rightarrow> 'a::len word \<Rightarrow> 'b::len word" where
  "with_carry c a = ucast a OR push_bit LENGTH('a) (of_bool c)"

lemma bit_with_carry:
  "LENGTH('b) = Suc LENGTH('a) \<Longrightarrow> bit (with_carry c (a :: 'a::len word) :: 'b::len word) m \<longleftrightarrow>
     (if m = LENGTH('a) then c else bit a m)"
  by (auto simp: with_carry_def bit_simps dest: bit_imp_le_length)

lemma rcl_parts:
  fixes a :: "'a::len word"
  assumes "LENGTH('b) = Suc LENGTH('a)" "0 < k" "k \<le> LENGTH('a)"
  shows "(with_carry (bit a (LENGTH('a) - k))
      (push_bit k a OR push_bit (k - 1) (of_bool c) OR drop_bit (Suc LENGTH('a) - k) a) :: 'b::len word)
    = word_rotl k (with_carry c a)"
proof (rule bit_word_eqI)
  fix m assume m: "m < LENGTH('b)"
  consider "m = LENGTH('a)" | "m < LENGTH('a)" "m + 1 < k" | "m < LENGTH('a)" "m + 1 = k" | "m < LENGTH('a)" "k \<le> m"
    using m assms(1) by linarith
  then show "bit (with_carry (bit a (LENGTH('a) - k))
      (push_bit k a OR push_bit (k - 1) (of_bool c) OR drop_bit (Suc LENGTH('a) - k) a) :: 'b word) m
    = bit (word_rotl k (with_carry c a) :: 'b word) m"
    using m assms bit_imp_le_length [of a "Suc LENGTH('a) - k + m"]
    by cases (auto simp: bit_simps bit_with_carry mod_if add.commute)
qed

lemma rcr_parts:
  fixes a :: "'a::len word"
  assumes "LENGTH('b) = Suc LENGTH('a)" "0 < k" "k \<le> LENGTH('a)"
  shows "(with_carry (bit a (k - 1))
      (drop_bit k a OR push_bit (LENGTH('a) - k) (of_bool c) OR push_bit (Suc LENGTH('a) - k) a) :: 'b::len word)
    = word_rotr k (with_carry c a)"
proof (rule bit_word_eqI)
  fix m assume m: "m < LENGTH('b)"
  consider "m = LENGTH('a)" | "m < LENGTH('a)" "m + k < LENGTH('a)" | "m < LENGTH('a)" "m + k = LENGTH('a)"
    | "m < LENGTH('a)" "LENGTH('a) < m + k"
    using m assms(1) by linarith
  then show "bit (with_carry (bit a (k - 1))
      (drop_bit k a OR push_bit (LENGTH('a) - k) (of_bool c) OR push_bit (Suc LENGTH('a) - k) a) :: 'b word) m
    = bit (word_rotr k (with_carry c a) :: 'b word) m"
    using m assms bit_imp_le_length [of a "k + m"]
    by cases (auto simp: bit_simps bit_with_carry mod_if add.commute)
qed

definition settled :: "cpu \<Rightarrow> bool" where
  "settled s \<longleftrightarrow> recorded_kind (lf_type s) \<and> neg_recorded s \<and> \<not> dsh_kind (lf_type s)"

lemma nocfof_type [simp]: "lf_type (FillFlagsNoCFOF s) = t_UNKNOWN"
  by (simp add: FillFlagsNoCFOF_def split: option.split)

lemma writer_frames [simp]:
  "reg_flags (set_var1 a s) = reg_flags s" "reg_flags (set_var2 b s) = reg_flags s" "reg_flags (set_res r s) = reg_flags s"
  "lf_type (set_var1 a s) = lf_type s" "lf_type (set_var2 b s) = lf_type s" "lf_type (set_res r s) = lf_type s"
  "eager_flags (set_var1 a s) = eager_flags s" "eager_flags (set_var2 b s) = eager_flags s"
  "eager_flags (set_res r s) = eager_flags s" "lf_var1 (set_res r s) = lf_var1 s"
  by (simp_all add: lf_writers eager_flags_def)

lemma rotate_state:
  assumes "settled s"
  shows "lazy_flags (SETFLAGBIT FLAG_OF ov (SETFLAGBIT FLAG_CF c (set_res r (set_var2 n (set_var1 a (FillFlagsNoCFOF s))))))
    = (lazy_flags s)\<lparr>fCF := c, fOF := ov\<rparr>"
  using assms by (simp add: lazy_flags_unknown nocfof_agree settled_def keep_CFOF_def)

lemma unat_and_mask: "unat (n AND 0x07) = unat n mod 8" "unat (n AND 0x0f) = unat n mod 16" for n :: u8
proof -
  have "n AND 0x07 = take_bit 3 n" by (simp add: take_bit_eq_mask mask_eq_exp_minus_1)
  then show "unat (n AND 0x07) = unat n mod 8" by (simp only: unsigned_take_bit_eq) (simp add: take_bit_eq_mod)
qed (rule low_nibble_unat)

lemma rot_mod: "word_rotl (k mod LENGTH('a)) w = word_rotl k w" "word_rotr (k mod LENGTH('a)) w = word_rotr k w"
  for w :: "'a::len word"
  by (auto intro!: bit_word_eqI simp: bit_simps mod_simps)

lemma rotl_bits:
  "push_bit (unat n mod 8) a OR drop_bit (8 - unat n mod 8) a = word_rotl (unat n) a"
  "push_bit (unat n mod 16) c OR drop_bit (16 - unat n mod 16) c = word_rotl (unat n) c"
  "unat n < 32 \<Longrightarrow> push_bit (unat n) e OR drop_bit (32 - unat n) e = word_rotl (unat n) e"
  "drop_bit (unat n mod 8) a OR push_bit (8 - unat n mod 8) a = word_rotr (unat n) a"
  "drop_bit (unat n mod 16) c OR push_bit (16 - unat n mod 16) c = word_rotr (unat n) c"
  "unat n < 32 \<Longrightarrow> drop_bit (unat n) e OR push_bit (32 - unat n) e = word_rotr (unat n) e"
  for a :: u8 and c :: u16 and e :: u32 and n :: u8
  using rotl_parts [of "unat n mod 8" a] rotl_parts [of "unat n mod 16" c] rotl_parts [of "unat n" e]
    rotr_parts [of "unat n mod 8" a] rotr_parts [of "unat n mod 16" c] rotr_parts [of "unat n" e]
    rot_mod [of "unat n" a] rot_mod [of "unat n" c]
  by simp_all

lemma top_bit: "drop_bit (LENGTH('a) - 1) r = of_bool (bit r (LENGTH('a) - 1))" for r :: "'a::len word"
proof (rule bit_word_eqI)
  fix m show "bit (drop_bit (LENGTH('a) - 1) r) m = bit (of_bool (bit r (LENGTH('a) - 1)) :: 'a word) m"
    using bit_imp_le_length [of r "LENGTH('a) - 1 + m"] by (cases m) (auto simp: bit_simps)
qed

lemma double_bit: "bit (a * 2) m \<longleftrightarrow> m < LENGTH('a) \<and> 0 < m \<and> bit a (m - 1)" for a :: "'a::len word"
  using bit_push_bit_iff [of 1 a m] by (auto simp: Suc_le_eq)

lemma low_bit: "r AND 1 = of_bool (bit r 0)" for r :: "'a::len word"
  by (auto intro!: bit_word_eqI simp: bit_simps)

lemma rol_overflow:
  "truth ((a AND 1) XOR drop_bit 7 a) \<longleftrightarrow> bit a 0 \<noteq> bit a 7"
  "truth ((c AND 1) XOR drop_bit 15 c) \<longleftrightarrow> bit c 0 \<noteq> bit c 15"
  "truth ((e AND 1) XOR drop_bit 31 e) \<longleftrightarrow> bit e 0 \<noteq> bit e 31" for a :: u8 and c :: u16 and e :: u32
  using top_bit [of a] top_bit [of c] top_bit [of e] by (simp_all only: low_bit) (auto simp: truth_def)

lemma ror_overflow:
  "truth (a AND 0x80) = bit a 7" "truth (c AND 0x8000) = bit c 15" "truth (e AND 0x80000000) = bit e 31"
  "truth ((a XOR push_bit 1 a) AND 0x80) \<longleftrightarrow> bit a 7 \<noteq> bit a 6"
  "truth ((c XOR push_bit 1 c) AND 0x8000) \<longleftrightarrow> bit c 15 \<noteq> bit c 14"
  "truth ((e XOR push_bit 1 e) AND 0x80000000) \<longleftrightarrow> bit e 31 \<noteq> bit e 30" for a :: u8 and c :: u16 and e :: u32
  using and_power_two_truth [of a 7] and_power_two_truth [of c 15] and_power_two_truth [of e 31]
    and_power_two_truth [of "a XOR push_bit 1 a" 7] and_power_two_truth [of "c XOR push_bit 1 c" 15]
    and_power_two_truth [of "e XOR push_bit 1 e" 31]
  by (simp_all add: bit_xor_iff double_bit)

lemmas rotate_simps = Let_def unat_and_mask rotl_bits rotate_state rol_overflow ror_overflow

lemma rol_exact:
  assumes "settled s" "unat n < 32"
  shows "fst (ROLB a n s) = word_rotl (unat n) a" "fst (ROLW c n s) = word_rotl (unat n) c"
    "fst (ROLD e n s) = word_rotl (unat n) e"
    "lazy_flags (snd (ROLB a n s)) = (let r = word_rotl (unat n) a in
       (lazy_flags s)\<lparr>fCF := bit r 0, fOF := (bit r 0 \<noteq> bit r 7)\<rparr>)"
    "lazy_flags (snd (ROLW c n s)) = (let r = word_rotl (unat n) c in
       (lazy_flags s)\<lparr>fCF := bit r 0, fOF := (bit r 0 \<noteq> bit r 15)\<rparr>)"
    "lazy_flags (snd (ROLD e n s)) = (let r = word_rotl (unat n) e in
       (lazy_flags s)\<lparr>fCF := bit r 0, fOF := (bit r 0 \<noteq> bit r 31)\<rparr>)"
  using assms
  by (simp_all add: ROLB_def ROLW_def ROLD_def rotate_simps del: drop_bit_or)

lemma ror_exact:
  assumes "settled s" "unat n < 32"
  shows "fst (RORB a n s) = word_rotr (unat n) a" "fst (RORW c n s) = word_rotr (unat n) c"
    "fst (RORD e n s) = word_rotr (unat n) e"
    "lazy_flags (snd (RORB a n s)) = (let r = word_rotr (unat n) a in
       (lazy_flags s)\<lparr>fCF := bit r 7, fOF := (bit r 7 \<noteq> bit r 6)\<rparr>)"
    "lazy_flags (snd (RORW c n s)) = (let r = word_rotr (unat n) c in
       (lazy_flags s)\<lparr>fCF := bit r 15, fOF := (bit r 15 \<noteq> bit r 14)\<rparr>)"
    "lazy_flags (snd (RORD e n s)) = (let r = word_rotr (unat n) e in
       (lazy_flags s)\<lparr>fCF := bit r 31, fOF := (bit r 31 \<noteq> bit r 30)\<rparr>)"
  using assms
  by (simp_all add: RORB_def RORW_def RORD_def rotate_simps bit_xor_iff double_bit sgn_bit_def del: push_bit_or)

text \<open>\<open>ROL\<close> and \<open>ROR\<close> of every width rotate the operand by the count, the two undo each other,
  the carry flag receives the bit that moved around, and the four flags that rotates do not
  define keep the values they had before the instruction, which were pending in the lazy state.\<close>

theorem rotate_exact:
  fixes a :: u8 and c :: u16 and e :: u32
  assumes "settled s" "settled t" "unat n < 32"
  shows "fst (ROLB a n s) = word_rotl (unat n) a \<and> fst (ROLW c n s) = word_rotl (unat n) c \<and>
    fst (ROLD e n s) = word_rotl (unat n) e \<and> fst (RORB (fst (ROLB a n s)) n t) = a \<and>
    fst (RORW (fst (ROLW c n s)) n t) = c \<and> fst (RORD (fst (ROLD e n s)) n t) = e \<and>
    (\<exists>cf ov. lazy_flags (snd (ROLB a n s)) = (lazy_flags s)\<lparr>fCF := cf, fOF := ov\<rparr> \<and> cf = bit (word_rotl (unat n) a) 0) \<and>
    (\<exists>cf ov. lazy_flags (snd (RORW c n s)) = (lazy_flags s)\<lparr>fCF := cf, fOF := ov\<rparr> \<and> cf = bit (word_rotr (unat n) c) 15) \<and>
    (\<exists>cf ov. lazy_flags (snd (RORD e n s)) = (lazy_flags s)\<lparr>fCF := cf, fOF := ov\<rparr> \<and> cf = bit (word_rotr (unat n) e) 31)"
  using rol_exact [OF assms(1,3)] ror_exact [OF assms(1,3)] ror_exact [OF assms(2,3)]
  by (auto simp: Let_def)

theorem rotate_exact_witness:
  "settled cpu0 \<and> unat (3 :: u8) < 32 \<and> fst (ROLB 0xA5 3 cpu0) = 0x2D \<and>
   fst (RORD (fst (ROLD 0x80000001 3 cpu0)) 3 cpu0) = 0x80000001"
proof -
  have s: "settled cpu0" by (simp add: settled_def cpu0_def recorded_kind_def neg_recorded_def dsh_kind_def)
  moreover have n: "unat (3 :: u8) < 32" by simp
  moreover have "word_rotl (unat (3 :: u8)) (0xA5 :: u8) = 0x2D" by code_simp
  ultimately show ?thesis using rotate_exact [OF s s n, of "0xA5" 0 "0x80000001"] by metis
qed

lemma FillFlags_carry:
  assumes "settled s"
  shows "FillFlags s = (reg_flags (snd (FillFlags s)), snd (FillFlags s))" "lf_type (snd (FillFlags s)) = t_UNKNOWN"
    "bit (reg_flags (snd (FillFlags s))) 0 = fCF (lazy_flags s)"
proof -
  show "FillFlags s = (reg_flags (snd (FillFlags s)), snd (FillFlags s))" "lf_type (snd (FillFlags s)) = t_UNKNOWN"
    using assms FillFlags_eqs [of s] by (simp_all add: settled_def prod_eq_iff)
  have "fCF (eager_flags (snd (FillFlags s))) = fCF (lazy_flags s)"
    using assms fill_flags_agree [of s] by (simp add: settled_def)
  then show "bit (reg_flags (snd (FillFlags s))) 0 = fCF (lazy_flags s)" by (simp add: eager_flags_def Let_def)
qed

lemma carry_operand:
  "settled s \<Longrightarrow> (ucast (reg_flags (snd (FillFlags s))) :: 'a::len word) AND 1 = of_bool (fCF (lazy_flags s))"
  using FillFlags_carry(3) [of s] by (simp add: low_bit bit_simps)

definition rotated :: "'a::len word \<Rightarrow> 'a word option \<times> cpu \<Rightarrow> 'b::len word" where
  "rotated a rs = with_carry (fCF (lazy_flags (snd rs))) (case fst rs of None \<Rightarrow> a | Some r \<Rightarrow> r)"

lemma rotated_written:
  "lf_type s = t_UNKNOWN \<Longrightarrow> rotated a (Some r, SETFLAGBIT FLAG_OF ov (SETFLAGBIT FLAG_CF c
     (set_res r' (set_var2 n (set_var1 a' s))))) = with_carry c r"
  by (simp add: rotated_def lazy_flags_unknown)

lemma truth_bit: "truth (drop_bit k a AND 1) = bit a k" for a :: "'a::len word"
  by (simp add: bit_simps)

lemma FillFlags_settled:
  assumes "settled s"
  obtains fl s' where "FillFlags s = (fl, s')" "lf_type s' = t_UNKNOWN"
    "(ucast fl :: u8) AND 1 = of_bool (fCF (lazy_flags s))" "(ucast fl :: u16) AND 1 = of_bool (fCF (lazy_flags s))"
    "fl AND 1 = of_bool (fCF (lazy_flags s))"
proof (rule that [of "reg_flags (snd (FillFlags s))" "snd (FillFlags s)"])
  show "reg_flags (snd (FillFlags s)) AND 1 = of_bool (fCF (lazy_flags s))"
    using carry_operand [OF assms, where 'a = 32] by simp
qed (use FillFlags_carry [OF assms] carry_operand [OF assms] in \<open>simp_all\<close>)

lemma rot_zero: "k mod LENGTH('a) = 0 \<Longrightarrow> word_rotl k w = w \<and> word_rotr k w = w" for w :: "'a::len word"
  by (auto intro!: bit_word_eqI simp: bit_simps mod_simps)

lemma unat_mod_count: "unat (n mod 9) = unat n mod 9" "unat (n mod 17) = unat n mod 17" for n :: u8
  by (simp_all add: unat_mod_distrib)

lemma dword_overshift: "drop_bit 32 a = 0" "push_bit 32 a = 0" for a :: u32
  by (auto intro!: bit_word_eqI simp: bit_simps dest: bit_imp_le_length)

lemma rcl_byte:
  fixes a :: u8
  assumes "settled s"
  shows "(rotated a (RCLB a n s) :: 9 word) = word_rotl (unat n) (with_carry (fCF (lazy_flags s)) a)"
proof (cases "n mod 9 = 0")
  case True
  then have "unat n mod 9 = 0" using unat_mod_count [of n] by simp
  then show ?thesis using True rot_zero [where 'a = 9] by (simp add: RCLB_def rotated_def)
next
  case False
  obtain fl s' where F: "FillFlags s = (fl, s')" "lf_type s' = t_UNKNOWN"
    "(ucast fl :: u8) AND 1 = of_bool (fCF (lazy_flags s))" using assms(1) by (rule FillFlags_settled)
  have "0 < unat n mod 9" using False unat_mod_count [of n] by (simp add: word_unat_eq_iff)
  moreover have "unat n mod 9 \<le> 8" using mod_less_divisor [of 9 "unat n"] by simp
  ultimately show ?thesis
    using False rcl_parts [where 'b = 9, of "unat n mod 9" a "fCF (lazy_flags s)"] rot_mod [of "unat n" "with_carry (fCF (lazy_flags s)) a :: 9 word"]
    by (cases "fCF (lazy_flags s)"; simp add: RCLB_def F Let_def rotated_written bit_drop_bit_eq unat_mod_count
      del: push_bit_and push_bit_or drop_bit_or)
qed

lemma rcl_word:
  fixes a :: u16
  assumes "settled s"
  shows "(rotated a (RCLW a n s) :: 17 word) = word_rotl (unat n) (with_carry (fCF (lazy_flags s)) a)"
proof (cases "n mod 17 = 0")
  case True
  then have "unat n mod 17 = 0" using unat_mod_count [of n] by simp
  then show ?thesis using True rot_zero [where 'a = 17] by (simp add: RCLW_def rotated_def)
next
  case False
  obtain fl s' where F: "FillFlags s = (fl, s')" "lf_type s' = t_UNKNOWN"
    "(ucast fl :: u16) AND 1 = of_bool (fCF (lazy_flags s))" using assms(1) by (rule FillFlags_settled)
  have "0 < unat n mod 17" using False unat_mod_count [of n] by (simp add: word_unat_eq_iff)
  moreover have "unat n mod 17 \<le> 16" using mod_less_divisor [of 17 "unat n"] by simp
  ultimately show ?thesis
    using False rcl_parts [where 'b = 17, of "unat n mod 17" a "fCF (lazy_flags s)"] rot_mod [of "unat n" "with_carry (fCF (lazy_flags s)) a :: 17 word"]
    by (cases "fCF (lazy_flags s)"; simp add: RCLW_def F Let_def rotated_written bit_drop_bit_eq unat_mod_count
      del: push_bit_and push_bit_or drop_bit_or)
qed

lemma rcl_dword:
  fixes a :: u32
  assumes "settled s" "unat n < 32"
  shows "(rotated a (RCLD a n s) :: 33 word) = word_rotl (unat n) (with_carry (fCF (lazy_flags s)) a)"
proof (cases "n = 0")
  case True
  then show ?thesis using rot_zero [where 'a = 33, of 0] by (simp add: RCLD_def rotated_def)
next
  case False
  obtain fl s' where F: "FillFlags s = (fl, s')" "lf_type s' = t_UNKNOWN"
    "fl AND 1 = of_bool (fCF (lazy_flags s))" using assms(1) by (rule FillFlags_settled)
  have "0 < unat n" using False by (simp add: word_unat_eq_iff)
  then show ?thesis
    using False assms(2) rcl_parts [where 'b = 33, of "unat n" a "fCF (lazy_flags s)"]
    by (cases "fCF (lazy_flags s)"; cases "n = 1"; simp add: RCLD_def F Let_def rotated_written bit_drop_bit_eq dword_overshift
      lf_var2b_minus_one_def count_minus_one del: push_bit_and push_bit_or drop_bit_or)
qed

lemma rcr_byte:
  fixes a :: u8
  assumes "settled s"
  shows "(rotated a (RCRB a n s) :: 9 word) = word_rotr (unat n) (with_carry (fCF (lazy_flags s)) a)"
proof (cases "n mod 9 = 0")
  case True
  then have "unat n mod 9 = 0" using unat_mod_count [of n] by simp
  then show ?thesis using True rot_zero [where 'a = 9] by (simp add: RCRB_def rotated_def)
next
  case False
  obtain fl s' where F: "FillFlags s = (fl, s')" "lf_type s' = t_UNKNOWN"
    "(ucast fl :: u8) AND 1 = of_bool (fCF (lazy_flags s))" using assms(1) by (rule FillFlags_settled)
  have "0 < unat n mod 9" using False unat_mod_count [of n] by (simp add: word_unat_eq_iff)
  moreover have "unat n mod 9 \<le> 8" using mod_less_divisor [of 9 "unat n"] by simp
  ultimately show ?thesis
    using False rcr_parts [where 'b = 9, of "unat n mod 9" a "fCF (lazy_flags s)"] rot_mod [of "unat n" "with_carry (fCF (lazy_flags s)) a :: 9 word"]
    by (cases "fCF (lazy_flags s)"; simp add: RCRB_def F Let_def rotated_written bit_drop_bit_eq unat_mod_count lf_var2b_minus_one_def count_minus_one
      del: push_bit_and push_bit_or drop_bit_or)
qed

lemma rcr_word:
  fixes a :: u16
  assumes "settled s"
  shows "(rotated a (RCRW a n s) :: 17 word) = word_rotr (unat n) (with_carry (fCF (lazy_flags s)) a)"
proof (cases "n mod 17 = 0")
  case True
  then have "unat n mod 17 = 0" using unat_mod_count [of n] by simp
  then show ?thesis using True rot_zero [where 'a = 17] by (simp add: RCRW_def rotated_def)
next
  case False
  obtain fl s' where F: "FillFlags s = (fl, s')" "lf_type s' = t_UNKNOWN"
    "(ucast fl :: u16) AND 1 = of_bool (fCF (lazy_flags s))" using assms(1) by (rule FillFlags_settled)
  have "0 < unat n mod 17" using False unat_mod_count [of n] by (simp add: word_unat_eq_iff)
  moreover have "unat n mod 17 \<le> 16" using mod_less_divisor [of 17 "unat n"] by simp
  ultimately show ?thesis
    using False rcr_parts [where 'b = 17, of "unat n mod 17" a "fCF (lazy_flags s)"] rot_mod [of "unat n" "with_carry (fCF (lazy_flags s)) a :: 17 word"]
    by (cases "fCF (lazy_flags s)"; simp add: RCRW_def F Let_def rotated_written bit_drop_bit_eq unat_mod_count lf_var2b_minus_one_def count_minus_one
      del: push_bit_and push_bit_or drop_bit_or)
qed

lemma rcr_dword:
  fixes a :: u32
  assumes "settled s" "unat n < 32"
  shows "(rotated a (RCRD a n s) :: 33 word) = word_rotr (unat n) (with_carry (fCF (lazy_flags s)) a)"
proof (cases "n = 0")
  case True
  then show ?thesis using rot_zero [where 'a = 33, of 0] by (simp add: RCRD_def rotated_def)
next
  case False
  obtain fl s' where F: "FillFlags s = (fl, s')" "lf_type s' = t_UNKNOWN"
    "fl AND 1 = of_bool (fCF (lazy_flags s))" using assms(1) by (rule FillFlags_settled)
  have "0 < unat n" using False by (simp add: word_unat_eq_iff)
  then show ?thesis
    using False assms(2) rcr_parts [where 'b = 33, of "unat n" a "fCF (lazy_flags s)"]
    by (cases "fCF (lazy_flags s)"; cases "n = 1"; simp add: RCRD_def F Let_def rotated_written bit_drop_bit_eq dword_overshift
      lf_var2b_minus_one_def count_minus_one del: push_bit_and push_bit_or drop_bit_or)
qed

text \<open>\<open>RCL\<close> and \<open>RCR\<close> rotate the operand together with the carry flag, as one word of 9, 17 or
  33 bits, by the count; a count that is a multiple of that width changes nothing.\<close>

theorem rotate_through_carry:
  fixes a :: u8 and c :: u16 and e :: u32
  assumes "settled s" "unat n < 32"
  shows "(rotated a (RCLB a n s) :: 9 word) = word_rotl (unat n) (with_carry (fCF (lazy_flags s)) a) \<and>
    (rotated c (RCLW c n s) :: 17 word) = word_rotl (unat n) (with_carry (fCF (lazy_flags s)) c) \<and>
    (rotated e (RCLD e n s) :: 33 word) = word_rotl (unat n) (with_carry (fCF (lazy_flags s)) e) \<and>
    (rotated a (RCRB a n s) :: 9 word) = word_rotr (unat n) (with_carry (fCF (lazy_flags s)) a) \<and>
    (rotated c (RCRW c n s) :: 17 word) = word_rotr (unat n) (with_carry (fCF (lazy_flags s)) c) \<and>
    (rotated e (RCRD e n s) :: 33 word) = word_rotr (unat n) (with_carry (fCF (lazy_flags s)) e)"
  using rcl_byte [OF assms(1)] rcl_word [OF assms(1)] rcl_dword [OF assms]
    rcr_byte [OF assms(1)] rcr_word [OF assms(1)] rcr_dword [OF assms] by blast

theorem rotate_through_carry_witness:
  "settled cpu0 \<and> unat (2 :: u8) < 32 \<and>
   (rotated 0x81 (RCLB 0x81 2 cpu0) :: 9 word) = word_rotl 2 (with_carry (fCF (lazy_flags cpu0)) (0x81 :: u8))"
proof -
  have s: "settled cpu0" by (simp add: settled_def cpu0_def recorded_kind_def neg_recorded_def dsh_kind_def)
  moreover have n: "unat (2 :: u8) < 32" by simp
  ultimately show ?thesis using rotate_through_carry [OF s n, of "0x81" 0 0] by simp
qed
end
