(* ===== verification/Alu_Mul.thy ===== *)
theory Alu_Mul
  imports Rotate_Correct
begin

text \<open>
  The decimal adjustments, multiplications and divisions of \<open>src/src/cpu/instructions.h\<close>, and
  \<open>set_cpu_test_flags_for_division\<close> of \<open>src/src/cpu/flags.cpp\<close> with the \<open>CpuTestFlags\<close> of
  \<open>src/src/cpu/registers.h\<close>. A division returns an \<open>alu_fault\<close> or the new state:
  \<open>Exception0\<close> is \<open>EXCEPTION(0)\<close>, the divide error the guest sees; \<open>Host_overflow\<close> is a C++
  division whose quotient does not fit its type, which has no defined result (an x86 host traps).
\<close>

section \<open>Decimal adjustments\<close>

definition DAA :: "cpu \<Rightarrow> cpu" where
  "DAA s =
     (let s = (if (reg_al s AND 0x0F) > 0x09 \<or> truth (get_AF s)
               then let s = (if reg_al s > 0x99 \<or> truth (get_CF s)
                             then SETFLAGBIT FLAG_CF True (set_al (reg_al s + 0x60) s)
                             else SETFLAGBIT FLAG_CF False s);
                        s = set_al (reg_al s + 0x06) s
                    in SETFLAGBIT FLAG_AF True s
               else let s = (if reg_al s > 0x99 \<or> truth (get_CF s)
                             then SETFLAGBIT FLAG_CF True (set_al (reg_al s + 0x60) s)
                             else SETFLAGBIT FLAG_CF False s)
                    in SETFLAGBIT FLAG_AF False s);
          s = SETFLAGBIT FLAG_SF (truth (reg_al s AND 0x80)) s;
          s = SETFLAGBIT FLAG_ZF (reg_al s = 0) s;
          s = SETFLAGBIT FLAG_PF (truth (parity_lookup ! unat (reg_al s))) s
      in set_type t_UNKNOWN s)"

definition DAS :: "cpu \<Rightarrow> cpu" where
  "DAS s =
     (let osigned = reg_al s AND 0x80;
          s = (if (reg_al s AND 0x0f) > 9 \<or> truth (get_AF s)
               then let s = (if reg_al s > 0x99 \<or> truth (get_CF s)
                             then SETFLAGBIT FLAG_CF True (set_al (reg_al s - 0x60) s)
                             else SETFLAGBIT FLAG_CF (reg_al s \<le> 0x05) s);
                        s = set_al (reg_al s - 6) s
                    in SETFLAGBIT FLAG_AF True s
               else let s = (if reg_al s > 0x99 \<or> truth (get_CF s)
                             then SETFLAGBIT FLAG_CF True (set_al (reg_al s - 0x60) s)
                             else SETFLAGBIT FLAG_CF False s)
                    in SETFLAGBIT FLAG_AF False s);
          s = SETFLAGBIT FLAG_OF (truth osigned \<and> reg_al s AND 0x80 = 0) s;
          s = SETFLAGBIT FLAG_SF (truth (reg_al s AND 0x80)) s;
          s = SETFLAGBIT FLAG_ZF (reg_al s = 0) s;
          s = SETFLAGBIT FLAG_PF (truth (parity_lookup ! unat (reg_al s))) s
      in set_type t_UNKNOWN s)"

definition AAA :: "cpu \<Rightarrow> cpu" where
  "AAA s =
     (let s = SETFLAGBIT FLAG_SF (reg_al s \<ge> 0x7a \<and> reg_al s \<le> 0xf9) s;
          s = (if (reg_al s AND 0xf) > 9
               then let s = SETFLAGBIT FLAG_OF (reg_al s AND 0xf0 = 0x70) s;
                        s = set_ax (reg_ax s + 0x106) s;
                        s = SETFLAGBIT FLAG_CF True s;
                        s = SETFLAGBIT FLAG_ZF (reg_al s = 0) s
                    in SETFLAGBIT FLAG_AF True s
               else if truth (get_AF s)
               then let s = set_ax (reg_ax s + 0x106) s;
                        s = SETFLAGBIT FLAG_OF False s;
                        s = SETFLAGBIT FLAG_CF True s;
                        s = SETFLAGBIT FLAG_ZF False s
                    in SETFLAGBIT FLAG_AF True s
               else let s = SETFLAGBIT FLAG_OF False s;
                        s = SETFLAGBIT FLAG_CF False s;
                        s = SETFLAGBIT FLAG_ZF (reg_al s = 0) s
                    in SETFLAGBIT FLAG_AF False s);
          s = SETFLAGBIT FLAG_PF (truth (parity_lookup ! unat (reg_al s))) s;
          s = set_al (reg_al s AND 0x0F) s
      in set_type t_UNKNOWN s)"

definition AAS :: "cpu \<Rightarrow> cpu" where
  "AAS s =
     (let s = (if (reg_al s AND 0x0f) > 9
               then let s = SETFLAGBIT FLAG_SF (reg_al s > 0x85) s;
                        s = set_ax (reg_ax s - 0x106) s;
                        s = SETFLAGBIT FLAG_OF False s;
                        s = SETFLAGBIT FLAG_CF True s
                    in SETFLAGBIT FLAG_AF True s
               else if truth (get_AF s)
               then let s = SETFLAGBIT FLAG_OF (reg_al s \<ge> 0x80 \<and> reg_al s \<le> 0x85) s;
                        s = SETFLAGBIT FLAG_SF (reg_al s < 0x06 \<or> reg_al s > 0x85) s;
                        s = set_ax (reg_ax s - 0x106) s;
                        s = SETFLAGBIT FLAG_CF True s
                    in SETFLAGBIT FLAG_AF True s
               else let s = SETFLAGBIT FLAG_SF (reg_al s \<ge> 0x80) s;
                        s = SETFLAGBIT FLAG_OF False s;
                        s = SETFLAGBIT FLAG_CF False s
                    in SETFLAGBIT FLAG_AF False s);
          s = SETFLAGBIT FLAG_ZF (reg_al s = 0) s;
          s = SETFLAGBIT FLAG_PF (truth (parity_lookup ! unat (reg_al s))) s;
          s = set_al (reg_al s AND 0x0F) s
      in set_type t_UNKNOWN s)"

datatype alu_fault = Exception0 | Host_overflow

definition AAM :: "u8 \<Rightarrow> cpu \<Rightarrow> alu_fault + cpu" where
  "AAM op1 s =
     (let dv = op1
      in if dv \<noteq> 0
         then let s = set_ah (reg_al s div dv) s;
                  s = set_al (reg_al s mod dv) s;
                  s = SETFLAGBIT FLAG_SF (truth (reg_al s AND 0x80)) s;
                  s = SETFLAGBIT FLAG_ZF (reg_al s = 0) s;
                  s = SETFLAGBIT FLAG_PF (truth (parity_lookup ! unat (reg_al s))) s;
                  s = SETFLAGBIT FLAG_CF False s;
                  s = SETFLAGBIT FLAG_OF False s;
                  s = SETFLAGBIT FLAG_AF False s
              in Inr (set_type t_UNKNOWN s)
         else Inl Exception0)"

definition AAD :: "u8 \<Rightarrow> cpu \<Rightarrow> cpu" where
  "AAD op1 s =
     (let ax1 = ucast (reg_ah s) * ucast op1 :: u16;
          ax2 = ax1 + ucast (reg_al s);
          s = set_al (ucast ax2) s;
          s = set_ah 0 s;
          s = SETFLAGBIT FLAG_CF False s;
          s = SETFLAGBIT FLAG_OF False s;
          s = SETFLAGBIT FLAG_AF False s;
          s = SETFLAGBIT FLAG_SF (reg_al s \<ge> 0x80) s;
          s = SETFLAGBIT FLAG_ZF (reg_al s = 0) s;
          s = SETFLAGBIT FLAG_PF (truth (parity_lookup ! unat (reg_al s))) s
      in set_type t_UNKNOWN s)"

section \<open>Flags set en masse\<close>

record CpuTestFlags =
  has_carry :: bool
  has_odd_parity :: bool
  has_auxiliary :: bool
  is_zero :: bool
  is_sign_negative :: bool
  has_overflow :: bool
  clear_mask :: u32

definition make_CpuTestFlags :: "u32 \<Rightarrow> CpuTestFlags" where
  "make_CpuTestFlags cm = \<lparr>has_carry = False, has_odd_parity = False, has_auxiliary = False,
     is_zero = False, is_sign_negative = False, has_overflow = False, clear_mask = cm\<rparr>"

definition GetSetMask :: "CpuTestFlags \<Rightarrow> u32" where
  "GetSetMask f = (if has_carry f then FLAG_CF else 0) OR (if has_odd_parity f then FLAG_PF else 0)
     OR (if has_auxiliary f then FLAG_AF else 0) OR (if is_zero f then FLAG_ZF else 0)
     OR (if is_sign_negative f then FLAG_SF else 0) OR (if has_overflow f then FLAG_OF else 0)"

definition ApplyTestFlags :: "CpuTestFlags \<Rightarrow> cpu \<Rightarrow> cpu" where
  "ApplyTestFlags f s = s\<lparr>reg_flags := (reg_flags s AND NOT (clear_mask f)) OR GetSetMask f\<rparr>"

definition lower_8_has_odd_parity :: "'a::len word \<Rightarrow> bool" where
  "lower_8_has_odd_parity v \<longleftrightarrow> parity_lookup ! unat (v AND 0xff) \<noteq> 0"

text \<open>The template argument \<open>T\<close> is a width and whether the type is signed.\<close>

definition is_negative :: "bool \<Rightarrow> 'a::len word \<Rightarrow> bool" where
  "is_negative T_signed v \<longleftrightarrow> T_signed \<and> sint v < 0"

definition set_cpu_test_flags_for_division :: "bool \<Rightarrow> 'a::len word \<Rightarrow> cpu \<Rightarrow> cpu" where
  "set_cpu_test_flags_for_division T_signed quot s =
     (let s = set_type t_UNKNOWN s;
          f = make_CpuTestFlags (FLAG_CF OR FLAG_OF OR FLAG_PF OR FLAG_SF OR FLAG_ZF);
          f = f\<lparr>has_carry := False\<rparr>;
          f = f\<lparr>has_overflow := False\<rparr>;
          f = f\<lparr>has_odd_parity := lower_8_has_odd_parity quot\<rparr>;
          f = f\<lparr>is_sign_negative := is_negative T_signed quot\<rparr>;
          f = f\<lparr>is_zero := (quot = 0)\<rparr>
      in ApplyTestFlags f s)"

section \<open>Multiplication\<close>

definition SET_CF_OF :: "bool \<Rightarrow> cpu \<Rightarrow> cpu" where
  "SET_CF_OF b s = SETFLAGBIT FLAG_OF b (SETFLAGBIT FLAG_CF b s)"

definition MULB :: "u8 \<Rightarrow> cpu \<Rightarrow> cpu" where
  "MULB op1 s =
     (let s = set_ax (ucast (reg_al s) * ucast op1) s;
          s = FillFlagsNoCFOF s;
          s = SETFLAGBIT FLAG_ZF (reg_al s = 0) s
      in if truth (reg_ax s AND 0xff00) then SET_CF_OF True s else SET_CF_OF False s)"

definition MULW :: "u16 \<Rightarrow> cpu \<Rightarrow> cpu" where
  "MULW op1 s =
     (let res = ucast (reg_ax s) * ucast op1 :: u32;
          s = set_ax (ucast res) s;
          s = set_dx (ucast (drop_bit 16 res)) s;
          s = FillFlagsNoCFOF s;
          s = SETFLAGBIT FLAG_ZF (reg_ax s = 0) s
      in if truth (reg_dx s) then SET_CF_OF True s else SET_CF_OF False s)"

definition MULD :: "u32 \<Rightarrow> cpu \<Rightarrow> cpu" where
  "MULD op1 s =
     (let res = ucast (reg_eax s) * ucast op1 :: u64;
          s = s\<lparr>reg_eax := ucast res\<rparr>;
          s = s\<lparr>reg_edx := ucast (drop_bit 32 res)\<rparr>;
          s = FillFlagsNoCFOF s;
          s = SETFLAGBIT FLAG_ZF (reg_eax s = 0) s
      in if truth (reg_edx s) then SET_CF_OF True s else SET_CF_OF False s)"

definition IMULB :: "u8 \<Rightarrow> cpu \<Rightarrow> cpu" where
  "IMULB op1 s =
     (let s = set_ax (scast (reg_al s) * scast op1) s;
          s = FillFlagsNoCFOF s;
          s = SETFLAGBIT FLAG_ZF (reg_al s = 0) s;
          s = SETFLAGBIT FLAG_SF (truth (reg_al s AND 0x80)) s
      in if reg_ax s AND 0xff80 = 0xff80 \<or> reg_ax s AND 0xff80 = 0
         then SET_CF_OF False s else SET_CF_OF True s)"

definition IMULW :: "u16 \<Rightarrow> cpu \<Rightarrow> cpu" where
  "IMULW op1 s =
     (let res = scast (reg_ax s) * scast op1 :: u32;
          s = set_ax (ucast res) s;
          s = set_dx (ucast (signed_drop_bit 16 res)) s;
          s = FillFlagsNoCFOF s;
          s = SETFLAGBIT FLAG_ZF (reg_ax s = 0) s;
          s = SETFLAGBIT FLAG_SF (truth (reg_ax s AND 0x8000)) s
      in if res AND 0xffff8000 = 0xffff8000 \<or> res AND 0xffff8000 = 0
         then SET_CF_OF False s else SET_CF_OF True s)"

definition IMULD :: "u32 \<Rightarrow> cpu \<Rightarrow> cpu" where
  "IMULD op1 s =
     (let temps = scast (reg_eax s) * scast op1 :: u64;
          s = s\<lparr>reg_eax := ucast temps\<rparr>;
          s = s\<lparr>reg_edx := ucast (signed_drop_bit 32 temps)\<rparr>;
          s = FillFlagsNoCFOF s;
          s = SETFLAGBIT FLAG_ZF (reg_eax s = 0) s;
          s = SETFLAGBIT FLAG_SF (truth (reg_eax s AND 0x80000000)) s
      in if reg_edx s = 0xffffffff \<and> truth (reg_eax s AND 0x80000000) then SET_CF_OF False s
         else if reg_edx s = 0 \<and> reg_eax s < 0x80000000 then SET_CF_OF False s
         else SET_CF_OF True s)"

text \<open>
  The two- and three-operand forms. \<open>DIMULW\<close> multiplies its arguments as the C++ \<open>int\<close> values they
  promote to, so what it computes depends on whether the caller passes \<open>uint16_t\<close> or \<open>int16_t\<close>:
  \<open>core_full\<close> passes signed operands, the opcodes of \<open>core_normal\<close> pass the unsigned register or
  memory operand, with a signed immediate (69, 6B) or with the unsigned destination register
  (0F AF). A product outside \<open>int\<close> is undefined.
\<close>

definition DIMULW :: "int \<Rightarrow> int \<Rightarrow> cpu \<Rightarrow> alu_fault + (u16 \<times> cpu)" where
  "DIMULW op2 op3 s =
     (let res = op2 * op3
      in if res < - (2 ^ 31) \<or> 2 ^ 31 \<le> res then Inl Host_overflow
      else let out = word_of_int (res AND 0xffff);
               s = FillFlagsNoCFOF s
      in Inr (out, if res \<ge> - 32768 \<and> res \<le> 32767 then SET_CF_OF False s else SET_CF_OF True s))"

definition IMUL_full_w :: "u16 \<Rightarrow> u16 \<Rightarrow> cpu \<Rightarrow> alu_fault + (u16 \<times> cpu)" where
  "IMUL_full_w op1 op2 s = DIMULW (sint op1) (sint op2) s"

definition IMUL_Gw_Ew :: "u16 \<Rightarrow> u16 \<Rightarrow> cpu \<Rightarrow> alu_fault + (u16 \<times> cpu)" where
  "IMUL_Gw_Ew rmrw earw s = DIMULW (uint earw) (uint rmrw) s"

definition IMUL_Gw_Ew_Iw :: "u16 \<Rightarrow> u16 \<Rightarrow> cpu \<Rightarrow> alu_fault + (u16 \<times> cpu)" where
  "IMUL_Gw_Ew_Iw earw imm s = DIMULW (uint earw) (sint imm) s"

definition DIMULD :: "u32 \<Rightarrow> u32 \<Rightarrow> cpu \<Rightarrow> u32 \<times> cpu" where
  "DIMULD op2 op3 s =
     (let result_i64 = scast op2 * scast op3 :: u64;
          result_i32 = ucast result_i64 :: u32;
          s = FillFlagsNoCFOF s;
          had_overflow = ((scast result_i32 :: u64) \<noteq> result_i64)
      in (result_i32, SETFLAGBIT FLAG_OF had_overflow (SETFLAGBIT FLAG_CF had_overflow s)))"

section \<open>Division\<close>

definition DIVB :: "u8 \<Rightarrow> cpu \<Rightarrow> alu_fault + cpu" where
  "DIVB op1 s =
     (let val = ucast op1 :: u64
      in if val = 0 then Inl Exception0
      else let quo = ucast (reg_ax s) div val;
               rm = ucast (ucast (reg_ax s) mod val) :: u8;
               quo8 = ucast (quo AND 0xff) :: u8
      in if quo > 0xff then Inl Exception0
      else Inr (set_cpu_test_flags_for_division False quo8 (set_al quo8 (set_ah rm s))))"

definition DIVW :: "u16 \<Rightarrow> cpu \<Rightarrow> alu_fault + cpu" where
  "DIVW op1 s =
     (let val = ucast op1 :: u64
      in if val = 0 then Inl Exception0
      else let num = ucast (push_bit 16 (ucast (reg_dx s) :: u32) OR ucast (reg_ax s)) :: u64;
               quo = num div val;
               rm = ucast (num mod val) :: u16;
               quo16 = ucast (quo AND 0xffff) :: u16
      in if quo \<noteq> ucast quo16 then Inl Exception0
      else Inr (set_cpu_test_flags_for_division False quo16 (set_ax quo16 (set_dx rm s))))"

definition DIVD :: "u32 \<Rightarrow> cpu \<Rightarrow> alu_fault + cpu" where
  "DIVD op1 s =
     (let val = ucast op1 :: u64
      in if val = 0 then Inl Exception0
      else let num = push_bit 32 (ucast (reg_edx s)) OR ucast (reg_eax s) :: u64;
               quo = num div val;
               rm = ucast (num mod val) :: u32;
               quo32 = ucast (quo AND 0xffffffff) :: u32
      in if quo \<noteq> ucast quo32 then Inl Exception0
      else Inr (set_cpu_test_flags_for_division False quo32 (s\<lparr>reg_edx := rm, reg_eax := quo32\<rparr>)))"

text \<open>
  The signed divisions divide C++ integers: the quotient rounds towards zero and the remainder has
  the sign of the dividend. The word and dword forms divide \<open>int\<close> and \<open>int64_t\<close> values; the least
  value divided by -1 does not fit.
\<close>

definition IDIVB :: "u8 \<Rightarrow> cpu \<Rightarrow> alu_fault + cpu" where
  "IDIVB op1 s =
     (let val = sint op1
      in if val = 0 then Inl Exception0
      else let quo = sint (reg_ax s) sdiv val;
               rm = word_of_int (sint (reg_ax s) smod val) :: u8;
               quo8s = word_of_int (take_bit 8 quo) :: u8
      in if quo \<noteq> sint quo8s then Inl Exception0
      else Inr (set_cpu_test_flags_for_division True quo8s (set_al quo8s (set_ah rm s))))"

definition IDIVW :: "u16 \<Rightarrow> cpu \<Rightarrow> alu_fault + cpu" where
  "IDIVW op1 s =
     (let val = sint op1
      in if val = 0 then Inl Exception0
      else let num = sint (push_bit 16 (ucast (reg_dx s)) OR ucast (reg_ax s) :: u32)
      in if num = - (2 ^ 31) \<and> val = - 1 then Inl Host_overflow
      else let quo = num sdiv val;
               rm = num smod val;
               quo16s = word_of_int quo :: u16
      in if quo \<noteq> sint quo16s then Inl Exception0
      else Inr (set_cpu_test_flags_for_division True quo16s (set_dx (word_of_int rm) (set_ax quo16s s))))"

definition IDIVD :: "u32 \<Rightarrow> cpu \<Rightarrow> alu_fault + cpu" where
  "IDIVD op1 s =
     (let val = sint op1
      in if val = 0 then Inl Exception0
      else let num = sint (push_bit 32 (ucast (reg_edx s)) OR ucast (reg_eax s) :: u64)
      in if num = - (2 ^ 63) \<and> val = - 1 then Inl Host_overflow
      else let quo = num sdiv val;
               rm = word_of_int (num smod val) :: u32;
               quo32s = word_of_int (take_bit 32 quo) :: u32
      in if quo \<noteq> sint quo32s then Inl Exception0
      else Inr (set_cpu_test_flags_for_division True quo32s (s\<lparr>reg_edx := rm, reg_eax := quo32s\<rparr>)))"

end
