(* ===== verification/Muldiv_Correct.thy ===== *)
theory Muldiv_Correct
  imports Alu_Mul
begin

text \<open>
  Multiplication, division and decimal adjustment against integers: products are exact across the
  register pair, quotients and remainders are those of the exact division, the divide error is
  raised exactly when it must be, and packed decimal addition works through \<open>DAA\<close>.
\<close>

section \<open>Registers and pairs\<close>

lemma bit_ah_view: "bit ((w AND NOT 0xff00) OR push_bit 8 (ucast (v :: u8))) n \<longleftrightarrow>
    (if 8 \<le> n \<and> n < 16 then bit v (n - 8) else bit w n)" for w :: u32
proof -
  have m: "(0xff00 :: u32) = push_bit 8 (mask 8)" by (simp add: mask_eq_exp_minus_1 push_bit_eq_mult)
  show ?thesis unfolding m using bit_imp_le_length [of w n] bit_imp_le_length [of v "n - 8"]
    by (auto simp: bit_simps)
qed

lemma bit_set_ah: "bit (reg_eax (set_ah v s)) n \<longleftrightarrow> (if 8 \<le> n \<and> n < 16 then bit v (n - 8) else bit (reg_eax s) n)"
  using bit_ah_view [of "reg_eax s" v n] by (simp add: set_ah_def)

lemma reg_views [simp]:
  "reg_al (set_al v s) = v" "reg_ah (set_al v s) = reg_ah s" "reg_ah (set_ah v s) = v" "reg_al (set_ah v s) = reg_al s"
  "reg_ax (set_ax u s) = u" "reg_dx (set_dx u s) = u" "reg_edx (set_ax u s) = reg_edx s" "reg_eax (set_dx u s) = reg_eax s"
  "reg_edx (set_al v s) = reg_edx s" "reg_edx (set_ah v s) = reg_edx s"
  "reg_al (set_ax u s) = ucast u"
  by (auto intro!: bit_word_eqI simp: bit_simps bit_set_ah set_al_def set_ax_def set_dx_def bit_set_low)
     (simp_all add: set_ah_def)

lemma beside_regs:
  assumes "beside_flags s = beside_flags t"
  shows "reg_eax s = reg_eax t \<and> reg_edx s = reg_edx t"
  using arg_cong [OF assms, of reg_eax] arg_cong [OF assms, of reg_edx] by (simp add: beside_flags_def)

lemma flag_frames [simp]:
  "reg_eax (FillFlagsNoCFOF s) = reg_eax s" "reg_edx (FillFlagsNoCFOF s) = reg_edx s"
  "reg_eax (SETFLAGBIT f b s) = reg_eax s" "reg_edx (SETFLAGBIT f b s) = reg_edx s"
  "reg_eax (SET_CF_OF b s) = reg_eax s" "reg_edx (SET_CF_OF b s) = reg_edx s"
  "reg_eax (ApplyTestFlags m s) = reg_eax s" "reg_edx (ApplyTestFlags m s) = reg_edx s"
  "reg_eax (set_type t s) = reg_eax s" "reg_edx (set_type t s) = reg_edx s"
  using beside_regs [OF nocfof_frame [of s]]
  by (simp_all add: SETFLAGBIT_def SET_CF_OF_def ApplyTestFlags_def set_type_def)

lemma set_flags_frames [simp]:
  "reg_eax (set_cpu_test_flags_for_division b q s) = reg_eax s" "reg_edx (set_cpu_test_flags_for_division b q s) = reg_edx s"
  by (simp_all add: set_cpu_test_flags_for_division_def Let_def)

lemma pair_nat: "b < 2 ^ n \<Longrightarrow> push_bit n a OR b = a * 2 ^ n + b" for a b :: nat
proof -
  assume b: "b < 2 ^ n"
  then have "\<not> bit b m" if "n \<le> m" for m
    using that by (metis bit_take_bit_iff not_le take_bit_nat_eq_self)
  then have "push_bit n a OR b = push_bit n a + b"
    by (intro disjunctive_add [symmetric]) (auto simp: bit_push_bit_iff)
  then show ?thesis by (simp add: push_bit_eq_mult)
qed

lemma pair_unat:
  fixes hi lo :: "'a::len word"
  assumes "LENGTH('b::len) = 2 * LENGTH('a)"
  shows "unat (push_bit LENGTH('a) (ucast hi) OR ucast lo :: 'b word) = unat hi * 2 ^ LENGTH('a) + unat lo"
proof -
  have u: "unat (ucast x :: 'b word) = unat x" for x :: "'a word"
    using assms by (simp add: unsigned_ucast_eq take_bit_nat_eq_self less_le_trans [OF unat_bound])
  have "push_bit LENGTH('a) (unat hi) < 2 ^ LENGTH('b)"
    using assms by (simp add: push_bit_eq_mult mult_2 power_add)
  then have "unat (push_bit LENGTH('a) (ucast hi) :: 'b word) = push_bit LENGTH('a) (unat hi)"
    by (simp only: unsigned_push_bit_eq u take_bit_nat_eq_self)
  then show ?thesis by (simp only: unsigned_or_eq u pair_nat [OF unat_bound])
qed


section \<open>Multiplication\<close>

lemma lazy_SET_CF_OF:
  "lf_type s = t_UNKNOWN \<Longrightarrow> fCF (lazy_flags (SET_CF_OF b s)) = b \<and> fOF (lazy_flags (SET_CF_OF b s)) = b"
  by (simp add: SET_CF_OF_def lazy_flags_unknown)

lemma unat_ucast_up: "LENGTH('a) \<le> LENGTH('b) \<Longrightarrow> unat (ucast (x :: 'a::len word) :: 'b::len word) = unat x"
  by (simp add: unsigned_ucast_eq take_bit_nat_eq_self less_le_trans [OF unat_bound])

lemma unat_wide_mult:
  fixes x y :: "'a::len word"
  assumes "LENGTH('b::len) = 2 * LENGTH('a)"
  shows "unat (ucast x * ucast y :: 'b word) = unat x * unat y"
proof -
  have "unat x * unat y < 2 ^ LENGTH('a) * 2 ^ LENGTH('a)"
    by (intro mult_strict_mono unat_bound) simp_all
  then show ?thesis
    using assms by (simp add: unat_word_ariths unat_ucast_up mult_2 power_add)
qed

lemma split_halves:
  fixes r :: "'b::len word"
  assumes "LENGTH('b) = 2 * LENGTH('a::len)"
  shows "unat (ucast (drop_bit LENGTH('a) r) :: 'a word) * 2 ^ LENGTH('a) + unat (ucast r :: 'a word) = unat r"
proof -
  have lo: "unat (ucast r :: 'a word) = unat r mod 2 ^ LENGTH('a)"
    by (simp add: unsigned_ucast_eq take_bit_eq_mod)
  have "unat r < 2 ^ LENGTH('a) * 2 ^ LENGTH('a)"
    using unat_bound [of r] assms by (simp add: mult_2 power_add del: unsigned_less)
  then have "unat r div 2 ^ LENGTH('a) < 2 ^ LENGTH('a)" by (simp add: less_mult_imp_div_less)
  then have hi: "unat (ucast (drop_bit LENGTH('a) r) :: 'a word) = unat r div 2 ^ LENGTH('a)"
    by (simp add: unsigned_ucast_eq shr_unat take_bit_nat_eq_self)
  show ?thesis by (simp only: lo hi div_mult_mod_eq)
qed

lemma high_byte: "truth (x AND 0xff00) \<longleftrightarrow> 256 \<le> unat x" for x :: u16
proof -
  have m: "(0xff00 :: u16) = push_bit 8 (mask 8)" by (simp add: mask_eq_exp_minus_1 push_bit_eq_mult)
  have "x AND 0xff00 = push_bit 8 (drop_bit 8 x)"
    unfolding m by (rule bit_word_eqI) (auto simp: bit_simps)
  moreover have "unat (push_bit 8 (drop_bit 8 x)) = 256 * (unat x div 256)"
    using unat_bound [of x] by (simp add: shl_unat shr_unat)
  ultimately show ?thesis by (auto simp: truth_def word_unat_eq_iff)
qed

text \<open>\<open>MUL\<close> leaves the exact product of the accumulator and the operand in \<open>AX\<close>, \<open>DX:AX\<close> and
  \<open>EDX:EAX\<close>, and sets carry and overflow exactly when the upper half is not zero.\<close>

theorem mul_exact:
  fixes v :: u8 and w :: u16 and d :: u32
  shows "unat (reg_ax (MULB v s)) = unat (reg_al s) * unat v \<and>
    fCF (lazy_flags (MULB v s)) = (2 ^ 8 \<le> unat (reg_al s) * unat v) \<and>
    fOF (lazy_flags (MULB v s)) = (2 ^ 8 \<le> unat (reg_al s) * unat v) \<and>
    unat (reg_dx (MULW w s)) * 2 ^ 16 + unat (reg_ax (MULW w s)) = unat (reg_ax s) * unat w \<and>
    fCF (lazy_flags (MULW w s)) = (2 ^ 16 \<le> unat (reg_ax s) * unat w) \<and>
    fOF (lazy_flags (MULW w s)) = (2 ^ 16 \<le> unat (reg_ax s) * unat w) \<and>
    unat (reg_edx (MULD d s)) * 2 ^ 32 + unat (reg_eax (MULD d s)) = unat (reg_eax s) * unat d \<and>
    fCF (lazy_flags (MULD d s)) = (2 ^ 32 \<le> unat (reg_eax s) * unat d) \<and>
    fOF (lazy_flags (MULD d s)) = (2 ^ 32 \<le> unat (reg_eax s) * unat d)"
proof -
  define p q where "p = (ucast (reg_ax s) * ucast w :: u32)" and "q = (ucast (reg_eax s) * ucast d :: u64)"
  have u: "unat (ucast (reg_al s) * ucast v :: u16) = unat (reg_al s) * unat v"
    "unat p = unat (reg_ax s) * unat w" "unat q = unat (reg_eax s) * unat d"
    unfolding p_def q_def by (simp_all add: unat_wide_mult)
  have hw: "truth (ucast (drop_bit 16 p) :: u16) \<longleftrightarrow> 2 ^ 16 \<le> unat p"
    and hd: "truth (ucast (drop_bit 32 q) :: u32) \<longleftrightarrow> 2 ^ 32 \<le> unat q"
    using split_halves [where 'a = 16, of p] split_halves [where 'a = 32, of q]
      unat_bound [of "ucast p :: u16"] unat_bound [of "ucast q :: u32"]
    by (auto simp: truth_def word_unat_eq_iff)
  show ?thesis
    using split_halves [where 'a = 16, of p] split_halves [where 'a = 32, of q] hw hd
    by (simp add: MULB_def MULW_def MULD_def Let_def u high_byte lazy_SET_CF_OF p_def [symmetric] q_def [symmetric])
qed


section \<open>Division\<close>

lemma ucast_mask:
  "ucast (q AND 0xff) = (ucast q :: u8)" "ucast (q AND 0xffff) = (ucast q :: u16)" "ucast (q AND 0xffffffff) = (ucast q :: u32)"
  for q :: u64
proof -
  have m: "(0xff :: u64) = mask 8" "(0xffff :: u64) = mask 16" "(0xffffffff :: u64) = mask 32"
    by (simp_all add: mask_eq_exp_minus_1)
  show "ucast (q AND 0xff) = (ucast q :: u8)" "ucast (q AND 0xffff) = (ucast q :: u16)" "ucast (q AND 0xffffffff) = (ucast q :: u32)"
    unfolding m by (auto intro!: bit_word_eqI simp: bit_simps)
qed

lemma unat_ucast_down: "unat (ucast q :: 'a::len word) = unat q mod 2 ^ LENGTH('a)" for q :: "'b::len word"
  by (simp add: unsigned_ucast_eq take_bit_eq_mod)

lemma quotient_fits:
  fixes q :: u64
  shows "q \<noteq> ucast (ucast q :: u16) \<longleftrightarrow> 2 ^ 16 \<le> unat q" "q \<noteq> ucast (ucast q :: u32) \<longleftrightarrow> 2 ^ 32 \<le> unat q"
proof -
  have mod: "x \<noteq> x mod k \<longleftrightarrow> k \<le> x" if "0 < k" for x k :: nat
    using that by (metis mod_less mod_less_divisor not_le)
  show "q \<noteq> ucast (ucast q :: u16) \<longleftrightarrow> 2 ^ 16 \<le> unat q" "q \<noteq> ucast (ucast q :: u32) \<longleftrightarrow> 2 ^ 32 \<le> unat q"
    using mod [of "2 ^ 16" "unat q"] mod [of "2 ^ 32" "unat q"]
    by (simp_all add: word_unat_eq_iff [of q] unat_ucast_up unat_ucast_down)
qed

definition div_result :: "nat \<Rightarrow> nat \<Rightarrow> nat \<Rightarrow> nat \<Rightarrow> nat \<Rightarrow> bool" where
  "div_result n num v q r \<longleftrightarrow> v \<noteq> 0 \<and> q < 2 ^ n \<and> num = q * v + r \<and> r < v"

lemma div_resultI: "0 < v \<Longrightarrow> num div v < 2 ^ n \<Longrightarrow> div_result n num v (num div v) (num mod v)"
  by (simp add: div_result_def mult.commute)

definition div_flags :: "'a::len word \<Rightarrow> bool \<Rightarrow> flags6 \<Rightarrow> bool" where
  "div_flags q neg f \<longleftrightarrow> \<not> fCF f \<and> \<not> fOF f \<and> fZF f = (q = 0) \<and> fPF f = even_parity q \<and> fSF f = neg"

lemma div_byte:
  "case DIVB v s of Inl e \<Rightarrow> e = Exception0 \<and> (v = 0 \<or> 2 ^ 8 \<le> (unat (reg_ax s)) div unat v)
    | Inr t \<Rightarrow> div_result 8 (unat (reg_ax s)) (unat v) (unat (reg_al t)) (unat (reg_ah t))"
proof -
  define x y where "x = (ucast (reg_ax s) :: u64)" and "y = (ucast v :: u64)"
  have x: "unat x = unat (reg_ax s)" unfolding x_def by (rule unat_ucast_up) simp
  have y: "unat y = unat v" unfolding y_def by (simp add: unat_ucast_up)
  have eq: "DIVB v s = (if y = 0 then Inl Exception0 else if 2 ^ 8 \<le> unat (x div y) then Inl Exception0
      else Inr (set_cpu_test_flags_for_division False (ucast (x div y) :: u8) (set_al (ucast (x div y)) (set_ah (ucast (x mod y)) s))))"
    unfolding DIVB_def Let_def ucast_mask quotient_fits x_def [symmetric] y_def [symmetric]
    by (auto simp: word_less_nat_alt)
  show ?thesis
  proof (cases "v = 0 \<or> 2 ^ 8 \<le> unat (x div y)")
    case True
    then show ?thesis unfolding eq using x y by (auto simp: word_unat_eq_iff unat_div)
  next
    case False
    then have v: "0 < unat v" "unat x div unat v < 2 ^ 8" and y0: "y \<noteq> 0"
      using y by (auto simp: word_unat_eq_iff unat_div)
    have "unat x mod unat v < 2 ^ 8"
      using less_trans [OF mod_less_divisor [OF v(1)] unat_bound [of v]] by simp
    with div_resultI [OF v] v y0 show ?thesis
      unfolding eq x [symmetric] by (simp add: unat_ucast_down unat_div unat_mod y)
  qed
qed

lemma div_word:
  "case DIVW v s of Inl e \<Rightarrow> e = Exception0 \<and> (v = 0 \<or> 2 ^ 16 \<le> (unat (reg_dx s) * 2 ^ 16 + unat (reg_ax s)) div unat v)
    | Inr t \<Rightarrow> div_result 16 (unat (reg_dx s) * 2 ^ 16 + unat (reg_ax s)) (unat v) (unat (reg_ax t)) (unat (reg_dx t))"
proof -
  define x y where "x = (ucast (push_bit 16 (ucast (reg_dx s) :: u32) OR ucast (reg_ax s)) :: u64)" and "y = (ucast v :: u64)"
  have x: "unat x = unat (reg_dx s) * 2 ^ 16 + unat (reg_ax s)" unfolding x_def using pair_unat [where 'b = 32, of "reg_dx s" "reg_ax s"] by (simp add: unat_ucast_up)
  have y: "unat y = unat v" unfolding y_def by (simp add: unat_ucast_up)
  have eq: "DIVW v s = (if y = 0 then Inl Exception0 else if 2 ^ 16 \<le> unat (x div y) then Inl Exception0
      else Inr (set_cpu_test_flags_for_division False (ucast (x div y) :: u16) (set_ax (ucast (x div y)) (set_dx (ucast (x mod y)) s))))"
    unfolding DIVW_def Let_def ucast_mask quotient_fits x_def [symmetric] y_def [symmetric]
    by (auto simp: word_less_nat_alt)
  show ?thesis
  proof (cases "v = 0 \<or> 2 ^ 16 \<le> unat (x div y)")
    case True
    then show ?thesis unfolding eq using x y by (auto simp: word_unat_eq_iff unat_div)
  next
    case False
    then have v: "0 < unat v" "unat x div unat v < 2 ^ 16" and y0: "y \<noteq> 0"
      using y by (auto simp: word_unat_eq_iff unat_div)
    have "unat x mod unat v < 2 ^ 16"
      using less_trans [OF mod_less_divisor [OF v(1)] unat_bound [of v]] by simp
    with div_resultI [OF v] v y0 show ?thesis
      unfolding eq x [symmetric] by (simp add: unat_ucast_down unat_div unat_mod y)
  qed
qed

lemma div_dword:
  "case DIVD v s of Inl e \<Rightarrow> e = Exception0 \<and> (v = 0 \<or> 2 ^ 32 \<le> (unat (reg_edx s) * 2 ^ 32 + unat (reg_eax s)) div unat v)
    | Inr t \<Rightarrow> div_result 32 (unat (reg_edx s) * 2 ^ 32 + unat (reg_eax s)) (unat v) (unat (reg_eax t)) (unat (reg_edx t))"
proof -
  define x y where "x = (push_bit 32 (ucast (reg_edx s)) OR ucast (reg_eax s) :: u64)" and "y = (ucast v :: u64)"
  have x: "unat x = unat (reg_edx s) * 2 ^ 32 + unat (reg_eax s)" unfolding x_def using pair_unat [where 'b = 64, of "reg_edx s" "reg_eax s"] by simp
  have y: "unat y = unat v" unfolding y_def by (simp add: unat_ucast_up)
  have eq: "DIVD v s = (if y = 0 then Inl Exception0 else if 2 ^ 32 \<le> unat (x div y) then Inl Exception0
      else Inr (set_cpu_test_flags_for_division False (ucast (x div y) :: u32) (s\<lparr>reg_edx := ucast (x mod y), reg_eax := ucast (x div y)\<rparr>)))"
    unfolding DIVD_def Let_def ucast_mask quotient_fits x_def [symmetric] y_def [symmetric]
    by (auto simp: word_less_nat_alt)
  show ?thesis
  proof (cases "v = 0 \<or> 2 ^ 32 \<le> unat (x div y)")
    case True
    then show ?thesis unfolding eq using x y by (auto simp: word_unat_eq_iff unat_div)
  next
    case False
    then have v: "0 < unat v" "unat x div unat v < 2 ^ 32" and y0: "y \<noteq> 0"
      using y by (auto simp: word_unat_eq_iff unat_div)
    have "unat x mod unat v < 2 ^ 32"
      using less_trans [OF mod_less_divisor [OF v(1)] unat_bound [of v]] by simp
    with div_resultI [OF v] v y0 show ?thesis
      unfolding eq x [symmetric] by (simp add: unat_ucast_down unat_div unat_mod y)
  qed
qed

text \<open>C28: \<open>DIV\<close> raises the divide error exactly when the divisor is zero or the quotient does not fit
  the half register, and otherwise leaves the quotient and the remainder of the exact division of
  \<open>AX\<close>, \<open>DX:AX\<close> and \<open>EDX:EAX\<close>.\<close>

theorem div_exact:
  fixes v :: u8 and w :: u16 and d :: u32
  shows "(case DIVB v s of Inl e \<Rightarrow> e = Exception0 \<and> (v = 0 \<or> 2 ^ 8 \<le> unat (reg_ax s) div unat v)
      | Inr t \<Rightarrow> div_result 8 (unat (reg_ax s)) (unat v) (unat (reg_al t)) (unat (reg_ah t))) \<and>
    (case DIVW w s of Inl e \<Rightarrow> e = Exception0 \<and> (w = 0 \<or> 2 ^ 16 \<le> (unat (reg_dx s) * 2 ^ 16 + unat (reg_ax s)) div unat w)
      | Inr t \<Rightarrow> div_result 16 (unat (reg_dx s) * 2 ^ 16 + unat (reg_ax s)) (unat w) (unat (reg_ax t)) (unat (reg_dx t))) \<and>
    (case DIVD d s of Inl e \<Rightarrow> e = Exception0 \<and> (d = 0 \<or> 2 ^ 32 \<le> (unat (reg_edx s) * 2 ^ 32 + unat (reg_eax s)) div unat d)
      | Inr t \<Rightarrow> div_result 32 (unat (reg_edx s) * 2 ^ 32 + unat (reg_eax s)) (unat d) (unat (reg_eax t)) (unat (reg_edx t)))"
  using div_byte [of v s] div_word [of w s] div_dword [of d s] by blast


definition fits :: "nat \<Rightarrow> int \<Rightarrow> bool" where
  "fits n q \<longleftrightarrow> - (2 ^ (n - 1)) \<le> q \<and> q < 2 ^ (n - 1)"

definition idiv_result :: "nat \<Rightarrow> int \<Rightarrow> int \<Rightarrow> int \<Rightarrow> int \<Rightarrow> bool" where
  "idiv_result n num v q r \<longleftrightarrow> v \<noteq> 0 \<and> fits n q \<and> num = q * v + r \<and> \<bar>r\<bar> < \<bar>v\<bar> \<and> (r = 0 \<or> sgn r = sgn num)"

lemma idiv_resultI:
  assumes "v \<noteq> 0" "fits n (num sdiv v)"
  shows "idiv_result n num v (num sdiv v) (num smod v)"
proof -
  have "0 \<le> \<bar>num\<bar> mod \<bar>v\<bar>" using assms(1) by simp
  then have "\<bar>num\<bar> mod \<bar>v\<bar> \<noteq> 0 \<Longrightarrow> sgn (\<bar>num\<bar> mod \<bar>v\<bar>) = 1" by (auto simp: sgn_if)
  then show ?thesis
    using assms sdiv_mult_smod_eq [of num v] smod_int_range [of v num]
    by (auto simp: idiv_result_def smod_int_alt_def sgn_mult abs_mult)
qed

lemma sint_word_of_int_fits: "q = sint (word_of_int q :: 'a::len word) \<longleftrightarrow> fits LENGTH('a) q"
  using signed_take_bit_int_eq_self_iff [of "LENGTH('a) - 1" q] by (auto simp: fits_def signed_of_int)

lemma word_of_int_take_bit: "LENGTH('a) = n \<Longrightarrow> word_of_int (take_bit n q) = (word_of_int q :: 'a::len word)"
  by (rule bit_word_eqI) (simp add: bit_simps)

lemma smod_fits:
  assumes "v \<noteq> 0"
  shows "fits LENGTH('a) (num smod sint (v :: 'a::len word))"
proof -
  have "sint v \<noteq> 0" using assms by (simp add: signed_eq_0_iff)
  then show ?thesis
    using smod_int_range [of "sint v" num] sint_greater_eq [of v] sint_less [of v] by (auto simp: fits_def)
qed

lemma sint_zero_iff: "sint v = 0 \<longleftrightarrow> v = 0" for v :: "'a::len word"
  by (rule signed_eq_0_iff)

lemmas idiv_simps = Let_def word_of_int_take_bit sint_word_of_int_fits

lemma idiv_byte:
  "case IDIVB v s of Inl e \<Rightarrow> e = Exception0 \<and> (v = 0 \<or> \<not> fits 8 (sint (reg_ax s) sdiv sint v))
    | Inr t \<Rightarrow> idiv_result 8 (sint (reg_ax s)) (sint v) (sint (reg_al t)) (sint (reg_ah t))"
proof -
  define x where "x = sint (reg_ax s)"
  have "sint (word_of_int (x smod sint v) :: u8) = x smod sint v" if "v \<noteq> 0"
    using smod_fits [OF that, of x] sint_word_of_int_fits [where 'a = 8, of "x smod sint v"] by simp
  moreover have "sint (word_of_int (x sdiv sint v) :: u8) = x sdiv sint v" if "fits 8 (x sdiv sint v)"
    using that sint_word_of_int_fits [where 'a = 8, of "x sdiv sint v"] by simp
  ultimately show ?thesis
    using sint_word_of_int_fits [where 'a = 8, of "x sdiv sint v"] idiv_resultI [of "sint v" 8 x]
    unfolding IDIVB_def x_def [symmetric]
    by (simp add: Let_def word_of_int_take_bit sint_zero_iff)
qed

lemma idiv_word:
  fixes v :: u16 and s
  defines "x \<equiv> sint (push_bit 16 (ucast (reg_dx s)) OR ucast (reg_ax s) :: u32)"
  shows "case IDIVW v s of
      Inl Exception0 \<Rightarrow> v = 0 \<or> \<not> fits 16 (x sdiv sint v)
    | Inl Host_overflow \<Rightarrow> x = - (2 ^ 31) \<and> sint v = - 1
    | Inr t \<Rightarrow> idiv_result 16 x (sint v) (sint (reg_ax t)) (sint (reg_dx t))"
proof -
  have "sint (word_of_int (x smod sint v) :: u16) = x smod sint v" if "v \<noteq> 0"
    using smod_fits [OF that, of x] sint_word_of_int_fits [where 'a = 16, of "x smod sint v"] by simp
  moreover have "sint (word_of_int (x sdiv sint v) :: u16) = x sdiv sint v" if "fits 16 (x sdiv sint v)"
    using that sint_word_of_int_fits [where 'a = 16, of "x sdiv sint v"] by simp
  ultimately show ?thesis
    using sint_word_of_int_fits [where 'a = 16, of "x sdiv sint v"] idiv_resultI [of "sint v" 16 x]
    unfolding IDIVW_def x_def [symmetric]
    by (simp add: Let_def sint_zero_iff)
qed
lemma idiv_dword:
  fixes v :: u32 and s
  defines "x \<equiv> sint (push_bit 32 (ucast (reg_edx s)) OR ucast (reg_eax s) :: u64)"
  shows "case IDIVD v s of
      Inl Exception0 \<Rightarrow> v = 0 \<or> \<not> fits 32 (x sdiv sint v)
    | Inl Host_overflow \<Rightarrow> x = - (2 ^ 63) \<and> sint v = - 1
    | Inr t \<Rightarrow> idiv_result 32 x (sint v) (sint (reg_eax t)) (sint (reg_edx t))"
proof -
  have "sint (word_of_int (x smod sint v) :: u32) = x smod sint v" if "v \<noteq> 0"
    using smod_fits [OF that, of x] sint_word_of_int_fits [where 'a = 32, of "x smod sint v"] by simp
  moreover have "sint (word_of_int (x sdiv sint v) :: u32) = x sdiv sint v" if "fits 32 (x sdiv sint v)"
    using that sint_word_of_int_fits [where 'a = 32, of "x sdiv sint v"] by simp
  ultimately show ?thesis
    using sint_word_of_int_fits [where 'a = 32, of "x sdiv sint v"] idiv_resultI [of "sint v" 32 x]
    unfolding IDIVD_def x_def [symmetric]
    by (simp add: Let_def word_of_int_take_bit sint_zero_iff)
qed

text \<open>C29: \<open>IDIV\<close> truncates towards zero: it leaves the quotient and the remainder with the sign of the
  dividend, and raises the divide error when the divisor is zero or the quotient does not fit the
  half register. The one other outcome is the host division whose quotient does not fit, for the
  least dividend and divisor -1 of the word and dword forms.\<close>

theorem idiv_exact:
  fixes v :: u8 and w :: u16 and d :: u32
  shows "(case IDIVB v s of Inl e \<Rightarrow> e = Exception0 \<and> \<not> (v \<noteq> 0 \<and> fits 8 (sint (reg_ax s) sdiv sint v))
      | Inr t \<Rightarrow> idiv_result 8 (sint (reg_ax s)) (sint v) (sint (reg_al t)) (sint (reg_ah t))) \<and>
    (let x = sint (push_bit 16 (ucast (reg_dx s)) OR ucast (reg_ax s) :: u32) in
     case IDIVW w s of Inl Exception0 \<Rightarrow> \<not> (w \<noteq> 0 \<and> fits 16 (x sdiv sint w))
      | Inl Host_overflow \<Rightarrow> x = - (2 ^ 31) \<and> sint w = - 1
      | Inr t \<Rightarrow> idiv_result 16 x (sint w) (sint (reg_ax t)) (sint (reg_dx t))) \<and>
    (let x = sint (push_bit 32 (ucast (reg_edx s)) OR ucast (reg_eax s) :: u64) in
     case IDIVD d s of Inl Exception0 \<Rightarrow> \<not> (d \<noteq> 0 \<and> fits 32 (x sdiv sint d))
      | Inl Host_overflow \<Rightarrow> x = - (2 ^ 63) \<and> sint d = - 1
      | Inr t \<Rightarrow> idiv_result 32 x (sint d) (sint (reg_eax t)) (sint (reg_edx t)))"
  unfolding Let_def de_Morgan_conj not_not using idiv_byte [of v s] idiv_word [of w s] idiv_dword [of d s] by blast

section \<open>Signed multiplication\<close>

lemma sint_wide_mult:
  fixes x y :: "'a::len word"
  assumes "LENGTH('b::len) = 2 * LENGTH('a)"
  shows "sint (scast x * scast y :: 'b word) = sint x * sint y"
proof -
  define h :: int where "h = 2 ^ (LENGTH('a) - 1)"
  have b: "- h \<le> sint z" "sint z < h" for z :: "'a word"
    using sint_greater_eq [of z] sint_less [of z] by (simp_all add: h_def)
  have up: "sint (scast z :: 'b word) = sint z" for z :: "'a word"
    using assms by (intro sint_up_scast) (simp add: is_up)
  obtain k where k: "LENGTH('a) = Suc k" by (metis len_gt_0 gr0_implies_Suc)
  have "\<bar>sint x * sint y\<bar> \<le> h * h"
    unfolding abs_mult using b [of x] b [of y] by (intro mult_mono) auto
  moreover have "h * h < 2 ^ (LENGTH('b) - 1)"
  proof -
    have "LENGTH('b) - 1 = Suc (k + k)" "h * h = 2 ^ (k + k)" using assms k by (simp_all add: h_def power_add)
    then show ?thesis by (simp only: power_Suc) simp
  qed
  ultimately have f: "fits LENGTH('b) (sint x * sint y)" by (auto simp: fits_def)
  have "(scast x * scast y :: 'b word) = word_of_int (sint x * sint y)"
    by (simp add: up [symmetric])
  then show ?thesis using f sint_word_of_int_fits [where 'a = 'b, of "sint x * sint y"] by simp
qed

lemma split_halves_signed:
  fixes r :: "'b::len word"
  assumes "LENGTH('b) = 2 * LENGTH('a::len)"
  shows "sint (ucast (signed_drop_bit LENGTH('a) r) :: 'a word) * 2 ^ LENGTH('a) + uint (ucast r :: 'a word) = sint r"
proof -
  have "uint (ucast r :: 'a word) = take_bit LENGTH('a) (sint r)"
    using assms by (intro bit_eqI) (auto simp: bit_simps min_def)
  moreover have "LENGTH('a) + (LENGTH('a) - Suc 0) = 2 * LENGTH('a) - Suc 0"
    using len_gt_0 [where 'a = 'a] by linarith
  then have "sint (ucast (signed_drop_bit LENGTH('a) r) :: 'a word) = drop_bit LENGTH('a) (sint r)"
    using assms by (intro bit_eqI) (auto simp: bit_simps min_def)
  ultimately show ?thesis by (simp only: take_bit_eq_mod drop_bit_eq_div div_mult_mod_eq)
qed

text \<open>The sign-extension tests of \<open>IMUL\<close>: all bits from \<open>n\<close> on are equal.\<close>

lemma upper_bits_all:
  fixes x :: "'b::len word"
  assumes "n < LENGTH('b)"
  shows "(\<forall>k. n \<le> k \<and> k < LENGTH('b) \<longrightarrow> bit x k = b) \<longleftrightarrow> (\<forall>j < LENGTH('b). bit (signed_drop_bit n x) j = b)"
proof (rule iffI; intro allI impI)
  fix j assume a: "\<forall>k. n \<le> k \<and> k < LENGTH('b) \<longrightarrow> bit x k = b" and j: "j < LENGTH('b)"
  show "bit (signed_drop_bit n x) j = b"
    using a [rule_format, of "LENGTH('b) - 1"] a [rule_format, of "n + j"] assms j
    by (auto simp: bit_signed_drop_bit_iff less_diff_conv not_le)
next
  fix k assume a: "\<forall>j < LENGTH('b). bit (signed_drop_bit n x) j = b" and k: "n \<le> k \<and> k < LENGTH('b)"
  have "bit (signed_drop_bit n x) (k - n) = bit x k"
    using k by (auto simp: bit_signed_drop_bit_iff)
  moreover have "k - n < LENGTH('b)" using k by linarith
  ultimately show "bit x k = b" using a by blast
qed

lemma word_const_bits:
  "w = 0 \<longleftrightarrow> (\<forall>j < LENGTH('b). bit w j = False)" "w = - 1 \<longleftrightarrow> (\<forall>j < LENGTH('b). bit w j = True)" for w :: "'b::len word"
  by (auto intro!: bit_word_eqI)

lemma upper_bits:
  fixes x :: "'b::len word"
  assumes "n < LENGTH('b)" "m = push_bit n (mask (LENGTH('b) - n))"
  shows "x AND m = 0 \<longleftrightarrow> signed_drop_bit n x = 0" "x AND m = m \<longleftrightarrow> signed_drop_bit n x = - 1"
proof -
  have m: "bit m k \<longleftrightarrow> n \<le> k \<and> k < LENGTH('b)" for k
    using assms by (auto simp: bit_simps)
  have "x AND m = 0 \<longleftrightarrow> (\<forall>k. n \<le> k \<and> k < LENGTH('b) \<longrightarrow> bit x k = False)"
    "x AND m = m \<longleftrightarrow> (\<forall>k. n \<le> k \<and> k < LENGTH('b) \<longrightarrow> bit x k = True)"
    by (auto simp: bit_eq_iff bit_and_iff m)
  then show "x AND m = 0 \<longleftrightarrow> signed_drop_bit n x = 0" "x AND m = m \<longleftrightarrow> signed_drop_bit n x = - 1"
    using upper_bits_all [OF assms(1), of x False] upper_bits_all [OF assms(1), of x True]
      word_const_bits [of "signed_drop_bit n x"] by simp_all
qed

lemma div_fits: "x div 2 ^ n = 0 \<or> x div 2 ^ n = - 1 \<longleftrightarrow> fits (Suc n) x"
proof -
  have "x div p = 0 \<or> x div p = - 1 \<longleftrightarrow> - p \<le> x \<and> x < p" if p: "0 < p" for p :: int
  proof
    assume "x div p = 0 \<or> x div p = - 1"
    then show "- p \<le> x \<and> x < p"
      using div_mult_mod_eq [of x p] pos_mod_bound [OF p, of x] pos_mod_sign [OF p, of x]
      by (elim disjE) (simp_all del: div_mult_mod_eq)
  next
    assume "- p \<le> x \<and> x < p"
    moreover have "(x + p) div p = x div p + 1" using p div_add_self2 [of p x] by auto
    ultimately show "x div p = 0 \<or> x div p = - 1"
      using div_pos_pos_trivial [of x p] div_pos_pos_trivial [of "x + p" p] by linarith
  qed
  then show ?thesis by (simp add: fits_def)
qed

lemma sign_extended:
  fixes x :: "'b::len word"
  assumes "n < LENGTH('b)" "m = push_bit n (mask (LENGTH('b) - n))"
  shows "x AND m = m \<or> x AND m = 0 \<longleftrightarrow> fits (Suc n) (sint x)"
proof -
  have z: "signed_drop_bit n x = 0 \<longleftrightarrow> sint x div 2 ^ n = 0"
    using sar_sint [of n x] by (metis signed_eq_0_iff)
  have o: "signed_drop_bit n x = - 1 \<longleftrightarrow> sint x div 2 ^ n = - 1"
    using sar_sint [of n x] by (metis signed_minus_1 signed_word_eqI)
  show ?thesis using div_fits [of "sint x" n] upper_bits [OF assms, of x] z o by blast
qed
lemma imul_tests:
  "x AND 0xff80 = 0xff80 \<or> x AND 0xff80 = 0 \<longleftrightarrow> fits 8 (sint x)"
  "y AND 0xffff8000 = 0xffff8000 \<or> y AND 0xffff8000 = 0 \<longleftrightarrow> fits 16 (sint y)" for x :: u16 and y :: u32
  using sign_extended [of 7 "0xff80" x] sign_extended [of 15 "0xffff8000" y]
  by (simp_all add: mask_eq_exp_minus_1 push_bit_eq_mult)

lemma halves_fit:
  fixes H L R :: int
  assumes "H * 2 ^ 32 + L = R" "0 \<le> L" "L < 2 ^ 32"
  shows "(H = - 1 \<and> 2 ^ 31 \<le> L) \<or> (H = 0 \<and> L < 2 ^ 31) \<longleftrightarrow> fits 32 R"
  using assms unfolding fits_def by auto

lemma imul_dword_tests:
  fixes r :: u64
  defines "lo \<equiv> ucast r :: u32" and "hi \<equiv> ucast (signed_drop_bit 32 r) :: u32"
  shows "(hi = 0xffffffff \<and> truth (lo AND 0x80000000)) \<or> (hi = 0 \<and> lo < 0x80000000) \<longleftrightarrow> fits 32 (sint r)"
proof -
  have "sint hi * 2 ^ 32 + uint lo = sint r"
    using split_halves_signed [where 'a = 32, of r] by (simp add: hi_def lo_def)
  moreover have "uint lo < 2 ^ 32" using uint_bounded [of lo] by simp
  ultimately have f: "(sint hi = - 1 \<and> 2 ^ 31 \<le> uint lo) \<or> (sint hi = 0 \<and> uint lo < 2 ^ 31) \<longleftrightarrow> fits 32 (sint r)"
    by (intro halves_fit) simp_all
  have "hi = 0xffffffff \<longleftrightarrow> sint hi = - 1" "hi = 0 \<longleftrightarrow> sint hi = 0"
    by (auto intro: signed_word_eqI)
  moreover have "truth (lo AND 0x80000000) \<longleftrightarrow> 2 ^ 31 \<le> uint lo" "lo < 0x80000000 \<longleftrightarrow> uint lo < 2 ^ 31"
  proof -
    have "2 ^ 31 \<le> unat lo \<longleftrightarrow> 2 ^ 31 \<le> uint lo"
      using of_nat_le_iff [where 'a = int, of "2 ^ 31" "unat lo"]
      by (simp only: of_nat_unat of_nat_power of_nat_numeral)
    then show "truth (lo AND 0x80000000) \<longleftrightarrow> 2 ^ 31 \<le> uint lo" using sgn_bit_iff_unat [of lo] by simp
  qed (simp add: word_less_def)
  ultimately show ?thesis using f by simp
qed

text \<open>One-operand \<open>IMUL\<close> leaves the exact signed product in \<open>AX\<close>, \<open>DX:AX\<close> and \<open>EDX:EAX\<close>, and sets
  carry and overflow exactly when the product does not fit the low half.\<close>

theorem imul_exact:
  fixes v :: u8 and w :: u16 and d :: u32
  shows "(let t = IMULB v s; p = sint (reg_al s) * sint v in sint (reg_ax t) = p \<and>
      fCF (lazy_flags t) = (\<not> fits 8 p) \<and> fOF (lazy_flags t) = (\<not> fits 8 p)) \<and>
    (let t = IMULW w s; p = sint (reg_ax s) * sint w in sint (reg_dx t) * 2 ^ 16 + uint (reg_ax t) = p \<and>
      fCF (lazy_flags t) = (\<not> fits 16 p) \<and> fOF (lazy_flags t) = (\<not> fits 16 p)) \<and>
    (let t = IMULD d s; p = sint (reg_eax s) * sint d in sint (reg_edx t) * 2 ^ 32 + uint (reg_eax t) = p \<and>
      fCF (lazy_flags t) = (\<not> fits 32 p) \<and> fOF (lazy_flags t) = (\<not> fits 32 p))"
proof -
  define b p q where "b = (scast (reg_al s) * scast v :: u16)" and "p = (scast (reg_ax s) * scast w :: u32)"
    and "q = (scast (reg_eax s) * scast d :: u64)"
  have u: "sint (reg_al s) * sint v = sint b" "sint (reg_ax s) * sint w = sint p" "sint (reg_eax s) * sint d = sint q"
    unfolding b_def p_def q_def by (simp_all add: sint_wide_mult)
  show ?thesis
    using split_halves_signed [where 'a = 16, of p] split_halves_signed [where 'a = 32, of q]
      imul_dword_tests [of q] imul_tests(1) [of b] imul_tests(2) [of p]
    unfolding Let_def u IMULB_def IMULW_def IMULD_def b_def [symmetric] p_def [symmetric] q_def [symmetric]
    by (simp add: lazy_SET_CF_OF) auto
qed

lemma word_of_sint_mult: "word_of_int (sint x * sint y) = x * y" for x y :: "'a::len word"
  by simp

lemma ucast_word_of_int: "LENGTH('a) \<le> LENGTH('b) \<Longrightarrow> (ucast (word_of_int k :: 'b::len word) :: 'a::len word) = word_of_int k"
  by (rule bit_word_eqI) (simp add: bit_simps)

lemma wide_mult_of_int:
  fixes x y :: "'a::len word"
  assumes "LENGTH('b::len) = 2 * LENGTH('a)"
  shows "(scast x * scast y :: 'b word) = word_of_int (sint x * sint y)"
proof -
  have "sint (scast z :: 'b word) = sint z" for z :: "'a word"
    using assms by (intro sint_up_scast) (simp add: is_up)
  then show ?thesis using word_of_sint_mult [of "scast x :: 'b word" "scast y :: 'b word"] by simp
qed

lemma wide_low:
  fixes x y :: "'a::len word"
  assumes "LENGTH('b::len) = 2 * LENGTH('a)"
  shows "ucast (scast x * scast y :: 'b word) = x * y"
  unfolding wide_mult_of_int [OF assms] by (subst ucast_word_of_int) (use assms in simp_all)

lemma wide_fits:
  fixes x y :: "'a::len word"
  assumes "LENGTH('b::len) = 2 * LENGTH('a)"
  shows "scast (x * y) \<noteq> (scast x * scast y :: 'b word) \<longleftrightarrow> \<not> fits LENGTH('a) (sint x * sint y)"
proof -
  have "scast (x * y) = (scast x * scast y :: 'b word) \<longleftrightarrow> sint (scast (x * y) :: 'b word) = sint x * sint y"
    using sint_wide_mult [OF assms, of x y] by (metis signed_word_eqI)
  also have "sint (scast (x * y) :: 'b word) = sint (word_of_int (sint x * sint y) :: 'a word)"
    using assms by (subst sint_up_scast) (simp_all add: is_up)
  finally show ?thesis using sint_word_of_int_fits [where 'a = 'a, of "sint x * sint y"] by metis
qed

text \<open>The multiplication macro of the two-operand word \<open>IMUL\<close> is exact on signed operands, as the
  full core uses it: it returns the low word of the signed product and sets carry and overflow
  exactly when the product does not fit a word. The dword macro sign-extends its operands itself.\<close>

theorem dimul_exact:
  fixes a b :: u16 and c d :: u32
  shows "(case IMUL_full_w a b s of Inl e \<Rightarrow> False
      | Inr (r, t) \<Rightarrow> r = a * b \<and> fCF (lazy_flags t) = (\<not> fits 16 (sint a * sint b)) \<and>
          fOF (lazy_flags t) = (\<not> fits 16 (sint a * sint b))) \<and>
    (case DIMULD c d s of (r, t) \<Rightarrow> r = c * d \<and> fCF (lazy_flags t) = (\<not> fits 32 (sint c * sint d)) \<and>
          fOF (lazy_flags t) = (\<not> fits 32 (sint c * sint d)))"
proof -
  have "\<not> (sint a * sint b < - (2 ^ 31) \<or> 2 ^ 31 \<le> sint a * sint b)"
    using sint_wide_mult [where 'b = 32, of a b] sint_greater_eq [of "scast a * scast b :: u32"] sint_less [of "scast a * scast b :: u32"]
    by simp
  moreover have "(word_of_int (sint a * sint b AND 0xffff) :: u16) = a * b"
  proof -
    have "sint a * sint b AND 0xffff = take_bit 16 (sint a * sint b)"
      by (simp add: take_bit_eq_mask mask_eq_exp_minus_1)
    then show ?thesis by (simp add: word_of_int_take_bit)
  qed
  moreover have "- 32768 \<le> x \<and> x \<le> 32767 \<longleftrightarrow> fits 16 x" for x :: int
    by (auto simp: fits_def)
  moreover note wide_low [where 'b = 64, of c d] wide_fits [where 'b = 64, of c d]
  ultimately show ?thesis
    by (simp add: IMUL_full_w_def DIMULW_def DIMULD_def Let_def lazy_SET_CF_OF SET_CF_OF_def [symmetric])
qed
text \<open>The two-operand word \<open>IMUL\<close> of the normal core multiplies its register operands as
  unsigned values. The low word is right, but carry and overflow report whether the unsigned
  product exceeds 32767: -1 times 1, which fits, sets them. For large operands the product
  leaves \<open>int\<close>.\<close>

theorem imul_register_unsigned:
  "(case IMUL_Gw_Ew a b s of Inl e \<Rightarrow> e = Host_overflow \<and> 2 ^ 31 \<le> unat a * unat b
     | Inr (r, t) \<Rightarrow> r = a * b \<and> fCF (lazy_flags t) = (32767 < unat a * unat b)) \<and>
   fits 16 (sint (0xFFFF :: u16) * sint (1 :: u16)) \<and> 32767 < unat (0xFFFF :: u16) * unat (1 :: u16)"
proof -
  define p m where "p = uint b * uint a" and "m = unat a * unat b"
  have p: "p = int m" by (simp add: p_def m_def)
  have "p AND 0xffff = take_bit 16 p" by (simp add: take_bit_eq_mask mask_eq_exp_minus_1)
  then have "(word_of_int (p AND 0xffff) :: u16) = word_of_int p" by (simp add: word_of_int_take_bit)
  also have "\<dots> = a * b" by (simp add: p_def mult.commute)
  finally have low: "(word_of_int (p AND 0xffff) :: u16) = a * b" .
  have "2147483648 \<le> p \<longleftrightarrow> 2147483648 \<le> m" "p \<le> 32767 \<longleftrightarrow> \<not> 32767 < m" "0 \<le> p"
    unfolding p by linarith+
  then show ?thesis
    using low unfolding IMUL_Gw_Ew_def DIMULW_def p_def [symmetric] m_def [symmetric]
    by (simp add: Let_def lazy_SET_CF_OF fits_def)
qed

section \<open>Decimal addition\<close>

definition bcd :: "nat \<Rightarrow> u8" where
  "bcd n = word_of_nat (16 * (n div 10) + n mod 10)"

lemma bcd_int: "bcd n = word_of_int (16 * (int n div 10) + int n mod 10)"
proof -
  have "bcd n = word_of_int (int (16 * (n div 10) + n mod 10))" unfolding bcd_def by (rule of_int_of_nat_eq [symmetric])
  then show ?thesis by (simp only: of_nat_add of_nat_mult of_nat_div of_nat_mod of_nat_numeral)
qed

definition daa_value :: "u8 \<Rightarrow> bool \<Rightarrow> bool \<Rightarrow> u8 \<times> bool" where
  "daa_value al af cf = (let hi = (al > 0x99 \<or> cf); lo = ((al AND 0x0F) > 9 \<or> af) in
     (al + (if hi then 0x60 else 0) + (if lo then 6 else 0), hi))"

text \<open>The adjustment on digits: \<open>h\<close> and \<open>l\<close> are the sums of the upper and the lower digits.\<close>

definition daa_digits :: "int \<Rightarrow> int \<Rightarrow> bool" where
  "daa_digits h l = (let t = 16 * h + l; a = t mod 256; hi = (153 < a \<or> 256 \<le> t); lo = (9 < a mod 16 \<or> 16 \<le> l); d = 10 * h + l in
     (a + (if hi then 96 else 0) + (if lo then 6 else 0)) mod 256 = 16 * ((d mod 100) div 10) + (d mod 100) mod 10
       \<and> hi = (100 \<le> d))"

lemma daa_digits_table: "list_all (\<lambda>h. list_all (daa_digits h) [0..19]) [0..18]"
  by code_simp

lemma daa_digits: "h \<le> 18 \<Longrightarrow> l \<le> 19 \<Longrightarrow> daa_digits (int h) (int l)"
  using daa_digits_table unfolding list_all_iff by simp

lemma uint_low_nibble: "uint (x AND 0x0F) = uint x mod 16" for x :: u8
proof -
  have "uint (x AND 0xf) = int (unat (x AND 0xf))" by (simp only: of_nat_unat)
  also have "\<dots> = int (unat x mod 16)" by (simp only: low_nibble_unat)
  also have "\<dots> = uint x mod 16" by (simp add: of_nat_mod)
  finally show ?thesis .
qed

lemma daa_value_digits:
  assumes "h \<le> 18" "l \<le> 19" "uint al = (16 * int h + int l) mod 256"
  shows "daa_value al (16 \<le> l) (256 \<le> 16 * h + l) = (bcd ((10 * h + l) mod 100), 100 \<le> 10 * h + l)"
proof -
  define hi lo where "hi = (153 < uint al \<or> 256 \<le> 16 * int h + int l)" and "lo = (9 < uint al mod 16 \<or> 16 \<le> int l)"
  have d: "(uint al + (if hi then 96 else 0) + (if lo then 6 else 0)) mod 256 =
      16 * ((10 * int h + int l) mod 100 div 10) + (10 * int h + int l) mod 100 mod 10" "hi = (100 \<le> 10 * int h + int l)"
    using daa_digits [OF assms(1,2)] unfolding daa_digits_def Let_def hi_def lo_def assms(3)
    by - (erule conjunct1, erule conjunct2)
  have n: "256 \<le> 16 * h + l \<longleftrightarrow> 256 \<le> 16 * int h + int l" "16 \<le> l \<longleftrightarrow> 16 \<le> int l" "100 \<le> 10 * h + l \<longleftrightarrow> 100 \<le> 10 * int h + int l"
    by linarith+
  have v: "daa_value al (16 \<le> l) (256 \<le> 16 * h + l) = (al + (if hi then 0x60 else 0) + (if lo then 6 else 0), hi)"
    unfolding n by (simp add: daa_value_def Let_def hi_def lo_def word_less_def uint_low_nibble)
  have "al + (if hi then 0x60 else 0) + (if lo then 6 else 0) = word_of_int (uint al + (if hi then 96 else 0) + (if lo then 6 else 0))"
    by simp
  also have "\<dots> = word_of_int (take_bit 8 (uint al + (if hi then 96 else 0) + (if lo then 6 else 0)))"
    by (simp only: word_of_int_take_bit len_num1 len_num0 len_bit0)
  also have "\<dots> = bcd ((10 * h + l) mod 100)"
  proof -
    have "take_bit 8 x = x mod 256" for x :: int by (simp add: take_bit_eq_mod)
    moreover have "int ((10 * h + l) mod 100) = (10 * int h + int l) mod 100" by (simp add: of_nat_mod)
    ultimately show ?thesis by (simp only: bcd_int d(1))
  qed
  finally show ?thesis using v d(2) n(3) by simp
qed

lemma set_al_frame:
  "lf_type (set_al v s) = lf_type s" "lf_var1 (set_al v s) = lf_var1 s" "lf_var2 (set_al v s) = lf_var2 s"
  "lf_res (set_al v s) = lf_res s" "lf_oldcf (set_al v s) = lf_oldcf s" "reg_flags (set_al v s) = reg_flags s"
  by (simp_all add: set_al_def)

lemma flags_set_al [simp]: "eager_flags (set_al v s) = eager_flags s" "lazy_flags (set_al v s) = lazy_flags s"
  by (simp_all only: eager_flags_def lazy_flags_def getter_defs GETFLAG_def lf_var2b_minus_one_def set_al_frame)

lemma DAA_value:
  "(reg_al (DAA s), fCF (lazy_flags (DAA s))) = daa_value (reg_al s) (fAF (lazy_flags s)) (fCF (lazy_flags s))"
  by (auto simp: DAA_def daa_value_def Let_def lazy_flags_unknown set_type_def lazy_flags_def [of s])

text \<open>\<open>ADC\<close> of two packed decimal bytes followed by \<open>DAA\<close> gives their decimal sum, with the decimal
  carry in the carry flag: the auxiliary and carry flags reach \<open>DAA\<close> through the lazy state.\<close>

theorem adc_daa_decimal:
  assumes "x < 100" "y < 100"
  shows "(case ADCB (bcd x) (bcd y) s of (r, t) \<Rightarrow>
     (let u = DAA (set_al r t); n = x + y + of_bool (fCF (lazy_flags s)) in
       reg_al u = bcd (n mod 100) \<and> fCF (lazy_flags u) = (100 \<le> n)))"
proof -
  define k where "k = fCF (lazy_flags s)"
  define h l where "h = x div 10 + y div 10" and "l = x mod 10 + y mod 10 + of_bool k"
  have b: "unat (bcd z) = 16 * (z div 10) + z mod 10" "unat (bcd z) mod 16 = z mod 10" if "z < 100" for z
  proof -
    have "16 * (z div 10) + z mod 10 < 256" using that by (simp add: less_mult_imp_div_less)
    then show "unat (bcd z) = 16 * (z div 10) + z mod 10" unfolding bcd_def unat_of_nat by simp
    then show "unat (bcd z) mod 16 = z mod 10" by simp
  qed
  have hl: "h \<le> 18" "l \<le> 19" "x + y + of_bool k = 10 * h + l" "unat (bcd x) + unat (bcd y) + of_bool k = 16 * h + l"
    using b(1) [OF assms(1)] b(1) [OF assms(2)] less_mult_imp_div_less [of x 10 10] less_mult_imp_div_less [of y 10 10] assms
    by (auto simp: h_def l_def)
  have f: "fAF (lazy_flags (snd (ADCB (bcd x) (bcd y) s))) = (16 \<le> l)" "fCF (lazy_flags (snd (ADCB (bcd x) (bcd y) s))) = (256 \<le> 16 * h + l)"
    using byte.adc_exact [of "bcd x" "bcd y" s] hl(4) b(2) [OF assms(1)] b(2) [OF assms(2)]
    by (simp_all add: x86_add_def Let_def k_def [symmetric] l_def)
  have "unat (bcd x + bcd y + of_bool k) = (16 * h + l) mod 256"
    using unat_adc_mod [of "bcd x" "bcd y" k] unfolding hl(4) by simp
  then have "int (unat (bcd x + bcd y + of_bool k)) = (16 * int h + int l) mod 256"
    by (simp only: of_nat_mod of_nat_add of_nat_mult of_nat_numeral)
  then have r: "uint (fst (ADCB (bcd x) (bcd y) s)) = (16 * int h + int l) mod 256"
    using byte.adc_exact [of "bcd x" "bcd y" s] by (simp only: of_nat_unat k_def [symmetric])
  show ?thesis
    using DAA_value [of "set_al (fst (ADCB (bcd x) (bcd y) s)) (snd (ADCB (bcd x) (bcd y) s))"]
      daa_value_digits [OF hl(1,2) r] f hl(3)
    by (simp add: split_def Let_def k_def [symmetric])
qed

theorem adc_daa_decimal_witness:
  "(47 :: nat) < 100 \<and> (58 :: nat) < 100 \<and> (case ADCB (bcd 47) (bcd 58) cpu0 of (r, t) \<Rightarrow>
     (let u = DAA (set_al r t); n = 47 + 58 + of_bool (fCF (lazy_flags cpu0)) in
       reg_al u = bcd (n mod 100) \<and> fCF (lazy_flags u) = (100 \<le> n)))"
  using adc_daa_decimal [of 47 58 cpu0] by linarith

end
