(* ===== verification/Pic.thy ===== *)
theory Pic
  imports Prelude
begin

text \<open>
  The two interrupt controllers of \<open>src/src/hardware/pic.cpp\<close>: the primary serves IRQ 0 to 7 and
  signals the CPU through \<open>PIC_IRQCheck\<close>, the secondary serves IRQ 8 to 15 and signals the
  primary as IRQ 2. A member function of \<open>PIC_Controller\<close> takes the controller it is called on
  (\<open>pic_id\<close>, the test \<open>this == &primary_controller\<close>). \<open>CPU_Cycles\<close> and \<open>CPU_CycleLeft\<close> are
  integers, without the overflow of \<open>int32_t\<close>. \<open>CPU_HW_Interrupt\<close>, which enters the handler on
  the emulated CPU, is recorded in the trace \<open>hw_interrupts\<close>; \<open>is_machine_pcjr\<close> and
  \<open>is_machine_ega_or_better\<close> are configuration.
\<close>

section \<open>State\<close>

record PIC_Controller =
  icw_words :: nat
  icw_index :: nat
  special :: bool
  auto_eoi :: bool
  rotate_on_auto_eoi :: bool
  single :: bool
  request_issr :: bool
  vector_base :: u8
  irr :: u8
  imr :: u8
  imrr :: u8
  isr :: u8
  isrr :: u8
  active_irq :: u8

datatype pic_id = Primary | Secondary

record pic_state =
  primary_controller :: PIC_Controller
  secondary_controller :: PIC_Controller
  PIC_IRQCheck :: u32
  PIC_Ticks :: u32
  CPU_Cycles :: int
  CPU_CycleLeft :: int
  hw_interrupts :: "u8 list"
  machine_pcjr :: bool

fun ctl :: "pic_id \<Rightarrow> pic_state \<Rightarrow> PIC_Controller" where
  "ctl Primary s = primary_controller s"
| "ctl Secondary s = secondary_controller s"

fun upd :: "pic_id \<Rightarrow> (PIC_Controller \<Rightarrow> PIC_Controller) \<Rightarrow> pic_state \<Rightarrow> pic_state" where
  "upd Primary f s = s\<lparr>primary_controller := f (primary_controller s)\<rparr>"
| "upd Secondary f s = s\<lparr>secondary_controller := f (secondary_controller s)\<rparr>"

section \<open>Priorities\<close>

text \<open>\<open>static_cast<uint8_t>(1 << val)\<close>.\<close>

definition irq_bit :: "nat \<Rightarrow> u8" where
  "irq_bit val = push_bit val 1"

text \<open>The loop \<open>for (i = 0, s = 1; i < max; i++, s <<= 1)\<close> that looks for the first set bit.\<close>

function scan_irq :: "nat \<Rightarrow> u8 \<Rightarrow> nat \<Rightarrow> u8 \<Rightarrow> nat option" where
  "scan_irq i s mx p =
     (if i < mx then if truth (p AND s) then Some i else scan_irq (i + 1) (push_bit 1 s) mx p else None)"
  by pat_completeness auto
termination by (relation "measure (\<lambda>(i, s, mx, p). mx - i)") auto

definition possible_irq :: "PIC_Controller \<Rightarrow> u8" where
  "possible_irq c = (irr c AND imrr c) AND isrr c"

definition a_irq :: "PIC_Controller \<Rightarrow> nat" where
  "a_irq c = (if special c then 8 else unat (active_irq c))"

definition update_active_irq :: "PIC_Controller \<Rightarrow> PIC_Controller" where
  "update_active_irq c =
     (if isr c = 0 then c\<lparr>active_irq := 8\<rparr>
      else case scan_irq 0 1 8 (isr c) of
          Some i \<Rightarrow> c\<lparr>active_irq := word_of_nat i\<rparr>
        | None \<Rightarrow> c)"

section \<open>Signals\<close>

definition activate_cpu :: "pic_state \<Rightarrow> pic_state" where
  "activate_cpu s = s\<lparr>PIC_IRQCheck := 1, CPU_CycleLeft := CPU_CycleLeft s + CPU_Cycles s, CPU_Cycles := 0\<rparr>"

text \<open>
  \<open>raise_irq\<close>, \<open>lower_irq\<close> and \<open>check_for_irq\<close> of one controller call \<open>activate\<close> and
  \<open>deactivate\<close>, which for the secondary call \<open>raise_irq\<close> and \<open>lower_irq\<close> of the primary.
\<close>

fun rank :: "pic_id \<Rightarrow> nat" where
  "rank Primary = 0"
| "rank Secondary = 1"

function (sequential) activate :: "pic_id \<Rightarrow> pic_state \<Rightarrow> pic_state"
  and raise_irq :: "pic_id \<Rightarrow> nat \<Rightarrow> pic_state \<Rightarrow> pic_state" where
  "activate Primary s = activate_cpu s"
| "activate Secondary s = raise_irq Primary 2 s"
| "raise_irq this val s =
     (let b = irq_bit val
      in if irr (ctl this s) AND b = 0
         then let s = upd this (\<lambda>c. c\<lparr>irr := irr c OR b\<rparr>) s;
                  c = ctl this s
              in if truth ((b AND imrr c) AND isrr c) \<and> (special c \<or> val < unat (active_irq c))
                 then activate this s else s
         else s)"
  by pat_completeness auto
termination by (relation "measure (\<lambda>x. case x of Inl (p, _) \<Rightarrow> 2 * rank p | Inr (p, _) \<Rightarrow> 2 * rank p + 1)") auto

function (sequential) deactivate :: "pic_id \<Rightarrow> pic_state \<Rightarrow> pic_state"
  and lower_irq :: "pic_id \<Rightarrow> nat \<Rightarrow> pic_state \<Rightarrow> pic_state"
  and check_for_irq :: "pic_id \<Rightarrow> pic_state \<Rightarrow> pic_state" where
  "deactivate Primary s = s\<lparr>PIC_IRQCheck := 0\<rparr>"
| "deactivate Secondary s = lower_irq Primary 2 s"
| "lower_irq this val s =
     (let b = irq_bit val
      in if truth (irr (ctl this s) AND b)
         then let s = upd this (\<lambda>c. c\<lparr>irr := irr c AND NOT b\<rparr>) s;
                  c = ctl this s
              in if truth ((b AND imrr c) AND isrr c) \<and> (special c \<or> val < unat (active_irq c))
                 then check_for_irq this s else s
         else s)"
| "check_for_irq this s =
     (let c = ctl this s
      in if truth (possible_irq c)
         then case scan_irq 0 1 (a_irq c) (possible_irq c) of
             Some i \<Rightarrow> activate this s
           | None \<Rightarrow> deactivate this s
         else deactivate this s)"
  by pat_completeness auto
termination by (relation "measure (\<lambda>x. case x of Inl (p, _) \<Rightarrow> 3 * rank p
    | Inr (Inl (p, _)) \<Rightarrow> 3 * rank p + 2 | Inr (Inr (p, _)) \<Rightarrow> 3 * rank p + 1)") auto


definition check_after_EOI :: "pic_id \<Rightarrow> pic_state \<Rightarrow> pic_state" where
  "check_after_EOI this s =
     (let s = upd this update_active_irq s
      in if truth (possible_irq (ctl this s)) then check_for_irq this s else s)"

definition set_imr :: "pic_id \<Rightarrow> u8 \<Rightarrow> pic_state \<Rightarrow> pic_state" where
  "set_imr this val s =
     (let val = (if machine_pcjr s \<and> this = Primary then val AND NOT (irq_bit 6) else val);
          change = imr (ctl this s) XOR val;
          s = upd this (\<lambda>c. c\<lparr>imr := val, imrr := NOT val\<rparr>) s;
          c = ctl this s
      in if truth ((irr c AND change) AND isrr c) then check_for_irq this s else s)"

definition start_irq :: "nat \<Rightarrow> PIC_Controller \<Rightarrow> PIC_Controller" where
  "start_irq val c =
     (let c = c\<lparr>irr := irr c AND NOT (irq_bit val)\<rparr>
      in if \<not> auto_eoi c
         then let c = c\<lparr>active_irq := word_of_nat val, isr := isr c OR irq_bit val\<rparr>
              in c\<lparr>isrr := NOT (isr c)\<rparr>
         else c)"

section \<open>Ports\<close>

text \<open>
  A write to the command port. \<open>None\<close> is the specific EOI with the rotate bit (values 0xe0 to
  0xe7): the code shifts by \<open>val - 0x60\<close>, at least 128 places, which is undefined.
\<close>

definition write_command :: "nat \<Rightarrow> u8 \<Rightarrow> pic_state \<Rightarrow> pic_state option" where
  "write_command port val s =
     (let this = (if port = 0x20 then Primary else Secondary)
      in if truth (val AND 0x10)
         then let s = set_imr this 0 s;
                  s = upd this (\<lambda>c. c\<lparr>single := (val AND 0x02 = 0x02)\<rparr>) s;
                  s = upd this (\<lambda>c. c\<lparr>icw_index := 1\<rparr>) s;
                  s = upd this (\<lambda>c. c\<lparr>icw_words := 2 + unat (val AND 0x01)\<rparr>) s
              in Some s
         else if truth (val AND 0x08)
         then let s = (if truth (val AND 0x02)
                       then upd this (\<lambda>c. c\<lparr>request_issr := truth (val AND 0x01)\<rparr>) s else s);
                  s = (if truth (val AND 0x40)
                       then check_for_irq this (upd this (\<lambda>c. c\<lparr>special := truth (val AND 0x20)\<rparr>) s) else s)
              in Some s
         else if truth (val AND 0x20)
         then if truth (val AND 0x40)
              then if unat (val - 0x60) \<ge> 32 then None
                   else let s = upd this (\<lambda>c. c\<lparr>isr := isr c AND NOT (irq_bit (unat (val - 0x60)))\<rparr>) s;
                            s = upd this (\<lambda>c. c\<lparr>isrr := NOT (isr c)\<rparr>) s
                        in Some (check_after_EOI this s)
              else if active_irq (ctl this s) \<noteq> 8
              then let s = upd this (\<lambda>c. c\<lparr>isr := isr c AND NOT (irq_bit (unat (active_irq c)))\<rparr>) s;
                       s = upd this (\<lambda>c. c\<lparr>isrr := NOT (isr c)\<rparr>) s
                   in Some (check_after_EOI this s)
              else Some s
         else if val AND 0x40 = 0
         then Some (upd this (\<lambda>c. c\<lparr>rotate_on_auto_eoi := truth (val AND 0x80)\<rparr>) s)
         else Some s)"

text \<open>\<open>if (pic->icw_index++ >= pic->icw_words) pic->icw_index = 0;\<close> with the branch that follows.\<close>

definition next_icw :: "(PIC_Controller \<Rightarrow> PIC_Controller) \<Rightarrow> PIC_Controller \<Rightarrow> PIC_Controller" where
  "next_icw else_branch c =
     (let old = icw_index c; c = c\<lparr>icw_index := old + 1\<rparr>
      in if old \<ge> icw_words c then c\<lparr>icw_index := 0\<rparr> else else_branch c)"

definition write_data :: "nat \<Rightarrow> u8 \<Rightarrow> pic_state \<Rightarrow> pic_state" where
  "write_data port val s =
     (let this = (if port = 0x21 then Primary else Secondary); c = ctl this s
      in if icw_index c = 0 then set_imr this val s
         else if icw_index c = 1
         then let s = upd this (\<lambda>c. c\<lparr>vector_base := val AND 0xf8\<rparr>) s
              in upd this (next_icw (\<lambda>c. if single c then c\<lparr>icw_index := 3\<rparr> else c)) s
         else if icw_index c = 2 then upd this (next_icw id) s
         else if icw_index c = 3
         then let s = upd this (\<lambda>c. c\<lparr>auto_eoi := (val AND 0x2 > 0)\<rparr>) s
              in upd this (next_icw id) s
         else s)"

definition read_command :: "nat \<Rightarrow> pic_state \<Rightarrow> u8" where
  "read_command port s =
     (let c = ctl (if port = 0x20 then Primary else Secondary) s
      in if request_issr c then isr c else irr c)"

definition read_data :: "nat \<Rightarrow> pic_state \<Rightarrow> u8" where
  "read_data port s = imr (ctl (if port = 0x21 then Primary else Secondary) s)"

section \<open>Requests from devices\<close>

definition pic_of :: "nat \<Rightarrow> pic_id" where
  "pic_of irq = (if irq > 7 then Secondary else Primary)"

definition line_of :: "nat \<Rightarrow> nat" where
  "line_of irq = (if irq > 7 then irq - 8 else irq)"

definition PIC_ActivateIRQ :: "nat \<Rightarrow> pic_state \<Rightarrow> pic_state" where
  "PIC_ActivateIRQ irq s =
     (let t = line_of irq; pic = pic_of irq; OldCycles = CPU_Cycles s;
          s = raise_irq pic t s
      in if OldCycles \<noteq> CPU_Cycles s
         then s\<lparr>CPU_CycleLeft := CPU_CycleLeft s - 2, CPU_Cycles := 2\<rparr> else s)"

definition PIC_DeActivateIRQ :: "nat \<Rightarrow> pic_state \<Rightarrow> pic_state" where
  "PIC_DeActivateIRQ irq s = lower_irq (pic_of irq) (line_of irq) s"

definition PIC_SetIRQMask :: "nat \<Rightarrow> bool \<Rightarrow> pic_state \<Rightarrow> pic_state" where
  "PIC_SetIRQMask irq masked s =
     (let t = line_of irq; pic = pic_of irq;
          b = irq_bit t;
          newmask = imr (ctl pic s);
          newmask = newmask AND NOT b;
          newmask = (if masked then newmask OR b else newmask)
      in set_imr pic newmask s)"

section \<open>Delivery to the CPU\<close>

definition CPU_HW_Interrupt :: "u8 \<Rightarrow> pic_state \<Rightarrow> pic_state" where
  "CPU_HW_Interrupt n s = s\<lparr>hw_interrupts := hw_interrupts s @ [n]\<rparr>"

definition secondary_startIRQ :: "pic_state \<Rightarrow> pic_state" where
  "secondary_startIRQ s =
     (let c = secondary_controller s
      in case scan_irq 0 1 (a_irq c) (possible_irq c) of
          None \<Rightarrow> s
        | Some pic1_irq \<Rightarrow>
            let s = upd Secondary (start_irq pic1_irq) s;
                s = upd Primary (start_irq 2) s
            in CPU_HW_Interrupt (vector_base (secondary_controller s) + word_of_nat pic1_irq) s)"

definition primary_startIRQ :: "nat \<Rightarrow> pic_state \<Rightarrow> pic_state" where
  "primary_startIRQ i s =
     (let s = upd Primary (start_irq i) s
      in CPU_HW_Interrupt (vector_base (primary_controller s) + word_of_nat i) s)"

text \<open>\<open>IF\<close> is the interrupt flag of the CPU and \<open>trap_run\<close> whether the trap decoder is active.\<close>

definition PIC_runIRQs :: "bool \<Rightarrow> bool \<Rightarrow> pic_state \<Rightarrow> pic_state" where
  "PIC_runIRQs IF trap_run s =
     (if \<not> IF then s
      else if PIC_IRQCheck s = 0 then s
      else if trap_run then s
      else let c = primary_controller s;
               s = (case scan_irq 0 1 (a_irq c) (possible_irq c) of
                     None \<Rightarrow> s
                   | Some i \<Rightarrow> if i = 2 then secondary_startIRQ s else primary_startIRQ i s)
           in s\<lparr>PIC_IRQCheck := 0\<rparr>)"

section \<open>Power-on state\<close>

definition initial_controller :: "u8 \<Rightarrow> PIC_Controller" where
  "initial_controller base =
     \<lparr>icw_words = 0, icw_index = 0, special = False, auto_eoi = False, rotate_on_auto_eoi = False,
      single = False, request_issr = False, vector_base = base, irr = 0, imr = 0xff, imrr = 0,
      isr = 0, isrr = 0xff, active_irq = 8\<rparr>"

definition PIC_8259A :: "bool \<Rightarrow> bool \<Rightarrow> pic_state" where
  "PIC_8259A pcjr ega_or_better =
     (let s = \<lparr>primary_controller = initial_controller 0x08, secondary_controller = initial_controller 0x70,
               PIC_IRQCheck = 0, PIC_Ticks = 0, CPU_Cycles = 0, CPU_CycleLeft = 0, hw_interrupts = [],
               machine_pcjr = pcjr\<rparr>;
          s = PIC_SetIRQMask 0 False s;
          s = PIC_SetIRQMask 1 False s;
          s = PIC_SetIRQMask 2 False s;
          s = PIC_SetIRQMask 8 False s;
          s = (if ega_or_better then PIC_DeActivateIRQ 9 (PIC_SetIRQMask 9 False s) else s)
      in if pcjr then PIC_SetIRQMask 6 False s else s)"

end
