(* ===== verification/Pic_Correct.thy ===== *)
theory Pic_Correct
  imports Pic
begin

text \<open>
  The invariant of the interrupt controllers and its preservation by the signals, the mask writes,
  the end-of-interrupt commands and the delivery: \<open>nested\<close> describes one controller, \<open>pending\<close>
  whether it has a request it would deliver now, and \<open>irq_inv\<close> says that the two signals
  (\<open>PIC_IRQCheck\<close> to the CPU, IRQ 2 to the primary) agree with what is pending.
\<close>

section \<open>The priority scan\<close>

declare scan_irq.simps [simp del]

lemma scan_from:
  "mx \<le> 8 \<Longrightarrow> i \<le> mx \<Longrightarrow> (scan_irq i (push_bit i 1) mx p = Some k \<longleftrightarrow> i \<le> k \<and> k < mx \<and> bit p k \<and> (\<forall>j. i \<le> j \<and> j < k \<longrightarrow> \<not> bit p j)) \<and>
     (scan_irq i (push_bit i 1) mx p = None \<longleftrightarrow> (\<forall>j. i \<le> j \<and> j < mx \<longrightarrow> \<not> bit p j))"
proof (induction "mx - i" arbitrary: i)
  case 0
  then show ?case by (auto simp: scan_irq.simps)
next
  case (Suc n)
  then have i: "i < mx" by simp
  have t: "truth (p AND push_bit i 1) \<longleftrightarrow> bit p i"
    using and_power_two_truth [of p i] by (simp add: push_bit_eq_mult)
  have s: "push_bit (Suc 0) (push_bit i 1) = (push_bit (i + 1) 1 :: u8)" by (simp add: add.commute)
  have step: "scan_irq i (push_bit i 1) mx p = (if bit p i then Some i else scan_irq (i + 1) (push_bit (i + 1) 1) mx p)"
    using i t s by (subst scan_irq.simps) (simp del: push_bit_Suc scan_irq.simps)
  have "n = mx - (i + 1)" "i + 1 \<le> mx" using Suc.hyps(2) i by simp_all
  note IH = Suc.hyps(1) [OF this(1) Suc.prems(1) this(2)]
  have le: "i \<le> j \<longleftrightarrow> j = i \<or> i + 1 \<le> j" for j by auto
  show ?case
  proof (cases "bit p i")
    case True
    then show ?thesis unfolding step using i by (auto simp: le_less)
  next
    case False
    then show ?thesis unfolding step le using IH by (simp only: if_False) blast
  qed
qed

lemma scan_Some:
  "mx \<le> 8 \<Longrightarrow> scan_irq 0 1 mx p = Some k \<longleftrightarrow> k < mx \<and> bit p k \<and> (\<forall>j < k. \<not> bit p j)"
  using scan_from [of mx 0 p k] by simp

lemma scan_None: "mx \<le> 8 \<Longrightarrow> scan_irq 0 1 mx p = None \<longleftrightarrow> (\<forall>j < mx. \<not> bit p j)"
  using scan_from [of mx 0 p] by simp

lemma truth_bits8: "truth p \<longleftrightarrow> (\<exists>i < 8. bit p i)" for p :: u8
proof
  assume "truth p"
  then obtain i where "bit p i" by (auto simp: truth_def bit_eq_iff)
  then show "\<exists>i < 8. bit p i" using bit_imp_le_length [of p i] by auto
qed (auto simp: truth_def)

lemma bit_possible: "bit (possible_irq c) i \<longleftrightarrow> bit (irr c) i \<and> bit (imrr c) i \<and> bit (isrr c) i"
  by (auto simp: possible_irq_def bit_simps)

section \<open>The invariant\<close>

text \<open>
  A controller in the fully nested mode without automatic EOI, which is how DOS and the BIOS run
  it: the reversed registers mirror the plain ones and \<open>active_irq\<close> is the highest-priority
  request in service.
\<close>

definition nested :: "PIC_Controller \<Rightarrow> bool" where
  "nested c \<longleftrightarrow> imrr c = NOT (imr c) \<and> isrr c = NOT (isr c) \<and> \<not> special c \<and> \<not> auto_eoi c \<and>
     unat (active_irq c) \<le> 8 \<and> (\<forall>j < unat (active_irq c). \<not> bit (isr c) j) \<and>
     (unat (active_irq c) < 8 \<longrightarrow> bit (isr c) (unat (active_irq c)))"

definition pending :: "PIC_Controller \<Rightarrow> bool" where
  "pending c \<longleftrightarrow> (\<exists>i < a_irq c. bit (possible_irq c) i)"

definition primary_ok :: "pic_state \<Rightarrow> bool" where
  "primary_ok s \<longleftrightarrow> nested (primary_controller s) \<and> (truth (PIC_IRQCheck s) \<longleftrightarrow> pending (primary_controller s))"

definition irq_inv :: "pic_state \<Rightarrow> bool" where
  "irq_inv s \<longleftrightarrow> primary_ok s \<and> nested (secondary_controller s) \<and>
     (bit (irr (primary_controller s)) 2 \<longleftrightarrow> pending (secondary_controller s))"

lemma nested_a_irq: "nested c \<Longrightarrow> a_irq c = unat (active_irq c) \<and> a_irq c \<le> 8"
  by (simp add: nested_def a_irq_def)

lemma pending_scan: "nested c \<Longrightarrow> pending c \<longleftrightarrow> (\<exists>i. scan_irq 0 1 (a_irq c) (possible_irq c) = Some i)"
  using nested_a_irq [of c] scan_None [of "a_irq c" "possible_irq c"] by (auto simp: pending_def)

lemma pending_truth: "nested c \<Longrightarrow> pending c \<Longrightarrow> truth (possible_irq c)"
  using nested_a_irq [of c] unfolding pending_def truth_bits8 by (meson less_le_trans)

text \<open>Setting and clearing a request changes what is pending by that request only.\<close>

definition deliverable :: "nat \<Rightarrow> PIC_Controller \<Rightarrow> bool" where
  "deliverable v c \<longleftrightarrow> bit (imrr c) v \<and> bit (isrr c) v \<and> v < a_irq c"

lemma pending_irr: "pending c \<longleftrightarrow> (\<exists>v. bit (irr c) v \<and> deliverable v c)"
  by (auto simp: pending_def deliverable_def bit_possible)

lemma bit_irq_bit: "bit (irq_bit v) i \<longleftrightarrow> v = i \<and> i < 8"
  by (auto simp: irq_bit_def bit_simps)

lemma truth_line: "v < 8 \<Longrightarrow> truth (w AND irq_bit v) \<longleftrightarrow> bit w v" for w :: u8
  by (auto simp: truth_bits8 bit_and_iff bit_irq_bit)

lemma request_enabled:
  "v < 8 \<Longrightarrow> nested c \<Longrightarrow> truth ((irq_bit v AND imrr c) AND isrr c) \<and> (special c \<or> v < unat (active_irq c)) \<longleftrightarrow> deliverable v c"
  by (auto simp: truth_bits8 bit_and_iff bit_irq_bit deliverable_def nested_def a_irq_def)

lemma deliverable_irr [simp]: "deliverable v (c\<lparr>irr := x\<rparr>) = deliverable v c"
  by (simp add: deliverable_def a_irq_def)

lemma nested_irr [simp]: "nested (c\<lparr>irr := x\<rparr>) = nested c"
  by (simp add: nested_def)

lemma truth_zero_iff: "w AND irq_bit v = 0 \<longleftrightarrow> \<not> truth (w AND irq_bit v)" for w :: u8
  by (simp add: truth_def)

section \<open>The primary controller\<close>

lemma or_bit_set: "v < 8 \<Longrightarrow> bit w v \<Longrightarrow> w OR irq_bit v = w" for w :: u8
  by (rule bit_word_eqI) (auto simp: bit_or_iff bit_irq_bit)

lemma and_bit_clear: "v < 8 \<Longrightarrow> \<not> bit w v \<Longrightarrow> w AND NOT (irq_bit v) = w" for w :: u8
  by (rule bit_word_eqI) (auto simp: bit_and_iff bit_not_iff bit_irq_bit)

lemma raise_eq:
  assumes "nested (ctl this s)" "v < 8"
  shows "raise_irq this v s = (let t = upd this (\<lambda>c. c\<lparr>irr := irr c OR irq_bit v\<rparr>) s in
     if \<not> bit (irr (ctl this s)) v \<and> deliverable v (ctl this s) then activate this t else t)"
proof (cases this)
  case Primary
  then show ?thesis using assms
    by (simp add: Let_def truth_line truth_zero_iff request_enabled or_bit_set)
next
  case Secondary
  then show ?thesis using assms
    by (simp add: Let_def truth_line truth_zero_iff request_enabled or_bit_set)
qed

lemma raise_primary:
  assumes "primary_ok s" "v < 8"
  shows "primary_ok (raise_irq Primary v s)"
    "primary_controller (raise_irq Primary v s) = (primary_controller s)\<lparr>irr := irr (primary_controller s) OR irq_bit v\<rparr>"
    "secondary_controller (raise_irq Primary v s) = secondary_controller s"
    "hw_interrupts (raise_irq Primary v s) = hw_interrupts s"
    "machine_pcjr (raise_irq Primary v s) = machine_pcjr s"
proof -
  have n: "nested (ctl Primary s)" using assms by (simp add: primary_ok_def)
  show "primary_ok (raise_irq Primary v s)"
    using assms unfolding raise_eq [OF n assms(2)]
    by (auto simp: Let_def primary_ok_def activate_cpu_def pending_irr bit_or_iff bit_irq_bit)
  show "primary_controller (raise_irq Primary v s) = (primary_controller s)\<lparr>irr := irr (primary_controller s) OR irq_bit v\<rparr>"
    "secondary_controller (raise_irq Primary v s) = secondary_controller s"
    "hw_interrupts (raise_irq Primary v s) = hw_interrupts s"
    "machine_pcjr (raise_irq Primary v s) = machine_pcjr s"
    unfolding raise_eq [OF n assms(2)] by (simp_all add: Let_def activate_cpu_def)
qed

lemma check_eq:
  assumes "nested (ctl this s)"
  shows "check_for_irq this s = (if pending (ctl this s) then activate this s else deactivate this s)"
  using assms pending_scan [OF assms] pending_truth [OF assms]
  by (subst check_for_irq.simps) (auto simp: Let_def simp del: check_for_irq.simps split: option.split)

declare check_for_irq.simps [simp del]

lemma check_primary:
  assumes "nested (primary_controller s)"
  shows "primary_ok (check_for_irq Primary s)"
    "primary_controller (check_for_irq Primary s) = primary_controller s"
    "secondary_controller (check_for_irq Primary s) = secondary_controller s"
    "hw_interrupts (check_for_irq Primary s) = hw_interrupts s"
    "machine_pcjr (check_for_irq Primary s) = machine_pcjr s"
  using assms check_eq [of Primary s] by (simp_all add: primary_ok_def activate_cpu_def)

lemma pending_clear:
  assumes "\<not> (bit (irr c) v \<and> deliverable v c)"
  shows "pending (c\<lparr>irr := irr c AND NOT (irq_bit v)\<rparr>) = pending c"
proof -
  have "bit (irr c AND NOT (irq_bit v)) w \<longleftrightarrow> bit (irr c) w \<and> w \<noteq> v" for w
    using bit_imp_le_length [of "irr c" w] by (auto simp: bit_and_iff bit_not_iff bit_irq_bit)
  then show ?thesis using assms by (auto simp: pending_irr)
qed

lemma pending_set:
  assumes "v < 8" "\<not> (\<not> bit (irr c) v \<and> deliverable v c)"
  shows "pending (c\<lparr>irr := irr c OR irq_bit v\<rparr>) = pending c"
  using assms by (auto simp: pending_irr bit_or_iff bit_irq_bit)

lemma lower_eq:
  assumes "nested (ctl this s)" "v < 8"
  shows "lower_irq this v s = (let t = upd this (\<lambda>c. c\<lparr>irr := irr c AND NOT (irq_bit v)\<rparr>) s in
     if bit (irr (ctl this s)) v \<and> deliverable v (ctl this s) then check_for_irq this t else t)"
  using assms
  by (cases this) (simp_all add: Let_def truth_line request_enabled and_bit_clear)

declare raise_irq.simps [simp del] lower_irq.simps [simp del]

lemma lower_primary:
  assumes "primary_ok s" "v < 8"
  shows "primary_ok (lower_irq Primary v s)"
    "primary_controller (lower_irq Primary v s) = (primary_controller s)\<lparr>irr := irr (primary_controller s) AND NOT (irq_bit v)\<rparr>"
    "secondary_controller (lower_irq Primary v s) = secondary_controller s"
    "hw_interrupts (lower_irq Primary v s) = hw_interrupts s"
    "machine_pcjr (lower_irq Primary v s) = machine_pcjr s"
proof -
  have n: "nested (ctl Primary s)" using assms by (simp add: primary_ok_def)
  let ?t = "upd Primary (\<lambda>c. c\<lparr>irr := irr c AND NOT (irq_bit v)\<rparr>) s"
  have t: "nested (primary_controller ?t)" using n by simp
  show "primary_ok (lower_irq Primary v s)"
  proof (cases "bit (irr (ctl Primary s)) v \<and> deliverable v (ctl Primary s)")
    case True
    then show ?thesis using check_primary(1) [OF t] unfolding lower_eq [OF n assms(2)] by simp
  next
    case False
    then show ?thesis using assms pending_clear [of "primary_controller s" v] unfolding lower_eq [OF n assms(2)]
      by (auto simp: primary_ok_def)
  qed
  show "primary_controller (lower_irq Primary v s) = (primary_controller s)\<lparr>irr := irr (primary_controller s) AND NOT (irq_bit v)\<rparr>"
    "secondary_controller (lower_irq Primary v s) = secondary_controller s"
    "hw_interrupts (lower_irq Primary v s) = hw_interrupts s"
    "machine_pcjr (lower_irq Primary v s) = machine_pcjr s"
    using check_primary [OF t] unfolding lower_eq [OF n assms(2)] by (simp_all add: Let_def)
qed

section \<open>The secondary controller\<close>

text \<open>Signalling the primary moves its IRQ 2 request and nothing else.\<close>

lemma activate_secondary:
  assumes "primary_ok s"
  shows "primary_ok (activate Secondary s)" "bit (irr (primary_controller (activate Secondary s))) 2"
    "secondary_controller (activate Secondary s) = secondary_controller s"
    "hw_interrupts (activate Secondary s) = hw_interrupts s"
  using raise_primary [OF assms, of 2] by (simp_all add: bit_or_iff bit_irq_bit)

lemma deactivate_secondary:
  assumes "primary_ok s"
  shows "primary_ok (deactivate Secondary s)" "\<not> bit (irr (primary_controller (deactivate Secondary s))) 2"
    "secondary_controller (deactivate Secondary s) = secondary_controller s"
    "hw_interrupts (deactivate Secondary s) = hw_interrupts s"
  using lower_primary [OF assms, of 2] by (simp_all add: bit_and_iff bit_not_iff bit_irq_bit)

lemma check_secondary:
  assumes "primary_ok s" "nested (secondary_controller s)"
  shows "irq_inv (check_for_irq Secondary s)" "hw_interrupts (check_for_irq Secondary s) = hw_interrupts s"
  using assms activate_secondary [OF assms(1)] deactivate_secondary [OF assms(1)] check_eq [of Secondary s]
  by (auto simp: irq_inv_def)

lemma primary_ok_secondary [simp]: "primary_ok (s\<lparr>secondary_controller := c\<rparr>) = primary_ok s"
  by (simp add: primary_ok_def)

lemma irq_inv_frame:
  assumes "irq_inv s" "primary_ok t" "nested (secondary_controller t)"
    "bit (irr (primary_controller t)) 2 \<longleftrightarrow> bit (irr (primary_controller s)) 2"
    "pending (secondary_controller t) \<longleftrightarrow> pending (secondary_controller s)"
  shows "irq_inv t"
  using assms by (simp add: irq_inv_def)

lemma raise_irq_inv:
  assumes "irq_inv s" "v < 8" "this = Primary \<Longrightarrow> v \<noteq> 2"
  shows "irq_inv (raise_irq this v s)"
proof (cases this)
  case Primary
  then show ?thesis
    using assms raise_primary [of s v] by (auto simp: irq_inv_def bit_or_iff bit_irq_bit)
next
  case Secondary
  have n: "nested (ctl Secondary s)" and p: "primary_ok s" using assms(1) by (simp_all add: irq_inv_def)
  let ?t = "upd Secondary (\<lambda>c. c\<lparr>irr := irr c OR irq_bit v\<rparr>) s"
  have t: "primary_ok ?t" using p by simp
  show ?thesis
    using assms(1,2) n activate_secondary [OF t] unfolding Secondary raise_eq [OF n assms(2)]
    by (auto simp: Let_def irq_inv_def pending_irr bit_or_iff bit_irq_bit)
qed

lemma lower_irq_inv:
  assumes "irq_inv s" "v < 8" "this = Primary \<Longrightarrow> v \<noteq> 2"
  shows "irq_inv (lower_irq this v s)"
proof (cases this)
  case Primary
  then show ?thesis
    using assms lower_primary [of s v] by (auto simp: irq_inv_def bit_and_iff bit_not_iff bit_irq_bit)
next
  case Secondary
  have n: "nested (ctl Secondary s)" and p: "primary_ok s" using assms(1) by (simp_all add: irq_inv_def)
  let ?t = "upd Secondary (\<lambda>c. c\<lparr>irr := irr c AND NOT (irq_bit v)\<rparr>) s"
  have t: "primary_ok ?t" "nested (secondary_controller ?t)" using p n by simp_all
  show ?thesis
  proof (cases "bit (irr (secondary_controller s)) v \<and> deliverable v (secondary_controller s)")
    case True
    then show ?thesis using check_secondary(1) [OF t] unfolding Secondary lower_eq [OF n assms(2)] by simp
  next
    case False
    then show ?thesis using assms(1) pending_clear [of "secondary_controller s" v]
      unfolding Secondary lower_eq [OF n assms(2)] by (auto simp: irq_inv_def)
  qed
qed

section \<open>Masks\<close>

text \<open>
  The shape of mask writes and EOIs: change registers other than the requests, and look for
  deliverable requests when the change may matter.
\<close>

lemma recheck_inv:
  assumes "irq_inv s" "nested (f (ctl this s))" "irr (f (ctl this s)) = irr (ctl this s)"
    "\<not> B \<Longrightarrow> pending (f (ctl this s)) = pending (ctl this s)"
  shows "irq_inv (if B then check_for_irq this (upd this f s) else upd this f s)"
proof (cases this)
  case Primary
  then have "nested (primary_controller (upd Primary f s))" using assms(2) by simp
  note c = check_primary [OF this]
  show ?thesis
  proof (cases B)
    case True
    then show ?thesis using c assms(1,3) Primary by (simp add: irq_inv_def)
  next
    case False
    then show ?thesis using assms Primary by (simp add: irq_inv_def primary_ok_def)
  qed
next
  case Secondary
  then have t: "primary_ok (upd Secondary f s)" "nested (secondary_controller (upd Secondary f s))"
    using assms(1,2) by (simp_all add: irq_inv_def)
  then show ?thesis using check_secondary(1) [OF t] assms Secondary by (simp add: irq_inv_def)
qed

lemma nested_imr: "nested c \<Longrightarrow> nested (c\<lparr>imr := m, imrr := NOT m\<rparr>)"
  by (simp add: nested_def)

lemma pending_imr:
  assumes "nested c" "\<not> truth ((irr c AND (imr c XOR m)) AND isrr c)"
  shows "pending (c\<lparr>imr := m, imrr := NOT m\<rparr>) = pending c"
proof -
  have "bit (irr c) i \<and> bit (isrr c) i \<Longrightarrow> bit (imr c) i = bit m i" if "i < 8" for i
    using assms(2) that by (auto simp: truth_bits8 bit_simps)
  then have "bit (possible_irq (c\<lparr>imr := m, imrr := NOT m\<rparr>)) i = bit (possible_irq c) i" if "i < 8" for i
    using assms(1) that by (auto simp: bit_possible nested_def bit_simps)
  moreover have "a_irq (c\<lparr>imr := m, imrr := NOT m\<rparr>) = a_irq c" by (simp add: a_irq_def)
  ultimately show ?thesis
    using nested_a_irq [OF assms(1)] unfolding pending_def by (metis less_le_trans)
qed

lemma inv_nested: "irq_inv s \<Longrightarrow> nested (ctl this s)"
  by (cases this) (simp_all add: irq_inv_def primary_ok_def)

lemma set_imr_inv:
  assumes "irq_inv s"
  shows "irq_inv (set_imr this val s)"
proof -
  define m where "m = (if machine_pcjr s \<and> this = Primary then val AND NOT (irq_bit 6) else val)"
  let ?c = "ctl this s"
  have regs: "irr (ctl this (upd this (\<lambda>c. c\<lparr>imr := m, imrr := NOT m\<rparr>) s)) = irr ?c"
    "isrr (ctl this (upd this (\<lambda>c. c\<lparr>imr := m, imrr := NOT m\<rparr>) s)) = isrr ?c"
    by (cases this; simp)+
  show ?thesis
    unfolding set_imr_def Let_def m_def [symmetric] regs
    using nested_imr [OF inv_nested [OF assms]] pending_imr [OF inv_nested [OF assms]]
    by (intro recheck_inv [OF assms]) simp_all
qed

section \<open>End of interrupt\<close>

definition eoi :: "nat \<Rightarrow> PIC_Controller \<Rightarrow> PIC_Controller" where
  "eoi k c = (let c = c\<lparr>isr := isr c AND NOT (irq_bit k)\<rparr>; c = c\<lparr>isrr := NOT (isr c)\<rparr> in update_active_irq c)"

lemma update_active_regs [simp]:
  "irr (update_active_irq c) = irr c" "imrr (update_active_irq c) = imrr c" "imr (update_active_irq c) = imr c"
  "isr (update_active_irq c) = isr c" "isrr (update_active_irq c) = isrr c"
  "special (update_active_irq c) = special c" "auto_eoi (update_active_irq c) = auto_eoi c"
  by (simp_all add: update_active_irq_def split: option.split)

lemma eoi_regs [simp]:
  "irr (eoi k c) = irr c" "imrr (eoi k c) = imrr c" "imr (eoi k c) = imr c" "isr (eoi k c) = isr c AND NOT (irq_bit k)"
  "isrr (eoi k c) = NOT (isr c AND NOT (irq_bit k))" "special (eoi k c) = special c" "auto_eoi (eoi k c) = auto_eoi c"
  by (simp_all add: eoi_def Let_def)

lemma update_active_nested:
  assumes "imrr c = NOT (imr c)" "isrr c = NOT (isr c)" "\<not> special c" "\<not> auto_eoi c"
  shows "nested (update_active_irq c)"
proof (cases "isr c = 0")
  case True
  then show ?thesis using assms by (simp add: update_active_irq_def nested_def)
next
  case False
  then have "truth (isr c)" by (simp add: truth_def)
  then obtain i where i: "scan_irq 0 1 8 (isr c) = Some i"
    using scan_None [of 8 "isr c"] by (auto simp: truth_bits8)
  then have k: "i < 8" "bit (isr c) i" "\<forall>j < i. \<not> bit (isr c) j" using scan_Some [of 8 "isr c" i] by simp_all
  then have "unat (word_of_nat i :: u8) = i" by (simp add: unat_of_nat)
  then show ?thesis using assms False i k by (simp add: update_active_irq_def nested_def)
qed

lemma nested_eoi: "nested c \<Longrightarrow> nested (eoi k c)"
  unfolding eoi_def Let_def by (rule update_active_nested) (simp_all add: nested_def)

lemma possible_eoi: "nested c \<Longrightarrow> truth (possible_irq c) \<Longrightarrow> truth (possible_irq (eoi k c))"
  by (auto simp: truth_bits8 bit_possible nested_def bit_simps)

lemma eoi_inv:
  assumes "irq_inv s"
  shows "irq_inv (if truth (possible_irq (ctl this (upd this (eoi k) s))) then check_for_irq this (upd this (eoi k) s)
     else upd this (eoi k) s)"
proof (rule recheck_inv [OF assms])
  show "nested (eoi k (ctl this s))" using nested_eoi [OF inv_nested [OF assms]] .
  have "ctl this (upd this (eoi k) s) = eoi k (ctl this s)" by (cases this) simp_all
  then show "pending (eoi k (ctl this s)) = pending (ctl this s)" if "\<not> truth (possible_irq (ctl this (upd this (eoi k) s)))"
    using that possible_eoi [OF inv_nested [OF assms]] pending_truth [OF inv_nested [OF assms]]
      pending_truth [OF nested_eoi [OF inv_nested [OF assms]]] by metis
qed simp

lemma check_after_EOI_eq:
  "check_after_EOI this (upd this (\<lambda>c. c\<lparr>isrr := NOT (isr c)\<rparr>) (upd this (\<lambda>c. c\<lparr>isr := isr c AND NOT (irq_bit (f c))\<rparr>) s))
    = (let t = upd this (eoi (f (ctl this s))) s in if truth (possible_irq (ctl this t)) then check_for_irq this t else t)"
  by (cases this) (simp_all add: check_after_EOI_def eoi_def Let_def)


section \<open>Delivery\<close>

lemma start_nested:
  assumes "nested c" "scan_irq 0 1 (a_irq c) (possible_irq c) = Some i"
  shows "nested (start_irq i c)" "\<not> pending (start_irq i c)" "i < 8"
    "irr (start_irq i c) = irr c AND NOT (irq_bit i)" "vector_base (start_irq i c) = vector_base c"
    "isr (start_irq i c) = isr c OR irq_bit i"
proof -
  have i: "i < a_irq c" "\<forall>j < i. \<not> bit (possible_irq c) j"
    using assms scan_Some [of "a_irq c" "possible_irq c" i] nested_a_irq [OF assms(1)] by simp_all
  then show i8: "i < 8" using nested_a_irq [OF assms(1)] by simp
  then have u: "unat (word_of_nat i :: u8) = i" by (simp add: unat_of_nat)
  have auto: "\<not> auto_eoi c" using assms(1) by (simp add: nested_def)
  show regs: "irr (start_irq i c) = irr c AND NOT (irq_bit i)" "vector_base (start_irq i c) = vector_base c"
    "isr (start_irq i c) = isr c OR irq_bit i"
    using auto by (simp_all add: start_irq_def Let_def)
  show n: "nested (start_irq i c)"
    using assms(1) i(1) nested_a_irq [OF assms(1)] u i8 auto
    by (auto simp: start_irq_def Let_def nested_def bit_or_iff bit_irq_bit)
  have "a_irq (start_irq i c) = i" using assms(1) auto u by (simp add: a_irq_def start_irq_def Let_def nested_def)
  moreover have "bit (possible_irq (start_irq i c)) j \<Longrightarrow> j < i \<Longrightarrow> bit (possible_irq c) j" for j
    using assms(1) auto by (auto simp: bit_possible start_irq_def Let_def nested_def bit_simps)
  ultimately show "\<not> pending (start_irq i c)" using i(2) by (auto simp: pending_def)
qed

definition chosen :: "PIC_Controller \<Rightarrow> nat option" where
  "chosen c = scan_irq 0 1 (a_irq c) (possible_irq c)"

text \<open>The IRQ number (0 to 15) that the pair of controllers would deliver.\<close>

definition next_irq :: "pic_state \<Rightarrow> nat option" where
  "next_irq s = (case chosen (primary_controller s) of None \<Rightarrow> None
     | Some i \<Rightarrow> if i = 2 then map_option (\<lambda>k. 8 + k) (chosen (secondary_controller s)) else Some i)"

definition vector :: "pic_state \<Rightarrow> nat \<Rightarrow> u8" where
  "vector s n = (if n < 8 then vector_base (primary_controller s) + word_of_nat n
     else vector_base (secondary_controller s) + word_of_nat (n - 8))"

lemma run_delivers:
  assumes "irq_inv s"
  shows "irq_inv (PIC_runIRQs True False s)"
    "hw_interrupts (PIC_runIRQs True False s) = hw_interrupts s @ (case next_irq s of None \<Rightarrow> [] | Some n \<Rightarrow> [vector s n])"
proof -
  let ?p = "primary_controller s" and ?q = "secondary_controller s"
  have n: "nested ?p" "nested ?q" and chk: "truth (PIC_IRQCheck s) \<longleftrightarrow> pending ?p"
    and two: "bit (irr ?p) 2 \<longleftrightarrow> pending ?q"
    using assms by (simp_all add: irq_inv_def primary_ok_def)
  have "irq_inv (PIC_runIRQs True False s) \<and>
    hw_interrupts (PIC_runIRQs True False s) = hw_interrupts s @ (case next_irq s of None \<Rightarrow> [] | Some n \<Rightarrow> [vector s n])"
  proof (cases "scan_irq 0 1 (a_irq ?p) (possible_irq ?p)")
    case None
    then have "\<not> pending ?p" using pending_scan [OF n(1)] by simp
    then have "PIC_IRQCheck s = 0" using chk by (simp add: truth_def)
    then show ?thesis using assms None by (simp add: PIC_runIRQs_def next_irq_def chosen_def)
  next
    case (Some i)
    then have pend: "PIC_IRQCheck s \<noteq> 0" using pending_scan [OF n(1)] chk by (simp add: truth_def)
    note st = start_nested [OF n(1) Some]
    show ?thesis
    proof (cases "i = 2")
      case False
      then have "bit (irr (start_irq i ?p)) 2 = bit (irr ?p) 2"
        using st(3,4) by (simp add: bit_and_iff bit_not_iff bit_irq_bit)
      then show ?thesis using False Some pend st n two
        by (simp add: PIC_runIRQs_def Let_def primary_startIRQ_def CPU_HW_Interrupt_def irq_inv_def primary_ok_def
            next_irq_def chosen_def vector_def)
    next
      case True
      have "bit (irr ?p) 2" using Some True scan_Some [of "a_irq ?p" "possible_irq ?p" i] nested_a_irq [OF n(1)]
        by (simp add: bit_possible)
      then obtain k where k: "scan_irq 0 1 (a_irq ?q) (possible_irq ?q) = Some k"
        using two pending_scan [OF n(2)] by blast
      note st2 = start_nested [OF n(2) k]
      have "\<not> bit (irr (start_irq 2 ?p)) 2" using st(4) True by (simp add: bit_and_iff bit_not_iff bit_irq_bit)
      then show ?thesis using True Some pend st st2 k n
        by (simp add: PIC_runIRQs_def Let_def secondary_startIRQ_def CPU_HW_Interrupt_def irq_inv_def primary_ok_def
            next_irq_def chosen_def vector_def)
    qed
  qed
  then show "irq_inv (PIC_runIRQs True False s)"
    "hw_interrupts (PIC_runIRQs True False s) = hw_interrupts s @ (case next_irq s of None \<Rightarrow> [] | Some n \<Rightarrow> [vector s n])"
    by blast+
qed

end
