(* ===== verification/Pic_Reach.thy ===== *)
theory Pic_Reach
  imports Pic_Correct
begin

text \<open>
  The interrupt controllers as a state machine: what devices, port writes and the CPU loop may do
  in any order, the states that can be reached that way from \<open>PIC_8259A\<close>, and what is delivered
  in them.
\<close>

section \<open>Port writes keep the invariant\<close>

text \<open>A change of the registers that neither the priorities nor the signals depend on.\<close>

definition neutral :: "(PIC_Controller \<Rightarrow> PIC_Controller) \<Rightarrow> bool" where
  "neutral f \<longleftrightarrow> (\<forall>c. irr (f c) = irr c \<and> imr (f c) = imr c \<and> imrr (f c) = imrr c \<and> isr (f c) = isr c \<and>
     isrr (f c) = isrr c \<and> active_irq (f c) = active_irq c \<and> special (f c) = special c \<and> auto_eoi (f c) = auto_eoi c)"

lemma neutral_inv:
  assumes "neutral f" "irq_inv s"
  shows "irq_inv (upd this f s)"
proof -
  have "nested (f c) = nested c" "pending (f c) = pending c" "irr (f c) = irr c" for c
    using assms(1) by (simp_all add: neutral_def nested_def pending_def possible_irq_def a_irq_def)
  then show ?thesis using recheck_inv [OF assms(2), of f this False] inv_nested [OF assms(2)] by simp
qed

lemma neutral_next_icw: "neutral f \<Longrightarrow> neutral (next_icw f)"
  by (simp add: neutral_def next_icw_def Let_def)

lemma neutral_setters [intro!]:
  "neutral id" "neutral (\<lambda>c. c\<lparr>single := b\<rparr>)" "neutral (\<lambda>c. c\<lparr>icw_index := n\<rparr>)" "neutral (\<lambda>c. c\<lparr>icw_words := n\<rparr>)"
  "neutral (\<lambda>c. c\<lparr>request_issr := b\<rparr>)" "neutral (\<lambda>c. c\<lparr>rotate_on_auto_eoi := b\<rparr>)" "neutral (\<lambda>c. c\<lparr>vector_base := w\<rparr>)"
  "neutral (\<lambda>c. if single c then c\<lparr>icw_index := n\<rparr> else c)"
  by (simp_all add: neutral_def)

lemma special_off_inv:
  assumes "irq_inv s"
  shows "irq_inv (check_for_irq this (upd this (\<lambda>c. c\<lparr>special := False\<rparr>) s))"
proof -
  have "nested ((ctl this s)\<lparr>special := False\<rparr>)" using inv_nested [OF assms, of this] by (simp add: nested_def)
  then show ?thesis using recheck_inv [OF assms, of "\<lambda>c. c\<lparr>special := False\<rparr>" this True] by simp
qed

lemma auto_eoi_off:
  assumes "irq_inv s"
  shows "upd this (\<lambda>c. c\<lparr>auto_eoi := False\<rparr>) s = s"
proof -
  have "(ctl this s)\<lparr>auto_eoi := False\<rparr> = ctl this s" using inv_nested [OF assms, of this] by (simp add: nested_def)
  then show ?thesis by (cases this) simp_all
qed

text \<open>The command words of the fully nested mode: all but the OCW3 that turns the special mask on.\<close>

definition normal_command :: "u8 \<Rightarrow> bool" where
  "normal_command val \<longleftrightarrow> truth (val AND 0x10) \<or> \<not> truth (val AND 0x08) \<or> \<not> (truth (val AND 0x40) \<and> truth (val AND 0x20))"

lemma write_command_inv:
  assumes "irq_inv s" "normal_command val" "write_command port val s = Some t"
  shows "irq_inv t"
proof -
  define this where "this = (if port = 0x20 then Primary else Secondary)"
  note ni = neutral_inv [where this = this]
  consider (icw1) "truth (val AND 0x10)" | (ocw3) "\<not> truth (val AND 0x10)" "truth (val AND 0x08)"
    | (eoi) "\<not> truth (val AND 0x10)" "\<not> truth (val AND 0x08)" "truth (val AND 0x20)"
    | (rest) "\<not> truth (val AND 0x10)" "\<not> truth (val AND 0x08)" "\<not> truth (val AND 0x20)" by blast
  then show ?thesis
  proof cases
    case icw1
    then have "t = upd this (\<lambda>c. c\<lparr>icw_words := 2 + unat (val AND 0x01)\<rparr>) (upd this (\<lambda>c. c\<lparr>icw_index := 1\<rparr>)
        (upd this (\<lambda>c. c\<lparr>single := (val AND 0x02 = 0x02)\<rparr>) (set_imr this 0 s)))"
      using assms(3) by (simp add: write_command_def Let_def this_def)
    then show ?thesis using ni set_imr_inv [OF assms(1)] by blast
  next
    case ocw3
    define u where "u = (if truth (val AND 0x02) then upd this (\<lambda>c. c\<lparr>request_issr := truth (val AND 0x01)\<rparr>) s else s)"
    have u: "irq_inv u" using ni assms(1) unfolding u_def by auto
    have "t = (if truth (val AND 0x40) then check_for_irq this (upd this (\<lambda>c. c\<lparr>special := truth (val AND 0x20)\<rparr>) u) else u)"
      using assms(3) ocw3 unfolding u_def this_def write_command_def Let_def by auto
    then show ?thesis using u special_off_inv [OF u, of this] assms(2) ocw3 by (auto simp: normal_command_def)
  next
    case eoi
    then have t: "t = s \<or> (\<exists>f. t = check_after_EOI this (upd this (\<lambda>c. c\<lparr>isrr := NOT (isr c)\<rparr>)
        (upd this (\<lambda>c. c\<lparr>isr := isr c AND NOT (irq_bit (f c))\<rparr>) s)))"
      using assms(3) unfolding this_def write_command_def Let_def by (auto split: if_splits)
    show ?thesis using t assms(1) eoi_inv [OF assms(1), of this] unfolding check_after_EOI_eq Let_def by blast
  next
    case rest
    then have "t = s \<or> (t = upd this (\<lambda>c. c\<lparr>rotate_on_auto_eoi := truth (val AND 0x80)\<rparr>) s)"
      using assms(3) unfolding this_def write_command_def Let_def by (auto split: if_splits)
    then show ?thesis using ni assms(1) by blast
  qed
qed

text \<open>Every data write but an ICW4 that asks for the automatic end of interrupt.\<close>

definition normal_data :: "nat \<Rightarrow> u8 \<Rightarrow> pic_state \<Rightarrow> bool" where
  "normal_data port val s \<longleftrightarrow>
     \<not> (icw_index (ctl (if port = 0x21 then Primary else Secondary) s) = 3 \<and> val AND 0x2 > 0)"

lemma write_data_inv:
  assumes "irq_inv s" "normal_data port val s"
  shows "irq_inv (write_data port val s)"
proof -
  define this where "this = (if port = 0x21 then Primary else Secondary)"
  note ni = neutral_inv [where this = this]
  show ?thesis
    unfolding write_data_def Let_def this_def [symmetric]
    using assms set_imr_inv [OF assms(1)] auto_eoi_off [OF assms(1), of this]
    by (auto simp: normal_data_def this_def [symmetric] intro!: ni neutral_next_icw)
qed

section \<open>Device requests keep the invariant\<close>

lemma inv_cycles [simp]:
  "irq_inv (s\<lparr>CPU_CycleLeft := a, CPU_Cycles := b\<rparr>) = irq_inv s"
  by (simp add: irq_inv_def primary_ok_def)

lemma line_bounds: "irq < 16 \<Longrightarrow> irq \<noteq> 2 \<Longrightarrow> line_of irq < 8 \<and> (pic_of irq = Primary \<longrightarrow> line_of irq \<noteq> 2)"
  by (auto simp: line_of_def pic_of_def)

lemma PIC_ActivateIRQ_inv:
  assumes "irq_inv s" "irq < 16" "irq \<noteq> 2"
  shows "irq_inv (PIC_ActivateIRQ irq s)"
  using raise_irq_inv [OF assms(1), of "line_of irq" "pic_of irq"] line_bounds [OF assms(2,3)]
  by (simp add: PIC_ActivateIRQ_def Let_def)

lemma PIC_DeActivateIRQ_inv:
  assumes "irq_inv s" "irq < 16" "irq \<noteq> 2"
  shows "irq_inv (PIC_DeActivateIRQ irq s)"
  using lower_irq_inv [OF assms(1), of "line_of irq" "pic_of irq"] line_bounds [OF assms(2,3)]
  by (simp add: PIC_DeActivateIRQ_def)

lemma PIC_SetIRQMask_inv: "irq_inv s \<Longrightarrow> irq_inv (PIC_SetIRQMask irq m s)"
  unfolding PIC_SetIRQMask_def Let_def by (rule set_imr_inv)

lemma PIC_runIRQs_inv: "irq_inv s \<Longrightarrow> irq_inv (PIC_runIRQs IF trap s)"
  using run_delivers(1) [of s] by (cases "IF \<and> \<not> trap") (auto simp: PIC_runIRQs_def)

lemma PIC_8259A_inv: "irq_inv (PIC_8259A pcjr ega)"
proof -
  have i: "irq_inv \<lparr>primary_controller = initial_controller 0x08, secondary_controller = initial_controller 0x70,
               PIC_IRQCheck = 0, PIC_Ticks = 0, CPU_Cycles = 0, CPU_CycleLeft = 0, hw_interrupts = [],
               machine_pcjr = m\<rparr>" for m
    by (simp add: irq_inv_def primary_ok_def nested_def pending_def initial_controller_def possible_irq_def)
  show ?thesis
    unfolding PIC_8259A_def Let_def
    by (simp only: split: if_split) (auto intro!: PIC_SetIRQMask_inv PIC_DeActivateIRQ_inv i)
qed

section \<open>Reachable states\<close>

text \<open>Devices raise and lower lines, the guest writes to the four ports, the CPU loop delivers, in any order. What is
  left out are the two modes the check of the CPU is not written for, special mask mode and automatic end of interrupt (where
  \<open>PIC_runIRQs\<close> clears \<open>PIC_IRQCheck\<close> although another line may still be served), and
  a device that raises line 2, where the secondary controller is cascaded.\<close>

inductive pic_step :: "pic_state \<Rightarrow> pic_state \<Rightarrow> bool" where
  activate_irq: "irq < 16 \<Longrightarrow> irq \<noteq> 2 \<Longrightarrow> pic_step s (PIC_ActivateIRQ irq s)"
| deactivate_irq: "irq < 16 \<Longrightarrow> irq \<noteq> 2 \<Longrightarrow> pic_step s (PIC_DeActivateIRQ irq s)"
| set_mask: "pic_step s (PIC_SetIRQMask irq masked s)"
| command: "normal_command val \<Longrightarrow> write_command port val s = Some t \<Longrightarrow> pic_step s t"
| data: "normal_data port val s \<Longrightarrow> pic_step s (write_data port val s)"
| run: "pic_step s (PIC_runIRQs IF trap_run s)"
| cycles: "pic_step s (s\<lparr>CPU_CycleLeft := a, CPU_Cycles := b\<rparr>)"

inductive pic_reachable :: "pic_state \<Rightarrow> bool" where
  power_on: "pic_reachable (PIC_8259A pcjr ega)"
| step: "pic_reachable s \<Longrightarrow> pic_step s t \<Longrightarrow> pic_reachable t"

inductive_cases pic_stepE: "pic_step s t"

lemma pic_step_inv:
  assumes "pic_step s t" "irq_inv s"
  shows "irq_inv t"
  using assms
  by (elim pic_stepE) (auto intro: PIC_ActivateIRQ_inv PIC_DeActivateIRQ_inv PIC_SetIRQMask_inv
      write_command_inv write_data_inv PIC_runIRQs_inv)

lemma reachable_inv: "pic_reachable s \<Longrightarrow> irq_inv s"
  by (induction rule: pic_reachable.induct) (auto intro: PIC_8259A_inv pic_step_inv)

end
