(* ===== verification/Pic_Deliver.thy ===== *)
theory Pic_Deliver
  imports Pic_Reach
begin

text \<open>
  What the reachable controllers deliver, against a specification over the sixteen interrupt
  lines: which line is served next, what the delivery and the end of interrupt do to the requests
  and to the lines in service, and how the initialisation words are counted.
\<close>

section \<open>The lines of the pair of controllers\<close>

definition requests :: "pic_state \<Rightarrow> nat set" where
  "requests s = {n. n < 16 \<and> n \<noteq> 2 \<and> bit (irr (ctl (pic_of n) s)) (line_of n)}"

definition in_service :: "pic_state \<Rightarrow> nat set" where
  "in_service s = {n. n < 16 \<and> n \<noteq> 2 \<and> bit (isr (ctl (pic_of n) s)) (line_of n)}"

text \<open>A line can be served when it is requested, not masked, and no line of its controller with the
  same or a higher priority is in service.\<close>

definition line_ready :: "PIC_Controller \<Rightarrow> nat \<Rightarrow> bool" where
  "line_ready c i \<longleftrightarrow> \<not> bit (imr c) i \<and> (\<forall>j \<le> i. \<not> bit (isr c) j)"

definition eligible :: "pic_state \<Rightarrow> nat \<Rightarrow> bool" where
  "eligible s n \<longleftrightarrow> n \<in> requests s \<and> line_ready (ctl (pic_of n) s) (line_of n) \<and>
     (pic_of n = Secondary \<longrightarrow> line_ready (primary_controller s) 2)"

definition priority_order :: "nat list" where
  "priority_order = [0, 1, 8, 9, 10, 11, 12, 13, 14, 15, 3, 4, 5, 6, 7]"

lemma nested_line:
  assumes "nested c" "i < 8"
  shows "deliverable i c \<longleftrightarrow> line_ready c i"
proof
  assume "deliverable i c"
  then show "line_ready c i" using assms
    by (auto simp: deliverable_def line_ready_def nested_def a_irq_def bit_simps)
next
  assume r: "line_ready c i"
  then have "\<not> unat (active_irq c) \<le> i" using assms by (auto simp: line_ready_def nested_def)
  then show "deliverable i c" using r assms
    by (auto simp: deliverable_def line_ready_def nested_def a_irq_def bit_simps)
qed

lemma chosen_Some:
  assumes "nested c"
  shows "chosen c = Some i \<longleftrightarrow> i < 8 \<and> bit (irr c) i \<and> line_ready c i \<and> (\<forall>j < i. \<not> (bit (irr c) j \<and> line_ready c j))"
proof -
  have a: "a_irq c \<le> 8" using nested_a_irq [OF assms] by simp
  have b: "k < a_irq c \<and> bit (possible_irq c) k \<longleftrightarrow> k < 8 \<and> bit (irr c) k \<and> line_ready c k" for k
    using nested_line [OF assms, of k] a by (auto simp: deliverable_def bit_possible)
  show ?thesis unfolding chosen_def scan_Some [OF a] using a b by (meson less_le_trans less_trans)
qed

lemma chosen_None:
  assumes "nested c"
  shows "chosen c = None \<longleftrightarrow> (\<forall>i < 8. \<not> (bit (irr c) i \<and> line_ready c i))"
proof -
  have a: "a_irq c \<le> 8" using nested_a_irq [OF assms] by simp
  have b: "k < a_irq c \<and> bit (possible_irq c) k \<longleftrightarrow> k < 8 \<and> bit (irr c) k \<and> line_ready c k" for k
    using nested_line [OF assms, of k] a by (auto simp: deliverable_def bit_possible)
  show ?thesis unfolding chosen_def scan_None [OF a] using b by blast
qed

lemma chosen_find:
  assumes "nested c"
  shows "chosen c = find (\<lambda>i. bit (irr c) i \<and> line_ready c i) [0, 1, 2, 3, 4, 5, 6, 7]"
proof -
  have u: "[0, 1, 2, 3, 4, 5, 6, 7] = [0 ..< 8 :: nat]" by (simp add: upt_rec)
  show ?thesis
  proof (cases "chosen c")
    case None
    then show ?thesis unfolding u using chosen_None [OF assms] by (simp add: find_None_iff2 atLeast0LessThan)
  next
    case (Some i)
    then have "find (\<lambda>i. bit (irr c) i \<and> line_ready c i) [0 ..< 8] = Some i"
      unfolding find_Some_iff using chosen_Some [OF assms, of i] by (auto intro!: exI [of _ i])
    then show ?thesis unfolding u Some by simp
  qed
qed

lemma find_shift: "find P (map f xs) = map_option f (find (P \<circ> f) xs)"
  by (induction xs) simp_all

lemma find_append: "find P (xs @ ys) = (case find P xs of None \<Rightarrow> find P ys | Some x \<Rightarrow> Some x)"
  by (induction xs) simp_all

lemma find_False: "find (\<lambda>x. False) xs = None"
  by (induction xs) simp_all

lemma next_irq_spec:
  assumes "irq_inv s"
  shows "next_irq s = find (eligible s) priority_order"
proof -
  let ?p = "primary_controller s" and ?q = "secondary_controller s"
  have n: "nested ?p" "nested ?q" and two: "bit (irr ?p) 2 \<longleftrightarrow> pending ?q"
    using assms by (simp_all add: irq_inv_def primary_ok_def)
  define P where "P = (\<lambda>i. bit (irr ?p) i \<and> line_ready ?p i)"
  define Q where "Q = (\<lambda>i. bit (irr ?q) i \<and> line_ready ?q i)"
  have e: "eligible s k = P k" if "k < 8" "k \<noteq> 2" for k
    using that by (simp add: eligible_def P_def requests_def pic_of_def line_of_def)
  have f: "eligible s (8 + k) = (line_ready ?p 2 \<and> Q k)" if "k < 8" for k
    using that by (auto simp: eligible_def Q_def requests_def pic_of_def line_of_def)
  have two: "bit (irr ?p) 2 \<longleftrightarrow> (\<exists>k. chosen ?q = Some k)" using two pending_scan [OF n(2)] by (simp add: chosen_def)
  have sp: "find (eligible s) priority_order = (if P 0 then Some 0 else if P 1 then Some 1 else
      case find (eligible s) (map (\<lambda>k. 8 + k) [0, 1, 2, 3, 4, 5, 6, 7]) of Some k \<Rightarrow> Some k
      | None \<Rightarrow> if P 3 then Some 3 else if P 4 then Some 4 else if P 5 then Some 5 else if P 6 then Some 6
         else if P 7 then Some 7 else None)"
    using e by (simp add: priority_order_def)
  have sec: "find (eligible s) (map (\<lambda>k. 8 + k) [0, 1, 2, 3, 4, 5, 6, 7]) =
      (if line_ready ?p 2 then map_option (\<lambda>k. 8 + k) (chosen ?q) else None)"
  proof -
    have "find (eligible s \<circ> (\<lambda>k. 8 + k)) [0, 1, 2, 3, 4, 5, 6, 7] = find (\<lambda>k. line_ready ?p 2 \<and> Q k) [0, 1, 2, 3, 4, 5, 6, 7]"
    proof (rule find_cong)
      fix x :: nat
      assume "x \<in> set [0, 1, 2, 3, 4, 5, 6, 7]"
      then have "x < 8" by auto
      then show "(eligible s \<circ> (\<lambda>k. 8 + k)) x = (line_ready ?p 2 \<and> Q x)" by (simp add: f)
    qed simp
    then show ?thesis unfolding find_shift chosen_find [OF n(2)] Q_def [symmetric] by (simp add: find_False)
  qed
  have pr: "chosen ?p = (if P 0 then Some 0 else if P 1 then Some 1 else if P 2 then Some 2 else if P 3 then Some 3
      else if P 4 then Some 4 else if P 5 then Some 5 else if P 6 then Some 6 else if P 7 then Some 7 else None)"
    unfolding chosen_find [OF n(1)] P_def [symmetric] by simp
  have "P 2 \<longleftrightarrow> line_ready ?p 2 \<and> chosen ?q \<noteq> None" using two by (auto simp: P_def)
  then show ?thesis
    unfolding sp sec next_irq_def pr by auto
qed

section \<open>Delivery\<close>

lemma next_irq_bounds:
  assumes "irq_inv s" "next_irq s = Some n"
  shows "n < 16" "n \<noteq> 2" "eligible s n"
  using assms next_irq_spec [OF assms(1)] by (auto simp: priority_order_def split: if_splits)

lemma run_state:
  assumes "irq_inv s" "next_irq s = Some n"
  shows "PIC_runIRQs True False s =
    (upd (pic_of n) (start_irq (line_of n)) (if n < 8 then s else upd Primary (start_irq 2) s))
      \<lparr>PIC_IRQCheck := 0, hw_interrupts := hw_interrupts s @ [vector s n]\<rparr>"
proof -
  let ?p = "primary_controller s" and ?q = "secondary_controller s"
  have n: "nested ?p" "nested ?q" and chk: "truth (PIC_IRQCheck s) \<longleftrightarrow> pending ?p"
    using assms by (simp_all add: irq_inv_def primary_ok_def)
  obtain i where i: "scan_irq 0 1 (a_irq ?p) (possible_irq ?p) = Some i"
    and ni: "n = i \<and> i \<noteq> 2 \<or> i = 2 \<and> (\<exists>k. scan_irq 0 1 (a_irq ?q) (possible_irq ?q) = Some k \<and> n = 8 + k)"
    using assms(2) by (auto simp: next_irq_def chosen_def split: option.splits if_splits)
  have p: "PIC_IRQCheck s \<noteq> 0" using i pending_scan [OF n(1)] chk by (simp add: truth_def)
  have "i < 8" using start_nested [OF n(1) i] by simp
  then show ?thesis using ni i p n
    by (auto simp: PIC_runIRQs_def Let_def primary_startIRQ_def secondary_startIRQ_def CPU_HW_Interrupt_def vector_def
        pic_of_def line_of_def start_irq_def nested_def)
qed

lemma start_irq_regs:
  assumes "nested c" "i < 8"
  shows "irr (start_irq i c) = irr c AND NOT (irq_bit i)" "isr (start_irq i c) = isr c OR irq_bit i"
    "active_irq (start_irq i c) = word_of_nat i" "isrr (start_irq i c) = NOT (isr c OR irq_bit i)"
    "imr (start_irq i c) = imr c" "imrr (start_irq i c) = imrr c" "vector_base (start_irq i c) = vector_base c"
    "special (start_irq i c) = special c" "auto_eoi (start_irq i c) = auto_eoi c"
  using assms by (simp_all add: start_irq_def Let_def nested_def)

lemma pic_line_cases:
  assumes "n < 16" "n \<noteq> 2"
  obtains "n < 8" "pic_of n = Primary" "line_of n = n" | "n \<ge> 8" "pic_of n = Secondary" "line_of n = n - 8"
  using assms by (cases "n < 8") (auto simp: pic_of_def line_of_def)

lemma run_lines:
  assumes "irq_inv s" "next_irq s = Some n"
  shows "requests (PIC_runIRQs True False s) = requests s - {n}"
    "in_service (PIC_runIRQs True False s) = insert n (in_service s)"
proof -
  note b = next_irq_bounds [OF assms]
  have nst: "nested (primary_controller s)" "nested (secondary_controller s)"
    using assms by (simp_all add: irq_inv_def primary_ok_def)
  have l: "n - 8 < 8" using b(1) by simp
  note r = start_irq_regs [OF nst(1)] start_irq_regs [OF nst(2) l]
  show "requests (PIC_runIRQs True False s) = requests s - {n}"
    using b(1,2)
    by (cases rule: pic_line_cases) (auto simp: run_state [OF assms] requests_def r pic_of_def line_of_def bit_simps bit_irq_bit)
  show "in_service (PIC_runIRQs True False s) = insert n (in_service s)"
    using b(1,2)
    by (cases rule: pic_line_cases) (auto simp: run_state [OF assms] in_service_def r b(1,2) l pic_of_def line_of_def bit_simps bit_irq_bit)
qed

text \<open>C1. In every state reached by requests of devices on lines other than the cascade line 2, by writes to the
  ports and by deliveries, in any order, as long as neither controller is put into special mask mode or automatic end of
  interrupt: the CPU is signalled exactly when a line can be served, so no request
  is lost and no check is spurious. A run of the interrupts with the interrupt flag set then
  starts the interrupt vector of the eligible line that comes first in the order
  0, 1, 8 to 15, 3 to 7, moves that line from the requested to the serviced ones, and changes
  no other line; without an eligible line, with the flag clear or under the trap core it does nothing.\<close>

theorem delivery_exact:
  assumes "pic_reachable s"
  shows "(PIC_IRQCheck s \<noteq> 0) = (\<exists>n. eligible s n) \<and>
    (case find (eligible s) priority_order of
       None \<Rightarrow> PIC_runIRQs True False s = s
     | Some n \<Rightarrow> hw_interrupts (PIC_runIRQs True False s) = hw_interrupts s @ [vector s n] \<and>
         requests (PIC_runIRQs True False s) = requests s - {n} \<and>
         in_service (PIC_runIRQs True False s) = insert n (in_service s)) \<and>
    PIC_runIRQs False trap s = s \<and> PIC_runIRQs IF True s = s"
proof -
  have inv: "irq_inv s" using reachable_inv [OF assms] .
  have p: "nested (primary_controller s)" and chk: "truth (PIC_IRQCheck s) \<longleftrightarrow> pending (primary_controller s)"
    using inv by (simp_all add: irq_inv_def primary_ok_def)
  have "(\<exists>n. eligible s n) \<longleftrightarrow> find (eligible s) priority_order \<noteq> None"
  proof -
    have "n < 16 \<Longrightarrow> n \<noteq> 2 \<Longrightarrow> n \<in> set priority_order" for n
      by (simp add: priority_order_def) presburger
    then have "eligible s n \<Longrightarrow> n \<in> set priority_order" for n
      by (simp add: eligible_def requests_def)
    then show ?thesis by (auto simp: find_None_iff)
  qed
  moreover have "next_irq s \<noteq> None \<longleftrightarrow> pending (primary_controller s)"
  proof -
    have "chosen (primary_controller s) = Some 2 \<Longrightarrow> chosen (secondary_controller s) \<noteq> None"
      using chosen_Some [OF p, of 2] inv pending_scan [of "secondary_controller s"] by (auto simp: irq_inv_def chosen_def)
    then show ?thesis using pending_scan [OF p] by (auto simp: next_irq_def chosen_def split: option.splits)
  qed
  ultimately have sig: "(PIC_IRQCheck s \<noteq> 0) = (\<exists>n. eligible s n)" "next_irq s = None \<Longrightarrow> PIC_IRQCheck s = 0"
    using chk next_irq_spec [OF inv] by (auto simp: truth_def)
  have "case next_irq s of None \<Rightarrow> PIC_runIRQs True False s = s
     | Some n \<Rightarrow> hw_interrupts (PIC_runIRQs True False s) = hw_interrupts s @ [vector s n] \<and>
         requests (PIC_runIRQs True False s) = requests s - {n} \<and>
         in_service (PIC_runIRQs True False s) = insert n (in_service s)"
    using run_delivers(2) [OF inv] run_lines [OF inv] sig(2) by (auto simp: PIC_runIRQs_def split: option.split)
  then show ?thesis using sig(1) next_irq_spec [OF inv] by (simp add: PIC_runIRQs_def)
qed

section \<open>End of interrupt\<close>

text \<open>A check moves the IRQ 2 line of the primary and no other line.\<close>

definition same_lines :: "pic_state \<Rightarrow> pic_state \<Rightarrow> bool" where
  "same_lines s t \<longleftrightarrow> requests t = requests s \<and> hw_interrupts t = hw_interrupts s \<and>
     (\<forall>x. isr (ctl x t) = isr (ctl x s) \<and> active_irq (ctl x t) = active_irq (ctl x s) \<and> imr (ctl x t) = imr (ctl x s))"

lemma same_lines_refl: "same_lines s s"
  by (simp add: same_lines_def)

lemma same_lines_trans: "same_lines s t \<Longrightarrow> same_lines t u \<Longrightarrow> same_lines s u"
  by (simp add: same_lines_def)

lemma ctl_unchanged:
  "ctl x (s\<lparr>PIC_IRQCheck := a\<rparr>) = ctl x s" "ctl x (activate_cpu s) = ctl x s"
  by (cases x; simp add: activate_cpu_def)+

lemma same_lines_cpu: "same_lines s (s\<lparr>PIC_IRQCheck := a\<rparr>)" "same_lines s (activate_cpu s)"
  by (simp_all add: same_lines_def requests_def ctl_unchanged) (simp add: activate_cpu_def)

lemma same_lines_check_primary: "same_lines s (check_for_irq Primary s)"
  by (simp add: check_for_irq.simps [of Primary s] Let_def same_lines_cpu split: option.split)

lemma irr2_lines:
  assumes "\<And>i. i \<noteq> 2 \<Longrightarrow> bit (f (irr (primary_controller s))) i = bit (irr (primary_controller s)) i"
  shows "same_lines s (s\<lparr>primary_controller := (primary_controller s)\<lparr>irr := f (irr (primary_controller s))\<rparr>\<rparr>)"
proof -
  let ?t = "s\<lparr>primary_controller := (primary_controller s)\<lparr>irr := f (irr (primary_controller s))\<rparr>\<rparr>"
  have "bit (irr (ctl (pic_of n) ?t)) (line_of n) = bit (irr (ctl (pic_of n) s)) (line_of n)" if "n \<noteq> 2" for n
    using that assms by (auto simp: pic_of_def line_of_def)
  moreover have "isr (ctl x ?t) = isr (ctl x s) \<and> active_irq (ctl x ?t) = active_irq (ctl x s) \<and> imr (ctl x ?t) = imr (ctl x s)" for x
    by (cases x) simp_all
  ultimately show ?thesis by (auto simp: same_lines_def requests_def)
qed

lemma same_lines_activate: "same_lines s (activate this s)"
proof (cases this)
  case Primary
  then show ?thesis by (simp add: same_lines_cpu)
next
  case Secondary
  have "same_lines s (s\<lparr>primary_controller := (primary_controller s)\<lparr>irr := irr (primary_controller s) OR irq_bit 2\<rparr>\<rparr>)"
    using irr2_lines [of "\<lambda>w. w OR irq_bit 2" s] by (auto simp: bit_or_iff bit_irq_bit)
  then show ?thesis using Secondary same_lines_refl same_lines_trans [OF _ same_lines_cpu(2)]
    by (simp add: Let_def raise_irq.simps)
qed

lemma same_lines_deactivate: "same_lines s (deactivate this s)"
proof (cases this)
  case Primary
  then show ?thesis by (simp add: same_lines_cpu)
next
  case Secondary
  have "same_lines s (s\<lparr>primary_controller := (primary_controller s)\<lparr>irr := irr (primary_controller s) AND NOT (irq_bit 2)\<rparr>\<rparr>)"
  proof (rule irr2_lines)
    fix i :: nat
    assume "i \<noteq> 2"
    then show "bit (irr (primary_controller s) AND NOT (irq_bit 2)) i = bit (irr (primary_controller s)) i"
      using bit_imp_le_length [of "irr (primary_controller s)" i] by (auto simp: bit_and_iff bit_not_iff bit_irq_bit)
  qed
  note same_lines_trans [OF this same_lines_check_primary]
  then show ?thesis using Secondary same_lines_refl \<open>same_lines s (s\<lparr>primary_controller := _\<rparr>)\<close>
    by (simp add: Let_def lower_irq.simps del: check_for_irq.simps)
qed

lemma same_lines_check: "same_lines s (check_for_irq this s)"
  using same_lines_activate [of s this] same_lines_deactivate [of s this]
  by (auto simp: check_for_irq.simps [of this s] Let_def split: option.split)

definition command_port :: "pic_id \<Rightarrow> nat" where
  "command_port this = (case this of Primary \<Rightarrow> 0x20 | Secondary \<Rightarrow> 0xa0)"

definition data_port :: "pic_id \<Rightarrow> nat" where
  "data_port this = (case this of Primary \<Rightarrow> 0x21 | Secondary \<Rightarrow> 0xa1)"

lemma ports [simp]:
  "(if command_port this = 0x20 then Primary else Secondary) = this"
  "(if data_port this = 0x21 then Primary else Secondary) = this"
  by (cases this; simp add: command_port_def data_port_def)+

lemma ctl_upd: "ctl x (upd this f s) = (if x = this then f (ctl this s) else ctl x s)"
  by (cases x; cases this) simp_all

lemma hw_upd [simp]: "hw_interrupts (upd this f s) = hw_interrupts s"
  by (cases this) simp_all

lemma nonspecific_eoi:
  assumes "irq_inv s" "active_irq (ctl this s) \<noteq> 8"
  obtains t where "write_command (command_port this) 0x20 s = Some t" "irq_inv t" "requests t = requests s"
    "hw_interrupts t = hw_interrupts s"
    "\<And>x. isr (ctl x t) = (if x = this then isr (ctl x s) AND NOT (irq_bit (unat (active_irq (ctl x s)))) else isr (ctl x s))"
    "\<And>x. x \<noteq> this \<Longrightarrow> active_irq (ctl x t) = active_irq (ctl x s)"
proof -
  define u where "u = upd this (eoi (unat (active_irq (ctl this s)))) s"
  define t where "t = (if truth (possible_irq (ctl this u)) then check_for_irq this u else u)"
  have "truth (0x20 AND 0x10 :: u8) = False" "truth (0x20 AND 0x08 :: u8) = False" "truth (0x20 AND 0x20 :: u8) = True"
    "truth (0x20 AND 0x40 :: u8) = False" by (simp_all add: truth_def)
  then have w: "write_command (command_port this) 0x20 s = Some t"
    using assms(2) unfolding write_command_def Let_def ports check_after_EOI_eq t_def u_def by simp
  have sl: "same_lines u t" using same_lines_check same_lines_refl unfolding t_def by simp
  have "requests u = requests s" unfolding u_def requests_def by (auto simp: ctl_upd)
  then have "requests t = requests s" using sl by (simp add: same_lines_def)
  moreover have "hw_interrupts t = hw_interrupts s" using sl by (simp add: same_lines_def u_def)
  moreover have "isr (ctl x t) = (if x = this then isr (ctl x s) AND NOT (irq_bit (unat (active_irq (ctl x s)))) else isr (ctl x s))" for x
    using sl by (simp add: same_lines_def u_def ctl_upd)
  moreover have "x \<noteq> this \<Longrightarrow> active_irq (ctl x t) = active_irq (ctl x s)" for x
    using sl by (simp add: same_lines_def u_def ctl_upd)
  moreover have "irq_inv t" using eoi_inv [OF assms(1)] unfolding t_def u_def by simp
  ultimately show ?thesis using that w by blast
qed

text \<open>What the handler of line \<open>n\<close> sends: a nonspecific EOI to its controller, and to the primary
  when that is the secondary.\<close>

definition end_of_interrupt :: "nat \<Rightarrow> pic_state \<Rightarrow> pic_state option" where
  "end_of_interrupt n s = (if n < 8 then write_command 0x20 0x20 s
     else Option.bind (write_command 0xa0 0x20 s) (write_command 0x20 0x20))"

lemma set_clear_bit: "\<not> bit w i \<Longrightarrow> (w OR irq_bit i) AND NOT (irq_bit i) = w" for w :: u8
  by (rule bit_word_eqI) (auto simp: bit_simps bit_irq_bit)

lemma end_of_interrupt_state:
  assumes "irq_inv s" "next_irq s = Some n"
  obtains t where "end_of_interrupt n (PIC_runIRQs True False s) = Some t" "irq_inv t" "requests t = requests s - {n}"
    "hw_interrupts t = hw_interrupts s @ [vector s n]" "\<And>x. isr (ctl x t) = isr (ctl x s)"
proof -
  let ?r = "PIC_runIRQs True False s"
  note b = next_irq_bounds [OF assms]
  have l: "line_of n < 8" using b(1) by (auto simp: line_of_def)
  have nst: "nested (ctl x s)" for x using inv_nested [OF assms(1)] .
  have ri: "irq_inv ?r" and rh: "hw_interrupts ?r = hw_interrupts s @ [vector s n]"
    using run_delivers [OF assms(1)] assms(2) by simp_all
  note rr = run_lines(1) [OF assms]
  have free: "\<not> bit (isr (ctl (pic_of n) s)) (line_of n)" "pic_of n = Secondary \<Longrightarrow> \<not> bit (isr (primary_controller s)) 2"
    using b(3) by (auto simp: eligible_def line_ready_def)
  have w8: "unat (word_of_nat i :: u8) = i \<and> word_of_nat i \<noteq> (8 :: u8)" if "i < 8" for i
  proof -
    have "unat (word_of_nat i :: u8) = i" using that by (simp add: unat_of_nat)
    moreover have "unat (8 :: u8) = 8" by simp
    ultimately show ?thesis using that by (metis nat_neq_iff)
  qed
  show ?thesis
  proof (cases "n < 8")
    case True
    then have pl: "pic_of n = Primary" "line_of n = n" by (simp_all add: pic_of_def line_of_def)
    have st: "ctl Primary ?r = start_irq n (ctl Primary s)" "ctl Secondary ?r = ctl Secondary s"
      using True pl by (simp_all add: run_state [OF assms])
    note sr = start_irq_regs [OF nst True, of Primary]
    have a: "active_irq (ctl Primary ?r) = word_of_nat n" using st(1) sr(3) by simp
    from nonspecific_eoi [OF ri, of Primary] a w8 [OF True] obtain t
      where t: "write_command (command_port Primary) 0x20 ?r = Some t" "irq_inv t" "requests t = requests ?r"
        "hw_interrupts t = hw_interrupts ?r"
        "\<And>x. isr (ctl x t) = (if x = Primary then isr (ctl x ?r) AND NOT (irq_bit (unat (active_irq (ctl x ?r)))) else isr (ctl x ?r))"
      by metis
    have "isr (ctl x t) = isr (ctl x s)" for x
      using t(5) [of x] a st sr(2) w8 [OF True] set_clear_bit free(1) pl by (cases x) simp_all
    moreover have "end_of_interrupt n ?r = Some t" using t(1) True by (simp add: end_of_interrupt_def command_port_def)
    ultimately show ?thesis using that t(2,3,4) rr rh by simp
  next
    case False
    then have pl: "pic_of n = Secondary" "line_of n = n - 8" by (simp_all add: pic_of_def line_of_def)
    have k: "n - 8 < 8" using l pl by simp
    have st: "ctl Primary ?r = start_irq 2 (ctl Primary s)" "ctl Secondary ?r = start_irq (n - 8) (ctl Secondary s)"
      using False pl by (simp_all add: run_state [OF assms])
    note sr = start_irq_regs [OF nst k, of Secondary] and sp = start_irq_regs [OF nst, of 2 Primary]
    have a: "active_irq (ctl Secondary ?r) = word_of_nat (n - 8)" "active_irq (ctl Primary ?r) = 2"
      using st sr(3) sp(3) by simp_all
    from nonspecific_eoi [OF ri, of Secondary] a w8 [OF k] obtain t
      where t: "write_command (command_port Secondary) 0x20 ?r = Some t" "irq_inv t" "requests t = requests ?r"
        "hw_interrupts t = hw_interrupts ?r"
        "\<And>x. isr (ctl x t) = (if x = Secondary then isr (ctl x ?r) AND NOT (irq_bit (unat (active_irq (ctl x ?r)))) else isr (ctl x ?r))"
        "\<And>x. x \<noteq> Secondary \<Longrightarrow> active_irq (ctl x t) = active_irq (ctl x ?r)"
      by metis
    have at: "active_irq (ctl Primary t) = 2" using t(6) [of Primary] a(2) by simp
    then have "active_irq (ctl Primary t) \<noteq> 8" by simp
    from nonspecific_eoi [OF t(2) this] obtain u
      where u: "write_command (command_port Primary) 0x20 t = Some u" "irq_inv u" "requests u = requests t"
        "hw_interrupts u = hw_interrupts t"
        "\<And>x. isr (ctl x u) = (if x = Primary then isr (ctl x t) AND NOT (irq_bit (unat (active_irq (ctl x t)))) else isr (ctl x t))"
      by metis
    have "isr (ctl x u) = isr (ctl x s)" for x
      using t(5) [of x] u(5) [of x] a at st sr(2) sp(2) w8 [OF k] set_clear_bit free pl by (cases x) simp_all
    moreover have "end_of_interrupt n ?r = Some u"
      using t(1) u(1) False by (simp add: end_of_interrupt_def command_port_def)
    ultimately show ?thesis using that u(2,3,4) t(3,4) rr rh by simp
  qed
qed

text \<open>C30. A handler that ends with the usual EOIs leaves the controllers as they were before the
  interrupt, less the request it served: the lines in service are those of before, every other
  request is kept, exactly one vector was started, and the CPU is signalled again exactly when
  another line can be served.\<close>

theorem interrupt_roundtrip:
  assumes "pic_reachable s" "find (eligible s) priority_order = Some n"
  shows "\<exists>t. end_of_interrupt n (PIC_runIRQs True False s) = Some t \<and> requests t = requests s - {n} \<and>
    in_service t = in_service s \<and> hw_interrupts t = hw_interrupts s @ [vector s n] \<and>
    (PIC_IRQCheck t \<noteq> 0) = pending (primary_controller t)"
proof -
  have inv: "irq_inv s" using reachable_inv [OF assms(1)] .
  then have "next_irq s = Some n" using next_irq_spec assms(2) by simp
  from end_of_interrupt_state [OF inv this] obtain t where t:
    "end_of_interrupt n (PIC_runIRQs True False s) = Some t" "irq_inv t" "requests t = requests s - {n}"
    "hw_interrupts t = hw_interrupts s @ [vector s n]" "\<And>x. isr (ctl x t) = isr (ctl x s)" by blast
  moreover have "in_service t = in_service s" using t(5) by (simp add: in_service_def)
  moreover have "(PIC_IRQCheck t \<noteq> 0) = pending (primary_controller t)"
    using t(2) by (simp add: irq_inv_def primary_ok_def truth_def)
  ultimately show ?thesis by blast
qed

text \<open>A keyboard request (line 1) after power-on.\<close>

definition key_pressed :: pic_state where
  "key_pressed = PIC_ActivateIRQ 1 (PIC_8259A False True)"

lemma key_pressed_reachable: "pic_reachable key_pressed"
  unfolding key_pressed_def by (rule pic_reachable.step [OF pic_reachable.power_on pic_step.activate_irq]) simp_all

lemma key_pressed_eligible: "find (eligible key_pressed) priority_order = Some 1"
proof -
  have k: "irr (primary_controller key_pressed) = 2" "irr (secondary_controller key_pressed) = 0"
    "isr (primary_controller key_pressed) = 0" "imr (primary_controller key_pressed) = 0xf8"
    by code_simp+
  then show ?thesis by (simp add: priority_order_def requests_def eligible_def pic_of_def line_of_def line_ready_def)
qed

theorem delivery_exact_witness: "find (eligible key_pressed) priority_order = Some 1 \<and> PIC_IRQCheck key_pressed \<noteq> 0 \<and>
    hw_interrupts (PIC_runIRQs True False key_pressed) = hw_interrupts key_pressed @ [vector key_pressed 1]"
  using delivery_exact [OF key_pressed_reachable] key_pressed_eligible by (simp add: find_Some_iff) blast

theorem interrupt_roundtrip_witness:
  "\<exists>t. end_of_interrupt 1 (PIC_runIRQs True False key_pressed) = Some t \<and> requests t = requests key_pressed - {1}"
  using interrupt_roundtrip [OF key_pressed_reachable key_pressed_eligible] by blast

section \<open>Initialisation words\<close>

text \<open>The data writes that an ICW1 announces: ICW2, ICW3 unless there is one controller, and ICW4 when bit 0 asks
  for it.\<close>

definition announced :: "u8 \<Rightarrow> nat" where
  "announced icw1 = 1 + (if icw1 AND 0x02 = 0x02 then 0 else 1) + unat (icw1 AND 0x01)"

lemma write_data_fields:
  "icw_index (ctl this s) \<in> {1, 2, 3} \<Longrightarrow> ctl this (write_data (data_port this) w s) =
    (if icw_index (ctl this s) = 1 then next_icw (\<lambda>c. if single c then c\<lparr>icw_index := 3\<rparr> else c) ((ctl this s)\<lparr>vector_base := w AND 0xf8\<rparr>)
     else if icw_index (ctl this s) = 2 then next_icw id (ctl this s)
     else next_icw id ((ctl this s)\<lparr>auto_eoi := (w AND 0x2 > 0)\<rparr>))"
  unfolding write_data_def Let_def ports by (auto simp: ctl_upd)

lemma set_imr_imr: "imr (ctl this (set_imr this m s)) = (if machine_pcjr s \<and> this = Primary then m AND NOT (irq_bit 6) else m)"
proof -
  have c: "imr (ctl this (check_for_irq this t)) = imr (ctl this t)" for t
    using same_lines_check [of t this] by (simp add: same_lines_def)
  show ?thesis unfolding set_imr_def Let_def by (simp only: c ctl_upd split: if_split) simp
qed

lemma icw1_state:
  assumes "truth (icw1 AND 0x10)"
  obtains t where "write_command (command_port this) icw1 s = Some t" "icw_index (ctl this t) = 1"
    "icw_words (ctl this t) = 2 + unat (icw1 AND 0x01)" "single (ctl this t) = (icw1 AND 0x02 = 0x02)" "imr (ctl this t) = 0"
proof -
  define t where "t = upd this (\<lambda>c. c\<lparr>icw_words := 2 + unat (icw1 AND 0x01)\<rparr>) (upd this (\<lambda>c. c\<lparr>icw_index := 1\<rparr>)
      (upd this (\<lambda>c. c\<lparr>single := (icw1 AND 0x02 = 0x02)\<rparr>) (set_imr this 0 s)))"
  have "write_command (command_port this) icw1 s = Some t"
    using assms unfolding write_command_def Let_def ports t_def by simp
  then show ?thesis using that by (auto simp: t_def ctl_upd set_imr_imr)
qed

lemma icw4_bit: "w AND 0x01 = 0 \<or> w AND 0x01 = (1 :: u8)"
  by (simp add: and_one_eq) auto

definition initialise :: "pic_id \<Rightarrow> u8 \<Rightarrow> u8 list \<Rightarrow> pic_state \<Rightarrow> pic_state option" where
  "initialise this icw1 ws s = map_option (fold (write_data (data_port this)) ws) (write_command (command_port this) icw1 s)"

text \<open>After an ICW1 and the data writes it announces, the controller has its new vector base, an
  empty mask and the announced EOI mode, and the next data write is the mask, with one exception:
  an ICW1 for a single controller without ICW4 leaves it waiting for an ICW4, so that the first
  mask write is not stored.\<close>

theorem icw_sequence:
  assumes "truth (icw1 AND 0x10)" "length ws = announced icw1"
  shows "\<exists>u. initialise this icw1 ws s = Some u \<and> vector_base (ctl this u) = hd ws AND 0xf8 \<and> imr (ctl this u) = 0 \<and>
    (icw1 AND 0x01 = 0x01 \<longrightarrow> auto_eoi (ctl this u) = (last ws AND 0x2 > 0)) \<and>
    imr (ctl this (write_data (data_port this) m u)) =
      (if icw1 AND 0x02 = 0x02 \<and> icw1 AND 0x01 = 0 then 0
       else if machine_pcjr u \<and> this = Primary then m AND NOT (irq_bit 6) else m)"
proof -
  from icw1_state [OF assms(1), of this s] obtain t where t: "write_command (command_port this) icw1 s = Some t"
    "icw_index (ctl this t) = 1" "icw_words (ctl this t) = 2 + unat (icw1 AND 0x01)"
    "single (ctl this t) = (icw1 AND 0x02 = 0x02)" "imr (ctl this t) = 0" by blast
  have mask: "icw_index (ctl this u) = 0 \<Longrightarrow> write_data (data_port this) m u = set_imr this m u" for u
    unfolding write_data_def Let_def ports by simp
  note w = initialise_def t mask set_imr_imr write_data_fields next_icw_def Let_def
  show ?thesis
  proof (cases "icw1 AND 0x02 = 0x02")
    case True
    show ?thesis
    proof (cases "icw1 AND 0x01 = 0")
      case no4: True
      then obtain a where "ws = [a]" using assms(2) True by (auto simp: announced_def length_Suc_conv)
      then show ?thesis using True no4 by (simp add: w)
    next
      case False
      then have one: "icw1 AND 0x01 = 1" using icw4_bit [of icw1] by blast
      then obtain a b where "ws = [a, b]" using assms(2) True by (auto simp: announced_def length_Suc_conv numeral_2_eq_2)
      then show ?thesis using True one by (simp add: w)
    qed
  next
    case False
    show ?thesis
    proof (cases "icw1 AND 0x01 = 0")
      case no4: True
      then obtain a b where "ws = [a, b]" using assms(2) False by (auto simp: announced_def length_Suc_conv numeral_2_eq_2)
      then show ?thesis using False no4 by (simp add: w)
    next
      case with4: False
      then have one: "icw1 AND 0x01 = 1" using icw4_bit [of icw1] by blast
      then obtain a b c where "ws = [a, b, c]" using assms(2) False
        by (auto simp: announced_def length_Suc_conv numeral_2_eq_2 numeral_3_eq_3)
      then show ?thesis using False one by (simp add: w)
    qed
  qed
qed

theorem icw_sequence_witness:
  "\<exists>u. initialise Primary 0x11 [0x08, 0x04, 0x01] (PIC_8259A False True) = Some u \<and> vector_base (ctl Primary u) = 0x08"
proof -
  have "truth (0x11 AND 0x10 :: u8)" "length [0x08, 0x04, 0x01 :: u8] = announced 0x11"
    by (simp_all add: truth_def announced_def)
  from icw_sequence [OF this, of Primary "PIC_8259A False True"] show ?thesis by auto
qed

end
