(* ===== verification/Event_Queue.thy ===== *)
theory Event_Queue
  imports Pic
begin

text \<open>
  The timed events and the tick handlers of \<open>src/src/hardware/pic.cpp\<close>: a pool of
  \<open>PIC_QUEUESIZE\<close> entries linked into the list of scheduled events, sorted by \<open>index\<close>, and the
  list of free entries. A pointer to an entry is its position in the pool, the null pointer is
  \<open>None\<close>. The loops that follow the links are partial functions, so that a cyclic list is the
  result \<open>None\<close>.

  The arithmetic on \<open>double\<close> is the parameter \<open>double_ops\<close> over a linearly ordered type: IEEE
  addition, subtraction, multiplication, division and the two conversions. The conversion to
  \<open>int32_t\<close> yields 32 bits for every argument, unspecified ones where the value does not fit; the
  assertion in \<open>PIC_MakeCycles\<close> that it fits is not a branch of the model. What an event handler or
  a tick handler does is code of the devices, the parameter \<open>handler\<close> (\<open>tick\<close>): the calls it
  makes to the queue and to the interrupt controllers, which may depend on the whole state. The
  handlers that were called are recorded in \<open>called\<close>.
\<close>

section \<open>State\<close>

record 'i double_ops =
  f_add :: "'i \<Rightarrow> 'i \<Rightarrow> 'i"
  f_sub :: "'i \<Rightarrow> 'i \<Rightarrow> 'i"
  f_mul :: "'i \<Rightarrow> 'i \<Rightarrow> 'i"
  f_div :: "'i \<Rightarrow> 'i \<Rightarrow> 'i"
  f_of_int :: "int \<Rightarrow> 'i"
  f_to_int :: "'i \<Rightarrow> u32"

record 'i PICEntry =
  index :: 'i
  val_of :: u32
  pic_event :: nat
  link :: "nat option"

record 'i machine =
  pic :: pic_state
  entries :: "nat \<Rightarrow> 'i PICEntry"
  free_entry :: "nat option"
  next_entry :: "nat option"
  InEventService :: bool
  srv_lag :: 'i
  CPU_CycleMax :: int
  atomic_pic_index :: 'i
  tickers :: "nat list"
  called :: "(nat \<times> u32) list"

definition PIC_QUEUESIZE :: nat where
  "PIC_QUEUESIZE = 512"

definition set_link :: "nat \<Rightarrow> nat option \<Rightarrow> 'i machine \<Rightarrow> 'i machine" where
  "set_link e p s = s\<lparr>entries := (entries s)(e := (entries s e)\<lparr>link := p\<rparr>)\<rparr>"

definition set_cycles :: "int \<Rightarrow> int \<Rightarrow> 'i machine \<Rightarrow> 'i machine" where
  "set_cycles left now s = s\<lparr>pic := (pic s)\<lparr>CPU_CycleLeft := left, CPU_Cycles := now\<rparr>\<rparr>"

section \<open>Position within the current millisecond\<close>

definition PIC_TickIndexND :: "'i machine \<Rightarrow> int" where
  "PIC_TickIndexND s = CPU_CycleMax s - CPU_CycleLeft (pic s) - CPU_Cycles (pic s)"

definition PIC_TickIndex :: "'i double_ops \<Rightarrow> 'i machine \<Rightarrow> 'i" where
  "PIC_TickIndex A s = f_div A (f_of_int A (PIC_TickIndexND s)) (f_of_int A (CPU_CycleMax s))"

definition PIC_MakeCycles :: "'i double_ops \<Rightarrow> 'i \<Rightarrow> 'i machine \<Rightarrow> int" where
  "PIC_MakeCycles A amount s = sint (f_to_int A (f_mul A (f_of_int A (CPU_CycleMax s)) amount))"

definition PIC_FullIndex :: "'i double_ops \<Rightarrow> 'i machine \<Rightarrow> 'i" where
  "PIC_FullIndex A s = f_add A (f_of_int A (uint (PIC_Ticks (pic s)))) (PIC_TickIndex A s)"

definition PIC_UpdateAtomicIndex :: "'i double_ops \<Rightarrow> 'i machine \<Rightarrow> 'i machine" where
  "PIC_UpdateAtomicIndex A s = s\<lparr>atomic_pic_index := PIC_FullIndex A s\<rparr>"

section \<open>Scheduling\<close>

text \<open>The \<open>while (find_entry)\<close> loop of \<open>AddEntry\<close>.\<close>

partial_function (option) insert_scan :: "nat \<Rightarrow> nat \<Rightarrow> ('i :: linorder) machine \<Rightarrow> 'i machine option" where
  "insert_scan entry find_entry s =
     (case link (entries s find_entry) of
        Some n \<Rightarrow>
          if index (entries s n) > index (entries s entry)
          then Some (set_link find_entry (Some entry) (set_link entry (link (entries s find_entry)) s))
          else insert_scan entry n s
      | None \<Rightarrow> Some (set_link find_entry (Some entry) (set_link entry (link (entries s find_entry)) s)))"

definition insert_entry :: "nat \<Rightarrow> ('i :: linorder) machine \<Rightarrow> 'i machine option" where
  "insert_entry entry s =
     (case next_entry s of
        None \<Rightarrow> Some ((set_link entry None s)\<lparr>next_entry := Some entry\<rparr>)
      | Some find_entry \<Rightarrow>
          if index (entries s find_entry) > index (entries s entry)
          then Some (set_link entry (Some find_entry) (s\<lparr>next_entry := Some entry\<rparr>))
          else insert_scan entry find_entry s)"

text \<open>The end of \<open>AddEntry\<close>: the slice of the CPU is cut when the first event comes before its end.\<close>

definition cut_slice :: "'i double_ops \<Rightarrow> ('i :: linorder) machine \<Rightarrow> 'i machine" where
  "cut_slice A s =
     (case next_entry s of None \<Rightarrow> s
      | Some n \<Rightarrow>
          let cycles = PIC_MakeCycles A (f_sub A (index (entries s n)) (PIC_TickIndex A s)) s
          in if cycles < CPU_Cycles (pic s)
             then set_cycles (CPU_CycleLeft (pic s) + CPU_Cycles (pic s)) 0 s else s)"

definition AddEntry :: "'i double_ops \<Rightarrow> nat \<Rightarrow> ('i :: linorder) machine \<Rightarrow> 'i machine option" where
  "AddEntry A entry s = map_option (cut_slice A) (insert_entry entry s)"

definition PIC_AddEvent :: "'i double_ops \<Rightarrow> nat \<Rightarrow> 'i \<Rightarrow> u32 \<Rightarrow> ('i :: linorder) machine \<Rightarrow> 'i machine option" where
  "PIC_AddEvent A handler delay val s =
     (case free_entry s of
        None \<Rightarrow> Some s
      | Some entry \<Rightarrow>
          let i = (if InEventService s then f_add A delay (srv_lag s) else f_add A delay (PIC_TickIndex A s));
              s = s\<lparr>entries := (entries s)(entry := (entries s entry)\<lparr>index := i, pic_event := handler, val_of := val\<rparr>)\<rparr>;
              s = s\<lparr>free_entry := link (entries s entry)\<rparr>
          in AddEntry A entry s)"

text \<open>The loop of the two functions that remove events; \<open>P\<close> is the test of the entry.\<close>

partial_function (option) remove_loop ::
  "('i PICEntry \<Rightarrow> bool) \<Rightarrow> nat option \<Rightarrow> nat option \<Rightarrow> 'i machine \<Rightarrow> 'i machine option" where
  "remove_loop P prev_entry entry s =
     (case entry of
        None \<Rightarrow> Some s
      | Some e \<Rightarrow>
          if P (entries s e)
          then case prev_entry of
              Some p \<Rightarrow>
                (let s = set_link p (link (entries s e)) s;
                     s = set_link e (free_entry s) s;
                     s = s\<lparr>free_entry := Some e\<rparr>
                 in remove_loop P prev_entry (link (entries s p)) s)
            | None \<Rightarrow>
                (let s = s\<lparr>next_entry := link (entries s e)\<rparr>;
                     s = set_link e (free_entry s) s;
                     s = s\<lparr>free_entry := Some e\<rparr>
                 in remove_loop P prev_entry (next_entry s) s)
          else remove_loop P entry (link (entries s e)) s)"

definition PIC_RemoveSpecificEvents :: "nat \<Rightarrow> u32 \<Rightarrow> 'i machine \<Rightarrow> 'i machine option" where
  "PIC_RemoveSpecificEvents handler val s =
     remove_loop (\<lambda>e. pic_event e = handler \<and> val_of e = val) None (next_entry s) s"

definition PIC_RemoveEvents :: "nat \<Rightarrow> 'i machine \<Rightarrow> 'i machine option" where
  "PIC_RemoveEvents handler s = remove_loop (\<lambda>e. pic_event e = handler) None (next_entry s) s"

section \<open>Handlers\<close>

datatype 'i action =
    AddEvent nat 'i u32
  | RemoveEvents nat
  | RemoveSpecificEvents nat u32
  | ActivateIRQ nat
  | DeActivateIRQ nat

fun run_action :: "'i double_ops \<Rightarrow> 'i action \<Rightarrow> ('i :: linorder) machine \<Rightarrow> 'i machine option" where
  "run_action A (AddEvent h d v) s = PIC_AddEvent A h d v s"
| "run_action A (RemoveEvents h) s = PIC_RemoveEvents h s"
| "run_action A (RemoveSpecificEvents h v) s = PIC_RemoveSpecificEvents h v s"
| "run_action A (ActivateIRQ n) s = Some (s\<lparr>pic := PIC_ActivateIRQ n (pic s)\<rparr>)"
| "run_action A (DeActivateIRQ n) s = Some (s\<lparr>pic := PIC_DeActivateIRQ n (pic s)\<rparr>)"

definition run_actions :: "'i double_ops \<Rightarrow> 'i action list \<Rightarrow> ('i :: linorder) machine \<Rightarrow> 'i machine option" where
  "run_actions A = run_all (run_action A)"

type_synonym 'i handler = "nat \<Rightarrow> u32 \<Rightarrow> 'i machine \<Rightarrow> 'i action list"

definition call :: "'i double_ops \<Rightarrow> 'i handler \<Rightarrow> nat \<Rightarrow> u32 \<Rightarrow> ('i :: linorder) machine \<Rightarrow> 'i machine option" where
  "call A H h v s = run_actions A (H h v s) (s\<lparr>called := called s @ [(h, v)]\<rparr>)"

section \<open>Running the queue\<close>

partial_function (option) run_events ::
  "'i double_ops \<Rightarrow> 'i handler \<Rightarrow> 'i \<Rightarrow> ('i :: linorder) machine \<Rightarrow> 'i machine option" where
  "run_events A H index_nd_f s =
     (case next_entry s of
        None \<Rightarrow> Some s
      | Some e \<Rightarrow>
          if f_mul A (index (entries s e)) (f_of_int A (CPU_CycleMax s)) \<le> index_nd_f
          then (let s = s\<lparr>next_entry := link (entries s e)\<rparr>;
                    s = s\<lparr>srv_lag := index (entries s e)\<rparr>
                in case call A H (pic_event (entries s e)) (val_of (entries s e)) s of
                    None \<Rightarrow> None
                  | Some s \<Rightarrow>
                      let s = set_link e (free_entry s) s;
                          s = s\<lparr>free_entry := Some e\<rparr>
                      in run_events A H index_nd_f s)
          else Some s)"

definition next_slice :: "'i double_ops \<Rightarrow> 'i \<Rightarrow> 'i machine \<Rightarrow> 'i machine" where
  "next_slice A index_nd_f s =
     (let s = (case next_entry s of
                 Some n \<Rightarrow>
                   let cycles = sint (f_to_int A (f_sub A (f_mul A (index (entries s n)) (f_of_int A (CPU_CycleMax s))) index_nd_f));
                       cycles = (if cycles = 0 then 1 else cycles)
                   in if cycles < CPU_CycleLeft (pic s) then set_cycles (CPU_CycleLeft (pic s)) cycles s
                      else set_cycles (CPU_CycleLeft (pic s)) (CPU_CycleLeft (pic s)) s
               | None \<Rightarrow> set_cycles (CPU_CycleLeft (pic s)) (CPU_CycleLeft (pic s)) s)
      in set_cycles (CPU_CycleLeft (pic s) - CPU_Cycles (pic s)) (CPU_Cycles (pic s)) s)"

definition PIC_RunQueue ::
  "'i double_ops \<Rightarrow> 'i handler \<Rightarrow> bool \<Rightarrow> bool \<Rightarrow> ('i :: linorder) machine \<Rightarrow> (bool \<times> 'i machine) option" where
  "PIC_RunQueue A H IF trap_run s =
     (let s = PIC_UpdateAtomicIndex A s;
          s = set_cycles (CPU_CycleLeft (pic s) + CPU_Cycles (pic s)) 0 s
      in if CPU_CycleLeft (pic s) \<le> 0 then Some (False, s)
         else let index_nd_f = f_of_int A (PIC_TickIndexND s)
              in case run_events A H index_nd_f (s\<lparr>InEventService := True\<rparr>) of
                   None \<Rightarrow> None
                 | Some s \<Rightarrow>
                     let s = next_slice A index_nd_f (s\<lparr>InEventService := False\<rparr>)
                     in Some (True, s\<lparr>pic := PIC_runIRQs IF trap_run (pic s)\<rparr>))"

section \<open>Ticks\<close>

definition TIMER_DelTickHandler :: "nat \<Rightarrow> 'i machine \<Rightarrow> 'i machine" where
  "TIMER_DelTickHandler handler s = s\<lparr>tickers := remove1 handler (tickers s)\<rparr>"

definition TIMER_AddTickHandler :: "nat \<Rightarrow> 'i machine \<Rightarrow> 'i machine" where
  "TIMER_AddTickHandler handler s = s\<lparr>tickers := handler # tickers s\<rparr>"

partial_function (option) lower_loop :: "'i double_ops \<Rightarrow> nat option \<Rightarrow> 'i machine \<Rightarrow> 'i machine option" where
  "lower_loop A entry s =
     (case entry of
        None \<Rightarrow> Some s
      | Some e \<Rightarrow>
          let s = s\<lparr>entries := (entries s)(e := (entries s e)\<lparr>index := f_sub A (index (entries s e)) (f_of_int A 1)\<rparr>)\<rparr>
          in lower_loop A (link (entries s e)) s)"

fun run_tickers :: "'i double_ops \<Rightarrow> (nat \<Rightarrow> 'i machine \<Rightarrow> 'i action list) \<Rightarrow> nat list \<Rightarrow> ('i :: linorder) machine \<Rightarrow> 'i machine option" where
  "run_tickers A tick [] s = Some s"
| "run_tickers A tick (h # hs) s =
     (case run_actions A (tick h s) s of None \<Rightarrow> None | Some t \<Rightarrow> run_tickers A tick hs t)"

definition TIMER_AddTick ::
  "'i double_ops \<Rightarrow> (nat \<Rightarrow> 'i machine \<Rightarrow> 'i action list) \<Rightarrow> ('i :: linorder) machine \<Rightarrow> 'i machine option" where
  "TIMER_AddTick A tick s =
     (let s = set_cycles (CPU_CycleMax s) 0 s;
          s = s\<lparr>pic := (pic s)\<lparr>PIC_Ticks := PIC_Ticks (pic s) + 1\<rparr>\<rparr>
      in case lower_loop A (next_entry s) s of
           None \<Rightarrow> None
         | Some s \<Rightarrow> run_tickers A tick (tickers s) s)"

section \<open>Power-on state\<close>

text \<open>The pool is linked into the free list. The entries carry no event yet; \<open>i0\<close> is their
  unspecified \<open>index\<close>.\<close>

definition init_queue :: "'i \<Rightarrow> pic_state \<Rightarrow> 'i machine" where
  "init_queue i0 p =
     \<lparr>pic = p,
      entries = (\<lambda>i. \<lparr>index = i0, val_of = 0, pic_event = 0,
                      link = (if i < PIC_QUEUESIZE - 1 then Some (i + 1) else None)\<rparr>),
      free_entry = Some 0, next_entry = None, InEventService = False, srv_lag = i0, CPU_CycleMax = 0,
      atomic_pic_index = i0, tickers = [], called = []\<rparr>"

end
