(* ===== verification/Queue_Correct.thy ===== *)
theory Queue_Correct
  imports Event_Queue
begin

text \<open>
  The linked pool implements a sorted list of events: \<open>path\<close> reads a linked list off the pool,
  \<open>queue_abs\<close> relates the pool to the list of its events, and each operation is shown to
  return and to act on that list as its specification does.
\<close>

section \<open>Linked lists in the pool\<close>

primrec path :: "(nat \<Rightarrow> 'i PICEntry) \<Rightarrow> nat option \<Rightarrow> nat list \<Rightarrow> nat option \<Rightarrow> bool" where
  "path E p [] q \<longleftrightarrow> p = q"
| "path E p (x # xs) q \<longleftrightarrow> p = Some x \<and> path E (link (E x)) xs q"

definition head :: "'a list \<Rightarrow> 'a option" where
  "head xs = (case xs of [] \<Rightarrow> None | x # _ \<Rightarrow> Some x)"

lemma head_simps [simp]: "head [] = None" "head (x # xs) = Some x"
  by (simp_all add: head_def)

lemma path_head: "path E p xs None \<Longrightarrow> p = head xs"
  by (cases xs) simp_all

lemma path_append: "path E p (xs @ ys) q \<longleftrightarrow> (\<exists>r. path E p xs r \<and> path E r ys q)"
  by (induction xs arbitrary: p) auto

lemma path_cong:
  "(\<And>x. x \<in> set xs \<Longrightarrow> link (E x) = link (E' x)) \<Longrightarrow> path E p xs q = path E' p xs q"
  by (induction xs arbitrary: p) auto

lemma path_upd [simp]: "x \<notin> set xs \<Longrightarrow> path (E(x := e)) p xs q = path E p xs q"
  by (rule path_cong) auto

text \<open>What an entry holds besides its link.\<close>

type_synonym 'i event = "'i \<times> nat \<times> u32"

definition ev :: "'i PICEntry \<Rightarrow> 'i event" where
  "ev e = (index e, pic_event e, val_of e)"

definition same_events :: "'i machine \<Rightarrow> 'i machine \<Rightarrow> bool" where
  "same_events s t \<longleftrightarrow> (\<forall>x. ev (entries t x) = ev (entries s x)) \<and>
     pic t = pic s \<and> InEventService t = InEventService s \<and> srv_lag t = srv_lag s \<and> CPU_CycleMax t = CPU_CycleMax s \<and>
     atomic_pic_index t = atomic_pic_index s \<and> tickers t = tickers s \<and> called t = called s"

lemma ev_link [simp]: "ev (e\<lparr>link := p\<rparr>) = ev e"
  by (simp add: ev_def)

lemma same_events_refl: "same_events s s"
  by (simp add: same_events_def)

lemma same_events_trans: "same_events s t \<Longrightarrow> same_events t u \<Longrightarrow> same_events s u"
  by (simp add: same_events_def)

lemma set_link_simps [simp]:
  "entries (set_link e p s) = (entries s)(e := (entries s e)\<lparr>link := p\<rparr>)"
  "free_entry (set_link e p s) = free_entry s" "next_entry (set_link e p s) = next_entry s"
  by (simp_all add: set_link_def)

lemma same_events_set_link [simp]: "same_events s (set_link e p t) = same_events s t"
  by (auto simp: same_events_def set_link_def)

lemma insert_middle:
  "set (takeWhile Q xs @ e # dropWhile Q xs) = insert e (set xs)"
  "distinct (takeWhile Q xs @ e # dropWhile Q xs) \<longleftrightarrow> distinct (e # xs)"
proof -
  have s: "set xs = set (takeWhile Q xs) \<union> set (dropWhile Q xs)" by (metis set_append takeWhile_dropWhile_id)
  have d: "distinct xs = distinct (takeWhile Q xs @ dropWhile Q xs)" by simp
  show "set (takeWhile Q xs @ e # dropWhile Q xs) = insert e (set xs)" using s by auto
  show "distinct (takeWhile Q xs @ e # dropWhile Q xs) \<longleftrightarrow> distinct (e # xs)"
    unfolding distinct.simps d s distinct_append by auto
qed

section \<open>Insertion\<close>

lemma insert_scan_spec:
  assumes "path (entries s) (Some f) (f # zs) None" "distinct (e # f # zs)"
  defines "zs1 \<equiv> takeWhile (\<lambda>z. index (entries s z) \<le> index (entries s e)) zs"
    and "zs2 \<equiv> dropWhile (\<lambda>z. index (entries s z) \<le> index (entries s e)) zs"
  shows "\<exists>t. insert_scan e f s = Some t \<and> path (entries t) (Some f) (f # zs1 @ e # zs2) None \<and>
    (\<forall>x. x \<notin> set (e # f # zs) \<longrightarrow> entries t x = entries s x) \<and> same_events s t \<and>
    free_entry t = free_entry s \<and> next_entry t = next_entry s"
  using assms(1,2) unfolding zs1_def zs2_def
proof (induction zs arbitrary: f)
  case Nil
  then show ?case
    by (subst insert_scan.simps) (auto simp: same_events_refl)
next
  case (Cons n zs)
  then have l: "link (entries s f) = Some n" by simp
  show ?case
  proof (cases "index (entries s n) > index (entries s e)")
    case True
    then show ?thesis using Cons.prems l
      by (subst insert_scan.simps)
        (auto simp: not_le [symmetric] simp: same_events_refl)
  next
    case False
    have "insert_scan e f s = insert_scan e n s" using False l by (subst insert_scan.simps) simp
    moreover from Cons.IH [of n] Cons.prems obtain t where t: "insert_scan e n s = Some t"
      "path (entries t) (Some n) (n # takeWhile (\<lambda>z. index (entries s z) \<le> index (entries s e)) zs @ e #
          dropWhile (\<lambda>z. index (entries s z) \<le> index (entries s e)) zs) None"
      "\<forall>x. x \<notin> set (e # n # zs) \<longrightarrow> entries t x = entries s x" "same_events s t"
      "free_entry t = free_entry s" "next_entry t = next_entry s" by auto
    moreover have "link (entries t f) = Some n" using t(3) Cons.prems l by simp
    ultimately show ?thesis using False by auto
  qed
qed

definition insert_slot :: "'i :: linorder machine \<Rightarrow> nat \<Rightarrow> nat list \<Rightarrow> nat list" where
  "insert_slot s e xs = takeWhile (\<lambda>z. index (entries s z) \<le> index (entries s e)) xs @ e #
     dropWhile (\<lambda>z. index (entries s z) \<le> index (entries s e)) xs"

lemma insert_entry_spec:
  assumes "path (entries s) (next_entry s) xs None" "distinct (e # xs)"
  shows "\<exists>t. insert_entry e s = Some t \<and> path (entries t) (next_entry t) (insert_slot s e xs) None \<and>
    (\<forall>x. x \<notin> set (e # xs) \<longrightarrow> entries t x = entries s x) \<and> same_events s t \<and> free_entry t = free_entry s"
proof (cases xs)
  case Nil
  then show ?thesis using assms
    by (simp add: insert_entry_def insert_slot_def) (simp add: same_events_def set_link_def)
next
  case (Cons f zs)
  then have n: "next_entry s = Some f" using assms by simp
  show ?thesis
  proof (cases "index (entries s f) > index (entries s e)")
    case True
    then show ?thesis using assms Cons n
      by (simp add: insert_entry_def insert_slot_def not_le [symmetric]) (simp add: same_events_def set_link_def)
  next
    case False
    then show ?thesis using insert_scan_spec [of s f zs e] assms Cons n
      by (auto simp: insert_entry_def insert_slot_def)
  qed
qed

section \<open>Removal\<close>

lemma same_events_updates [simp]:
  "same_events s (t\<lparr>free_entry := p\<rparr>) = same_events s t" "same_events s (t\<lparr>next_entry := p\<rparr>) = same_events s t"
  "same_events (s\<lparr>free_entry := p\<rparr>) t = same_events s t" "same_events (s\<lparr>next_entry := p\<rparr>) t = same_events s t"
  by (simp_all add: same_events_def)

lemma remove_loop_spec:
  assumes "\<And>e p. P (e\<lparr>link := p\<rparr>) = P e"
    and "path (entries s) (next_entry s) (ks @ ys) None" "path (entries s) (free_entry s) fs None" "distinct (ks @ ys @ fs)"
  shows "\<exists>t. remove_loop P (head (rev ks)) (head ys) s = Some t \<and>
    path (entries t) (next_entry t) (ks @ filter (\<lambda>x. \<not> P (entries s x)) ys) None \<and>
    path (entries t) (free_entry t) (rev (filter (\<lambda>x. P (entries s x)) ys) @ fs) None \<and> same_events s t"
  using assms(2-)
proof (induction ys arbitrary: ks fs s)
  case Nil
  then show ?case by (subst remove_loop.simps) (auto simp: same_events_refl)
next
  case (Cons e ys)
  note split = path_append [THEN iffD1, OF Cons.prems(1)]
  have nx: "link (entries s e) = head ys" using split path_head by fastforce
  show ?case
  proof (cases "P (entries s e)")
    case False
    have "remove_loop P (head (rev ks)) (Some e) s = remove_loop P (Some e) (head ys) s"
      using False nx by (subst remove_loop.simps) simp
    then show ?thesis using Cons.IH [of s "ks @ [e]" fs] Cons.prems False by auto
  next
    case True
    define u where "u = (set_link e (free_entry s)
      (case rev ks of [] \<Rightarrow> s\<lparr>next_entry := head ys\<rparr> | p # _ \<Rightarrow> set_link p (head ys) s))\<lparr>free_entry := Some e\<rparr>"
    have step: "remove_loop P (head (rev ks)) (Some e) s = remove_loop P (head (rev ks)) (head ys) u"
    proof (cases ks rule: rev_cases)
      case Nil
      then show ?thesis using True nx by (subst remove_loop.simps) (simp add: u_def)
    next
      case (snoc qs p)
      then have "p \<noteq> e" using Cons.prems by auto
      then show ?thesis using True nx snoc by (subst remove_loop.simps) (simp add: u_def Let_def)
    qed
    have E: "link (entries u x) = link (entries s x)" "entries u x = entries s x" if "x \<noteq> e" "x \<notin> set ks" for x
      using that by (cases ks rule: rev_cases; simp add: u_def)+
    have pu: "path (entries u) (next_entry u) (ks @ ys) None"
    proof (cases ks rule: rev_cases)
      case Nil
      then show ?thesis using Cons.prems nx by (simp add: u_def)
    next
      case (snoc qs p)
      from split snoc have "path (entries s) (next_entry s) qs (Some p)" "path (entries s) (head ys) ys None"
        using nx by (auto simp: path_append)
      then show ?thesis using snoc Cons.prems by (auto simp: u_def path_append)
    qed
    have fu: "path (entries u) (free_entry u) (e # fs) None"
    proof -
      have "path (entries u) (free_entry s) fs None = path (entries s) (free_entry s) fs None"
      proof (rule path_cong)
        fix x
        assume "x \<in> set fs"
        then have "x \<noteq> e" "x \<notin> set ks" using Cons.prems(3) by auto
        then show "link (entries u x) = link (entries s x)" by (rule E)
      qed
      then show ?thesis using Cons.prems(2) by (simp add: u_def)
    qed
    have se: "same_events s u"
      by (cases ks rule: rev_cases)
        (auto simp: u_def same_events_refl)
    have "entries u x = entries s x" if "x \<in> set ys" for x
    proof -
      have "x \<noteq> e" "x \<notin> set ks" using that Cons.prems(3) by auto
      then show ?thesis by (rule E)
    qed
    then have flt: "filter (\<lambda>x. \<not> P (entries u x)) ys = filter (\<lambda>x. \<not> P (entries s x)) ys"
      "filter (\<lambda>x. P (entries u x)) ys = filter (\<lambda>x. P (entries s x)) ys"
      by (auto intro: filter_cong)
    from Cons.IH [OF pu fu] Cons.prems(3) obtain t where "remove_loop P (head (rev ks)) (head ys) u = Some t"
      "path (entries t) (next_entry t) (ks @ filter (\<lambda>x. \<not> P (entries s x)) ys) None"
      "path (entries t) (free_entry t) (rev (filter (\<lambda>x. P (entries s x)) ys) @ e # fs) None" "same_events u t"
      unfolding flt by auto
    then show ?thesis using step True same_events_trans [OF se] by auto
  qed
qed

section \<open>Abstraction\<close>

text \<open>
  \<open>queue_abs held s evs\<close>: the scheduled events are \<open>evs\<close>, in the order of their indices, and
  every entry of the pool is scheduled, free, or one of \<open>held\<close> (the entry whose handler
  is running).
\<close>

definition queue_abs :: "nat list \<Rightarrow> ('i :: linorder) machine \<Rightarrow> 'i event list \<Rightarrow> bool" where
  "queue_abs held s evs \<longleftrightarrow> (\<exists>xs fs. path (entries s) (next_entry s) xs None \<and> path (entries s) (free_entry s) fs None \<and>
     distinct (xs @ fs @ held) \<and> set (xs @ fs @ held) = {..<PIC_QUEUESIZE} \<and>
     evs = map (\<lambda>x. ev (entries s x)) xs \<and> sorted (map fst evs))"

definition insert_event :: "('i :: linorder) event \<Rightarrow> 'i event list \<Rightarrow> 'i event list" where
  "insert_event e evs = takeWhile (\<lambda>z. fst z \<le> fst e) evs @ e # dropWhile (\<lambda>z. fst z \<le> fst e) evs"

lemma queue_abs_length:
  assumes "queue_abs held s evs"
  shows "length evs + length held \<le> PIC_QUEUESIZE" "free_entry s = None \<longleftrightarrow> length evs + length held = PIC_QUEUESIZE"
proof -
  from assms obtain xs fs where q: "path (entries s) (free_entry s) fs None"
     "distinct (xs @ fs @ held)" "set (xs @ fs @ held) = {..<PIC_QUEUESIZE}" "length evs = length xs"
    unfolding queue_abs_def by auto
  have "length (xs @ fs @ held) = PIC_QUEUESIZE" using distinct_card [OF q(2)] q(3) by simp
  then have "length evs + length held + length fs = PIC_QUEUESIZE" using q(4) by simp
  moreover have "free_entry s = None \<longleftrightarrow> length fs = 0" using path_head [OF q(1)] by (cases fs) auto
  ultimately show "length evs + length held \<le> PIC_QUEUESIZE" "free_entry s = None \<longleftrightarrow> length evs + length held = PIC_QUEUESIZE"
    by auto
qed

lemma sorted_insert_event: "sorted (map fst evs) \<Longrightarrow> sorted (map fst (insert_event e evs))"
proof (induction evs)
  case (Cons x evs)
  have "set (insert_event e evs) = insert e (set evs)"
    unfolding insert_event_def by (rule insert_middle)
  then show ?case using Cons by (auto simp: insert_event_def split: if_splits)
qed (simp add: insert_event_def)

lemma cut_slice_frame [simp]:
  "entries (cut_slice A s) = entries s" "next_entry (cut_slice A s) = next_entry s" "free_entry (cut_slice A s) = free_entry s"
  "InEventService (cut_slice A s) = InEventService s" "srv_lag (cut_slice A s) = srv_lag s"
  "CPU_CycleMax (cut_slice A s) = CPU_CycleMax s" "called (cut_slice A s) = called s" "tickers (cut_slice A s) = tickers s"
  by (simp_all add: cut_slice_def set_cycles_def Let_def split: option.split)

text \<open>What the queue operations leave alone; while \<open>PIC_RunQueue\<close> serves events, \<open>CPU_Cycles\<close>
  is zero.\<close>

definition queue_frame :: "'i machine \<Rightarrow> 'i machine \<Rightarrow> bool" where
  "queue_frame s t \<longleftrightarrow> InEventService t = InEventService s \<and> srv_lag t = srv_lag s \<and> CPU_CycleMax t = CPU_CycleMax s \<and>
     called t = called s \<and> tickers t = tickers s \<and>
     (CPU_Cycles (pic s) = 0 \<longrightarrow> CPU_Cycles (pic t) = 0 \<and> CPU_CycleLeft (pic t) = CPU_CycleLeft (pic s))"

lemma cut_slice_cycles:
  "CPU_Cycles (pic s) = 0 \<Longrightarrow> CPU_Cycles (pic (cut_slice A s)) = 0 \<and> CPU_CycleLeft (pic (cut_slice A s)) = CPU_CycleLeft (pic s)"
  by (simp add: cut_slice_def set_cycles_def Let_def split: option.split)

definition event_time :: "'i double_ops \<Rightarrow> 'i machine \<Rightarrow> 'i \<Rightarrow> 'i" where
  "event_time A s delay = (if InEventService s then f_add A delay (srv_lag s) else f_add A delay (PIC_TickIndex A s))"

lemma add_event_abs:
  assumes "queue_abs held s evs"
  shows "\<exists>t. PIC_AddEvent A h d v s = Some t \<and> queue_frame s t \<and>
    queue_abs held t (if length evs + length held < PIC_QUEUESIZE then insert_event (event_time A s d, h, v) evs else evs)"
proof (cases "free_entry s")
  case None
  then have "\<not> length evs + length held < PIC_QUEUESIZE" using queue_abs_length(2) [OF assms] by simp
  then show ?thesis using None assms by (simp add: PIC_AddEvent_def queue_frame_def)
next
  case (Some e)
  from assms obtain xs fs' where q: "path (entries s) (next_entry s) xs None" "path (entries s) (free_entry s) fs' None"
    "distinct (xs @ fs' @ held)" "set (xs @ fs' @ held) = {..<PIC_QUEUESIZE}" "evs = map (\<lambda>x. ev (entries s x)) xs"
    "sorted (map fst evs)" unfolding queue_abs_def by auto
  obtain fs where fs: "fs' = e # fs" using path_head [OF q(2)] Some by (cases fs') simp_all
  define u where "u = s\<lparr>entries := (entries s)(e := (entries s e)\<lparr>index := event_time A s d, pic_event := h, val_of := v\<rparr>),
    free_entry := link (entries s e)\<rparr>"
  have add: "PIC_AddEvent A h d v s = AddEntry A e u"
    using Some by (simp add: PIC_AddEvent_def u_def event_time_def Let_def)
  have e: "e \<notin> set xs" "e \<notin> set fs" "distinct xs" using q(3) fs by auto
  have pu: "path (entries u) (next_entry u) xs None" "path (entries u) (free_entry u) fs None"
    using q(1,2) e fs by (simp_all add: u_def)
  from insert_entry_spec [OF pu(1), of e] e obtain t where t: "insert_entry e u = Some t"
    "path (entries t) (next_entry t) (insert_slot u e xs) None" "\<forall>x. x \<notin> set (e # xs) \<longrightarrow> entries t x = entries u x"
    "same_events u t" "free_entry t = free_entry u" by auto
  have ft: "path (entries t) (free_entry t) fs None"
  proof -
    have "path (entries t) (free_entry t) fs None = path (entries u) (free_entry u) fs None"
      unfolding t(5) by (rule path_cong) (use t(3) q(3) fs in auto)
    then show ?thesis using pu(2) by simp
  qed
  have evt: "ev (entries t x) = ev (entries u x)" for x using t(4) by (simp add: same_events_def)
  have inu: "index (entries u x) = index (entries s x)" "ev (entries u x) = ev (entries s x)" if "x \<in> set xs" for x
    using that e by (auto simp: u_def)
  have eu: "ev (entries u e) = (event_time A s d, h, v)" "index (entries u e) = event_time A s d" by (simp_all add: u_def ev_def)
  have abs: "map (\<lambda>x. ev (entries t x)) (insert_slot u e xs) = insert_event (event_time A s d, h, v) evs"
  proof -
    have tw: "takeWhile (\<lambda>z. index (entries u z) \<le> index (entries u e)) xs = takeWhile (\<lambda>z. fst (ev (entries s z)) \<le> event_time A s d) xs"
      "dropWhile (\<lambda>z. index (entries u z) \<le> index (entries u e)) xs = dropWhile (\<lambda>z. fst (ev (entries s z)) \<le> event_time A s d) xs"
      by (auto simp: eu inu ev_def intro!: takeWhile_cong dropWhile_cong)
    have sub: "map (\<lambda>x. ev (entries u x)) ys = map (\<lambda>x. ev (entries s x)) ys" if "set ys \<subseteq> set xs" for ys
      using that inu by auto
    have "set (takeWhile Q xs) \<subseteq> set xs" "set (dropWhile Q xs) \<subseteq> set xs" for Q
      by (auto dest: set_takeWhileD set_dropWhileD)
    then show ?thesis unfolding insert_slot_def tw insert_event_def q(5) evt
      by (simp add: eu sub takeWhile_map dropWhile_map comp_def)
  qed
  have set_is: "set (insert_slot u e xs) = insert e (set xs)" "distinct (insert_slot u e xs)"
    using insert_middle [of _ xs e] e(1,3) by (simp_all add: insert_slot_def)
  have "queue_abs held (cut_slice A t) (insert_event (event_time A s d, h, v) evs)"
    unfolding queue_abs_def
  proof (intro exI conjI)
    show "path (entries (cut_slice A t)) (next_entry (cut_slice A t)) (insert_slot u e xs) None" using t(2) by simp
    show "path (entries (cut_slice A t)) (free_entry (cut_slice A t)) fs None" using ft by simp
    show "distinct (insert_slot u e xs @ fs @ held)" "set (insert_slot u e xs @ fs @ held) = {..<PIC_QUEUESIZE}"
      using q(3,4) fs set_is by auto
  qed (use abs sorted_insert_event [OF q(6)] in auto)
  moreover have "queue_frame s (cut_slice A t)" using t(4) cut_slice_cycles [of t A]
    by (simp add: queue_frame_def same_events_def u_def)
  moreover have "length evs + length held < PIC_QUEUESIZE" using queue_abs_length [OF assms] Some by auto
  ultimately show ?thesis using add t(1) by (simp add: AddEntry_def)
qed

lemma remove_abs:
  assumes "queue_abs held s evs" "\<And>e p. P (e\<lparr>link := p\<rparr>) = P e" "\<And>e. Q (ev e) = P e"
  shows "\<exists>t. remove_loop P None (next_entry s) s = Some t \<and> queue_frame s t \<and> queue_abs held t (filter (\<lambda>e. \<not> Q e) evs)"
proof -
  from assms(1) obtain xs fs where q: "path (entries s) (next_entry s) xs None" "path (entries s) (free_entry s) fs None"
    "distinct (xs @ fs @ held)" "set (xs @ fs @ held) = {..<PIC_QUEUESIZE}" "evs = map (\<lambda>x. ev (entries s x)) xs"
    "sorted (map fst evs)" unfolding queue_abs_def by auto
  from remove_loop_spec [OF assms(2), of s "[]" xs fs] q obtain t where t: "remove_loop P None (next_entry s) s = Some t"
    "path (entries t) (next_entry t) (filter (\<lambda>x. \<not> P (entries s x)) xs) None"
    "path (entries t) (free_entry t) (rev (filter (\<lambda>x. P (entries s x)) xs) @ fs) None" "same_events s t"
    using path_head [OF q(1)] by auto
  have "queue_abs held t (filter (\<lambda>e. \<not> Q e) evs)"
    unfolding queue_abs_def
  proof (intro exI conjI)
    show "path (entries t) (next_entry t) (filter (\<lambda>x. \<not> P (entries s x)) xs) None"
      "path (entries t) (free_entry t) (rev (filter (\<lambda>x. P (entries s x)) xs) @ fs) None" by (fact t)+
    show "distinct (filter (\<lambda>x. \<not> P (entries s x)) xs @ (rev (filter (\<lambda>x. P (entries s x)) xs) @ fs) @ held)"
      using q(3) by auto
    show "set (filter (\<lambda>x. \<not> P (entries s x)) xs @ (rev (filter (\<lambda>x. P (entries s x)) xs) @ fs) @ held) = {..<PIC_QUEUESIZE}"
      using q(4) by auto
    show "filter (\<lambda>e. \<not> Q e) evs = map (\<lambda>x. ev (entries t x)) (filter (\<lambda>x. \<not> P (entries s x)) xs)"
      using t(4) assms(3) by (simp add: q(5) filter_map comp_def same_events_def)
    show "sorted (map fst (filter (\<lambda>e. \<not> Q e) evs))" using sorted_filter [OF q(6)] .
  qed
  then show ?thesis using t(1,4) by (auto simp: queue_frame_def same_events_def)
qed

lemma lower_loop_spec:
  assumes "path (entries s) p xs None" "distinct xs"
  shows "\<exists>t. lower_loop A p s = Some t \<and> t = s\<lparr>entries := \<lambda>x. if x \<in> set xs
    then (entries s x)\<lparr>index := f_sub A (index (entries s x)) (f_of_int A 1)\<rparr> else entries s x\<rparr>"
  using assms
proof (induction xs arbitrary: p s)
  case Nil
  then show ?case by (subst lower_loop.simps) simp
next
  case (Cons e xs)
  define u where "u = s\<lparr>entries := (entries s)(e := (entries s e)\<lparr>index := f_sub A (index (entries s e)) (f_of_int A 1)\<rparr>)\<rparr>"
  have "lower_loop A p s = lower_loop A (link (entries u e)) u"
    using Cons.prems by (subst lower_loop.simps) (simp add: u_def Let_def)
  moreover have "path (entries u) (link (entries u e)) xs None" using Cons.prems by (simp add: u_def)
  moreover have "u\<lparr>entries := \<lambda>x. if x \<in> set xs then (entries u x)\<lparr>index := f_sub A (index (entries u x)) (f_of_int A 1)\<rparr> else entries u x\<rparr> =
      s\<lparr>entries := \<lambda>x. if x \<in> set (e # xs) then (entries s x)\<lparr>index := f_sub A (index (entries s x)) (f_of_int A 1)\<rparr> else entries s x\<rparr>"
    using Cons.prems(2) by (auto simp: u_def fun_eq_iff)
  ultimately show ?case using Cons.IH [of u "link (entries u e)"] Cons.prems by simp
qed

definition lowered :: "'i double_ops \<Rightarrow> 'i event \<Rightarrow> 'i event" where
  "lowered A e = (f_sub A (fst e) (f_of_int A 1), snd e)"

lemma lower_abs:
  assumes "queue_abs held s evs" "mono (\<lambda>i. f_sub A i (f_of_int A 1))"
  shows "\<exists>t. lower_loop A (next_entry s) s = Some t \<and> queue_frame s t \<and> pic t = pic s \<and> queue_abs held t (map (lowered A) evs)"
proof -
  from assms(1) obtain xs fs where q: "path (entries s) (next_entry s) xs None" "path (entries s) (free_entry s) fs None"
    "distinct (xs @ fs @ held)" "set (xs @ fs @ held) = {..<PIC_QUEUESIZE}" "evs = map (\<lambda>x. ev (entries s x)) xs"
    "sorted (map fst evs)" unfolding queue_abs_def by auto
  define t where "t = s\<lparr>entries := \<lambda>x. if x \<in> set xs
    then (entries s x)\<lparr>index := f_sub A (index (entries s x)) (f_of_int A 1)\<rparr> else entries s x\<rparr>"
  have l: "link (entries t x) = link (entries s x)" for x by (simp add: t_def)
  have "queue_abs held t (map (lowered A) evs)"
    unfolding queue_abs_def
  proof (intro exI conjI)
    show "path (entries t) (next_entry t) xs None" "path (entries t) (free_entry t) fs None"
      using q(1,2) path_cong [OF l] by (simp_all add: t_def)
    show "map (lowered A) evs = map (\<lambda>x. ev (entries t x)) xs" by (simp add: q(5) t_def lowered_def ev_def)
    have "map fst (map (lowered A) evs) = map (\<lambda>i. f_sub A i (f_of_int A 1)) (map fst evs)" by (simp add: lowered_def)
    moreover have "sorted (map f is)" if "mono f" "sorted is" for f :: "'a \<Rightarrow> 'a" and "is"
      using that(2) by (induction "is") (auto intro: monoD [OF that(1)])
    ultimately show "sorted (map fst (map (lowered A) evs))" using q(6) assms(2) by (simp only:)
  qed (use q in auto)
  then show ?thesis using lower_loop_spec [OF q(1)] q(3) by (auto simp: t_def queue_frame_def)
qed

lemma init_queue_abs: "queue_abs [] (init_queue i0 p) []"
proof -
  have "path (entries (init_queue i0 p)) (if k < PIC_QUEUESIZE then Some k else None) [k ..< PIC_QUEUESIZE] None" for k
  proof (induction "PIC_QUEUESIZE - k" arbitrary: k)
    case (Suc n)
    then have k: "k < PIC_QUEUESIZE" "n = PIC_QUEUESIZE - (k + 1)" by simp_all
    then have "link (entries (init_queue i0 p) k) = (if k + 1 < PIC_QUEUESIZE then Some (k + 1) else None)"
      by (auto simp: init_queue_def)
    then show ?case using Suc.hyps(1) [OF k(2)] k(1) by (simp add: upt_conv_Cons)
  qed simp
  from this [of 0] show ?thesis
    unfolding queue_abs_def
    by (intro exI [of _ "[]"] exI [of _ "[0 ..< PIC_QUEUESIZE]"]) (auto simp: init_queue_def PIC_QUEUESIZE_def)
qed

end
