(* ===== verification/Queue_Run.thy ===== *)
theory Queue_Run
  imports Complex_Main Queue_Correct "HOL-Library.Multiset" "HOL-Library.Sublist"
begin

text \<open>
  Handlers as clients of the queue, and \<open>PIC_RunQueue\<close>: it returns as long as the events that
  handlers schedule advance in time, also when some of them are due at once, serves the due events in
  order, leaves none, and hands the CPU a slice of at least one cycle.
\<close>

section \<open>What an action does to the scheduled events\<close>

fun spec_action :: "'i double_ops \<Rightarrow> 'i \<Rightarrow> nat \<Rightarrow> 'i action \<Rightarrow> ('i :: linorder) event list \<Rightarrow> 'i event list" where
  "spec_action A lag room (AddEvent h d v) evs =
     (if length evs < room then insert_event (f_add A d lag, h, v) evs else evs)"
| "spec_action A lag room (RemoveEvents h) evs = filter (\<lambda>e. fst (snd e) \<noteq> h) evs"
| "spec_action A lag room (RemoveSpecificEvents h v) evs = filter (\<lambda>e. snd e \<noteq> (h, v)) evs"
| "spec_action A lag room (ActivateIRQ n) evs = evs"
| "spec_action A lag room (DeActivateIRQ n) evs = evs"

text \<open>While the queue runs, \<open>CPU_Cycles\<close> is zero and stays so.\<close>

lemma raise_irq_cycles:
  "CPU_Cycles s = 0 \<Longrightarrow> CPU_Cycles (raise_irq this v s) = 0 \<and> CPU_CycleLeft (raise_irq this v s) = CPU_CycleLeft s"
  by (cases this) (auto simp: Let_def activate_cpu_def)

lemma check_for_irq_cycles:
  "CPU_Cycles s = 0 \<Longrightarrow> CPU_Cycles (check_for_irq Primary s) = 0 \<and> CPU_CycleLeft (check_for_irq Primary s) = CPU_CycleLeft s"
  by (simp add: check_for_irq.simps [of Primary s] Let_def activate_cpu_def del: check_for_irq.simps scan_irq.simps
      split: option.split)

lemma lower_primary_cycles:
  "CPU_Cycles s = 0 \<Longrightarrow> CPU_Cycles (lower_irq Primary v s) = 0 \<and> CPU_CycleLeft (lower_irq Primary v s) = CPU_CycleLeft s"
  by (simp add: Let_def check_for_irq_cycles del: check_for_irq.simps scan_irq.simps)

lemma lower_irq_cycles:
  assumes "CPU_Cycles s = 0"
  shows "CPU_Cycles (lower_irq this v s) = 0 \<and> CPU_CycleLeft (lower_irq this v s) = CPU_CycleLeft s"
proof (cases this)
  case Primary
  then show ?thesis using lower_primary_cycles [OF assms] by simp
next
  case Secondary
  have "CPU_Cycles (check_for_irq Secondary t) = 0 \<and> CPU_CycleLeft (check_for_irq Secondary t) = CPU_CycleLeft t"
    if "CPU_Cycles t = 0" for t
    using that lower_primary_cycles [of t 2] raise_irq_cycles [of t Primary 2]
    by (simp add: check_for_irq.simps [of Secondary] Let_def del: check_for_irq.simps lower_irq.simps raise_irq.simps scan_irq.simps
        split: option.split)
  then show ?thesis using assms Secondary
    by (simp add: lower_irq.simps [of Secondary] Let_def del: check_for_irq.simps lower_irq.simps)
qed

lemma run_action_abs:
  assumes "queue_abs held s evs" "InEventService s" "srv_lag s = lag"
  shows "\<exists>t. run_action A a s = Some t \<and> queue_frame s t \<and> queue_abs held t (spec_action A lag (PIC_QUEUESIZE - length held) a evs)"
proof (cases a)
  case (AddEvent h d v)
  have "length evs + length held < PIC_QUEUESIZE \<longleftrightarrow> length evs < PIC_QUEUESIZE - length held" by auto
  then show ?thesis using add_event_abs [OF assms(1), of A h d v] assms(2,3) AddEvent
    by (simp add: event_time_def split: if_split_asm)
next
  case (RemoveEvents h)
  have "(\<lambda>e :: 'a event. fst (snd e) \<noteq> h) = (\<lambda>e. \<not> fst (snd e) = h)" by simp
  then show ?thesis
    using remove_abs [OF assms(1), of "\<lambda>e. pic_event e = h" "\<lambda>e. fst (snd e) = h"] RemoveEvents
    by (simp add: PIC_RemoveEvents_def ev_def)
next
  case (RemoveSpecificEvents h v)
  then show ?thesis
    using remove_abs [OF assms(1), of "\<lambda>e. pic_event e = h \<and> val_of e = v" "\<lambda>e. snd e = (h, v)"]
    by (simp add: PIC_RemoveSpecificEvents_def ev_def)
next
  case (ActivateIRQ n)
  then show ?thesis
    using assms raise_irq_cycles [of "pic s"] by (simp add: queue_abs_def queue_frame_def PIC_ActivateIRQ_def Let_def)
next
  case (DeActivateIRQ n)
  then show ?thesis
    using assms lower_irq_cycles [of "pic s"] by (simp add: queue_abs_def queue_frame_def PIC_DeActivateIRQ_def)
qed

lemma queue_frame_refl: "queue_frame s s"
  by (simp add: queue_frame_def)

lemma queue_frame_trans: "queue_frame s t \<Longrightarrow> queue_frame t u \<Longrightarrow> queue_frame s u"
  by (simp add: queue_frame_def)

interpretation service: refined_steps
  "\<lambda>s evs. queue_abs held s evs \<and> InEventService s \<and> srv_lag s = lag" queue_frame "run_action A"
  "spec_action A lag (PIC_QUEUESIZE - length held)"
  for held :: "nat list" and lag :: "'i :: linorder" and A :: "'i double_ops"
proof (unfold_locales, goal_cases)
  case (1 s v a)
  then show ?case using run_action_abs [of held s v lag A a] by (auto simp: queue_frame_def)
qed (auto intro: queue_frame_refl queue_frame_trans)

text \<open>Outside the service of events the time of an event depends on the cycles; the shape is kept all the same.\<close>

interpretation any: refined_steps
  "\<lambda>s (u :: unit). \<exists>evs. queue_abs held s evs" queue_frame "run_action A" "\<lambda>a u. ()"
  for held :: "nat list" and A :: "('i :: linorder) double_ops"
proof (unfold_locales, goal_cases)
  case (1 s v a)
  then obtain evs where q: "queue_abs held s evs" by blast
  show ?case
  proof (cases a)
    case (AddEvent h d v)
    then show ?thesis using add_event_abs [OF q, of A h d v] by auto
  next
    case (RemoveEvents h)
    then show ?thesis using remove_abs [OF q, of "\<lambda>e. pic_event e = h" "\<lambda>e. fst (snd e) = h"]
      by (auto simp: PIC_RemoveEvents_def ev_def)
  next
    case (RemoveSpecificEvents h v)
    then show ?thesis using remove_abs [OF q, of "\<lambda>e. pic_event e = h \<and> val_of e = v" "\<lambda>e. snd e = (h, v)"]
      by (auto simp: PIC_RemoveSpecificEvents_def ev_def)
  next
    case (ActivateIRQ n)
    then show ?thesis
      using q raise_irq_cycles [of "pic s"] by (auto simp: queue_abs_def queue_frame_def PIC_ActivateIRQ_def Let_def)
  next
    case (DeActivateIRQ n)
    then show ?thesis
      using q lower_irq_cycles [of "pic s"] by (auto simp: queue_abs_def queue_frame_def PIC_DeActivateIRQ_def)
  qed
qed (auto intro: queue_frame_refl queue_frame_trans)

section \<open>Serving the due events\<close>

definition due :: "'i double_ops \<Rightarrow> int \<Rightarrow> 'i \<Rightarrow> ('i :: linorder) event \<Rightarrow> bool" where
  "due A cmax nd e \<longleftrightarrow> f_mul A (fst e) (f_of_int A cmax) \<le> nd"

text \<open>What a handler schedules is not before the event being served (\<open>lag\<close> is its time), and what is due at once
  advances: it has a smaller \<open>ahead\<close>, a measure of the distance to the present. A handler that schedules
  its event again with a fixed delay is of this kind.\<close>

fun advances :: "'i double_ops \<Rightarrow> int \<Rightarrow> 'i \<Rightarrow> ('i \<Rightarrow> nat) \<Rightarrow> 'i \<Rightarrow> ('i :: linorder) action \<Rightarrow> bool" where
  "advances A cmax nd ahead lag (AddEvent h d v) \<longleftrightarrow> lag \<le> f_add A d lag \<and>
     (due A cmax nd (f_add A d lag, h, v) \<longrightarrow> ahead (f_add A d lag) < ahead lag)"
| "advances A cmax nd ahead lag a \<longleftrightarrow> True"

fun removes :: "'i action \<Rightarrow> bool" where
  "removes (RemoveEvents h) \<longleftrightarrow> True"
| "removes (RemoveSpecificEvents h v) \<longleftrightarrow> True"
| "removes a \<longleftrightarrow> False"

text \<open>The ranks of the due events decrease in the order of multisets.\<close>

definition ranks :: "'i double_ops \<Rightarrow> int \<Rightarrow> 'i \<Rightarrow> ('i \<Rightarrow> nat) \<Rightarrow> ('i :: linorder) event list \<Rightarrow> nat multiset" where
  "ranks A cmax nd ahead evs = image_mset (\<lambda>e. ahead (fst e)) (filter_mset (due A cmax nd) (mset evs))"

lemma mset_insert_event: "mset (insert_event e evs) = add_mset e (mset evs)"
  by (simp add: insert_event_def) (metis mset_append takeWhile_dropWhile_id)

lemma subseq_insert_event: "subseq evs (insert_event e evs)"
proof -
  have "subseq (takeWhile P evs @ dropWhile P evs) (takeWhile P evs @ e # dropWhile P evs)" for P
    by (intro list_emb_append_mono) auto
  then show ?thesis by (simp add: insert_event_def)
qed

lemma ranks_filter: "ranks A cmax nd ahead (filter P evs) \<subseteq># ranks A cmax nd ahead evs"
  unfolding ranks_def by (intro image_mset_subseteq_mono multiset_filter_mono) (simp add: mset_filter)

lemma ranks_action:
  assumes "advances A cmax nd ahead lag a"
  shows "\<exists>K. (\<forall>k \<in># K. k < ahead lag) \<and> ranks A cmax nd ahead (spec_action A lag room a evs) \<subseteq># ranks A cmax nd ahead evs + K"
proof (cases a)
  case (AddEvent h d v)
  define e where "e = (f_add A d lag, h, v)"
  have "ranks A cmax nd ahead (insert_event e evs) =
      ranks A cmax nd ahead evs + (if due A cmax nd e then {#ahead (fst e)#} else {#})"
    by (simp add: ranks_def mset_insert_event)
  then show ?thesis using assms AddEvent
    by (intro exI [of _ "if due A cmax nd e then {#ahead (fst e)#} else {#}"]) (auto simp: e_def)
next
  case (RemoveEvents h)
  then show ?thesis by (intro exI [of _ "{#}"]) (simp add: ranks_filter)
next
  case (RemoveSpecificEvents h v)
  then show ?thesis by (intro exI [of _ "{#}"]) (simp add: ranks_filter)
qed (auto intro!: exI [of _ "{#}"])

lemma ranks_actions:
  "\<forall>a \<in> set as. advances A cmax nd ahead lag a \<Longrightarrow> \<exists>K. (\<forall>k \<in># K. k < ahead lag) \<and>
     ranks A cmax nd ahead (fold (spec_action A lag room) as evs) \<subseteq># ranks A cmax nd ahead evs + K"
proof (induction as arbitrary: evs)
  case Nil
  show ?case by (intro exI [of _ "{#}"]) simp
next
  case (Cons a as)
  obtain K where K: "\<forall>k \<in># K. k < ahead lag"
    "ranks A cmax nd ahead (spec_action A lag room a evs) \<subseteq># ranks A cmax nd ahead evs + K"
    using ranks_action [of A cmax nd ahead lag a room evs] Cons.prems by auto
  obtain L where L: "\<forall>k \<in># L. k < ahead lag" "ranks A cmax nd ahead (fold (spec_action A lag room) (a # as) evs) \<subseteq>#
      ranks A cmax nd ahead (spec_action A lag room a evs) + L"
    using Cons.IH [of "spec_action A lag room a evs"] Cons.prems by auto
  have "ranks A cmax nd ahead (fold (spec_action A lag room) (a # as) evs) \<subseteq># ranks A cmax nd ahead evs + (K + L)"
    using subset_mset.order_trans [OF L(2) subset_mset.add_right_mono [OF K(2), of L]] by (simp only: add.assoc)
  then show ?case using K(1) L(1) by (intro exI [of _ "K + L"]) auto
qed

lemma ranks_serve:
  assumes "\<forall>a \<in> set as. advances A cmax nd ahead (fst e) a" "due A cmax nd e"
  shows "(ranks A cmax nd ahead (fold (spec_action A (fst e) room) as es), ranks A cmax nd ahead (e # es)) \<in> mult {(x, y). x < y}"
proof -
  define M I where "M = ranks A cmax nd ahead (fold (spec_action A (fst e) room) as es)" and "I = ranks A cmax nd ahead es"
  obtain K where K: "\<forall>k \<in># K. k < ahead (fst e)" "M \<subseteq># I + K"
    using ranks_actions [OF assms(1)] unfolding M_def I_def by blast
  have "M - I \<subseteq># K" using K(2) by (simp add: subset_eq_diff_conv add.commute)
  from mset_subset_eqD [OF this] have less: "\<forall>k \<in># M - I. k < ahead (fst e)" using K(1) by fast
  have "((M \<inter># I) + (M - I), (M \<inter># I) + ((I - M) + {#ahead (fst e)#})) \<in> mult {(x, y). x < y}"
    by (rule one_step_implies_mult) (use less in auto)
  moreover have "(M \<inter># I) + (M - I) = M" "(M \<inter># I) + ((I - M) + {#ahead (fst e)#}) = add_mset (ahead (fst e)) I"
    by (simp_all add: multiset_eq_iff min_def)
  ultimately show ?thesis using assms(2) by (simp add: M_def I_def ranks_def)
qed

lemma set_insert_event: "set (insert_event e evs) = insert e (set evs)"
  using mset_insert_event [of e evs] by (metis set_mset_add_mset_insert set_mset_mset)

text \<open>Where an event comes from: it was scheduled before, or a handler scheduled it.\<close>

definition scheduled_by :: "'i double_ops \<Rightarrow> 'i handler \<Rightarrow> 'i event \<Rightarrow> bool" where
  "scheduled_by A H e \<longleftrightarrow>
     (\<exists>h v u d. AddEvent (fst (snd e)) d (snd (snd e)) \<in> set (H h v u) \<and> fst e = f_add A d (srv_lag u))"

lemma actions_events:
  assumes "x \<in> set (fold (spec_action A lag room) as evs)"
  shows "x \<in> set evs \<or> (\<exists>d. AddEvent (fst (snd x)) d (snd (snd x)) \<in> set as \<and> fst x = f_add A d lag)"
  using assms
proof (induction as arbitrary: evs)
  case (Cons a as)
  then have "x \<in> set (spec_action A lag room a evs) \<or> (\<exists>d. AddEvent (fst (snd x)) d (snd (snd x)) \<in> set as \<and> fst x = f_add A d lag)"
    by simp
  then show ?case by (cases a) (auto simp: set_insert_event split: if_splits)
qed simp

lemma actions_subseq:
  "\<forall>a \<in> set as. \<not> removes a \<Longrightarrow> subseq evs (fold (spec_action A lag room) as evs)"
proof (induction as arbitrary: evs)
  case (Cons a as)
  then have "subseq evs (spec_action A lag room a evs)" using subseq_insert_event by (cases a) auto
  then show ?case using Cons subseq_order.trans by fastforce
qed simp

text \<open>One turn of the loop: the entry is taken off the list, its handler runs, and it goes to the free list.\<close>

lemma serve_first:
  fixes H :: "('i :: linorder) handler" and A :: "'i double_ops"
  assumes "queue_abs [] s (e # evs)" "InEventService s" "CPU_Cycles (pic s) = 0"
  defines "acts \<equiv> \<lambda>u. H (fst (snd e)) (snd (snd e)) u"
  obtains x u t where "next_entry s = Some x" "ev (entries s x) = e" "srv_lag u = fst e"
    "due A (CPU_CycleMax s) nd e \<Longrightarrow> run_events A H nd s = run_events A H nd t"
    "queue_abs [] t (fold (spec_action A (fst e) (PIC_QUEUESIZE - 1)) (acts u) evs)"
    "InEventService t" "CPU_CycleMax t = CPU_CycleMax s" "called t = called s @ [snd e]" "CPU_Cycles (pic t) = 0"
    "CPU_CycleLeft (pic t) = CPU_CycleLeft (pic s)"
proof -
  from assms(1) obtain x xs fs where q: "path (entries s) (next_entry s) (x # xs) None" "path (entries s) (free_entry s) fs None"
    "distinct ((x # xs) @ fs)" "set ((x # xs) @ fs) = {..<PIC_QUEUESIZE}" "e = ev (entries s x)"
    "evs = map (\<lambda>x. ev (entries s x)) xs" "sorted (map fst (e # evs))"
    unfolding queue_abs_def by (auto simp: Cons_eq_map_conv)
  define u where "u = s\<lparr>next_entry := link (entries s x), srv_lag := fst e\<rparr>"
  define v where "v = u\<lparr>called := called u @ [snd e]\<rparr>"
  have "queue_abs [x] v evs"
    unfolding queue_abs_def by (rule exI [of _ xs], rule exI [of _ fs]) (use q in \<open>auto simp: u_def v_def\<close>)
  moreover have "InEventService v" "srv_lag v = fst e" using assms(2) by (simp_all add: u_def v_def)
  ultimately obtain w where w: "run_actions A (acts u) v = Some w" "queue_frame v w"
    "queue_abs [x] w (fold (spec_action A (fst e) (PIC_QUEUESIZE - 1)) (acts u) evs)" "InEventService w"
    using service.run_all_abs [of "[x]" v evs "fst e" A "acts u"] by (auto simp: run_actions_def)
  define t where "t = (set_link x (free_entry w) w)\<lparr>free_entry := Some x\<rparr>"
  have "queue_abs [] t (fold (spec_action A (fst e) (PIC_QUEUESIZE - 1)) (acts u) evs)"
  proof -
    from w(3) obtain xs fs where "path (entries w) (next_entry w) xs None" "path (entries w) (free_entry w) fs None"
      "distinct (xs @ fs @ [x])" "set (xs @ fs @ [x]) = {..<PIC_QUEUESIZE}"
      "fold (spec_action A (fst e) (PIC_QUEUESIZE - 1)) (acts u) evs = map (\<lambda>x. ev (entries w x)) xs"
      "sorted (map fst (fold (spec_action A (fst e) (PIC_QUEUESIZE - 1)) (acts u) evs))"
      unfolding queue_abs_def by auto
    then show ?thesis unfolding queue_abs_def
      by (intro exI [of _ xs] exI [of _ "x # fs"]) (auto simp: t_def)
  qed
  moreover have "run_events A H nd s = run_events A H nd t" if "due A (CPU_CycleMax s) nd e"
    using that q(1,5) w(1)
    by (subst run_events.simps) (simp add: due_def ev_def Let_def call_def u_def v_def t_def acts_def)
  ultimately show ?thesis
    using that [of x u t] q(1,5) w(2,4) assms(3) by (auto simp: u_def v_def t_def queue_frame_def set_link_def)
qed

lemma sorted_none_due:
  assumes "sorted (map fst later)" "later = [] \<or> \<not> due A cmax nd (hd later)" "mono (\<lambda>i. f_mul A i (f_of_int A cmax))"
  shows "\<forall>e \<in> set later. \<not> due A cmax nd e"
proof (cases later)
  case (Cons x xs)
  have "\<not> due A cmax nd e" if "fst x \<le> fst e" for e
    using that assms(2) monoD [OF assms(3) that] Cons by (auto simp: due_def)
  then show ?thesis using assms(1) Cons by auto
qed simp

text \<open>The whole loop. \<open>es\<close> are the events served.\<close>

lemma run_events_total:
  fixes H :: "('i :: linorder) handler" and A :: "'i double_ops"
  assumes adv: "\<forall>h v u. lo \<le> srv_lag u \<and> due A cmax nd (srv_lag u, h, v) \<longrightarrow> (\<forall>a \<in> set (H h v u). advances A cmax nd ahead (srv_lag u) a)"
    and m: "mono (\<lambda>i. f_mul A i (f_of_int A cmax))"
  shows "queue_abs [] s evs \<Longrightarrow> InEventService s \<Longrightarrow> CPU_Cycles (pic s) = 0 \<Longrightarrow> CPU_CycleMax s = cmax \<Longrightarrow>
    \<forall>e \<in> set evs. lo \<le> fst e \<Longrightarrow>
    \<exists>t later es. run_events A H nd s = Some t \<and> queue_abs [] t later \<and> (later = [] \<or> \<not> due A cmax nd (hd later)) \<and>
      CPU_CycleMax t = cmax \<and> CPU_Cycles (pic t) = 0 \<and> CPU_CycleLeft (pic t) = CPU_CycleLeft (pic s) \<and>
      called t = called s @ map snd es \<and> sorted (map fst es) \<and> (es = [] \<or> evs \<noteq> [] \<and> hd es = hd evs) \<and>
      (\<forall>e \<in> set es. due A cmax nd e \<and> (e \<in> set evs \<or> scheduled_by A H e)) \<and>
      ((\<forall>h v u. \<forall>a \<in> set (H h v u). \<not> removes a) \<longrightarrow> subseq (filter (due A cmax nd) evs) es)"
proof (induction "ranks A cmax nd ahead evs" arbitrary: s evs rule: wf_induct_rule [OF wf_mult [OF wf_less]])
  case (1 evs s)
  note less = 1
  show ?case
  proof (cases "evs = [] \<or> \<not> due A cmax nd (hd evs)")
    case True
    have "run_events A H nd s = Some s"
    proof (cases evs)
      case Nil
      then have "next_entry s = None" using less(2) by (auto simp: queue_abs_def)
      then show ?thesis by (subst run_events.simps) simp
    next
      case (Cons e es)
      obtain x where "next_entry s = Some x" "ev (entries s x) = e"
        using serve_first [of s e es] less(2-4) Cons by metis
      then show ?thesis using True Cons less(5)
        by (subst run_events.simps) (auto simp: due_def ev_def)
    qed
    moreover have "filter (due A cmax nd) evs = []"
      using sorted_none_due [OF _ True m] less(2) unfolding queue_abs_def by (auto simp: filter_empty_conv)
    ultimately show ?thesis using less(2-5) True by - (rule exI [of _ s], rule exI [of _ evs], rule exI [of _ "[]"], simp)
  next
    case False
    then obtain e es where evs: "evs = e # es" "due A cmax nd e" by (cases evs) auto
    obtain u t where t: "run_events A H nd s = run_events A H nd t" "srv_lag u = fst e"
      "queue_abs [] t (fold (spec_action A (fst e) (PIC_QUEUESIZE - 1)) (H (fst (snd e)) (snd (snd e)) u) es)"
      "InEventService t" "CPU_CycleMax t = CPU_CycleMax s" "called t = called s @ [snd e]" "CPU_Cycles (pic t) = 0"
      "CPU_CycleLeft (pic t) = CPU_CycleLeft (pic s)"
      using serve_first [of s e es A nd H] less(2-5) evs by metis
    let ?acts = "H (fst (snd e)) (snd (snd e)) u"
    let ?es = "fold (spec_action A (fst e) (PIC_QUEUESIZE - 1)) ?acts es"
    have a: "\<forall>a \<in> set ?acts. advances A cmax nd ahead (fst e) a"
      using adv [rule_format, of u] t(2) less(6) evs by (auto simp: due_def)
    have origin: "x \<in> set ?es \<Longrightarrow> fst e \<le> fst x \<and> (x \<in> set es \<or> scheduled_by A H x)" for x
    proof -
      assume "x \<in> set ?es"
      then consider "x \<in> set es" | d where "AddEvent (fst (snd x)) d (snd (snd x)) \<in> set ?acts" "fst x = f_add A d (fst e)"
        using actions_events by blast
      then show ?thesis
      proof cases
        case 1
        then show ?thesis using less(2) evs unfolding queue_abs_def by auto
      next
        case 2
        then show ?thesis using a [rule_format, OF 2(1)] t(2) unfolding scheduled_by_def by fastforce
      qed
    qed
    have "(ranks A cmax nd ahead ?es, ranks A cmax nd ahead evs) \<in> mult {(x, y). x < y}"
      using ranks_serve [OF a evs(2)] evs(1) by simp
    moreover have "CPU_CycleMax t = cmax" using t(5) less(5) by simp
    moreover have "\<forall>x \<in> set ?es. lo \<le> fst x" using origin less(6) evs by fastforce
    ultimately obtain w later es' where w: "run_events A H nd t = Some w" "queue_abs [] w later"
      "later = [] \<or> \<not> due A cmax nd (hd later)" "CPU_CycleMax w = cmax"
      "CPU_Cycles (pic w) = 0" "CPU_CycleLeft (pic w) = CPU_CycleLeft (pic t)" "called w = called t @ map snd es'"
      "sorted (map fst es')" "es' = [] \<or> ?es \<noteq> [] \<and> hd es' = hd ?es"
      "\<forall>x \<in> set es'. due A cmax nd x \<and> (x \<in> set ?es \<or> scheduled_by A H x)"
      "(\<forall>h v u. \<forall>a \<in> set (H h v u). \<not> removes a) \<longrightarrow> subseq (filter (due A cmax nd) ?es) es'"
      using less(1) [OF _ t(3,4,7)] by blast
    have "sorted (map fst (e # es'))"
    proof (cases es')
      case (Cons x xs)
      then have "fst e \<le> fst x" using w(9) origin [of x] by (metis hd_in_set list.distinct(1) list.sel(1))
      then show ?thesis using w(8) Cons by (auto intro: order_trans)
    qed simp
    moreover have "\<forall>x \<in> set (e # es'). due A cmax nd x \<and> (x \<in> set evs \<or> scheduled_by A H x)"
      using w(10) origin evs by auto
    moreover have "subseq (filter (due A cmax nd) evs) (e # es')" if "\<forall>h v u. \<forall>a \<in> set (H h v u). \<not> removes a"
    proof -
      have "subseq es ?es" by (rule actions_subseq) (use that in blast)
      then have "subseq (filter (due A cmax nd) es) es'" using w(11) that subseq_filter subseq_order.trans by blast
      then show ?thesis using evs by simp
    qed
    moreover have "called w = called s @ map snd (e # es')" using w(7) t(6) by simp
    ultimately show ?thesis using w(1-6) t(1,8) evs(1)
      by - (rule exI [of _ w], rule exI [of _ later], rule exI [of _ "e # es'"], simp)
  qed
qed

section \<open>PIC_RunQueue\<close>

lemma next_slice_sum:
  "CPU_Cycles (pic (next_slice A nd s)) + CPU_CycleLeft (pic (next_slice A nd s)) = CPU_CycleLeft (pic s)"
  by (auto simp: next_slice_def set_cycles_def Let_def split: option.split)

text \<open>The cycles from \<open>nd\<close> to an event.\<close>

definition cycles_to :: "'i double_ops \<Rightarrow> int \<Rightarrow> 'i \<Rightarrow> 'i event \<Rightarrow> 'i" where
  "cycles_to A cmax nd e = f_sub A (f_mul A (fst e) (f_of_int A cmax)) nd"

lemma next_slice_cycles:
  assumes "queue_abs [] s later" "later = [] \<or> \<not> due A (CPU_CycleMax s) nd (hd later)" "0 < CPU_CycleLeft (pic s)"
    and pos: "\<And>x y. y < x \<Longrightarrow> f_sub A x y < f_of_int A (2 ^ 31) \<Longrightarrow> 0 \<le> sint (f_to_int A (f_sub A x y))"
    and near: "later = [] \<or> cycles_to A (CPU_CycleMax s) nd (hd later) < f_of_int A (2 ^ 31)"
  shows "0 < CPU_Cycles (pic (next_slice A nd s))"
proof -
  have "0 \<le> sint (f_to_int A (f_sub A (f_mul A (index (entries s n)) (f_of_int A (CPU_CycleMax s))) nd))" if "next_entry s = Some n" for n
  proof -
    from assms(1) obtain xs where "path (entries s) (next_entry s) xs None" "later = map (\<lambda>x. ev (entries s x)) xs"
      unfolding queue_abs_def by auto
    then have "later \<noteq> []" "hd later = ev (entries s n)" using that by (cases xs; auto)+
    then show ?thesis using assms(2) near pos by (auto simp: due_def ev_def cycles_to_def not_le)
  qed
  then show ?thesis using assms(3) by (auto simp: next_slice_def set_cycles_def Let_def order.order_iff_strict split: option.split)
qed

lemma next_slice_queue: "queue_abs [] s later \<Longrightarrow> queue_abs [] (next_slice A nd s) later" "called (next_slice A nd s) = called s"
  by (auto simp: queue_abs_def next_slice_def set_cycles_def Let_def split: option.split)

lemma runIRQs_cycles:
  "CPU_Cycles (PIC_runIRQs IF trap p) = CPU_Cycles p" "CPU_CycleLeft (PIC_runIRQs IF trap p) = CPU_CycleLeft p"
  by (simp_all add: PIC_runIRQs_def primary_startIRQ_def secondary_startIRQ_def CPU_HW_Interrupt_def Let_def
      del: scan_irq.simps split: option.split)

text \<open>C2. The event queue: on a well-formed pool, scheduling an event inserts it behind every event with the same or an
  earlier index (and drops it when all 512 entries are taken), and the two removals delete exactly the
  events of the handler, or of the handler and value. All three return, keep the pool
  partitioned into scheduled and free entries, and keep the order; the queue starts empty.\<close>

theorem queue_operations_refine:
  fixes A :: "('i :: linorder) double_ops"
  assumes "queue_abs held s evs"
  shows "(\<exists>t. PIC_AddEvent A h d v s = Some t \<and>
      queue_abs held t (if length evs + length held < PIC_QUEUESIZE then insert_event (event_time A s d, h, v) evs else evs)) \<and>
    (\<exists>t. PIC_RemoveEvents h s = Some t \<and> queue_abs held t (filter (\<lambda>e. fst (snd e) \<noteq> h) evs)) \<and>
    (\<exists>t. PIC_RemoveSpecificEvents h v s = Some t \<and> queue_abs held t (filter (\<lambda>e. snd e \<noteq> (h, v)) evs)) \<and>
    queue_abs [] (init_queue i0 p) ([] :: 'i event list)"
proof (intro conjI)
  show "\<exists>t. PIC_RemoveEvents h s = Some t \<and> queue_abs held t (filter (\<lambda>e. fst (snd e) \<noteq> h) evs)"
    using remove_abs [OF assms, of "\<lambda>e. pic_event e = h" "\<lambda>e. fst (snd e) = h"] by (auto simp: PIC_RemoveEvents_def ev_def)
  show "\<exists>t. PIC_RemoveSpecificEvents h v s = Some t \<and> queue_abs held t (filter (\<lambda>e. snd e \<noteq> (h, v)) evs)"
    using remove_abs [OF assms, of "\<lambda>e. pic_event e = h \<and> val_of e = v" "\<lambda>e. snd e = (h, v)"]
    by (auto simp: PIC_RemoveSpecificEvents_def ev_def)
qed (use add_event_abs [OF assms, of A h d v] init_queue_abs in auto)

text \<open>Exact arithmetic, and a machine with a third of its millisecond left.\<close>

definition real_ops :: "real double_ops" where
  "real_ops = \<lparr>f_add = (+), f_sub = (-), f_mul = (*), f_div = (/), f_of_int = of_int, f_to_int = (\<lambda>x. word_of_int (if 0 \<le> x then \<lfloor>x\<rfloor> else \<lceil>x\<rceil>))\<rparr>"

definition machine0 :: "real machine" where
  "machine0 = (init_queue 0 ((PIC_8259A False True)\<lparr>CPU_CycleLeft := 1000\<rparr>))\<lparr>CPU_CycleMax := 3000\<rparr>"

lemma machine0_abs: "queue_abs [] machine0 []"
  using init_queue_abs [of 0 "(PIC_8259A False True)\<lparr>CPU_CycleLeft := 1000\<rparr>"] by (simp add: machine0_def queue_abs_def)

theorem queue_operations_refine_witness:
  "\<exists>t. PIC_AddEvent real_ops 7 (1 / 2) 9 machine0 = Some t \<and> queue_abs [] t [(event_time real_ops machine0 (1 / 2), 7, 9)]"
  using queue_operations_refine [OF machine0_abs, of real_ops 7 "1 / 2" 9] by (simp add: PIC_QUEUESIZE_def insert_event_def)

text \<open>C8. \<open>PIC_RunQueue\<close>: when the millisecond has cycles left and what the handlers schedule advances in time
  (an event they add is not before the one being served, and one that is due at once is nearer to the
  present, as with any fixed positive delay), it returns, no due event is left, and the remaining cycles are kept. The handlers called
  are those of the events \<open>es\<close>, in the order of their indices: all of them were due, each was scheduled before
  or by a handler, and, when handlers do not remove events, all that were due at the start are
  among them, in their order. At least one cycle is given to the CPU, provided the
  next event is less than \<open>2\<^sup>3\<^sup>1\<close> cycles away. With no cycles left it does nothing but tell so.
  The hypotheses on the arithmetic are monotonicity of the multiplication and that a positive
  difference below \<open>2\<^sup>3\<^sup>1\<close> does not convert to a negative integer; those on the handlers are asked
  only for the times at which they can be called, from a bound \<open>lo\<close> of the scheduled events to the present.\<close>

theorem run_queue_serves:
  fixes A :: "('i :: linorder) double_ops" and H :: "'i handler"
  assumes "queue_abs [] s evs" "\<forall>e \<in> set evs. lo \<le> fst e"
    and "nd = f_of_int A (PIC_TickIndexND s)"
    and "\<forall>h v u. lo \<le> srv_lag u \<and> due A (CPU_CycleMax s) nd (srv_lag u, h, v) \<longrightarrow>
      (\<forall>a \<in> set (H h v u). advances A (CPU_CycleMax s) nd ahead (srv_lag u) a)"
    and "mono (\<lambda>i. f_mul A i (f_of_int A (CPU_CycleMax s)))"
    and "\<And>x y. y < x \<Longrightarrow> f_sub A x y < f_of_int A (2 ^ 31) \<Longrightarrow> 0 \<le> sint (f_to_int A (f_sub A x y))"
  shows "\<exists>t. PIC_RunQueue A H IF trap s = Some (0 < CPU_CycleLeft (pic s) + CPU_Cycles (pic s), t) \<and>
    CPU_CycleLeft (pic t) + CPU_Cycles (pic t) = CPU_CycleLeft (pic s) + CPU_Cycles (pic s) \<and>
    (0 < CPU_CycleLeft (pic s) + CPU_Cycles (pic s) \<longrightarrow>
      (\<exists>later es. queue_abs [] t later \<and> (\<forall>e \<in> set later. \<not> due A (CPU_CycleMax s) nd e) \<and>
        (later = [] \<or> cycles_to A (CPU_CycleMax s) nd (hd later) < f_of_int A (2 ^ 31) \<longrightarrow> 0 < CPU_Cycles (pic t)) \<and>
        called t = called s @ map snd es \<and> sorted (map fst es) \<and>
        (\<forall>e \<in> set es. due A (CPU_CycleMax s) nd e \<and> (e \<in> set evs \<or> scheduled_by A H e)) \<and>
        ((\<forall>h v u. \<forall>a \<in> set (H h v u). \<not> removes a) \<longrightarrow> subseq (filter (due A (CPU_CycleMax s) nd) evs) es)))"
proof -
  define u where "u = set_cycles (CPU_CycleLeft (pic (PIC_UpdateAtomicIndex A s)) + CPU_Cycles (pic (PIC_UpdateAtomicIndex A s))) 0
    (PIC_UpdateAtomicIndex A s)"
  have u: "CPU_CycleLeft (pic u) = CPU_CycleLeft (pic s) + CPU_Cycles (pic s)" "CPU_Cycles (pic u) = 0"
    "CPU_CycleMax u = CPU_CycleMax s" "called u = called s" "f_of_int A (PIC_TickIndexND u) = nd"
    by (simp_all add: u_def set_cycles_def PIC_UpdateAtomicIndex_def PIC_TickIndexND_def assms(3) diff_diff_eq)
  have qu: "queue_abs [] (u\<lparr>InEventService := True\<rparr>) evs"
    using assms(1) by (simp add: queue_abs_def u_def set_cycles_def PIC_UpdateAtomicIndex_def)
  have run: "PIC_RunQueue A H IF trap s = (if CPU_CycleLeft (pic u) \<le> 0 then Some (False, u)
      else case run_events A H nd (u\<lparr>InEventService := True\<rparr>) of None \<Rightarrow> None
        | Some t \<Rightarrow> let t = next_slice A nd (t\<lparr>InEventService := False\<rparr>) in Some (True, t\<lparr>pic := PIC_runIRQs IF trap (pic t)\<rparr>))"
    unfolding PIC_RunQueue_def Let_def u_def [symmetric] u(5) by (rule refl)
  show ?thesis
  proof (cases "0 < CPU_CycleLeft (pic s) + CPU_Cycles (pic s)")
    case False
    then show ?thesis using run u by auto
  next
    case True
    have "InEventService (u\<lparr>InEventService := True\<rparr>)" "CPU_Cycles (pic (u\<lparr>InEventService := True\<rparr>)) = 0"
      "CPU_CycleMax (u\<lparr>InEventService := True\<rparr>) = CPU_CycleMax s" using u by simp_all
    from run_events_total [where H = H, OF assms(4,5) qu this assms(2)] obtain t later es where
      t: "run_events A H nd (u\<lparr>InEventService := True\<rparr>) = Some t"
      "queue_abs [] t later" "later = [] \<or> \<not> due A (CPU_CycleMax s) nd (hd later)" "CPU_CycleMax t = CPU_CycleMax s"
      "CPU_Cycles (pic t) = 0" "CPU_CycleLeft (pic t) = CPU_CycleLeft (pic (u\<lparr>InEventService := True\<rparr>))"
      and es: "called t = called (u\<lparr>InEventService := True\<rparr>) @ map snd es" "sorted (map fst es)"
      "\<forall>e \<in> set es. due A (CPU_CycleMax s) nd e \<and> (e \<in> set evs \<or> scheduled_by A H e)"
      "(\<forall>h v u. \<forall>a \<in> set (H h v u). \<not> removes a) \<longrightarrow> subseq (filter (due A (CPU_CycleMax s) nd) evs) es"
      by blast
    define w where "w = next_slice A nd (t\<lparr>InEventService := False\<rparr>)"
    define v where "v = w\<lparr>pic := PIC_runIRQs IF trap (pic w)\<rparr>"
    have qt: "queue_abs [] (t\<lparr>InEventService := False\<rparr>) later" using t(2) by (simp add: queue_abs_def)
    have left: "0 < CPU_CycleLeft (pic (t\<lparr>InEventService := False\<rparr>))" using t(6) u(1) True by simp
    have slice: "CPU_Cycles (pic w) + CPU_CycleLeft (pic w) = CPU_CycleLeft (pic u)"
      unfolding w_def next_slice_sum using t(6) by simp
    have some: "later = [] \<or> cycles_to A (CPU_CycleMax s) nd (hd later) < f_of_int A (2 ^ 31) \<Longrightarrow> 0 < CPU_Cycles (pic w)"
      unfolding w_def using next_slice_cycles [OF qt _ left assms(6)] t(3,4) by simp
    have q: "queue_abs [] v later" using next_slice_queue(1) [OF qt] by (simp add: v_def w_def queue_abs_def)
    have none: "\<forall>e \<in> set later. \<not> due A (CPU_CycleMax s) nd e"
      using sorted_none_due [OF _ t(3) assms(5)] t(2) unfolding queue_abs_def by blast
    have "PIC_RunQueue A H IF trap s = Some (True, v)"
      using run True u(1) t(1) by (simp add: v_def w_def Let_def)
    moreover have "called v = called s @ map snd es"
      using next_slice_queue(2) [of A nd "t\<lparr>InEventService := False\<rparr>"] es(1) u(4) by (simp add: v_def w_def)
    moreover have "CPU_Cycles (pic v) = CPU_Cycles (pic w)" "CPU_CycleLeft (pic v) = CPU_CycleLeft (pic w)"
      by (simp_all add: v_def runIRQs_cycles)
    ultimately show ?thesis using True slice some q none es(2-) u(1)
      by (intro exI [of _ v] conjI impI exI [of _ later] exI [of _ es]) simp_all
  qed
qed

text \<open>An event scheduled at the start of the millisecond for its half, served when two thirds are over; its handler schedules it again
  after a tenth, twice before that.\<close>

theorem run_queue_serves_witness:
  "\<exists>t w. PIC_AddEvent real_ops 7 (1 / 2) 9 (set_cycles 3000 0 machine0) = Some t \<and>
     PIC_RunQueue real_ops (\<lambda>h v u. [AddEvent h (1 / 10) v]) True False (set_cycles 1000 0 t) = Some (True, w) \<and>
     (7, 9) \<in> set (called w) \<and> CPU_CycleLeft (pic w) + CPU_Cycles (pic w) = 1000"
proof -
  define H :: "real handler" where "H = (\<lambda>h v u. [AddEvent h (1 / 10) v])"
  have "queue_abs [] (set_cycles 3000 0 machine0) []" using machine0_abs by (simp add: queue_abs_def set_cycles_def)
  from add_event_abs [OF this, of real_ops 7 "1 / 2" 9] obtain t where
    t: "PIC_AddEvent real_ops 7 (1 / 2) 9 (set_cycles 3000 0 machine0) = Some t" "queue_frame (set_cycles 3000 0 machine0) t"
    "queue_abs [] t [(1 / 2, 7, 9)]"
    by (auto simp: PIC_QUEUESIZE_def insert_event_def event_time_def PIC_TickIndex_def PIC_TickIndexND_def real_ops_def
        machine0_def init_queue_def set_cycles_def)
  define s where "s = set_cycles 1000 0 t"
  have s: "queue_abs [] s [(1 / 2, 7, 9)]" "CPU_CycleMax s = 3000" "PIC_TickIndexND s = 2000" "CPU_CycleLeft (pic s) + CPU_Cycles (pic s) = 1000"
    using t(2,3) by (simp_all add: s_def set_cycles_def queue_abs_def queue_frame_def PIC_TickIndexND_def machine0_def init_queue_def)
  have "nat \<lfloor>20 / 3 - (10 * i + 1)\<rfloor> < nat \<lfloor>20 / 3 - 10 * i\<rfloor>" if "10 * i + 1 \<le> 20 / 3" for i :: real
    using that by linarith
  then have adv: "\<forall>h v u. 0 \<le> srv_lag u \<and> due real_ops 3000 2000 (srv_lag u, h, v) \<longrightarrow>
      (\<forall>a \<in> set (H h v u). advances real_ops 3000 2000 (\<lambda>i. nat \<lfloor>20 / 3 - 10 * i\<rfloor>) (srv_lag u) a)"
    by (simp add: H_def due_def real_ops_def algebra_simps)
  have m: "mono (\<lambda>i. f_mul real_ops i (f_of_int real_ops 3000))" by (intro monoI) (simp add: real_ops_def)
  have int: "0 \<le> sint (f_to_int real_ops (f_sub real_ops x y))"
    if "y < x" "f_sub real_ops x y < f_of_int real_ops (2 ^ 31)" for x y
  proof -
    have "0 \<le> \<lfloor>x - y\<rfloor>" "\<lfloor>x - y\<rfloor> < 2 ^ 31" using that by (simp_all add: real_ops_def floor_less_iff)
    then have "sint (word_of_int \<lfloor>x - y\<rfloor> :: u32) = \<lfloor>x - y\<rfloor>" by (simp add: signed_word_eqI sint_sbintrunc' signed_take_bit_int_eq_self)
    then show ?thesis using that \<open>0 \<le> \<lfloor>x - y\<rfloor>\<close> by (simp add: real_ops_def)
  qed
  have nd: "f_of_int real_ops (PIC_TickIndexND s) = 2000" by (simp add: s(3) real_ops_def)
  from run_queue_serves [of s "[(1 / 2, 7, 9)]" 0 2000 real_ops H "\<lambda>i. nat \<lfloor>20 / 3 - 10 * i\<rfloor>" True False]
  obtain w es where w: "PIC_RunQueue real_ops H True False s = Some (True, w)" "CPU_CycleLeft (pic w) + CPU_Cycles (pic w) = 1000"
    "called w = called s @ map snd es" "subseq (filter (due real_ops 3000 2000) [(1 / 2, 7, 9)]) es"
    using s adv m int nd by (auto simp: H_def)
  have "(1 / 2, 7, 9) \<in> set es" using w(4) by (simp add: due_def real_ops_def subseq_singleton_left)
  then have "(7, 9) \<in> set (called w)" unfolding w(3) by force
  then show ?thesis using t(1) w(1,2) unfolding s_def H_def by blast
qed

section \<open>Ticks\<close>

lemma run_tickers_abs:
  assumes "queue_abs [] s evs"
  shows "\<exists>t. run_tickers A tick hs s = Some t \<and> (\<exists>evs'. queue_abs [] t evs') \<and> queue_frame s t"
  using assms
proof (induction hs arbitrary: s evs)
  case Nil
  then show ?case by (auto simp: queue_frame_refl)
next
  case (Cons h hs)
  from any.run_all_abs [of "[]" s A "tick h s"] Cons.prems obtain t evs' where t: "run_actions A (tick h s) s = Some t"
    "queue_frame s t" "queue_abs [] t evs'" by (auto simp: run_actions_def)
  from Cons.IH [OF t(3)] show ?case using t(1) queue_frame_trans [OF t(2)] by auto
qed

text \<open>The start of a millisecond: \<open>TIMER_AddTick\<close> returns whatever the tick handlers schedule or remove,
  keeps the queue well formed, and before the handlers run has moved every event one
  millisecond closer without changing their order; the only hypothesis on the arithmetic is that the
  subtraction of one is monotone.\<close>

theorem timer_tick:
  fixes A :: "('i :: linorder) double_ops"
  assumes "queue_abs [] s evs" "mono (\<lambda>i. f_sub A i (f_of_int A 1))"
  shows "\<exists>t t0. TIMER_AddTick A tick s = Some t \<and> (\<exists>evs'. queue_abs [] t evs') \<and>
    run_tickers A tick (tickers s) t0 = Some t \<and> queue_abs [] t0 (map (\<lambda>(i, e). (f_sub A i (f_of_int A 1), e)) evs) \<and>
    CPU_CycleLeft (pic t0) = CPU_CycleMax s \<and> CPU_Cycles (pic t0) = 0 \<and> PIC_Ticks (pic t0) = PIC_Ticks (pic s) + 1"
proof -
  define u where "u = (set_cycles (CPU_CycleMax s) 0 s)\<lparr>pic := (pic (set_cycles (CPU_CycleMax s) 0 s))\<lparr>PIC_Ticks := PIC_Ticks (pic s) + 1\<rparr>\<rparr>"
  have "queue_abs [] u evs" using assms(1) by (simp add: queue_abs_def u_def set_cycles_def)
  from lower_abs [OF this assms(2)] obtain t0 where t0: "lower_loop A (next_entry u) u = Some t0" "queue_frame u t0"
    "pic t0 = pic u" "queue_abs [] t0 (map (lowered A) evs)" by blast
  from run_tickers_abs [OF t0(4), of A tick "tickers s"] obtain t where t: "run_tickers A tick (tickers s) t0 = Some t"
    "\<exists>evs'. queue_abs [] t evs'" by blast
  have "tickers t0 = tickers s" using t0(2) by (simp add: queue_frame_def u_def set_cycles_def)
  then have "TIMER_AddTick A tick s = Some t" using t0(1) t(1) by (simp add: TIMER_AddTick_def u_def Let_def set_cycles_def)
  moreover have "lowered A = (\<lambda>(i, e). (f_sub A i (f_of_int A 1), e))" by (auto simp: lowered_def)
  ultimately show ?thesis using t t0(3,4) by (intro exI [of _ t] exI [of _ t0]) (simp add: u_def set_cycles_def)
qed

theorem timer_tick_witness: "\<exists>t. TIMER_AddTick real_ops (\<lambda>h u. [AddEvent h 1 0]) machine0 = Some t \<and> (\<exists>evs. queue_abs [] t evs)"
proof -
  have "mono (\<lambda>i. f_sub real_ops i (f_of_int real_ops 1))" by (intro monoI) (simp add: real_ops_def)
  from timer_tick [OF machine0_abs this] show ?thesis by blast
qed

end
