(* ===== verification/Page_Pool.thy ===== *)
theory Page_Pool
  imports Prelude
begin

text \<open>
  The allocator of extended memory pages of \<open>src/src/hardware/memory.cpp\<close>. The array
  \<open>mhandles\<close> has one entry per page of memory: zero for a free page, the number of the next page of
  the same block, or -1 for the last page of a block. Reading or writing outside the array is
  undefined in the code: such a run, like a loop that never ends, is the result \<open>None\<close>.
  \<open>E_Exit\<close> is the error value \<open>Corruption\<close>. \<open>MEM_BlockCopy\<close> copies bytes of \<open>ram\<close>, indexed by
  32-bit linear address; the translation of addresses by the paging unit is the identity here.
\<close>

section \<open>State\<close>

type_synonym MemHandle = int

record pool =
  mhandles :: "MemHandle list"
  ram :: "u32 \<Rightarrow> u8"

datatype pool_error = Corruption

definition XMS_START :: nat where
  "XMS_START = 0x110"

definition peek :: "int \<Rightarrow> MemHandle list \<Rightarrow> MemHandle option" where
  "peek i mh = (if 0 \<le> i \<and> i < int (length mh) then Some (mh ! nat i) else None)"

definition poke :: "int \<Rightarrow> MemHandle \<Rightarrow> MemHandle list \<Rightarrow> MemHandle list option" where
  "poke i v mh = (if 0 \<le> i \<and> i < int (length mh) then Some (mh[nat i := v]) else None)"

definition MEM_TotalPages :: "MemHandle list \<Rightarrow> nat" where
  "MEM_TotalPages mh = length mh"

section \<open>Free pages\<close>

function free_largest_loop :: "MemHandle list \<Rightarrow> nat \<Rightarrow> nat \<Rightarrow> nat \<Rightarrow> nat" where
  "free_largest_loop mh index sz largest =
     (if index < length mh
      then if mh ! index = 0 then free_largest_loop mh (index + 1) (sz + 1) largest
           else free_largest_loop mh (index + 1) 0 (max sz largest)
      else max sz largest)"
  by pat_completeness auto
termination by (relation "measure (\<lambda>(mh, i, s, l). length mh - i)") auto

definition MEM_FreeLargest :: "MemHandle list \<Rightarrow> nat" where
  "MEM_FreeLargest mh = free_largest_loop mh XMS_START 0 0"

function free_total_loop :: "MemHandle list \<Rightarrow> nat \<Rightarrow> nat \<Rightarrow> nat" where
  "free_total_loop mh index free =
     (if index < length mh
      then free_total_loop mh (index + 1) (if mh ! index = 0 then free + 1 else free)
      else free)"
  by pat_completeness auto
termination by (relation "measure (\<lambda>(mh, i, f). length mh - i)") auto

definition MEM_FreeTotal :: "MemHandle list \<Rightarrow> nat" where
  "MEM_FreeTotal mh = free_total_loop mh XMS_START 0"

partial_function (option) allocated_loop :: "MemHandle list \<Rightarrow> MemHandle \<Rightarrow> nat \<Rightarrow> nat option" where
  "allocated_loop mh handle pages =
     (if handle > 0
      then case peek handle mh of None \<Rightarrow> None | Some h \<Rightarrow> allocated_loop mh h (pages + 1)
      else Some pages)"

definition MEM_AllocatedPages :: "MemHandle list \<Rightarrow> MemHandle \<Rightarrow> nat option" where
  "MEM_AllocatedPages mh handle = allocated_loop mh handle 0"

section \<open>Best fit\<close>

function best_loop :: "MemHandle list \<Rightarrow> nat \<Rightarrow> nat \<Rightarrow> nat \<Rightarrow> nat \<Rightarrow> nat \<Rightarrow> nat" where
  "best_loop mh sz index first best best_first =
     (if index < length mh
      then if first = 0
           then if mh ! index = 0 then best_loop mh sz (index + 1) index best best_first
                else best_loop mh sz (index + 1) first best best_first
           else if mh ! index \<noteq> 0
           then let pages = index - first
                in if pages = sz then first
                   else if pages > sz \<and> pages < best then best_loop mh sz (index + 1) 0 pages first
                   else best_loop mh sz (index + 1) 0 best best_first
           else best_loop mh sz (index + 1) first best best_first
      else if first \<noteq> 0 \<and> index - first \<ge> sz \<and> index - first < best then first
      else best_first)"
  by pat_completeness auto
termination by (relation "measure (\<lambda>(mh, s, i, f, b, bf). length mh - i)") (auto simp: Let_def)

definition BestMatch :: "nat \<Rightarrow> MemHandle list \<Rightarrow> nat" where
  "BestMatch sz mh = best_loop mh sz XMS_START 0 0xfffffff 0"

definition MEM_GetNextFreePage :: "MemHandle list \<Rightarrow> MemHandle" where
  "MEM_GetNextFreePage mh = int (BestMatch 1 mh)"

section \<open>Allocation\<close>

text \<open>The pointer \<open>next\<close>: at the result \<open>ret\<close>, or at an entry of the array.\<close>

datatype loc = Ret | Entry nat

fun store :: "loc \<Rightarrow> MemHandle \<Rightarrow> MemHandle \<times> MemHandle list \<Rightarrow> (MemHandle \<times> MemHandle list) option" where
  "store Ret v (ret, mh) = Some (v, mh)"
| "store (Entry i) v (ret, mh) = (if i < length mh then Some (ret, mh[i := v]) else None)"

primrec seq_loop :: "nat \<Rightarrow> nat \<Rightarrow> loc \<Rightarrow> MemHandle \<times> MemHandle list \<Rightarrow> (MemHandle \<times> MemHandle list) option" where
  "seq_loop 0 index next st = store next (-1) st"
| "seq_loop (Suc pages) index next st =
     (case store next (int index) st of None \<Rightarrow> None | Some st \<Rightarrow> seq_loop pages (index + 1) (Entry index) st)"

text \<open>\<open>while (pages && (!memory.mhandles[index]))\<close>; the result has the remaining pages and \<open>next\<close>.\<close>

fun fill_loop :: "nat \<Rightarrow> nat \<Rightarrow> loc \<Rightarrow> MemHandle \<times> MemHandle list \<Rightarrow> (nat \<times> loc \<times> MemHandle \<times> MemHandle list) option" where
  "fill_loop 0 index next st = Some (0, next, st)"
| "fill_loop (Suc pages) index next st =
     (if index < length (snd st)
      then if snd st ! index = 0
           then case store next (int index) st of None \<Rightarrow> None | Some st \<Rightarrow> fill_loop pages (index + 1) (Entry index) st
           else Some (Suc pages, next, st)
      else None)"

partial_function (option) scatter_loop ::
  "nat \<Rightarrow> loc \<Rightarrow> MemHandle \<times> MemHandle list \<Rightarrow> (pool_error + MemHandle \<times> MemHandle list) option" where
  "scatter_loop pages next st =
     (if pages = 0 then Some (Inr st)
      else let index = BestMatch 1 (snd st)
           in if index = 0 then Some (Inl Corruption)
              else case fill_loop pages index next st of
                  None \<Rightarrow> None
                | Some (pages, next, st) \<Rightarrow>
                    (case store next (-1) st of None \<Rightarrow> None | Some st \<Rightarrow> scatter_loop pages next st))"

definition MEM_AllocatePages ::
  "nat \<Rightarrow> bool \<Rightarrow> MemHandle list \<Rightarrow> (pool_error + MemHandle \<times> MemHandle list) option" where
  "MEM_AllocatePages pages sequence mh =
     (if pages = 0 then Some (Inr (0, mh))
      else if sequence
      then let index = BestMatch pages mh
           in if index = 0 then Some (Inr (0, mh))
              else map_option Inr (seq_loop pages index Ret (0, mh))
      else if MEM_FreeTotal mh < pages then Some (Inr (0, mh))
      else scatter_loop pages Ret (0, mh))"

section \<open>Release\<close>

partial_function (option) MEM_ReleasePages :: "MemHandle \<Rightarrow> MemHandle list \<Rightarrow> MemHandle list option" where
  "MEM_ReleasePages handle mh =
     (if handle > 0
      then case peek handle mh of
          None \<Rightarrow> None
        | Some next \<Rightarrow> (case poke handle 0 mh of None \<Rightarrow> None | Some mh \<Rightarrow> MEM_ReleasePages next mh)
      else Some mh)"

section \<open>Reallocation\<close>

text \<open>The loops of \<open>MEM_ReAllocatePages\<close>: count the pages of the block, find the last page to keep,
  free the tail, measure the free pages behind the block, and link them.\<close>

partial_function (option) count_loop :: "MemHandle list \<Rightarrow> MemHandle \<Rightarrow> MemHandle \<Rightarrow> nat \<Rightarrow> (nat \<times> MemHandle) option" where
  "count_loop mh index lst old_pages =
     (if index > 0
      then case peek index mh of None \<Rightarrow> None | Some next \<Rightarrow> count_loop mh next index (old_pages + 1)
      else Some (old_pages, lst))"

primrec MEM_NextHandleAt :: "nat \<Rightarrow> MemHandle \<Rightarrow> MemHandle list \<Rightarrow> MemHandle option" where
  "MEM_NextHandleAt 0 handle mh = Some handle"
| "MEM_NextHandleAt (Suc n) handle mh =
     (case peek handle mh of None \<Rightarrow> None | Some h \<Rightarrow> MEM_NextHandleAt n h mh)"

definition MEM_NextHandle :: "MemHandle \<Rightarrow> MemHandle list \<Rightarrow> MemHandle option" where
  "MEM_NextHandle handle mh = peek handle mh"

primrec free_tail :: "nat \<Rightarrow> MemHandle \<Rightarrow> MemHandle list \<Rightarrow> MemHandle list option" where
  "free_tail 0 index mh = Some mh"
| "free_tail (Suc n) index mh =
     (case peek index mh of None \<Rightarrow> None
      | Some next \<Rightarrow> (case poke index 0 mh of None \<Rightarrow> None | Some mh \<Rightarrow> free_tail n next mh))"

function free_behind :: "MemHandle list \<Rightarrow> nat \<Rightarrow> nat \<Rightarrow> nat" where
  "free_behind mh index free =
     (if index < length mh \<and> mh ! index = 0 then free_behind mh (index + 1) (free + 1) else free)"
  by pat_completeness auto
termination by (relation "measure (\<lambda>(mh, i, f). length mh - i)") auto

primrec link_behind :: "nat \<Rightarrow> int \<Rightarrow> MemHandle list \<Rightarrow> MemHandle list option" where
  "link_behind 0 index mh = poke index (-1) mh"
| "link_behind (Suc need) index mh =
     (case poke index (index + 1) mh of None \<Rightarrow> None | Some mh \<Rightarrow> link_behind need (index + 1) mh)"

text \<open>\<open>while (size--) mem_writeb_inline(dest++, mem_readb_inline(src++))\<close>\<close>

primrec mem_memcpy :: "u32 \<Rightarrow> u32 \<Rightarrow> nat \<Rightarrow> (u32 \<Rightarrow> u8) \<Rightarrow> u32 \<Rightarrow> u8" where
  "mem_memcpy dest src 0 m = m"
| "mem_memcpy dest src (Suc sz) m = mem_memcpy (dest + 1) (src + 1) sz (m(dest := m src))"

text \<open>The handle is passed by reference: it is returned with the result and the pool.\<close>

definition MEM_ReAllocatePages ::
  "MemHandle \<Rightarrow> nat \<Rightarrow> bool \<Rightarrow> pool \<Rightarrow> (pool_error + bool \<times> MemHandle \<times> pool) option" where
  "MEM_ReAllocatePages handle pages sequence p =
     (if handle \<le> 0
      then if pages = 0 then Some (Inr (True, handle, p))
           else case MEM_AllocatePages pages sequence (mhandles p) of
               None \<Rightarrow> None
             | Some (Inl e) \<Rightarrow> Some (Inl e)
             | Some (Inr (h, mh)) \<Rightarrow> Some (Inr (h > 0, h, p\<lparr>mhandles := mh\<rparr>))
      else if pages = 0
      then case MEM_ReleasePages handle (mhandles p) of
          None \<Rightarrow> None
        | Some mh \<Rightarrow> Some (Inr (True, -1, p\<lparr>mhandles := mh\<rparr>))
      else case count_loop (mhandles p) handle 0 0 of
          None \<Rightarrow> None
        | Some (old_pages, lst) \<Rightarrow>
            if old_pages = pages then Some (Inr (True, handle, p))
            else if old_pages > pages
            then (case MEM_NextHandleAt (pages - 1) handle (mhandles p) of
                    None \<Rightarrow> None
                  | Some index \<Rightarrow>
                      (case peek index (mhandles p) of
                         None \<Rightarrow> None
                       | Some next \<Rightarrow>
                           (case poke index (-1) (mhandles p) of
                              None \<Rightarrow> None
                            | Some mh \<Rightarrow>
                                (case free_tail (old_pages - 1 - (pages - 1)) next mh of
                                   None \<Rightarrow> None
                                 | Some mh \<Rightarrow> Some (Inr (True, handle, p\<lparr>mhandles := mh\<rparr>))))))
            else let need = pages - old_pages
                 in if sequence
                    then if free_behind (mhandles p) (nat (lst + 1)) 0 \<ge> need
                         then (case link_behind need lst (mhandles p) of
                                 None \<Rightarrow> None
                               | Some mh \<Rightarrow> Some (Inr (True, handle, p\<lparr>mhandles := mh\<rparr>)))
                         else (case MEM_AllocatePages pages True (mhandles p) of
                                 None \<Rightarrow> None
                               | Some (Inl e) \<Rightarrow> Some (Inl e)
                               | Some (Inr (newhandle, mh)) \<Rightarrow>
                                   if newhandle = 0 then Some (Inr (False, handle, p\<lparr>mhandles := mh\<rparr>))
                                   else let p = p\<lparr>mhandles := mh, ram := mem_memcpy (word_of_int (newhandle * 4096)) (word_of_int (handle * 4096)) (old_pages * 4096) (ram p)\<rparr>
                                        in (case MEM_ReleasePages handle (mhandles p) of
                                              None \<Rightarrow> None
                                            | Some mh \<Rightarrow> Some (Inr (True, newhandle, p\<lparr>mhandles := mh\<rparr>))))
                    else (case MEM_AllocatePages need False (mhandles p) of
                            None \<Rightarrow> None
                          | Some (Inl e) \<Rightarrow> Some (Inl e)
                          | Some (Inr (rem, mh)) \<Rightarrow>
                              if rem = 0 then Some (Inr (False, handle, p\<lparr>mhandles := mh\<rparr>))
                              else (case poke lst rem mh of
                                      None \<Rightarrow> None
                                    | Some mh \<Rightarrow> Some (Inr (True, handle, p\<lparr>mhandles := mh\<rparr>)))))"

section \<open>Power-on state\<close>

definition init_mhandles :: "nat \<Rightarrow> MemHandle list" where
  "init_mhandles num_pages = replicate num_pages 0"

end
