(* ===== verification/Pool_Correct.thy ===== *)
theory Pool_Correct
  imports Page_Pool
begin

text \<open>
  The page allocator: \<open>BestMatch\<close> finds the smallest run of free pages that is large enough,
  blocks are disjoint chains that cover exactly the pages in use (\<open>pool_ok\<close>), and allocation,
  release and reallocation act on the list of blocks.
\<close>

section \<open>Runs of free pages\<close>

definition run :: "MemHandle list \<Rightarrow> nat \<Rightarrow> nat \<Rightarrow> bool" where
  "run mh a n \<longleftrightarrow> 0 < n \<and> XMS_START \<le> a \<and> a + n \<le> length mh \<and> (\<forall>i. a \<le> i \<and> i < a + n \<longrightarrow> mh ! i = 0) \<and>
     (a = XMS_START \<or> mh ! (a - 1) \<noteq> 0) \<and> (a + n = length mh \<or> mh ! (a + n) \<noteq> 0)"

text \<open>\<open>first\<close> begins the free pages just before \<open>index\<close>.\<close>

definition open_run :: "MemHandle list \<Rightarrow> nat \<Rightarrow> nat \<Rightarrow> bool" where
  "open_run mh first index \<longleftrightarrow>
     (if first = 0 then index = XMS_START \<or> mh ! (index - 1) \<noteq> 0
      else XMS_START \<le> first \<and> first < index \<and> index \<le> length mh \<and> (\<forall>i. first \<le> i \<and> i < index \<longrightarrow> mh ! i = 0) \<and>
        (first = XMS_START \<or> mh ! (first - 1) \<noteq> 0))"

lemma open_run_end:
  assumes "open_run mh first index" "run mh a n" "a + n = index"
  shows "first \<noteq> 0 \<and> a = first"
proof (cases "first = 0")
  case True
  have "a \<le> index - 1" "index - 1 < a + n" using assms(2,3) by (auto simp: run_def)
  then have "mh ! (index - 1) = 0" using assms(2) unfolding run_def by blast
  then show ?thesis using assms True by (auto simp: open_run_def run_def)
next
  case False
  then have f: "XMS_START \<le> first" "first < index" "\<forall>i. first \<le> i \<and> i < index \<longrightarrow> mh ! i = 0" "first = XMS_START \<or> mh ! (first - 1) \<noteq> 0"
    using assms(1) by (auto simp: open_run_def)
  have "\<not> a < first"
  proof
    assume "a < first"
    then have "a \<le> first - 1" "first - 1 < a + n" using assms(3) f(2) by auto
    then have "mh ! (first - 1) = 0" using assms(2) unfolding run_def by blast
    then show False using f(4) \<open>a < first\<close> assms(2) by (auto simp: run_def)
  qed
  moreover have "\<not> first < a"
  proof
    assume "first < a"
    then have "first \<le> a - 1" "a - 1 < index" using assms(2,3) by (auto simp: run_def)
    then have "mh ! (a - 1) = 0" using f(3) by blast
    then show False using \<open>first < a\<close> assms(2) f(1) by (auto simp: run_def)
  qed
  ultimately show ?thesis using False by simp
qed

text \<open>The best run that ended before \<open>index\<close>.\<close>

definition best_so_far :: "MemHandle list \<Rightarrow> nat \<Rightarrow> nat \<Rightarrow> nat \<Rightarrow> nat \<Rightarrow> bool" where
  "best_so_far mh sz index best bf \<longleftrightarrow>
     (if bf = 0 then best = 0xfffffff \<and> (\<forall>a n. run mh a n \<and> a + n < index \<longrightarrow> n < sz)
      else run mh bf best \<and> sz < best \<and> (\<forall>a n. run mh a n \<and> a + n < index \<and> sz \<le> n \<longrightarrow> best \<le> n))"

definition best_fit :: "MemHandle list \<Rightarrow> nat \<Rightarrow> nat \<Rightarrow> bool" where
  "best_fit mh sz r \<longleftrightarrow>
     (if r = 0 then \<forall>a n. run mh a n \<longrightarrow> n < sz
      else \<exists>n. run mh r n \<and> sz \<le> n \<and> (\<forall>a m. run mh a m \<and> sz \<le> m \<longrightarrow> n \<le> m))"

lemma XMS_START_pos [simp]: "0 < XMS_START"
  by (simp add: XMS_START_def)

lemma run_pos: "run mh a n \<Longrightarrow> a \<noteq> 0"
  using XMS_START_pos by (auto simp: run_def)

lemma run_end_lt:
  assumes "run mh a n" "a + n < index + 1" "index < length mh"
  shows "a + n < index \<or> a + n = index \<and> mh ! index \<noteq> 0"
proof (cases "a + n < index")
  case False
  then have "a + n = index" using assms(2) by simp
  then show ?thesis using assms(1,3) by (auto simp: run_def)
qed simp

declare best_loop.simps [simp del] free_behind.simps [simp del] free_largest_loop.simps [simp del] free_total_loop.simps [simp del]

lemma best_loop_spec:
  assumes "0 < sz" "length mh \<le> 0xfffffff"
  shows "open_run mh first index \<Longrightarrow> best_so_far mh sz index best bf \<Longrightarrow> XMS_START \<le> index \<Longrightarrow> index \<le> length mh \<or> index = XMS_START \<Longrightarrow>
    best_fit mh sz (best_loop mh sz index first best bf)"
proof (induction "length mh - index" arbitrary: index first best bf)
  case 0
  then have len: "\<not> index < length mh" by simp
  have ends: "a + n = index \<or> a + n < index" if "run mh a n" for a n using that len 0 by (auto simp: run_def)
  show ?case
  proof (cases "first \<noteq> 0 \<and> index - first \<ge> sz \<and> index - first < best")
    case True
    then have r: "run mh first (index - first)" using 0 len by (auto simp: open_run_def run_def)
    have "index - first \<le> m" if "run mh a m" "sz \<le> m" for a m
    proof (cases "a + m < index")
      case early: True
      then have "best \<le> m" using 0(3) that by (fastforce simp: best_so_far_def split: if_splits)
      then show ?thesis using True by simp
    next
      case False
      then show ?thesis using ends [OF that(1)] open_run_end [OF 0(2) that(1)] by auto
    qed
    then show ?thesis using True len r by (subst best_loop.simps) (auto simp: best_fit_def)
  next
    case False
    have res: "best_loop mh sz index first best bf = bf" using False len by (subst best_loop.simps) auto
    show ?thesis
    proof (cases "bf = 0")
      case True
      have "n < sz" if "run mh a n" for a n
      proof (rule ccontr)
        assume "\<not> n < sz"
        then have "a + n = index" using ends [OF that] 0(3) that True by (auto simp: best_so_far_def)
        then have "first \<noteq> 0" "index - first = n" "n < 0xfffffff"
          using open_run_end [OF 0(2) that] that assms(2) run_pos [OF that] by (auto simp: run_def)
        then show False using False \<open>\<not> n < sz\<close> 0(3) True by (auto simp: best_so_far_def)
      qed
      then show ?thesis using res True by (simp add: best_fit_def)
    next
      case bf: False
      have "best \<le> m" if "run mh a m" "sz \<le> m" for a m
      proof (cases "a + m < index")
        case True
        then show ?thesis using 0(3) that bf by (fastforce simp: best_so_far_def)
      next
        case late: False
        then show ?thesis using ends [OF that(1)] open_run_end [OF 0(2) that(1)] False that(2) by auto
      qed
      then show ?thesis using res bf 0(3) by (auto simp: best_fit_def best_so_far_def intro: exI [of _ best])
    qed
  qed
next
  case (Suc k)
  then have len: "index < length mh" and k: "k = length mh - (index + 1)" by simp_all
  have le: "XMS_START \<le> index + 1" "index + 1 \<le> length mh \<or> index + 1 = XMS_START" using Suc.prems len by auto
  note IH = Suc.hyps(1) [OF k _ _ le]
  have keep: "best_so_far mh sz (index + 1) best bf" if "mh ! index = 0 \<or> first = 0"
  proof -
    have "a + n < index" if "run mh a n" "a + n < index + 1" for a n
      using run_end_lt [OF that len] open_run_end [OF Suc.prems(1) that(1)] \<open>mh ! index = 0 \<or> first = 0\<close> by auto
    then show ?thesis using Suc.prems(2) by (auto simp: best_so_far_def split: if_splits)
  qed
  show ?case
  proof (cases "mh ! index = 0")
    case True
    have "open_run mh (if first = 0 then index else first) (index + 1)"
      using Suc.prems(1) True len less_le_trans [OF XMS_START_pos Suc.prems(3)]
        Suc.prems(3) by (auto simp: open_run_def less_Suc_eq)
    then show ?thesis using IH [OF _ keep] True len by (subst best_loop.simps) (auto split: if_splits)
  next
    case used: False
    have o: "open_run mh 0 (index + 1)" using used by (simp add: open_run_def)
    show ?thesis
    proof (cases "first = 0")
      case True
      then show ?thesis using IH [OF o keep] used len by (subst best_loop.simps) auto
    next
      case False
      have r: "run mh first (index - first)" using Suc.prems(1) False used len by (auto simp: open_run_def run_def)
      have old: "a + n < index \<or> n = index - first" if "run mh a n" "a + n < index + 1" for a n
        using run_end_lt [OF that len] open_run_end [OF Suc.prems(1) that(1)] by auto
      consider (exact) "index - first = sz" | (better) "sz < index - first" "index - first < best"
        | (worse) "index - first < sz \<or> (sz < index - first \<and> best \<le> index - first)" by linarith
      then show ?thesis
      proof cases
        case exact
        then show ?thesis using r False used len by (subst best_loop.simps) (auto simp: best_fit_def Let_def)
      next
        case better
        have "best_so_far mh sz (index + 1) (index - first) first"
          using Suc.prems(2) better r False old by (force simp: best_so_far_def split: if_splits)
        then show ?thesis using IH [OF o] better False used len by (subst best_loop.simps) (auto simp: Let_def)
      next
        case worse
        have "best_so_far mh sz (index + 1) best bf"
          using Suc.prems(2) worse old len assms(2) by (force simp: best_so_far_def split: if_splits)
        then show ?thesis using IH [OF o] worse False used len by (subst best_loop.simps) (auto simp: Let_def)
      qed
    qed
  qed
qed

lemma BestMatch_spec: "0 < sz \<Longrightarrow> length mh \<le> 0xfffffff \<Longrightarrow> best_fit mh sz (BestMatch sz mh)"
  unfolding BestMatch_def by (rule best_loop_spec) (auto simp: open_run_def best_so_far_def run_def)

section \<open>Blocks\<close>

primrec chain :: "MemHandle list \<Rightarrow> MemHandle \<Rightarrow> nat list \<Rightarrow> bool" where
  "chain mh h [] \<longleftrightarrow> h = -1"
| "chain mh h (p # ps) \<longleftrightarrow> h = int p \<and> 0 < p \<and> p < length mh \<and> chain mh (mh ! p) ps"

lemma chain_cong:
  "length mh' = length mh \<Longrightarrow> (\<And>p. p \<in> set ps \<Longrightarrow> mh' ! p = mh ! p) \<Longrightarrow> chain mh' h ps = chain mh h ps"
  by (induction ps arbitrary: h) auto

lemma chain_upd [simp]: "p \<notin> set ps \<Longrightarrow> chain (mh[p := v]) h ps = chain mh h ps"
  by (rule chain_cong) (simp, metis nth_list_update_neq)

lemma chain_bounds: "chain mh h ps \<Longrightarrow> p \<in> set ps \<Longrightarrow> 0 < p \<and> p < length mh"
  by (induction ps arbitrary: h) auto

text \<open>
  \<open>pool_ok mh cs\<close>: the blocks \<open>cs\<close>, each the list of its pages, are chains in the array, do not
  overlap, and their pages are exactly the pages in use.
\<close>

definition used_pages :: "MemHandle list \<Rightarrow> nat set" where
  "used_pages mh = {i. XMS_START \<le> i \<and> i < length mh \<and> mh ! i \<noteq> 0}"

definition pool_ok :: "MemHandle list \<Rightarrow> nat list list \<Rightarrow> bool" where
  "pool_ok mh cs \<longleftrightarrow> length mh \<le> 0x100000 \<and> (\<forall>c \<in> set cs. c \<noteq> [] \<and> chain mh (int (hd c)) c) \<and>
     distinct (concat cs) \<and> set (concat cs) = used_pages mh"

text \<open>The array with the pages of a set made free.\<close>

definition zeroed :: "MemHandle list \<Rightarrow> nat set \<Rightarrow> MemHandle list" where
  "zeroed mh S = map (\<lambda>i. if i \<in> S then 0 else mh ! i) [0 ..< length mh]"

lemma zeroed_simps [simp]:
  "length (zeroed mh S) = length mh" "i < length mh \<Longrightarrow> zeroed mh S ! i = (if i \<in> S then 0 else mh ! i)"
  by (simp_all add: zeroed_def)

lemma zeroed_empty [simp]: "zeroed mh {} = mh"
  by (rule nth_equalityI) simp_all

lemma zeroed_upd: "p < length mh \<Longrightarrow> zeroed (mh[p := 0]) S = zeroed mh (insert p S)"
  by (rule nth_equalityI) (auto simp: nth_list_update)

lemma release_chain:
  "chain mh h ps \<Longrightarrow> distinct ps \<Longrightarrow> MEM_ReleasePages h mh = Some (zeroed mh (set ps))"
proof (induction ps arbitrary: mh h)
  case Nil
  then show ?case by (subst MEM_ReleasePages.simps) simp
next
  case (Cons p ps)
  then have "chain (mh[p := 0]) (mh ! p) ps" by simp
  then show ?case using Cons by (subst MEM_ReleasePages.simps) (simp add: peek_def poke_def zeroed_upd)
qed

lemma release_none: "h \<le> 0 \<Longrightarrow> MEM_ReleasePages h mh = Some mh"
  by (subst MEM_ReleasePages.simps) simp

lemma used_zeroed: "used_pages (zeroed mh S) = used_pages mh - S"
  by (auto simp: used_pages_def split: if_splits)

lemma pool_ok_length: "pool_ok mh cs \<Longrightarrow> length mh \<le> 0x100000"
  by (simp add: pool_ok_def)

lemma pool_ok_bounds: "pool_ok mh cs \<Longrightarrow> c \<in> set cs \<Longrightarrow> p \<in> set c \<Longrightarrow> XMS_START \<le> p \<and> p < length mh"
  unfolding pool_ok_def used_pages_def by fastforce

lemma pool_ok_release:
  assumes "pool_ok mh (c # cs)"
  shows "MEM_ReleasePages (int (hd c)) mh = Some (zeroed mh (set c))" "pool_ok (zeroed mh (set c)) cs"
proof -
  have c: "chain mh (int (hd c)) c" "distinct c" "distinct (concat cs)" "set c \<inter> set (concat cs) = {}"
    using assms by (auto simp: pool_ok_def)
  show "MEM_ReleasePages (int (hd c)) mh = Some (zeroed mh (set c))" using release_chain [OF c(1,2)] .
  have "chain (zeroed mh (set c)) (int (hd d)) d = chain mh (int (hd d)) d" if "d \<in> set cs" for d
  proof (rule chain_cong)
    fix p
    assume "p \<in> set d"
    moreover from this have "p \<notin> set c" using c(4) that by auto
    ultimately show "zeroed mh (set c) ! p = mh ! p" using pool_ok_bounds [OF assms, of d p] that by simp
  qed simp
  moreover have "set (concat cs) = used_pages (zeroed mh (set c))"
  proof -
    have "set (concat cs) = set (concat (c # cs)) - set c" using c(4) by auto
    then show ?thesis using assms unfolding used_zeroed pool_ok_def by blast
  qed
  ultimately show "pool_ok (zeroed mh (set c)) cs" using assms c(3) by (simp add: pool_ok_def)
qed

section \<open>Contiguous allocation\<close>

lemma seq_loop_spec:
  "j < length mh \<Longrightarrow> idx + n \<le> length mh \<Longrightarrow> j \<notin> {idx ..< idx + n} \<Longrightarrow>
   \<exists>mh'. seq_loop n idx (Entry j) (r, mh) = Some (r, mh') \<and> length mh' = length mh \<and>
     mh' ! j = (if n = 0 then -1 else int idx) \<and>
     (\<forall>i. idx \<le> i \<and> i < idx + n \<longrightarrow> mh' ! i = (if i + 1 = idx + n then -1 else int (i + 1))) \<and>
     (\<forall>i. i \<noteq> j \<and> i \<notin> {idx ..< idx + n} \<longrightarrow> mh' ! i = mh ! i)"
proof (induction n arbitrary: j idx mh)
  case 0
  then show ?case by auto
next
  case (Suc n)
  have "idx < length (mh[j := int idx])" "idx + 1 + n \<le> length (mh[j := int idx])" "idx \<notin> {idx + 1 ..< idx + 1 + n}"
    using Suc.prems by auto
  from Suc.IH [OF this] obtain mh' where m: "seq_loop n (idx + 1) (Entry idx) (r, mh[j := int idx]) = Some (r, mh')"
    "length mh' = length mh" "mh' ! idx = (if n = 0 then -1 else int (idx + 1))"
    "\<forall>i. idx + 1 \<le> i \<and> i < idx + 1 + n \<longrightarrow> mh' ! i = (if i + 1 = idx + 1 + n then -1 else int (i + 1))"
    "\<forall>i. i \<noteq> idx \<and> i \<notin> {idx + 1 ..< idx + 1 + n} \<longrightarrow> mh' ! i = mh[j := int idx] ! i" by auto
  have "mh' ! j = int idx" using m(5) Suc.prems by auto
  moreover have "mh' ! i = (if i + 1 = idx + Suc n then -1 else int (i + 1))" if "idx \<le> i" "i < idx + Suc n" for i
    using m(3,4) that by (cases "i = idx") auto
  moreover have "mh' ! i = mh ! i" if "i \<noteq> j" "i \<notin> {idx ..< idx + Suc n}" for i using m(5) that by auto
  ultimately show ?case using m(1,2) Suc.prems by auto
qed

definition linked :: "MemHandle list \<Rightarrow> nat \<Rightarrow> nat \<Rightarrow> bool" where
  "linked mh a n \<longleftrightarrow> (\<forall>i. a \<le> i \<and> i < a + n \<longrightarrow> mh ! i = (if i + 1 = a + n then -1 else int (i + 1)))"

lemma linked_chain: "linked mh a n \<Longrightarrow> 0 < a \<Longrightarrow> a + n \<le> length mh \<Longrightarrow> 0 < n \<Longrightarrow> chain mh (int a) [a ..< a + n]"
proof (induction n arbitrary: a)
  case (Suc n)
  show ?case
  proof (cases n)
    case 0
    then show ?thesis using Suc.prems by (simp add: linked_def)
  next
    case (Suc k)
    have "linked mh (a + 1) n" using Suc.prems(1) by (auto simp: linked_def)
    then have "chain mh (int (a + 1)) [a + 1 ..< a + 1 + n]"
      by (rule Suc.IH) (use Suc.prems Suc in auto)
    moreover have "[a ..< a + Suc n] = a # [a + 1 ..< a + 1 + n]" by (simp add: upt_conv_Cons del: upt_Suc)
    moreover have "mh ! a = int (a + 1)" using Suc.prems(1) Suc by (simp add: linked_def)
    ultimately show ?thesis using Suc.prems by (simp del: upt_Suc)
  qed
qed simp

lemma seq_block:
  assumes "0 < n" "idx + n \<le> length mh"
  obtains mh' where "seq_loop n idx Ret (r, mh) = Some (int idx, mh')" "length mh' = length mh" "linked mh' idx n"
    "\<And>i. i \<notin> {idx ..< idx + n} \<Longrightarrow> mh' ! i = mh ! i"
proof -
  obtain m where n: "n = Suc m" using assms(1) by (cases n) auto
  have "idx < length mh" "idx + 1 + m \<le> length mh" "idx \<notin> {idx + 1 ..< idx + 1 + m}" using assms n by auto
  from seq_loop_spec [OF this, of "int idx"] obtain mh' where m: "seq_loop m (idx + 1) (Entry idx) (int idx, mh) = Some (int idx, mh')"
    "length mh' = length mh" "mh' ! idx = (if m = 0 then -1 else int (idx + 1))"
    "\<forall>i. idx + 1 \<le> i \<and> i < idx + 1 + m \<longrightarrow> mh' ! i = (if i + 1 = idx + 1 + m then -1 else int (i + 1))"
    "\<forall>i. i \<noteq> idx \<and> i \<notin> {idx + 1 ..< idx + 1 + m} \<longrightarrow> mh' ! i = mh ! i" by auto
  have "linked mh' idx n"
    unfolding linked_def
  proof (intro allI impI)
    fix i
    assume "idx \<le> i \<and> i < idx + n"
    then show "mh' ! i = (if i + 1 = idx + n then - 1 else int (i + 1))"
      using m(3,4) n by (cases "i = idx") auto
  qed
  moreover have "mh' ! i = mh ! i" if "i \<notin> {idx ..< idx + n}" for i using m(5) that n by auto
  ultimately show ?thesis using that m(1,2) n by auto
qed

lemma pool_ok_new_block:
  assumes "pool_ok mh cs" "0 < n" "XMS_START \<le> a" "a + n \<le> length mh" "\<forall>i. a \<le> i \<and> i < a + n \<longrightarrow> mh ! i = 0"
    "length mh' = length mh" "linked mh' a n" "\<And>i. i < length mh \<Longrightarrow> i \<notin> {a ..< a + n} \<Longrightarrow> mh' ! i = mh ! i"
  shows "pool_ok mh' ([a ..< a + n] # cs)" "zeroed mh' {a ..< a + n} = mh"
proof -
  have apos: "0 < a" using assms(3) XMS_START_pos by linarith
  have used: "set (concat cs) = used_pages mh" using assms(1) by (simp add: pool_ok_def)
  then have disj: "p \<notin> {a ..< a + n}" if "p \<in> set (concat cs)" for p using that assms(5) by (auto simp: used_pages_def)
  have "chain mh' (int (hd c)) c" if "c \<in> set cs" for c
  proof -
    have "chain mh' (int (hd c)) c = chain mh (int (hd c)) c"
    proof (rule chain_cong)
      fix p
      assume "p \<in> set c"
      then have "p \<in> set (concat cs)" using that by auto
      moreover from this have "p < length mh" unfolding used used_pages_def by simp
      ultimately show "mh' ! p = mh ! p" using assms(8) disj by blast
    qed (fact assms(6))
    then show ?thesis using assms(1) that by (simp add: pool_ok_def)
  qed
  moreover have "set (concat ([a ..< a + n] # cs)) = used_pages mh'"
  proof -
    have "mh' ! i \<noteq> 0" if "i \<in> {a ..< a + n}" for i using that assms(7) by (auto simp: linked_def)
    then have "used_pages mh' = {a ..< a + n} \<union> used_pages mh"
      using assms(3,4,6,8) unfolding used_pages_def by fastforce
    then show ?thesis using used by simp
  qed
  moreover have "distinct (concat ([a ..< a + n] # cs))" using assms(1) disj by (auto simp: pool_ok_def)
  moreover have "[a ..< a + n] \<noteq> []" "chain mh' (int (hd [a ..< a + n])) [a ..< a + n]"
    using linked_chain [OF assms(7) apos] assms(2,4,6) by simp_all
  ultimately show "pool_ok mh' ([a ..< a + n] # cs)"
    using assms(1,6) unfolding pool_ok_def by (metis set_ConsD)
  show "zeroed mh' {a ..< a + n} = mh"
    by (rule nth_equalityI) (use assms(5,6,8) in auto)
qed

lemma allocate_sequence:
  assumes "pool_ok mh cs" "0 < pages"
  shows "(MEM_AllocatePages pages True mh = Some (Inr (0, mh)) \<and> (\<forall>a n. run mh a n \<longrightarrow> n < pages)) \<or>
    (\<exists>a n mh'. MEM_AllocatePages pages True mh = Some (Inr (int a, mh')) \<and> run mh a n \<and> pages \<le> n \<and>
      (\<forall>b m. run mh b m \<and> pages \<le> m \<longrightarrow> n \<le> m) \<and> pool_ok mh' ([a ..< a + pages] # cs) \<and> zeroed mh' {a ..< a + pages} = mh)"
proof -
  have f: "best_fit mh pages (BestMatch pages mh)" using BestMatch_spec assms by (simp add: pool_ok_def)
  show ?thesis
  proof (cases "BestMatch pages mh = 0")
    case True
    then show ?thesis using f assms(2) by (simp add: MEM_AllocatePages_def best_fit_def Let_def)
  next
    case False
    define a where "a = BestMatch pages mh"
    from f False obtain n where n: "run mh a n" "pages \<le> n" "\<forall>b m. run mh b m \<and> pages \<le> m \<longrightarrow> n \<le> m"
      by (auto simp: best_fit_def a_def)
    then have b: "a + pages \<le> length mh" "XMS_START \<le> a" "\<forall>i. a \<le> i \<and> i < a + pages \<longrightarrow> mh ! i = 0"
      by (auto simp: run_def)
    obtain mh' where m: "seq_loop pages a Ret (0, mh) = Some (int a, mh')" "length mh' = length mh" "linked mh' a pages"
      "\<And>i. i \<notin> {a ..< a + pages} \<Longrightarrow> mh' ! i = mh ! i" using seq_block [OF assms(2) b(1)] by metis
    note ok = pool_ok_new_block [OF assms b(2,1,3) m(2,3,4)]
    have "MEM_AllocatePages pages True mh = Some (Inr (int a, mh'))"
      using m(1) False assms(2) by (simp add: MEM_AllocatePages_def a_def Let_def)
    then show ?thesis using n ok by blast
  qed
qed

section \<open>Chains followed by the loops\<close>

lemma allocated_chain: "chain mh h ps \<Longrightarrow> allocated_loop mh h n = Some (n + length ps)"
proof (induction ps arbitrary: h n)
  case Nil
  then show ?case by (subst allocated_loop.simps) simp
next
  case (Cons p ps)
  then show ?case by (subst allocated_loop.simps) (simp add: peek_def)
qed

lemma count_chain: "chain mh h ps \<Longrightarrow> count_loop mh h l n = Some (n + length ps, if ps = [] then l else int (last ps))"
proof (induction ps arbitrary: h l n)
  case Nil
  then show ?case by (subst count_loop.simps) simp
next
  case (Cons p ps)
  then show ?case by (subst count_loop.simps) (simp add: peek_def)
qed

lemma next_at_chain: "chain mh h ps \<Longrightarrow> n < length ps \<Longrightarrow> MEM_NextHandleAt n h mh = Some (int (ps ! n))"
proof (induction n arbitrary: h ps)
  case 0
  then show ?case by (cases ps) auto
next
  case (Suc n)
  then show ?case by (cases ps) (auto simp: peek_def)
qed

lemma chain_drop: "chain mh h ps \<Longrightarrow> n < length ps \<Longrightarrow> chain mh (mh ! (ps ! n)) (drop (n + 1) ps)"
proof (induction n arbitrary: h ps)
  case 0
  then show ?case by (cases ps) auto
next
  case (Suc n)
  then show ?case by (cases ps) auto
qed

lemma free_tail_chain: "chain mh h ps \<Longrightarrow> distinct ps \<Longrightarrow> free_tail (length ps) h mh = Some (zeroed mh (set ps))"
  by (induction ps arbitrary: mh h) (simp_all add: peek_def poke_def zeroed_upd)

lemma chain_linked: "chain mh (int a) [a ..< a + n] \<Longrightarrow> linked mh a n"
proof (induction n arbitrary: a)
  case (Suc n)
  have u: "[a ..< a + Suc n] = a # [a + 1 ..< a + 1 + n]" by (simp add: upt_conv_Cons del: upt_Suc)
  have c: "chain mh (mh ! a) [a + 1 ..< a + 1 + n]" using Suc.prems unfolding u by simp
  show ?case
  proof (cases "n = 0")
    case True
    then show ?thesis using c by (auto simp: linked_def le_less_Suc_eq)
  next
    case False
    then have "mh ! a = int (a + 1)" using c by (cases n) (simp_all add: upt_conv_Cons del: upt_Suc)
    moreover from this have "linked mh (a + 1) n" using Suc.IH c by simp
    ultimately have "mh ! i = (if i + 1 = a + Suc n then - 1 else int (i + 1))" if "a \<le> i" "i < a + Suc n" for i
      using False that by (cases "i = a") (auto simp: linked_def)
    then show ?thesis by (simp add: linked_def)
  qed
qed (simp add: linked_def)

lemma free_behind_spec:
  "f + n \<le> free_behind mh idx f \<Longrightarrow> idx \<le> i \<Longrightarrow> i < idx + n \<Longrightarrow> i < length mh \<and> mh ! i = 0"
proof (induction mh idx f arbitrary: n rule: free_behind.induct)
  case (1 mh idx f)
  show ?case
  proof (cases "idx < length mh \<and> mh ! idx = 0")
    case True
    then have eq: "free_behind mh idx f = free_behind mh (idx + 1) (f + 1)" by (subst free_behind.simps) simp
    show ?thesis
    proof (cases "i = idx")
      case False
      then show ?thesis using "1.IH" [OF True, of "n - 1"] "1.prems" eq by auto
    qed (use True in simp)
  next
    case False
    then have "free_behind mh idx f = f" by (subst free_behind.simps) (simp only: if_False)
    then show ?thesis using "1.prems" by simp
  qed
qed

lemma link_behind_spec:
  "idx + n < length mh \<Longrightarrow> \<exists>mh'. link_behind n (int idx) mh = Some mh' \<and> length mh' = length mh \<and>
     mh' ! (idx + n) = -1 \<and> (\<forall>i. idx \<le> i \<and> i < idx + n \<longrightarrow> mh' ! i = int (i + 1)) \<and>
     (\<forall>i. i \<notin> {idx .. idx + n} \<longrightarrow> mh' ! i = mh ! i)"
proof (induction n arbitrary: idx mh)
  case 0
  then show ?case by (auto simp: poke_def)
next
  case (Suc n)
  have i: "int idx + 1 = int (idx + 1)" by simp
  have "idx + 1 + n < length (mh[idx := int idx + 1])" using Suc.prems by simp
  from Suc.IH [OF this] obtain mh' where m: "link_behind n (int (idx + 1)) (mh[idx := int idx + 1]) = Some mh'"
    "length mh' = length mh" "mh' ! (idx + 1 + n) = -1" "\<forall>i. idx + 1 \<le> i \<and> i < idx + 1 + n \<longrightarrow> mh' ! i = int (i + 1)"
    "\<forall>i. i \<notin> {idx + 1 .. idx + 1 + n} \<longrightarrow> mh' ! i = mh[idx := int idx + 1] ! i" by auto
  have "mh' ! i = int (i + 1)" if "idx \<le> i" "i < idx + Suc n" for i
    using m(4,5) that Suc.prems by (cases "i = idx") auto
  then show ?case using m Suc.prems by (auto simp: poke_def i simp del: of_nat_Suc)
qed

lemma word_of_nat_eq32: "i < 0x100000000 \<Longrightarrow> j < 0x100000000 \<Longrightarrow> (word_of_nat i :: u32) = word_of_nat j \<longleftrightarrow> i = j"
  by (auto simp: word_unat_eq_iff unsigned_of_nat take_bit_nat_eq_self)

lemma memcpy_disjoint:
  "(\<And>i j. i < n \<Longrightarrow> j < n \<Longrightarrow> d + of_nat i \<noteq> s + of_nat j) \<Longrightarrow> n \<le> 0x100000000 \<Longrightarrow>
    (\<forall>i < n. mem_memcpy d s n m (d + of_nat i) = m (s + of_nat i)) \<and> (\<forall>x. (\<forall>i < n. x \<noteq> d + of_nat i) \<longrightarrow> mem_memcpy d s n m x = m x)"
proof (induction n arbitrary: d s m)
  case (Suc n)
  have "d + 1 + of_nat i \<noteq> s + 1 + of_nat j" if "i < n" "j < n" for i j using Suc.prems(1) [of "i + 1" "j + 1"] that by (simp add: add.assoc)
  note IH = Suc.IH [OF this Suc_leD [OF Suc.prems(2)], of "m(d := m s)"]
  have "mem_memcpy d s (Suc n) m (d + of_nat i) = m (s + of_nat i)" if "i < Suc n" for i
  proof (cases i)
    case 0
    have "word_of_nat (Suc i) \<noteq> (0 :: u32)" if "i < n" for i
      using word_of_nat_eq32 [of "Suc i" 0] that Suc.prems(2) by simp
    then have "\<forall>i < n. d \<noteq> d + 1 + of_nat i" by (simp add: add.assoc)
    then have "mem_memcpy (d + 1) (s + 1) n (m(d := m s)) d = (m(d := m s)) d" using IH by blast
    then show ?thesis using 0 by simp
  next
    case (Suc k)
    have "s + 1 + of_nat k \<noteq> d" using that Suc Suc.prems(1) [of 0 "k + 1"] by (auto simp: add.assoc)
    moreover have "mem_memcpy (d + 1) (s + 1) n (m(d := m s)) (d + 1 + of_nat k) = (m(d := m s)) (s + 1 + of_nat k)"
      using IH that Suc by blast
    ultimately have "mem_memcpy d s (Suc n) m (d + 1 + of_nat k) = m (s + 1 + of_nat k)" by simp
    then show ?thesis using Suc by (simp add: add.assoc)
  qed
  moreover have "mem_memcpy d s (Suc n) m x = m x" if "\<forall>i < Suc n. x \<noteq> d + of_nat i" for x
  proof -
    have "x \<noteq> d" using that [rule_format, of 0] by simp
    moreover have later: "\<forall>i < n. x \<noteq> d + 1 + of_nat i"
    proof (intro allI impI)
      fix i
      assume "i < n"
      then show "x \<noteq> d + 1 + of_nat i" using that [rule_format, of "i + 1"] by (simp add: add.assoc)
    qed
    moreover from later have "mem_memcpy (d + 1) (s + 1) n (m(d := m s)) x = (m(d := m s)) x" using IH by blast
    ultimately show ?thesis by simp
  qed
  ultimately show ?case by blast
qed simp

section \<open>Reallocation of a contiguous block\<close>

text \<open>A block that is replaced by another one at the same place.\<close>

lemma pool_ok_replace:
  assumes "pool_ok mh ([a ..< a + k] # cs)" "0 < n" "a + n \<le> length mh" "0 < k"
    and "\<forall>i. a + k \<le> i \<and> i < a + n \<longrightarrow> mh ! i = 0"
    and "length mh' = length mh" "linked mh' a n" "\<And>i. i < length mh \<Longrightarrow> i \<notin> {a ..< a + max k n} \<Longrightarrow> mh' ! i = mh ! i"
    "\<And>i. a + n \<le> i \<Longrightarrow> i < a + k \<Longrightarrow> mh' ! i = 0"
  shows "pool_ok mh' ([a ..< a + n] # cs)"
proof (rule pool_ok_new_block(1) [OF pool_ok_release(2) [OF assms(1)] assms(2)])
  show "XMS_START \<le> a" using pool_ok_bounds [OF assms(1), of "[a ..< a + k]" a] assms(4) by simp
  show "a + n \<le> length (zeroed mh (set [a ..< a + k]))" using assms(3) by simp
  show "\<forall>i. a \<le> i \<and> i < a + n \<longrightarrow> zeroed mh (set [a ..< a + k]) ! i = 0" using assms(3,5) by auto
  show "mh' ! i = zeroed mh (set [a ..< a + k]) ! i" if "i < length (zeroed mh (set [a ..< a + k]))" "i \<notin> {a ..< a + n}" for i
    using that assms(8,9) by (cases "i < a + k \<and> a \<le> i") auto
qed (use assms(6,7) in simp_all)

lemma block_bounds:
  assumes "pool_ok mh ([a ..< a + k] # cs)" "0 < k"
  shows "a + k \<le> length mh" "XMS_START \<le> a" "0 < a" "chain mh (int a) [a ..< a + k]"
proof -
  have "a + k - 1 \<in> set [a ..< a + k]" "a \<in> set [a ..< a + k]" using assms(2) by auto
  then show "a + k \<le> length mh" "XMS_START \<le> a"
    using pool_ok_bounds [OF assms(1), of "[a ..< a + k]"] by fastforce+
  then show "0 < a" using XMS_START_pos by linarith
  show "chain mh (int a) [a ..< a + k]" using assms by (simp add: pool_ok_def)
qed

lemma shrink_block:
  assumes ok: "pool_ok (mhandles p) ([a ..< a + k] # cs)" and n: "0 < n" "n < k"
  shows "\<exists>q. MEM_ReAllocatePages (int a) n sq p = Some (Inr (True, int a, q)) \<and> pool_ok (mhandles q) ([a ..< a + n] # cs) \<and> ram q = ram p"
proof -
  let ?mh = "mhandles p"
  note bb = block_bounds [OF ok less_trans [OF n]]
  note c = bb(4) and apos = bb(3)
  have b: "i < length ?mh" if "i < a + k" for i using bb(1) that by simp
  define l where "l = a + (n - 1)"
  have l: "MEM_NextHandleAt (n - 1) (int a) ?mh = Some (int l)" "l < length ?mh"
    using next_at_chain [OF c, of "n - 1"] n b by (simp_all add: l_def)
  have tl: "drop (n - 1 + 1) [a ..< a + k] = [a + n ..< a + k]" using n by simp
  have "chain ?mh (?mh ! l) [a + n ..< a + k]" using chain_drop [OF c, of "n - 1"] n unfolding tl by (simp add: l_def)
  then have "chain (?mh[l := -1]) (?mh ! l) [a + n ..< a + k]" using n by (simp add: l_def)
  from free_tail_chain [OF this] have ft: "free_tail (k - n) (?mh ! l) (?mh[l := -1]) = Some (zeroed (?mh[l := -1]) {a + n ..< a + k})"
    by simp
  define mh' where "mh' = zeroed (?mh[l := -1]) {a + n ..< a + k}"
  have res: "MEM_ReAllocatePages (int a) n sq p = Some (Inr (True, int a, p\<lparr>mhandles := mh'\<rparr>))"
    using apos n count_chain [OF c, of 0 0] l ft
    by (simp add: MEM_ReAllocatePages_def peek_def poke_def mh'_def)
  have "linked ?mh a k" using chain_linked [OF c] .
  then have "linked mh' a n" using n b by (auto simp: linked_def mh'_def l_def nth_list_update)
  moreover have "mh' ! i = ?mh ! i" if "i \<notin> {a ..< a + max k n}" "i < length ?mh" for i
    using that n by (auto simp: mh'_def l_def nth_list_update)
  moreover have "mh' ! i = 0" if "a + n \<le> i" "i < a + k" for i using that b by (simp add: mh'_def)
  moreover have "a + n \<le> length ?mh" "length mh' = length ?mh" using bb(1) n by (simp_all add: mh'_def)
  ultimately have "pool_ok mh' ([a ..< a + n] # cs)"
    using pool_ok_replace [OF ok n(1), of mh'] n by auto
  then show ?thesis using res by simp
qed

lemma grow_block:
  assumes ok: "pool_ok (mhandles p) ([a ..< a + k] # cs)" and n: "0 < k" "k < n"
    and free: "n - k \<le> free_behind (mhandles p) (a + k) 0"
  shows "\<exists>q. MEM_ReAllocatePages (int a) n True p = Some (Inr (True, int a, q)) \<and> pool_ok (mhandles q) ([a ..< a + n] # cs) \<and> ram q = ram p"
proof -
  let ?mh = "mhandles p"
  note bb = block_bounds [OF ok n(1)]
  have f: "i < length ?mh \<and> ?mh ! i = 0" if "a + k \<le> i" "i < a + n" for i
    using free_behind_spec [of 0 "n - k" ?mh "a + k" i] free that n by simp
  define l where "l = a + k - 1"
  have l: "last [a ..< a + k] = l" "l + (n - k) = a + n - 1" "l + 1 = a + k" using n by (simp_all add: l_def)
  have "a + k \<le> a + n - 1" "a + n - 1 < a + n" using n by auto
  then have len: "a + n \<le> length ?mh" using f by fastforce
  then have "l + (n - k) < length ?mh" using l n by simp
  from link_behind_spec [OF this] obtain mh' where m: "link_behind (n - k) (int l) ?mh = Some mh'" "length mh' = length ?mh"
    "mh' ! (a + n - 1) = -1" "\<forall>i. l \<le> i \<and> i < a + n - 1 \<longrightarrow> mh' ! i = int (i + 1)"
    "\<forall>i. i \<notin> {l .. a + n - 1} \<longrightarrow> mh' ! i = ?mh ! i" unfolding l(2) by blast
  have res: "MEM_ReAllocatePages (int a) n True p = Some (Inr (True, int a, p\<lparr>mhandles := mh'\<rparr>))"
  proof -
    have "count_loop ?mh (int a) 0 0 = Some (k, int l)" using count_chain [OF bb(4), of 0 0] n l(1) by simp
    moreover have "nat (int l + 1) = a + k" using l(3) by simp
    ultimately show ?thesis using bb(3) n free m(1) by (simp add: MEM_ReAllocatePages_def Let_def)
  qed
  have old: "linked ?mh a k" using chain_linked [OF bb(4)] .
  have "mh' ! i = (if i + 1 = a + n then -1 else int (i + 1))" if "a \<le> i" "i < a + n" for i
  proof (cases "i < l")
    case True
    then show ?thesis using old m(5) that n l by (auto simp: linked_def)
  next
    case False
    show ?thesis
    proof (cases "i + 1 = a + n")
      case True
      then show ?thesis using m(3) by (metis add_diff_cancel_right')
    next
      case i: False
      then show ?thesis using m(4) False that by simp
    qed
  qed
  then have "linked mh' a n" by (simp add: linked_def)
  moreover have "mh' ! i = ?mh ! i" if "i \<notin> {a ..< a + max k n}" for i
  proof -
    have "i \<notin> {l .. a + n - 1}" using that n by (auto simp: l_def)
    then show ?thesis using m(5) by blast
  qed
  ultimately have "pool_ok mh' ([a ..< a + n] # cs)"
    using pool_ok_replace [OF ok _ len n(1), of mh'] n f m(2) by auto
  then show ?thesis using res by simp
qed

lemma pool_ok_swap: "pool_ok mh (c # d # cs) \<Longrightarrow> pool_ok mh (d # c # cs)"
  by (auto simp: pool_ok_def Un_ac)

lemma pool_ok_disjoint: "pool_ok mh (c # d # cs) \<Longrightarrow> set c \<inter> set d = {}"
  by (auto simp: pool_ok_def)

lemma move_block:
  assumes ok: "pool_ok (mhandles p) ([a ..< a + k] # cs)" and n: "0 < k" "k < n"
    and free: "\<not> n - k \<le> free_behind (mhandles p) (a + k) 0"
  shows "(MEM_ReAllocatePages (int a) n True p = Some (Inr (False, int a, p)) \<and> (\<forall>b m. run (mhandles p) b m \<longrightarrow> m < n)) \<or>
    (\<exists>b m q. MEM_ReAllocatePages (int a) n True p = Some (Inr (True, int b, q)) \<and> pool_ok (mhandles q) ([b ..< b + n] # cs) \<and>
      run (mhandles p) b m \<and> n \<le> m \<and> (\<forall>c l. run (mhandles p) c l \<and> n \<le> l \<longrightarrow> m \<le> l) \<and>
      (\<forall>i < k * 4096. ram q (word_of_nat (b * 4096 + i)) = ram p (word_of_nat (a * 4096 + i))) \<and>
      (\<forall>x. (\<forall>i < k * 4096. x \<noteq> word_of_nat (b * 4096 + i)) \<longrightarrow> ram q x = ram p x))"
proof -
  let ?mh = "mhandles p"
  note bb = block_bounds [OF ok n(1)]
  define l where "l = a + k - 1"
  have count: "count_loop ?mh (int a) 0 0 = Some (k, int l)" using count_chain [OF bb(4), of 0 0] n by (simp add: l_def)
  have "nat (int l + 1) = a + k" using n by (simp add: l_def)
  then have re: "MEM_ReAllocatePages (int a) n True p =
      (case MEM_AllocatePages n True ?mh of None \<Rightarrow> None | Some (Inl e) \<Rightarrow> Some (Inl e)
       | Some (Inr (newhandle, mh)) \<Rightarrow>
           if newhandle = 0 then Some (Inr (False, int a, p\<lparr>mhandles := mh\<rparr>))
           else let p = p\<lparr>mhandles := mh, ram := mem_memcpy (word_of_int (newhandle * 4096)) (word_of_int (int a * 4096)) (k * 4096) (ram p)\<rparr>
                in (case MEM_ReleasePages (int a) (mhandles p) of None \<Rightarrow> None
                    | Some mh \<Rightarrow> Some (Inr (True, newhandle, p\<lparr>mhandles := mh\<rparr>))))"
    using bb(3) n free count by (simp add: MEM_ReAllocatePages_def Let_def)
  from allocate_sequence [OF ok less_trans [OF n]] show ?thesis
  proof (elim disjE conjE exE)
    assume "MEM_AllocatePages n True ?mh = Some (Inr (0, ?mh))" "\<forall>b m. run ?mh b m \<longrightarrow> m < n"
    then show ?thesis unfolding re by simp
  next
    fix b m mh'
    assume al: "MEM_AllocatePages n True ?mh = Some (Inr (int b, mh'))" and ok': "pool_ok mh' ([b ..< b + n] # [a ..< a + k] # cs)"
      and best: "run ?mh b m" "n \<le> m" "\<forall>c l. run ?mh c l \<and> n \<le> l \<longrightarrow> m \<le> l"
    from block_bounds [OF ok'] n have bpos: "0 < b" by simp
    note rel = pool_ok_release [OF pool_ok_swap [OF ok']]
    have disj: "set [b ..< b + n] \<inter> set [a ..< a + k] = {}" using pool_ok_disjoint [OF ok'] .
    have len: "a + k \<le> 0x100000" "b + k \<le> 0x100000"
      using bb(1) block_bounds(1) [OF ok'] n pool_ok_length [OF ok] pool_ok_length [OF ok'] by linarith+
    have apart: "word_of_nat (b * 4096) + word_of_nat i \<noteq> (word_of_nat (a * 4096) + word_of_nat j :: u32)" if "i < k * 4096" "j < k * 4096" for i j
    proof
      assume "word_of_nat (b * 4096) + word_of_nat i = (word_of_nat (a * 4096) + word_of_nat j :: u32)"
      then have "word_of_nat (b * 4096 + i) = (word_of_nat (a * 4096 + j) :: u32)" by simp
      then have "b * 4096 + i = a * 4096 + j" using len that word_of_nat_eq32 [of "b * 4096 + i" "a * 4096 + j"] by linarith
      then have "(b * 4096 + i) div 4096 = (a * 4096 + j) div 4096" by simp
      then have "b + i div 4096 = a + j div 4096" by simp
      moreover have "i div 4096 < k" "j div 4096 < k" using that by (simp_all add: less_mult_imp_div_less)
      ultimately have "b + i div 4096 \<in> set [b ..< b + n] \<inter> set [a ..< a + k]" using n by auto
      then show False using disj by blast
    qed
    define q where "q = p\<lparr>ram := mem_memcpy (word_of_int (int b * 4096)) (word_of_int (int a * 4096)) (k * 4096) (ram p),
      mhandles := zeroed mh' (set [a ..< a + k])\<rparr>"
    have "MEM_ReAllocatePages (int a) n True p = Some (Inr (True, int b, q))"
      unfolding re using al bpos rel(1) n by (simp add: q_def Let_def)
    moreover have "pool_ok (mhandles q) ([b ..< b + n] # cs)" using rel(2) by (simp add: q_def)
    moreover have "\<forall>i < k * 4096. ram q (word_of_nat (b * 4096 + i)) = ram p (word_of_nat (a * 4096 + i))"
      using memcpy_disjoint [OF apart] len by (simp add: q_def)
    moreover have "\<forall>x. (\<forall>i < k * 4096. x \<noteq> word_of_nat (b * 4096 + i)) \<longrightarrow> ram q x = ram p x"
      using memcpy_disjoint [OF apart] len by (simp add: q_def)
    ultimately show ?thesis using best by (intro disjI2 exI [of _ b] exI [of _ m] exI [of _ q]) simp
  qed
qed

lemma free_behind_all:
  "(\<And>i. idx \<le> i \<Longrightarrow> i < idx + n \<Longrightarrow> i < length mh \<and> mh ! i = 0) \<Longrightarrow> f + n \<le> free_behind mh idx f"
proof (induction n arbitrary: idx f)
  case 0
  have "f \<le> free_behind mh idx f"
    by (induction mh idx f rule: free_behind.induct) (subst free_behind.simps, auto)
  then show ?case by simp
next
  case (Suc n)
  have "free_behind mh idx f = free_behind mh (idx + 1) (f + 1)"
    using Suc.prems [of idx] by (subst free_behind.simps) simp
  then show ?case using Suc.IH [of "idx + 1" "f + 1"] Suc.prems by simp
qed

text \<open>Whether the block can be resized where it is.\<close>

definition fits_in_place :: "MemHandle list \<Rightarrow> nat \<Rightarrow> nat \<Rightarrow> nat \<Rightarrow> bool" where
  "fits_in_place mh a k pages \<longleftrightarrow> (\<forall>i \<in> {a + k ..< a + pages}. i < length mh \<and> mh ! i = 0)"

lemma reallocate_in_place:
  assumes "pool_ok (mhandles p) ([a ..< a + k] # cs)" "0 < k" "0 < pages" "fits_in_place (mhandles p) a k pages"
  shows "\<exists>q. MEM_ReAllocatePages (int a) pages True p = Some (Inr (True, int a, q)) \<and>
    pool_ok (mhandles q) ([a ..< a + pages] # cs) \<and> ram q = ram p"
proof -
  consider (same) "pages = k" | (less) "pages < k" | (grow) "k < pages" by linarith
  then show ?thesis
  proof cases
    case same
    have "MEM_ReAllocatePages (int a) pages True p = Some (Inr (True, int a, p))"
      using count_chain [OF block_bounds(4) [OF assms(1,2)], of 0 0] block_bounds(3) [OF assms(1,2)] assms(2) same
      by (simp add: MEM_ReAllocatePages_def)
    then show ?thesis using assms(1) same by simp
  next
    case less
    then show ?thesis using shrink_block [OF assms(1,3)] by blast
  next
    case grow
    have "pages - k \<le> free_behind (mhandles p) (a + k) 0"
      using free_behind_all [of "a + k" "pages - k" "mhandles p" 0] assms(4) grow by (simp add: fits_in_place_def)
    then show ?thesis using grow_block [OF assms(1,2) grow] by blast
  qed
qed

lemma reallocate_elsewhere:
  assumes "pool_ok (mhandles p) ([a ..< a + k] # cs)" "0 < k" "\<not> fits_in_place (mhandles p) a k pages"
  shows "(MEM_ReAllocatePages (int a) pages True p = Some (Inr (False, int a, p)) \<and> (\<forall>b m. run (mhandles p) b m \<longrightarrow> m < pages)) \<or>
    (\<exists>b m q. MEM_ReAllocatePages (int a) pages True p = Some (Inr (True, int b, q)) \<and> pool_ok (mhandles q) ([b ..< b + pages] # cs) \<and>
      run (mhandles p) b m \<and> pages \<le> m \<and> (\<forall>c l. run (mhandles p) c l \<and> pages \<le> l \<longrightarrow> m \<le> l) \<and>
      (\<forall>i < k * 4096. ram q (word_of_nat (b * 4096 + i)) = ram p (word_of_nat (a * 4096 + i))) \<and>
      (\<forall>x. (\<forall>i < k * 4096. x \<noteq> word_of_nat (b * 4096 + i)) \<longrightarrow> ram q x = ram p x))"
proof (rule move_block [OF assms(1,2)])
  show k: "k < pages" using assms(3) by (auto simp: fits_in_place_def)
  show "\<not> pages - k \<le> free_behind (mhandles p) (a + k) 0"
  proof
    assume "pages - k \<le> free_behind (mhandles p) (a + k) 0"
    then have "i < length (mhandles p) \<and> mhandles p ! i = 0" if "a + k \<le> i" "i < a + pages" for i
      using free_behind_spec [of 0 "pages - k" "mhandles p" "a + k" i] that k by simp
    then show False using assms(3) by (simp add: fits_in_place_def)
  qed
qed

lemma reallocate_sequence:
  assumes "pool_ok (mhandles p) ([a ..< a + k] # cs)" "0 < k" "0 < pages"
  shows "\<exists>ok h q. MEM_ReAllocatePages (int a) pages True p = Some (Inr (ok, h, q)) \<and>
    (if ok then \<exists>b. h = int b \<and> pool_ok (mhandles q) ([b ..< b + pages] # cs) \<and>
        (\<forall>i < min k pages * 4096. ram q (word_of_nat (b * 4096 + i)) = ram p (word_of_nat (a * 4096 + i)))
     else h = int a \<and> q = p \<and> k < pages \<and> (\<forall>b m. run (mhandles p) b m \<longrightarrow> m < pages))"
proof (cases "fits_in_place (mhandles p) a k pages")
  case True
  from reallocate_in_place [OF assms True] obtain q where "MEM_ReAllocatePages (int a) pages True p = Some (Inr (True, int a, q))"
    "pool_ok (mhandles q) ([a ..< a + pages] # cs)" "ram q = ram p" by blast
  then show ?thesis by (intro exI conjI) (assumption, simp)
next
  case False
  then have "k < pages" by (auto simp: fits_in_place_def)
  with reallocate_elsewhere [OF assms(1,2) False] show ?thesis
  proof (elim disjE conjE exE)
    fix b m q
    assume "k < pages" and b: "MEM_ReAllocatePages (int a) pages True p = Some (Inr (True, int b, q))"
      "pool_ok (mhandles q) ([b ..< b + pages] # cs)"
      "\<forall>i < k * 4096. ram q (word_of_nat (b * 4096 + i)) = ram p (word_of_nat (a * 4096 + i))"
    then show ?thesis by (intro exI conjI) (assumption, auto)
  qed auto
qed

end
