(* ===== verification/Pool_Scatter.thy ===== *)
theory Pool_Scatter
  imports Pool_Correct
begin

text \<open>
  The counters of free pages, the allocation of pages that need not be contiguous, and the
  properties of the allocator as a whole.
\<close>

section \<open>Counters\<close>

definition free_pages :: "MemHandle list \<Rightarrow> nat \<Rightarrow> nat set" where
  "free_pages mh start = {i. start \<le> i \<and> i < length mh \<and> mh ! i = 0}"

lemma finite_free_pages [simp]: "finite (free_pages mh i)"
  by (rule finite_subset [of _ "{..<length mh}"]) (auto simp: free_pages_def)

lemma free_pages_step:
  "i < length mh \<Longrightarrow> free_pages mh i = (if mh ! i = 0 then insert i (free_pages mh (i + 1)) else free_pages mh (i + 1))"
  by (auto simp: free_pages_def le_eq_less_or_eq Suc_le_eq)

lemma free_total_loop_spec: "free_total_loop mh i f = f + card (free_pages mh i)"
proof (induction mh i f rule: free_total_loop.induct)
  case (1 mh i f)
  show ?case
  proof (cases "i < length mh")
    case True
    have "i \<notin> free_pages mh (i + 1)" by (simp add: free_pages_def)
    then show ?thesis using 1 True free_pages_step [OF True] by (subst free_total_loop.simps) simp
  next
    case False
    then have "free_pages mh i = {}" by (auto simp: free_pages_def)
    then show ?thesis using False by (subst free_total_loop.simps) simp
  qed
qed

lemma free_total: "MEM_FreeTotal mh = card (free_pages mh XMS_START)"
  by (simp add: MEM_FreeTotal_def free_total_loop_spec)

definition covers :: "MemHandle list \<Rightarrow> nat \<Rightarrow> nat \<Rightarrow> bool" where
  "covers mh index l \<longleftrightarrow> (\<forall>a n. run mh a n \<and> a + n < index \<longrightarrow> n \<le> l) \<and> (l = 0 \<or> (\<exists>a. run mh a l))"

definition largest :: "MemHandle list \<Rightarrow> nat \<Rightarrow> bool" where
  "largest mh l \<longleftrightarrow> (\<forall>a n. run mh a n \<longrightarrow> n \<le> l) \<and> (l = 0 \<or> (\<exists>a. run mh a l))"

lemma run_closed:
  assumes "open_run mh (index - s) index" "0 < s" "XMS_START + s \<le> index" "index = length mh \<or> mh ! index \<noteq> 0"
  shows "run mh (index - s) s"
proof -
  have "index - s \<noteq> 0" "index - s + s = index" using assms(2,3) XMS_START_pos by linarith+
  then show ?thesis using assms by (auto simp: open_run_def run_def)
qed

lemma free_largest_loop_spec:
  "open_run mh (if s = 0 then 0 else index - s) index \<Longrightarrow> XMS_START + s \<le> index \<Longrightarrow> covers mh index l \<Longrightarrow>
     index \<le> length mh \<or> index = XMS_START \<Longrightarrow> largest mh (free_largest_loop mh index s l)"
proof (induction "length mh - index" arbitrary: index s l)
  case 0
  then have len: "\<not> index < length mh" by simp
  have res: "free_largest_loop mh index s l = max s l" using len by (subst free_largest_loop.simps) simp
  have up: "n \<le> max s l" if "run mh a n" for a n
  proof (cases "a + n < index")
    case True
    then have "n \<le> l" using 0(4) that unfolding covers_def by blast
    then show ?thesis by simp
  next
    case False
    then have "a + n = index" using that len 0(5) by (auto simp: run_def)
    then show ?thesis using open_run_end [OF 0(2) that] 0(3) by (auto split: if_splits)
  qed
  have "s \<noteq> 0 \<Longrightarrow> run mh (index - s) s" using run_closed [of mh index s] 0 len by auto
  then show ?case using up 0(4) unfolding res largest_def by (auto simp: covers_def max_def)
next
  case (Suc k)
  then have len: "index < length mh" and k: "k = length mh - (index + 1)" by simp_all
  have pos: "0 < index - s" using Suc.prems(2) XMS_START_pos by linarith
  have le: "index + 1 \<le> length mh \<or> index + 1 = XMS_START" using len by simp
  show ?case
  proof (cases "mh ! index = 0")
    case True
    have "open_run mh (index - s) (index + 1)"
    proof (cases "s = 0")
      case z: True
      then show ?thesis using Suc.prems(1,2) True len pos by (auto simp: open_run_def le_less_Suc_eq)
    next
      case False
      then show ?thesis using Suc.prems(1,2) True len pos by (auto simp: open_run_def less_Suc_eq)
    qed
    moreover have "covers mh (index + 1) l"
      using Suc.prems(3) run_end_lt [OF _ _ len] True unfolding covers_def by blast
    ultimately show ?thesis using Suc.hyps(1) [OF k, of "s + 1" l] Suc.prems(2) le True len
      by (subst free_largest_loop.simps) simp
  next
    case False
    have r: "s \<noteq> 0 \<Longrightarrow> run mh (index - s) s" using run_closed [of mh index s] Suc.prems(1,2) False by auto
    have "n \<le> max s l" if a: "run mh a n" "a + n < index + 1" for a n
    proof (cases "a + n < index")
      case True
      then have "n \<le> l" using Suc.prems(3) a unfolding covers_def by blast
      then show ?thesis by simp
    next
      case late: False
      then show ?thesis using run_end_lt [OF a len] open_run_end [OF Suc.prems(1) a(1)] Suc.prems(2) by (auto split: if_splits)
    qed
    then have "covers mh (index + 1) (max s l)" using r Suc.prems(3) by (auto simp: covers_def max_def)
    moreover have "open_run mh 0 (index + 1)" using False by (simp add: open_run_def)
    ultimately show ?thesis using Suc.hyps(1) [OF k, of 0 "max s l"] Suc.prems(2) le False len
      by (subst free_largest_loop.simps) simp
  qed
qed

lemma free_largest: "largest mh (MEM_FreeLargest mh)"
  unfolding MEM_FreeLargest_def
  by (rule free_largest_loop_spec) (auto simp: open_run_def covers_def run_def)

section \<open>Scattered allocation\<close>

text \<open>The inner loop takes pages up to the end of the run and leaves the last link open.\<close>

lemma fill_loop_seq:
  assumes "idx + m \<le> length mh" "\<forall>i. idx \<le> i \<and> i < idx + m \<longrightarrow> mh ! i = 0"
    and "m < pages \<Longrightarrow> idx + m < length mh \<and> mh ! (idx + m) \<noteq> 0" "m \<le> pages"
    and "case nx of Ret \<Rightarrow> True | Entry j \<Rightarrow> j < length mh \<and> (j < idx \<or> idx + m \<le> j)" "0 < idx"
  shows "\<exists>nx' st. fill_loop pages idx nx (r, mh) = Some (pages - m, nx', st) \<and> nx' = (if m = 0 then nx else Entry (idx + m - 1)) \<and>
    store nx' (-1) st = seq_loop m idx nx (r, mh)"
  using assms
proof (induction m arbitrary: pages idx nx r mh)
  case 0
  then show ?case by (cases pages) auto
next
  case (Suc m)
  from Suc.prems(4) obtain p where p: "pages = Suc p" "m \<le> p" by (cases pages) auto
  have z: "idx < length mh" "mh ! idx = 0" using Suc.prems(1,2) by auto
  obtain r' mh' where st: "store nx (int idx) (r, mh) = Some (r', mh')" "length mh' = length mh"
    "\<And>i. nx \<noteq> Entry i \<Longrightarrow> mh' ! i = mh ! i" "\<And>i. nx = Entry i \<Longrightarrow> mh' ! i = int idx"
    using Suc.prems(5) by (cases nx) (auto simp: nth_list_update)
  have nz: "mh' ! i \<noteq> 0" if "mh ! i \<noteq> 0" for i using st(3,4) [of i] Suc.prems(6) that by (cases "nx = Entry i") auto
  have same: "mh' ! i = mh ! i" if "idx \<le> i" "i < idx + Suc m" for i
  proof -
    have "nx \<noteq> Entry i" using Suc.prems(5) that by (cases nx) auto
    then show ?thesis by (rule st(3))
  qed
  have "\<exists>nx' st. fill_loop p (idx + 1) (Entry idx) (r', mh') = Some (p - m, nx', st) \<and>
      nx' = (if m = 0 then Entry idx else Entry (idx + 1 + m - 1)) \<and> store nx' (-1) st = seq_loop m (idx + 1) (Entry idx) (r', mh')"
  proof (rule Suc.IH)
    show "\<forall>i. idx + 1 \<le> i \<and> i < idx + 1 + m \<longrightarrow> mh' ! i = 0" using same Suc.prems(2) by auto
    show "m < p \<Longrightarrow> idx + 1 + m < length mh' \<and> mh' ! (idx + 1 + m) \<noteq> 0" using Suc.prems(3) p nz st(2) by auto
  qed (use Suc.prems st(2) p z in auto)
  then obtain nx' u where u: "fill_loop p (idx + 1) (Entry idx) (r', mh') = Some (p - m, nx', u)"
    "nx' = Entry (idx + m)" "store nx' (-1) u = seq_loop m (idx + 1) (Entry idx) (r', mh')" by (auto split: if_splits)
  have "fill_loop pages idx nx (r, mh) = Some (pages - Suc m, nx', u)" using u(1) p st(1) z by simp
  moreover have "store nx' (-1) u = seq_loop (Suc m) idx nx (r, mh)" using u(3) st(1) by simp
  ultimately show ?case using u(2) by (intro exI [of _ nx'] exI [of _ u]) simp
qed

lemma chain_extend:
  assumes "chain mh h ps" "ps \<noteq> []" "length mh' = length mh" "\<And>p. p \<in> set (butlast ps) \<Longrightarrow> mh' ! p = mh ! p"
    "chain mh' (mh' ! last ps) qs"
  shows "chain mh' h (ps @ qs)"
  using assms
proof (induction ps arbitrary: h)
  case (Cons p ps)
  then show ?case by (cases ps) auto
qed simp

definition blocks :: "nat list \<Rightarrow> nat list list \<Rightarrow> nat list list" where
  "blocks ps cs = (if ps = [] then cs else ps # cs)"

lemma free_largest_ge: "s \<le> free_largest_loop mh i s l \<and> l \<le> free_largest_loop mh i s l"
proof (induction mh i s l rule: free_largest_loop.induct)
  case (1 mh i s l)
  show ?case
  proof (cases "i < length mh")
    case True
    then show ?thesis using 1 by (subst (1 2) free_largest_loop.simps) auto
  qed (subst (1 2) free_largest_loop.simps, simp)
qed

lemma free_largest_pos:
  "i \<le> j \<Longrightarrow> j < length mh \<Longrightarrow> mh ! j = 0 \<Longrightarrow> 0 < free_largest_loop mh i s l"
proof (induction mh i s l rule: free_largest_loop.induct)
  case (1 mh i s l)
  then have len: "i < length mh" by simp
  show ?case
  proof (cases "mh ! i = 0")
    case True
    then show ?thesis using len free_largest_ge [of "s + 1" mh "i + 1" l] by (subst free_largest_loop.simps) simp
  next
    case False
    then have "i + 1 \<le> j" using 1(3,5) by (metis Suc_eq_plus1 Suc_leI le_neq_implies_less)
    then show ?thesis using 1 False len by (subst free_largest_loop.simps) simp
  qed
qed

lemma run_exists:
  assumes "free_pages mh XMS_START \<noteq> {}" "length mh \<le> 0xfffffff"
  obtains n where "run mh (BestMatch 1 mh) n" "BestMatch 1 mh \<noteq> 0"
proof -
  from assms(1) obtain j where "XMS_START \<le> j" "j < length mh" "mh ! j = 0" by (auto simp: free_pages_def)
  then have "0 < MEM_FreeLargest mh" unfolding MEM_FreeLargest_def by (rule free_largest_pos)
  then obtain a n where "run mh a n" using free_largest [of mh] by (auto simp: largest_def)
  moreover have "0 < n" using \<open>run mh a n\<close> by (simp add: run_def)
  moreover have f: "best_fit mh 1 (BestMatch 1 mh)" using BestMatch_spec assms(2) by simp
  ultimately have nz: "BestMatch 1 mh \<noteq> 0" by (fastforce simp: best_fit_def split: if_splits)
  with f obtain k where "run mh (BestMatch 1 mh) k" by (auto simp: best_fit_def)
  then show ?thesis using that nz by blast
qed

text \<open>One turn of the outer loop appends the pages of a run to the block.\<close>

lemma scatter_turn:
  assumes ok: "pool_ok mh (blocks ps cs)" and h: "ps \<noteq> [] \<Longrightarrow> r = int (hd ps)"
    and guard: "XMS_START < length mh" "mh ! (length mh - 1) \<noteq> 0"
    and pages: "0 < pages" "pages \<le> card (free_pages mh XMS_START)"
  defines "nx \<equiv> if ps = [] then Ret else Entry (last ps)"
  obtains a m mh' st where "0 < m" "m \<le> pages" "BestMatch 1 mh = a" "a \<noteq> 0"
    "fill_loop pages a nx (r, mh) = Some (pages - m, Entry (a + m - 1), st)"
    "store (Entry (a + m - 1)) (-1) st = Some (int (hd (ps @ [a ..< a + m])), mh')"
    "pool_ok mh' (blocks (ps @ [a ..< a + m]) cs)" "length mh' = length mh" "mh' ! (length mh - 1) \<noteq> 0"
    "pages - m \<le> card (free_pages mh' XMS_START)"
proof -
  define a where "a = BestMatch 1 mh"
  have len: "length mh \<le> 0xfffffff" using ok by (simp add: pool_ok_def)
  have "free_pages mh XMS_START \<noteq> {}" using pages by auto
  then obtain n where n: "run mh a n" "a \<noteq> 0" using run_exists [OF _ len] a_def by metis
  have r: "XMS_START \<le> a" "a + n < length mh" "mh ! (a + n) \<noteq> 0" "\<forall>i. a \<le> i \<and> i < a + n \<longrightarrow> mh ! i = 0" "0 < n"
  proof -
    have "\<not> a + n = length mh"
    proof
      assume "a + n = length mh"
      then have "a \<le> length mh - 1" "length mh - 1 < a + n" using n(1) by (auto simp: run_def)
      then show False using n(1) guard(2) unfolding run_def by blast
    qed
    then show "XMS_START \<le> a" "a + n < length mh" "mh ! (a + n) \<noteq> 0" "\<forall>i. a \<le> i \<and> i < a + n \<longrightarrow> mh ! i = 0" "0 < n"
      using n(1) by (auto simp: run_def)
  qed
  define m where "m = min pages n"
  have m: "0 < m" "m \<le> pages" "m \<le> n" using pages(1) r(5) by (simp_all add: m_def)
  have used: "set (concat (blocks ps cs)) = used_pages mh" using ok by (simp add: pool_ok_def)
  have out: "p < length mh" "p < a \<or> a + n \<le> p" if "p \<in> set (concat (blocks ps cs))" for p
    using that r(4) unfolding used used_pages_def by (auto simp: not_less)
  have lastout: "case nx of Ret \<Rightarrow> True | Entry j \<Rightarrow> j < length mh \<and> (j < a \<or> a + n \<le> j) \<and> j \<in> set ps"
  proof (cases "ps = []")
    case False
    then have "last ps \<in> set (concat (blocks ps cs))" by (auto simp: blocks_def)
    then show ?thesis using out False by (auto simp: nx_def)
  qed (simp add: nx_def)
  then have nxok: "case nx of Ret \<Rightarrow> True | Entry j \<Rightarrow> j < length mh \<and> (j < a \<or> a + m \<le> j)" using m(3) by (cases nx) auto
  have zero: "\<forall>i. a \<le> i \<and> i < a + m \<longrightarrow> mh ! i = 0" using r(4) m(3) by auto
  have stop: "m < pages \<Longrightarrow> a + m < length mh \<and> mh ! (a + m) \<noteq> 0" using r(2,3) by (auto simp: m_def)
  have am: "a + m \<le> length mh" using r(2) m(3) by simp
  obtain st where fill: "fill_loop pages a nx (r, mh) = Some (pages - m, Entry (a + m - 1), st)"
    "store (Entry (a + m - 1)) (-1) st = seq_loop m a nx (r, mh)"
    using fill_loop_seq [OF am zero stop m(2) nxok, of r] n(2) m(1) by auto
  obtain mh' where mh': "seq_loop m a nx (r, mh) = Some (int (hd (ps @ [a ..< a + m])), mh')" "length mh' = length mh" "linked mh' a m"
    "\<And>i. i \<notin> {a ..< a + m} \<Longrightarrow> nx \<noteq> Entry i \<Longrightarrow> mh' ! i = mh ! i" "\<And>j. nx = Entry j \<Longrightarrow> mh' ! j = int a"
  proof (cases "ps = []")
    case True
    then obtain mh' where "seq_loop m a nx (r, mh) = Some (int a, mh')" "length mh' = length mh" "linked mh' a m"
      "\<And>i. i \<notin> {a ..< a + m} \<Longrightarrow> mh' ! i = mh ! i" using seq_block [OF m(1) am, of r] by (metis nx_def)
    then show ?thesis using that [of mh'] True m(1) by (simp add: nx_def)
  next
    case False
    then have j: "last ps < length mh" "last ps \<notin> {a ..< a + m}" using nxok by (auto simp: nx_def)
    from seq_loop_spec [OF j(1) am j(2), of r] obtain mh' where "seq_loop m a nx (r, mh) = Some (r, mh')" "length mh' = length mh"
      "mh' ! last ps = int a" "linked mh' a m" "\<forall>i. i \<noteq> last ps \<and> i \<notin> {a ..< a + m} \<longrightarrow> mh' ! i = mh ! i"
      using False m(1) by (auto simp: nx_def linked_def)
    then show ?thesis using that [of mh'] False h by (auto simp: nx_def)
  qed
  have lk: "chain mh' (int a) [a ..< a + m]" using linked_chain [OF mh'(3)] n(2) am mh'(2) m(1) by simp
  have new: "\<And>i. i \<in> {a ..< a + m} \<Longrightarrow> mh' ! i \<noteq> 0" using mh'(3) by (auto simp: linked_def)
  have keepnz: "mh' ! i \<noteq> 0 \<longleftrightarrow> mh ! i \<noteq> 0" if "i \<notin> {a ..< a + m}" for i
  proof (cases "nx = Entry i")
    case True
    then have "i \<in> set (concat (blocks ps cs))" using lastout by (cases "ps = []") (auto simp: nx_def blocks_def)
    then have "mh ! i \<noteq> 0" unfolding used used_pages_def by simp
    then show ?thesis using mh'(5) [OF True] n(2) by simp
  qed (use mh'(4) that in simp)
  have free': "free_pages mh' XMS_START = free_pages mh XMS_START - {a ..< a + m}"
    using new keepnz mh'(2) by (auto simp: free_pages_def)
  have "{a ..< a + m} \<subseteq> free_pages mh XMS_START" using zero r(1) am by (auto simp: free_pages_def)
  then have card: "pages - m \<le> card (free_pages mh' XMS_START)" using pages(2) by (simp add: free' card_Diff_subset)
  have last: "mh' ! (length mh - 1) \<noteq> 0"
    using keepnz [of "length mh - 1"] guard(2) zero by (cases "length mh - 1 \<in> {a ..< a + m}") auto
  have dist: "distinct (concat (blocks ps cs))" and chains: "\<And>c. c \<in> set (blocks ps cs) \<Longrightarrow> c \<noteq> [] \<and> chain mh (int (hd c)) c"
    using ok by (auto simp: pool_ok_def)
  have cat: "concat (blocks ps cs) = ps @ concat cs" "concat (blocks (ps @ [a ..< a + m]) cs) = ps @ [a ..< a + m] @ concat cs"
    using m(1) by (simp_all add: blocks_def)
  have outm: "p \<notin> {a ..< a + m}" if "p \<in> set ps \<union> set (concat cs)" for p using that out(2) [of p] m(3) unfolding cat by auto
  have "set (ps @ [a ..< a + m] @ concat cs) = used_pages mh'"
  proof -
    have "used_pages mh' = used_pages mh \<union> {a ..< a + m}" using new keepnz mh'(2) r(1) am by (auto simp: used_pages_def)
    then show ?thesis using used unfolding cat by auto
  qed
  moreover have "distinct (ps @ [a ..< a + m] @ concat cs)"
  proof -
    have "set ps \<inter> {a ..< a + m} = {}" "set (concat cs) \<inter> {a ..< a + m} = {}" using outm by blast+
    then show ?thesis using dist unfolding cat by (auto simp del: set_concat)
  qed
  moreover have "chain mh' (int (hd c)) c" if "c \<in> set cs" for c
  proof -
    have "chain mh' (int (hd c)) c = chain mh (int (hd c)) c"
    proof (rule chain_cong [OF mh'(2)])
      fix p
      assume "p \<in> set c"
      then have p: "p \<in> set (concat cs)" using that by auto
      moreover have "set ps \<inter> set (concat cs) = {}" using dist unfolding cat by (simp del: set_concat)
      ultimately have "nx \<noteq> Entry p" by (cases "ps = []") (auto simp: nx_def simp del: set_concat dest: last_in_set)
      then show "mh' ! p = mh ! p" using mh'(4) outm p by blast
    qed
    then show ?thesis using chains [of c] that by (auto simp: blocks_def split: if_splits)
  qed
  moreover have "chain mh' (int (hd (ps @ [a ..< a + m]))) (ps @ [a ..< a + m])"
  proof (cases "ps = []")
    case True
    then show ?thesis using lk m(1) by simp
  next
    case False
    have "chain mh (int (hd ps)) ps" using chains [of ps] False by (simp add: blocks_def)
    moreover have "mh' ! p = mh ! p" if "p \<in> set (butlast ps)" for p
    proof -
      have "distinct ps" using dist unfolding cat by simp
      then have "p \<noteq> last ps" using that False by (metis append_butlast_last_id distinct_append disjoint_iff list.set_intros(1))
      moreover have "p \<notin> {a ..< a + m}" using outm in_set_butlastD [OF that] by blast
      ultimately show ?thesis using mh'(4) False by (simp add: nx_def)
    qed
    ultimately show ?thesis using chain_extend [of mh "int (hd ps)" ps mh' "[a ..< a + m]"] False mh'(2,5) lk by (simp add: nx_def)
  qed
  moreover have "c \<noteq> []" if "c \<in> set cs" for c using chains [of c] that by (auto simp: blocks_def split: if_splits)
  ultimately have "pool_ok mh' (blocks (ps @ [a ..< a + m]) cs)"
    using pool_ok_length [OF ok] mh'(2) m(1) unfolding pool_ok_def cat by (auto simp: blocks_def)
  then show ?thesis
    using that [OF m(1,2) a_def [symmetric] n(2) fill(1) _ _ mh'(2) last card] fill(2) mh'(1) by simp
qed

lemma scatter_loop_spec:
  assumes "XMS_START < length mh" "mh ! (length mh - 1) \<noteq> 0" "pool_ok mh (blocks ps cs)" "ps \<noteq> [] \<Longrightarrow> r = int (hd ps)"
    and "pages \<le> card (free_pages mh XMS_START)" "ps \<noteq> [] \<or> 0 < pages"
  shows "\<exists>qs mh'. scatter_loop pages (if ps = [] then Ret else Entry (last ps)) (r, mh) = Some (Inr (int (hd (ps @ qs)), mh')) \<and>
    length qs = pages \<and> pool_ok mh' ((ps @ qs) # cs) \<and> length mh' = length mh"
  using assms
proof (induction pages arbitrary: ps r mh rule: less_induct)
  case (less pages)
  show ?case
  proof (cases "pages = 0")
    case True
    then show ?thesis using less.prems by (subst scatter_loop.simps) (auto simp: blocks_def)
  next
    case False
    then have "0 < pages" by simp
    obtain a m mh' st where t: "0 < m" "m \<le> pages" "BestMatch 1 mh = a" "a \<noteq> 0"
      "fill_loop pages a (if ps = [] then Ret else Entry (last ps)) (r, mh) = Some (pages - m, Entry (a + m - 1), st)"
      "store (Entry (a + m - 1)) (-1) st = Some (int (hd (ps @ [a ..< a + m])), mh')"
      "pool_ok mh' (blocks (ps @ [a ..< a + m]) cs)" "length mh' = length mh" "mh' ! (length mh - 1) \<noteq> 0"
      "pages - m \<le> card (free_pages mh' XMS_START)"
      by (rule scatter_turn [OF less.prems(3,4,1,2) \<open>0 < pages\<close> less.prems(5)])
    let ?ps = "ps @ [a ..< a + m]"
    have nx: "(if ?ps = [] then Ret else Entry (last ?ps)) = Entry (a + m - 1)" using t(1) by simp
    have step: "scatter_loop pages (if ps = [] then Ret else Entry (last ps)) (r, mh) =
        scatter_loop (pages - m) (Entry (a + m - 1)) (int (hd ?ps), mh')"
      unfolding scatter_loop.simps [of pages _ "(r, mh)"] snd_conv t(3) Let_def t(5) option.case prod.case t(6)
      using t(4) False by simp
    have "\<exists>qs mh''. scatter_loop (pages - m) (if ?ps = [] then Ret else Entry (last ?ps)) (int (hd ?ps), mh') =
        Some (Inr (int (hd (?ps @ qs)), mh'')) \<and> length qs = pages - m \<and> pool_ok mh'' ((?ps @ qs) # cs) \<and> length mh'' = length mh'"
      by (rule less.IH) (use t less.prems in auto)
    then obtain qs mh'' where "scatter_loop (pages - m) (Entry (a + m - 1)) (int (hd ?ps), mh') = Some (Inr (int (hd (?ps @ qs)), mh''))"
      "length qs = pages - m" "pool_ok mh'' ((?ps @ qs) # cs)" "length mh'' = length mh'" unfolding nx by blast
    then show ?thesis using step t(2,8) by (intro exI [of _ "[a ..< a + m] @ qs"] exI [of _ mh'']) simp
  qed
qed

lemma fill_overrun:
  assumes "idx + m = length mh" "\<forall>i. idx \<le> i \<and> i < idx + m \<longrightarrow> mh ! i = 0" "m < pages"
    "case nx of Ret \<Rightarrow> True | Entry j \<Rightarrow> j < idx"
  shows "fill_loop pages idx nx (r, mh) = None"
  using assms
proof (induction m arbitrary: pages idx nx r mh)
  case 0
  then show ?case by (cases pages) auto
next
  case (Suc m)
  then obtain p where p: "pages = Suc p" "m < p" by (cases pages) auto
  have z: "idx < length mh" "mh ! idx = 0" using Suc.prems(1,2) by auto
  obtain r' mh' where st: "store nx (int idx) (r, mh) = Some (r', mh')" "length mh' = length mh"
    "\<And>i. nx \<noteq> Entry i \<Longrightarrow> mh' ! i = mh ! i"
    using Suc.prems(4) z by (cases nx) (auto simp: nth_list_update)
  have "fill_loop p (idx + 1) (Entry idx) (r', mh') = None"
  proof (rule Suc.IH)
    have "nx \<noteq> Entry i" if "idx \<le> i" for i using Suc.prems(4) that by (cases nx) auto
    then show "\<forall>i. idx + 1 \<le> i \<and> i < idx + 1 + m \<longrightarrow> mh' ! i = 0" using st(3) Suc.prems(2) by auto
  qed (use Suc.prems st(2) p in auto)
  then show ?case using p st(1) z by simp
qed

section \<open>Properties\<close>

text \<open>A memory with the free pages 272 and 273, two blocks, and \<open>n\<close> free pages at its end.\<close>

definition fragmented :: "nat \<Rightarrow> MemHandle list" where
  "fragmented n = replicate 272 0 @ [0, 0, -1, 276, 277, 278, -1] @ replicate n 0"

lemma fragmented_values:
  "length (fragmented n) = 279 + n" "fragmented n ! 272 = 0" "fragmented n ! 273 = 0" "fragmented n ! 274 = -1"
  "fragmented n ! 275 = 276" "fragmented n ! 276 = 277" "fragmented n ! 277 = 278" "fragmented n ! 278 = -1"
  "i < n \<Longrightarrow> fragmented n ! (279 + i) = 0"
proof -
  have nth: "fragmented n ! (272 + i) = ([0, 0, -1, 276, 277, 278, -1] @ replicate n 0) ! i" for i
    by (simp add: fragmented_def nth_append)
  show "length (fragmented n) = 279 + n" "fragmented n ! 272 = 0" "fragmented n ! 273 = 0" "fragmented n ! 274 = -1"
    "fragmented n ! 275 = 276" "fragmented n ! 276 = 277" "fragmented n ! 277 = 278" "fragmented n ! 278 = -1"
    using nth [of 0] nth [of 1] nth [of 2] nth [of 3] nth [of 4] nth [of 5] nth [of 6] by (simp_all add: fragmented_def)
  show "i < n \<Longrightarrow> fragmented n ! (279 + i) = 0"
    using nth [of "7 + i"] by (simp add: nth_append)
qed

lemma fragmented_used:
  assumes "272 \<le> i" "i < 279 + n"
  shows "fragmented n ! i \<noteq> 0 \<longleftrightarrow> i \<in> {274, 275, 276, 277, 278}"
proof (cases "i < 279")
  case True
  then have "i \<in> {272, 273, 274, 275, 276, 277, 278}" using assms by auto
  then show ?thesis using fragmented_values(2-8) [of n] by auto
next
  case False
  then show ?thesis using fragmented_values(9) [of "i - 279" n] assms by auto
qed

lemma fragmented_ok:
  assumes "n \<le> 1000"
  shows "pool_ok (fragmented n) [[274], [275, 276, 277, 278]]"
proof -
  have "used_pages (fragmented n) = {274, 275, 276, 277, 278}"
    using fragmented_used [of _ n] fragmented_values(4-8) [of n] by (auto simp: used_pages_def XMS_START_def fragmented_values(1))
  then show ?thesis using fragmented_values [of n] assms by (simp add: pool_ok_def)
qed

lemma fragmented_free: "free_pages (fragmented n) XMS_START = {272, 273} \<union> {279 ..< 279 + n}"
proof -
  have "i \<in> free_pages (fragmented n) XMS_START \<longleftrightarrow> i \<in> {272, 273} \<union> {279 ..< 279 + n}" for i
    using fragmented_used [of i n] by (auto simp: free_pages_def XMS_START_def fragmented_values(1))
  then show ?thesis by blast
qed

lemma fragmented_total: "MEM_FreeTotal (fragmented n) = 2 + n"
  unfolding free_total fragmented_free by (subst card_Un_disjoint) auto

text \<open>C21. Allocating contiguous pages: on a well-formed pool the allocator returns the first page of the
  smallest run of free pages that is large enough, links exactly the requested pages, keeps every
  other block, and releasing the block restores the array; when no run is large enough it
  returns zero and changes nothing.\<close>

theorem allocate_contiguous:
  assumes "pool_ok mh cs" "0 < pages"
  shows "\<exists>h mh'. MEM_AllocatePages pages True mh = Some (Inr (h, mh')) \<and>
    (if \<forall>a n. run mh a n \<longrightarrow> n < pages then h = 0 \<and> mh' = mh
     else \<exists>a n. h = int a \<and> run mh a n \<and> pages \<le> n \<and> (\<forall>b m. run mh b m \<and> pages \<le> m \<longrightarrow> n \<le> m) \<and>
       pool_ok mh' ([a ..< a + pages] # cs) \<and> MEM_ReleasePages h mh' = Some mh)"
proof -
  from allocate_sequence [OF assms] show ?thesis
  proof (elim disjE conjE exE)
    assume "MEM_AllocatePages pages True mh = Some (Inr (0, mh))" "\<forall>a n. run mh a n \<longrightarrow> n < pages"
    then show ?thesis by auto
  next
    fix a n mh'
    assume a: "MEM_AllocatePages pages True mh = Some (Inr (int a, mh'))" "run mh a n" "pages \<le> n"
      "\<forall>b m. run mh b m \<and> pages \<le> m \<longrightarrow> n \<le> m" "pool_ok mh' ([a ..< a + pages] # cs)" "zeroed mh' {a ..< a + pages} = mh"
    have "MEM_ReleasePages (int a) mh' = Some mh" using pool_ok_release(1) [OF a(5)] a(6) assms(2) by simp
    moreover have "\<not> (\<forall>a n. run mh a n \<longrightarrow> n < pages)" using a(2,3) not_le by blast
    ultimately show ?thesis using a by (simp only: if_False) blast
  qed
qed

theorem allocate_contiguous_witness: "\<exists>h mh'. MEM_AllocatePages 2 True (fragmented 1) = Some (Inr (h, mh'))"
  using allocate_contiguous [OF fragmented_ok [of 1], of 2] by auto

text \<open>C9. Reallocating a contiguous block of \<open>k\<close> pages: when it shrinks or the pages behind it that it needs are free, it
  stays where it is and memory is not touched. Otherwise it moves to the smallest run of free pages that is large
  enough, its contents are copied there and no other byte changes. When there is none it fails and changes
  nothing. The other blocks are kept in every case.\<close>

theorem reallocate_contiguous:
  assumes "pool_ok (mhandles p) ([a ..< a + k] # cs)" "0 < k" "0 < pages"
  shows "if fits_in_place (mhandles p) a k pages
    then \<exists>q. MEM_ReAllocatePages (int a) pages True p = Some (Inr (True, int a, q)) \<and>
      pool_ok (mhandles q) ([a ..< a + pages] # cs) \<and> ram q = ram p
    else if \<forall>b m. run (mhandles p) b m \<longrightarrow> m < pages then MEM_ReAllocatePages (int a) pages True p = Some (Inr (False, int a, p))
    else \<exists>b m q. MEM_ReAllocatePages (int a) pages True p = Some (Inr (True, int b, q)) \<and>
      run (mhandles p) b m \<and> pages \<le> m \<and> (\<forall>c l. run (mhandles p) c l \<and> pages \<le> l \<longrightarrow> m \<le> l) \<and>
      pool_ok (mhandles q) ([b ..< b + pages] # cs) \<and>
      (\<forall>i < k * 4096. ram q (word_of_nat (b * 4096 + i)) = ram p (word_of_nat (a * 4096 + i))) \<and>
      (\<forall>x. (\<forall>i < k * 4096. x \<noteq> word_of_nat (b * 4096 + i)) \<longrightarrow> ram q x = ram p x)"
proof (cases "fits_in_place (mhandles p) a k pages")
  case True
  then show ?thesis using reallocate_in_place [OF assms True] by (simp only: if_True)
next
  case False
  then show ?thesis using reallocate_elsewhere [OF assms(1,2) False] by (metis not_le)
qed

text \<open>A block that grows into the free pages behind it, and one that has to move.\<close>

theorem reallocate_contiguous_witness:
  "(\<exists>q. MEM_ReAllocatePages 275 9 True \<lparr>mhandles = fragmented 7, ram = (\<lambda>_. 0)\<rparr> = Some (Inr (True, 275, q))) \<and>
   (\<exists>q b. MEM_ReAllocatePages 274 3 True \<lparr>mhandles = fragmented 7, ram = (\<lambda>_. 0)\<rparr> = Some (Inr (True, int b, q)) \<and>
      pool_ok (mhandles q) ([b ..< b + 3] # [[275, 276, 277, 278]]))"
proof
  let ?p = "\<lparr>mhandles = fragmented 7, ram = (\<lambda>_. 0)\<rparr>"
  have "[275, 276, 277, 278] = [275 ..< 275 + 4 :: nat]" by (simp add: upt_conv_Cons)
  then have ok: "pool_ok (mhandles ?p) ([275 ..< 275 + 4] # [[274]])"
    using pool_ok_swap [OF fragmented_ok [of 7]] by simp
  have free: "fragmented 7 ! i = 0" if "279 \<le> i" "i < 286" for i using fragmented_used [of i 7] that by auto
  then have "fits_in_place (fragmented 7) 275 4 9" by (simp add: fits_in_place_def fragmented_values(1))
  with reallocate_contiguous [OF ok, of 9] show "\<exists>q. MEM_ReAllocatePages 275 9 True ?p = Some (Inr (True, 275, q))" by auto
  have ok: "pool_ok (mhandles ?p) ([274 ..< 274 + 1] # [[275, 276, 277, 278]])" using fragmented_ok [of 7] by simp
  have "\<not> fits_in_place (fragmented 7) 274 1 3" using fragmented_values(5) [of 7] by (simp add: fits_in_place_def) (intro bexI [of _ 275]; simp)
  moreover have "run (fragmented 7) 279 7"
    using fragmented_values(8) [of 7] free by (simp add: run_def XMS_START_def fragmented_values(1))
  then have "\<not> (\<forall>b m. run (fragmented 7) b m \<longrightarrow> m < 3)" by fastforce
  ultimately show "\<exists>q b. MEM_ReAllocatePages 274 3 True ?p = Some (Inr (True, int b, q)) \<and>
      pool_ok (mhandles q) ([b ..< b + 3] # [[275, 276, 277, 278]])"
    using reallocate_contiguous [OF ok, of 3] by (auto split: if_splits)
qed

text \<open>The counters: the number of free pages, the length of the longest run of free pages, and the
  number of pages of a block, are what the functions return.\<close>

theorem free_counters:
  "MEM_FreeTotal mh = card {i. XMS_START \<le> i \<and> i < length mh \<and> mh ! i = 0} \<and>
   (\<forall>a n. run mh a n \<longrightarrow> n \<le> MEM_FreeLargest mh) \<and> (MEM_FreeLargest mh = 0 \<or> (\<exists>a. run mh a (MEM_FreeLargest mh))) \<and>
   (pool_ok mh (c # cs) \<longrightarrow> MEM_AllocatedPages mh (int (hd c)) = Some (length c))"
  using free_total [of mh] free_largest [of mh] allocated_chain [of mh "int (hd c)" c 0]
  by (auto simp: free_pages_def largest_def pool_ok_def MEM_AllocatedPages_def)

theorem free_counters_witness: "MEM_AllocatedPages (fragmented 1) 274 = Some 1"
  using free_counters [of "fragmented 1" "[274]" "[[275, 276, 277, 278]]"] fragmented_ok [of 1] by simp

lemma scattered_alloc:
  assumes "pool_ok mh cs" "0 < pages" "XMS_START < length mh" "mh ! (length mh - 1) \<noteq> 0"
  shows "if MEM_FreeTotal mh < pages then MEM_AllocatePages pages False mh = Some (Inr (0, mh))
    else \<exists>ps mh'. MEM_AllocatePages pages False mh = Some (Inr (int (hd ps), mh')) \<and> length ps = pages \<and> pool_ok mh' (ps # cs)"
proof (cases "MEM_FreeTotal mh < pages")
  case True
  then show ?thesis using assms(2) by (simp add: MEM_AllocatePages_def)
next
  case False
  then obtain qs mh' where "scatter_loop pages Ret (0, mh) = Some (Inr (int (hd qs), mh'))" "length qs = pages" "pool_ok mh' (qs # cs)"
    using scatter_loop_spec [OF assms(3,4), of "[]" cs 0 pages] assms(1,2) free_total [of mh] by (auto simp: blocks_def)
  then show ?thesis using False assms(2) by (auto simp: MEM_AllocatePages_def)
qed

text \<open>Allocating scattered pages when the last page of memory is in use: with enough free
  pages the allocator returns and builds one block of exactly the requested number of pages that were
  free, keeping the other blocks; with fewer it returns zero and changes nothing.\<close>

theorem allocate_scattered:
  assumes "pool_ok mh cs" "0 < pages" "XMS_START < length mh" "mh ! (length mh - 1) \<noteq> 0"
  shows "if MEM_FreeTotal mh < pages then MEM_AllocatePages pages False mh = Some (Inr (0, mh))
    else \<exists>ps mh'. MEM_AllocatePages pages False mh = Some (Inr (int (hd ps), mh')) \<and> length ps = pages \<and> pool_ok mh' (ps # cs)"
  by (rule scattered_alloc [OF assms])

theorem allocate_scattered_witness:
  "\<exists>ps mh'. MEM_AllocatePages 2 False (fragmented 0) = Some (Inr (int (hd ps), mh')) \<and> length ps = 2"
  using allocate_scattered [OF fragmented_ok [of 0], of 2] fragmented_total [of 0] fragmented_values(1,8) [of 0]
  by (auto simp: XMS_START_def)

text \<open>C31. Allocating scattered pages when the smallest run of free pages is shorter than the request and
  reaches the end of memory: the loop that takes its pages reads the array behind its end, whatever
  free pages there are elsewhere.\<close>

theorem scattered_overrun:
  assumes "run mh a n" "a + n = length mh" "n < pages" "pages \<le> MEM_FreeTotal mh" "length mh \<le> 0xfffffff"
    and "\<And>b m. run mh b m \<Longrightarrow> b \<noteq> a \<Longrightarrow> n < m"
  shows "MEM_AllocatePages pages False mh = None"
proof -
  have n: "0 < n" using assms(1) by (simp add: run_def)
  have f: "best_fit mh 1 (BestMatch 1 mh)" using BestMatch_spec assms(5) by simp
  then have nz: "BestMatch 1 mh \<noteq> 0" using assms(1) n by (fastforce simp: best_fit_def split: if_splits)
  with f obtain k where k: "run mh (BestMatch 1 mh) k" "\<forall>b m. run mh b m \<and> 1 \<le> m \<longrightarrow> k \<le> m" by (auto simp: best_fit_def)
  then have "k \<le> n" using assms(1) n by auto
  then have a: "BestMatch 1 mh = a" using assms(6) [OF k(1)] by linarith
  have "fill_loop pages a Ret (0, mh) = None"
    using fill_overrun [OF assms(2) _ assms(3), of Ret 0] assms(1) by (simp add: run_def)
  then have "scatter_loop pages Ret (0, mh) = None"
    using assms(3) a nz by (subst scatter_loop.simps) (simp add: Let_def)
  then show ?thesis using assms(3,4) by (simp add: MEM_AllocatePages_def)
qed

theorem scattered_overrun_witness: "MEM_AllocatePages 3 False (fragmented 1) = None"
proof (rule scattered_overrun)
  note v = fragmented_values [of 1]
  have v9: "fragmented 1 ! 279 = 0" using fragmented_values(9) [of 0 1] by simp
  have "fragmented 1 ! i = 0" if "279 \<le> i" "i < 280" for i
  proof -
    have "i = 279" using that by simp
    then show ?thesis using v9 by simp
  qed
  then show "run (fragmented 1) 279 1" using v(1,8) by (auto simp: run_def XMS_START_def)
  show "1 < m" if r: "run (fragmented 1) b m" "b \<noteq> 279" for b m
  proof (rule ccontr)
    assume "\<not> 1 < m"
    then have m: "m = 1" using r(1) by (auto simp: run_def)
    then have "b \<in> free_pages (fragmented 1) XMS_START" using r(1) by (auto simp: run_def free_pages_def)
    then have "b = 272 \<or> b = 273" unfolding fragmented_free using r(2) by auto
    then show False using r(1) m v by (auto simp: run_def XMS_START_def)
  qed
qed (simp_all add: fragmented_total fragmented_values)

end
