(* ===== verification/Mcb.thy ===== *)
theory Mcb
  imports Prelude
begin

text \<open>
  The memory control blocks of DOS, \<open>src/src/dos/dos_memory.cpp\<close>. A block header (\<open>DOS_MCB\<close> in
  \<open>src/src/dos/dos.h\<close>) fills one paragraph of guest memory, so the memory the code sees is a
  function from segments to headers; the object \<open>DOS_MCB mcb(seg)\<close> is the segment it points at.
  Sizes are in paragraphs, without the header. Segments and sizes wrap at 16 bits as in the code.
  A walk that never meets the end of the chain is the result \<open>None\<close>; \<open>E_Exit\<close> is the value
  \<open>Corrupt_chain\<close>. \<open>dos.psp()\<close>, \<open>dos.firstMCB\<close> and the fields of \<open>dos_infoblock\<close> are fields of
  the state; \<open>DOS_SetError\<close> sets \<open>errorcode\<close>. The interrupt vectors that \<open>DOS_SetupMemory\<close> also
  writes are not part of the state.
\<close>

section \<open>State\<close>

record MCB =
  mcb_type :: u8
  psp_segment :: u16
  mcb_size :: u16
  filename :: "u8 list"

datatype McbFaultStrategy = Deny | Repair | Report | Allow

record dos_mem =
  mcbs :: "u16 \<Rightarrow> MCB"
  firstMCB :: u16
  umb_chain_start :: u16
  umb_chain_state :: u8
  allocation_strategy :: u16
  fault_strategy :: McbFaultStrategy
  current_psp :: u16
  errorcode :: u16

datatype fatal = Corrupt_chain

definition middle_mcb_type :: u8 where "middle_mcb_type = 0x4d"
definition ending_mcb_type :: u8 where "ending_mcb_type = 0x5a"
definition umb_start_seg :: u16 where "umb_start_seg = 0x9fff"
definition max_allowed_faults :: nat where "max_allowed_faults = 100"
definition MCB_FREE :: u16 where "MCB_FREE = 0"
definition MCB_DOS :: u16 where "MCB_DOS = 8"
definition DOS_MEM_START :: u16 where "DOS_MEM_START = 0x16f"
definition DOSERR_MCB_DESTROYED :: u16 where "DOSERR_MCB_DESTROYED = 7"
definition DOSERR_INSUFFICIENT_MEMORY :: u16 where "DOSERR_INSUFFICIENT_MEMORY = 8"
definition DOSERR_MB_ADDRESS_INVALID :: u16 where "DOSERR_MB_ADDRESS_INVALID = 9"

definition GetType :: "u16 \<Rightarrow> dos_mem \<Rightarrow> u8" where "GetType seg m = mcb_type (mcbs m seg)"
definition GetPSPSeg :: "u16 \<Rightarrow> dos_mem \<Rightarrow> u16" where "GetPSPSeg seg m = psp_segment (mcbs m seg)"
definition GetSize :: "u16 \<Rightarrow> dos_mem \<Rightarrow> u16" where "GetSize seg m = mcb_size (mcbs m seg)"
definition GetFileName :: "u16 \<Rightarrow> dos_mem \<Rightarrow> u8 list" where "GetFileName seg m = filename (mcbs m seg)"

definition upd_mcb :: "u16 \<Rightarrow> (MCB \<Rightarrow> MCB) \<Rightarrow> dos_mem \<Rightarrow> dos_mem" where
  "upd_mcb seg f m = m\<lparr>mcbs := (mcbs m)(seg := f (mcbs m seg))\<rparr>"

definition SetType :: "u16 \<Rightarrow> u8 \<Rightarrow> dos_mem \<Rightarrow> dos_mem" where "SetType seg t = upd_mcb seg (\<lambda>b. b\<lparr>mcb_type := t\<rparr>)"
definition SetPSPSeg :: "u16 \<Rightarrow> u16 \<Rightarrow> dos_mem \<Rightarrow> dos_mem" where "SetPSPSeg seg p = upd_mcb seg (\<lambda>b. b\<lparr>psp_segment := p\<rparr>)"
definition SetSize :: "u16 \<Rightarrow> u16 \<Rightarrow> dos_mem \<Rightarrow> dos_mem" where "SetSize seg n = upd_mcb seg (\<lambda>b. b\<lparr>mcb_size := n\<rparr>)"
definition SetFileName :: "u16 \<Rightarrow> u8 list \<Rightarrow> dos_mem \<Rightarrow> dos_mem" where "SetFileName seg s = upd_mcb seg (\<lambda>b. b\<lparr>filename := s\<rparr>)"

definition DOS_SetError :: "u16 \<Rightarrow> dos_mem \<Rightarrow> dos_mem" where
  "DOS_SetError e m = m\<lparr>errorcode := e\<rparr>"

section \<open>Corrupt headers\<close>

text \<open>The preferences of the configuration; any other string fails an assertion.\<close>

definition DOS_SetMcbFaultStrategy :: "string \<Rightarrow> dos_mem \<Rightarrow> dos_mem option" where
  "DOS_SetMcbFaultStrategy pref m =
     (if pref = ''deny'' then Some (m\<lparr>fault_strategy := Deny\<rparr>)
      else if pref = ''repair'' then Some (m\<lparr>fault_strategy := Repair\<rparr>)
      else if pref = ''report'' then Some (m\<lparr>fault_strategy := Report\<rparr>)
      else if pref = ''allow'' then Some (m\<lparr>fault_strategy := Allow\<rparr>)
      else None)"

definition valid_type :: "u16 \<Rightarrow> dos_mem \<Rightarrow> bool" where
  "valid_type seg m \<longleftrightarrow> GetType seg m = middle_mcb_type \<or> GetType seg m = ending_mcb_type"

definition triage_block :: "u16 \<Rightarrow> u8 \<Rightarrow> dos_mem \<Rightarrow> fatal + bool \<times> dos_mem" where
  "triage_block seg repair_type m =
     (if valid_type seg m then Inr (False, m)
      else case fault_strategy m of
          Deny \<Rightarrow> Inl Corrupt_chain
        | Repair \<Rightarrow> Inr (True, SetType seg repair_type m)
        | Report \<Rightarrow> Inr (True, m)
        | Allow \<Rightarrow> Inr (True, m))"

section \<open>Merging free blocks\<close>

partial_function (option) compress_loop :: "u16 \<Rightarrow> nat \<Rightarrow> dos_mem \<Rightarrow> (fatal + dos_mem) option" where
  "compress_loop mcb_segment faults m =
     (if GetType mcb_segment m \<noteq> ending_mcb_type \<and> faults < max_allowed_faults
      then let mcb_next = mcb_segment + GetSize mcb_segment m + 1
           in if GetPSPSeg mcb_segment m = MCB_FREE \<and> GetPSPSeg mcb_next m = MCB_FREE
              then (case triage_block mcb_next (GetType mcb_segment m) m of
                      Inl e \<Rightarrow> Some (Inl e)
                    | Inr (fault, m) \<Rightarrow>
                        let faults = faults + (if fault then 1 else 0);
                            m = SetSize mcb_segment (GetSize mcb_segment m + GetSize mcb_next m + 1) m;
                            m = SetType mcb_segment (GetType mcb_next m) m
                        in compress_loop mcb_segment faults m)
              else compress_loop (mcb_segment + GetSize mcb_segment m + 1) faults m
      else Some (Inr m))"

definition DOS_CompressMemory :: "dos_mem \<Rightarrow> (fatal + dos_mem) option" where
  "DOS_CompressMemory m = compress_loop (firstMCB m) 0 m"

section \<open>Freeing the blocks of a process\<close>

partial_function (option) free_process_loop :: "u16 \<Rightarrow> u16 \<Rightarrow> nat \<Rightarrow> dos_mem \<Rightarrow> (fatal + dos_mem) option" where
  "free_process_loop pspseg seg faults m =
     (if faults < max_allowed_faults
      then let m = (if GetPSPSeg seg m = pspseg then SetPSPSeg seg MCB_FREE m else m)
           in if GetType seg m = ending_mcb_type then Some (Inr m)
              else (case triage_block seg middle_mcb_type m of
                      Inl e \<Rightarrow> Some (Inl e)
                    | Inr (fault, m) \<Rightarrow>
                        free_process_loop pspseg (seg + GetSize seg m + 1) (faults + (if fault then 1 else 0)) m)
      else Some (Inr m))"

definition DOS_FreeProcessMemory :: "u16 \<Rightarrow> dos_mem \<Rightarrow> (fatal + dos_mem) option" where
  "DOS_FreeProcessMemory pspseg m =
     (case free_process_loop pspseg (firstMCB m) 0 m of
        None \<Rightarrow> None
      | Some (Inl e) \<Rightarrow> Some (Inl e)
      | Some (Inr m) \<Rightarrow>
          if umb_chain_start m = umb_start_seg
          then (case free_process_loop pspseg (umb_chain_start m) 0 m of
                  None \<Rightarrow> None
                | Some (Inl e) \<Rightarrow> Some (Inl e)
                | Some (Inr m) \<Rightarrow> DOS_CompressMemory m)
          else DOS_CompressMemory m)"

section \<open>Allocation\<close>

definition DOS_GetMemAllocStrategy :: "dos_mem \<Rightarrow> u16" where
  "DOS_GetMemAllocStrategy m = allocation_strategy m"

definition DOS_SetMemAllocStrategy :: "u16 \<Rightarrow> dos_mem \<Rightarrow> bool \<times> dos_mem" where
  "DOS_SetMemAllocStrategy strat m =
     (if strat AND 0x3f < 3 then (True, m\<lparr>allocation_strategy := strat\<rparr>) else (False, m))"

text \<open>The result: the segment of the block, or the size of the largest free block that is too small.\<close>

datatype alloc_result = Allocated u16 | Insufficient u16

text \<open>The block taken from the beginning of a free one (first fit and best fit).\<close>

definition split_front :: "u16 \<Rightarrow> u16 \<Rightarrow> u16 \<Rightarrow> u8 list \<Rightarrow> dos_mem \<Rightarrow> dos_mem" where
  "split_front seg block_size blocks psp_name m =
     (let mcb_next = seg + blocks + 1;
          m = SetPSPSeg mcb_next MCB_FREE m;
          m = SetType mcb_next (GetType seg m) m;
          m = SetSize mcb_next (block_size - blocks - 1) m;
          m = SetSize seg blocks m;
          m = SetType seg middle_mcb_type m;
          m = SetPSPSeg seg (current_psp m) m
      in SetFileName seg psp_name m)"

text \<open>The block taken from the end of a free one (last fit).\<close>

definition split_back :: "u16 \<Rightarrow> u16 \<Rightarrow> u16 \<Rightarrow> u8 list \<Rightarrow> dos_mem \<Rightarrow> u16 \<times> dos_mem" where
  "split_back found_seg found_seg_size blocks psp_name m =
     (if found_seg_size = blocks
      then (found_seg + 1, SetFileName found_seg psp_name (SetPSPSeg found_seg (current_psp m) m))
      else let segment = found_seg + 1 + found_seg_size - blocks;
               mcb_next = segment - 1;
               m = SetSize mcb_next blocks m;
               m = SetType mcb_next (GetType found_seg m) m;
               m = SetPSPSeg mcb_next (current_psp m) m;
               m = SetFileName mcb_next psp_name m;
               m = SetSize found_seg (found_seg_size - blocks - 1) m;
               m = SetPSPSeg found_seg MCB_FREE m;
               m = SetType found_seg middle_mcb_type m
           in (segment, m))"

partial_function (option) alloc_loop ::
  "u16 \<Rightarrow> u8 list \<Rightarrow> u16 \<Rightarrow> u16 \<Rightarrow> u16 \<Rightarrow> u16 \<Rightarrow> u16 \<Rightarrow> dos_mem \<Rightarrow> (alloc_result \<times> dos_mem) option" where
  "alloc_loop blocks psp_name mcb_segment mem_strat bigsize found_seg found_seg_size m =
     (let free = (GetPSPSeg mcb_segment m = MCB_FREE);
          block_size = GetSize mcb_segment m
      in if free \<and> \<not> block_size < blocks \<and> block_size = blocks \<and> mem_strat AND 0x3f < 2
         then Some (Allocated (mcb_segment + 1), SetPSPSeg mcb_segment (current_psp m) m)
         else if free \<and> \<not> block_size < blocks \<and> mem_strat AND 0x3f = 0
         then Some (Allocated (mcb_segment + 1), split_front mcb_segment block_size blocks psp_name m)
         else let bigsize = (if free \<and> block_size < blocks \<and> bigsize < block_size then block_size else bigsize);
                  take = (free \<and> \<not> block_size < blocks \<and>
                          (mem_strat AND 0x3f = 1 \<longrightarrow> found_seg_size = 0 \<or> block_size < found_seg_size));
                  found_seg = (if take then mcb_segment else found_seg);
                  found_seg_size = (if take then block_size else found_seg_size)
              in if GetType mcb_segment m = ending_mcb_type
                 then if truth (mem_strat AND 0x80) \<and> umb_chain_start m = umb_start_seg
                      then alloc_loop blocks psp_name (firstMCB m) (mem_strat AND NOT 0xc0) bigsize found_seg found_seg_size m
                      else if found_seg \<noteq> 0
                      then if mem_strat AND 0x3f = 1
                           then Some (Allocated (found_seg + 1), split_front found_seg found_seg_size blocks psp_name m)
                           else let (segment, m) = split_back found_seg found_seg_size blocks psp_name m
                                in Some (Allocated segment, m)
                      else Some (Insufficient bigsize, DOS_SetError DOSERR_INSUFFICIENT_MEMORY m)
                 else alloc_loop blocks psp_name (mcb_segment + GetSize mcb_segment m + 1) mem_strat bigsize found_seg found_seg_size m)"

definition DOS_AllocateMemory :: "u16 \<Rightarrow> dos_mem \<Rightarrow> (fatal + alloc_result \<times> dos_mem) option" where
  "DOS_AllocateMemory blocks m =
     (case DOS_CompressMemory m of
        None \<Rightarrow> None
      | Some (Inl e) \<Rightarrow> Some (Inl e)
      | Some (Inr m) \<Rightarrow>
          let mem_strat = allocation_strategy m;
              mcb_segment = (if umb_chain_start m = umb_start_seg \<and> truth (mem_strat AND 0xc0)
                             then umb_chain_start m else firstMCB m);
              psp_name = GetFileName (current_psp m - 1) m
          in map_option Inr (alloc_loop blocks psp_name mcb_segment mem_strat 0 0 0 m))"

section \<open>Resizing\<close>

text \<open>The result: success, and the block count that is handed back.\<close>

definition DOS_ResizeMemory :: "u16 \<Rightarrow> u16 \<Rightarrow> dos_mem \<Rightarrow> (fatal + bool \<times> u16 \<times> dos_mem) option" where
  "DOS_ResizeMemory segment blocks m =
     (let mcb = segment - 1
      in if \<not> valid_type mcb m then Some (Inr (False, blocks, DOS_SetError DOSERR_MCB_DESTROYED m))
         else case DOS_CompressMemory m of
           None \<Rightarrow> None
         | Some (Inl e) \<Rightarrow> Some (Inl e)
         | Some (Inr m) \<Rightarrow>
             let total = GetSize mcb m;
                 mcb_next = segment + total
             in if blocks \<le> total
                then if blocks = total then Some (Inr (True, blocks, SetPSPSeg mcb (current_psp m) m))
                     else let mcb_new_next = segment + blocks;
                              m = SetSize mcb blocks m;
                              m = SetType mcb_new_next (GetType mcb m) m;
                              m = (if GetType mcb m = ending_mcb_type then SetType mcb middle_mcb_type m else m);
                              m = SetSize mcb_new_next (total - blocks - 1) m;
                              m = SetPSPSeg mcb_new_next MCB_FREE m;
                              m = SetPSPSeg mcb (current_psp m) m
                          in (case DOS_CompressMemory m of
                                None \<Rightarrow> None
                              | Some (Inl e) \<Rightarrow> Some (Inl e)
                              | Some (Inr m) \<Rightarrow> Some (Inr (True, blocks, m)))
                else let total = (if GetType mcb m \<noteq> ending_mcb_type \<and> GetPSPSeg mcb_next m = MCB_FREE
                                  then total + (GetSize mcb_next m + 1) else total)
                     in if blocks < total
                        then let m = (if GetType mcb m \<noteq> ending_mcb_type then SetType mcb (GetType mcb_next m) m else m);
                                 m = SetSize mcb blocks m;
                                 mcb_next = segment + blocks;
                                 m = SetSize mcb_next (total - blocks - 1) m;
                                 m = SetType mcb_next (GetType mcb m) m;
                                 m = SetPSPSeg mcb_next MCB_FREE m;
                                 m = SetType mcb middle_mcb_type m;
                                 m = SetPSPSeg mcb (current_psp m) m
                             in (case DOS_CompressMemory m of
                                   None \<Rightarrow> None
                                 | Some (Inl e) \<Rightarrow> Some (Inl e)
                                 | Some (Inr m) \<Rightarrow> Some (Inr (True, blocks, m)))
                        else let m = (if GetPSPSeg mcb_next m = MCB_FREE \<and> GetType mcb m \<noteq> ending_mcb_type
                                      then SetType mcb (GetType mcb_next m) m else m);
                                 m = SetSize mcb total m;
                                 m = SetPSPSeg mcb (current_psp m) m
                             in if blocks = total then Some (Inr (True, blocks, SetPSPSeg mcb (current_psp m) m))
                                else Some (Inr (False, total, DOS_SetError DOSERR_INSUFFICIENT_MEMORY m)))"

section \<open>Freeing\<close>

definition DOS_FreeMemory :: "u16 \<Rightarrow> dos_mem \<Rightarrow> bool \<times> dos_mem" where
  "DOS_FreeMemory segment m =
     (if segment < DOS_MEM_START + 1 then (False, DOS_SetError DOSERR_MB_ADDRESS_INVALID m)
      else if \<not> valid_type (segment - 1) m then (False, DOS_SetError DOSERR_MB_ADDRESS_INVALID m)
      else (True, SetPSPSeg (segment - 1) MCB_FREE m))"

section \<open>Upper memory blocks\<close>

partial_function (option) find_last :: "u16 \<Rightarrow> dos_mem \<Rightarrow> u16 option" where
  "find_last mcb_segment m =
     (if GetType mcb_segment m \<noteq> ending_mcb_type then find_last (mcb_segment + GetSize mcb_segment m + 1) m
      else Some mcb_segment)"

definition DOS_BuildUMBChain :: "bool \<Rightarrow> bool \<Rightarrow> bool \<Rightarrow> dos_mem \<Rightarrow> dos_mem option" where
  "DOS_BuildUMBChain umb_active ems_active pcjr_or_tandy m =
     (if umb_active \<and> \<not> pcjr_or_tandy
      then let first_umb_seg = 0xd000;
               first_umb_size = (if ems_active then 0x1000 else 0x2000);
               m = m\<lparr>umb_chain_start := umb_start_seg\<rparr>;
               m = m\<lparr>umb_chain_state := 0\<rparr>;
               m = SetPSPSeg first_umb_seg 0 m;
               m = SetSize first_umb_seg (first_umb_size - 1) m;
               m = SetType first_umb_seg ending_mcb_type m
           in case find_last (firstMCB m) m of
                None \<Rightarrow> None
              | Some mcb_segment \<Rightarrow>
                  let cover_mcb = mcb_segment + GetSize mcb_segment m + 1;
                      m = SetType cover_mcb middle_mcb_type m;
                      m = SetPSPSeg cover_mcb 0x0008 m;
                      m = SetSize cover_mcb (first_umb_seg - cover_mcb - 1) m
                  in Some (SetFileName cover_mcb [83, 67, 32, 32, 32, 32, 32, 32] m)
      else Some (m\<lparr>umb_chain_start := 0xffff, umb_chain_state := 0\<rparr>))"

partial_function (option) find_umb :: "u16 \<Rightarrow> u16 \<Rightarrow> u16 \<Rightarrow> dos_mem \<Rightarrow> (u16 \<times> u16) option" where
  "find_umb umb_start mcb_segment prev_mcb_segment m =
     (if mcb_segment \<noteq> umb_start \<and> GetType mcb_segment m \<noteq> ending_mcb_type
      then find_umb umb_start (mcb_segment + GetSize mcb_segment m + 1) mcb_segment m
      else Some (mcb_segment, prev_mcb_segment))"

definition DOS_LinkUMBsToMemChain :: "u16 \<Rightarrow> dos_mem \<Rightarrow> (bool \<times> dos_mem) option" where
  "DOS_LinkUMBsToMemChain linkstate m =
     (let umb_start = umb_chain_start m
      in if umb_start \<noteq> umb_start_seg then Some (False, m)
         else if linkstate AND 1 = ucast (umb_chain_state m) AND 1 then Some (True, m)
         else case find_umb umb_start (firstMCB m) (firstMCB m) m of
           None \<Rightarrow> None
         | Some (mcb_segment, prev_mcb_segment) \<Rightarrow>
             if linkstate = 0
             then let m = (if GetType prev_mcb_segment m = middle_mcb_type \<and> mcb_segment = umb_start
                           then SetType prev_mcb_segment ending_mcb_type m else m)
                  in Some (True, m\<lparr>umb_chain_state := 0\<rparr>)
             else if linkstate = 1
             then let m = (if GetType mcb_segment m = ending_mcb_type
                           then (SetType mcb_segment middle_mcb_type m)\<lparr>umb_chain_state := 1\<rparr> else m)
                  in Some (True, m)
             else Some (False, m))"

section \<open>The chain at start-up\<close>

datatype machine_kind = Tandy | Pcjr_expanded | Pcjr_standard | Other_machine

definition put_block :: "u16 \<Rightarrow> u16 \<Rightarrow> u16 \<Rightarrow> u8 \<Rightarrow> dos_mem \<Rightarrow> dos_mem" where
  "put_block seg p n t m = SetType seg t (SetSize seg n (SetPSPSeg seg p m))"

definition kilobytes_to_segment :: "nat \<Rightarrow> u16" where
  "kilobytes_to_segment address_kb = word_of_nat (address_kb * 1024 div 16)"

definition DOS_SetupMemory :: "machine_kind \<Rightarrow> dos_mem \<Rightarrow> dos_mem" where
  "DOS_SetupMemory kind m =
     (let m = put_block DOS_MEM_START MCB_DOS 1 middle_mcb_type m;
          mcb_sizes = 2;
          m = put_block (DOS_MEM_START + mcb_sizes) MCB_FREE 4 middle_mcb_type m;
          mcb_sizes = mcb_sizes + 5;
          m = put_block (DOS_MEM_START + mcb_sizes) 0x40 16 middle_mcb_type m;
          mcb_sizes = mcb_sizes + 17;
          start = DOS_MEM_START + mcb_sizes;
          video_memory_start = kilobytes_to_segment (128 - 32);
          m = (case kind of
                 Tandy \<Rightarrow> put_block start MCB_FREE (0x9BFF - DOS_MEM_START - mcb_sizes) ending_mcb_type m
               | Pcjr_expanded \<Rightarrow>
                   let application_segment = video_memory_start + kilobytes_to_segment (32 + 16);
                       reserved_size = application_segment - start - 1;
                       application_size = umb_start_seg - application_segment - 1;
                       m = put_block start MCB_DOS reserved_size middle_mcb_type m
                   in put_block application_segment MCB_FREE application_size ending_mcb_type m
               | Pcjr_standard \<Rightarrow> put_block start MCB_FREE (video_memory_start - start - 1) ending_mcb_type m
               | Other_machine \<Rightarrow> put_block start MCB_FREE (0x9FFE - DOS_MEM_START - mcb_sizes) ending_mcb_type m)
      in m\<lparr>firstMCB := DOS_MEM_START\<rparr>)"

end
