(* ===== verification/Xms.thy ===== *)
theory Xms
  imports Page_Pool Mcb
begin

text \<open>
  The extended memory manager of \<open>src/src/ints/xms.cpp\<close> with the A20 port of
  \<open>src/src/hardware/memory.cpp\<close>. Its state holds the page pool, the memory control blocks of DOS, the
  table of handles, the two A20 counters, the owner of the high memory area and the registers the
  guest passes. The result \<open>None\<close> is a run that does not return or leaves an array; a fault
  is a call of \<open>E_Exit\<close>. The guest's memory is \<open>ram\<close> of the pool, which it
  addresses through \<open>paging.firstmb\<close>: the first megabyte by the entries the expanded memory manager may have
  changed, the 64 KB behind it folded to address 0 while the A20 line is off (a page that \<open>EMM_MapSegment\<close> maps across
  the megabyte, protected-mode paging and handlers of single pages are left out). The descriptor of a move is read with the line as the
  guest left it, the copy runs with the line on. Logging is left out.
\<close>

unbundle bit_operations_syntax

section \<open>State\<close>

datatype Result = OK | NotImplemented | VDiskDetected | A20LineError | GeneralDriverError | HMA_NOT_EXIST | HmaInUse | HmaNotBigEnough
  | HmaNotAllocated | A20StillEnabled | XmsOutOfSpace | XmsOutOfHandles | XmsInvalidHandle | XmsInvalidSrcHandle | XmsInvalidSrcOffset
  | XmsInvalidDestHandle | XmsInvalidDestOffset | XmsInvalidLength | XmsInvalidOverlap | XmsParityError | XmsBlockNotLocked
  | XmsBlockLocked | XmsLockCountOverflow | XmsLockFailed | UmbOnlySmallerBlock | UmbNoBlocksAvailable | UmbInvalidSegment

fun code_of :: "Result \<Rightarrow> u8" where
  "code_of OK = 0x00" | "code_of NotImplemented = 0x80" | "code_of VDiskDetected = 0x81" | "code_of A20LineError = 0x82"
| "code_of GeneralDriverError = 0x8e" | "code_of HMA_NOT_EXIST = 0x90" | "code_of HmaInUse = 0x91" | "code_of HmaNotBigEnough = 0x92"
| "code_of HmaNotAllocated = 0x93" | "code_of A20StillEnabled = 0x94" | "code_of XmsOutOfSpace = 0xa0" | "code_of XmsOutOfHandles = 0xa1"
| "code_of XmsInvalidHandle = 0xa2" | "code_of XmsInvalidSrcHandle = 0xa3" | "code_of XmsInvalidSrcOffset = 0xa4"
| "code_of XmsInvalidDestHandle = 0xa5" | "code_of XmsInvalidDestOffset = 0xa6" | "code_of XmsInvalidLength = 0xa7"
| "code_of XmsInvalidOverlap = 0xa8" | "code_of XmsParityError = 0xa9" | "code_of XmsBlockNotLocked = 0xaa"
| "code_of XmsBlockLocked = 0xab" | "code_of XmsLockCountOverflow = 0xac" | "code_of XmsLockFailed = 0xad"
| "code_of UmbOnlySmallerBlock = 0xb0" | "code_of UmbNoBlocksAvailable = 0xb1" | "code_of UmbInvalidSegment = 0xb2"

record XMS_Block =
  size_kb :: u32
  mem_handle :: MemHandle
  lock_count :: u8
  is_free :: bool

definition XMS_Block0 :: XMS_Block where
  "XMS_Block0 = \<lparr>size_kb = 0, mem_handle = -1, lock_count = 0, is_free = True\<rparr>"

definition NumXmsHandles :: nat where "NumXmsHandles = 128"
definition XmsVersion :: u16 where "XmsVersion = 0x0300"
definition XmsDriverVersion :: u16 where "XmsDriverVersion = 0x0301"
definition A20MaxTimesEnabled :: u32 where "A20MaxTimesEnabled = 0xffffffff"

record a20_line =
  enable_global :: bool
  num_times_enabled :: u32
  controlport :: u8
  a20_enabled :: bool

record hma_state =
  hma_is_available :: bool
  dos_has_control :: bool
  app_has_control :: bool
  min_alloc_size :: u16

record xms_regs =
  reg_eax :: u32
  reg_ebx :: u32
  reg_ecx :: u32
  reg_edx :: u32
  reg_esi :: u32
  seg_ds :: u16
  seg_es :: u16

record xms_state =
  pages :: pool
  dosm :: dos_mem
  a20 :: a20_line
  hma :: hma_state
  umb_is_available :: bool
  callback :: u32
  xms_firstmb :: "u32 list"
  handles :: "XMS_Block list"
  regs :: xms_regs

datatype fault = Pool_fault pool_error | Dos_fault fatal | Reset_fault

type_synonym 'a run = "(fault + 'a) option"

definition bind_run :: "'a run \<Rightarrow> ('a \<Rightarrow> 'b run) \<Rightarrow> 'b run" where
  "bind_run r f = (case r of None \<Rightarrow> None | Some (Inl e) \<Rightarrow> Some (Inl e) | Some (Inr x) \<Rightarrow> f x)"

definition pool_run :: "(pool_error + 'a) option \<Rightarrow> 'a run" where
  "pool_run r = map_option (map_sum Pool_fault id) r"

definition dos_run :: "(fatal + 'a) option \<Rightarrow> 'a run" where
  "dos_run r = map_option (map_sum Dos_fault id) r"

section \<open>Registers\<close>

definition reg_ax :: "xms_regs \<Rightarrow> u16" where "reg_ax r = ucast (reg_eax r)"
definition reg_ah :: "xms_regs \<Rightarrow> u8" where "reg_ah r = ucast (drop_bit 8 (reg_eax r))"
definition reg_bx :: "xms_regs \<Rightarrow> u16" where "reg_bx r = ucast (reg_ebx r)"
definition reg_dx :: "xms_regs \<Rightarrow> u16" where "reg_dx r = ucast (reg_edx r)"
definition reg_si :: "xms_regs \<Rightarrow> u16" where "reg_si r = ucast (reg_esi r)"

definition low16 :: "u16 \<Rightarrow> u32 \<Rightarrow> u32" where
  "low16 v w = (w AND 0xffff0000) OR ucast v"

definition set_ax :: "u16 \<Rightarrow> xms_regs \<Rightarrow> xms_regs" where "set_ax v r = r\<lparr>reg_eax := low16 v (reg_eax r)\<rparr>"
definition set_al :: "u8 \<Rightarrow> xms_regs \<Rightarrow> xms_regs" where "set_al v r = r\<lparr>reg_eax := (reg_eax r AND 0xffffff00) OR ucast v\<rparr>"
definition set_bx :: "u16 \<Rightarrow> xms_regs \<Rightarrow> xms_regs" where "set_bx v r = r\<lparr>reg_ebx := low16 v (reg_ebx r)\<rparr>"
definition set_bl :: "u8 \<Rightarrow> xms_regs \<Rightarrow> xms_regs" where "set_bl v r = r\<lparr>reg_ebx := (reg_ebx r AND 0xffffff00) OR ucast v\<rparr>"
definition set_bh :: "u8 \<Rightarrow> xms_regs \<Rightarrow> xms_regs" where
  "set_bh v r = r\<lparr>reg_ebx := (reg_ebx r AND 0xffff00ff) OR push_bit 8 (ucast v)\<rparr>"
definition set_cx :: "u16 \<Rightarrow> xms_regs \<Rightarrow> xms_regs" where "set_cx v r = r\<lparr>reg_ecx := low16 v (reg_ecx r)\<rparr>"
definition set_dx :: "u16 \<Rightarrow> xms_regs \<Rightarrow> xms_regs" where "set_dx v r = r\<lparr>reg_edx := low16 v (reg_edx r)\<rparr>"

definition RealSegment :: "u32 \<Rightarrow> u16" where "RealSegment pt = ucast (drop_bit 16 pt)"
definition RealOffset :: "u32 \<Rightarrow> u16" where "RealOffset pt = ucast (pt AND 0xffff)"
definition RealToPhysical :: "u32 \<Rightarrow> u32" where
  "RealToPhysical pt = push_bit 4 (ucast (RealSegment pt)) + ucast (RealOffset pt)"
definition RealMake :: "u16 \<Rightarrow> u16 \<Rightarrow> u32" where
  "RealMake seg off = push_bit 16 (ucast seg) + ucast off"

definition mem_readw :: "(u32 \<Rightarrow> u8) \<Rightarrow> u32 \<Rightarrow> u16" where
  "mem_readw m a = ucast (m a) OR push_bit 8 (ucast (m (a + 1)))"
definition mem_readd :: "(u32 \<Rightarrow> u8) \<Rightarrow> u32 \<Rightarrow> u32" where
  "mem_readd m a = ucast (mem_readw m a) OR push_bit 16 (ucast (mem_readw m (a + 2)))"

section \<open>Sizes\<close>

definition get_num_pages :: "u32 \<Rightarrow> u32" where
  "get_num_pages kb = kb div 4 + (if truth (kb AND 3) then 1 else 0)"

definition get_mem_free_total_kb :: "xms_state \<Rightarrow> u32" where
  "get_mem_free_total_kb s = word_of_nat (MEM_FreeTotal (mhandles (pages s))) * 4"

definition get_mem_free_largest_kb :: "xms_state \<Rightarrow> u32" where
  "get_mem_free_largest_kb s = word_of_nat (MEM_FreeLargest (mhandles (pages s))) * 4"

definition get_mem_highest_address :: "xms_state \<Rightarrow> u32" where
  "get_mem_highest_address s = word_of_nat (MEM_TotalPages (mhandles (pages s))) * 4096 - 1"

definition clamp_to_uint16 :: "u32 \<Rightarrow> u32" where
  "clamp_to_uint16 v = min v 0xffff"

section \<open>Gate A20\<close>

definition MEM_A20_Enable :: "bool \<Rightarrow> a20_line \<Rightarrow> a20_line" where
  "MEM_A20_Enable enabled a = (if a20_enabled a = enabled then a else a\<lparr>a20_enabled := enabled\<rparr>)"

definition write_p92 :: "u8 \<Rightarrow> a20_line \<Rightarrow> a20_line run" where
  "write_p92 val a =
     (if truth (val AND 1) then Some (Inl Reset_fault)
      else Some (Inr (MEM_A20_Enable (val AND 2 > 0) (a\<lparr>controlport := val AND NOT 2\<rparr>))))"

definition read_p92 :: "a20_line \<Rightarrow> u8" where
  "read_p92 a = controlport a OR (if a20_enabled a then 0x02 else 0)"

definition a20_enable :: "bool \<Rightarrow> a20_line \<Rightarrow> a20_line run" where
  "a20_enable enable a =
     (let val = read_p92 a;
          val = (if enable then val OR 2 else val AND NOT 2)
      in write_p92 val a)"

definition a20_is_enabled :: "a20_line \<Rightarrow> bool" where
  "a20_is_enabled a \<longleftrightarrow> truth (read_p92 a AND 2)"

definition a20_local_enable :: "a20_line \<Rightarrow> (Result \<times> a20_line) run" where
  "a20_local_enable a =
     (if num_times_enabled a = A20MaxTimesEnabled then Some (Inr (A20LineError, a))
      else let old = num_times_enabled a;
               a = a\<lparr>num_times_enabled := old + 1\<rparr>
           in if old = 0 then bind_run (a20_enable True a) (\<lambda>a. Some (Inr (OK, a)))
              else Some (Inr (OK, a)))"

definition a20_local_disable :: "a20_line \<Rightarrow> (Result \<times> a20_line) run" where
  "a20_local_disable a =
     (if num_times_enabled a = 0 then Some (Inr (A20LineError, a))
      else let a = a\<lparr>num_times_enabled := num_times_enabled a - 1\<rparr>
           in if num_times_enabled a \<noteq> 0 then Some (Inr (A20StillEnabled, a))
              else bind_run (a20_enable False a) (\<lambda>a. Some (Inr (OK, a))))"

section \<open>Extended memory blocks\<close>

definition block :: "u16 \<Rightarrow> xms_state \<Rightarrow> XMS_Block" where
  "block handle s = handles s ! unat handle"

definition upd_block :: "u16 \<Rightarrow> (XMS_Block \<Rightarrow> XMS_Block) \<Rightarrow> xms_state \<Rightarrow> xms_state" where
  "upd_block handle f s = s\<lparr>handles := (handles s)[unat handle := f (handles s ! unat handle)]\<rparr>"

definition set_mhandles :: "MemHandle list \<Rightarrow> xms_state \<Rightarrow> xms_state" where
  "set_mhandles mh s = s\<lparr>pages := (pages s)\<lparr>mhandles := mh\<rparr>\<rparr>"

definition xms_is_handle_valid :: "u16 \<Rightarrow> xms_state \<Rightarrow> bool" where
  "xms_is_handle_valid handle s \<longleftrightarrow> handle \<noteq> 0 \<and> unat handle < NumXmsHandles \<and> \<not> is_free (block handle s)"

definition xms_query_free_memory :: "xms_state \<Rightarrow> Result \<times> u32 \<times> u32" where
  "xms_query_free_memory s =
     (let total_kb = get_mem_free_total_kb s;
          largest_kb = get_mem_free_largest_kb s
      in (if total_kb \<noteq> 0 then OK else XmsOutOfSpace, largest_kb, total_kb))"

function find_handle :: "XMS_Block list \<Rightarrow> nat \<Rightarrow> nat option" where
  "find_handle hs index =
     (if \<not> is_free (hs ! index)
      then if index + 1 \<ge> NumXmsHandles then None else find_handle hs (index + 1)
      else Some index)"
  by pat_completeness auto
termination by (relation "measure (\<lambda>(hs, i). NumXmsHandles - i)") auto

text \<open>The result and, on success, the handle.\<close>

definition xms_allocate_memory :: "u32 \<Rightarrow> xms_state \<Rightarrow> (Result \<times> u16 option \<times> xms_state) run" where
  "xms_allocate_memory kb s =
     (case find_handle (handles s) 1 of
        None \<Rightarrow> Some (Inr (XmsOutOfHandles, None, s))
      | Some index \<Rightarrow>
          bind_run
            (if kb \<noteq> 0 then pool_run (MEM_AllocatePages (unat (get_num_pages kb)) True (mhandles (pages s)))
             else Some (Inr (MEM_GetNextFreePage (mhandles (pages s)), mhandles (pages s))))
            (\<lambda>(h, mh).
               if kb \<noteq> 0 \<and> h = 0 then Some (Inr (XmsOutOfSpace, None, set_mhandles mh s))
               else let s = set_mhandles mh s;
                        handle = word_of_nat index;
                        s = upd_block handle (\<lambda>b. b\<lparr>is_free := False, mem_handle := h, lock_count := 0, size_kb := kb\<rparr>) s
                    in Some (Inr (OK, Some handle, s))))"

definition xms_free_memory :: "u16 \<Rightarrow> xms_state \<Rightarrow> (Result \<times> xms_state) run" where
  "xms_free_memory handle s =
     (if \<not> xms_is_handle_valid handle s then Some (Inr (XmsInvalidHandle, s))
      else if lock_count (block handle s) \<noteq> 0 then Some (Inr (XmsBlockLocked, s))
      else case MEM_ReleasePages (mem_handle (block handle s)) (mhandles (pages s)) of
          None \<Rightarrow> None
        | Some mh \<Rightarrow> Some (Inr (OK, upd_block handle (\<lambda>_. XMS_Block0) (set_mhandles mh s))))"

text \<open>The physical address behind a linear one, the bytes the guest sees, and \<open>mem_memcpy\<close> on linear addresses.\<close>

definition lin_address :: "bool \<Rightarrow> u32 list \<Rightarrow> u32 \<Rightarrow> u32" where
  "lin_address enabled f a =
     (let page = unat (drop_bit 12 a)
      in if page < 0x100 then f ! page * 4096 + (a AND 4095)
         else if page < 0x110 \<and> \<not> enabled then a - 0x100000
         else a)"

definition visible :: "xms_state \<Rightarrow> u32 \<Rightarrow> u8" where
  "visible s a = ram (pages s) (lin_address (a20_enabled (a20 s)) (xms_firstmb s) a)"

primrec linear_memcpy :: "(u32 \<Rightarrow> u32) \<Rightarrow> u32 \<Rightarrow> u32 \<Rightarrow> nat \<Rightarrow> (u32 \<Rightarrow> u8) \<Rightarrow> u32 \<Rightarrow> u8" where
  "linear_memcpy tr dest src 0 m = m"
| "linear_memcpy tr dest src (Suc sz) m = linear_memcpy tr (dest + 1) (src + 1) sz (m(tr dest := m (tr src)))"

text \<open>One end of a move: the physical address, or the error.\<close>

definition move_end :: "Result \<Rightarrow> Result \<Rightarrow> u16 \<Rightarrow> u32 \<Rightarrow> u32 \<Rightarrow> xms_state \<Rightarrow> Result + u32" where
  "move_end bad_handle bad_offset handle offset len s =
     (if handle \<noteq> 0
      then if \<not> xms_is_handle_valid handle s then Inl bad_handle
           else if offset \<ge> size_kb (block handle s) * 1024 then Inl bad_offset
           else if len > size_kb (block handle s) * 1024 - offset then Inl XmsInvalidLength
           else Inr (word_of_int (mem_handle (block handle s)) * 4096 + offset)
      else let pt = RealToPhysical offset
           in if pt + len > 0x10FFF0 then Inl XmsInvalidLength else Inr pt)"

definition xms_move_memory :: "u32 \<Rightarrow> xms_state \<Rightarrow> (Result \<times> xms_state) run" where
  "xms_move_memory bpt s =
     (let m = visible s;
          len = mem_readd m bpt
      in if len mod 2 \<noteq> 0 then Some (Inr (XmsParityError, s))
         else let src_handle = mem_readw m (bpt + 4);
                  src_offset = mem_readd m (bpt + 6);
                  dest_handle = mem_readw m (bpt + 10);
                  dest_offset = mem_readd m (bpt + 12)
              in case move_end XmsInvalidSrcHandle XmsInvalidSrcOffset src_handle src_offset len s of
                  Inl e \<Rightarrow> Some (Inr (e, s))
                | Inr srcpt \<Rightarrow>
                   (case move_end XmsInvalidDestHandle XmsInvalidDestOffset dest_handle dest_offset len s of
                      Inl e \<Rightarrow> Some (Inr (e, s))
                    | Inr destpt \<Rightarrow>
                        if len \<noteq> 0
                        then let a20_was_enabled = a20_is_enabled (a20 s);
                                 a = (a20 s)\<lparr>num_times_enabled := num_times_enabled (a20 s) + 1\<rparr>
                             in bind_run (a20_enable True a) (\<lambda>a.
                                  let p = (pages s)\<lparr>ram := linear_memcpy (lin_address (a20_enabled a) (xms_firstmb s)) destpt srcpt (unat len) (ram (pages s))\<rparr>;
                                      a = a\<lparr>num_times_enabled := num_times_enabled a - 1\<rparr>
                                  in bind_run (if \<not> a20_was_enabled then a20_enable False a else Some (Inr a)) (\<lambda>a.
                                       Some (Inr (OK, s\<lparr>pages := p, a20 := a\<rparr>))))
                        else Some (Inr (OK, s))))"

definition xms_lock_memory :: "u16 \<Rightarrow> xms_state \<Rightarrow> Result \<times> u32 \<times> xms_state" where
  "xms_lock_memory handle s =
     (if \<not> xms_is_handle_valid handle s then (XmsInvalidHandle, 0, s)
      else if lock_count (block handle s) \<ge> 0xff then (XmsLockCountOverflow, 0, s)
      else (OK, word_of_int (mem_handle (block handle s) * 4096), upd_block handle (\<lambda>b. b\<lparr>lock_count := lock_count b + 1\<rparr>) s))"

definition xms_unlock_memory :: "u16 \<Rightarrow> xms_state \<Rightarrow> Result \<times> xms_state" where
  "xms_unlock_memory handle s =
     (if \<not> xms_is_handle_valid handle s then (XmsInvalidHandle, s)
      else if lock_count (block handle s) \<noteq> 0 then (OK, upd_block handle (\<lambda>b. b\<lparr>lock_count := lock_count b - 1\<rparr>) s)
      else (XmsBlockNotLocked, s))"

text \<open>The lock count, the number of free handles and the size.\<close>

definition xms_get_handle_information :: "u16 \<Rightarrow> xms_state \<Rightarrow> Result + u8 \<times> u8 \<times> u32" where
  "xms_get_handle_information handle s =
     (if \<not> xms_is_handle_valid handle s then Inl XmsInvalidHandle
      else Inr (lock_count (block handle s),
                fold (\<lambda>i n. if is_free (handles s ! i) then n + 1 else n) [1 ..< NumXmsHandles] 0,
                size_kb (block handle s)))"

definition xms_resize_memory :: "u16 \<Rightarrow> u32 \<Rightarrow> xms_state \<Rightarrow> (Result \<times> xms_state) run" where
  "xms_resize_memory handle new_size_kb s =
     (if \<not> xms_is_handle_valid handle s then Some (Inr (XmsInvalidHandle, s))
      else if lock_count (block handle s) > 0 then Some (Inr (XmsBlockLocked, s))
      else bind_run (pool_run (MEM_ReAllocatePages (mem_handle (block handle s)) (unat (get_num_pages new_size_kb)) True (pages s)))
        (\<lambda>(ok, h, p).
           let s = upd_block handle (\<lambda>b. b\<lparr>mem_handle := h\<rparr>) (s\<lparr>pages := p\<rparr>)
           in if ok then Some (Inr (OK, upd_block handle (\<lambda>b. b\<lparr>size_kb := new_size_kb\<rparr>) s))
              else Some (Inr (XmsOutOfSpace, s))))"

section \<open>The multiplex interrupt\<close>

definition xms_multiplex :: "xms_state \<Rightarrow> bool \<times> xms_state" where
  "xms_multiplex s =
     (if reg_ax (regs s) = 0x4300 then (True, s\<lparr>regs := set_al 0x80 (regs s)\<rparr>)
      else if reg_ax (regs s) = 0x4310
      then (True, s\<lparr>regs := set_bx (RealOffset (callback s)) ((regs s)\<lparr>seg_es := RealSegment (callback s)\<rparr>)\<rparr>)
      else (False, s))"

section \<open>The programming interface\<close>

definition set_return_value :: "Result \<Rightarrow> xms_regs \<Rightarrow> xms_regs" where
  "set_return_value res r = set_ax (if res = OK then 1 else 0) (set_bl (code_of res) r)"

definition set_return_value_bl_only_fail :: "Result \<Rightarrow> xms_regs \<Rightarrow> xms_regs" where
  "set_return_value_bl_only_fail res r = set_ax (if res = OK then 1 else 0) (if res \<noteq> OK then set_bl (code_of res) r else r)"

definition upd_regs :: "(xms_regs \<Rightarrow> xms_regs) \<Rightarrow> xms_state \<Rightarrow> xms_state" where
  "upd_regs f s = s\<lparr>regs := f (regs s)\<rparr>"

text \<open>The functions on the high memory area, 0x01 and 0x02.\<close>

definition hma_request :: "xms_state \<Rightarrow> xms_state" where
  "hma_request s =
     (if \<not> hma_is_available (hma s) then upd_regs (set_return_value HMA_NOT_EXIST) s
      else if app_has_control (hma s) \<or> dos_has_control (hma s) then upd_regs (set_return_value HmaInUse) s
      else if reg_dx (regs s) < min_alloc_size (hma s) then upd_regs (set_return_value HmaNotBigEnough) s
      else (upd_regs (set_ax 1) s)\<lparr>hma := (hma s)\<lparr>app_has_control := True\<rparr>\<rparr>)"

definition hma_release :: "xms_state \<Rightarrow> xms_state" where
  "hma_release s =
     (if \<not> hma_is_available (hma s) then upd_regs (set_return_value HMA_NOT_EXIST) s
      else if app_has_control (hma s) then (upd_regs (set_ax 1) s)\<lparr>hma := (hma s)\<lparr>app_has_control := False\<rparr>\<rparr>
      else upd_regs (set_return_value HmaNotAllocated) s)"

text \<open>The functions on the A20 line, 0x03 to 0x07.\<close>

definition a20_global_enable :: "xms_state \<Rightarrow> xms_state run" where
  "a20_global_enable s =
     (if \<not> enable_global (a20 s)
      then bind_run (a20_local_enable (a20 s)) (\<lambda>(res, a).
        Some (Inr (upd_regs (set_return_value res) (s\<lparr>a20 := (if res = OK then a\<lparr>enable_global := True\<rparr> else a)\<rparr>))))
      else Some (Inr (upd_regs (set_return_value OK) s)))"

definition a20_global_disable :: "xms_state \<Rightarrow> xms_state run" where
  "a20_global_disable s =
     (if enable_global (a20 s)
      then bind_run (a20_local_disable (a20 s)) (\<lambda>(res, a).
        Some (Inr (upd_regs (set_return_value res) (s\<lparr>a20 := (if res = OK then a\<lparr>enable_global := False\<rparr> else a)\<rparr>))))
      else Some (Inr (upd_regs (set_return_value OK) s)))"

definition a20_local :: "(a20_line \<Rightarrow> (Result \<times> a20_line) run) \<Rightarrow> xms_state \<Rightarrow> xms_state run" where
  "a20_local f s = bind_run (f (a20 s)) (\<lambda>(res, a). Some (Inr (upd_regs (set_return_value res) (s\<lparr>a20 := a\<rparr>))))"

text \<open>The functions on upper memory, 0x10 and 0x11.\<close>

definition link_if :: "bool \<Rightarrow> u16 \<Rightarrow> dos_mem \<Rightarrow> dos_mem run" where
  "link_if c state d = (if c then map_option (Inr \<circ> snd) (DOS_LinkUMBsToMemChain state d) else Some (Inr d))"

definition umb_request :: "xms_state \<Rightarrow> xms_state run" where
  "umb_request s =
     (if \<not> umb_is_available s then Some (Inr (upd_regs (set_return_value NotImplemented) s))
      else if umb_chain_start (dosm s) = 0xffff
      then Some (Inr (upd_regs (set_dx 0) (upd_regs (set_return_value UmbNoBlocksAvailable) s)))
      else let umb_flag = umb_chain_state (dosm s)
           in bind_run (link_if (umb_flag AND 1 = 0) 1 (dosm s)) (\<lambda>d.
                let old_memstrat = DOS_GetMemAllocStrategy d AND 0xff;
                    d = snd (DOS_SetMemAllocStrategy 0x40 d)
                in bind_run (dos_run (DOS_AllocateMemory (reg_dx (regs s)) d)) (\<lambda>(res, d).
                     let s = (case res of
                           Allocated seg \<Rightarrow> upd_regs (set_bx seg \<circ> set_ax 1) s
                         | Insufficient sz \<Rightarrow>
                             upd_regs (set_dx sz \<circ> set_return_value (if sz = 0 then UmbNoBlocksAvailable else UmbOnlySmallerBlock)) s)
                     in bind_run (link_if (umb_chain_state d AND 1 \<noteq> umb_flag AND 1) (ucast umb_flag) d) (\<lambda>d.
                          Some (Inr (s\<lparr>dosm := snd (DOS_SetMemAllocStrategy old_memstrat d)\<rparr>))))))"

definition umb_release :: "xms_state \<Rightarrow> xms_state" where
  "umb_release s =
     (if \<not> umb_is_available s then upd_regs (set_return_value NotImplemented) s
      else if umb_chain_start (dosm s) \<noteq> 0xffff
      then case DOS_FreeMemory (reg_dx (regs s)) (dosm s) of
          (ok, d) \<Rightarrow> if ok then upd_regs (set_ax 1) (s\<lparr>dosm := d\<rparr>)
                    else upd_regs (set_return_value UmbNoBlocksAvailable) (s\<lparr>dosm := d\<rparr>)
      else upd_regs (set_return_value UmbNoBlocksAvailable) s)"

definition allocate_call :: "u32 \<Rightarrow> xms_state \<Rightarrow> xms_state run" where
  "allocate_call kb s = bind_run (xms_allocate_memory kb s) (\<lambda>(res, h, s).
     Some (Inr (upd_regs (set_dx (case h of None \<Rightarrow> 0 | Some h \<Rightarrow> h) \<circ> set_return_value res) s)))"

definition lift_call :: "(Result \<times> xms_state) run \<Rightarrow> xms_state run" where
  "lift_call r = bind_run r (\<lambda>(res, s). Some (Inr (upd_regs (set_return_value res) s)))"

definition lock_call :: "xms_state \<Rightarrow> xms_state" where
  "lock_call s =
     (let (res, address, s) = xms_lock_memory (reg_dx (regs s)) s;
          s = upd_regs (set_return_value res) s
      in if res = OK then upd_regs (set_dx (RealSegment address) \<circ> set_bx (RealOffset address)) s else s)"

definition handle_information_call :: "xms_state \<Rightarrow> xms_state" where
  "handle_information_call s =
     (let s = (case xms_get_handle_information (reg_dx (regs s)) s of
            Inl e \<Rightarrow> upd_regs (set_return_value_bl_only_fail e) s
          | Inr (locks, free, kb) \<Rightarrow>
              upd_regs (set_return_value_bl_only_fail OK \<circ> (\<lambda>r. r\<lparr>reg_edx := kb\<rparr>) \<circ> set_bl free \<circ> set_bh locks) s)
      in upd_regs (\<lambda>r. r\<lparr>reg_edx := reg_edx r AND 0xffff\<rparr>) s)"

definition extended_information_call :: "xms_state \<Rightarrow> xms_state" where
  "extended_information_call s =
     (case xms_get_handle_information (reg_dx (regs s)) s of
        Inl e \<Rightarrow> upd_regs (set_return_value_bl_only_fail e) s
      | Inr (locks, free, kb) \<Rightarrow>
          upd_regs (set_cx (ucast free) \<circ> set_return_value_bl_only_fail OK \<circ> (\<lambda>r. r\<lparr>reg_edx := kb\<rparr>) \<circ> set_bh locks) s)"

definition XMS_Handler :: "xms_state \<Rightarrow> xms_state run" where
  "XMS_Handler s =
     (let r = regs s; ah = reg_ah r
      in if ah = 0x00 then Some (Inr (upd_regs
             (set_dx (if hma_is_available (hma s) then 1 else 0) \<circ> set_bx XmsDriverVersion \<circ> set_ax XmsVersion) s))
         else if ah = 0x01 then Some (Inr (hma_request s))
         else if ah = 0x02 then Some (Inr (hma_release s))
         else if ah = 0x03 then a20_global_enable s
         else if ah = 0x04 then a20_global_disable s
         else if ah = 0x05 then a20_local a20_local_enable s
         else if ah = 0x06 then a20_local a20_local_disable s
         else if ah = 0x07 then Some (Inr (upd_regs (set_bl 0 \<circ> set_ax (if a20_is_enabled (a20 s) then 1 else 0)) s))
         else if ah = 0x08 then
           (case xms_query_free_memory s of (res, largest_kb, total_kb) \<Rightarrow>
              Some (Inr (upd_regs (\<lambda>r. (set_bl (code_of res) r)\<lparr>reg_eax := clamp_to_uint16 largest_kb, reg_edx := clamp_to_uint16 total_kb\<rparr>) s)))
         else if ah = 0x09 then allocate_call (ucast (reg_dx r)) s
         else if ah = 0x0a then lift_call (xms_free_memory (reg_dx r) s)
         else if ah = 0x0b then
           bind_run (xms_move_memory (push_bit 4 (ucast (seg_ds r)) + ucast (reg_si r)) s) (\<lambda>(res, s).
             Some (Inr (upd_regs (set_return_value_bl_only_fail res) s)))
         else if ah = 0x0c then Some (Inr (lock_call s))
         else if ah = 0x0d then lift_call (Some (Inr (xms_unlock_memory (reg_dx r) s)))
         else if ah = 0x0e then Some (Inr (handle_information_call s))
         else if ah = 0x0f then lift_call (xms_resize_memory (reg_dx r) (ucast (reg_bx r)) s)
         else if ah = 0x10 then umb_request s
         else if ah = 0x11 then Some (Inr (umb_release s))
         else if ah = 0x12 then Some (Inr (upd_regs (set_return_value NotImplemented) s))
         else if ah = 0x88 then
           (case xms_query_free_memory s of (res, largest_kb, total_kb) \<Rightarrow>
              Some (Inr (upd_regs (\<lambda>r. (set_bl (code_of res) r)\<lparr>reg_eax := largest_kb, reg_edx := total_kb, reg_ecx := get_mem_highest_address s\<rparr>) s)))
         else if ah = 0x89 then allocate_call (reg_edx r) s
         else if ah = 0x8e then Some (Inr (extended_information_call s))
         else if ah = 0x8f then lift_call (xms_resize_memory (reg_dx r) (reg_ebx r) s)
         else Some (Inr (upd_regs (set_return_value NotImplemented) s)))"

section \<open>Start and end\<close>

text \<open>The constructor after its checks, with the configuration as arguments, and the destructor.\<close>

definition XMS_start :: "bool \<Rightarrow> bool \<Rightarrow> bool \<Rightarrow> u32 \<Rightarrow> xms_state \<Rightarrow> xms_state option" where
  "XMS_start umb_wanted ems_available pcjr_or_tandy cb s =
     (let s = s\<lparr>umb_is_available := False, a20 := (a20 s)\<lparr>enable_global := False, num_times_enabled := 0\<rparr>\<rparr>;
          s = s\<lparr>callback := cb\<rparr>;
          s = s\<lparr>handles := (replicate NumXmsHandles XMS_Block0)[0 := XMS_Block0\<lparr>is_free := False\<rparr>]\<rparr>;
          s = s\<lparr>umb_is_available := umb_wanted\<rparr>
      in map_option (\<lambda>d. s\<lparr>dosm := d\<rparr>) (DOS_BuildUMBChain umb_wanted ems_available pcjr_or_tandy (dosm s)))"

primrec free_all :: "nat list \<Rightarrow> xms_state \<Rightarrow> xms_state run" where
  "free_all [] s = Some (Inr s)"
| "free_all (i # is) s =
     (let s = upd_block (word_of_nat i) (\<lambda>b. b\<lparr>lock_count := 0\<rparr>) s
      in bind_run (if \<not> is_free (handles s ! i) then xms_free_memory (word_of_nat i) s else Some (Inr (OK, s)))
           (\<lambda>(_, s). free_all is s))"

definition XMS_end :: "xms_state \<Rightarrow> xms_state run" where
  "XMS_end s =
     (let s = s\<lparr>dosm := (dosm s)\<lparr>umb_chain_start := 0xffff\<rparr>\<rparr>;
          s = (if umb_is_available s then s\<lparr>dosm := (dosm s)\<lparr>umb_chain_state := 0\<rparr>, umb_is_available := False\<rparr> else s)
      in free_all [1 ..< NumXmsHandles] s)"

end
