(* ===== verification/Pool_Store.thy ===== *)
theory Pool_Store
  imports Pool_Correct "HOL-Library.Multiset"
begin

text \<open>
  The contract of a page allocator as its clients use it, and what follows for a table of blocks kept by a
  client; the allocator of \<open>memory.cpp\<close> with contiguous pages meets the contract.
\<close>

section \<open>Tables of blocks\<close>

text \<open>A block is its first page and its number of pages.\<close>

definition block_pages :: "nat \<times> nat \<Rightarrow> nat list" where
  "block_pages b = [fst b ..< fst b + snd b]"

definition table_blocks :: "(nat \<times> nat) option list \<Rightarrow> nat list list" where
  "table_blocks ts = concat (map (\<lambda>t. case t of None \<Rightarrow> [] | Some b \<Rightarrow> [block_pages b]) ts)"

lemma table_blocks_update:
  "i < length ts \<Longrightarrow>
    mset (table_blocks (ts[i := t])) + mset (table_blocks [ts ! i]) = mset (table_blocks ts) + mset (table_blocks [t])"
proof (induction ts arbitrary: i)
  case (Cons x ts)
  then show ?case by (cases i) (auto simp: table_blocks_def add.left_commute add.commute add.assoc)
qed simp

lemma table_insert:
  "i < length ts \<Longrightarrow> ts ! i = None \<Longrightarrow> mset (table_blocks (ts[i := Some b])) = mset (block_pages b # table_blocks ts)"
  using table_blocks_update [of i ts "Some b"] by (simp add: table_blocks_def)

lemma table_remove:
  "i < length ts \<Longrightarrow> ts ! i = Some b \<Longrightarrow> mset (block_pages b # table_blocks (ts[i := None])) = mset (table_blocks ts)"
  using table_blocks_update [of i ts None] by (simp add: table_blocks_def)

lemma table_replace:
  assumes "i < length ts" "ts ! i = Some b"
  shows "mset (table_blocks (ts[i := Some c])) = mset (block_pages c # table_blocks (ts[i := None]))"
  using table_insert [of i "ts[i := None]" c] assms by simp

section \<open>The contract\<close>

locale page_allocator =
  fixes ok :: "'m \<Rightarrow> nat list list \<Rightarrow> bool"
    and alloc :: "nat \<Rightarrow> 'm \<Rightarrow> (int \<times> 'm) option"
    and release :: "int \<Rightarrow> 'm \<Rightarrow> 'm option"
    and resize :: "int \<Rightarrow> nat \<Rightarrow> 'm \<Rightarrow> (bool \<times> int \<times> 'm) option"
  assumes perm: "ok m cs \<Longrightarrow> mset cs' = mset cs \<Longrightarrow> ok m cs'"
    and separate: "ok m (c # d # cs) \<Longrightarrow> set c \<inter> set d = {}"
    and alloc_law: "ok m cs \<Longrightarrow> 0 < n \<Longrightarrow> \<exists>h m'. alloc n m = Some (h, m') \<and>
      (if h = 0 then m' = m else \<exists>a. 0 < a \<and> h = int a \<and> ok m' (block_pages (a, n) # cs))"
    and release_law: "ok m (block_pages (a, n) # cs) \<Longrightarrow> 0 < n \<Longrightarrow> \<exists>m'. release (int a) m = Some m' \<and> ok m' cs"
    and resize_law: "ok m (block_pages (a, k) # cs) \<Longrightarrow> 0 < k \<Longrightarrow> 0 < n \<Longrightarrow> \<exists>b h m'. resize (int a) n m = Some (b, h, m') \<and>
      (if b then \<exists>a'. 0 < a' \<and> h = int a' \<and> ok m' (block_pages (a', n) # cs) else h = int a \<and> m' = m)"
begin

lemma table_alloc:
  assumes "ok m (table_blocks ts @ cs)" "i < length ts" "ts ! i = None" "0 < n"
  shows "\<exists>h m'. alloc n m = Some (h, m') \<and>
    (if h = 0 then m' = m else \<exists>a. 0 < a \<and> h = int a \<and> ok m' (table_blocks (ts[i := Some (a, n)]) @ cs))"
proof -
  from alloc_law [OF assms(1,4)] obtain h m' where h: "alloc n m = Some (h, m')"
    "if h = 0 then m' = m else \<exists>a. 0 < a \<and> h = int a \<and> ok m' (block_pages (a, n) # table_blocks ts @ cs)" by blast
  have "ok m' (table_blocks (ts[i := Some (a, n)]) @ cs)" if "ok m' (block_pages (a, n) # table_blocks ts @ cs)" for a
    using perm [OF that] table_insert [OF assms(2,3), of "(a, n)"] by simp
  then show ?thesis using h by (auto split: if_splits)
qed

lemma table_hold:
  assumes "ok m (table_blocks ts @ cs)" "i < length ts" "ts ! i = Some b"
  shows "ok m (block_pages b # table_blocks (ts[i := None]) @ cs)"
  using perm [OF assms(1)] table_remove [OF assms(2,3)] by simp

lemma table_release:
  assumes "ok m (table_blocks ts @ cs)" "i < length ts" "ts ! i = Some (a, n)" "0 < n"
  shows "\<exists>m'. release (int a) m = Some m' \<and> ok m' (table_blocks (ts[i := None]) @ cs)"
  by (rule release_law [OF table_hold [OF assms(1-3)] assms(4)])

lemma table_resize:
  assumes "ok m (table_blocks ts @ cs)" "i < length ts" "ts ! i = Some (a, k)" "0 < k" "0 < n"
  shows "\<exists>b h m'. resize (int a) n m = Some (b, h, m') \<and>
    (if b then \<exists>a'. 0 < a' \<and> h = int a' \<and> ok m' (table_blocks (ts[i := Some (a', n)]) @ cs) else h = int a \<and> m' = m)"
proof -
  have "ok m' (table_blocks (ts[i := Some (a', n)]) @ cs)" if "ok m' (block_pages (a', n) # table_blocks (ts[i := None]) @ cs)" for a' m'
    using perm [OF that] table_replace [OF assms(2,3), of "(a', n)"] by simp
  then show ?thesis using resize_law [OF table_hold [OF assms(1-3)] assms(4,5)] by (auto split: if_splits)
qed

lemma table_separate:
  assumes "ok m (table_blocks ts @ cs)" "i < length ts" "j < length ts" "i \<noteq> j" "ts ! i = Some b" "ts ! j = Some c"
  shows "set (block_pages b) \<inter> set (block_pages c) = {}"
proof -
  have "mset (table_blocks (ts[i := None])) = mset (block_pages c # table_blocks (ts[i := None, j := None]))"
    using table_remove [of j "ts[i := None]" c] assms(3,4,6) by simp
  then have "ok m (block_pages b # block_pages c # table_blocks (ts[i := None, j := None]) @ cs)"
    using perm [OF table_hold [OF assms(1,2,5)]] by simp
  then show ?thesis by (rule separate)
qed

end

section \<open>The page pool\<close>

definition pool_alloc :: "nat \<Rightarrow> pool \<Rightarrow> (int \<times> pool) option" where
  "pool_alloc n p = (case MEM_AllocatePages n True (mhandles p) of
     Some (Inr (h, mh)) \<Rightarrow> Some (h, p\<lparr>mhandles := mh\<rparr>) | _ \<Rightarrow> None)"

definition pool_release :: "int \<Rightarrow> pool \<Rightarrow> pool option" where
  "pool_release h p = map_option (\<lambda>mh. p\<lparr>mhandles := mh\<rparr>) (MEM_ReleasePages h (mhandles p))"

definition pool_resize :: "int \<Rightarrow> nat \<Rightarrow> pool \<Rightarrow> (bool \<times> int \<times> pool) option" where
  "pool_resize h n p = (case MEM_ReAllocatePages h n True p of Some (Inr r) \<Rightarrow> Some r | _ \<Rightarrow> None)"

lemma pool_ok_mset:
  assumes "pool_ok mh cs" "mset cs' = mset cs"
  shows "pool_ok mh cs'"
proof -
  have "set cs' = set cs" using assms(2) by (rule mset_eq_setD)
  moreover have "mset (concat xs) = sum_mset (image_mset mset (mset xs))" for xs :: "nat list list"
    by (simp add: mset_concat flip: sum_mset_sum_list)
  then have "mset (concat cs') = mset (concat cs)" using assms(2) by simp
  then have "distinct (concat cs') \<longleftrightarrow> distinct (concat cs)" by (rule mset_eq_imp_distinct_iff)
  ultimately show ?thesis using assms(1) by (simp add: pool_ok_def)
qed

interpretation pool: page_allocator "\<lambda>p. pool_ok (mhandles p)" pool_alloc pool_release pool_resize
proof
  fix m :: pool and cs cs' :: "nat list list"
  assume "pool_ok (mhandles m) cs" "mset cs' = mset cs"
  then show "pool_ok (mhandles m) cs'" by (rule pool_ok_mset)
next
  fix m :: pool and c d cs
  assume "pool_ok (mhandles m) (c # d # cs)"
  then show "set c \<inter> set d = {}" by (rule pool_ok_disjoint)
next
  fix m :: pool and cs and n :: nat
  assume ok: "pool_ok (mhandles m) cs" and n: "0 < n"
  from allocate_sequence [OF ok n]
  show "\<exists>h m'. pool_alloc n m = Some (h, m') \<and> (if h = 0 then m' = m else \<exists>a. 0 < a \<and> h = int a \<and> pool_ok (mhandles m') (block_pages (a, n) # cs))"
  proof (elim disjE exE conjE)
    fix a k mh'
    assume a: "MEM_AllocatePages n True (mhandles m) = Some (Inr (int a, mh'))" "pool_ok mh' ([a ..< a + n] # cs)"
    then have "0 < a" using block_bounds(3) n by blast
    then show ?thesis using a by (simp add: pool_alloc_def block_pages_def)
  qed (simp add: pool_alloc_def)
next
  fix m :: pool and a n cs
  assume "pool_ok (mhandles m) (block_pages (a, n) # cs)" "0 < (n :: nat)"
  then show "\<exists>m'. pool_release (int a) m = Some m' \<and> pool_ok (mhandles m') cs"
    using pool_ok_release [of "mhandles m" "[a ..< a + n]" cs] by (simp add: pool_release_def block_pages_def)
next
  fix m :: pool and a k n :: nat and cs
  assume ok: "pool_ok (mhandles m) (block_pages (a, k) # cs)" and k: "0 < k" "0 < n"
  from reallocate_sequence [OF ok [unfolded block_pages_def fst_conv snd_conv] k] obtain b h q where
    q: "MEM_ReAllocatePages (int a) n True m = Some (Inr (b, h, q))"
      "if b then \<exists>a'. h = int a' \<and> pool_ok (mhandles q) ([a' ..< a' + n] # cs) else h = int a \<and> q = m" by (auto split: if_splits)
  then show "\<exists>b h m'. pool_resize (int a) n m = Some (b, h, m') \<and>
      (if b then \<exists>a'. 0 < a' \<and> h = int a' \<and> pool_ok (mhandles m') (block_pages (a', n) # cs) else h = int a \<and> m' = m)"
    using block_bounds(3) [OF _ k(2)] by (auto simp: pool_resize_def block_pages_def split: if_splits)
qed

end
