(* ===== verification/Xms_Table.thy ===== *)
theory Xms_Table
  imports Xms Pool_Store
begin

text \<open>
  The table of extended memory handles over the page pool: the invariant \<open>xms_ok\<close>
  that the handles in use hold disjoint blocks, and that allocating, freeing and resizing blocks
  keep it, through the contract of the page allocator.
\<close>

unbundle bit_operations_syntax

section \<open>Runs\<close>

lemma bind_run_simps [simp]: "bind_run (Some (Inr x)) f = f x" "bind_run None f = None" "bind_run (Some (Inl e)) f = Some (Inl e)"
  by (simp_all add: bind_run_def)

lemma pool_run_simps [simp]: "pool_run (Some (Inr x)) = Some (Inr x)" "pool_run None = None"
  by (simp_all add: pool_run_def)

section \<open>Gate A20\<close>

lemma bit_two: "bit (2 :: int) n \<longleftrightarrow> n = 1" "bit (-3 :: int) n \<longleftrightarrow> n \<noteq> 1"
  using bit_exp_iff [where ?'a = int, of 1 n] bit_not_iff [of "2 :: int" n] by auto

lemma and_two: "truth (w AND 2) \<longleftrightarrow> bit w 1" "w AND 2 > 0 \<longleftrightarrow> bit w 1" "truth (w AND 1) \<longleftrightarrow> bit w 0" for w :: u8
  using and_power_two_truth [of w 1] and_power_two_truth [of w 0] by (simp_all add: truth_def word_gt_0)

text \<open>The port keeps its two lowest bits clear: bit 0 would reset the machine, and bit 1 is the line.\<close>

definition port_ok :: "a20_line \<Rightarrow> bool" where
  "port_ok a \<longleftrightarrow> \<not> bit (controlport a) 0 \<and> \<not> bit (controlport a) 1"

lemma a20_is_enabled_iff: "port_ok a \<Longrightarrow> a20_is_enabled a \<longleftrightarrow> a20_enabled a"
  by (auto simp: a20_is_enabled_def and_two read_p92_def bit_or_iff bit_two port_ok_def)

lemma a20_enable_spec:
  assumes "port_ok a"
  shows "a20_enable e a = Some (Inr (a\<lparr>a20_enabled := e\<rparr>))"
proof -
  define v where "v = (if e then read_p92 a OR 2 else read_p92 a AND NOT 2)"
  have v: "bit v n \<longleftrightarrow> (if n = 1 then e else bit (controlport a) n)" if "n < 8" for n
    using that assms by (auto simp: v_def read_p92_def bit_or_iff bit_and_iff bit_two port_ok_def)
  have "v AND NOT 2 = controlport a"
    using v assms by (intro bit_word_eqI) (auto simp: bit_and_iff bit_two port_ok_def)
  moreover have "a20_enable e a = write_p92 v a" by (simp add: a20_enable_def v_def Let_def)
  moreover have "\<not> bit v 0" "bit v 1 \<longleftrightarrow> e" using v [of 0] v [of 1] assms by (simp_all add: port_ok_def)
  ultimately show ?thesis by (cases a) (auto simp: write_p92_def and_two MEM_A20_Enable_def)
qed

section \<open>Pages of a block\<close>

lemma get_num_pages_unat: "unat (get_num_pages kb) = (unat kb + 3) div 4"
proof -
  have b: "unat kb < 2 ^ 32" using unsigned_less [where ?'a = nat and w = kb] by simp
  have "unat (kb AND 3) = unat kb AND 3" by (simp add: unsigned_and_eq)
  moreover have "n AND 3 = n mod 4" for n :: nat using take_bit_eq_mask [of 2 n] by (simp add: take_bit_eq_mod mask_eq_exp_minus_1)
  ultimately have m: "unat (kb AND 3) = unat kb mod 4" by simp
  have t: "truth (kb AND 3) \<longleftrightarrow> unat kb mod 4 \<noteq> 0" by (simp add: truth_def word_unat_eq_iff m)
  have d: "unat (kb div 4) = unat kb div 4" by (simp add: unat_div)
  have "unat (kb div 4 + 1) = unat kb div 4 + 1" using b d by (simp add: unat_word_ariths(1))
  then show ?thesis using d t by (simp add: get_num_pages_def) presburger
qed

lemma get_num_pages_pos: "kb \<noteq> 0 \<Longrightarrow> 0 < unat (get_num_pages kb)"
  using unat_eq_zero [of kb] by (auto simp: get_num_pages_unat)


section \<open>The table of handles\<close>

definition entry :: "XMS_Block \<Rightarrow> (nat \<times> nat) option" where
  "entry b = (if is_free b then None else Some (nat (mem_handle b), unat (get_num_pages (size_kb b))))"

definition held :: "XMS_Block \<Rightarrow> bool" where
  "held b \<longleftrightarrow> is_free b \<or> 0 < mem_handle b \<and> size_kb b \<noteq> 0"

text \<open>The handles in use, except handle 0, hold disjoint blocks of the pool beside the blocks \<open>cs\<close> of others.\<close>

definition xms_ok :: "nat list list \<Rightarrow> xms_state \<Rightarrow> bool" where
  "xms_ok cs s \<longleftrightarrow> length (handles s) = NumXmsHandles \<and> (\<forall>b \<in> set (tl (handles s)). held b) \<and>
     pool_ok (mhandles (pages s)) (table_blocks (map entry (tl (handles s))) @ cs) \<and> port_ok (a20 s)"

lemma xms_ok_upd:
  assumes "xms_ok cs s" "handle \<noteq> 0" "unat handle < NumXmsHandles" "held b" "handles t = (handles s)[unat handle := b]" "a20 t = a20 s"
    and "pool_ok (mhandles (pages t)) (table_blocks ((map entry (tl (handles s)))[unat handle - 1 := entry b]) @ cs)"
  shows "xms_ok cs t"
proof -
  obtain h hs where hs: "handles s = h # hs" using assms(1) by (cases "handles s") (auto simp: xms_ok_def NumXmsHandles_def)
  obtain k where k: "unat handle = Suc k" using assms(2) by (cases "unat handle") (auto simp: unat_eq_zero)
  have "tl (handles t) = hs[k := b]" using assms(5) hs k by simp
  moreover have "set (hs[k := b]) \<subseteq> insert b (set hs)" by (rule set_update_subset_insert)
  ultimately show ?thesis using assms(1,4,5,6,7) hs k by (auto simp: xms_ok_def map_update)
qed

lemma valid_entry:
  assumes "xms_ok cs s" "xms_is_handle_valid h s"
  shows "unat h - 1 < length (map entry (tl (handles s)))"
    and "map entry (tl (handles s)) ! (unat h - 1) = Some (nat (mem_handle (block h s)), unat (get_num_pages (size_kb (block h s))))"
    and "0 < mem_handle (block h s)" "0 < unat (get_num_pages (size_kb (block h s)))" "h \<noteq> 0" "unat h < NumXmsHandles"
proof -
  have h: "h \<noteq> 0" "unat h < NumXmsHandles" "\<not> is_free (block h s)" using assms(2) by (auto simp: xms_is_handle_valid_def)
  have p: "0 < unat h" using h(1) by (simp add: unat_gt_0)
  have len: "length (handles s) = NumXmsHandles" using assms(1) by (simp add: xms_ok_def)
  have nth: "tl (handles s) ! (unat h - 1) = block h s" using p h(2) len by (simp add: nth_tl block_def)
  show l: "unat h - 1 < length (map entry (tl (handles s)))" using p h(2) len by simp
  have "block h s \<in> set (tl (handles s))" using l nth by (metis nth_mem length_map)
  then have "held (block h s)" using assms(1) by (simp add: xms_ok_def)
  then show "0 < mem_handle (block h s)" "0 < unat (get_num_pages (size_kb (block h s)))"
    using h(3) get_num_pages_pos by (auto simp: held_def)
  show "map entry (tl (handles s)) ! (unat h - 1) = Some (nat (mem_handle (block h s)), unat (get_num_pages (size_kb (block h s))))"
    using l nth h(3) by (simp add: entry_def)
  show "h \<noteq> 0" "unat h < NumXmsHandles" by (fact h)+
qed

declare find_handle.simps [simp del]

lemma find_handle_free: "find_handle hs i = Some k \<Longrightarrow> i < NumXmsHandles \<Longrightarrow> i \<le> k \<and> k < NumXmsHandles \<and> is_free (hs ! k)"
proof (induction hs i rule: find_handle.induct)
  case (1 hs i)
  then show ?case using find_handle.simps [of hs i] by (auto split: if_splits dest: Suc_leD)
qed

lemma find_handle_none: "find_handle hs i = None \<Longrightarrow> i \<le> j \<Longrightarrow> j < NumXmsHandles \<Longrightarrow> \<not> is_free (hs ! j)"
proof (induction hs i rule: find_handle.induct)
  case (1 hs i)
  then show ?case using find_handle.simps [of hs i] by (cases "j = i") (auto split: if_splits)
qed

section \<open>Operations\<close>

lemma allocate_keeps:
  assumes ok: "xms_ok cs s" and kb: "kb \<noteq> 0"
  shows "\<exists>res h t. xms_allocate_memory kb s = Some (Inr (res, h, t)) \<and> xms_ok cs t \<and>
    (case h of None \<Rightarrow> t = s \<and> (res = XmsOutOfHandles \<or> res = XmsOutOfSpace)
     | Some h \<Rightarrow> res = OK \<and> is_free (block h s) \<and> xms_is_handle_valid h t \<and> size_kb (block h t) = kb \<and> lock_count (block h t) = 0)"
proof (cases "find_handle (handles s) 1")
  case None
  then show ?thesis using ok by (simp add: xms_allocate_memory_def)
next
  case (Some k)
  have k: "1 \<le> k" "k < NumXmsHandles" "is_free (handles s ! k)" using find_handle_free [OF Some] by (auto simp: NumXmsHandles_def)
  define h where "h = (word_of_nat k :: u16)"
  have uh: "unat h = k" using k(2) by (simp add: h_def NumXmsHandles_def unsigned_of_nat take_bit_nat_eq_self)
  have h0: "h \<noteq> 0" using uh k(1) by auto
  have len: "length (handles s) = NumXmsHandles" using ok by (simp add: xms_ok_def)
  let ?ts = "map entry (tl (handles s))" and ?n = "unat (get_num_pages kb)"
  have e: "k - 1 < length ?ts" "?ts ! (k - 1) = None" using k len by (auto simp: nth_tl entry_def)
  have p: "pool_ok (mhandles (pages s)) (table_blocks ?ts @ cs)" using ok by (simp add: xms_ok_def)
  from pool.table_alloc [OF p e get_num_pages_pos [OF kb]] obtain x q where
    q: "pool_alloc ?n (pages s) = Some (x, q)" "if x = 0 then q = pages s else \<exists>a. 0 < a \<and> x = int a \<and> pool_ok (mhandles q) (table_blocks (?ts[k - 1 := Some (a, ?n)]) @ cs)"
    by blast
  from q(1) obtain mh where mh: "MEM_AllocatePages ?n True (mhandles (pages s)) = Some (Inr (x, mh))" "q = (pages s)\<lparr>mhandles := mh\<rparr>"
    by (auto simp: pool_alloc_def split: option.splits sum.splits)
  show ?thesis
  proof (cases "x = 0")
    case True
    then have "set_mhandles mh s = s" using q(2) mh(2) by (simp add: set_mhandles_def)
    then show ?thesis using Some mh(1) kb True ok by (simp add: xms_allocate_memory_def)
  next
    case False
    let ?b = "(handles s ! k)\<lparr>is_free := False, mem_handle := x, lock_count := 0, size_kb := kb\<rparr>"
    let ?t = "upd_block h (\<lambda>_. ?b) (set_mhandles mh s)"
    have r: "xms_allocate_memory kb s = Some (Inr (OK, Some h, ?t))"
      using Some mh(1) kb False uh by (simp add: xms_allocate_memory_def Let_def upd_block_def set_mhandles_def flip: h_def)
    from q(2) False obtain a where a: "0 < a" "x = int a" "pool_ok (mhandles q) (table_blocks (?ts[k - 1 := Some (a, ?n)]) @ cs)" by auto
    have "xms_ok cs ?t"
      by (rule xms_ok_upd [OF ok h0, of ?b]) (use uh k a mh(2) kb in \<open>simp_all add: upd_block_def set_mhandles_def held_def entry_def\<close>)
    moreover have "block h ?t = ?b" using uh k(2) len by (simp add: block_def upd_block_def set_mhandles_def)
    ultimately show ?thesis using r uh k h0 by (auto simp: xms_is_handle_valid_def block_def)
  qed
qed

lemma free_keeps:
  assumes ok: "xms_ok cs s"
  shows "\<exists>res t. xms_free_memory h s = Some (Inr (res, t)) \<and> xms_ok cs t"
proof (cases "xms_is_handle_valid h s \<and> lock_count (block h s) = 0")
  case True
  note v = valid_entry [OF ok conjunct1 [OF True]]
  have p: "pool_ok (mhandles (pages s)) (table_blocks (map entry (tl (handles s))) @ cs)" using ok by (simp add: xms_ok_def)
  from pool.table_release [OF p v(1,2,4)] v(3) obtain mh where mh: "MEM_ReleasePages (mem_handle (block h s)) (mhandles (pages s)) = Some mh"
    "pool_ok mh (table_blocks ((map entry (tl (handles s)))[unat h - 1 := None]) @ cs)" by (auto simp: pool_release_def)
  have "xms_ok cs (upd_block h (\<lambda>_. XMS_Block0) (set_mhandles mh s))"
    by (rule xms_ok_upd [OF ok v(5,6), of XMS_Block0]) (use mh(2) in \<open>simp_all add: upd_block_def set_mhandles_def held_def entry_def XMS_Block0_def\<close>)
  then show ?thesis using True mh(1) by (simp add: xms_free_memory_def)
qed (use ok in \<open>auto simp: xms_free_memory_def\<close>)

lemma resize_keeps:
  assumes ok: "xms_ok cs s" and kb: "kb \<noteq> 0"
  shows "\<exists>res t. xms_resize_memory h kb s = Some (Inr (res, t)) \<and> xms_ok cs t"
proof (cases "xms_is_handle_valid h s \<and> lock_count (block h s) = 0")
  case True
  note v = valid_entry [OF ok conjunct1 [OF True]]
  have nf: "\<not> is_free (block h s)" and sz: "size_kb (block h s) \<noteq> 0"
    using True v(4) by (auto simp: xms_is_handle_valid_def get_num_pages_def truth_def)
  let ?n = "unat (get_num_pages kb)"
  have p: "pool_ok (mhandles (pages s)) (table_blocks (map entry (tl (handles s))) @ cs)" using ok by (simp add: xms_ok_def)
  have i: "int (nat (mem_handle (block h s))) = mem_handle (block h s)" using v(3) by simp
  from pool.table_resize [OF p v(1,2,4) get_num_pages_pos [OF kb], unfolded i] obtain b x q where
    q: "MEM_ReAllocatePages (mem_handle (block h s)) ?n True (pages s) = Some (Inr (b, x, q))"
      "if b then \<exists>a. 0 < a \<and> x = int a \<and> pool_ok (mhandles q) (table_blocks ((map entry (tl (handles s)))[unat h - 1 := Some (a, ?n)]) @ cs)
       else x = mem_handle (block h s) \<and> q = pages s"
    unfolding pool_resize_def by (fastforce split: option.splits sum.splits)
  show ?thesis
  proof (cases b)
    case True
    with q(2) obtain a where a: "0 < a" "x = int a" "pool_ok (mhandles q) (table_blocks ((map entry (tl (handles s)))[unat h - 1 := Some (a, ?n)]) @ cs)" by auto
    let ?b = "(block h s)\<lparr>mem_handle := x, size_kb := kb\<rparr>"
    have "xms_ok cs (upd_block h (\<lambda>b. b\<lparr>size_kb := kb\<rparr>) (upd_block h (\<lambda>b. b\<lparr>mem_handle := x\<rparr>) (s\<lparr>pages := q\<rparr>)))"
      by (rule xms_ok_upd [OF ok v(5,6), of ?b])
        (use a nf kb ok v(6) in \<open>simp_all add: upd_block_def held_def entry_def block_def xms_ok_def\<close>)
    then show ?thesis using \<open>xms_is_handle_valid h s \<and> lock_count (block h s) = 0\<close> q(1) True by (simp add: xms_resize_memory_def Let_def)
  next
    case False
    then have "upd_block h (\<lambda>b. b\<lparr>mem_handle := x\<rparr>) (s\<lparr>pages := q\<rparr>) = s" using q(2) by (simp add: upd_block_def block_def)
    then show ?thesis using \<open>xms_is_handle_valid h s \<and> lock_count (block h s) = 0\<close> q(1) False ok by (simp add: xms_resize_memory_def Let_def)
  qed
qed (use ok in \<open>auto simp: xms_resize_memory_def word_neq_0_conv\<close>)

end
