(* ===== verification/Xms_Calls.thy ===== *)
theory Xms_Calls
  imports Xms_Table
begin

text \<open>
  Every call of \<open>XMS_Handler\<close> on extended memory returns and keeps the invariant of
  the table; sessions of calls; the regions of memory the handles stand for.
\<close>

unbundle bit_operations_syntax

section \<open>Locks and moves\<close>

lemma relock_keeps:
  assumes ok: "xms_ok cs s" and v: "xms_is_handle_valid h s"
  shows "xms_ok cs (upd_block h (\<lambda>b. b\<lparr>lock_count := n b\<rparr>) s)"
proof -
  note e = valid_entry [OF ok v]
  let ?b = "(block h s)\<lparr>lock_count := n (block h s)\<rparr>"
  have nf: "\<not> is_free (block h s)" using v by (simp add: xms_is_handle_valid_def)
  have "entry ?b = map entry (tl (handles s)) ! (unat h - 1)" using e(2) nf by (simp add: entry_def)
  moreover have "held ?b" using e(3,4) by (auto simp: held_def get_num_pages_def truth_def)
  ultimately show ?thesis
    using ok by (intro xms_ok_upd [OF ok e(5,6), of ?b]) (simp_all add: upd_block_def block_def xms_ok_def)
qed

lemma move_spec:
  assumes "port_ok (a20 s)"
  shows "xms_move_memory bpt s =
    (let m = visible s; len = mem_readd m bpt
     in if len mod 2 \<noteq> 0 then Some (Inr (XmsParityError, s))
        else case move_end XmsInvalidSrcHandle XmsInvalidSrcOffset (mem_readw m (bpt + 4)) (mem_readd m (bpt + 6)) len s of
            Inl e \<Rightarrow> Some (Inr (e, s))
          | Inr src \<Rightarrow> (case move_end XmsInvalidDestHandle XmsInvalidDestOffset (mem_readw m (bpt + 10)) (mem_readd m (bpt + 12)) len s of
                Inl e \<Rightarrow> Some (Inr (e, s))
              | Inr dest \<Rightarrow> Some (Inr (OK, s\<lparr>pages := (pages s)\<lparr>ram := linear_memcpy (lin_address True (xms_firstmb s)) dest src (unat len) (ram (pages s))\<rparr>\<rparr>))))"
proof -
  let ?a = "(a20 s)\<lparr>num_times_enabled := num_times_enabled (a20 s) + 1\<rparr>"
  have a20: "bind_run (a20_enable True ?a) (\<lambda>a. bind_run (if \<not> a20_is_enabled (a20 s) then a20_enable False (a\<lparr>num_times_enabled := num_times_enabled a - 1\<rparr>)
      else Some (Inr (a\<lparr>num_times_enabled := num_times_enabled a - 1\<rparr>))) (f (a20_enabled a))) = f True (a20 s)" for f :: "bool \<Rightarrow> a20_line \<Rightarrow> (Result \<times> xms_state) run"
    using assms by (cases "a20 s") (auto simp: a20_enable_spec a20_is_enabled_iff port_ok_def)
  note a20' = a20 [of "\<lambda>on a. Some (Inr (OK, s\<lparr>pages := (pages s)\<lparr>ram := linear_memcpy (lin_address on (xms_firstmb s)) dest src n (ram (pages s))\<rparr>, a20 := a\<rparr>))" for dest src n]
  have noop: "s\<lparr>pages := p, a20 := a20 s\<rparr> = s\<lparr>pages := p\<rparr>" "s\<lparr>pages := (pages s)\<lparr>ram := ram (pages s)\<rparr>\<rparr> = s" for p by simp_all
  show ?thesis unfolding xms_move_memory_def Let_def a20' noop
    by (auto simp: noop split: sum.splits)
qed


section \<open>Calls\<close>

lemma xms_ok_frame [simp]: "xms_ok cs (upd_regs f s) \<longleftrightarrow> xms_ok cs s" "xms_ok cs (s\<lparr>regs := r\<rparr>) \<longleftrightarrow> xms_ok cs s"
  "xms_ok cs (s\<lparr>dosm := d\<rparr>) \<longleftrightarrow> xms_ok cs s" "xms_ok cs (s\<lparr>hma := x\<rparr>) \<longleftrightarrow> xms_ok cs s" "xms_ok cs (s\<lparr>pages := (pages s)\<lparr>ram := m\<rparr>\<rparr>) \<longleftrightarrow> xms_ok cs s"
  by (simp_all add: xms_ok_def upd_regs_def)

lemma xms_ok_a20: "xms_ok cs s \<Longrightarrow> port_ok a \<Longrightarrow> xms_ok cs (s\<lparr>a20 := a\<rparr>)"
  by (simp add: xms_ok_def)

lemma xms_ok_port: "xms_ok cs s \<Longrightarrow> port_ok (a20 s)"
  by (simp add: xms_ok_def)

definition keeps :: "nat list list \<Rightarrow> xms_state run \<Rightarrow> bool" where
  "keeps cs r \<longleftrightarrow> (\<exists>t. r = Some (Inr t) \<and> xms_ok cs t)"

lemma keeps_Some [simp]: "keeps cs (Some (Inr t)) \<longleftrightarrow> xms_ok cs t"
  by (simp add: keeps_def)

lemma keeps_if: "(b \<Longrightarrow> keeps cs x) \<Longrightarrow> (\<not> b \<Longrightarrow> keeps cs y) \<Longrightarrow> keeps cs (if b then x else y)"
  by simp

lemma keeps_lift: "\<exists>res t. r = Some (Inr (res, t)) \<and> xms_ok cs t \<Longrightarrow> keeps cs (lift_call r)"
  by (auto simp: lift_call_def)

lemma a20_local_spec:
  assumes "port_ok a"
  shows "a20_local_enable a = Some (Inr (if num_times_enabled a = A20MaxTimesEnabled then (A20LineError, a)
      else (OK, a\<lparr>num_times_enabled := num_times_enabled a + 1, a20_enabled := (num_times_enabled a = 0 \<or> a20_enabled a)\<rparr>)))"
    and "a20_local_disable a = Some (Inr (if num_times_enabled a = 0 then (A20LineError, a)
      else if num_times_enabled a = 1 then (OK, a\<lparr>num_times_enabled := 0, a20_enabled := False\<rparr>)
      else (A20StillEnabled, a\<lparr>num_times_enabled := num_times_enabled a - 1\<rparr>)))"
  using assms by (cases a; auto simp: a20_local_enable_def a20_local_disable_def Let_def a20_enable_spec port_ok_def)+

lemma port_ok_upd [simp]: "port_ok (a\<lparr>num_times_enabled := n\<rparr>) \<longleftrightarrow> port_ok a" "port_ok (a\<lparr>a20_enabled := e\<rparr>) \<longleftrightarrow> port_ok a"
  "port_ok (a\<lparr>enable_global := e\<rparr>) \<longleftrightarrow> port_ok a"
  by (simp_all add: port_ok_def)

lemma a20_calls_keep:
  assumes "xms_ok cs s"
  shows "keeps cs (a20_global_enable s)" "keeps cs (a20_global_disable s)"
    "keeps cs (a20_local a20_local_enable s)" "keeps cs (a20_local a20_local_disable s)"
  using assms a20_local_spec [OF xms_ok_port [OF assms]] xms_ok_port [OF assms]
  by (auto simp: a20_global_enable_def a20_global_disable_def a20_local_def intro!: xms_ok_a20)

lemma lock_keeps:
  assumes "xms_ok cs s"
  shows "xms_ok cs (snd (snd (xms_lock_memory h s)))" "xms_ok cs (snd (xms_unlock_memory h s))"
  using assms relock_keeps [OF assms, of h "\<lambda>b. lock_count b + 1"] relock_keeps [OF assms, of h "\<lambda>b. lock_count b - 1"]
  by (auto simp: xms_lock_memory_def xms_unlock_memory_def)

lemma move_keeps:
  assumes "xms_ok cs s"
  shows "\<exists>res t. xms_move_memory bpt s = Some (Inr (res, t)) \<and> xms_ok cs t"
  using assms unfolding move_spec [OF xms_ok_port [OF assms]] by (auto simp: Let_def split: sum.splits)

text \<open>The calls that do not ask for a block of size zero. One of them, the request for upper memory, searches the memory control
  blocks, which the guest can overwrite; it need not return.\<close>

definition sized_call :: "xms_regs \<Rightarrow> bool" where
  "sized_call r \<longleftrightarrow> (reg_ah r = 0x09 \<longrightarrow> reg_dx r \<noteq> 0) \<and> (reg_ah r = 0x89 \<longrightarrow> reg_edx r \<noteq> 0) \<and>
     (reg_ah r = 0x0f \<longrightarrow> reg_bx r \<noteq> 0) \<and> (reg_ah r = 0x8f \<longrightarrow> reg_ebx r \<noteq> 0)"

definition searches_upper :: "xms_state \<Rightarrow> xms_regs \<Rightarrow> bool" where
  "searches_upper s r \<longleftrightarrow> reg_ah r = 0x10 \<and> umb_is_available s \<and> umb_chain_start (dosm s) \<noteq> 0xffff"

lemma umb_request_keeps: "xms_ok cs s \<Longrightarrow> umb_request s = Some (Inr u) \<Longrightarrow> xms_ok cs u"
  by (auto simp: umb_request_def bind_run_def Let_def split: if_splits option.splits sum.splits alloc_result.splits)

lemma umb_request_returns:
  "xms_ok cs s \<Longrightarrow> \<not> (umb_is_available s \<and> umb_chain_start (dosm s) \<noteq> 0xffff) \<Longrightarrow> keeps cs (umb_request s)"
  by (auto simp: umb_request_def)

lemma umb_release_keeps: "xms_ok cs s \<Longrightarrow> xms_ok cs (umb_release s)"
  by (auto simp: umb_release_def split: prod.splits)

lemma ucast_nonzero: "(v :: u16) \<noteq> 0 \<Longrightarrow> (ucast v :: u32) \<noteq> 0"
proof -
  assume "v \<noteq> 0"
  then obtain n where "bit v n" by (auto simp: bit_eq_iff)
  then have "bit (ucast v :: u32) n" using bit_imp_le_length [of v n] by (simp add: bit_ucast_iff)
  then show ?thesis by auto
qed

lemma allocate_call_keeps: "xms_ok cs s \<Longrightarrow> kb \<noteq> 0 \<Longrightarrow> keeps cs (allocate_call kb s)"
  using allocate_keeps [of cs s kb] by (auto simp: allocate_call_def)

lemma handler_keeps:
  assumes ok: "xms_ok cs s" and c: "sized_call (regs s)" "\<not> searches_upper s (regs s)"
  shows "keeps cs (XMS_Handler s)"
proof -
  let ?r = "regs s"
  have simple: "xms_ok cs (hma_request s)" "xms_ok cs (hma_release s)" "xms_ok cs (umb_release s)" "xms_ok cs (lock_call s)" "xms_ok cs (handle_information_call s)"
      "xms_ok cs (extended_information_call s)"
    using ok lock_keeps(1) [OF ok, of "reg_dx ?r"] umb_release_keeps [OF ok]
    by (auto simp: hma_request_def hma_release_def lock_call_def handle_information_call_def extended_information_call_def Let_def
      split: prod.splits sum.splits)
  have calls: "keeps cs (lift_call (xms_free_memory h s))" "kb \<noteq> 0 \<Longrightarrow> keeps cs (lift_call (xms_resize_memory h kb s))"
      "keeps cs (lift_call (Some (Inr (xms_unlock_memory h s))))" for h kb
    using free_keeps [OF ok] resize_keeps [OF ok] lock_keeps(2) [OF ok, of h] by (auto intro!: keeps_lift simp: prod_eq_iff)
  have move: "keeps cs (bind_run (xms_move_memory bpt s) (\<lambda>(res, s). Some (Inr (upd_regs (f res) s))))" for bpt f
    using move_keeps [OF ok, of bpt] by auto
  have query: "keeps cs (case xms_query_free_memory s of (res, l, t) \<Rightarrow> Some (Inr (upd_regs (f res l t) s)))" for f
    using ok by (simp split: prod.split)
  show ?thesis unfolding XMS_Handler_def Let_def
    by (intro keeps_if simple [folded keeps_Some] calls move query a20_calls_keep [OF ok] allocate_call_keeps [OF ok] umb_request_returns [OF ok])
      (use ok c in \<open>auto simp: sized_call_def searches_upper_def ucast_nonzero\<close>)
qed


lemma handler_returned_keeps:
  assumes "xms_ok cs s" "sized_call (regs s)" "XMS_Handler s = Some (Inr u)"
  shows "xms_ok cs u"
proof (cases "searches_upper s (regs s)")
  case True
  then have "XMS_Handler s = umb_request s" by (simp add: XMS_Handler_def Let_def searches_upper_def)
  then show ?thesis using assms umb_request_keeps by simp
next
  case False
  then show ?thesis using handler_keeps [OF assms(1,2)] assms(3) by simp
qed

lemma write_p92_port_ok:
  assumes "write_p92 v a = Some (Inr b)"
  shows "port_ok b"
proof -
  have "\<not> bit v 0" using assms by (auto simp: write_p92_def truth_def and_one_eq odd_iff_mod_2_eq_one bit_0 split: if_splits)
  then show ?thesis using assms
    by (auto simp: write_p92_def MEM_A20_Enable_def port_ok_def bit_and_iff bit_two split: if_splits)
qed

text \<open>A session: calls of the guest with any registers, between which it may write the A20 port and memory, with the memory control
  blocks in it, and DOS and the expanded memory manager may change the control blocks and the page map.\<close>

inductive xms_calls :: "xms_state \<Rightarrow> xms_state \<Rightarrow> bool" for s where
  start: "xms_calls s s"
| call: "xms_calls s t \<Longrightarrow> sized_call r \<Longrightarrow> XMS_Handler (t\<lparr>regs := r\<rparr>) = Some (Inr u) \<Longrightarrow> xms_calls s u"
| guest: "xms_calls s t \<Longrightarrow> xms_calls s (t\<lparr>pages := (pages t)\<lparr>ram := m\<rparr>, dosm := d, xms_firstmb := f\<rparr>)"
| port: "xms_calls s t \<Longrightarrow> write_p92 v (a20 t) = Some (Inr a) \<Longrightarrow> xms_calls s (t\<lparr>a20 := a\<rparr>)"

lemma calls_keep: "xms_calls s t \<Longrightarrow> xms_ok cs s \<Longrightarrow> xms_ok cs t"
proof (induction rule: xms_calls.induct)
  case (call t r u)
  then show ?case using handler_returned_keeps [of cs "t\<lparr>regs := r\<rparr>"] by simp
next
  case (port t v a)
  then show ?case using write_p92_port_ok xms_ok_a20 by blast
qed (simp_all add: xms_ok_def)

lemma start_ok:
  assumes "pool_ok (mhandles (pages s)) cs" "port_ok (a20 s)" "XMS_start umb ems pcjr cb s = Some t"
  shows "xms_ok cs t"
proof -
  have h: "handles t = (replicate NumXmsHandles XMS_Block0)[0 := XMS_Block0\<lparr>is_free := False\<rparr>]" "pages t = pages s"
      "port_ok (a20 t) = port_ok (a20 s)"
    using assms(3) by (auto simp: XMS_start_def Let_def port_ok_def)
  have "tl (handles t) = replicate 127 XMS_Block0" unfolding h NumXmsHandles_def by (simp add: replicate_Suc numeral_eq_Suc)
  moreover have "table_blocks (replicate n None) = []" for n by (simp add: table_blocks_def)
  ultimately show ?thesis using assms(1,2) h by (simp add: xms_ok_def held_def entry_def XMS_Block0_def NumXmsHandles_def)
qed

section \<open>Regions\<close>

definition region :: "u16 \<Rightarrow> xms_state \<Rightarrow> nat set" where
  "region h s = {nat (mem_handle (block h s)) * 4096 ..< nat (mem_handle (block h s)) * 4096 + unat (size_kb (block h s)) * 1024}"

lemma region_pages:
  assumes "x \<in> region h s"
  shows "x div 4096 \<in> set (block_pages (nat (mem_handle (block h s)), unat (get_num_pages (size_kb (block h s)))))"
proof -
  let ?m = "nat (mem_handle (block h s))" and ?k = "unat (size_kb (block h s))"
  have "?k + 3 = 4 * ((?k + 3) div 4) + (?k + 3) mod 4" "(?k + 3) mod 4 < 4" by simp_all
  then have "?k * 1024 \<le> (?k + 3) div 4 * 4096" by linarith
  then have "?m * 4096 \<le> x" "x < (?m + (?k + 3) div 4) * 4096" using assms by (auto simp: region_def add_mult_distrib)
  then have "?m \<le> x div 4096" "x div 4096 < ?m + (?k + 3) div 4" by (auto simp: less_eq_div_iff_mult_less_eq div_less_iff_less_mult)
  then show ?thesis by (simp add: block_pages_def get_num_pages_unat)
qed

lemma regions_separate:
  assumes ok: "xms_ok cs s" and v: "xms_is_handle_valid h s" "xms_is_handle_valid g s" and ne: "h \<noteq> g"
  shows "region h s \<inter> region g s = {}"
proof -
  note eh = valid_entry [OF ok v(1)] and eg = valid_entry [OF ok v(2)]
  have "unat h \<noteq> unat g" "0 < unat h" "0 < unat g" using ne eh(5) eg(5) word_unat_eq_iff [of h g] by (simp_all add: unat_gt_0)
  then have i: "unat h - 1 \<noteq> unat g - 1" by simp
  have p: "pool_ok (mhandles (pages s)) (table_blocks (map entry (tl (handles s))) @ cs)" using ok by (simp add: xms_ok_def)
  from pool.table_separate [OF p eh(1) eg(1) i eh(2) eg(2)] show ?thesis using region_pages by blast
qed

lemma region_bounds:
  assumes ok: "xms_ok cs s" and v: "xms_is_handle_valid h s"
  shows "region h s \<subseteq> {XMS_START * 4096 ..< length (mhandles (pages s)) * 4096}"
proof
  fix x
  assume "x \<in> region h s"
  from region_pages [OF this] have x: "x div 4096 \<in> set (block_pages (nat (mem_handle (block h s)), unat (get_num_pages (size_kb (block h s)))))" .
  note e = valid_entry [OF ok v]
  have p: "pool_ok (mhandles (pages s)) (table_blocks (map entry (tl (handles s))) @ cs)" using ok by (simp add: xms_ok_def)
  from pool_ok_bounds [OF pool.table_hold [OF p e(1,2)] _ x] have "XMS_START \<le> x div 4096" "x div 4096 < length (mhandles (pages s))" by auto
  then show "x \<in> {XMS_START * 4096 ..< length (mhandles (pages s)) * 4096}"
    by (auto simp: less_eq_div_iff_mult_less_eq div_less_iff_less_mult)
qed

end
