(* ===== verification/Mcb_Chain.thy ===== *)
theory Mcb_Chain
  imports Mcb
begin

text \<open>
  Chains of memory control blocks as lists of owners and sizes: what the headers from a segment
  on must say, how a part of a chain is replaced, and how the accessors of a header act on it.
\<close>

section \<open>Segments as numbers\<close>

text \<open>A chain lies below the last segment, so that segments and sizes are natural numbers.\<close>

definition sg :: "nat \<Rightarrow> u16" where
  "sg n = word_of_nat n"

lemma sg_unat: "n < 65536 \<Longrightarrow> unat (sg n) = n"
  by (simp add: sg_def unsigned_of_nat take_bit_nat_eq_self)

lemma sg_of_unat [simp]: "sg (unat w) = w"
  by (simp add: sg_def)

lemma sg_eq: "i < 65536 \<Longrightarrow> j < 65536 \<Longrightarrow> sg i = sg j \<longleftrightarrow> i = j"
  by (metis sg_unat)

lemma sg_zero: "n < 65536 \<Longrightarrow> sg n = 0 \<longleftrightarrow> n = 0"
  using sg_eq [of n 0] by (simp add: sg_def)

lemma sg_less: "n < 65536 \<Longrightarrow> sg n < w \<longleftrightarrow> n < unat w" "n < 65536 \<Longrightarrow> w < sg n \<longleftrightarrow> unat w < n"
  by (simp_all add: word_less_nat_alt sg_unat)

lemma sg_le: "n < 65536 \<Longrightarrow> w \<le> sg n \<longleftrightarrow> unat w \<le> n"
  by (simp add: word_le_nat_alt sg_unat)

lemma sg_is: "n < 65536 \<Longrightarrow> sg n = w \<longleftrightarrow> n = unat w"
  by (auto simp: word_unat_eq_iff sg_unat)

lemma sg_add: "sg s + sg n = sg (s + n)" "sg s + 1 = sg (s + 1)" "sg s + (sg n + 1) = sg (s + n + 1)"
  by (simp_all add: sg_def)

lemma sg_diff: "n \<le> s \<Longrightarrow> sg s - sg n = sg (s - n)" "1 \<le> s \<Longrightarrow> sg s - 1 = sg (s - 1)"
  by (simp_all add: sg_def of_nat_diff)

section \<open>Chains\<close>

text \<open>A block is its owner and its size; \<open>links c s t bs\<close>: the headers from segment \<open>s\<close> on describe
  the blocks \<open>bs\<close>, the last one with type \<open>t\<close> and the others with type \<open>M\<close>.\<close>

type_synonym blocks = "(u16 \<times> nat) list"

definition hdr :: "(u16 \<Rightarrow> MCB) \<Rightarrow> nat \<Rightarrow> u8 \<Rightarrow> u16 \<Rightarrow> nat \<Rightarrow> bool" where
  "hdr c s t p n \<longleftrightarrow> mcb_type (c (sg s)) = t \<and> psp_segment (c (sg s)) = p \<and> mcb_size (c (sg s)) = sg n"

fun span :: "blocks \<Rightarrow> nat" where
  "span [] = 0"
| "span ((p, n) # bs) = n + 1 + span bs"

fun links :: "(u16 \<Rightarrow> MCB) \<Rightarrow> nat \<Rightarrow> u8 \<Rightarrow> blocks \<Rightarrow> bool" where
  "links c s t [] \<longleftrightarrow> True"
| "links c s t ((p, n) # bs) \<longleftrightarrow> hdr c s (if bs = [] then t else middle_mcb_type) p n \<and> links c (s + n + 1) t bs"

definition chain :: "(u16 \<Rightarrow> MCB) \<Rightarrow> nat \<Rightarrow> blocks \<Rightarrow> bool" where
  "chain c s bs \<longleftrightarrow> bs \<noteq> [] \<and> 0 < s \<and> s + span bs < 65536 \<and> links c s ending_mcb_type bs"

text \<open>Two memories that agree outside a range of segments.\<close>

definition agree :: "(u16 \<Rightarrow> MCB) \<Rightarrow> (u16 \<Rightarrow> MCB) \<Rightarrow> nat \<Rightarrow> nat \<Rightarrow> bool" where
  "agree c c' a b \<longleftrightarrow> (\<forall>i < 65536. i < a \<or> b \<le> i \<longrightarrow> c' (sg i) = c (sg i))"

lemma span_append [simp]: "span (xs @ ys) = span xs + span ys"
  by (induction xs) auto

lemma length_le_span: "length bs \<le> span bs"
  by (induction bs rule: span.induct) auto

lemma links_append:
  "ys \<noteq> [] \<Longrightarrow> links c s t (xs @ ys) \<longleftrightarrow> links c s middle_mcb_type xs \<and> links c (s + span xs) t ys"
  by (induction xs arbitrary: s) (auto simp: add.assoc)

lemma agree_refl [simp]: "agree c c a b"
  by (simp add: agree_def)

lemma agree_trans: "agree c c' a b \<Longrightarrow> agree c' c'' a b \<Longrightarrow> agree c c'' a b"
  by (simp add: agree_def)

lemma agree_mono: "agree c c' a b \<Longrightarrow> a' \<le> a \<Longrightarrow> b \<le> b' \<Longrightarrow> agree c c' a' b'"
  by (fastforce simp: agree_def)

lemma agree_upd: "a \<le> i \<Longrightarrow> i < b \<Longrightarrow> b \<le> 65536 \<Longrightarrow> agree c (c(sg i := v)) a b"
  by (auto simp: agree_def sg_eq)

lemma links_agree:
  "links c s t bs \<Longrightarrow> agree c c' a b \<Longrightarrow> s + span bs \<le> 65536 \<Longrightarrow> s + span bs \<le> a \<or> b \<le> s \<Longrightarrow> links c' s t bs"
proof (induction bs arbitrary: s)
  case (Cons x bs)
  obtain p n where x: "x = (p, n)" by fastforce
  then have "s < 65536" "s < a \<or> b \<le> s" using Cons.prems by auto
  then have "c' (sg s) = c (sg s)" using Cons.prems(2) by (auto simp: agree_def)
  moreover have "links c' (s + n + 1) t bs"
    using Cons.prems x by (intro Cons.IH) auto
  ultimately show ?case using Cons.prems(1) by (auto simp: x hdr_def)
qed simp

lemma links_replace:
  assumes "links c s t (xs @ zs @ ys)" "zs \<noteq> []" "zs' \<noteq> []" "span zs' = span zs" "s + span (xs @ zs @ ys) \<le> 65536"
    and "links c' (s + span xs) (if ys = [] then t else middle_mcb_type) zs'" "agree c c' (s + span xs) (s + span xs + span zs)"
  shows "links c' s t (xs @ zs' @ ys)"
proof (cases "ys = []")
  case True
  have "links c s middle_mcb_type xs" using assms(1,2) by (simp add: links_append)
  then have "links c' s middle_mcb_type xs" using links_agree [OF _ assms(7)] assms(5) by simp
  then show ?thesis using True assms(3,6) by (simp add: links_append)
next
  case False
  then have l: "links c s middle_mcb_type xs" "links c (s + span xs + span zs) t ys"
    using assms(1,2) by (simp_all add: links_append add.assoc)
  have "links c' s middle_mcb_type xs" using links_agree [OF l(1) assms(7)] assms(5) by simp
  moreover have "links c' (s + span xs + span zs) t ys" using links_agree [OF l(2) assms(7)] assms(5) by simp
  ultimately show ?thesis using False assms(3,4,6) by (simp add: links_append add.assoc)
qed

lemma chain_replace:
  assumes "chain c s (xs @ zs @ ys)" "zs \<noteq> []" "zs' \<noteq> []" "span zs' = span zs"
    and "links c' (s + span xs) (if ys = [] then ending_mcb_type else middle_mcb_type) zs'" "agree c c' (s + span xs) (s + span xs + span zs)"
  shows "chain c' s (xs @ zs' @ ys)"
  using links_replace [OF _ assms(2,3,4) _ assms(5,6)] assms(1,3,4) by (simp add: chain_def)

lemma chain_block:
  assumes "chain c s (xs @ (p, n) # ys)"
  shows "hdr c (s + span xs) (if ys = [] then ending_mcb_type else middle_mcb_type) p n"
    and "0 < s + span xs" "s + span xs + n + 1 + span ys < 65536"
  using assms by (auto simp: chain_def links_append)

lemma chain_agree:
  "chain c s bs \<Longrightarrow> agree c c' a b \<Longrightarrow> s + span bs \<le> a \<or> b \<le> s \<Longrightarrow> chain c' s bs"
  by (auto simp: chain_def intro: links_agree)

section \<open>Reading and writing headers\<close>

lemma mcb_types [simp]: "middle_mcb_type \<noteq> ending_mcb_type" "ending_mcb_type \<noteq> middle_mcb_type"
  by (simp_all add: middle_mcb_type_def ending_mcb_type_def)

lemma get_hdr:
  assumes "hdr (mcbs m) s t p n"
  shows "GetType (sg s) m = t" "GetPSPSeg (sg s) m = p" "GetSize (sg s) m = sg n"
  using assms by (simp_all add: hdr_def GetType_def GetPSPSeg_def GetSize_def)

lemmas header_defs = hdr_def GetType_def GetPSPSeg_def GetSize_def SetType_def SetPSPSeg_def SetSize_def SetFileName_def
  upd_mcb_def DOS_SetError_def

lemma get_set [simp]:
  "GetType a (SetType b t m) = (if a = b then t else GetType a m)" "GetType a (SetPSPSeg b p m) = GetType a m"
  "GetType a (SetSize b n m) = GetType a m" "GetType a (SetFileName b f m) = GetType a m"
  "GetPSPSeg a (SetType b t m) = GetPSPSeg a m" "GetPSPSeg a (SetPSPSeg b p m) = (if a = b then p else GetPSPSeg a m)"
  "GetPSPSeg a (SetSize b n m) = GetPSPSeg a m" "GetPSPSeg a (SetFileName b f m) = GetPSPSeg a m"
  "GetSize a (SetType b t m) = GetSize a m" "GetSize a (SetPSPSeg b p m) = GetSize a m"
  "GetSize a (SetSize b n m) = (if a = b then n else GetSize a m)" "GetSize a (SetFileName b f m) = GetSize a m"
  by (simp_all add: header_defs)

lemma field_set [simp]:
  "firstMCB (SetType a t m) = firstMCB m" "firstMCB (SetPSPSeg a p m) = firstMCB m" "firstMCB (SetSize a n m) = firstMCB m" "firstMCB (SetFileName a g m) = firstMCB m" "firstMCB (DOS_SetError e m) = firstMCB m"
  "umb_chain_start (SetType a t m) = umb_chain_start m" "umb_chain_start (SetPSPSeg a p m) = umb_chain_start m" "umb_chain_start (SetSize a n m) = umb_chain_start m" "umb_chain_start (SetFileName a g m) = umb_chain_start m" "umb_chain_start (DOS_SetError e m) = umb_chain_start m"
  "umb_chain_state (SetType a t m) = umb_chain_state m" "umb_chain_state (SetPSPSeg a p m) = umb_chain_state m" "umb_chain_state (SetSize a n m) = umb_chain_state m" "umb_chain_state (SetFileName a g m) = umb_chain_state m" "umb_chain_state (DOS_SetError e m) = umb_chain_state m"
  "allocation_strategy (SetType a t m) = allocation_strategy m" "allocation_strategy (SetPSPSeg a p m) = allocation_strategy m" "allocation_strategy (SetSize a n m) = allocation_strategy m" "allocation_strategy (SetFileName a g m) = allocation_strategy m" "allocation_strategy (DOS_SetError e m) = allocation_strategy m"
  "fault_strategy (SetType a t m) = fault_strategy m" "fault_strategy (SetPSPSeg a p m) = fault_strategy m" "fault_strategy (SetSize a n m) = fault_strategy m" "fault_strategy (SetFileName a g m) = fault_strategy m" "fault_strategy (DOS_SetError e m) = fault_strategy m"
  "current_psp (SetType a t m) = current_psp m" "current_psp (SetPSPSeg a p m) = current_psp m" "current_psp (SetSize a n m) = current_psp m" "current_psp (SetFileName a g m) = current_psp m" "current_psp (DOS_SetError e m) = current_psp m"
  by (simp_all add: header_defs)

lemma mcbs_set [simp]:
  "mcbs (SetType a t m) = (mcbs m)(a := mcbs m a \<lparr>mcb_type := t\<rparr>)"
  "mcbs (SetPSPSeg a p m) = (mcbs m)(a := mcbs m a \<lparr>psp_segment := p\<rparr>)"
  "mcbs (SetSize a n m) = (mcbs m)(a := mcbs m a \<lparr>mcb_size := n\<rparr>)"
  "mcbs (SetFileName a f m) = (mcbs m)(a := mcbs m a \<lparr>filename := f\<rparr>)"
  "mcbs (DOS_SetError e m) = mcbs m"
  by (simp_all add: header_defs)

text \<open>What the setters leave alone.\<close>

definition same_dos :: "dos_mem \<Rightarrow> dos_mem \<Rightarrow> bool" where
  "same_dos m m' \<longleftrightarrow> m' = m\<lparr>mcbs := mcbs m'\<rparr>"

lemma same_dos_refl [simp]: "same_dos m m"
  by (simp add: same_dos_def)

lemma same_dos_trans: "same_dos m m' \<Longrightarrow> same_dos m' m'' \<Longrightarrow> same_dos m m''"
  unfolding same_dos_def by (metis dos_mem.surjective dos_mem.update_convs(1) dos_mem.fold_congs(1))

lemma same_dos_set [simp]:
  "same_dos m (SetType a t m')  \<longleftrightarrow> same_dos m m'"
  "same_dos m (SetPSPSeg a p m') \<longleftrightarrow> same_dos m m'"
  "same_dos m (SetSize a n m') \<longleftrightarrow> same_dos m m'"
  "same_dos m (SetFileName a f m') \<longleftrightarrow> same_dos m m'"
  by (cases m; cases m'; simp add: same_dos_def header_defs)+

lemma same_dos_fields:
  assumes "same_dos m m'"
  shows "firstMCB m' = firstMCB m" "umb_chain_start m' = umb_chain_start m" "umb_chain_state m' = umb_chain_state m"
    "allocation_strategy m' = allocation_strategy m" "fault_strategy m' = fault_strategy m"
    "current_psp m' = current_psp m" "errorcode m' = errorcode m"
  using assms unfolding same_dos_def by (metis dos_mem.ext_inject dos_mem.surjective dos_mem.update_convs(1))+


end
