(* ===== verification/Mcb_Compress.thy ===== *)
theory Mcb_Compress
  imports Mcb_Chain
begin

text \<open>
  The merge of neighbouring free blocks (\<open>DOS_CompressMemory\<close> of
  \<open>dos_memory.cpp\<close>) computes \<open>joined\<close> on the list of blocks.
\<close>

section \<open>Merging free blocks\<close>

function joined :: "blocks \<Rightarrow> blocks" where
  "joined ((p, n) # (q, k) # bs) =
     (if p = MCB_FREE \<and> q = MCB_FREE then joined ((p, n + k + 1) # bs) else (p, n) # joined ((q, k) # bs))"
| "joined [(p, n)] = [(p, n)]"
| "joined [] = []"
  by pat_completeness auto
termination by (relation "measure length") auto

lemma joined_span [simp]: "span (joined bs) = span bs"
  by (induction bs rule: joined.induct) auto

lemma joined_Nil [simp]: "joined bs = [] \<longleftrightarrow> bs = []"
  by (induction bs rule: joined.induct) auto

lemma compress_loop_spec:
  "chain (mcbs m) s bs \<Longrightarrow> f < max_allowed_faults \<Longrightarrow>
   \<exists>m'. compress_loop (sg s) f m = Some (Inr m') \<and> chain (mcbs m') s (joined bs) \<and>
        agree (mcbs m) (mcbs m') s (s + span bs) \<and> same_dos m m'"
proof (induction bs arbitrary: m s rule: joined.induct)
  case (1 p n q k bs)
  note c = 1(3) and f = 1(4)
  let ?t = "if bs = [] then ending_mcb_type else middle_mcb_type"
  have h: "hdr (mcbs m) s middle_mcb_type p n" "hdr (mcbs m) (s + n + 1) ?t q k"
    using c by (simp_all add: chain_def)
  have b: "0 < s" "s + n + 1 + k + 1 + span bs \<le> 65536" using c by (simp_all add: chain_def)
  have ne: "sg (s + n + 1) \<noteq> sg s" using b sg_eq [of "s + n + 1" s] by simp
  have step: "compress_loop (sg s) f m = (if p = MCB_FREE \<and> q = MCB_FREE
      then compress_loop (sg s) f (SetType (sg s) ?t (SetSize (sg s) (sg (n + k + 1)) m)) else compress_loop (sg (s + n + 1)) f m)"
    using get_hdr [OF h(1)] get_hdr [OF h(2)] f ne
    by (subst compress_loop.simps) (simp add: Let_def triage_block_def valid_type_def sg_add)
  show ?case
  proof (cases "p = MCB_FREE \<and> q = MCB_FREE")
    case True
    let ?m = "SetType (sg s) ?t (SetSize (sg s) (sg (n + k + 1)) m)"
    have ag: "agree (mcbs m) (mcbs ?m) s (s + span ((p, n) # (q, k) # bs))"
      using b by (simp add: agree_upd)
    have "chain (mcbs ?m) s ([] @ [(p, n + k + 1)] @ bs)"
    proof (rule chain_replace)
      show "chain (mcbs m) s ([] @ [(p, n), (q, k)] @ bs)" using c by simp
      show "agree (mcbs m) (mcbs ?m) (s + span []) (s + span [] + span [(p, n), (q, k)])" using b by (simp add: agree_upd)
      show "links (mcbs ?m) (s + span []) ?t [(p, n + k + 1)]" using h(1) by (simp add: hdr_def)
    qed simp_all
    then have "chain (mcbs ?m) s ((p, n + k + 1) # bs)" by simp
    moreover have "span ((p, n + k + 1) # bs) = span ((p, n) # (q, k) # bs)" by simp
    ultimately obtain m' where "compress_loop (sg s) f ?m = Some (Inr m')"
      "chain (mcbs m') s (joined ((p, n + k + 1) # bs))" "agree (mcbs ?m) (mcbs m') s (s + span ((p, n) # (q, k) # bs))" "same_dos ?m m'"
      using 1(1) [OF True _ f, of ?m s] by metis
    then show ?thesis using True step agree_trans [OF ag] same_dos_trans [of m ?m m'] by auto
  next
    case False
    have "chain (mcbs m) (s + n + 1) ((q, k) # bs)" using c by (simp add: chain_def)
    from 1(2) [OF False this f] obtain m' where m': "compress_loop (sg (s + n + 1)) f m = Some (Inr m')"
      "chain (mcbs m') (s + n + 1) (joined ((q, k) # bs))" "agree (mcbs m) (mcbs m') (s + n + 1) (s + n + 1 + span ((q, k) # bs))" "same_dos m m'"
      by blast
    have "links (mcbs m') s middle_mcb_type [(p, n)]"
      using links_agree [OF _ m'(3), of s middle_mcb_type "[(p, n)]"] h(1) b by simp
    then have "chain (mcbs m') s (joined ((p, n) # (q, k) # bs))" using m'(2) b(1) False by (auto simp: chain_def)
    moreover have "agree (mcbs m) (mcbs m') s (s + span ((p, n) # (q, k) # bs))" using agree_mono [OF m'(3)] by simp
    ultimately show ?thesis using False step m'(1,4) by auto
  qed
next
  case (2 p n)
  then have "hdr (mcbs m) s ending_mcb_type p n" by (simp add: chain_def)
  then have "compress_loop (sg s) f m = Some (Inr m)" using get_hdr(1) by (subst compress_loop.simps) simp
  then show ?case using 2 by simp
next
  case 3
  then show ?case by (simp add: chain_def)
qed

definition low_chain :: "dos_mem \<Rightarrow> blocks \<Rightarrow> bool" where
  "low_chain m bs \<longleftrightarrow> chain (mcbs m) (unat (firstMCB m)) bs"

lemma DOS_CompressMemory_spec:
  assumes "low_chain m bs"
  obtains m' where "DOS_CompressMemory m = Some (Inr m')" "low_chain m' (joined bs)" "same_dos m m'"
    "agree (mcbs m) (mcbs m') (unat (firstMCB m)) (unat (firstMCB m) + span bs)"
  using compress_loop_spec [OF assms [unfolded low_chain_def], of 0]
  by (auto simp: DOS_CompressMemory_def low_chain_def max_allowed_faults_def same_dos_fields)

text \<open>Joining is idempotent, and independent of how the free space was cut.\<close>

definition apart :: "blocks \<Rightarrow> bool" where
  "apart bs \<longleftrightarrow> (\<forall>i. i + 1 < length bs \<longrightarrow> \<not> (fst (bs ! i) = MCB_FREE \<and> fst (bs ! (i + 1)) = MCB_FREE))"

lemma joined_hd: "bs \<noteq> [] \<Longrightarrow> fst (hd (joined bs)) = fst (hd bs)"
  by (induction bs rule: joined.induct) auto

lemma apart_Cons: "apart (b # bs) \<longleftrightarrow> apart bs \<and> (bs \<noteq> [] \<longrightarrow> \<not> (fst b = MCB_FREE \<and> fst (hd bs) = MCB_FREE))"
  by (cases bs) (auto simp: apart_def nth_Cons split: nat.splits)

lemma apart_Nil [simp]: "apart []"
  by (simp add: apart_def)

lemma joined_apart: "apart (joined bs)"
proof (induction bs rule: joined.induct)
  case (1 p n q k bs)
  then show ?case using joined_hd [of "(q, k) # bs"] by (auto simp: apart_Cons)
qed (auto simp: apart_Cons)

lemma apart_joined: "apart bs \<Longrightarrow> joined bs = bs"
  by (induction bs rule: joined.induct) (auto simp: apart_Cons)

lemma joined_used: "p \<noteq> MCB_FREE \<Longrightarrow> joined (xs @ (p, n) # ys) = joined xs @ (p, n) # joined ys"
proof (induction xs rule: joined.induct)
  case (2 q k)
  then show ?case by (cases ys) (auto split: prod.splits)
next
  case 3
  then show ?case by (cases ys) auto
qed auto

lemma joined_cut: "joined (xs @ (MCB_FREE, n) # (MCB_FREE, k) # ys) = joined (xs @ (MCB_FREE, n + k + 1) # ys)"
proof (induction xs rule: joined.induct)
  case (2 q j)
  then show ?case by (simp add: add.assoc)
qed auto

end
