(* ===== verification/Mcb_Search.thy ===== *)
theory Mcb_Search
  imports Mcb_Compress
begin

text \<open>
  The search of \<open>DOS_AllocateMemory\<close>: the candidates, the choice of each strategy,
  the loop that computes it, and the cut of the chosen block.
\<close>

section \<open>The choice of a free block\<close>

text \<open>The candidates of a search: the free blocks with their segments and sizes, in order. The strategy
  chooses among those that are large enough: the first one, the first of the smallest ones, or
  the last one.\<close>

type_synonym cand = "nat \<times> nat"

fun cands :: "nat \<Rightarrow> blocks \<Rightarrow> cand list" where
  "cands s [] = []"
| "cands s ((p, n) # bs) = (if p = MCB_FREE then [(s, n)] else []) @ cands (s + n + 1) bs"

definition fitting :: "nat \<Rightarrow> cand list \<Rightarrow> cand list" where
  "fitting b L = filter (\<lambda>x. b \<le> snd x) L"

definition best :: "cand list \<Rightarrow> cand" where
  "best F = hd (filter (\<lambda>x. \<forall>y \<in> set F. snd x \<le> snd y) F)"

definition chosen :: "u16 \<Rightarrow> nat \<Rightarrow> cand list \<Rightarrow> cand option" where
  "chosen st b L = (let F = fitting b L
     in if F = [] then None else Some (if st = 0 then hd F else if st = 1 then best F else last F))"

definition biggest :: "nat \<Rightarrow> cand list \<Rightarrow> nat" where
  "biggest b L = Max (insert 0 (snd ` set (filter (\<lambda>x. snd x < b) L)))"

lemma cands_append [simp]: "cands s (xs @ ys) = cands s xs @ cands (s + span xs) ys"
  by (induction xs arbitrary: s) (auto simp: add.assoc)

lemma fitting_append [simp]: "fitting b (L @ K) = fitting b L @ fitting b K"
  by (simp add: fitting_def)

lemma best_exists:
  fixes F :: "cand list"
  assumes "F \<noteq> []"
  shows "\<exists>x \<in> set F. \<forall>y \<in> set F. snd x \<le> snd y"
proof -
  have "Min (snd ` set F) \<in> snd ` set F" using assms by (intro Min_in) auto
  moreover have "\<forall>y \<in> set F. Min (snd ` set F) \<le> snd y" by simp
  ultimately show ?thesis by force
qed

lemma best_in:
  assumes "F \<noteq> []"
  shows "best F \<in> set F" "y \<in> set F \<Longrightarrow> snd (best F) \<le> snd y"
proof -
  have "filter (\<lambda>x. \<forall>y \<in> set F. snd x \<le> snd y) F \<noteq> []" using best_exists [OF assms] by (auto simp: filter_empty_conv)
  then have "best F \<in> set (filter (\<lambda>x. \<forall>y \<in> set F. snd x \<le> snd y) F)" unfolding best_def by (rule hd_in_set)
  then show "best F \<in> set F" "y \<in> set F \<Longrightarrow> snd (best F) \<le> snd y" by auto
qed

lemma best_snoc: "F \<noteq> [] \<Longrightarrow> best (F @ [x]) = (if snd x < snd (best F) then x else best F)"
proof -
  assume F: "F \<noteq> []"
  note b = best_in [OF F]
  show ?thesis
  proof (cases "snd x < snd (best F)")
    case True
    then have "filter (\<lambda>z. \<forall>y \<in> set (F @ [x]). snd z \<le> snd y) F = []"
      using b by (fastforce simp: filter_empty_conv)
    moreover have "\<forall>y \<in> set (F @ [x]). snd x \<le> snd y" using True b by fastforce
    ultimately show ?thesis using True by (simp add: best_def)
  next
    case False
    have eq: "filter (\<lambda>z. \<forall>y \<in> set (F @ [x]). snd z \<le> snd y) F = filter (\<lambda>z. \<forall>y \<in> set F. snd z \<le> snd y) F"
      using False b by (intro filter_cong) fastforce+
    have "filter (\<lambda>z. \<forall>y \<in> set F. snd z \<le> snd y) F \<noteq> []" using best_exists [OF F] by (auto simp: filter_empty_conv)
    then show ?thesis unfolding best_def filter_append eq using False by (simp add: best_def)
  qed
qed

lemma best_exact:
  assumes "\<forall>y \<in> set F. snd x < snd y" "\<forall>y \<in> set G. snd x \<le> snd y"
  shows "best (F @ x # G) = x"
proof -
  have "filter (\<lambda>z. \<forall>y \<in> set (F @ x # G). snd z \<le> snd y) F = []" using assms by (fastforce simp: filter_empty_conv)
  moreover have "\<forall>y \<in> set (F @ x # G). snd x \<le> snd y" using assms by fastforce
  ultimately show ?thesis by (simp add: best_def)
qed

lemma biggest_snoc: "biggest b (L @ [x]) = (if snd x < b then max (biggest b L) (snd x) else biggest b L)"
proof -
  have "Max (insert 0 (insert (snd x) A)) = max (Max (insert 0 A)) (snd x)" if "finite A" for A :: "nat set"
    using that by (subst insert_commute, subst Max_insert) (auto simp: max.commute)
  then show ?thesis by (simp add: biggest_def)
qed

lemma biggest_bound: "\<forall>x \<in> set L. snd x < B \<Longrightarrow> 0 < B \<Longrightarrow> biggest b L < B"
  by (auto simp: biggest_def)

lemma cands_bound: "x \<in> set (cands s bs) \<Longrightarrow> s \<le> fst x \<and> fst x + snd x + 1 \<le> s + span bs"
  by (induction bs arbitrary: s) (fastforce split: if_splits)+

section \<open>The search\<close>

definition alloc_end :: "u16 \<Rightarrow> u8 list \<Rightarrow> u16 \<Rightarrow> u16 \<Rightarrow> u16 \<Rightarrow> u16 \<Rightarrow> dos_mem \<Rightarrow> (alloc_result \<times> dos_mem) option" where
  "alloc_end blocks psp_name mem_strat bigsize found_seg found_seg_size m =
     (if truth (mem_strat AND 0x80) \<and> umb_chain_start m = umb_start_seg
      then alloc_loop blocks psp_name (firstMCB m) (mem_strat AND NOT 0xc0) bigsize found_seg found_seg_size m
      else if found_seg \<noteq> 0
      then if mem_strat AND 0x3f = 1
           then Some (Allocated (found_seg + 1), split_front found_seg found_seg_size blocks psp_name m)
           else let (segment, m) = split_back found_seg found_seg_size blocks psp_name m
                in Some (Allocated segment, m)
      else Some (Insufficient bigsize, DOS_SetError DOSERR_INSUFFICIENT_MEMORY m))"

definition search_inv :: "u16 \<Rightarrow> nat \<Rightarrow> cand list \<Rightarrow> u16 \<Rightarrow> u16 \<Rightarrow> u16 \<Rightarrow> bool" where
  "search_inv st b L big f fz \<longleftrightarrow> big = sg (biggest b L) \<and> (\<forall>x \<in> set L. 0 < fst x \<and> fst x < 65536 \<and> snd x < 65536) \<and>
     (st = 0 \<longrightarrow> fitting b L = []) \<and> (st = 1 \<longrightarrow> (\<forall>x \<in> set (fitting b L). b < snd x)) \<and>
     (f, fz) = (case chosen st b L of None \<Rightarrow> (0, 0) | Some (a, n) \<Rightarrow> (sg a, sg n))"

lemma chosen_in: "chosen st b L = Some x \<Longrightarrow> x \<in> set L \<and> b \<le> snd x"
  using best_in(1) [of "fitting b L"] hd_in_set [of "fitting b L"] last_in_set [of "fitting b L"]
  by (auto simp: chosen_def Let_def fitting_def split: if_splits)

lemma search_inv_unfit:
  assumes "search_inv st b L big f fz" "0 < a" "a < 65536" "n < 65536" "n < b"
  shows "search_inv st b (L @ [(a, n)]) (if big < sg n then sg n else big) f fz"
proof -
  have "biggest b L < 65536" using assms(1) biggest_bound [of L 65536 b] by (auto simp: search_inv_def)
  moreover have "fitting b [(a, n)] = []" using assms(5) by (simp add: fitting_def)
  ultimately show ?thesis
    using assms by (auto simp: search_inv_def chosen_def biggest_snoc sg_less sg_unat max_def)
qed

lemma search_inv_fit:
  assumes "search_inv st b L big f fz" "0 < a" "a < 65536" "n < 65536" "b \<le> n" "st \<noteq> 0" "st = 1 \<longrightarrow> b < n"
    and "take' \<longleftrightarrow> (st = 1 \<longrightarrow> fz = 0 \<or> sg n < fz)"
  shows "search_inv st b (L @ [(a, n)]) big (if take' then sg a else f) (if take' then sg n else fz)"
proof -
  have fit: "fitting b [(a, n)] = [(a, n)]" using assms(5) by (simp add: fitting_def)
  have big: "biggest b (L @ [(a, n)]) = biggest b L" using assms(5) by (simp add: biggest_snoc)
  show ?thesis
  proof (cases "fitting b L = []")
    case True
    then have "best (fitting b L @ [(a, n)]) = (a, n)" by (simp add: best_def)
    then show ?thesis using assms True fit big by (auto simp: search_inv_def chosen_def Let_def)
  next
    case False
    obtain a' n' where bst: "best (fitting b L) = (a', n')" by fastforce
    have "(a', n') \<in> set (fitting b L)" using best_in(1) [OF False] bst by simp
    then have n': "n' < 65536" "st = 1 \<longrightarrow> b < n'" using assms(1) by (auto simp: search_inv_def fitting_def)
    show ?thesis
    proof (cases "st = 1")
      case True
      then have f: "f = sg a'" "fz = sg n'" using assms(1) False bst by (simp_all add: search_inv_def chosen_def)
      have "take' \<longleftrightarrow> n < n'" using assms(4,8) True f n' sg_less(1) [of n "sg n'"] by (auto simp: sg_zero sg_unat)
      then show ?thesis using assms True False fit big f bst best_snoc [OF False, of "(a, n)"]
        by (auto simp: search_inv_def chosen_def)
    next
      case False
      then show ?thesis using assms fit big by (auto simp: search_inv_def chosen_def)
    qed
  qed
qed


lemma below_two: "(w :: u16) < 2 \<longleftrightarrow> w = 0 \<or> w = 1"
proof -
  have "w < 2 \<longleftrightarrow> unat w = 0 \<or> unat w = 1" by (simp add: word_less_nat_alt) linarith
  then show ?thesis by (simp add: word_unat_eq_iff)
qed

lemma alloc_early:
  assumes "GetPSPSeg a m = MCB_FREE" "GetSize a m = sz" "\<not> sz < blocks" "st = mem_strat AND 0x3f" "st = 0 \<or> st = 1 \<and> sz = blocks"
  shows "alloc_loop blocks psp_name a mem_strat big f fz m =
    Some (Allocated (a + 1), if sz = blocks then SetPSPSeg a (current_psp m) m else split_front a sz blocks psp_name m)"
  by (subst alloc_loop.simps) (use assms in \<open>auto simp: Let_def below_two\<close>)

lemma alloc_step:
  assumes "\<not> (GetPSPSeg a m = MCB_FREE \<and> \<not> GetSize a m < blocks \<and> (st = 0 \<or> st = 1 \<and> GetSize a m = blocks))" "st = mem_strat AND 0x3f"
    and "big' = (if GetPSPSeg a m = MCB_FREE \<and> GetSize a m < blocks \<and> big < GetSize a m then GetSize a m else big)"
    and "take' \<longleftrightarrow> GetPSPSeg a m = MCB_FREE \<and> \<not> GetSize a m < blocks \<and> (st = 1 \<longrightarrow> fz = 0 \<or> GetSize a m < fz)"
  shows "alloc_loop blocks psp_name a mem_strat big f fz m =
    (if GetType a m = ending_mcb_type then alloc_end blocks psp_name mem_strat big' (if take' then a else f) (if take' then GetSize a m else fz) m
     else alloc_loop blocks psp_name (a + GetSize a m + 1) mem_strat big' (if take' then a else f) (if take' then GetSize a m else fz) m)"
proof -
  have 1: "\<not> (GetPSPSeg a m = MCB_FREE \<and> \<not> GetSize a m < blocks \<and> GetSize a m = blocks \<and> mem_strat AND 0x3f < 2)"
    "\<not> (GetPSPSeg a m = MCB_FREE \<and> \<not> GetSize a m < blocks \<and> mem_strat AND 0x3f = 0)"
    using assms(1,2) by (auto simp: below_two)
  show ?thesis
    by (subst alloc_loop.simps, unfold Let_def if_not_P [OF 1(1)] if_not_P [OF 1(2)] alloc_end_def assms(2,3,4)) (rule refl)
qed

lemma scan_spec:
  assumes "chain (mcbs m) s (xs @ ys)" "ys \<noteq> []" "search_inv st (unat blocks) (L @ cands s xs) big f fz" "st = mem_strat AND 0x3f"
  shows "(\<exists>a n. (\<forall>K. chosen st (unat blocks) (L @ cands s (xs @ ys) @ K) = Some (a, n)) \<and> (a, n) \<in> set (cands s (xs @ ys)) \<and> st \<in> {0, 1} \<and>
      alloc_loop blocks psp_name (sg (s + span xs)) mem_strat big f fz m =
        Some (Allocated (sg (a + 1)), if n = unat blocks then SetPSPSeg (sg a) (current_psp m) m else split_front (sg a) (sg n) blocks psp_name m)) \<or>
    (\<exists>big' f' fz'. search_inv st (unat blocks) (L @ cands s (xs @ ys)) big' f' fz' \<and>
      alloc_loop blocks psp_name (sg (s + span xs)) mem_strat big f fz m = alloc_end blocks psp_name mem_strat big' f' fz' m)"
  using assms
proof (induction ys arbitrary: xs big f fz)
  case (Cons y ys)
  obtain p n where y: "y = (p, n)" by fastforce
  let ?a = "s + span xs" and ?b = "unat blocks"
  note h = chain_block [OF Cons.prems(1) [unfolded y]]
  have b: "0 < ?a" "?a < 65536" "n < 65536" using h(2,3) by simp_all
  note g = get_hdr [OF h(1)]
  have cs: "L @ cands s (xs @ [y]) = (L @ cands s xs) @ (if p = MCB_FREE then [(?a, n)] else [])"
    by (simp add: y)
  have early: "\<exists>a k. (\<forall>K. chosen st ?b (L @ cands s (xs @ y # ys) @ K) = Some (a, k)) \<and> (a, k) \<in> set (cands s (xs @ y # ys)) \<and> st \<in> {0, 1} \<and>
      alloc_loop blocks psp_name (sg ?a) mem_strat big f fz m =
        Some (Allocated (sg (a + 1)), if k = ?b then SetPSPSeg (sg a) (current_psp m) m else split_front (sg a) (sg k) blocks psp_name m)"
    if e: "p = MCB_FREE" "?b \<le> n" "st = 0 \<or> st = 1 \<and> n = ?b"
  proof (intro exI conjI)
    have F: "fitting ?b (L @ cands s (xs @ y # ys) @ K) = fitting ?b (L @ cands s xs) @ (?a, n) # fitting ?b (cands (?a + n + 1) ys @ K)" for K
      using e by (simp add: y fitting_def)
    show "\<forall>K. chosen st ?b (L @ cands s (xs @ y # ys) @ K) = Some (?a, n)"
    proof (cases "st = 0")
      case True
      then have "fitting ?b (L @ cands s xs) = []" using Cons.prems(3) by (simp add: search_inv_def)
      then show ?thesis using True unfolding chosen_def F Let_def by simp
    next
      case False
      then have "best (fitting ?b (L @ cands s xs) @ (?a, n) # fitting ?b (cands (?a + n + 1) ys @ K)) = (?a, n)" for K
        using e Cons.prems(3) by (intro best_exact) (auto simp: search_inv_def fitting_def)
      then show ?thesis using False e unfolding chosen_def F Let_def by simp
    qed
    show "(?a, n) \<in> set (cands s (xs @ y # ys))" using e(1) by (simp add: y)
    show "st \<in> {0, 1}" using e by blast
    show "alloc_loop blocks psp_name (sg ?a) mem_strat big f fz m =
        Some (Allocated (sg (?a + 1)), if n = ?b then SetPSPSeg (sg ?a) (current_psp m) m else split_front (sg ?a) (sg n) blocks psp_name m)"
      using alloc_early [OF g(2) [unfolded e(1)] g(3) _ Cons.prems(4)] e b by (simp add: sg_less sg_is sg_add)
  qed
  show ?case
  proof (cases "p = MCB_FREE \<and> ?b \<le> n \<and> (st = 0 \<or> st = 1 \<and> n = ?b)")
    case True
    then show ?thesis using early by blast
  next
    case False
    let ?big = "if p = MCB_FREE \<and> n < ?b \<and> big < sg n then sg n else big"
    let ?take = "p = MCB_FREE \<and> ?b \<le> n \<and> (st = 1 \<longrightarrow> fz = 0 \<or> sg n < fz)"
    let ?f = "if ?take then sg ?a else f" and ?fz = "if ?take then sg n else fz"
    have inv: "search_inv st ?b (L @ cands s (xs @ [y])) ?big ?f ?fz"
    proof (cases "p = MCB_FREE")
      case True
      show ?thesis
      proof (cases "n < ?b")
        case nb: True
        then show ?thesis using True search_inv_unfit [OF Cons.prems(3) b nb] unfolding cs by simp
      next
        case nb: False
        then have "st \<noteq> 0" "st = 1 \<longrightarrow> ?b < n" using False True by auto
        then show ?thesis using True nb search_inv_fit [OF Cons.prems(3) b _ _ _ refl] unfolding cs by simp
      qed
    next
      case False
      then show ?thesis using Cons.prems(3) unfolding cs by simp
    qed
    have step: "alloc_loop blocks psp_name (sg ?a) mem_strat big f fz m =
        (if ys = [] then alloc_end blocks psp_name mem_strat ?big ?f ?fz m
         else alloc_loop blocks psp_name (sg (s + span (xs @ [y]))) mem_strat ?big ?f ?fz m)"
    proof (subst alloc_step [OF _ Cons.prems(4), where big' = ?big and take' = ?take])
      show "\<not> (GetPSPSeg (sg ?a) m = MCB_FREE \<and> \<not> GetSize (sg ?a) m < blocks \<and> (st = 0 \<or> st = 1 \<and> GetSize (sg ?a) m = blocks))"
        using False unfolding g sg_less [OF b(3)] sg_is [OF b(3)] not_less .
    qed (auto simp: g sg_less(1) [OF b(3), of blocks] not_less [of n ?b] sg_add y add.assoc)
    show ?thesis
    proof (cases "ys = []")
      case True
      then have e: "alloc_loop blocks psp_name (sg ?a) mem_strat big f fz m = alloc_end blocks psp_name mem_strat ?big ?f ?fz m"
        unfolding step by (rule if_P)
      show ?thesis unfolding True by (intro disjI2 exI conjI) (rule inv, rule e)
    next
      case False
      then have e: "alloc_loop blocks psp_name (sg ?a) mem_strat big f fz m =
          alloc_loop blocks psp_name (sg (s + span (xs @ [y]))) mem_strat ?big ?f ?fz m"
        unfolding step by (rule if_not_P)
      have "chain (mcbs m) s ((xs @ [y]) @ ys)" using Cons.prems(1) by simp
      from Cons.IH [OF this False inv Cons.prems(4)] show ?thesis unfolding e by (simp only: append.assoc append.simps)
    qed
  qed
qed simp


section \<open>Cutting the chosen block\<close>

lemma cand_block:
  assumes "(a, n) \<in> set (cands s bs)"
  obtains xs ys where "bs = xs @ (MCB_FREE, n) # ys" "a = s + span xs"
  using assms
proof (induction bs arbitrary: s thesis)
  case (Cons x bs)
  obtain p k where x: "x = (p, k)" by fastforce
  show ?case
  proof (cases "p = MCB_FREE \<and> a = s \<and> n = k")
    case True
    then show ?thesis using Cons.prems(1) [of "[]" bs] x by simp
  next
    case False
    then have "(a, n) \<in> set (cands (s + k + 1) bs)" using Cons.prems(2) x by (auto split: if_splits)
    then obtain xs ys where "bs = xs @ (MCB_FREE, n) # ys" "a = s + k + 1 + span xs" using Cons.IH by blast
    then show ?thesis using Cons.prems(1) [of "x # xs" ys] x by simp
  qed
qed simp

lemma take_whole:
  assumes "chain (mcbs m) s (xs @ (q, n) # ys)" "mcbs m' = (mcbs m)(sg (s + span xs) := (mcbs m (sg (s + span xs)))\<lparr>psp_segment := p, filename := f\<rparr>)"
  shows "chain (mcbs m') s (xs @ (p, n) # ys)"
proof -
  note h = chain_block [OF assms(1)]
  have "chain (mcbs m') s (xs @ [(p, n)] @ ys)"
  proof (rule chain_replace)
    show "chain (mcbs m) s (xs @ [(q, n)] @ ys)" using assms(1) by simp
    show "agree (mcbs m) (mcbs m') (s + span xs) (s + span xs + span [(q, n)])" unfolding assms(2) using h(3) by (simp add: agree_upd)
  qed (use h(1) assms(2) in \<open>simp_all add: hdr_def\<close>)
  then show ?thesis by simp
qed

lemma split_front_chain:
  assumes "chain (mcbs m) s (xs @ (q, n) # ys)" "b < n"
  shows "chain (mcbs (split_front (sg (s + span xs)) (sg n) (sg b) f m)) s (xs @ (current_psp m, b) # (MCB_FREE, n - b - 1) # ys)"
    and "same_dos m (split_front (sg (s + span xs)) (sg n) (sg b) f m)"
    and "agree (mcbs m) (mcbs (split_front (sg (s + span xs)) (sg n) (sg b) f m)) s (s + span (xs @ (q, n) # ys))"
proof -
  let ?a = "s + span xs" and ?m = "split_front (sg (s + span xs)) (sg n) (sg b) f m"
  note h = chain_block [OF assms(1)]
  have ne: "sg (?a + b + 1) \<noteq> sg ?a" using h(2,3) assms(2) sg_eq [of "?a + b + 1" ?a] by simp
  have sz: "sg n - sg b - 1 = sg (n - b - 1)" using assms(2) by (simp add: sg_diff)
  have ag: "agree (mcbs m) (mcbs ?m) ?a (?a + n + 1)"
    using h(3) assms(2) by (auto simp: split_front_def Let_def sg_add agree_def sg_eq)
  have "chain (mcbs ?m) s (xs @ [(current_psp m, b), (MCB_FREE, n - b - 1)] @ ys)"
  proof (rule chain_replace)
    show "chain (mcbs m) s (xs @ [(q, n)] @ ys)" using assms(1) by simp
    show "agree (mcbs m) (mcbs ?m) ?a (?a + span [(q, n)])" using ag by simp
  qed (use h(1) ne sz assms(2) in \<open>simp_all add: hdr_def split_front_def Let_def sg_add GetType_def\<close>)
  then show "chain (mcbs ?m) s (xs @ (current_psp m, b) # (MCB_FREE, n - b - 1) # ys)" by simp
  show "same_dos m ?m" by (simp add: split_front_def Let_def)
  show "agree (mcbs m) (mcbs ?m) s (s + span (xs @ (q, n) # ys))" using agree_mono [OF ag] by simp
qed

lemma split_back_chain:
  assumes "chain (mcbs m) s (xs @ (q, n) # ys)" "b < n"
  shows "\<exists>m'. split_back (sg (s + span xs)) (sg n) (sg b) f m = (sg (s + span xs + 1 + (n - b)), m') \<and>
    chain (mcbs m') s (xs @ (MCB_FREE, n - b - 1) # (current_psp m, b) # ys) \<and> same_dos m m' \<and>
    agree (mcbs m) (mcbs m') s (s + span (xs @ (q, n) # ys))"
proof -
  let ?a = "s + span xs" 
  note h = chain_block [OF assms(1)]
  have nb: "sg n \<noteq> sg b" using h(2,3) assms(2) sg_eq [of n b] by simp
  have g: "sg ?a + 1 + sg n - sg b = sg (?a + 1 + (n - b))" "sg (?a + 1 + (n - b)) - 1 = sg (?a + (n - b))"
    using assms(2) by (simp_all add: sg_def of_nat_diff)
  have ne: "sg (?a + (n - b)) \<noteq> sg ?a" using h(2,3) assms(2) sg_eq [of "?a + (n - b)" ?a] by simp
  have sz: "sg n - sg b - 1 = sg (n - b - 1)" using assms(2) by (simp add: sg_diff)
  let ?x = "sg (?a + (n - b))"
  let ?m = "SetType (sg ?a) middle_mcb_type (SetPSPSeg (sg ?a) MCB_FREE (SetSize (sg ?a) (sg (n - b - 1))
    (SetFileName ?x f (SetPSPSeg ?x (current_psp m) (SetType ?x (GetType (sg ?a) m) (SetSize ?x (sg b) m))))))"
  have e: "split_back (sg ?a) (sg n) (sg b) f m = (sg (?a + 1 + (n - b)), ?m)"
    using nb by (simp only: split_back_def Let_def g sz if_False field_set get_set)
  have sd: "Suc (?a + n - Suc b) = ?a + n - b" using assms(2) by simp
  have ag: "agree (mcbs m) (mcbs ?m) ?a (?a + n + 1)"
    using h(3) assms(2) by (auto simp: agree_def sg_eq)
  have "chain (mcbs ?m) s (xs @ [(MCB_FREE, n - b - 1), (current_psp m, b)] @ ys)"
  proof (rule chain_replace)
    show "chain (mcbs m) s (xs @ [(q, n)] @ ys)" using assms(1) by simp
    show "agree (mcbs m) (mcbs ?m) ?a (?a + span [(q, n)])" using ag by simp
  qed (use h(1) ne assms(2) sd in \<open>simp_all add: hdr_def GetType_def\<close>)
  moreover have "same_dos m ?m" by simp
  moreover have "agree (mcbs m) (mcbs ?m) s (s + span (xs @ (q, n) # ys))" using agree_mono [OF ag] by simp
  ultimately show ?thesis using e by auto
qed


section \<open>The cut on the abstract chain\<close>

text \<open>The pieces a chosen block of size \<open>n\<close> is cut into, the segment handed out, and the chain with the
  block at \<open>a\<close> replaced.\<close>

definition pieces :: "u16 \<Rightarrow> u16 \<Rightarrow> nat \<Rightarrow> nat \<Rightarrow> blocks" where
  "pieces st psp b n = (if n = b then [(psp, b)]
     else if st = 0 \<or> st = 1 then [(psp, b), (MCB_FREE, n - b - 1)] else [(MCB_FREE, n - b - 1), (psp, b)])"

definition given :: "u16 \<Rightarrow> nat \<Rightarrow> nat \<Rightarrow> nat \<Rightarrow> nat" where
  "given st b a n = (if st = 0 \<or> st = 1 then a + 1 else a + 1 + (n - b))"

fun cut_at :: "blocks \<Rightarrow> nat \<Rightarrow> nat \<Rightarrow> blocks \<Rightarrow> blocks" where
  "cut_at ps a s [] = []"
| "cut_at ps a s ((p, n) # bs) = (if s = a then ps @ bs else (p, n) # cut_at ps a (s + n + 1) bs)"

lemma cut_at_append [simp]: "cut_at ps (s + span xs) s (xs @ (p, n) # ys) = xs @ ps @ ys"
proof (induction xs arbitrary: s)
  case (Cons x xs)
  obtain q k where x: "x = (q, k)" by fastforce
  then show ?case using Cons [of "s + k + 1"] by (simp add: add.assoc)
qed simp

lemma cut_at_outside: "a < s \<or> s + span bs \<le> a \<Longrightarrow> cut_at ps a s bs = bs"
  by (induction bs arbitrary: s) auto

lemma span_pieces: "b \<le> n \<Longrightarrow> span (pieces st psp b n) = n + 1"
  by (auto simp: pieces_def)

lemma span_cut_at: "(a, n) \<in> set (cands s bs) \<Longrightarrow> b \<le> n \<Longrightarrow> span (cut_at (pieces st psp b n) a s bs) = span bs"
  by (erule cand_block) (simp add: span_pieces)

definition cut_block :: "u16 \<Rightarrow> u8 list \<Rightarrow> nat \<Rightarrow> nat \<Rightarrow> nat \<Rightarrow> dos_mem \<Rightarrow> u16 \<times> dos_mem" where
  "cut_block st f b a n m =
     (if st = 0 \<or> st = 1
      then (sg (a + 1), if n = b then SetPSPSeg (sg a) (current_psp m) m else split_front (sg a) (sg n) (sg b) f m)
      else split_back (sg a) (sg n) (sg b) f m)"

lemma cut_block_spec:
  assumes "chain (mcbs m) s bs" "(a, n) \<in> set (cands s bs)" "b \<le> n"
  obtains m' where "cut_block st f b a n m = (sg (given st b a n), m')" "same_dos m m'"
    "chain (mcbs m') s (cut_at (pieces st (current_psp m) b n) a s bs)" "agree (mcbs m) (mcbs m') s (s + span bs)"
proof -
  obtain xs ys where bs: "bs = xs @ (MCB_FREE, n) # ys" and a: "a = s + span xs" using cand_block [OF assms(2)] by blast
  note c = assms(1) [unfolded bs]
  note h = chain_block [OF c]
  note thesis = that [unfolded bs a cut_at_append]
  show ?thesis
  proof (cases "n = b")
    case True
    define m' where "m' = (if st = 0 \<or> st = 1 then SetPSPSeg (sg a) (current_psp m) m else SetFileName (sg a) f (SetPSPSeg (sg a) (current_psp m) m))"
    have "mcbs m' = (mcbs m)(sg (s + span xs) := (mcbs m (sg (s + span xs)))\<lparr>psp_segment := current_psp m,
        filename := (if st = 0 \<or> st = 1 then filename (mcbs m (sg a)) else f)\<rparr>)"
      by (auto simp: m'_def a)
    from take_whole [OF c this] have "chain (mcbs m') s (xs @ pieces st (current_psp m) b n @ ys)" using True by (simp add: pieces_def)
    moreover have "cut_block st f b a n m = (sg (given st b a n), m')"
      using True by (auto simp: cut_block_def given_def m'_def split_back_def sg_add)
    moreover have "agree (mcbs m) (mcbs m') s (s + span bs)" using h(3) unfolding m'_def by (simp add: agree_upd a bs)
    ultimately show ?thesis by (intro thesis) (simp_all add: m'_def a bs)
  next
    case False
    then have b: "b < n" using assms(3) by simp
    show ?thesis
    proof (cases "st = 0 \<or> st = 1")
      case True
      then show ?thesis using split_front_chain [OF c b, of f] False
        by (intro thesis [of "split_front (sg a) (sg n) (sg b) f m"]) (auto simp: cut_block_def given_def pieces_def a)
    next
      case False
      from split_back_chain [OF c b, of f] obtain m' where "split_back (sg a) (sg n) (sg b) f m = (sg (a + 1 + (n - b)), m')"
        "chain (mcbs m') s (xs @ (MCB_FREE, n - b - 1) # (current_psp m, b) # ys)" "same_dos m m'"
        "agree (mcbs m) (mcbs m') s (s + span (xs @ (MCB_FREE, n) # ys))" unfolding a by blast
      then show ?thesis using False b by (intro thesis [of m']) (auto simp: cut_block_def given_def pieces_def a)
    qed
  qed
qed

end
