(* ===== verification/Mcb_Alloc.thy ===== *)
theory Mcb_Alloc
  imports Mcb_Search
begin

text \<open>
  \<open>DOS_AllocateMemory\<close> on the chains of conventional and upper memory, and the
  chain that \<open>DOS_SetupMemory\<close> builds.
\<close>

section \<open>Both chains\<close>

text \<open>The chain of conventional memory and, when upper memory is installed and not linked to it, the
  chain of upper memory behind it.\<close>

definition dos_chains :: "dos_mem \<Rightarrow> blocks \<Rightarrow> blocks \<Rightarrow> bool" where
  "dos_chains m bs us \<longleftrightarrow> low_chain m bs \<and>
     (if umb_chain_start m = umb_start_seg
      then chain (mcbs m) (unat umb_start_seg) us \<and> unat (firstMCB m) + span bs \<le> unat umb_start_seg else us = [])"

lemma dos_chains_agree_low:
  assumes "dos_chains m bs us" "same_dos m m'" "agree (mcbs m) (mcbs m') (unat (firstMCB m)) (unat (firstMCB m) + span bs)"
    and "chain (mcbs m') (unat (firstMCB m)) bs'" "span bs' = span bs"
  shows "dos_chains m' bs' us"
  using assms chain_agree [OF _ assms(3), of "unat umb_start_seg" us] by (auto simp: dos_chains_def low_chain_def same_dos_fields split: if_splits)

lemma dos_chains_agree_umb:
  assumes "dos_chains m bs us" "umb_chain_start m = umb_start_seg" "same_dos m m'"
    and "agree (mcbs m) (mcbs m') (unat umb_start_seg) (unat umb_start_seg + span us)" "chain (mcbs m') (unat umb_start_seg) us'"
  shows "dos_chains m' bs us'"
  using assms chain_agree [OF _ assms(4), of "unat (firstMCB m)" bs] by (auto simp: dos_chains_def low_chain_def same_dos_fields)

lemma compress_chains:
  assumes "dos_chains m bs us"
  obtains m' where "DOS_CompressMemory m = Some (Inr m')" "dos_chains m' (joined bs) us" "same_dos m m'"
proof -
  have "low_chain m bs" using assms by (simp add: dos_chains_def)
  from DOS_CompressMemory_spec [OF this] obtain m' where m': "DOS_CompressMemory m = Some (Inr m')" "low_chain m' (joined bs)" "same_dos m m'"
    "agree (mcbs m) (mcbs m') (unat (firstMCB m)) (unat (firstMCB m) + span bs)" by blast
  then have "dos_chains m' (joined bs) us"
    by (intro dos_chains_agree_low [OF assms]) (simp_all add: low_chain_def same_dos_fields)
  then show ?thesis using m' that by blast
qed

section \<open>Allocation\<close>

text \<open>The candidates in the order of the search: with bit 6 or 7 of the strategy set, upper memory is
  searched, and with bit 7 conventional memory after it.\<close>

definition search_list :: "dos_mem \<Rightarrow> blocks \<Rightarrow> blocks \<Rightarrow> cand list" where
  "search_list m bs us =
     (let low = cands (unat (firstMCB m)) bs
      in if umb_chain_start m = umb_start_seg \<and> truth (allocation_strategy m AND 0xc0)
         then cands (unat umb_start_seg) us @ (if truth (allocation_strategy m AND 0x80) then low else []) else low)"

lemma cut_chains:
  assumes d: "dos_chains m bs us" and c: "(a, n) \<in> set (cands (unat (firstMCB m)) bs) \<or>
      umb_chain_start m = umb_start_seg \<and> (a, n) \<in> set (cands (unat umb_start_seg) us)" and b: "b \<le> n"
  obtains m' where "cut_block st f b a n m = (sg (given st b a n), m')" "same_dos m m'"
    "dos_chains m' (cut_at (pieces st (current_psp m) b n) a (unat (firstMCB m)) bs)
       (if umb_chain_start m = umb_start_seg then cut_at (pieces st (current_psp m) b n) a (unat umb_start_seg) us else [])"
proof (cases "(a, n) \<in> set (cands (unat (firstMCB m)) bs)")
  case True
  have "chain (mcbs m) (unat (firstMCB m)) bs" using d by (simp add: dos_chains_def low_chain_def)
  from cut_block_spec [OF this True b] obtain m' where m': "cut_block st f b a n m = (sg (given st b a n), m')" "same_dos m m'"
    "chain (mcbs m') (unat (firstMCB m)) (cut_at (pieces st (current_psp m) b n) a (unat (firstMCB m)) bs)"
    "agree (mcbs m) (mcbs m') (unat (firstMCB m)) (unat (firstMCB m) + span bs)" by blast
  have "umb_chain_start m = umb_start_seg \<Longrightarrow> cut_at (pieces st (current_psp m) b n) a (unat umb_start_seg) us = us"
    "umb_chain_start m \<noteq> umb_start_seg \<Longrightarrow> us = []"
    using d cands_bound [OF True] by (auto simp: dos_chains_def intro!: cut_at_outside)
  moreover have "dos_chains m' (cut_at (pieces st (current_psp m) b n) a (unat (firstMCB m)) bs) us"
    using dos_chains_agree_low [OF d m'(2,4,3)] span_cut_at [OF True b] by simp
  ultimately show ?thesis using m'(1,2) that by fastforce
next
  case False
  then have u: "umb_chain_start m = umb_start_seg" "(a, n) \<in> set (cands (unat umb_start_seg) us)" using c by auto
  have "chain (mcbs m) (unat umb_start_seg) us" using d u(1) by (simp add: dos_chains_def)
  from cut_block_spec [OF this u(2) b] obtain m' where m': "cut_block st f b a n m = (sg (given st b a n), m')" "same_dos m m'"
    "chain (mcbs m') (unat umb_start_seg) (cut_at (pieces st (current_psp m) b n) a (unat umb_start_seg) us)"
    "agree (mcbs m) (mcbs m') (unat umb_start_seg) (unat umb_start_seg + span us)" by blast
  have "cut_at (pieces st (current_psp m) b n) a (unat (firstMCB m)) bs = bs"
    using d u(1) cands_bound [OF u(2)] by (auto simp: dos_chains_def intro!: cut_at_outside)
  then show ?thesis using dos_chains_agree_umb [OF d u(1) m'(2,4,3)] m'(1,2) u(1) that by simp
qed

lemma alloc_end_spec:
  assumes "search_inv st (unat blocks) L big f fz" "st = mem_strat AND 0x3f" "\<not> (truth (mem_strat AND 0x80) \<and> umb_chain_start m = umb_start_seg)"
  shows "alloc_end blocks psp_name mem_strat big f fz m =
    (case chosen st (unat blocks) L of
       None \<Rightarrow> Some (Insufficient (sg (biggest (unat blocks) L)), DOS_SetError DOSERR_INSUFFICIENT_MEMORY m)
     | Some (a, n) \<Rightarrow> Some (case cut_block st psp_name (unat blocks) a n m of (g, m) \<Rightarrow> (Allocated g, m)))"
proof (cases "chosen st (unat blocks) L")
  case None
  then show ?thesis using assms by (auto simp: search_inv_def alloc_end_def)
next
  case (Some x)
  obtain a n where x: "x = (a, n)" by fastforce
  have i: "(a, n) \<in> set L" "unat blocks \<le> n" using chosen_in [OF Some] x by auto
  then have a: "0 < a" "a < 65536" using assms(1) by (auto simp: search_inv_def)
  have f: "f = sg a" "fz = sg n" "st \<noteq> 0" using assms(1) Some x by (auto simp: search_inv_def chosen_def)
  have "st = 1 \<longrightarrow> n \<noteq> unat blocks" using assms(1) i by (auto simp: search_inv_def fitting_def)
  then show ?thesis using assms(2,3) f a Some x by (auto simp: alloc_end_def cut_block_def sg_zero sg_add split: prod.split)
qed

lemma alloc_chain:
  assumes "chain (mcbs m) s bs" "search_inv st (unat blocks) L big f fz" "st = mem_strat AND 0x3f"
    and "\<not> (truth (mem_strat AND 0x80) \<and> umb_chain_start m = umb_start_seg)"
  shows "alloc_loop blocks psp_name (sg s) mem_strat big f fz m =
    (case chosen st (unat blocks) (L @ cands s bs) of
       None \<Rightarrow> Some (Insufficient (sg (biggest (unat blocks) (L @ cands s bs))), DOS_SetError DOSERR_INSUFFICIENT_MEMORY m)
     | Some (a, n) \<Rightarrow> Some (case cut_block st psp_name (unat blocks) a n m of (g, m) \<Rightarrow> (Allocated g, m)))"
proof -
  have "bs \<noteq> []" using assms(1) by (simp add: chain_def)
  from scan_spec [where xs = "[]", unfolded append.simps cands.simps append_Nil2 span.simps add_0_right, OF assms(1) this assms(2,3), of psp_name]
  show ?thesis
  proof (elim disjE exE conjE)
    fix big' f' fz'
    assume "search_inv st (unat blocks) (L @ cands s bs) big' f' fz'"
      "alloc_loop blocks psp_name (sg s) mem_strat big f fz m = alloc_end blocks psp_name mem_strat big' f' fz' m"
    then show ?thesis using alloc_end_spec [OF _ assms(3,4)] by simp
  next
    fix a n
    assume "\<forall>K. chosen st (unat blocks) (L @ cands s bs @ K) = Some (a, n)"
    then have "chosen st (unat blocks) (L @ cands s bs @ []) = Some (a, n)" by blast
    moreover assume "st \<in> {0, 1}" "alloc_loop blocks psp_name (sg s) mem_strat big f fz m = Some (Allocated (sg (a + 1)),
      if n = unat blocks then SetPSPSeg (sg a) (current_psp m) m else split_front (sg a) (sg n) blocks psp_name m)"
    ultimately show ?thesis by (auto simp: cut_block_def)
  qed
qed

lemma search_inv_start: "search_inv st b [] 0 0 0"
  by (simp add: search_inv_def chosen_def fitting_def biggest_def sg_def)

text \<open>The search over upper memory goes on in conventional memory when bit 7 is set.\<close>

lemma alloc_umb_chain:
  assumes u: "chain (mcbs m) s us" and l: "low_chain m bs" and st: "st = mem_strat AND 0x3f"
    and h: "truth (mem_strat AND 0x80)" "umb_chain_start m = umb_start_seg"
  shows "alloc_loop blocks psp_name (sg s) mem_strat 0 0 0 m =
    (let L = cands s us @ cands (unat (firstMCB m)) bs in case chosen st (unat blocks) L of
       None \<Rightarrow> Some (Insufficient (sg (biggest (unat blocks) L)), DOS_SetError DOSERR_INSUFFICIENT_MEMORY m)
     | Some (a, n) \<Rightarrow> Some (case cut_block st psp_name (unat blocks) a n m of (g, m) \<Rightarrow> (Allocated g, m)))"
proof -
  have "us \<noteq> []" using u by (simp add: chain_def)
  from scan_spec [where xs = "[]" and L = "[]", unfolded append.simps cands.simps append_Nil2 span.simps add_0_right, OF u this search_inv_start st, of blocks psp_name]
  show ?thesis
  proof (elim disjE exE conjE)
    fix big' f' fz'
    assume i: "search_inv st (unat blocks) (cands s us) big' f' fz'"
      and "alloc_loop blocks psp_name (sg s) mem_strat 0 0 0 m = alloc_end blocks psp_name mem_strat big' f' fz' m"
    then have e: "alloc_loop blocks psp_name (sg s) mem_strat 0 0 0 m =
        alloc_loop blocks psp_name (sg (unat (firstMCB m))) (mem_strat AND NOT 0xc0) big' f' fz' m"
      using h by (simp add: alloc_end_def)
    have "(mem_strat AND NOT 0xc0) AND 0x3f = mem_strat AND 0x3f" "(mem_strat AND NOT 0xc0) AND 0x80 = 0"
      by (simp_all add: and.assoc)
    then show ?thesis unfolding e Let_def
      by (intro alloc_chain [OF l [unfolded low_chain_def] i]) (simp_all only: st truth_zero simp_thms)
  next
    fix a n
    assume "\<forall>K. chosen st (unat blocks) (cands s us @ K) = Some (a, n)"
    then have "chosen st (unat blocks) (cands s us @ cands (unat (firstMCB m)) bs) = Some (a, n)" by blast
    moreover assume "st \<in> {0, 1}" "alloc_loop blocks psp_name (sg s) mem_strat 0 0 0 m = Some (Allocated (sg (a + 1)),
      if n = unat blocks then SetPSPSeg (sg a) (current_psp m) m else split_front (sg a) (sg n) blocks psp_name m)"
    ultimately show ?thesis by (auto simp: cut_block_def)
  qed
qed


lemma allocate_memory_spec:
  assumes "dos_chains m bs us"
  shows "\<exists>r m'. DOS_AllocateMemory blocks m = Some (Inr (r, m')) \<and>
    (let st = allocation_strategy m AND 0x3f; b = unat blocks; L = search_list m (joined bs) us
     in case chosen st b L of
       None \<Rightarrow> r = Insufficient (sg (biggest b L)) \<and> errorcode m' = DOSERR_INSUFFICIENT_MEMORY \<and> dos_chains m' (joined bs) us
     | Some (a, n) \<Rightarrow> r = Allocated (sg (given st b a n)) \<and> same_dos m m' \<and>
         dos_chains m' (cut_at (pieces st (current_psp m) b n) a (unat (firstMCB m)) (joined bs))
           (cut_at (pieces st (current_psp m) b n) a (unat umb_start_seg) us))"
proof -
  from compress_chains [OF assms] obtain c where c: "DOS_CompressMemory m = Some (Inr c)" "dos_chains c (joined bs) us" "same_dos m c" by blast
  note sf = same_dos_fields [OF c(3)]
  define st where "st = allocation_strategy m AND 0x3f"
  define L where "L = search_list m (joined bs) us"
  define f where "f = GetFileName (current_psp m - 1) c"
  define start where "start = (if umb_chain_start m = umb_start_seg \<and> truth (allocation_strategy m AND 0xc0) then umb_chain_start m else firstMCB m)"
  have low: "chain (mcbs c) (unat (firstMCB m)) (joined bs)" using c(2) by (simp add: dos_chains_def low_chain_def sf)
  have bits: "(allocation_strategy m AND 0xc0) AND 0x80 = allocation_strategy m AND 0x80" by (simp add: and.assoc)
  have loop: "alloc_loop blocks f start (allocation_strategy m) 0 0 0 c =
      (case chosen st (unat blocks) L of
         None \<Rightarrow> Some (Insufficient (sg (biggest (unat blocks) L)), DOS_SetError DOSERR_INSUFFICIENT_MEMORY c)
       | Some (a, n) \<Rightarrow> Some (case cut_block st f (unat blocks) a n c of (g, m) \<Rightarrow> (Allocated g, m)))"
  proof (cases "umb_chain_start m = umb_start_seg \<and> truth (allocation_strategy m AND 0xc0)")
    case True
    then have u: "chain (mcbs c) (unat umb_start_seg) us" using c(2) by (simp add: dos_chains_def sf)
    show ?thesis
    proof (cases "truth (allocation_strategy m AND 0x80)")
      case h: True
      have l: "L = cands (unat umb_start_seg) us @ cands (unat (firstMCB m)) (joined bs)" using True h by (simp add: L_def search_list_def Let_def)
      show ?thesis unfolding l using alloc_umb_chain [OF u _ st_def h, of "joined bs" blocks f] c(2) True
        by (simp add: start_def Let_def sf dos_chains_def)
    next
      case h: False
      have l: "L = cands (unat umb_start_seg) us" using True h by (simp add: L_def search_list_def Let_def)
      show ?thesis unfolding l using alloc_chain [OF u search_inv_start st_def, of blocks f, unfolded append_Nil] True h by (simp add: start_def)
    qed
  next
    case False
    then have "\<not> (truth (allocation_strategy m AND 0x80) \<and> umb_chain_start c = umb_start_seg)"
      using bits by (auto simp: truth_def sf)
    moreover have l: "L = cands (unat (firstMCB m)) (joined bs)" using False unfolding L_def search_list_def Let_def by (rule if_not_P)
    moreover have "start = firstMCB m" using False unfolding start_def by (rule if_not_P)
    ultimately show ?thesis unfolding l using alloc_chain [OF low search_inv_start st_def, of blocks f, unfolded append_Nil] by simp
  qed
  have run: "DOS_AllocateMemory blocks m = map_option Inr (alloc_loop blocks f start (allocation_strategy m) 0 0 0 c)"
    unfolding DOS_AllocateMemory_def by (simp add: c(1) Let_def f_def start_def sf)
  show ?thesis
  proof (cases "chosen st (unat blocks) L")
    case None
    have "dos_chains (DOS_SetError DOSERR_INSUFFICIENT_MEMORY c) (joined bs) us" using c(2) by (auto simp: dos_chains_def low_chain_def)
    moreover have "errorcode (DOS_SetError DOSERR_INSUFFICIENT_MEMORY c) = DOSERR_INSUFFICIENT_MEMORY" by (simp add: DOS_SetError_def)
    ultimately show ?thesis using run None unfolding loop st_def [symmetric] L_def [symmetric] Let_def by simp
  next
    case (Some x)
    obtain a n where x: "x = (a, n)" by fastforce
    have "(a, n) \<in> set L" "unat blocks \<le> n" using chosen_in [OF Some] x by auto
    then have cand: "(a, n) \<in> set (cands (unat (firstMCB c)) (joined bs)) \<or>
        umb_chain_start c = umb_start_seg \<and> (a, n) \<in> set (cands (unat umb_start_seg) us)"
      by (auto simp: L_def search_list_def Let_def sf split: if_splits)
    from cut_chains [OF c(2) cand \<open>unat blocks \<le> n\<close>, of st f] obtain m' where m': "cut_block st f (unat blocks) a n c = (sg (given st (unat blocks) a n), m')"
      "same_dos c m'" "dos_chains m' (cut_at (pieces st (current_psp c) (unat blocks) n) a (unat (firstMCB c)) (joined bs))
       (if umb_chain_start c = umb_start_seg then cut_at (pieces st (current_psp c) (unat blocks) n) a (unat umb_start_seg) us else [])" .
    have "umb_chain_start c \<noteq> umb_start_seg \<Longrightarrow> us = []" using c(2) by (simp add: dos_chains_def)
    then have "dos_chains m' (cut_at (pieces st (current_psp m) (unat blocks) n) a (unat (firstMCB m)) (joined bs))
       (cut_at (pieces st (current_psp m) (unat blocks) n) a (unat umb_start_seg) us)"
      using m'(3) by (cases "umb_chain_start c = umb_start_seg") (simp_all add: sf)
    then show ?thesis using run Some x m'(1) same_dos_trans [OF c(3) m'(2)] unfolding loop st_def [symmetric] L_def [symmetric] Let_def by simp
  qed
qed

section \<open>The chain at start-up\<close>

fun setup_blocks :: "machine_kind \<Rightarrow> blocks" where
  "setup_blocks Tandy = [(MCB_DOS, 1), (MCB_FREE, 4), (0x40, 16), (MCB_FREE, 0x9A78)]"
| "setup_blocks Pcjr_expanded = [(MCB_DOS, 1), (MCB_FREE, 4), (0x40, 16), (MCB_DOS, 0x2278), (MCB_FREE, 0x7bfe)]"
| "setup_blocks Pcjr_standard = [(MCB_DOS, 1), (MCB_FREE, 4), (0x40, 16), (MCB_FREE, 0x1678)]"
| "setup_blocks Other_machine = [(MCB_DOS, 1), (MCB_FREE, 4), (0x40, 16), (MCB_FREE, 0x9e77)]"

lemma setup_chain: "low_chain (DOS_SetupMemory k m) (setup_blocks k)"
  by (cases k) (simp_all add: low_chain_def chain_def hdr_def DOS_SetupMemory_def put_block_def DOS_MEM_START_def kilobytes_to_segment_def
    Let_def sg_def umb_start_seg_def)

end
