(* ===== verification/Mcb_Resize.thy ===== *)
theory Mcb_Resize
  imports Mcb_Alloc
begin

text \<open>
  \<open>DOS_FreeMemory\<close>, \<open>DOS_ResizeMemory\<close> and
  \<open>DOS_FreeProcessMemory\<close> on the chains.
\<close>

section \<open>Freeing a block\<close>

lemma dos_chains_replace:
  assumes d: "dos_chains m (xs @ zs @ ys) us" and "zs \<noteq> []" "zs' \<noteq> []" "span zs' = span zs" "same_dos m m'"
    and l: "links (mcbs m') (unat (firstMCB m) + span xs) (if ys = [] then ending_mcb_type else middle_mcb_type) zs'"
    and ag: "agree (mcbs m) (mcbs m') (unat (firstMCB m) + span xs) (unat (firstMCB m) + span xs + span zs)"
  shows "dos_chains m' (xs @ zs' @ ys) us"
proof (rule dos_chains_agree_low [OF d assms(5)])
  show "agree (mcbs m) (mcbs m') (unat (firstMCB m)) (unat (firstMCB m) + span (xs @ zs @ ys))"
    using agree_mono [OF ag] by simp
  show "chain (mcbs m') (unat (firstMCB m)) (xs @ zs' @ ys)"
    using chain_replace [OF _ assms(2-4) l ag] d by (simp add: dos_chains_def low_chain_def)
qed (simp add: assms(4))

lemma dos_chains_error [simp]: "dos_chains (DOS_SetError e m) bs us \<longleftrightarrow> dos_chains m bs us"
  by (auto simp: dos_chains_def low_chain_def)

lemma errorcode_set [simp]: "errorcode (DOS_SetError e m) = e"
  by (simp add: DOS_SetError_def)

lemma low_block:
  assumes "dos_chains m (xs @ (p, n) # ys) us"
  shows "hdr (mcbs m) (unat (firstMCB m) + span xs) (if ys = [] then ending_mcb_type else middle_mcb_type) p n"
    and "0 < unat (firstMCB m) + span xs" "unat (firstMCB m) + span xs + n + 1 + span ys < 65536"
    and "sg (unat (firstMCB m) + span xs + 1) - 1 = sg (unat (firstMCB m) + span xs)"
  using chain_block [of "mcbs m" "unat (firstMCB m)" xs p n ys] assms by (simp_all add: dos_chains_def low_chain_def sg_diff)

lemma free_memory_chain:
  assumes "dos_chains m (xs @ (p, n) # ys) us" "unat DOS_MEM_START \<le> unat (firstMCB m) + span xs"
  obtains m' where "DOS_FreeMemory (sg (unat (firstMCB m) + span xs + 1)) m = (True, m')" "same_dos m m'"
    "dos_chains m' (xs @ (MCB_FREE, n) # ys) us"
proof -
  let ?a = "unat (firstMCB m) + span xs"
  let ?m = "SetPSPSeg (sg ?a) MCB_FREE m"
  note h = low_block [OF assms(1)]
  have "\<not> sg (?a + 1) < DOS_MEM_START + 1"
    using assms(2) h(3) sg_less(1) [of "?a + 1" "DOS_MEM_START + 1"] by (simp add: DOS_MEM_START_def)
  moreover have "valid_type (sg ?a) m" using get_hdr(1) [OF h(1)] by (auto simp: valid_type_def)
  ultimately have "DOS_FreeMemory (sg (?a + 1)) m = (True, ?m)" unfolding DOS_FreeMemory_def h(4) by simp
  moreover have "dos_chains ?m (xs @ [(MCB_FREE, n)] @ ys) us"
  proof (rule dos_chains_replace)
    show "dos_chains m (xs @ [(p, n)] @ ys) us" using assms(1) by simp
    show "agree (mcbs m) (mcbs ?m) ?a (?a + span [(p, n)])" using h(3) by (simp add: agree_upd)
  qed (use h(1) in \<open>simp_all add: hdr_def\<close>)
  ultimately show ?thesis using that by simp
qed

section \<open>Resizing a block\<close>

text \<open>What becomes of the block and its right neighbour: the flag and the size handed back, and the
  blocks that replace it.\<close>

definition resized :: "u16 \<Rightarrow> nat \<Rightarrow> nat \<Rightarrow> blocks \<Rightarrow> bool \<times> nat \<times> blocks" where
  "resized psp b n ys =
     (if b = n then (True, n, (psp, n) # ys)
      else if b < n then (True, b, (psp, b) # (MCB_FREE, n - b - 1) # ys)
      else case ys of
          (q, k) # zs \<Rightarrow>
            if q \<noteq> MCB_FREE then (False, n, (psp, n) # ys)
            else if b < n + k + 1 then (True, b, (psp, b) # (MCB_FREE, n + k + 1 - b - 1) # zs)
            else (b = n + k + 1, n + k + 1, (psp, n + k + 1) # zs)
        | [] \<Rightarrow> (False, n, [(psp, n)]))"

lemma resize_shrink:
  assumes d: "dos_chains m (xs @ (p, n) # ys) us" and b: "b < n" and a: "a = unat (firstMCB m) + span xs"
  shows "dos_chains (SetPSPSeg (sg a) (current_psp m) (SetPSPSeg (sg (a + 1 + b)) MCB_FREE (SetSize (sg (a + 1 + b)) (sg (n - b - 1))
      ((if ys = [] then SetType (sg a) middle_mcb_type else (\<lambda>x. x)) (SetType (sg (a + 1 + b)) (if ys = [] then ending_mcb_type else middle_mcb_type)
        (SetSize (sg a) (sg b) m)))))) (xs @ (current_psp m, b) # (MCB_FREE, n - b - 1) # ys) us" (is "dos_chains ?m _ _")
proof -
  note h = low_block [OF d, folded a]
  have ne: "sg (a + 1 + b) \<noteq> sg a" using h(2,3) b sg_eq [of "a + 1 + b" a] by simp
  have "dos_chains ?m (xs @ [(current_psp m, b), (MCB_FREE, n - b - 1)] @ ys) us"
  proof (rule dos_chains_replace)
    show "dos_chains m (xs @ [(p, n)] @ ys) us" using d by simp
    show "agree (mcbs m) (mcbs ?m) (unat (firstMCB m) + span xs) (unat (firstMCB m) + span xs + span [(p, n)])"
      using h(3) b a by (auto simp: agree_def sg_eq)
  qed (use h(1) ne b a in \<open>simp_all add: hdr_def\<close>)
  then show ?thesis by simp
qed

lemma resize_grow:
  assumes d: "dos_chains m (xs @ (p, n) # (q, k) # ys) us" and b: "n < b" "b < n + k + 1" and a: "a = unat (firstMCB m) + span xs"
    and t: "t = (if ys = [] then ending_mcb_type else middle_mcb_type)"
  shows "dos_chains (SetPSPSeg (sg a) (current_psp m) (SetType (sg a) middle_mcb_type (SetPSPSeg (sg (a + 1 + b)) MCB_FREE
      (SetType (sg (a + 1 + b)) t (SetSize (sg (a + 1 + b)) (sg (n + k + 1 - b - 1)) (SetSize (sg a) (sg b) (SetType (sg a) t m)))))))
      (xs @ (current_psp m, b) # (MCB_FREE, n + k + 1 - b - 1) # ys) us" (is "dos_chains ?m _ _")
proof -
  note h = low_block [OF d, folded a]
  have ne: "sg (a + 1 + b) \<noteq> sg a" using h(2,3) b sg_eq [of "a + 1 + b" a] by simp
  have "dos_chains ?m (xs @ [(current_psp m, b), (MCB_FREE, n + k + 1 - b - 1)] @ ys) us"
  proof (rule dos_chains_replace)
    show "dos_chains m (xs @ [(p, n), (q, k)] @ ys) us" using d by simp
    show "agree (mcbs m) (mcbs ?m) (unat (firstMCB m) + span xs) (unat (firstMCB m) + span xs + span [(p, n), (q, k)])"
      using h(3) b a by (auto simp: agree_def sg_eq)
  qed (use h(1) ne b a t in \<open>simp_all add: hdr_def\<close>)
  then show ?thesis by simp
qed

lemma resize_join:
  assumes d: "dos_chains m (xs @ (p, n) # (q, k) # ys) us" and a: "a = unat (firstMCB m) + span xs"
    and t: "t = (if ys = [] then ending_mcb_type else middle_mcb_type)"
  shows "dos_chains (SetPSPSeg (sg a) (current_psp m) (SetSize (sg a) (sg (n + k + 1)) (SetType (sg a) t m)))
      (xs @ (current_psp m, n + k + 1) # ys) us" (is "dos_chains ?m _ _")
proof -
  note h = low_block [OF d, folded a]
  have "dos_chains ?m (xs @ [(current_psp m, n + k + 1)] @ ys) us"
  proof (rule dos_chains_replace)
    show "dos_chains m (xs @ [(p, n), (q, k)] @ ys) us" using d by simp
    show "agree (mcbs m) (mcbs ?m) (unat (firstMCB m) + span xs) (unat (firstMCB m) + span xs + span [(p, n), (q, k)])"
      using h(3) a by (auto simp: agree_def sg_eq)
  qed (use h(1) a t in \<open>simp_all add: hdr_def\<close>)
  then show ?thesis by simp
qed

lemma resize_same:
  assumes d: "dos_chains m (xs @ (p, n) # ys) us" and a: "a = unat (firstMCB m) + span xs"
  shows "dos_chains (SetPSPSeg (sg a) (current_psp m) m) (xs @ (current_psp m, n) # ys) us" (is "dos_chains ?m _ _")
proof -
  note h = low_block [OF d, folded a]
  have "dos_chains ?m (xs @ [(current_psp m, n)] @ ys) us"
  proof (rule dos_chains_replace)
    show "dos_chains m (xs @ [(p, n)] @ ys) us" using d by simp
    show "agree (mcbs m) (mcbs ?m) (unat (firstMCB m) + span xs) (unat (firstMCB m) + span xs + span [(p, n)])"
      using h(3) a by (auto simp: agree_def sg_eq)
  qed (use h(1) a in \<open>simp_all add: hdr_def\<close>)
  then show ?thesis by simp
qed


lemma joined_idem [simp]: "joined (joined bs) = joined bs"
  by (simp add: apart_joined joined_apart)

lemma joined_tl: "joined bs = x # ys \<Longrightarrow> joined ys = ys"
  using joined_apart [of bs] by (simp add: apart_Cons apart_joined)

text \<open>The block at \<open>a\<close> in the memory \<open>c\<close> that the compression left.\<close>

definition resize_at :: "dos_mem \<Rightarrow> dos_mem \<Rightarrow> u16 \<Rightarrow> nat \<Rightarrow> blocks \<Rightarrow> u16 \<Rightarrow> nat \<Rightarrow> blocks \<Rightarrow> blocks \<Rightarrow> bool" where
  "resize_at m c w a xs p n ys us \<longleftrightarrow> DOS_CompressMemory m = Some (Inr c) \<and> dos_chains c (xs @ (p, n) # ys) us \<and>
     a = unat (firstMCB c) + span xs \<and> w = sg (a + 1) \<and> valid_type (sg a) m"

lemma resize_at_facts:
  assumes "resize_at m c w a xs p n ys us"
  shows "DOS_CompressMemory m = Some (Inr c)" "dos_chains c (xs @ (p, n) # ys) us" "a = unat (firstMCB c) + span xs"
    "w - 1 = sg a" "valid_type (sg a) m" "w + sg k = sg (a + 1 + k)" "w + blocks = sg (a + 1 + unat blocks)"
    "a + n + 1 + span ys < 65536" "GetType (sg a) c = (if ys = [] then ending_mcb_type else middle_mcb_type)" "GetSize (sg a) c = sg n"
    "blocks \<le> sg n \<longleftrightarrow> unat blocks \<le> n" "blocks = sg n \<longleftrightarrow> unat blocks = n"
proof -
  have r: "DOS_CompressMemory m = Some (Inr c)" "dos_chains c (xs @ (p, n) # ys) us" "a = unat (firstMCB c) + span xs" "w = sg (a + 1)" "valid_type (sg a) m"
    using assms unfolding resize_at_def by blast+
  note h = low_block [OF r(2), folded r(3)]
  have n: "n < 65536" using h(3) by simp
  show "DOS_CompressMemory m = Some (Inr c)" "dos_chains c (xs @ (p, n) # ys) us" "a = unat (firstMCB c) + span xs" "valid_type (sg a) m"
    "a + n + 1 + span ys < 65536" by (fact r h)+
  show "w - 1 = sg a" unfolding r(4) by (rule h(4))
  have wk: "w + sg k = sg (a + 1 + k)" for k by (simp add: r(4) sg_add)
  then show "w + sg k = sg (a + 1 + k)" "w + blocks = sg (a + 1 + unat blocks)" using wk [of "unat blocks"] by simp_all
  show "GetType (sg a) c = (if ys = [] then ending_mcb_type else middle_mcb_type)" "GetSize (sg a) c = sg n" using get_hdr [OF h(1)] by simp_all
  show "blocks \<le> sg n \<longleftrightarrow> unat blocks \<le> n" "blocks = sg n \<longleftrightarrow> unat blocks = n" using sg_le [OF n] sg_is [OF n, of blocks] by auto
qed

lemma resize_run_same:
  assumes r: "resize_at m c w a xs p n ys us" and b: "unat blocks = n"
  shows "\<exists>m'. DOS_ResizeMemory w blocks m = Some (Inr (True, sg n, m')) \<and> dos_chains m' (xs @ (current_psp c, n) # ys) us"
  using resize_same [OF resize_at_facts(2) [OF r] resize_at_facts(3) [OF r]] b
  by (auto simp: DOS_ResizeMemory_def Let_def resize_at_facts(1,4,5,9-12) [OF r])

lemma resize_run_shrink:
  assumes r: "resize_at m c w a xs p n ys us" and b: "unat blocks < n"
  shows "\<exists>m'. DOS_ResizeMemory w blocks m = Some (Inr (True, blocks, m')) \<and>
    dos_chains m' (joined (xs @ (current_psp c, unat blocks) # (MCB_FREE, n - unat blocks - 1) # ys)) us"
proof -
  note f = resize_at_facts [OF r]
  let ?b = "unat blocks" and ?A = "sg a"
  let ?x = "sg (a + 1 + unat blocks)"
  let ?m = "SetPSPSeg ?A (current_psp c) (SetPSPSeg ?x MCB_FREE (SetSize ?x (sg (n - ?b - 1))
    ((if ys = [] then SetType ?A middle_mcb_type else (\<lambda>x. x)) (SetType ?x (if ys = [] then ending_mcb_type else middle_mcb_type)
      (SetSize ?A (sg ?b) c)))))"
  have sz: "sg n - blocks - 1 = sg (n - ?b - 1)" using b sg_diff(1) [of ?b n] by (simp add: sg_diff)
  have ne: "?x \<noteq> ?A" using f(8) b sg_eq [of "a + 1 + ?b" a] by simp
  from compress_chains [OF resize_shrink [OF f(2) b f(3)]] obtain m' where m': "DOS_CompressMemory ?m = Some (Inr m')"
    "dos_chains m' (joined (xs @ (current_psp c, ?b) # (MCB_FREE, n - ?b - 1) # ys)) us" by blast
  have "DOS_ResizeMemory w blocks m = Some (Inr (True, blocks, m'))"
    using b m'(1) ne by (cases "ys = []") (simp_all add: DOS_ResizeMemory_def Let_def f(1,4,5,7,9-12) sz)
  then show ?thesis using m'(2) by blast
qed

lemma resize_run_stuck:
  assumes r: "resize_at m c w a xs p n ys us" and b: "n < unat blocks" and s: "ys = [] \<or> fst (hd ys) \<noteq> MCB_FREE"
  shows "\<exists>m'. DOS_ResizeMemory w blocks m = Some (Inr (False, sg n, m')) \<and> dos_chains m' (xs @ (current_psp c, n) # ys) us \<and>
    errorcode m' = DOSERR_INSUFFICIENT_MEMORY"
proof -
  note f = resize_at_facts [OF r]
  have keep: "SetSize (sg a) (sg n) c = c" using f(10) by (cases c; cases "mcbs c (sg a)") (auto simp: header_defs fun_eq_iff)
  have no: "\<not> unat blocks \<le> n" "unat blocks \<noteq> n" "\<not> blocks < sg n" using b f(8) sg_less(2) [of n blocks] by auto
  let ?m = "DOS_SetError DOSERR_INSUFFICIENT_MEMORY (SetPSPSeg (sg a) (current_psp c) c)"
  have nxt: "ys \<noteq> [] \<Longrightarrow> GetPSPSeg (w + sg n) c \<noteq> MCB_FREE"
  proof -
    assume "ys \<noteq> []"
    then obtain q k zs where z: "ys = (q, k) # zs" by (cases ys) auto
    then have "dos_chains c ((xs @ [(p, n)]) @ (q, k) # zs) us" using f(2) by simp
    from get_hdr(2) [OF low_block(1) [OF this]] show ?thesis using s z f(6) [of n] by (simp add: f(3) add.assoc)
  qed
  have "DOS_ResizeMemory w blocks m = Some (Inr (False, sg n, ?m))"
    using no nxt by (cases "ys = []") (simp_all add: DOS_ResizeMemory_def Let_def f(1,4,5,9-12) keep)
  moreover have "dos_chains ?m (xs @ (current_psp c, n) # ys) us" using resize_same [OF f(2,3)] by simp
  ultimately show ?thesis by auto
qed

lemma resize_run_room:
  assumes r: "resize_at m c w a xs p n ((MCB_FREE, k) # zs) us" and b: "n < unat blocks"
  shows "\<exists>m'. DOS_ResizeMemory w blocks m =
      Some (Inr (if unat blocks < n + k + 1 then (True, blocks, m') else (unat blocks = n + k + 1, sg (n + k + 1), m'))) \<and>
    dos_chains m' (if unat blocks < n + k + 1 then joined (xs @ (current_psp c, unat blocks) # (MCB_FREE, n + k + 1 - unat blocks - 1) # zs)
      else xs @ (current_psp c, n + k + 1) # zs) us \<and> (n + k + 1 < unat blocks \<longrightarrow> errorcode m' = DOSERR_INSUFFICIENT_MEMORY)"
proof -
  note f = resize_at_facts [OF r]
  let ?b = "unat blocks" and ?A = "sg a" and ?psp = "current_psp c" and ?t = "if zs = [] then ending_mcb_type else middle_mcb_type"
  have "dos_chains c ((xs @ [(p, n)]) @ (MCB_FREE, k) # zs) us" using f(2) by simp
  from get_hdr [OF low_block(1) [OF this]]
  have nxt: "GetType (w + sg n) c = ?t" "GetPSPSeg (w + sg n) c = MCB_FREE" "GetSize (w + sg n) c = sg k"
    using f(6) [of n] by (simp_all add: f(3) add.assoc)
  have no: "\<not> ?b \<le> n" "?b \<noteq> n" using b by auto
  have tb: "n + k + 1 < 65536" using f(8) by simp
  have tot: "sg n + (sg k + 1) = sg (n + k + 1)" by (simp add: sg_add)
  have lt: "blocks < sg (n + k + 1) \<longleftrightarrow> ?b < n + k + 1" "blocks = sg (n + k + 1) \<longleftrightarrow> ?b = n + k + 1"
    using sg_less(2) [OF tb, of blocks] sg_is [OF tb, of blocks] by auto
  have xA: "w + sg n \<noteq> ?A" using f(8) sg_eq [of "a + 1 + n" a] by (simp add: f(6))
  note run = DOS_ResizeMemory_def Let_def f(1,4,5,9,10) f(7,11,12) [where blocks = blocks]
  show ?thesis
  proof (cases "?b < n + k + 1")
    case True
    let ?x = "sg (a + 1 + ?b)"
    let ?m = "SetPSPSeg ?A ?psp (SetType ?A middle_mcb_type (SetPSPSeg ?x MCB_FREE
      (SetType ?x ?t (SetSize ?x (sg (n + k + 1 - ?b - 1)) (SetSize ?A (sg ?b) (SetType ?A ?t c))))))"
    have sz: "sg (n + k + 1) - blocks - 1 = sg (n + k + 1 - ?b - 1)" using True sg_diff(1) [of ?b "n + k + 1"] by (simp add: sg_diff)
    have ne: "?x \<noteq> ?A" using f(8) True sg_eq [of "a + 1 + ?b" a] by simp
    from compress_chains [OF resize_grow [OF f(2) b True f(3) refl]] obtain m' where m': "DOS_CompressMemory ?m = Some (Inr m')"
      "dos_chains m' (joined (xs @ (?psp, ?b) # (MCB_FREE, n + k + 1 - ?b - 1) # zs)) us" by blast
    have "DOS_ResizeMemory w blocks m = Some (Inr (True, blocks, m'))"
      using no True m'(1) ne by (simp add: run nxt tot lt sz xA del: One_nat_def)
    then show ?thesis using m'(2) True by simp
  next
    case False
    let ?m = "SetPSPSeg ?A ?psp (SetSize ?A (sg (n + k + 1)) (SetType ?A ?t c))"
    have "dos_chains ?m (xs @ (?psp, n + k + 1) # zs) us" using resize_join [OF f(2,3) refl] by simp
    moreover have "DOS_ResizeMemory w blocks m = Some (Inr (?b = n + k + 1, sg (n + k + 1),
        if ?b = n + k + 1 then SetPSPSeg ?A ?psp ?m else DOS_SetError DOSERR_INSUFFICIENT_MEMORY ?m))"
      using no False by (simp add: run nxt tot lt xA del: One_nat_def)
    moreover have "SetPSPSeg ?A ?psp ?m = ?m" by (simp add: header_defs)
    ultimately show ?thesis using False by auto
  qed
qed

lemma resize_memory_spec:
  assumes d: "dos_chains m (xs @ (p, n) # ys) us" and p: "p \<noteq> MCB_FREE" "current_psp m \<noteq> MCB_FREE"
    and r: "resized (current_psp m) (unat blocks) n (joined ys) = (ok, sz, rest)"
    and w: "w = sg (unat (firstMCB m) + span xs + 1)"
  shows "\<exists>m'. DOS_ResizeMemory w blocks m = Some (Inr (ok, sg sz, m')) \<and>
    dos_chains m' (joined (xs @ rest)) us \<and> (\<not> ok \<longrightarrow> errorcode m' = DOSERR_INSUFFICIENT_MEMORY)"
proof -
  let ?a = "unat (firstMCB m) + span xs" and ?b = "unat blocks"
  from compress_chains [OF d] obtain c where c: "DOS_CompressMemory m = Some (Inr c)" "dos_chains c (joined xs @ (p, n) # joined ys) us" "same_dos m c"
    unfolding joined_used [OF p(1)] by blast
  note sf = same_dos_fields [OF c(3)]
  have "valid_type (sg ?a) m" using get_hdr(1) [OF low_block(1) [OF d]] by (auto simp: valid_type_def)
  then have ra: "resize_at m c w ?a (joined xs) p n (joined ys) us" unfolding resize_at_def using c w by (simp add: sf)
  have fin: "joined xs @ (current_psp m, k) # R = joined (xs @ (current_psp m, k) # R)" if "joined R = R" for k R
    using joined_used [OF p(2)] that by simp
  consider (same) "?b = n" | (less) "?b < n" | (stuck) "n < ?b" "joined ys = [] \<or> fst (hd (joined ys)) \<noteq> MCB_FREE"
    | (room) k zs where "n < ?b" "joined ys = (MCB_FREE, k) # zs"
    by (cases "joined ys") force+
  then show ?thesis
  proof cases
    case same
    then show ?thesis using resize_run_same [OF ra same] r fin [of "joined ys" n] by (auto simp: resized_def sf)
  next
    case less
    then show ?thesis using resize_run_shrink [OF ra less] r p(2) by (auto simp: resized_def sf joined_used)
  next
    case stuck
    then have "ok = False" "sz = n" "rest = (current_psp m, n) # joined ys" using r by (auto simp: resized_def split: list.splits)
    then show ?thesis using resize_run_stuck [OF ra stuck] fin [of "joined ys" n] by (auto simp: sf)
  next
    case room
    then show ?thesis using resize_run_room [OF ra [unfolded room(2)] room(1)] r p(2) fin [OF joined_tl [OF room(2)], of "n + k + 1"]
      by (auto simp: resized_def sf joined_used split: if_splits)
  qed
qed

section \<open>Ending a process\<close>

definition released :: "u16 \<Rightarrow> blocks \<Rightarrow> blocks" where
  "released psp = map (\<lambda>(p, n). (if p = psp then MCB_FREE else p, n))"

lemma released_simps [simp]: "released psp [] = []"
  "released psp ((p, n) # bs) = (if p = psp then MCB_FREE else p, n) # released psp bs"
  by (simp_all add: released_def)

lemma released_span [simp]: "span (released psp bs) = span bs" "released psp bs = [] \<longleftrightarrow> bs = []"
  by (induction bs) (auto split: prod.splits)

lemma free_process_loop_spec:
  "chain (mcbs m) s bs \<Longrightarrow> f < max_allowed_faults \<Longrightarrow>
   \<exists>m'. free_process_loop psp (sg s) f m = Some (Inr m') \<and> chain (mcbs m') s (released psp bs) \<and>
        agree (mcbs m) (mcbs m') s (s + span bs) \<and> same_dos m m'"
proof (induction bs arbitrary: m s)
  case Nil
  then show ?case by (simp add: chain_def)
next
  case (Cons x bs)
  obtain p n where x: "x = (p, n)" by fastforce
  let ?m = "if p = psp then SetPSPSeg (sg s) MCB_FREE m else m" and ?p = "if p = psp then MCB_FREE else p"
  let ?t = "if bs = [] then ending_mcb_type else middle_mcb_type"
  have "chain (mcbs m) s ([] @ (p, n) # bs)" using Cons.prems(1) x by simp
  note h = chain_block [OF this, unfolded span.simps add_0_right]
  note g = get_hdr [OF h(1)]
  have c: "chain (mcbs ?m) s ([] @ [(?p, n)] @ bs)"
  proof (rule chain_replace)
    show "chain (mcbs m) s ([] @ [(p, n)] @ bs)" using Cons.prems(1) x by simp
    show "agree (mcbs m) (mcbs ?m) (s + span []) (s + span [] + span [(p, n)])" using h(3) by (auto simp: agree_def sg_eq)
  qed (use h(1) in \<open>simp_all add: hdr_def\<close>)
  have ag: "agree (mcbs m) (mcbs ?m) s (s + span (x # bs))" using h(3) x by (auto simp: agree_def sg_eq)
  have step: "free_process_loop psp (sg s) f m = (if bs = [] then Some (Inr ?m) else free_process_loop psp (sg (s + n + 1)) f ?m)"
    using g Cons.prems(2) by (subst free_process_loop.simps) (auto simp: Let_def triage_block_def valid_type_def sg_add)
  show ?case
  proof (cases "bs = []")
    case True
    then show ?thesis using step c ag x by (auto simp: chain_def)
  next
    case False
    then have "chain (mcbs ?m) (s + n + 1) bs" using c by (auto simp: chain_def)
    from Cons.IH [OF this Cons.prems(2)] obtain m' where m': "free_process_loop psp (sg (s + n + 1)) f ?m = Some (Inr m')"
      "chain (mcbs m') (s + n + 1) (released psp bs)" "agree (mcbs ?m) (mcbs m') (s + n + 1) (s + n + 1 + span bs)" "same_dos ?m m'" by blast
    have "hdr (mcbs ?m) s middle_mcb_type ?p n" using c False by (simp add: chain_def)
    then have "links (mcbs m') s middle_mcb_type [(?p, n)]"
      using links_agree [OF _ m'(3), of s middle_mcb_type "[(?p, n)]"] h(3) by simp
    then have "chain (mcbs m') s (released psp (x # bs))" using m'(2) h(2) False by (auto simp: chain_def x)
    moreover have "agree (mcbs m) (mcbs m') s (s + span (x # bs))" using agree_trans [OF ag] agree_mono [OF m'(3)] x by simp
    moreover have "same_dos m m'" using m'(4) same_dos_trans [of m ?m m'] by (cases "p = psp") auto
    ultimately show ?thesis using step m'(1) False by auto
  qed
qed

lemma free_process_spec:
  assumes "dos_chains m bs us"
  obtains m' where "DOS_FreeProcessMemory psp m = Some (Inr m')" "dos_chains m' (joined (released psp bs)) (released psp us)" "same_dos m m'"
proof -
  have f: "0 < max_allowed_faults" by (simp add: max_allowed_faults_def)
  have "chain (mcbs m) (unat (firstMCB m)) bs" using assms by (simp add: dos_chains_def low_chain_def)
  from free_process_loop_spec [OF this f, of psp] obtain c where c: "free_process_loop psp (firstMCB m) 0 m = Some (Inr c)"
    "chain (mcbs c) (unat (firstMCB m)) (released psp bs)" "agree (mcbs m) (mcbs c) (unat (firstMCB m)) (unat (firstMCB m) + span bs)" "same_dos m c" by auto
  note sf = same_dos_fields [OF c(4)]
  have d: "dos_chains c (released psp bs) us" using dos_chains_agree_low [OF assms c(4,3,2)] by simp
  show ?thesis
  proof (cases "umb_chain_start m = umb_start_seg")
    case True
    then have "chain (mcbs c) (unat umb_start_seg) us" using d by (simp add: dos_chains_def sf)
    from free_process_loop_spec [OF this f, of psp] obtain e where e: "free_process_loop psp umb_start_seg 0 c = Some (Inr e)"
      "chain (mcbs e) (unat umb_start_seg) (released psp us)" "agree (mcbs c) (mcbs e) (unat umb_start_seg) (unat umb_start_seg + span us)" "same_dos c e" by auto
    have "dos_chains e (released psp bs) (released psp us)" using dos_chains_agree_umb [OF d _ e(4,3,2)] True by (simp add: sf)
    from compress_chains [OF this] obtain m' where m': "DOS_CompressMemory e = Some (Inr m')"
      "dos_chains m' (joined (released psp bs)) (released psp us)" "same_dos e m'" .
    have "DOS_FreeProcessMemory psp m = Some (Inr m')" using c(1) e(1) m'(1) True by (simp add: DOS_FreeProcessMemory_def sf)
    then show ?thesis using m'(2) same_dos_trans [OF c(4) same_dos_trans [OF e(4) m'(3)]] by (rule that)
  next
    case False
    then have "us = []" using assms by (simp add: dos_chains_def)
    from compress_chains [OF d] obtain m' where m': "DOS_CompressMemory c = Some (Inr m')"
      "dos_chains m' (joined (released psp bs)) us" "same_dos c m'" .
    have "DOS_FreeProcessMemory psp m = Some (Inr m')" using c(1) m'(1) False by (simp add: DOS_FreeProcessMemory_def sf)
    then show ?thesis using m'(2) same_dos_trans [OF c(4) m'(3)] \<open>us = []\<close> that by simp
  qed
qed

end
