(* ===== verification/Mcb_Umb.thy ===== *)
theory Mcb_Umb
  imports Mcb_Resize
begin

text \<open>
  Upper memory: \<open>DOS_BuildUMBChain\<close> and \<open>DOS_LinkUMBsToMemChain\<close>; and
  a corrupt chain on which the merge never ends.
\<close>

section \<open>Linking upper memory\<close>

lemma find_last_chain: "chain (mcbs m) s bs \<Longrightarrow> find_last (sg s) m = Some (sg (s + span (butlast bs)))"
proof (induction bs arbitrary: s)
  case (Cons x bs)
  obtain p n where x: "x = (p, n)" by fastforce
  have h: "hdr (mcbs m) s (if bs = [] then ending_mcb_type else middle_mcb_type) p n" using Cons.prems x by (simp add: chain_def)
  show ?case
  proof (cases "bs = []")
    case True
    then show ?thesis using get_hdr(1) [OF h] by (subst find_last.simps) simp
  next
    case False
    then have "chain (mcbs m) (s + n + 1) bs" using Cons.prems x by (simp add: chain_def)
    then show ?thesis using Cons.IH False get_hdr [OF h] x by (subst find_last.simps) (simp add: sg_add add.assoc)
  qed
qed (simp add: chain_def)

lemma find_umb_low:
  "chain (mcbs m) s bs \<Longrightarrow> s + span bs \<le> u \<Longrightarrow> u < 65536 \<Longrightarrow>
   \<exists>q. find_umb (sg u) (sg s) p m = Some (sg (s + span (butlast bs)), q)"
proof (induction bs arbitrary: s p)
  case (Cons x bs)
  obtain r n where x: "x = (r, n)" by fastforce
  have h: "hdr (mcbs m) s (if bs = [] then ending_mcb_type else middle_mcb_type) r n" using Cons.prems(1) x by (simp add: chain_def)
  have ne: "sg s \<noteq> sg u" using Cons.prems(2,3) x sg_eq [of s u] by simp
  show ?case
  proof (cases "bs = []")
    case True
    then show ?thesis using get_hdr(1) [OF h] by (subst find_umb.simps) simp
  next
    case False
    then have "chain (mcbs m) (s + n + 1) bs" using Cons.prems(1) x by (simp add: chain_def)
    then show ?thesis using Cons.IH [of "s + n + 1" "sg s"] False get_hdr [OF h] x ne Cons.prems(2,3)
      by (subst find_umb.simps) (simp add: sg_add add.assoc)
  qed
qed (simp add: chain_def)

lemma find_umb_linked:
  "links (mcbs m) s middle_mcb_type bs \<Longrightarrow> bs \<noteq> [] \<Longrightarrow> s + span bs < 65536 \<Longrightarrow>
   find_umb (sg (s + span bs)) (sg s) p m = Some (sg (s + span bs), sg (s + span (butlast bs)))"
proof (induction bs arbitrary: s p)
  case (Cons x bs)
  obtain r n where x: "x = (r, n)" by fastforce
  have h: "hdr (mcbs m) s middle_mcb_type r n" using Cons.prems(1) x by (simp split: if_splits)
  have ne: "sg s \<noteq> sg (s + span (x # bs))" using Cons.prems(3) x sg_eq [of s "s + span (x # bs)"] by simp
  have step: "find_umb (sg (s + span (x # bs))) (sg s) p m = find_umb (sg (s + span (x # bs))) (sg (s + n + 1)) (sg s) m"
    using get_hdr [OF h] ne by (subst find_umb.simps) (simp add: sg_add add.assoc)
  show ?case
  proof (cases "bs = []")
    case True
    then show ?thesis unfolding step by (subst find_umb.simps) (simp add: x)
  next
    case False
    have l: "links (mcbs m) (s + n + 1) middle_mcb_type bs" using Cons.prems(1) x by simp
    show ?thesis unfolding step using Cons.IH [OF l False, of "sg s"] Cons.prems(3) x False by (simp add: add.assoc)
  qed
qed simp

lemma chain_retype:
  assumes "chain c s bs" "c' = c(sg (s + span (butlast bs)) := c (sg (s + span (butlast bs)))\<lparr>mcb_type := t\<rparr>)"
  shows "links c' s t bs"
proof -
  obtain xs p n where bs: "bs = xs @ [(p, n)]" using assms(1) by (cases bs rule: rev_cases) (auto simp: chain_def)
  have l: "links c s ending_mcb_type (xs @ [(p, n)] @ [])" "s + span bs < 65536" using assms(1) bs by (simp_all add: chain_def)
  have h: "hdr c (s + span xs) ending_mcb_type p n" using l(1) by (simp add: links_append)
  have ag: "agree c c' (s + span xs) (s + span xs + n + 1)" using l(2) assms(2) bs by (auto simp: agree_def sg_eq)
  have "links c s middle_mcb_type xs" using l(1) by (simp add: links_append)
  then have "links c' s middle_mcb_type xs" using links_agree [OF _ ag] l(2) bs by simp
  then show ?thesis using h assms(2) by (simp add: bs links_append hdr_def)
qed


lemma retype_twice: "GetType a m = t \<Longrightarrow> SetType a t (SetType a t' m) = m"
  by (cases m; cases "mcbs m a") (auto simp: header_defs fun_eq_iff)

lemma link_umbs:
  assumes d: "dos_chains m bs us" and u: "umb_chain_start m = umb_start_seg" "umb_chain_state m = 0"
    and e: "unat (firstMCB m) + span bs = unat umb_start_seg"
  shows "\<exists>m'. DOS_LinkUMBsToMemChain 1 m = Some (True, m') \<and> low_chain m' (bs @ us) \<and> umb_chain_state m' = 1 \<and>
    DOS_LinkUMBsToMemChain 0 m' = Some (True, m)"
proof -
  let ?s = "unat (firstMCB m)" and ?U = "unat umb_start_seg"
  let ?L = "?s + span (butlast bs)"
  have l: "chain (mcbs m) ?s bs" and c: "chain (mcbs m) ?U us" using d u(1) by (simp_all add: dos_chains_def low_chain_def)
  obtain xs p n where bs: "bs = xs @ [(p, n)]" using l by (cases bs rule: rev_cases) (auto simp: chain_def)
  have t: "GetType (sg ?L) m = ending_mcb_type" using chain_block(1) [OF l [unfolded bs]] bs by (simp add: get_hdr)
  have b: "?L + n + 1 = ?U" using e bs by simp
  have U: "?U < 65536" by (simp add: umb_start_seg_def)
  from find_umb_low [OF l _ U, of "firstMCB m"] e obtain q where q: "find_umb umb_start_seg (firstMCB m) (firstMCB m) m = Some (sg ?L, q)" by auto
  define m1 where "m1 = (SetType (sg ?L) middle_mcb_type m)\<lparr>umb_chain_state := 1\<rparr>"
  have run1: "DOS_LinkUMBsToMemChain 1 m = Some (True, m1)"
    using u q t by (simp add: DOS_LinkUMBsToMemChain_def Let_def m1_def)
  have low: "links (mcbs m1) ?s middle_mcb_type bs" using chain_retype [OF l, of "mcbs m1"] by (simp add: m1_def)
  have "agree (mcbs m) (mcbs m1) ?L (?L + n + 1)" using b U by (auto simp: m1_def agree_def sg_eq)
  then have up: "chain (mcbs m1) ?U us" using chain_agree [OF c] b by simp
  have "chain (mcbs m1) ?s (bs @ us)" using low up e l by (auto simp: chain_def links_append)
  moreover have "find_umb umb_start_seg (firstMCB m) (firstMCB m) m1 = Some (umb_start_seg, sg ?L)"
    using find_umb_linked [OF low, of "firstMCB m"] e bs U by simp
  then have "DOS_LinkUMBsToMemChain 0 m1 = Some (True, (SetType (sg ?L) ending_mcb_type m1)\<lparr>umb_chain_state := 0\<rparr>)"
    using u by (simp add: DOS_LinkUMBsToMemChain_def Let_def m1_def GetType_def)
  moreover have "(SetType (sg ?L) ending_mcb_type m1)\<lparr>umb_chain_state := 0\<rparr> = m"
  proof -
    have "(SetType (sg ?L) ending_mcb_type m1)\<lparr>umb_chain_state := 0\<rparr> =
        (SetType (sg ?L) ending_mcb_type (SetType (sg ?L) middle_mcb_type m))\<lparr>umb_chain_state := 0\<rparr>"
      by (simp add: m1_def SetType_def upd_mcb_def)
    then show ?thesis using retype_twice [OF t] u(2) by (cases m) simp
  qed
  ultimately show ?thesis using run1 by (auto simp: low_chain_def m1_def)
qed

lemma build_umb_chain:
  assumes l: "low_chain m bs" and e: "unat (firstMCB m) + span bs = unat umb_start_seg"
  shows "\<exists>m'. DOS_BuildUMBChain True ems False m = Some m' \<and> umb_chain_start m' = umb_start_seg \<and> umb_chain_state m' = 0 \<and> firstMCB m' = firstMCB m \<and>
    dos_chains m' bs [(MCB_DOS, 0x3000), (MCB_FREE, if ems then 0xfff else 0x1fff)]"
proof -
  let ?s = "unat (firstMCB m)" and ?n = "if ems then 0xfff else 0x1fff :: nat" and ?U = "unat umb_start_seg"
  let ?c = "SetType (sg 0xd000) ending_mcb_type (SetSize (sg 0xd000) (sg ?n) (SetPSPSeg (sg 0xd000) MCB_FREE
    (m\<lparr>umb_chain_start := umb_start_seg, umb_chain_state := 0\<rparr>)))"
  let ?m = "SetFileName (sg ?U) [83, 67, 32, 32, 32, 32, 32, 32] (SetSize (sg ?U) (sg 0x3000) (SetPSPSeg (sg ?U) MCB_DOS
    (SetType (sg ?U) middle_mcb_type ?c)))"
  have U: "?U = 0x9fff" by (simp add: umb_start_seg_def)
  have c: "chain (mcbs m) ?s bs" using l by (simp add: low_chain_def)
  obtain xs p n where bs: "bs = xs @ [(p, n)]" using c by (cases bs rule: rev_cases) (auto simp: chain_def)
  have b: "?s + span xs + n + 1 = ?U" using e bs by simp
  have "agree (mcbs m) (mcbs ?c) ?U 65536" unfolding U by (auto simp: agree_def sg_eq)
  then have cc: "chain (mcbs ?c) ?s bs" using chain_agree [OF c] e by simp
  have last: "find_last (firstMCB m) ?c = Some (sg (?s + span xs))" using find_last_chain [OF cc] bs by simp
  have sz: "GetSize (sg (?s + span xs)) ?c = sg n" using get_hdr(3) [OF chain_block(1) [OF cc [unfolded bs]]] by simp
  have cov: "sg (?s + span xs) + sg n + 1 = sg ?U" unfolding b [symmetric] by (simp add: sg_add)
  have num: "sg 0xd000 = 0xd000" "sg 0x3000 = 0x3000" "sg 0xfff = 0xfff" "sg 0x1fff = 0x1fff" "0xcfff - umb_start_seg = 0x3000"
    by (simp_all add: sg_def umb_start_seg_def)
  have "DOS_BuildUMBChain True ems False m = Some ?m"
    using last sz cov by (cases ems) (simp_all add: DOS_BuildUMBChain_def Let_def MCB_FREE_def MCB_DOS_def num)
  moreover have "agree (mcbs m) (mcbs ?m) ?U 65536" unfolding U by (auto simp: agree_def sg_eq)
  then have "chain (mcbs ?m) ?s bs" using chain_agree [OF c] e by simp
  moreover have "chain (mcbs ?m) ?U [(MCB_DOS, 0x3000), (MCB_FREE, ?n)]"
    unfolding U by (simp add: chain_def hdr_def sg_eq)
  ultimately show ?thesis using e by (simp add: dos_chains_def low_chain_def)
qed


section \<open>A corrupt chain\<close>

text \<open>A block in use whose size is \<open>0xffff\<close> is its own successor.\<close>

lemma compress_loop_stuck:
  assumes "GetType a m \<noteq> ending_mcb_type" "GetPSPSeg a m \<noteq> MCB_FREE" "GetSize a m = 0xffff"
    and "f < max_allowed_faults"
  shows "compress_loop a f m = None"
proof -
  let ?P = "\<lambda>a' f' m' (r :: fatal + dos_mem). a' = a \<and> m' = m \<and> f' < max_allowed_faults \<longrightarrow> False"
  have w: "a + 0xffff + 1 = a" by simp
  have False if "compress_loop a f m = Some r" for r
  proof -
    have "?P a f m r"
    proof (rule compress_loop.raw_induct [where P = ?P, OF _ that], goal_cases)
      case (1 loop a' f' m' r')
      show ?case
      proof
        assume a: "a' = a \<and> m' = m \<and> f' < max_allowed_faults"
        have "loop a f' m = Some r'" using 1(2) assms(1-3) a w by (simp add: Let_def)
        then show False using 1(1) a by blast
      qed
    qed
    then show ?thesis using assms(4) by blast
  qed
  then show ?thesis by (cases "compress_loop a f m") auto
qed

end
