(* ===== verification/Mcb_Correct.thy ===== *)
theory Mcb_Correct
  imports Mcb_Umb
begin

text \<open>
  The properties of the DOS memory allocator.
\<close>

section \<open>Allocating and freeing\<close>

lemma joined_pieces: "b \<le> n \<Longrightarrow> joined (xs @ pieces st MCB_FREE b n @ ys) = joined (xs @ (MCB_FREE, n) # ys)"
  using joined_cut [of xs b "n - b - 1" ys] joined_cut [of xs "n - b - 1" b ys] by (auto simp: pieces_def)

lemma free_pieces:
  assumes d: "dos_chains m (xs @ pieces st psp b n @ ys) us" and a: "a = unat (firstMCB m) + span xs" "unat DOS_MEM_START \<le> a" and b: "b \<le> n"
  obtains m' where "DOS_FreeMemory (sg (given st b a n)) m = (True, m')" "dos_chains m' (xs @ pieces st MCB_FREE b n @ ys) us"
proof (cases "n = b \<or> st = 0 \<or> st = 1")
  case True
  define R where "R = (if n = b then [] else [(MCB_FREE, n - b - 1)])"
  have R: "pieces st psp b n = (psp, b) # R" "pieces st MCB_FREE b n = (MCB_FREE, b) # R" "given st b a n = a + 1"
    using True unfolding pieces_def given_def R_def by (cases "n = b"; simp)+
  have "dos_chains m (xs @ (psp, b) # R @ ys) us" using d R(1) by simp
  from free_memory_chain [OF this] obtain m' where "DOS_FreeMemory (sg (a + 1)) m = (True, m')" "dos_chains m' (xs @ (MCB_FREE, b) # R @ ys) us"
    using a by metis
  then show ?thesis using that by (simp add: R)
next
  case False
  then have p: "pieces st psp b n = [(MCB_FREE, n - b - 1), (psp, b)]" "pieces st MCB_FREE b n = [(MCB_FREE, n - b - 1), (MCB_FREE, b)]"
    "given st b a n = a + 1 + (n - b)" by (auto simp: pieces_def given_def)
  have "dos_chains m ((xs @ [(MCB_FREE, n - b - 1)]) @ (psp, b) # ys) us" using d p(1) by simp
  from free_memory_chain [OF this] obtain m' where "DOS_FreeMemory (sg (unat (firstMCB m) + span (xs @ [(MCB_FREE, n - b - 1)]) + 1)) m = (True, m')"
    "dos_chains m' ((xs @ [(MCB_FREE, n - b - 1)]) @ (MCB_FREE, b) # ys) us" using a by auto
  moreover have "unat (firstMCB m) + span (xs @ [(MCB_FREE, n - b - 1)]) + 1 = a + 1 + (n - b)" using a b False by auto
  ultimately show ?thesis using that by (simp add: p)
qed

section \<open>A machine\<close>

definition machine_mem :: dos_mem where
  "machine_mem = DOS_SetupMemory Other_machine \<lparr>mcbs = (\<lambda>_. \<lparr>mcb_type = 0, psp_segment = 0, mcb_size = 0, filename = []\<rparr>), firstMCB = 0,
     umb_chain_start = 0xffff, umb_chain_state = 0, allocation_strategy = 0, fault_strategy = Repair, current_psp = 0x300, errorcode = 0\<rparr>"

lemma machine_mem_fields: "firstMCB machine_mem = 0x16f" "umb_chain_start machine_mem = 0xffff" "allocation_strategy machine_mem = 0"
  "current_psp machine_mem = 0x300"
  by (simp_all add: machine_mem_def DOS_SetupMemory_def Let_def put_block_def DOS_MEM_START_def)

lemma machine_mem_chains: "dos_chains machine_mem [(MCB_DOS, 1), (MCB_FREE, 4), (0x40, 16), (MCB_FREE, 0x9e77)] []"
  using setup_chain [of Other_machine] machine_mem_fields(2) by (auto simp: dos_chains_def machine_mem_def umb_start_seg_def)

lemma machine_search:
  "search_list machine_mem (joined [(MCB_DOS, 1), (MCB_FREE, 4), (0x40, 16), (MCB_FREE, 0x9e77)]) [] = [(369, 4), (391, 0x9e77)]"
  by (simp add: search_list_def machine_mem_fields MCB_DOS_def MCB_FREE_def umb_start_seg_def)

lemma machine_chosen: "chosen (allocation_strategy machine_mem AND 0x3f) (unat (0x100 :: u16)) [(369, 4), (391, 0x9e77)] = Some (391, 0x9e77)"
  by (simp add: chosen_def fitting_def machine_mem_fields)

section \<open>Properties\<close>

text \<open>C32. Start-up: the headers that are written form a well-formed chain on every machine, and installing upper memory adds a second chain behind
  conventional memory.\<close>

theorem startup_chains:
  "low_chain (DOS_SetupMemory k m) (setup_blocks k) \<and>
   (\<exists>m'. DOS_BuildUMBChain True ems False (DOS_SetupMemory Other_machine m) = Some m' \<and> umb_chain_start m' = umb_start_seg \<and>
      dos_chains m' (setup_blocks Other_machine) [(MCB_DOS, 0x3000), (MCB_FREE, if ems then 0xfff else 0x1fff)])"
proof -
  have "firstMCB (DOS_SetupMemory Other_machine m) = 0x16f" by (simp add: DOS_SetupMemory_def Let_def put_block_def DOS_MEM_START_def)
  then show ?thesis using setup_chain [of k m] build_umb_chain [OF setup_chain [of Other_machine m], of ems] by (auto simp: umb_start_seg_def)
qed

text \<open>C6. Allocation, with upper memory installed or not but not linked into the chain of conventional memory: it always returns. The free blocks of
  conventional memory are merged; the chain of upper memory, if the strategy searches it, is searched as it is, since the
  merge never walks it. The strategy chooses among the free blocks that are large enough: the first one, the first of the smallest
  ones, or the last one. The chosen block is cut, its other piece stays free, and nothing else of
  either chain changes. When none is large enough the size of the largest is handed back with the
  error code.\<close>

theorem allocate_memory:
  assumes "dos_chains m bs us"
  shows "\<exists>r m'. DOS_AllocateMemory blocks m = Some (Inr (r, m')) \<and>
    (let st = allocation_strategy m AND 0x3f; b = unat blocks; L = search_list m (joined bs) us
     in case chosen st b L of
       None \<Rightarrow> r = Insufficient (sg (biggest b L)) \<and> errorcode m' = DOSERR_INSUFFICIENT_MEMORY \<and> dos_chains m' (joined bs) us
     | Some (a, n) \<Rightarrow> r = Allocated (sg (given st b a n)) \<and> same_dos m m' \<and>
         dos_chains m' (cut_at (pieces st (current_psp m) b n) a (unat (firstMCB m)) (joined bs))
           (cut_at (pieces st (current_psp m) b n) a (unat umb_start_seg) us))"
  by (rule allocate_memory_spec [OF assms])

theorem allocate_memory_witness:
  "\<exists>m'. DOS_AllocateMemory 0x100 machine_mem = Some (Inr (Allocated 0x188, m')) \<and>
     dos_chains m' [(MCB_DOS, 1), (MCB_FREE, 4), (0x40, 16), (0x300, 0x100), (MCB_FREE, 0x9d76)] []"
proof -
  from allocate_memory [OF machine_mem_chains, of "0x100", unfolded machine_search] machine_chosen
  show ?thesis by (auto simp: Let_def machine_mem_fields given_def pieces_def sg_def MCB_DOS_def MCB_FREE_def)
qed

text \<open>C23. Freeing what was allocated in conventional memory (with a strategy that does not search upper memory, or with none installed, and upper memory not linked): it succeeds, and after the next merge the
  chains are what they would have been without the allocation.\<close>

theorem allocate_free:
  assumes d: "dos_chains m bs us" and s: "unat DOS_MEM_START \<le> unat (firstMCB m)"
    and l: "\<not> (umb_chain_start m = umb_start_seg \<and> truth (allocation_strategy m AND 0xc0))"
    and r: "DOS_AllocateMemory blocks m = Some (Inr (Allocated g, m'))"
  shows "\<exists>m2 m3. DOS_FreeMemory g m' = (True, m2) \<and> DOS_CompressMemory m2 = Some (Inr m3) \<and> dos_chains m3 (joined bs) us"
proof -
  let ?st = "allocation_strategy m AND 0x3f" and ?b = "unat blocks" and ?s = "unat (firstMCB m)"
  have L: "search_list m (joined bs) us = cands ?s (joined bs)" unfolding search_list_def Let_def using l by (rule if_not_P)
  from allocate_memory_spec [OF d, of blocks] r obtain a n where c: "chosen ?st ?b (cands ?s (joined bs)) = Some (a, n)"
    and g: "g = sg (given ?st ?b a n)" and sd: "same_dos m m'"
    and d': "dos_chains m' (cut_at (pieces ?st (current_psp m) ?b n) a ?s (joined bs)) (cut_at (pieces ?st (current_psp m) ?b n) a (unat umb_start_seg) us)"
    unfolding L Let_def by (auto split: option.splits)
  have i: "(a, n) \<in> set (cands ?s (joined bs))" "?b \<le> n" using chosen_in [OF c] by auto
  obtain xs ys where x: "joined bs = xs @ (MCB_FREE, n) # ys" "a = ?s + span xs" using cand_block [OF i(1)] by blast
  have "cut_at (pieces ?st (current_psp m) ?b n) a (unat umb_start_seg) us = us"
    using d cands_bound [OF i(1)] by (cases "umb_chain_start m = umb_start_seg") (auto simp: dos_chains_def intro: cut_at_outside)
  then have "dos_chains m' (xs @ pieces ?st (current_psp m) ?b n @ ys) us" using d' x by simp
  moreover have "a = unat (firstMCB m') + span xs" "unat DOS_MEM_START \<le> a" using x(2) s same_dos_fields(1) [OF sd] by auto
  ultimately obtain m2 where m2: "DOS_FreeMemory g m' = (True, m2)" "dos_chains m2 (xs @ pieces ?st MCB_FREE ?b n @ ys) us"
    using free_pieces [OF _ _ _ i(2)] g by blast
  from compress_chains [OF m2(2)] show ?thesis
    unfolding joined_pieces [OF i(2)] x(1) [symmetric] joined_idem using m2(1) by blast
qed

theorem allocate_free_witness:
  "\<exists>m' m2. DOS_AllocateMemory 0x100 machine_mem = Some (Inr (Allocated 0x188, m')) \<and> DOS_FreeMemory 0x188 m' = (True, m2)"
proof -
  from allocate_memory_spec [OF machine_mem_chains, of "0x100", unfolded machine_search] machine_chosen
  obtain m' where r: "DOS_AllocateMemory 0x100 machine_mem = Some (Inr (Allocated 0x188, m'))"
    by (auto simp: Let_def machine_mem_fields given_def sg_def)
  from allocate_free [OF machine_mem_chains _ _ r] show ?thesis using r
    by (auto simp: machine_mem_fields DOS_MEM_START_def umb_start_seg_def)
qed


text \<open>C10. Resizing a block in use of the chain of conventional memory, with upper memory not linked into it: it returns; the block shrinks, keeps its size, or grows into a free
  right neighbour, with the rest left free and merged. When the request is too large the block grows as far as it
  can and that size is handed back with the error code. The other blocks are kept, and so is the chain of upper memory.\<close>

theorem resize_memory:
  assumes "dos_chains m (xs @ (p, n) # ys) us" "p \<noteq> MCB_FREE" "current_psp m \<noteq> MCB_FREE"
  shows "\<exists>m'. case resized (current_psp m) (unat blocks) n (joined ys) of (ok, sz, rest) \<Rightarrow>
    DOS_ResizeMemory (sg (unat (firstMCB m) + span xs + 1)) blocks m = Some (Inr (ok, sg sz, m')) \<and>
    dos_chains m' (joined (xs @ rest)) us \<and> (\<not> ok \<longrightarrow> errorcode m' = DOSERR_INSUFFICIENT_MEMORY)"
proof -
  obtain ok sz rest where r: "resized (current_psp m) (unat blocks) n (joined ys) = (ok, sz, rest)" using prod_cases3 by blast
  show ?thesis using resize_memory_spec [OF assms r refl] by (simp add: r)
qed

theorem resize_memory_witness:
  "\<exists>m'. DOS_ResizeMemory 0x177 0x20 machine_mem = Some (Inr (True, 0x20, m')) \<and>
     dos_chains m' [(MCB_DOS, 1), (MCB_FREE, 4), (0x300, 0x20), (MCB_FREE, 0x9e67)] []"
proof -
  have d: "dos_chains machine_mem ([(MCB_DOS, 1), (MCB_FREE, 4)] @ (0x40, 16) # [(MCB_FREE, 0x9e77)]) []" using machine_mem_chains by simp
  show ?thesis using resize_memory [OF d, of "0x20"]
    by (auto simp: machine_mem_fields MCB_FREE_def MCB_DOS_def resized_def sg_def)
qed

text \<open>Ending a process: every block it owns becomes free in both chains, the blocks of others
  keep their owners and sizes, and the free blocks of conventional memory are merged.\<close>

theorem free_process_memory:
  assumes "dos_chains m bs us"
  shows "\<exists>m'. DOS_FreeProcessMemory pspseg m = Some (Inr m') \<and> same_dos m m' \<and>
    dos_chains m' (joined (map (\<lambda>(p, n). (if p = pspseg then MCB_FREE else p, n)) bs)) (map (\<lambda>(p, n). (if p = pspseg then MCB_FREE else p, n)) us)"
  by (rule free_process_spec [OF assms, of pspseg]) (auto simp: released_def)

theorem free_process_memory_witness:
  "\<exists>m'. DOS_FreeProcessMemory 0x40 machine_mem = Some (Inr m') \<and> dos_chains m' [(MCB_DOS, 1), (MCB_FREE, 0x9e8d)] []"
  using free_process_memory [OF machine_mem_chains, of "0x40"] by (simp add: MCB_FREE_def MCB_DOS_def) blast

text \<open>Upper memory that begins where conventional memory ends: linking it makes one chain of both,
  and unlinking it gives back exactly the memory from before.\<close>

theorem umb_link_roundtrip:
  assumes "dos_chains m bs us" "umb_chain_start m = umb_start_seg" "umb_chain_state m = 0"
    and "unat (firstMCB m) + span bs = unat umb_start_seg"
  shows "\<exists>m'. DOS_LinkUMBsToMemChain 1 m = Some (True, m') \<and> low_chain m' (bs @ us) \<and> umb_chain_state m' = 1 \<and>
    DOS_LinkUMBsToMemChain 0 m' = Some (True, m)"
  by (rule link_umbs [OF assms])

theorem umb_link_roundtrip_witness:
  "\<exists>m m'. DOS_BuildUMBChain True False False machine_mem = Some m \<and> DOS_LinkUMBsToMemChain 1 m = Some (True, m') \<and>
     DOS_LinkUMBsToMemChain 0 m' = Some (True, m)"
proof -
  have l: "low_chain machine_mem (setup_blocks Other_machine)" unfolding machine_mem_def by (rule setup_chain)
  have e: "unat (firstMCB machine_mem) + span (setup_blocks Other_machine) = unat umb_start_seg" by (simp add: machine_mem_fields umb_start_seg_def)
  from build_umb_chain [OF l e, of False] obtain m where m: "DOS_BuildUMBChain True False False machine_mem = Some m"
    "umb_chain_start m = umb_start_seg" "umb_chain_state m = 0" "firstMCB m = firstMCB machine_mem"
    "dos_chains m (setup_blocks Other_machine) [(MCB_DOS, 0x3000), (MCB_FREE, 0x1fff)]" by auto
  from umb_link_roundtrip [OF m(5,2,3)] e m(1,4) show ?thesis by auto
qed

text \<open>C33. A corrupt chain: a block in use at the head of the chain that is not the last one and has size
  \<open>0xffff\<close> is its own successor, and the merge, and with it every allocation, never returns; the
  bound on the number of faults does not help.\<close>

theorem corrupt_chain_hangs:
  assumes "GetType (firstMCB m) m \<noteq> ending_mcb_type" "GetPSPSeg (firstMCB m) m \<noteq> MCB_FREE" "GetSize (firstMCB m) m = 0xffff"
  shows "DOS_CompressMemory m = None \<and> DOS_AllocateMemory blocks m = None"
proof -
  have "DOS_CompressMemory m = None" using compress_loop_stuck [OF assms] by (simp add: DOS_CompressMemory_def max_allowed_faults_def)
  then show ?thesis by (simp add: DOS_AllocateMemory_def)
qed

theorem corrupt_chain_hangs_witness: "DOS_AllocateMemory 1 (SetSize 0x16f 0xffff machine_mem) = None"
proof -
  have "hdr (mcbs machine_mem) 0x16f middle_mcb_type MCB_DOS 1" using machine_mem_chains by (simp add: dos_chains_def low_chain_def chain_def machine_mem_fields)
  from get_hdr [OF this] show ?thesis using corrupt_chain_hangs [of "SetSize 0x16f 0xffff machine_mem" 1]
    by (simp add: machine_mem_fields sg_def MCB_DOS_def MCB_FREE_def)
qed

end
