(* ===== verification/Xms_Correct.thy ===== *)
theory Xms_Correct
  imports Xms_Calls Mcb_Correct
begin

text \<open>
  The properties of the extended memory manager: sessions of calls, moves between blocks, handles of
  size zero and the nesting of the A20 calls.
\<close>

unbundle bit_operations_syntax

section \<open>Moves between blocks\<close>

definition addr :: "u16 \<Rightarrow> nat \<Rightarrow> xms_state \<Rightarrow> nat" where
  "addr h k s = nat (mem_handle (block h s)) * 4096 + k"

lemma region_top:
  assumes "xms_ok cs s" "xms_is_handle_valid h s"
  shows "nat (mem_handle (block h s)) * 4096 + unat (size_kb (block h s)) * 1024 \<le> 0x100000000"
    and "unat (size_kb (block h s) * 1024) = unat (size_kb (block h s)) * 1024"
proof -
  let ?m = "nat (mem_handle (block h s)) * 4096" and ?k = "unat (size_kb (block h s)) * 1024"
  note e = valid_entry [OF assms]
  have l: "length (mhandles (pages s)) \<le> 0x100000" using assms(1) pool_ok_length by (auto simp: xms_ok_def)
  have "size_kb (block h s) \<noteq> 0" using e(4) by (auto simp: get_num_pages_def truth_def)
  then have "0 < ?k" using unat_gt_0 [of "size_kb (block h s)"] by simp
  then have "?m + ?k - 1 \<in> region h s" by (auto simp: region_def)
  then have "?m + ?k - 1 < length (mhandles (pages s)) * 4096" using region_bounds [OF assms] by auto
  then show t: "?m + ?k \<le> 0x100000000" using l by linarith
  have "?m > 0" using e(3) by simp
  then have "?k < 2 ^ 32" using t by simp
  then show "unat (size_kb (block h s) * 1024) = ?k" by (simp add: unat_word_ariths(2))
qed

lemma move_end_block:
  assumes "xms_ok cs s" "xms_is_handle_valid h s" "unat off < unat (size_kb (block h s)) * 1024"
    "unat off + unat len \<le> unat (size_kb (block h s)) * 1024"
  shows "move_end e1 e2 h off len s = Inr (word_of_nat (addr h (unat off) s))"
proof -
  note t = region_top [OF assms(1,2)] and e = valid_entry [OF assms(1,2)]
  have o1: "\<not> size_kb (block h s) * 1024 \<le> off" using assms(3) t(2) by (simp add: word_le_nat_alt)
  have "unat (size_kb (block h s) * 1024 - off) = unat (size_kb (block h s)) * 1024 - unat off"
    using assms(3) t(2) by (simp add: unat_sub word_le_nat_alt)
  then have o2: "\<not> size_kb (block h s) * 1024 - off < len" using assms(4) by (simp add: word_less_nat_alt)
  have "word_of_int (mem_handle (block h s)) = (word_of_nat (nat (mem_handle (block h s))) :: u32)" 
    using e(3) of_int_of_nat_eq [where ?'a = u32, of "nat (mem_handle (block h s))"] by simp
  then show ?thesis using assms(2) e(5) o1 o2 by (simp add: move_end_def addr_def)
qed

lemma addr_region: "k < unat (size_kb (block h s)) * 1024 \<Longrightarrow> addr h k s \<in> region h s"
  by (simp add: addr_def region_def)

text \<open>Extended memory is not folded and not mapped.\<close>

lemma lin_address_high: "0x110000 \<le> unat a \<Longrightarrow> lin_address on f a = a"
proof -
  assume "0x110000 \<le> unat a"
  then have "0x110 \<le> unat (drop_bit 12 a)" by (simp add: drop_bit_eq_div unat_div)
  then show ?thesis by (simp add: lin_address_def Let_def)
qed

lemma linear_memcpy_high:
  "(\<And>i. i < n \<Longrightarrow> lin_address on f (d + of_nat i) = d + of_nat i) \<Longrightarrow> (\<And>i. i < n \<Longrightarrow> lin_address on f (s + of_nat i) = s + of_nat i) \<Longrightarrow>
   linear_memcpy (lin_address on f) d s n m = mem_memcpy d s n m"
proof (induction n arbitrary: d s m)
  case (Suc n)
  have "lin_address on f d = d" "lin_address on f s = s" using Suc.prems(1) [of 0] Suc.prems(2) [of 0] by simp_all
  moreover have "linear_memcpy (lin_address on f) (d + 1) (s + 1) n m' = mem_memcpy (d + 1) (s + 1) n m'" for m'
  proof (rule Suc.IH)
    fix i
    assume "i < n"
    then show "lin_address on f (d + 1 + of_nat i) = d + 1 + of_nat i" "lin_address on f (s + 1 + of_nat i) = s + 1 + of_nat i"
      using Suc.prems(1) [of "Suc i"] Suc.prems(2) [of "Suc i"] by (simp_all add: add.assoc)
  qed
  ultimately show ?case by simp
qed simp

lemma high_addr:
  assumes "xms_ok cs s" "xms_is_handle_valid h s" "k < unat (size_kb (block h s)) * 1024"
  shows "lin_address on f (word_of_nat (addr h k s)) = word_of_nat (addr h k s)"
proof (rule lin_address_high)
  have "addr h k s \<in> region h s" using assms(3) by (rule addr_region)
  then have "0x110000 \<le> addr h k s" using region_bounds [OF assms(1,2)] by (auto simp: XMS_START_def)
  moreover have "addr h k s < 0x100000000" using region_top(1) [OF assms(1,2)] assms(3) by (simp add: addr_def)
  ultimately show "0x110000 \<le> unat (word_of_nat (addr h k s) :: u32)" by (simp add: unat_of_nat)
qed

lemma move_copies:
  assumes ok: "xms_ok cs s" and v: "xms_is_handle_valid h s" "xms_is_handle_valid g s" "h \<noteq> g"
    and r: "j + n \<le> unat (size_kb (block h s)) * 1024" "k + n \<le> unat (size_kb (block g s)) * 1024"
  shows "(\<forall>i < n. linear_memcpy (lin_address True f) (word_of_nat (addr g k s)) (word_of_nat (addr h j s)) n m (word_of_nat (addr g (k + i) s)) = m (word_of_nat (addr h (j + i) s))) \<and>
    (\<forall>x. (\<forall>i < n. x \<noteq> word_of_nat (addr g (k + i) s)) \<longrightarrow> linear_memcpy (lin_address True f) (word_of_nat (addr g k s)) (word_of_nat (addr h j s)) n m x = m x)"
proof -
  note th = region_top [OF ok v(1)] and tg = region_top [OF ok v(2)]
  have a: "addr h (j + i) s = addr h j s + i" "addr g (k + i) s = addr g k s + i" for i by (simp_all add: addr_def)
  have apart: "word_of_nat (addr g k s) + word_of_nat i \<noteq> (word_of_nat (addr h j s) + word_of_nat l :: u32)" if "i < n" "l < n" for i l
  proof
    assume "word_of_nat (addr g k s) + word_of_nat i = (word_of_nat (addr h j s) + word_of_nat l :: u32)"
    then have "word_of_nat (addr g (k + i) s) = (word_of_nat (addr h (j + l) s) :: u32)" by (simp add: a)
    moreover have "addr g (k + i) s < 0x100000000" "addr h (j + l) s < 0x100000000" using that r th(1) tg(1) by (simp_all add: addr_def)
    ultimately have "addr g (k + i) s = addr h (j + l) s" using word_of_nat_eq32 by blast
    moreover have "addr g (k + i) s \<in> region g s" "addr h (j + l) s \<in> region h s" using that r by (auto intro: addr_region)
    ultimately show False using regions_separate [OF ok v(1,2,3)] by auto
  qed
  have "n \<le> 0x100000000" using r(1) th(1) by linarith
  from memcpy_disjoint [OF apart this, of m] have
    "(\<forall>i < n. mem_memcpy (word_of_nat (addr g k s)) (word_of_nat (addr h j s)) n m (word_of_nat (addr g (k + i) s)) = m (word_of_nat (addr h (j + i) s))) \<and>
    (\<forall>x. (\<forall>i < n. x \<noteq> word_of_nat (addr g (k + i) s)) \<longrightarrow> mem_memcpy (word_of_nat (addr g k s)) (word_of_nat (addr h j s)) n m x = m x)" by (simp add: a)
  moreover have "linear_memcpy (lin_address True f) (word_of_nat (addr g k s)) (word_of_nat (addr h j s)) n m = mem_memcpy (word_of_nat (addr g k s)) (word_of_nat (addr h j s)) n m"
    using high_addr [OF ok v(1)] high_addr [OF ok v(2)] r by (intro linear_memcpy_high) (simp_all add: a [symmetric] flip: of_nat_add)
  ultimately show ?thesis by simp
qed


section \<open>Blocks of size zero\<close>

definition taken :: "MemHandle \<Rightarrow> u32 \<Rightarrow> XMS_Block \<Rightarrow> XMS_Block" where
  "taken h kb b = b\<lparr>is_free := False, mem_handle := h, lock_count := 0, size_kb := kb\<rparr>"

lemma allocate_taken:
  assumes "find_handle (handles s) 1 = Some i"
  shows "xms_allocate_memory 0 s = Some (Inr (OK, Some (word_of_nat i), upd_block (word_of_nat i) (taken (MEM_GetNextFreePage (mhandles (pages s))) 0) s))"
  using assms by (simp add: xms_allocate_memory_def Let_def taken_def [abs_def] set_mhandles_def)

lemma allocate_one:
  assumes "find_handle (handles s) 1 = Some i"
  shows "xms_allocate_memory 1 s = bind_run (pool_run (MEM_AllocatePages 1 True (mhandles (pages s)))) (\<lambda>(h, mh).
    if h = 0 then Some (Inr (XmsOutOfSpace, None, set_mhandles mh s))
    else Some (Inr (OK, Some (word_of_nat i), upd_block (word_of_nat i) (taken h 1) (set_mhandles mh s))))"
proof -
  have "unat (get_num_pages 1) = 1" by (simp add: get_num_pages_unat)
  then show ?thesis unfolding xms_allocate_memory_def assms Let_def taken_def [abs_def] by simp
qed

text \<open>Taking one page takes the page that \<open>MEM_GetNextFreePage\<close> names.\<close>

lemma allocate_one_page:
  assumes "MEM_GetNextFreePage mh = int a" "a \<noteq> 0" "a < length mh"
  shows "MEM_AllocatePages 1 True mh = Some (Inr (int a, mh[a := -1]))"
  using assms by (simp add: MEM_AllocatePages_def MEM_GetNextFreePage_def Let_def)

lemma zeroed_one: "mh ! c = 0 \<Longrightarrow> zeroed (mh[c := v]) {c} = mh"
  by (rule nth_equalityI) (auto simp: zeroed_def)

lemma next_free_page:
  assumes "pool_ok mh cs" "MEM_GetNextFreePage mh \<noteq> 0"
  obtains a where "MEM_GetNextFreePage mh = int a" "a \<noteq> 0" "a < length mh" "mh ! a = 0"
proof -
  let ?a = "BestMatch 1 mh"
  have "best_fit mh 1 ?a" using BestMatch_spec [of 1 mh] pool_ok_length [OF assms(1)] by simp
  moreover have "?a \<noteq> 0" using assms(2) by (simp add: MEM_GetNextFreePage_def)
  ultimately obtain n where "run mh ?a n" "1 \<le> n" by (auto simp: best_fit_def)
  then have "?a < length mh" "mh ! ?a = 0" by (auto simp: run_def)
  then show ?thesis using that [of ?a] \<open>?a \<noteq> 0\<close> by (simp add: MEM_GetNextFreePage_def)
qed

section \<open>Nested A20 calls\<close>

text \<open>A call repeated, with the results in order.\<close>

primrec a20_times :: "nat \<Rightarrow> (a20_line \<Rightarrow> (Result \<times> a20_line) run) \<Rightarrow> a20_line \<Rightarrow> (Result list \<times> a20_line) run" where
  "a20_times 0 f a = Some (Inr ([], a))"
| "a20_times (Suc n) f a = bind_run (f a) (\<lambda>(r, a). bind_run (a20_times n f a) (\<lambda>(rs, a). Some (Inr (r # rs, a))))"

lemma enable_times:
  "port_ok a \<Longrightarrow> unat (num_times_enabled a) + n < 2 ^ 32 \<Longrightarrow> 0 < n \<Longrightarrow> (num_times_enabled a \<noteq> 0 \<longrightarrow> a20_enabled a) \<Longrightarrow>
   a20_times n a20_local_enable a = Some (Inr (replicate n OK, a\<lparr>num_times_enabled := num_times_enabled a + word_of_nat n, a20_enabled := True\<rparr>))"
proof (induction n arbitrary: a)
  case (Suc n)
  let ?b = "a\<lparr>num_times_enabled := num_times_enabled a + 1, a20_enabled := True\<rparr>"
  have "unat (num_times_enabled a) \<noteq> 2 ^ 32 - 1" using Suc.prems(2) by simp
  then have nm: "num_times_enabled a \<noteq> A20MaxTimesEnabled" by (auto simp: A20MaxTimesEnabled_def)
  have u: "unat (num_times_enabled a + 1) = unat (num_times_enabled a) + 1" using Suc.prems(2) by (simp add: unat_word_ariths(1))
  have one: "a20_local_enable a = Some (Inr (OK, ?b))" using a20_local_spec(1) [OF Suc.prems(1)] nm Suc.prems(4) by (cases a) auto
  show ?case
  proof (cases "n = 0")
    case True
    then show ?thesis using one by simp
  next
    case False
    have "a20_times n a20_local_enable ?b = Some (Inr (replicate n OK, ?b\<lparr>num_times_enabled := num_times_enabled ?b + word_of_nat n, a20_enabled := True\<rparr>))"
      using Suc.prems u False by (intro Suc.IH) simp_all
    then show ?thesis using one by (simp add: add.assoc add.commute)
  qed
qed simp

lemma disable_times:
  "port_ok a \<Longrightarrow> num_times_enabled a = word_of_nat (Suc n) \<Longrightarrow> Suc n < 2 ^ 32 \<Longrightarrow>
   a20_times (Suc n) a20_local_disable a =
     Some (Inr (replicate n A20StillEnabled @ [OK], a\<lparr>num_times_enabled := 0, a20_enabled := False\<rparr>))"
proof (induction n arbitrary: a)
  case 0
  then show ?case using a20_local_spec(2) [of a] by simp
next
  case (Suc n)
  let ?b = "a\<lparr>num_times_enabled := word_of_nat (Suc n)\<rparr>"
  have w: "word_of_nat (Suc (Suc n)) \<noteq> (0 :: u32)" "word_of_nat (Suc (Suc n)) \<noteq> (1 :: u32)"
    using Suc.prems(3) word_of_nat_eq32 [of "Suc (Suc n)" 0] word_of_nat_eq32 [of "Suc (Suc n)" 1] by simp_all
  have "num_times_enabled a - 1 = word_of_nat (Suc n)" using Suc.prems(2) by simp
  then have one: "a20_local_disable a = Some (Inr (A20StillEnabled, ?b))"
    using a20_local_spec(2) [OF Suc.prems(1)] w Suc.prems(2) by simp
  have "a20_times (Suc n) a20_local_disable ?b =
      Some (Inr (replicate n A20StillEnabled @ [OK], ?b\<lparr>num_times_enabled := 0, a20_enabled := False\<rparr>))"
    using Suc.prems by (intro Suc.IH) simp_all
  then show ?case using one by (subst a20_times.simps(2)) simp
qed


section \<open>Properties\<close>

text \<open>C7. A session of the extended memory manager: after its start, over any calls that do not ask for size zero (those on upper
  memory included) and any writes of the guest to memory and to the A20 port, the blocks of two valid handles never share a byte and lie in
  extended memory, and every such call returns, but for one: a request for upper memory while there is a chain of upper
  blocks, which runs \<open>DOS_AllocateMemory\<close> on control blocks the guest may have overwritten and so may end the emulator or hang. When it
  returns, the table is as good as before. Calls that ask for size zero are excluded: they make handles share a page.\<close>

theorem xms_session:
  assumes "pool_ok (mhandles (pages s)) cs" "port_ok (a20 s)" "XMS_start umb ems pcjr cb s = Some s0" "xms_calls s0 t"
  shows "xms_ok cs t \<and>
    (\<forall>r. sized_call r \<and> \<not> searches_upper t r \<longrightarrow> (\<exists>u. XMS_Handler (t\<lparr>regs := r\<rparr>) = Some (Inr u) \<and> xms_ok cs u)) \<and>
    (\<forall>r u. sized_call r \<and> XMS_Handler (t\<lparr>regs := r\<rparr>) = Some (Inr u) \<longrightarrow> xms_ok cs u) \<and>
    (\<forall>h g. xms_is_handle_valid h t \<and> xms_is_handle_valid g t \<and> h \<noteq> g \<longrightarrow> region h t \<inter> region g t = {}) \<and>
    (\<forall>h. xms_is_handle_valid h t \<longrightarrow> region h t \<subseteq> {XMS_START * 4096 ..< length (mhandles (pages t)) * 4096})"
proof -
  have ok: "xms_ok cs t" using calls_keep [OF assms(4) start_ok [OF assms(1,2,3)]] .
  have "\<exists>u. XMS_Handler (t\<lparr>regs := r\<rparr>) = Some (Inr u) \<and> xms_ok cs u" if "sized_call r" "\<not> searches_upper t r" for r
    using handler_keeps [of cs "t\<lparr>regs := r\<rparr>"] ok that by (auto simp: keeps_def searches_upper_def)
  moreover have "xms_ok cs u" if "sized_call r" "XMS_Handler (t\<lparr>regs := r\<rparr>) = Some (Inr u)" for r u
    using handler_returned_keeps [of cs "t\<lparr>regs := r\<rparr>"] ok that by simp
  ultimately show ?thesis using ok regions_separate [OF ok] region_bounds [OF ok] by blast
qed

text \<open>A machine with one page of extended memory, for the examples.\<close>

definition small_xms :: xms_state where
  "small_xms = \<lparr>pages = \<lparr>mhandles = init_mhandles 273, ram = (\<lambda>_. 0)\<rparr>, dosm = machine_mem,
     a20 = \<lparr>enable_global = False, num_times_enabled = 0, controlport = 0, a20_enabled = False\<rparr>,
     hma = \<lparr>hma_is_available = True, dos_has_control = False, app_has_control = False, min_alloc_size = 0\<rparr>,
     umb_is_available = False, callback = 0, xms_firstmb = map word_of_nat [0 ..< 256], handles = (replicate NumXmsHandles XMS_Block0)[0 := XMS_Block0\<lparr>is_free := False\<rparr>],
     regs = \<lparr>reg_eax = 0, reg_ebx = 0, reg_ecx = 0, reg_edx = 0, reg_esi = 0, seg_ds = 0, seg_es = 0\<rparr>\<rparr>"

lemma small_xms_start: "pool_ok (mhandles (pages small_xms)) []" "port_ok (a20 small_xms)"
  "\<exists>s0. XMS_start False False False 0 small_xms = Some s0"
  by (auto simp: small_xms_def pool_ok_def used_pages_def init_mhandles_def port_ok_def XMS_start_def DOS_BuildUMBChain_def)


lemma small_xms_page: "MEM_GetNextFreePage (init_mhandles 273) = 272" "BestMatch 1 (init_mhandles 273) = 272"
  by (simp_all add: MEM_GetNextFreePage_def BestMatch_def XMS_START_def init_mhandles_def)

lemma find_first:
  "find_handle ((replicate NumXmsHandles XMS_Block0)[0 := b]) 1 = Some 1"
  "\<not> is_free c \<Longrightarrow> find_handle ((replicate NumXmsHandles XMS_Block0)[0 := b, 1 := c]) 1 = Some 2"
  by (simp_all add: find_handle.simps NumXmsHandles_def XMS_Block0_def nth_list_update)

theorem xms_session_witness:
  "\<exists>s0. XMS_start False False False 0 small_xms = Some s0 \<and>
     (\<exists>u. XMS_Handler (s0\<lparr>regs := (regs s0)\<lparr>reg_eax := 0x8900, reg_edx := 4\<rparr>\<rparr>) = Some (Inr u) \<and> xms_ok [] u)"
proof -
  obtain s0 where s0: "XMS_start False False False 0 small_xms = Some s0" using small_xms_start(3) by blast
  let ?r = "(regs s0)\<lparr>reg_eax := 0x8900, reg_edx := 4\<rparr>"
  have "sized_call ?r \<and> \<not> searches_upper s0 ?r" by (simp add: sized_call_def searches_upper_def reg_ah_def)
  then show ?thesis using xms_session [OF small_xms_start(1,2) s0 xms_calls.start] s0 by blast
qed

text \<open>C22. Moving an even number of bytes between the blocks of two handles, as the descriptor the guest sees says: the bytes arrive, everything
  else of memory, the handles and the A20 line are as before.\<close>

theorem xms_move:
  assumes ok: "xms_ok cs s" and v: "xms_is_handle_valid h s" "xms_is_handle_valid g s" "h \<noteq> g"
    and d: "mem_readd (visible s) bpt = len" "mem_readw (visible s) (bpt + 4) = h" "mem_readd (visible s) (bpt + 6) = j"
      "mem_readw (visible s) (bpt + 10) = g" "mem_readd (visible s) (bpt + 12) = k" and m: "m = ram (pages s)"
    and l: "len mod 2 = 0" "len \<noteq> 0" "unat j + unat len \<le> unat (size_kb (block h s)) * 1024" "unat k + unat len \<le> unat (size_kb (block g s)) * 1024"
  shows "\<exists>m'. xms_move_memory bpt s = Some (Inr (OK, s\<lparr>pages := (pages s)\<lparr>ram := m'\<rparr>\<rparr>)) \<and>
    (\<forall>i < unat len. m' (word_of_nat (addr g (unat k + i) s)) = m (word_of_nat (addr h (unat j + i) s))) \<and>
    (\<forall>x. (\<forall>i < unat len. x \<noteq> word_of_nat (addr g (unat k + i) s)) \<longrightarrow> m' x = m x)"
proof -
  have p: "0 < unat len" using l(2) by (simp add: unat_gt_0)
  have "move_end e1 e2 h j len s = Inr (word_of_nat (addr h (unat j) s))" "move_end e1 e2 g k len s = Inr (word_of_nat (addr g (unat k) s))" for e1 e2
    using move_end_block [OF ok v(1)] move_end_block [OF ok v(2)] l(3,4) p by simp_all
  then have "xms_move_memory bpt s = Some (Inr (OK, s\<lparr>pages := (pages s)\<lparr>ram :=
      linear_memcpy (lin_address True (xms_firstmb s)) (word_of_nat (addr g (unat k) s)) (word_of_nat (addr h (unat j) s)) (unat len) m\<rparr>\<rparr>))"
    using l(1) d m by (simp add: move_spec [OF xms_ok_port [OF ok]] Let_def)
  then show ?thesis using move_copies [OF ok v l(3,4)] by blast
qed

definition move_xms :: xms_state where
  "move_xms = small_xms\<lparr>handles := (handles small_xms)[1 := taken 272 4 XMS_Block0, 2 := taken 273 4 XMS_Block0],
     pages := \<lparr>mhandles = (init_mhandles 274)[272 := -1, 273 := -1], ram = (\<lambda>_. 0)(0 := 2, 4 := 1, 10 := 2, 0x110000 := 7, 0x110001 := 8)\<rparr>\<rparr>"

lemma move_xms_ok: "xms_ok [] move_xms"
proof -
  let ?mh = "(replicate 274 0)[272 := -1, 273 := -1 :: MemHandle]"
  have t: "tl (handles move_xms) = [taken 272 4 XMS_Block0, taken 273 4 XMS_Block0] @ replicate 125 XMS_Block0"
    by (simp add: move_xms_def small_xms_def NumXmsHandles_def replicate_Suc numeral_eq_Suc)
  have "entry XMS_Block0 = None" "\<And>a. entry (taken (int a) 4 XMS_Block0) = Some (a, 1)"
    by (simp_all add: entry_def XMS_Block0_def taken_def get_num_pages_unat)
  from this(1) this(2) [of 272] this(2) [of 273] have "table_blocks (map entry (tl (handles move_xms))) = [[272], [273]]"
    by (simp add: t table_blocks_def block_pages_def)
  moreover have "?mh ! p \<noteq> 0 \<longleftrightarrow> p = 272 \<or> p = 273" if "p < 274" for p using that by (simp add: nth_list_update)
  then have "used_pages ?mh = {272, 273}" by (auto simp: used_pages_def XMS_START_def)
  ultimately show ?thesis using t small_xms_start(2)
    by (auto simp: xms_ok_def pool_ok_def move_xms_def small_xms_def NumXmsHandles_def init_mhandles_def held_def taken_def XMS_Block0_def)
qed

lemma move_xms_blocks: "block 1 move_xms = taken 272 4 XMS_Block0" "block 2 move_xms = taken 273 4 XMS_Block0"
  by (simp_all add: block_def move_xms_def small_xms_def NumXmsHandles_def)

theorem xms_move_witness:
  "\<exists>m'. xms_move_memory 0x100000 move_xms = Some (Inr (OK, move_xms\<lparr>pages := (pages move_xms)\<lparr>ram := m'\<rparr>\<rparr>)) \<and> m' 0x111000 = 7 \<and> m' 0x111001 = 8"
proof -
  have v: "xms_is_handle_valid 1 move_xms" "xms_is_handle_valid 2 move_xms" "(1 :: u16) \<noteq> 2"
    by (simp_all add: xms_is_handle_valid_def move_xms_blocks taken_def NumXmsHandles_def)
  have p: "mem_readd (visible move_xms) 0x100000 = 2" "mem_readw (visible move_xms) (0x100000 + 4) = 1" "mem_readd (visible move_xms) (0x100000 + 6) = 0"
      "mem_readw (visible move_xms) (0x100000 + 10) = 2" "mem_readd (visible move_xms) (0x100000 + 12) = 0"
    by (simp_all add: move_xms_def small_xms_def visible_def lin_address_def drop_bit_eq_div mem_readd_def mem_readw_def)
  have l: "(2 :: u32) mod 2 = 0" "(2 :: u32) \<noteq> 0" "unat (0 :: u32) + unat (2 :: u32) \<le> unat (size_kb (block 1 move_xms)) * 1024"
      "unat (0 :: u32) + unat (2 :: u32) \<le> unat (size_kb (block 2 move_xms)) * 1024"
    by (simp_all add: move_xms_blocks taken_def)
  have a: "addr 1 k move_xms = 0x110000 + k" "addr 2 k move_xms = 0x111000 + k" for k by (simp_all add: addr_def move_xms_blocks taken_def)
  from xms_move [OF move_xms_ok v p refl l] obtain m' where
    m': "xms_move_memory 0x100000 move_xms = Some (Inr (OK, move_xms\<lparr>pages := (pages move_xms)\<lparr>ram := m'\<rparr>\<rparr>))"
    "\<And>i. i < 2 \<Longrightarrow> m' (word_of_nat (0x111000 + i)) = ram (pages move_xms) (word_of_nat (0x110000 + i))" unfolding a by auto
  from m'(1) m'(2) [of 0] m'(2) [of 1] show ?thesis by (auto simp: move_xms_def)
qed

text \<open>C34. A handle of size zero: the code gives it the number of the next free page without taking the page. The next
  handle of one page gets the same page, and freeing the first handle frees the page of the second, which stays valid.\<close>

theorem zero_size_alias:
  assumes p: "pool_ok (mhandles (pages s)) cs" "length (handles s) = NumXmsHandles"
    and a: "xms_allocate_memory 0 s = Some (Inr (OK, Some h, t))" "xms_allocate_memory 1 t = Some (Inr (OK, Some g, u))"
  shows "h \<noteq> g \<and> mem_handle (block h u) = mem_handle (block g u) \<and> xms_is_handle_valid g u \<and>
    (\<exists>v. xms_free_memory h u = Some (Inr (OK, v)) \<and> xms_is_handle_valid g v \<and> mhandles (pages v) ! nat (mem_handle (block g v)) = 0)"
proof -
  let ?mh = "mhandles (pages s)"
  obtain i where i: "find_handle (handles s) 1 = Some i" using a(1) by (auto simp: xms_allocate_memory_def split: option.splits)
  have ib: "0 < i" "i < NumXmsHandles" "unat (word_of_nat i :: u16) = i" using find_handle_free [OF i] by (auto simp: NumXmsHandles_def unat_of_nat)
  have h: "h = word_of_nat i" "t = upd_block (word_of_nat i) (taken (MEM_GetNextFreePage ?mh) 0) s" using a(1) allocate_taken [OF i] by auto
  have pt: "pages t = pages s" "handles t = (handles s)[i := taken (MEM_GetNextFreePage ?mh) 0 (handles s ! i)]" using ib by (simp_all add: h upd_block_def)
  obtain j where j: "find_handle (handles t) 1 = Some j" using a(2) by (auto simp: xms_allocate_memory_def split: option.splits)
  have jb: "0 < j" "j < NumXmsHandles" "is_free (handles t ! j)" "unat (word_of_nat j :: u16) = j" using find_handle_free [OF j] by (auto simp: NumXmsHandles_def unat_of_nat)
  then have ne: "i \<noteq> j" using p(2) ib by (auto simp: pt(2) taken_def)
  have "MEM_GetNextFreePage ?mh \<noteq> 0"
    using a(2) unfolding allocate_one [OF j]
    by (rule contrapos_pn) (simp add: pt(1) MEM_AllocatePages_def MEM_GetNextFreePage_def Let_def)
  from next_free_page [OF p(1) this] obtain c where c: "MEM_GetNextFreePage ?mh = int c" "c \<noteq> 0" "c < length ?mh" "?mh ! c = 0" .
  have u: "g = word_of_nat j" "u = upd_block (word_of_nat j) (taken (int c) 1) (set_mhandles (?mh[c := -1]) t)"
    using a(2) c(2) unfolding allocate_one [OF j] pt(1) allocate_one_page [OF c(1,2,3)] by auto
  have hu: "handles u = (handles s)[i := taken (int c) 0 (handles s ! i), j := taken (int c) 1 (handles s ! j)]" "mhandles (pages u) = ?mh[c := -1]"
    using jb ne by (simp_all add: u upd_block_def set_mhandles_def pt c(1))
  have b: "block h u = taken (int c) 0 (handles s ! i)" "block g u = taken (int c) 1 (handles s ! j)" "h \<noteq> 0" "g \<noteq> 0" "h \<noteq> g"
      "unat h < NumXmsHandles" "unat g < NumXmsHandles"
    using ib jb p(2) ne word_unat_eq_iff [of h g] by (auto simp: block_def hu h u(1))
  have rel: "MEM_ReleasePages (int c) (?mh[c := -1]) = Some ?mh"
    using c(2,3) release_chain [of "?mh[c := -1]" "int c" "[c]"] zeroed_one [OF c(4)] by simp
  let ?v = "upd_block h (\<lambda>_. XMS_Block0) (set_mhandles ?mh u)"
  have "xms_free_memory h u = Some (Inr (OK, ?v))" using b rel by (simp add: xms_free_memory_def xms_is_handle_valid_def taken_def hu)
  moreover have "block g ?v = block g u" "mhandles (pages ?v) = ?mh"
    using b ib jb ne by (simp_all add: block_def upd_block_def set_mhandles_def h u(1))
  ultimately show ?thesis using b c(4) by (auto simp: xms_is_handle_valid_def taken_def)
qed

theorem zero_size_alias_witness:
  "\<exists>t u v. xms_allocate_memory 0 small_xms = Some (Inr (OK, Some 1, t)) \<and> xms_allocate_memory 1 t = Some (Inr (OK, Some 2, u)) \<and>
     xms_free_memory 1 u = Some (Inr (OK, v)) \<and> xms_is_handle_valid 2 v \<and> mhandles (pages v) ! nat (mem_handle (block 2 v)) = 0"
proof -
  let ?hs = "(replicate NumXmsHandles XMS_Block0)[0 := XMS_Block0\<lparr>is_free := False\<rparr>]"
  have s: "handles small_xms = ?hs" "mhandles (pages small_xms) = init_mhandles 273" by (simp_all add: small_xms_def)
  obtain t where t: "xms_allocate_memory 0 small_xms = Some (Inr (OK, Some 1, t))" "handles t = ?hs[1 := taken 272 0 (?hs ! 1)]" "mhandles (pages t) = init_mhandles 273"
    using allocate_taken [of small_xms 1] find_first(1) small_xms_page s by (auto simp: upd_block_def)
  have f: "find_handle (handles t) 1 = Some 2" unfolding t(2) by (rule find_first(2)) (simp add: taken_def)
  have "MEM_AllocatePages 1 True (init_mhandles 273) = Some (Inr (272, (init_mhandles 273)[272 := -1]))"
    using allocate_one_page [of "init_mhandles 273" 272] small_xms_page by (simp add: init_mhandles_def)
  then obtain u where u: "xms_allocate_memory 1 t = Some (Inr (OK, Some 2, u))"
    unfolding allocate_one [OF f] t(3) by simp
  have "length (handles small_xms) = NumXmsHandles" by (simp add: s)
  from zero_size_alias [OF small_xms_start(1) this t(1) u] t(1) u show ?thesis by blast
qed

text \<open>Nested calls on the A20 line: \<open>n + 1\<close> local enables of a line that is off succeed and leave it on,
  the first \<open>n\<close> local disables answer that it is still enabled, and the last restores the state.\<close>

theorem a20_nesting:
  assumes "port_ok a" "num_times_enabled a = 0" "\<not> a20_enabled a" "Suc n < 2 ^ 32"
  shows "\<exists>b. a20_times (Suc n) a20_local_enable a = Some (Inr (replicate (Suc n) OK, b)) \<and> a20_is_enabled b \<and>
    a20_times (Suc n) a20_local_disable b = Some (Inr (replicate n A20StillEnabled @ [OK], a))"
proof -
  let ?b = "a\<lparr>num_times_enabled := word_of_nat (Suc n), a20_enabled := True\<rparr>"
  have "a20_times (Suc n) a20_local_enable a = Some (Inr (replicate (Suc n) OK, ?b))" using enable_times [OF assms(1), of "Suc n"] assms(2,4) by simp
  moreover have "?b\<lparr>num_times_enabled := 0, a20_enabled := False\<rparr> = a" using assms(2,3) by (cases a) simp
  ultimately show ?thesis using disable_times [of ?b n] assms(1,4) a20_is_enabled_iff [of ?b] by auto
qed

theorem a20_nesting_witness:
  "\<exists>b. a20_times 3 a20_local_enable (a20 small_xms) = Some (Inr ([OK, OK, OK], b)) \<and>
     a20_times 3 a20_local_disable b = Some (Inr ([A20StillEnabled, A20StillEnabled, OK], a20 small_xms))"
proof -
  have "replicate (Suc 2) r = [r, r, r]" "replicate 2 r @ [q] = [r, r, q]" "Suc 2 = 3" for r q :: Result by (simp_all add: numeral_2_eq_2)
  moreover have "Suc 2 < 2 ^ 32" by simp
  ultimately show ?thesis using a20_nesting [of "a20 small_xms" "2", OF small_xms_start(2)] unfolding small_xms_def by auto
qed

end
