(* ===== verification/Dma.thy ===== *)
theory Dma
  imports Prelude "HOL-Library.Monad_Syntax"
begin

text \<open>
  The DMA controllers of \<open>src/src/hardware/dma.cpp\<close>. A channel is named by its controller (0 is the primary
  one) and its number there. The callbacks of the devices that own the channels, and the shutdown of the
  Tandy sound device, belong to other components: they are the functions of \<open>dma_env\<close>, which may change
  the whole state; \<open>devices\<close> is the state of those components. The result \<open>None\<close> is an access through a
  null pointer, behind the end of the caller's buffer or behind the end of the emulated memory, which
  the code does not check, or a failed assertion of \<open>perform_dma_io\<close>, which moves at most 64 KB. The other assertions and logging are left out, and so
  is the registration of the ports.
\<close>

unbundle bit_operations_syntax

section \<open>State\<close>

datatype DmaDirection = DmaRead | DmaWrite

datatype DmaEvent = ReachedTerminalCount | IsMasked | IsUnmasked

record DmaChannel =
  page_base :: u32
  curr_addr :: u32
  base_addr :: u16
  base_count :: u16
  curr_count :: u16
  chan_num :: u8
  page_num :: u8
  is_16bit :: u8
  is_incremented :: bool
  is_autoiniting :: bool
  is_masked :: bool
  has_reached_terminal_count :: bool
  has_raised_request :: bool
  dma_callback :: "nat option"
  evict_callback :: "nat option"
  reservation_owner_name :: string

record DmaController =
  flipflop :: bool
  dma_channels :: "DmaChannel list"

record 'w dma =
  primary_dma :: "DmaController option"
  secondary_dma :: "DmaController option"
  ems_board_mapping :: "u32 list"
  dma_wrapping :: u32
  firstmb :: "u32 list"
  mem_base :: "u8 list"
  devices :: 'w

record 'w dma_env =
  on_event :: "nat \<Rightarrow> DmaChannel \<Rightarrow> DmaEvent \<Rightarrow> 'w dma \<Rightarrow> 'w dma"
  on_evict :: "nat \<Rightarrow> 'w dma \<Rightarrow> 'w dma"
  TANDYSOUND_Destroy :: "'w dma \<Rightarrow> 'w dma"

type_synonym chan_ref = "nat \<times> nat"

definition LINK_START :: nat where "LINK_START = (1024 + 64) div 4"
definition EMM_PAGEFRAME4K :: nat where "EMM_PAGEFRAME4K = (0xE000 * 16) div 4096"

definition get_ctl :: "nat \<Rightarrow> 'w dma \<Rightarrow> DmaController option" where
  "get_ctl k s = (if k = 0 then primary_dma s else secondary_dma s)"

definition set_ctl :: "nat \<Rightarrow> DmaController \<Rightarrow> 'w dma \<Rightarrow> 'w dma" where
  "set_ctl k c s = (if k = 0 then s\<lparr>primary_dma := Some c\<rparr> else s\<lparr>secondary_dma := Some c\<rparr>)"

definition GetChannel :: "nat \<Rightarrow> DmaController \<Rightarrow> DmaChannel option" where
  "GetChannel n c = (if n < length (dma_channels c) then Some (dma_channels c ! n) else None)"

definition get_chan :: "chan_ref \<Rightarrow> 'w dma \<Rightarrow> DmaChannel option" where
  "get_chan r s = do { c \<leftarrow> get_ctl (fst r) s; GetChannel (snd r) c }"

definition upd_chan :: "chan_ref \<Rightarrow> (DmaChannel \<Rightarrow> DmaChannel) \<Rightarrow> 'w dma \<Rightarrow> 'w dma option" where
  "upd_chan r f s = do {
     c \<leftarrow> get_ctl (fst r) s;
     ch \<leftarrow> GetChannel (snd r) c;
     Some (set_ctl (fst r) (c\<lparr>dma_channels := (dma_channels c)[snd r := f ch]\<rparr>) s) }"

section \<open>Memory\<close>

definition UpdateEMSMapping :: "'w dma \<Rightarrow> 'w dma" where
  "UpdateEMSMapping s = s\<lparr>ems_board_mapping :=
     fold (\<lambda>i m. m[EMM_PAGEFRAME4K + i := firstmb s ! (EMM_PAGEFRAME4K + i)]) [0 ..< 0x10] (ems_board_mapping s)\<rparr>"

definition phys_readb :: "u32 \<Rightarrow> 'w dma \<Rightarrow> u8 option" where
  "phys_readb addr s = (if unat addr < length (mem_base s) then Some (mem_base s ! unat addr) else None)"

definition phys_writeb :: "u32 \<Rightarrow> u8 \<Rightarrow> 'w dma \<Rightarrow> 'w dma option" where
  "phys_writeb addr val s =
     (if unat addr < length (mem_base s) then Some (s\<lparr>mem_base := (mem_base s)[unat addr := val]\<rparr>) else None)"

definition dma_page :: "u32 \<Rightarrow> 'w dma \<Rightarrow> u32" where
  "dma_page page s =
     (if page < word_of_nat EMM_PAGEFRAME4K then firstmb s ! unat page
      else if page < word_of_nat EMM_PAGEFRAME4K + 0x10 then ems_board_mapping s ! unat page
      else if page < word_of_nat LINK_START then firstmb s ! unat page
      else page)"

text \<open>The byte at index \<open>i\<close> of a chunk: between \<open>data_pt[i]\<close> and \<open>chunk_start + i\<close>. The buffer goes with the state.\<close>

definition dma_byte :: "DmaDirection \<Rightarrow> u32 \<Rightarrow> nat \<Rightarrow> 'w dma \<times> u8 list \<Rightarrow> ('w dma \<times> u8 list) option" where
  "dma_byte direction addr pos x =
     (case x of (s, data) \<Rightarrow>
        if pos < length data
        then case direction of
            DmaRead \<Rightarrow> map_option (\<lambda>v. (s, data[pos := v])) (phys_readb addr s)
          | DmaWrite \<Rightarrow> map_option (\<lambda>s. (s, data)) (phys_writeb addr (data ! pos) s)
        else None)"

primrec dma_chunk :: "DmaDirection \<Rightarrow> u32 \<Rightarrow> nat \<Rightarrow> nat \<Rightarrow> 'w dma \<times> u8 list \<Rightarrow> ('w dma \<times> u8 list) option" where
  "dma_chunk direction addr pos 0 x = Some x"
| "dma_chunk direction addr pos (Suc n) x = do {
     x \<leftarrow> dma_byte direction addr pos x;
     dma_chunk direction (addr + 1) (pos + 1) n x }"

definition chunk_bytes :: "u32 \<Rightarrow> u32 \<Rightarrow> u32" where
  "chunk_bytes mem_address remaining_bytes = min remaining_bytes (4096 - (mem_address AND 4095))"

lemma chunk_bytes_le: "chunk_bytes a n \<le> n" "n \<noteq> 0 \<Longrightarrow> chunk_bytes a n \<noteq> 0" "unat (chunk_bytes a n) = min (unat n) (4096 - unat a mod 4096)"
proof -
  have m: "a AND 4095 = a mod 4096" using take_bit_eq_mask [of 12 a] take_bit_eq_mod [of 12 a] by (simp add: mask_eq_exp_minus_1)
  have u: "unat (4096 - (a AND 4095)) = 4096 - unat a mod 4096" unfolding m
    by (subst unat_sub) (simp_all add: unat_mod word_le_nat_alt less_imp_le)
  show e: "unat (chunk_bytes a n) = min (unat n) (4096 - unat a mod 4096)"
    unfolding chunk_bytes_def using u by (simp add: min_def word_le_nat_alt)
  show "chunk_bytes a n \<le> n" by (simp add: chunk_bytes_def)
  have "unat a mod 4096 < 4096" by simp
  then show "n \<noteq> 0 \<Longrightarrow> chunk_bytes a n \<noteq> 0" using e unat_gt_0 [of n] by auto
qed

function dma_io_loop :: "DmaDirection \<Rightarrow> u32 \<Rightarrow> u32 \<Rightarrow> nat \<Rightarrow> u32 \<Rightarrow> 'w dma \<times> u8 list \<Rightarrow> ('w dma \<times> u8 list) option" where
  "dma_io_loop direction highpart_addr_page mem_address data_pt remaining_bytes x =
     (let page = dma_page (highpart_addr_page + drop_bit 12 mem_address) (fst x);
          chunk_start = page * 4096 + (mem_address AND 4095);
          chunk = chunk_bytes mem_address remaining_bytes
      in case dma_chunk direction chunk_start data_pt (unat chunk) x of
          None \<Rightarrow> None
        | Some x \<Rightarrow>
            if remaining_bytes - chunk \<noteq> 0
            then dma_io_loop direction highpart_addr_page (mem_address + chunk) (data_pt + unat chunk) (remaining_bytes - chunk) x
            else Some x)"
  by pat_completeness auto
termination
proof (relation "measure (\<lambda>(d, h, a, p, n, x). unat n)", goal_cases)
  case (2 direction h a p n x page start chunk y)
  then have "n \<noteq> 0" by (auto simp: chunk_bytes_def)
  then have "0 < unat chunk" "unat chunk \<le> unat n" using 2 chunk_bytes_le [of a n] by (auto simp: unat_gt_0 word_le_nat_alt)
  then show ?case using 2 chunk_bytes_le(1) [of a n] by (simp add: unat_sub)
qed simp

definition perform_dma_io :: "DmaDirection \<Rightarrow> u32 \<Rightarrow> u32 \<Rightarrow> nat \<Rightarrow> u32 \<Rightarrow> u8 \<Rightarrow> 'w dma \<times> u8 list \<Rightarrow> ('w dma \<times> u8 list) option" where
  "perform_dma_io direction spage mem_address data_start num_words is_dma16 x =
     (if unat is_dma16 \<le> 1 \<and> unat num_words * 2 ^ unat is_dma16 \<le> 65536
      then dma_io_loop direction (drop_bit 12 spage) (push_bit (unat is_dma16) mem_address) data_start (push_bit (unat is_dma16) num_words) x
      else None)"

section \<open>Channels\<close>

definition new_channel :: "u8 \<Rightarrow> bool \<Rightarrow> DmaChannel" where
  "new_channel num is_dma_16bit = \<lparr>page_base = 0, curr_addr = 0, base_addr = 0, base_count = 0, curr_count = 0, chan_num = num, page_num = 0,
     is_16bit = (if is_dma_16bit then 1 else 0), is_incremented = True, is_autoiniting = False, is_masked = True,
     has_reached_terminal_count = False, has_raised_request = False, dma_callback = None, evict_callback = None, reservation_owner_name = []\<rparr>"

definition DoCallback :: "'w dma_env \<Rightarrow> chan_ref \<Rightarrow> DmaEvent \<Rightarrow> 'w dma \<Rightarrow> 'w dma option" where
  "DoCallback env r event s = do {
     ch \<leftarrow> get_chan r s;
     Some (case dma_callback ch of None \<Rightarrow> s | Some cb \<Rightarrow> on_event env cb ch event s) }"

definition SetMask :: "'w dma_env \<Rightarrow> chan_ref \<Rightarrow> bool \<Rightarrow> 'w dma \<Rightarrow> 'w dma option" where
  "SetMask env r m s = do {
     s \<leftarrow> upd_chan r (\<lambda>ch. ch\<lparr>is_masked := m\<rparr>) s;
     DoCallback env r (if m then IsMasked else IsUnmasked) s }"

definition RaiseRequest :: "DmaChannel \<Rightarrow> DmaChannel" where
  "RaiseRequest ch = ch\<lparr>has_raised_request := True\<rparr>"

definition ClearRequest :: "DmaChannel \<Rightarrow> DmaChannel" where
  "ClearRequest ch = ch\<lparr>has_raised_request := False\<rparr>"

definition RegisterCallback :: "'w dma_env \<Rightarrow> chan_ref \<Rightarrow> nat option \<Rightarrow> 'w dma \<Rightarrow> 'w dma option" where
  "RegisterCallback env r cb s = do {
     s \<leftarrow> upd_chan r (\<lambda>ch. ch\<lparr>dma_callback := cb\<rparr>) s;
     ch \<leftarrow> get_chan r s;
     s \<leftarrow> SetMask env r (is_masked ch) s;
     upd_chan r (\<lambda>ch. if dma_callback ch \<noteq> None then RaiseRequest ch else ClearRequest ch) s }"

definition reached_terminal_count :: "'w dma_env \<Rightarrow> chan_ref \<Rightarrow> 'w dma \<Rightarrow> 'w dma option" where
  "reached_terminal_count env r s = do {
     s \<leftarrow> upd_chan r (\<lambda>ch. ch\<lparr>has_reached_terminal_count := True\<rparr>) s;
     DoCallback env r ReachedTerminalCount s }"

definition SetPage :: "u8 \<Rightarrow> DmaChannel \<Rightarrow> DmaChannel" where
  "SetPage val ch = ch\<lparr>page_num := val, page_base := push_bit (16 + unat (is_16bit ch)) (ucast (drop_bit (unat (is_16bit ch)) val))\<rparr>"

lemma left_unat: "unat (ucast (c :: u16) + 1 :: u32) = unat c + 1"
  using unsigned_less [of c, where ?'a = nat] by (simp add: unat_word_ariths(1) unsigned_ucast_eq take_bit_eq_mod)

function transfer_loop ::
  "'w dma_env \<Rightarrow> chan_ref \<Rightarrow> DmaDirection \<Rightarrow> u32 \<Rightarrow> u32 \<Rightarrow> nat \<Rightarrow> 'w dma \<times> u8 list \<Rightarrow> (u32 \<times> 'w dma \<times> u8 list) option" where
  "transfer_loop env r direction want finished curr_buffer x =
     (case get_chan r (fst x) of None \<Rightarrow> None | Some ch \<Rightarrow>
        let left = ucast (curr_count ch) + 1
        in if want < left
           then do {
             (s, data) \<leftarrow> perform_dma_io direction (page_base ch) (curr_addr ch) curr_buffer want (is_16bit ch) x;
             s \<leftarrow> upd_chan r (\<lambda>ch. ch\<lparr>curr_addr := curr_addr ch + want, curr_count := curr_count ch - ucast want\<rparr>) s;
             Some (finished + want, s, data) }
           else (case perform_dma_io direction (page_base ch) (curr_addr ch) curr_buffer left (is_16bit ch) x of None \<Rightarrow> None
             | Some (s, data) \<Rightarrow>
               (case reached_terminal_count env r s of None \<Rightarrow> None
                | Some s \<Rightarrow>
                  (case get_chan r s of None \<Rightarrow> None
                   | Some ch' \<Rightarrow>
                     if is_autoiniting ch'
                     then case upd_chan r (\<lambda>ch. ch\<lparr>curr_count := base_count ch, curr_addr := ucast (base_addr ch)\<rparr>) s of None \<Rightarrow> None
                       | Some s \<Rightarrow>
                           if want - left \<noteq> 0
                           then transfer_loop env r direction (want - left) (finished + left) (curr_buffer + unat (push_bit (unat (is_16bit ch)) left)) (s, data)
                           else Some (finished + left, UpdateEMSMapping s, data)
                     else do {
                       s \<leftarrow> upd_chan r (\<lambda>ch. ch\<lparr>curr_addr := curr_addr ch + left, curr_count := 0xffff, is_masked := True\<rparr>) s;
                       s \<leftarrow> DoCallback env r IsMasked (UpdateEMSMapping s);
                       Some (finished + left, s, data) }))))"
  by pat_completeness auto
termination
proof (relation "measure (\<lambda>(env, r, d, w, f, b, x). unat w)", goal_cases)
  case (2 env r d w f b x ch left)
  then have "left \<le> w" "0 < unat left" using left_unat [of "curr_count ch"] by auto
  then show ?case using 2 by (simp add: unat_sub word_le_nat_alt)
qed simp

definition ReadOrWrite :: "'w dma_env \<Rightarrow> chan_ref \<Rightarrow> DmaDirection \<Rightarrow> u32 \<Rightarrow> 'w dma \<times> u8 list \<Rightarrow> (u32 \<times> 'w dma \<times> u8 list) option" where
  "ReadOrWrite env r direction words x =
     (case x of (s, buffer) \<Rightarrow> do {
        s \<leftarrow> upd_chan r (\<lambda>ch. ch\<lparr>curr_addr := curr_addr ch AND dma_wrapping s\<rparr>) s;
        transfer_loop env r direction words 0 0 (s, buffer) })"

definition HasReservation :: "DmaChannel \<Rightarrow> bool" where
  "HasReservation ch \<longleftrightarrow> evict_callback ch \<noteq> None \<and> reservation_owner_name ch \<noteq> []"

definition EvictReserver :: "'w dma_env \<Rightarrow> chan_ref \<Rightarrow> 'w dma \<Rightarrow> 'w dma option" where
  "EvictReserver env r s = do {
     ch \<leftarrow> get_chan r s;
     cb \<leftarrow> evict_callback ch;
     upd_chan r (\<lambda>ch. ch\<lparr>evict_callback := None, reservation_owner_name := []\<rparr>) (on_evict env cb s) }"

definition ResetDma :: "DmaChannel \<Rightarrow> DmaChannel" where
  "ResetDma ch = ch\<lparr>page_base := 0, curr_addr := 0, base_addr := 0, base_count := 0, curr_count := 0, page_num := 0,
     is_incremented := True, is_autoiniting := False, is_masked := True, has_reached_terminal_count := False,
     has_raised_request := False, dma_callback := None, evict_callback := None, reservation_owner_name := []\<rparr>"

definition ReserveFor :: "'w dma_env \<Rightarrow> chan_ref \<Rightarrow> string \<Rightarrow> nat \<Rightarrow> 'w dma \<Rightarrow> 'w dma option" where
  "ReserveFor env r owner_name evict_cb s = do {
     ch \<leftarrow> get_chan r s;
     s \<leftarrow> (if HasReservation ch then EvictReserver env r s else Some s);
     upd_chan r (\<lambda>ch. (ResetDma ch)\<lparr>evict_callback := Some evict_cb, reservation_owner_name := owner_name\<rparr>) s }"

section \<open>Controllers\<close>

definition new_controller :: "nat \<Rightarrow> DmaController" where
  "new_controller index = \<lparr>flipflop = False, dma_channels = map (\<lambda>i. new_channel (word_of_nat (i + index * 4)) (index = 1)) [0 ..< 4]\<rparr>"

definition activate_primary :: "'w dma \<Rightarrow> 'w dma" where
  "activate_primary s = s\<lparr>primary_dma := Some (new_controller 0)\<rparr>"

definition activate_secondary :: "'w dma_env \<Rightarrow> 'w dma \<Rightarrow> 'w dma" where
  "activate_secondary env s = (TANDYSOUND_Destroy env s)\<lparr>secondary_dma := Some (new_controller 1)\<rparr>"

definition is_primary :: "u8 \<Rightarrow> bool" where
  "is_primary channel_num \<longleftrightarrow> channel_num < 4"

definition is_secondary :: "u8 \<Rightarrow> bool" where
  "is_secondary channel_num \<longleftrightarrow> channel_num \<ge> 4 \<and> channel_num \<le> 7"

definition to_secondary_num :: "u8 \<Rightarrow> u8" where
  "to_secondary_num channel_num = channel_num - 4"

definition DMA_GetChannel :: "'w dma_env \<Rightarrow> u8 \<Rightarrow> 'w dma \<Rightarrow> chan_ref option \<times> 'w dma" where
  "DMA_GetChannel env channel_num s =
     (if is_primary channel_num
      then (Some (0, unat channel_num), if primary_dma s = None then activate_primary s else s)
      else if is_secondary channel_num
      then (Some (1, unat (to_secondary_num channel_num)), if secondary_dma s = None then activate_secondary env s else s)
      else (None, s))"

definition GetChannelFromPort :: "'w dma_env \<Rightarrow> u16 \<Rightarrow> 'w dma \<Rightarrow> chan_ref option \<times> 'w dma" where
  "GetChannelFromPort env port s =
     (let num = (if port = 0x81 then 2 else if port = 0x82 then 3 else if port = 0x83 then 1 else if port = 0x87 then 0
                 else if port = 0x89 then 6 else if port = 0x8a then 7 else if port = 0x8b then 5 else if port = 0x8f then 4 else 0xff)
      in DMA_GetChannel env num s)"

definition upd_ctl :: "nat \<Rightarrow> (DmaController \<Rightarrow> DmaController) \<Rightarrow> 'w dma \<Rightarrow> 'w dma option" where
  "upd_ctl k f s = do { c \<leftarrow> get_ctl k s; Some (set_ctl k (f c) s) }"

text \<open>The byte registers of 16 bits: the low byte is written while the flip-flop turns on, the high byte while it turns off.\<close>

definition write_addr :: "bool \<Rightarrow> u16 \<Rightarrow> DmaChannel \<Rightarrow> DmaChannel" where
  "write_addr low val ch =
     (if low then ch\<lparr>base_addr := (base_addr ch AND 0xff00) OR val, curr_addr := (curr_addr ch AND 0xff00) OR ucast val\<rparr>
      else ch\<lparr>base_addr := (base_addr ch AND 0x00ff) OR push_bit 8 val, curr_addr := (curr_addr ch AND 0x00ff) OR push_bit 8 (ucast val)\<rparr>)"

definition write_count :: "bool \<Rightarrow> u16 \<Rightarrow> DmaChannel \<Rightarrow> DmaChannel" where
  "write_count low val ch =
     (if low then ch\<lparr>base_count := (base_count ch AND 0xff00) OR val, curr_count := (curr_count ch AND 0xff00) OR val\<rparr>
      else ch\<lparr>base_count := (base_count ch AND 0x00ff) OR push_bit 8 val, curr_count := (curr_count ch AND 0x00ff) OR push_bit 8 val\<rparr>)"

definition toggle :: "nat \<Rightarrow> 'w dma \<Rightarrow> (bool \<times> 'w dma) option" where
  "toggle k s = do {
     s \<leftarrow> upd_ctl k (\<lambda>c. c\<lparr>flipflop := \<not> flipflop c\<rparr>) s;
     c \<leftarrow> get_ctl k s;
     Some (flipflop c, s) }"

primrec mask_each :: "'w dma_env \<Rightarrow> nat \<Rightarrow> (nat \<times> bool) list \<Rightarrow> 'w dma \<Rightarrow> 'w dma option" where
  "mask_each env k [] s = Some s"
| "mask_each env k (p # ps) s = do { s \<leftarrow> SetMask env (k, fst p) (snd p) s; mask_each env k ps s }"

primrec clear_each :: "'w dma_env \<Rightarrow> nat \<Rightarrow> nat list \<Rightarrow> 'w dma \<Rightarrow> 'w dma option" where
  "clear_each env k [] s = Some s"
| "clear_each env k (n # ns) s = do {
     s \<leftarrow> SetMask env (k, n) True s;
     s \<leftarrow> upd_chan (k, n) (\<lambda>ch. ch\<lparr>has_reached_terminal_count := False\<rparr>) s;
     clear_each env k ns s }"

definition WriteControllerReg :: "'w dma_env \<Rightarrow> nat \<Rightarrow> u16 \<Rightarrow> u16 \<Rightarrow> 'w dma \<Rightarrow> 'w dma option" where
  "WriteControllerReg env k reg val s =
     (if reg \<in> {0x0, 0x2, 0x4, 0x6}
      then do { (low, s) \<leftarrow> toggle k (UpdateEMSMapping s); upd_chan (k, unat (drop_bit 1 reg)) (write_addr low val) s }
      else if reg \<in> {0x1, 0x3, 0x5, 0x7}
      then do { (low, s) \<leftarrow> toggle k (UpdateEMSMapping s); upd_chan (k, unat (drop_bit 1 reg)) (write_count low val) s }
      else if reg = 0xa
      then SetMask env (k, unat (val AND 3)) (val AND 4 > 0) (if val AND 4 = 0 then UpdateEMSMapping s else s)
      else if reg = 0xb
      then upd_chan (k, unat (val AND 3)) (\<lambda>ch. ch\<lparr>is_autoiniting := (val AND 0x10 > 0), is_incremented := (val AND 0x20 > 0)\<rparr>) (UpdateEMSMapping s)
      else if reg = 0xc
      then upd_ctl k (\<lambda>c. c\<lparr>flipflop := False\<rparr>) s
      else if reg = 0xd
      then do { s \<leftarrow> clear_each env k [0 ..< 4] s; upd_ctl k (\<lambda>c. c\<lparr>flipflop := False\<rparr>) s }
      else if reg = 0xe
      then mask_each env k (map (\<lambda>ct. (ct, False)) [0 ..< 4]) (UpdateEMSMapping s)
      else if reg = 0xf
      then mask_each env k (map (\<lambda>ct. (ct, truth (drop_bit ct val AND 1))) [0 ..< 4]) (UpdateEMSMapping s)
      else Some s)"

primrec status_each :: "nat \<Rightarrow> nat list \<Rightarrow> u16 \<Rightarrow> 'w dma \<Rightarrow> (u16 \<times> 'w dma) option" where
  "status_each k [] ret s = Some (ret, s)"
| "status_each k (ct # cts) ret s = do {
     ch \<leftarrow> get_chan (k, ct) s;
     let ret = (if has_reached_terminal_count ch then ret OR push_bit ct 1 else ret);
     s \<leftarrow> upd_chan (k, ct) (\<lambda>ch. ch\<lparr>has_reached_terminal_count := False\<rparr>) s;
     let ret = (if has_raised_request ch then ret OR push_bit (4 + ct) 1 else ret);
     status_each k cts ret s }"

definition ReadControllerReg :: "nat \<Rightarrow> u16 \<Rightarrow> 'w dma \<Rightarrow> (u16 \<times> 'w dma) option" where
  "ReadControllerReg k reg s =
     (if reg \<in> {0x0, 0x2, 0x4, 0x6}
      then do {
        (low, s) \<leftarrow> toggle k s;
        ch \<leftarrow> get_chan (k, unat (drop_bit 1 reg)) s;
        Some (ucast (if low then curr_addr ch AND 0xff else drop_bit 8 (curr_addr ch) AND 0xff), s) }
      else if reg \<in> {0x1, 0x3, 0x5, 0x7}
      then do {
        (low, s) \<leftarrow> toggle k s;
        ch \<leftarrow> get_chan (k, unat (drop_bit 1 reg)) s;
        Some (if low then curr_count ch AND 0xff else drop_bit 8 (curr_count ch) AND 0xff, s) }
      else if reg = 0x8 then status_each k [0 ..< 4] 0 s
      else Some (0xffff, s))"

definition DMA_Write_Port :: "'w dma_env \<Rightarrow> u16 \<Rightarrow> u16 \<Rightarrow> 'w dma \<Rightarrow> 'w dma option" where
  "DMA_Write_Port env port val s =
     (if port < 0x10 then WriteControllerReg env 0 port val s
      else if port \<ge> 0xc0 \<and> port \<le> 0xdf then WriteControllerReg env 1 (drop_bit 1 (port - 0xc0)) val s
      else case GetChannelFromPort env port (UpdateEMSMapping s) of
          (None, s) \<Rightarrow> Some s
        | (Some r, s) \<Rightarrow> upd_chan r (SetPage (ucast val)) s)"

definition DMA_Read_Port :: "'w dma_env \<Rightarrow> u16 \<Rightarrow> 'w dma \<Rightarrow> (u16 \<times> 'w dma) option" where
  "DMA_Read_Port env port s =
     (if port < 0x10 then ReadControllerReg 0 port s
      else if port \<ge> 0xc0 \<and> port \<le> 0xdf then ReadControllerReg 1 (drop_bit 1 (port - 0xc0)) s
      else case GetChannelFromPort env port s of
          (None, s) \<Rightarrow> Some (0, s)
        | (Some r, s) \<Rightarrow> do { ch \<leftarrow> get_chan r s; Some (ucast (page_num ch), s) })"

section \<open>Start and end\<close>

definition DMA_ResetChannel :: "u8 \<Rightarrow> 'w dma \<Rightarrow> 'w dma option" where
  "DMA_ResetChannel channel_num s =
     (if is_primary channel_num \<and> primary_dma s \<noteq> None then upd_chan (0, unat channel_num) ResetDma s
      else if is_secondary channel_num \<and> secondary_dma s \<noteq> None then upd_chan (1, unat (to_secondary_num channel_num)) ResetDma s
      else Some s)"

definition DMA_SetWrapping :: "u32 \<Rightarrow> 'w dma \<Rightarrow> 'w dma" where
  "DMA_SetWrapping wrap s = s\<lparr>dma_wrapping := wrap\<rparr>"

text \<open>The destructors of a controller's channels, whose owners are evicted; the pointer is already null then.\<close>

definition destroy_channels :: "'w dma_env \<Rightarrow> DmaController option \<Rightarrow> 'w dma \<Rightarrow> 'w dma" where
  "destroy_channels env c s = (case c of None \<Rightarrow> s | Some c \<Rightarrow>
     fold (\<lambda>ch s. if HasReservation ch then on_evict env (the (evict_callback ch)) s else s) (dma_channels c) s)"

definition DMA_ShutdownSecondaryController :: "'w dma_env \<Rightarrow> 'w dma \<Rightarrow> 'w dma" where
  "DMA_ShutdownSecondaryController env s = destroy_channels env (secondary_dma s) (s\<lparr>secondary_dma := None\<rparr>)"

definition DMA_Destroy :: "'w dma_env \<Rightarrow> 'w dma \<Rightarrow> 'w dma" where
  "DMA_Destroy env s =
     (let s = destroy_channels env (primary_dma s) (s\<lparr>primary_dma := None\<rparr>)
      in destroy_channels env (secondary_dma s) (s\<lparr>secondary_dma := None\<rparr>))"

definition DMA_Init :: "'w dma \<Rightarrow> 'w dma" where
  "DMA_Init s = (DMA_SetWrapping 0xffff s)\<lparr>ems_board_mapping := map word_of_nat [0 ..< LINK_START]\<rparr>"

end
