(* ===== verification/Dma_Moves.thy ===== *)
theory Dma_Moves
  imports Dma
begin

text \<open>
  DMA transfers as lists of addresses: the loops over pages of \<open>perform_dma_io\<close> move one byte after the
  other between consecutive places of the buffer and a list of addresses of memory.
\<close>

unbundle bit_operations_syntax

section \<open>Moving bytes\<close>

fun move_byte :: "DmaDirection \<Rightarrow> u32 \<Rightarrow> nat \<Rightarrow> u8 list \<times> u8 list \<Rightarrow> (u8 list \<times> u8 list) option" where
  "move_byte dir a pos (m, d) =
     (if pos < length d \<and> unat a < length m
      then Some (case dir of DmaRead \<Rightarrow> (m, d[pos := m ! unat a]) | DmaWrite \<Rightarrow> (m[unat a := d ! pos], d))
      else None)"

primrec moves :: "DmaDirection \<Rightarrow> u32 list \<Rightarrow> nat \<Rightarrow> u8 list \<times> u8 list \<Rightarrow> (u8 list \<times> u8 list) option" where
  "moves dir [] pos x = Some x"
| "moves dir (a # as) pos x = do { x \<leftarrow> move_byte dir a pos x; moves dir as (pos + 1) x }"

lemma moves_append: "moves dir (as @ bs) pos x = do { x \<leftarrow> moves dir as pos x; moves dir bs (pos + length as) x }"
proof (induction as arbitrary: pos x)
  case (Cons a as)
  then show ?case by (cases "move_byte dir a pos x") simp_all
qed simp

lemma moves_none: "a \<in> set as \<Longrightarrow> length m \<le> unat a \<Longrightarrow> moves dir as pos (m, d) = None"
proof (induction as arbitrary: pos m d)
  case (Cons b as)
  show ?case
  proof (cases "move_byte dir b pos (m, d)")
    case (Some x)
    obtain m' d' where x: "x = (m', d')" by (cases x)
    have "length m' = length m" "unat b < length m" using Some x by (auto split: if_splits DmaDirection.splits)
    then show ?thesis using Cons Some x by auto
  qed simp
qed simp

lemma moves_read:
  "pos + length as \<le> length d \<Longrightarrow> (\<forall>a \<in> set as. unat a < length m) \<Longrightarrow>
   moves DmaRead as pos (m, d) = Some (m, overwrite pos (map (\<lambda>a. m ! unat a) as) d)"
proof (induction as arbitrary: pos d)
  case Nil
  then show ?case by (simp add: overwrite_def)
next
  case (Cons a as)
  have "take (Suc pos) (d[pos := v]) = take pos d @ [v]" "drop (Suc pos + n) (d[pos := v]) = drop (Suc pos + n) d" for v n
    using Cons.prems by (simp_all add: take_Suc_conv_app_nth)
  then show ?case using Cons by (simp add: overwrite_def)
qed

lemma moves_write:
  "pos + length as \<le> length d \<Longrightarrow> (\<forall>a \<in> set as. unat a < length m) \<Longrightarrow>
   \<exists>m'. moves DmaWrite as pos (m, d) = Some (m', d) \<and> length m' = length m \<and>
     (\<forall>x. x \<notin> unat ` set as \<longrightarrow> m' ! x = m ! x) \<and> (distinct as \<longrightarrow> (\<forall>k < length as. m' ! unat (as ! k) = d ! (pos + k)))"
proof (induction as arbitrary: pos m)
  case (Cons a as)
  let ?m = "m[unat a := d ! pos]"
  from Cons.prems have "Suc pos + length as \<le> length d" "\<forall>b \<in> set as. unat b < length ?m" by simp_all
  from Cons.IH [OF this] obtain m' where m': "moves DmaWrite as (Suc pos) (?m, d) = Some (m', d)" "length m' = length m"
    "\<forall>x. x \<notin> unat ` set as \<longrightarrow> m' ! x = ?m ! x" "distinct as \<longrightarrow> (\<forall>k < length as. m' ! unat (as ! k) = d ! (Suc pos + k))" by auto
  have "m' ! unat ((a # as) ! k) = d ! (pos + k)" if "distinct (a # as)" "k < length (a # as)" for k
  proof (cases k)
    case 0
    have "unat a \<notin> unat ` set as" using that(1) by (auto dest: arg_cong [of _ _ "word_of_nat :: nat \<Rightarrow> u32"])
    then show ?thesis using m'(3) 0 Cons.prems by simp
  next
    case (Suc j)
    then show ?thesis using m'(4) that by simp
  qed
  then show ?case using m' Cons.prems by (intro exI [of _ m']) auto
qed auto

section \<open>Pages\<close>

definition dma_phys :: "'w dma \<Rightarrow> u32 \<Rightarrow> u32 \<Rightarrow> u32" where
  "dma_phys s high x = dma_page (high + drop_bit 12 x) s * 4096 + (x AND 4095)"

definition mem_upd :: "'w dma \<Rightarrow> u8 list \<times> u8 list \<Rightarrow> 'w dma \<times> u8 list" where
  "mem_upd s x = (s\<lparr>mem_base := fst x\<rparr>, snd x)"

lemma dma_phys_mem [simp]: "dma_phys (s\<lparr>mem_base := m\<rparr>) = dma_phys s"
  by (intro ext) (simp add: dma_phys_def dma_page_def)

lemma mem_upd_again [simp]: "mem_upd (s\<lparr>mem_base := m\<rparr>) x = mem_upd s x"
  by (simp add: mem_upd_def)

lemma dma_byte_move: "dma_byte dir a pos (s, d) = map_option (mem_upd s) (move_byte dir a pos (mem_base s, d))"
  by (cases dir) (auto simp: dma_byte_def phys_readb_def phys_writeb_def mem_upd_def)

lemma page_step: "unat a mod 4096 + 1 < 4096 \<Longrightarrow> unat (a + 1) = unat a + 1" for a :: u32
proof -
  assume lt: "unat a mod 4096 + 1 < 4096"
  have "unat a \<noteq> 2 ^ 32 - 1"
  proof
    assume "unat a = 2 ^ 32 - 1"
    then have "unat a mod 4096 = 4095" by simp
    then show False using lt by simp
  qed
  moreover have "unat a < 2 ^ 32" using unsigned_less [of a, where ?'a = nat] by simp
  ultimately have "unat a + 1 < 2 ^ 32" by linarith
  then show ?thesis by (simp add: unat_word_ariths(1))
qed

lemma dma_phys_next:
  assumes "unat a mod 4096 + 1 < 4096"
  shows "dma_phys s high (a + 1) = dma_phys s high a + 1"
proof -
  have low: "w AND 4095 = w mod 4096" "drop_bit 12 w = w div 4096" for w :: u32
    using take_bit_eq_mask [of 12 w] take_bit_eq_mod [of 12 w] by (simp_all add: mask_eq_exp_minus_1 drop_bit_eq_div)
  note u = page_step [OF assms]
  have v: "unat (a mod 4096 + 1) = unat a mod 4096 + 1" using assms by (simp add: unat_word_ariths(1) unat_mod)
  have "(unat a + 1) mod 4096 = unat a mod 4096 + 1" "(unat a + 1) div 4096 = unat a div 4096"
    using assms by (simp_all add: mod_Suc div_Suc)
  then have "unat ((a + 1) mod 4096) = unat (a mod 4096 + 1)" "unat ((a + 1) div 4096) = unat (a div 4096)"
    unfolding v by (simp_all add: unat_mod unat_div u)
  then have "(a + 1) mod 4096 = a mod 4096 + 1" "(a + 1) div 4096 = a div 4096" by (simp_all only: word_unat_eq_iff)
  then show ?thesis unfolding dma_phys_def low by simp
qed

definition span_from :: "u32 \<Rightarrow> nat \<Rightarrow> u32 list" where
  "span_from a n = map (\<lambda>k. a + word_of_nat k) [0 ..< n]"

lemma span_from_Suc: "span_from a (Suc n) = a # span_from (a + 1) n"
  by (simp add: span_from_def upt_conv_Cons map_Suc_upt [symmetric] o_def add.assoc del: upt_Suc)

lemma span_from_0 [simp]: "span_from a 0 = []"
  by (simp add: span_from_def)

lemma span_from_add: "span_from a (m + n) = span_from a m @ span_from (a + word_of_nat m) n"
  by (induction m arbitrary: a) (simp_all add: span_from_Suc ac_simps)

lemma length_span_from [simp]: "length (span_from a n) = n"
  by (simp add: span_from_def)

lemma map_option_bind: "map_option f (Option.bind x g) = Option.bind x (\<lambda>y. map_option f (g y))"
  by (cases x) simp_all

lemma bind_map: "Option.bind (map_option f x) g = Option.bind x (g \<circ> f)"
  by (cases x) simp_all

lemma dma_chunk_moves:
  "n \<le> 4096 - unat a mod 4096 \<Longrightarrow>
   dma_chunk dir (dma_phys s high a) pos n (mem_upd s (m, d)) = map_option (mem_upd s) (moves dir (map (dma_phys s high) (span_from a n)) pos (m, d))"
proof (induction n arbitrary: a pos m d)
  case (Suc n)
  have one: "dma_byte dir (dma_phys s high a) pos (mem_upd s (m, d)) = map_option (mem_upd s) (move_byte dir (dma_phys s high a) pos (m, d))"
    using dma_byte_move [of dir _ pos "s\<lparr>mem_base := m\<rparr>" d] by (simp add: mem_upd_def)
  have rest: "dma_chunk dir (dma_phys s high a + 1) (pos + 1) n (mem_upd s x) =
      map_option (mem_upd s) (moves dir (map (dma_phys s high) (span_from (a + 1) n)) (pos + 1) x)" for x
  proof (cases "n = 0")
    case False
    have lt: "unat a mod 4096 + 1 < 4096" using False Suc.prems by simp
    have "unat (a + 1) mod 4096 = unat a mod 4096 + 1" using lt by (simp add: page_step mod_Suc)
    then have "n \<le> 4096 - unat (a + 1) mod 4096" using Suc.prems lt by simp
    from Suc.IH [OF this, of "pos + 1" "fst x" "snd x"] show ?thesis by (simp add: dma_phys_next [OF lt])
  qed simp
  show ?case by (simp add: one rest [simplified] span_from_Suc map_option_bind bind_map o_def)
qed (simp add: mem_upd_def)


declare dma_io_loop.simps [simp del]

lemma io_loop_moves:
  "dma_io_loop dir high a pos n (mem_upd s (m, d)) = map_option (mem_upd s) (moves dir (map (dma_phys s high) (span_from a (unat n))) pos (m, d))"
proof (induction "unat n" arbitrary: a pos n m d rule: less_induct)
  case less
  let ?c = "chunk_bytes a n" and ?f = "dma_phys s high"
  note c = chunk_bytes_le [of _ a] chunk_bytes_le(3) [of a n]
  have pg: "dma_page p (fst (mem_upd s x)) = dma_page p s" for p x by (simp add: mem_upd_def dma_page_def)
  have chunk: "dma_chunk dir (?f a) pos (unat ?c) (mem_upd s (m, d)) = map_option (mem_upd s) (moves dir (map ?f (span_from a (unat ?c))) pos (m, d))"
    by (rule dma_chunk_moves) (simp add: c)
  have le: "?c \<le> n" by (simp add: chunk_bytes_def)
  then have n: "unat n = unat ?c + unat (n - ?c)" by (simp add: unat_sub word_le_nat_alt)
  have step: "dma_io_loop dir high a pos n (mem_upd s (m, d)) =
      do { x \<leftarrow> map_option (mem_upd s) (moves dir (map ?f (span_from a (unat ?c))) pos (m, d));
        if n - ?c \<noteq> 0 then dma_io_loop dir high (a + ?c) (pos + unat ?c) (n - ?c) x else Some x }"
    by (subst dma_io_loop.simps) (simp only: Let_def pg dma_phys_def [symmetric] chunk, simp split: option.split)
  have rest: "(if n - ?c \<noteq> 0 then dma_io_loop dir high (a + ?c) (pos + unat ?c) (n - ?c) (mem_upd s x) else Some (mem_upd s x)) =
      map_option (mem_upd s) (moves dir (map ?f (span_from (a + ?c) (unat (n - ?c)))) (pos + unat ?c) x)" for x
  proof (cases "n - ?c = 0")
    case False
    then have "n \<noteq> 0" by (auto simp: chunk_bytes_def)
    then have "?c \<noteq> 0" using chunk_bytes_le(2) by blast
    then have "unat (n - ?c) < unat n" using n unat_gt_0 [of ?c] by linarith
    from less.hyps [OF this, of "a + ?c" "pos + unat ?c" "fst x" "snd x"] False show ?thesis by simp
  qed simp
  show ?case unfolding step n span_from_add map_append moves_append bind_map o_def rest map_option_bind by simp
qed

lemma shift_unat: "unat (w :: u8) \<le> 1 \<Longrightarrow> unat (n :: u32) \<le> 0x10000 \<Longrightarrow> unat (push_bit (unat w) n) = unat n * 2 ^ unat w"
  by (cases "unat w") (auto simp: push_bit_eq_mult unat_word_ariths(2))

lemma perform_moves:
  assumes "unat w \<le> 1" "unat n * 2 ^ unat w \<le> 65536"
  shows "perform_dma_io dir base a pos n w (s, d) =
    map_option (mem_upd s) (moves dir (map (dma_phys s (drop_bit 12 base)) (span_from (push_bit (unat w) a) (unat n * 2 ^ unat w))) pos (mem_base s, d))"
proof -
  have "unat n \<le> unat n * 2 ^ unat w" by simp
  then have "unat n \<le> 65536" using assms(2) by (rule order_trans)
  note shift_unat [OF assms(1) this]
  moreover have "(s, d) = mem_upd s (mem_base s, d)" by (simp add: mem_upd_def)
  moreover have "perform_dma_io dir base a pos n w (s, d) =
      dma_io_loop dir (drop_bit 12 base) (push_bit (unat w) a) pos (push_bit (unat w) n) (s, d)" using assms by (simp add: perform_dma_io_def)
  ultimately show ?thesis using io_loop_moves by metis
qed

section \<open>Channels\<close>

text \<open>The state outside the channel \<open>r\<close>, memory, the devices and the cached page frame.\<close>

definition same_rest :: "chan_ref \<Rightarrow> 'w dma \<Rightarrow> 'w dma \<Rightarrow> bool" where
  "same_rest r s t \<longleftrightarrow> firstmb t = firstmb s \<and> dma_wrapping t = dma_wrapping s \<and> length (mem_base t) = length (mem_base s) \<and>
     (\<forall>q. fst q \<le> 1 \<longrightarrow> q \<noteq> r \<longrightarrow> get_chan q t = get_chan q s)"

lemma same_rest_refl [simp]: "same_rest r s s"
  by (simp add: same_rest_def)

lemma same_rest_trans: "same_rest r s t \<Longrightarrow> same_rest r t u \<Longrightarrow> same_rest r s u"
  by (simp add: same_rest_def)

lemma upd_chan_spec:
  assumes "get_chan r s = Some ch" "fst r \<le> 1"
  obtains t where "upd_chan r f s = Some t" "get_chan r t = Some (f ch)" "same_rest r s t" "mem_base t = mem_base s"
    "ems_board_mapping t = ems_board_mapping s" "devices t = devices s"
proof -
  obtain c where c: "get_ctl (fst r) s = Some c" "snd r < length (dma_channels c)" "ch = dma_channels c ! snd r"
    using assms(1) by (auto simp: get_chan_def GetChannel_def split: bind_splits if_splits)
  let ?t = "set_ctl (fst r) (c\<lparr>dma_channels := (dma_channels c)[snd r := f ch]\<rparr>) s"
  have "upd_chan r f s = Some ?t" using c by (simp add: upd_chan_def GetChannel_def)
  moreover have "get_chan r ?t = Some (f ch)" using c by (auto simp: get_chan_def GetChannel_def get_ctl_def set_ctl_def)
  moreover have "get_chan q ?t = get_chan q s" if "fst q \<le> 1" "q \<noteq> r" for q
    using that c assms(2) by (cases q, cases r) (auto simp: get_chan_def GetChannel_def get_ctl_def set_ctl_def nth_list_update)
  then have "same_rest r s ?t" by (auto simp: same_rest_def set_ctl_def)
  moreover have "mem_base ?t = mem_base s" "ems_board_mapping ?t = ems_board_mapping s" "devices ?t = devices s" by (simp_all add: set_ctl_def)
  ultimately show ?thesis using that by blast
qed

end
