(* ===== verification/Dma_Ring.thy ===== *)
theory Dma_Ring
  imports Dma_Moves
begin

text \<open>
  What a DMA channel transfers: auto-initialised channels run round their buffer, the others stop at the terminal
  count.
\<close>

unbundle bit_operations_syntax

section \<open>Callbacks\<close>

text \<open>Callbacks that, told of the terminal count, act on their device and not on the controllers or on memory: the Tandy DAC notes
  the event and raises its interrupt, those of the Sound Blaster and the Gravis Ultrasound ignore it.\<close>

definition quiet_at_count :: "'w dma_env \<Rightarrow> bool" where
  "quiet_at_count env \<longleftrightarrow> (\<forall>cb ch s. \<exists>d. on_event env cb ch ReachedTerminalCount s = s\<lparr>devices := d\<rparr>)"

lemma get_chan_fields [simp]: "get_chan r (s\<lparr>devices := d\<rparr>) = get_chan r s" "get_chan r (s\<lparr>mem_base := m\<rparr>) = get_chan r s"
  "get_chan r (UpdateEMSMapping s) = get_chan r s"
  by (simp_all add: get_chan_def get_ctl_def UpdateEMSMapping_def)

lemma same_rest_fields [simp]: "same_rest r s (t\<lparr>devices := d\<rparr>) = same_rest r s t" "same_rest r s (UpdateEMSMapping t) = same_rest r s t"
  by (simp_all add: same_rest_def UpdateEMSMapping_def get_chan_def get_ctl_def)

lemma mem_base_ems [simp]: "mem_base (UpdateEMSMapping t) = mem_base t"
  by (simp add: UpdateEMSMapping_def)

lemma callback_quiet:
  assumes "quiet_at_count env" "get_chan r s = Some ch"
  obtains d where "DoCallback env r ReachedTerminalCount s = Some (s\<lparr>devices := d\<rparr>)"
proof (cases "dma_callback ch")
  case None
  then show ?thesis using that [of "devices s"] assms by (simp add: DoCallback_def)
next
  case (Some cb)
  obtain d where "on_event env cb ch ReachedTerminalCount s = s\<lparr>devices := d\<rparr>" using assms(1) unfolding quiet_at_count_def by blast
  then show ?thesis using that Some assms(2) by (simp add: DoCallback_def)
qed

lemma terminal_count_quiet:
  assumes "quiet_at_count env" "get_chan r s = Some ch" "fst r \<le> 1"
  obtains t where "reached_terminal_count env r s = Some t" "get_chan r t = Some (ch\<lparr>has_reached_terminal_count := True\<rparr>)" "same_rest r s t"
    "mem_base t = mem_base s" "ems_board_mapping t = ems_board_mapping s"
proof -
  obtain t where t: "upd_chan r (\<lambda>ch. ch\<lparr>has_reached_terminal_count := True\<rparr>) s = Some t" "get_chan r t = Some (ch\<lparr>has_reached_terminal_count := True\<rparr>)"
    "same_rest r s t" "mem_base t = mem_base s" "ems_board_mapping t = ems_board_mapping s"
    using upd_chan_spec [OF assms(2,3)] by metis
  obtain d where "DoCallback env r ReachedTerminalCount t = Some (t\<lparr>devices := d\<rparr>)" using callback_quiet [OF assms(1) t(2)] by metis
  then show ?thesis using that [of "t\<lparr>devices := d\<rparr>"] t by (simp add: reached_terminal_count_def)
qed

lemma dma_phys_cong: "firstmb t = firstmb s \<Longrightarrow> ems_board_mapping t = ems_board_mapping s \<Longrightarrow> dma_phys t = dma_phys s"
  by (intro ext) (simp add: dma_phys_def dma_page_def)

lemma moves_length: "moves dir as pos (m, d) = Some (m', d') \<Longrightarrow> length m' = length m \<and> length d' = length d"
proof (induction as arbitrary: pos m d)
  case (Cons a as)
  obtain m1 d1 where "move_byte dir a pos (m, d) = Some (m1, d1)" "moves dir as (pos + 1) (m1, d1) = Some (m', d')"
    using Cons.prems by (auto split: bind_splits)
  then show ?case using Cons.IH by (auto split: if_splits DmaDirection.splits)
qed simp

section \<open>Rings\<close>

definition width :: "DmaChannel \<Rightarrow> nat" where
  "width ch = 2 ^ unat (is_16bit ch)"

text \<open>The address, in the 64 or 128 kilobytes of the channel's page, of the \<open>k\<close>-th byte: up to the terminal count from the current
  address, then round the buffer at the base address.\<close>

definition ring_byte :: "DmaChannel \<Rightarrow> nat \<Rightarrow> u32" where
  "ring_byte ch k =
     (let n = (unat (curr_count ch) + 1) * width ch
      in if k < n then push_bit (unat (is_16bit ch)) (curr_addr ch) + word_of_nat k
         else push_bit (unat (is_16bit ch)) (ucast (base_addr ch)) + word_of_nat ((k - n) mod ((unat (base_count ch) + 1) * width ch)))"

definition ring :: "'w dma \<Rightarrow> DmaChannel \<Rightarrow> nat \<Rightarrow> u32 list" where
  "ring s ch n = map (dma_phys s (drop_bit 12 (page_base ch)) \<circ> ring_byte ch) [0 ..< n * width ch]"

definition after_ring :: "DmaChannel \<Rightarrow> nat \<Rightarrow> DmaChannel" where
  "after_ring ch n =
     (if n \<le> unat (curr_count ch) then ch\<lparr>curr_addr := curr_addr ch + word_of_nat n, curr_count := curr_count ch - word_of_nat n\<rparr>
      else let q = (n - unat (curr_count ch) - 1) mod (unat (base_count ch) + 1)
           in ch\<lparr>has_reached_terminal_count := True, curr_addr := ucast (base_addr ch) + word_of_nat q, curr_count := base_count ch - word_of_nat q\<rparr>)"

definition reload :: "DmaChannel \<Rightarrow> DmaChannel" where
  "reload ch = ch\<lparr>has_reached_terminal_count := True, curr_count := base_count ch, curr_addr := ucast (base_addr ch)\<rparr>"

lemma ring_short:
  assumes "n \<le> unat (curr_count ch) + 1"
  shows "ring s ch n = map (dma_phys s (drop_bit 12 (page_base ch))) (span_from (push_bit (unat (is_16bit ch)) (curr_addr ch)) (n * width ch))"
proof -
  have "k < (unat (curr_count ch) + 1) * width ch" if "k < n * width ch" for k using that assms by (meson less_le_trans mult_le_mono1)
  then show ?thesis by (auto simp: ring_def span_from_def ring_byte_def Let_def)
qed

lemma ring_byte_reload: "ring_byte ch ((unat (curr_count ch) + 1) * width ch + k) = ring_byte (reload ch) k"
  by (simp add: ring_byte_def Let_def reload_def width_def le_mod_geq)

lemma upt_split: "[0 ..< a + b] = [0 ..< a] @ map (\<lambda>k. a + k) [0 ..< b]"
  by (induction b) simp_all

lemma ring_split:
  assumes "unat (curr_count ch) + 1 \<le> n"
  shows "ring s ch n = ring s ch (unat (curr_count ch) + 1) @ ring s (reload ch) (n - (unat (curr_count ch) + 1))"
proof -
  let ?l = "(unat (curr_count ch) + 1) * width ch" and ?w = "width ch"
  have n: "n * ?w = ?l + (n - (unat (curr_count ch) + 1)) * ?w" using assms by (metis add_mult_distrib le_add_diff_inverse)
  have w: "width (reload ch) = ?w" "page_base (reload ch) = page_base ch" by (simp_all add: width_def reload_def)
  have "[0 ..< n * ?w] = [0 ..< ?l] @ map (\<lambda>k. ?l + k) [0 ..< (n - (unat (curr_count ch) + 1)) * ?w]"
    unfolding n by (rule upt_split)
  then show ?thesis unfolding ring_def w by (simp only: map_append map_map o_def ring_byte_reload)
qed

lemma after_ring_reload:
  assumes "unat (curr_count ch) + 1 \<le> n"
  shows "after_ring ch n = after_ring (reload ch) (n - (unat (curr_count ch) + 1))"
proof -
  let ?m = "n - unat (curr_count ch) - 1" and ?b = "unat (base_count ch) + 1"
  have "?m mod ?b = (if ?m < ?b then ?m else (?m - ?b) mod ?b)" by (simp add: mod_if)
  then show ?thesis using assms by (auto simp: after_ring_def reload_def Let_def)
qed


declare transfer_loop.simps [simp del]

lemma perform_ring:
  assumes "unat (is_16bit ch) \<le> 1" "unat k \<le> unat (curr_count ch) + 1" "unat k * width ch \<le> 65536"
  shows "perform_dma_io dir (page_base ch) (curr_addr ch) pos k (is_16bit ch) (s, d) = map_option (mem_upd s) (moves dir (ring s ch (unat k)) pos (mem_base s, d))"
  using perform_moves [OF assms(1) assms(3) [unfolded width_def]] unfolding ring_short [OF assms(2)] width_def .

lemma same_rest_mem: "moves dir as pos (mem_base s, d) = Some (m, d') \<Longrightarrow> same_rest r s (s\<lparr>mem_base := m\<rparr>)"
  by (auto simp: same_rest_def dest: moves_length)

text \<open>A transfer that ends before the terminal count.\<close>

lemma transfer_short:
  assumes "get_chan r s = Some ch" "fst r \<le> 1" "unat (is_16bit ch) \<le> 1" "unat want \<le> unat (curr_count ch)"
    and "unat want * width ch \<le> 65536"
  shows "case moves dir (ring s ch (unat want)) pos (mem_base s, d) of
     None \<Rightarrow> transfer_loop env r dir want f pos (s, d) = None
   | Some (m, d') \<Rightarrow> \<exists>t. transfer_loop env r dir want f pos (s, d) = Some (f + want, t, d') \<and> mem_base t = m \<and>
       get_chan r t = Some (ch\<lparr>curr_addr := curr_addr ch + want, curr_count := curr_count ch - ucast want\<rparr>) \<and> same_rest r s t"
proof -
  let ?f = "\<lambda>ch. ch\<lparr>curr_addr := curr_addr ch + want, curr_count := curr_count ch - ucast want\<rparr>" and ?ms = "moves dir (ring s ch (unat want)) pos (mem_base s, d)"
  have "want < ucast (curr_count ch) + 1" using left_unat [of "curr_count ch"] assms(4) by (simp add: word_less_nat_alt)
  then have t: "transfer_loop env r dir want f pos (s, d) = do { (s, d) \<leftarrow> map_option (mem_upd s) ?ms; s \<leftarrow> upd_chan r ?f s; Some (f + want, s, d) }"
    using assms(4,5) by (subst transfer_loop.simps) (simp add: assms(1) perform_ring [OF assms(3)])
  show ?thesis
  proof (cases ?ms)
    case (Some x)
    obtain m d' where x: "x = (m, d')" by (cases x)
    have g: "get_chan r (s\<lparr>mem_base := m\<rparr>) = Some ch" using assms(1) by simp
    obtain u where "upd_chan r ?f (s\<lparr>mem_base := m\<rparr>) = Some u" "get_chan r u = Some (?f ch)" "same_rest r (s\<lparr>mem_base := m\<rparr>) u"
      "mem_base u = mem_base (s\<lparr>mem_base := m\<rparr>)" "ems_board_mapping u = ems_board_mapping (s\<lparr>mem_base := m\<rparr>)" "devices u = devices (s\<lparr>mem_base := m\<rparr>)"
      by (rule upd_chan_spec [OF g assms(2)])
    then show ?thesis using Some x same_rest_mem [of dir _ pos s d m d' r] unfolding t by (auto simp: mem_upd_def intro: same_rest_trans)
  qed (simp add: t)
qed

text \<open>A transfer that reaches it: the state \<open>t\<close> when the owner has been told.\<close>

definition reload_or_stop :: "'w dma_env \<Rightarrow> chan_ref \<Rightarrow> DmaDirection \<Rightarrow> u32 \<Rightarrow> u32 \<Rightarrow> u32 \<Rightarrow> nat \<Rightarrow> 'w dma \<times> u8 list \<Rightarrow> bool \<Rightarrow> (u32 \<times> 'w dma \<times> u8 list) option" where
  "reload_or_stop env r dir left want f pos x auto =
     (if auto
      then do { s \<leftarrow> upd_chan r (\<lambda>ch. ch\<lparr>curr_count := base_count ch, curr_addr := ucast (base_addr ch)\<rparr>) (fst x);
        if want - left \<noteq> 0 then transfer_loop env r dir (want - left) (f + left) pos (s, snd x) else Some (f + left, UpdateEMSMapping s, snd x) }
      else do { s \<leftarrow> upd_chan r (\<lambda>ch. ch\<lparr>curr_addr := curr_addr ch + left, curr_count := 0xffff, is_masked := True\<rparr>) (fst x);
        s \<leftarrow> DoCallback env r IsMasked (UpdateEMSMapping s);
        Some (f + left, s, snd x) })"

lemma transfer_turn:
  assumes q: "quiet_at_count env" and r: "fst r \<le> 1" and ch: "get_chan r s = Some ch" "unat (is_16bit ch) \<le> 1" and w: "unat (curr_count ch) + 1 \<le> unat want"
    and b: "(unat (curr_count ch) + 1) * width ch \<le> 65536"
  shows "case moves dir (ring s ch (unat (curr_count ch) + 1)) pos (mem_base s, d) of
     None \<Rightarrow> transfer_loop env r dir want f pos (s, d) = None
   | Some (m, d') \<Rightarrow> \<exists>t. get_chan r t = Some (ch\<lparr>has_reached_terminal_count := True\<rparr>) \<and> same_rest r s t \<and> mem_base t = m \<and>
       ems_board_mapping t = ems_board_mapping s \<and>
       transfer_loop env r dir want f pos (s, d) =
         reload_or_stop env r dir (ucast (curr_count ch) + 1) want f (pos + (unat (curr_count ch) + 1) * width ch) (t, d') (is_autoiniting ch)"
proof -
  let ?left = "ucast (curr_count ch) + 1 :: u32" and ?n = "unat (curr_count ch) + 1"
  let ?ms = "moves dir (ring s ch ?n) pos (mem_base s, d)"
  note left = left_unat [of "curr_count ch"]
  have ge: "\<not> want < ?left" using left w by (simp add: word_less_nat_alt)
  have io: "perform_dma_io dir (page_base ch) (curr_addr ch) pos ?left (is_16bit ch) (s, d) = map_option (mem_upd s) ?ms" using perform_ring [OF ch(2), of ?left] left b by simp
  have "?n \<le> 0x10000" using unsigned_less [of "curr_count ch", where ?'a = nat] by simp
  then have step: "unat (push_bit (unat (is_16bit ch)) ?left) = ?n * width ch" using shift_unat [OF ch(2), of ?left] left by (simp only: width_def)
  show ?thesis
  proof (cases ?ms)
    case None
    have "transfer_loop env r dir want f pos (s, d) = None" using ge by (subst transfer_loop.simps) (simp add: ch(1) io None [simplified] Let_def)
    then show ?thesis unfolding None by simp
  next
    case (Some x)
    obtain m d' where x: "x = (m, d')" by (cases x)
    let ?s = "s\<lparr>mem_base := m\<rparr>"
    have g: "get_chan r ?s = Some ch" "same_rest r s ?s" using ch(1) same_rest_mem [of dir _ pos s d m d' r] Some x by auto
    obtain t where t: "reached_terminal_count env r ?s = Some t" "get_chan r t = Some (ch\<lparr>has_reached_terminal_count := True\<rparr>)" "same_rest r ?s t"
      "mem_base t = mem_base ?s" "ems_board_mapping t = ems_board_mapping ?s" by (rule terminal_count_quiet [OF q g(1) r])
    have "transfer_loop env r dir want f pos (s, d) = reload_or_stop env r dir ?left want f (pos + ?n * width ch) (t, d') (is_autoiniting ch)"
      using ge by (subst transfer_loop.simps)
        (simp add: ch io Some [simplified] x mem_upd_def t step [simplified] Let_def reload_or_stop_def option.case_eq_if bind_eq_None_conv split: option.split bind_split)
    then show ?thesis using Some x t same_rest_trans [OF g(2) t(3)] by auto
  qed
qed

lemma ring_loop:
  assumes q: "quiet_at_count env" and r: "fst r \<le> 1"
  shows "get_chan r s = Some ch \<Longrightarrow> is_autoiniting ch \<Longrightarrow> unat (is_16bit ch) \<le> 1 \<Longrightarrow>
   (unat (curr_count ch) + 1) * width ch \<le> 65536 \<Longrightarrow> (unat (base_count ch) + 1) * width ch \<le> 65536 \<Longrightarrow>
   case moves dir (ring s ch (unat want)) pos (mem_base s, d) of
     None \<Rightarrow> transfer_loop env r dir want f pos (s, d) = None
   | Some (m, d') \<Rightarrow> \<exists>t. transfer_loop env r dir want f pos (s, d) = Some (f + want, t, d') \<and> mem_base t = m \<and>
       get_chan r t = Some (after_ring ch (unat want)) \<and> same_rest r s t"
proof (induction "unat want" arbitrary: want f pos s d ch rule: less_induct)
  case less
  let ?left = "ucast (curr_count ch) + 1 :: u32" and ?n = "unat (curr_count ch) + 1"
  note ch = less.prems and left = left_unat [of "curr_count ch"]
  show ?case
  proof (cases "unat want \<le> unat (curr_count ch)")
    case True
    then have "unat want * width ch \<le> (unat (curr_count ch) + 1) * width ch" by (intro mult_right_mono) simp_all
    then have "unat want * width ch \<le> 65536" using ch(4) by (rule order_trans)
    then show ?thesis using True transfer_short [OF ch(1) r ch(3), where want = want and dir = dir and pos = pos and d = d and env = env and f = f] by (auto simp: after_ring_def split: option.splits)
  next
    case False
    then have w: "?n \<le> unat want" by simp
    let ?ms = "moves dir (ring s ch ?n) pos (mem_base s, d)" and ?rest = "unat want - ?n"
    have split: "moves dir (ring s ch (unat want)) pos (mem_base s, d) = do { x \<leftarrow> ?ms; moves dir (ring s (reload ch) ?rest) (pos + ?n * width ch) x }"
      unfolding ring_split [OF w] moves_append by (simp add: ring_def)
    have rest: "unat (want - ?left) = ?rest" using w left by (simp add: unat_sub word_le_nat_alt)
    note turn = transfer_turn [OF q r ch(1,3) w ch(4), where dir = dir and pos = pos and d = d and f = f]
    show ?thesis
    proof (cases ?ms)
      case None
      then show ?thesis using turn unfolding split by simp
    next
      case (Some x)
      obtain m d' where x: "x = (m, d')" by (cases x)
      obtain t where t: "get_chan r t = Some (ch\<lparr>has_reached_terminal_count := True\<rparr>)" "same_rest r s t" "mem_base t = m" "ems_board_mapping t = ems_board_mapping s"
        "transfer_loop env r dir want f pos (s, d) = reload_or_stop env r dir ?left want f (pos + ?n * width ch) (t, d') True" using turn Some x ch(2) by auto
      let ?f = "\<lambda>ch. ch\<lparr>curr_count := base_count ch, curr_addr := ucast (base_addr ch)\<rparr>"
      obtain u where u: "upd_chan r ?f t = Some u" "get_chan r u = Some (?f (ch\<lparr>has_reached_terminal_count := True\<rparr>))" "same_rest r t u"
        "mem_base u = mem_base t" "ems_board_mapping u = ems_board_mapping t" "devices u = devices t"
        by (rule upd_chan_spec [OF t(1) r])
      have su: "same_rest r s u" using t(2) u(3) same_rest_trans by blast
      have gu: "get_chan r u = Some (reload ch)" "mem_base u = m" "is_autoiniting (reload ch)" "unat (is_16bit (reload ch)) \<le> 1"
        "(unat (curr_count (reload ch)) + 1) * width (reload ch) \<le> 65536" "(unat (base_count (reload ch)) + 1) * width (reload ch) \<le> 65536"
        using u(2,4) t(3) ch(2,3,5) by (simp_all add: reload_def width_def)
      have "firstmb u = firstmb s" "ems_board_mapping u = ems_board_mapping s" using su u(5) t(4) by (simp_all add: same_rest_def)
      then have ru: "ring u (reload ch) k = ring s (reload ch) k" for k by (simp add: ring_def dma_phys_cong [of u s])
      show ?thesis
      proof (cases "want - ?left = 0")
        case True
        then have "unat want = ?n" "want = ?left" using rest w by simp_all
        then show ?thesis unfolding split t(5) Some x using gu su after_ring_reload [of ch ?n]
          by (simp add: ring_def after_ring_def reload_def reload_or_stop_def u(1))
      next
        case n0: False
        have "unat (want - ?left) < unat want" using rest w by simp
        from less.hyps [OF this gu(1,3-6), of "f + ?left" "pos + ?n * width ch" d'] show ?thesis
          unfolding split t(5) Some x rest ru gu(2) using n0 same_rest_trans [OF su]
          by (auto simp: reload_or_stop_def u(1) after_ring_reload [OF w] split: option.splits)
      qed
    qed
  qed
qed


text \<open>At the terminal count of another channel its owner is told last; \<open>t\<close> is the state before.\<close>

lemma stop_loop:
  assumes q: "quiet_at_count env" and r: "fst r \<le> 1" and ch: "get_chan r s = Some ch" "\<not> is_autoiniting ch" "unat (is_16bit ch) \<le> 1"
    and w: "unat (curr_count ch) + 1 \<le> unat want" and b: "(unat (curr_count ch) + 1) * width ch \<le> 65536"
  shows "case moves dir (ring s ch (unat (curr_count ch) + 1)) pos (mem_base s, d) of
     None \<Rightarrow> transfer_loop env r dir want f pos (s, d) = None
   | Some (m, d') \<Rightarrow> \<exists>t. transfer_loop env r dir want f pos (s, d) =
         map_option (\<lambda>u. (f + (ucast (curr_count ch) + 1), u, d')) (DoCallback env r IsMasked t) \<and> mem_base t = m \<and>
       get_chan r t = Some (ch\<lparr>has_reached_terminal_count := True, curr_addr := curr_addr ch + (ucast (curr_count ch) + 1), curr_count := 0xffff, is_masked := True\<rparr>) \<and>
       same_rest r s t"
proof (cases "moves dir (ring s ch (unat (curr_count ch) + 1)) pos (mem_base s, d)")
  case None
  then show ?thesis using transfer_turn [OF q r ch(1,3) w b, where dir = dir and pos = pos and d = d and f = f] by simp
next
  case (Some x)
  let ?left = "ucast (curr_count ch) + 1 :: u32" and ?n = "unat (curr_count ch) + 1"
  obtain m d' where x: "x = (m, d')" by (cases x)
  obtain t where t: "get_chan r t = Some (ch\<lparr>has_reached_terminal_count := True\<rparr>)" "same_rest r s t" "mem_base t = m"
    "transfer_loop env r dir want f pos (s, d) = reload_or_stop env r dir ?left want f (pos + ?n * width ch) (t, d') False"
    using transfer_turn [OF q r ch(1,3) w b, where dir = dir and pos = pos and d = d and f = f] Some x ch(2) by auto
  let ?f = "\<lambda>ch. ch\<lparr>curr_addr := curr_addr ch + ?left, curr_count := 0xffff, is_masked := True\<rparr>"
  obtain u where u: "upd_chan r ?f t = Some u" "get_chan r u = Some (?f (ch\<lparr>has_reached_terminal_count := True\<rparr>))" "same_rest r t u"
    "mem_base u = mem_base t" "ems_board_mapping u = ems_board_mapping t" "devices u = devices t"
    by (rule upd_chan_spec [OF t(1) r])
  have "same_rest r s u" using t(2) u(3) same_rest_trans by blast
  moreover have "reload_or_stop env r dir ?left want f (pos + ?n * width ch) (t, d') False =
      map_option (\<lambda>v. (f + ?left, v, d')) (DoCallback env r IsMasked (UpdateEMSMapping u))"
    by (cases "DoCallback env r IsMasked (UpdateEMSMapping u)") (simp_all add: reload_or_stop_def u(1))
  ultimately show ?thesis unfolding t(4) Some x using u(2,4) t(3) by (auto intro!: exI [of _ "UpdateEMSMapping u"])
qed

section \<open>Transfers\<close>

text \<open>The channel with its address cut as at the start of every transfer.\<close>

definition wrapped :: "'w dma \<Rightarrow> DmaChannel \<Rightarrow> DmaChannel" where
  "wrapped s ch = ch\<lparr>curr_addr := curr_addr ch AND dma_wrapping s\<rparr>"

lemma wrapped_fields [simp]: "is_autoiniting (wrapped s ch) = is_autoiniting ch" "is_16bit (wrapped s ch) = is_16bit ch" "curr_count (wrapped s ch) = curr_count ch"
  "base_count (wrapped s ch) = base_count ch"
  "width (wrapped s ch) = width ch"
  by (simp_all add: wrapped_def width_def)

lemma rw_start:
  assumes "get_chan r s = Some ch" "fst r \<le> 1"
  obtains u where "\<And>env dir want d. ReadOrWrite env r dir want (s, d) = transfer_loop env r dir want 0 0 (u, d)" "get_chan r u = Some (wrapped s ch)"
    "same_rest r s u" "mem_base u = mem_base s" "ring u = ring s"
proof -
  let ?f = "\<lambda>ch. ch\<lparr>curr_addr := curr_addr ch AND dma_wrapping s\<rparr>"
  obtain u where u: "upd_chan r ?f s = Some u" "get_chan r u = Some (?f ch)" "same_rest r s u" "mem_base u = mem_base s"
    "ems_board_mapping u = ems_board_mapping s" "devices u = devices s" by (rule upd_chan_spec [OF assms])
  have "dma_phys u = dma_phys s" using u by (intro dma_phys_cong) (simp_all add: same_rest_def)
  then have "ring u = ring s" by (intro ext) (simp add: ring_def)
  then show ?thesis using that [of u] u by (simp add: ReadOrWrite_def wrapped_def)
qed

text \<open>The number of words a transfer moves.\<close>

definition moved :: "DmaChannel \<Rightarrow> u32 \<Rightarrow> nat" where
  "moved ch want = (if is_autoiniting ch then unat want else min (unat want) (unat (curr_count ch) + 1))"

definition after :: "DmaChannel \<Rightarrow> u32 \<Rightarrow> DmaChannel" where
  "after ch want =
     (if is_autoiniting ch then after_ring ch (unat want)
      else if unat want \<le> unat (curr_count ch) then ch\<lparr>curr_addr := curr_addr ch + want, curr_count := curr_count ch - ucast want\<rparr>
      else ch\<lparr>has_reached_terminal_count := True, curr_addr := curr_addr ch + ucast (curr_count ch) + 1, curr_count := 0xffff, is_masked := True\<rparr>)"

text \<open>The bytes moved at once stay within the 64 KB that are asserted.\<close>

definition within_64k :: "DmaChannel \<Rightarrow> u32 \<Rightarrow> bool" where
  "within_64k ch want \<longleftrightarrow>
     (if is_autoiniting ch then (unat (curr_count ch) + 1) * width ch \<le> 65536 \<and> (unat (base_count ch) + 1) * width ch \<le> 65536
      else moved ch want * width ch \<le> 65536)"

text \<open>Whether the transfer ends at the terminal count with the channel masked, and the state after its owner was told.\<close>

definition told :: "'w dma_env \<Rightarrow> chan_ref \<Rightarrow> DmaChannel \<Rightarrow> u32 \<Rightarrow> 'w dma \<Rightarrow> 'w dma option" where
  "told env r ch want t =
     (if \<not> is_autoiniting ch \<and> unat (curr_count ch) < unat want then DoCallback env r IsMasked t else Some t)"

lemma rw_spec:
  assumes q: "quiet_at_count env" and r: "fst r \<le> 1" and ch: "get_chan r s = Some ch" "unat (is_16bit ch) \<le> 1" and b: "within_64k ch want"
  shows "case moves dir (ring s (wrapped s ch) (moved ch want)) 0 (mem_base s, d) of
     None \<Rightarrow> ReadOrWrite env r dir want (s, d) = None
   | Some (m, d') \<Rightarrow> \<exists>t. ReadOrWrite env r dir want (s, d) = map_option (\<lambda>u. (word_of_nat (moved ch want), u, d')) (told env r ch want t) \<and>
       mem_base t = m \<and> get_chan r t = Some (after (wrapped s ch) want) \<and> same_rest r s t"
proof -
  obtain u where u: "\<And>env dir want d. ReadOrWrite env r dir want (s, d) = transfer_loop env r dir want 0 0 (u, d)" "get_chan r u = Some (wrapped s ch)"
    "same_rest r s u" "mem_base u = mem_base s" "ring u = ring s" using rw_start [OF ch(1) r] by blast
  let ?ch = "wrapped s ch"
  have w: "unat (is_16bit ?ch) \<le> 1" using ch(2) by simp
  note trans = same_rest_trans [OF u(3)]
  consider (auto) "is_autoiniting ch" | (short) "\<not> is_autoiniting ch" "unat want \<le> unat (curr_count ch)"
    | (stop) "\<not> is_autoiniting ch" "unat (curr_count ch) + 1 \<le> unat want" by linarith
  then show ?thesis
  proof cases
    case auto
    then show ?thesis unfolding u(1) using ring_loop [OF q r u(2), where dir = dir and want = want and pos = 0 and d = d and f = 0] w b u(4,5) trans
      by (auto simp: moved_def after_def told_def within_64k_def split: option.splits)
  next
    case short
    then show ?thesis unfolding u(1) using transfer_short [OF u(2) r w, where dir = dir and want = want and pos = 0 and d = d and f = 0 and env = env] b u(4,5) trans
      by (auto simp: moved_def after_def told_def within_64k_def split: option.splits)
  next
    case stop
    have "(word_of_nat (unat (curr_count ch)) :: u32) = ucast (curr_count ch)" by simp
    then show ?thesis using stop unfolding u(1)
      using stop_loop [OF q r u(2), where dir = dir and want = want and pos = 0 and d = d and f = 0] w b u(4,5) trans
      by (auto simp: moved_def after_def told_def within_64k_def add.assoc add.commute split: option.splits)
  qed
qed

end
