(* ===== verification/Dma_Correct.thy ===== *)
theory Dma_Correct
  imports Dma_Ring
begin

text \<open>
  The properties of the DMA controllers: programming a channel through its byte registers, transfers of
  auto-initialised and of other channels, and transfers that leave memory.
\<close>

unbundle bit_operations_syntax

section \<open>Registers\<close>

lemma byte_halves:
  fixes lo hi :: u8
  shows "(((x AND 0xff00) OR ucast lo) AND 0x00ff) OR push_bit 8 (ucast hi) = (ucast lo OR push_bit 8 (ucast hi) :: u16)"
    and "(((y AND 0xff00) OR ucast (ucast lo :: u16)) AND 0x00ff) OR push_bit 8 (ucast (ucast hi :: u16)) = (ucast (ucast lo OR push_bit 8 (ucast hi) :: u16) :: u32)"
    and "(ucast lo OR push_bit 8 (ucast hi) :: u16) AND 0xff = ucast lo" "drop_bit 8 (ucast lo OR push_bit 8 (ucast hi) :: u16) AND 0xff = ucast hi"
    and "ucast (ucast (ucast lo OR push_bit 8 (ucast hi) :: u16) AND 0xff :: u32) = (ucast lo :: u16)"
      "ucast (drop_bit 8 (ucast (ucast lo OR push_bit 8 (ucast hi) :: u16)) AND 0xff :: u32) = (ucast hi :: u16)"
proof -
  have m: "(0xff :: u16) = mask 8" "(0xff :: u32) = mask 8" "(0xff00 :: u16) = push_bit 8 (mask 8)" "(0xff00 :: u32) = push_bit 8 (mask 8)"
    by (simp_all add: mask_eq_exp_minus_1 push_bit_eq_mult)
  note b = bit_simps bit_ucast_iff
  show "(((x AND 0xff00) OR ucast lo) AND 0x00ff) OR push_bit 8 (ucast hi) = (ucast lo OR push_bit 8 (ucast hi) :: u16)"
    unfolding m by (rule bit_word_eqI) (auto simp: b dest: bit_imp_le_length)
  show "(((y AND 0xff00) OR ucast (ucast lo :: u16)) AND 0x00ff) OR push_bit 8 (ucast (ucast hi :: u16)) = (ucast (ucast lo OR push_bit 8 (ucast hi) :: u16) :: u32)"
    unfolding m by (rule bit_word_eqI) (auto simp: b dest: bit_imp_le_length)
  show "(ucast lo OR push_bit 8 (ucast hi) :: u16) AND 0xff = ucast lo" "drop_bit 8 (ucast lo OR push_bit 8 (ucast hi) :: u16) AND 0xff = ucast hi"
    unfolding m by (rule bit_word_eqI, auto simp: b dest: bit_imp_le_length)+
  show "ucast (ucast (ucast lo OR push_bit 8 (ucast hi) :: u16) AND 0xff :: u32) = (ucast lo :: u16)"
    "ucast (drop_bit 8 (ucast (ucast lo OR push_bit 8 (ucast hi) :: u16)) AND 0xff :: u32) = (ucast hi :: u16)"
    unfolding m by (rule bit_word_eqI, auto simp: b dest: bit_imp_le_length)+
qed


lemma ctl_fields [simp]: "get_ctl k (UpdateEMSMapping s) = get_ctl k s" "get_ctl k (set_ctl k c s) = Some c" "set_ctl k c (set_ctl k c' s) = set_ctl k c s"
  "UpdateEMSMapping (set_ctl k c s) = set_ctl k c (UpdateEMSMapping s)"
  by (simp_all add: get_ctl_def set_ctl_def UpdateEMSMapping_def)

lemma fold_set:
  "length (fold (\<lambda>i m. m[b + i := v i]) [0 ..< n] m) = length m"
  "j < length m \<Longrightarrow> fold (\<lambda>i m. m[b + i := v i]) [0 ..< n] m ! j = (if b \<le> j \<and> j < b + n then v (j - b) else m ! j)"
proof (induction n)
  case (Suc n)
  { case 1 show ?case using Suc(1) by simp }
  { case 2 then show ?case using Suc by (cases "j = b + n") (auto simp: less_Suc_eq) }
qed auto

lemma fold_again: "fold (\<lambda>i m. m[b + i := v i]) [0 ..< n] (fold (\<lambda>i m. m[b + i := v i]) [0 ..< n] m) = fold (\<lambda>i m. m[b + i := v i]) [0 ..< n] m"
  by (rule nth_equalityI) (simp_all add: fold_set)

lemma ems_again [simp]: "UpdateEMSMapping (UpdateEMSMapping s) = UpdateEMSMapping s"
  by (simp add: UpdateEMSMapping_def fold_again)

lemma channel_reg:
  assumes "n < 4"
  shows "(word_of_nat (2 * n) :: u16) \<in> {0, 2, 4, 6}" "unat (drop_bit 1 (word_of_nat (2 * n) :: u16)) = n"
    "(word_of_nat (2 * n + 1) :: u16) \<in> {1, 3, 5, 7}" "(word_of_nat (2 * n + 1) :: u16) \<notin> {0, 2, 4, 6}" "unat (drop_bit 1 (word_of_nat (2 * n + 1) :: u16)) = n"
proof -
  have "n = 0 \<or> n = 1 \<or> n = 2 \<or> n = 3" using assms by auto
  then show "(word_of_nat (2 * n) :: u16) \<in> {0, 2, 4, 6}" "unat (drop_bit 1 (word_of_nat (2 * n) :: u16)) = n"
    "(word_of_nat (2 * n + 1) :: u16) \<in> {1, 3, 5, 7}" "(word_of_nat (2 * n + 1) :: u16) \<notin> {0, 2, 4, 6}" "unat (drop_bit 1 (word_of_nat (2 * n + 1) :: u16)) = n"
    by (elim disjE; simp add: drop_bit_eq_div)+
qed

definition with_chan :: "nat \<Rightarrow> (DmaChannel \<Rightarrow> DmaChannel) \<Rightarrow> DmaController \<Rightarrow> DmaController" where
  "with_chan n f c = c\<lparr>dma_channels := (dma_channels c)[n := f (dma_channels c ! n)]\<rparr>"

lemma upd_chan_ctl:
  "get_ctl k s = Some c \<Longrightarrow> n < length (dma_channels c) \<Longrightarrow> upd_chan (k, n) f s = Some (set_ctl k (with_chan n f c) s)"
  "get_ctl k s = Some c \<Longrightarrow> n < length (dma_channels c) \<Longrightarrow> get_chan (k, n) s = Some (dma_channels c ! n)"
  by (simp_all add: upd_chan_def GetChannel_def with_chan_def get_chan_def)

lemma toggle_ctl: "get_ctl k s = Some c \<Longrightarrow> toggle k s = Some (\<not> flipflop c, set_ctl k (c\<lparr>flipflop := \<not> flipflop c\<rparr>) s)"
  by (simp add: toggle_def upd_ctl_def)

lemma flipflop_same: "\<not> flipflop c \<Longrightarrow> c\<lparr>flipflop := False, dma_channels := x\<rparr> = c\<lparr>dma_channels := x\<rparr>"
  by (cases c) simp

text \<open>Two writes of a 16-bit register and two reads of it.\<close>

lemma write_twice:
  assumes c: "get_ctl k s = Some c" "\<not> flipflop c" "n < length (dma_channels c)" "n < 4"
  shows "do { s \<leftarrow> WriteControllerReg env k (word_of_nat (2 * n)) v s; WriteControllerReg env k (word_of_nat (2 * n)) w s } =
      Some (set_ctl k (with_chan n (write_addr False w \<circ> write_addr True v) c) (UpdateEMSMapping s))"
    and "do { s \<leftarrow> WriteControllerReg env k (word_of_nat (2 * n + 1)) v s; WriteControllerReg env k (word_of_nat (2 * n + 1)) w s } =
      Some (set_ctl k (with_chan n (write_count False w \<circ> write_count True v) c) (UpdateEMSMapping s))"
  using c channel_reg [OF c(4)]
  by (simp_all only: WriteControllerReg_def if_True if_False simp_thms, simp_all add: toggle_ctl upd_chan_ctl with_chan_def flipflop_same)


lemma read_twice:
  assumes c: "get_ctl k s = Some c" "\<not> flipflop c" "n < length (dma_channels c)" "n < 4"
  shows "do { (a, s) \<leftarrow> ReadControllerReg k (word_of_nat (2 * n)) s; (b, s) \<leftarrow> ReadControllerReg k (word_of_nat (2 * n)) s; Some (a, b, s) } =
      Some (ucast (curr_addr (dma_channels c ! n) AND 0xff), ucast (drop_bit 8 (curr_addr (dma_channels c ! n)) AND 0xff), s)"
    and "do { (a, s) \<leftarrow> ReadControllerReg k (word_of_nat (2 * n + 1)) s; (b, s) \<leftarrow> ReadControllerReg k (word_of_nat (2 * n + 1)) s; Some (a, b, s) } =
      Some (curr_count (dma_channels c ! n) AND 0xff, drop_bit 8 (curr_count (dma_channels c ! n)) AND 0xff, s)"
proof -
  have "set_ctl k (c\<lparr>flipflop := False\<rparr>) s = s" using c(1,2) by (cases c; cases s) (auto simp: get_ctl_def set_ctl_def split: if_splits)
  note keep = this
  show "do { (a, s) \<leftarrow> ReadControllerReg k (word_of_nat (2 * n)) s; (b, s) \<leftarrow> ReadControllerReg k (word_of_nat (2 * n)) s; Some (a, b, s) } =
      Some (ucast (curr_addr (dma_channels c ! n) AND 0xff), ucast (drop_bit 8 (curr_addr (dma_channels c ! n)) AND 0xff), s)"
    "do { (a, s) \<leftarrow> ReadControllerReg k (word_of_nat (2 * n + 1)) s; (b, s) \<leftarrow> ReadControllerReg k (word_of_nat (2 * n + 1)) s; Some (a, b, s) } =
      Some (curr_count (dma_channels c ! n) AND 0xff, drop_bit 8 (curr_count (dma_channels c ! n)) AND 0xff, s)"
    using c channel_reg [OF c(4)]
    by (simp_all only: ReadControllerReg_def if_True if_False simp_thms, simp_all add: toggle_ctl upd_chan_ctl keep)
qed

text \<open>Programming a channel: after two byte writes to its address register and two to its count register, low byte
  first, the base and current values are the two numbers, the flip-flop is as before, and two byte reads of each give
  the bytes back without changing anything; the other channels are kept.\<close>

theorem dma_program:
  fixes lo hi lo' hi' :: u8
  defines "a \<equiv> ucast lo OR push_bit 8 (ucast hi) :: u16" and "n' \<equiv> ucast lo' OR push_bit 8 (ucast hi') :: u16"
  assumes c: "get_ctl k s = Some c" "\<not> flipflop c" "n < length (dma_channels c)" "n < 4"
  shows "\<exists>t. do { s \<leftarrow> WriteControllerReg env k (word_of_nat (2 * n)) (ucast lo) s; s \<leftarrow> WriteControllerReg env k (word_of_nat (2 * n)) (ucast hi) s;
      s \<leftarrow> WriteControllerReg env k (word_of_nat (2 * n + 1)) (ucast lo') s; WriteControllerReg env k (word_of_nat (2 * n + 1)) (ucast hi') s } = Some t \<and>
    get_ctl k t = Some (with_chan n (\<lambda>ch. ch\<lparr>base_addr := a, curr_addr := ucast a, base_count := n', curr_count := n'\<rparr>) c) \<and>
    do { (x, s) \<leftarrow> ReadControllerReg k (word_of_nat (2 * n)) t; (y, s) \<leftarrow> ReadControllerReg k (word_of_nat (2 * n)) s; Some (x, y, s) } = Some (ucast lo, ucast hi, t) \<and>
    do { (x, s) \<leftarrow> ReadControllerReg k (word_of_nat (2 * n + 1)) t; (y, s) \<leftarrow> ReadControllerReg k (word_of_nat (2 * n + 1)) s; Some (x, y, s) } = Some (ucast lo', ucast hi', t)"
proof -
  let ?c1 = "with_chan n (write_addr False (ucast hi) \<circ> write_addr True (ucast lo)) c"
  let ?c = "with_chan n (write_count False (ucast hi') \<circ> write_count True (ucast lo')) ?c1"
  let ?s1 = "set_ctl k ?c1 (UpdateEMSMapping s)"
  have c1: "get_ctl k ?s1 = Some ?c1" "\<not> flipflop ?c1" "n < length (dma_channels ?c1)" using c by (simp_all add: with_chan_def)
  let ?t = "set_ctl k ?c (UpdateEMSMapping s)"
  have t: "get_ctl k ?t = Some ?c" "\<not> flipflop ?c" "n < length (dma_channels ?c)" using c by (simp_all add: with_chan_def)
  have w: "do { s \<leftarrow> WriteControllerReg env k (word_of_nat (2 * n)) (ucast lo) s; s \<leftarrow> WriteControllerReg env k (word_of_nat (2 * n)) (ucast hi) s; f s } = f ?s1" for f :: "'a dma \<Rightarrow> 'a dma option"
    using write_twice(1) [OF c, where env = env and v = "ucast lo" and w = "ucast hi"] by (auto split: bind_splits)
  have e: "?c = with_chan n (\<lambda>ch. ch\<lparr>base_addr := a, curr_addr := ucast a, base_count := n', curr_count := n'\<rparr>) c"
    using c(3) by (simp add: with_chan_def write_addr_def write_count_def byte_halves(1,2) a_def n'_def)
  have nth: "curr_addr (dma_channels ?c ! n) = ucast a" "curr_count (dma_channels ?c ! n) = n'" unfolding e using c(3) by (simp_all add: with_chan_def)
  have b: "ucast (ucast a AND 0xff :: u32) = (ucast lo :: u16)" "ucast (drop_bit 8 (ucast a :: u32) AND 0xff) = (ucast hi :: u16)" "n' AND 0xff = ucast lo'" "drop_bit 8 n' AND 0xff = ucast hi'"
    unfolding a_def n'_def by (fact byte_halves)+
  have "do { s \<leftarrow> WriteControllerReg env k (word_of_nat (2 * n + 1)) (ucast lo') ?s1; WriteControllerReg env k (word_of_nat (2 * n + 1)) (ucast hi') s } = Some ?t"
    unfolding write_twice(2) [OF c1 c(4)] by simp
  then show ?thesis unfolding w
    using t(1) [unfolded e] read_twice [OF t c(4), unfolded nth b] by (intro exI [of _ ?t] conjI) (simp_all only: e)
qed


section \<open>A machine\<close>

definition no_devices :: "unit dma_env" where
  "no_devices = \<lparr>on_event = (\<lambda>_ _ _ s. s), on_evict = (\<lambda>_ s. s), TANDYSOUND_Destroy = (\<lambda>s. s)\<rparr>"

lemma no_devices_quiet: "quiet_at_count no_devices"
proof -
  have "s = s\<lparr>devices := devices s\<rparr>" for s :: "unit dma" by simp
  then show ?thesis unfolding quiet_at_count_def no_devices_def by auto
qed

lemma no_devices_callback: "DoCallback no_devices r e t = Some u \<Longrightarrow> u = t"
  by (auto simp: DoCallback_def no_devices_def split: bind_splits option.splits)

definition dma_machine :: "u8 list \<Rightarrow> DmaChannel \<Rightarrow> unit dma" where
  "dma_machine mem ch = \<lparr>primary_dma = Some \<lparr>flipflop = False, dma_channels = [ch]\<rparr>, secondary_dma = None, ems_board_mapping = map word_of_nat [0 ..< LINK_START],
     dma_wrapping = 0xffff, firstmb = map word_of_nat [0 ..< LINK_START], mem_base = mem, devices = ()\<rparr>"

lemma dma_machine_fields: "get_chan (0, 0) (dma_machine mem ch) = Some ch" "mem_base (dma_machine mem ch) = mem" "wrapped (dma_machine mem ch) ch = ch\<lparr>curr_addr := curr_addr ch AND 0xffff\<rparr>"
  by (simp_all add: dma_machine_def get_chan_def get_ctl_def GetChannel_def wrapped_def)

lemma dma_machine_page: "unat p < LINK_START \<Longrightarrow> dma_page p (dma_machine mem ch) = p"
  by (simp add: dma_page_def dma_machine_def)

theorem dma_program_witness:
  "\<exists>t. do { s \<leftarrow> WriteControllerReg no_devices 0 2 0x34 ((dma_machine [] (new_channel 0 False))\<lparr>primary_dma := Some (new_controller 0)\<rparr>);
      s \<leftarrow> WriteControllerReg no_devices 0 2 0x12 s; s \<leftarrow> WriteControllerReg no_devices 0 3 0xff s; WriteControllerReg no_devices 0 3 0x7f s } = Some t \<and>
    get_ctl 0 t = Some (with_chan 1 (\<lambda>ch. ch\<lparr>base_addr := 0x1234, curr_addr := 0x1234, base_count := 0x7fff, curr_count := 0x7fff\<rparr>) (new_controller 0))"
proof -
  let ?s = "(dma_machine [] (new_channel 0 False))\<lparr>primary_dma := Some (new_controller 0)\<rparr>"
  have c: "get_ctl 0 ?s = Some (new_controller 0)" "\<not> flipflop (new_controller 0)" "1 < length (dma_channels (new_controller 0))" "(1 :: nat) < 4"
    by (simp_all add: get_ctl_def new_controller_def)
  from dma_program [OF c, where env = no_devices and lo = "0x34" and hi = "0x12" and lo' = "0xff" and hi' = "0x7f"] show ?thesis
    by (auto simp: push_bit_eq_mult)
qed

section \<open>Transfers\<close>

text \<open>C24. An auto-initialised channel, as sound devices use it, whose buffer has at most the 64 KB that one call may move: the device reads any
  number of words, more than a whole buffer too; it gets
  the bytes up to the terminal count and then those of the buffer at the base address, round and round. All words asked for
  arrive, the address and the count are those of the next word, and memory and the other channels are kept. The owner, told of the
  terminal count, is taken to act on its device only, as the owners in the repository do.\<close>

theorem dma_ring_read:
  assumes "quiet_at_count env" "fst r \<le> 1" "get_chan r s = Some ch" "is_autoiniting ch" "unat (is_16bit ch) \<le> 1"
    and "(unat (curr_count ch) + 1) * width ch \<le> 65536" "(unat (base_count ch) + 1) * width ch \<le> 65536"
    and "unat words * width ch \<le> length buffer" "\<forall>a \<in> set (ring s (wrapped s ch) (unat words)). unat a < length (mem_base s)"
  shows "\<exists>t. ReadOrWrite env r DmaRead words (s, buffer) =
      Some (words, t, map (\<lambda>a. mem_base s ! unat a) (ring s (wrapped s ch) (unat words)) @ drop (unat words * width ch) buffer) \<and>
    mem_base t = mem_base s \<and> get_chan r t = Some (after_ring (wrapped s ch) (unat words)) \<and> same_rest r s t"
proof -
  let ?as = "ring s (wrapped s ch) (unat words)"
  have "length ?as = unat words * width ch" by (simp add: ring_def)
  with moves_read [of 0 ?as buffer "mem_base s"] assms(8,9)
  have "moves DmaRead ?as 0 (mem_base s, buffer) = Some (mem_base s, map (\<lambda>a. mem_base s ! unat a) ?as @ drop (unat words * width ch) buffer)"
    by (simp add: overwrite_def)
  moreover have "within_64k ch words" using assms(4,6,7) by (simp add: within_64k_def)
  ultimately show ?thesis using rw_spec [OF assms(1,2,3,5), where dir = DmaRead and want = words and d = buffer] assms(4)
    by (simp add: moved_def after_def told_def)
qed

definition ring_channel :: DmaChannel where
  "ring_channel = (new_channel 0 False)\<lparr>is_autoiniting := True, base_addr := 2, base_count := 2, curr_addr := 3, curr_count := 1\<rparr>"

lemma dma_machine_low: "x < 4096 \<Longrightarrow> dma_phys (dma_machine mem ch) 0 x = x"
proof -
  assume "x < 4096"
  then have "drop_bit 12 x = 0" "x AND 4095 = x"
    using take_bit_eq_mask [of 12 x] take_bit_eq_mod [of 12 x] by (simp_all add: mask_eq_exp_minus_1 drop_bit_eq_div word_less_nat_alt word_unat_eq_iff unat_div unat_mod)
  then show ?thesis using dma_machine_page [of 0 mem ch] by (simp add: dma_phys_def LINK_START_def)
qed

theorem dma_ring_read_witness:
  "\<exists>t. ReadOrWrite no_devices (0, 0) DmaRead 6 (dma_machine [10, 11, 12, 13, 14, 15] ring_channel, replicate 7 0) = Some (6, t, [13, 14, 12, 13, 14, 12, 0]) \<and>
     get_chan (0, 0) t = Some (ring_channel\<lparr>has_reached_terminal_count := True, curr_addr := 3, curr_count := 1\<rparr>)"
proof -
  let ?s = "dma_machine [10, 11, 12, 13, 14, 15] ring_channel"
  have ring: "ring ?s (wrapped ?s ring_channel) (unat (6 :: u32)) = [3, 4, 2, 3, 4, 2]"
    by (simp add: ring_def dma_machine_fields ring_channel_def new_channel_def width_def ring_byte_def upt_rec dma_machine_low)
  have "width ring_channel = 1" by (simp add: width_def ring_channel_def new_channel_def)
  with dma_ring_read [OF no_devices_quiet _ dma_machine_fields(1) [of "[10, 11, 12, 13, 14, 15]" ring_channel], where words = 6 and buffer = "replicate 7 0"] ring
  show ?thesis by (auto simp: dma_machine_fields ring_channel_def new_channel_def after_ring_def)
qed

text \<open>C27. A channel without auto-initialisation that a device writes to, at most 64 KB at once: it takes the words that fit before the terminal count, each byte
  lands at its address and no other byte of memory changes. Short of the terminal count the address and count move on; at it the
  channel is masked with the count \<open>0xffff\<close>, and only then, in the state \<open>t\<close>, is the owner told that it is masked: the call leaves
  behind what the owner's callback makes of \<open>t\<close>.\<close>

theorem dma_single_write:
  assumes "quiet_at_count env" "fst r \<le> 1" "get_chan r s = Some ch" "\<not> is_autoiniting ch" "unat (is_16bit ch) \<le> 1"
    and "n = min (unat words) (unat (curr_count ch) + 1)" "n * width ch \<le> 65536" "n * width ch \<le> length buffer" "as = ring s (wrapped s ch) n"
    and "distinct as" "\<forall>a \<in> set as. unat a < length (mem_base s)" "c = wrapped s ch"
  shows "\<exists>t u. ReadOrWrite env r DmaWrite words (s, buffer) = Some (word_of_nat n, u, buffer) \<and>
    (if unat words \<le> unat (curr_count ch) then u = t else DoCallback env r IsMasked t = Some u) \<and>
    (\<forall>i < n * width ch. mem_base t ! unat (as ! i) = buffer ! i) \<and> (\<forall>x. x \<notin> unat ` set as \<longrightarrow> mem_base t ! x = mem_base s ! x) \<and>
    get_chan r t = Some (if unat words \<le> unat (curr_count ch) then c\<lparr>curr_addr := curr_addr c + words, curr_count := curr_count c - ucast words\<rparr>
      else c\<lparr>has_reached_terminal_count := True, curr_addr := curr_addr c + ucast (curr_count c) + 1, curr_count := 0xffff, is_masked := True\<rparr>) \<and>
    same_rest r s t"
proof -
  have len: "length as = n * width ch" using assms(9) by (simp add: ring_def)
  from moves_write [of 0 as buffer "mem_base s"] assms(8,11) len obtain m where m: "moves DmaWrite as 0 (mem_base s, buffer) = Some (m, buffer)"
    "\<forall>x. x \<notin> unat ` set as \<longrightarrow> m ! x = mem_base s ! x" "\<forall>k < length as. m ! unat (as ! k) = buffer ! k" using assms(10) by auto
  have n: "moved ch words = n" "within_64k ch words" using assms(4,6,7) by (simp_all add: moved_def within_64k_def)
  from rw_spec [OF assms(1,2,3,5) n(2), where dir = DmaWrite and d = buffer] m(1) n(1) assms(9) obtain t where
    t: "ReadOrWrite env r DmaWrite words (s, buffer) = map_option (\<lambda>u. (word_of_nat n, u, buffer)) (told env r ch words t)"
    "mem_base t = m" "get_chan r t = Some (after (wrapped s ch) words)" "same_rest r s t" by auto
  have "\<exists>u. told env r ch words t = Some u" using t(3) by (simp add: told_def DoCallback_def)
  then obtain u where u: "told env r ch words t = Some u" ..
  then have "if unat words \<le> unat (curr_count ch) then u = t else DoCallback env r IsMasked t = Some u"
    using assms(4) by (auto simp: told_def split: if_splits)
  then show ?thesis using t u m(2,3) assms(4,12) len by (intro exI [of _ t] exI [of _ u]) (simp add: after_def)
qed

theorem dma_single_write_witness:
  "\<exists>t. ReadOrWrite no_devices (0, 0) DmaWrite 5 (dma_machine [10, 11, 12, 13, 14, 15] (ring_channel\<lparr>is_autoiniting := False\<rparr>), [1, 2, 3, 4, 5]) = Some (2, t, [1, 2, 3, 4, 5]) \<and>
     mem_base t ! 3 = 1 \<and> mem_base t ! 4 = 2 \<and> mem_base t ! 5 = 15"
proof -
  let ?c = "ring_channel\<lparr>is_autoiniting := False\<rparr>"
  let ?s = "dma_machine [10, 11, 12, 13, 14, 15] ?c"
  have ring: "ring ?s (wrapped ?s ?c) 2 = [3, 4]"
    by (simp add: ring_def dma_machine_fields ring_channel_def new_channel_def width_def ring_byte_def upt_rec dma_machine_low)
  have "width ?c = 1" by (simp add: width_def ring_channel_def new_channel_def)
  with dma_single_write [OF no_devices_quiet _ dma_machine_fields(1) [of "[10, 11, 12, 13, 14, 15]" ?c], where words = 5 and buffer = "[1, 2, 3, 4, 5]"
      and n = 2 and as = "[3, 4]" and c = "wrapped ?s ?c"] ring
  show ?thesis by (auto simp: dma_machine_fields ring_channel_def new_channel_def less_2_cases_iff dest!: no_devices_callback)
qed

text \<open>A transfer that names an address behind the end of the emulated memory: no bound is checked, and the access has no defined
  result.\<close>

theorem dma_outside_memory:
  assumes "quiet_at_count env" "fst r \<le> 1" "get_chan r s = Some ch" "unat (is_16bit ch) \<le> 1" "within_64k ch words"
    and "a \<in> set (ring s (wrapped s ch) (moved ch words))" "length (mem_base s) \<le> unat a"
  shows "ReadOrWrite env r dir words (s, buffer) = None"
  using rw_spec [OF assms(1-5), where dir = dir and d = buffer] moves_none [OF assms(6,7)] by simp

theorem dma_outside_memory_witness:
  "ReadOrWrite no_devices (0, 0) DmaWrite 1 (dma_machine (replicate 0x100000 0) (SetPage 0x10 (new_channel 0 False)), [1]) = None"
proof -
  let ?c = "SetPage 0x10 (new_channel 0 False)"
  let ?s = "dma_machine (replicate 0x100000 0) ?c"
  have "ring ?s (wrapped ?s ?c) (moved ?c 1) = [0x100000]"
    using dma_machine_page [of "0x100" "replicate 0x100000 0" ?c]
    by (simp add: ring_def dma_machine_fields moved_def new_channel_def SetPage_def width_def ring_byte_def upt_rec dma_phys_def LINK_START_def push_bit_eq_mult drop_bit_eq_div)
  then show ?thesis using dma_outside_memory [OF no_devices_quiet _ dma_machine_fields(1) [of "replicate 0x100000 0" ?c], where words = 1 and a = "0x100000"]
    by (simp add: dma_machine_fields SetPage_def new_channel_def within_64k_def moved_def width_def)
qed

end
