(* ===== verification/Ems.thy ===== *)
theory Ems
  imports Xms Dma
begin

text \<open>
  The expanded memory manager of \<open>src/src/ints/ems.cpp\<close>: its handles on scattered pages of the pool, the
  page frame at segment \<open>0xE000\<close>, saved page maps and the interrupt 0x67. The guest's view of the first megabyte goes
  through \<open>paging.firstmb\<close>, which \<open>PAGING_MapPage\<close> changes; handlers of single pages (ROM, video memory) and the
  translation buffer are left out, and so is logging. The VCPI functions (0xDE), which switch the CPU to protected mode, are
  the argument \<open>vcpi\<close> of the interrupt: \<open>None\<close> when VCPI is disabled. The result \<open>None\<close> is a run that does not
  return or leaves an array, \<open>Inl\<close> a call of \<open>E_Exit\<close>.
\<close>

unbundle bit_operations_syntax

section \<open>State\<close>

abbreviation EMM_NO_ERROR :: u8 where "EMM_NO_ERROR \<equiv> 0x00"
abbreviation EMM_INVALID_HANDLE :: u8 where "EMM_INVALID_HANDLE \<equiv> 0x83"
abbreviation EMM_FUNC_NOSUP :: u8 where "EMM_FUNC_NOSUP \<equiv> 0x84"
abbreviation EMM_OUT_OF_HANDLES :: u8 where "EMM_OUT_OF_HANDLES \<equiv> 0x85"
abbreviation EMM_OUT_OF_LOG :: u8 where "EMM_OUT_OF_LOG \<equiv> 0x88"
abbreviation EMM_ZERO_PAGES :: u8 where "EMM_ZERO_PAGES \<equiv> 0x89"
abbreviation EMM_LOG_OUT_RANGE :: u8 where "EMM_LOG_OUT_RANGE \<equiv> 0x8a"
abbreviation EMM_ILL_PHYS :: u8 where "EMM_ILL_PHYS \<equiv> 0x8b"
abbreviation EMM_PAGE_MAP_SAVED :: u8 where "EMM_PAGE_MAP_SAVED \<equiv> 0x8d"
abbreviation EMM_NO_SAVED_PAGE_MAP :: u8 where "EMM_NO_SAVED_PAGE_MAP \<equiv> 0x8e"
abbreviation EMM_INVALID_SUB :: u8 where "EMM_INVALID_SUB \<equiv> 0x8f"
abbreviation EMM_ATTR_UNDEF :: u8 where "EMM_ATTR_UNDEF \<equiv> 0x90"
abbreviation EMM_FEAT_NOSUP :: u8 where "EMM_FEAT_NOSUP \<equiv> 0x91"
abbreviation EMM_NOT_FOUND :: u8 where "EMM_NOT_FOUND \<equiv> 0xa0"

abbreviation NULL_HANDLE :: u16 where "NULL_HANDLE \<equiv> 0xffff"
abbreviation NULL_PAGE :: u16 where "NULL_PAGE \<equiv> 0xffff"

definition EMM_PAGEFRAME :: nat where "EMM_PAGEFRAME = 0xE000"
definition EMM_MAX_HANDLES :: nat where "EMM_MAX_HANDLES = 200"
definition EMM_MAX_PHYS :: nat where "EMM_MAX_PHYS = 4"
definition MaxPages :: nat where "MaxPages = 0x7fff"

record EMM_Mapping =
  map_handle :: u16
  map_page :: u16

record EMM_Handle =
  emm_pages :: u16
  emm_mem :: MemHandle
  emm_name :: "u8 list"
  saved_page_map :: bool
  page_map :: "EMM_Mapping list"

record ems_regs =
  r_ax :: u16
  r_bx :: u16
  r_cx :: u16
  r_dx :: u16
  r_si :: u16
  r_di :: u16
  r_ds :: u16
  r_es :: u16

record ems_state =
  ems_type :: nat
  emm_handles :: "EMM_Handle list"
  emm_mappings :: "EMM_Mapping list"
  emm_segmentmappings :: "EMM_Mapping list"
  emm_pool :: pool
  paging_firstmb :: "u32 list"
  emm_wrapping :: u32
  emm_regs :: ems_regs

datatype ems_fault = Ems_pool pool_error | Allocation_failure | System_handle_failure | Reallocation_failure

type_synonym 'a emm = "(ems_fault + 'a) option"

definition bind_emm :: "'a emm \<Rightarrow> ('a \<Rightarrow> 'b emm) \<Rightarrow> 'b emm" where
  "bind_emm r f = (case r of None \<Rightarrow> None | Some (Inl e) \<Rightarrow> Some (Inl e) | Some (Inr x) \<Rightarrow> f x)"

definition emm_run :: "(pool_error + 'a) option \<Rightarrow> 'a emm" where
  "emm_run r = map_option (map_sum Ems_pool id) r"

definition none_mapping :: EMM_Mapping where
  "none_mapping = \<lparr>map_handle = NULL_HANDLE, map_page = NULL_PAGE\<rparr>"

definition set_pool :: "MemHandle list \<Rightarrow> ems_state \<Rightarrow> ems_state" where
  "set_pool mh s = s\<lparr>emm_pool := (emm_pool s)\<lparr>mhandles := mh\<rparr>\<rparr>"

definition hnd :: "u16 \<Rightarrow> ems_state \<Rightarrow> EMM_Handle" where
  "hnd handle s = emm_handles s ! unat handle"

definition upd_hnd :: "u16 \<Rightarrow> (EMM_Handle \<Rightarrow> EMM_Handle) \<Rightarrow> ems_state \<Rightarrow> ems_state" where
  "upd_hnd handle f s = s\<lparr>emm_handles := (emm_handles s)[unat handle := f (emm_handles s ! unat handle)]\<rparr>"

section \<open>The guest's memory\<close>

definition lin_phys :: "ems_state \<Rightarrow> u32 \<Rightarrow> u32" where
  "lin_phys s a =
     (let page = drop_bit 12 a
      in if unat page < LINK_START then paging_firstmb s ! unat page * 4096 + (a AND 4095) else a)"

definition view :: "ems_state \<Rightarrow> u32 \<Rightarrow> u8" where
  "view s a = ram (emm_pool s) (lin_phys s a)"

definition mem_writeb :: "u32 \<Rightarrow> u8 \<Rightarrow> ems_state \<Rightarrow> ems_state" where
  "mem_writeb a v s = s\<lparr>emm_pool := (emm_pool s)\<lparr>ram := (ram (emm_pool s))(lin_phys s a := v)\<rparr>\<rparr>"

primrec MEM_BlockWrite :: "u32 \<Rightarrow> u8 list \<Rightarrow> ems_state \<Rightarrow> ems_state" where
  "MEM_BlockWrite pt [] s = s"
| "MEM_BlockWrite pt (v # vs) s = MEM_BlockWrite (pt + 1) vs (mem_writeb pt v s)"

definition MEM_BlockRead :: "u32 \<Rightarrow> nat \<Rightarrow> ems_state \<Rightarrow> u8 list" where
  "MEM_BlockRead pt n s = map (\<lambda>i. view s (pt + word_of_nat i)) [0 ..< n]"

definition bytes_of :: "u16 \<Rightarrow> u8 list" where
  "bytes_of v = [ucast v, ucast (drop_bit 8 v)]"

definition mem_writew :: "u32 \<Rightarrow> u16 \<Rightarrow> ems_state \<Rightarrow> ems_state" where
  "mem_writew a v s = MEM_BlockWrite a (bytes_of v) s"

definition PAGING_MapPage :: "nat \<Rightarrow> u32 \<Rightarrow> ems_state \<Rightarrow> ems_state" where
  "PAGING_MapPage lin_page phys_page s = s\<lparr>paging_firstmb := (paging_firstmb s)[lin_page := phys_page]\<rparr>"

section \<open>Handles\<close>

definition get_total_pages :: "ems_state \<Rightarrow> u16" where
  "get_total_pages s = word_of_nat (min MaxPages (MEM_TotalPages (mhandles (emm_pool s)) div EMM_MAX_PHYS))"

definition get_free_pages :: "ems_state \<Rightarrow> u16" where
  "get_free_pages s = word_of_nat (min MaxPages (MEM_FreeTotal (mhandles (emm_pool s)) div EMM_MAX_PHYS))"

definition ValidHandle :: "u16 \<Rightarrow> ems_state \<Rightarrow> bool" where
  "ValidHandle handle s \<longleftrightarrow> unat handle < EMM_MAX_HANDLES \<and> emm_pages (hnd handle s) \<noteq> NULL_HANDLE"

function free_handle :: "EMM_Handle list \<Rightarrow> nat \<Rightarrow> nat option" where
  "free_handle hs handle =
     (if emm_pages (hs ! handle) \<noteq> NULL_HANDLE
      then if handle + 1 \<ge> EMM_MAX_HANDLES then None else free_handle hs (handle + 1)
      else Some handle)"
  by pat_completeness auto
termination by (relation "measure (\<lambda>(hs, h). EMM_MAX_HANDLES - h)") auto

text \<open>The error code and, on success, the handle.\<close>

definition EMM_AllocateMemory :: "u16 \<Rightarrow> bool \<Rightarrow> ems_state \<Rightarrow> (u8 \<times> u16 option \<times> ems_state) emm" where
  "EMM_AllocateMemory npages can_allocate_zpages s =
     (if npages = 0 \<and> \<not> can_allocate_zpages then Some (Inr (EMM_ZERO_PAGES, None, s))
      else if get_free_pages s < npages then Some (Inr (EMM_OUT_OF_LOG, None, s))
      else case free_handle (emm_handles s) 1 of
          None \<Rightarrow> Some (Inr (EMM_OUT_OF_HANDLES, None, s))
        | Some handle \<Rightarrow>
            bind_emm
              (if npages \<noteq> 0
               then bind_emm (emm_run (MEM_AllocatePages (unat npages * 4) False (mhandles (emm_pool s)))) (\<lambda>(mem, mh).
                      if mem = 0 then Some (Inl Allocation_failure) else Some (Inr (mem, mh)))
               else Some (Inr (0, mhandles (emm_pool s))))
              (\<lambda>(mem, mh). Some (Inr (EMM_NO_ERROR, Some (word_of_nat handle),
                 upd_hnd (word_of_nat handle) (\<lambda>h. h\<lparr>emm_pages := npages, emm_mem := mem\<rparr>) (set_pool mh s)))))"

definition EMM_AllocateSystemHandle :: "u16 \<Rightarrow> ems_state \<Rightarrow> (u8 \<times> ems_state) emm" where
  "EMM_AllocateSystemHandle npages s =
     (if get_free_pages s < npages then Some (Inr (EMM_OUT_OF_LOG, s))
      else bind_emm
        (if emm_pages (hnd 0 s) \<noteq> NULL_HANDLE then map_option Inr (MEM_ReleasePages (emm_mem (hnd 0 s)) (mhandles (emm_pool s)))
         else Some (Inr (mhandles (emm_pool s))))
        (\<lambda>mh. bind_emm (emm_run (MEM_AllocatePages (unat npages * 4) False mh)) (\<lambda>(mem, mh).
           if mem = 0 then Some (Inl System_handle_failure)
           else Some (Inr (EMM_NO_ERROR, upd_hnd 0 (\<lambda>h. h\<lparr>emm_pages := npages, emm_mem := mem\<rparr>) (set_pool mh s))))))"

definition EMM_ReallocatePages :: "u16 \<Rightarrow> u16 \<Rightarrow> ems_state \<Rightarrow> (u8 \<times> ems_state) emm" where
  "EMM_ReallocatePages handle npages s =
     (if \<not> ValidHandle handle s then Some (Inr (EMM_INVALID_HANDLE, s))
      else if emm_pages (hnd handle s) \<noteq> 0
      then bind_emm (emm_run (MEM_ReAllocatePages (emm_mem (hnd handle s)) (unat npages * 4) False (emm_pool s))) (\<lambda>(ok, mem, p).
             let s = upd_hnd handle (\<lambda>h. h\<lparr>emm_mem := mem\<rparr>) (s\<lparr>emm_pool := p\<rparr>)
             in if \<not> ok then Some (Inr (EMM_OUT_OF_LOG, s))
                else Some (Inr (EMM_NO_ERROR, upd_hnd handle (\<lambda>h. h\<lparr>emm_pages := npages\<rparr>) s)))
      else bind_emm (emm_run (MEM_AllocatePages (unat npages * 4) False (mhandles (emm_pool s)))) (\<lambda>(mem, mh).
             if mem = 0 then Some (Inl Reallocation_failure)
             else Some (Inr (EMM_NO_ERROR, upd_hnd handle (\<lambda>h. h\<lparr>emm_mem := mem, emm_pages := npages\<rparr>) (set_pool mh s)))))"

definition EMM_ReleaseMemory :: "u16 \<Rightarrow> ems_state \<Rightarrow> (u8 \<times> ems_state) emm" where
  "EMM_ReleaseMemory handle s =
     (if \<not> ValidHandle handle s then Some (Inr (EMM_INVALID_HANDLE, s))
      else bind_emm
        (if emm_pages (hnd handle s) \<noteq> 0 then map_option Inr (MEM_ReleasePages (emm_mem (hnd handle s)) (mhandles (emm_pool s)))
         else Some (Inr (mhandles (emm_pool s))))
        (\<lambda>mh. Some (Inr (EMM_NO_ERROR, upd_hnd handle
           (\<lambda>h. h\<lparr>emm_mem := 0, emm_pages := (if handle = 0 then 0 else NULL_HANDLE), saved_page_map := False, emm_name := replicate 8 0\<rparr>)
           (set_pool mh s)))))"

section \<open>Mapping\<close>

text \<open>The loops that map four pages: to themselves, or to a handle and its successors.\<close>

definition unmap4 :: "nat \<Rightarrow> ems_state \<Rightarrow> ems_state" where
  "unmap4 first s = fold (\<lambda>i. PAGING_MapPage (first + i) (word_of_nat (first + i))) [0 ..< 4] s"

primrec map_loop :: "nat \<Rightarrow> nat \<Rightarrow> MemHandle \<Rightarrow> ems_state \<Rightarrow> ems_state emm" where
  "map_loop 0 lin memh s = Some (Inr s)"
| "map_loop (Suc n) lin memh s =
     (let s = PAGING_MapPage lin (word_of_int memh) s
      in case MEM_NextHandle memh (mhandles (emm_pool s)) of None \<Rightarrow> None | Some memh \<Rightarrow> map_loop n (lin + 1) memh s)"

definition map4 :: "nat \<Rightarrow> u16 \<Rightarrow> u16 \<Rightarrow> ems_state \<Rightarrow> ems_state emm" where
  "map4 first handle log_page s =
     (case MEM_NextHandleAt (unat log_page * 4) (emm_mem (hnd handle s)) (mhandles (emm_pool s)) of
        None \<Rightarrow> None
      | Some memh \<Rightarrow> map_loop 4 first memh s)"

definition EMM_MapPage :: "nat \<Rightarrow> u16 \<Rightarrow> u16 \<Rightarrow> ems_state \<Rightarrow> (u8 \<times> ems_state) emm" where
  "EMM_MapPage phys_page handle log_page s =
     (if phys_page \<ge> EMM_MAX_PHYS then Some (Inr (EMM_ILL_PHYS, s))
      else if log_page = NULL_PAGE
      then Some (Inr (EMM_NO_ERROR, unmap4 (EMM_PAGEFRAME4K + phys_page * 4) (s\<lparr>emm_mappings := (emm_mappings s)[phys_page := none_mapping]\<rparr>)))
      else if \<not> ValidHandle handle s then Some (Inr (EMM_INVALID_HANDLE, s))
      else if log_page < emm_pages (hnd handle s)
      then bind_emm (map4 (EMM_PAGEFRAME4K + phys_page * 4) handle log_page
               (s\<lparr>emm_mappings := (emm_mappings s)[phys_page := \<lparr>map_handle = handle, map_page = log_page\<rparr>]\<rparr>))
             (\<lambda>s. Some (Inr (EMM_NO_ERROR, s)))
      else Some (Inr (EMM_LOG_OUT_RANGE, s)))"

text \<open>The quotient of C, which rounds towards zero.\<close>

definition tphysPage :: "nat \<Rightarrow> int" where
  "tphysPage segment =
     (let d = int segment - int EMM_PAGEFRAME
      in if d \<ge> 0 then d div 0x400 else - ((- d) div 0x400))"

definition set_mapping :: "nat \<Rightarrow> EMM_Mapping \<Rightarrow> ems_state \<Rightarrow> ems_state" where
  "set_mapping segment e s =
     (if tphysPage segment \<ge> 0 \<and> tphysPage segment < int EMM_MAX_PHYS
      then s\<lparr>emm_mappings := (emm_mappings s)[nat (tphysPage segment) := e]\<rparr>
      else s\<lparr>emm_segmentmappings := (emm_segmentmappings s)[segment div 0x400 := e]\<rparr>)"

definition EMM_MapSegment :: "nat \<Rightarrow> u16 \<Rightarrow> u16 \<Rightarrow> ems_state \<Rightarrow> (u8 \<times> ems_state) emm" where
  "EMM_MapSegment segment handle log_page s =
     (let valid_segment =
        (if ems_type s = 1 \<or> ems_type s = 3 then segment < 0xf000 + 0x1000
         else segment \<ge> 0xa000 \<and> segment < 0xb000 \<or> segment \<ge> EMM_PAGEFRAME \<and> segment < EMM_PAGEFRAME + 0x1000)
      in if valid_segment
         then if log_page = NULL_PAGE
              then Some (Inr (EMM_NO_ERROR, unmap4 (segment * 16 div 4096) (set_mapping segment none_mapping s)))
              else if \<not> ValidHandle handle s then Some (Inr (EMM_INVALID_HANDLE, s))
              else if log_page < emm_pages (hnd handle s)
              then bind_emm (map4 (segment * 16 div 4096) handle log_page (set_mapping segment \<lparr>map_handle = handle, map_page = log_page\<rparr> s))
                     (\<lambda>s. Some (Inr (EMM_NO_ERROR, s)))
              else Some (Inr (EMM_LOG_OUT_RANGE, s))
         else Some (Inr (EMM_ILL_PHYS, s)))"

definition EMM_SavePageMap :: "u16 \<Rightarrow> ems_state \<Rightarrow> u8 \<times> ems_state" where
  "EMM_SavePageMap handle s =
     (if \<not> ValidHandle handle s \<and> handle \<noteq> 0 then (EMM_INVALID_HANDLE, s)
      else if saved_page_map (hnd handle s) then (EMM_PAGE_MAP_SAVED, s)
      else (EMM_NO_ERROR, upd_hnd handle (\<lambda>h. h\<lparr>page_map := emm_mappings s, saved_page_map := True\<rparr>) s))"

primrec restore_segments :: "nat list \<Rightarrow> ems_state \<Rightarrow> ems_state emm" where
  "restore_segments [] s = Some (Inr s)"
| "restore_segments (i # is) s =
     (if i \<ge> EMM_PAGEFRAME div 0x400 \<and> i < EMM_PAGEFRAME div 0x400 + EMM_MAX_PHYS then restore_segments is s
      else bind_emm (EMM_MapSegment (i * 0x400) (map_handle (emm_segmentmappings s ! i)) (map_page (emm_segmentmappings s ! i)) s)
             (\<lambda>(_, s). restore_segments is s))"

primrec restore_frame :: "nat list \<Rightarrow> ems_state \<Rightarrow> ems_state emm" where
  "restore_frame [] s = Some (Inr s)"
| "restore_frame (i # is) s =
     bind_emm (EMM_MapPage i (map_handle (emm_mappings s ! i)) (map_page (emm_mappings s ! i)) s) (\<lambda>(_, s). restore_frame is s)"

definition EMM_RestoreMappingTable :: "ems_state \<Rightarrow> (u8 \<times> ems_state) emm" where
  "EMM_RestoreMappingTable s =
     bind_emm (restore_segments [0 ..< 0x40] s) (\<lambda>s. bind_emm (restore_frame [0 ..< EMM_MAX_PHYS] s) (\<lambda>s. Some (Inr (EMM_NO_ERROR, s))))"

definition EMM_RestorePageMap :: "u16 \<Rightarrow> ems_state \<Rightarrow> (u8 \<times> ems_state) emm" where
  "EMM_RestorePageMap handle s =
     (if \<not> ValidHandle handle s \<and> handle \<noteq> 0 then Some (Inr (EMM_INVALID_HANDLE, s))
      else if \<not> saved_page_map (hnd handle s) then Some (Inr (EMM_NO_SAVED_PAGE_MAP, s))
      else EMM_RestoreMappingTable (upd_hnd handle (\<lambda>h. h\<lparr>saved_page_map := False\<rparr>) (s\<lparr>emm_mappings := page_map (hnd handle s)\<rparr>)))"

end
