(* ===== verification/Ems_Calls.thy ===== *)
theory Ems_Calls
  imports Ems
begin

text \<open>
  The calls of interrupt 0x67 on the tables of \<open>Ems\<close>: lists of handles, names, attributes, partial page maps, moves
  between regions, the dispatcher, and the start of the manager. Segment registers are those of real mode.
\<close>

unbundle bit_operations_syntax

section \<open>Registers\<close>

definition e_al :: "ems_regs \<Rightarrow> u8" where "e_al r = ucast (r_ax r)"
definition e_ah :: "ems_regs \<Rightarrow> u8" where "e_ah r = ucast (drop_bit 8 (r_ax r))"
definition e_bl :: "ems_regs \<Rightarrow> u8" where "e_bl r = ucast (r_bx r)"

definition put_al :: "u8 \<Rightarrow> ems_state \<Rightarrow> ems_state" where
  "put_al v s = s\<lparr>emm_regs := (emm_regs s)\<lparr>r_ax := (r_ax (emm_regs s) AND 0xff00) OR ucast v\<rparr>\<rparr>"
definition put_ah :: "u8 \<Rightarrow> ems_state \<Rightarrow> ems_state" where
  "put_ah v s = s\<lparr>emm_regs := (emm_regs s)\<lparr>r_ax := (r_ax (emm_regs s) AND 0xff) OR push_bit 8 (ucast v)\<rparr>\<rparr>"
definition put_bx :: "u16 \<Rightarrow> ems_state \<Rightarrow> ems_state" where "put_bx v s = s\<lparr>emm_regs := (emm_regs s)\<lparr>r_bx := v\<rparr>\<rparr>"
definition put_cx :: "u16 \<Rightarrow> ems_state \<Rightarrow> ems_state" where "put_cx v s = s\<lparr>emm_regs := (emm_regs s)\<lparr>r_cx := v\<rparr>\<rparr>"
definition put_dx :: "u16 \<Rightarrow> ems_state \<Rightarrow> ems_state" where "put_dx v s = s\<lparr>emm_regs := (emm_regs s)\<lparr>r_dx := v\<rparr>\<rparr>"

definition ds_si :: "ems_state \<Rightarrow> u32" where
  "ds_si s = push_bit 4 (ucast (r_ds (emm_regs s))) + ucast (r_si (emm_regs s))"
definition es_di :: "ems_state \<Rightarrow> u32" where
  "es_di s = push_bit 4 (ucast (r_es (emm_regs s))) + ucast (r_di (emm_regs s))"

section \<open>Lists, names and attributes\<close>

definition used_handles :: "ems_state \<Rightarrow> nat list" where
  "used_handles s = filter (\<lambda>i. emm_pages (emm_handles s ! i) \<noteq> NULL_HANDLE) [0 ..< EMM_MAX_HANDLES]"

primrec write_handles :: "nat list \<Rightarrow> u32 \<Rightarrow> ems_state \<Rightarrow> ems_state" where
  "write_handles [] table s = s"
| "write_handles (i # is) table s =
     write_handles is (table + 4) (mem_writew (table + 2) (emm_pages (emm_handles s ! i)) (mem_writew table (word_of_nat i) s))"

definition EMM_GetPagesForAllHandles :: "u32 \<Rightarrow> ems_state \<Rightarrow> u8 \<times> u16 \<times> ems_state" where
  "EMM_GetPagesForAllHandles table s = (EMM_NO_ERROR, word_of_nat (length (used_handles s)), write_handles (used_handles s) table s)"

primrec write_names :: "nat list \<Rightarrow> u32 \<Rightarrow> ems_state \<Rightarrow> ems_state" where
  "write_names [] data s = s"
| "write_names (i # is) data s =
     write_names is (data + 10) (MEM_BlockWrite (data + 2) (emm_name (emm_handles s ! i)) (mem_writew data (word_of_nat i) s))"

text \<open>\<open>strncmp\<close> of eight bytes, and \<open>MEM_StrCopy\<close> of at most eight bytes up to a zero.\<close>

fun strncmp_eq :: "nat \<Rightarrow> u8 list \<Rightarrow> u8 list \<Rightarrow> bool" where
  "strncmp_eq 0 xs ys \<longleftrightarrow> True"
| "strncmp_eq (Suc n) (x # xs) (y # ys) \<longleftrightarrow> x = y \<and> (x = 0 \<or> strncmp_eq n xs ys)"
| "strncmp_eq (Suc n) xs ys \<longleftrightarrow> xs = [] \<and> ys = []"

definition MEM_StrCopy :: "u32 \<Rightarrow> nat \<Rightarrow> ems_state \<Rightarrow> u8 list" where
  "MEM_StrCopy pt sz s = takeWhile (\<lambda>b. b \<noteq> 0) (MEM_BlockRead pt sz s) @ [0]"

definition HandleNameSearch :: "ems_state \<Rightarrow> u8 \<times> ems_state" where
  "HandleNameSearch s =
     (let al = e_al (emm_regs s)
      in if al = 0 then (EMM_NO_ERROR, put_al (word_of_nat (length (used_handles s))) (write_names (used_handles s) (es_di s) s))
         else if al = 1
         then case filter (\<lambda>i. strncmp_eq 8 (MEM_StrCopy (ds_si s) 8 s) (emm_name (emm_handles s ! i))) (used_handles s) of
             [] \<Rightarrow> (EMM_NOT_FOUND, s)
           | i # _ \<Rightarrow> (EMM_NO_ERROR, put_dx (word_of_nat i) s)
         else if al = 2 then (EMM_NO_ERROR, put_bx (word_of_nat EMM_MAX_HANDLES) s)
         else (EMM_INVALID_SUB, s))"

definition GetSetHandleName :: "ems_state \<Rightarrow> u8 \<times> ems_state" where
  "GetSetHandleName s =
     (let handle = r_dx (emm_regs s); al = e_al (emm_regs s)
      in if al = 0
         then if \<not> ValidHandle handle s then (EMM_INVALID_HANDLE, s)
              else (EMM_NO_ERROR, MEM_BlockWrite (es_di s) (emm_name (hnd handle s)) s)
         else if al = 1
         then if \<not> ValidHandle handle s then (EMM_INVALID_HANDLE, s)
              else (EMM_NO_ERROR, upd_hnd handle (\<lambda>h. h\<lparr>emm_name := MEM_BlockRead (ds_si s) 8 s\<rparr>) s)
         else (EMM_INVALID_SUB, s))"

definition GetSetHandleAttributes :: "ems_state \<Rightarrow> u8 \<times> ems_state" where
  "GetSetHandleAttributes s =
     (let al = e_al (emm_regs s)
      in if al = 0
         then if \<not> ValidHandle (r_dx (emm_regs s)) s then (EMM_INVALID_HANDLE, s) else (EMM_NO_ERROR, put_al 0 s)
         else if al = 1
         then if \<not> ValidHandle (r_dx (emm_regs s)) s then (EMM_INVALID_HANDLE, s)
              else if e_bl (emm_regs s) = 0 then (EMM_NO_ERROR, s)
              else if e_bl (emm_regs s) = 1 then (EMM_FEAT_NOSUP, s)
              else (EMM_ATTR_UNDEF, s)
         else if al = 2 then (EMM_NO_ERROR, put_al 0 s)
         else (EMM_INVALID_SUB, s))"

section \<open>Partial page maps\<close>

definition write_mapping :: "u32 \<Rightarrow> nat \<Rightarrow> EMM_Mapping \<Rightarrow> ems_state \<Rightarrow> ems_state" where
  "write_mapping data page e s =
     mem_writew (data + 2) (map_page e) (mem_writeb (data + 1) (ucast (map_handle e)) (mem_writeb data (word_of_nat page) s))"

primrec save_partial :: "nat \<Rightarrow> u32 \<Rightarrow> u32 \<Rightarrow> ems_state \<Rightarrow> u8 \<times> ems_state" where
  "save_partial 0 lst data s = (EMM_NO_ERROR, s)"
| "save_partial (Suc count) lst data s =
     (let segment = unat (mem_readw (view s) lst)
      in if segment \<ge> EMM_PAGEFRAME \<and> segment < EMM_PAGEFRAME + 0x1000
         then let page = (segment - EMM_PAGEFRAME) div 0x400
              in save_partial count (lst + 2) (data + 4) (write_mapping data page (emm_mappings s ! page) s)
         else if ems_type s = 1 \<or> ems_type s = 3 \<or> segment \<ge> EMM_PAGEFRAME - 0x1000 \<and> segment < EMM_PAGEFRAME \<or>
           segment \<ge> 0xa000 \<and> segment < 0xb000
         then let page = segment div 0x400
              in save_partial count (lst + 2) (data + 4) (write_mapping data page (emm_segmentmappings s ! page) s)
         else (EMM_ILL_PHYS, s))"

text \<open>\<open>None\<close> for the early return with \<open>EMM_ILL_PHYS\<close>, together with the state so far.\<close>

primrec restore_partial :: "nat \<Rightarrow> u32 \<Rightarrow> ems_state \<Rightarrow> bool \<times> ems_state" where
  "restore_partial 0 data s = (True, s)"
| "restore_partial (Suc count) data s =
     (let page = unat (view s data);
          e = \<lparr>map_handle = ucast (view s (data + 1)), map_page = mem_readw (view s) (data + 2)\<rparr>
      in if page < EMM_MAX_PHYS then restore_partial count (data + 4) (s\<lparr>emm_mappings := (emm_mappings s)[page := e]\<rparr>)
         else if page < 0x40 then restore_partial count (data + 4) (s\<lparr>emm_segmentmappings := (emm_segmentmappings s)[page := e]\<rparr>)
         else (False, s))"

definition EMM_PartialPageMapping :: "ems_state \<Rightarrow> (u8 \<times> ems_state) emm" where
  "EMM_PartialPageMapping s =
     (let al = e_al (emm_regs s)
      in if al = 0
         then let count = mem_readw (view s) (ds_si s)
              in Some (Inr (save_partial (unat count) (ds_si s + 2) (es_di s + 2) (mem_writew (es_di s) count s)))
         else if al = 1
         then case restore_partial (unat (mem_readw (view s) (ds_si s))) (ds_si s + 2) s of
             (ok, s) \<Rightarrow> if ok then EMM_RestoreMappingTable s else Some (Inr (EMM_ILL_PHYS, s))
         else if al = 2 then Some (Inr (EMM_NO_ERROR, put_al (ucast (2 + r_bx (emm_regs s) * 4)) s))
         else Some (Inr (EMM_FUNC_NOSUP, s)))"

definition mapping_bytes :: "EMM_Mapping \<Rightarrow> u8 list" where
  "mapping_bytes e = bytes_of (map_handle e) @ bytes_of (map_page e)"

definition save_mappings :: "u32 \<Rightarrow> ems_state \<Rightarrow> ems_state" where
  "save_mappings pt s = MEM_BlockWrite pt (concat (map mapping_bytes (emm_mappings s))) s"

definition load_mappings :: "u32 \<Rightarrow> ems_state \<Rightarrow> ems_state" where
  "load_mappings pt s = s\<lparr>emm_mappings := map (\<lambda>i. \<lparr>map_handle = mem_readw (view s) (pt + word_of_nat (4 * i)),
     map_page = mem_readw (view s) (pt + word_of_nat (4 * i) + 2)\<rparr>) [0 ..< EMM_MAX_PHYS]\<rparr>"

primrec map_many :: "(nat \<Rightarrow> u16 \<Rightarrow> u16 \<Rightarrow> ems_state \<Rightarrow> (u8 \<times> ems_state) emm) \<Rightarrow> nat \<Rightarrow> u32 \<Rightarrow> ems_state \<Rightarrow> (u8 \<times> ems_state) emm" where
  "map_many f 0 data s = Some (Inr (EMM_NO_ERROR, s))"
| "map_many f (Suc n) data s =
     bind_emm (f (unat (mem_readw (view s) (data + 2))) (r_dx (emm_regs s)) (mem_readw (view s) data) s) (\<lambda>(res, s).
       if res \<noteq> EMM_NO_ERROR then Some (Inr (res, s)) else map_many f n (data + 4) s)"

section \<open>Regions\<close>

record MoveRegion =
  region_bytes :: u32
  src_type :: u8
  src_handle :: u16
  src_offset :: u16
  src_page_seg :: u16
  dest_type :: u8
  dest_handle :: u16
  dest_offset :: u16
  dest_page_seg :: u16

definition LoadMoveRegion :: "u32 \<Rightarrow> ems_state \<Rightarrow> MoveRegion" where
  "LoadMoveRegion data s =
     \<lparr>region_bytes = mem_readd (view s) data,
      src_type = view s (data + 4), src_handle = mem_readw (view s) (data + 5),
      src_offset = mem_readw (view s) (data + 7), src_page_seg = mem_readw (view s) (data + 9),
      dest_type = view s (data + 0xb), dest_handle = mem_readw (view s) (data + 0xc),
      dest_offset = mem_readw (view s) (data + 0xe), dest_page_seg = mem_readw (view s) (data + 0x10)\<rparr>"

text \<open>One side of a move: conventional memory at an address, or a page of a handle and an offset in it.\<close>

datatype side = Conventional u32 | Expanded MemHandle nat

definition region_side :: "u8 \<Rightarrow> u16 \<Rightarrow> u16 \<Rightarrow> u16 \<Rightarrow> u32 \<Rightarrow> ems_state \<Rightarrow> (u8 + side) option" where
  "region_side typ handle offset page_seg bytes s =
     (if typ = 0 then Some (Inr (Conventional (ucast page_seg * 16 + ucast offset)))
      else if \<not> ValidHandle handle s then Some (Inl EMM_INVALID_HANDLE)
      else if (ucast (emm_pages (hnd handle s)) * 0x4000 :: u32) < ucast page_seg * 0x4000 + ucast offset + bytes then Some (Inl EMM_LOG_OUT_RANGE)
      else map_option (\<lambda>h. Inr (Expanded h (unat offset mod 4096)))
             (MEM_NextHandleAt (unat page_seg * 4 + unat offset div 4096) (emm_mem (hnd handle s)) (mhandles (emm_pool s))))"

definition side_read :: "side \<Rightarrow> nat \<Rightarrow> ems_state \<Rightarrow> u8 list option" where
  "side_read sd n s =
     (case sd of
        Conventional mem \<Rightarrow> Some (MEM_BlockRead mem n s)
      | Expanded h off \<Rightarrow>
          if n \<le> 4096 - off then Some (MEM_BlockRead (word_of_int (h * 4096) + word_of_nat off) n s)
          else map_option (\<lambda>h'. MEM_BlockRead (word_of_int (h * 4096) + word_of_nat off) (4096 - off) s @ MEM_BlockRead (word_of_int (h' * 4096)) (n - (4096 - off)) s)
                 (MEM_NextHandle h (mhandles (emm_pool s))))"

definition side_write :: "side \<Rightarrow> u8 list \<Rightarrow> ems_state \<Rightarrow> ems_state option" where
  "side_write sd vs s =
     (case sd of
        Conventional mem \<Rightarrow> Some (MEM_BlockWrite mem vs s)
      | Expanded h off \<Rightarrow>
          if length vs \<le> 4096 - off then Some (MEM_BlockWrite (word_of_int (h * 4096) + word_of_nat off) vs s)
          else map_option (\<lambda>h'. MEM_BlockWrite (word_of_int (h' * 4096)) (drop (4096 - off) vs)
                 (MEM_BlockWrite (word_of_int (h * 4096) + word_of_nat off) (take (4096 - off) vs) s))
                 (MEM_NextHandle h (mhandles (emm_pool s))))"

definition side_advance :: "nat \<Rightarrow> side \<Rightarrow> ems_state \<Rightarrow> side option" where
  "side_advance n sd s =
     (case sd of
        Conventional mem \<Rightarrow> Some (Conventional (mem + word_of_nat n))
      | Expanded h off \<Rightarrow> map_option (\<lambda>h. Expanded h off) (MEM_NextHandle h (mhandles (emm_pool s))))"

function region_loop :: "bool \<Rightarrow> nat \<Rightarrow> side \<Rightarrow> side \<Rightarrow> ems_state \<Rightarrow> ems_state option" where
  "region_loop exchange bytes src dest s =
     (if bytes = 0 then Some s
      else let toread = min bytes 4096
           in do {
                buf_src \<leftarrow> side_read src toread s;
                s \<leftarrow> (if exchange then do { buf_dest \<leftarrow> side_read dest toread s; side_write src buf_dest s } else Some s);
                s \<leftarrow> side_write dest buf_src s;
                src \<leftarrow> side_advance toread src s;
                dest \<leftarrow> side_advance toread dest s;
                region_loop exchange (bytes - toread) src dest s })"
  by pat_completeness auto
termination by (relation "measure (\<lambda>(e, n, a, b, s). n)") auto

definition MemoryRegion :: "ems_state \<Rightarrow> (u8 \<times> ems_state) emm" where
  "MemoryRegion s =
     (let al = e_al (emm_regs s); r = LoadMoveRegion (ds_si s) s
      in if al > 1 then Some (Inr (EMM_FUNC_NOSUP, s))
         else case region_side (src_type r) (src_handle r) (src_offset r) (src_page_seg r) (region_bytes r) s of
             None \<Rightarrow> None
           | Some (Inl e) \<Rightarrow> Some (Inr (e, s))
           | Some (Inr src) \<Rightarrow>
               (case region_side (dest_type r) (dest_handle r) (dest_offset r) (dest_page_seg r) (region_bytes r) s of
                  None \<Rightarrow> None
                | Some (Inl e) \<Rightarrow> Some (Inr (e, s))
                | Some (Inr dest) \<Rightarrow> map_option (\<lambda>s. Inr (EMM_NO_ERROR, s)) (region_loop (al = 1) (unat (region_bytes r)) src dest s)))"

section \<open>The interrupt\<close>

definition answer :: "(u8 \<times> ems_state) emm \<Rightarrow> ems_state emm" where
  "answer r = bind_emm r (\<lambda>(res, s). Some (Inr (put_ah res s)))"

definition done_with :: "u8 \<times> ems_state \<Rightarrow> ems_state emm" where
  "done_with x = Some (Inr (put_ah (fst x) (snd x)))"

definition allocate_answer :: "(u8 \<times> u16 option \<times> ems_state) emm \<Rightarrow> ems_state emm" where
  "allocate_answer r = bind_emm r (\<lambda>(res, h, s). Some (Inr (put_ah res (case h of None \<Rightarrow> s | Some h \<Rightarrow> put_dx h s))))"

definition page_map_call :: "ems_state \<Rightarrow> ems_state emm" where
  "page_map_call s =
     (let al = e_al (emm_regs s)
      in if al = 0 then done_with (EMM_NO_ERROR, save_mappings (es_di s) s)
         else if al = 1 then answer (EMM_RestoreMappingTable (load_mappings (ds_si s) s))
         else if al = 2 then answer (EMM_RestoreMappingTable (load_mappings (ds_si s) (save_mappings (es_di s) s)))
         else if al = 3 then done_with (EMM_NO_ERROR, put_al 16 s)
         else done_with (EMM_INVALID_SUB, s))"

definition frame_array_call :: "ems_state \<Rightarrow> ems_state emm" where
  "frame_array_call s =
     done_with (EMM_NO_ERROR, put_cx (word_of_nat EMM_MAX_PHYS)
       (if e_al (emm_regs s) = 0
        then fold (\<lambda>i s. mem_writew (es_di s + word_of_nat (4 * i) + 2) (word_of_nat i)
               (mem_writew (es_di s + word_of_nat (4 * i)) (word_of_nat (EMM_PAGEFRAME + 0x400 * i)) s)) [0 ..< EMM_MAX_PHYS] s
        else s))"

definition hardware_call :: "ems_state \<Rightarrow> ems_state emm" where
  "hardware_call s =
     (let al = e_al (emm_regs s)
      in if al = 0 then done_with (EMM_NO_ERROR, MEM_BlockWrite (es_di s) (concat (map bytes_of [0x0400, 0, 16, 0, 0])) s)
         else if al = 1 then done_with (EMM_NO_ERROR, put_bx (get_free_pages s) (put_dx (get_total_pages s) s))
         else done_with (EMM_INVALID_SUB, s))"

definition INT67_Handler :: "(ems_state \<Rightarrow> ems_state emm) option \<Rightarrow> ems_state \<Rightarrow> ems_state emm" where
  "INT67_Handler vcpi s =
     (let r = emm_regs s; ah = e_ah r; al = e_al r
      in if ah = 0x40 then done_with (EMM_NO_ERROR, s)
         else if ah = 0x41 then done_with (EMM_NO_ERROR, put_bx (word_of_nat EMM_PAGEFRAME) s)
         else if ah = 0x42 then done_with (EMM_NO_ERROR, put_bx (get_free_pages s) (put_dx (get_total_pages s) s))
         else if ah = 0x43 then allocate_answer (EMM_AllocateMemory (r_bx r) False s)
         else if ah = 0x44 then answer (EMM_MapPage (unat al) (r_dx r) (r_bx r) s)
         else if ah = 0x45 then answer (EMM_ReleaseMemory (r_dx r) s)
         else if ah = 0x46 then done_with (EMM_NO_ERROR, put_al 0x40 s)
         else if ah = 0x47 then done_with (EMM_SavePageMap (r_dx r) s)
         else if ah = 0x48 then answer (EMM_RestorePageMap (r_dx r) s)
         else if ah = 0x4b then done_with (EMM_NO_ERROR, put_bx (word_of_nat (length (used_handles s))) s)
         else if ah = 0x4c then
           (if \<not> ValidHandle (r_dx r) s then done_with (EMM_INVALID_HANDLE, s)
            else done_with (EMM_NO_ERROR, put_bx (emm_pages (hnd (r_dx r) s)) s))
         else if ah = 0x4d then
           (case EMM_GetPagesForAllHandles (es_di s) s of (res, n, s) \<Rightarrow> done_with (res, put_bx n s))
         else if ah = 0x4e then page_map_call s
         else if ah = 0x4f then answer (EMM_PartialPageMapping s)
         else if ah = 0x50 then
           (if al = 0 then answer (map_many EMM_MapPage (unat (r_cx r)) (ds_si s) s)
            else if al = 1 then answer (map_many EMM_MapSegment (unat (r_cx r)) (ds_si s) s)
            else done_with (EMM_INVALID_SUB, s))
         else if ah = 0x51 then answer (EMM_ReallocatePages (r_dx r) (r_bx r) s)
         else if ah = 0x52 then done_with (GetSetHandleAttributes s)
         else if ah = 0x53 then done_with (GetSetHandleName s)
         else if ah = 0x54 then done_with (HandleNameSearch s)
         else if ah = 0x57 then answer (MemoryRegion s)
         else if ah = 0x58 then frame_array_call s
         else if ah = 0x59 then hardware_call s
         else if ah = 0x5a then
           (if al \<le> 1 then allocate_answer (EMM_AllocateMemory (r_bx r) True s) else done_with (EMM_INVALID_SUB, s))
         else if ah = 0xde then (case vcpi of None \<Rightarrow> done_with (EMM_FUNC_NOSUP, s) | Some f \<Rightarrow> f s)
         else done_with (EMM_FUNC_NOSUP, s))"

section \<open>Start\<close>

text \<open>The part of the constructor that sets up the tables; the saved page maps keep their flags.\<close>

definition EMS_start :: "nat \<Rightarrow> ems_state \<Rightarrow> ems_state emm" where
  "EMS_start typ s =
     (let s = s\<lparr>ems_type := typ, emm_handles := map (\<lambda>h. h\<lparr>emm_mem := 0, emm_pages := NULL_HANDLE, emm_name := replicate 8 0\<rparr>) (emm_handles s),
            emm_mappings := replicate EMM_MAX_PHYS none_mapping, emm_segmentmappings := replicate 0x40 none_mapping\<rparr>
      in bind_emm (EMM_AllocateSystemHandle 24 s) (\<lambda>(_, s).
           Some (Inr (if typ = 3 then s\<lparr>emm_wrapping := 0xffffffff\<rparr> else s))))"

end
