(* ===== verification/Ems_Map.thy ===== *)
theory Ems_Map
  imports Ems_Calls Pool_Scatter
begin

text \<open>
  What mapping does to the guest's view of the first megabyte: the pages a table entry stands for, the calls that map
  them, and tables that agree with the page directory.
\<close>

unbundle bit_operations_syntax

lemma bind_emm_simps [simp]: "bind_emm (Some (Inr x)) f = f x" "bind_emm (Some (Inl e)) f = Some (Inl e)" "bind_emm None f = None"
  by (simp_all add: bind_emm_def)

lemma emm_run_simps [simp]: "emm_run (Some (Inr x)) = Some (Inr x)" "emm_run (Some (Inl e)) = Some (Inl (Ems_pool e))" "emm_run None = None"
  by (simp_all add: emm_run_def)

section \<open>Windows\<close>

text \<open>The block of a handle is a chain of four pages of the pool for each of its own.\<close>

definition backed :: "ems_state \<Rightarrow> u16 \<Rightarrow> bool" where
  "backed s h \<longleftrightarrow> ValidHandle h s \<and>
     (\<exists>ps. chain (mhandles (emm_pool s)) (emm_mem (hnd h s)) ps \<and> length ps = 4 * unat (emm_pages (hnd h s)))"

definition usable :: "ems_state \<Rightarrow> EMM_Mapping \<Rightarrow> bool" where
  "usable s e \<longleftrightarrow> e = none_mapping \<or> map_page e \<noteq> NULL_PAGE \<and> backed s (map_handle e) \<and> map_page e < emm_pages (hnd (map_handle e) s)"

text \<open>The page that the \<open>j\<close>-th page of the window at \<open>first\<close> shows.\<close>

definition window :: "ems_state \<Rightarrow> nat \<Rightarrow> EMM_Mapping \<Rightarrow> nat \<Rightarrow> u32" where
  "window s first e j =
     (if map_page e = NULL_PAGE then word_of_nat (first + j)
      else word_of_int (the (MEM_NextHandleAt (unat (map_page e) * 4 + j) (emm_mem (hnd (map_handle e) s)) (mhandles (emm_pool s)))))"

definition show_window :: "nat \<Rightarrow> EMM_Mapping \<Rightarrow> ems_state \<Rightarrow> ems_state" where
  "show_window first e s = s\<lparr>paging_firstmb := overwrite first (map (window s first e) [0 ..< 4]) (paging_firstmb s)\<rparr>"

lemma mapping_eta [simp]: "\<lparr>map_handle = map_handle e, map_page = map_page e\<rparr> = e"
  by simp

lemma four: "[0 ..< 4] = [0, 1, 2, 3 :: nat]"
  by (simp add: upt_rec)

lemma map_loop_spec:
  assumes "chain (mhandles (emm_pool s)) memh ps" "n \<le> length ps" "lin + n \<le> length (paging_firstmb s)"
  shows "map_loop n lin memh s = Some (Inr (s\<lparr>paging_firstmb := overwrite lin (map word_of_nat (take n ps)) (paging_firstmb s)\<rparr>))"
  using assms
proof (induction n arbitrary: lin memh ps s)
  case (Suc n)
  from Suc.prems(2) obtain p qs where ps: "ps = p # qs" by (cases ps) auto
  let ?s = "PAGING_MapPage lin (word_of_nat p) s"
  have "MEM_NextHandle (int p) (mhandles (emm_pool s)) = Some (mhandles (emm_pool s) ! p)" "memh = int p" "chain (mhandles (emm_pool ?s)) (mhandles (emm_pool s) ! p) qs"
    using Suc.prems(1) ps by (simp_all add: MEM_NextHandle_def peek_def PAGING_MapPage_def)
  then show ?case using Suc.IH [of ?s "mhandles (emm_pool s) ! p" qs "Suc lin"] Suc.prems ps overwrite_Cons [of lin "paging_firstmb s"]
    by (simp add: PAGING_MapPage_def)
qed simp

lemma chain_from: "chain mh h ps \<Longrightarrow> k < length ps \<Longrightarrow> chain mh (int (ps ! k)) (drop k ps)"
proof (induction ps arbitrary: h k)
  case (Cons p ps)
  show ?case
  proof (cases k)
    case 0
    then show ?thesis using Cons.prems by simp
  next
    case (Suc j)
    then show ?thesis using Cons.IH [of "mh ! p" j] Cons.prems by simp
  qed
qed simp

lemma map4_spec:
  assumes "backed s h" "l < emm_pages (hnd h s)" "first + 4 \<le> length (paging_firstmb s)" "l \<noteq> NULL_PAGE"
  shows "map4 first h l s = Some (Inr (show_window first \<lparr>map_handle = h, map_page = l\<rparr> s))"
proof -
  let ?mh = "mhandles (emm_pool s)" and ?k = "unat l * 4"
  obtain ps where ps: "chain ?mh (emm_mem (hnd h s)) ps" "length ps = 4 * unat (emm_pages (hnd h s))" using assms(1) by (auto simp: backed_def)
  have k: "?k + j < length ps" if "j < 4" for j using assms(2) ps(2) that by (simp add: word_less_nat_alt)
  have at: "MEM_NextHandleAt (?k + j) (emm_mem (hnd h s)) ?mh = Some (int (ps ! (?k + j)))" if "j < 4" for j using next_at_chain [OF ps(1) k [OF that]] .
  have "map word_of_nat (take 4 (drop ?k ps)) = map (window s first \<lparr>map_handle = h, map_page = l\<rparr>) [0 ..< 4]"
  proof (rule nth_equalityI)
    show "length (map word_of_nat (take 4 (drop ?k ps))) = length (map (window s first \<lparr>map_handle = h, map_page = l\<rparr>) [0 ..< 4])" using k [of 3] by simp
    fix j
    assume "j < length (map word_of_nat (take 4 (drop ?k ps)) :: u32 list)"
    then have "j < 4" by simp
    then show "map word_of_nat (take 4 (drop ?k ps)) ! j = map (window s first \<lparr>map_handle = h, map_page = l\<rparr>) [0 ..< 4] ! j"
      using at [of j] k [of j] assms(4) by (simp add: window_def)
  qed
  moreover have "4 \<le> length (drop ?k ps)" using k [of 3] by simp
  ultimately show ?thesis using map_loop_spec [OF chain_from [OF ps(1), of ?k] _ assms(3)] at [of 0] k [of 0] by (simp add: map4_def show_window_def)
qed

lemma unmap4_spec:
  assumes "first + 4 \<le> length (paging_firstmb s)"
  shows "unmap4 first s = show_window first none_mapping s"
proof -
  have "window s first none_mapping = (\<lambda>j. word_of_nat (first + j))" by (intro ext) (simp add: window_def none_mapping_def)
  then show ?thesis using assms
    by (simp add: unmap4_def show_window_def PAGING_MapPage_def four overwrite_Cons [symmetric] numeral_eq_Suc)
qed


section \<open>Mapping calls\<close>

lemma LINK_START_num [simp]: "LINK_START = 272" "EMM_PAGEFRAME4K = 224" "EMM_PAGEFRAME = 57344" "EMM_MAX_PHYS = 4"
  by (simp_all add: LINK_START_def EMM_PAGEFRAME4K_def EMM_PAGEFRAME_def EMM_MAX_PHYS_def)

lemma window_upd [simp]: "window (s\<lparr>emm_mappings := m\<rparr>) = window s" "window (s\<lparr>emm_segmentmappings := m\<rparr>) = window s" "window (s\<lparr>paging_firstmb := f\<rparr>) = window s"
  by (intro ext; simp add: window_def hnd_def)+

lemma backed_upd [simp]: "backed (s\<lparr>emm_mappings := m\<rparr>) h = backed s h" "backed (s\<lparr>emm_segmentmappings := m\<rparr>) h = backed s h"
  "backed (s\<lparr>paging_firstmb := f\<rparr>) h = backed s h"
  by (simp_all add: backed_def hnd_def ValidHandle_def)

lemma usable_upd [simp]: "usable (s\<lparr>emm_mappings := m\<rparr>) e = usable s e" "usable (s\<lparr>emm_segmentmappings := m\<rparr>) e = usable s e"
  "usable (s\<lparr>paging_firstmb := f\<rparr>) e = usable s e"
  by (simp_all add: usable_def hnd_def)

lemma MapPage_spec:
  assumes "p < 4" "usable s e" "length (paging_firstmb s) = LINK_START"
  shows "EMM_MapPage p (map_handle e) (map_page e) s = Some (Inr (EMM_NO_ERROR, show_window (224 + p * 4) e (s\<lparr>emm_mappings := (emm_mappings s)[p := e]\<rparr>)))"
proof (cases "e = none_mapping")
  case True
  then show ?thesis using assms by (simp add: EMM_MapPage_def unmap4_spec) (simp add: none_mapping_def)
next
  case False
  let ?s = "s\<lparr>emm_mappings := (emm_mappings s)[p := e]\<rparr>"
  have e: "map_page e \<noteq> NULL_PAGE" "backed s (map_handle e)" "map_page e < emm_pages (hnd (map_handle e) s)" "ValidHandle (map_handle e) s"
    using assms(2) False by (auto simp: usable_def backed_def)
  have "map4 (224 + p * 4) (map_handle e) (map_page e) ?s = Some (Inr (show_window (224 + p * 4) e ?s))"
    using map4_spec [of ?s "map_handle e" "map_page e" "224 + p * 4"] e assms(1,3) by (simp add: hnd_def)
  then show ?thesis using e assms(1) by (simp add: EMM_MapPage_def)
qed

definition shown :: "ems_state \<Rightarrow> nat \<Rightarrow> EMM_Mapping \<Rightarrow> bool" where
  "shown s first e \<longleftrightarrow> (\<forall>j < 4. paging_firstmb s ! (first + j) = window s first e j)"

lemma show_window_same: "shown s first e \<Longrightarrow> first + 4 \<le> length (paging_firstmb s) \<Longrightarrow> show_window first e s = s"
  using overwrite_same [of first "map (window s first e) [0 ..< 4]" "paging_firstmb s"] by (simp add: show_window_def shown_def)

text \<open>The segments outside the page frame that a call can map.\<close>

definition mappable :: "ems_state \<Rightarrow> nat \<Rightarrow> bool" where
  "mappable s i \<longleftrightarrow> ems_type s = 1 \<or> ems_type s = 3 \<or> 40 \<le> i \<and> i < 44"

lemma MapSegment_same:
  assumes i: "i < 64" "\<not> (56 \<le> i \<and> i < 60)" and e: "usable s e" "e = emm_segmentmappings s ! i" "mappable s i \<longrightarrow> shown s (i * 4) e"
    and l: "length (paging_firstmb s) = LINK_START"
  shows "\<exists>r. EMM_MapSegment (i * 0x400) (map_handle e) (map_page e) s = Some (Inr (r, s))"
proof (cases "mappable s i")
  case False
  then show ?thesis using i by (auto simp: EMM_MapSegment_def mappable_def)
next
  case True
  have t: "tphysPage (i * 0x400) < 0 \<or> 4 \<le> tphysPage (i * 0x400)"
  proof (cases "i < 56")
    case True
    then have "int (i * 0x400) - 57344 = - (int (56 - i) * 0x400)" by simp
    moreover have "0 < int (56 - i)" using True by simp
    ultimately show ?thesis by (simp add: tphysPage_def Let_def)
  next
    case False
    then have "int (i * 0x400) - 57344 = int (i - 56) * 0x400" by simp
    then show ?thesis using i False by (simp add: tphysPage_def Let_def)
  qed
  then have set: "set_mapping (i * 0x400) e s = s" using e(2) by (auto simp: set_mapping_def)
  have pg: "i * 1024 * 16 div 4096 = i * 4" by simp
  have b: "i * 4 + 4 \<le> length (paging_firstmb s)" using i l by simp
  note same = show_window_same [of s "i * 4" e]
  show ?thesis
  proof (cases "e = none_mapping")
    case n: True
    then have "unmap4 (i * 4) (set_mapping (i * 0x400) none_mapping s) = s" using unmap4_spec [OF b] same set True e(3) b by simp
    then show ?thesis using True i n unfolding EMM_MapSegment_def pg by (auto simp: mappable_def none_mapping_def)
  next
    case n: False
    then have u: "map_page e \<noteq> NULL_PAGE" "backed s (map_handle e)" "map_page e < emm_pages (hnd (map_handle e) s)" "ValidHandle (map_handle e) s"
      using e(1) by (auto simp: usable_def backed_def)
    have "map4 (i * 4) (map_handle e) (map_page e) (set_mapping (i * 0x400) e s) = Some (Inr s)" unfolding set
      using map4_spec [OF u(2,3) b u(1)] same True e(3) b by simp
    then show ?thesis using True i u unfolding EMM_MapSegment_def pg by (auto simp: mappable_def)
  qed
qed


section \<open>Tables\<close>

definition segments_ok :: "ems_state \<Rightarrow> bool" where
  "segments_ok s \<longleftrightarrow> length (paging_firstmb s) = LINK_START \<and>
     (\<forall>i < 64. \<not> (56 \<le> i \<and> i < 60) \<longrightarrow> usable s (emm_segmentmappings s ! i) \<and> (mappable s i \<longrightarrow> shown s (i * 4) (emm_segmentmappings s ! i)))"

text \<open>The tables agree with what the guest sees.\<close>

definition synced :: "ems_state \<Rightarrow> bool" where
  "synced s \<longleftrightarrow> segments_ok s \<and> length (emm_mappings s) = 4 \<and>
     (\<forall>p < 4. usable s (emm_mappings s ! p) \<and> shown s (224 + p * 4) (emm_mappings s ! p))"

lemma restore_segments_same: "segments_ok s \<Longrightarrow> set is \<subseteq> {..< 64} \<Longrightarrow> restore_segments is s = Some (Inr s)"
proof (induction "is")
  case (Cons i "is")
  then show ?case using MapSegment_same [of i s] by (fastforce simp: segments_ok_def)
qed simp

text \<open>The page frame after its four windows are shown.\<close>

definition frame_firstmb :: "ems_state \<Rightarrow> EMM_Mapping list \<Rightarrow> u32 list \<Rightarrow> u32 list" where
  "frame_firstmb s m f = overwrite 224 (concat (map (\<lambda>p. map (window s (224 + p * 4) (m ! p)) [0 ..< 4]) [0 ..< 4])) f"

lemma restore_frame_spec:
  assumes "length (paging_firstmb s) = LINK_START" "length (emm_mappings s) = 4" "\<forall>p < 4. usable s (emm_mappings s ! p)"
  shows "restore_frame [0 ..< 4] s = Some (Inr (s\<lparr>paging_firstmb := frame_firstmb s (emm_mappings s) (paging_firstmb s)\<rparr>))"
proof -
  have step: "EMM_MapPage p (map_handle (emm_mappings s ! p)) (map_page (emm_mappings s ! p)) (s\<lparr>paging_firstmb := f\<rparr>) =
      Some (Inr (EMM_NO_ERROR, s\<lparr>paging_firstmb := overwrite (224 + p * 4) (map (window s (224 + p * 4) (emm_mappings s ! p)) [0 ..< 4]) f\<rparr>))"
    if "p < 4" "length f = 272" for p f
    using MapPage_spec [OF that(1), of "s\<lparr>paging_firstmb := f\<rparr>" "emm_mappings s ! p"] assms that by (simp add: show_window_def)
  let ?w = "\<lambda>p. map (window s (224 + p * 4) (emm_mappings s ! p)) [0 ..< 4]"
  let ?f = "overwrite 236 (?w 3) (overwrite 232 (?w 2) (overwrite 228 (?w 1) (overwrite 224 (?w 0) (paging_firstmb s))))"
  have f: "restore_frame [0 ..< 4] s = Some (Inr (s\<lparr>paging_firstmb := ?f\<rparr>))"
    using step [of 0 "paging_firstmb s"] step [of 1 "overwrite 224 (?w 0) (paging_firstmb s)"]
      step [of 2 "overwrite 228 (?w 1) (overwrite 224 (?w 0) (paging_firstmb s))"]
      step [of 3 "overwrite 232 (?w 2) (overwrite 228 (?w 1) (overwrite 224 (?w 0) (paging_firstmb s)))"] assms(1)
    unfolding four by simp
  have "?f = overwrite 224 (?w 0 @ ?w 1 @ ?w 2 @ ?w 3) (paging_firstmb s)"
    using overwrite_append [of 224 "?w 0" "?w 1" "paging_firstmb s"] overwrite_append [of 224 "?w 0 @ ?w 1" "?w 2" "paging_firstmb s"]
      overwrite_append [of 224 "?w 0 @ ?w 1 @ ?w 2" "?w 3" "paging_firstmb s"] assms(1) by simp
  moreover have "concat (map ?w [0 ..< 4]) = ?w 0 @ ?w 1 @ ?w 2 @ ?w 3" by (simp add: four)
  ultimately show ?thesis unfolding f frame_firstmb_def by simp
qed

end
