(* ===== verification/Ems_Correct.thy ===== *)
theory Ems_Correct
  imports Ems_Map
begin

text \<open>
  The properties of the expanded memory manager: what a mapped page shows, saving and restoring the page map, allocation and
  release, and a reallocation that ends the program.
\<close>

unbundle bit_operations_syntax

section \<open>Remapping\<close>

text \<open>What the calls on the page frame keep.\<close>

definition kept :: "ems_state \<Rightarrow> ems_state \<Rightarrow> bool" where
  "kept s t \<longleftrightarrow> ems_type t = ems_type s \<and> emm_handles t = emm_handles s \<and> emm_segmentmappings t = emm_segmentmappings s \<and>
     mhandles (emm_pool t) = mhandles (emm_pool s) \<and> length (paging_firstmb t) = length (paging_firstmb s) \<and>
     (\<forall>i. \<not> (224 \<le> i \<and> i < 240) \<longrightarrow> paging_firstmb t ! i = paging_firstmb s ! i)"

lemma kept_refl [simp]: "kept s s"
  by (simp add: kept_def)

lemma kept_trans: "kept s t \<Longrightarrow> kept t u \<Longrightarrow> kept s u"
  by (simp add: kept_def)

lemma map_loop_keeps:
  "map_loop n lin memh s = Some (Inr t) \<Longrightarrow>
   \<exists>f. t = s\<lparr>paging_firstmb := f\<rparr> \<and> length f = length (paging_firstmb s) \<and> (\<forall>i. \<not> (lin \<le> i \<and> i < lin + n) \<longrightarrow> f ! i = paging_firstmb s ! i)"
proof (induction n arbitrary: lin memh s)
  case 0
  then show ?case by (intro exI [of _ "paging_firstmb s"]) auto
next
  case (Suc n)
  let ?s = "PAGING_MapPage lin (word_of_int memh) s"
  obtain h where "map_loop n (lin + 1) h ?s = Some (Inr t)" using Suc.prems by (auto simp: Let_def split: option.splits)
  from Suc.IH [OF this] obtain f where f: "t = ?s\<lparr>paging_firstmb := f\<rparr>" "length f = length (paging_firstmb ?s)"
    "\<forall>i. \<not> (Suc lin \<le> i \<and> i < Suc lin + n) \<longrightarrow> f ! i = paging_firstmb ?s ! i" by auto
  then have "f ! i = paging_firstmb s ! i" if "\<not> (lin \<le> i \<and> i < lin + Suc n)" for i using that by (auto simp: PAGING_MapPage_def)
  then show ?case using f by (intro exI [of _ f]) (simp add: PAGING_MapPage_def)
qed

lemma map4_keeps:
  assumes "224 \<le> first" "first + 4 \<le> 240"
  shows "kept s (unmap4 first (s\<lparr>emm_mappings := m\<rparr>))" "map4 first h l (s\<lparr>emm_mappings := m\<rparr>) = Some (Inr t) \<Longrightarrow> kept s t"
proof -
  show "kept s (unmap4 first (s\<lparr>emm_mappings := m\<rparr>))" using assms by (auto simp: kept_def unmap4_def PAGING_MapPage_def four)
  assume "map4 first h l (s\<lparr>emm_mappings := m\<rparr>) = Some (Inr t)"
  then obtain memh where "map_loop 4 first memh (s\<lparr>emm_mappings := m\<rparr>) = Some (Inr t)" by (auto simp: map4_def split: option.splits)
  from map_loop_keeps [OF this] show "kept s t" using assms by (auto simp: kept_def)
qed

lemma kept_bind: "bind_emm r (\<lambda>t. Some (Inr (e, t))) = Some (Inr (e', u)) \<Longrightarrow> (\<And>t. r = Some (Inr t) \<Longrightarrow> kept s t) \<Longrightarrow> kept s u"
  by (auto simp: bind_emm_def split: option.splits sum.splits)

lemma MapPage_keeps:
  assumes "EMM_MapPage p h l s = Some (Inr (r, t))"
  shows "kept s t"
proof (cases "p < 4")
  case True
  then have "224 \<le> 224 + p * 4" "224 + p * 4 + 4 \<le> 240" by simp_all
  note k = map4_keeps [OF this, where s = s]
  show ?thesis using assms True k(1) kept_bind [OF _ k(2)] by (auto simp: EMM_MapPage_def split: if_splits)
qed (use assms in \<open>simp add: EMM_MapPage_def\<close>)

text \<open>The segments whose four pages lie in the page frame.\<close>

definition frame_segment :: "nat \<Rightarrow> bool" where
  "frame_segment seg \<longleftrightarrow> EMM_PAGEFRAME \<le> seg \<and> seg < 0xED00"

lemma MapSegment_keeps:
  assumes f: "frame_segment seg" and c: "EMM_MapSegment seg h l s = Some (Inr (r, t))"
  shows "kept s t"
proof -
  have b: "224 \<le> seg * 16 div 4096" "seg * 16 div 4096 + 4 \<le> 240" using f by (auto simp: frame_segment_def EMM_PAGEFRAME_def)
  note k = map4_keeps [OF this, where s = s]
  have "0 \<le> tphysPage seg" "tphysPage seg < 4" using f by (auto simp: tphysPage_def frame_segment_def EMM_PAGEFRAME_def Let_def)
  then have set: "set_mapping seg e s = s\<lparr>emm_mappings := (emm_mappings s)[nat (tphysPage seg) := e]\<rparr>" for e by (simp add: set_mapping_def)
  show ?thesis using c k(1) kept_bind [OF _ k(2)] by (auto simp: EMM_MapSegment_def set Let_def split: if_splits)
qed

lemma restore_frame_keeps: "restore_frame ps s = Some (Inr t) \<Longrightarrow> kept s t"
proof (induction ps arbitrary: s)
  case (Cons p ps)
  then obtain r u where u: "EMM_MapPage p (map_handle (emm_mappings s ! p)) (map_page (emm_mappings s ! p)) s = Some (Inr (r, u))" "restore_frame ps u = Some (Inr t)"
    by (auto simp: bind_emm_def split: option.splits sum.splits)
  from kept_trans [OF MapPage_keeps [OF u(1)] Cons.IH [OF u(2)]] show ?case .
qed simp

text \<open>Windows depend on the blocks of the handles only.\<close>

definition agree :: "ems_state \<Rightarrow> ems_state \<Rightarrow> bool" where
  "agree s t \<longleftrightarrow> (\<forall>h. emm_pages (hnd h t) = emm_pages (hnd h s) \<and> emm_mem (hnd h t) = emm_mem (hnd h s)) \<and> mhandles (emm_pool t) = mhandles (emm_pool s)"

lemma agree_cong: "agree s t \<Longrightarrow> window t = window s" "agree s t \<Longrightarrow> usable t = usable s"
  by (intro ext; auto simp: agree_def window_def usable_def backed_def ValidHandle_def)+

lemma sixteen: "[0 ..< 16] = [0, 1, 2, 3, 4, 5, 6, 7, 8, 9, 10, 11, 12, 13, 14, 15 :: nat]"
  by (simp add: upt_rec)

lemma frame_firstmb_shown:
  assumes "length f = 272" "\<forall>p < 4. \<forall>j < 4. f ! (224 + p * 4 + j) = window s (224 + p * 4) (m ! p) j"
    and "length g = 272" "\<And>i. \<not> (224 \<le> i \<and> i < 240) \<Longrightarrow> g ! i = f ! i"
  shows "frame_firstmb s m g = f"
proof -
  let ?ws = "concat (map (\<lambda>p. map (window s (224 + p * 4) (m ! p)) [0 ..< 4]) [0 ..< 4])"
  have w: "f ! (224 + p * 4 + j) = window s (224 + p * 4) (m ! p) j" if "p < 4" "j < 4" for p j using assms(2) that by blast
  have "?ws = map (\<lambda>i. f ! (224 + i)) [0 ..< 16]"
    using w [of 0 0] w [of 0 1] w [of 0 2] w [of 0 3] w [of 1 0] w [of 1 1] w [of 1 2] w [of 1 3]
      w [of 2 0] w [of 2 1] w [of 2 2] w [of 2 3] w [of 3 0] w [of 3 1] w [of 3 2] w [of 3 3] by (simp add: four sixteen)
  then have nth: "?ws ! j = f ! (224 + j)" "length ?ws = 16" if "j < 16" for j using that by simp_all
  have len: "length ?ws = 16" by (simp add: four)
  show ?thesis unfolding frame_firstmb_def
    by (rule nth_equalityI) (use assms(1,3,4) nth len in \<open>auto simp: nth_overwrite\<close>)
qed


section \<open>The page map\<close>

lemma restore_table_spec:
  assumes "segments_ok t" "length (emm_mappings t) = 4" "\<forall>p < 4. usable t (emm_mappings t ! p)"
  shows "EMM_RestoreMappingTable t = Some (Inr (EMM_NO_ERROR, t\<lparr>paging_firstmb := frame_firstmb t (emm_mappings t) (paging_firstmb t)\<rparr>))"
proof -
  have "restore_segments [0 ..< 0x40] t = Some (Inr t)" by (intro restore_segments_same [OF assms(1)]) auto
  moreover have "length (paging_firstmb t) = LINK_START" using assms(1) by (simp add: segments_ok_def)
  ultimately show ?thesis using restore_frame_spec [OF _ assms(2,3)] by (simp add: EMM_RestoreMappingTable_def)
qed

lemma segments_ok_cong:
  assumes "segments_ok s" "agree s t" "ems_type t = ems_type s" "emm_segmentmappings t = emm_segmentmappings s"
    "length (paging_firstmb t) = length (paging_firstmb s)" "\<And>i. \<not> (224 \<le> i \<and> i < 240) \<Longrightarrow> paging_firstmb t ! i = paging_firstmb s ! i"
  shows "segments_ok t"
proof -
  have "paging_firstmb t ! (i * 4 + j) = paging_firstmb s ! (i * 4 + j)" if "\<not> (56 \<le> i \<and> i < 60)" "j < 4" for i j
    using that by (intro assms(6)) auto
  then show ?thesis using assms(1,3,4,5) agree_cong [OF assms(2)] by (auto simp: segments_ok_def mappable_def shown_def)
qed

text \<open>Remapping the page frame: by pages, by segments, by a whole table of mappings as the functions 0x4E and 0x4F restore one, and writes
  of the guest.\<close>

inductive remaps :: "ems_state \<Rightarrow> ems_state \<Rightarrow> bool" for s where
  start: "remaps s s"
| page: "remaps s t \<Longrightarrow> EMM_MapPage p h l t = Some (Inr (r, u)) \<Longrightarrow> remaps s u"
| segment: "remaps s t \<Longrightarrow> frame_segment seg \<Longrightarrow> EMM_MapSegment seg h l t = Some (Inr (r, u)) \<Longrightarrow> remaps s u"
| table: "remaps s t \<Longrightarrow> EMM_RestoreMappingTable (t\<lparr>emm_mappings := m\<rparr>) = Some (Inr (r, u)) \<Longrightarrow> remaps s u"
| store: "remaps s t \<Longrightarrow> remaps s (mem_writeb a v t)"

lemma kept_agree: "kept s t \<Longrightarrow> agree s t"
  by (simp add: kept_def agree_def hnd_def)

lemma kept_segments_ok: "segments_ok s \<Longrightarrow> kept s t \<Longrightarrow> segments_ok t"
  using segments_ok_cong [OF _ kept_agree] by (simp add: kept_def)

lemma RestoreMappingTable_keeps:
  assumes "segments_ok t" "EMM_RestoreMappingTable (t\<lparr>emm_mappings := m\<rparr>) = Some (Inr (r, u))"
  shows "kept t u"
proof -
  let ?t = "t\<lparr>emm_mappings := m\<rparr>"
  have k: "kept t ?t" by (simp add: kept_def)
  have "restore_segments [0 ..< 0x40] ?t = Some (Inr ?t)" by (intro restore_segments_same kept_segments_ok [OF assms(1) k]) auto
  then have "restore_frame [0 ..< EMM_MAX_PHYS] ?t = Some (Inr u)"
    using assms(2) by (auto simp: EMM_RestoreMappingTable_def bind_emm_def split: option.splits sum.splits)
  from kept_trans [OF k restore_frame_keeps [OF this]] show ?thesis .
qed

lemma remaps_keep: "remaps s t \<Longrightarrow> segments_ok s \<Longrightarrow> kept s t"
proof (induction rule: remaps.induct)
  case (page t p h l r u)
  then show ?case using MapPage_keeps kept_trans by blast
next
  case (segment t seg h l r u)
  then show ?case using MapSegment_keeps kept_trans by blast
next
  case (table t m r u)
  then show ?case using RestoreMappingTable_keeps kept_segments_ok kept_trans by blast
qed (auto simp: kept_def mem_writeb_def)

lemma page_split:
  "unat (drop_bit 12 (a :: u32)) = unat a div 4096" "a AND 4095 = word_of_nat (unat a mod 4096)"
proof -
  show "unat (drop_bit 12 a) = unat a div 4096" by (simp add: drop_bit_eq_div unat_div)
  have "a AND 4095 = a mod 4096" using take_bit_eq_mask [of 12 a] take_bit_eq_mod [of 12 a] by (simp add: mask_eq_exp_minus_1)
  moreover have "unat (a mod 4096) = unat a mod 4096" by (simp add: unat_mod)
  moreover have "word_of_nat (unat (a mod 4096)) = a mod 4096" by simp
  ultimately show "a AND 4095 = word_of_nat (unat a mod 4096)" by simp
qed

lemma view_page: "view s a = ram (emm_pool s) (if unat a div 4096 < LINK_START then paging_firstmb s ! (unat a div 4096) * 4096 + word_of_nat (unat a mod 4096) else a)"
  unfolding view_def lin_phys_def Let_def page_split by simp

section \<open>A machine\<close>

definition empty_handle :: EMM_Handle where
  "empty_handle = \<lparr>emm_pages = NULL_HANDLE, emm_mem = 0, emm_name = replicate 8 0, saved_page_map = False, page_map = replicate 4 none_mapping\<rparr>"

text \<open>Nothing is mapped, handle 1 is \<open>h\<close> and the others are free.\<close>

definition ems_machine :: "EMM_Handle \<Rightarrow> MemHandle list \<Rightarrow> (u32 \<Rightarrow> u8) \<Rightarrow> ems_state" where
  "ems_machine h mh m = \<lparr>ems_type = 1, emm_handles = (replicate EMM_MAX_HANDLES empty_handle)[1 := h], emm_mappings = replicate 4 none_mapping,
     emm_segmentmappings = replicate 64 none_mapping, emm_pool = \<lparr>mhandles = mh, ram = m\<rparr>, paging_firstmb = map word_of_nat [0 ..< LINK_START],
     emm_wrapping = 0xffff, emm_regs = \<lparr>r_ax = 0, r_bx = 0, r_cx = 0, r_dx = 0, r_si = 0, r_di = 0, r_ds = 0, r_es = 0\<rparr>\<rparr>"

lemma ems_machine_fields: "hnd 1 (ems_machine h mh m) = h" "length (emm_handles (ems_machine h mh m)) = EMM_MAX_HANDLES" "emm_pool (ems_machine h mh m) = \<lparr>mhandles = mh, ram = m\<rparr>"
  "length (paging_firstmb (ems_machine h mh m)) = LINK_START" "hnd 0 (ems_machine h mh m) = empty_handle"
  by (simp_all add: ems_machine_def hnd_def EMM_MAX_HANDLES_def)

lemma ems_machine_synced: "synced (ems_machine h mh m)"
proof -
  have "shown (ems_machine h mh m) first none_mapping" if "first + 4 \<le> 272" for first using that by (auto simp: shown_def window_def none_mapping_def ems_machine_def)
  then show ?thesis by (auto simp: synced_def segments_ok_def usable_def ems_machine_def)
qed

text \<open>C26. Mapping a page of a handle into the page frame: the guest then sees at every offset of the window the byte of the block's page,
  and every other address shows what it showed before.\<close>

theorem map_page_window:
  assumes "p < 4" "ValidHandle h s" "l < emm_pages (hnd h s)" "length (paging_firstmb s) = LINK_START"
    and "chain (mhandles (emm_pool s)) (emm_mem (hnd h s)) ps" "length ps = 4 * unat (emm_pages (hnd h s))"
  shows "\<exists>t. EMM_MapPage p h l s = Some (Inr (EMM_NO_ERROR, t)) \<and> emm_mappings t = (emm_mappings s)[p := \<lparr>map_handle = h, map_page = l\<rparr>] \<and>
    emm_pool t = emm_pool s \<and> emm_handles t = emm_handles s \<and>
    (\<forall>off < 0x4000. view t (word_of_nat (0xE0000 + p * 0x4000 + off)) =
       ram (emm_pool s) (word_of_nat (ps ! (4 * unat l + off div 4096) * 4096 + off mod 4096))) \<and>
    (\<forall>a. \<not> (0xE0000 + p * 0x4000 \<le> unat a \<and> unat a < 0xE0000 + p * 0x4000 + 0x4000) \<longrightarrow> view t a = view s a)"
proof -
  let ?e = "\<lparr>map_handle = h, map_page = l\<rparr>" and ?first = "224 + p * 4"
  let ?s = "s\<lparr>emm_mappings := (emm_mappings s)[p := ?e]\<rparr>"
  let ?t = "show_window ?first ?e ?s"
  have nl: "l \<noteq> NULL_PAGE"
  proof
    assume "l = NULL_PAGE"
    then have "unat (emm_pages (hnd h s)) > 65535" using assms(3) by (simp add: word_less_nat_alt)
    then show False using unsigned_less [of "emm_pages (hnd h s)", where ?'a = nat] by simp
  qed
  have u: "usable s ?e" using assms(2,3,5,6) nl by (auto simp: usable_def backed_def)
  have call: "EMM_MapPage p h l s = Some (Inr (EMM_NO_ERROR, ?t))" using MapPage_spec [OF assms(1) u assms(4)] by simp
  have first: "paging_firstmb ?t ! i = (if ?first \<le> i \<and> i < ?first + 4 then window s ?first ?e (i - ?first) else paging_firstmb s ! i)" if "i < 272" for i
    using that assms(1,4) by (auto simp: show_window_def nth_overwrite)
  have win: "window s ?first ?e j = word_of_nat (ps ! (4 * unat l + j))" if "j < 4" for j
  proof -
    have "unat l * 4 + j < length ps" using assms(3,6) that by (simp add: word_less_nat_alt)
    from next_at_chain [OF assms(5) this] show ?thesis using nl by (simp add: window_def mult.commute)
  qed
  have pool: "emm_pool ?t = emm_pool s" by (simp add: show_window_def)
  have "view ?t (word_of_nat (0xE0000 + p * 0x4000 + off)) = ram (emm_pool s) (word_of_nat (ps ! (4 * unat l + off div 4096) * 4096 + off mod 4096))"
    if o: "off < 0x4000" for off
  proof -
    let ?n = "0xE0000 + p * 0x4000 + off"
    have n: "unat (word_of_nat ?n :: u32) = ?n" unfolding unat_of_nat using o assms(1) by simp
    have "?n = off + ?first * 4096" by simp
    then have d: "?n div 4096 = ?first + off div 4096" "?n mod 4096 = off mod 4096" by (metis div_mult_self1 zero_neq_numeral, metis mod_mult_self1)
    have q: "off div 4096 < 4" using o by auto
    show ?thesis unfolding view_page n d(1,2) pool using first [of "?first + off div 4096"] win [OF q] q assms(1) by simp
  qed
  moreover have "view ?t a = view s a" if "\<not> (0xE0000 + p * 0x4000 \<le> unat a \<and> unat a < 0xE0000 + p * 0x4000 + 0x4000)" for a
  proof -
    have "\<not> (?first \<le> unat a div 4096 \<and> unat a div 4096 < ?first + 4)" using that by auto
    then show ?thesis unfolding view_page pool using first [of "unat a div 4096"] by auto
  qed
  ultimately show ?thesis using call pool by (intro exI [of _ ?t]) (simp add: show_window_def)
qed

theorem map_page_window_witness:
  "\<exists>t. EMM_MapPage 1 1 0 (ems_machine (empty_handle\<lparr>emm_pages := 1, emm_mem := 272\<rparr>) (replicate 272 0 @ [273, 274, 275, -1]) ((\<lambda>_. 0)(0x111005 := 7))) = Some (Inr (EMM_NO_ERROR, t)) \<and>
     view t 0xE5005 = 7"
proof -
  let ?h = "empty_handle\<lparr>emm_pages := 1, emm_mem := 272\<rparr>" and ?mh = "replicate 272 0 @ [273, 274, 275, -1 :: int]"
  let ?s = "ems_machine ?h ?mh ((\<lambda>_. 0)(0x111005 := 7))"
  have v: "ValidHandle 1 ?s" "0 < emm_pages (hnd 1 ?s)" by (simp_all add: ValidHandle_def ems_machine_fields EMM_MAX_HANDLES_def)
  have c: "chain (mhandles (emm_pool ?s)) (emm_mem (hnd 1 ?s)) [272, 273, 274, 275]" "length [272, 273, 274, 275 :: nat] = 4 * unat (emm_pages (hnd 1 ?s))"
    by (simp_all add: ems_machine_fields nth_append)
  from map_page_window [OF _ v ems_machine_fields(4) c, of 1] obtain t where t: "EMM_MapPage 1 1 0 ?s = Some (Inr (EMM_NO_ERROR, t))"
    "\<And>off. off < 0x4000 \<Longrightarrow> view t (word_of_nat (0xE0000 + 1 * 0x4000 + off)) = ram (emm_pool ?s) (word_of_nat ([272, 273, 274, 275] ! (4 * unat (0 :: u16) + off div 4096) * 4096 + off mod 4096))" by auto
  from t(2) [of "0x1005"] show ?thesis using t(1) by (simp add: ems_machine_fields)
qed

text \<open>C25. Saving and restoring the page map, where the manager's tables agree with what the guest sees and name blocks of valid handles
  (as they do after the start, when nothing is mapped): after a save under a handle, any remapping of the page frame - by \<open>EMM_MapPage\<close>, by
  \<open>EMM_MapSegment\<close> on segments whose four pages lie in the frame, by restoring a table of frame mappings - and any writes of the guest,
  the restore succeeds and the guest sees the same pages in the whole first megabyte as before; the contents of memory are
  those written since. Segments from \<open>0xED00\<close> on are excluded: their window ends behind the frame, where the restore may change nothing.
  So are calls on handles between the save and the restore.\<close>

theorem page_map_roundtrip:
  assumes "synced s" "length (emm_handles s) = EMM_MAX_HANDLES" "EMM_SavePageMap k s = (EMM_NO_ERROR, s1)" "remaps s1 t"
  shows "\<exists>u. EMM_RestorePageMap k t = Some (Inr (EMM_NO_ERROR, u)) \<and> emm_mappings u = emm_mappings s \<and> paging_firstmb u = paging_firstmb s \<and>
    emm_segmentmappings u = emm_segmentmappings s \<and> emm_pool u = emm_pool t \<and> \<not> saved_page_map (hnd k u) \<and> synced u"
proof -
  have k: "ValidHandle k s \<or> k = 0" "unat k < 200" "s1 = upd_hnd k (\<lambda>h. h\<lparr>page_map := emm_mappings s, saved_page_map := True\<rparr>) s"
    using assms(3) by (auto simp: EMM_SavePageMap_def ValidHandle_def EMM_MAX_HANDLES_def split: if_splits)
  have s1: "segments_ok s1"
  proof (rule segments_ok_cong [of s])
    show "segments_ok s" using assms(1) by (simp add: synced_def)
    show "agree s s1" using k(2) assms(2) by (auto simp: agree_def hnd_def k(3) upd_hnd_def nth_list_update EMM_MAX_HANDLES_def)
  qed (simp_all add: k(3) upd_hnd_def)
  note kt = remaps_keep [OF assms(4) s1, unfolded kept_def]
  have hk: "hnd k t = (hnd k s)\<lparr>page_map := emm_mappings s, saved_page_map := True\<rparr>" using kt k(2) assms(2) by (simp add: hnd_def k(3) upd_hnd_def EMM_MAX_HANDLES_def)
  let ?t = "upd_hnd k (\<lambda>h. h\<lparr>saved_page_map := False\<rparr>) (t\<lparr>emm_mappings := emm_mappings s\<rparr>)"
  have ag: "agree s ?t" using kt k(2) assms(2) by (auto simp: agree_def hnd_def k(3) upd_hnd_def nth_list_update EMM_MAX_HANDLES_def)
  have f: "ems_type ?t = ems_type s" "emm_segmentmappings ?t = emm_segmentmappings s" "paging_firstmb ?t = paging_firstmb t" "emm_mappings ?t = emm_mappings s"
    "length (paging_firstmb t) = length (paging_firstmb s)" "\<And>i. \<not> (224 \<le> i \<and> i < 240) \<Longrightarrow> paging_firstmb t ! i = paging_firstmb s ! i" "emm_pool ?t = emm_pool t"
    using kt by (auto simp: k(3) upd_hnd_def)
  have so: "segments_ok s" "length (paging_firstmb s) = 272" "length (emm_mappings s) = 4" using assms(1) by (auto simp: synced_def segments_ok_def)
  have st: "segments_ok ?t" using segments_ok_cong [OF so(1) ag] f by simp
  have us: "\<forall>p < 4. usable ?t (emm_mappings ?t ! p)" using assms(1) by (simp add: f(4) agree_cong [OF ag] synced_def)
  have fr: "frame_firstmb ?t (emm_mappings s) (paging_firstmb t) = paging_firstmb s"
    using assms(1) f(5,6) so(2) by (intro frame_firstmb_shown) (auto simp: agree_cong [OF ag] synced_def shown_def)
  let ?u = "?t\<lparr>paging_firstmb := paging_firstmb s\<rparr>"
  have v: "ValidHandle k t \<or> k = 0" using k(1) hk by (auto simp: ValidHandle_def)
  have "EMM_RestorePageMap k t = EMM_RestoreMappingTable ?t" using v hk by (auto simp: EMM_RestorePageMap_def)
  moreover have "EMM_RestoreMappingTable ?t = Some (Inr (EMM_NO_ERROR, ?u))" using restore_table_spec [OF st _ us] so(3) f(3,4) fr by simp
  moreover have "agree s ?u" using ag by (simp add: agree_def hnd_def)
  then have "synced ?u" using assms(1) segments_ok_cong [OF so(1), of ?u] f agree_cong [of s ?u] by (auto simp: synced_def shown_def)
  moreover have "\<not> saved_page_map (hnd k ?u)" using k(2) kt assms(2) by (simp add: hnd_def upd_hnd_def k(3) EMM_MAX_HANDLES_def)
  ultimately show ?thesis using f by (intro exI [of _ ?u]) simp
qed


theorem page_map_roundtrip_witness:
  "\<exists>s1 t u. EMM_SavePageMap 1 (ems_machine (empty_handle\<lparr>emm_pages := 1, emm_mem := 272\<rparr>) (replicate 272 0 @ [273, 274, 275, -1]) (\<lambda>_. 0)) = (EMM_NO_ERROR, s1) \<and>
     EMM_MapPage 1 1 0 s1 = Some (Inr (EMM_NO_ERROR, t)) \<and> paging_firstmb t ! 229 = 273 \<and>
     EMM_RestorePageMap 1 (mem_writeb 0xE5000 7 t) = Some (Inr (EMM_NO_ERROR, u)) \<and> paging_firstmb u = map word_of_nat [0 ..< 272] \<and> ram (emm_pool u) 0x111000 = 7"
proof -
  let ?h = "empty_handle\<lparr>emm_pages := 1, emm_mem := 272\<rparr>" and ?mh = "replicate 272 0 @ [273, 274, 275, -1 :: int]"
  let ?s = "ems_machine ?h ?mh (\<lambda>_. 0)"
  let ?s1 = "upd_hnd 1 (\<lambda>h. h\<lparr>page_map := emm_mappings ?s, saved_page_map := True\<rparr>) ?s"
  let ?e = "\<lparr>map_handle = 1, map_page = 0\<rparr>"
  let ?t = "show_window 228 ?e (?s1\<lparr>emm_mappings := (emm_mappings ?s1)[1 := ?e]\<rparr>)"
  have s1: "EMM_SavePageMap 1 ?s = (EMM_NO_ERROR, ?s1)" by (simp add: EMM_SavePageMap_def ems_machine_fields empty_handle_def ValidHandle_def EMM_MAX_HANDLES_def)
  have h1: "hnd 1 ?s1 = ?h\<lparr>page_map := emm_mappings ?s, saved_page_map := True\<rparr>" "emm_pool ?s1 = \<lparr>mhandles = ?mh, ram = \<lambda>_. 0\<rparr>"
    "paging_firstmb ?s1 = map word_of_nat [0 ..< 272]"
    by (simp_all add: hnd_def upd_hnd_def ems_machine_def EMM_MAX_HANDLES_def)
  have c: "chain ?mh 272 [272, 273, 274, 275]" by (simp add: nth_append)
  have "usable ?s1 ?e" unfolding usable_def backed_def
    by (rule disjI2) (use c in \<open>auto simp: h1 ValidHandle_def EMM_MAX_HANDLES_def intro!: exI [of _ "[272, 273, 274, 275]"]\<close>)
  from MapPage_spec [of 1, OF _ this] have mp: "EMM_MapPage 1 1 0 ?s1 = Some (Inr (EMM_NO_ERROR, ?t))" by (simp add: h1)
  have "window ?s1 228 ?e 1 = 273" using next_at_chain [OF c, of 1] by (simp add: window_def h1)
  then have w: "paging_firstmb ?t ! 229 = 273" by (simp add: show_window_def nth_overwrite h1)
  have "lin_phys ?t 0xE5000 = 0x111000" using w by (simp add: lin_phys_def drop_bit_eq_div Let_def)
  then have st: "ram (emm_pool (mem_writeb 0xE5000 7 ?t)) 0x111000 = 7" by (simp add: mem_writeb_def)
  have "paging_firstmb ?s = map word_of_nat [0 ..< 272]" by (simp add: ems_machine_def)
  then show ?thesis
    using page_map_roundtrip [OF ems_machine_synced ems_machine_fields(2) s1 remaps.store [OF remaps.page [OF remaps.start mp], of "0xE5000" 7]] s1 mp w st by auto
qed

section \<open>Allocation\<close>

declare free_handle.simps [simp del]

lemma free_handle_spec: "free_handle hs i = Some k \<Longrightarrow> i < EMM_MAX_HANDLES \<Longrightarrow> i \<le> k \<and> k < EMM_MAX_HANDLES \<and> emm_pages (hs ! k) = NULL_HANDLE"
proof (induction hs i rule: free_handle.induct)
  case (1 hs i)
  then show ?case using free_handle.simps [of hs i] by (auto split: if_splits dest: Suc_leD)
qed

lemma free_pages_unat: "unat (get_free_pages s) = min 0x7fff (MEM_FreeTotal (mhandles (emm_pool s)) div 4)"
proof -
  have "min 0x7fff (MEM_FreeTotal (mhandles (emm_pool s)) div 4) < 2 ^ 16" by simp
  then show ?thesis unfolding get_free_pages_def MaxPages_def LINK_START_num unat_of_nat by simp
qed

text \<open>Allocating pages for a handle, when the last page of memory is in use: too large a request and a full table are answered with their
  errors and change nothing; otherwise the first free handle gets a block of four pages of the pool for each page asked for, apart from all
  other blocks, and releasing the handle gives the pages back.\<close>

theorem ems_allocate:
  assumes pool: "pool_ok (mhandles (emm_pool s)) cs" "XMS_START < length (mhandles (emm_pool s))" "mhandles (emm_pool s) ! (length (mhandles (emm_pool s)) - 1) \<noteq> 0"
    and n: "n \<noteq> 0" and len: "length (emm_handles s) = EMM_MAX_HANDLES"
  shows "if get_free_pages s < n then EMM_AllocateMemory n z s = Some (Inr (EMM_OUT_OF_LOG, None, s))
    else case free_handle (emm_handles s) 1 of
      None \<Rightarrow> EMM_AllocateMemory n z s = Some (Inr (EMM_OUT_OF_HANDLES, None, s))
    | Some i \<Rightarrow> \<exists>ps t u. EMM_AllocateMemory n z s = Some (Inr (EMM_NO_ERROR, Some (word_of_nat i), t)) \<and>
        length ps = 4 * unat n \<and> pool_ok (mhandles (emm_pool t)) (ps # cs) \<and> emm_mem (hnd (word_of_nat i) t) = int (hd ps) \<and>
        emm_pages (hnd (word_of_nat i) t) = n \<and> (\<forall>h. unat h \<noteq> i \<longrightarrow> hnd h t = hnd h s) \<and>
        EMM_ReleaseMemory (word_of_nat i) t = Some (Inr (EMM_NO_ERROR, u)) \<and> pool_ok (mhandles (emm_pool u)) cs \<and> \<not> ValidHandle (word_of_nat i) u"
proof (cases "get_free_pages s < n \<or> free_handle (emm_handles s) 1 = None")
  case True
  then show ?thesis using n by (auto simp: EMM_AllocateMemory_def)
next
  case False
  let ?mh = "mhandles (emm_pool s)"
  from False obtain i where i: "free_handle (emm_handles s) 1 = Some i" by auto
  have ib: "0 < i" "i < 200" "unat (word_of_nat i :: u16) = i" using free_handle_spec [OF i] by (auto simp: EMM_MAX_HANDLES_def unat_of_nat)
  have "unat n \<le> min 0x7fff (MEM_FreeTotal ?mh div 4)" using False free_pages_unat [of s] by (simp add: word_less_nat_alt not_less)
  then have f: "\<not> MEM_FreeTotal ?mh < unat n * 4" "unat n \<le> 0x7fff" by auto
  have p: "0 < unat n * 4" using n by (simp add: unat_gt_0)
  obtain ps mh' where ps: "MEM_AllocatePages (unat n * 4) False ?mh = Some (Inr (int (hd ps), mh'))" "length ps = unat n * 4" "pool_ok mh' (ps # cs)"
    using scattered_alloc [OF pool(1) p pool(2,3)] f(1) by auto
  have "chain mh' (int (hd ps)) ps" "ps \<noteq> []" using ps(3) by (auto simp: pool_ok_def)
  then have nz: "int (hd ps) \<noteq> 0" by (cases ps) auto
  let ?h = "word_of_nat i :: u16"
  let ?t = "upd_hnd ?h (\<lambda>h. h\<lparr>emm_pages := n, emm_mem := int (hd ps)\<rparr>) (set_pool mh' s)"
  have call: "EMM_AllocateMemory n z s = Some (Inr (EMM_NO_ERROR, Some ?h, ?t))" using False n i ps(1) nz by (simp add: EMM_AllocateMemory_def)
  have ht: "hnd ?h ?t = (emm_handles s ! i)\<lparr>emm_pages := n, emm_mem := int (hd ps)\<rparr>" "mhandles (emm_pool ?t) = mh'"
    using ib len by (simp_all add: hnd_def upd_hnd_def set_pool_def EMM_MAX_HANDLES_def)
  have nf: "n \<noteq> NULL_HANDLE" using f(2) by auto
  let ?u = "upd_hnd ?h (\<lambda>h. h\<lparr>emm_mem := 0, emm_pages := NULL_HANDLE, saved_page_map := False, emm_name := replicate 8 0\<rparr>) (set_pool (zeroed mh' (set ps)) ?t)"
  have "?h \<noteq> 0" using ib by auto
  then have rel: "EMM_ReleaseMemory ?h ?t = Some (Inr (EMM_NO_ERROR, ?u))"
    using ht nf n ib pool_ok_release(1) [OF ps(3)] by (simp add: EMM_ReleaseMemory_def ValidHandle_def EMM_MAX_HANDLES_def)
  have "pool_ok (mhandles (emm_pool ?u)) cs" "\<not> ValidHandle ?h ?u" "\<forall>h. unat h \<noteq> i \<longrightarrow> hnd h ?t = hnd h s"
    using pool_ok_release(2) [OF ps(3)] ib len by (simp_all add: set_pool_def upd_hnd_def ValidHandle_def hnd_def EMM_MAX_HANDLES_def)
  then have "\<exists>ps t u. EMM_AllocateMemory n z s = Some (Inr (EMM_NO_ERROR, Some (word_of_nat i), t)) \<and>
        length ps = 4 * unat n \<and> pool_ok (mhandles (emm_pool t)) (ps # cs) \<and> emm_mem (hnd (word_of_nat i) t) = int (hd ps) \<and>
        emm_pages (hnd (word_of_nat i) t) = n \<and> (\<forall>h. unat h \<noteq> i \<longrightarrow> hnd h t = hnd h s) \<and>
        EMM_ReleaseMemory (word_of_nat i) t = Some (Inr (EMM_NO_ERROR, u)) \<and> pool_ok (mhandles (emm_pool u)) cs \<and> \<not> ValidHandle (word_of_nat i) u"
    using call rel ps(2,3) ht by (intro exI [of _ ps] exI [of _ ?t] exI [of _ ?u]) (simp add: mult.commute)
  then show ?thesis using False i by simp
qed

definition one_page_free :: "MemHandle list" where
  "one_page_free = replicate 276 0 @ [-1]"

lemma one_page_free_pool: "pool_ok one_page_free [[276]]" "MEM_FreeTotal one_page_free = 4" "length one_page_free = 277" "one_page_free ! 276 = -1"
proof -
  have nth: "one_page_free ! i = (if i < 276 then 0 else -1)" if "i < 277" for i using that by (auto simp: one_page_free_def nth_append)
  have len: "length one_page_free = 277" by (simp add: one_page_free_def)
  have "used_pages one_page_free = {276}" using nth by (auto simp: used_pages_def len XMS_START_def split: if_splits)
  then show "pool_ok one_page_free [[276]]" using nth len by (simp add: pool_ok_def)
  have "free_pages one_page_free XMS_START = {272 ..< 276}" using nth by (auto simp: free_pages_def len XMS_START_def split: if_splits)
  then show "MEM_FreeTotal one_page_free = 4" by (simp add: free_total)
  show "length one_page_free = 277" "one_page_free ! 276 = -1" using len nth by simp_all
qed

theorem ems_allocate_witness:
  "\<exists>ps t. EMM_AllocateMemory 1 False (ems_machine empty_handle one_page_free (\<lambda>_. 0)) = Some (Inr (EMM_NO_ERROR, Some 1, t)) \<and> length ps = 4 \<and>
     pool_ok (mhandles (emm_pool t)) [ps, [276]]"
proof -
  let ?s = "ems_machine empty_handle one_page_free (\<lambda>_. 0)"
  have f: "free_handle (emm_handles ?s) 1 = Some 1" by (simp add: free_handle.simps ems_machine_def empty_handle_def EMM_MAX_HANDLES_def)
  have "unat (get_free_pages ?s) = 1" by (simp add: free_pages_unat ems_machine_fields one_page_free_pool)
  then have "\<not> get_free_pages ?s < 1" by (simp add: word_less_nat_alt)
  then show ?thesis using ems_allocate [of ?s "[[276]]" 1 False] f one_page_free_pool ems_machine_fields(2) by (auto simp: ems_machine_fields XMS_START_def)
qed

text \<open>Reallocating a handle that has no pages: to zero pages, or to more pages than are free, the emulator ends with \<open>E_Exit\<close>, where the
  call should succeed or answer with the error for too many pages.\<close>

theorem reallocate_exits:
  assumes "ValidHandle h s" "emm_pages (hnd h s) = 0"
  shows "EMM_ReallocatePages h 0 s = Some (Inl Reallocation_failure) \<and>
    (\<forall>n. n \<noteq> 0 \<and> MEM_FreeTotal (mhandles (emm_pool s)) < 4 * unat n \<longrightarrow> EMM_ReallocatePages h n s = Some (Inl Reallocation_failure))"
  using assms unat_gt_0 by (auto simp: EMM_ReallocatePages_def MEM_AllocatePages_def)


theorem reallocate_exits_witness:
  "\<exists>t. EMM_AllocateMemory 0 True (ems_machine empty_handle one_page_free (\<lambda>_. 0)) = Some (Inr (EMM_NO_ERROR, Some 1, t)) \<and>
     EMM_ReallocatePages 1 0 t = Some (Inl Reallocation_failure)"
proof -
  let ?s = "ems_machine empty_handle one_page_free (\<lambda>_. 0)"
  let ?t = "upd_hnd 1 (\<lambda>h. h\<lparr>emm_pages := 0, emm_mem := 0\<rparr>) (set_pool one_page_free ?s)"
  have f: "free_handle (emm_handles ?s) 1 = Some 1" by (simp add: free_handle.simps ems_machine_def empty_handle_def EMM_MAX_HANDLES_def)
  have "EMM_AllocateMemory 0 True ?s = Some (Inr (EMM_NO_ERROR, Some 1, ?t))" using f by (simp add: EMM_AllocateMemory_def ems_machine_fields)
  moreover have "hnd 1 ?t = empty_handle\<lparr>emm_pages := 0, emm_mem := 0\<rparr>" by (simp add: hnd_def upd_hnd_def set_pool_def ems_machine_def EMM_MAX_HANDLES_def)
  then have "ValidHandle 1 ?t" "emm_pages (hnd 1 ?t) = 0" by (simp_all add: ValidHandle_def EMM_MAX_HANDLES_def)
  ultimately show ?thesis using reallocate_exits by blast
qed

end
