(* ===== verification/Rwqueue.thy ===== *)
theory Rwqueue
  imports Prelude
begin

text \<open>
  The producer/consumer queue \<open>RWQueue<T>\<close> of \<open>src/src/utils/rwqueue.h\<close> and
  \<open>src/src/misc/rwqueue.cpp\<close>, through which the device emulation, the mixer thread, the MIDI
  renderers and the image saver hand items to one another.

  Every member function but one touches the queue only while it holds the mutex, so each stretch of code
  between taking the lock and giving it back (by leaving the scope, by \<open>unlock\<close> or by the wait on
  a condition variable) is one atomic step.  A thread is therefore between methods, about to take
  the lock, in the wait set of a condition variable, woken and about to take the lock again, or
  past the critical section with notifications still to send.  The exception is \<open>GetPercentFull\<close>, which reads
  \<open>capacity\<close> after \<open>Size\<close> gave the mutex back: that read is a step of its own, and a
  \<open>Resize\<close> at the same time is a data race (\<open>data_race\<close>).  \<open>size_t\<close> values are natural numbers
  below \<open>2 ^ 64\<close>; the one subtraction that can go below zero wraps.
\<close>

section \<open>The queue and its methods\<close>

record 'a rwqueue =
  queue :: "'a list"
  capacity :: nat
  is_running :: bool

datatype condition = Has_room | Has_items

datatype notice = Notify_one condition | Notify_all condition

definition size_sub :: "nat \<Rightarrow> nat \<Rightarrow> nat" where
  "size_sub a b = nat ((int a - int b) mod 2 ^ 64)"

definition clamp :: "nat \<Rightarrow> nat \<Rightarrow> nat \<Rightarrow> nat" where
  "clamp v lo hi = (if v < lo then lo else if hi < v then hi else v)"

definition Resize :: "nat \<Rightarrow> 'a rwqueue \<Rightarrow> 'a rwqueue" where
  "Resize queue_capacity q = q\<lparr>capacity := queue_capacity\<rparr>"

definition RWQueue :: "nat \<Rightarrow> 'a rwqueue" where
  "RWQueue queue_capacity =
     Resize queue_capacity \<lparr>queue = [], capacity = 0, is_running = True\<rparr>"

definition Size :: "'a rwqueue \<Rightarrow> nat" where
  "Size q = length (queue q)"

definition Start :: "'a rwqueue \<Rightarrow> 'a rwqueue" where
  "Start q = q\<lparr>is_running := True\<rparr>"

definition Stop :: "'a rwqueue \<Rightarrow> 'a rwqueue \<times> notice list" where
  "Stop q =
     (if \<not> is_running q then (q, [])
      else (q\<lparr>is_running := False\<rparr>, [Notify_all Has_items, Notify_all Has_room]))"

definition Clear :: "'a rwqueue \<Rightarrow> 'a rwqueue \<times> notice list" where
  "Clear q = (q\<lparr>queue := []\<rparr>, [Notify_all Has_room])"

definition MaxCapacity :: "'a rwqueue \<Rightarrow> nat" where
  "MaxCapacity q = capacity q"

text \<open>The second half of \<open>GetPercentFull\<close>, without the mutex: the two numbers whose quotient it returns.\<close>

definition GetPercentFull :: "nat \<Rightarrow> 'a rwqueue \<Rightarrow> nat \<times> nat" where
  "GetPercentFull cur_level q = (100 * cur_level, capacity q)"

definition IsEmpty :: "'a rwqueue \<Rightarrow> bool" where
  "IsEmpty q \<longleftrightarrow> queue q = []"

definition IsFull :: "'a rwqueue \<Rightarrow> bool" where
  "IsFull q \<longleftrightarrow> capacity q \<le> length (queue q)"

definition IsRunning :: "'a rwqueue \<Rightarrow> bool" where
  "IsRunning q \<longleftrightarrow> is_running q"

definition append_items :: "'a list \<Rightarrow> 'a rwqueue \<Rightarrow> 'a rwqueue" where
  "append_items xs q = q\<lparr>queue := queue q @ xs\<rparr>"

definition erase_front :: "nat \<Rightarrow> 'a rwqueue \<Rightarrow> 'a rwqueue" where
  "erase_front n q = q\<lparr>queue := drop n (queue q)\<rparr>"

subsection \<open>Single items\<close>

definition Enqueue_wait :: "'a rwqueue \<Rightarrow> bool" where
  "Enqueue_wait q \<longleftrightarrow> \<not> is_running q \<or> length (queue q) < capacity q"

definition Enqueue :: "'a \<Rightarrow> 'a rwqueue \<Rightarrow> 'a rwqueue \<times> notice list \<times> bool" where
  "Enqueue item q =
     (if is_running q then (append_items [item] q, [Notify_one Has_items], True)
      else (q, [], False))"

definition NonblockingEnqueue :: "'a \<Rightarrow> 'a rwqueue \<Rightarrow> 'a rwqueue \<times> notice list \<times> bool" where
  "NonblockingEnqueue item q =
     (if \<not> is_running q \<or> length (queue q) \<ge> capacity q then (q, [], False)
      else (append_items [item] q, [Notify_one Has_items], True))"

definition Dequeue_wait :: "'a rwqueue \<Rightarrow> bool" where
  "Dequeue_wait q \<longleftrightarrow> \<not> is_running q \<or> queue q \<noteq> []"

text \<open>\<open>front\<close> of an empty deque is undefined behaviour, the outer \<^const>\<open>None\<close>.\<close>

definition Dequeue :: "'a rwqueue \<Rightarrow> ('a rwqueue \<times> notice list \<times> 'a option) option" where
  "Dequeue q =
     (if is_running q \<or> queue q \<noteq> []
      then (case queue q of [] \<Rightarrow> None
            | item # _ \<Rightarrow> Some (erase_front 1 q, [Notify_one Has_room], Some item))
      else Some (q, [Notify_one Has_room], None))"

subsection \<open>Bulk transfers\<close>

definition BulkEnqueue_items :: "nat \<Rightarrow> 'a rwqueue \<Rightarrow> nat" where
  "BulkEnqueue_items num_remaining q =
     (let free_capacity = size_sub (capacity q) (length (queue q))
      in clamp free_capacity 1 num_remaining)"

definition BulkEnqueue_wait :: "nat \<Rightarrow> 'a rwqueue \<Rightarrow> bool" where
  "BulkEnqueue_wait num_items q \<longleftrightarrow>
     \<not> is_running q \<or> num_items \<le> size_sub (capacity q) (length (queue q))"

text \<open>
  One chunk of the loop once the wait is over: \<open>Inl\<close> leaves the loop because the queue was
  stopped, \<open>Inr\<close> carries the source items not yet moved.  Reading past the end of the source is
  undefined behaviour.
\<close>

definition BulkEnqueue_chunk ::
    "nat \<Rightarrow> 'a list \<Rightarrow> 'a rwqueue \<Rightarrow> ('a rwqueue \<times> notice list \<times> (unit + 'a list)) option" where
  "BulkEnqueue_chunk num_items source q =
     (if is_running q
      then if num_items \<le> length source
           then Some (append_items (take num_items source) q, [Notify_one Has_items],
                      Inr (drop num_items source))
           else None
      else Some (q, [], Inl ()))"

definition NonblockingBulkEnqueue ::
    "'a list \<Rightarrow> nat \<Rightarrow> 'a rwqueue \<Rightarrow> 'a rwqueue \<times> notice list \<times> nat \<times> 'a list" where
  "NonblockingBulkEnqueue from_source num_requested q =
     (if \<not> is_running q \<or> length (queue q) \<ge> capacity q then (q, [], 0, from_source)
      else let available_capacity = size_sub (capacity q) (length (queue q));
               num_items = min available_capacity num_requested
           in (append_items (take num_items from_source) q, [Notify_one Has_items],
               num_items, drop num_items from_source))"

definition BulkDequeue_items :: "nat \<Rightarrow> 'a rwqueue \<Rightarrow> nat" where
  "BulkDequeue_items num_remaining q = clamp (length (queue q)) 1 num_remaining"

definition BulkDequeue_wait :: "nat \<Rightarrow> 'a rwqueue \<Rightarrow> bool" where
  "BulkDequeue_wait num_items q \<longleftrightarrow> \<not> is_running q \<or> num_items \<le> length (queue q)"

definition BulkDequeue_chunk ::
    "nat \<Rightarrow> 'a rwqueue \<Rightarrow> ('a rwqueue \<times> notice list \<times> (unit + 'a list)) option" where
  "BulkDequeue_chunk num_items q =
     (if is_running q \<or> queue q \<noteq> []
      then if num_items \<le> length (queue q)
           then Some (erase_front num_items q, [Notify_one Has_room],
                      Inr (take num_items (queue q)))
           else None
      else Some (q, [], Inl ()))"

section \<open>Threads\<close>

text \<open>
  The lock-taking points of the methods, with the local variables that are live there.  In the
  bulk loops these are the items not yet moved (or the items already received), the number
  requested and \<open>num_remaining\<close>.  \<open>Read_capacity\<close> is the point in \<open>GetPercentFull\<close> behind the call of \<open>Size\<close>.
\<close>

datatype 'a op =
    Do_Resize nat | Do_Start | Do_Stop | Do_Clear
  | Do_Size | Do_MaxCapacity | Do_GetPercentFull | Read_capacity nat | Do_IsEmpty | Do_IsFull | Do_IsRunning
  | Do_Enqueue 'a | Do_NonblockingEnqueue 'a | Do_Dequeue
  | Do_BulkEnqueue "'a list" nat nat
  | Do_NonblockingBulkEnqueue "'a list" nat
  | Do_BulkDequeue "'a list" nat nat

datatype 'a reply =
    Done | Number nat | Quotient nat nat | Truth bool | Item "'a option"
  | Sent nat "'a list" | Received nat "'a list"

datatype 'a transfer = Silent | Put "'a list" | Get "'a list" | Wipe

datatype 'a pc =
    Idle
  | Enter "'a op"
  | Waiting "'a op" nat
  | Woken "'a op" nat
  | Notifying "notice list" "'a pc"
  | Finished "'a reply"

definition after_unlock :: "notice list \<Rightarrow> 'a pc \<Rightarrow> 'a pc" where
  "after_unlock ns k = (if ns = [] then k else Notifying ns k)"

text \<open>
  The head of the two bulk loops: another round, or the return.  \<open>from_source.clear()\<close> empties
  the source of \<open>BulkEnqueue\<close> however the loop ended.
\<close>

definition BulkEnqueue_loop :: "'a list \<Rightarrow> nat \<Rightarrow> nat \<Rightarrow> 'a pc" where
  "BulkEnqueue_loop source num_requested num_remaining =
     (if num_remaining > 0 then Enter (Do_BulkEnqueue source num_requested num_remaining)
      else Finished (Sent (num_requested - num_remaining) []))"

definition BulkDequeue_loop :: "'a list \<Rightarrow> nat \<Rightarrow> nat \<Rightarrow> 'a pc" where
  "BulkDequeue_loop target num_requested num_remaining =
     (if num_remaining > 0 then Enter (Do_BulkDequeue target num_requested num_remaining)
      else Finished (Received (num_requested - num_remaining) target))"

fun waits_for :: "'a op \<Rightarrow> condition option" where
  "waits_for (Do_Enqueue item) = Some Has_room"
| "waits_for (Do_BulkEnqueue source req rem) = Some Has_room"
| "waits_for Do_Dequeue = Some Has_items"
| "waits_for (Do_BulkDequeue target req rem) = Some Has_items"
| "waits_for _ = None"

fun num_items :: "'a op \<Rightarrow> 'a rwqueue \<Rightarrow> nat" where
  "num_items (Do_BulkEnqueue source req rem) q = BulkEnqueue_items rem q"
| "num_items (Do_BulkDequeue target req rem) q = BulkDequeue_items rem q"
| "num_items _ q = 1"

fun ready :: "'a op \<Rightarrow> nat \<Rightarrow> 'a rwqueue \<Rightarrow> bool" where
  "ready (Do_Enqueue item) n q = Enqueue_wait q"
| "ready (Do_BulkEnqueue source req rem) n q = BulkEnqueue_wait n q"
| "ready Do_Dequeue n q = Dequeue_wait q"
| "ready (Do_BulkDequeue target req rem) n q = BulkDequeue_wait n q"
| "ready _ n q = True"

text \<open>
  A whole critical section once its wait is over: the new queue, what was moved, and where the
  thread goes.  \<^const>\<open>None\<close> is undefined behaviour.
\<close>

fun critical :: "'a op \<Rightarrow> nat \<Rightarrow> 'a rwqueue \<Rightarrow> ('a rwqueue \<times> 'a transfer \<times> 'a pc) option" where
  "critical (Do_Resize c) n q = Some (Resize c q, Silent, Finished Done)"
| "critical Do_Start n q = Some (Start q, Silent, Finished Done)"
| "critical Do_Stop n q =
     (let (q', ns) = Stop q in Some (q', Silent, after_unlock ns (Finished Done)))"
| "critical Do_Clear n q =
     (let (q', ns) = Clear q in Some (q', Wipe, after_unlock ns (Finished Done)))"
| "critical Do_Size n q = Some (q, Silent, Finished (Number (Size q)))"
| "critical Do_MaxCapacity n q = Some (q, Silent, Finished (Number (MaxCapacity q)))"
| "critical Do_GetPercentFull n q = Some (q, Silent, Enter (Read_capacity (Size q)))"
| "critical (Read_capacity cur_level) n q =
     (let (a, b) = GetPercentFull cur_level q in Some (q, Silent, Finished (Quotient a b)))"
| "critical Do_IsEmpty n q = Some (q, Silent, Finished (Truth (IsEmpty q)))"
| "critical Do_IsFull n q = Some (q, Silent, Finished (Truth (IsFull q)))"
| "critical Do_IsRunning n q = Some (q, Silent, Finished (Truth (IsRunning q)))"
| "critical (Do_Enqueue item) n q =
     (let (q', ns, ok) = Enqueue item q
      in Some (q', if ok then Put [item] else Silent, after_unlock ns (Finished (Truth ok))))"
| "critical (Do_NonblockingEnqueue item) n q =
     (let (q', ns, ok) = NonblockingEnqueue item q
      in Some (q', if ok then Put [item] else Silent, after_unlock ns (Finished (Truth ok))))"
| "critical Do_Dequeue n q =
     (case Dequeue q of None \<Rightarrow> None
      | Some (q', ns, item) \<Rightarrow>
          Some (q', (case item of None \<Rightarrow> Silent | Some x \<Rightarrow> Get [x]),
                after_unlock ns (Finished (Item item))))"
| "critical (Do_BulkEnqueue source req rem) n q =
     (case BulkEnqueue_chunk n source q of None \<Rightarrow> None
      | Some (q', ns, Inl _) \<Rightarrow> Some (q', Silent, after_unlock ns (Finished (Sent (req - rem) [])))
      | Some (q', ns, Inr rest) \<Rightarrow>
          Some (q', Put (take n source), after_unlock ns (BulkEnqueue_loop rest req (rem - n))))"
| "critical (Do_NonblockingBulkEnqueue source req) n q =
     (let (q', ns, k, rest) = NonblockingBulkEnqueue source req q
      in Some (q', Put (take k source), after_unlock ns (Finished (Sent k rest))))"
| "critical (Do_BulkDequeue target req rem) n q =
     (case BulkDequeue_chunk n q of None \<Rightarrow> None
      | Some (q', ns, Inl _) \<Rightarrow>
          Some (q', Silent, after_unlock ns (Finished (Received (req - rem) target)))
      | Some (q', ns, Inr xs) \<Rightarrow>
          Some (q', Get xs, after_unlock ns (BulkDequeue_loop (target @ xs) req (rem - n))))"

text \<open>The call of a method: its assertions, and the code before the first lock.\<close>

fun method_entry :: "'a op \<Rightarrow> 'a pc option" where
  "method_entry (Do_Resize c) = (if c > 0 then Some (Enter (Do_Resize c)) else None)"
| "method_entry (Do_BulkEnqueue source req rem) =
     (if 1 \<le> req \<and> req \<le> length source \<and> rem = req then Some (BulkEnqueue_loop source req req)
      else None)"
| "method_entry (Do_NonblockingBulkEnqueue source req) =
     (if 0 < req \<and> req \<le> length source then Some (Enter (Do_NonblockingBulkEnqueue source req))
      else None)"
| "method_entry (Do_BulkDequeue target req rem) =
     (if target = [] \<and> rem = req then Some (BulkDequeue_loop [] req req) else None)"
| "method_entry (Read_capacity cur_level) = None"
| "method_entry op = Some (Enter op)"

section \<open>Interleavings\<close>

record 'a config =
  shared :: "'a rwqueue"
  threads :: "'a pc list"

text \<open>
  The scheduler picks what happens next: a thread between methods calls one, a thread takes the
  lock (for the first time or after a wake-up), a thread sends its next notification (with the
  waiter that \<open>notify_one\<close> picks), or a waiter wakes spuriously, as condition variables may.
\<close>

datatype 'a choice =
  Begin nat "'a op" | Advance nat | Signal nat "nat option" | Spurious nat

fun waiting_on :: "condition \<Rightarrow> 'a pc \<Rightarrow> bool" where
  "waiting_on cv (Waiting op n) \<longleftrightarrow> waits_for op = Some cv"
| "waiting_on cv _ \<longleftrightarrow> False"

fun wake :: "'a pc \<Rightarrow> 'a pc" where
  "wake (Waiting op n) = Woken op n"
| "wake p = p"

fun deliver :: "notice \<Rightarrow> nat option \<Rightarrow> 'a pc list \<Rightarrow> 'a pc list option" where
  "deliver (Notify_all cv) w ts = Some (map (\<lambda>p. if waiting_on cv p then wake p else p) ts)"
| "deliver (Notify_one cv) None ts =
     (if list_all (\<lambda>p. \<not> waiting_on cv p) ts then Some ts else None)"
| "deliver (Notify_one cv) (Some w) ts =
     (if w < length ts \<and> waiting_on cv (ts ! w) then Some (ts[w := wake (ts ! w)]) else None)"

fun between_calls :: "'a pc \<Rightarrow> bool" where
  "between_calls Idle = True"
| "between_calls (Finished a) = True"
| "between_calls _ = False"

definition locked ::
    "nat \<Rightarrow> 'a op \<Rightarrow> nat \<Rightarrow> 'a config \<Rightarrow> ('a transfer \<times> 'a config) option" where
  "locked t op n c =
     (if ready op n (shared c)
      then (case critical op n (shared c) of None \<Rightarrow> None
            | Some (q, e, p) \<Rightarrow> Some (e, c\<lparr>shared := q, threads := (threads c)[t := p]\<rparr>))
      else Some (Silent, c\<lparr>threads := (threads c)[t := Waiting op n]\<rparr>))"

fun act :: "'a choice \<Rightarrow> 'a config \<Rightarrow> ('a transfer \<times> 'a config) option" where
  "act (Begin t op) c =
     (if t < length (threads c) \<and> between_calls (threads c ! t)
      then (case method_entry op of None \<Rightarrow> None
            | Some p \<Rightarrow> Some (Silent, c\<lparr>threads := (threads c)[t := p]\<rparr>))
      else None)"
| "act (Advance t) c =
     (if t < length (threads c)
      then (case threads c ! t of
              Enter op \<Rightarrow> locked t op (num_items op (shared c)) c
            | Woken op n \<Rightarrow> locked t op n c
            | _ \<Rightarrow> None)
      else None)"
| "act (Signal t w) c =
     (if t < length (threads c)
      then (case threads c ! t of
              Notifying (x # xs) k \<Rightarrow>
                (case deliver x w (threads c) of None \<Rightarrow> None
                 | Some ts \<Rightarrow> Some (Silent, c\<lparr>threads := ts[t := after_unlock xs k]\<rparr>))
            | _ \<Rightarrow> None)
      else None)"
| "act (Spurious t) c =
     (if t < length (threads c)
      then (case threads c ! t of
              Waiting op n \<Rightarrow> Some (Silent, c\<lparr>threads := (threads c)[t := Woken op n]\<rparr>)
            | _ \<Rightarrow> None)
      else None)"

text \<open>A thread that reads \<open>capacity\<close> without the mutex while another is about to write it.\<close>

definition data_race :: "'a config \<Rightarrow> bool" where
  "data_race c \<longleftrightarrow> (\<exists>t < length (threads c). \<exists>u < length (threads c).
     (\<exists>l. threads c ! t = Enter (Read_capacity l)) \<and> (\<exists>m. threads c ! u = Enter (Do_Resize m)))"

fun acting :: "'a choice \<Rightarrow> nat" where
  "acting (Begin t op) = t"
| "acting (Advance t) = t"
| "acting (Signal t w) = t"
| "acting (Spurious t) = t"

fun interleave :: "'a choice list \<Rightarrow> 'a config \<Rightarrow> ((nat \<times> 'a transfer) list \<times> 'a config) option" where
  "interleave [] c = Some ([], c)"
| "interleave (x # xs) c =
     (case act x c of None \<Rightarrow> None
      | Some (e, c') \<Rightarrow>
          (case interleave xs c' of None \<Rightarrow> None
           | Some (es, c'') \<Rightarrow> Some ((acting x, e) # es, c'')))"

definition start_config :: "nat \<Rightarrow> nat \<Rightarrow> 'a config" where
  "start_config cap k = \<lparr>shared = RWQueue cap, threads = replicate k Idle\<rparr>"

end
