(* ===== verification/Rwqueue_Fifo.thy ===== *)
theory Rwqueue_Fifo
  imports Rwqueue
begin

text \<open>
  What every interleaving of \<open>Rwqueue\<close> keeps: no method runs into undefined behaviour, the items
  come out in the order they went in, and without \<open>Resize\<close> the queue stays within its capacity.
  The locale \<open>interleaving_invariant\<close> lifts a property of single steps to all interleavings; it is
  interpreted for each invariant.
\<close>

named_theorems rwq_defs \<open>the bodies of the critical sections\<close>

lemmas [rwq_defs] =
  Resize_def Start_def Stop_def Clear_def Enqueue_def NonblockingEnqueue_def Dequeue_def
  BulkEnqueue_chunk_def NonblockingBulkEnqueue_def BulkDequeue_chunk_def after_unlock_def
  BulkEnqueue_loop_def BulkDequeue_loop_def append_items_def erase_front_def GetPercentFull_def Let_def

named_theorems wait_defs \<open>the wait predicates and the chunk sizes\<close>

lemmas [wait_defs] =
  Enqueue_wait_def Dequeue_wait_def BulkEnqueue_wait_def BulkDequeue_wait_def
  BulkEnqueue_items_def BulkDequeue_items_def clamp_def Let_def

section \<open>Sizes\<close>

lemma size_sub_exact: "b \<le> a \<Longrightarrow> a < 2 ^ 64 \<Longrightarrow> size_sub a b = a - b"
  unfolding size_sub_def by (subst mod_pos_pos_trivial) auto

lemma size_sub_wraps: "a < b \<Longrightarrow> b < 2 ^ 64 \<Longrightarrow> size_sub a b = 2 ^ 64 - (b - a)"
proof -
  assume ab: "a < b" "b < 2 ^ 64"
  have "(int a - int b) mod 2 ^ 64 = (int a - int b + 2 ^ 64) mod 2 ^ 64"
    by simp
  also have "\<dots> = int a - int b + 2 ^ 64"
    using ab by (intro mod_pos_pos_trivial) auto
  finally show ?thesis
    using ab unfolding size_sub_def by (simp add: nat_diff_distrib)
qed

lemma clamp_bounds: "1 \<le> hi \<Longrightarrow> 1 \<le> clamp v 1 hi \<and> clamp v 1 hi \<le> hi"
  by (auto simp: clamp_def)

section \<open>Invariants of interleavings\<close>

locale interleaving_invariant =
  fixes allowed :: "'a choice \<Rightarrow> bool"
    and inv :: "'a config \<Rightarrow> bool"
  assumes act_inv: "inv c \<Longrightarrow> allowed x \<Longrightarrow> act x c = Some (e, c') \<Longrightarrow> inv c'"
begin

lemma interleave_inv:
  "inv c \<Longrightarrow> list_all allowed xs \<Longrightarrow> interleave xs c = Some (es, c') \<Longrightarrow> inv c'"
proof (induction xs arbitrary: c es)
  case (Cons x xs)
  then obtain e c1 es1 where "act x c = Some (e, c1)" "interleave xs c1 = Some (es1, c')"
    by (auto split: option.splits)
  then show ?case
    using Cons act_inv [of c x e c1] by auto
qed simp

end

text \<open>The ways a step changes the list of threads, for invariants of single threads.\<close>

lemma deliver_nth:
  assumes "deliver x w ts = Some ts'"
  shows "length ts' = length ts"
    and "t < length ts \<Longrightarrow> ts' ! t = ts ! t \<or> ts' ! t = wake (ts ! t)"
  using assms by (cases x; cases w; auto split: if_splits simp: nth_list_update)+

lemma locked_cases:
  assumes "locked t op n c = Some (e, c')"
  obtains q p where "ready op n (shared c)" "critical op n (shared c) = Some (q, e, p)"
      "c' = c\<lparr>shared := q, threads := (threads c)[t := p]\<rparr>"
  | "\<not> ready op n (shared c)" "e = Silent"
      "c' = c\<lparr>threads := (threads c)[t := Waiting op n]\<rparr>"
  using assms unfolding locked_def by (auto split: if_splits option.splits)

lemma act_cases:
  assumes "act x c = Some (e, c')"
  obtains (called) t op p where "x = Begin t op" "t < length (threads c)"
      "between_calls (threads c ! t)" "method_entry op = Some p" "e = Silent"
      "c' = c\<lparr>threads := (threads c)[t := p]\<rparr>"
  | (locks) t op where "x = Advance t" "t < length (threads c)" "threads c ! t = Enter op"
      "locked t op (num_items op (shared c)) c = Some (e, c')"
  | (relocks) t op n where "x = Advance t" "t < length (threads c)" "threads c ! t = Woken op n"
      "locked t op n c = Some (e, c')"
  | (signals) t w y ys k ts where "x = Signal t w" "t < length (threads c)"
      "threads c ! t = Notifying (y # ys) k" "deliver y w (threads c) = Some ts" "e = Silent"
      "c' = c\<lparr>threads := ts[t := after_unlock ys k]\<rparr>"
  | (spurious) t op n where "x = Spurious t" "t < length (threads c)"
      "threads c ! t = Waiting op n" "e = Silent"
      "c' = c\<lparr>threads := (threads c)[t := Woken op n]\<rparr>"
proof (cases x)
  case (Begin t op)
  then show thesis
    using assms called by (auto split: if_splits option.splits)
next
  case (Advance t)
  then show thesis
    using assms locks relocks by (auto split: if_splits pc.splits)
next
  case (Signal t w)
  then show thesis
    using assms signals by (auto split: if_splits pc.splits list.splits option.splits)
next
  case (Spurious t)
  then show thesis
    using assms spurious by (auto split: if_splits pc.splits)
qed

section \<open>No undefined behaviour\<close>

fun op_ok :: "'a op \<Rightarrow> bool" where
  "op_ok (Do_Resize c) \<longleftrightarrow> 0 < c"
| "op_ok (Do_BulkEnqueue source req rem) \<longleftrightarrow> 0 < rem \<and> rem \<le> req \<and> rem \<le> length source"
| "op_ok (Do_NonblockingBulkEnqueue source req) \<longleftrightarrow> req \<le> length source"
| "op_ok (Do_BulkDequeue target req rem) \<longleftrightarrow> 0 < rem \<and> rem \<le> req"
| "op_ok _ \<longleftrightarrow> True"

text \<open>
  A thread blocks in \<open>BulkDequeue\<close> only when the queue was empty, and then it waits for exactly
  one item: this is what keeps it from erasing more than there is after another consumer and a
  \<open>Stop\<close> came in between.  In \<open>BulkEnqueue\<close> a thread blocks only when there was no room, and waits
  for one place.
\<close>

fun items_ok :: "'a op \<Rightarrow> nat \<Rightarrow> bool" where
  "items_ok (Do_BulkEnqueue source req rem) n \<longleftrightarrow> n = 1"
| "items_ok (Do_BulkDequeue target req rem) n \<longleftrightarrow> n = 1"
| "items_ok _ n \<longleftrightarrow> True"

definition blocked :: "'a pc \<Rightarrow> bool" where
  "blocked p \<longleftrightarrow> (\<exists>op n. p = Waiting op n)"

lemma blocked_simps [simp]:
  "blocked (Waiting op n)" "\<not> blocked Idle" "\<not> blocked (Enter op)" "\<not> blocked (Woken op n)"
  "\<not> blocked (Notifying ns k)" "\<not> blocked (Finished a)"
  by (auto simp: blocked_def)

fun pc_ok :: "'a pc \<Rightarrow> bool" where
  "pc_ok (Enter op) \<longleftrightarrow> op_ok op"
| "pc_ok (Waiting op n) \<longleftrightarrow> op_ok op \<and> items_ok op n \<and> waits_for op \<noteq> None"
| "pc_ok (Woken op n) \<longleftrightarrow> op_ok op \<and> items_ok op n \<and> waits_for op \<noteq> None"
| "pc_ok (Notifying ns k) \<longleftrightarrow> ns \<noteq> [] \<and> pc_ok k \<and> \<not> blocked k"
| "pc_ok _ \<longleftrightarrow> True"

definition threads_ok :: "'a config \<Rightarrow> bool" where
  "threads_ok c \<longleftrightarrow> (\<forall>t < length (threads c). pc_ok (threads c ! t))"

lemma blocked_items_ok:
  "op_ok op \<Longrightarrow> \<not> ready op (num_items op q) q \<Longrightarrow> items_ok op (num_items op q)"
  by (cases op) (auto simp: wait_defs split: if_splits)

lemma not_ready_waits: "\<not> ready op n q \<Longrightarrow> waits_for op \<noteq> None"
  by (cases op) auto

definition chunk_ok :: "'a op \<Rightarrow> nat \<Rightarrow> 'a rwqueue \<Rightarrow> bool" where
  "chunk_ok op n q \<longleftrightarrow> op_ok op \<and> ready op n q \<and> (n = num_items op q \<or> items_ok op n)"

lemma chunk_okI:
  "op_ok op \<Longrightarrow> ready op (num_items op q) q \<Longrightarrow> chunk_ok op (num_items op q) q"
  "op_ok op \<Longrightarrow> items_ok op n \<Longrightarrow> ready op n q \<Longrightarrow> chunk_ok op n q"
  by (auto simp: chunk_ok_def)

lemma BulkEnqueue_chunk_size:
  "chunk_ok (Do_BulkEnqueue source req rem) n q \<Longrightarrow> 1 \<le> n \<and> n \<le> rem \<and> n \<le> length source"
  by (auto simp: chunk_ok_def wait_defs split: if_splits)

lemma BulkDequeue_chunk_size:
  "chunk_ok (Do_BulkDequeue target req rem) n q \<Longrightarrow> is_running q \<or> queue q \<noteq> [] \<Longrightarrow>
     1 \<le> n \<and> n \<le> rem \<and> n \<le> length (queue q)"
  by (cases "queue q") (auto simp: chunk_ok_def wait_defs Suc_le_eq split: if_splits)

lemma critical_defined:
  assumes "chunk_ok op n q"
  shows "\<exists>q' e p. critical op n q = Some (q', e, p) \<and> pc_ok p \<and> \<not> blocked p"
proof (cases op)
  case (Do_BulkEnqueue source req rem)
  then show ?thesis
    using assms BulkEnqueue_chunk_size [of source req rem n q]
    by (cases "is_running q") (auto simp: rwq_defs chunk_ok_def blocked_def)
next
  case (Do_BulkDequeue target req rem)
  then show ?thesis
    using assms BulkDequeue_chunk_size [of target req rem n q]
    by (cases "is_running q \<or> queue q \<noteq> []") (auto simp: rwq_defs chunk_ok_def blocked_def)
next
  case Do_Dequeue
  then show ?thesis
    using assms by (cases "queue q") (auto simp: rwq_defs chunk_ok_def wait_defs blocked_def)
qed (auto simp: rwq_defs blocked_def)

lemma method_entry_ok: "method_entry op = Some p \<Longrightarrow> pc_ok p"
  by (cases op) (auto simp: rwq_defs split: if_splits)

lemma wake_ok: "pc_ok p \<Longrightarrow> pc_ok (wake p)"
  by (cases p) auto

lemma after_unlock_ok: "pc_ok (Notifying (y # ys) k) \<Longrightarrow> pc_ok (after_unlock ys k)"
  by (auto simp: after_unlock_def)

lemma threads_ok_update:
  "threads_ok c \<Longrightarrow> pc_ok p \<Longrightarrow> threads_ok (c\<lparr>threads := (threads c)[t := p]\<rparr>)"
  "threads_ok c \<Longrightarrow> pc_ok p \<Longrightarrow> threads_ok (c\<lparr>shared := q, threads := (threads c)[t := p]\<rparr>)"
  by (cases "t < length (threads c)"; auto simp: threads_ok_def nth_list_update)+

lemma locked_ok:
  assumes ok: "threads_ok c" and t: "t < length (threads c)"
    and at: "threads c ! t = Enter op \<and> n = num_items op (shared c) \<or> threads c ! t = Woken op n"
  shows "\<exists>e c'. locked t op n c = Some (e, c') \<and> threads_ok c'"
proof (cases "ready op n (shared c)")
  case True
  have "pc_ok (threads c ! t)"
    using ok t by (simp add: threads_ok_def)
  then have "chunk_ok op n (shared c)"
    using at True by (auto simp: chunk_ok_def)
  then show ?thesis
    using True ok critical_defined [of op n "shared c"]
    by (auto simp: locked_def intro: threads_ok_update)
next
  case False
  have "pc_ok (threads c ! t)"
    using ok t by (simp add: threads_ok_def)
  then have "pc_ok (Waiting op n)"
    using at False blocked_items_ok [of op "shared c"] not_ready_waits [OF False] by auto
  then show ?thesis
    using False ok by (auto simp: locked_def intro: threads_ok_update)
qed

lemma act_threads_ok:
  assumes ok: "threads_ok c" and step: "act x c = Some (e, c')"
  shows "threads_ok c'"
  using step
proof (cases rule: act_cases)
  case (called t op p)
  then show ?thesis
    using ok method_entry_ok by (auto intro: threads_ok_update)
next
  case (locks t op)
  then show ?thesis
    using locked_ok [OF ok, of t op "num_items op (shared c)"] by auto
next
  case (relocks t op n)
  then show ?thesis
    using locked_ok [OF ok, of t op n] by auto
next
  case (signals t w y ys k ts)
  have "pc_ok (ts ! u)" if "u < length ts" for u
    using that ok deliver_nth [OF signals(4)] wake_ok unfolding threads_ok_def by metis
  moreover have "pc_ok (after_unlock ys k)"
    using ok signals by (intro after_unlock_ok) (auto simp: threads_ok_def dest!: spec [of _ t])
  ultimately show ?thesis
    using signals deliver_nth(1) [OF signals(4)] by (auto simp: threads_ok_def nth_list_update)
next
  case (spurious t op n)
  then show ?thesis
    using ok by (auto simp: threads_ok_def nth_list_update dest!: spec [of _ t])
qed

interpretation ok: interleaving_invariant "\<lambda>_. True" threads_ok
  by unfold_locales (rule act_threads_ok)

lemma threads_ok_start [simp]: "threads_ok (start_config cap k)"
  by (simp add: threads_ok_def start_config_def)

lemma reached_ok: "interleave xs (start_config cap k) = Some (es, c) \<Longrightarrow> threads_ok c"
  by (rule ok.interleave_inv [of "start_config cap k" xs es]) (auto simp: list.pred_True)

lemma signal_enabled:
  assumes "t < length (threads c)" "threads c ! t = Notifying (y # ys) k"
  obtains w where "act (Signal t w) c \<noteq> None"
proof (cases y)
  case (Notify_all cv)
  then show thesis
    using assms that [of None] by simp
next
  case (Notify_one cv)
  show thesis
  proof (cases "list_all (\<lambda>p. \<not> waiting_on cv p) (threads c)")
    case True
    then show thesis
      using assms Notify_one that [of None] by simp
  next
    case False
    then obtain w where "w < length (threads c)" "waiting_on cv (threads c ! w)"
      by (auto simp: list_all_length)
    then show thesis
      using assms Notify_one that [of "Some w"] by simp
  qed
qed

lemma inside_can_act:
  assumes ok: "threads_ok c" and t: "t < length (threads c)"
    and inside: "\<not> between_calls (threads c ! t)" "\<not> blocked (threads c ! t)"
  shows "\<exists>x e c'. acting x = t \<and> act x c = Some (e, c')"
proof -
  have adv: "\<exists>x e c'. acting x = t \<and> act x c = Some (e, c')"
    if at: "threads c ! t = Enter op \<and> n = num_items op (shared c) \<or> threads c ! t = Woken op n"
    for op n
    using locked_ok [OF ok t at] at t by (auto intro!: exI [of _ "Advance t"])
  show ?thesis
  proof (cases "threads c ! t")
    case (Notifying ns p)
    then have "ns \<noteq> []"
      using ok t by (auto simp: threads_ok_def dest!: spec [of _ t])
    then obtain y ys where "threads c ! t = Notifying (y # ys) p"
      using Notifying by (cases ns) auto
    with t obtain w where "act (Signal t w) c \<noteq> None"
      by (rule signal_enabled)
    then show ?thesis
      by (auto intro!: exI [of _ "Signal t w"] simp del: act.simps)
  qed (use inside adv in \<open>auto simp: blocked_def\<close>)
qed

section \<open>First in, first out\<close>

text \<open>The abstract queue: what each event does to the sequence of items.\<close>

fun fifo_step :: "'a transfer \<Rightarrow> 'a list \<Rightarrow> 'a list option" where
  "fifo_step Silent xs = Some xs"
| "fifo_step (Put ys) xs = Some (xs @ ys)"
| "fifo_step (Get ys) xs =
     (if take (length ys) xs = ys then Some (drop (length ys) xs) else None)"
| "fifo_step Wipe xs = Some []"

fun fifo_run :: "'a transfer list \<Rightarrow> 'a list \<Rightarrow> 'a list option" where
  "fifo_run [] xs = Some xs"
| "fifo_run (e # es) xs = (case fifo_step e xs of None \<Rightarrow> None | Some ys \<Rightarrow> fifo_run es ys)"

fun put_items :: "'a transfer \<Rightarrow> 'a list" where
  "put_items (Put xs) = xs"
| "put_items _ = []"

fun got_items :: "'a transfer \<Rightarrow> 'a list" where
  "got_items (Get xs) = xs"
| "got_items _ = []"

lemma critical_fifo:
  "critical op n q = Some (q', e, p) \<Longrightarrow> fifo_step e (queue q) = Some (queue q')"
  by (cases op) (auto simp: rwq_defs split: if_splits list.splits)

lemma act_fifo:
  assumes "act x c = Some (e, c')"
  shows "fifo_step e (queue (shared c)) = Some (queue (shared c'))"
  using assms by (cases rule: act_cases) (auto elim!: locked_cases dest: critical_fifo)

lemma interleave_fifo:
  "interleave xs c = Some (es, c') \<Longrightarrow>
     fifo_run (map snd es) (queue (shared c)) = Some (queue (shared c'))"
  by (induction xs arbitrary: c es) (auto simp: act_fifo split: option.splits)

lemma fifo_get_prefix: "take (length xs) ys = xs \<Longrightarrow> xs @ drop (length xs) ys = ys"
  by (metis append_take_drop_id)

lemma fifo_run_order:
  "fifo_run es xs = Some ys \<Longrightarrow> Wipe \<notin> set es \<Longrightarrow>
     concat (map got_items es) @ ys = xs @ concat (map put_items es)"
proof (induction es arbitrary: xs)
  case (Cons e es)
  then obtain zs where z: "fifo_step e xs = Some zs" "fifo_run es zs = Some ys"
    by (auto split: option.splits)
  then have "concat (map got_items es) @ ys = zs @ concat (map put_items es)"
    using Cons by auto
  moreover have "got_items e @ zs = xs @ put_items e"
    using z(1) Cons.prems(2)
    by (cases e) (auto split: if_splits intro: fifo_get_prefix)
  ultimately have "got_items e @ concat (map got_items es) @ ys =
      (xs @ put_items e) @ concat (map put_items es)"
    by (metis append_assoc)
  then show ?case
    by simp
qed simp

text \<open>C3. The queue implements a FIFO: every interleaving of the threads is a run of the abstract
  queue on its put, get and clear events, and while nobody calls \<open>Clear\<close> the items the consumers
  got, followed by those still queued, are the items queued at first followed by those the
  producers put, in the same order, none lost and none duplicated.
\<close>

theorem rwqueue_refines_fifo:
  assumes "interleave xs c = Some (es, c')"
  shows "fifo_run (map snd es) (queue (shared c)) = Some (queue (shared c')) \<and>
    (Wipe \<notin> snd ` set es \<longrightarrow>
       concat (map (got_items \<circ> snd) es) @ queue (shared c') =
       queue (shared c) @ concat (map (put_items \<circ> snd) es))"
  using interleave_fifo [OF assms] fifo_run_order [OF interleave_fifo [OF assms]] by simp

theorem rwqueue_refines_fifo_witness:
  "fifo_run [Silent, Silent, Put [7, 8], Silent, Get [7]] [] = Some [8 :: nat]"
  using rwqueue_refines_fifo [of
      "[Begin 0 (Do_BulkEnqueue [7, 8, 9] 2 2), Begin 1 Do_Dequeue, Advance 0, Signal 0 None, Advance 1]"
      "start_config 2 2" "[(0, Silent), (1, Silent), (0, Put [7, 8]), (0, Silent), (1, Get [7])]"
      "\<lparr>shared = \<lparr>queue = [8 :: nat], capacity = 2, is_running = True\<rparr>,
        threads = [Finished (Sent 2 []),
          Notifying [Notify_one Has_room] (Finished (Item (Some 7)))]\<rparr>"]
  by (simp add: start_config_def RWQueue_def rwq_defs wait_defs size_sub_def locked_def
      numeral_2_eq_2)

section \<open>Capacity\<close>

fun pc_op :: "'a pc \<Rightarrow> 'a op option" where
  "pc_op (Enter op) = Some op"
| "pc_op (Waiting op n) = Some op"
| "pc_op (Woken op n) = Some op"
| "pc_op (Notifying ns k) = pc_op k"
| "pc_op _ = None"

fun is_resize :: "'a op \<Rightarrow> bool" where
  "is_resize (Do_Resize c) = True"
| "is_resize _ = False"

fun asks_percent :: "'a op \<Rightarrow> bool" where
  "asks_percent Do_GetPercentFull = True"
| "asks_percent (Read_capacity l) = True"
| "asks_percent _ = False"

fun begins_resize :: "'a choice \<Rightarrow> bool" where
  "begins_resize (Begin t op) = is_resize op"
| "begins_resize _ = False"

fun begins_percent :: "'a choice \<Rightarrow> bool" where
  "begins_percent (Begin t op) = asks_percent op"
| "begins_percent _ = False"

definition within :: "nat \<Rightarrow> 'a config \<Rightarrow> bool" where
  "within cap c \<longleftrightarrow> threads_ok c \<and> capacity (shared c) = cap \<and>
     length (queue (shared c)) \<le> cap \<and>
     (\<forall>t < length (threads c). \<forall>op. pc_op (threads c ! t) = Some op \<longrightarrow> \<not> is_resize op)"

text \<open>The loops come back to the same method, so what a thread calls it keeps to.\<close>

lemma critical_pc_op:
  "critical op n q = Some (q', e, p) \<Longrightarrow> pc_op p = Some op' \<Longrightarrow>
     waits_for op' = waits_for op \<and> is_resize op' = is_resize op \<and> asks_percent op' = asks_percent op"
  by (cases op) (auto simp: rwq_defs split: if_splits list.splits)

lemma method_entry_pc_op:
  "method_entry op = Some p \<Longrightarrow> pc_op p = Some op' \<Longrightarrow>
     waits_for op' = waits_for op \<and> is_resize op' = is_resize op \<and> asks_percent op' = asks_percent op"
  by (cases op) (auto simp: rwq_defs split: if_splits)

lemma pc_op_wake [simp]: "pc_op (wake p) = pc_op p"
  by (cases p) auto

lemma pc_op_after_unlock [simp]: "pc_op (after_unlock ns k) = pc_op k"
  by (simp add: after_unlock_def)

lemma act_pc_op:
  assumes step: "act x c = Some (e, c')" and u: "u < length (threads c')"
    and op': "pc_op (threads c' ! u) = Some op'"
  shows "length (threads c') = length (threads c) \<and>
     ((\<exists>op. x = Begin u op \<and> waits_for op' = waits_for op \<and> is_resize op' = is_resize op \<and> asks_percent op' = asks_percent op) \<or>
      (\<exists>op. pc_op (threads c ! u) = Some op \<and>
          waits_for op' = waits_for op \<and> is_resize op' = is_resize op \<and> asks_percent op' = asks_percent op))"
  using step
proof (cases rule: act_cases)
  case (called t op p)
  then show ?thesis
    using u op' method_entry_pc_op [of op p op'] by (auto simp: nth_list_update split: if_splits)
next
  case (locks t op)
  from locks(4) show ?thesis
    by (cases rule: locked_cases)
      (use locks u op' in \<open>auto simp: nth_list_update split: if_splits dest: critical_pc_op\<close>)
next
  case (relocks t op n)
  from relocks(4) show ?thesis
    by (cases rule: locked_cases)
      (use relocks u op' in \<open>auto simp: nth_list_update split: if_splits dest: critical_pc_op\<close>)
next
  case (signals t w y ys k ts)
  have "length ts = length (threads c)"
    using deliver_nth(1) [OF signals(4)] .
  moreover from this have "pc_op (ts ! u) = pc_op (threads c ! u)"
    using deliver_nth(2) [OF signals(4), of u] u signals(6) by auto
  ultimately have "pc_op (threads c' ! u) = pc_op (threads c ! u)"
    using signals u by (auto simp: nth_list_update)
  then show ?thesis
    using op' u signals deliver_nth(1) [OF signals(4)] by auto
next
  case (spurious t op n)
  then show ?thesis
    using u op' by (auto simp: nth_list_update split: if_splits)
qed

lemma critical_capacity:
  assumes "chunk_ok op n q" "\<not> is_resize op" "critical op n q = Some (q', e, p)"
    and "length (queue q) \<le> capacity q" "capacity q < 2 ^ 64"
  shows "capacity q' = capacity q \<and> length (queue q') \<le> capacity q'"
  using assms size_sub_exact [of "length (queue q)" "capacity q"]
  by (cases op) (auto simp: rwq_defs wait_defs chunk_ok_def split: if_splits list.splits)

lemma locked_capacity:
  assumes "within cap c" "cap < 2 ^ 64" "t < length (threads c)"
    and at: "threads c ! t = Enter op \<and> n = num_items op (shared c) \<or> threads c ! t = Woken op n"
    and "locked t op n c = Some (e, c')"
  shows "capacity (shared c') = cap \<and> length (queue (shared c')) \<le> cap"
  using assms(5)
proof (cases rule: locked_cases)
  case (1 q p)
  have "chunk_ok op n (shared c)" and "\<not> is_resize op"
    using assms(1,3) at 1 by (auto simp: within_def threads_ok_def chunk_ok_def dest!: spec [of _ t])
  then show ?thesis
    using 1 assms(1,2) critical_capacity [of op n "shared c" q e p] by (simp add: within_def)
qed (use assms(1) in \<open>simp add: within_def\<close>)

lemma act_within:
  assumes inv: "within cap c" "cap < 2 ^ 64" and x: "\<not> begins_resize x"
    and step: "act x c = Some (e, c')"
  shows "within cap c'"
proof -
  have "capacity (shared c') = cap \<and> length (queue (shared c')) \<le> cap"
    using step
  proof (cases rule: act_cases)
    case (locks t op)
    then show ?thesis
      using locked_capacity [OF inv] by blast
  next
    case (relocks t op n)
    then show ?thesis
      using locked_capacity [OF inv] by blast
  qed (use inv in \<open>auto simp: within_def\<close>)
  moreover have "\<not> is_resize op'"
    if "u < length (threads c')" "pc_op (threads c' ! u) = Some op'" for u op'
    using act_pc_op [OF step that] that inv(1) x by (auto simp: within_def)
  ultimately show ?thesis
    using inv(1) act_threads_ok [OF _ step] by (simp add: within_def)
qed

interpretation bounded: interleaving_invariant
  "\<lambda>x. \<not> begins_resize x" "\<lambda>c. within cap c \<and> cap < 2 ^ 64" for cap
  by unfold_locales (use act_within in blast)

lemma within_start: "within cap (start_config cap k)"
  by (simp add: within_def) (simp add: start_config_def RWQueue_def Resize_def)

lemma reached_within:
  assumes "interleave xs (start_config cap k) = Some (es, c)"
    and "list_all (\<lambda>x. \<not> begins_resize x) xs" and "cap < 2 ^ 64"
  shows "within cap c"
  using bounded.interleave_inv [of cap "start_config cap k" xs es c] assms within_start by blast

section \<open>Definedness\<close>

text \<open>No thread is inside a method of the kind \<open>P\<close>.\<close>

definition nobody :: "('a op \<Rightarrow> bool) \<Rightarrow> 'a config \<Rightarrow> bool" where
  "nobody P c \<longleftrightarrow> (\<forall>t < length (threads c). \<forall>op. pc_op (threads c ! t) = Some op \<longrightarrow> \<not> P op)"

lemma act_nobody:
  assumes n: "nobody P c" and step: "act x c = Some (e, c')" and P: "P = is_resize \<or> P = asks_percent"
    and x: "\<And>t op. x = Begin t op \<Longrightarrow> \<not> P op"
  shows "nobody P c'"
  unfolding nobody_def
proof (intro allI impI)
  fix u op' assume u: "u < length (threads c')" and op': "pc_op (threads c' ! u) = Some op'"
  consider op where "x = Begin u op" "P op' = P op"
    | op where "pc_op (threads c ! u) = Some op" "P op' = P op" "u < length (threads c)"
    using act_pc_op [OF step u op'] P u by metis
  then show "\<not> P op'"
    using n x by cases (auto simp: nobody_def)
qed

interpretation no_resize: interleaving_invariant "\<lambda>x. \<not> begins_resize x" "nobody is_resize"
  by unfold_locales (rule act_nobody, auto)

interpretation no_percent: interleaving_invariant "\<lambda>x. \<not> begins_percent x" "nobody asks_percent"
  by unfold_locales (rule act_nobody, auto)

lemma nobody_start: "nobody P (start_config cap k)"
  by (simp add: nobody_def start_config_def)

lemma race_calls:
  assumes "interleave xs (start_config cap k) = Some (es, c)" "data_race c"
  shows "(\<exists>y \<in> set xs. begins_resize y) \<and> (\<exists>y \<in> set xs. begins_percent y)"
proof -
  have "\<not> nobody is_resize c" "\<not> nobody asks_percent c"
    using assms(2) by (fastforce simp: data_race_def nobody_def)+
  then show ?thesis
    using no_resize.interleave_inv [OF nobody_start _ assms(1)] no_percent.interleave_inv [OF nobody_start _ assms(1)]
    by (auto simp: list_all_iff)
qed

text \<open>C35. Whatever methods the threads call, with arguments that satisfy the assertions, and however they are scheduled, no
  step of a method of the queue runs
  into undefined behaviour by itself (reading past the end of a source vector, \<open>front\<close> of an empty deque,
  erasing more items than the queue has): a thread inside a method that is not in a wait set
  can always go on.  The one access without the mutex, to \<open>capacity\<close> in \<open>GetPercentFull\<close>, races with another thread
  only where both \<open>Resize\<close> and \<open>GetPercentFull\<close> are called.
\<close>

theorem rwqueue_always_defined:
  assumes run: "interleave xs (start_config cap k) = Some (es, c)"
    and t: "t < length (threads c)"
    and inside: "\<not> between_calls (threads c ! t)" "\<not> blocked (threads c ! t)"
  shows "(\<exists>x e c'. acting x = t \<and> act x c = Some (e, c')) \<and>
    (data_race c \<longrightarrow> (\<exists>y \<in> set xs. begins_resize y) \<and> (\<exists>y \<in> set xs. begins_percent y))"
  using inside_can_act [OF reached_ok [OF run] t inside] race_calls [OF run] by blast

theorem rwqueue_always_defined_witness:
  "\<exists>x e c'. acting x = 0 \<and>
     act x \<lparr>shared = RWQueue 2, threads = [Enter (Do_BulkDequeue [] 3 3) :: nat pc]\<rparr> = Some (e, c')"
  using rwqueue_always_defined [of "[Begin 0 (Do_BulkDequeue [] 3 3)]" 2 1
      "[(0, Silent)]" "\<lparr>shared = RWQueue 2, threads = [Enter (Do_BulkDequeue [] 3 3)]\<rparr>" 0]
  by (simp add: start_config_def BulkDequeue_loop_def blocked_def del: act.simps(2-)) blast

text \<open>The race is there: a thread reads \<open>capacity\<close> while another, with the mutex, writes it.\<close>

lemma percent_races:
  assumes "1 < k" "0 < m"
  shows "\<exists>es c. interleave [Begin 0 Do_GetPercentFull, Advance 0, Begin 1 (Do_Resize m)] (start_config cap k) = Some (es, c) \<and> data_race c"
proof -
  obtain n where k: "k = Suc (Suc n)"
    using less_imp_Suc_add [OF assms(1)] by auto
  let ?c = "\<lparr>shared = RWQueue cap, threads = Enter (Read_capacity 0) # Enter (Do_Resize m) # replicate n Idle\<rparr>"
  have "interleave [Begin 0 Do_GetPercentFull, Advance 0, Begin 1 (Do_Resize m)] (start_config cap k) =
      Some ([(0, Silent), (0, Silent), (1, Silent)], ?c)"
    using assms(2) by (simp add: start_config_def locked_def Size_def RWQueue_def Resize_def k)
  moreover have "threads ?c ! 0 = Enter (Read_capacity 0)" "threads ?c ! 1 = Enter (Do_Resize m)"
      "0 < length (threads ?c)" "1 < length (threads ?c)"
    by simp_all
  then have "data_race ?c"
    unfolding data_race_def by blast
  ultimately show ?thesis
    by blast
qed

end
