(* ===== verification/Rwqueue_Wakeup.thy ===== *)
theory Rwqueue_Wakeup
  imports Rwqueue_Fifo
begin

text \<open>
  The condition variables of \<open>Rwqueue\<close>: which waits a critical section can end, and whether the
  thread that ends one also notifies the waiter.  With one producer and one consumer no wake-up is
  lost; \<open>Stop\<close> wakes every waiter; two consumers behind one \<open>BulkEnqueue\<close>, or a \<open>Resize\<close> that
  makes room, leave a waiter asleep.
\<close>

section \<open>Notifications that are on their way\<close>

fun serves :: "condition \<Rightarrow> notice \<Rightarrow> bool" where
  "serves cv (Notify_one cv') \<longleftrightarrow> cv = cv'"
| "serves cv (Notify_all cv') \<longleftrightarrow> cv = cv'"

fun notifying_for :: "condition \<Rightarrow> 'a pc \<Rightarrow> bool" where
  "notifying_for cv (Notifying ns k) \<longleftrightarrow> list_ex (serves cv) ns"
| "notifying_for cv _ \<longleftrightarrow> False"

fun broadcasting :: "condition \<Rightarrow> 'a pc \<Rightarrow> bool" where
  "broadcasting cv (Notifying ns k) \<longleftrightarrow> Notify_all cv \<in> set ns"
| "broadcasting cv _ \<longleftrightarrow> False"

text \<open>
  A critical section that makes a wait predicate true leaves with the notification for it.
\<close>

lemma critical_notifies:
  assumes "critical op n q = Some (q', e, p)" "\<not> is_resize op"
    and "\<not> ready op' m q" "ready op' m q'" "waits_for op' = Some cv"
    and "length (queue q) \<le> capacity q" "length (queue q') \<le> capacity q'" "capacity q < 2 ^ 64"
  shows "notifying_for cv p"
proof (cases cv)
  case Has_items
  then have "\<not> ready op' m q \<longrightarrow> ready op' m q' \<longrightarrow>
      \<not> is_running q' \<and> is_running q \<or> length (queue q) < length (queue q')"
    using assms(5) by (cases op') (auto simp: wait_defs)
  then have "\<not> is_running q' \<and> is_running q \<or> length (queue q) < length (queue q')"
    using assms(3,4) by simp
  then show ?thesis
    using assms(1,2) Has_items
    by (cases op) (auto simp: rwq_defs split: if_splits list.splits)
next
  case Has_room
  have same: "capacity q' = capacity q"
    using assms(1,2) by (cases op) (auto simp: rwq_defs split: if_splits list.splits)
  have "\<not> is_running q' \<and> is_running q \<or> length (queue q') < length (queue q)"
    using assms(3-8) Has_room same size_sub_exact [of "length (queue q)" "capacity q"]
      size_sub_exact [of "length (queue q')" "capacity q'"]
    by (cases op') (auto simp: wait_defs)
  then show ?thesis
    using assms(1,2) Has_room
    by (cases op) (auto simp: rwq_defs split: if_splits list.splits)
qed

section \<open>One producer and one consumer\<close>

text \<open>
  Thread \<open>p\<close> is the only one to call methods that wait for room and \<open>g\<close> the only one to call
  methods that wait for items; every thread may call the others, \<open>Resize\<close> apart.
\<close>

definition role :: "nat \<Rightarrow> nat \<Rightarrow> nat \<Rightarrow> 'a op \<Rightarrow> bool" where
  "role p g t op \<longleftrightarrow> \<not> is_resize op \<and> (waits_for op = Some Has_room \<longrightarrow> t = p) \<and>
     (waits_for op = Some Has_items \<longrightarrow> t = g)"

fun plays :: "nat \<Rightarrow> nat \<Rightarrow> 'a choice \<Rightarrow> bool" where
  "plays p g (Begin t op) \<longleftrightarrow> role p g t op"
| "plays p g _ \<longleftrightarrow> True"

definition roles_ok :: "nat \<Rightarrow> nat \<Rightarrow> 'a config \<Rightarrow> bool" where
  "roles_ok p g c \<longleftrightarrow>
     (\<forall>t < length (threads c). \<forall>op. pc_op (threads c ! t) = Some op \<longrightarrow> role p g t op)"

definition no_lost_wakeup :: "'a config \<Rightarrow> bool" where
  "no_lost_wakeup c \<longleftrightarrow>
     (\<forall>t < length (threads c). \<forall>op n cv.
        threads c ! t = Waiting op n \<longrightarrow> waits_for op = Some cv \<longrightarrow> ready op n (shared c) \<longrightarrow>
        (\<exists>u < length (threads c). notifying_for cv (threads c ! u)))"

lemma no_lost_wakeupD:
  "no_lost_wakeup c \<Longrightarrow> t < length (threads c) \<Longrightarrow> threads c ! t = Waiting op n \<Longrightarrow>
     waits_for op = Some cv \<Longrightarrow> ready op n (shared c) \<Longrightarrow>
     \<exists>u < length (threads c). notifying_for cv (threads c ! u)"
  unfolding no_lost_wakeup_def by blast

lemma waiting_onD: "waiting_on cv p \<Longrightarrow> \<exists>op n. p = Waiting op n \<and> waits_for op = Some cv"
  by (cases p) auto

lemma act_roles:
  assumes "roles_ok p g c" "plays p g x" "act x c = Some (e, c')"
  shows "roles_ok p g c'"
  unfolding roles_ok_def
proof (intro allI impI)
  fix t op'
  assume t: "t < length (threads c')" "pc_op (threads c' ! t) = Some op'"
  then show "role p g t op'"
    using act_pc_op [OF assms(3) t] assms(1,2) by (auto simp: roles_ok_def role_def)
qed

lemma waiter_unique:
  assumes "roles_ok p g c" "t < length (threads c)" "u < length (threads c)"
    and "waiting_on cv (threads c ! t)" "waiting_on cv (threads c ! u)"
  shows "t = u"
proof -
  have "v = (case cv of Has_room \<Rightarrow> p | Has_items \<Rightarrow> g)"
    if v: "waiting_on cv (threads c ! v)" "v < length (threads c)" for v
  proof -
    obtain op n where "threads c ! v = Waiting op n" "waits_for op = Some cv"
      using waiting_onD [OF v(1)] by blast
    then have "role p g v op" "waits_for op = Some cv"
      using assms(1) v(2) by (simp_all add: roles_ok_def)
    then show ?thesis
      by (cases cv) (simp_all add: role_def)
  qed
  from this [OF assms(4,2)] this [OF assms(5,3)] show ?thesis
    by simp
qed

lemma notifying_for_wake [simp]: "notifying_for cv (wake p) = notifying_for cv p"
  by (cases p) auto

lemma broadcasting_wake [simp]: "broadcasting cv (wake p) = broadcasting cv p"
  by (cases p) auto

lemma deliver_keeps_notices:
  assumes "deliver x w ts = Some ts'" "t < length ts"
  shows "notifying_for cv (ts' ! t) = notifying_for cv (ts ! t)"
    and "broadcasting cv (ts' ! t) = broadcasting cv (ts ! t)"
  using deliver_nth(2) [OF assms(1), of t] assms(2) by auto

lemma deliver_still_waiting:
  assumes "deliver x w ts = Some ts'" "t < length ts" "ts' ! t = Waiting op n"
  shows "ts ! t = Waiting op n"
  using deliver_nth(2) [OF assms(1), of t] assms(2,3) by (cases "ts ! t") auto

lemma deliver_serves:
  assumes "deliver x w ts = Some ts'" "serves cv x" "t < length ts" "ts' ! t = Waiting op n"
    and "waits_for op = Some cv"
    and unique: "\<And>u. u < length ts \<Longrightarrow> waiting_on cv (ts ! u) \<Longrightarrow> u = t"
  shows False
proof -
  have on: "ts ! t = Waiting op n" "waiting_on cv (ts ! t)"
    using deliver_still_waiting [OF assms(1,3,4)] assms(5) by simp_all
  show False
  proof (cases x)
    case (Notify_all cv')
    then show False
      using assms(1-4) on by auto
  next
    case (Notify_one cv')
    show False
    proof (cases w)
      case None
      then show False
        using assms(1-3) on Notify_one by (auto simp: list_all_length split: if_splits)
    next
      case (Some v)
      then have "v < length ts" "waiting_on cv (ts ! v)" "ts' = ts[v := wake (ts ! v)]"
        using assms(1,2) Notify_one by (auto split: if_splits)
      then show False
        using unique [of v] assms(4) on by auto
    qed
  qed
qed

lemma locked_wakeup:
  assumes inv: "within cap c" "no_lost_wakeup c" and cap: "cap < 2 ^ 64"
    and t: "t < length (threads c)"
    and at: "threads c ! t = Enter op \<and> n = num_items op (shared c) \<or> threads c ! t = Woken op n"
    and step: "locked t op n c = Some (e, c')"
  shows "no_lost_wakeup c'"
  using step
proof (cases rule: locked_cases)
  case (1 q pc)
  have after: "capacity q = cap \<and> length (queue q) \<le> cap"
    using locked_capacity [OF inv(1) cap t at step] 1 by simp
  have op: "\<not> is_resize op"
    using inv(1) t at by (auto simp: within_def dest!: spec [of _ t])
  have quiet: "\<not> notifying_for cv (threads c ! t)" for cv
    using at by auto
  have pc: "\<not> blocked pc"
    using 1 at t inv(1) critical_defined [of op n "shared c"]
    by (auto simp: within_def threads_ok_def chunk_ok_def dest!: spec [of _ t])
  have "\<exists>v < length (threads c'). notifying_for cv (threads c' ! v)"
    if u: "u < length (threads c')" "threads c' ! u = Waiting op' m" "waits_for op' = Some cv"
      "ready op' m (shared c')" for u op' m cv
  proof -
    have was: "threads c ! u = Waiting op' m" "u < length (threads c)"
      using u pc 1 t by (auto simp: nth_list_update blocked_def split: if_splits)
    show ?thesis
    proof (cases "ready op' m (shared c)")
      case True
      then obtain v where "v < length (threads c)" "notifying_for cv (threads c ! v)"
        using no_lost_wakeupD [OF inv(2) was(2,1) u(3)] by blast
      moreover from this have "v \<noteq> t"
        using quiet by auto
      ultimately show ?thesis
        using 1 by (auto intro!: exI [of _ v])
    next
      case False
      then have "notifying_for cv pc"
        using critical_notifies [OF 1(2) op False] u 1 after inv(1) cap by (simp add: within_def)
      then show ?thesis
        using 1 t by (auto intro!: exI [of _ t])
    qed
  qed
  then show ?thesis
    unfolding no_lost_wakeup_def by blast
next
  case 2
  have "\<not> notifying_for cv (threads c ! t)" for cv
    using at by auto
  then show ?thesis
    using 2 inv(2) t unfolding no_lost_wakeup_def
    by (simp add: nth_list_update) (metis pc.inject(2))
qed

lemma signal_wakeup:
  assumes inv: "threads_ok c" "roles_ok p g c" "no_lost_wakeup c"
    and t: "t < length (threads c)" "threads c ! t = Notifying (y # ys) k"
    and ts: "deliver y w (threads c) = Some ts"
  shows "no_lost_wakeup (c\<lparr>threads := ts[t := after_unlock ys k]\<rparr>)" (is "no_lost_wakeup ?c'")
proof -
  have len: "length ts = length (threads c)"
    using deliver_nth(1) [OF ts] .
  have k: "\<not> blocked (after_unlock ys k)"
    using inv(1) t by (auto simp: threads_ok_def after_unlock_def blocked_def dest!: spec [of _ t])
  have "\<exists>v < length (threads ?c'). notifying_for cv (threads ?c' ! v)"
    if u: "u < length (threads ?c')" "threads ?c' ! u = Waiting op' m" "waits_for op' = Some cv"
      "ready op' m (shared c)" for u op' m cv
  proof -
    have u': "u \<noteq> t" "u < length (threads c)" "ts ! u = Waiting op' m"
      using u k t len by (auto simp: nth_list_update blocked_def split: if_splits)
    then have was: "threads c ! u = Waiting op' m"
      using deliver_still_waiting [OF ts] by blast
    then obtain v where v: "v < length (threads c)" "notifying_for cv (threads c ! v)"
      using no_lost_wakeupD [OF inv(3) u'(2) was u(3,4)] by blast
    have "\<not> serves cv y"
    proof
      assume "serves cv y"
      then show False
        using deliver_serves [OF ts _ u'(2,3) u(3)] waiter_unique [OF inv(2)] was u' u(3)
        by (metis waiting_on.simps(1))
    qed
    then have "notifying_for cv (threads ?c' ! v)"
      using v t len deliver_keeps_notices(1) [OF ts, of v cv]
      by (cases "v = t") (auto simp: nth_list_update after_unlock_def)
    then show ?thesis
      using v len by auto
  qed
  then show ?thesis
    unfolding no_lost_wakeup_def by simp
qed

definition spsc :: "nat \<Rightarrow> nat \<Rightarrow> nat \<Rightarrow> 'a config \<Rightarrow> bool" where
  "spsc cap p g c \<longleftrightarrow> within cap c \<and> roles_ok p g c \<and> no_lost_wakeup c"

lemma act_wakeup:
  assumes inv: "within cap c" "roles_ok p g c" "no_lost_wakeup c" and cap: "cap < 2 ^ 64"
    and step: "act x c = Some (e, c')"
  shows "no_lost_wakeup c'"
  using step
proof (cases rule: act_cases)
  case (called t op q)
  have "\<not> blocked q"
    using called(4) by (cases op) (auto simp: rwq_defs blocked_def split: if_splits)
  moreover have "\<not> notifying_for cv (threads c ! t)" for cv
    using called(3) by (cases "threads c ! t") auto
  ultimately show ?thesis
    using called inv(3) unfolding no_lost_wakeup_def blocked_def
    by (simp add: nth_list_update) metis
next
  case (locks t op)
  then show ?thesis
    using locked_wakeup [OF inv(1,3) cap, of t op "num_items op (shared c)"] by auto
next
  case (relocks t op n)
  then show ?thesis
    using locked_wakeup [OF inv(1,3) cap, of t op n] by auto
next
  case (signals t w y ys k ts)
  then show ?thesis
    using signal_wakeup [OF _ inv(2,3), of t y ys k w ts] inv(1) by (simp add: within_def)
next
  case (spurious t op n)
  then show ?thesis
    using inv(3) unfolding no_lost_wakeup_def
    by (simp add: nth_list_update) (metis notifying_for.simps(4))
qed

lemma act_spsc:
  assumes "spsc cap p g c" "cap < 2 ^ 64" "plays p g x" "act x c = Some (e, c')"
  shows "spsc cap p g c'"
proof -
  have "\<not> begins_resize x"
    using assms(3) by (cases x) (auto simp: role_def)
  then show ?thesis
    using assms act_within act_roles act_wakeup unfolding spsc_def by blast
qed

interpretation spsc: interleaving_invariant
  "plays p g" "\<lambda>c. spsc cap p g c \<and> cap < 2 ^ 64" for cap p g
  by unfold_locales (use act_spsc in blast)

lemma spsc_start: "spsc cap p g (start_config cap k)"
  using within_start [of cap k]
  by (simp add: spsc_def roles_ok_def no_lost_wakeup_def) (simp add: start_config_def)

lemma reached_spsc:
  assumes "interleave xs (start_config cap k) = Some (es, c)" "list_all (plays p g) xs"
    and "cap < 2 ^ 64"
  shows "spsc cap p g c"
  using spsc.interleave_inv [of cap p g "start_config cap k" xs es c] assms spsc_start by blast

lemma spsc_wakeup:
  "spsc cap p g c \<Longrightarrow> \<forall>t < length (threads c). \<forall>op n cv.
     threads c ! t = Waiting op n \<longrightarrow> waits_for op = Some cv \<longrightarrow> ready op n (shared c) \<longrightarrow>
     (\<exists>u < length (threads c). notifying_for cv (threads c ! u))"
  by (simp add: spsc_def no_lost_wakeup_def)

text \<open>
  A queue with an item ends the consumer's wait and an empty one the producer's, as the capacity
  is not zero and both wait for a single item or place.
\<close>

lemma items_end_wait:
  "waits_for op = Some Has_items \<Longrightarrow> items_ok op m \<Longrightarrow> queue q \<noteq> [] \<Longrightarrow> ready op m q"
  by (cases op) (auto simp: wait_defs Suc_le_eq)

lemma room_ends_wait:
  "waits_for op = Some Has_room \<Longrightarrow> items_ok op m \<Longrightarrow> queue q = [] \<Longrightarrow>
     0 < capacity q \<Longrightarrow> capacity q < 2 ^ 64 \<Longrightarrow> ready op m q"
  using size_sub_exact [of 0 "capacity q"] by (cases op) (auto simp: wait_defs)

lemma waiting_ok:
  assumes "threads_ok c" "t < length (threads c)" "waiting_on cv (threads c ! t)"
  obtains op n where "threads c ! t = Waiting op n" "waits_for op = Some cv" "items_ok op n"
  using assms waiting_onD [OF assms(3)] by (force simp: threads_ok_def)

lemma spsc_not_both_asleep:
  assumes inv: "spsc cap p g c" and cap: "0 < cap" "cap < 2 ^ 64"
    and t: "t < length (threads c)" "waiting_on Has_room (threads c ! t)"
    and u: "u < length (threads c)" "waiting_on Has_items (threads c ! u)"
  shows "\<exists>v cv. v < length (threads c) \<and> notifying_for cv (threads c ! v)"
proof -
  have ok: "threads_ok c" and cap': "capacity (shared c) = cap" and nl: "no_lost_wakeup c"
    using inv by (simp_all add: spsc_def within_def)
  obtain op n where op: "threads c ! t = Waiting op n" "waits_for op = Some Has_room" "items_ok op n"
    using ok t by (rule waiting_ok)
  obtain op' m where op': "threads c ! u = Waiting op' m" "waits_for op' = Some Has_items" "items_ok op' m"
    using ok u by (rule waiting_ok)
  show ?thesis
  proof (cases "queue (shared c) = []")
    case True
    then have "ready op n (shared c)"
      using room_ends_wait [OF op(2,3)] cap cap' by simp
    then show ?thesis
      using no_lost_wakeupD [OF nl t(1) op(1,2)] by blast
  next
    case False
    then show ?thesis
      using no_lost_wakeupD [OF nl u(1) op'(1,2)] items_end_wait [OF op'(2,3)] by blast
  qed
qed

text \<open>C4. One producer and one consumer never lose a wake-up: in every interleaving without \<open>Resize\<close>
  in which only thread \<open>p\<close> calls methods that wait for room and only \<open>g\<close> methods that wait for
  items, a thread that sits in a wait set although its predicate holds has a notification on its
  way from another thread.  In particular producer and consumer are never both asleep with nobody
  left to wake one of them.
\<close>

theorem rwqueue_no_lost_wakeup:
  assumes "interleave xs (start_config cap k) = Some (es, c)"
    and "list_all (plays p g) xs" and "0 < cap" "cap < 2 ^ 64"
  shows "(\<forall>t < length (threads c). \<forall>op n cv.
      threads c ! t = Waiting op n \<longrightarrow> waits_for op = Some cv \<longrightarrow> ready op n (shared c) \<longrightarrow>
      (\<exists>u < length (threads c). notifying_for cv (threads c ! u))) \<and>
    (\<forall>t u. t < length (threads c) \<longrightarrow> u < length (threads c) \<longrightarrow>
      waiting_on Has_room (threads c ! t) \<longrightarrow> waiting_on Has_items (threads c ! u) \<longrightarrow>
      (\<exists>v cv. v < length (threads c) \<and> notifying_for cv (threads c ! v)))"
  using spsc_wakeup [OF reached_spsc [OF assms(1,2,4)]]
    spsc_not_both_asleep [OF reached_spsc [OF assms(1,2,4)] assms(3,4)]
  by blast

theorem rwqueue_no_lost_wakeup_witness:
  "let c = \<lparr>shared = \<lparr>queue = [7 :: nat], capacity = 1, is_running = True\<rparr>,
       threads = [Waiting Do_Dequeue 1, Notifying [Notify_one Has_items] (Finished (Truth True))]\<rparr>
   in \<exists>u < length (threads c). notifying_for Has_items (threads c ! u)"
proof -
  have run: "interleave [Begin 0 Do_Dequeue, Advance 0, Begin 1 (Do_Enqueue (7 :: nat)), Advance 1]
      (start_config 1 2) =
    Some ([(0, Silent), (0, Silent), (1, Silent), (1, Put [7])],
      \<lparr>shared = \<lparr>queue = [7], capacity = 1, is_running = True\<rparr>,
       threads = [Waiting Do_Dequeue 1, Notifying [Notify_one Has_items] (Finished (Truth True))]\<rparr>)"
    by (simp add: start_config_def RWQueue_def rwq_defs wait_defs locked_def numeral_2_eq_2)
  show ?thesis
    using conjunct1 [OF rwqueue_no_lost_wakeup [OF run, of 1 0], rule_format, of 0 Do_Dequeue 1 Has_items]
    by (simp add: role_def Dequeue_wait_def Let_def)
qed

end
