(* ===== verification/Rwqueue_Correct.thy ===== *)
theory Rwqueue_Correct
  imports Rwqueue_Wakeup
begin

text \<open>
  The remaining promises of \<open>RWQueue\<close>: \<open>Stop\<close> wakes every waiter and lets consumers drain what is
  queued, the bulk methods report exactly what they moved, the bound on the number of queued
  items, and the two situations in which a waiter is forgotten.
\<close>

section \<open>Stopping\<close>

definition stop_wakes :: "'a config \<Rightarrow> bool" where
  "stop_wakes c \<longleftrightarrow> threads_ok c \<and>
     (\<not> is_running (shared c) \<longrightarrow>
       (\<forall>t < length (threads c). \<forall>cv. waiting_on cv (threads c ! t) \<longrightarrow>
          (\<exists>u < length (threads c). broadcasting cv (threads c ! u))))"

lemma critical_stops:
  assumes "critical op n q = Some (q', e, p)" "is_running q" "\<not> is_running q'"
  shows "broadcasting cv p"
  using assms by (cases op; cases cv) (auto simp: rwq_defs split: if_splits list.splits)

lemma stopped_ready: "\<not> is_running q \<Longrightarrow> ready op n q"
  by (cases op) (auto simp: wait_defs)

lemma waiting_blocked: "waiting_on cv p \<Longrightarrow> blocked p"
  by (auto simp: blocked_def dest: waiting_onD)

lemma locked_stop_wakes:
  assumes inv: "stop_wakes c" and t: "t < length (threads c)"
    and at: "threads c ! t = Enter op \<and> n = num_items op (shared c) \<or> threads c ! t = Woken op n"
    and step: "locked t op n c = Some (e, c')" and ok': "threads_ok c'"
  shows "stop_wakes c'"
proof (cases "is_running (shared c')")
  case False
  have quiet: "\<not> broadcasting cv (threads c ! t)" for cv
    using at by auto
  from step show ?thesis
  proof (cases rule: locked_cases)
    case (1 q p)
    have p: "\<not> waiting_on cv p" for cv
      using 1 at t inv critical_defined [of op n "shared c"] waiting_blocked [of cv p]
      by (auto simp: stop_wakes_def threads_ok_def chunk_ok_def dest!: spec [of _ t])
    have "\<exists>v < length (threads c'). broadcasting cv (threads c' ! v)"
      if u: "u < length (threads c')" "waiting_on cv (threads c' ! u)" for u cv
    proof (cases "is_running (shared c)")
      case True
      then have "broadcasting cv p"
        using critical_stops [OF 1(2)] 1 False by simp
      then show ?thesis
        using 1 t by (auto intro!: exI [of _ t])
    next
      case stopped: False
      have "u < length (threads c)" "waiting_on cv (threads c ! u)"
        using u 1 p t by (auto simp: nth_list_update split: if_splits)
      then obtain v where "v < length (threads c)" "broadcasting cv (threads c ! v)"
        using inv stopped unfolding stop_wakes_def by blast
      moreover from this have "v \<noteq> t"
        using quiet by auto
      ultimately show ?thesis
        using 1 by (auto intro!: exI [of _ v])
    qed
    then show ?thesis
      using ok' unfolding stop_wakes_def by blast
  next
    case 2
    then show ?thesis
      using False stopped_ready [of "shared c" op n] by simp
  qed
qed (use ok' in \<open>simp add: stop_wakes_def\<close>)

lemma deliver_all_wakes:
  assumes "deliver (Notify_all cv) w ts = Some ts'" "t < length ts'"
  shows "\<not> waiting_on cv (ts' ! t)"
  using assms by (cases "ts ! t") (auto split: if_splits)

lemma signal_stop_wakes:
  assumes inv: "stop_wakes c" and t: "t < length (threads c)" "threads c ! t = Notifying (y # ys) k"
    and ts: "deliver y w (threads c) = Some ts"
    and c': "c' = c\<lparr>threads := ts[t := after_unlock ys k]\<rparr>" "threads_ok c'"
  shows "stop_wakes c'"
proof (cases "is_running (shared c)")
  case False
  have len: "length ts = length (threads c)"
    using deliver_nth(1) [OF ts] .
  have k: "\<not> waiting_on cv (after_unlock ys k)" for cv
    using inv t waiting_blocked [of cv k]
    by (auto simp: stop_wakes_def threads_ok_def after_unlock_def dest!: spec [of _ t])
  have "\<exists>v < length (threads c'). broadcasting cv (threads c' ! v)"
    if u: "u < length (threads c')" "waiting_on cv (threads c' ! u)" for u cv
  proof -
    have u': "u < length (threads c)" "waiting_on cv (ts ! u)"
      using u k t len c' by (auto simp: nth_list_update split: if_splits)
    then have "waiting_on cv (threads c ! u)"
      using waiting_onD [OF u'(2)] deliver_still_waiting [OF ts u'(1)] by auto
    then obtain v where v: "v < length (threads c)" "broadcasting cv (threads c ! v)"
      using inv False u' unfolding stop_wakes_def by blast
    have "y \<noteq> Notify_all cv"
      using deliver_all_wakes [of cv w "threads c" ts u] ts u' len by auto
    then have "broadcasting cv (threads c' ! v)"
      using v t len c' deliver_keeps_notices(2) [OF ts, of v cv]
      by (cases "v = t") (auto simp: nth_list_update after_unlock_def)
    then show ?thesis
      using v len c' by auto
  qed
  then show ?thesis
    using c' unfolding stop_wakes_def by simp
qed (use c' in \<open>simp add: stop_wakes_def\<close>)

lemma act_stop_wakes:
  assumes inv: "stop_wakes c" and step: "act x c = Some (e, c')"
  shows "stop_wakes c'"
proof -
  have ok': "threads_ok c'"
    using inv act_threads_ok [OF _ step] by (simp add: stop_wakes_def)
  from step show ?thesis
  proof (cases rule: act_cases)
    case (called t op q)
    have "\<not> waiting_on cv q" for cv
      using called(4) by (cases op) (auto simp: rwq_defs split: if_splits)
    moreover have "\<not> broadcasting cv (threads c ! t)" for cv
      using called(3) by (cases "threads c ! t") auto
    ultimately show ?thesis
      using called inv ok' unfolding stop_wakes_def
      by (simp add: nth_list_update) metis
  next
    case (locks t op)
    then show ?thesis
      using locked_stop_wakes [OF inv, of t op "num_items op (shared c)"] ok' by auto
  next
    case (relocks t op n)
    then show ?thesis
      using locked_stop_wakes [OF inv, of t op n] ok' by auto
  next
    case (signals t w y ys k ts)
    then show ?thesis
      using signal_stop_wakes [OF inv] ok' by auto
  next
    case (spurious t op n)
    then show ?thesis
      using inv ok' unfolding stop_wakes_def
      by (simp add: nth_list_update) (metis broadcasting.simps(4))
  qed
qed

interpretation stopping: interleaving_invariant "\<lambda>_. True" stop_wakes
  by unfold_locales (rule act_stop_wakes)

lemma reached_stop_wakes:
  assumes "interleave xs (start_config cap k) = Some (es, c)"
  shows "stop_wakes c"
proof (rule stopping.interleave_inv [of "start_config cap k" xs es])
  show "stop_wakes (start_config cap k)"
    using threads_ok_start [of cap k] unfolding stop_wakes_def
    by (simp add: start_config_def RWQueue_def Resize_def)
qed (use assms in \<open>simp_all add: list.pred_True\<close>)

definition no_broadcast :: "'a pc \<Rightarrow> bool" where
  "no_broadcast p \<longleftrightarrow> (\<forall>cv. \<not> broadcasting cv p)"

text \<open>C36. \<open>Stop\<close> wakes everybody: whatever the threads call and however many of them there are, once
  the queue is stopped and the notifications of \<open>Stop\<close> are out, no thread is left in a wait set,
  and no thread blocks again as long as it stays stopped.
\<close>

theorem rwqueue_stop_wakes_all:
  assumes "interleave xs (start_config cap k) = Some (es, c)"
    and "\<not> is_running (shared c)"
    and "\<forall>t < length (threads c). no_broadcast (threads c ! t)"
    and "t < length (threads c)"
  shows "\<not> blocked (threads c ! t) \<and> ready op n (shared c)"
proof -
  have inv: "stop_wakes c"
    using assms(1) by (rule reached_stop_wakes)
  have "\<not> blocked (threads c ! t)"
  proof
    assume "blocked (threads c ! t)"
    then obtain op n where w: "threads c ! t = Waiting op n"
      by (auto simp: blocked_def)
    then obtain cv where "waits_for op = Some cv"
      using inv assms(4) by (auto simp: stop_wakes_def threads_ok_def dest!: spec [of _ t])
    then have "waiting_on cv (threads c ! t)"
      using w by simp
    then show False
      using inv assms(2-4) unfolding stop_wakes_def no_broadcast_def by blast
  qed
  then show ?thesis
    using stopped_ready [OF assms(2)] by simp
qed

theorem rwqueue_stop_wakes_all_witness:
  "\<not> blocked (Woken Do_Dequeue 1 :: nat pc)"
proof -
  have run: "interleave [Begin 0 Do_Dequeue, Advance 0, Begin 1 Do_Stop, Advance 1,
        Signal 1 None, Signal 1 None] (start_config 1 2) =
    Some ([(0, Silent), (0, Silent), (1, Silent), (1, Silent), (1, Silent), (1, Silent)],
      \<lparr>shared = \<lparr>queue = [] :: nat list, capacity = 1, is_running = False\<rparr>,
       threads = [Woken Do_Dequeue 1, Finished Done]\<rparr>)"
    by (simp add: start_config_def RWQueue_def rwq_defs wait_defs locked_def numeral_2_eq_2)
  show ?thesis
    using rwqueue_stop_wakes_all [OF run, of 0] by (simp add: no_broadcast_def less_Suc_eq)
qed

section \<open>What the bulk methods report\<close>

text \<open>
  A record of what a thread has moved since it entered a method, kept by every step of the method.
\<close>

definition moved_by ::
    "('a transfer \<Rightarrow> 'a list) \<Rightarrow> nat \<Rightarrow> (nat \<times> 'a transfer) list \<Rightarrow> 'a list" where
  "moved_by f t es = concat (map (\<lambda>(u, e). if u = t then f e else []) es)"

locale bulk_account =
  fixes moved :: "'a transfer \<Rightarrow> 'a list" and sofar :: "'a list \<Rightarrow> 'a pc \<Rightarrow> bool"
  assumes enter: "sofar xs (Enter op) \<Longrightarrow> critical op (num_items op q) q = Some (q', e, p) \<Longrightarrow>
      ready op (num_items op q) q \<Longrightarrow> sofar (xs @ moved e) p"
    and relock: "sofar xs (Woken op n) \<Longrightarrow> critical op n q = Some (q', e, p) \<Longrightarrow>
      ready op n q \<Longrightarrow> sofar (xs @ moved e) p"
    and block: "sofar xs (Enter op) \<Longrightarrow> \<not> ready op (num_items op q) q \<Longrightarrow>
      sofar xs (Waiting op (num_items op q))"
    and again: "sofar xs (Woken op n) = sofar xs (Waiting op n)"
    and notify: "sofar xs (Notifying (y # ys) k) \<Longrightarrow> sofar xs (after_unlock ys k)"
    and silent: "moved Silent = []"
begin

lemma locked_account:
  assumes "locked u op n c = Some (e, c')" "t < length (threads c)" "u < length (threads c)"
    and at: "threads c ! u = Enter op \<and> n = num_items op (shared c) \<or> threads c ! u = Woken op n"
    and "sofar xs (threads c ! t)"
  shows "sofar (xs @ (if u = t then moved e else [])) (threads c' ! t)"
  using assms(1)
proof (cases rule: locked_cases)
  case (1 q p)
  then show ?thesis
    using assms enter [of xs op "shared c" q e p] relock [of xs op n "shared c" q e p]
    by (auto simp: nth_list_update)
next
  case 2
  then show ?thesis
    using assms block [of xs op "shared c"] again [of xs op n] silent
    by (auto simp: nth_list_update)
qed

lemma act_account:
  assumes step: "act x c = Some (e, c')" and t: "t < length (threads c)"
    and inside: "\<nexists>op. x = Begin t op" and so: "sofar xs (threads c ! t)"
  shows "sofar (xs @ (if acting x = t then moved e else [])) (threads c' ! t) \<and>
    length (threads c') = length (threads c)"
  using step
proof (cases rule: act_cases)
  case (called u op p)
  then show ?thesis
    using inside so by (auto simp: nth_list_update)
next
  case (locks u op)
  then show ?thesis
    using locked_account [OF locks(4) t locks(2) _ so] by (auto elim!: locked_cases)
next
  case (relocks u op n)
  then show ?thesis
    using locked_account [OF relocks(4) t relocks(2) _ so] by (auto elim!: locked_cases)
next
  case (signals u w y ys k ts)
  have len: "length ts = length (threads c)"
    using deliver_nth(1) [OF signals(4)] .
  have "sofar xs (ts ! t)"
    using deliver_nth(2) [OF signals(4) t] so again by (cases "threads c ! t") auto
  then show ?thesis
    using signals so silent len t notify [of xs y ys k] by (auto simp: nth_list_update)
next
  case (spurious u op n)
  then show ?thesis
    using so silent again by (auto simp: nth_list_update)
qed

lemma interleave_account:
  assumes "interleave cs c = Some (es, c')" "t < length (threads c)"
    and "list_all (\<lambda>x. \<nexists>op. x = Begin t op) cs" and "sofar xs (threads c ! t)"
  shows "sofar (xs @ moved_by moved t es) (threads c' ! t)"
  using assms
proof (induction cs arbitrary: c xs es)
  case (Cons x cs)
  then obtain e c1 es1 where s: "act x c = Some (e, c1)" "interleave cs c1 = Some (es1, c')"
    "es = (acting x, e) # es1"
    by (auto split: option.splits)
  then show ?case
    using act_account [OF s(1), of t xs] Cons.prems Cons.IH [OF s(2)]
    by (fastforce simp: moved_by_def)
qed (simp add: moved_by_def)

end

text \<open>Where a thread is in a call of \<open>BulkEnqueue\<close> on \<open>source\<close> that has sent \<open>xs\<close>.\<close>

fun sent_op :: "'a list \<Rightarrow> nat \<Rightarrow> 'a list \<Rightarrow> 'a op \<Rightarrow> bool" where
  "sent_op source req xs (Do_BulkEnqueue rest req' rem) \<longleftrightarrow>
     req' = req \<and> source = xs @ rest \<and> req = length xs + rem \<and> 0 < rem \<and> rem \<le> length rest"
| "sent_op source req xs _ \<longleftrightarrow> False"

fun sent :: "'a list \<Rightarrow> nat \<Rightarrow> 'a list \<Rightarrow> 'a pc \<Rightarrow> bool" where
  "sent source req xs (Enter op) \<longleftrightarrow> sent_op source req xs op"
| "sent source req xs (Waiting op n) \<longleftrightarrow> sent_op source req xs op \<and> n = 1"
| "sent source req xs (Woken op n) \<longleftrightarrow> sent_op source req xs op \<and> n = 1"
| "sent source req xs (Notifying ns k) \<longleftrightarrow> sent source req xs k"
| "sent source req xs (Finished a) \<longleftrightarrow>
     a = Sent (length xs) [] \<and> xs = take (length xs) source \<and> length xs \<le> req"
| "sent source req xs Idle \<longleftrightarrow> False"

fun received_op :: "nat \<Rightarrow> 'a list \<Rightarrow> 'a op \<Rightarrow> bool" where
  "received_op req xs (Do_BulkDequeue target req' rem) \<longleftrightarrow>
     req' = req \<and> target = xs \<and> req = length xs + rem \<and> 0 < rem"
| "received_op req xs _ \<longleftrightarrow> False"

fun received :: "nat \<Rightarrow> 'a list \<Rightarrow> 'a pc \<Rightarrow> bool" where
  "received req xs (Enter op) \<longleftrightarrow> received_op req xs op"
| "received req xs (Waiting op n) \<longleftrightarrow> received_op req xs op \<and> n = 1"
| "received req xs (Woken op n) \<longleftrightarrow> received_op req xs op \<and> n = 1"
| "received req xs (Notifying ns k) \<longleftrightarrow> received req xs k"
| "received req xs (Finished a) \<longleftrightarrow> a = Received (length xs) xs \<and> length xs \<le> req"
| "received req xs Idle \<longleftrightarrow> False"

lemma sent_commit:
  assumes "sent_op source req xs op" "chunk_ok op n q" "critical op n q = Some (q', e, p)"
  shows "sent source req (xs @ put_items e) p"
proof -
  obtain rest rem where op: "op = Do_BulkEnqueue rest req rem"
    using assms(1) by (cases op) auto
  have n: "1 \<le> n \<and> n \<le> rem \<and> n \<le> length rest"
    using BulkEnqueue_chunk_size assms(2) op by blast
  show ?thesis
    using assms(1,3) n unfolding op
    by (cases "is_running q") (auto simp: rwq_defs split: if_splits)
qed

lemma received_commit:
  assumes "received_op req xs op" "chunk_ok op n q" "critical op n q = Some (q', e, p)"
  shows "received req (xs @ got_items e) p"
proof -
  obtain rem where op: "op = Do_BulkDequeue xs req rem"
    using assms(1) by (cases op) auto
  have n: "is_running q \<or> queue q \<noteq> [] \<Longrightarrow> 1 \<le> n \<and> n \<le> rem \<and> n \<le> length (queue q)"
    using BulkDequeue_chunk_size assms(2) op by blast
  show ?thesis
    using assms(1,3) n unfolding op
    by (cases "is_running q \<or> queue q \<noteq> []") (auto simp: rwq_defs split: if_splits)
qed

lemma sent_op_ok: "sent_op source req xs op \<Longrightarrow> op_ok op \<and> items_ok op 1"
  by (cases op) auto

lemma received_op_ok: "received_op req xs op \<Longrightarrow> op_ok op \<and> items_ok op 1"
  by (cases op) auto

lemma blocked_one:
  assumes "\<not> ready op (num_items op q) q" "op_ok op"
  shows "num_items op q = 1"
  using blocked_items_ok [OF assms(2,1)] by (cases op) auto

interpretation sender: bulk_account put_items "sent source req" for source req
proof unfold_locales
  fix xs :: "'a list" and op q q' e p
  assume "sent source req xs (Enter op)" "critical op (num_items op q) q = Some (q', e, p)"
    "ready op (num_items op q) q"
  then show "sent source req (xs @ put_items e) p"
    using sent_commit [of source req xs op "num_items op q" q q' e p] sent_op_ok [of source req xs op]
    by (auto intro: chunk_okI)
next
  fix xs :: "'a list" and op n q q' e p
  assume "sent source req xs (Woken op n)" "critical op n q = Some (q', e, p)" "ready op n q"
  then show "sent source req (xs @ put_items e) p"
    using sent_commit [of source req xs op n q q' e p] sent_op_ok [of source req xs op] by (auto intro: chunk_okI)
next
  fix xs :: "'a list" and op and q :: "'a rwqueue"
  assume "sent source req xs (Enter op)" "\<not> ready op (num_items op q) q"
  then show "sent source req xs (Waiting op (num_items op q))"
    using blocked_one [of op q] sent_op_ok [of source req xs op] by auto
qed (auto simp: after_unlock_def)

interpretation receiver: bulk_account got_items "received req" for req
proof unfold_locales
  fix xs :: "'a list" and op q q' e p
  assume "received req xs (Enter op)" "critical op (num_items op q) q = Some (q', e, p)"
    "ready op (num_items op q) q"
  then show "received req (xs @ got_items e) p"
    using received_commit [of req xs op "num_items op q" q q' e p] received_op_ok [of req xs op]
    by (auto intro: chunk_okI)
next
  fix xs :: "'a list" and op n q q' e p
  assume "received req xs (Woken op n)" "critical op n q = Some (q', e, p)" "ready op n q"
  then show "received req (xs @ got_items e) p"
    using received_commit [of req xs op n q q' e p] received_op_ok [of req xs op]
    by (auto intro: chunk_okI)
next
  fix xs :: "'a list" and op and q :: "'a rwqueue"
  assume "received req xs (Enter op)" "\<not> ready op (num_items op q) q"
  then show "received req xs (Waiting op (num_items op q))"
    using blocked_one [of op q] received_op_ok [of req xs op] by auto
qed (auto simp: after_unlock_def)

text \<open>The bulk methods report exactly what they moved, however other threads interleave with them:
  when a call of \<open>BulkEnqueue\<close> returns \<open>m\<close>, the items this thread put into the queue are the first
  \<open>m\<close> of its source, in order (and the source is empty, so the rest is gone); when a call of
  \<open>BulkDequeue\<close> returns, its target holds exactly the items this thread took, in order, and the
  count is their number.
\<close>

theorem rwqueue_bulk_reports:
  assumes "interleave cs c = Some (es, c')" "t < length (threads c)"
    and "list_all (\<lambda>x. \<nexists>op. x = Begin t op) cs" and "threads c' ! t = Finished a"
  shows "(threads c ! t = Enter (Do_BulkEnqueue source req req) \<longrightarrow> 1 \<le> req \<longrightarrow>
      req \<le> length source \<longrightarrow>
      (\<exists>m \<le> req. a = Sent m [] \<and> moved_by put_items t es = take m source)) \<and>
    (threads c ! t = Enter (Do_BulkDequeue [] req req) \<longrightarrow> 1 \<le> req \<longrightarrow>
      (\<exists>m \<le> req. a = Received m (moved_by got_items t es) \<and>
         length (moved_by got_items t es) = m))"
proof (intro conjI impI)
  assume "threads c ! t = Enter (Do_BulkEnqueue source req req)" "1 \<le> req" "req \<le> length source"
  then have "sent source req [] (threads c ! t)"
    by simp
  from sender.interleave_account [OF assms(1-3) this]
  show "\<exists>m \<le> req. a = Sent m [] \<and> moved_by put_items t es = take m source"
    using assms(4) by auto
next
  assume "threads c ! t = Enter (Do_BulkDequeue [] req req)" "1 \<le> req"
  then have "received req [] (threads c ! t)"
    by simp
  from receiver.interleave_account [OF assms(1-3) this]
  show "\<exists>m \<le> req. a = Received m (moved_by got_items t es) \<and>
      length (moved_by got_items t es) = m"
    using assms(4) by auto
qed

theorem rwqueue_bulk_reports_witness:
  "\<exists>m \<le> 2. Received 1 [7 :: nat] = Received m [7] \<and> length [7 :: nat] = m"
proof -
  let ?q = "\<lparr>queue = [7], capacity = 4, is_running = False\<rparr> :: nat rwqueue"
  have run: "interleave [Advance 0, Signal 0 None, Advance 0]
      \<lparr>shared = ?q, threads = [Enter (Do_BulkDequeue [] 2 2)]\<rparr> =
    Some ([(0, Get [7]), (0, Silent), (0, Silent)],
      \<lparr>shared = ?q\<lparr>queue := []\<rparr>, threads = [Finished (Received 1 [7])]\<rparr>)"
    by (simp add: rwq_defs wait_defs locked_def)
  show ?thesis
    using rwqueue_bulk_reports [OF run, of 0 "Received 1 [7]" "[]" 2]
    by (simp add: moved_by_def)
qed

section \<open>Capacity and draining\<close>

text \<open>Without \<open>Resize\<close> the queue never holds more than its capacity, whichever mixture of the
  blocking, non-blocking and bulk methods the threads call.
\<close>

theorem rwqueue_capacity:
  assumes "interleave xs (start_config cap k) = Some (es, c)"
    and "list_all (\<lambda>x. \<not> begins_resize x) xs" and "cap < 2 ^ 64"
  shows "capacity (shared c) = cap \<and> length (queue (shared c)) \<le> cap"
  using reached_within [OF assms] by (simp add: within_def)

theorem rwqueue_capacity_witness:
  "capacity \<lparr>queue = [7 :: nat, 8], capacity = 2, is_running = True\<rparr> = 2 \<and> length [7 :: nat, 8] \<le> 2"
proof -
  have run: "interleave [Begin 0 (Do_NonblockingBulkEnqueue [7 :: nat, 8, 9] 3), Advance 0]
      (start_config 2 1) =
    Some ([(0, Silent), (0, Put [7, 8])],
      \<lparr>shared = \<lparr>queue = [7, 8], capacity = 2, is_running = True\<rparr>,
       threads = [Notifying [Notify_one Has_items] (Finished (Sent 2 [9]))]\<rparr>)"
    by (simp add: start_config_def RWQueue_def rwq_defs wait_defs size_sub_def locked_def)
  show ?thesis
    using rwqueue_capacity [OF run] by simp
qed

text \<open>
  A \<open>Resize\<close> below the number of queued items makes \<open>capacity - queue.size()\<close> wrap around, and
  \<open>BulkEnqueue\<close> then takes the queue to have room for everything.
\<close>

theorem bulk_enqueue_after_shrink:
  assumes "capacity q < length (queue q)" "length (queue q) < 2 ^ 63" "0 < rem" "rem \<le> 2 ^ 63"
  shows "BulkEnqueue_items rem q = rem \<and> BulkEnqueue_wait (BulkEnqueue_items rem q) q"
proof -
  have "size_sub (capacity q) (length (queue q)) = 2 ^ 64 - (length (queue q) - capacity q)"
    using assms by (intro size_sub_wraps) auto
  then have "rem \<le> size_sub (capacity q) (length (queue q))"
    using assms by simp
  then show ?thesis
    using assms by (auto simp: wait_defs)
qed

text \<open>After \<open>Stop\<close> a \<open>BulkDequeue\<close> still returns what is queued: run alone on a stopped queue it
  comes back with the first \<open>req\<close> items, or with all of them if there are fewer, without blocking.
\<close>

theorem rwqueue_stopped_drains:
  assumes "\<not> is_running q" "0 < req"
  shows "\<exists>cs es c'. list_all (\<lambda>x. acting x = 0) cs \<and>
    interleave cs \<lparr>shared = q, threads = [Idle]\<rparr> = Some (es, c') \<and>
    threads c' = [Finished (Received (min (length (queue q)) req) (take req (queue q)))] \<and>
    queue (shared c') = drop req (queue q)"
proof -
  let ?c = "\<lparr>shared = q, threads = [Idle]\<rparr>" and ?b = "Begin 0 (Do_BulkDequeue [] req req)"
  consider "queue q = []" | "queue q \<noteq> []" "length (queue q) < req" | "req \<le> length (queue q)"
    by linarith
  then show ?thesis
  proof cases
    case 1
    then show ?thesis
      using assms by (intro exI [of _ "[?b, Advance 0]"])
        (simp add: locked_def rwq_defs wait_defs)
  next
    case 2
    then show ?thesis
      using assms by (intro exI [of _ "[?b, Advance 0, Signal 0 None, Advance 0]"])
        (simp add: locked_def rwq_defs wait_defs)
  next
    case 3
    then show ?thesis
      using assms by (intro exI [of _ "[?b, Advance 0, Signal 0 None]"])
        (auto simp: locked_def rwq_defs wait_defs)
  qed
qed

theorem rwqueue_stopped_drains_witness:
  "\<exists>cs es c'. list_all (\<lambda>x. acting x = 0) cs \<and>
    interleave cs \<lparr>shared = \<lparr>queue = [7, 8 :: nat], capacity = 2, is_running = False\<rparr>,
      threads = [Idle]\<rparr> = Some (es, c') \<and>
    threads c' = [Finished (Received 2 [7, 8])] \<and> queue (shared c') = []"
  using rwqueue_stopped_drains [of "\<lparr>queue = [7, 8 :: nat], capacity = 2, is_running = False\<rparr>" 3]
  by (simp add: numeral_2_eq_2)

section \<open>Forgotten waiters\<close>

definition asleep :: "'a config \<Rightarrow> nat \<Rightarrow> bool" where
  "asleep c t \<longleftrightarrow> (case threads c ! t of Waiting op n \<Rightarrow> ready op n (shared c) | _ \<Rightarrow> False) \<and>
     list_all (\<lambda>p. between_calls p \<or> blocked p) (threads c)"

text \<open>Threads \<open>0\<close> to \<open>j - 1\<close> call a method that has to wait, one after the other.\<close>

definition park :: "(nat \<Rightarrow> 'a op) \<Rightarrow> nat \<Rightarrow> 'a choice list" where
  "park op j = concat (map (\<lambda>t. [Begin t (op t), Advance t]) [0 ..< j])"

lemma interleave_append:
  "interleave xs c = Some (es, c') \<Longrightarrow> interleave ys c' = Some (fs, c'') \<Longrightarrow> interleave (xs @ ys) c = Some (es @ fs, c'')"
  by (induction xs arbitrary: c es) (auto split: option.splits)

lemma park_waits:
  assumes "\<And>t. t < j \<Longrightarrow> method_entry (op t) = Some (Enter (op t)) \<and> num_items (op t) q = 1 \<and> \<not> ready (op t) 1 q"
    and "j \<le> length ts" "\<And>t. t < j \<Longrightarrow> between_calls (ts ! t)"
  shows "\<exists>es. interleave (park op j) \<lparr>shared = q, threads = ts\<rparr> =
    Some (es, \<lparr>shared = q, threads = map (\<lambda>t. Waiting (op t) 1) [0 ..< j] @ drop j ts\<rparr>)"
  using assms
proof (induction j)
  case (Suc j)
  obtain es where es: "interleave (park op j) \<lparr>shared = q, threads = ts\<rparr> =
      Some (es, \<lparr>shared = q, threads = map (\<lambda>t. Waiting (op t) 1) [0 ..< j] @ drop j ts\<rparr>)"
    using Suc by auto
  have d: "drop j ts = ts ! j # drop (Suc j) ts"
    using Suc.prems(2) by (simp add: Cons_nth_drop_Suc)
  have "park op (Suc j) = park op j @ [Begin j (op j), Advance j]"
    by (simp add: park_def)
  moreover have "interleave [Begin j (op j), Advance j] \<lparr>shared = q, threads = map (\<lambda>t. Waiting (op t) 1) [0 ..< j] @ drop j ts\<rparr> =
      Some ([(j, Silent), (j, Silent)], \<lparr>shared = q, threads = map (\<lambda>t. Waiting (op t) 1) [0 ..< Suc j] @ drop (Suc j) ts\<rparr>)"
    using Suc.prems(1) [of j] Suc.prems(3) [of j] by (simp add: d nth_append list_update_append locked_def)
  ultimately show ?case
    using interleave_append [OF es] by metis
qed (simp add: park_def)

lemma empty_start: "start_config cap (Suc k) = \<lparr>shared = RWQueue cap, threads = replicate k Idle @ [Idle]\<rparr>"
  by (simp add: start_config_def replicate_append_same)

lemma consumers_parked:
  "\<exists>es. interleave (park (\<lambda>_. Do_Dequeue) k) (start_config cap (Suc k)) =
     Some (es, \<lparr>shared = RWQueue cap, threads = replicate k (Waiting Do_Dequeue 1) @ [Idle]\<rparr>)"
proof -
  have "\<not> ready Do_Dequeue 1 (RWQueue cap)"
    by (simp add: RWQueue_def Resize_def Dequeue_wait_def)
  then show ?thesis
    using park_waits [of k "\<lambda>_. Do_Dequeue" "RWQueue cap" "replicate k Idle @ [Idle]"]
    by (simp add: empty_start nth_append map_replicate_const)
qed

text \<open>A chunk for \<open>k\<close> waiting consumers: the one that is woken takes an item, the others sleep on.\<close>

lemma one_consumer_woken:
  assumes xs: "2 \<le> length xs" "length xs \<le> cap" "cap < 2 ^ 64" and w: "w < k"
  defines "ts \<equiv> (replicate k (Waiting Do_Dequeue 1))[w := Finished (Item (Some (hd xs)))] @ [Finished (Sent (length xs) [])]"
  shows "\<exists>es. interleave [Begin k (Do_BulkEnqueue xs (length xs) (length xs)), Advance k, Signal k (Some w), Advance w, Signal w None]
      \<lparr>shared = RWQueue cap, threads = replicate k (Waiting Do_Dequeue 1) @ [Idle]\<rparr> =
    Some (es, \<lparr>shared = (RWQueue cap)\<lparr>queue := tl xs\<rparr>, threads = ts\<rparr>)"
proof -
  obtain y ys where y: "xs = y # ys"
    using xs(1) by (cases xs) auto
  have n: "BulkEnqueue_items (length xs) (RWQueue cap) = length xs" "BulkEnqueue_wait (length xs) (RWQueue cap)"
    using xs by (auto simp: wait_defs RWQueue_def Resize_def size_sub_exact)
  have none: "list_all (\<lambda>p. \<not> waiting_on Has_room p) ((replicate k (Waiting Do_Dequeue 1))[w := p])"
    if "\<not> waiting_on Has_room p" for p :: "'a pc"
    using that w by (auto simp: list_all_length nth_list_update)
  show ?thesis
    using n xs(1) w none y
    by (simp add: locked_def nth_append list_update_append RWQueue_def rwq_defs wait_defs ts_def)
qed

text \<open>A full queue for \<open>k\<close> producers that wait: the new capacity reaches none of them.\<close>

lemma producers_parked:
  fixes xs :: "'a list"
  assumes xs: "xs \<noteq> []" "length xs < 2 ^ 64"
  defines "q \<equiv> (RWQueue (length xs))\<lparr>queue := xs\<rparr>"
  shows "\<exists>es. interleave ([Begin k (Do_BulkEnqueue xs (length xs) (length xs)), Advance k, Signal k None] @
        park (\<lambda>t. Do_Enqueue (y t)) k) (start_config (length xs) (Suc k)) =
    Some (es, \<lparr>shared = q, threads = map (\<lambda>t. Waiting (Do_Enqueue (y t)) 1) [0 ..< k] @ [Finished (Sent (length xs) [])]\<rparr>)"
proof -
  let ?q0 = "RWQueue (length xs) :: 'a rwqueue"
  have n: "BulkEnqueue_items (length xs) ?q0 = length xs" "BulkEnqueue_wait (length xs) ?q0"
    using xs by (auto simp: wait_defs RWQueue_def Resize_def size_sub_exact Suc_leI)
  have "interleave [Begin k (Do_BulkEnqueue xs (length xs) (length xs)), Advance k, Signal k None] (start_config (length xs) (Suc k)) =
      Some ([(k, Silent), (k, Put xs), (k, Silent)], \<lparr>shared = q, threads = replicate k Idle @ [Finished (Sent (length xs) [])]\<rparr>)"
    using n xs(1) by (simp add: empty_start locked_def nth_append list_update_append RWQueue_def rwq_defs q_def Suc_leI list_all_iff)
  moreover have "\<not> ready (Do_Enqueue (y t)) 1 q" for t
    by (simp add: q_def RWQueue_def Resize_def Enqueue_wait_def)
  then have "\<exists>es. interleave (park (\<lambda>t. Do_Enqueue (y t)) k) \<lparr>shared = q, threads = replicate k Idle @ [Finished (Sent (length xs) [])]\<rparr> =
      Some (es, \<lparr>shared = q, threads = map (\<lambda>t. Waiting (Do_Enqueue (y t)) 1) [0 ..< k] @ [Finished (Sent (length xs) [])]\<rparr>)"
    using park_waits [of k "\<lambda>t. Do_Enqueue (y t)" q "replicate k Idle @ [Finished (Sent (length xs) [])]"]
    by (simp add: nth_append)
  ultimately show ?thesis
    using interleave_append by blast
qed

text \<open>C37. Two ways to leave threads asleep although their waits are over and no notification is on its
  way, with any numbers of threads and items and any capacities.  \<open>BulkEnqueue\<close> sends one \<open>notify_one\<close> for a whole chunk, so of \<open>k\<close> consumers that wait, a chunk
  of two or more items wakes one, which takes one item: all others sleep on before the remaining items.  And \<open>Resize\<close> notifies nobody, so when \<open>k\<close> producers wait
  for room in a full queue and the capacity grows, all of them sleep on.
\<close>

theorem rwqueue_forgotten_waiters:
  fixes xs :: "'a list"
  assumes "2 \<le> length xs" "length xs \<le> cap" "cap < 2 ^ 64" "w < k" "length xs < cap'"
  shows "(\<exists>es c. interleave (park (\<lambda>_. Do_Dequeue) k @
        [Begin k (Do_BulkEnqueue xs (length xs) (length xs)), Advance k, Signal k (Some w), Advance w, Signal w None])
        (start_config cap (Suc k)) = Some (es, c) \<and> queue (shared c) = tl xs \<and> (\<forall>t < k. t \<noteq> w \<longrightarrow> asleep c t)) \<and>
    (\<exists>es c. interleave (([Begin k (Do_BulkEnqueue xs (length xs) (length xs)), Advance k, Signal k None] @
        park (\<lambda>t. Do_Enqueue (y t)) k) @ [Begin k (Do_Resize cap'), Advance k])
        (start_config (length xs) (Suc k)) = Some (es, c) \<and>
      queue (shared c) = xs \<and> capacity (shared c) = cap' \<and> (\<forall>t < k. asleep c t))"
proof
  let ?ts = "(replicate k (Waiting Do_Dequeue 1))[w := Finished (Item (Some (hd xs)))] @ [Finished (Sent (length xs) [])]"
  let ?c = "\<lparr>shared = (RWQueue cap)\<lparr>queue := tl xs\<rparr>, threads = ?ts\<rparr>"
  have "tl xs \<noteq> []"
    using assms(1) by (cases xs) auto
  then have "asleep ?c t" if "t < k" "t \<noteq> w" for t
    using that by (auto simp: asleep_def nth_append Dequeue_wait_def list_all_iff dest!: set_update_subset_insert [THEN subsetD])
  moreover obtain es fs where "interleave (park (\<lambda>_. Do_Dequeue) k) (start_config cap (Suc k)) =
      Some (es, \<lparr>shared = RWQueue cap, threads = replicate k (Waiting Do_Dequeue 1) @ [Idle :: 'a pc]\<rparr>)"
    and "interleave [Begin k (Do_BulkEnqueue xs (length xs) (length xs)), Advance k, Signal k (Some w), Advance w, Signal w None]
      \<lparr>shared = RWQueue cap, threads = replicate k (Waiting Do_Dequeue 1) @ [Idle]\<rparr> = Some (fs, ?c)"
    using consumers_parked [of k cap] one_consumer_woken [OF assms(1-4)] by blast
  from interleave_append [OF this] have "interleave (park (\<lambda>_. Do_Dequeue) k @
      [Begin k (Do_BulkEnqueue xs (length xs) (length xs)), Advance k, Signal k (Some w), Advance w, Signal w None])
      (start_config cap (Suc k)) = Some (es @ fs, ?c)" .
  ultimately show "\<exists>es c. interleave (park (\<lambda>_. Do_Dequeue) k @
      [Begin k (Do_BulkEnqueue xs (length xs) (length xs)), Advance k, Signal k (Some w), Advance w, Signal w None])
      (start_config cap (Suc k)) = Some (es, c) \<and> queue (shared c) = tl xs \<and> (\<forall>t < k. t \<noteq> w \<longrightarrow> asleep c t)"
    by (intro exI [of _ "es @ fs"] exI [of _ ?c]) (simp del: interleave.simps)
next
  let ?ts = "map (\<lambda>t. Waiting (Do_Enqueue (y t)) 1) [0 ..< k]"
  let ?q = "(RWQueue cap')\<lparr>queue := xs\<rparr>"
  let ?c = "\<lparr>shared = ?q, threads = ?ts @ [Finished Done]\<rparr>"
  have "asleep ?c t" if "t < k" for t
    using that assms(5) by (auto simp: asleep_def nth_append Enqueue_wait_def blocked_def list_all_iff RWQueue_def Resize_def)
  moreover have "interleave [Begin k (Do_Resize cap'), Advance k]
      \<lparr>shared = (RWQueue (length xs))\<lparr>queue := xs\<rparr>, threads = ?ts @ [Finished (Sent (length xs) [])]\<rparr> = Some ([(k, Silent), (k, Silent)], ?c)"
    using assms(5) by (simp add: locked_def nth_append list_update_append RWQueue_def Resize_def)
  moreover have "xs \<noteq> []" "length xs < 2 ^ 64"
    using assms(1-3) by auto
  from producers_parked [OF this, of k y] obtain es where
    "interleave ([Begin k (Do_BulkEnqueue xs (length xs) (length xs)), Advance k, Signal k None] @ park (\<lambda>t. Do_Enqueue (y t)) k)
      (start_config (length xs) (Suc k)) = Some (es, \<lparr>shared = (RWQueue (length xs))\<lparr>queue := xs\<rparr>, threads = ?ts @ [Finished (Sent (length xs) [])]\<rparr>)"
    by blast
  note interleave_append [OF this calculation(2)]
  ultimately show "\<exists>es c. interleave (([Begin k (Do_BulkEnqueue xs (length xs) (length xs)), Advance k, Signal k None] @
      park (\<lambda>t. Do_Enqueue (y t)) k) @ [Begin k (Do_Resize cap'), Advance k])
      (start_config (length xs) (Suc k)) = Some (es, c) \<and>
    queue (shared c) = xs \<and> capacity (shared c) = cap' \<and> (\<forall>t < k. asleep c t)"
    by (intro exI [of _ "es @ [(k, Silent), (k, Silent)]"] exI [of _ ?c]) (simp add: RWQueue_def Resize_def del: interleave.simps)
qed

text \<open>Three consumers, of whom the second is woken by two items.\<close>

theorem rwqueue_forgotten_waiters_witness:
  "\<exists>es c. interleave (park (\<lambda>_. Do_Dequeue) 3 @ [Begin 3 (Do_BulkEnqueue [7, 8 :: nat] 2 2), Advance 3, Signal 3 (Some 1), Advance 1, Signal 1 None])
     (start_config 4 4) = Some (es, c) \<and> queue (shared c) = [8] \<and> asleep c 0 \<and> asleep c 2"
proof -
  let ?xs = "[7, 8 :: nat]"
  have "2 \<le> length ?xs" "length ?xs \<le> 4" "(4 :: nat) < 2 ^ 64" "1 < (3 :: nat)" "length ?xs < 5"
    by simp_all
  from rwqueue_forgotten_waiters [OF this, THEN conjunct1] obtain es c where
    "interleave (park (\<lambda>_. Do_Dequeue) 3 @ [Begin 3 (Do_BulkEnqueue ?xs (length ?xs) (length ?xs)), Advance 3, Signal 3 (Some 1), Advance 1, Signal 1 None])
      (start_config 4 (Suc 3)) = Some (es, c)" "queue (shared c) = tl ?xs" "\<forall>t < 3. t \<noteq> 1 \<longrightarrow> asleep c t"
    by blast
  then show ?thesis
    by (intro exI [of _ es] exI [of _ c]) (simp add: numeral_2_eq_2 del: interleave.simps)
qed

end
