(* ===== verification/Fat.thy ===== *)
theory Fat
  imports Prelude
begin

text \<open>
  The FAT file system driver of \<open>src/src/dos/drive_fat.cpp\<close> on a disk image
  (\<open>src/src/ints/bios_disk.cpp\<close>): sectors, the file allocation table with its one-sector cache,
  cluster chains, directory entries and open files.

  The image is seen as a sequence of 512-byte sectors, with \<^const>\<open>None\<close> behind the end of the file:
  a read there leaves the buffer as it is, a write there extends the file with zeroes.  The drive is
  mounted (\<open>loadedDisk\<close> is set, which \<open>readSector\<close>, \<open>writeSector\<close> and \<open>AllocationInfo\<close> test), its
  sectors have 512 bytes, which mounting checks, and the host's file operations succeed; the results
  of the sector functions, which no caller reads, are left out.  Numbers are natural numbers, with
  \<open>wrap32\<close> written where an expression of type \<open>uint32_t\<close> can wrap around.
\<close>

section \<open>The drive\<close>

datatype fat_type = FAT12 | FAT16 | FAT32

record fat_drive =
  bytespersector :: nat
  sectorspercluster :: nat
  reservedsectors :: nat
  fatcopies :: nat
  rootdirentries :: nat
  sectorsperfat :: nat
  sectorspertrack :: nat
  headcount :: nat
  partSectOff :: nat
  absolute :: bool
  fattype :: fat_type
  CountOfClusters :: nat
  firstDataSector :: nat
  firstRootDirSect :: nat
  fatSectBuffer :: "u8 list"
  curFatSect :: nat
  heads :: nat
  sectors :: nat
  diskimg :: "nat \<Rightarrow> u8 list option"

definition wrap32 :: "nat \<Rightarrow> nat" where
  "wrap32 n = n mod 2 ^ 32"

definition sub32 :: "nat \<Rightarrow> nat \<Rightarrow> nat" where
  "sub32 a b = wrap32 (a + 2 ^ 32 - b)"

definition BytePerSector :: nat where
  "BytePerSector = 512"

section \<open>Sectors\<close>

definition Read_AbsoluteSector :: "nat \<Rightarrow> u8 list \<Rightarrow> fat_drive \<Rightarrow> u8 list" where
  "Read_AbsoluteSector sectnum buffer d =
     (case diskimg d sectnum of None \<Rightarrow> buffer | Some bytes \<Rightarrow> bytes)"

definition Write_AbsoluteSector :: "nat \<Rightarrow> u8 list \<Rightarrow> fat_drive \<Rightarrow> fat_drive" where
  "Write_AbsoluteSector sectnum bytes d = d\<lparr>diskimg := \<lambda>n.
     if n = sectnum then Some bytes
     else if n < sectnum \<and> diskimg d n = None then Some (replicate BytePerSector 0)
     else diskimg d n\<rparr>"

definition chs_sector :: "nat \<Rightarrow> nat \<Rightarrow> nat \<Rightarrow> fat_drive \<Rightarrow> nat" where
  "chs_sector head cylinder sector d =
     sub32 (wrap32 ((cylinder * heads d + head) * sectors d) + sector) 1"

definition image_sector :: "nat \<Rightarrow> fat_drive \<Rightarrow> nat" where
  "image_sector sectnum d =
     (if absolute d then sectnum
      else let cylindersize = headcount d * sectorspertrack d;
               cylinder = sectnum div cylindersize;
               sectnum = sectnum mod cylindersize;
               head = sectnum div sectorspertrack d;
               sector = sectnum mod sectorspertrack d + 1
           in chs_sector head cylinder sector d)"

definition readSector :: "nat \<Rightarrow> u8 list \<Rightarrow> fat_drive \<Rightarrow> u8 list" where
  "readSector sectnum buffer d = Read_AbsoluteSector (image_sector sectnum d) buffer d"

definition writeSector :: "nat \<Rightarrow> u8 list \<Rightarrow> fat_drive \<Rightarrow> fat_drive" where
  "writeSector sectnum bytes d = Write_AbsoluteSector (image_sector sectnum d) bytes d"

section \<open>The file allocation table\<close>

definition var_read16 :: "u8 list \<Rightarrow> nat \<Rightarrow> nat" where
  "var_read16 b i = unat (b ! i) + 2 ^ 8 * unat (b ! (i + 1))"

definition var_read32 :: "u8 list \<Rightarrow> nat \<Rightarrow> nat" where
  "var_read32 b i = unat (b ! i) + 2 ^ 8 * unat (b ! (i + 1)) + 2 ^ 16 * unat (b ! (i + 2)) +
     2 ^ 24 * unat (b ! (i + 3))"

definition var_write16 :: "u8 list \<Rightarrow> nat \<Rightarrow> nat \<Rightarrow> u8 list" where
  "var_write16 b i v = b[i := of_nat v, i + 1 := of_nat (v div 2 ^ 8)]"

definition var_write32 :: "u8 list \<Rightarrow> nat \<Rightarrow> nat \<Rightarrow> u8 list" where
  "var_write32 b i v = b[i := of_nat v, i + 1 := of_nat (v div 2 ^ 8),
     i + 2 := of_nat (v div 2 ^ 16), i + 3 := of_nat (v div 2 ^ 24)]"

fun fatoffset :: "fat_type \<Rightarrow> nat \<Rightarrow> nat" where
  "fatoffset FAT12 clustNum = wrap32 (clustNum + clustNum div 2)"
| "fatoffset FAT16 clustNum = wrap32 (clustNum * 2)"
| "fatoffset FAT32 clustNum = wrap32 (clustNum * 4)"

definition fatsectnum :: "nat \<Rightarrow> fat_drive \<Rightarrow> nat" where
  "fatsectnum clustNum d =
     wrap32 (reservedsectors d + fatoffset (fattype d) clustNum div bytespersector d + partSectOff d)"

definition fatentoff :: "nat \<Rightarrow> fat_drive \<Rightarrow> nat" where
  "fatentoff clustNum d = fatoffset (fattype d) clustNum mod bytespersector d"

definition load_fat_sector :: "nat \<Rightarrow> fat_drive \<Rightarrow> fat_drive" where
  "load_fat_sector sectnum d =
     (if curFatSect d \<noteq> sectnum
      then let low = readSector sectnum (take BytePerSector (fatSectBuffer d)) d;
               high = (if fattype d = FAT12
                       then readSector (wrap32 (sectnum + 1)) (drop BytePerSector (fatSectBuffer d)) d
                       else drop BytePerSector (fatSectBuffer d))
           in d\<lparr>fatSectBuffer := low @ high, curFatSect := sectnum\<rparr>
      else d)"

definition cluster_entry :: "fat_type \<Rightarrow> nat \<Rightarrow> u8 list \<Rightarrow> nat \<Rightarrow> nat" where
  "cluster_entry ty clustNum b off =
     (case ty of
        FAT12 \<Rightarrow> (let clustValue = var_read16 b off
                  in if clustNum AND 0x1 \<noteq> 0 then drop_bit 4 clustValue else clustValue AND 0xfff)
      | FAT16 \<Rightarrow> var_read16 b off
      | FAT32 \<Rightarrow> var_read32 b off)"

definition getClusterValue :: "nat \<Rightarrow> fat_drive \<Rightarrow> nat \<times> fat_drive" where
  "getClusterValue clustNum d =
     (let d = load_fat_sector (fatsectnum clustNum d) d
      in (cluster_entry (fattype d) clustNum (fatSectBuffer d) (fatentoff clustNum d), d))"

definition put_entry :: "fat_type \<Rightarrow> nat \<Rightarrow> nat \<Rightarrow> u8 list \<Rightarrow> nat \<Rightarrow> u8 list" where
  "put_entry ty clustNum clustValue b off =
     (case ty of
        FAT12 \<Rightarrow>
          (let tmpValue = var_read16 b off
           in var_write16 b off
                (if clustNum AND 0x1 \<noteq> 0
                 then (tmpValue AND 0xf) OR push_bit 4 (clustValue AND 0xfff)
                 else (tmpValue AND 0xf000) OR (clustValue AND 0xfff)))
      | FAT16 \<Rightarrow> var_write16 b off (clustValue mod 2 ^ 16)
      | FAT32 \<Rightarrow> var_write32 b off clustValue)"

definition write_fat_copy :: "nat \<Rightarrow> nat \<Rightarrow> nat \<Rightarrow> fat_drive \<Rightarrow> fat_drive" where
  "write_fat_copy sectnum off fc d =
     (let d' = writeSector (wrap32 (sectnum + fc * sectorsperfat d))
                 (take BytePerSector (fatSectBuffer d)) d
      in if fattype d = FAT12 \<and> off \<ge> 511
         then writeSector (wrap32 (sectnum + 1 + fc * sectorsperfat d))
                (drop BytePerSector (fatSectBuffer d)) d'
         else d')"

definition setClusterValue :: "nat \<Rightarrow> nat \<Rightarrow> fat_drive \<Rightarrow> fat_drive" where
  "setClusterValue clustNum clustValue d =
     (let d = load_fat_sector (fatsectnum clustNum d) d;
          d = d\<lparr>fatSectBuffer :=
                 put_entry (fattype d) clustNum clustValue (fatSectBuffer d) (fatentoff clustNum d)\<rparr>
      in fold (write_fat_copy (fatsectnum clustNum d) (fatentoff clustNum d)) [0..<fatcopies d] d)"

section \<open>Cluster chains\<close>

fun isEOF :: "fat_type \<Rightarrow> nat \<Rightarrow> bool" where
  "isEOF FAT12 testvalue \<longleftrightarrow> 0xff8 \<le> testvalue"
| "isEOF FAT16 testvalue \<longleftrightarrow> 0xfff8 \<le> testvalue"
| "isEOF FAT32 testvalue \<longleftrightarrow> 0xfffffff8 \<le> testvalue"

fun eof_mark :: "fat_type \<Rightarrow> nat" where
  "eof_mark FAT12 = 0xfff"
| "eof_mark FAT16 = 0xffff"
| "eof_mark FAT32 = 0xffffffff"

definition getClustFirstSect :: "nat \<Rightarrow> fat_drive \<Rightarrow> nat" where
  "getClustFirstSect clustNum d =
     wrap32 (sub32 clustNum 2 * sectorspercluster d + firstDataSector d)"

definition getSectorSize :: "fat_drive \<Rightarrow> nat" where
  "getSectorSize d = bytespersector d"

definition getClusterSize :: "fat_drive \<Rightarrow> nat" where
  "getClusterSize d = sectorspercluster d * bytespersector d"

text \<open>The loop of \<open>getAbsoluteSectFromChain\<close>; \<^const>\<open>None\<close> is the end of the chain.\<close>

fun skip_clusters :: "nat \<Rightarrow> nat \<Rightarrow> fat_drive \<Rightarrow> nat option \<times> fat_drive" where
  "skip_clusters 0 currentClust d = (Some currentClust, d)"
| "skip_clusters (Suc skipClust) currentClust d =
     (let (testvalue, d) = getClusterValue currentClust d
      in if isEOF (fattype d) testvalue then (None, d) else skip_clusters skipClust testvalue d)"

definition getAbsoluteSectFromChain :: "nat \<Rightarrow> nat \<Rightarrow> fat_drive \<Rightarrow> nat \<times> fat_drive" where
  "getAbsoluteSectFromChain startClustNum logicalSector d =
     (case skip_clusters (logicalSector div sectorspercluster d) startClustNum d of
        (None, d) \<Rightarrow> (0, d)
      | (Some currentClust, d) \<Rightarrow>
          (wrap32 (getClustFirstSect currentClust d + logicalSector mod sectorspercluster d), d))"

definition getAbsoluteSectFromBytePos :: "nat \<Rightarrow> nat \<Rightarrow> fat_drive \<Rightarrow> nat \<times> fat_drive" where
  "getAbsoluteSectFromBytePos startClustNum bytePos d =
     getAbsoluteSectFromChain startClustNum (bytePos div bytespersector d) d"

partial_function (option) delete_loop :: "nat \<Rightarrow> nat \<Rightarrow> nat \<Rightarrow> fat_drive \<Rightarrow> fat_drive option" where
  "delete_loop endClust countClust currentClust d =
     (let (testvalue, d) = getClusterValue currentClust d
      in if testvalue = 0 then Some d
         else let eof = isEOF (fattype d) testvalue;
                  d = (if countClust = endClust \<and> \<not> eof
                       then setClusterValue currentClust (eof_mark (fattype d)) d
                       else if countClust > endClust then setClusterValue currentClust 0 d
                       else d)
              in if eof then Some d else delete_loop endClust (countClust + 1) testvalue d)"

definition deleteClustChain :: "nat \<Rightarrow> nat \<Rightarrow> fat_drive \<Rightarrow> fat_drive option" where
  "deleteClustChain startCluster bytePos d =
     (let clustSize = getClusterSize d;
          endClust = sub32 (bytePos + clustSize) 1 div clustSize
      in delete_loop endClust 1 startCluster d)"

fun free_scan :: "nat \<Rightarrow> nat \<Rightarrow> fat_drive \<Rightarrow> nat \<times> fat_drive" where
  "free_scan i 0 d = (0, d)"
| "free_scan i (Suc n) d =
     (let (v, d) = getClusterValue (i + 2) d
      in if v = 0 then (i + 2, d) else free_scan (i + 1) n d)"

definition getFirstFreeClust :: "fat_drive \<Rightarrow> nat \<times> fat_drive" where
  "getFirstFreeClust d = free_scan 0 (CountOfClusters d) d"

definition allocateCluster :: "nat \<Rightarrow> nat \<Rightarrow> fat_drive \<Rightarrow> bool \<times> fat_drive" where
  "allocateCluster useCluster prevCluster d =
     (if useCluster = 0 then (False, d)
      else let (ok, d) =
             (if prevCluster \<noteq> 0
              then let (v, d) = getClusterValue prevCluster d
                   in if v = 0 then (False, d) else (True, setClusterValue prevCluster useCluster d)
              else (True, d))
           in if ok then (True, setClusterValue useCluster (eof_mark (fattype d)) d) else (False, d))"

definition zeroOutCluster :: "nat \<Rightarrow> fat_drive \<Rightarrow> fat_drive" where
  "zeroOutCluster clustNumber d =
     fold (\<lambda>i d. let (sect, d) = getAbsoluteSectFromChain clustNumber i d
                 in writeSector sect (replicate BytePerSector 0) d)
       [0..<sectorspercluster d] d"

partial_function (option) chain_end :: "nat \<Rightarrow> fat_drive \<Rightarrow> (nat \<times> fat_drive) option" where
  "chain_end currentClust d =
     (let (testvalue, d) = getClusterValue currentClust d
      in if isEOF (fattype d) testvalue then Some (currentClust, d) else chain_end testvalue d)"

definition appendCluster :: "nat \<Rightarrow> fat_drive \<Rightarrow> (nat \<times> fat_drive) option" where
  "appendCluster startCluster d =
     (case chain_end startCluster d of None \<Rightarrow> None
      | Some (currentClust, d) \<Rightarrow>
          let (newClust, d) = getFirstFreeClust d
          in if newClust = 0 then Some (0, d)
             else let (ok, d) = allocateCluster newClust currentClust d
                  in if ok then Some (newClust, zeroOutCluster newClust d) else Some (0, d))"

fun count_free :: "nat \<Rightarrow> nat \<Rightarrow> fat_drive \<Rightarrow> nat \<times> fat_drive" where
  "count_free i 0 d = (0, d)"
| "count_free i (Suc n) d =
     (let (v, d) = getClusterValue (i + 2) d; (k, d) = count_free (i + 1) n d
      in ((if v = 0 then 1 else 0) + k, d))"

definition AllocationInfo :: "fat_drive \<Rightarrow> (nat \<times> nat \<times> nat \<times> nat) \<times> fat_drive" where
  "AllocationInfo d =
     (let (countFree, d') = count_free 0 (CountOfClusters d) d
      in ((BytePerSector, sectorspercluster d,
           if CountOfClusters d < 65536 then CountOfClusters d else 65535,
           if countFree < 65536 then countFree else 65535), d'))"

end
