(* ===== verification/Fat_Table.thy ===== *)
theory Fat_Table
  imports Fat
begin

text \<open>
  The file allocation table as a function from cluster numbers to values: what \<open>getClusterValue\<close>
  and \<open>setClusterValue\<close> do through the cached sector and the packed 12-bit entries.
\<close>

section \<open>Sectors\<close>

lemma wrap32_small [simp]: "n < 2 ^ 32 \<Longrightarrow> wrap32 n = n"
  by (simp add: wrap32_def)

lemma sub32_small [simp]:
  assumes "b \<le> a" "a < 2 ^ 32"
  shows "sub32 a b = a - b"
proof -
  have "a + 2 ^ 32 - b = (a - b) + 2 ^ 32" "a - b < 2 ^ 32"
    using assms by simp_all
  then show ?thesis
    by (simp only: sub32_def wrap32_def mod_add_self2 mod_less)
qed

text \<open>The number of sectors of the file system, and the last sector of its image.\<close>

definition sector_count :: "fat_drive \<Rightarrow> nat" where
  "sector_count d = firstDataSector d + CountOfClusters d * sectorspercluster d"

definition geometry_ok :: "fat_drive \<Rightarrow> bool" where
  "geometry_ok d \<longleftrightarrow> 0 < headcount d \<and> headcount d \<le> heads d \<and>
     0 < sectorspertrack d \<and> sectorspertrack d \<le> sectors d \<and>
     (sector_count d div (headcount d * sectorspertrack d) + 1) * heads d * sectors d < 2 ^ 32 \<and>
     sector_count d < 2 ^ 32"

lemma chs_cylinder:
  assumes "a < h" "b < s" "h \<le> H" "s \<le> S" "(c + 1) * H * S < (2 :: nat) ^ 32"
  shows "(c * H + a) * S + b + 1 < 2 ^ 32"
proof -
  have "(c * H + a) * S + b + 1 \<le> (c * H + a) * S + S"
    using assms by simp
  also have "\<dots> = (c * H + a + 1) * S"
    by simp
  also have "\<dots> \<le> ((c + 1) * H) * S"
    using assms by (intro mult_right_mono) auto
  finally show ?thesis
    using assms(5) by simp
qed

lemma image_sector_chs:
  assumes ok: "geometry_ok d" and n: "n < sector_count d" and "\<not> absolute d"
  defines "z \<equiv> headcount d * sectorspertrack d"
  shows "image_sector n d = (n div z * heads d + n mod z div sectorspertrack d) * sectors d +
     n mod z mod sectorspertrack d"
proof -
  let ?c = "n div z" and ?h = "n mod z div sectorspertrack d" and ?s = "n mod z mod sectorspertrack d"
  have z: "0 < z"
    using ok by (simp add: geometry_ok_def z_def)
  have h: "?h < headcount d"
    using z unfolding z_def by (simp add: less_mult_imp_div_less)
  have s: "?s < sectorspertrack d"
    using ok by (simp add: geometry_ok_def)
  have "?c \<le> sector_count d div z"
    using n by (simp add: div_le_mono)
  then have "(?c + 1) * heads d * sectors d < 2 ^ 32"
    using ok by (auto simp: geometry_ok_def z_def intro: le_less_trans [rotated])
  from chs_cylinder [OF h s _ _ this]
  have "(?c * heads d + ?h) * sectors d + ?s + 1 < 2 ^ 32"
    using ok by (simp add: geometry_ok_def)
  then show ?thesis
    using assms(3) by (simp add: image_sector_def chs_sector_def z_def Let_def)
qed

lemma radix_inj:
  assumes "x * r + c = y * r + (c' :: nat)" "c < r" "c' < r"
  shows "x = y \<and> c = c'"
proof -
  have "(x * r + c) div r = x" "(y * r + c') div r = y"
    using assms(2,3) by simp_all
  then show ?thesis
    using assms(1) by simp
qed

lemma mixed_radix_inj:
  assumes "(a * H + b) * S + c = (a' * H + b') * S + (c' :: nat)"
    and "b < H" "b' < H" "c < S" "c' < S"
  shows "a = a' \<and> b = b' \<and> c = c'"
  using radix_inj [OF assms(1,4,5)] radix_inj [of a H b a' b'] assms(2,3) by blast

lemma image_sector_inj:
  assumes ok: "geometry_ok d" and n: "n < sector_count d" and m: "m < sector_count d"
    and eq: "image_sector n d = image_sector m d"
  shows "n = m"
proof (cases "absolute d")
  case True
  then show ?thesis
    using eq by (simp add: image_sector_def)
next
  case False
  let ?z = "headcount d * sectorspertrack d"
  have z: "0 < ?z" and s: "0 < sectorspertrack d" and le: "headcount d \<le> heads d" "sectorspertrack d \<le> sectors d"
    using ok by (simp_all add: geometry_ok_def)
  have "n mod ?z div sectorspertrack d < headcount d" "m mod ?z div sectorspertrack d < headcount d"
    using z by (simp_all add: less_mult_imp_div_less)
  then have "n div ?z = m div ?z \<and> n mod ?z div sectorspertrack d = m mod ?z div sectorspertrack d \<and>
      n mod ?z mod sectorspertrack d = m mod ?z mod sectorspertrack d"
    using eq s le unfolding image_sector_chs [OF ok n False] image_sector_chs [OF ok m False]
    by (intro mixed_radix_inj [where H = "heads d" and S = "sectors d"])
      (auto intro: less_le_trans [OF mod_less_divisor] less_le_trans)
  then show ?thesis
    by (metis mult_div_mod_eq)
qed

text \<open>The contents of a sector, and the drives that differ only in contents and cache.\<close>

definition sector :: "fat_drive \<Rightarrow> nat \<Rightarrow> u8 list" where
  "sector d n = (case diskimg d (image_sector n d) of None \<Rightarrow> [] | Some bytes \<Rightarrow> bytes)"

definition layout :: "fat_drive \<Rightarrow> fat_drive" where
  "layout d = d\<lparr>fatSectBuffer := [], curFatSect := 0, diskimg := (\<lambda>_. None)\<rparr>"

definition same_layout :: "fat_drive \<Rightarrow> fat_drive \<Rightarrow> bool" where
  "same_layout d d' \<longleftrightarrow> layout d' = layout d"

definition sectors_ok :: "fat_drive \<Rightarrow> bool" where
  "sectors_ok d \<longleftrightarrow> geometry_ok d \<and>
     (\<forall>n < sector_count d. \<exists>bytes. diskimg d (image_sector n d) = Some bytes \<and> length bytes = 512)"

lemma layout_fields:
  "bytespersector (layout d) = bytespersector d"
  "sectorspercluster (layout d) = sectorspercluster d"
  "reservedsectors (layout d) = reservedsectors d"
  "fatcopies (layout d) = fatcopies d"
  "rootdirentries (layout d) = rootdirentries d"
  "sectorsperfat (layout d) = sectorsperfat d"
  "sectorspertrack (layout d) = sectorspertrack d"
  "headcount (layout d) = headcount d"
  "partSectOff (layout d) = partSectOff d"
  "absolute (layout d) = absolute d"
  "fattype (layout d) = fattype d"
  "CountOfClusters (layout d) = CountOfClusters d"
  "firstDataSector (layout d) = firstDataSector d"
  "firstRootDirSect (layout d) = firstRootDirSect d"
  "heads (layout d) = heads d"
  "sectors (layout d) = sectors d"
  by (simp_all add: layout_def)

lemma same_layout_fields [simp]:
  assumes "same_layout d d'"
  shows
    "bytespersector d' = bytespersector d"
    "sectorspercluster d' = sectorspercluster d"
    "reservedsectors d' = reservedsectors d"
    "fatcopies d' = fatcopies d"
    "rootdirentries d' = rootdirentries d"
    "sectorsperfat d' = sectorsperfat d"
    "sectorspertrack d' = sectorspertrack d"
    "headcount d' = headcount d"
    "partSectOff d' = partSectOff d"
    "absolute d' = absolute d"
    "fattype d' = fattype d"
    "CountOfClusters d' = CountOfClusters d"
    "firstDataSector d' = firstDataSector d"
    "firstRootDirSect d' = firstRootDirSect d"
    "heads d' = heads d"
    "sectors d' = sectors d"
proof -
  note same = arg_cong [OF assms [unfolded same_layout_def]]
  show "bytespersector d' = bytespersector d"
    using same [of bytespersector] by (simp only: layout_fields)
  show "sectorspercluster d' = sectorspercluster d"
    using same [of sectorspercluster] by (simp only: layout_fields)
  show "reservedsectors d' = reservedsectors d"
    using same [of reservedsectors] by (simp only: layout_fields)
  show "fatcopies d' = fatcopies d"
    using same [of fatcopies] by (simp only: layout_fields)
  show "rootdirentries d' = rootdirentries d"
    using same [of rootdirentries] by (simp only: layout_fields)
  show "sectorsperfat d' = sectorsperfat d"
    using same [of sectorsperfat] by (simp only: layout_fields)
  show "sectorspertrack d' = sectorspertrack d"
    using same [of sectorspertrack] by (simp only: layout_fields)
  show "headcount d' = headcount d"
    using same [of headcount] by (simp only: layout_fields)
  show "partSectOff d' = partSectOff d"
    using same [of partSectOff] by (simp only: layout_fields)
  show "absolute d' = absolute d"
    using same [of absolute] by (simp only: layout_fields)
  show "fattype d' = fattype d"
    using same [of fattype] by (simp only: layout_fields)
  show "CountOfClusters d' = CountOfClusters d"
    using same [of CountOfClusters] by (simp only: layout_fields)
  show "firstDataSector d' = firstDataSector d"
    using same [of firstDataSector] by (simp only: layout_fields)
  show "firstRootDirSect d' = firstRootDirSect d"
    using same [of firstRootDirSect] by (simp only: layout_fields)
  show "heads d' = heads d"
    using same [of heads] by (simp only: layout_fields)
  show "sectors d' = sectors d"
    using same [of sectors] by (simp only: layout_fields)
qed

lemma same_layout_refl [simp]: "same_layout d d"
  by (simp add: same_layout_def)

lemma same_layout_trans [trans]: "same_layout a b \<Longrightarrow> same_layout b c \<Longrightarrow> same_layout a c"
  unfolding same_layout_def by (rule HOL.trans)

lemma same_layout_updates [simp]:
  "same_layout d (d\<lparr>fatSectBuffer := b\<rparr>)" "same_layout d (d\<lparr>curFatSect := c\<rparr>)"
  "same_layout d (d\<lparr>fatSectBuffer := b, curFatSect := c\<rparr>)" "same_layout d (d\<lparr>diskimg := i\<rparr>)"
  by (simp_all add: same_layout_def layout_def)

section \<open>Reading and writing sectors\<close>

lemma image_sector_layout: "same_layout d d' \<Longrightarrow> image_sector n d' = image_sector n d"
  by (simp add: image_sector_def chs_sector_def Let_def)

lemma sector_count_layout: "same_layout d d' \<Longrightarrow> sector_count d' = sector_count d"
  by (simp add: sector_count_def)

lemma geometry_layout: "same_layout d d' \<Longrightarrow> geometry_ok d' = geometry_ok d"
  by (simp add: geometry_ok_def sector_count_layout)

lemma sector_cong: "same_layout d d' \<Longrightarrow> diskimg d' = diskimg d \<Longrightarrow> sector d' = sector d"
  by (rule ext) (simp add: sector_def image_sector_layout)

lemma sectors_ok_cong: "same_layout d d' \<Longrightarrow> diskimg d' = diskimg d \<Longrightarrow> sectors_ok d' = sectors_ok d"
  by (simp add: sectors_ok_def geometry_layout sector_count_layout image_sector_layout)

lemma read_sector:
  assumes "sectors_ok d" "n < sector_count d"
  shows "readSector n b d = sector d n" "length (sector d n) = 512"
proof -
  obtain bytes where "diskimg d (image_sector n d) = Some bytes" "length bytes = 512"
    using assms by (auto simp: sectors_ok_def)
  then show "readSector n b d = sector d n" "length (sector d n) = 512"
    by (simp_all add: readSector_def Read_AbsoluteSector_def sector_def)
qed

lemma write_sector_layout [simp]: "same_layout d (writeSector n b d)"
  by (simp add: writeSector_def Write_AbsoluteSector_def)

lemmas write_sector_fields [simp] = same_layout_fields [OF write_sector_layout]

lemma write_sector_buffer [simp]:
  "fatSectBuffer (writeSector n b d) = fatSectBuffer d"
  "curFatSect (writeSector n b d) = curFatSect d"
  by (simp_all add: writeSector_def Write_AbsoluteSector_def)

lemma write_sector:
  assumes ok: "sectors_ok d" and n: "n < sector_count d" and b: "length b = 512"
  shows "sectors_ok (writeSector n b d)"
    and "m < sector_count d \<Longrightarrow> sector (writeSector n b d) m = (if m = n then b else sector d m)"
proof -
  let ?d = "writeSector n b d"
  have img: "diskimg ?d (image_sector m d) =
      (if m = n then Some b else diskimg d (image_sector m d))" if m: "m < sector_count d" for m
  proof -
    have "image_sector m d = image_sector n d \<longleftrightarrow> m = n"
      using image_sector_inj [of d m n] ok n m by (auto simp: sectors_ok_def)
    moreover have "diskimg d (image_sector m d) \<noteq> None"
      using ok m by (auto simp: sectors_ok_def)
    ultimately show ?thesis
      by (auto simp: writeSector_def Write_AbsoluteSector_def)
  qed
  have same: "same_layout d ?d"
    by simp
  show "sectors_ok ?d"
    using ok b unfolding sectors_ok_def geometry_layout [OF same] sector_count_layout [OF same]
      image_sector_layout [OF same] by (simp add: img)
  show "sector ?d m = (if m = n then b else sector d m)" if "m < sector_count d"
    unfolding sector_def image_sector_layout [OF same] using img [OF that] by simp
qed

section \<open>The table\<close>

definition fat_start :: "fat_drive \<Rightarrow> nat" where
  "fat_start d = reservedsectors d + partSectOff d"

fun entry_width :: "fat_type \<Rightarrow> nat" where
  "entry_width FAT12 = 2"
| "entry_width FAT16 = 2"
| "entry_width FAT32 = 4"

fun entry_pos :: "fat_type \<Rightarrow> nat \<Rightarrow> nat" where
  "entry_pos FAT12 c = c + c div 2"
| "entry_pos FAT16 c = c * 2"
| "entry_pos FAT32 c = c * 4"

text \<open>What the constructor of \<open>fatDrive\<close> computes or checks, and a table that holds all clusters.\<close>

fun few_clusters :: "fat_type \<Rightarrow> nat \<Rightarrow> bool" where
  "few_clusters FAT12 n \<longleftrightarrow> n < 4085"
| "few_clusters FAT16 n \<longleftrightarrow> n < 65525"
| "few_clusters FAT32 n \<longleftrightarrow> n < 2 ^ 28"

definition layout_ok :: "fat_drive \<Rightarrow> bool" where
  "layout_ok d \<longleftrightarrow> bytespersector d = 512 \<and> 0 < sectorspercluster d \<and> 0 < fatcopies d \<and>
     firstRootDirSect d = fat_start d + fatcopies d * sectorsperfat d \<and>
     firstDataSector d = firstRootDirSect d + (rootdirentries d * 32 + 511) div 512 \<and>
     0 < rootdirentries d \<and>
     few_clusters (fattype d) (CountOfClusters d) \<and>
     entry_pos (fattype d) (CountOfClusters d + 1) + entry_width (fattype d) \<le> 512 * sectorsperfat d"

definition clusters :: "fat_drive \<Rightarrow> nat set" where
  "clusters d = {..< CountOfClusters d + 2}"

definition fat_sector :: "fat_drive \<Rightarrow> nat \<Rightarrow> nat \<Rightarrow> u8 list" where
  "fat_sector d fc j = sector d (fat_start d + fc * sectorsperfat d + j)"

definition table_byte :: "fat_drive \<Rightarrow> nat \<Rightarrow> u8" where
  "table_byte d i = fat_sector d 0 (i div 512) ! (i mod 512)"

fun decode_entry :: "fat_type \<Rightarrow> nat \<Rightarrow> (nat \<Rightarrow> u8) \<Rightarrow> nat" where
  "decode_entry FAT12 c b =
     (let v = unat (b 0) + 2 ^ 8 * unat (b 1) in if odd c then v div 2 ^ 4 else v mod 2 ^ 12)"
| "decode_entry FAT16 c b = unat (b 0) + 2 ^ 8 * unat (b 1)"
| "decode_entry FAT32 c b =
     unat (b 0) + 2 ^ 8 * unat (b 1) + 2 ^ 16 * unat (b 2) + 2 ^ 24 * unat (b 3)"

definition table :: "fat_drive \<Rightarrow> nat \<Rightarrow> nat" where
  "table d c = decode_entry (fattype d) c (\<lambda>i. table_byte d (entry_pos (fattype d) c + i))"

definition in_fat :: "fat_drive \<Rightarrow> nat \<Rightarrow> bool" where
  "in_fat d n \<longleftrightarrow> fat_start d \<le> n \<and> n < fat_start d + sectorsperfat d"

definition cache_ok :: "fat_drive \<Rightarrow> bool" where
  "cache_ok d \<longleftrightarrow> length (fatSectBuffer d) = 1024 \<and>
     (in_fat d (curFatSect d) \<longrightarrow>
        take 512 (fatSectBuffer d) = sector d (curFatSect d) \<and>
        (fattype d = FAT12 \<longrightarrow> in_fat d (curFatSect d + 1) \<longrightarrow>
           drop 512 (fatSectBuffer d) = sector d (curFatSect d + 1)))"

definition fat_ok :: "fat_drive \<Rightarrow> bool" where
  "fat_ok d \<longleftrightarrow> sectors_ok d \<and> layout_ok d \<and> cache_ok d"

lemma layout_ok_layout: "same_layout d d' \<Longrightarrow> layout_ok d' = layout_ok d"
  by (simp add: layout_ok_def fat_start_def)

lemma few_clusters_bound: "layout_ok d \<Longrightarrow> CountOfClusters d + 2 < 2 ^ 29"
  by (cases "fattype d") (auto simp: layout_ok_def)

lemma entry_pos_mono: "a \<le> b \<Longrightarrow> entry_pos ty a \<le> entry_pos ty b"
  by (cases ty) (auto simp: add_le_mono div_le_mono)

lemma entry_in_table:
  assumes "layout_ok d" "c \<in> clusters d"
  shows "entry_pos (fattype d) c + entry_width (fattype d) \<le> 512 * sectorsperfat d"
    and "fatoffset (fattype d) c = entry_pos (fattype d) c"
proof -
  have c: "c \<le> CountOfClusters d + 1" "c < 2 ^ 29"
    using assms few_clusters_bound [of d] by (auto simp: clusters_def)
  show "entry_pos (fattype d) c + entry_width (fattype d) \<le> 512 * sectorsperfat d"
    using entry_pos_mono [OF c(1), of "fattype d"] assms(1) by (simp add: layout_ok_def)
  show "fatoffset (fattype d) c = entry_pos (fattype d) c"
    using c(2) by (cases "fattype d") auto
qed

lemma copies_fit:
  assumes "layout_ok d" "fc < fatcopies d" "j < sectorsperfat d"
  shows "fat_start d + fc * sectorsperfat d + j < firstRootDirSect d"
proof -
  have "fc * sectorsperfat d + j < (fc + 1) * sectorsperfat d"
    using assms by simp
  also have "\<dots> \<le> fatcopies d * sectorsperfat d"
    using assms by (intro mult_right_mono) auto
  finally show ?thesis
    using assms by (simp add: layout_ok_def)
qed

lemma fat_sectors_exist:
  assumes "layout_ok d" "fc < fatcopies d" "j < sectorsperfat d"
  shows "fat_start d + fc * sectorsperfat d + j < sector_count d"
  using copies_fit [OF assms] assms(1) by (simp add: layout_ok_def sector_count_def)

lemma count_bound: "sectors_ok d \<Longrightarrow> n < sector_count d \<Longrightarrow> n < 2 ^ 32"
  by (simp add: sectors_ok_def geometry_ok_def)

text \<open>The sector of the table an entry starts in.\<close>

definition entry_sector :: "fat_drive \<Rightarrow> nat \<Rightarrow> nat" where
  "entry_sector d c = entry_pos (fattype d) c div 512"

lemma entry_sector_bound:
  assumes "layout_ok d" "c \<in> clusters d"
  shows "entry_sector d c < sectorsperfat d"
proof -
  have "0 < entry_width (fattype d)"
    by (cases "fattype d") auto
  then show ?thesis
    using entry_in_table(1) [OF assms] by (simp add: entry_sector_def less_mult_imp_div_less mult.commute)
qed

lemma fatsectnum_eq:
  assumes "fat_ok d" "c \<in> clusters d"
  shows "fatsectnum c d = fat_start d + entry_sector d c"
    and "fatentoff c d = entry_pos (fattype d) c mod 512"
proof -
  have ok: "layout_ok d" "sectors_ok d"
    using assms by (simp_all add: fat_ok_def)
  have "fat_start d + entry_sector d c < 2 ^ 32"
    using fat_sectors_exist [OF ok(1), of 0 "entry_sector d c"] entry_sector_bound [OF ok(1) assms(2)]
      ok(1) count_bound [OF ok(2)] by (simp add: layout_ok_def)
  then show "fatsectnum c d = fat_start d + entry_sector d c"
    using entry_in_table(2) [OF ok(1) assms(2)] ok(1)
    by (simp add: fatsectnum_def layout_ok_def entry_sector_def fat_start_def ac_simps)
  show "fatentoff c d = entry_pos (fattype d) c mod 512"
    using entry_in_table(2) [OF ok(1) assms(2)] ok(1) by (simp add: fatentoff_def layout_ok_def)
qed

section \<open>Reading an entry\<close>

lemma load_fat_layout [simp]: "same_layout d (load_fat_sector n d)"
  by (simp add: load_fat_sector_def Let_def)

lemmas load_fat_fields [simp] = same_layout_fields [OF load_fat_layout]

lemma load_fat_diskimg [simp]: "diskimg (load_fat_sector n d) = diskimg d"
  by (simp add: load_fat_sector_def Let_def)

lemma load_fat_current [simp]: "curFatSect (load_fat_sector n d) = n"
  by (simp add: load_fat_sector_def Let_def)

lemma sector_load [simp]: "sector (load_fat_sector n d) = sector d"
  by (rule sector_cong) simp_all

lemma in_fat_layout: "same_layout d d' \<Longrightarrow> in_fat d' = in_fat d"
  by (simp add: in_fat_def fat_start_def fun_eq_iff)

lemma in_fat_exists: "layout_ok d \<Longrightarrow> in_fat d n \<Longrightarrow> n < sector_count d"
  using fat_sectors_exist [of d 0 "n - fat_start d"] by (auto simp: in_fat_def layout_ok_def)

text \<open>
  After loading a sector of the table the buffer holds that sector and, for 12-bit entries, the
  one behind it if it is still in the table.
\<close>

lemma load_fat_buffer:
  assumes ok: "fat_ok d" and n: "in_fat d n"
  shows "cache_ok (load_fat_sector n d)"
proof (cases "curFatSect d = n")
  case True
  then show ?thesis
    using ok by (simp add: load_fat_sector_def fat_ok_def)
next
  case False
  have parts: "sectors_ok d" "layout_ok d" "length (fatSectBuffer d) = 1024"
    using ok by (simp_all add: fat_ok_def cache_ok_def)
  have n': "n < sector_count d"
    using in_fat_exists parts n by blast
  let ?high = "if fattype d = FAT12
     then readSector (wrap32 (n + 1)) (drop BytePerSector (fatSectBuffer d)) d
     else drop BytePerSector (fatSectBuffer d)"
  have buf: "fatSectBuffer (load_fat_sector n d) = sector d n @ ?high"
    using False read_sector [OF parts(1) n'] by (simp add: load_fat_sector_def Let_def)
  have len: "length (sector d n) = 512"
    using read_sector [OF parts(1) n'] by simp
  have two: "?high = sector d (n + 1)" if "fattype d = FAT12" "in_fat d (n + 1)"
    using that(1) read_sector [OF parts(1) in_fat_exists [OF parts(2) that(2)]]
      wrap32_small [OF count_bound [OF parts(1) in_fat_exists [OF parts(2) that(2)]]]
    by simp
  have n1: "n + 1 < sector_count d"
  proof -
    have "sectorsperfat d \<le> fatcopies d * sectorsperfat d"
      "0 < (rootdirentries d * 32 + 511) div 512"
      using parts(2) by (auto simp: layout_ok_def)
    then show ?thesis
      using n parts(2) unfolding in_fat_def layout_ok_def sector_count_def by linarith
  qed
  have "length ?high = 512"
    using parts(3) read_sector [OF parts(1) n1] wrap32_small [OF count_bound [OF parts(1) n1]]
    by (simp add: BytePerSector_def)
  then show ?thesis
    unfolding cache_ok_def buf using len two by (simp add: in_fat_layout [OF load_fat_layout])
qed

lemma load_fat_ok: "fat_ok d \<Longrightarrow> in_fat d n \<Longrightarrow> fat_ok (load_fat_sector n d)"
  using load_fat_buffer [of d n]
  by (simp add: fat_ok_def sectors_ok_cong [OF load_fat_layout] layout_ok_layout [OF load_fat_layout])

lemma nth_split: "xs ! i = (if i < n then take n xs ! i else drop n xs ! (i - n))"
  if "i < length xs" "n \<le> length xs"
  using that by auto

lemma buffer_bytes:
  assumes ok: "fat_ok d" and cur: "curFatSect d = fat_start d + j" and j: "j < sectorsperfat d"
    and i: "512 * j \<le> i" "i < 512 * sectorsperfat d"
      "i < 512 * (j + 1) \<or> fattype d = FAT12 \<and> i < 512 * (j + 2)"
  shows "fatSectBuffer d ! (i - 512 * j) = table_byte d i"
proof -
  have cache: "length (fatSectBuffer d) = 1024" "take 512 (fatSectBuffer d) = fat_sector d 0 j"
    using ok cur j by (simp_all add: fat_ok_def cache_ok_def fat_sector_def in_fat_def)
  show ?thesis
  proof (cases "i < 512 * (j + 1)")
    case True
    then have "i - 512 * j < 512" "i div 512 = j" "i mod 512 = i - 512 * j"
      using i(1) by (simp_all add: div_nat_eqI modulo_nat_def)
    then show ?thesis
      using cache nth_take [of "i - 512 * j" 512 "fatSectBuffer d"] by (simp add: table_byte_def)
  next
    case False
    then have second: "fattype d = FAT12" "512 * (j + 1) \<le> i" "i < 512 * (j + 2)"
      using i by auto
    then have j1: "j + 1 < sectorsperfat d"
      using i(2) by auto
    then have "drop 512 (fatSectBuffer d) = fat_sector d 0 (j + 1)"
      using ok cur second by (simp add: fat_ok_def cache_ok_def fat_sector_def in_fat_def add.assoc)
    moreover from second(2,3) obtain r where r: "i = r + 512 * (j + 1)" "r < 512"
      using le_Suc_ex [OF second(2)] by auto
    then have "i div 512 = j + 1" "i mod 512 = i - 512 * j - 512"
      by (simp_all only: div_mult_self2 mod_mult_self2) simp_all
    moreover have "fatSectBuffer d ! (i - 512 * j) = drop 512 (fatSectBuffer d) ! (i - 512 * j - 512)"
      using second cache by simp
    ultimately show ?thesis
      by (simp add: table_byte_def)
  qed
qed

lemma nat_and_low:
  "n AND 0xfff = (n :: nat) mod 2 ^ 12" "n AND 0xf = n mod 2 ^ 4" "n AND 0x1 = n mod 2"
  using take_bit_eq_mask [of 12 n] take_bit_eq_mask [of 4 n] take_bit_eq_mask [of 1 n]
  by (simp_all add: mask_eq_exp_minus_1 take_bit_eq_mod)

text \<open>An aligned entry does not reach over the end of a sector.\<close>

lemma aligned_room:
  assumes "m dvd x" "x < m * n" "k < (m :: nat)"
  shows "x + k < m * n"
proof -
  obtain q where q: "x = m * q"
    using assms(1) by (elim dvdE)
  then have "q + 1 \<le> n"
    using assms(2) by simp
  then have "m * (q + 1) \<le> m * n"
    by (rule mult_le_mono2)
  then show ?thesis
    using q assms(3) by simp
qed

lemma entry_bytes:
  assumes "fat_ok d" "c \<in> clusters d" "curFatSect d = fat_start d + entry_sector d c"
    and "k < entry_width (fattype d)"
  shows "fatSectBuffer d ! (entry_pos (fattype d) c mod 512 + k) =
    table_byte d (entry_pos (fattype d) c + k)"
proof -
  let ?p = "entry_pos (fattype d) c" and ?j = "entry_sector d c"
  have ok: "layout_ok d"
    using assms by (simp add: fat_ok_def)
  have p: "?p = 512 * ?j + ?p mod 512"
    by (simp add: entry_sector_def)
  have near: "?p + k < 512 * (?j + 1) \<or> fattype d = FAT12 \<and> ?p + k < 512 * (?j + 2)"
  proof (cases "fattype d")
    case FAT12
    then show ?thesis
      using p assms(4) mod_less_divisor [of 512 ?p] by simp linarith
  next
    case FAT16
    then have "2 dvd ?p mod 512" "k < 2"
      using assms(4) by (simp_all add: dvd_mod)
    then have "?p mod 512 + k < 512"
      using aligned_room [of 2 "?p mod 512" 256 k] by simp
    then show ?thesis
      using p by simp
  next
    case FAT32
    then have "4 dvd ?p mod 512" "k < 4"
      using assms(4) by (simp_all add: dvd_mod)
    then have "?p mod 512 + k < 512"
      using aligned_room [of 4 "?p mod 512" 128 k] by simp
    then show ?thesis
      using p by simp
  qed
  have "?p + k < 512 * sectorsperfat d"
    using entry_in_table(1) [OF ok assms(2)] assms(4) by simp
  then have "fatSectBuffer d ! (?p + k - 512 * ?j) = table_byte d (?p + k)"
    using near p entry_sector_bound [OF ok assms(2)]
    by (intro buffer_bytes [OF assms(1,3)]) auto
  moreover have "?p + k - 512 * ?j = ?p mod 512 + k"
    using p by simp
  ultimately show ?thesis
    by simp
qed

lemma cached_entry:
  assumes "fat_ok d" "c \<in> clusters d" "curFatSect d = fat_start d + entry_sector d c"
  shows "cluster_entry (fattype d) c (fatSectBuffer d) (entry_pos (fattype d) c mod 512) = table d c"
proof -
  note b = entry_bytes [OF assms]
  show ?thesis
    using b [of 0] b [of 1] b [of 2] b [of 3]
    by (cases "fattype d")
      (simp_all add: cluster_entry_def table_def var_read16_def var_read32_def nat_and_low
        drop_bit_eq_div odd_iff_mod_2_eq_one Let_def)
qed

lemma table_cong:
  assumes "same_layout d d'" "diskimg d' = diskimg d"
  shows "table d' = table d"
  using assms sector_cong [OF assms]
  by (simp add: table_def table_byte_def fat_sector_def fat_start_def fun_eq_iff)

lemma clusters_layout: "same_layout d d' \<Longrightarrow> clusters d' = clusters d"
  by (simp add: clusters_def)

text \<open>Reading an entry changes nothing but the cache.\<close>

definition cached :: "fat_drive \<Rightarrow> fat_drive \<Rightarrow> bool" where
  "cached d d' \<longleftrightarrow> same_layout d d' \<and> diskimg d' = diskimg d \<and> fat_ok d'"

lemma getClusterValue:
  assumes "fat_ok d" "c \<in> clusters d"
  obtains d' where "getClusterValue c d = (table d c, d')" "cached d d'"
    "curFatSect d' = fat_start d + entry_sector d c"
proof -
  let ?d = "load_fat_sector (fat_start d + entry_sector d c) d"
  have "in_fat d (fat_start d + entry_sector d c)"
    using assms entry_sector_bound [of d c] by (simp add: in_fat_def fat_ok_def)
  then have ok: "fat_ok ?d"
    using assms load_fat_ok by blast
  have same: "same_layout d ?d"
    by simp
  have "cluster_entry (fattype d) c (fatSectBuffer ?d) (entry_pos (fattype d) c mod 512) = table d c"
    using cached_entry [OF ok, of c] assms(2) clusters_layout [OF same] table_cong [OF same]
    by (simp add: entry_sector_def fat_start_def)
  moreover have "fattype ?d = fattype d" "fatentoff c ?d = fatentoff c d"
    using same by (simp_all add: fatentoff_def)
  ultimately have "getClusterValue c d = (table d c, ?d)"
    by (simp add: getClusterValue_def fatsectnum_eq [OF assms] Let_def)
  then show thesis
    using that [of ?d] ok same by (simp add: cached_def)
qed

end
