(* ===== verification/Fat_Set.thy ===== *)
theory Fat_Set
  imports Fat_Table
begin

text \<open>
  Writing an entry: \<open>setClusterValue\<close> changes exactly one entry of the table, in every copy, and no
  sector outside the tables.
\<close>

section \<open>Packed entries\<close>

fun entry_bits :: "fat_type \<Rightarrow> nat" where
  "entry_bits FAT12 = 12"
| "entry_bits FAT16 = 16"
| "entry_bits FAT32 = 32"

text \<open>The number whose low bytes \<open>setClusterValue\<close> stores, from the two bytes it found.\<close>

fun packed :: "fat_type \<Rightarrow> nat \<Rightarrow> nat \<Rightarrow> nat \<Rightarrow> nat \<Rightarrow> nat" where
  "packed FAT12 c v x y =
     (if odd c then x mod 16 + 16 * (v mod 4096) else 4096 * (y div 16) + v mod 4096)"
| "packed FAT16 c v x y = v mod 2 ^ 16"
| "packed FAT32 c v x y = v"

definition new_byte :: "fat_type \<Rightarrow> nat \<Rightarrow> nat \<Rightarrow> (nat \<Rightarrow> u8) \<Rightarrow> nat \<Rightarrow> u8" where
  "new_byte ty c v b k = of_nat (packed ty c v (unat (b 0)) (unat (b 1)) div 2 ^ (8 * k))"

lemma nat_and_high:
  assumes "n < 2 ^ 16"
  shows "n AND 0xf000 = 4096 * ((n :: nat) div 4096)"
proof -
  have lit: "(0xf000 :: nat) = push_bit 12 (mask 4)"
    by (simp add: mask_eq_exp_minus_1 push_bit_eq_mult)
  have "n AND 0xf000 = push_bit 12 (drop_bit 12 n)"
  proof (rule bit_eqI)
    fix i
    have "bit n i \<Longrightarrow> i < 16"
      using assms bit_take_bit_iff [of 16 n i] by (simp add: take_bit_nat_eq_self)
    then show "bit (n AND 0xf000) i = bit (push_bit 12 (drop_bit 12 n)) i"
      unfolding lit by (auto simp: bit_and_iff bit_push_bit_iff bit_mask_iff bit_drop_bit_eq)
  qed
  then show ?thesis
    by (simp add: push_bit_eq_mult drop_bit_eq_div)
qed

lemma nat_or_disjoint: "a mod 2 ^ k = 0 \<Longrightarrow> b < 2 ^ k \<Longrightarrow> a OR b = a + (b :: nat)"
proof -
  assume a: "a mod 2 ^ k = 0" and b: "b < 2 ^ k"
  have "a OR b = push_bit k (a div 2 ^ k) OR take_bit k b"
    using a b by (simp add: push_bit_eq_mult take_bit_eq_mod mult.commute mod_0_imp_dvd)
  also have "\<dots> = push_bit k (a div 2 ^ k) + take_bit k b"
    by (rule disjunctive_add [symmetric]) (auto simp: bit_push_bit_iff bit_take_bit_iff)
  finally show ?thesis
    using a b by (simp add: push_bit_eq_mult take_bit_eq_mod mult.commute mod_0_imp_dvd)
qed

lemma two_bytes: "x < 256 \<Longrightarrow> y < (256 :: nat) \<Longrightarrow> x + 256 * y < 2 ^ 16"
  by simp

lemma packed_12:
  assumes "x < 256" "y < (256 :: nat)"
  shows "(if c AND 0x1 \<noteq> 0 then (x + 2 ^ 8 * y) AND 0xf OR push_bit 4 (v AND 0xfff)
     else (x + 2 ^ 8 * y) AND 0xf000 OR (v AND 0xfff)) = packed FAT12 c v x y"
proof -
  have "(x + 256 * y) div 4096 = y div 16"
    using assms by linarith
  moreover have "(x + 256 * y) mod 16 = x mod 16"
    using mod_mult_self2 [of x 16 "16 * y"] by simp
  moreover have "x mod 16 OR v mod 4096 * 16 = x mod 16 + 16 * (v mod 4096)"
    using nat_or_disjoint [of "16 * (v mod 4096)" 4 "x mod 16"]
    by (simp add: or.commute mult.commute)
  moreover have "4096 * (y div 16) OR v mod 4096 = 4096 * (y div 16) + v mod 4096"
    using nat_or_disjoint [of "4096 * (y div 16)" 12 "v mod 4096"] by simp
  ultimately show ?thesis
    using two_bytes [OF assms]
    by (simp add: nat_and_low nat_and_high push_bit_eq_mult odd_iff_mod_2_eq_one)
qed

lemma put_entry_bytes:
  assumes "off + entry_width ty \<le> length b"
  shows "length (put_entry ty c v b off) = length b"
    and "m < length b \<Longrightarrow> put_entry ty c v b off ! m =
      (if off \<le> m \<and> m < off + entry_width ty then new_byte ty c v (\<lambda>k. b ! (off + k)) (m - off)
       else b ! m)"
proof -
  have x: "unat (b ! off) < 256" "unat (b ! (off + 1)) < 256"
    using unat_bound [of "b ! off"] unat_bound [of "b ! (off + 1)"] by simp_all
  have twelve: "put_entry FAT12 c v b off =
      b[off := of_nat (packed FAT12 c v (unat (b ! off)) (unat (b ! (off + 1)))),
        off + 1 := of_nat (packed FAT12 c v (unat (b ! off)) (unat (b ! (off + 1))) div 256)]"
    unfolding put_entry_def Let_def fat_type.case var_read16_def packed_12 [OF x, of c v]
      var_write16_def by (simp only: power_numeral) simp
  show "length (put_entry ty c v b off) = length b"
    using twelve by (cases ty) (simp_all add: put_entry_def var_write16_def var_write32_def)
  show "put_entry ty c v b off ! m =
      (if off \<le> m \<and> m < off + entry_width ty then new_byte ty c v (\<lambda>k. b ! (off + k)) (m - off)
       else b ! m)" if "m < length b"
  proof (cases "off \<le> m \<and> m < off + entry_width ty")
    case True
    then obtain k where k: "m = off + k" "k < entry_width ty"
      by (metis add_less_cancel_left le_Suc_ex)
    have "k < 4"
      using k(2) by (cases ty) auto
    then consider "k = 0" | "k = 1" | "k = 2" | "k = 3"
      by linarith
    then show ?thesis
      using k assms twelve
      by cases (cases ty; simp add: put_entry_def var_write16_def var_write32_def new_byte_def)+
  next
    case False
    then show ?thesis
      using twelve by (cases ty) (auto simp: put_entry_def var_write16_def var_write32_def)
  qed
qed

lemma entry_width_pos: "1 < entry_width ty"
  by (cases ty) auto

section \<open>The changed entry and the others\<close>

lemma byte_of_nat: "unat (of_nat n :: u8) = n mod 256"
  by (simp add: unat_of_nat)

lemma split_16: "n < 65536 \<Longrightarrow> n mod 256 + 256 * (n div 256 mod 256) = (n :: nat)"
  by (simp add: less_mult_imp_div_less)

lemma split_32:
  "v mod 256 + 256 * (v div 256 mod 256) + 65536 * (v div 65536 mod 256) +
     16777216 * (v div 16777216 mod 256) = (v :: nat) mod 4294967296"
proof -
  have a: "v mod 4294967296 = 256 * (v div 256 mod 16777216) + v mod 256"
    using mod_mult2_eq [of v 256 16777216] by simp
  have b: "v div 256 mod 16777216 = 256 * (v div 65536 mod 65536) + v div 256 mod 256"
    using mod_mult2_eq [of "v div 256" 256 65536] div_mult2_eq [of v 256 256] by simp
  have c: "v div 65536 mod 65536 = 256 * (v div 16777216 mod 256) + v div 65536 mod 256"
    using mod_mult2_eq [of "v div 65536" 256 256] div_mult2_eq [of v 65536 256] by simp
  show ?thesis
    unfolding a b c by simp
qed

lemma low_nibble: "(b + 256 * a) mod 4096 = (b + 256 * (a mod 16)) mod (4096 :: nat)"
proof -
  have "256 * (a mod 16) = 256 * a mod 4096"
    using mult_mod_right [of 256 a 16] by simp
  then show ?thesis
    by (simp only: mod_add_right_eq)
qed

lemma shared_byte:
  assumes "y < 256" "w < (4096 :: nat)"
  shows "(4096 * (y div 16) + w) div 256 mod 256 div 16 = y div 16"
proof -
  have "(4096 * (y div 16) + w) div 256 = 16 * (y div 16) + w div 256"
    using div_mult_self4 [of 256 "16 * (y div 16)" w] by simp
  moreover have "y div 16 < 16" "w div 256 < 16"
    using assms by (simp_all add: less_mult_imp_div_less)
  moreover from this have "16 * (y div 16) + w div 256 < 256"
    by linarith
  ultimately show ?thesis
    by simp
qed

lemma decode_changed:
  "decode_entry ty c (new_byte ty c v b) = v mod 2 ^ entry_bits ty"
proof (cases ty)
  case FAT12
  let ?x = "unat (b 0)" and ?y = "unat (b 1)"
  have x: "?x < 256" "?y < 256"
    using unat_bound [of "b 0"] unat_bound [of "b 1"] by simp_all
  let ?n = "packed FAT12 c v ?x ?y"
  have "?y div 16 < 16" "v mod 4096 < 4096" "?x mod 16 < 16"
    using x by auto
  then have n: "?n < 65536"
    unfolding packed.simps by (auto simp only: split: if_split)
  have "?n mod 256 + 256 * (?n div 256 mod 256) = ?n"
    using n by (rule split_16)
  moreover have "odd c \<Longrightarrow> ?n div 16 = v mod 4096" "even c \<Longrightarrow> ?n mod 4096 = v mod 4096"
    by simp_all
  ultimately show ?thesis
    using FAT12 by (cases "odd c") (simp_all add: new_byte_def byte_of_nat Let_def del: packed.simps)
next
  case FAT16
  have "v mod 65536 mod 256 + 256 * (v mod 65536 div 256 mod 256) = v mod 65536"
    by (rule split_16) simp
  then show ?thesis
    using FAT16 by (simp add: new_byte_def byte_of_nat)
next
  case FAT32
  note split_32 [of v]
  then show ?thesis
    using FAT32 by (simp add: new_byte_def byte_of_nat)
qed

text \<open>
  Two entries of 12 bits share the byte in the middle of three; the other half of that byte is
  written back as it was.
\<close>

lemma decode_neighbour:
  assumes "c \<noteq> c'"
    and f: "\<And>i. f' i = (if entry_pos ty c \<le> i \<and> i < entry_pos ty c + entry_width ty
       then new_byte ty c v (\<lambda>k. f (entry_pos ty c + k)) (i - entry_pos ty c) else f i)"
  shows "decode_entry ty c' (\<lambda>i. f' (entry_pos ty c' + i)) =
    decode_entry ty c' (\<lambda>i. f (entry_pos ty c' + i))"
proof (cases ty)
  case FAT12
  let ?p = "entry_pos FAT12 c"
  let ?x = "unat (f ?p)" and ?y = "unat (f (?p + 1))"
  let ?n = "packed FAT12 c v ?x ?y"
  have x: "?x < 256" "?y < 256"
    using unat_bound [of "f ?p"] unat_bound [of "f (?p + 1)"] by simp_all
  have f0: "f' ?p = of_nat ?n" "f' (?p + 1) = of_nat (?n div 256)"
    using FAT12 by (simp_all only: f) (simp_all add: new_byte_def)
  have other: "f' i = f i" if "i < ?p \<or> ?p + 2 \<le> i" for i
    using that FAT12 by (auto simp: f)
  have "even c \<and> c' = c + 1 \<or> odd c \<and> c = c' + 1 \<or> c div 2 \<noteq> c' div 2"
    using assms(1) by presburger
  then consider "even c" "c' = c + 1" | "odd c" "c = c' + 1" | "c div 2 \<noteq> c' div 2"
    by blast
  then show ?thesis
  proof cases
    case 1
    have p: "entry_pos FAT12 c' = ?p + 1"
      using 1 by (auto elim!: evenE)
    have "unat (f' (?p + 1)) div 16 = ?y div 16"
      using 1(1) f0(2) shared_byte [OF x(2), of "v mod 4096"] by (simp add: byte_of_nat)
    moreover have "f' (?p + 2) = f (?p + 2)"
      by (rule other) simp
    moreover have "(a + 256 * b) div 16 = a div 16 + 16 * b" for a b :: nat
      using div_mult_self2 [of 16 a "16 * b"] by simp
    ultimately show ?thesis
      using 1 FAT12 p by (simp add: Let_def add.assoc)
  next
    case 2
    have p: "?p = entry_pos FAT12 c' + 1"
      using 2 by (auto elim!: oddE)
    have "unat (f' ?p) mod 16 = ?n mod 256 mod 16"
      by (simp only: f0(1) byte_of_nat)
    also have "\<dots> = ?x mod 16"
      using 2(1) by (simp add: mod_mod_cancel)
    finally have "unat (f' ?p) mod 16 = ?x mod 16" .
    moreover have "f' (entry_pos FAT12 c') = f (entry_pos FAT12 c')"
      by (rule other, unfold p) simp
    moreover have "even c'"
      using 2 by simp
    moreover from low_nibble [of "unat (f (entry_pos FAT12 c'))" "unat (f' ?p)"]
      low_nibble [of "unat (f (entry_pos FAT12 c'))" "?x"] calculation(1)
    have "(unat (f (entry_pos FAT12 c')) + 256 * unat (f' ?p)) mod 4096 =
        (unat (f (entry_pos FAT12 c')) + 256 * ?x) mod 4096"
      by simp
    ultimately show ?thesis
      unfolding FAT12 p by (simp add: Let_def)
  next
    case 3
    have "entry_pos FAT12 c' + 1 < ?p \<or> ?p + 2 \<le> entry_pos FAT12 c'"
      unfolding entry_pos.simps
    using 3 div_mult_mod_eq [of c 2] div_mult_mod_eq [of c' 2] mod_less_divisor [of 2 c]
      mod_less_divisor [of 2 c'] by linarith
    then have "f' (entry_pos FAT12 c') = f (entry_pos FAT12 c')"
      "f' (entry_pos FAT12 c' + 1) = f (entry_pos FAT12 c' + 1)"
      using other [of "entry_pos FAT12 c'"] other [of "entry_pos FAT12 c' + 1"] by linarith+
    then show ?thesis
      unfolding FAT12 by (simp add: Let_def)
  qed
next
  case FAT16
  then show ?thesis
    using assms(1) by (simp add: f)
next
  case FAT32
  then show ?thesis
    using assms(1) by (simp add: f)
qed

section \<open>Writing the copies\<close>

definition straddles :: "fat_drive \<Rightarrow> nat \<Rightarrow> bool" where
  "straddles d c \<longleftrightarrow> fattype d = FAT12 \<and> 511 \<le> entry_pos (fattype d) c mod 512"

lemma entry_fits:
  "entry_pos (fattype d) c mod 512 + entry_width (fattype d) \<le> (if straddles d c then 513 else 512)"
proof (cases "fattype d")
  case FAT12
  show ?thesis
    using mod_less_divisor [of 512 "entry_pos (fattype d) c"]
    by (cases "straddles d c") (auto simp: straddles_def FAT12 simp del: entry_pos.simps)
next
  case FAT16
  then have "2 dvd entry_pos (fattype d) c mod 512"
    by (simp add: dvd_mod)
  then have "entry_pos (fattype d) c mod 512 + 2 \<le> 512"
    using aligned_room [of 2 "entry_pos (fattype d) c mod 512" 256 1] by simp
  then show ?thesis
    by (simp add: FAT16 straddles_def)
next
  case FAT32
  then have "4 dvd entry_pos (fattype d) c mod 512"
    by (simp add: dvd_mod)
  then have "entry_pos (fattype d) c mod 512 + 4 \<le> 512"
    using aligned_room [of 4 "entry_pos (fattype d) c mod 512" 128 3] by simp
  then show ?thesis
    by (simp add: FAT32 straddles_def)
qed

lemma straddles_fits:
  assumes "layout_ok d" "c \<in> clusters d" "straddles d c"
  shows "entry_sector d c + 1 < sectorsperfat d"
proof -
  have "entry_pos (fattype d) c = 512 * entry_sector d c + entry_pos (fattype d) c mod 512"
    by (simp add: entry_sector_def)
  moreover have twelve: "fattype d = FAT12" "511 \<le> entry_pos (fattype d) c mod 512"
    using assms(3) unfolding straddles_def by blast+
  moreover from twelve have "entry_width (fattype d) = 2"
    by simp
  ultimately show ?thesis
    using entry_in_table(1) [OF assms(1,2)] by linarith
qed

text \<open>What sector \<open>j\<close> of a copy holds after the buffer \<open>b\<close> was written to it.\<close>

definition written :: "fat_drive \<Rightarrow> nat \<Rightarrow> u8 list \<Rightarrow> nat \<Rightarrow> u8 list \<Rightarrow> u8 list" where
  "written d c b j old =
     (if j = entry_sector d c then take 512 b
      else if straddles d c \<and> j = entry_sector d c + 1 then drop 512 b else old)"

definition outside_fats :: "fat_drive \<Rightarrow> nat \<Rightarrow> bool" where
  "outside_fats d n \<longleftrightarrow> n < fat_start d \<or> firstRootDirSect d \<le> n"

lemma copy_sector_inj:
  assumes "j < sectorsperfat d" "j' < sectorsperfat d"
  shows "fat_start d + fc * sectorsperfat d + j = fat_start d + fc' * sectorsperfat d + j' \<longleftrightarrow>
    fc = fc' \<and> j = j'"
  using radix_inj [of fc "sectorsperfat d" j fc' j'] assms by auto

lemma write_fat_sector:
  assumes ok: "sectors_ok d" "layout_ok d" and fc: "fc < fatcopies d" "j < sectorsperfat d"
    and b: "length b = 512"
  defines "d' \<equiv> writeSector (wrap32 (fat_start d + fc * sectorsperfat d + j)) b d"
  shows "sectors_ok d'" "same_layout d d'" "fatSectBuffer d' = fatSectBuffer d"
    and "curFatSect d' = curFatSect d"
    and "\<lbrakk>fc' < fatcopies d; j' < sectorsperfat d\<rbrakk> \<Longrightarrow>
      fat_sector d' fc' j' = (if fc' = fc \<and> j' = j then b else fat_sector d fc' j')"
    and "\<lbrakk>n < sector_count d; outside_fats d n\<rbrakk> \<Longrightarrow> sector d' n = sector d n"
proof -
  let ?n = "fat_start d + fc * sectorsperfat d + j"
  have n: "?n < sector_count d"
    using fat_sectors_exist [OF ok(2) fc] .
  then have d': "d' = writeSector ?n b d"
    using count_bound [OF ok(1) n] by (simp add: d'_def)
  show "sectors_ok d'" "same_layout d d'" "fatSectBuffer d' = fatSectBuffer d"
    "curFatSect d' = curFatSect d"
    using write_sector(1) [OF ok(1) n b] by (simp_all add: d')
  show "fat_sector d' fc' j' = (if fc' = fc \<and> j' = j then b else fat_sector d fc' j')"
    if "fc' < fatcopies d" "j' < sectorsperfat d"
  proof -
    have "fat_start d' = fat_start d" "sectorsperfat d' = sectorsperfat d"
      by (simp_all add: d' fat_start_def)
    then show ?thesis
      unfolding fat_sector_def
      using write_sector(2) [OF ok(1) n b fat_sectors_exist [OF ok(2) that]]
        copy_sector_inj [OF that(2) fc(2), of fc' fc]
      by (simp only: d')
  qed
  show "sector d' n = sector d n" if "n < sector_count d" "outside_fats d n"
  proof -
    have "n \<noteq> ?n"
      using copies_fit [OF ok(2) fc] that(2) unfolding outside_fats_def by linarith
    then show ?thesis
      unfolding d' write_sector(2) [OF ok(1) n b that(1)] by (rule if_not_P)
  qed
qed

text \<open>The drive after the first \<open>k\<close> copies of the table were written from the buffer.\<close>

definition copies_written :: "fat_drive \<Rightarrow> nat \<Rightarrow> nat \<Rightarrow> fat_drive \<Rightarrow> bool" where
  "copies_written d c k d' \<longleftrightarrow> sectors_ok d' \<and> same_layout d d' \<and>
     fatSectBuffer d' = fatSectBuffer d \<and> curFatSect d' = curFatSect d \<and>
     (\<forall>fc < fatcopies d. \<forall>j < sectorsperfat d. fat_sector d' fc j =
        (if fc < k then written d c (fatSectBuffer d) j (fat_sector d fc j)
         else fat_sector d fc j)) \<and>
     (\<forall>n < sector_count d. outside_fats d n \<longrightarrow> sector d' n = sector d n)"

lemma write_fat_copy_eq:
  assumes "fattype d' = fattype d"
  shows "write_fat_copy n (entry_pos (fattype d) c mod 512) k d' =
    (let d1 = writeSector (wrap32 (n + k * sectorsperfat d')) (take 512 (fatSectBuffer d')) d'
     in if straddles d c
        then writeSector (wrap32 (n + k * sectorsperfat d' + 1)) (drop 512 (fatSectBuffer d')) d1
        else d1)"
  unfolding write_fat_copy_def straddles_def assms BytePerSector_def Let_def by (simp only: ac_simps)

lemma write_copy_step:
  assumes ok: "layout_ok d" "c \<in> clusters d" "length (fatSectBuffer d) = 1024"
    and w: "copies_written d c k d'" and k: "k < fatcopies d"
  shows "copies_written d c (Suc k)
    (write_fat_copy (fat_start d + entry_sector d c) (entry_pos (fattype d) c mod 512) k d')"
proof -
  let ?j = "entry_sector d c" and ?b = "fatSectBuffer d"
  have same: "same_layout d d'" "layout_ok d'" "sectors_ok d'" "fatSectBuffer d' = ?b"
    using w ok(1) layout_ok_layout by (auto simp: copies_written_def)
  have start: "fat_start d' = fat_start d"
    using same by (simp add: fat_start_def)
  have out: "outside_fats d' = outside_fats d" "sector_count d' = sector_count d"
    using same start by (simp_all add: outside_fats_def fun_eq_iff sector_count_layout)
  have j: "?j < sectorsperfat d"
    using entry_sector_bound ok by blast
  define d1 where "d1 = writeSector (wrap32 (fat_start d' + k * sectorsperfat d' + ?j)) (take 512 ?b) d'"
  have step1: "k < fatcopies d'" "?j < sectorsperfat d'" "length (take 512 ?b) = 512"
    using k j same ok by simp_all
  note w1 = write_fat_sector [OF same(3,2) step1, folded d1_def]
  show ?thesis
  proof (cases "straddles d c")
    case False
    then have "write_fat_copy (fat_start d + ?j) (entry_pos (fattype d) c mod 512) k d' = d1"
      using same start by (simp add: write_fat_copy_eq d1_def ac_simps)
    then show ?thesis
      using w w1 same out False start same_layout_trans [of d d' d1]
      by (auto simp: copies_written_def written_def less_Suc_eq)
  next
    case True
    have j1: "?j + 1 < sectorsperfat d"
      using straddles_fits ok True by blast
    have same1: "same_layout d d1" "layout_ok d1" "fat_start d1 = fat_start d"
      using same_layout_trans [OF same(1) w1(2)] ok(1) layout_ok_layout w1(2)
      by (auto simp: fat_start_def)
    define d2 where "d2 = writeSector (wrap32 (fat_start d1 + k * sectorsperfat d1 + (?j + 1))) (drop 512 ?b) d1"
    have step2: "k < fatcopies d1" "?j + 1 < sectorsperfat d1" "length (drop 512 ?b) = 512"
      using k j1 same1 ok by simp_all
    note w2 = write_fat_sector [OF w1(1) same1(2) step2, folded d2_def]
    have "write_fat_copy (fat_start d + ?j) (entry_pos (fattype d) c mod 512) k d' = d2"
      using same same1 start True by (simp add: write_fat_copy_eq d1_def d2_def ac_simps)
    moreover have "outside_fats d1 = outside_fats d" "sector_count d1 = sector_count d"
      using same1 by (simp_all add: outside_fats_def fun_eq_iff sector_count_layout)
    ultimately show ?thesis
      using w w1 w2 same same1 out True start same_layout_trans [OF same1(1), of d2]
      by (auto simp: copies_written_def written_def less_Suc_eq)
  qed
qed

lemma copies_written_fold:
  assumes ok: "layout_ok d" "c \<in> clusters d" "length (fatSectBuffer d) = 1024" "sectors_ok d"
    and k: "k \<le> fatcopies d"
  shows "copies_written d c k (fold (write_fat_copy (fat_start d + entry_sector d c)
     (entry_pos (fattype d) c mod 512)) [0..<k] d)"
  using k
proof (induction k)
  case 0
  then show ?case
    using ok(4) by (simp add: copies_written_def)
next
  case (Suc k)
  then show ?case
    using write_copy_step [OF ok(1-3), of k] by simp
qed

section \<open>The effect on the table\<close>

definition mirrored :: "fat_drive \<Rightarrow> bool" where
  "mirrored d \<longleftrightarrow> (\<forall>fc < fatcopies d. \<forall>j < sectorsperfat d. fat_sector d fc j = fat_sector d 0 j)"

lemma new_byte_cong:
  "b 0 = b' 0 \<Longrightarrow> b 1 = b' 1 \<Longrightarrow> new_byte ty c v b k = new_byte ty c v b' k"
  by (simp add: new_byte_def)

text \<open>The state of \<open>setClusterValue\<close> before it writes the sectors back.\<close>

definition entry_put :: "nat \<Rightarrow> nat \<Rightarrow> fat_drive \<Rightarrow> fat_drive" where
  "entry_put c v d = (let d1 = load_fat_sector (fat_start d + entry_sector d c) d
     in d1\<lparr>fatSectBuffer := put_entry (fattype d) c v (fatSectBuffer d1)
            (entry_pos (fattype d) c mod 512)\<rparr>)"

lemma entry_put_layout [simp]: "same_layout d (entry_put c v d)"
  using same_layout_trans [OF load_fat_layout same_layout_updates(1)]
  by (simp add: entry_put_def Let_def)

lemma entry_put_diskimg [simp]: "diskimg (entry_put c v d) = diskimg d"
  by (simp add: entry_put_def Let_def)

lemma entry_put_current [simp]: "curFatSect (entry_put c v d) = fat_start d + entry_sector d c"
  by (simp add: entry_put_def Let_def)

lemmas entry_put_fields [simp] = same_layout_fields [OF entry_put_layout]

lemma fatsectnum_buffer [simp]:
  "fatsectnum c (d\<lparr>fatSectBuffer := b\<rparr>) = fatsectnum c d"
  "fatentoff c (d\<lparr>fatSectBuffer := b\<rparr>) = fatentoff c d"
  by (simp_all add: fatsectnum_def fatentoff_def)

lemma written_entry_put [simp]: "written (entry_put c v d) = written d"
  by (simp add: written_def fun_eq_iff straddles_def entry_sector_def)

lemma entry_put_sector [simp]: "sector (entry_put c v d) = sector d"
  by (rule sector_cong) simp_all

lemma fat_sector_entry_put [simp]: "fat_sector (entry_put c v d) = fat_sector d"
  by (simp add: fat_sector_def fat_start_def fun_eq_iff)

lemma set_written:
  assumes "fat_ok d" "c \<in> clusters d"
  shows "copies_written (entry_put c v d) c (fatcopies d) (setClusterValue c v d)"
    and "length (fatSectBuffer (entry_put c v d)) = 1024"
proof -
  let ?d1 = "load_fat_sector (fat_start d + entry_sector d c) d" and ?d2 = "entry_put c v d"
  have parts: "sectors_ok d" "layout_ok d"
    using assms by (simp_all add: fat_ok_def)
  have ok1: "fat_ok ?d1"
    using assms(1) entry_sector_bound [OF parts(2) assms(2)] by (intro load_fat_ok) (simp_all add: in_fat_def)
  then have "length (fatSectBuffer ?d1) = 1024"
    by (simp add: fat_ok_def cache_ok_def)
  moreover have "entry_pos (fattype d) c mod 512 + entry_width (fattype d) \<le> 1024"
    using mod_less_divisor [of 512 "entry_pos (fattype d) c"] by (cases "fattype d") auto
  ultimately show len: "length (fatSectBuffer ?d2) = 1024"
    by (simp add: entry_put_def Let_def put_entry_bytes)
  have "copies_written ?d2 c (fatcopies ?d2) (fold (write_fat_copy (fat_start ?d2 + entry_sector ?d2 c)
     (entry_pos (fattype ?d2) c mod 512)) [0..<fatcopies ?d2] ?d2)"
    using len parts assms(2) by (intro copies_written_fold)
      (simp_all add: layout_ok_layout [OF entry_put_layout] clusters_layout [OF entry_put_layout]
        sectors_ok_cong [OF entry_put_layout])
  moreover have "setClusterValue c v d = fold (write_fat_copy (fat_start d + entry_sector d c)
     (entry_pos (fattype d) c mod 512)) [0..<fatcopies d] ?d2"
    using fatsectnum_eq [OF assms] fatsectnum_eq [OF ok1, of c] assms(2)
      clusters_layout [OF load_fat_layout]
    by (simp add: setClusterValue_def entry_put_def Let_def fat_start_def entry_sector_def)
  ultimately show "copies_written ?d2 c (fatcopies d) (setClusterValue c v d)"
    by (simp add: fat_start_def entry_sector_def)
qed

lemma put_buffer_byte:
  assumes ok: "fat_ok d" "c \<in> clusters d"
    and i: "512 * entry_sector d c \<le> i" "i < 512 * sectorsperfat d"
      "i < 512 * (entry_sector d c + 1) \<or> fattype d = FAT12 \<and> i < 512 * (entry_sector d c + 2)"
  shows "fatSectBuffer (entry_put c v d) ! (i - 512 * entry_sector d c) =
    (if entry_pos (fattype d) c \<le> i \<and> i < entry_pos (fattype d) c + entry_width (fattype d)
     then new_byte (fattype d) c v (\<lambda>k. table_byte d (entry_pos (fattype d) c + k))
       (i - entry_pos (fattype d) c)
     else table_byte d i)"
proof -
  let ?j = "entry_sector d c" and ?p = "entry_pos (fattype d) c" and ?w = "entry_width (fattype d)"
  let ?d1 = "load_fat_sector (fat_start d + ?j) d"
  have parts: "sectors_ok d" "layout_ok d"
    using ok by (simp_all add: fat_ok_def)
  have j: "?j < sectorsperfat d"
    using entry_sector_bound [OF parts(2) ok(2)] .
  have ok1: "fat_ok ?d1"
    using ok(1) j by (intro load_fat_ok) (simp_all add: in_fat_def)
  have len: "length (fatSectBuffer ?d1) = 1024"
    using ok1 by (simp add: fat_ok_def cache_ok_def)
  have tb: "table_byte ?d1 = table_byte d"
    by (simp add: table_byte_def fat_sector_def fat_start_def fun_eq_iff)
  have p: "?p = 512 * ?j + ?p mod 512"
    by (simp add: entry_sector_def)
  have "fatSectBuffer ?d1 ! (i - 512 * ?j) = table_byte d i"
    using buffer_bytes [OF ok1, of ?j i] j i tb by (simp add: fat_start_def)
  moreover have "fatSectBuffer ?d1 ! (?p mod 512 + k) = table_byte d (?p + k)" if "k < ?w" for k
    using entry_bytes [OF ok1, of c k] ok(2) that tb clusters_layout [OF load_fat_layout]
    by (simp add: fat_start_def entry_sector_def)
  from this [of 0] this [of 1] have "fatSectBuffer ?d1 ! (?p mod 512 + 0) = table_byte d (?p + 0)"
    "fatSectBuffer ?d1 ! (?p mod 512 + 1) = table_byte d (?p + 1)"
    using entry_width_pos [of "fattype d"] by linarith+
  then have "new_byte (fattype d) c v (\<lambda>k. fatSectBuffer ?d1 ! (?p mod 512 + k)) =
      new_byte (fattype d) c v (\<lambda>k. table_byte d (?p + k))"
    by (intro ext new_byte_cong) auto
  moreover have "?p mod 512 + ?w \<le> length (fatSectBuffer ?d1)"
    using mod_less_divisor [of 512 ?p] len by (cases "fattype d") auto
  moreover have "i - 512 * ?j < length (fatSectBuffer ?d1)"
    using i len by auto
  moreover have "?p mod 512 \<le> i - 512 * ?j \<longleftrightarrow> ?p \<le> i"
    "i - 512 * ?j < ?p mod 512 + ?w \<longleftrightarrow> i < ?p + ?w"
    "i - 512 * ?j - ?p mod 512 = i - ?p"
    using p i(1) by linarith+
  ultimately show ?thesis
    by (simp add: entry_put_def Let_def put_entry_bytes)
qed

lemma set_table_byte:
  assumes ok: "fat_ok d" "c \<in> clusters d" and i: "i < 512 * sectorsperfat d"
  shows "table_byte (setClusterValue c v d) i =
    (if entry_pos (fattype d) c \<le> i \<and> i < entry_pos (fattype d) c + entry_width (fattype d)
     then new_byte (fattype d) c v (\<lambda>k. table_byte d (entry_pos (fattype d) c + k))
       (i - entry_pos (fattype d) c)
     else table_byte d i)"
proof -
  let ?j = "entry_sector d c" and ?p = "entry_pos (fattype d) c" and ?w = "entry_width (fattype d)"
  let ?b = "fatSectBuffer (entry_put c v d)"
  have parts: "layout_ok d"
    using ok by (simp add: fat_ok_def)
  have p: "?p = 512 * ?j + ?p mod 512"
    by (simp add: entry_sector_def)
  obtain q r where d: "i = 512 * q + r" "r < 512" and eq: "i div 512 = q" "i mod 512 = r"
    by (rule that [of "i div 512" "i mod 512"]) simp_all
  have jd: "q < sectorsperfat d"
    using i d by linarith
  have byte: "table_byte (setClusterValue c v d) i =
      written d c ?b q (fat_sector d 0 q) ! (r)"
    using set_written(1) [OF ok, of v] parts jd eq
    by (simp add: copies_written_def table_byte_def layout_ok_def)
  have len: "length ?b = 1024"
    using set_written(2) [OF ok] .
  consider "q = ?j" | "straddles d c" "q = ?j + 1"
    | "q \<noteq> ?j" "\<not> (straddles d c \<and> q = ?j + 1)"
    by blast
  then show ?thesis
  proof cases
    case 1
    then have "i - 512 * ?j = r" "512 * ?j \<le> i" "i < 512 * (?j + 1)"
      using d by simp_all
    then show ?thesis
      using put_buffer_byte [OF ok, of i v] i byte 1 by (simp add: written_def)
  next
    case 2
    then have "i - 512 * ?j = 512 + r" "512 * ?j \<le> i" "i < 512 * (?j + 2)"
      using d by simp_all
    moreover have "fattype d = FAT12"
      using 2(1) unfolding straddles_def by blast
    ultimately show ?thesis
      using put_buffer_byte [OF ok, of i v] i byte 2 len by (simp add: written_def)
  next
    case 3
    have "\<not> (?p \<le> i \<and> i < ?p + ?w)"
    proof
      assume in_entry: "?p \<le> i \<and> i < ?p + ?w"
      have "?j \<le> q"
        using in_entry eq(1) by (auto simp: entry_sector_def div_le_mono)
      then show False
        using in_entry 3 p d entry_fits [of d c] by (cases "straddles d c") auto
    qed
    then show ?thesis
      using byte 3 by (auto simp: written_def table_byte_def eq)
  qed
qed

lemma decode_entry_cong:
  assumes "\<And>k. k < entry_width ty \<Longrightarrow> b k = b' k"
  shows "decode_entry ty c b = decode_entry ty c b'"
  using assms [of 0] assms [of 1] assms [of 2] assms [of 3] by (cases ty) (simp_all add: Let_def)

lemma set_effect:
  fixes v :: nat
  assumes ok: "fat_ok d" "c \<in> clusters d"
  defines "d' \<equiv> setClusterValue c v d"
  shows "same_layout d d'" "sectors_ok d'" "fat_start d' = fat_start d"
    and "fatSectBuffer d' = fatSectBuffer (entry_put c v d)"
    and "curFatSect d' = fat_start d + entry_sector d c"
    and "\<lbrakk>fc < fatcopies d; j < sectorsperfat d\<rbrakk> \<Longrightarrow>
      fat_sector d' fc j = written d c (fatSectBuffer (entry_put c v d)) j (fat_sector d fc j)"
    and "\<lbrakk>n < sector_count d; outside_fats d n\<rbrakk> \<Longrightarrow> sector d' n = sector d n"
proof -
  have w: "copies_written (entry_put c v d) c (fatcopies d) d'"
    using set_written(1) [OF ok, of v] by (simp add: d'_def)
  show same: "same_layout d d'"
    using w same_layout_trans [OF entry_put_layout] unfolding copies_written_def by blast
  show "fat_start d' = fat_start d"
    unfolding fat_start_def same_layout_fields(3,9) [OF same] ..
  have put: "outside_fats (entry_put c v d) = outside_fats d"
    "sector_count (entry_put c v d) = sector_count d"
    by (simp_all add: outside_fats_def fun_eq_iff fat_start_def sector_count_def)
  show "sectors_ok d'" "fatSectBuffer d' = fatSectBuffer (entry_put c v d)"
    "curFatSect d' = fat_start d + entry_sector d c"
    using w by (simp_all add: copies_written_def)
  show "fat_sector d' fc j = written d c (fatSectBuffer (entry_put c v d)) j (fat_sector d fc j)"
    if "fc < fatcopies d" "j < sectorsperfat d"
    using w that by (simp add: copies_written_def)
  show "sector d' n = sector d n" if "n < sector_count d" "outside_fats d n"
    using w that put by (simp add: copies_written_def)
qed

lemma second_half:
  fixes v :: nat
  assumes ok: "fat_ok d" "c \<in> clusters d"
  defines "d' \<equiv> setClusterValue c v d"
  assumes ty: "fattype d = FAT12" and n: "in_fat d (fat_start d + entry_sector d c + 1)"
  shows "drop 512 (fatSectBuffer d') = sector d' (curFatSect d' + 1)"
proof -
  let ?j = "entry_sector d c" and ?p = "entry_pos (fattype d) c"
  let ?b = "fatSectBuffer (entry_put c v d)" and ?d1 = "load_fat_sector (fat_start d + ?j) d"
  note effect = set_effect [OF ok, where v = v, folded d'_def]
  have parts: "layout_ok d" "?j + 1 < sectorsperfat d" "0 < fatcopies d"
    using ok n by (simp_all add: fat_ok_def in_fat_def layout_ok_def)
  have cur: "fatSectBuffer d' = ?b"
    using effect by simp
  have sec: "sector d' (curFatSect d' + 1) = written d c ?b (?j + 1) (fat_sector d 0 (?j + 1))"
    using effect(6) [OF parts(3,2)]
    unfolding fat_sector_def effect(3,5) same_layout_fields(6) [OF effect(1)] by (simp add: add.assoc)
  show ?thesis
  proof (cases "straddles d c")
    case True
    then show ?thesis
      using sec cur by (simp add: written_def)
  next
    case False
    have here: "in_fat d (fat_start d + ?j)"
      using parts by (simp add: in_fat_def)
    then have ok1: "fat_ok ?d1"
      using ok(1) load_fat_ok by blast
    then have buf: "length (fatSectBuffer ?d1) = 1024" "drop 512 (fatSectBuffer ?d1) = fat_sector d 0 (?j + 1)"
      using ty n here in_fat_layout [OF load_fat_layout]
      by (simp_all add: fat_ok_def cache_ok_def fat_sector_def add.assoc)
    have fits: "?p mod 512 + 2 \<le> 512"
      using False ty unfolding straddles_def by simp
    have len: "length ?b = 1024"
      using set_written(2) [OF ok] .
    have "drop 512 ?b = drop 512 (fatSectBuffer ?d1)"
    proof (rule nth_equalityI)
      fix i assume i: "i < length (drop 512 ?b)"
      have "?b ! (512 + i) = fatSectBuffer ?d1 ! (512 + i)"
        using put_entry_bytes(2) [of "?p mod 512" FAT12 "fatSectBuffer ?d1" "512 + i" c v] fits buf(1) i len ty
        by (simp add: entry_put_def Let_def)
      then show "drop 512 ?b ! i = drop 512 (fatSectBuffer ?d1) ! i"
        using i len buf(1) by simp
    qed (use len buf(1) in simp)
    then show ?thesis
      using sec cur buf False by (simp add: written_def)
  qed
qed

text \<open>The table, the other sectors and the invariant after \<open>setClusterValue\<close>.\<close>

lemma setClusterValue:
  fixes v :: nat
  assumes ok: "fat_ok d" "c \<in> clusters d"
  defines "d' \<equiv> setClusterValue c v d"
  shows "same_layout d d'" and "fat_ok d'"
    and "c' \<in> clusters d \<Longrightarrow>
      table d' c' = (if c' = c then v mod 2 ^ entry_bits (fattype d) else table d c')"
    and "n < sector_count d \<Longrightarrow> outside_fats d n \<Longrightarrow> sector d' n = sector d n"
    and "mirrored d \<Longrightarrow> mirrored d'"
proof -
  let ?d2 = "entry_put c v d" and ?ty = "fattype d"
  have parts: "layout_ok d" "0 < fatcopies d"
    using ok by (simp_all add: fat_ok_def layout_ok_def)
  note effect = set_effect [OF ok, where v = v, folded d'_def]
  show same: "same_layout d d'"
    using effect by simp
  show "sector d' n = sector d n" if "n < sector_count d" "outside_fats d n"
    using effect(7) that by simp
  show "mirrored d'" if "mirrored d"
    unfolding mirrored_def same_layout_fields(4,6) [OF same]
  proof (intro allI impI)
    fix fc j assume fc: "fc < fatcopies d" and j: "j < sectorsperfat d"
    then have "fat_sector d fc j = fat_sector d 0 j"
      using that unfolding mirrored_def by blast
    then show "fat_sector d' fc j = fat_sector d' 0 j"
      by (simp only: effect(6) [OF fc j] effect(6) [OF parts(2) j])
  qed
  show "table d' c' = (if c' = c then v mod 2 ^ entry_bits ?ty else table d c')" if c': "c' \<in> clusters d"
  proof -
    let ?f = "table_byte d" and ?e = "new_byte ?ty c v (\<lambda>k. table_byte d (entry_pos ?ty c + k))"
    define f' where "f' = (\<lambda>i. if entry_pos ?ty c \<le> i \<and> i < entry_pos ?ty c + entry_width ?ty
      then ?e (i - entry_pos ?ty c) else ?f i)"
    have "table_byte d' (entry_pos ?ty c' + k) = f' (entry_pos ?ty c' + k)" if "k < entry_width ?ty" for k
      using set_table_byte [OF ok, of "entry_pos ?ty c' + k" v] entry_in_table(1) [OF parts(1) c'] that
      by (simp add: f'_def d'_def)
    then have "table d' c' = decode_entry ?ty c' (\<lambda>k. f' (entry_pos ?ty c' + k))"
      unfolding table_def same_layout_fields(11) [OF same]
      by (intro decode_entry_cong) simp
    moreover have "decode_entry ?ty c (\<lambda>k. f' (entry_pos ?ty c + k)) = decode_entry ?ty c ?e"
      by (intro decode_entry_cong) (simp add: f'_def)
    moreover have "decode_entry ?ty c' (\<lambda>k. f' (entry_pos ?ty c' + k)) = table d c'" if "c' \<noteq> c"
      using decode_neighbour [of c c' f' ?ty v ?f] that by (auto simp: f'_def table_def)
    ultimately show ?thesis
      using decode_changed by auto
  qed
  have "cache_ok d'"
    unfolding cache_ok_def
  proof (intro conjI impI)
    show "length (fatSectBuffer d') = 1024"
      using set_written(2) [OF ok] effect(4) by simp
    have j: "entry_sector d c < sectorsperfat d"
      using entry_sector_bound [OF parts(1) ok(2)] .
    show "take 512 (fatSectBuffer d') = sector d' (curFatSect d')"
      using effect(6) [OF parts(2) j] unfolding fat_sector_def effect(3,4,5) same_layout_fields(6) [OF same]
      by (simp add: written_def)
    show "drop 512 (fatSectBuffer d') = sector d' (curFatSect d' + 1)"
      if "fattype d' = FAT12" "in_fat d' (curFatSect d' + 1)"
      using second_half [OF ok, where v = v] that in_fat_layout [OF same] same effect(5) by (simp add: d'_def)
  qed
  then show "fat_ok d'"
    using effect(2) parts layout_ok_layout [OF same] by (simp add: fat_ok_def)
qed

end

