(* ===== verification/Fat_Chain.thy ===== *)
theory Fat_Chain
  imports Fat_Set
begin

text \<open>
  Cluster chains: following, extending, cutting and releasing the list of clusters of a file, in
  terms of the table of \<open>Fat_Table\<close>.
\<close>

section \<open>Chains as lists\<close>

fun links :: "fat_type \<Rightarrow> (nat \<Rightarrow> nat) \<Rightarrow> nat list \<Rightarrow> bool" where
  "links ty t [] \<longleftrightarrow> False"
| "links ty t [c] \<longleftrightarrow> isEOF ty (t c)"
| "links ty t (c # c' # cs) \<longleftrightarrow> t c = c' \<and> links ty t (c' # cs)"

definition data_clusters :: "fat_drive \<Rightarrow> nat set" where
  "data_clusters d = {2..< CountOfClusters d + 2}"

definition chain :: "fat_drive \<Rightarrow> nat list \<Rightarrow> bool" where
  "chain d cs \<longleftrightarrow> links (fattype d) (table d) cs \<and> distinct cs \<and> set cs \<subseteq> data_clusters d"

lemma data_in_clusters: "c \<in> data_clusters d \<Longrightarrow> c \<in> clusters d \<and> c \<noteq> 0"
  by (auto simp: data_clusters_def clusters_def)

lemma cluster_not_eof: "layout_ok d \<Longrightarrow> c \<in> clusters d \<Longrightarrow> \<not> isEOF (fattype d) c"
  by (cases "fattype d") (auto simp: layout_ok_def clusters_def)

lemma cluster_fits: "layout_ok d \<Longrightarrow> c \<in> clusters d \<Longrightarrow> c mod 2 ^ entry_bits (fattype d) = c"
  by (cases "fattype d") (auto simp: layout_ok_def clusters_def)

lemma eof_mark_fits [simp]: "eof_mark ty mod 2 ^ entry_bits ty = eof_mark ty"
  by (cases ty) auto

lemma eof_mark_eof [simp]: "isEOF ty (eof_mark ty)" "eof_mark ty \<noteq> 0" "\<not> isEOF ty 0"
  by (cases ty; simp)+

lemma links_next:
  "links ty t cs \<Longrightarrow> Suc i < length cs \<Longrightarrow> t (cs ! i) = cs ! Suc i"
  by (induction ty t cs arbitrary: i rule: links.induct) (auto simp: nth_Cons split: nat.splits)

lemma links_last: "links ty t cs \<Longrightarrow> isEOF ty (t (last cs))"
  by (induction ty t cs rule: links.induct) auto

lemma links_nonempty: "links ty t cs \<Longrightarrow> cs \<noteq> []"
  by auto

lemma links_cong: "links ty t cs \<Longrightarrow> (\<And>c. c \<in> set cs \<Longrightarrow> t' c = t c) \<Longrightarrow> links ty t' cs"
  by (induction ty t cs rule: links.induct) auto

lemma linksI:
  "cs \<noteq> [] \<Longrightarrow> (\<And>i. Suc i < length cs \<Longrightarrow> t (cs ! i) = cs ! Suc i) \<Longrightarrow>
     isEOF ty (t (last cs)) \<Longrightarrow> links ty t cs"
proof (induction cs)
  case (Cons c cs)
  show ?case
  proof (cases cs)
    case Nil
    then show ?thesis
      using Cons.prems by simp
  next
    case cs: (Cons c' cs')
    have "links ty t cs"
    proof (rule Cons.IH)
      show "t (cs ! i) = cs ! Suc i" if "Suc i < length cs" for i
        using Cons.prems(2) [of "Suc i"] that by simp
    qed (use Cons.prems cs in auto)
    then show ?thesis
      using Cons.prems(2) [of 0] cs by simp
  qed
qed simp

lemma links_snoc:
  assumes "links ty t cs" "distinct (cs @ [f])"
    and "\<And>c. c \<in> set cs \<Longrightarrow> c \<noteq> last cs \<Longrightarrow> t' c = t c" "t' (last cs) = f" "isEOF ty (t' f)"
  shows "links ty t' (cs @ [f])"
proof (rule linksI)
  fix i assume i: "Suc i < length (cs @ [f])"
  show "t' ((cs @ [f]) ! i) = (cs @ [f]) ! Suc i"
  proof (cases "Suc i < length cs")
    case True
    have "last cs = cs ! (length cs - 1)"
      using True by (intro last_conv_nth) auto
    then have "cs ! i \<noteq> last cs"
      using True assms(2) by (simp add: nth_eq_iff_index_eq)
    then show ?thesis
      using True assms(3) [of "cs ! i"] links_next [OF assms(1) True] by (simp add: nth_append)
  next
    case False
    then have "Suc i = length cs" "cs ! i = last cs"
      using i links_nonempty [OF assms(1)] by (auto simp: last_conv_nth dest: less_antisym)
    then show ?thesis
      using assms(4) by (simp add: nth_append)
  qed
qed (use assms(5) in auto)

lemma links_take:
  assumes "links ty t cs" "distinct cs" "0 < e" "e \<le> length cs"
    and "\<And>i. Suc i < e \<Longrightarrow> t' (cs ! i) = t (cs ! i)" "isEOF ty (t' (cs ! (e - 1)))"
  shows "links ty t' (take e cs)"
proof (rule linksI)
  show "t' (take e cs ! i) = take e cs ! Suc i" if "Suc i < length (take e cs)" for i
    using that assms(5) [of i] links_next [OF assms(1), of i] by simp
  show "isEOF ty (t' (last (take e cs)))"
    using assms(3,4,6) last_conv_nth [of "take e cs"] by (cases "cs = []") (simp_all add: min_def)
qed (use assms(3,4) in auto)

section \<open>Following a chain\<close>

lemma cached_refl: "fat_ok d \<Longrightarrow> cached d d"
  by (simp add: cached_def)

lemma cached_trans: "cached a b \<Longrightarrow> cached b c \<Longrightarrow> cached a c"
  unfolding cached_def using same_layout_trans by auto

lemma cached_facts:
  assumes "cached d d'"
  shows "same_layout d d'" "fat_ok d'" "table d' = table d" "sector d' = sector d"
    "clusters d' = clusters d" "data_clusters d' = data_clusters d" "fattype d' = fattype d"
    "chain d' cs = chain d cs" "sector_count d' = sector_count d" "fat_start d' = fat_start d"
    "mirrored d' = mirrored d"
proof -
  have same: "same_layout d d'" and img: "diskimg d' = diskimg d" and ok: "fat_ok d'"
    using assms by (simp_all add: cached_def)
  show "same_layout d d'" "fat_ok d'" "table d' = table d" "sector d' = sector d"
    "clusters d' = clusters d" "sector_count d' = sector_count d"
    using same ok table_cong [OF same img] sector_cong [OF same img] clusters_layout [OF same]
      sector_count_layout [OF same] by simp_all
  show dc: "data_clusters d' = data_clusters d" and ty: "fattype d' = fattype d"
    and st: "fat_start d' = fat_start d"
    using same by (simp_all add: data_clusters_def fat_start_def)
  show "chain d' cs = chain d cs"
    unfolding chain_def dc ty table_cong [OF same img] ..
  show "mirrored d' = mirrored d"
    unfolding mirrored_def fat_sector_def st sector_cong [OF same img]
      same_layout_fields(4,6) [OF same] ..
qed

lemma skip_clusters_chain:
  assumes "fat_ok d" "chain d cs" "i < length cs"
  shows "\<exists>d'. skip_clusters n (cs ! i) d =
      (if i + n < length cs then Some (cs ! (i + n)) else None, d') \<and> cached d d'"
  using assms
proof (induction n arbitrary: i d)
  case 0
  then show ?case
    using cached_refl by auto
next
  case (Suc n)
  have c: "cs ! i \<in> clusters d"
    using Suc.prems data_in_clusters nth_mem unfolding chain_def by blast
  obtain d1 where g: "getClusterValue (cs ! i) d = (table d (cs ! i), d1)" "cached d d1"
    using getClusterValue [OF Suc.prems(1) c] by blast
  note facts = cached_facts [OF g(2)]
  have lay: "layout_ok d"
    using Suc.prems(1) by (simp add: fat_ok_def)
  have ln: "links (fattype d) (table d) cs" "set cs \<subseteq> data_clusters d"
    using Suc.prems(2) by (simp_all add: chain_def)
  show ?case
  proof (cases "Suc i < length cs")
    case True
    then have "table d (cs ! i) = cs ! Suc i" "\<not> isEOF (fattype d) (cs ! Suc i)"
      using links_next [OF ln(1)] cluster_not_eof [OF lay] data_in_clusters nth_mem ln(2) by blast+
    moreover obtain d2 where "skip_clusters n (cs ! Suc i) d1 =
        (if Suc i + n < length cs then Some (cs ! (Suc i + n)) else None, d2)" "cached d1 d2"
      using Suc.IH [of d1 "Suc i"] facts Suc.prems True by auto
    ultimately show ?thesis
      using g facts(7) cached_trans [OF g(2)] by auto
  next
    case False
    then have "cs ! i = last cs"
      using Suc.prems(3) by (metis Suc_lessI diff_Suc_1 last_conv_nth length_0_conv not_less0)
    then have "isEOF (fattype d) (table d (cs ! i))"
      using links_last [OF ln(1)] by simp
    then show ?thesis
      using g facts(7) False by auto
  qed
qed

text \<open>The sectors of a cluster, and of a chain.\<close>

definition cluster_sector :: "fat_drive \<Rightarrow> nat \<Rightarrow> nat \<Rightarrow> nat" where
  "cluster_sector d c k = firstDataSector d + (c - 2) * sectorspercluster d + k"

lemma cluster_sector_exists:
  assumes "layout_ok d" "c \<in> data_clusters d" "k < sectorspercluster d"
  shows "cluster_sector d c k < sector_count d" "firstRootDirSect d \<le> cluster_sector d c k"
proof -
  have "c - 2 + 1 \<le> CountOfClusters d"
    using assms(2) by (auto simp: data_clusters_def)
  then have "(c - 2 + 1) * sectorspercluster d \<le> CountOfClusters d * sectorspercluster d"
    by (rule mult_right_mono) simp
  then show "cluster_sector d c k < sector_count d"
    using assms(3) by (simp add: cluster_sector_def sector_count_def)
  show "firstRootDirSect d \<le> cluster_sector d c k"
    using assms(1) by (simp add: cluster_sector_def layout_ok_def)
qed

lemma cluster_sector_inj:
  assumes "c \<in> data_clusters d" "c' \<in> data_clusters d" "k < sectorspercluster d" "k' < sectorspercluster d"
  shows "cluster_sector d c k = cluster_sector d c' k' \<longleftrightarrow> c = c' \<and> k = k'"
  using assms radix_inj [of "c - 2" "sectorspercluster d" k "c' - 2" k']
  by (auto simp: cluster_sector_def data_clusters_def)

lemma getAbsoluteSectFromChain_chain:
  assumes ok: "fat_ok d" "chain d cs"
  shows "\<exists>d'. getAbsoluteSectFromChain (hd cs) n d =
     (if n div sectorspercluster d < length cs
      then cluster_sector d (cs ! (n div sectorspercluster d)) (n mod sectorspercluster d) else 0, d') \<and>
     cached d d'"
proof -
  let ?s = "sectorspercluster d"
  have cs: "cs \<noteq> []" "set cs \<subseteq> data_clusters d"
    using ok(2) links_nonempty by (auto simp: chain_def)
  have lay: "layout_ok d" "sectors_ok d"
    using ok(1) by (simp_all add: fat_ok_def)
  then have s: "0 < ?s"
    by (simp add: layout_ok_def)
  obtain d' where sk: "skip_clusters (n div ?s) (hd cs) d =
      (if n div ?s < length cs then Some (cs ! (n div ?s)) else None, d')" "cached d d'"
    using skip_clusters_chain [OF ok, of 0 "n div ?s"] cs by (auto simp: hd_conv_nth)
  note facts = cached_facts [OF sk(2)]
  have "wrap32 (getClustFirstSect (cs ! (n div ?s)) d' + n mod ?s) =
      cluster_sector d (cs ! (n div ?s)) (n mod ?s)" if i: "n div ?s < length cs"
  proof -
    let ?c = "cs ! (n div ?s)"
    have c: "?c \<in> data_clusters d"
      using cs i by auto
    have "cluster_sector d ?c (n mod ?s) < 2 ^ 32"
      using count_bound [OF lay(2)] cluster_sector_exists(1) [OF lay(1) c] s by simp
    moreover have "?c < 2 ^ 32" "2 \<le> ?c"
      using c few_clusters_bound [OF lay(1)] by (auto simp: data_clusters_def)
    ultimately show ?thesis
      using facts(1) by (simp add: getClustFirstSect_def cluster_sector_def ac_simps)
  qed
  then show ?thesis
    using sk facts(1) by (auto simp: getAbsoluteSectFromChain_def)
qed

section \<open>What operations keep\<close>

text \<open>
  An operation \<open>keeps\<close> the drive up to a set of sectors: the layout, the invariant, agreeing copies
  of the table, and every sector outside the tables and the set.
\<close>

definition keeps :: "nat set \<Rightarrow> fat_drive \<Rightarrow> fat_drive \<Rightarrow> bool" where
  "keeps X d d' \<longleftrightarrow> same_layout d d' \<and> fat_ok d' \<and> (mirrored d \<longrightarrow> mirrored d') \<and>
     (\<forall>n < sector_count d. outside_fats d n \<longrightarrow> n \<notin> X \<longrightarrow> sector d' n = sector d n)"

definition table_is :: "fat_drive \<Rightarrow> (nat \<Rightarrow> nat) \<Rightarrow> bool" where
  "table_is d t \<longleftrightarrow> (\<forall>c \<in> clusters d. table d c = t c)"

lemma outside_fats_layout: "same_layout d d' \<Longrightarrow> outside_fats d' = outside_fats d"
  by (simp add: outside_fats_def fat_start_def fun_eq_iff)

lemma keeps_layout:
  assumes "keeps X d d'"
  shows "same_layout d d'" "fat_ok d'" "clusters d' = clusters d" "data_clusters d' = data_clusters d"
    "fattype d' = fattype d" "sector_count d' = sector_count d"
    "cluster_sector d' = cluster_sector d" "outside_fats d' = outside_fats d"
  using assms clusters_layout sector_count_layout outside_fats_layout
  by (auto simp: keeps_def data_clusters_def cluster_sector_def fun_eq_iff)

lemma keeps_trans: "keeps X a b \<Longrightarrow> keeps Y b c \<Longrightarrow> keeps (X \<union> Y) a c"
  using keeps_layout [of X a b] same_layout_trans unfolding keeps_def by auto

lemma keeps_weaken: "keeps X d d' \<Longrightarrow> X \<subseteq> Y \<Longrightarrow> keeps Y d d'"
  unfolding keeps_def by auto

lemma cached_keeps: "cached d d' \<Longrightarrow> keeps {} d d'"
  using cached_facts [of d d'] by (simp add: keeps_def)

lemma set_keeps:
  assumes "fat_ok d" "c \<in> clusters d"
  shows "keeps {} d (setClusterValue c v d)"
    and "table_is d t \<Longrightarrow> v mod 2 ^ entry_bits (fattype d) = v \<Longrightarrow>
      table_is (setClusterValue c v d) (t(c := v))"
proof -
  note set = setClusterValue [OF assms, of v]
  show "keeps {} d (setClusterValue c v d)"
    using setClusterValue(1,2,4,5) [OF assms, where v = v] by (auto simp: keeps_def)
  show "table_is (setClusterValue c v d) (t(c := v))"
    if "table_is d t" "v mod 2 ^ entry_bits (fattype d) = v"
    using that setClusterValue(3) [OF assms, where v = v]
      clusters_layout [OF setClusterValue(1) [OF assms, where v = v]]
    by (simp add: table_is_def)
qed

lemma table_is_cached: "cached d d' \<Longrightarrow> table_is d' t = table_is d t"
  using cached_facts [of d d'] by (simp add: table_is_def)

lemma outside_not_in_fat:
  assumes "layout_ok d" "outside_fats d n" "fc < fatcopies d" "j < sectorsperfat d"
  shows "n \<noteq> fat_start d + fc * sectorsperfat d + j"
  using copies_fit [OF assms(1,3,4)] assms(2) unfolding outside_fats_def by linarith

text \<open>Writing a sector of the root directory or the data area.\<close>

lemma write_data_sector:
  assumes ok: "fat_ok d" and n: "n < sector_count d" "outside_fats d n" and b: "length b = 512"
  defines "d' \<equiv> writeSector n b d"
  shows "keeps {n} d d'" "sector d' n = b" "c \<in> clusters d \<Longrightarrow> table d' c = table d c"
proof -
  have parts: "sectors_ok d" "layout_ok d" "cache_ok d" "0 < fatcopies d"
    using ok by (simp_all add: fat_ok_def layout_ok_def)
  have sec: "sector d' m = (if m = n then b else sector d m)" if "m < sector_count d" for m
    using write_sector(2) [OF parts(1) n(1) b that] by (simp add: d'_def)
  have same: "same_layout d d'"
    by (simp add: d'_def)
  have st: "fat_start d' = fat_start d" "in_fat d' = in_fat d"
    using same in_fat_layout by (simp_all add: fat_start_def)
  have fats: "fat_sector d' fc j = fat_sector d fc j" if "fc < fatcopies d" "j < sectorsperfat d" for fc j
    unfolding fat_sector_def st same_layout_fields(6) [OF same]
    using sec [OF fat_sectors_exist [OF parts(2) that]] outside_not_in_fat [OF parts(2) n(2) that]
    by simp
  show "sector d' n = b"
    using sec [OF n(1)] by simp
  have in_fat: "sector d' m = sector d m" if "in_fat d m" for m
  proof -
    have "m - fat_start d < sectorsperfat d" "fat_start d + (m - fat_start d) = m"
      using that by (auto simp: in_fat_def)
    then show ?thesis
      using fats [of 0 "m - fat_start d"] parts(4) st same by (simp add: fat_sector_def)
  qed
  have "cache_ok d'"
    using parts(3) in_fat st unfolding cache_ok_def by (simp add: d'_def)
  moreover have "sectors_ok d'"
    using write_sector(1) [OF parts(1) n(1) b] by (simp add: d'_def)
  ultimately have ok': "fat_ok d'"
    using layout_ok_layout [OF same] parts by (simp add: fat_ok_def)
  have "mirrored d \<longrightarrow> mirrored d'"
  proof (intro impI, unfold mirrored_def same_layout_fields(4,6) [OF same], intro allI impI)
    fix fc j assume m: "\<forall>fc < fatcopies d. \<forall>j < sectorsperfat d. fat_sector d fc j = fat_sector d 0 j"
      and fc: "fc < fatcopies d" and j: "j < sectorsperfat d"
    from m fc j have "fat_sector d fc j = fat_sector d 0 j"
      by blast
    then show "fat_sector d' fc j = fat_sector d' 0 j"
      by (simp only: fats [OF fc j] fats [OF parts(4) j])
  qed
  then show "keeps {n} d d'"
    using same ok' sec by (simp add: keeps_def)
  have byte: "table_byte d' i = table_byte d i" if "i < 512 * sectorsperfat d" for i
    using fats [of 0 "i div 512"] that parts(4)
    by (simp add: table_byte_def less_mult_imp_div_less mult.commute)
  show "table d' c = table d c" if "c \<in> clusters d"
    unfolding table_def same_layout_fields(11) [OF same]
    using entry_in_table(1) [OF parts(2) that] by (intro decode_entry_cong byte) simp
qed

end
