(* ===== verification/Fat_Alloc.thy ===== *)
theory Fat_Alloc
  imports Fat_Chain
begin

text \<open>
  Allocation: the first free cluster, new clusters at the end of a chain, and cutting a chain.
\<close>

section \<open>Free clusters\<close>

lemma free_scan:
  assumes "fat_ok d" "i + n \<le> CountOfClusters d"
  shows "\<exists>f d'. free_scan i n d = (f, d') \<and> cached d d' \<and>
    (f = 0 \<and> (\<forall>c. i + 2 \<le> c \<longrightarrow> c < i + n + 2 \<longrightarrow> table d c \<noteq> 0) \<or>
     i + 2 \<le> f \<and> f < i + n + 2 \<and> table d f = 0 \<and> (\<forall>c. i + 2 \<le> c \<longrightarrow> c < f \<longrightarrow> table d c \<noteq> 0))"
  using assms
proof (induction n arbitrary: i d)
  case 0
  then show ?case
    using cached_refl by auto
next
  case (Suc n)
  have "i + 2 \<in> clusters d"
    using Suc.prems by (simp add: clusters_def)
  then obtain d1 where g: "getClusterValue (i + 2) d = (table d (i + 2), d1)" "cached d d1"
    using getClusterValue [OF Suc.prems(1)] by blast
  note facts = cached_facts [OF g(2)]
  show ?case
  proof (cases "table d (i + 2) = 0")
    case True
    then show ?thesis
      using g by auto
  next
    case False
    have "i + 1 + n \<le> CountOfClusters d1"
      using Suc.prems facts(1) by simp
    then obtain f d2 where r: "free_scan (i + 1) n d1 = (f, d2)" "cached d1 d2"
      "f = 0 \<and> (\<forall>c. i + 1 + 2 \<le> c \<longrightarrow> c < i + 1 + n + 2 \<longrightarrow> table d1 c \<noteq> 0) \<or>
       i + 1 + 2 \<le> f \<and> f < i + 1 + n + 2 \<and> table d1 f = 0 \<and>
         (\<forall>c. i + 1 + 2 \<le> c \<longrightarrow> c < f \<longrightarrow> table d1 c \<noteq> 0)"
      using Suc.IH [OF facts(2), of "i + 1"] by blast
    have le: "i + 2 \<le> c \<longleftrightarrow> c = i + 2 \<or> i + 1 + 2 \<le> c" for c
      by auto
    have "f = 0 \<and> (\<forall>c. i + 2 \<le> c \<longrightarrow> c < i + Suc n + 2 \<longrightarrow> table d c \<noteq> 0) \<or>
       i + 2 \<le> f \<and> f < i + Suc n + 2 \<and> table d f = 0 \<and> (\<forall>c. i + 2 \<le> c \<longrightarrow> c < f \<longrightarrow> table d c \<noteq> 0)"
      using r(3) False facts(3) unfolding le by auto
    moreover have "free_scan i (Suc n) d = (f, d2)"
      using g r(1) False by simp
    ultimately show ?thesis
      using cached_trans [OF g(2) r(2)] by blast
  qed
qed

definition first_free :: "fat_drive \<Rightarrow> nat \<Rightarrow> bool" where
  "first_free d f \<longleftrightarrow> f \<in> data_clusters d \<and> table d f = 0 \<and>
     (\<forall>c \<in> data_clusters d. c < f \<longrightarrow> table d c \<noteq> 0)"

definition disk_full :: "fat_drive \<Rightarrow> bool" where
  "disk_full d \<longleftrightarrow> (\<forall>c \<in> data_clusters d. table d c \<noteq> 0)"

lemma getFirstFreeClust:
  assumes "fat_ok d"
  obtains f d' where "getFirstFreeClust d = (f, d')" "cached d d'"
    "f = 0 \<and> disk_full d \<or> f \<noteq> 0 \<and> first_free d f"
  using free_scan [OF assms, of 0 "CountOfClusters d"]
  by (auto simp: getFirstFreeClust_def first_free_def disk_full_def data_clusters_def)

section \<open>Allocation\<close>

lemma allocate_first:
  assumes "fat_ok d" "f \<in> data_clusters d" "table_is d t"
  obtains d' where "allocateCluster f 0 d = (True, d')" "keeps {} d d'"
    "table_is d' (t(f := eof_mark (fattype d)))"
  using that [of "setClusterValue f (eof_mark (fattype d)) d"] set_keeps(1) [OF assms(1), of f]
    set_keeps(2) [OF assms(1), of f t] data_in_clusters [OF assms(2)] assms(3)
  by (simp add: allocateCluster_def)

lemma allocate_behind:
  assumes ok: "fat_ok d" and f: "f \<in> data_clusters d" and p: "p \<in> data_clusters d" "table d p \<noteq> 0"
    and t: "table_is d t"
  obtains d' where "allocateCluster f p d = (True, d')" "keeps {} d d'"
    "table_is d' (t(p := f, f := eof_mark (fattype d)))"
proof -
  obtain d1 where g: "getClusterValue p d = (table d p, d1)" "cached d d1"
    using getClusterValue [OF ok] data_in_clusters [OF p(1)] by blast
  note facts = cached_facts [OF g(2)]
  have lay: "layout_ok d"
    using ok by (simp add: fat_ok_def)
  let ?d2 = "setClusterValue p f d1"
  have d2: "keeps {} d1 ?d2" "table_is ?d2 (t(p := f))"
    using set_keeps(1) [OF facts(2), of p f] set_keeps(2) [OF facts(2), of p t f] facts
      data_in_clusters [OF p(1)] data_in_clusters [OF f] cluster_fits [OF lay] t table_is_cached [OF g(2)]
    by auto
  note k2 = keeps_layout [OF d2(1)]
  let ?d3 = "setClusterValue f (eof_mark (fattype ?d2)) ?d2"
  have d3: "keeps {} ?d2 ?d3" "table_is ?d3 (t(p := f, f := eof_mark (fattype d)))"
    using set_keeps(1) [OF k2(2), of f "eof_mark (fattype d)"]
      set_keeps(2) [OF k2(2), of f "t(p := f)" "eof_mark (fattype d)"] k2 facts data_in_clusters [OF f] d2(2)
    by auto
  have "keeps {} d ?d3"
    using keeps_trans [OF keeps_trans [OF cached_keeps [OF g(2)] d2(1)] d3(1)] by simp
  moreover have "allocateCluster f p d = (True, ?d3)"
    using g p data_in_clusters [OF p(1)] data_in_clusters [OF f] by (simp add: allocateCluster_def)
  ultimately show thesis
    using that d3(2) by blast
qed

definition cluster_sectors :: "fat_drive \<Rightarrow> nat \<Rightarrow> nat set" where
  "cluster_sectors d c = cluster_sector d c ` {..< sectorspercluster d}"

lemma sector_of_cluster:
  assumes ok: "fat_ok d" and c: "c \<in> data_clusters d" and k: "k < sectorspercluster d"
  shows "getAbsoluteSectFromChain c k d = (cluster_sector d c k, d)"
proof -
  have lay: "layout_ok d" "sectors_ok d"
    using ok by (simp_all add: fat_ok_def)
  have "cluster_sector d c k < 2 ^ 32"
    using count_bound [OF lay(2)] cluster_sector_exists(1) [OF lay(1) c k] by simp
  moreover have "c < 2 ^ 32" "2 \<le> c"
    using c few_clusters_bound [OF lay(1)] by (auto simp: data_clusters_def)
  ultimately show ?thesis
    using k by (simp add: getAbsoluteSectFromChain_def getClustFirstSect_def cluster_sector_def ac_simps)
qed

lemma data_sector_outside:
  assumes "layout_ok d" "c \<in> data_clusters d" "k < sectorspercluster d"
  shows "outside_fats d (cluster_sector d c k)"
  using cluster_sector_exists(2) [OF assms] by (simp add: outside_fats_def)

definition zeroed :: "fat_drive \<Rightarrow> nat \<Rightarrow> nat \<Rightarrow> fat_drive \<Rightarrow> bool" where
  "zeroed d c m d' \<longleftrightarrow> keeps (cluster_sector d c ` {..< m}) d d' \<and>
     (\<forall>k < m. sector d' (cluster_sector d c k) = replicate 512 0) \<and>
     (\<forall>c \<in> clusters d. table d' c = table d c)"

lemma zero_step:
  assumes z: "zeroed d c m d'" and ok: "fat_ok d" and c: "c \<in> data_clusters d"
    and m: "m < sectorspercluster d"
  shows "zeroed d c (Suc m) (let (sect, d) = getAbsoluteSectFromChain c m d'
     in writeSector sect (replicate BytePerSector 0) d)"
proof -
  have k: "keeps (cluster_sector d c ` {..< m}) d d'"
    using z by (simp add: zeroed_def)
  note lay = keeps_layout [OF k]
  have l: "layout_ok d"
    using ok by (simp add: fat_ok_def)
  have m': "m < sectorspercluster d'"
    using m lay(1) by simp
  let ?n = "cluster_sector d c m" and ?d = "writeSector (cluster_sector d c m) (replicate 512 0) d'"
  have n: "?n < sector_count d'" "outside_fats d' ?n"
    using cluster_sector_exists(1) [OF l c m] data_sector_outside [OF l c m] lay by simp_all
  note w = write_data_sector [OF lay(2) n, of "replicate 512 0"]
  have keep: "keeps (cluster_sector d c ` {..< Suc m}) d ?d"
    using keeps_trans [OF k w(1)] by (simp add: lessThan_Suc insert_is_Un [symmetric] Un_commute)
  have old: "sector ?d (cluster_sector d c k) = replicate 512 0" if "k < m" for k
  proof -
    have "cluster_sector d c k \<noteq> ?n"
      using cluster_sector_inj [OF c c, of k m] that m by auto
    moreover have "cluster_sector d c k < sector_count d'" "outside_fats d' (cluster_sector d c k)"
      using cluster_sector_exists(1) [OF l c, of k] data_sector_outside [OF l c, of k] that m lay by simp_all
    ultimately show ?thesis
      using w(1) z that unfolding keeps_def zeroed_def by simp
  qed
  have "zeroed d c (Suc m) ?d"
    using keep old w(2,3) lay(3) z unfolding zeroed_def by (auto simp: less_Suc_eq)
  then show ?thesis
    using sector_of_cluster [OF lay(2), of c m] m' c lay by (simp add: BytePerSector_def)
qed

lemma zeroOutCluster:
  assumes "fat_ok d" "c \<in> data_clusters d"
  shows "zeroed d c (sectorspercluster d) (zeroOutCluster c d)"
proof -
  let ?f = "\<lambda>i d. let (sect, d) = getAbsoluteSectFromChain c i d
     in writeSector sect (replicate BytePerSector 0) d"
  have "zeroed d c m (fold ?f [0..<m] d)" if "m \<le> sectorspercluster d" for m
    using that
  proof (induction m)
    case 0
    then show ?case
      using cached_keeps [OF cached_refl [OF assms(1)]] by (simp add: zeroed_def)
  next
    case (Suc m)
    then show ?case
      using zero_step [OF _ assms, of m] by simp
  qed
  then show ?thesis
    by (simp add: zeroOutCluster_def)
qed

section \<open>A new cluster at the end of a chain\<close>

lemma chain_not_free:
  assumes "chain d cs" "c \<in> set cs"
  shows "table d c \<noteq> 0"
proof -
  have ln: "links (fattype d) (table d) cs" "set cs \<subseteq> data_clusters d"
    using assms(1) by (simp_all add: chain_def)
  obtain i where i: "i < length cs" "c = cs ! i"
    using assms(2) by (auto simp: in_set_conv_nth)
  show ?thesis
  proof (cases "Suc i < length cs")
    case True
    then have "cs ! Suc i \<in> data_clusters d"
      using ln(2) by auto
    then show ?thesis
      using links_next [OF ln(1) True] i by (auto simp: data_clusters_def)
  next
    case False
    then have "i = length cs - 1"
      using i(1) by simp
    then have "c = last cs"
      using i(2) links_nonempty [OF ln(1)] by (simp add: last_conv_nth)
    then show ?thesis
      using links_last [OF ln(1)] eof_mark_eof(3) by metis
  qed
qed

lemma chain_end_chain:
  assumes "fat_ok d" "chain d cs" "i < length cs"
  shows "\<exists>d'. chain_end (cs ! i) d = Some (last cs, d') \<and> cached d d'"
  using assms
proof (induction "length cs - i" arbitrary: i d)
  case (Suc m)
  have ln: "links (fattype d) (table d) cs" "set cs \<subseteq> data_clusters d" and lay: "layout_ok d"
    using Suc.prems by (simp_all add: chain_def fat_ok_def)
  have "cs ! i \<in> clusters d"
    using Suc.prems(3) ln(2) data_in_clusters nth_mem by blast
  then obtain d1 where g: "getClusterValue (cs ! i) d = (table d (cs ! i), d1)" "cached d d1"
    using getClusterValue [OF Suc.prems(1)] by blast
  note facts = cached_facts [OF g(2)]
  show ?case
  proof (cases "Suc i < length cs")
    case True
    have "table d (cs ! i) = cs ! Suc i" "\<not> isEOF (fattype d) (cs ! Suc i)"
      using True links_next [OF ln(1)] cluster_not_eof [OF lay] data_in_clusters nth_mem ln(2) by blast+
    moreover have "m = length cs - Suc i" "chain d1 cs"
      using Suc.hyps(2) Suc.prems(2) facts(8) by simp_all
    then obtain d2 where "chain_end (cs ! Suc i) d1 = Some (last cs, d2)" "cached d1 d2"
      using Suc.hyps(1) [OF _ facts(2) _ True] by blast
    ultimately show ?thesis
      using g facts(7) cached_trans [OF g(2)] by (subst chain_end.simps) auto
  next
    case False
    then have "cs ! i = last cs"
      using Suc.prems(3) links_nonempty [OF ln(1)] by (metis Suc_lessI diff_Suc_1 last_conv_nth)
    moreover have "isEOF (fattype d) (table d (last cs))"
      using links_last [OF ln(1)] .
    ultimately show ?thesis
      using g facts(7) by (subst chain_end.simps) auto
  qed
qed simp

lemma appendCluster:
  assumes ok: "fat_ok d" "chain d cs"
  obtains (full) d' where "disk_full d" "appendCluster (hd cs) d = Some (0, d')" "cached d d'"
  | (grown) f d' where "first_free d f" "appendCluster (hd cs) d = Some (f, d')"
      "keeps (cluster_sectors d f) d d'" "chain d' (cs @ [f])"
      "table_is d' ((table d)(last cs := f, f := eof_mark (fattype d)))"
      "\<forall>n \<in> cluster_sectors d f. sector d' n = replicate 512 0"
proof -
  have ln: "links (fattype d) (table d) cs" "distinct cs" "set cs \<subseteq> data_clusters d"
    and lay: "layout_ok d" and ne: "cs \<noteq> []"
    using ok links_nonempty by (auto simp: chain_def fat_ok_def)
  obtain d1 where e: "chain_end (hd cs) d = Some (last cs, d1)" "cached d d1"
    using chain_end_chain [OF ok, of 0] ne by (auto simp: hd_conv_nth)
  note f1 = cached_facts [OF e(2)]
  obtain f d2 where g: "getFirstFreeClust d1 = (f, d2)" "cached d1 d2"
    "f = 0 \<and> disk_full d1 \<or> f \<noteq> 0 \<and> first_free d1 f"
    using getFirstFreeClust [OF f1(2)] .
  note f2 = cached_facts [OF cached_trans [OF e(2) g(2)]]
  show thesis
  proof (cases "f = 0")
    case True
    then show thesis
      using full [of d2] g e f1 cached_trans [OF e(2) g(2)]
      by (auto simp: appendCluster_def disk_full_def first_free_def data_clusters_def)
  next
    case False
    then have free: "first_free d f"
      using g(3) f1 by (simp add: first_free_def)
    have last: "last cs \<in> data_clusters d" "table d (last cs) \<noteq> 0"
      using ln(3) ne chain_not_free [OF ok(2)] by auto
    have t2: "table_is d2 (table d)"
      using f2(3) by (simp add: table_is_def)
    obtain d3 where a: "allocateCluster f (last cs) d2 = (True, d3)" "keeps {} d2 d3"
      "table_is d3 ((table d)(last cs := f, f := eof_mark (fattype d)))"
      using allocate_behind [OF f2(2), of f "last cs" "table d"] free last f2 t2 first_free_def by auto
    have k3: "keeps {} d d3"
      using keeps_trans [OF cached_keeps [OF cached_trans [OF e(2) g(2)]] a(2)] by simp
    note l3 = keeps_layout [OF k3]
    have fdc: "f \<in> data_clusters d3"
      using free l3(4) by (simp add: first_free_def)
    let ?d = "zeroOutCluster f d3"
    have z: "zeroed d3 f (sectorspercluster d3) ?d"
      using zeroOutCluster [OF l3(2) fdc] .
    have spc: "sectorspercluster d3 = sectorspercluster d"
      using l3(1) by simp
    have k: "keeps (cluster_sectors d f) d ?d"
      using keeps_trans [OF k3, of _ ?d] z l3(7) spc by (simp add: zeroed_def cluster_sectors_def)
    have t: "table_is ?d ((table d)(last cs := f, f := eof_mark (fattype d)))"
      using a(3) z l3(3) keeps_layout(3) [OF k] by (simp add: table_is_def zeroed_def)
    have new: "f \<notin> set cs"
      using free chain_not_free [OF ok(2), of f] unfolding first_free_def by blast
    have in_c: "c \<in> clusters d" if "c \<in> set (cs @ [f])" for c
      using that ln(3) free data_in_clusters by (auto simp: first_free_def)
    have "links (fattype d) (table ?d) (cs @ [f])"
    proof (rule links_snoc [OF ln(1)])
      show "table ?d c = table d c" if "c \<in> set cs" "c \<noteq> last cs" for c
        using t in_c [of c] that new keeps_layout(3) [OF k] by (auto simp: table_is_def)
      show "table ?d (last cs) = f" "isEOF (fattype d) (table ?d f)"
        using t in_c [of "last cs"] in_c [of f] ne new keeps_layout(3) [OF k] by (auto simp: table_is_def)
    qed (use ln(2) new in auto)
    then have "chain ?d (cs @ [f])"
      using ln new free keeps_layout [OF k] by (auto simp: chain_def first_free_def)
    moreover have "appendCluster (hd cs) d = Some (f, ?d)"
      using e g False a(1) by (simp add: appendCluster_def)
    ultimately show thesis
      using grown [OF free] k t z l3(7) spc by (auto simp: zeroed_def cluster_sectors_def)
  qed
qed

end
