(* ===== verification/Fat_Cut.thy ===== *)
theory Fat_Cut
  imports Fat_Alloc
begin

text \<open>
  Releasing a chain, or all of it behind a byte position; chains that never end; and the count of
  free clusters.
\<close>

section \<open>Cutting a chain\<close>

text \<open>
  The table after the loop of \<open>deleteClustChain\<close> ran over the clusters \<open>xs\<close>, the first of which is
  cluster number \<open>k\<close> of its file, with \<open>e\<close> clusters to keep.
\<close>

definition cut_table :: "fat_type \<Rightarrow> nat \<Rightarrow> nat \<Rightarrow> nat list \<Rightarrow> (nat \<Rightarrow> nat) \<Rightarrow> nat \<Rightarrow> nat" where
  "cut_table ty e k xs t c =
     (if c \<in> set (drop (e + 1 - k) xs) then 0
      else if k \<le> e \<and> e + 1 - k < length xs \<and> c = xs ! (e - k) then eof_mark ty
      else t c)"

lemma cut_step:
  assumes "c \<notin> set xs" "xs \<noteq> []"
  shows "cut_table ty e k (c # xs) t =
    cut_table ty e (Suc k) xs (if k = e then t(c := eof_mark ty) else if e < k then t(c := 0) else t)"
proof -
  consider "e < k" | "k = e" | m where "e = k + Suc m"
    by (metis less_imp_Suc_add linorder_neqE_nat add_Suc_right)
  then show ?thesis
  proof cases
    case 3
    then have "e - k = Suc m" "e + 1 - k = Suc (Suc m)"
      by simp_all
    then show ?thesis
      using 3 by (simp add: cut_table_def fun_eq_iff)
  qed (use assms in \<open>auto simp: cut_table_def fun_eq_iff\<close>)
qed

lemma cut_last: "cut_table ty e k [c] t = (if e < k then t(c := 0) else t)"
  by (auto simp: cut_table_def fun_eq_iff)

lemma entry_is: "table_is d t \<Longrightarrow> c \<in> clusters d \<Longrightarrow> table d c = t c"
  by (simp add: table_is_def)

lemma get_entry:
  assumes "fat_ok d" "table_is d t" "c \<in> data_clusters d"
  obtains d' where "getClusterValue c d = (t c, d')" "cached d d'" "table_is d' t"
  using getClusterValue [OF assms(1), of c] data_in_clusters [OF assms(3)] entry_is [OF assms(2)]
    table_is_cached assms(2) by metis

lemma delete_loop_links:
  assumes "fat_ok d" "table_is d t" "links (fattype d) t xs" "distinct xs" "set xs \<subseteq> data_clusters d"
  shows "\<exists>d'. delete_loop e k (hd xs) d = Some d' \<and> keeps {} d d' \<and>
    table_is d' (cut_table (fattype d) e k xs t)"
  using assms
proof (induction xs arbitrary: d t k)
  case (Cons c xs)
  let ?ty = "fattype d"
  have lay: "layout_ok d" and c: "c \<in> data_clusters d"
    using Cons.prems by (simp_all add: fat_ok_def)
  obtain d1 where g: "getClusterValue c d = (t c, d1)" "cached d d1" "table_is d1 t"
    using get_entry [OF Cons.prems(1,2) c] .
  note facts = cached_facts [OF g(2)]
  have c1: "c \<in> clusters d1"
    using data_in_clusters [OF c] facts by simp
  have set0: "keeps {} d (setClusterValue c v d1)" "table_is (setClusterValue c v d1) (t(c := v))"
    if "v mod 2 ^ entry_bits ?ty = v" for v
    using keeps_trans [OF cached_keeps [OF g(2)] set_keeps(1) [OF facts(2) c1, of v]]
      set_keeps(2) [OF facts(2) c1 g(3), of v] that facts(7) by simp_all
  show ?case
  proof (cases xs)
    case Nil
    then have "isEOF ?ty (t c)" "t c \<noteq> 0"
      using Cons.prems(3) eof_mark_eof(3) [of ?ty] by (auto intro: ccontr)
    then show ?thesis
      using g set0 [of 0] cached_keeps [OF g(2)] facts(7) Nil
      by (subst delete_loop.simps) (auto simp: cut_last)
  next
    case cs: (Cons c' ys)
    then have c': "t c = c'" "c' \<in> data_clusters d" "links ?ty t xs" "c \<notin> set xs" "xs \<noteq> []"
      using Cons.prems by simp_all
    have nz: "c' \<noteq> 0" "\<not> isEOF ?ty c'"
      using c'(2) cluster_not_eof [OF lay] data_in_clusters by blast+
    let ?t2 = "if k = e then t(c := eof_mark ?ty) else if e < k then t(c := 0) else t"
    let ?d2 = "if k = e then setClusterValue c (eof_mark ?ty) d1
       else if e < k then setClusterValue c 0 d1 else d1"
    have d2: "keeps {} d ?d2" "table_is ?d2 ?t2"
      using set0 [of "eof_mark ?ty"] set0 [of 0] cached_keeps [OF g(2)] g(3) by simp_all
    note k2 = keeps_layout [OF d2(1)]
    have "links (fattype ?d2) ?t2 xs"
      unfolding k2(5) using c'(3) by (rule links_cong) (use c'(4) in auto)
    then obtain d' where d': "delete_loop e (Suc k) (hd xs) ?d2 = Some d'" "keeps {} ?d2 d'"
      "table_is d' (cut_table (fattype ?d2) e (Suc k) xs ?t2)"
      using Cons.IH [OF k2(2) d2(2), of "Suc k"] Cons.prems(4,5) k2(4) by auto
    have "delete_loop e k c d = Some d'"
      using g(1) nz c'(1) d'(1) cs facts(7)
      by (subst delete_loop.simps) (auto simp: Let_def)
    then show ?thesis
      using d' keeps_trans [OF d2(1) d'(2)] k2(5) cut_step [OF c'(4,5)] by auto
  qed
qed simp

text \<open>The number of clusters that hold the bytes before a position.\<close>

definition clusters_for :: "fat_drive \<Rightarrow> nat \<Rightarrow> nat" where
  "clusters_for d bytePos = (bytePos + getClusterSize d - 1) div getClusterSize d"

lemma deleteClustChain:
  assumes ok: "fat_ok d" "chain d cs" and pos: "bytePos + getClusterSize d < 2 ^ 32"
  defines "e \<equiv> clusters_for d bytePos"
  obtains d' where "deleteClustChain (hd cs) bytePos d = Some d'" "keeps {} d d'"
    "\<forall>c \<in> clusters d. table d' c =
       (if c \<in> set (drop e cs) then 0
        else if 0 < e \<and> e < length cs \<and> c = cs ! (e - 1) then eof_mark (fattype d)
        else table d c)"
    "0 < e \<longrightarrow> chain d' (take e cs)"
proof -
  have ln: "links (fattype d) (table d) cs" "distinct cs" "set cs \<subseteq> data_clusters d"
    and lay: "layout_ok d"
    using ok by (simp_all add: chain_def fat_ok_def)
  have size: "0 < getClusterSize d"
    using lay by (simp add: layout_ok_def getClusterSize_def)
  have "sub32 (bytePos + getClusterSize d) 1 = bytePos + getClusterSize d - 1"
    using pos size by simp
  moreover obtain d' where d': "delete_loop e 1 (hd cs) d = Some d'" "keeps {} d d'"
    "table_is d' (cut_table (fattype d) e 1 cs (table d))"
    using delete_loop_links [OF ok(1) _ ln, of e 1] by (auto simp: table_is_def)
  ultimately have del: "deleteClustChain (hd cs) bytePos d = Some d'"
    by (simp add: deleteClustChain_def e_def clusters_for_def)
  note k = keeps_layout [OF d'(2)]
  have t: "table d' c = (if c \<in> set (drop e cs) then 0
        else if 0 < e \<and> e < length cs \<and> c = cs ! (e - 1) then eof_mark (fattype d)
        else table d c)" if "c \<in> clusters d" for c
    using d'(3) that by (auto simp: table_is_def k(3) cut_table_def)
  have in_c: "cs ! i \<in> clusters d" if "i < length cs" for i
    using that ln(3) data_in_clusters nth_mem by blast
  have "chain d' (take e cs)" if e: "0 < e"
  proof (cases "e < length cs")
    case True
    have late: "cs ! i \<notin> set (drop e cs)" if "i < e" for i
      using that True ln(2) by (auto simp: in_set_conv_nth nth_eq_iff_index_eq)
    have "links (fattype d) (table d') (take e cs)"
    proof (rule links_take [OF ln(1,2) e])
      show "table d' (cs ! i) = table d (cs ! i)" if i: "Suc i < e" for i
      proof -
        have "cs ! i \<noteq> cs ! (e - 1)"
          using i True nth_eq_iff_index_eq [OF ln(2), of i "e - 1"] by simp
        moreover have "cs ! i \<in> clusters d" "cs ! i \<notin> set (drop e cs)"
          using i True in_c [of i] late [of i] by simp_all
        ultimately show ?thesis
          using t [of "cs ! i"] by simp
      qed
      have "cs ! (e - 1) \<in> clusters d" "cs ! (e - 1) \<notin> set (drop e cs)"
        using e True in_c [of "e - 1"] late [of "e - 1"] by simp_all
      then show "isEOF (fattype d) (table d' (cs ! (e - 1)))"
        using t [of "cs ! (e - 1)"] True e by simp
    qed (use True in simp)
    then show ?thesis
      using ln k set_take_subset [of e cs] by (auto simp: chain_def)
  next
    case False
    have "links (fattype d) (table d') cs"
      using ln(1) by (rule links_cong) (use t False ln(3) data_in_clusters in auto)
    then show ?thesis
      using False ln k by (simp add: chain_def)
  qed
  then show thesis
    using that [OF del d'(2)] t by blast
qed

section \<open>Chains that never end\<close>

text \<open>
  A cluster from which the chain only leads to other clusters of a set that holds no end mark.
  Nothing counts the clusters visited: looking for the end of such a chain does not return.
\<close>

definition endless :: "fat_drive \<Rightarrow> nat set \<Rightarrow> bool" where
  "endless d X \<longleftrightarrow> X \<subseteq> clusters d \<and>
     (\<forall>c \<in> X. table d c \<in> X \<and> \<not> isEOF (fattype d) (table d c))"

lemma endless_cached: "cached d d' \<Longrightarrow> endless d' X = endless d X"
  using cached_facts [of d d'] by (simp add: endless_def)

lemma chain_end_endless:
  assumes "fat_ok d" "endless d X" "c \<in> X"
  shows "chain_end c d = None"
proof -
  let ?P = "\<lambda>c d (r :: nat \<times> fat_drive). fat_ok d \<and> endless d X \<and> c \<in> X \<longrightarrow> False"
  have False if "chain_end c d = Some r" for r
  proof -
    have "?P c d r"
    proof (rule chain_end.raw_induct [where P = ?P, OF _ that], goal_cases)
      case (1 rec c d r)
      show ?case
      proof
        assume a: "fat_ok d \<and> endless d X \<and> c \<in> X"
        then have "c \<in> clusters d"
          by (auto simp: endless_def)
        then obtain d1 where g: "getClusterValue c d = (table d c, d1)" "cached d d1"
          using getClusterValue a by blast
        note facts = cached_facts [OF g(2)]
        have "rec (table d c) d1 = Some r"
          using 1(2) g(1) a facts(7) by (simp add: endless_def)
        moreover have "table d c \<in> X"
          using a by (simp add: endless_def)
        ultimately show False
          using 1(1) [of "table d c" d1 r] a facts(2) endless_cached [OF g(2), of X] by blast
      qed
    qed
    then show False
      using assms by blast
  qed
  then show ?thesis
    by (cases "chain_end c d") auto
qed

lemma appendCluster_endless:
  "fat_ok d \<Longrightarrow> endless d X \<Longrightarrow> c \<in> X \<Longrightarrow> appendCluster c d = None"
  by (simp add: appendCluster_def chain_end_endless)

section \<open>Counting free clusters\<close>

lemma count_free_card:
  assumes "fat_ok d" "i + n \<le> CountOfClusters d"
  shows "\<exists>d'. count_free i n d = (card {c \<in> {i + 2..< i + n + 2}. table d c = 0}, d') \<and> cached d d'"
  using assms
proof (induction n arbitrary: i d)
  case 0
  then show ?case
    using cached_refl by auto
next
  case (Suc n)
  have "i + 2 \<in> clusters d"
    using Suc.prems by (simp add: clusters_def)
  then obtain d1 where g: "getClusterValue (i + 2) d = (table d (i + 2), d1)" "cached d d1"
    using getClusterValue [OF Suc.prems(1)] by blast
  note facts = cached_facts [OF g(2)]
  let ?S = "{c \<in> {i + 1 + 2..< i + 1 + n + 2}. table d c = 0}"
  have "i + 1 + n \<le> CountOfClusters d1"
    using Suc.prems facts(1) by simp
  then obtain d2 where r: "count_free (i + 1) n d1 = (card ?S, d2)" "cached d1 d2"
    using Suc.IH [OF facts(2), of "i + 1"] facts(3) by auto
  have "{i + 2..< i + Suc n + 2} = insert (i + 2) {i + 1 + 2..< i + 1 + n + 2}"
    by auto
  then have "{c \<in> {i + 2..< i + Suc n + 2}. table d c = 0} =
      (if table d (i + 2) = 0 then insert (i + 2) ?S else ?S)"
    by auto
  moreover have "finite ?S" "i + 2 \<notin> ?S"
    by auto
  ultimately show ?case
    using g r cached_trans [OF g(2) r(2)] by simp
qed

lemma AllocationInfo:
  assumes "fat_ok d"
  obtains d' where "cached d d'" "AllocationInfo d =
    ((512, sectorspercluster d, min (CountOfClusters d) 65535,
      min (card {c \<in> data_clusters d. table d c = 0}) 65535), d')"
proof -
  have "{0 + 2..< 0 + CountOfClusters d + 2} = data_clusters d"
    by (simp add: data_clusters_def numeral_2_eq_2)
  then obtain d' where
    "count_free 0 (CountOfClusters d) d = (card {c \<in> data_clusters d. table d c = 0}, d')" "cached d d'"
    using count_free_card [OF assms, of 0 "CountOfClusters d"] by auto
  then show thesis
    using that by (simp add: AllocationInfo_def BytePerSector_def min_def)
qed

end
