(* ===== verification/Fat_Correct.thy ===== *)
theory Fat_Correct
  imports Fat_Cut
begin

text \<open>
  The correctness of the file allocation table and of cluster chains, with an example drive on
  which the hypotheses hold.
\<close>

section \<open>Files are independent\<close>

definition chain_sectors :: "fat_drive \<Rightarrow> nat list \<Rightarrow> nat list" where
  "chain_sectors d cs = concat (map (\<lambda>c. map (cluster_sector d c) [0..<sectorspercluster d]) cs)"

definition chain_data :: "fat_drive \<Rightarrow> nat list \<Rightarrow> u8 list list" where
  "chain_data d cs = map (sector d) (chain_sectors d cs)"

lemma chain_sectors_layout: "same_layout d d' \<Longrightarrow> chain_sectors d' = chain_sectors d"
proof -
  assume same: "same_layout d d'"
  then have "cluster_sector d' = cluster_sector d"
    by (intro ext) (simp add: cluster_sector_def)
  then show ?thesis
    using same by (intro ext) (simp add: chain_sectors_def)
qed

lemma length_grid: "length (concat (map (\<lambda>c. map (g c) [0..<s]) cs)) = length cs * s"
  by (induction cs) simp_all

lemma nth_grid:
  "n < length cs * s \<Longrightarrow> concat (map (\<lambda>c. map (g c) [0..<s]) cs) ! n = g (cs ! (n div s)) (n mod s)"
proof (induction cs arbitrary: n)
  case (Cons c cs)
  show ?case
  proof (cases "n < s")
    case False
    then have "0 < s"
      using Cons.prems by (cases s) auto
    then have "n - s < length cs * s" "n div s = Suc ((n - s) div s)" "n mod s = (n - s) mod s"
      using Cons.prems False by (auto simp: le_div_geq le_mod_geq)
    then show ?thesis
      using False Cons.IH [of "n - s"] by (simp add: nth_append)
  qed (simp add: nth_append)
qed simp

lemma set_chain_sectors: "set (chain_sectors d cs) = (\<Union>c \<in> set cs. cluster_sectors d c)"
  by (auto simp: chain_sectors_def cluster_sectors_def)

lemma chain_sector_exists:
  assumes "fat_ok d" "set cs \<subseteq> data_clusters d" "n \<in> set (chain_sectors d cs)"
  shows "n < sector_count d" "outside_fats d n"
proof -
  have lay: "layout_ok d"
    using assms(1) by (simp add: fat_ok_def)
  obtain c k where ck: "c \<in> data_clusters d" "k < sectorspercluster d" "n = cluster_sector d c k"
    using assms(2,3) by (auto simp: set_chain_sectors cluster_sectors_def)
  show "n < sector_count d" "outside_fats d n"
    using cluster_sector_exists(1) [OF lay ck(1,2)] data_sector_outside [OF lay ck(1,2)] ck(3) by simp_all
qed

lemma cluster_sectors_disjoint:
  assumes "c \<in> data_clusters d" "c' \<in> data_clusters d" "c \<noteq> c'"
  shows "cluster_sectors d c \<inter> cluster_sectors d c' = {}"
  using cluster_sector_inj [OF assms(1,2)] assms(3) by (auto simp: cluster_sectors_def)

lemma keeps_data:
  assumes "fat_ok d" "keeps X d d'" "set cs \<subseteq> data_clusters d" "X \<inter> set (chain_sectors d cs) = {}"
  shows "chain_data d' cs = chain_data d cs"
proof -
  have "sector d' n = sector d n" if "n \<in> set (chain_sectors d cs)" for n
    using chain_sector_exists [OF assms(1,3) that] assms(2,4) that unfolding keeps_def by blast
  then show ?thesis
    unfolding chain_data_def chain_sectors_layout [OF keeps_layout(1) [OF assms(2)]] by simp
qed

lemma keeps_chain:
  assumes "chain d xs" "keeps X d d'" "\<And>c. c \<in> set xs \<Longrightarrow> table d' c = table d c"
  shows "chain d' xs"
  using assms(1,3) links_cong [of "fattype d" "table d" xs "table d'"]
  unfolding chain_def keeps_layout(4,5) [OF assms(2)] by blast

section \<open>An example drive\<close>

text \<open>
  A drive with 12-bit entries, two copies of a table of one sector, 16 entries in the root directory,
  of which the first is in use, and six clusters of one sector: the file 2, 3, 5 of that entry, the
  file 7, and the free clusters 4 and 6.
\<close>

definition small_fat :: "u8 list" where
  "small_fat = [0xf0, 0xff, 0xff, 0x03, 0x50, 0x00, 0x00, 0xf0, 0xff, 0x00, 0xf0, 0xff] @ replicate 500 0"

definition small_root :: "u8 list" where
  "small_root = 0x41 # replicate 10 0x20 @ 0x20 # replicate 14 0 @
     [0x02, 0x00, 0xb0, 0x04, 0x00, 0x00] @ replicate 480 0"

definition small_disk :: fat_drive where
  "small_disk = \<lparr>bytespersector = 512, sectorspercluster = 1, reservedsectors = 1, fatcopies = 2,
     rootdirentries = 16, sectorsperfat = 1, sectorspertrack = 1, headcount = 1, partSectOff = 0,
     absolute = True, fattype = FAT12, CountOfClusters = 6, firstDataSector = 4, firstRootDirSect = 3,
     fatSectBuffer = replicate 1024 0, curFatSect = 0xffffffff, heads = 1, sectors = 1,
     diskimg = (\<lambda>n. if n = 1 \<or> n = 2 then Some small_fat else if n = 3 then Some small_root
       else Some (replicate 512 0))\<rparr>"

text \<open>The same drive, with cluster 5 leading back to cluster 2.\<close>

definition looped_disk :: fat_drive where
  "looped_disk = small_disk\<lparr>diskimg := (\<lambda>n. if n = 1 \<or> n = 2 then Some (small_fat[7 := 0x20, 8 := 0x00])
     else Some (replicate 512 0))\<rparr>"

lemma small_disk_ok: "fat_ok small_disk" "mirrored small_disk"
proof -
  show "fat_ok small_disk"
    by (auto simp: fat_ok_def sectors_ok_def geometry_ok_def sector_count_def layout_ok_def cache_ok_def
        in_fat_def fat_start_def image_sector_def small_disk_def small_fat_def small_root_def)
  have "fc = 0 \<or> fc = 1" if "fc < 2" for fc :: nat
    using that by auto
  then show "mirrored small_disk"
    by (fastforce simp: mirrored_def fat_sector_def fat_start_def sector_def image_sector_def small_disk_def)
qed

lemma small_table:
  "table small_disk 2 = 3" "table small_disk 3 = 5" "table small_disk 5 = 0xfff"
  "table small_disk 4 = 0" "table small_disk 6 = 0" "table small_disk 7 = 0xfff"
  by (simp_all add: table_def table_byte_def fat_sector_def fat_start_def sector_def image_sector_def
      small_disk_def small_fat_def)

lemma small_clusters:
  "data_clusters small_disk = {2, 3, 4, 5, 6, 7}" "clusters small_disk = {0, 1, 2, 3, 4, 5, 6, 7}"
  "fattype small_disk = FAT12" "sectorspercluster small_disk = 1" "firstDataSector small_disk = 4"
  "getClusterSize small_disk = 512" "sector_count small_disk = 10"
  by (auto simp: data_clusters_def clusters_def small_disk_def getClusterSize_def sector_count_def)

lemma small_chain: "chain small_disk [2, 3, 5]" "chain small_disk [7]"
  by (simp_all add: chain_def small_table small_clusters)

lemma looped_disk_ok: "fat_ok looped_disk"
  by (auto simp: fat_ok_def sectors_ok_def geometry_ok_def sector_count_def layout_ok_def cache_ok_def
      in_fat_def fat_start_def image_sector_def looped_disk_def small_disk_def small_fat_def
      sector_def)

lemma looped_endless: "endless looped_disk {2, 3, 5}"
  by (simp add: endless_def clusters_def table_def table_byte_def fat_sector_def fat_start_def sector_def
      image_sector_def looped_disk_def small_disk_def small_fat_def)

section \<open>Appending leaves other files alone\<close>

lemma appendCluster_files:
  assumes "fat_ok d" "mirrored d" "chain d cs"
  shows "(\<exists>d'. appendCluster (hd cs) d = Some (0, d') \<and> disk_full d \<and> cached d d') \<or>
    (\<exists>f d'. appendCluster (hd cs) d = Some (f, d') \<and> first_free d f \<and> fat_ok d' \<and> mirrored d' \<and> same_layout d d' \<and>
      chain d' (cs @ [f]) \<and>
      chain_data d' (cs @ [f]) = chain_data d cs @ replicate (sectorspercluster d) (replicate 512 0) \<and>
      (\<forall>xs. chain d xs \<and> set xs \<inter> set cs = {} \<longrightarrow> chain d' xs \<and> chain_data d' xs = chain_data d xs))"
  using assms(1,3)
proof (cases rule: appendCluster)
  case (grown f d')
  note k = grown(3) and lay = keeps_layout [OF grown(3)]
  have f: "f \<in> data_clusters d" "table d f = 0"
    using grown(1) by (simp_all add: first_free_def)
  have apart: "cluster_sectors d f \<inter> set (chain_sectors d xs) = {}" if "chain d xs" for xs
  proof -
    have "f \<notin> set xs" "set xs \<subseteq> data_clusters d"
      using chain_not_free [OF that, of f] that f(2) by (auto simp: chain_def)
    then show ?thesis
      using cluster_sectors_disjoint [OF f(1)] by (auto simp: set_chain_sectors)
  qed
  have data: "chain_data d' xs = chain_data d xs" if "chain d xs" for xs
    using keeps_data [OF assms(1) k _ apart [OF that]] that by (simp add: chain_def)
  have zero: "sector d' (cluster_sector d f i) = replicate 512 0" if "i < sectorspercluster d" for i
    using grown(6) that by (simp add: cluster_sectors_def)
  have "chain_data d' (cs @ [f]) = chain_data d cs @ replicate (sectorspercluster d) (replicate 512 0)"
  proof -
    have "chain_data d' (cs @ [f]) = chain_data d' cs @
        map (\<lambda>i. sector d' (cluster_sector d f i)) [0..<sectorspercluster d]"
      using lay(7) same_layout_fields(2) [OF lay(1)] by (simp add: chain_data_def chain_sectors_def comp_def)
    also have "map (\<lambda>i. sector d' (cluster_sector d f i)) [0..<sectorspercluster d] =
        replicate (sectorspercluster d) (replicate 512 0)"
      using zero by (simp add: list_eq_iff_nth_eq)
    finally show ?thesis
      using data [OF assms(3)] by simp
  qed
  moreover have "chain d' xs" if "chain d xs" "set xs \<inter> set cs = {}" for xs
  proof (rule keeps_chain [OF that(1) k])
    fix c assume c: "c \<in> set xs"
    have "c \<noteq> f" "c \<in> clusters d'" "c \<noteq> last cs"
      using chain_not_free [OF that(1) c] f(2) that c lay(3) data_in_clusters assms(3) links_nonempty
      by (auto simp: chain_def)
    then show "table d' c = table d c"
      using grown(5) by (simp add: table_is_def)
  qed
  ultimately show ?thesis
    using grown lay(1,2) k assms(2) data unfolding keeps_def by blast
qed auto

section \<open>Properties\<close>

text \<open>C11. The packed table on the disk behaves as a function: through the cached sector, \<open>setClusterValue\<close>
  changes the value \<open>getClusterValue\<close> returns for its cluster, cut to the bits of an entry, and for no
  other one (12-bit neighbours share a byte, entries may straddle two sectors), writes every copy of
  the table, and touches no sector outside the tables.\<close>

theorem fat_entries_refine_table:
  assumes "fat_ok d" "mirrored d" "c \<in> clusters d"
  shows "let d' = setClusterValue c v d in fat_ok d' \<and> mirrored d' \<and>
    (\<forall>c' \<in> clusters d. fst (getClusterValue c' d') =
       (if c' = c then v mod 2 ^ entry_bits (fattype d) else fst (getClusterValue c' d))) \<and>
    (\<forall>n < sector_count d. outside_fats d n \<longrightarrow> sector d' n = sector d n)"
proof -
  let ?d = "setClusterValue c v d"
  note set = setClusterValue [OF assms(1,3), where v = v]
  have "fst (getClusterValue c' ?d) =
      (if c' = c then v mod 2 ^ entry_bits (fattype d) else fst (getClusterValue c' d))"
    if "c' \<in> clusters d" for c'
    using getClusterValue [OF set(2), of c'] getClusterValue [OF assms(1) that] set(3) [OF that]
      clusters_layout [OF set(1)] that by (metis fst_conv)
  then show ?thesis
    using set assms by (simp add: Let_def)
qed

theorem fat_entries_refine_table_witness:
  "fst (getClusterValue 4 (setClusterValue 4 0x1abc small_disk)) = 0xabc \<and>
   fst (getClusterValue 5 (setClusterValue 4 0x1abc small_disk)) = 0xfff \<and>
   fst (getClusterValue 3 (setClusterValue 4 0x1abc small_disk)) = 5"
proof -
  let ?d = "setClusterValue 4 0x1abc small_disk"
  have "fst (getClusterValue c ?d) = (if c = 4 then 0xabc else fst (getClusterValue c small_disk))"
    if "c \<in> clusters small_disk" for c
    using fat_entries_refine_table [OF small_disk_ok, of 4 "0x1abc"] that
    by (auto simp: Let_def small_clusters(2,3))
  moreover have "fst (getClusterValue c small_disk) = table small_disk c" if "c \<in> clusters small_disk" for c
    using getClusterValue [OF small_disk_ok(1) that] by (metis fst_conv)
  ultimately show ?thesis
    by (simp add: small_clusters(2) small_table)
qed

text \<open>C12. \<open>appendCluster\<close> returns on every chain: it finds the disk full and changes nothing on it, or takes the
  first free cluster, links it behind the last cluster of the chain and fills it with zeroes; the
  contents of the chain stay, and every file on other clusters keeps its chain and its contents.\<close>

theorem fat_append_cluster:
  assumes "fat_ok d" "mirrored d" "chain d cs"
  shows "(\<exists>d'. appendCluster (hd cs) d = Some (0, d') \<and> disk_full d \<and> cached d d') \<or>
    (\<exists>f d'. appendCluster (hd cs) d = Some (f, d') \<and> first_free d f \<and> fat_ok d' \<and> mirrored d' \<and>
      chain d' (cs @ [f]) \<and>
      chain_data d' (cs @ [f]) = chain_data d cs @ replicate (sectorspercluster d) (replicate 512 0) \<and>
      (\<forall>xs. chain d xs \<and> set xs \<inter> set cs = {} \<longrightarrow> chain d' xs \<and> chain_data d' xs = chain_data d xs))"
  using appendCluster_files [OF assms] by blast

theorem fat_append_cluster_witness:
  "\<exists>d'. appendCluster 2 small_disk = Some (4, d') \<and> chain d' [2, 3, 5, 4] \<and> chain d' [7]"
proof -
  have "first_free small_disk f \<Longrightarrow> f = 4" "\<not> disk_full small_disk" for f
    by (auto simp: first_free_def disk_full_def small_table small_clusters)
  then show ?thesis
    using fat_append_cluster [OF small_disk_ok small_chain(1)] small_chain(2) by force
qed

text \<open>C13. \<open>deleteClustChain\<close> returns on every chain: the clusters behind those that hold the bytes before the
  position are free afterwards, the others are a chain with its own end mark, files on other clusters
  keep their chains, and no data sector changes.\<close>

theorem fat_truncate_chain:
  assumes "fat_ok d" "mirrored d" "chain d cs" "bytePos + getClusterSize d < 2 ^ 32"
  shows "\<exists>d'. deleteClustChain (hd cs) bytePos d = Some d' \<and> fat_ok d' \<and> mirrored d' \<and>
    (0 < bytePos \<longrightarrow> chain d' (take (clusters_for d bytePos) cs)) \<and>
    (\<forall>c \<in> set (drop (clusters_for d bytePos) cs). table d' c = 0) \<and>
    (\<forall>xs. chain d xs \<and> set xs \<inter> set cs = {} \<longrightarrow> chain d' xs) \<and>
    (\<forall>xs. set xs \<subseteq> data_clusters d \<longrightarrow> chain_data d' xs = chain_data d xs)"
proof -
  let ?e = "clusters_for d bytePos"
  obtain d' where d': "deleteClustChain (hd cs) bytePos d = Some d'" and k: "keeps {} d d'"
    and t: "\<forall>c \<in> clusters d. table d' c = (if c \<in> set (drop ?e cs) then 0
        else if 0 < ?e \<and> ?e < length cs \<and> c = cs ! (?e - 1) then eof_mark (fattype d)
        else table d c)"
    and pre: "0 < ?e \<longrightarrow> chain d' (take ?e cs)"
    using deleteClustChain [OF assms(1,3,4)] by blast
  have cs: "set cs \<subseteq> data_clusters d"
    using assms(3) by (simp add: chain_def)
  have "chain d' xs" if "chain d xs" "set xs \<inter> set cs = {}" for xs
  proof (rule keeps_chain [OF that(1) k])
    fix c assume c: "c \<in> set xs"
    then have "c \<notin> set cs" "c \<in> clusters d"
      using that data_in_clusters by (auto simp: chain_def)
    then show "table d' c = table d c"
      using t set_drop_subset [of ?e cs] by auto
  qed
  moreover have "table d' c = 0" if "c \<in> set (drop ?e cs)" for c
    using t that cs set_drop_subset [of ?e cs] data_in_clusters by fastforce
  moreover have "0 < ?e" if "0 < bytePos"
    using that assms(1) by (simp add: clusters_for_def fat_ok_def layout_ok_def getClusterSize_def
        div_greater_zero_iff)
  ultimately show ?thesis
    using d' k pre keeps_data [OF assms(1) k] assms(2) unfolding keeps_def by auto
qed

theorem fat_truncate_chain_witness:
  "\<exists>d'. deleteClustChain 2 700 small_disk = Some d' \<and> chain d' [2, 3] \<and> table d' 5 = 0 \<and> chain d' [7]"
proof -
  have "clusters_for small_disk 700 = 2"
    by (simp add: clusters_for_def small_clusters)
  then show ?thesis
    using fat_truncate_chain [OF small_disk_ok small_chain(1), of 700] small_chain(2)
    by (auto simp: small_clusters)
qed

text \<open>\<open>getAbsoluteSectFromBytePos\<close> finds the sector of a byte of a file: the sectors of its clusters in the
  order of the chain, and sector 0 behind the end of the chain.\<close>

theorem fat_position_to_sector:
  assumes "fat_ok d" "chain d cs"
  shows "\<exists>d'. getAbsoluteSectFromBytePos (hd cs) bytePos d =
      (let n = bytePos div 512 in
       if n < length (chain_sectors d cs) then chain_sectors d cs ! n else 0, d') \<and> cached d d'"
proof -
  let ?s = "sectorspercluster d" and ?n = "bytePos div 512"
  have lay: "bytespersector d = 512" "0 < ?s"
    using assms(1) by (simp_all add: fat_ok_def layout_ok_def)
  have flat: "length (chain_sectors d cs) = length cs * ?s"
    "n < length cs * ?s \<Longrightarrow> chain_sectors d cs ! n = cluster_sector d (cs ! (n div ?s)) (n mod ?s)" for n
    unfolding chain_sectors_def by (rule length_grid nth_grid)+
  have "?n div ?s < length cs \<longleftrightarrow> ?n < length cs * ?s"
    using lay(2) by (simp add: div_less_iff_less_mult)
  then show ?thesis
    using getAbsoluteSectFromChain_chain [OF assms, of ?n] flat lay
    by (cases "?n < length cs * ?s") (simp_all add: getAbsoluteSectFromBytePos_def Let_def)
qed

theorem fat_position_to_sector_witness:
  "fst (getAbsoluteSectFromBytePos 2 1100 small_disk) = 7 \<and>
   fst (getAbsoluteSectFromBytePos 2 1536 small_disk) = 0"
  using fat_position_to_sector [OF small_disk_ok(1) small_chain(1), of 1100]
    fat_position_to_sector [OF small_disk_ok(1) small_chain(1), of 1536]
  by (auto simp: chain_sectors_def cluster_sector_def small_clusters)

text \<open>C38. On a chain that leads around a cycle of clusters \<open>appendCluster\<close> never returns: nothing bounds the
  search for the end mark.\<close>

theorem fat_append_endless:
  assumes "fat_ok d" "endless d X" "startCluster \<in> X"
  shows "appendCluster startCluster d = None"
  using assms by (rule appendCluster_endless)

theorem fat_append_endless_witness: "appendCluster 2 looped_disk = None"
  using fat_append_endless [OF looped_disk_ok looped_endless] by simp

end
