(* ===== verification/Fat_Dir.thy ===== *)
theory Fat_Dir
  imports Fat_Correct
begin

text \<open>
  Directories: entries of 32 bytes in the sectors of the root directory or of a chain of clusters,
  read, changed and added by \<open>directoryBrowse\<close>, \<open>directoryChange\<close> and \<open>addDirectoryEntry\<close> of
  \<open>src/src/dos/drive_fat.cpp\<close>.
\<close>

section \<open>Entries\<close>

record direntry =
  entryname :: "u8 list"
  attrib :: u8
  NTRes :: u8
  milliSecondStamp :: u8
  crtTime :: u16
  crtDate :: u16
  accessDate :: u16
  hiFirstClust :: u16
  modTime :: u16
  modDate :: u16
  loFirstClust :: u16
  entrysize :: u32

definition le16 :: "u16 \<Rightarrow> u8 list" where
  "le16 w = [of_nat (unat w), of_nat (unat w div 2 ^ 8)]"

definition le32 :: "u32 \<Rightarrow> u8 list" where
  "le32 w = [of_nat (unat w), of_nat (unat w div 2 ^ 8), of_nat (unat w div 2 ^ 16),
     of_nat (unat w div 2 ^ 24)]"

definition direntry_bytes :: "direntry \<Rightarrow> u8 list" where
  "direntry_bytes e = entryname e @ [attrib e, NTRes e, milliSecondStamp e] @ le16 (crtTime e) @
     le16 (crtDate e) @ le16 (accessDate e) @ le16 (hiFirstClust e) @ le16 (modTime e) @
     le16 (modDate e) @ le16 (loFirstClust e) @ le32 (entrysize e)"

definition bytes_direntry :: "u8 list \<Rightarrow> direntry" where
  "bytes_direntry x = \<lparr>entryname = take 11 x, attrib = x ! 11, NTRes = x ! 12,
     milliSecondStamp = x ! 13, crtTime = of_nat (var_read16 x 14), crtDate = of_nat (var_read16 x 16),
     accessDate = of_nat (var_read16 x 18), hiFirstClust = of_nat (var_read16 x 20),
     modTime = of_nat (var_read16 x 22), modDate = of_nat (var_read16 x 24),
     loFirstClust = of_nat (var_read16 x 26), entrysize = of_nat (var_read32 x 28)\<rparr>"

text \<open>The entries of a sector, read and written by \<open>copyDirEntry\<close>.\<close>

definition sect_entry :: "u8 list \<Rightarrow> nat \<Rightarrow> u8 list" where
  "sect_entry sectbuf entryoffset = take 32 (drop (32 * entryoffset) sectbuf)"

definition put_sect_entry :: "u8 list \<Rightarrow> nat \<Rightarrow> u8 list \<Rightarrow> u8 list" where
  "put_sect_entry sectbuf entryoffset x =
     take (32 * entryoffset) sectbuf @ x @ drop (32 * entryoffset + 32) sectbuf"

section \<open>Browsing and changing\<close>

text \<open>The sector of a position, \<^const>\<open>None\<close> where the loops return false.\<close>

definition dir_sector :: "nat \<Rightarrow> nat \<Rightarrow> fat_drive \<Rightarrow> nat option \<times> fat_drive" where
  "dir_sector dirClustNumber dirPos d =
     (let logentsector = dirPos div 16
      in if dirClustNumber = 0
         then if dirPos \<ge> rootdirentries d then (None, d)
              else (Some (wrap32 (firstRootDirSect d + logentsector)), d)
         else let (tmpsector, d) = getAbsoluteSectFromChain dirClustNumber logentsector d
              in (if tmpsector = 0 then None else Some tmpsector, d))"

text \<open>
  The loop of \<open>directoryBrowse\<close> and \<open>directoryChange\<close>, with the last sector read, its bytes and the
  place of the last entry in it.
\<close>

fun dir_walk :: "nat \<Rightarrow> nat \<Rightarrow> nat \<Rightarrow> nat \<times> u8 list \<times> nat \<Rightarrow> fat_drive \<Rightarrow>
    (nat \<times> u8 list \<times> nat) option \<times> fat_drive" where
  "dir_walk 0 dirClustNumber dirPos cur d = (Some cur, d)"
| "dir_walk (Suc n) dirClustNumber dirPos cur d =
     (case dir_sector dirClustNumber dirPos d of
        (None, d) \<Rightarrow> (None, d)
      | (Some tmpsector, d) \<Rightarrow>
          let sectbuf = readSector tmpsector (fst (snd cur)) d;
              entryoffset = dirPos mod 16
          in if sect_entry sectbuf entryoffset ! 0 = 0x00 then (None, d)
             else dir_walk n dirClustNumber ((dirPos + 1) mod 2 ^ 16) (tmpsector, sectbuf, entryoffset) d)"

text \<open>The buffer on the stack; every sector that is read exists, so its first contents are not seen.\<close>

definition no_sector :: "nat \<times> u8 list \<times> nat" where
  "no_sector = (0, replicate BytePerSector 0, 0)"

definition directoryBrowse :: "nat \<Rightarrow> direntry \<Rightarrow> int \<Rightarrow> int \<Rightarrow> fat_drive \<Rightarrow> bool \<times> direntry \<times> fat_drive" where
  "directoryBrowse dirClustNumber useEntry entNum start d =
     (if start < 0 \<or> start > 65535 then (False, useEntry, d)
      else if entNum < start then (False, useEntry, d)
      else case dir_walk (nat (entNum - start + 1)) dirClustNumber (nat start) no_sector d of
        (None, d) \<Rightarrow> (False, useEntry, d)
      | (Some (tmpsector, sectbuf, entryoffset), d) \<Rightarrow>
          (True, bytes_direntry (sect_entry sectbuf entryoffset), d))"

definition directoryChange :: "nat \<Rightarrow> direntry \<Rightarrow> int \<Rightarrow> fat_drive \<Rightarrow> bool \<times> fat_drive" where
  "directoryChange dirClustNumber useEntry entNum d =
     (case dir_walk (nat (entNum + 1)) dirClustNumber 0 no_sector d of
        (None, d) \<Rightarrow> (False, d)
      | (Some (tmpsector, sectbuf, entryoffset), d) \<Rightarrow>
          if tmpsector \<noteq> 0
          then (True, writeSector tmpsector (put_sect_entry sectbuf entryoffset (direntry_bytes useEntry)) d)
          else (False, d))"

section \<open>Adding entries\<close>

text \<open>
  The sector of a position in \<open>addDirectoryEntry\<close>, which extends the chain of a directory; \<^const>\<open>None\<close> when
  looking for the end of the chain does not return.
\<close>

definition room_sector :: "nat \<Rightarrow> nat \<Rightarrow> fat_drive \<Rightarrow> (nat option \<times> fat_drive) option" where
  "room_sector dirClustNumber dirPos d =
     (case dir_sector dirClustNumber dirPos d of
        (Some tmpsector, d) \<Rightarrow> Some (Some tmpsector, d)
      | (None, d) \<Rightarrow>
          if dirClustNumber = 0 then Some (None, d)
          else case appendCluster dirClustNumber d of
            None \<Rightarrow> None
          | Some (newClust, d) \<Rightarrow>
              Some (if newClust = 0 then (None, d) else dir_sector dirClustNumber dirPos d))"

partial_function (option) add_loop ::
    "nat \<Rightarrow> direntry \<Rightarrow> nat \<Rightarrow> u8 list \<Rightarrow> fat_drive \<Rightarrow> (bool \<times> fat_drive) option" where
  "add_loop dirClustNumber useEntry dirPos sectbuf d =
     (case room_sector dirClustNumber dirPos d of
        None \<Rightarrow> None
      | Some (None, d) \<Rightarrow> Some (False, d)
      | Some (Some tmpsector, d) \<Rightarrow>
          let sectbuf = readSector tmpsector sectbuf d;
              entryoffset = dirPos mod 16;
              first = sect_entry sectbuf entryoffset ! 0
          in if first = 0xe5 \<or> first = 0x00
             then Some (True, writeSector tmpsector
                    (put_sect_entry sectbuf entryoffset (direntry_bytes useEntry)) d)
             else add_loop dirClustNumber useEntry ((dirPos + 1) mod 2 ^ 16) sectbuf d)"

definition addDirectoryEntry :: "nat \<Rightarrow> direntry \<Rightarrow> fat_drive \<Rightarrow> (bool \<times> fat_drive) option" where
  "addDirectoryEntry dirClustNumber useEntry d =
     add_loop dirClustNumber useEntry 0 (replicate BytePerSector 0) d"

section \<open>Entries as bytes\<close>

lemma length_le [simp]: "length (le16 w) = 2" "length (le32 x) = 4"
  by (simp_all add: le16_def le32_def)

definition direntry_ok :: "direntry \<Rightarrow> bool" where
  "direntry_ok e \<longleftrightarrow> length (entryname e) = 11"

lemma direntry_bytes_length: "direntry_ok e \<Longrightarrow> length (direntry_bytes e) = 32"
  by (simp add: direntry_bytes_def direntry_ok_def)

lemma read16_le: "x ! i = of_nat (unat (w :: u16)) \<Longrightarrow> x ! (i + 1) = of_nat (unat w div 256) \<Longrightarrow>
    (of_nat (var_read16 x i) :: u16) = w"
proof -
  assume a: "x ! i = of_nat (unat w)" "x ! (i + 1) = of_nat (unat w div 256)"
  have "var_read16 x i = unat w"
    unfolding var_read16_def a byte_of_nat using split_16 [of "unat w"] unat_bound [of w] by simp
  then show ?thesis
    by simp
qed

lemma read32_le: "x ! i = of_nat (unat (w :: u32)) \<Longrightarrow> x ! (i + 1) = of_nat (unat w div 256) \<Longrightarrow>
    x ! (i + 2) = of_nat (unat w div 65536) \<Longrightarrow> x ! (i + 3) = of_nat (unat w div 16777216) \<Longrightarrow>
    (of_nat (var_read32 x i) :: u32) = w"
proof -
  assume a: "x ! i = of_nat (unat w)" "x ! (i + 1) = of_nat (unat w div 256)"
    "x ! (i + 2) = of_nat (unat w div 65536)" "x ! (i + 3) = of_nat (unat w div 16777216)"
  have "var_read32 x i = unat w"
    unfolding var_read32_def a byte_of_nat using split_32 [of "unat w"] unat_bound [of w] by simp
  then show ?thesis
    by simp
qed

lemma bytes_direntry_bytes:
  assumes "direntry_ok e"
  shows "bytes_direntry (direntry_bytes e) = e"
proof -
  obtain b0 b1 b2 b3 b4 b5 b6 b7 b8 b9 b10 where n: "entryname e = [b0, b1, b2, b3, b4, b5, b6, b7, b8, b9, b10]"
    using assms unfolding direntry_ok_def
    by (auto simp: length_Suc_conv numeral_eq_Suc)
  let ?x = "direntry_bytes e"
  have x: "?x = [b0, b1, b2, b3, b4, b5, b6, b7, b8, b9, b10, attrib e, NTRes e, milliSecondStamp e] @
     le16 (crtTime e) @ le16 (crtDate e) @ le16 (accessDate e) @ le16 (hiFirstClust e) @
     le16 (modTime e) @ le16 (modDate e) @ le16 (loFirstClust e) @ le32 (entrysize e)"
    by (simp add: direntry_bytes_def n)
  have "(of_nat (var_read16 ?x 14) :: u16) = crtTime e" "(of_nat (var_read16 ?x 16) :: u16) = crtDate e"
    "(of_nat (var_read16 ?x 18) :: u16) = accessDate e" "(of_nat (var_read16 ?x 20) :: u16) = hiFirstClust e"
    "(of_nat (var_read16 ?x 22) :: u16) = modTime e" "(of_nat (var_read16 ?x 24) :: u16) = modDate e"
    "(of_nat (var_read16 ?x 26) :: u16) = loFirstClust e"
    by (rule read16_le; simp add: x le16_def)+
  moreover have "(of_nat (var_read32 ?x 28) :: u32) = entrysize e"
    by (rule read32_le) (simp_all add: x le16_def le32_def)
  moreover have "take 11 ?x = entryname e" "?x ! 11 = attrib e" "?x ! 12 = NTRes e" "?x ! 13 = milliSecondStamp e"
    by (simp_all add: x n)
  ultimately show ?thesis
    by (simp add: bytes_direntry_def)
qed

end
