(* ===== verification/Fat_Slots.thy ===== *)
theory Fat_Slots
  imports Fat_Dir
begin

text \<open>
  Directories as sequences of slots of 32 bytes: what browsing, changing and adding do to them.
\<close>

section \<open>Slots\<close>

text \<open>The root directory, cluster number 0, or the directory on a chain of clusters.\<close>

definition dir_ok :: "fat_drive \<Rightarrow> nat \<Rightarrow> nat list \<Rightarrow> bool" where
  "dir_ok d dc cs \<longleftrightarrow> (if dc = 0 then cs = [] else chain d cs \<and> hd cs = dc)"

definition slot_count :: "fat_drive \<Rightarrow> nat list \<Rightarrow> nat" where
  "slot_count d cs = (if cs = [] then rootdirentries d else 16 * (length cs * sectorspercluster d))"

definition slot_sector :: "fat_drive \<Rightarrow> nat list \<Rightarrow> nat \<Rightarrow> nat" where
  "slot_sector d cs p = (if cs = [] then firstRootDirSect d + p div 16 else chain_sectors d cs ! (p div 16))"

definition slot :: "fat_drive \<Rightarrow> nat list \<Rightarrow> nat \<Rightarrow> u8 list" where
  "slot d cs p = sect_entry (sector d (slot_sector d cs p)) (p mod 16)"

lemma slots_layout:
  "same_layout d d' \<Longrightarrow> slot_count d' = slot_count d \<and> slot_sector d' = slot_sector d"
  by (intro conjI ext) (simp_all add: slot_count_def slot_sector_def chain_sectors_layout)

lemma slots_cached: "cached d d' \<Longrightarrow> slot d' = slot d"
  using slots_layout [of d d'] cached_facts(1,4) [of d d'] by (intro ext) (simp add: slot_def)

lemma dir_ok_cached: "cached d d' \<Longrightarrow> dir_ok d' = dir_ok d"
  using cached_facts(8) [of d d'] by (intro ext) (simp add: dir_ok_def)

lemma length_chain_sectors: "length (chain_sectors d cs) = length cs * sectorspercluster d"
  unfolding chain_sectors_def by (rule length_grid)

lemma nth_chain_sectors:
  "n < length cs * sectorspercluster d \<Longrightarrow>
     chain_sectors d cs ! n = cluster_sector d (cs ! (n div sectorspercluster d)) (n mod sectorspercluster d)"
  unfolding chain_sectors_def by (rule nth_grid)

lemma dir_chain_data: "dir_ok d dc cs \<Longrightarrow> set cs \<subseteq> data_clusters d"
  by (auto simp: dir_ok_def chain_def split: if_splits)

lemma root_sector:
  assumes "layout_ok d" "p < rootdirentries d"
  shows "firstRootDirSect d + p div 16 < firstDataSector d"
proof -
  have "p div 16 < (rootdirentries d * 32 + 511) div 512"
    using assms(2) by linarith
  then show ?thesis
    using assms(1) by (simp add: layout_ok_def)
qed

lemma slot_sector_exists:
  assumes ok: "fat_ok d" "set cs \<subseteq> data_clusters d" and p: "p < slot_count d cs"
  shows "slot_sector d cs p < sector_count d" "outside_fats d (slot_sector d cs p)"
proof -
  have lay: "layout_ok d"
    using ok by (simp add: fat_ok_def)
  have *: "slot_sector d cs p \<in> set (chain_sectors d cs)" if "cs \<noteq> []"
    using that p by (simp add: slot_sector_def slot_count_def length_chain_sectors)
  show "slot_sector d cs p < sector_count d" "outside_fats d (slot_sector d cs p)"
    using chain_sector_exists [OF ok *] root_sector [OF lay, of p] p
    by (cases "cs = []"; simp add: slot_sector_def slot_count_def outside_fats_def sector_count_def)+
qed

lemma data_sector_positive:
  assumes "layout_ok d"
  shows "0 < cluster_sector d c k"
proof -
  have "0 < (rootdirentries d * 32 + 511) div 512"
    using assms by (simp add: div_greater_zero_iff layout_ok_def)
  then show ?thesis
    using assms by (simp add: cluster_sector_def layout_ok_def del: div_greater_zero_iff)
qed

lemma dir_sector:
  assumes ok: "fat_ok d" "dir_ok d dc cs"
  shows "\<exists>d'. dir_sector dc p d = (if p < slot_count d cs then Some (slot_sector d cs p) else None, d') \<and>
    cached d d'"
proof (cases "dc = 0")
  case True
  then have cs: "cs = []"
    using ok(2) by (simp add: dir_ok_def)
  have "wrap32 (firstRootDirSect d + p div 16) = firstRootDirSect d + p div 16" if "p < rootdirentries d"
    using slot_sector_exists(1) [OF ok(1), of "[]" p] that count_bound [of d] ok(1) cs
    by (simp add: slot_sector_def slot_count_def fat_ok_def)
  then show ?thesis
    using True cs cached_refl [OF ok(1)] by (simp add: dir_sector_def slot_sector_def slot_count_def)
next
  case False
  let ?n = "p div 16"
  have ch: "chain d cs" "hd cs = dc" "cs \<noteq> []"
    using ok(2) False links_nonempty by (auto simp: dir_ok_def chain_def)
  have lay: "layout_ok d" "0 < sectorspercluster d"
    using ok(1) by (simp_all add: fat_ok_def layout_ok_def)
  have n: "?n div sectorspercluster d < length cs \<longleftrightarrow> p < slot_count d cs"
    "?n < length cs * sectorspercluster d \<longleftrightarrow> p < slot_count d cs"
    using ch(3) lay(2) by (auto simp: slot_count_def div_less_iff_less_mult ac_simps)
  then show ?thesis
    using getAbsoluteSectFromChain_chain [OF ok(1) ch(1), of ?n] ch False data_sector_positive [OF lay(1)]
      nth_chain_sectors [of ?n cs d]
    by (cases "p < slot_count d cs") (auto simp: dir_sector_def slot_sector_def)
qed

section \<open>Walking over the entries\<close>

text \<open>The first \<open>n\<close> entries exist and none is the end of the list.\<close>

definition listed :: "fat_drive \<Rightarrow> nat list \<Rightarrow> nat \<Rightarrow> nat \<Rightarrow> bool" where
  "listed d cs i n \<longleftrightarrow> (\<forall>q. i \<le> q \<and> q < n \<longrightarrow> q < slot_count d cs \<and> slot d cs q ! 0 \<noteq> 0)"

lemma listed_step: "i < n \<Longrightarrow> listed d cs i n \<longleftrightarrow>
    i < slot_count d cs \<and> slot d cs i ! 0 \<noteq> 0 \<and> listed d cs (Suc i) n"
  unfolding listed_def by (metis Suc_leD le_antisym not_less_eq_eq order_refl)

lemma listed_cached: "cached d d' \<Longrightarrow> listed d' = listed d"
  using slots_cached [of d d'] slots_layout [of d d'] cached_facts(1) [of d d']
  by (intro ext) (simp add: listed_def)

lemma read_slot_sector:
  assumes "fat_ok d" "set cs \<subseteq> data_clusters d" "p < slot_count d cs"
  shows "readSector (slot_sector d cs p) b d = sector d (slot_sector d cs p)"
  using assms slot_sector_exists(1) [OF assms] read_sector by (simp add: fat_ok_def)

definition at_slot :: "fat_drive \<Rightarrow> nat list \<Rightarrow> nat \<Rightarrow> nat \<times> u8 list \<times> nat" where
  "at_slot d cs p = (slot_sector d cs p, sector d (slot_sector d cs p), p mod 16)"

lemma dir_walk:
  assumes "fat_ok d" "dir_ok d dc cs" "i + n \<le> 65536"
  shows "\<exists>d'. dir_walk n dc (i mod 65536) cur d =
     (if listed d cs i (i + n) then Some (if n = 0 then cur else at_slot d cs (i + n - 1)) else None, d') \<and>
     cached d d'"
  using assms
proof (induction n arbitrary: i cur d)
  case 0
  then show ?case
    using cached_refl by (auto simp: listed_def)
next
  case (Suc n)
  have i: "i mod 65536 = i" "(i mod 65536 + 1) mod 65536 = Suc i mod 65536"
    using Suc.prems(3) by simp_all
  obtain d1 where s: "dir_sector dc i d = (if i < slot_count d cs then Some (slot_sector d cs i) else None, d1)"
    "cached d d1"
    using dir_sector [OF Suc.prems(1,2)] by blast
  note facts = cached_facts [OF s(2)] slots_cached [OF s(2)] listed_cached [OF s(2)] dir_ok_cached [OF s(2)]
  have same: "slot_count d1 = slot_count d" "slot_sector d1 = slot_sector d"
    using slots_layout [OF facts(1)] by simp_all
  show ?case
  proof (cases "i < slot_count d cs \<and> slot d cs i ! 0 \<noteq> 0")
    case False
    then have "\<not> listed d cs i (i + Suc n)"
      by (simp add: listed_step)
    moreover have "readSector (slot_sector d cs i) b d1 = sector d (slot_sector d cs i)"
      if "i < slot_count d cs" for b
      using read_slot_sector [OF facts(2), of cs i b] that same facts(4,6) dir_chain_data [OF Suc.prems(2)]
      by simp
    ultimately show ?thesis
      using s False i(1) by (auto simp: slot_def Let_def)
  next
    case True
    have rd: "readSector (slot_sector d cs i) b d1 = sector d (slot_sector d cs i)" for b
      using read_slot_sector [OF facts(2), of cs i b] True same facts(4,6) dir_chain_data [OF Suc.prems(2)]
      by simp
    obtain d2 where r: "dir_walk n dc (Suc i mod 65536) (at_slot d cs i) d1 =
        (if listed d cs (Suc i) (Suc i + n) then Some (if n = 0 then at_slot d cs i else at_slot d1 cs (Suc i + n - 1))
         else None, d2)" "cached d1 d2"
      using Suc.IH [OF facts(2), of "Suc i" "at_slot d cs i"] Suc.prems facts(13,14) by auto
    have "dir_walk (Suc n) dc (i mod 65536) cur d = dir_walk n dc (Suc i mod 65536) (at_slot d cs i) d1"
      using s True i by (simp add: rd slot_def at_slot_def Let_def)
    moreover have "at_slot d1 = at_slot d"
      by (intro ext) (simp add: at_slot_def same facts)
    moreover have "listed d cs i (i + Suc n) = listed d cs (Suc i) (Suc i + n)"
      using True listed_step [of i "i + Suc n"] by simp
    ultimately have "dir_walk (Suc n) dc (i mod 65536) cur d =
        (if listed d cs i (i + Suc n) then Some (at_slot d cs (i + n)) else None, d2)"
      using r(1) by (cases "n = 0") (simp_all del: dir_walk.simps)
    then show ?thesis
      using cached_trans [OF s(2) r(2)] by (intro exI [of _ d2]) (simp del: dir_walk.simps)
  qed
qed

lemma directoryBrowse:
  assumes "fat_ok d" "dir_ok d dc cs" "p < 65536"
  shows "\<exists>d'. directoryBrowse dc e (int p) 0 d =
     (if listed d cs 0 (Suc p) then (True, bytes_direntry (slot d cs p), d') else (False, e, d')) \<and> cached d d'"
  using dir_walk [OF assms(1,2), of 0 "Suc p" no_sector] assms(3)
  by (auto simp: directoryBrowse_def at_slot_def slot_def nat_add_distrib split: if_splits)

section \<open>Writing an entry\<close>

lemma length_sect_entry: "length b = 512 \<Longrightarrow> i < 16 \<Longrightarrow> length (sect_entry b i) = 32"
  by (simp add: sect_entry_def)

lemma sect_entry_put:
  assumes "length b = 512" "i < 16" "length x = 32"
  shows "length (put_sect_entry b i x) = 512" "sect_entry (put_sect_entry b i x) i = x"
    and "j < 16 \<Longrightarrow> j \<noteq> i \<Longrightarrow> sect_entry (put_sect_entry b i x) j = sect_entry b j"
proof -
  have i: "32 * i + 32 \<le> 512"
    using assms(2) by simp
  then show len: "length (put_sect_entry b i x) = 512" and "sect_entry (put_sect_entry b i x) i = x"
    using assms(1,3) by (simp_all add: put_sect_entry_def sect_entry_def)
  show "sect_entry (put_sect_entry b i x) j = sect_entry b j" if j: "j < 16" "j \<noteq> i"
  proof (rule nth_equalityI)
    show "length (sect_entry (put_sect_entry b i x) j) = length (sect_entry b j)"
      using length_sect_entry len j(1) assms(1) by simp
    fix k assume "k < length (sect_entry (put_sect_entry b i x) j)"
    then have k: "k < 32"
      by (simp add: sect_entry_def)
    have "32 * j + k < 32 * i \<or> 32 * i + 32 \<le> 32 * j + k"
      using j(2) k by linarith
    then have "put_sect_entry b i x ! (32 * j + k) = b ! (32 * j + k)"
      using i assms(1,3) j(1) k by (auto simp: put_sect_entry_def nth_append)
    then show "sect_entry (put_sect_entry b i x) j ! k = sect_entry b j ! k"
      using k len assms(1) j(1) by (simp add: sect_entry_def)
  qed
qed

lemma distinct_chain_sectors:
  assumes "distinct cs" "set cs \<subseteq> data_clusters d"
  shows "distinct (chain_sectors d cs)"
  using assms
proof (induction cs)
  case (Cons c cs)
  have "distinct (map (cluster_sector d c) [0..<sectorspercluster d])"
    using cluster_sector_inj [of c d c] Cons.prems by (auto simp: distinct_map inj_on_def)
  moreover have "set (map (cluster_sector d c) [0..<sectorspercluster d]) \<inter> set (chain_sectors d cs) = {}"
    using cluster_sectors_disjoint [of c d] Cons.prems unfolding set_chain_sectors
    by (fastforce simp: cluster_sectors_def)
  ultimately show ?case
    using Cons by (simp add: chain_sectors_def)
qed (simp add: chain_sectors_def)

lemma slot_sector_inj:
  assumes "distinct cs" "set cs \<subseteq> data_clusters d" "p < slot_count d cs" "q < slot_count d cs"
  shows "slot_sector d cs p = slot_sector d cs q \<longleftrightarrow> p div 16 = q div 16"
  using distinct_chain_sectors [OF assms(1,2)] assms(3,4)
  by (cases "cs = []") (simp_all add: slot_sector_def slot_count_def nth_eq_iff_index_eq length_chain_sectors
      less_mult_imp_div_less mult.commute)

definition put_slot :: "nat list \<Rightarrow> nat \<Rightarrow> u8 list \<Rightarrow> fat_drive \<Rightarrow> fat_drive" where
  "put_slot cs p x d = writeSector (slot_sector d cs p) (put_sect_entry (sector d (slot_sector d cs p)) (p mod 16) x) d"

lemma put_slot:
  assumes ok: "fat_ok d" "distinct cs" "set cs \<subseteq> data_clusters d" and p: "p < slot_count d cs" "length x = 32"
  defines "d' \<equiv> put_slot cs p x d"
  shows "keeps {slot_sector d cs p} d d'" "table_is d' (table d)" "slot d' cs p = x"
    and "q < slot_count d cs \<Longrightarrow> q \<noteq> p \<Longrightarrow> slot d' cs q = slot d cs q"
proof -
  let ?n = "slot_sector d cs p"
  let ?b = "put_sect_entry (sector d ?n) (p mod 16) x"
  have n: "?n < sector_count d" "outside_fats d ?n"
    using slot_sector_exists [OF ok(1,3) p(1)] .
  have b: "length (sector d ?n) = 512"
    using read_sector n(1) ok(1) by (simp add: fat_ok_def)
  note put = sect_entry_put [OF b _ p(2), of "p mod 16"]
  have len: "length ?b = 512"
    using put(1) by simp
  note w = write_data_sector [OF ok(1) n len]
  have d': "d' = writeSector ?n ?b d"
    by (simp add: d'_def put_slot_def)
  show k: "keeps {?n} d d'"
    using w(1) by (simp add: d')
  note lay = keeps_layout [OF k]
  have same: "slot_sector d' = slot_sector d"
    using slots_layout [OF lay(1)] by simp
  show "table_is d' (table d)"
    using w(3) lay(3) by (simp add: table_is_def d')
  show "slot d' cs p = x"
    using w(2) put(2) unfolding slot_def same by (simp add: d')
  show "slot d' cs q = slot d cs q" if q: "q < slot_count d cs" "q \<noteq> p"
  proof (cases "slot_sector d cs q = ?n")
    case True
    then have "q div 16 = p div 16"
      using slot_sector_inj [OF ok(2,3) q(1) p(1)] by simp
    then have "q mod 16 \<noteq> p mod 16"
      using q(2) by (metis div_mod_decomp)
    then show ?thesis
      using w(2) put(3) [of "q mod 16"] unfolding slot_def same True by (simp add: d')
  next
    case False
    then have "sector d' (slot_sector d cs q) = sector d (slot_sector d cs q)"
      using k slot_sector_exists [OF ok(1,3) q(1)] by (simp add: keeps_def)
    then show ?thesis
      by (simp add: slot_def same)
  qed
qed

lemma dir_chain_distinct: "dir_ok d dc cs \<Longrightarrow> distinct cs"
  by (auto simp: dir_ok_def chain_def split: if_splits)

lemma slot_sector_positive:
  assumes "fat_ok d" "p < slot_count d cs" "set cs \<subseteq> data_clusters d"
  shows "0 < slot_sector d cs p"
proof (cases "cs = []")
  case True
  have lay: "layout_ok d"
    using assms(1) by (simp add: fat_ok_def)
  then have "0 < sectorsperfat d"
    using entry_width_pos [of "fattype d"] by (cases "sectorsperfat d") (simp_all add: layout_ok_def)
  then have "0 < firstRootDirSect d"
    using lay by (simp add: layout_ok_def)
  then show ?thesis
    using True by (simp add: slot_sector_def)
next
  case False
  then show ?thesis
    using assms nth_chain_sectors [of "p div 16" cs d] data_sector_positive [of d]
    by (simp add: slot_sector_def slot_count_def fat_ok_def less_mult_imp_div_less mult.commute)
qed

lemma put_slot_cached:
  assumes "cached d d'"
  shows "put_slot cs p x d' = writeSector (slot_sector d cs p)
    (put_sect_entry (sector d (slot_sector d cs p)) (p mod 16) x) d'"
  using cached_facts(1,4) [OF assms] slots_layout [of d d'] by (simp add: put_slot_def)

lemma directoryChange:
  assumes "fat_ok d" "dir_ok d dc cs" "p < 65536"
  shows "\<exists>d'. cached d d' \<and> directoryChange dc e (int p) d =
     (if listed d cs 0 (Suc p) then (True, put_slot cs p (direntry_bytes e) d') else (False, d'))"
proof -
  obtain d' where d': "dir_walk (Suc p) dc (0 mod 65536) no_sector d =
      (if listed d cs 0 (0 + Suc p) then Some (if Suc p = 0 then no_sector else at_slot d cs (0 + Suc p - 1)) else None, d')"
    "cached d d'"
    using dir_walk [OF assms(1,2), of 0 "Suc p" no_sector] assms(3) by auto
  have "nat (int p + 1) = Suc p"
    by simp
  moreover have "0 < slot_sector d cs p" if "listed d cs 0 (Suc p)"
    using slot_sector_positive [OF assms(1) _ dir_chain_data [OF assms(2)]] that
    by (simp add: listed_def)
  ultimately show ?thesis
    using d' put_slot_cached [OF d'(2)]
    by (intro exI [of _ d']) (simp add: directoryChange_def at_slot_def del: dir_walk.simps)
qed

section \<open>Adding an entry\<close>

definition slot_free :: "u8 list \<Rightarrow> bool" where
  "slot_free x \<longleftrightarrow> x ! 0 = 0xe5 \<or> x ! 0 = 0"

lemma add_loop_slot:
  assumes "fat_ok d" "dir_ok d dc cs" "i \<le> p" "p < slot_count d cs" "p < 65536"
    and "slot_free (slot d cs p)" "\<forall>q. i \<le> q \<and> q < p \<longrightarrow> \<not> slot_free (slot d cs q)"
  shows "\<exists>d'. cached d d' \<and> add_loop dc e (i mod 65536) b d = Some (True, put_slot cs p (direntry_bytes e) d')"
  using assms
proof (induction "p - i" arbitrary: i b d)
  case 0
  then have i: "i = p" "i mod 65536 = i"
    by simp_all
  obtain d1 where s: "dir_sector dc p d = (Some (slot_sector d cs p), d1)" "cached d d1"
    using dir_sector [OF 0(2,3), of p] 0(5) by auto
  note facts = cached_facts [OF s(2)]
  have "readSector (slot_sector d cs p) b d1 = sector d (slot_sector d cs p)"
    using read_slot_sector [OF facts(2), of cs p b] 0(5) slots_layout [OF facts(1)] facts(4,6)
      dir_chain_data [OF 0(3)] by simp
  then have "add_loop dc e p b d = Some (True, put_slot cs p (direntry_bytes e) d1)"
    using s 0(7) put_slot_cached [OF s(2)]
    by (subst add_loop.simps) (auto simp: room_sector_def slot_def slot_free_def Let_def)
  then show ?case
    using i s(2) by auto
next
  case (Suc n)
  have i: "i < p" "i mod 65536 = i" "(i mod 65536 + 1) mod 65536 = Suc i mod 65536"
    using Suc(2,6,7) by simp_all
  obtain d1 where s: "dir_sector dc i d = (Some (slot_sector d cs i), d1)" "cached d d1"
    using dir_sector [OF Suc(3,4), of i] i(1) Suc(6) by auto
  note facts = cached_facts [OF s(2)] slots_cached [OF s(2)] dir_ok_cached [OF s(2)]
  have rd: "readSector (slot_sector d cs i) b d1 = sector d (slot_sector d cs i)"
    using read_slot_sector [OF facts(2), of cs i b] i(1) Suc(6) slots_layout [OF facts(1)] facts(4,6)
      dir_chain_data [OF Suc(4)] by simp
  have "\<not> slot_free (slot d cs i)"
    using Suc(9) i(1) by simp
  then have "add_loop dc e (i mod 65536) b d = add_loop dc e (Suc i mod 65536) (sector d (slot_sector d cs i)) d1"
    using s rd i by (subst add_loop.simps) (auto simp: room_sector_def slot_def slot_free_def Let_def)
  moreover have "n = p - Suc i" "p < slot_count d1 cs"
    using Suc(2,6) slots_layout [OF facts(1)] by simp_all
  then obtain d' where "cached d1 d'"
    "add_loop dc e (Suc i mod 65536) (sector d (slot_sector d cs i)) d1 = Some (True, put_slot cs p (direntry_bytes e) d')"
    using Suc(1) [of "Suc i" d1 "sector d (slot_sector d cs i)"] facts(2,12,13) i(1) Suc(4,7,8,9) by auto
  ultimately show ?case
    using cached_trans [OF s(2)] by auto
qed

text \<open>Without a free slot the loop reaches the end of the directory.\<close>

lemma add_loop_end:
  assumes "fat_ok d" "dir_ok d dc cs" "i \<le> slot_count d cs" "slot_count d cs < 65536"
    and "\<forall>q. i \<le> q \<and> q < slot_count d cs \<longrightarrow> \<not> slot_free (slot d cs q)"
  shows "\<exists>b' d'. cached d d' \<and> add_loop dc e (i mod 65536) b d = add_loop dc e (slot_count d cs) b' d'"
  using assms
proof (induction "slot_count d cs - i" arbitrary: i b d)
  case 0
  then have "i mod 65536 = slot_count d cs"
    by simp
  then show ?case
    using cached_refl [OF 0(2)] by auto
next
  case (Suc n)
  have i: "i < slot_count d cs" "i mod 65536 = i" "(i mod 65536 + 1) mod 65536 = Suc i mod 65536"
    using Suc(2,6) by simp_all
  obtain d1 where s: "dir_sector dc i d = (Some (slot_sector d cs i), d1)" "cached d d1"
    using dir_sector [OF Suc(3,4), of i] i(1) by auto
  note facts = cached_facts [OF s(2)] slots_cached [OF s(2)] dir_ok_cached [OF s(2)]
  have cnt: "slot_count d1 = slot_count d"
    using slots_layout [OF facts(1)] by simp
  have rd: "readSector (slot_sector d cs i) b d1 = sector d (slot_sector d cs i)"
    using read_slot_sector [OF facts(2), of cs i b] i(1) slots_layout [OF facts(1)] facts(4,6)
      dir_chain_data [OF Suc(4)] by simp
  have "\<not> slot_free (slot d cs i)"
    using Suc(7) i(1) by simp
  then have "add_loop dc e (i mod 65536) b d = add_loop dc e (Suc i mod 65536) (sector d (slot_sector d cs i)) d1"
    using s rd i by (subst add_loop.simps) (auto simp: room_sector_def slot_def slot_free_def Let_def)
  moreover have "n = slot_count d1 cs - Suc i"
    using Suc(2) cnt by simp
  then obtain b' d' where "cached d1 d'"
    "add_loop dc e (Suc i mod 65536) (sector d (slot_sector d cs i)) d1 = add_loop dc e (slot_count d cs) b' d'"
    using Suc(1) [of d1 "Suc i" "sector d (slot_sector d cs i)"] facts(2,12,13) i(1) Suc(4,6,7) cnt by auto
  ultimately show ?case
    using cached_trans [OF s(2)] by auto
qed

end
