(* ===== verification/Fat_Dir_Correct.thy ===== *)
theory Fat_Dir_Correct
  imports Fat_Slots
begin

text \<open>The correctness of directories: changing, browsing and adding entries.\<close>

section \<open>After an entry was written\<close>

lemma table_is_chain:
  assumes "keeps X d d'" "table_is d' (table d)" "chain d xs"
  shows "chain d' xs"
proof (rule keeps_chain [OF assms(3,1)])
  fix c assume "c \<in> set xs"
  then have "c \<in> clusters d'"
    using assms(3) data_in_clusters keeps_layout(3) [OF assms(1)] by (auto simp: chain_def)
  then show "table d' c = table d c"
    using assms(2) by (simp add: table_is_def)
qed

lemma put_slot_dir:
  assumes "fat_ok d" "dir_ok d dc cs" "p < slot_count d cs" "length x = 32"
  shows "dir_ok (put_slot cs p x d) dc cs"
  using put_slot(1,2) [OF assms(1) dir_chain_distinct [OF assms(2)] dir_chain_data [OF assms(2)] assms(3,4)]
    table_is_chain assms(2) unfolding dir_ok_def by metis

lemma put_slot_count:
  assumes "fat_ok d" "dir_ok d dc cs" "p < slot_count d cs" "length x = 32"
  shows "slot_count (put_slot cs p x d) = slot_count d"
  using keeps_layout(1) [OF put_slot(1) [OF assms(1) dir_chain_distinct [OF assms(2)]
    dir_chain_data [OF assms(2)] assms(3,4)]] slots_layout by blast

lemma first_entry_byte: "direntry_ok e \<Longrightarrow> direntry_bytes e ! 0 = entryname e ! 0"
  by (simp add: direntry_bytes_def direntry_ok_def nth_append)

text \<open>Browsing to an entry just written.\<close>

lemma browse_put_slot:
  assumes ok: "fat_ok d" "dir_ok d dc cs" and p: "p < slot_count d cs" "p < 65536"
    and e: "direntry_ok e" "entryname e ! 0 \<noteq> 0" and before: "listed d cs 0 p"
  shows "\<exists>d'. directoryBrowse dc x (int p) 0 (put_slot cs p (direntry_bytes e) d) = (True, e, d')"
proof -
  let ?d = "put_slot cs p (direntry_bytes e) d"
  note len = direntry_bytes_length [OF e(1)]
  note put = put_slot [OF ok(1) dir_chain_distinct [OF ok(2)] dir_chain_data [OF ok(2)] p(1) len]
  have d: "fat_ok ?d" "dir_ok ?d dc cs" "slot_count ?d = slot_count d"
    using keeps_layout(2) [OF put(1)] put_slot_dir [OF ok p(1) len] put_slot_count [OF ok p(1) len] by simp_all
  have "listed ?d cs 0 (Suc p)"
    unfolding listed_def
  proof (intro allI impI)
    fix q assume "0 \<le> q \<and> q < Suc p"
    then have q: "q = p \<or> q < p"
      by auto
    have "slot d cs q ! 0 \<noteq> 0 \<and> q < slot_count d cs" if "q < p"
      using before that by (simp add: listed_def)
    then show "q < slot_count ?d cs \<and> slot ?d cs q ! 0 \<noteq> 0"
      using q put(3) put(4) [of q] first_entry_byte [OF e(1)] e(2) d(3) p(1) by auto
  qed
  then show ?thesis
    using directoryBrowse [OF d(1,2) p(2), of x] put(3) bytes_direntry_bytes [OF e(1)] by auto
qed

lemma change_entry:
  assumes "fat_ok d" "mirrored d" "dir_ok d dc cs" "p < 65536" "direntry_ok e" "entryname e ! 0 \<noteq> 0"
  shows "\<exists>r d'. directoryChange dc e (int p) d = (r, d') \<and> fat_ok d' \<and> mirrored d' \<and>
    (r \<longleftrightarrow> fst (directoryBrowse dc e (int p) 0 d)) \<and>
    (if r then fst (directoryBrowse dc e' (int p) 0 d') \<and> fst (snd (directoryBrowse dc e' (int p) 0 d')) = e \<and>
       (\<forall>q < slot_count d cs. q \<noteq> p \<longrightarrow> slot d' cs q = slot d cs q) \<and>
       (\<forall>xs. chain d xs \<longrightarrow> chain d' xs)
     else cached d d')"
proof -
  note len = direntry_bytes_length [OF assms(5)]
  obtain d1 where c: "cached d d1" "directoryChange dc e (int p) d =
     (if listed d cs 0 (Suc p) then (True, put_slot cs p (direntry_bytes e) d1) else (False, d1))"
    using directoryChange [OF assms(1,3,4)] by blast
  note facts = cached_facts [OF c(1)]
  obtain d2 where b: "directoryBrowse dc e (int p) 0 d =
     (if listed d cs 0 (Suc p) then (True, bytes_direntry (slot d cs p), d2) else (False, e, d2))"
    using directoryBrowse [OF assms(1,3,4)] by blast
  show ?thesis
  proof (cases "listed d cs 0 (Suc p)")
    case False
    then show ?thesis
      using c b facts(2,11) assms(2) by (intro exI [of _ False] exI [of _ d1]) simp
  next
    case True
    let ?d = "put_slot cs p (direntry_bytes e) d1"
    have p: "p < slot_count d1 cs" "listed d1 cs 0 p" "dir_ok d1 dc cs"
      using True slots_layout [OF facts(1)] listed_cached [OF c(1)] dir_ok_cached [OF c(1)] assms(3)
      by (simp_all add: listed_def)
    note put = put_slot [OF facts(2) dir_chain_distinct [OF p(3)] dir_chain_data [OF p(3)] p(1) len]
    obtain d3 where "directoryBrowse dc e' (int p) 0 ?d = (True, e, d3)"
      using browse_put_slot [OF facts(2) p(3,1) assms(4,5,6) p(2)] by blast
    moreover have "chain ?d xs" if "chain d xs" for xs
      using table_is_chain [OF put(1,2)] that facts(8) by simp
    moreover have "slot ?d cs q = slot d cs q" if "q < slot_count d cs" "q \<noteq> p" for q
      using put(4) that slots_layout [OF facts(1)] slots_cached [OF c(1)] by simp
    moreover have "fat_ok ?d" "mirrored ?d"
      using put(1) assms(2) facts(11) by (auto simp: keeps_def)
    ultimately show ?thesis
      using c(2) b True by (intro exI [of _ True] exI [of _ ?d]) simp
  qed
qed

section \<open>Adding an entry\<close>

lemma not_free_listed: "(\<forall>q < n. \<not> slot_free (slot d cs q)) \<Longrightarrow> n \<le> slot_count d cs \<Longrightarrow> listed d cs 0 n"
  by (auto simp: listed_def slot_free_def)

lemma added_in_place:
  assumes ok: "fat_ok d" "dir_ok d dc cs" and p: "p < slot_count d cs" "p < 65536"
    and e: "direntry_ok e" "entryname e ! 0 \<noteq> 0" and before: "\<forall>q < p. \<not> slot_free (slot d cs q)"
    and c: "cached d d'"
  defines "d'' \<equiv> put_slot cs p (direntry_bytes e) d'"
  shows "dir_ok d'' dc cs" "\<exists>d3. directoryBrowse dc x (int p) 0 d'' = (True, e, d3)"
    "\<forall>q < slot_count d cs. q \<noteq> p \<longrightarrow> slot d'' cs q = slot d cs q" "fat_ok d''" "mirrored d \<longrightarrow> mirrored d''"
proof -
  note facts = cached_facts [OF c]
  have d': "dir_ok d' dc cs" "p < slot_count d' cs" "listed d' cs 0 p"
    using dir_ok_cached [OF c] ok(2) slots_layout [OF facts(1)] p(1) listed_cached [OF c]
      not_free_listed [OF before] by simp_all
  note len = direntry_bytes_length [OF e(1)]
  note put = put_slot [OF facts(2) dir_chain_distinct [OF d'(1)] dir_chain_data [OF d'(1)] d'(2) len]
  show "dir_ok d'' dc cs" "\<exists>d3. directoryBrowse dc x (int p) 0 d'' = (True, e, d3)"
    using put_slot_dir [OF facts(2) d'(1,2) len] browse_put_slot [OF facts(2) d'(1,2) p(2) e d'(3)]
    by (simp_all add: d''_def)
  show "\<forall>q < slot_count d cs. q \<noteq> p \<longrightarrow> slot d'' cs q = slot d cs q"
    using put(4) slots_layout [OF facts(1)] slots_cached [OF c] by (simp add: d''_def)
  show "fat_ok d''" "mirrored d \<longrightarrow> mirrored d''"
    using put(1) facts(11) by (auto simp: d''_def keeps_def)
qed

text \<open>A directory with a new cluster of zeroes behind it.\<close>

lemma grown_directory:
  assumes ok: "fat_ok d" "chain d cs" and new: "chain d' (cs @ [f])" "same_layout d d'"
    and data: "chain_data d' (cs @ [f]) = chain_data d cs @ replicate (sectorspercluster d) (replicate 512 0)"
  shows "slot_count d' (cs @ [f]) = slot_count d cs + 16 * sectorspercluster d"
    and "q < slot_count d cs \<Longrightarrow> slot d' (cs @ [f]) q = slot d cs q"
    and "0 < sectorspercluster d \<Longrightarrow> slot d' (cs @ [f]) (slot_count d cs) = replicate 32 0"
proof -
  have cs: "cs \<noteq> []"
    using ok(2) links_nonempty by (auto simp: chain_def)
  show "slot_count d' (cs @ [f]) = slot_count d cs + 16 * sectorspercluster d"
    using cs same_layout_fields(2) [OF new(2)] by (simp add: slot_count_def)
  have slot: "slot d xs q = sect_entry (chain_data d xs ! (q div 16)) (q mod 16)"
    if "xs \<noteq> []" "q < slot_count d xs" for d xs q
    using that by (simp add: slot_def slot_sector_def slot_count_def chain_data_def length_chain_sectors
        less_mult_imp_div_less mult.commute)
  have len: "length (chain_data d cs) = length cs * sectorspercluster d"
    by (simp add: chain_data_def length_chain_sectors)
  show "slot d' (cs @ [f]) q = slot d cs q" if "q < slot_count d cs"
  proof -
    have "q div 16 < length cs * sectorspercluster d"
      using that cs by (simp add: slot_count_def less_mult_imp_div_less mult.commute)
    moreover have "q < slot_count d' (cs @ [f])"
      using that cs same_layout_fields(2) [OF new(2)] by (simp add: slot_count_def)
    ultimately show ?thesis
      using slot [of "cs @ [f]" q d'] slot [of cs q d] that cs len by (simp add: data nth_append)
  qed
  show "slot d' (cs @ [f]) (slot_count d cs) = replicate 32 0" if "0 < sectorspercluster d"
  proof -
    have q: "slot_count d cs div 16 = length cs * sectorspercluster d" "slot_count d cs mod 16 = 0"
      using cs by (simp_all add: slot_count_def)
    have "slot_count d cs < slot_count d' (cs @ [f])"
      using cs same_layout_fields(2) [OF new(2)] that by (simp add: slot_count_def)
    then show ?thesis
      using slot [of "cs @ [f]" "slot_count d cs" d'] q that len by (simp add: data nth_append sect_entry_def)
  qed
qed

lemma add_entry:
  assumes ok: "fat_ok d" "mirrored d" "dir_ok d dc cs" and small: "slot_count d cs < 65536"
    and e: "direntry_ok e" "\<not> slot_free (entryname e)"
  shows "\<exists>r d'. addDirectoryEntry dc e d = Some (r, d') \<and> fat_ok d' \<and> mirrored d' \<and>
    (if r then \<exists>cs' p d''. dir_ok d' dc cs' \<and> (\<forall>q < p. \<not> slot_free (slot d cs q)) \<and>
       (if p < slot_count d cs then slot_free (slot d cs p) \<and> cs' = cs
        else p = slot_count d cs \<and> dc \<noteq> 0 \<and> (\<exists>f. first_free d f \<and> cs' = cs @ [f])) \<and>
       directoryBrowse dc x (int p) 0 d' = (True, e, d'') \<and>
       (\<forall>q < slot_count d cs. q \<noteq> p \<longrightarrow> slot d' cs' q = slot d cs q)
     else (\<forall>q < slot_count d cs. \<not> slot_free (slot d cs q)) \<and> (dc = 0 \<or> disk_full d) \<and> cached d d')"
proof (cases "\<exists>q < slot_count d cs. slot_free (slot d cs q)")
  case True
  define p where "p = (LEAST q. q < slot_count d cs \<and> slot_free (slot d cs q))"
  have p: "p < slot_count d cs" "slot_free (slot d cs p)"
    using LeastI_ex [OF True] unfolding p_def by blast+
  have before: "\<forall>q < p. \<not> slot_free (slot d cs q)"
    using not_less_Least [of _ "\<lambda>q. q < slot_count d cs \<and> slot_free (slot d cs q)"] p(1)
    unfolding p_def by (meson order.strict_trans)
  obtain d1 where a: "cached d d1" "addDirectoryEntry dc e d = Some (True, put_slot cs p (direntry_bytes e) d1)"
    using add_loop_slot [OF ok(1,3) _ p(1) _ p(2), of 0 e "replicate BytePerSector 0"] before p(1) small
    by (auto simp: addDirectoryEntry_def)
  have "p < 65536" "entryname e ! 0 \<noteq> 0"
    using p(1) small e(2) by (simp_all add: slot_free_def)
  note added = added_in_place [OF ok(1,3) p(1) this(1) e(1) this(2) before a(1)]
  show ?thesis
    using a(2) added(1) added(2) [of x] added(3,4,5) p before ok(2)
    by (intro exI [of _ True] exI [of _ "put_slot cs p (direntry_bytes e) d1"]) auto
next
  case False
  then have full: "\<forall>q < slot_count d cs. \<not> slot_free (slot d cs q)"
    by blast
  let ?n = "slot_count d cs"
  obtain b1 d1 where a: "cached d d1" "addDirectoryEntry dc e d = add_loop dc e ?n b1 d1"
    using add_loop_end [OF ok(1,3) _ small, of 0 e "replicate BytePerSector 0"] full
    by (auto simp: addDirectoryEntry_def)
  note f1 = cached_facts [OF a(1)]
  have dir1: "dir_ok d1 dc cs" "slot_count d1 = slot_count d"
    using dir_ok_cached [OF a(1)] ok(3) slots_layout [OF f1(1)] by simp_all
  obtain d2 where s: "dir_sector dc ?n d1 = (None, d2)" "cached d1 d2"
    using dir_sector [OF f1(2) dir1(1), of ?n] dir1(2) by auto
  have c2: "cached d d2"
    using cached_trans [OF a(1) s(2)] .
  note f2 = cached_facts [OF c2]
  show ?thesis
  proof (cases "dc = 0")
    case True
    then have "addDirectoryEntry dc e d = Some (False, d2)"
      using a(2) s(1) by (subst (asm) add_loop.simps) (simp add: room_sector_def)
    then show ?thesis
      using True full c2 f2(2,11) ok(2) by (intro exI [of _ False] exI [of _ d2]) simp
  next
    case dc: False
    then have cs: "chain d2 cs" "hd cs = dc"
      using ok(3) f2(8) by (simp_all add: dir_ok_def)
    have ne: "cs \<noteq> []"
      using cs(1) links_nonempty by (auto simp: chain_def)
    have m2: "mirrored d2"
      using f2(11) ok(2) by simp
    consider (full) d3 where "appendCluster dc d2 = Some (0, d3)" "disk_full d2" "cached d2 d3"
      | (grown) f d3 where "appendCluster dc d2 = Some (f, d3)" "first_free d2 f" "fat_ok d3" "mirrored d3"
        "chain d3 (cs @ [f])" "same_layout d2 d3"
        "chain_data d3 (cs @ [f]) = chain_data d2 cs @ replicate (sectorspercluster d2) (replicate 512 0)"
      using appendCluster_files [OF f2(2) m2 cs(1)] cs(2) by blast
    then show ?thesis
    proof cases
      case full': full
      have "addDirectoryEntry dc e d = Some (False, d3)"
        using a(2) s(1) dc full'(1) by (subst (asm) add_loop.simps) (simp add: room_sector_def)
      moreover have "cached d d3" "disk_full d"
        using cached_trans [OF c2 full'(3)] full'(2) f2(3,6) by (simp_all add: disk_full_def)
      moreover from this(1) have "fat_ok d3" "mirrored d3"
        using cached_facts(2,11) ok(2) by blast+
      ultimately show ?thesis
        using full by (intro exI [of _ False] exI [of _ d3]) simp
    next
      case grown
      let ?cs = "cs @ [f]"
      have f: "first_free d f" "f \<noteq> 0"
        using grown(2) f2(3,6) by (auto simp: first_free_def data_clusters_def)
      have spc: "0 < sectorspercluster d2" "slot_count d2 = slot_count d" "slot d2 = slot d"
        using f2(2) slots_layout [OF f2(1)] slots_cached [OF c2] by (simp_all add: fat_ok_def layout_ok_def)
      note dir3 = grown_directory [OF f2(2) cs(1) grown(5,6,7)]
      have n: "?n < slot_count d3 ?cs" and zero: "slot d3 ?cs ?n = replicate 32 0"
        and old: "q < ?n \<Longrightarrow> slot d3 ?cs q = slot d cs q" for q
        using dir3(1) dir3(2) [of q] dir3(3) spc by simp_all
      have ok3: "dir_ok d3 dc ?cs"
        using grown(5) dc cs(2) ne by (simp add: dir_ok_def)
      obtain d4 where s4: "dir_sector dc ?n d3 = (Some (slot_sector d3 ?cs ?n), d4)" "cached d3 d4"
        using dir_sector [OF grown(3) ok3, of ?n] n by auto
      note f4 = cached_facts [OF s4(2)]
      have "readSector (slot_sector d3 ?cs ?n) b1 d4 = sector d3 (slot_sector d3 ?cs ?n)"
        using read_slot_sector [OF f4(2), of ?cs ?n b1] n slots_layout [OF f4(1)] f4(4,6)
          dir_chain_data [OF ok3] by simp
      moreover have "sect_entry (sector d3 (slot_sector d3 ?cs ?n)) (?n mod 16) ! 0 = 0"
        using zero by (simp add: slot_def)
      ultimately have "addDirectoryEntry dc e d = Some (True, put_slot ?cs ?n (direntry_bytes e) d4)"
        using a(2) s(1) dc grown(1) f(2) s4(1) put_slot_cached [OF s4(2)]
        by (subst (asm) add_loop.simps) (simp add: room_sector_def Let_def)
      moreover have "\<forall>q < ?n. \<not> slot_free (slot d3 ?cs q)"
        using full old by simp
      moreover have "entryname e ! 0 \<noteq> 0"
        using e(2) by (simp add: slot_free_def)
      note added = added_in_place [OF grown(3) ok3 n small e(1) this calculation(2) s4(2)]
      have "\<forall>q < ?n. slot (put_slot ?cs ?n (direntry_bytes e) d4) ?cs q = slot d cs q"
        using added(3) old n by simp
      ultimately show ?thesis
        using added(1) added(2) [of x] added(4,5) grown(4) f(1) full dc
        by (intro exI [of _ True] exI [of _ "put_slot ?cs ?n (direntry_bytes e) d4"]) auto
    qed
  qed
qed

end
