(* ===== verification/Fat_File.thy ===== *)
theory Fat_File
  imports Fat_Dir_Correct
begin

text \<open>
  Open files: the class \<open>fatFile\<close> of \<open>src/src/dos/drive_fat.cpp\<close>, with its one-sector buffer.

  \<^const>\<open>None\<close> stands for a call that does not return (a chain without an end) or that accesses
  \<open>sectorBuffer\<close> outside its 512 bytes.  The drive is writable, which the source asserts.
\<close>

section \<open>The handle\<close>

datatype flush_time = NoUpdate | ManuallySet | CurrentTime

datatype dos_error = DOSERR_ACCESS_DENIED

datatype seek_type = DOS_SEEK_SET | DOS_SEEK_CUR | DOS_SEEK_END

record fat_file =
  flags :: u8
  firstCluster :: nat
  seekpos :: nat
  filelength :: nat
  currentSector :: nat
  curSectOff :: nat
  sectorBuffer :: "u8 list"
  dirCluster :: nat
  dirIndex :: nat
  set_archive_on_close :: bool
  loadedSector :: bool
  flush_time_on_close :: flush_time
  time :: u16
  date :: u16

definition OPEN_READ :: u8 where
  "OPEN_READ = 0"

definition OPEN_WRITE :: u8 where
  "OPEN_WRITE = 1"

definition OPEN_READ_NO_MOD :: u8 where
  "OPEN_READ_NO_MOD = 4"

text \<open>Loading the sector of the current position, and what follows when there is none.\<close>

definition find_sector :: "fat_file \<Rightarrow> fat_drive \<Rightarrow> fat_file \<times> fat_drive" where
  "find_sector f d =
     (let (sect, d) = getAbsoluteSectFromBytePos (firstCluster f) (seekpos f) d
      in (f\<lparr>currentSector := sect\<rparr>, d))"

definition load_sector :: "fat_drive \<Rightarrow> fat_file \<Rightarrow> fat_file" where
  "load_sector d f = f\<lparr>sectorBuffer := readSector (currentSector f) (sectorBuffer f) d, loadedSector := True\<rparr>"

definition at_offset :: "fat_drive \<Rightarrow> fat_file \<Rightarrow> fat_file" where
  "at_offset d f = f\<lparr>curSectOff := seekpos f mod getSectorSize d\<rparr>"

section \<open>Seek and Read\<close>

definition signed32 :: "nat \<Rightarrow> int" where
  "signed32 n = sint (of_nat n :: u32)"

definition Seek :: "nat \<Rightarrow> seek_type \<Rightarrow> fat_file \<Rightarrow> fat_drive \<Rightarrow> nat \<times> fat_file \<times> fat_drive" where
  "Seek pos type f d =
     (let seekto = (case type of
             DOS_SEEK_SET \<Rightarrow> signed32 pos
           | DOS_SEEK_CUR \<Rightarrow> signed32 (pos + seekpos f)
           | DOS_SEEK_END \<Rightarrow> signed32 (filelength f + pos));
          seekto = (if seekto < 0 then 0 else seekto);
          (f, d) = find_sector (f\<lparr>seekpos := nat seekto\<rparr>) d;
          f = (if currentSector f = 0 then f\<lparr>loadedSector := False\<rparr>
               else load_sector d (at_offset d f))
      in (seekpos f, f, d))"

fun read_loop :: "nat \<Rightarrow> u8 list \<Rightarrow> fat_file \<Rightarrow> fat_drive \<Rightarrow> (u8 list \<times> fat_file \<times> fat_drive) option" where
  "read_loop 0 data f d = Some (data, f, d)"
| "read_loop (Suc sizedec) data f d =
     (if seekpos f \<ge> filelength f then Some (data, f, d)
      else if curSectOff f \<ge> BytePerSector then None
      else let data = data @ [sectorBuffer f ! curSectOff f];
               f = f\<lparr>curSectOff := curSectOff f + 1, seekpos := wrap32 (seekpos f + 1)\<rparr>
           in if curSectOff f \<ge> getSectorSize d
              then let (f, d) = find_sector f d
                   in if currentSector f = 0 then Some (data, f\<lparr>loadedSector := False\<rparr>, d)
                      else read_loop sizedec data (load_sector d (f\<lparr>curSectOff := 0\<rparr>)) d
              else read_loop sizedec data f d)"

definition Read :: "nat \<Rightarrow> fat_file \<Rightarrow> fat_drive \<Rightarrow> (dos_error + u8 list \<times> fat_file \<times> fat_drive) option" where
  "Read count f d =
     (if flags f AND 0xf = OPEN_WRITE then Some (Inl DOSERR_ACCESS_DENIED)
      else if seekpos f \<ge> filelength f then Some (Inr ([], f, d))
      else if \<not> loadedSector f
      then let (f, d) = find_sector f d
           in if currentSector f = 0 then Some (Inr ([], f\<lparr>loadedSector := False\<rparr>, d))
              else map_option Inr (read_loop count [] (load_sector d (at_offset d f)) d)
      else map_option Inr (read_loop count [] f d))"

section \<open>Write\<close>

text \<open>
  The parts of \<open>Write\<close> return with \<^const>\<open>False\<close> where the source jumps to \<open>finalizeWrite\<close>.
\<close>

definition first_cluster :: "fat_file \<Rightarrow> fat_drive \<Rightarrow> bool \<times> fat_file \<times> fat_drive" where
  "first_cluster f d =
     (let (c, d) = getFirstFreeClust d;
          f = f\<lparr>firstCluster := c\<rparr>
      in if c = 0 then (False, f, d)
         else let (ok, d) = allocateCluster c 0 d in (True, f, d))"

partial_function (option) extend_loop :: "nat \<Rightarrow> fat_file \<Rightarrow> fat_drive \<Rightarrow> (bool \<times> fat_file \<times> fat_drive) option" where
  "extend_loop clustSize f d =
     (if filelength f < seekpos f
      then case appendCluster (firstCluster f) d of
          None \<Rightarrow> None
        | Some (c, d) \<Rightarrow>
            if c = 0 then Some (False, f, d)
            else extend_loop clustSize (f\<lparr>filelength := wrap32 (filelength f + clustSize)\<rparr>) d
      else Some (True, f, d))"

definition write_extend :: "fat_file \<Rightarrow> fat_drive \<Rightarrow> (bool \<times> fat_file \<times> fat_drive) option" where
  "write_extend f d =
     (let clustSize = getClusterSize d;
          (ok, f, d) = (if filelength f = 0
                        then let (ok, f, d) = first_cluster f d
                             in (ok, if ok then f\<lparr>filelength := clustSize\<rparr> else f, d)
                        else (True, f, d))
      in if \<not> ok then Some (False, f, d)
         else case extend_loop clustSize
                (f\<lparr>filelength := wrap32 (((filelength f - 1) div clustSize + 1) * clustSize)\<rparr>) d of
            None \<Rightarrow> None
          | Some (ok, f, d) \<Rightarrow>
              Some (if \<not> ok then (False, f, d)
                    else (True, if filelength f > seekpos f then f\<lparr>filelength := seekpos f\<rparr> else f, d)))"

definition write_grow :: "fat_file \<Rightarrow> fat_drive \<Rightarrow> (bool \<times> fat_file \<times> fat_drive) option" where
  "write_grow f d =
     (let (ok, f, d) = (if filelength f = 0
                        then let (ok, f, d) = first_cluster f d
                             in if ok then let (f, d) = find_sector f d in (True, load_sector d f, d)
                                else (False, f, d)
                        else (True, f, d))
      in if \<not> ok then Some (False, f, d)
         else if loadedSector f then Some (True, f\<lparr>filelength := wrap32 (seekpos f + 1)\<rparr>, d)
         else let (f, d) = find_sector f d
              in case (if currentSector f = 0
                       then case appendCluster (firstCluster f) d of
                           None \<Rightarrow> None
                         | Some (c, d) \<Rightarrow> Some (find_sector f d)
                       else Some (f, d)) of
                   None \<Rightarrow> None
                 | Some (f, d) \<Rightarrow>
                     Some (if currentSector f = 0 then (False, f, d)
                           else (True, (load_sector d (at_offset d f))\<lparr>filelength := wrap32 (seekpos f + 1)\<rparr>, d)))"

definition put_byte :: "u8 \<Rightarrow> fat_file \<Rightarrow> fat_drive \<Rightarrow> (fat_file \<times> fat_drive) option" where
  "put_byte b f d =
     (if curSectOff f \<ge> BytePerSector then None
      else let f = f\<lparr>sectorBuffer := (sectorBuffer f)[curSectOff f := b], curSectOff := curSectOff f + 1,
                     seekpos := wrap32 (seekpos f + 1)\<rparr>
           in Some (if curSectOff f \<ge> getSectorSize d
                    then let d = (if loadedSector f then writeSector (currentSector f) (sectorBuffer f) d else d);
                             (f, d) = find_sector f d
                         in (if currentSector f = 0 then f\<lparr>loadedSector := False\<rparr>
                             else load_sector d (f\<lparr>curSectOff := 0\<rparr>), d)
                    else (f, d)))"

fun write_loop :: "u8 list \<Rightarrow> nat \<Rightarrow> fat_file \<Rightarrow> fat_drive \<Rightarrow> (bool \<times> nat \<times> fat_file \<times> fat_drive) option" where
  "write_loop [] sizecount f d = Some (True, sizecount, f, d)"
| "write_loop (b # data) sizecount f d =
     (case (if seekpos f \<ge> filelength f then write_grow f d else Some (True, f, d)) of
        None \<Rightarrow> None
      | Some (ok, f, d) \<Rightarrow>
          if \<not> ok then Some (False, sizecount, f, d)
          else case put_byte b f d of
              None \<Rightarrow> None
            | Some (f, d) \<Rightarrow> write_loop data (sizecount + 1) f d)"

definition flush_write :: "fat_file \<Rightarrow> fat_drive \<Rightarrow> fat_drive" where
  "flush_write f d = (if curSectOff f > 0 \<and> loadedSector f then writeSector (currentSector f) (sectorBuffer f) d else d)"

definition write_body :: "u8 list \<Rightarrow> fat_file \<Rightarrow> fat_drive \<Rightarrow> (nat \<times> fat_file \<times> fat_drive) option" where
  "write_body data f d =
     (if seekpos f < filelength f \<and> data = []
      then case (if firstCluster f \<noteq> 0 then deleteClustChain (firstCluster f) (seekpos f) d else Some d) of
          None \<Rightarrow> None
        | Some d \<Rightarrow>
            Some (0, f\<lparr>firstCluster := (if seekpos f = 0 then 0 else firstCluster f), filelength := seekpos f\<rparr>, d)
      else let extends = (seekpos f > filelength f)
        in case (if extends then write_extend f d else Some (True, f, d)) of
          None \<Rightarrow> None
        | Some (ok, f, d) \<Rightarrow>
            if \<not> ok \<or> extends \<and> data = [] then Some (0, f, d)
            else case write_loop data 0 f d of
                None \<Rightarrow> None
              | Some (ok, sizecount, f, d) \<Rightarrow> Some (sizecount, f, if ok then flush_write f d else d))"

text \<open>
  \<open>tmpentry\<close> is the uninitialised entry on the stack, and \<open>modtime\<close> and \<open>moddate\<close> what
  \<open>DOS_GetBiosTimePacked\<close> and \<open>DOS_GetBiosDatePacked\<close> return.
\<close>

definition finalizeWrite :: "direntry \<Rightarrow> u16 \<Rightarrow> u16 \<Rightarrow> fat_file \<Rightarrow> fat_drive \<Rightarrow> fat_drive" where
  "finalizeWrite tmpentry modtime moddate f d =
     (let (_, e, d) = directoryBrowse (dirCluster f) tmpentry (int (dirIndex f)) 0 d;
          (_, d) = directoryChange (dirCluster f)
            (e\<lparr>modTime := modtime, modDate := moddate, entrysize := of_nat (filelength f),
               loFirstClust := of_nat (firstCluster f)\<rparr>) (int (dirIndex f)) d
      in d)"

definition Write :: "direntry \<Rightarrow> u16 \<Rightarrow> u16 \<Rightarrow> u8 list \<Rightarrow> fat_file \<Rightarrow> fat_drive \<Rightarrow>
    (dos_error + nat \<times> fat_file \<times> fat_drive) option" where
  "Write tmpentry modtime moddate data f d =
     (let lastflags = flags f AND 0xf
      in if lastflags = OPEN_READ \<or> lastflags = OPEN_READ_NO_MOD then Some (Inl DOSERR_ACCESS_DENIED)
         else case write_body data (f\<lparr>set_archive_on_close := True\<rparr>) d of
             None \<Rightarrow> None
           | Some (sizecount, f, d) \<Rightarrow> Some (Inr (sizecount, f, finalizeWrite tmpentry modtime moddate f d)))"

section \<open>Opening and Close\<close>

definition new_fatFile :: "nat \<Rightarrow> nat \<Rightarrow> fat_drive \<Rightarrow> fat_file \<times> fat_drive" where
  "new_fatFile startCluster fileLen d =
     (let f = \<lparr>flags = 0, firstCluster = startCluster, seekpos = 0, filelength = fileLen,
            currentSector = 0, curSectOff = 0, sectorBuffer = replicate BytePerSector 0, dirCluster = 0,
            dirIndex = 0, set_archive_on_close = False, loadedSector = False,
            flush_time_on_close = NoUpdate, time = 0, date = 0\<rparr>
      in if fileLen > 0 then snd (Seek 0 DOS_SEEK_SET f d) else (f, d))"

definition Close :: "direntry \<Rightarrow> fat_file \<Rightarrow> fat_drive \<Rightarrow> fat_file \<times> fat_drive" where
  "Close tmpentry f d =
     (let d = (if flush_time_on_close f = ManuallySet \<or> set_archive_on_close f
               then let (_, e, d) = directoryBrowse (dirCluster f) tmpentry (int (dirIndex f)) 0 d;
                        e = (if flush_time_on_close f = ManuallySet
                             then e\<lparr>modTime := time f, modDate := date f\<rparr> else e);
                        e = (if set_archive_on_close f then e\<lparr>attrib := attrib e OR 0x20\<rparr> else e)
                    in snd (directoryChange (dirCluster f) e (int (dirIndex f)) d)
               else d);
          d = (if loadedSector f then writeSector (currentSector f) (sectorBuffer f) d else d)
      in (f\<lparr>set_archive_on_close := False\<rparr>, d))"

end
