(* ===== verification/Fat_Read.thy ===== *)
theory Fat_Read
  imports Fat_File
begin

text \<open>
  What a handle reads: the bytes of its chain of clusters, and the invariant that ties its buffer to
  the sector of its position.
\<close>

section \<open>Handles and contents\<close>

definition file_byte :: "fat_drive \<Rightarrow> nat list \<Rightarrow> nat \<Rightarrow> u8" where
  "file_byte d cs p = sector d (chain_sectors d cs ! (p div 512)) ! (p mod 512)"

definition capacity :: "fat_drive \<Rightarrow> nat list \<Rightarrow> nat" where
  "capacity d cs = 512 * (length cs * sectorspercluster d)"

text \<open>The handle stands where its position says; \<open>fresh\<close> says that the buffer holds that sector.\<close>

definition placed :: "fat_file \<Rightarrow> fat_drive \<Rightarrow> nat list \<Rightarrow> bool" where
  "placed f d cs \<longleftrightarrow> length (sectorBuffer f) = 512 \<and> (loadedSector f \<longleftrightarrow> seekpos f < capacity d cs) \<and>
     (loadedSector f \<longrightarrow> currentSector f = chain_sectors d cs ! (seekpos f div 512) \<and>
        curSectOff f = seekpos f mod 512)"

definition fresh :: "fat_file \<Rightarrow> fat_drive \<Rightarrow> bool" where
  "fresh f d \<longleftrightarrow> (loadedSector f \<longrightarrow> sectorBuffer f = sector d (currentSector f))"

definition on_chain :: "fat_file \<Rightarrow> fat_drive \<Rightarrow> nat list \<Rightarrow> bool" where
  "on_chain f d cs \<longleftrightarrow> fat_ok d \<and> chain d cs \<and> firstCluster f = hd cs \<and>
     filelength f \<le> capacity d cs \<and> filelength f < 2 ^ 32"

definition handle_ok :: "fat_file \<Rightarrow> fat_drive \<Rightarrow> nat list \<Rightarrow> bool" where
  "handle_ok f d cs \<longleftrightarrow> on_chain f d cs \<and> placed f d cs \<and> fresh f d"

text \<open>The fields that reading and seeking leave alone.\<close>

definition same_file :: "fat_file \<Rightarrow> fat_file \<Rightarrow> bool" where
  "same_file f f' \<longleftrightarrow> flags f' = flags f \<and> firstCluster f' = firstCluster f \<and> filelength f' = filelength f \<and>
     dirCluster f' = dirCluster f \<and> dirIndex f' = dirIndex f \<and>
     set_archive_on_close f' = set_archive_on_close f \<and> flush_time_on_close f' = flush_time_on_close f \<and>
     time f' = time f \<and> date f' = date f"

lemma same_file_refl [simp]: "same_file f f"
  by (simp add: same_file_def)

lemma same_file_trans: "same_file f g \<Longrightarrow> same_file g h \<Longrightarrow> same_file f h"
  by (simp add: same_file_def)

lemma capacity_layout: "same_layout d d' \<Longrightarrow> capacity d' = capacity d"
  by (intro ext) (simp add: capacity_def)

lemma file_byte_cached: "cached d d' \<Longrightarrow> file_byte d' = file_byte d"
  using cached_facts(1,4) [of d d'] chain_sectors_layout [of d d'] by (intro ext) (simp add: file_byte_def)

lemma chain_nonempty: "chain d cs \<Longrightarrow> cs \<noteq> []"
  using links_nonempty by (auto simp: chain_def)

lemma in_capacity: "p < capacity d cs \<longleftrightarrow> p div 512 < length (chain_sectors d cs)"
  by (simp add: capacity_def length_chain_sectors div_less_iff_less_mult mult.commute)

lemma chain_sector_nonzero:
  assumes "fat_ok d" "n \<in> set (chain_sectors d cs)"
  shows "0 < n"
  using assms data_sector_positive [of d]
  by (auto simp: set_chain_sectors cluster_sectors_def fat_ok_def)

lemma sector_of_position:
  assumes "fat_ok d" "chain d cs" "p < capacity d cs"
  shows "chain_sectors d cs ! (p div 512) < sector_count d" "outside_fats d (chain_sectors d cs ! (p div 512))"
    "0 < chain_sectors d cs ! (p div 512)"
    "length (sector d (chain_sectors d cs ! (p div 512))) = 512"
proof -
  let ?n = "chain_sectors d cs ! (p div 512)"
  have n: "?n \<in> set (chain_sectors d cs)"
    using assms(3) by (simp add: in_capacity)
  then show "?n < sector_count d" "outside_fats d ?n" "0 < ?n"
    using chain_sector_exists [OF assms(1) _ n] chain_sector_nonzero [OF assms(1) n] assms(2)
    by (simp_all add: chain_def)
  then show "length (sector d ?n) = 512"
    using read_sector assms(1) by (simp add: fat_ok_def)
qed

text \<open>Looking up the sector of the position.\<close>

lemma find_sector:
  assumes "fat_ok d" "chain d cs" "firstCluster f = hd cs"
  shows "\<exists>d'. find_sector f d = (f\<lparr>currentSector :=
      if seekpos f < capacity d cs then chain_sectors d cs ! (seekpos f div 512) else 0\<rparr>, d') \<and> cached d d'"
proof -
  let ?s = "sectorspercluster d" and ?n = "seekpos f div 512"
  have lay: "bytespersector d = 512" "0 < ?s"
    using assms(1) by (simp_all add: fat_ok_def layout_ok_def)
  have "?n div ?s < length cs \<longleftrightarrow> seekpos f < capacity d cs"
    using lay(2) by (simp add: in_capacity length_chain_sectors div_less_iff_less_mult)
  moreover have "seekpos f < capacity d cs \<Longrightarrow>
      chain_sectors d cs ! ?n = cluster_sector d (cs ! (?n div ?s)) (?n mod ?s)"
    using nth_chain_sectors [of ?n cs d] by (simp add: in_capacity length_chain_sectors)
  ultimately show ?thesis
    using getAbsoluteSectFromChain_chain [OF assms(1,2), of ?n] assms(3) lay(1)
    by (cases "seekpos f < capacity d cs") (auto simp: find_sector_def getAbsoluteSectFromBytePos_def)
qed

text \<open>Arriving at a position inside the chain, where the sector can be loaded, or behind it.\<close>

lemma arrive_in:
  assumes ok: "fat_ok d" "chain d cs" "firstCluster f = hd cs" and p: "seekpos f < capacity d cs"
  defines "s \<equiv> chain_sectors d cs ! (seekpos f div 512)"
  obtains d' where "find_sector f d = (f\<lparr>currentSector := s\<rparr>, d')" "cached d d'" "s \<noteq> 0"
    "\<And>g. currentSector g = s \<Longrightarrow> load_sector d' g = g\<lparr>sectorBuffer := sector d s, loadedSector := True\<rparr>"
proof -
  obtain d' where d': "find_sector f d = (f\<lparr>currentSector := s\<rparr>, d')" "cached d d'"
    using find_sector [OF ok] p by (auto simp: s_def)
  note sec = sector_of_position [OF ok(1,2) p, folded s_def]
  have "load_sector d' g = g\<lparr>sectorBuffer := sector d s, loadedSector := True\<rparr>" if "currentSector g = s" for g
  proof -
    have "readSector s (sectorBuffer g) d' = sector d s"
      using cached_facts(2,4,9) [OF d'(2)] sec(1) read_sector by (simp add: fat_ok_def)
    then show ?thesis
      using that by (simp add: load_sector_def)
  qed
  then show thesis
    using that d' sec(3) by blast
qed

lemma arrive_behind:
  assumes ok: "fat_ok d" "chain d cs" "firstCluster f = hd cs" and p: "\<not> seekpos f < capacity d cs"
  obtains d' where "find_sector f d = (f\<lparr>currentSector := 0\<rparr>, d')" "cached d d'"
  using find_sector [OF ok] p by auto

section \<open>Moving to a position\<close>

text \<open>The handle after \<open>Seek\<close>, and after crossing the end of a sector.\<close>

definition moved :: "fat_drive \<Rightarrow> nat list \<Rightarrow> fat_file \<Rightarrow> fat_file" where
  "moved d cs f =
     (if seekpos f < capacity d cs
      then let s = chain_sectors d cs ! (seekpos f div 512)
           in f\<lparr>currentSector := s, curSectOff := seekpos f mod 512, sectorBuffer := sector d s,
                loadedSector := True\<rparr>
      else f\<lparr>currentSector := 0, loadedSector := False\<rparr>)"

lemma moved_in:
  "seekpos f < capacity d cs \<Longrightarrow> moved d cs f =
     f\<lparr>currentSector := chain_sectors d cs ! (seekpos f div 512), curSectOff := seekpos f mod 512,
       sectorBuffer := sector d (chain_sectors d cs ! (seekpos f div 512)), loadedSector := True\<rparr>"
  by (simp add: moved_def Let_def)

lemma moved_behind:
  "\<not> seekpos f < capacity d cs \<Longrightarrow> moved d cs f = f\<lparr>currentSector := 0, loadedSector := False\<rparr>"
  by (simp add: moved_def)

lemma moved_fields:
  "same_file f (moved d cs f)" "seekpos (moved d cs f) = seekpos f"
  by (simp_all add: same_file_def moved_def Let_def)

lemma moved_handle:
  assumes "on_chain f d cs" "length (sectorBuffer f) = 512"
  shows "handle_ok (moved d cs f) d cs"
proof -
  have "length (sector d (chain_sectors d cs ! (seekpos f div 512))) = 512" if "seekpos f < capacity d cs"
    using sector_of_position(4) that assms(1) by (simp add: on_chain_def)
  then show ?thesis
    using assms by (simp add: handle_ok_def placed_def fresh_def on_chain_def moved_def Let_def)
qed

lemma on_chain_cached: "cached d d' \<Longrightarrow> on_chain f d cs \<Longrightarrow> on_chain f d' cs"
  using cached_facts(1,2) [of d d'] cached_facts(8) [of d d' cs] capacity_layout [of d d'] by (simp add: on_chain_def)

lemma handle_cached: "cached d d' \<Longrightarrow> handle_ok f d cs \<Longrightarrow> handle_ok f d' cs"
  using on_chain_cached [of d d' f cs] capacity_layout [of d d'] chain_sectors_layout [of d d']
    cached_facts(1,4) [of d d'] by (simp add: handle_ok_def placed_def fresh_def)

section \<open>Seek\<close>

lemma signed32_small: "n < 2 ^ 31 \<Longrightarrow> signed32 n = int n"
  by (simp add: signed32_def signed_of_nat signed_take_bit_int_eq_self)

lemma Seek_run:
  assumes h: "on_chain f d cs" and p: "p < 2 ^ 31"
  obtains d' where "Seek p DOS_SEEK_SET f d = (p, moved d cs (f\<lparr>seekpos := p\<rparr>), d')" "cached d d'"
proof -
  define g where "g = f\<lparr>seekpos := p\<rparr>"
  have ok: "fat_ok d" "chain d cs" "firstCluster g = hd cs" and g: "seekpos g = p"
    using h by (simp_all add: on_chain_def g_def)
  have to: "nat (if signed32 p < 0 then 0 else signed32 p) = p"
    using signed32_small [OF p] by simp
  have bps: "getSectorSize d' = 512" if "cached d d'" for d'
    using cached_facts(2) [OF that] by (simp add: fat_ok_def layout_ok_def getSectorSize_def)
  show thesis
  proof (cases "seekpos g < capacity d cs")
    case True
    from arrive_in [OF ok True] obtain d' where d':
      "find_sector g d = (g\<lparr>currentSector := chain_sectors d cs ! (p div 512)\<rparr>, d')" "cached d d'"
      "chain_sectors d cs ! (p div 512) \<noteq> 0"
      "\<And>g. currentSector g = chain_sectors d cs ! (p div 512) \<Longrightarrow>
        load_sector d' g = g\<lparr>sectorBuffer := sector d (chain_sectors d cs ! (p div 512)), loadedSector := True\<rparr>"
      unfolding g by blast
    have "Seek p DOS_SEEK_SET f d = (p, moved d cs g, d')"
      using d'(1,3) d'(4) bps [OF d'(2)] to g moved_in [OF True]
      by (simp add: Seek_def at_offset_def g_def [symmetric])
    then show thesis
      using that d'(2) g_def by blast
  next
    case False
    from arrive_behind [OF ok False] obtain d' where d': "find_sector g d = (g\<lparr>currentSector := 0\<rparr>, d')" "cached d d'" .
    have "Seek p DOS_SEEK_SET f d = (p, moved d cs g, d')"
      using d'(1) to g moved_behind [OF False] by (simp add: Seek_def g_def [symmetric])
    then show thesis
      using that d'(2) g_def by blast
  qed
qed

lemma Seek_handle:
  assumes "on_chain f d cs" "length (sectorBuffer f) = 512"
  shows "handle_ok (moved d cs (f\<lparr>seekpos := p\<rparr>)) d cs" "same_file f (moved d cs (f\<lparr>seekpos := p\<rparr>))"
  using moved_handle [of "f\<lparr>seekpos := p\<rparr>" d cs] moved_fields(1) [of "f\<lparr>seekpos := p\<rparr>" d cs] assms
  by (simp_all add: on_chain_def same_file_def)

section \<open>Read\<close>

lemma next_offset:
  assumes "p mod 512 + 1 < (512 :: nat)"
  shows "(p + 1) mod 512 = p mod 512 + 1" "(p + 1) div 512 = p div 512"
proof -
  have p: "p + 1 = (p mod 512 + 1) + 512 * (p div 512)"
    by simp
  show "(p + 1) mod 512 = p mod 512 + 1" "(p + 1) div 512 = p div 512"
    unfolding p using assms by (simp_all only: mod_mult_self2 div_mult_self2) simp_all
qed

lemma next_sector:
  assumes "\<not> p mod 512 + 1 < (512 :: nat)"
  shows "(p + 1) mod 512 = 0" "p mod 512 = 511"
proof -
  show r: "p mod 512 = 511"
    using assms mod_less_divisor [of 512 p] by linarith
  have "(p + 1) mod 512 = (p mod 512 + 1) mod 512"
    by (simp only: mod_add_left_eq)
  then show "(p + 1) mod 512 = 0"
    by (simp only: r) simp
qed

text \<open>The byte under the position, and the position behind it.\<close>

definition passed :: "fat_file \<Rightarrow> fat_file" where
  "passed f = f\<lparr>curSectOff := curSectOff f + 1, seekpos := wrap32 (seekpos f + 1)\<rparr>"

lemma passed_fields:
  "same_file f (passed f)" "sectorBuffer (passed f) = sectorBuffer f" "curSectOff (passed f) = curSectOff f + 1"
  "currentSector (passed f) = currentSector f" "loadedSector (passed f) = loadedSector f"
  by (simp_all add: same_file_def passed_def)

lemma same_file_chain: "same_file f f' \<Longrightarrow> on_chain f' d cs = on_chain f d cs"
  by (simp add: same_file_def on_chain_def)

lemma read_step:
  assumes h: "handle_ok f d cs" and p: "seekpos f < filelength f"
  obtains (more) f' d' where "read_loop (Suc n) data f d = read_loop n (data @ [file_byte d cs (seekpos f)]) f' d'"
      "handle_ok f' d' cs" "seekpos f' = seekpos f + 1" "same_file f f'" "cached d d'"
  | (finished) f' d' where "read_loop (Suc n) data f d = Some (data @ [file_byte d cs (seekpos f)], f', d')"
      "handle_ok f' d' cs" "seekpos f' = seekpos f + 1" "same_file f f'" "cached d d'"
      "seekpos f + 1 = filelength f"
proof -
  let ?p = "seekpos f" and ?g = "passed f"
  have ok: "fat_ok d" "chain d cs" "firstCluster f = hd cs" "filelength f \<le> capacity d cs" "filelength f < 2 ^ 32"
    and oc: "on_chain f d cs"
    using h by (simp_all add: handle_ok_def on_chain_def)
  have cap: "?p < capacity d cs"
    using p ok(4) by simp
  have pl: "loadedSector f" "currentSector f = chain_sectors d cs ! (?p div 512)" "curSectOff f = ?p mod 512"
    "length (sectorBuffer f) = 512"
    using h cap by (simp_all add: handle_ok_def placed_def)
  moreover have buf: "sectorBuffer f = sector d (chain_sectors d cs ! (?p div 512))"
    using h pl by (simp add: handle_ok_def fresh_def)
  ultimately have byte: "sectorBuffer f ! curSectOff f = file_byte d cs ?p"
    by (simp add: file_byte_def)
  have bps: "getSectorSize d = 512"
    using ok(1) by (simp add: fat_ok_def layout_ok_def getSectorSize_def)
  have g: "seekpos ?g = ?p + 1" "curSectOff ?g = ?p mod 512 + 1" "firstCluster ?g = hd cs" "on_chain ?g d cs"
    "length (sectorBuffer ?g) = 512"
    using p ok(3,5) pl oc passed_fields same_file_chain [OF passed_fields(1)]
    by (simp_all add: passed_def on_chain_def)
  have run: "read_loop (Suc n) data f d =
     (if ?p mod 512 + 1 < 512 then read_loop n (data @ [file_byte d cs ?p]) ?g d
      else let (f', d') = find_sector ?g d
           in if currentSector f' = 0 then Some (data @ [file_byte d cs ?p], f'\<lparr>loadedSector := False\<rparr>, d')
              else read_loop n (data @ [file_byte d cs ?p]) (load_sector d' (f'\<lparr>curSectOff := 0\<rparr>)) d')"
    using p pl(3) byte bps by (simp add: passed_def Let_def BytePerSector_def not_less not_le)
  show thesis
  proof (cases "?p mod 512 + 1 < 512")
    case True
    have "?p + 1 < capacity d cs"
      using cap next_offset(2) [OF True] by (simp add: in_capacity)
    then have "handle_ok ?g d cs"
      using g pl buf next_offset [OF True] passed_fields [of f] by (simp add: handle_ok_def placed_def fresh_def)
    then show thesis
      using more [of ?g d] run True g(1) passed_fields(1) cached_refl [OF ok(1)] by simp
  next
    case False
    note off = next_sector(1) [OF False]
    have m: "handle_ok (moved d cs ?g) d cs" "same_file f (moved d cs ?g)" "seekpos (moved d cs ?g) = ?p + 1"
      using moved_handle [OF g(4,5)] moved_fields [where f = ?g and d = d and cs = cs] same_file_trans [OF passed_fields(1)] g(1) by simp_all
    show thesis
    proof (cases "seekpos ?g < capacity d cs")
      case True
      from arrive_in [OF ok(1,2) g(3) True] obtain d' where d':
        "find_sector ?g d = (?g\<lparr>currentSector := chain_sectors d cs ! ((?p + 1) div 512)\<rparr>, d')" "cached d d'"
        "chain_sectors d cs ! ((?p + 1) div 512) \<noteq> 0"
        "\<And>g. currentSector g = chain_sectors d cs ! ((?p + 1) div 512) \<Longrightarrow>
          load_sector d' g = g\<lparr>sectorBuffer := sector d (chain_sectors d cs ! ((?p + 1) div 512)), loadedSector := True\<rparr>"
        unfolding g(1) by blast
      have "read_loop (Suc n) data f d = read_loop n (data @ [file_byte d cs ?p]) (moved d cs ?g) d'"
        using d'(1,3) d'(4) off moved_in [OF True] g(1) unfolding run if_not_P [OF False]
        by simp
      then show thesis
        using more [of "moved d cs ?g" d'] handle_cached [OF d'(2) m(1)] m(2,3) d'(2) by simp
    next
      case behind: False
      from arrive_behind [OF ok(1,2) g(3) behind] obtain d' where d':
        "find_sector ?g d = (?g\<lparr>currentSector := 0\<rparr>, d')" "cached d d'" .
      have "read_loop (Suc n) data f d = Some (data @ [file_byte d cs ?p], moved d cs ?g, d')"
        using d'(1) moved_behind [OF behind] unfolding run if_not_P [OF False] by simp
      moreover have "?p + 1 = filelength f"
        using behind g(1) p ok(4) by simp
      ultimately show thesis
        using finished [of "moved d cs ?g" d'] handle_cached [OF d'(2) m(1)] m(2,3) d'(2) by simp
    qed
  qed
qed

text \<open>The whole loop.\<close>

lemma read_loop_bytes:
  assumes "handle_ok f d cs"
  shows "\<exists>f' d'. read_loop n data f d =
      Some (data @ map (file_byte d cs) [seekpos f..<min (seekpos f + n) (filelength f)], f', d') \<and>
    handle_ok f' d' cs \<and> same_file f f' \<and> cached d d' \<and>
    seekpos f' = max (seekpos f) (min (seekpos f + n) (filelength f))"
  using assms
proof (induction n arbitrary: f d data)
  case 0
  then show ?case
    using cached_refl by (auto simp: handle_ok_def on_chain_def)
next
  case (Suc n)
  show ?case
  proof (cases "seekpos f < filelength f")
    case False
    then show ?thesis
      using Suc.prems cached_refl by (auto simp: handle_ok_def on_chain_def)
  next
    case True
    let ?e = "min (seekpos f + Suc n) (filelength f)"
    have list: "[seekpos f..<?e] = seekpos f # [seekpos f + 1..<?e]"
      using True by (simp add: upt_conv_Cons)
    show ?thesis
      using Suc.prems True
    proof (cases rule: read_step [where n = n and data = data])
      case (more f' d')
      have len: "filelength f' = filelength f"
        using more(4) by (simp add: same_file_def)
      obtain f2 d2 where r: "read_loop n (data @ [file_byte d cs (seekpos f)]) f' d' =
          Some ((data @ [file_byte d cs (seekpos f)]) @
            map (file_byte d' cs) [seekpos f'..<min (seekpos f' + n) (filelength f')], f2, d2)"
        "handle_ok f2 d2 cs" "same_file f' f2" "cached d' d2"
        "seekpos f2 = max (seekpos f') (min (seekpos f' + n) (filelength f'))"
        using Suc.IH [OF more(2), of "data @ [file_byte d cs (seekpos f)]"] by blast
      have "read_loop (Suc n) data f d = Some (data @ map (file_byte d cs) [seekpos f..<?e], f2, d2)"
        unfolding list more(1) r(1) len more(3) file_byte_cached [OF more(5)] by simp
      moreover have "seekpos f2 = max (seekpos f) ?e"
        using r(5) len more(3) True by simp
      ultimately show ?thesis
        using r(2) same_file_trans [OF more(4) r(3)] cached_trans [OF more(5) r(4)]
        by (intro exI [of _ f2] exI [of _ d2]) blast
    next
      case (finished f' d')
      have "?e = seekpos f + 1"
        using finished(6) by simp
      then have "read_loop (Suc n) data f d = Some (data @ map (file_byte d cs) [seekpos f..<?e], f', d')"
        "seekpos f' = max (seekpos f) ?e"
        unfolding list finished(1) using finished(3) by simp_all
      then show ?thesis
        using finished(2,4,5) by (intro exI [of _ f'] exI [of _ d']) blast
    qed
  qed
qed

lemma Read_bytes:
  assumes h: "handle_ok f d cs" and "flags f AND 0xf \<noteq> OPEN_WRITE"
  shows "\<exists>f' d'. Read n f d =
      Some (Inr (map (file_byte d cs) [seekpos f..<min (seekpos f + n) (filelength f)], f', d')) \<and>
    handle_ok f' d' cs \<and> same_file f f' \<and> cached d d' \<and>
    seekpos f' = max (seekpos f) (min (seekpos f + n) (filelength f))"
proof (cases "seekpos f < filelength f")
  case False
  then have "Read n f d = Some (Inr ([], f, d))"
    using assms(2) by (simp add: Read_def)
  then show ?thesis
    using False h cached_refl by (intro exI [of _ f] exI [of _ d]) (simp add: handle_ok_def on_chain_def)
next
  case True
  then have "loadedSector f"
    using h by (simp add: handle_ok_def placed_def on_chain_def)
  then have run: "Read n f d = map_option Inr (read_loop n [] f d)"
    using True assms(2) by (simp add: Read_def)
  show ?thesis
    using read_loop_bytes [OF h, of n "[]"] unfolding run by (elim exE conjE) simp
qed

end
