(* ===== verification/Fat_Write.thy ===== *)
theory Fat_Write
  imports Fat_Read
begin

text \<open>
  What \<open>Write\<close> does to a file: the invariant of its loop, which sees the bytes through the buffer, and
  the files it leaves alone.
\<close>

section \<open>Other files\<close>

definition undisturbed :: "fat_drive \<Rightarrow> nat list \<Rightarrow> fat_drive \<Rightarrow> nat list \<Rightarrow> bool" where
  "undisturbed d cs d' cs' \<longleftrightarrow> same_layout d d' \<and> fat_ok d' \<and> (mirrored d \<longrightarrow> mirrored d') \<and>
     (\<forall>n < firstDataSector d. outside_fats d n \<longrightarrow> sector d' n = sector d n) \<and>
     (\<forall>xs. chain d xs \<and> set xs \<inter> set cs = {} \<longrightarrow>
        chain d' xs \<and> set xs \<inter> set cs' = {} \<and> chain_data d' xs = chain_data d xs)"

lemma undisturbed_trans:
  assumes "undisturbed d cs d1 cs1" "undisturbed d1 cs1 d2 cs2"
  shows "undisturbed d cs d2 cs2"
proof -
  have same: "same_layout d d1"
    using assms(1) by (simp add: undisturbed_def)
  have "sector d2 n = sector d n" if "n < firstDataSector d" "outside_fats d n" for n
    using assms that same_layout_fields(13) [OF same] outside_fats_layout [OF same]
    unfolding undisturbed_def by simp
  moreover have "same_layout d d2" "fat_ok d2" "mirrored d \<longrightarrow> mirrored d2"
    using assms same_layout_trans unfolding undisturbed_def by blast+
  moreover have "chain d2 xs \<and> set xs \<inter> set cs2 = {} \<and> chain_data d2 xs = chain_data d xs"
    if "chain d xs" "set xs \<inter> set cs = {}" for xs
    using assms that unfolding undisturbed_def by simp
  ultimately show ?thesis
    unfolding undisturbed_def by blast
qed

lemma cached_chain_data: "cached d d' \<Longrightarrow> chain_data d' = chain_data d"
  using cached_facts(1,4) [of d d'] chain_sectors_layout [of d d'] by (intro ext) (simp add: chain_data_def)

lemma undisturbed_cached: "cached d d' \<Longrightarrow> undisturbed d cs d' cs"
  using cached_facts [of d d'] cached_chain_data [of d d'] by (simp add: undisturbed_def)

lemma undisturbed_refl: "fat_ok d \<Longrightarrow> undisturbed d cs d cs"
  using undisturbed_cached cached_refl by blast

lemma below_data: "n < firstDataSector d \<Longrightarrow> n < sector_count d"
  by (simp add: sector_count_def)

lemma data_sector_above: "n \<in> set (chain_sectors d cs) \<Longrightarrow> firstDataSector d \<le> n"
  by (auto simp: set_chain_sectors cluster_sectors_def cluster_sector_def)

lemma chains_apart:
  assumes "set xs \<subseteq> data_clusters d" "set cs \<subseteq> data_clusters d" "set xs \<inter> set cs = {}"
  shows "set (chain_sectors d xs) \<inter> set (chain_sectors d cs) = {}"
proof -
  have "cluster_sectors d x \<inter> cluster_sectors d c = {}" if "x \<in> set xs" "c \<in> set cs" for x c
    using cluster_sectors_disjoint [of x d c] that assms by blast
  then show ?thesis
    by (auto simp: set_chain_sectors)
qed

text \<open>Writing a sector of the file itself.\<close>

lemma write_file_sector:
  assumes ok: "fat_ok d" "chain d cs" and n: "n \<in> set (chain_sectors d cs)" and b: "length b = 512"
  shows "undisturbed d cs (writeSector n b d) cs" "chain (writeSector n b d) cs"
    and "m \<in> set (chain_sectors d cs) \<Longrightarrow> sector (writeSector n b d) m = (if m = n then b else sector d m)"
proof -
  let ?d = "writeSector n b d"
  have cs: "set cs \<subseteq> data_clusters d"
    using ok(2) by (simp add: chain_def)
  note ex = chain_sector_exists [OF ok(1) cs n]
  note w = write_data_sector [OF ok(1) ex b]
  have chains: "chain ?d xs" if "chain d xs" for xs
  proof (rule keeps_chain [OF that w(1)])
    show "table ?d c = table d c" if "c \<in> set xs" for c
      using that \<open>chain d xs\<close> w(3) data_in_clusters unfolding chain_def by blast
  qed
  then show "chain ?d cs"
    using ok(2) .
  have "chain_data ?d xs = chain_data d xs" if "chain d xs" "set xs \<inter> set cs = {}" for xs
  proof -
    have xs: "set xs \<subseteq> data_clusters d"
      using that(1) by (simp add: chain_def)
    have "{n} \<inter> set (chain_sectors d xs) = {}"
      using chains_apart [OF xs cs that(2)] n by blast
    then show ?thesis
      using keeps_data [OF ok(1) w(1) xs] by blast
  qed
  moreover have "sector ?d m = sector d m" if "m < firstDataSector d" "outside_fats d m" for m
  proof -
    have "m \<noteq> n"
      using data_sector_above [OF n] that(1) by auto
    then show ?thesis
      using w(1) that below_data [of m d] by (simp add: keeps_def)
  qed
  ultimately show "undisturbed d cs ?d cs"
    using w(1) chains unfolding undisturbed_def keeps_def by blast
  show "sector ?d m = (if m = n then b else sector d m)" if m: "m \<in> set (chain_sectors d cs)"
    using w(1,2) chain_sector_exists [OF ok(1) cs m] by (simp add: keeps_def)
qed

section \<open>The contents seen through the buffer\<close>

definition view :: "fat_file \<Rightarrow> fat_drive \<Rightarrow> nat list \<Rightarrow> nat \<Rightarrow> u8" where
  "view f d cs p = (if loadedSector f \<and> p div 512 = seekpos f div 512 then sectorBuffer f ! (p mod 512)
     else file_byte d cs p)"

definition writing :: "fat_file \<Rightarrow> fat_drive \<Rightarrow> nat list \<Rightarrow> bool" where
  "writing f d cs \<longleftrightarrow> fat_ok d \<and> seekpos f \<le> filelength f \<and> length (sectorBuffer f) = 512 \<and>
     (if cs = [] then firstCluster f = 0 \<and> filelength f = 0 \<and> curSectOff f = 0
      else chain d cs \<and> firstCluster f = hd cs \<and> 0 < filelength f \<and> filelength f \<le> capacity d cs \<and>
        placed f d cs \<and> (curSectOff f = 0 \<longrightarrow> fresh f d))"

text \<open>The fields that \<open>Write\<close> leaves alone.\<close>

definition same_place :: "fat_file \<Rightarrow> fat_file \<Rightarrow> bool" where
  "same_place f f' \<longleftrightarrow> flags f' = flags f \<and> dirCluster f' = dirCluster f \<and> dirIndex f' = dirIndex f \<and>
     set_archive_on_close f' = set_archive_on_close f \<and> flush_time_on_close f' = flush_time_on_close f \<and>
     time f' = time f \<and> date f' = date f"

lemma same_place_refl [simp]: "same_place f f"
  by (simp add: same_place_def)

lemma same_place_trans: "same_place f g \<Longrightarrow> same_place g h \<Longrightarrow> same_place f h"
  by (simp add: same_place_def)

lemma same_file_place: "same_file f f' \<Longrightarrow> same_place f f'"
  by (simp add: same_file_def same_place_def)

lemma view_fresh: "placed f d cs \<Longrightarrow> fresh f d \<Longrightarrow> view f d cs p = file_byte d cs p"
  by (auto simp: view_def placed_def fresh_def file_byte_def)

lemma view_not_loaded: "\<not> loadedSector f \<Longrightarrow> view f d cs p = file_byte d cs p"
  by (simp add: view_def)

lemma file_byte_data:
  "p < capacity d cs \<Longrightarrow> file_byte d cs p = chain_data d cs ! (p div 512) ! (p mod 512)"
  by (simp add: file_byte_def chain_data_def in_capacity)

lemma in_file_sectors: "p < capacity d cs \<Longrightarrow> chain_sectors d cs ! (p div 512) \<in> set (chain_sectors d cs)"
  by (simp add: in_capacity)

lemma same_file_sector:
  assumes "chain d cs" "p < capacity d cs" "q < capacity d cs"
  shows "chain_sectors d cs ! (p div 512) = chain_sectors d cs ! (q div 512) \<longleftrightarrow> p div 512 = q div 512"
  using distinct_chain_sectors [of cs d] assms by (simp add: chain_def in_capacity nth_eq_iff_index_eq)

lemma same_position: "p div 512 = q div 512 \<Longrightarrow> p mod 512 = q mod 512 \<longleftrightarrow> p = (q :: nat)"
  by (metis div_mod_decomp)

section \<open>One byte\<close>

lemma put_byte_step:
  assumes w: "writing f d cs" and cs: "cs \<noteq> []" and p: "seekpos f < filelength f" "seekpos f + 1 < 2 ^ 32"
  obtains f' d' where "put_byte b f d = Some (f', d')" "writing f' d' cs" "same_place f f'"
    "seekpos f' = seekpos f + 1" "filelength f' = filelength f" "undisturbed d cs d' cs"
    "\<And>q. q < capacity d cs \<Longrightarrow> view f' d' cs q = (if q = seekpos f then b else view f d cs q)"
proof -
  let ?p = "seekpos f" and ?off = "seekpos f mod 512"
  let ?s = "chain_sectors d cs ! (?p div 512)" and ?b = "(sectorBuffer f)[?off := b]"
  have ok: "fat_ok d" "chain d cs" "firstCluster f = hd cs" "filelength f \<le> capacity d cs"
    and pl: "placed f d cs"
    using w cs by (simp_all add: writing_def)
  have cap: "?p < capacity d cs"
    using p ok(4) by simp
  have at: "loadedSector f" "currentSector f = ?s" "curSectOff f = ?off" "length (sectorBuffer f) = 512"
    using pl cap by (simp_all add: placed_def)
  have bps: "getSectorSize d = 512" if "fat_ok d" for d
    using that by (simp add: fat_ok_def layout_ok_def getSectorSize_def)
  define g where "g = f\<lparr>sectorBuffer := ?b, curSectOff := Suc ?off, seekpos := Suc ?p\<rparr>"
  have g: "seekpos g = ?p + 1" "curSectOff g = ?off + 1" "loadedSector g" "currentSector g = ?s"
    "sectorBuffer g = ?b" "firstCluster g = hd cs" "filelength g = filelength f" "same_place f g"
    "length (sectorBuffer g) = 512"
    using at ok(3) by (simp_all add: g_def same_place_def)
  have run: "put_byte b f d = Some (if ?off + 1 < 512 then (g, d)
      else let (f', d') = find_sector g (writeSector ?s ?b d)
           in (if currentSector f' = 0 then f'\<lparr>loadedSector := False\<rparr>
               else load_sector d' (f'\<lparr>curSectOff := 0\<rparr>), d'))"
    using at p(2) bps [OF ok(1)] g(1-5)
    by (simp add: put_byte_def Let_def BytePerSector_def g_def [symmetric] not_less not_le)
  show thesis
  proof (cases "?off + 1 < 512")
    case True
    note next' = next_offset [OF True]
    have "?p + 1 < capacity d cs"
      using cap next'(2) by (simp add: in_capacity)
    then have "writing g d cs"
      using ok cs p g next' w by (simp add: writing_def placed_def)
    moreover have "view g d cs q = (if q = ?p then b else view f d cs q)" for q
      using g(1,3,5) at next'(2) same_position [of q ?p] by (auto simp: view_def)
    ultimately show thesis
      using that [of g d] run True g undisturbed_refl [OF ok(1)] by simp
  next
    case False
    note off = next_sector [OF False]
    let ?d = "writeSector ?s ?b d"
    have s: "?s \<in> set (chain_sectors d cs)"
      using in_file_sectors [OF cap] .
    have lb: "length ?b = 512"
      using at by simp
    note wr = write_file_sector [OF ok(1,2) s lb]
    have d1: "fat_ok ?d" "same_layout d ?d"
      using wr(1) by (simp_all add: undisturbed_def)
    have lay: "capacity ?d = capacity d" "chain_sectors ?d = chain_sectors d"
      using capacity_layout [OF d1(2)] chain_sectors_layout [OF d1(2)] by simp_all
    let ?m = "moved ?d cs g"
    have mv: "placed ?m ?d cs" "fresh ?m ?d" "seekpos ?m = ?p + 1" "same_file g ?m" "length (sectorBuffer ?m) = 512"
    proof -
      show "seekpos ?m = ?p + 1" "same_file g ?m"
        using moved_fields [where f = g and d = ?d and cs = cs] g(1) by simp_all
      have "length (sector ?d (chain_sectors ?d cs ! (seekpos g div 512))) = 512" if "seekpos g < capacity ?d cs"
        using sector_of_position(4) [OF d1(1) wr(2) that] .
      then show "placed ?m ?d cs" "fresh ?m ?d" "length (sectorBuffer ?m) = 512"
        using g(9) by (simp_all add: placed_def fresh_def moved_def Let_def)
    qed
    obtain d2 where d2: "put_byte b f d = Some (?m, d2)" "cached ?d d2"
    proof (cases "seekpos g < capacity ?d cs")
      case True
      from arrive_in [OF d1(1) wr(2) g(6) True] obtain d' where d':
        "find_sector g ?d = (g\<lparr>currentSector := chain_sectors ?d cs ! ((?p + 1) div 512)\<rparr>, d')" "cached ?d d'"
        "chain_sectors ?d cs ! ((?p + 1) div 512) \<noteq> 0"
        "\<And>g. currentSector g = chain_sectors ?d cs ! ((?p + 1) div 512) \<Longrightarrow>
          load_sector d' g = g\<lparr>sectorBuffer := sector ?d (chain_sectors ?d cs ! ((?p + 1) div 512)), loadedSector := True\<rparr>"
        unfolding g(1) by blast
      have "put_byte b f d = Some (?m, d')"
        using d'(1,3) d'(4) off(1) moved_in [OF True] g(1) unfolding run if_not_P [OF False] by simp
      then show thesis
        using that d'(2) by blast
    next
      case behind: False
      from arrive_behind [OF d1(1) wr(2) g(6) behind] obtain d' where d':
        "find_sector g ?d = (g\<lparr>currentSector := 0\<rparr>, d')" "cached ?d d'" .
      have "put_byte b f d = Some (?m, d')"
        using d'(1) moved_behind [OF behind] unfolding run if_not_P [OF False] by simp
      then show thesis
        using that d'(2) by blast
    qed
    note facts = cached_facts [OF d2(2)]
    have same: "filelength ?m = filelength f" "firstCluster ?m = hd cs" "same_place f ?m"
      using mv(4) g(6,7,8) same_place_trans [OF _ same_file_place] by (simp_all add: same_file_def)
    have lay2: "capacity d2 = capacity d" "chain_sectors d2 = chain_sectors d"
      using capacity_layout [OF facts(1)] chain_sectors_layout [OF facts(1)] lay by simp_all
    have p2: "placed ?m d2 cs" "fresh ?m d2"
      using mv(1,2) lay lay2 facts(4) by (simp_all add: placed_def fresh_def)
    then have "writing ?m d2 cs"
      using facts(2,8) wr(2) cs same mv(3,5) p ok(4) lay2 by (simp add: writing_def)
    moreover have "view ?m d2 cs q = (if q = ?p then b else view f d cs q)" if q: "q < capacity d cs" for q
    proof -
      have "view ?m d2 cs q = file_byte ?d cs q"
        using view_fresh [OF p2] file_byte_cached [OF d2(2)] by simp
      also have "\<dots> = (if q div 512 = ?p div 512 then ?b ! (q mod 512) else file_byte d cs q)"
        using wr(3) [OF in_file_sectors [OF q]] same_file_sector [OF ok(2) q cap] lay(2)
        by (simp add: file_byte_def)
      also have "\<dots> = (if q = ?p then b else view f d cs q)"
        using at same_position [of q ?p] by (auto simp: view_def)
      finally show ?thesis .
    qed
    ultimately show thesis
      using that [OF d2(1)] same mv(3) undisturbed_trans [OF wr(1) undisturbed_cached [OF d2(2)]] by blast
  qed
qed

section \<open>Room for one more byte\<close>

lemma bytes_per_sector: "fat_ok d \<Longrightarrow> getSectorSize d = 512"
  by (simp add: fat_ok_def layout_ok_def getSectorSize_def)

lemma capacity_one: "fat_ok d \<Longrightarrow> 512 \<le> capacity d [c]"
  by (simp add: capacity_def fat_ok_def layout_ok_def Suc_leI)

lemma free_cluster_chain:
  assumes "fat_ok d" "first_free d c" "chain d xs"
  shows "c \<notin> set xs"
  using chain_not_free [OF assms(3), of c] assms(2) by (auto simp: first_free_def)

text \<open>The first cluster of an empty file.\<close>

lemma first_cluster_step:
  assumes ok: "fat_ok d"
  obtains (full) d' where "first_cluster f d = (False, f\<lparr>firstCluster := 0\<rparr>, d')" "disk_full d" "cached d d'"
  | (new) c d' where "first_cluster f d = (True, f\<lparr>firstCluster := c\<rparr>, d')" "chain d' [c]"
      "undisturbed d [] d' [c]"
proof -
  obtain c d1 where g: "getFirstFreeClust d = (c, d1)" "cached d d1" "c = 0 \<and> disk_full d \<or> c \<noteq> 0 \<and> first_free d c"
    using getFirstFreeClust [OF ok] .
  note facts = cached_facts [OF g(2)]
  show thesis
  proof (cases "c = 0")
    case True
    then show thesis
      using full g by (auto simp: first_cluster_def first_free_def data_clusters_def)
  next
    case False
    then have free: "first_free d c" "c \<in> data_clusters d1"
      using g(3) facts(6) by (simp_all add: first_free_def)
    have t: "table_is d1 (table d)"
      using facts(3) by (simp add: table_is_def)
    obtain d2 where a: "allocateCluster c 0 d1 = (True, d2)" "keeps {} d1 d2"
      "table_is d2 ((table d)(c := eof_mark (fattype d1)))"
      using allocate_first [OF facts(2) free(2) t] .
    have k: "keeps {} d d2"
      using keeps_trans [OF cached_keeps [OF g(2)] a(2)] by simp
    note lay = keeps_layout [OF k]
    have "c \<in> clusters d2"
      using free(2) data_in_clusters facts(6) lay(3) by blast
    then have ch: "chain d2 [c]"
      using a(3) free(2) facts(6,7) lay(4,5) by (simp add: chain_def table_is_def)
    have others: "chain d2 xs" if "chain d xs" for xs
    proof (rule keeps_chain [OF that k])
      fix x assume "x \<in> set xs"
      moreover from this have "x \<noteq> c" "x \<in> clusters d2"
        using free_cluster_chain [OF ok free(1) that] that lay(3) data_in_clusters by (auto simp: chain_def)
      ultimately show "table d2 x = table d x"
        using a(3) by (simp add: table_is_def)
    qed
    have "undisturbed d [] d2 [c]"
      unfolding undisturbed_def
    proof (intro conjI allI impI)
      show "same_layout d d2" "fat_ok d2" "mirrored d \<Longrightarrow> mirrored d2"
        using k by (simp_all add: keeps_def)
      show "sector d2 n = sector d n" if "n < firstDataSector d" "outside_fats d n" for n
        using k that below_data by (simp add: keeps_def)
      show "chain d2 xs" "set xs \<inter> set [c] = {}" "chain_data d2 xs = chain_data d xs"
        if "chain d xs \<and> set xs \<inter> set [] = {}" for xs
        using that others free_cluster_chain [OF ok free(1), of xs] keeps_data [OF ok k, of xs]
        by (auto simp: chain_def)
    qed
    then show thesis
      using new ch g(1) False a(1) by (simp add: first_cluster_def)
  qed
qed

lemma appended_undisturbed:
  assumes ok: "fat_ok d" "mirrored d" "chain d cs"
    and new: "first_free d c" "fat_ok d'" "mirrored d'" "same_layout d d'"
    and others: "\<forall>xs. chain d xs \<and> set xs \<inter> set cs = {} \<longrightarrow> chain d' xs \<and> chain_data d' xs = chain_data d xs"
    and root: "\<forall>n < firstDataSector d. outside_fats d n \<longrightarrow> sector d' n = sector d n"
  shows "undisturbed d cs d' (cs @ [c])"
  using assms free_cluster_chain [OF ok(1) new(1)] unfolding undisturbed_def by auto

lemma appendCluster_step:
  assumes ok: "fat_ok d" "mirrored d" "chain d cs"
  obtains (full) d' where "appendCluster (hd cs) d = Some (0, d')" "disk_full d" "cached d d'"
  | (grown) c d' where "appendCluster (hd cs) d = Some (c, d')" "chain d' (cs @ [c])"
      "undisturbed d cs d' (cs @ [c])"
      "chain_data d' (cs @ [c]) = chain_data d cs @ replicate (sectorspercluster d) (replicate 512 0)"
proof (cases rule: appendCluster [OF ok(1,3)])
  case (1 d')
  then show thesis
    using full by blast
next
  case (2 c d')
  note lay = keeps_layout [OF 2(3)]
  have root: "sector d' n = sector d n" if "n < firstDataSector d" "outside_fats d n" for n
  proof -
    have "n \<notin> cluster_sectors d c"
      using that(1) by (auto simp: cluster_sectors_def cluster_sector_def)
    then show ?thesis
      using 2(3) that below_data by (simp add: keeps_def)
  qed
  from appendCluster_files [OF ok] 2(1,2) have *: "chain_data d' (cs @ [c]) =
      chain_data d cs @ replicate (sectorspercluster d) (replicate 512 0)"
    "\<forall>xs. chain d xs \<and> set xs \<inter> set cs = {} \<longrightarrow> chain d' xs \<and> chain_data d' xs = chain_data d xs" "mirrored d'"
    by (auto simp: first_free_def data_clusters_def)
  have "undisturbed d cs d' (cs @ [c])"
    using appended_undisturbed [OF ok 2(1) lay(2) *(3) lay(1) *(2)] root by blast
  then show thesis
    using grown 2(2,4) *(1) by blast
qed

definition grown :: "fat_file \<Rightarrow> fat_drive \<Rightarrow> nat list \<Rightarrow> fat_file \<Rightarrow> fat_drive \<Rightarrow> nat list \<Rightarrow> bool" where
  "grown f d cs f' d' cs' \<longleftrightarrow> writing f' d' cs' \<and> cs' \<noteq> [] \<and> same_place f f' \<and> seekpos f' = seekpos f \<and>
     filelength f' = filelength f + 1 \<and> (\<exists>ys. cs' = cs @ ys) \<and> undisturbed d cs d' cs' \<and>
     (\<forall>p < filelength f. view f' d' cs' p = view f d cs p)"

lemma grow_loaded:
  assumes w: "writing f d cs" "seekpos f = filelength f" "filelength f + 1 < 2 ^ 32" and cs: "cs \<noteq> []" "loadedSector f"
  shows "write_grow f d = Some (True, f\<lparr>filelength := filelength f + 1\<rparr>, d)"
    and "grown f d cs (f\<lparr>filelength := filelength f + 1\<rparr>) d cs"
proof -
  let ?g = "f\<lparr>filelength := filelength f + 1\<rparr>"
  have "seekpos f < capacity d cs" "0 < filelength f" "fat_ok d"
    using w cs by (simp_all add: writing_def placed_def)
  then show "write_grow f d = Some (True, ?g, d)" "grown f d cs ?g d cs"
    using w cs undisturbed_refl [of d cs]
    by (simp_all add: write_grow_def grown_def writing_def placed_def fresh_def view_def same_place_def)
qed

lemma grow_first:
  assumes w: "writing f d []" and f: "first_cluster f d = (True, f\<lparr>firstCluster := c\<rparr>, d1)"
    and new: "chain d1 [c]" "undisturbed d [] d1 [c]"
  obtains f' d' where "write_grow f d = Some (True, f', d')" "grown f d [] f' d' [c]"
proof -
  let ?g = "f\<lparr>firstCluster := c\<rparr>" and ?s = "chain_sectors d1 [c] ! 0"
  have f0: "filelength f = 0" "seekpos f = 0" "curSectOff f = 0" "length (sectorBuffer f) = 512"
    using w by (simp_all add: writing_def)
  have ok: "fat_ok d1"
    using new(2) by (simp add: undisturbed_def)
  have cap: "seekpos ?g < capacity d1 [c]"
    using capacity_one [OF ok, of c] f0 by simp
  have hd: "firstCluster ?g = hd [c]"
    by simp
  from arrive_in [OF ok new(1) hd cap] obtain d' where d':
    "find_sector ?g d1 = (?g\<lparr>currentSector := ?s\<rparr>, d')" "cached d1 d'"
    "\<And>g. currentSector g = ?s \<Longrightarrow> load_sector d' g = g\<lparr>sectorBuffer := sector d1 ?s, loadedSector := True\<rparr>"
    using f0(2) by auto
  note facts = cached_facts [OF d'(2)]
  define h where "h = f\<lparr>firstCluster := c, currentSector := ?s, sectorBuffer := sector d1 ?s, loadedSector := True,
    filelength := 1\<rparr>"
  have run: "write_grow f d = Some (True, h, d')"
    using f f0 d'(1) d'(3) by (simp add: write_grow_def h_def wrap32_def)
  have len: "length (sector d1 ?s) = 512"
    using sector_of_position(4) [OF ok new(1) cap] f0(2) by simp
  have lay: "capacity d' = capacity d1" "chain_sectors d' = chain_sectors d1"
    using capacity_layout [OF facts(1)] chain_sectors_layout [OF facts(1)] by simp_all
  have "writing h d' [c]"
    using f0 len lay facts(2,4,8) new(1) cap by (simp add: writing_def placed_def fresh_def h_def)
  then have "grown f d [] h d' [c]"
    using f0 undisturbed_trans [OF new(2) undisturbed_cached [OF d'(2)]]
    by (simp add: grown_def same_place_def h_def)
  then show thesis
    using that run by blast
qed

lemma capacity_data: "capacity d cs = 512 * length (chain_data d cs)"
  by (simp add: capacity_def chain_data_def length_chain_sectors)

lemma grow_append:
  assumes w: "writing f d cs" "seekpos f = filelength f" "filelength f + 1 < 2 ^ 32" "mirrored d"
    and cs: "cs \<noteq> []" "\<not> loadedSector f"
  obtains (full) d' where "write_grow f d = Some (False, f\<lparr>currentSector := 0\<rparr>, d')" "disk_full d" "cached d d'"
  | (new) f' d' c where "write_grow f d = Some (True, f', d')" "grown f d cs f' d' (cs @ [c])"
proof -
  have ok: "fat_ok d" "chain d cs" "firstCluster f = hd cs" "0 < filelength f" "filelength f \<le> capacity d cs"
    and pl: "placed f d cs" and len: "length (sectorBuffer f) = 512"
    using w cs by (simp_all add: writing_def)
  have p: "seekpos f = capacity d cs" "\<not> seekpos f < capacity d cs"
    using pl cs(2) w(2) ok(5) by (simp_all add: placed_def)
  from arrive_behind [OF ok(1-3) p(2)] obtain d1 where d1:
    "find_sector f d = (f\<lparr>currentSector := 0\<rparr>, d1)" "cached d d1" .
  note f1 = cached_facts [OF d1(2)]
  have ch1: "chain d1 cs" "mirrored d1"
    using ok(2) f1(8,11) w(4) by simp_all
  let ?g = "f\<lparr>currentSector := 0\<rparr>"
  from f1(2) ch1(2,1) show thesis
  proof (cases rule: appendCluster_step)
    case (full d2)
    note f2 = cached_facts [OF full(3)]
    have g: "firstCluster ?g = hd cs" "\<not> seekpos ?g < capacity d2 cs" "chain d2 cs"
      using ok(3) p(2) capacity_layout [OF same_layout_trans [OF f1(1) f2(1)]] ch1(1) f2(8) by simp_all
    from arrive_behind [OF f2(2) g(3,1,2)] obtain d3 where d3:
      "find_sector ?g d2 = (?g, d3)" "cached d2 d3"
      by auto
    have "write_grow f d = Some (False, ?g, d3)"
      using d1(1) d3(1) full(1) ok(3,4) cs(2) by (simp add: write_grow_def)
    moreover have "disk_full d"
      using full(2) f1(3,6) by (simp add: disk_full_def)
    ultimately show thesis
      using that(1) cached_trans [OF cached_trans [OF d1(2) full(3)] d3(2)] by blast
  next
    case (grown c d2)
    let ?cs = "cs @ [c]"
    have ok2: "fat_ok d2" "same_layout d1 d2"
      using grown(3) by (simp_all add: undisturbed_def)
    have cap2: "capacity d2 ?cs = capacity d cs + 512 * sectorspercluster d" "0 < sectorspercluster d"
      using capacity_layout [OF same_layout_trans [OF f1(1) ok2(2)]] ok(1)
      by (simp_all add: capacity_def fat_ok_def layout_ok_def algebra_simps)
    have c0: "c \<noteq> 0"
      using grown(2) by (auto simp: chain_def data_clusters_def)
    have g: "firstCluster ?g = hd ?cs" "seekpos ?g < capacity d2 ?cs"
      using ok(3) p(1) cs(1) cap2 by simp_all
    let ?s = "chain_sectors d2 ?cs ! (seekpos f div 512)"
    from arrive_in [OF ok2(1) grown(2) g] obtain d3 where d3:
      "find_sector ?g d2 = (?g\<lparr>currentSector := ?s\<rparr>, d3)" "cached d2 d3" "?s \<noteq> 0"
      "\<And>g. currentSector g = ?s \<Longrightarrow> load_sector d3 g = g\<lparr>sectorBuffer := sector d2 ?s, loadedSector := True\<rparr>"
      by auto
    note f3 = cached_facts [OF d3(2)]
    define h where "h = f\<lparr>currentSector := ?s, curSectOff := seekpos f mod 512, sectorBuffer := sector d2 ?s,
      loadedSector := True, filelength := filelength f + 1\<rparr>"
    have run: "write_grow f d = Some (True, h, d3)"
      using d1(1) d3(1,3) d3(4) grown(1) c0 ok(3,4) cs(2) w(2,3) bytes_per_sector [OF f3(2)]
      by (simp add: write_grow_def at_offset_def h_def)
    have lens: "length (sector d2 ?s) = 512"
      using sector_of_position(4) [OF ok2(1) grown(2), of "seekpos f"] g(2) by simp
    have lay: "capacity d3 = capacity d2" "chain_sectors d3 = chain_sectors d2"
      using capacity_layout [OF f3(1)] chain_sectors_layout [OF f3(1)] by simp_all
    have wr: "writing h d3 ?cs"
      using w(2) ok(3) cs(1) lens lay f3(2,4,8) grown(2) g(2) p(1)
      by (simp add: writing_def placed_def fresh_def h_def)
    have "view h d3 ?cs q = view f d cs q" if q: "q < filelength f" for q
    proof -
      have qc: "q < capacity d cs" "q < capacity d2 ?cs" "q < capacity d1 cs"
        using q ok(5) cap2 capacity_layout [OF f1(1)] by simp_all
      have "placed h d3 ?cs" "fresh h d3"
        using wr lay f3(4) by (simp_all add: writing_def h_def fresh_def)
      then have "view h d3 ?cs q = file_byte d2 ?cs q"
        using view_fresh file_byte_cached [OF d3(2)] by simp
      also have "\<dots> = chain_data d1 cs ! (q div 512) ! (q mod 512)"
        using file_byte_data [OF qc(2)] qc(3) in_capacity [of q d1 cs] unfolding grown(4)
        by (simp add: nth_append chain_data_def)
      also have "\<dots> = view f d cs q"
        using view_not_loaded [OF cs(2)] file_byte_data [OF qc(1)] cached_chain_data [OF d1(2)] by simp
      finally show ?thesis .
    qed
    then have "Fat_Write.grown f d cs h d3 ?cs"
      using wr undisturbed_trans [OF undisturbed_cached [OF d1(2)] undisturbed_trans [OF grown(3) undisturbed_cached [OF d3(2)]]]
      by (simp add: grown_def same_place_def h_def)
    then show thesis
      using that(2) run by blast
  qed
qed

lemma write_grow_step:
  assumes w: "writing f d cs" "seekpos f = filelength f" "filelength f + 1 < 2 ^ 32" "mirrored d"
  obtains (full) f' d' where "write_grow f d = Some (False, f', d')" "disk_full d" "cached d d'" "writing f' d' cs"
      "same_file f f'" "seekpos f' = seekpos f" "cs = [] \<or> \<not> loadedSector f'"
      "\<forall>p < filelength f. view f' d' cs p = view f d cs p"
  | (new) f' d' cs' where "write_grow f d = Some (True, f', d')" "grown f d cs f' d' cs'"
proof (cases "cs = []")
  case True
  have ok: "fat_ok d" and f0: "filelength f = 0" "firstCluster f = 0"
    using w(1) True by (simp_all add: writing_def)
  from ok show thesis
  proof (cases rule: first_cluster_step [where f = f])
    case (full d')
    have "f\<lparr>firstCluster := 0\<rparr> = f"
      using f0(2) by simp
    then have "write_grow f d = Some (False, f, d')"
      using full(1) f0(1) by (simp add: write_grow_def)
    moreover have "writing f d' cs"
      using w(1) True cached_facts(2) [OF full(3)] by (simp add: writing_def)
    ultimately show thesis
      using that(1) full(2,3) True f0(1) by simp
  next
    case (new c d')
    have "writing f d []"
      using w(1) True by simp
    from grow_first [OF this new] show thesis
      using that(2) True by blast
  qed
next
  case cs: False
  show thesis
  proof (cases "loadedSector f")
    case True
    then show thesis
      using that(2) grow_loaded [OF w(1-3) cs] by blast
  next
    case False
    from w cs False show thesis
    proof (cases rule: grow_append)
      case (full d')
      note facts = cached_facts [OF full(3)]
      let ?g = "f\<lparr>currentSector := 0\<rparr>"
      have lay: "capacity d' = capacity d"
        using capacity_layout [OF facts(1)] .
      have "writing ?g d' cs" "same_file f ?g"
        using w(1) cs False facts(2,8) lay by (simp_all add: writing_def placed_def fresh_def same_file_def)
      moreover have "view ?g d' cs p = view f d cs p" for p
        using False file_byte_cached [OF full(3)] by (simp add: view_def)
      ultimately show thesis
        using that(1) [OF full] False by simp
    next
      case (new f' d' c)
      then show thesis
        using that(2) by blast
    qed
  qed
qed

section \<open>The whole loop\<close>

definition spliced :: "(nat \<Rightarrow> u8) \<Rightarrow> nat \<Rightarrow> u8 list \<Rightarrow> nat \<Rightarrow> u8" where
  "spliced old p data q = (if p \<le> q \<and> q < p + length data then data ! (q - p) else old q)"

lemma spliced_Cons: "spliced (\<lambda>q. if q = p then b else old q) (p + 1) data q = spliced old p (b # data) q"
  by (cases "q = p") (auto simp: spliced_def nth_Cons')

lemma spliced_nil [simp]: "spliced old p [] = old"
  by (auto simp: spliced_def fun_eq_iff)

definition wrote :: "fat_file \<Rightarrow> fat_drive \<Rightarrow> nat list \<Rightarrow> u8 list \<Rightarrow> fat_file \<Rightarrow> fat_drive \<Rightarrow> nat list \<Rightarrow> bool" where
  "wrote f d cs data f' d' cs' \<longleftrightarrow> writing f' d' cs' \<and> same_place f f' \<and> seekpos f' = seekpos f + length data \<and>
     filelength f' = max (filelength f) (seekpos f + length data) \<and> (\<exists>ys. cs' = cs @ ys) \<and>
     undisturbed d cs d' cs' \<and>
     (\<forall>q < filelength f'. view f' d' cs' q = spliced (view f d cs) (seekpos f) data q)"

lemma wrote_nil: "writing f d cs \<Longrightarrow> wrote f d cs [] f d cs"
  by (simp add: wrote_def writing_def undisturbed_refl)

text \<open>A byte written with room for it, followed by the rest.\<close>

lemma wrote_Cons:
  assumes g: "writing g e cs1" "cs1 = cs @ ys" "same_place f g" "seekpos g = seekpos f"
      "filelength g = max (filelength f) (seekpos f + 1)" "undisturbed d cs e cs1"
      "\<forall>q < filelength f. view g e cs1 q = view f d cs q" "filelength g \<le> capacity e cs1" "seekpos f \<le> filelength f"
    and b: "same_place g f1" "seekpos f1 = seekpos g + 1" "filelength f1 = filelength g"
      "undisturbed e cs1 d1 cs1"
      "\<And>q. q < capacity e cs1 \<Longrightarrow> view f1 d1 cs1 q = (if q = seekpos g then b else view g e cs1 q)"
    and r: "wrote f1 d1 cs1 data f' d' cs'"
  shows "wrote f d cs (b # data) f' d' cs'"
proof -
  have rest: "writing f' d' cs'" "same_place f1 f'" "seekpos f' = seekpos f1 + length data"
    "filelength f' = max (filelength f1) (seekpos f1 + length data)" "\<exists>zs. cs' = cs1 @ zs"
    "undisturbed d1 cs1 d' cs'"
    "\<forall>q < filelength f'. view f' d' cs' q = spliced (view f1 d1 cs1) (seekpos f1) data q"
    using r by (simp_all add: wrote_def)
  have "view f' d' cs' q = spliced (view f d cs) (seekpos f) (b # data) q" if q: "q < filelength f'" for q
  proof -
    have old: "view f1 d1 cs1 q = (if q = seekpos f then b else view f d cs q)" if "q < filelength g"
      using b(5) [of q] g(4,5,7,8,9) that by auto
    have "spliced (view f1 d1 cs1) (seekpos f + 1) data q =
        spliced (\<lambda>q. if q = seekpos f then b else view f d cs q) (seekpos f + 1) data q"
    proof (cases "q < filelength g")
      case True
      then show ?thesis
        using old by (auto simp: spliced_def)
    next
      case False
      then have "seekpos f + 1 \<le> q \<and> q < seekpos f + 1 + length data"
        using q rest(4) b(2,3) g(4,5) by auto
      then show ?thesis
        unfolding spliced_def by simp
    qed
    then show ?thesis
      using rest(7) q b(2) g(4) spliced_Cons [of "seekpos f" b "view f d cs" data q] by simp
  qed
  moreover have "filelength f' = max (filelength f) (seekpos f + length (b # data))"
    using rest(4) b(2,3) g(4,5) by simp
  ultimately show ?thesis
    using rest(1,3,5) b(2) g(2,4) same_place_trans [OF g(3) same_place_trans [OF b(1) rest(2)]]
      undisturbed_trans [OF g(6) undisturbed_trans [OF b(4) rest(6)]]
    unfolding wrote_def by auto
qed

definition stopped :: "fat_file \<Rightarrow> fat_drive \<Rightarrow> nat list \<Rightarrow> bool" where
  "stopped f d cs \<longleftrightarrow> disk_full d \<and> (cs = [] \<or> \<not> loadedSector f)"

lemma write_loop_bytes:
  assumes "writing f d cs" "mirrored d" "seekpos f + length data < 2 ^ 32" "filelength f < 2 ^ 32"
  shows "\<exists>ok n f' d' cs'. write_loop data k f d = Some (ok, k + n, f', d') \<and> n \<le> length data \<and>
    wrote f d cs (take n data) f' d' cs' \<and> (if ok then n = length data else stopped f' d' cs')"
  using assms
proof (induction data arbitrary: k f d cs)
  case Nil
  then show ?case
    using wrote_nil by (intro exI [of _ True] exI [of _ 0] exI [of _ f] exI [of _ d] exI [of _ cs]) simp
next
  case (Cons b data)
  have sp: "seekpos f \<le> filelength f" and ok: "fat_ok d"
    using Cons.prems(1) by (simp_all add: writing_def)
  have after: ?case
    if g: "(if seekpos f \<ge> filelength f then write_grow f d else Some (True, f, d)) = Some (True, g, e)"
      "writing g e cs1" "cs1 = cs @ ys" "cs1 \<noteq> []" "same_place f g" "seekpos g = seekpos f"
      "filelength g = max (filelength f) (seekpos f + 1)" "undisturbed d cs e cs1"
      "\<forall>q < filelength f. view g e cs1 q = view f d cs q"
    for g e cs1 ys
  proof -
    have p: "seekpos g < filelength g" "seekpos g + 1 < 2 ^ 32" "filelength g \<le> capacity e cs1"
      using g(2,4,6,7) Cons.prems(3) by (simp_all add: writing_def)
    from put_byte_step [OF g(2,4) p(1,2), of b] obtain f1 d1 where s: "put_byte b g e = Some (f1, d1)"
      "writing f1 d1 cs1" "same_place g f1" "seekpos f1 = seekpos g + 1" "filelength f1 = filelength g"
      "undisturbed e cs1 d1 cs1"
      "\<And>q. q < capacity e cs1 \<Longrightarrow> view f1 d1 cs1 q = (if q = seekpos g then b else view g e cs1 q)"
      by metis
    have "mirrored d1"
      using Cons.prems(2) g(8) s(6) by (simp add: undisturbed_def)
    moreover have "seekpos f1 + length data < 2 ^ 32" "filelength f1 < 2 ^ 32"
      using Cons.prems(3,4) s(4,5) g(6,7) by simp_all
    ultimately obtain ok n f' d' cs' where r: "write_loop data (k + 1) f1 d1 = Some (ok, k + 1 + n, f', d')"
      "n \<le> length data" "wrote f1 d1 cs1 (take n data) f' d' cs'"
      "if ok then n = length data else stopped f' d' cs'"
      using Cons.IH [OF s(2), of "k + 1"] by blast
    have "wrote f d cs (take (Suc n) (b # data)) f' d' cs'"
      using wrote_Cons [OF g(2,3,5,6,7,8,9) p(3) sp s(3-7) r(3)] by simp
    then show ?case
      using g(1) s(1) r(1,2,4)
      by (intro exI [of _ ok] exI [of _ "Suc n"] exI [of _ f'] exI [of _ d'] exI [of _ cs']) simp
  qed
  show ?case
  proof (cases "seekpos f < filelength f")
    case True
    then have "cs \<noteq> []"
      using Cons.prems(1) by (auto simp: writing_def)
    then show ?thesis
      using after [of f d cs "[]"] True Cons.prems(1) undisturbed_refl [OF ok] by simp
  next
    case False
    then have eq: "seekpos f = filelength f" "filelength f + 1 < 2 ^ 32"
      using sp Cons.prems(3) by simp_all
    from Cons.prems(1) eq Cons.prems(2) show ?thesis
    proof (cases rule: write_grow_step)
      case (full f' d')
      have "wrote f d cs [] f' d' cs"
        using full(3-8) eq undisturbed_cached [OF full(3)] same_file_place [OF full(5)]
        by (simp add: wrote_def same_file_def)
      moreover have "stopped f' d' cs"
        using full(2,7) cached_facts(3,6) [OF full(3)] by (simp add: stopped_def disk_full_def)
      ultimately show ?thesis
        using full(1) eq(1)
        by (intro exI [of _ False] exI [of _ 0] exI [of _ f'] exI [of _ d'] exI [of _ cs]) simp
    next
      case (new f' d' cs')
      then obtain ys where "cs' = cs @ ys"
        by (auto simp: grown_def)
      then show ?thesis
        using after [of f' d' cs' ys] new eq by (simp add: grown_def)
    qed
  qed
qed

end
