(* ===== verification/Fat_File_Correct.thy ===== *)
theory Fat_File_Correct
  imports Fat_Write
begin

text \<open>The correctness of open files: what \<open>Read\<close> and \<open>Write\<close> promise, and where they fail.\<close>

section \<open>Open handles\<close>

definition open_ok :: "fat_file \<Rightarrow> fat_drive \<Rightarrow> nat list \<Rightarrow> bool" where
  "open_ok f d cs \<longleftrightarrow> fat_ok d \<and>
     (if cs = [] then firstCluster f = 0 \<and> filelength f = 0 \<and> seekpos f = 0 \<and> curSectOff f = 0 \<and>
        length (sectorBuffer f) = 512
      else handle_ok f d cs \<and> 0 < filelength f)"

lemma open_writing: "open_ok f d cs \<Longrightarrow> seekpos f \<le> filelength f \<Longrightarrow> writing f d cs"
  by (simp add: open_ok_def writing_def handle_ok_def on_chain_def placed_def split: if_splits)

lemma open_view: "open_ok f d cs \<Longrightarrow> cs \<noteq> [] \<Longrightarrow> view f d cs = file_byte d cs"
  using view_fresh [of f d cs] by (intro ext) (simp add: open_ok_def handle_ok_def)

lemma open_length: "open_ok f d cs \<Longrightarrow> filelength f < 2 ^ 32"
  by (simp add: open_ok_def handle_ok_def on_chain_def split: if_splits)

lemma open_cached: "cached d d' \<Longrightarrow> open_ok f d cs \<Longrightarrow> open_ok f d' cs"
  using handle_cached [of d d' f cs] cached_facts(2) [of d d'] by (simp add: open_ok_def)

section \<open>The end of Write\<close>

text \<open>The buffer reaches the disk.\<close>

lemma flush_write:
  assumes w: "writing f d cs" "filelength f < 2 ^ 32" and cs: "cs \<noteq> []"
  defines "d' \<equiv> flush_write f d"
  shows "handle_ok f d' cs" "undisturbed d cs d' cs"
    and "\<And>q. q < capacity d cs \<Longrightarrow> file_byte d' cs q = view f d cs q"
proof -
  have ok: "fat_ok d" "chain d cs" and pl: "placed f d cs" and oc: "on_chain f d cs"
    using w cs by (simp_all add: writing_def on_chain_def)
  have "handle_ok f d' cs \<and> undisturbed d cs d' cs \<and>
      (\<forall>q < capacity d cs. file_byte d' cs q = view f d cs q)"
  proof (cases "curSectOff f > 0 \<and> loadedSector f")
    case False
    have "curSectOff f = 0 \<Longrightarrow> fresh f d"
      using w cs by (simp add: writing_def)
    then have "fresh f d"
      using False by (cases "loadedSector f") (simp_all add: fresh_def)
    moreover have "d' = d"
      unfolding d'_def flush_write_def using False by (rule if_not_P)
    ultimately show ?thesis
      using oc pl undisturbed_refl [OF ok(1)] view_fresh [OF pl] by (simp add: handle_ok_def)
  next
    case True
    let ?s = "chain_sectors d cs ! (seekpos f div 512)"
    have cap: "seekpos f < capacity d cs" "currentSector f = ?s" and len: "length (sectorBuffer f) = 512"
      using True pl by (simp_all add: placed_def)
    have s: "?s \<in> set (chain_sectors d cs)"
      using in_file_sectors [OF cap(1)] .
    have d': "d' = writeSector ?s (sectorBuffer f) d"
      using True cap by (simp add: d'_def flush_write_def)
    note wr = write_file_sector [OF ok s len, folded d']
    have lay: "capacity d' = capacity d" "chain_sectors d' = chain_sectors d" "fat_ok d'"
      using capacity_layout chain_sectors_layout wr(1) by (auto simp: undisturbed_def)
    have "handle_ok f d' cs"
      using oc pl wr(2) wr(3) [OF s] lay cap by (simp add: handle_ok_def on_chain_def placed_def fresh_def)
    moreover have "file_byte d' cs q = view f d cs q" if q: "q < capacity d cs" for q
      using wr(3) [OF in_file_sectors [OF q]] same_file_sector [OF ok(2) q cap(1)] lay(2) True
      by (simp add: file_byte_def view_def)
    ultimately show ?thesis
      using wr(1) by blast
  qed
  then show "handle_ok f d' cs" "undisturbed d cs d' cs"
    "\<And>q. q < capacity d cs \<Longrightarrow> file_byte d' cs q = view f d cs q"
    by blast+
qed

lemma write_body_bytes:
  assumes h: "open_ok f d cs" "mirrored d" and p: "seekpos f \<le> filelength f" "seekpos f + length data < 2 ^ 32"
    and data: "data \<noteq> []"
  shows "\<exists>n f' d' cs'. write_body data f d = Some (n, f', d') \<and> n \<le> length data \<and>
    (n < length data \<longrightarrow> disk_full d') \<and> open_ok f' d' cs' \<and> same_place f f' \<and>
    seekpos f' = seekpos f + n \<and> filelength f' = max (filelength f) (seekpos f + n) \<and>
    undisturbed d cs d' cs' \<and>
    (\<forall>q < filelength f'. file_byte d' cs' q = spliced (file_byte d cs) (seekpos f) (take n data) q)"
proof -
  obtain ok n f' d1 cs' where r: "write_loop data 0 f d = Some (ok, n, f', d1)" "n \<le> length data"
    "wrote f d cs (take n data) f' d1 cs'" "if ok then n = length data else stopped f' d1 cs'"
    using write_loop_bytes [OF open_writing [OF h(1) p(1)] h(2) p(2) open_length [OF h(1)], of 0] by auto
  have run: "write_body data f d = Some (n, f', if ok then flush_write f' d1 else d1)"
    using r(1) p(1) data by (simp add: write_body_def Let_def)
  have w: "writing f' d1 cs'" "same_place f f'" "seekpos f' = seekpos f + n"
    "filelength f' = max (filelength f) (seekpos f + n)" "undisturbed d cs d1 cs'"
    using r(2,3) by (simp_all add: wrote_def)
  have bytes: "view f' d1 cs' q = spliced (file_byte d cs) (seekpos f) (take n data) q" if q: "q < filelength f'" for q
  proof (cases "cs = []")
    case True
    then have "seekpos f = 0" "q < n"
      using h(1) q w(4) by (simp_all add: open_ok_def)
    then show ?thesis
      using r(2,3) q by (simp add: wrote_def spliced_def)
  next
    case False
    then show ?thesis
      using r(3) q open_view [OF h(1)] by (simp add: wrote_def)
  qed
  have len: "filelength f' < 2 ^ 32"
    using w(4) p(2) r(2) open_length [OF h(1)] by simp
  show ?thesis
  proof (cases "cs' = []")
    case True
    then have f0: "open_ok f' d1 cs'" "filelength f' = 0" "seekpos f' = 0"
      using w(1) by (simp_all add: writing_def open_ok_def)
    moreover have "n = 0" "\<not> ok"
      using f0 w(3) r(4) data by (auto split: if_splits)
    ultimately show ?thesis
      using run r(4) w(2-5) True
      by (intro exI [of _ n] exI [of _ f'] exI [of _ d1] exI [of _ cs']) (simp add: stopped_def)
  next
    case cs: False
    let ?d = "if ok then flush_write f' d1 else d1"
    have cap: "filelength f' \<le> capacity d1 cs'" "0 < filelength f'"
      using w(1) cs by (simp_all add: writing_def)
    have "handle_ok f' ?d cs' \<and> undisturbed d1 cs' ?d cs' \<and>
        (\<forall>q < capacity d1 cs'. file_byte ?d cs' q = view f' d1 cs' q) \<and> (n < length data \<longrightarrow> disk_full ?d)"
    proof (cases ok)
      case True
      then show ?thesis
        using flush_write [OF w(1) len cs] r(4) by simp
    next
      case False
      then have "\<not> loadedSector f'" "disk_full d1"
        using r(4) cs by (simp_all add: stopped_def)
      then show ?thesis
        using False w(1) cs len view_not_loaded undisturbed_refl [of d1 cs']
        by (simp add: handle_ok_def writing_def on_chain_def fresh_def)
    qed
    then have e: "handle_ok f' ?d cs'" "undisturbed d1 cs' ?d cs'" "n < length data \<longrightarrow> disk_full ?d"
      "\<And>q. q < capacity d1 cs' \<Longrightarrow> file_byte ?d cs' q = view f' d1 cs' q"
      by blast+
    have "open_ok f' ?d cs'"
      using e(1) cs cap(2) by (simp add: open_ok_def handle_ok_def on_chain_def)
    moreover have "file_byte ?d cs' q = spliced (file_byte d cs) (seekpos f) (take n data) q" if "q < filelength f'" for q
      using e(4) [of q] bytes [OF that] that cap(1) by simp
    ultimately show ?thesis
      using run r(2) e(3) w(2-4) undisturbed_trans [OF w(5) e(2)]
      by (intro exI [of _ n] exI [of _ f'] exI [of _ ?d] exI [of _ cs']) blast
  qed
qed

section \<open>The entry in the directory\<close>

text \<open>A directory on other clusters keeps its slots.\<close>

lemma undisturbed_slots:
  assumes u: "undisturbed d cs d' cs'" and ok: "fat_ok d" "dir_ok d dc dcs" "set dcs \<inter> set cs = {}"
  shows "dir_ok d' dc dcs" "set dcs \<inter> set cs' = {}" "slot_count d' = slot_count d"
    "q < slot_count d dcs \<Longrightarrow> slot d' dcs q = slot d dcs q"
proof -
  have same: "same_layout d d'"
    using u by (simp add: undisturbed_def)
  note lay = slots_layout [OF same]
  show "slot_count d' = slot_count d"
    using lay by simp
  show "dir_ok d' dc dcs" "set dcs \<inter> set cs' = {}"
    using u ok(2,3) by (cases "dc = 0"; simp add: dir_ok_def undisturbed_def)+
  show "slot d' dcs q = slot d dcs q" if q: "q < slot_count d dcs"
  proof (cases "dcs = []")
    case True
    have n: "slot_sector d dcs q < firstDataSector d"
      using root_sector [of d q] ok(1) q True by (simp add: slot_sector_def slot_count_def fat_ok_def)
    have "outside_fats d (slot_sector d dcs q)"
      using slot_sector_exists(2) [OF ok(1) dir_chain_data [OF ok(2)] q] .
    then have "sector d' (slot_sector d dcs q) = sector d (slot_sector d dcs q)"
      using u n unfolding undisturbed_def by blast
    then show ?thesis
      using lay by (simp add: slot_def)
  next
    case False
    then have "chain d dcs"
      using ok(2) by (auto simp: dir_ok_def split: if_splits)
    then have data: "chain_data d' dcs = chain_data d dcs"
      using u ok(3) by (simp add: undisturbed_def)
    have n: "q div 16 < length (chain_sectors d dcs)"
      using q False by (simp add: slot_count_def length_chain_sectors less_mult_imp_div_less mult.commute)
    then have "sector d' (chain_sectors d dcs ! (q div 16)) = sector d (chain_sectors d dcs ! (q div 16))"
      using arg_cong [OF data, of "\<lambda>l. l ! (q div 16)"] chain_sectors_layout [OF same]
      by (simp add: chain_data_def)
    then show ?thesis
      using lay False by (simp add: slot_def slot_sector_def)
  qed
qed

lemma direntry_of_bytes: "length x = 32 \<Longrightarrow> direntry_ok (bytes_direntry x)"
  by (simp add: direntry_ok_def bytes_direntry_def)

lemma first_byte_entry: "entryname (bytes_direntry x) ! 0 = x ! 0"
  by (simp add: bytes_direntry_def)

lemma slot_length:
  assumes "fat_ok d" "dir_ok d dc cs" "q < slot_count d cs"
  shows "length (slot d cs q) = 32"
  using slot_sector_exists(1) [OF assms(1) dir_chain_data [OF assms(2)] assms(3)] read_sector assms(1)
  by (simp add: slot_def fat_ok_def sect_entry_def)

definition entry_written :: "u16 \<Rightarrow> u16 \<Rightarrow> fat_file \<Rightarrow> direntry \<Rightarrow> direntry" where
  "entry_written modtime moddate f e = e\<lparr>modTime := modtime, modDate := moddate, entrysize := of_nat (filelength f),
     loFirstClust := of_nat (firstCluster f)\<rparr>"

lemma finalizeWrite_entry:
  fixes mt md :: u16
  assumes ok: "fat_ok d" "dir_ok d (dirCluster f) dcs" and i: "dirIndex f < 65536"
    and l: "listed d dcs 0 (Suc (dirIndex f))"
  defines "e \<equiv> entry_written mt md f (bytes_direntry (slot d dcs (dirIndex f)))"
  obtains d1 where "cached d d1" "finalizeWrite tmpentry mt md f d = put_slot dcs (dirIndex f) (direntry_bytes e) d1"
    "direntry_ok e" "entryname e ! 0 \<noteq> 0" "dirIndex f < slot_count d1 dcs" "dir_ok d1 (dirCluster f) dcs"
    "listed d1 dcs 0 (dirIndex f)"
proof -
  let ?i = "dirIndex f" and ?x = "slot d dcs (dirIndex f)"
  have slot: "?i < slot_count d dcs" "?x ! 0 \<noteq> 0" "listed d dcs 0 ?i"
    using l by (simp_all add: listed_def)
  obtain d1 where b: "directoryBrowse (dirCluster f) tmpentry (int ?i) 0 d = (True, bytes_direntry ?x, d1)" "cached d d1"
    using directoryBrowse [OF ok i, of tmpentry] l by auto
  note f1 = cached_facts [OF b(2)]
  have ok1: "dir_ok d1 (dirCluster f) dcs" "listed d1 dcs 0 (Suc ?i)"
    using dir_ok_cached [OF b(2)] listed_cached [OF b(2)] ok(2) l by simp_all
  obtain d2 where c: "cached d1 d2" "directoryChange (dirCluster f) e (int ?i) d1 =
      (True, put_slot dcs ?i (direntry_bytes e) d2)"
    using directoryChange [OF f1(2) ok1(1) i, of e] ok1(2) by auto
  note f2 = cached_facts [OF cached_trans [OF b(2) c(1)]]
  have "finalizeWrite tmpentry mt md f d = put_slot dcs ?i (direntry_bytes e) d2"
    using b(1) c(2) by (simp add: finalizeWrite_def entry_written_def e_def)
  moreover have "direntry_ok e" "entryname e ! 0 \<noteq> 0"
    using direntry_of_bytes [OF slot_length [OF ok slot(1)]] first_byte_entry [of ?x] slot(2)
    by (simp_all add: e_def entry_written_def direntry_ok_def)
  moreover have "?i < slot_count d2 dcs" "dir_ok d2 (dirCluster f) dcs" "listed d2 dcs 0 ?i"
    using slots_layout [OF f2(1)] slot dir_ok_cached [OF cached_trans [OF b(2) c(1)]] ok(2)
      listed_cached [OF cached_trans [OF b(2) c(1)]] by simp_all
  ultimately show thesis
    using that cached_trans [OF b(2) c(1)] by blast
qed

lemma slot_sector_apart:
  assumes ok: "fat_ok d" "dir_ok d dc dcs" "p < slot_count d dcs" and xs: "chain d xs" "set dcs \<inter> set xs = {}"
  shows "slot_sector d dcs p \<notin> set (chain_sectors d xs)"
proof (cases "dcs = []")
  case True
  then have "slot_sector d dcs p < firstDataSector d"
    using root_sector [of d p] ok(1,3) by (simp add: slot_sector_def slot_count_def fat_ok_def)
  then show ?thesis
    using data_sector_above [of "slot_sector d dcs p" d xs] by auto
next
  case False
  have "slot_sector d dcs p \<in> set (chain_sectors d dcs)"
    using ok(3) False by (simp add: slot_sector_def slot_count_def length_chain_sectors)
  moreover have "set xs \<subseteq> data_clusters d"
    using xs(1) by (simp add: chain_def)
  ultimately show ?thesis
    using chains_apart [OF dir_chain_data [OF ok(2)] _ xs(2)] by blast
qed

text \<open>Writing an entry leaves the files on other clusters alone.\<close>

lemma put_slot_files:
  assumes ok: "fat_ok d" "dir_ok d dc dcs" "p < slot_count d dcs" "length x = 32"
  defines "d' \<equiv> put_slot dcs p x d"
  shows "fat_ok d'" "mirrored d \<Longrightarrow> mirrored d'" "disk_full d \<Longrightarrow> disk_full d'" "same_layout d d'"
    and "chain d xs \<Longrightarrow> chain d' xs"
    and "\<lbrakk>chain d xs; set dcs \<inter> set xs = {}; n \<in> set (chain_sectors d xs)\<rbrakk> \<Longrightarrow> sector d' n = sector d n"
proof -
  note put = put_slot [OF ok(1) dir_chain_distinct [OF ok(2)] dir_chain_data [OF ok(2)] ok(3,4), folded d'_def]
  note lay = keeps_layout [OF put(1)]
  show "fat_ok d'" "mirrored d \<Longrightarrow> mirrored d'" "same_layout d d'"
    using put(1) by (simp_all add: keeps_def)
  have "table d' c = table d c" if "c \<in> data_clusters d" for c
    using put(2) data_in_clusters [OF that] lay(3) by (simp add: table_is_def)
  then show "disk_full d \<Longrightarrow> disk_full d'"
    using lay(4) by (simp add: disk_full_def)
  show "chain d' xs" if "chain d xs"
    using table_is_chain [OF put(1,2) that] .
  show "sector d' n = sector d n"
    if xs: "chain d xs" "set dcs \<inter> set xs = {}" "n \<in> set (chain_sectors d xs)"
  proof -
    have "set xs \<subseteq> data_clusters d"
      using xs(1) by (simp add: chain_def)
    then have "n < sector_count d" "outside_fats d n"
      using chain_sector_exists [OF ok(1) _ xs(3)] by simp_all
    then show ?thesis
      using put(1) slot_sector_apart [OF ok(1-3) xs(1,2)] xs(3) unfolding keeps_def by blast
  qed
qed

lemma put_slot_open:
  assumes ok: "fat_ok d" "dir_ok d dc dcs" "p < slot_count d dcs" "length x = 32"
    and f: "open_ok f d cs" "set dcs \<inter> set cs = {}"
  defines "d' \<equiv> put_slot dcs p x d"
  shows "open_ok f d' cs" "q < filelength f \<Longrightarrow> file_byte d' cs q = file_byte d cs q"
proof -
  note put = put_slot_files [OF ok, folded d'_def]
  have lay: "capacity d' = capacity d" "chain_sectors d' = chain_sectors d"
    using capacity_layout [OF put(4)] chain_sectors_layout [OF put(4)] by simp_all
  have sec: "sector d' (chain_sectors d cs ! (q div 512)) = sector d (chain_sectors d cs ! (q div 512))"
    if "cs \<noteq> []" "q < capacity d cs" for q
    using put(6) [OF _ f(2) in_file_sectors [OF that(2)]] f(1) that(1)
    by (simp add: open_ok_def handle_ok_def on_chain_def)
  show "file_byte d' cs q = file_byte d cs q" if "q < filelength f"
  proof (cases "cs = []")
    case True
    then show ?thesis
      using f(1) that by (simp add: open_ok_def)
  next
    case False
    then have "q < capacity d cs"
      using f(1) that by (simp add: open_ok_def handle_ok_def on_chain_def)
    then show ?thesis
      using sec [OF False] lay(2) by (simp add: file_byte_def)
  qed
  show "open_ok f d' cs"
  proof (cases "cs = []")
    case True
    then show ?thesis
      using f(1) put(1) by (simp add: open_ok_def)
  next
    case False
    then have h: "handle_ok f d cs" "0 < filelength f"
      using f(1) by (simp_all add: open_ok_def)
    have "fresh f d'"
      using h(1) sec [OF False, of "seekpos f"] by (auto simp: handle_ok_def placed_def fresh_def)
    then show ?thesis
      using h put(1) put(5) [of cs] lay False by (simp add: open_ok_def handle_ok_def on_chain_def placed_def)
  qed
qed

section \<open>Write\<close>

definition writable :: "fat_file \<Rightarrow> bool" where
  "writable f \<longleftrightarrow> flags f AND 0xf \<noteq> OPEN_READ \<and> flags f AND 0xf \<noteq> OPEN_READ_NO_MOD"

text \<open>The entry of the handle is in a directory on other clusters.\<close>

definition entry_listed :: "fat_file \<Rightarrow> fat_drive \<Rightarrow> nat list \<Rightarrow> bool" where
  "entry_listed f d dcs \<longleftrightarrow> dir_ok d (dirCluster f) dcs \<and> dirIndex f < 65536 \<and> listed d dcs 0 (Suc (dirIndex f))"

definition entry_of :: "fat_file \<Rightarrow> fat_drive \<Rightarrow> direntry" where
  "entry_of f d = fst (snd (directoryBrowse (dirCluster f)
     (bytes_direntry (replicate 32 0)) (int (dirIndex f)) 0 d))"

lemma Write_file:
  assumes h: "open_ok f d cs" "mirrored d" "writable f"
    and p: "seekpos f \<le> filelength f" "seekpos f + length data < 2 ^ 32" "data \<noteq> []"
    and dir: "entry_listed f d dcs" "set dcs \<inter> set cs = {}"
  obtains n f' d' cs' where "Write tmpentry mt md data f d = Some (Inr (n, f', d'))" "n \<le> length data"
    "n < length data \<longrightarrow> disk_full d'" "open_ok f' d' cs'" "mirrored d'" "flags f' = flags f"
    "seekpos f' = seekpos f + n" "filelength f' = max (filelength f) (seekpos f + n)"
    "\<And>q. q < filelength f' \<Longrightarrow> file_byte d' cs' q = spliced (file_byte d cs) (seekpos f) (take n data) q"
    "entry_listed f' d' dcs" "set dcs \<inter> set cs' = {}"
    "entry_of f' d' = entry_written mt md f' (entry_of f d)"
    "\<And>xs. chain d xs \<Longrightarrow> set xs \<inter> (set cs \<union> set dcs) = {} \<Longrightarrow> chain d' xs \<and> chain_data d' xs = chain_data d xs"
proof -
  let ?f = "f\<lparr>set_archive_on_close := True\<rparr>" and ?i = "dirIndex f" and ?dc = "dirCluster f"
  have h1: "open_ok ?f d cs"
    using h(1) by (cases "cs = []") (simp_all add: open_ok_def handle_ok_def on_chain_def placed_def fresh_def)
  have p1: "seekpos ?f \<le> filelength ?f" "seekpos ?f + length data < 2 ^ 32"
    using p by simp_all
  obtain n f' d1 cs' where r: "write_body data ?f d = Some (n, f', d1)" "n \<le> length data"
    "n < length data \<longrightarrow> disk_full d1" "open_ok f' d1 cs'" "same_place ?f f'" "seekpos f' = seekpos f + n"
    "filelength f' = max (filelength f) (seekpos f + n)" "undisturbed d cs d1 cs'"
    "\<And>q. q < filelength f' \<Longrightarrow> file_byte d1 cs' q = spliced (file_byte d cs) (seekpos f) (take n data) q"
    using write_body_bytes [OF h1 h(2) p1 p(3)] by auto
  have ok: "fat_ok d" "fat_ok d1" "mirrored d1"
    using h(1,2) r(4,8) by (simp_all add: open_ok_def undisturbed_def)
  have place: "dirCluster f' = ?dc" "dirIndex f' = ?i" "flags f' = flags f"
    using r(5) by (simp_all add: same_place_def)
  have dd: "dir_ok d ?dc dcs" "?i < 65536" "listed d dcs 0 (Suc ?i)"
    using dir(1) by (simp_all add: entry_listed_def)
  note u = undisturbed_slots [OF r(8) ok(1) dd(1) dir(2)]
  have l1: "listed d1 dcs 0 (Suc ?i)"
    using dd(3) u(3,4) by (simp add: listed_def)
  let ?e = "entry_written mt md f' (bytes_direntry (slot d1 dcs ?i))"
  obtain d2 where d2: "cached d1 d2" "finalizeWrite tmpentry mt md f' d1 = put_slot dcs ?i (direntry_bytes ?e) d2"
    "direntry_ok ?e" "entryname ?e ! 0 \<noteq> 0" "?i < slot_count d2 dcs" "dir_ok d2 ?dc dcs" "listed d2 dcs 0 ?i"
    by (rule finalizeWrite_entry [where f = f' and d = d1 and dcs = dcs and mt = mt and md = md
          and tmpentry = tmpentry, unfolded place, OF ok(2) u(1) dd(2) l1])
  note f2 = cached_facts [OF d2(1)]
  have len: "length (direntry_bytes ?e) = 32"
    using direntry_bytes_length [OF d2(3)] .
  let ?d = "put_slot dcs ?i (direntry_bytes ?e) d2"
  note put = put_slot_files [OF f2(2) d2(6,5) len]
  note opn = put_slot_open [OF f2(2) d2(6,5) len open_cached [OF d2(1) r(4)] u(2)]
  have run: "Write tmpentry mt md data f d = Some (Inr (n, f', ?d))"
    using h(3) r(1) d2(2) by (simp add: Write_def writable_def)
  have dirs: "dir_ok ?d ?dc dcs" "slot_count ?d = slot_count d2"
    using put_slot_dir [OF f2(2) d2(6,5) len] put_slot_count [OF f2(2) d2(6,5) len] by simp_all
  note ps = put_slot [OF f2(2) dir_chain_distinct [OF d2(6)] dir_chain_data [OF d2(6)] d2(5) len]
  have "listed ?d dcs 0 (Suc ?i)"
    using d2(4,5,7) ps(3,4) first_entry_byte [OF d2(3)] dirs(2) by (auto simp: listed_def less_Suc_eq)
  then have el: "entry_listed f' ?d dcs"
    using dirs(1) dd(2) place by (simp add: entry_listed_def)
  have eo: "entry_of f' ?d = ?e"
    using browse_put_slot [OF f2(2) d2(6,5) dd(2) d2(3,4,7)] place unfolding entry_of_def by (metis fst_conv snd_conv)
  have eo1: "entry_of f d = bytes_direntry (slot d1 dcs ?i)"
    using directoryBrowse [OF ok(1) dd(1,2), of "bytes_direntry (replicate 32 0)"] dd(3) u(4) [of ?i]
    by (auto simp: entry_of_def listed_def)
  have others: "chain ?d xs \<and> chain_data ?d xs = chain_data d xs"
    if "chain d xs" "set xs \<inter> (set cs \<union> set dcs) = {}" for xs
  proof -
    have x1: "chain d1 xs" "chain_data d1 xs = chain_data d xs"
      using r(8) that unfolding undisturbed_def by blast+
    then have x2: "chain d2 xs" "chain_data d2 xs = chain_data d xs" "set dcs \<inter> set xs = {}"
      using f2(8) cached_chain_data [OF d2(1)] that(2) by auto
    have "chain_data ?d xs = chain_data d2 xs"
      using put(6) [OF x2(1,3)] chain_sectors_layout [OF put(4)] by (simp add: chain_data_def)
    then show ?thesis
      using put(5) [OF x2(1)] x2(2) by simp
  qed
  show thesis
  proof (rule that [OF run r(2) _ opn(1) _ place(3) r(6,7) _ el u(2)])
    show "n < length data \<longrightarrow> disk_full ?d" "mirrored ?d"
      using r(3) f2(3,6,11) put(2,3) ok(3) by (simp_all add: disk_full_def)
    show "file_byte ?d cs' q = spliced (file_byte d cs) (seekpos f) (take n data) q" if "q < filelength f'" for q
      using opn(2) [OF that] r(9) [OF that] file_byte_cached [OF d2(1)] by simp
    show "entry_of f' ?d = entry_written mt md f' (entry_of f d)"
      using eo eo1 by simp
  qed (rule others)
qed

section \<open>Reading back\<close>

lemma find_sector_fields:
  "filelength (fst (find_sector f d)) = filelength f" "flags (fst (find_sector f d)) = flags f"
  "seekpos (fst (find_sector f d)) = seekpos f"
  by (simp_all add: find_sector_def split_beta)

lemma Seek_fields:
  "filelength (fst (snd (Seek p ty f d))) = filelength f" "flags (fst (snd (Seek p ty f d))) = flags f"
  "fst (Seek 0 DOS_SEEK_SET f d) = 0"
  by (simp_all add: Seek_def Let_def split_beta find_sector_fields load_sector_def at_offset_def signed32_def)

lemma Read_behind: "seekpos f \<ge> filelength f \<Longrightarrow> flags f AND 0xf \<noteq> OPEN_WRITE \<Longrightarrow> Read n f d = Some (Inr ([], f, d))"
  by (simp add: Read_def)

lemma read_back:
  assumes o: "open_ok f d cs" "flags f AND 0xf \<noteq> OPEN_WRITE" "p < 2 ^ 31" "p + length data \<le> filelength f"
    and b: "\<And>q. q < filelength f \<Longrightarrow> file_byte d cs q = spliced old p data q"
  shows "\<exists>g e h e'. Seek p DOS_SEEK_SET f d = (p, g, e) \<and> Read (length data) g e = Some (Inr (data, h, e'))"
proof (cases "cs = []")
  case True
  then have "filelength f = 0" "data = []" "p = 0"
    using o by (simp_all add: open_ok_def)
  moreover obtain q g e where s: "Seek 0 DOS_SEEK_SET f d = (q, g, e)"
    by (rule prod_cases3)
  moreover have "q = 0" "filelength g = filelength f" "flags g = flags f"
    using Seek_fields(1,2) [of 0 DOS_SEEK_SET f d] Seek_fields(3) [of f d] s by simp_all
  ultimately show ?thesis
    using Read_behind [of g 0 e] o(2) by simp
next
  case False
  then have h: "handle_ok f d cs"
    using o(1) by (simp add: open_ok_def)
  then have oc: "on_chain f d cs" "length (sectorBuffer f) = 512"
    by (simp_all add: handle_ok_def placed_def)
  obtain e where s: "Seek p DOS_SEEK_SET f d = (p, moved d cs (f\<lparr>seekpos := p\<rparr>), e)" "cached d e"
    using Seek_run [OF oc(1) o(3)] .
  let ?g = "moved d cs (f\<lparr>seekpos := p\<rparr>)"
  have g: "handle_ok ?g e cs" "same_file f ?g" "seekpos ?g = p"
    using handle_cached [OF s(2) Seek_handle(1) [OF oc]] Seek_handle(2) [OF oc]
      moved_fields(2) [of d cs "f\<lparr>seekpos := p\<rparr>"] by simp_all
  have fl: "flags ?g = flags f" "filelength ?g = filelength f"
    using g(2) by (simp_all add: same_file_def)
  have "flags ?g AND 0xf \<noteq> OPEN_WRITE"
    using o(2) fl(1) by simp
  from Read_bytes [OF g(1) this, of "length data"] obtain h e' where
    "Read (length data) ?g e = Some (Inr (map (file_byte e cs) [p..<min (p + length data) (filelength f)], h, e'))"
    using g(3) fl(2) by auto
  moreover have "map (file_byte e cs) [p..<min (p + length data) (filelength f)] = data"
  proof (rule nth_equalityI)
    show "length (map (file_byte e cs) [p..<min (p + length data) (filelength f)]) = length data"
      using o(4) by simp
    fix i assume "i < length (map (file_byte e cs) [p..<min (p + length data) (filelength f)])"
    then have i: "i < length data"
      using o(4) by simp
    then show "map (file_byte e cs) [p..<min (p + length data) (filelength f)] ! i = data ! i"
      using b [of "p + i"] o(4) file_byte_cached [OF s(2)] by (simp add: spliced_def)
  qed
  ultimately show ?thesis
    using s(1) by simp
qed

section \<open>Seeking in an empty file\<close>

text \<open>Cluster number 0 stands for no cluster, but its sectors are computed all the same.\<close>

definition stray_sector :: "fat_drive \<Rightarrow> nat \<Rightarrow> nat" where
  "stray_sector d p = firstDataSector d - 2 * sectorspercluster d + p div 512"

lemma stray_position:
  assumes ok: "fat_ok d" "2 * sectorspercluster d \<le> firstDataSector d" "p < getClusterSize d"
  shows "getAbsoluteSectFromBytePos 0 p d = (stray_sector d p, d)" "stray_sector d p < firstDataSector d"
proof -
  let ?s = "sectorspercluster d"
  have lay: "bytespersector d = 512" "0 < ?s" "sectors_ok d"
    using ok(1) by (simp_all add: fat_ok_def layout_ok_def)
  have n: "p div 512 < ?s"
    using ok(3) lay(1) by (simp add: getClusterSize_def less_mult_imp_div_less)
  have big: "firstDataSector d < 2 ^ 32"
    using lay(3) by (simp add: sectors_ok_def geometry_ok_def sector_count_def)
  show lt: "stray_sector d p < firstDataSector d"
    using n ok(2) by (simp add: stray_sector_def)
  obtain m where m: "firstDataSector d = 2 * ?s + m"
    using ok(2) le_Suc_ex by blast
  have "sub32 0 2 = 2 ^ 32 - 2"
    by (simp add: sub32_def wrap32_def)
  then have "sub32 0 2 * ?s + firstDataSector d = m + ?s * 2 ^ 32"
    unfolding m by simp
  moreover have "m < 2 ^ 32"
    using big m by simp
  ultimately have "getClustFirstSect 0 d = m"
    unfolding getClustFirstSect_def wrap32_def by (simp only: mod_mult_self1 mod_less)
  then have "getClustFirstSect 0 d = firstDataSector d - 2 * ?s"
    using m by simp
  then show "getAbsoluteSectFromBytePos 0 p d = (stray_sector d p, d)"
    using n lt big lay(1) by (simp add: getAbsoluteSectFromBytePos_def getAbsoluteSectFromChain_def stray_sector_def)
qed

end
