(* ===== verification/Fat_Handles.thy ===== *)
theory Fat_Handles
  imports Fat_File_Correct
begin

text \<open>
  The promises of open files as properties, the two ways to write outside a file, and an example
  handle on the example drive.
\<close>

section \<open>A byte in the buffer\<close>

text \<open>Writing one byte behind the file when some sector is loaded, whichever it is.\<close>

lemma write_one_loaded:
  fixes b :: u8
  assumes "loadedSector f" "filelength f = seekpos f" "0 < seekpos f" "seekpos f + 1 < 2 ^ 32"
    and "curSectOff f < 511" "fat_ok d"
  defines "g \<equiv> f\<lparr>filelength := seekpos f + 1, sectorBuffer := (sectorBuffer f)[curSectOff f := b],
    curSectOff := Suc (curSectOff f), seekpos := Suc (seekpos f)\<rparr>"
  shows "write_loop [b] 0 f d = Some (True, 1, g, d)"
    and "flush_write g d = writeSector (currentSector f) ((sectorBuffer f)[curSectOff f := b]) d"
  using assms(1-5) bytes_per_sector [OF assms(6)]
  by (simp_all add: write_grow_def put_byte_def flush_write_def g_def Let_def BytePerSector_def)

section \<open>Seeking in an empty file\<close>

lemma seek_empty:
  assumes ok: "fat_ok d" and f: "firstCluster f = 0" and p: "p < getClusterSize d" "p < 2 ^ 31"
    and room: "2 * sectorspercluster d < firstDataSector d"
  shows "Seek p DOS_SEEK_SET f d = (p, f\<lparr>seekpos := p, currentSector := stray_sector d p, curSectOff := p mod 512,
    sectorBuffer := sector d (stray_sector d p), loadedSector := True\<rparr>, d)"
proof -
  note stray = stray_position [OF ok _ p(1)]
  have s: "stray_sector d p < sector_count d" "0 < stray_sector d p"
    using stray(2) room below_data by (simp_all add: stray_sector_def)
  then have "readSector (stray_sector d p) x d = sector d (stray_sector d p)" for x
    using read_sector ok by (simp add: fat_ok_def)
  moreover have "nat (if signed32 p < 0 then 0 else signed32 p) = p"
    using signed32_small [OF p(2)] by simp
  ultimately show ?thesis
    using stray(1) room f s(2) bytes_per_sector [OF ok]
    by (simp add: Seek_def find_sector_def load_sector_def at_offset_def)
qed

lemma write_extend_short:
  assumes f: "filelength f = 0" "0 < seekpos f" "seekpos f < getClusterSize d" "getClusterSize d < 2 ^ 32"
    and c: "first_cluster f d = (True, f\<lparr>firstCluster := c\<rparr>, d')"
  shows "write_extend f d = Some (True, f\<lparr>firstCluster := c, filelength := seekpos f\<rparr>, d')"
proof -
  let ?c = "getClusterSize d"
  have "(?c - 1) div ?c = 0"
    using f by simp
  then have w: "wrap32 (((?c - 1) div ?c + 1) * ?c) = ?c"
    using f by simp
  have "extend_loop ?c (f\<lparr>firstCluster := c, filelength := ?c\<rparr>) d' =
      Some (True, f\<lparr>firstCluster := c, filelength := ?c\<rparr>, d')"
    using f by (subst extend_loop.simps) simp
  then show ?thesis
    using f c w by (simp add: write_extend_def Let_def)
qed

lemma write_after_seek_empty:
  assumes ok: "fat_ok d" "\<not> disk_full d" and f: "firstCluster f = 0" "filelength f = 0"
    and p: "0 < p" "p < getClusterSize d" "p < 2 ^ 31" "p mod 512 < 511" "getClusterSize d < 2 ^ 32"
    and room: "2 * sectorspercluster d < firstDataSector d"
  shows "\<exists>f1 f2 d2. Seek p DOS_SEEK_SET f d = (p, f1, d) \<and> write_body [b] f1 d = Some (1, f2, d2) \<and>
    sector d2 (stray_sector d p) = (sector d (stray_sector d p))[p mod 512 := b]"
proof -
  let ?s = "stray_sector d p"
  define f1 where "f1 = f\<lparr>seekpos := p, currentSector := ?s, curSectOff := p mod 512, sectorBuffer := sector d ?s,
    loadedSector := True\<rparr>"
  have seek: "Seek p DOS_SEEK_SET f d = (p, f1, d)"
    using seek_empty [OF ok(1) f(1) p(2,3) room] by (simp add: f1_def)
  from ok(1) obtain c d1 where c: "first_cluster f1 d = (True, f1\<lparr>firstCluster := c\<rparr>, d1)" "undisturbed d [] d1 [c]"
    by (rule first_cluster_step [where f = f1]) (use ok(2) in auto)
  let ?g = "f1\<lparr>firstCluster := c, filelength := p\<rparr>"
  have ext: "write_extend f1 d = Some (True, ?g, d1)"
    using write_extend_short [OF _ _ _ p(5) c(1)] f(2) p(1,2) by (simp add: f1_def)
  have d1: "fat_ok d1" "sectors_ok d1" "sector_count d1 = sector_count d"
    using c(2) sector_count_layout by (auto simp: undisturbed_def fat_ok_def)
  have g: "loadedSector ?g" "filelength ?g = seekpos ?g" "0 < seekpos ?g" "seekpos ?g + 1 < 2 ^ 32" "curSectOff ?g < 511"
    using p by (simp_all add: f1_def)
  note one = write_one_loaded [OF g d1(1), where b = b]
  let ?h = "?g\<lparr>filelength := seekpos ?g + 1, sectorBuffer := (sectorBuffer ?g)[curSectOff ?g := b],
    curSectOff := Suc (curSectOff ?g), seekpos := Suc (seekpos ?g)\<rparr>"
  let ?d2 = "writeSector ?s ((sector d ?s)[p mod 512 := b]) d1"
  have fl: "flush_write ?h d1 = ?d2"
    using one(2) by (simp add: f1_def)
  have "seekpos f1 > filelength f1"
    using f(2) p(1) by (simp add: f1_def)
  then have body: "write_body [b] f1 d = Some (1, ?h, ?d2)"
    using ext one(1) fl by (simp add: write_body_def Let_def del: write_loop.simps)
  have s: "?s < sector_count d"
    using stray_position(2) [OF ok(1) _ p(2)] room below_data by simp
  have "length ((sector d ?s)[p mod 512 := b]) = 512"
    using read_sector s ok(1) by (simp add: fat_ok_def)
  then have "sector ?d2 ?s = (sector d ?s)[p mod 512 := b]"
    using write_sector(2) [OF d1(2), of ?s _ ?s] s d1(3) by simp
  then show ?thesis
    using seek body by blast
qed

section \<open>Truncating at the end of a cluster\<close>

lemma write_after_truncate:
  assumes h: "handle_ok f d cs" and k: "0 < k" "k < length cs"
    and p: "seekpos f = k * getClusterSize d" "seekpos f < filelength f" "filelength f + getClusterSize d < 2 ^ 32"
  shows "\<exists>f1 d1 f2 d2. write_body [] f d = Some (0, f1, d1) \<and> write_body [b] f1 d1 = Some (1, f2, d2) \<and>
    chain d2 (take k cs) \<and> firstCluster f2 = hd (take k cs) \<and> filelength f2 = capacity d2 (take k cs) + 1 \<and>
    table d2 (cs ! k) = 0 \<and> sector d2 (cluster_sector d (cs ! k) 0) ! 0 = b"
proof -
  let ?s = "cluster_sector d (cs ! k) 0"
  have ok: "fat_ok d" "chain d cs" "firstCluster f = hd cs" "filelength f \<le> capacity d cs"
    using h by (simp_all add: handle_ok_def on_chain_def)
  have spc: "0 < sectorspercluster d" "getClusterSize d = 512 * sectorspercluster d"
    using ok(1) by (simp_all add: fat_ok_def layout_ok_def getClusterSize_def)
  have "cs \<noteq> []" "set cs \<subseteq> data_clusters d"
    using ok(2) chain_nonempty [OF ok(2)] by (simp_all add: chain_def)
  then have "cs ! k \<in> data_clusters d" "hd cs \<in> data_clusters d"
    using k(2) hd_in_set nth_mem by blast+
  then have cl: "cs ! k \<in> data_clusters d" "hd cs \<noteq> 0"
    by (auto simp: data_clusters_def)
  have cap: "seekpos f < capacity d cs"
    using p(2) ok(4) by simp
  have div: "seekpos f div 512 = k * sectorspercluster d" "seekpos f mod 512 = 0"
    using p(1) spc(2) by (simp_all add: mult.left_commute)
  have at: "loadedSector f" "currentSector f = ?s" "curSectOff f = 0" "length (sectorBuffer f) = 512"
    using h cap div nth_chain_sectors [of "k * sectorspercluster d" cs d] k(2) spc(1)
    by (simp_all add: handle_ok_def placed_def)
  have e: "clusters_for d (seekpos f) = k"
  proof -
    let ?c = "getClusterSize d"
    have c: "0 < ?c" "k * ?c + ?c - 1 = (?c - 1) + k * ?c"
      using spc by simp_all
    then show ?thesis
      unfolding clusters_for_def p(1) by (simp only: div_mult_self1 less_numeral_extra) simp
  qed
  have "seekpos f + getClusterSize d < 2 ^ 32"
    using p(2,3) by simp
  from deleteClustChain [OF ok(1,2) this, unfolded e] obtain d1 where d1:
    "deleteClustChain (hd cs) (seekpos f) d = Some d1" "keeps {} d d1"
    "\<forall>c \<in> clusters d. table d1 c = (if c \<in> set (drop k cs) then 0
        else if 0 < k \<and> k < length cs \<and> c = cs ! (k - 1) then eof_mark (fattype d) else table d c)"
    "chain d1 (take k cs)"
    using k(1) by metis
  note lay = keeps_layout [OF d1(2)]
  let ?g = "f\<lparr>filelength := seekpos f\<rparr>"
  have p0: "0 < seekpos f"
    using p(1) k(1) spc by simp
  have body1: "write_body [] f d = Some (0, ?g, d1)"
    using p(2) p0 d1(1) ok(3) cl(2) by (simp add: write_body_def)
  have g: "loadedSector ?g" "filelength ?g = seekpos ?g" "0 < seekpos ?g" "seekpos ?g + 1 < 2 ^ 32" "curSectOff ?g < 511"
    using p(2,3) p0 at by simp_all
  note one = write_one_loaded [OF g lay(2), where b = b]
  let ?h = "?g\<lparr>filelength := seekpos ?g + 1, sectorBuffer := (sectorBuffer ?g)[curSectOff ?g := b],
    curSectOff := Suc (curSectOff ?g), seekpos := Suc (seekpos ?g)\<rparr>"
  let ?d2 = "writeSector ?s ((sectorBuffer f)[0 := b]) d1"
  have fl: "flush_write ?h d1 = ?d2"
    using one(2) at by simp
  have body2: "write_body [b] ?g d1 = Some (1, ?h, ?d2)"
    using one(1) fl by (simp add: write_body_def Let_def del: write_loop.simps)
  have lo: "layout_ok d"
    using ok(1) by (simp add: fat_ok_def)
  have s: "?s < sector_count d1" "outside_fats d1 ?s"
    using cluster_sector_exists(1) [OF lo cl(1) spc(1)] data_sector_outside [OF lo cl(1) spc(1)] lay by simp_all
  have lb: "length ((sectorBuffer f)[0 := b]) = 512"
    using at by simp
  note w = write_data_sector [OF lay(2) s lb]
  have "cs ! k \<in> set (drop k cs)"
    using k(2) by (metis Cons_nth_drop_Suc list.set_intros(1))
  then have "table d1 (cs ! k) = 0"
    using d1(3) data_in_clusters [OF cl(1)] by simp
  then have t: "table ?d2 (cs ! k) = 0"
    using w(3) data_in_clusters [OF cl(1)] lay(3) by simp
  have ch: "chain ?d2 (take k cs)"
  proof (rule keeps_chain [OF d1(4) w(1)])
    show "table ?d2 c = table d1 c" if "c \<in> set (take k cs)" for c
      using that d1(4) data_in_clusters w(3) unfolding chain_def by blast
  qed
  have "sectorspercluster ?d2 = sectorspercluster d"
    using same_layout_fields(2) [OF keeps_layout(1) [OF w(1)]] same_layout_fields(2) [OF lay(1)] by simp
  then have "capacity ?d2 (take k cs) = seekpos f"
    using p(1) spc k(2) by (simp add: capacity_def)
  moreover have "firstCluster ?h = hd (take k cs)"
    using ok(3) k(1) by simp
  moreover have "sector ?d2 ?s ! 0 = b"
    using w(2) at by simp
  ultimately show ?thesis
    using body1 body2 ch t by (intro exI [of _ ?g] exI [of _ d1] exI [of _ ?h] exI [of _ ?d2]) simp
qed

section \<open>Example handles\<close>

text \<open>The file of the example drive, open for reading and writing at its second cluster, and an empty file.\<close>

definition small_file :: fat_file where
  "small_file = \<lparr>flags = 2, firstCluster = 2, seekpos = 512, filelength = 1200, currentSector = 5,
     curSectOff = 0, sectorBuffer = replicate 512 0, dirCluster = 0, dirIndex = 0,
     set_archive_on_close = False, loadedSector = True, flush_time_on_close = NoUpdate, time = 0, date = 0\<rparr>"

definition empty_file :: fat_file where
  "empty_file = small_file\<lparr>firstCluster := 0, seekpos := 0, filelength := 0, currentSector := 0, loadedSector := False\<rparr>"

definition small_entry :: direntry where
  "small_entry = \<lparr>entryname = 0x42 # replicate 10 0x20, attrib = 0x20, NTRes = 0, milliSecondStamp = 0,
     crtTime = 0, crtDate = 0, accessDate = 0, hiFirstClust = 0, modTime = 0, modDate = 0, loFirstClust = 0,
     entrysize = 0\<rparr>"

lemma small_handle: "handle_ok small_file small_disk [2, 3, 5]" "open_ok small_file small_disk [2, 3, 5]"
proof -
  have sectors: "chain_sectors small_disk [2, 3, 5] = [4, 5, 7]"
    by (simp add: chain_sectors_def cluster_sector_def small_clusters)
  have "sector small_disk 5 = replicate 512 0"
    by (simp add: sector_def image_sector_def small_disk_def)
  then show "handle_ok small_file small_disk [2, 3, 5]"
    using small_disk_ok(1) small_chain(1)
    by (simp add: handle_ok_def on_chain_def placed_def fresh_def capacity_def sectors small_clusters small_file_def)
  then show "open_ok small_file small_disk [2, 3, 5]"
    using small_disk_ok(1) by (simp add: open_ok_def small_file_def)
qed

lemma small_slots:
  "dir_ok small_disk 0 []" "slot_count small_disk [] = 16"
  "slot small_disk [] 0 ! 0 = 0x41" "slot small_disk [] 1 ! 0 = 0"
  by (simp_all add: dir_ok_def slot_count_def slot_def slot_sector_def sect_entry_def sector_def image_sector_def
      small_disk_def small_root_def)

lemma small_listed: "entry_listed small_file small_disk []" "writable small_file"
  using small_slots by (simp_all add: entry_listed_def listed_def small_file_def writable_def OPEN_READ_def OPEN_READ_NO_MOD_def)

lemma small_write:
  "seekpos small_file \<le> filelength small_file" "seekpos small_file + length [1, 2, 3 :: u8] < 2 ^ 32"
  "[1, 2, 3 :: u8] \<noteq> []"
  by (simp_all add: small_file_def)

lemma small_apart: "set [] \<inter> set [2, 3, 5 :: nat] = {}"
  by simp

section \<open>Properties\<close>

text \<open>C5. \<open>Write\<close> of at least one byte to an open file whose handle is in step with its file (\<open>open_ok\<close>) and whose
  position is not behind its end returns and writes all its bytes, or as many as fit on the disk: the file then
  has the old bytes with the new ones spliced in at the position, its chain and the entry in its directory
  agree with its length and first cluster, the handle is again in step, and files on other clusters keep their chains and contents.
  Writes of no byte, which truncate, and writes behind the end, which extend the file first, are outside; there are handles out of step after
  them.\<close>

theorem fat_write_file:
  assumes "open_ok f d cs" "mirrored d" "writable f"
    and "seekpos f \<le> filelength f" "seekpos f + length data < 2 ^ 32" "data \<noteq> []"
    and "entry_listed f d dcs" "set dcs \<inter> set cs = {}"
  shows "\<exists>n f' d' cs'. Write tmpentry mt md data f d = Some (Inr (n, f', d')) \<and> n \<le> length data \<and>
    (n < length data \<longrightarrow> disk_full d') \<and> open_ok f' d' cs' \<and> mirrored d' \<and>
    seekpos f' = seekpos f + n \<and> filelength f' = max (filelength f) (seekpos f + n) \<and>
    (\<forall>q < filelength f'. file_byte d' cs' q = spliced (file_byte d cs) (seekpos f) (take n data) q) \<and>
    entry_listed f' d' dcs \<and> entry_of f' d' = entry_written mt md f' (entry_of f d) \<and>
    (\<forall>xs. chain d xs \<and> set xs \<inter> (set cs \<union> set dcs) = {} \<longrightarrow>
       chain d' xs \<and> chain_data d' xs = chain_data d xs)"
  by (rule Write_file [OF assms, of tmpentry mt md]) blast

theorem fat_write_file_witness:
  "\<exists>n f' d'. Write small_entry 0 0 [1, 2, 3] small_file small_disk = Some (Inr (n, f', d')) \<and>
     n \<le> 3 \<and> filelength f' = 1200 \<and> chain d' [7]"
proof -
  have chain: "chain small_disk [7] \<and> set [7 :: nat] \<inter> (set [2, 3, 5] \<union> set []) = {}"
    using small_chain(2) by simp
  from fat_write_file [OF small_handle(2) small_disk_ok(2) small_listed(2) small_write small_listed(1) small_apart,
      of small_entry 0 0]
  obtain n f' d' where "Write small_entry 0 0 [1, 2, 3] small_file small_disk = Some (Inr (n, f', d'))"
    "n \<le> length [1, 2, 3 :: u8]" "filelength f' = max (filelength small_file) (seekpos small_file + n)"
    "\<forall>xs. chain small_disk xs \<and> set xs \<inter> (set [2, 3, 5] \<union> set []) = {} \<longrightarrow>
       chain d' xs \<and> chain_data d' xs = chain_data small_disk xs"
    by blast
  moreover from this(2,3) have "n \<le> 3" "filelength f' = 1200"
    by (simp_all add: small_file_def)
  ultimately show ?thesis
    using chain by blast
qed

text \<open>C14. What \<open>Write\<close> wrote at a position not behind the end of the file, through a handle in step with its file (\<open>open_ok\<close>),
  is what \<open>Read\<close> returns after \<open>Seek\<close> to the same position, whatever the chain
  had to grow by to hold the bytes written.\<close>

theorem fat_write_read_back:
  assumes "open_ok f d cs" "mirrored d" "writable f" "flags f AND 0xf \<noteq> OPEN_WRITE"
    and "seekpos f \<le> filelength f" "seekpos f < 2 ^ 31" "seekpos f + length data < 2 ^ 32" "data \<noteq> []"
    and "entry_listed f d dcs" "set dcs \<inter> set cs = {}"
  shows "\<exists>n f' d' g e h e'. Write tmpentry mt md data f d = Some (Inr (n, f', d')) \<and>
    (n = length data \<or> disk_full d') \<and> Seek (seekpos f) DOS_SEEK_SET f' d' = (seekpos f, g, e) \<and>
    Read n g e = Some (Inr (take n data, h, e'))"
proof (rule Write_file [OF assms(1-3,5,7-10), of tmpentry mt md])
  fix n f' d' cs'
  assume r: "Write tmpentry mt md data f d = Some (Inr (n, f', d'))" "n \<le> length data"
    "n < length data \<longrightarrow> disk_full d'" "open_ok f' d' cs'" "flags f' = flags f"
    "filelength f' = max (filelength f) (seekpos f + n)"
    and b: "\<And>q. q < filelength f' \<Longrightarrow> file_byte d' cs' q = spliced (file_byte d cs) (seekpos f) (take n data) q"
  have "flags f' AND 0xf \<noteq> OPEN_WRITE" "seekpos f + length (take n data) \<le> filelength f'"
    using r(2,5,6) assms(4) by simp_all
  from read_back [OF r(4) this(1) assms(6) this(2) b] show ?thesis
    using r(1-3) by (auto simp: min_absorb2)
qed

theorem fat_write_read_back_witness:
  "\<exists>n f' d' g e h e'. Write small_entry 0 0 [1, 2, 3] small_file small_disk = Some (Inr (n, f', d')) \<and>
     Seek 512 DOS_SEEK_SET f' d' = (512, g, e) \<and> Read n g e = Some (Inr (take n [1, 2, 3], h, e'))"
proof -
  have p: "flags small_file AND 0xf \<noteq> OPEN_WRITE" "seekpos small_file < 2 ^ 31" "seekpos small_file = 512"
    by (simp_all add: small_file_def OPEN_WRITE_def)
  from fat_write_read_back [OF small_handle(2) small_disk_ok(2) small_listed(2) p(1) small_write(1) p(2)
      small_write(2,3) small_listed(1) small_apart, of small_entry 0 0]
  show ?thesis
    unfolding p(3) by blast
qed

text \<open>C39. Cluster number 0 of an empty file stands for no cluster, but \<open>Seek\<close> takes it for one: the handle loads a
  sector below the data area, in the root directory or the tables, and the next \<open>Write\<close> puts its byte there.\<close>

theorem fat_seek_empty_stray:
  assumes "fat_ok d" "\<not> disk_full d" "firstCluster f = 0" "filelength f = 0"
    and "0 < p" "p < getClusterSize d" "p < 2 ^ 31" "p mod 512 < 511" "getClusterSize d < 2 ^ 32"
    and "2 * sectorspercluster d < firstDataSector d"
  shows "\<exists>s f1 f2 d2. s < firstDataSector d \<and> Seek p DOS_SEEK_SET f d = (p, f1, d) \<and> currentSector f1 = s \<and>
    write_body [b] f1 d = Some (1, f2, d2) \<and> sector d2 s = (sector d s)[p mod 512 := b]"
proof -
  have le: "2 * sectorspercluster d \<le> firstDataSector d"
    using assms(10) by simp
  have cur: "currentSector (fst (snd (Seek p DOS_SEEK_SET f d))) = stray_sector d p"
    using seek_empty [OF assms(1,3,6,7,10)] by simp
  from write_after_seek_empty [OF assms, of b] show ?thesis
    using stray_position(2) [OF assms(1) le assms(6)] cur by (metis fst_conv snd_conv)
qed

theorem fat_seek_empty_stray_witness:
  "\<exists>s f1 f2 d2. s < 4 \<and> Seek 100 DOS_SEEK_SET empty_file small_disk = (100, f1, small_disk) \<and>
     write_body [0x55] f1 small_disk = Some (1, f2, d2) \<and> sector d2 s = (sector small_disk s)[100 := 0x55]"
proof -
  have "\<not> disk_full small_disk"
    by (simp add: disk_full_def small_clusters small_table)
  then show ?thesis
    using fat_seek_empty_stray [OF small_disk_ok(1), of empty_file 100 "0x55"]
    by (auto simp: small_clusters empty_file_def)
qed

text \<open>C40. Truncating a file at the end of a cluster frees the next cluster but keeps its sector in the buffer: the byte
  written next goes to the free cluster, and the file is one byte longer than its chain.\<close>

theorem fat_truncate_stray:
  assumes "handle_ok f d cs" "0 < k" "k < length cs" "seekpos f = k * getClusterSize d"
    "seekpos f < filelength f" "filelength f + getClusterSize d < 2 ^ 32"
  shows "\<exists>f1 d1 f2 d2. write_body [] f d = Some (0, f1, d1) \<and> write_body [b] f1 d1 = Some (1, f2, d2) \<and>
    chain d2 (take k cs) \<and> firstCluster f2 = hd (take k cs) \<and> filelength f2 = capacity d2 (take k cs) + 1 \<and>
    table d2 (cs ! k) = 0 \<and> sector d2 (cluster_sector d (cs ! k) 0) ! 0 = b"
  using assms by (rule write_after_truncate)

theorem fat_truncate_stray_witness:
  "\<exists>f1 d1 f2 d2. write_body [] small_file small_disk = Some (0, f1, d1) \<and>
     write_body [0x55] f1 d1 = Some (1, f2, d2) \<and> chain d2 [2] \<and> filelength f2 = capacity d2 [2] + 1 \<and>
     table d2 3 = 0 \<and> sector d2 5 ! 0 = 0x55"
proof -
  have c: "cluster_sector small_disk 3 0 = 5"
    by (simp add: cluster_sector_def small_clusters)
  show ?thesis
    using fat_truncate_stray [OF small_handle(1), of 1 "0x55"] c
    by (auto simp: small_clusters small_file_def)
qed

text \<open>C15. \<open>addDirectoryEntry\<close> returns, in a directory of fewer than 65536 slots: the entry takes the first slot that is free, deleted
  (0xe5) or never used (0), with all slots before it in use; only when all are in use does a subdirectory get
  a new cluster, whose first slot the entry takes. \<open>directoryBrowse\<close> finds it there, and every other entry
  stays; it fails, changing nothing on the disk, only when no slot is free and the directory cannot grow.\<close>

theorem fat_add_entry:
  assumes "fat_ok d" "mirrored d" "dir_ok d dc cs" "slot_count d cs < 65536"
    and "direntry_ok e" "\<not> slot_free (entryname e)"
  shows "\<exists>r d'. addDirectoryEntry dc e d = Some (r, d') \<and> fat_ok d' \<and> mirrored d' \<and>
    (if r then \<exists>cs' p d''. dir_ok d' dc cs' \<and> (\<forall>q < p. \<not> slot_free (slot d cs q)) \<and>
       (if p < slot_count d cs then slot_free (slot d cs p) \<and> cs' = cs
        else p = slot_count d cs \<and> dc \<noteq> 0 \<and> (\<exists>f. first_free d f \<and> cs' = cs @ [f])) \<and>
       directoryBrowse dc x (int p) 0 d' = (True, e, d'') \<and>
       (\<forall>q < slot_count d cs. q \<noteq> p \<longrightarrow> slot d' cs' q = slot d cs q)
     else (\<forall>q < slot_count d cs. \<not> slot_free (slot d cs q)) \<and> (dc = 0 \<or> disk_full d) \<and> cached d d')"
  using assms by (rule add_entry)

theorem fat_add_entry_witness:
  "\<exists>d' d''. addDirectoryEntry 0 small_entry small_disk = Some (True, d') \<and>
     directoryBrowse 0 (bytes_direntry (replicate 32 0)) 1 0 d' = (True, small_entry, d'') \<and> slot d' [] 0 = slot small_disk [] 0"
proof -
  have e: "direntry_ok small_entry" "\<not> slot_free (entryname small_entry)"
    by (simp_all add: small_entry_def direntry_ok_def slot_free_def)
  have free: "slot_free (slot small_disk [] 1)" "\<not> slot_free (slot small_disk [] 0)"
    using small_slots(3,4) by (simp_all add: slot_free_def)
  have count: "slot_count small_disk [] < 65536"
    using small_slots(2) by simp
  note add = fat_add_entry [OF small_disk_ok small_slots(1) count e, of "bytes_direntry (replicate 32 0)", unfolded small_slots(2)]
  have "1 < (16 :: nat)" by simp
  with add free(1) obtain d' cs' p d'' where d': "addDirectoryEntry 0 small_entry small_disk = Some (True, d')"
    "\<forall>q < p. \<not> slot_free (slot small_disk [] q)" "p < 16" "slot_free (slot small_disk [] p)" "cs' = []"
    "directoryBrowse 0 (bytes_direntry (replicate 32 0)) (int p) 0 d' = (True, small_entry, d'')"
    "\<forall>q < 16. q \<noteq> p \<longrightarrow> slot d' cs' q = slot small_disk [] q"
    by (auto split: if_splits) blast
  have "p \<noteq> 0" "\<not> 1 < p"
    using d'(2,4) free by (auto intro: ccontr)
  then have "p = 1"
    by linarith
  then show ?thesis
    using d' by auto
qed

end
