(* ===== verification/Fat_Mount.thy ===== *)
theory Fat_Mount
  imports Fat_Correct
begin

text \<open>
  Mounting an image: the constructor of \<open>fatDrive\<close> (\<open>src/src/dos/drive_fat.cpp\<close>) with the geometries of
  \<open>src/src/ints/bios_disk.cpp\<close>, from the img file to the drive the other theories start from.

  Parameters are the img (\<^const>\<open>None\<close> if the host cannot open it), its size in kilobytes
  (\<^const>\<open>None\<close> if the host cannot tell it) and what the uninitialised local buffers hold, which a read
  behind the end of the img leaves there. The memory for \<open>imgDTA\<close>, the count of floppy drives of the
  BIOS and the log are left out.
\<close>

section \<open>Disk geometries\<close>

record disk_geometry =
  ksize :: nat
  secttrack :: nat
  geo_headscyl :: nat
  cylcount :: nat
  biosval :: nat

definition geometry :: "nat \<Rightarrow> nat \<Rightarrow> nat \<Rightarrow> nat \<Rightarrow> nat \<Rightarrow> disk_geometry" where
  "geometry k s h c b = \<lparr>ksize = k, secttrack = s, geo_headscyl = h, cylcount = c, biosval = b\<rparr>"

definition disk_geometry_list :: "disk_geometry list" where
  "disk_geometry_list = [
     geometry 160 8 1 40 0, geometry 180 9 1 40 0, geometry 200 10 1 40 0, geometry 320 8 2 40 1,
     geometry 360 9 2 40 1, geometry 400 10 2 40 1, geometry 720 9 2 80 3, geometry 1200 15 2 80 2,
     geometry 1440 18 2 80 4, geometry 1520 19 2 80 2, geometry 1680 21 2 80 4,
     geometry 1720 21 2 82 4, geometry 1840 23 2 80 4, geometry 2880 36 2 80 6]"

record image_disk =
  hardDrive :: bool
  active :: bool
  floppytype :: nat
  sector_size :: nat
  disk_heads :: nat
  disk_cylinders :: nat
  disk_sectors :: nat

definition imageDisk :: "nat \<Rightarrow> bool \<Rightarrow> image_disk" where
  "imageDisk img_size_k is_hdd =
     (let disk = \<lparr>hardDrive = is_hdd, active = False, floppytype = 0, sector_size = 512, disk_heads = 0,
                  disk_cylinders = 0, disk_sectors = 0\<rparr>
      in if is_hdd then disk
         else case find (\<lambda>(i, geo). ksize geo = img_size_k \<or> ksize geo + 1 = img_size_k)
                     (enumerate 0 disk_geometry_list) of
                None \<Rightarrow> disk
              | Some (i, geo) \<Rightarrow> disk\<lparr>active := True, floppytype := i, disk_heads := geo_headscyl geo,
                  disk_cylinders := cylcount geo, disk_sectors := secttrack geo\<rparr>)"

definition Set_Geometry :: "nat \<Rightarrow> nat \<Rightarrow> nat \<Rightarrow> nat \<Rightarrow> image_disk \<Rightarrow> image_disk" where
  "Set_Geometry setHeads setCyl setSect setSectSize disk =
     disk\<lparr>disk_heads := setHeads, disk_cylinders := setCyl, disk_sectors := setSect,
          sector_size := setSectSize, active := True\<rparr>"

definition Get_Geometry :: "image_disk \<Rightarrow> nat \<times> nat \<times> nat \<times> nat" where
  "Get_Geometry disk = (disk_heads disk, disk_cylinders disk, disk_sectors disk, sector_size disk)"

definition GetBiosType :: "image_disk \<Rightarrow> nat" where
  "GetBiosType disk =
     (if \<not> hardDrive disk then biosval (disk_geometry_list ! floppytype disk) else 0)"

section \<open>The boot sector\<close>

record bootstrap =
  nearjmp :: "u8 list"
  oemname :: "u8 list"
  bb_bytespersector :: nat
  bb_sectorspercluster :: nat
  bb_reservedsectors :: nat
  bb_fatcopies :: nat
  bb_rootdirentries :: nat
  totalsectorcount :: nat
  mediadescriptor :: u8
  bb_sectorsperfat :: nat
  bb_sectorspertrack :: nat
  bb_headcount :: nat
  hiddensectorcount :: nat
  totalsecdword :: nat
  magic1 :: u8
  magic2 :: u8

definition boot_sector :: "u8 list \<Rightarrow> bootstrap" where
  "boot_sector b =
     \<lparr>nearjmp = take 3 b, oemname = take 8 (drop 3 b), bb_bytespersector = var_read16 b 11,
      bb_sectorspercluster = unat (b ! 13), bb_reservedsectors = var_read16 b 14,
      bb_fatcopies = unat (b ! 16), bb_rootdirentries = var_read16 b 17,
      totalsectorcount = var_read16 b 19, mediadescriptor = b ! 21, bb_sectorsperfat = var_read16 b 22,
      bb_sectorspertrack = var_read16 b 24, bb_headcount = var_read16 b 26,
      hiddensectorcount = var_read32 b 28, totalsecdword = var_read32 b 32,
      magic1 = b ! 510, magic2 = b ! 511\<rparr>"

datatype mount_fault =
  NoImage | SectorSize | UnknownFloppy | NoSectorsPerFat | SectorSizeMismatch | NoSectorsPerCluster |
  NoRootEntries | NoFatCopies | NoHeads | TooManyHeads | NoSectorsPerTrack | TooManySectors

definition absSectStart :: "u8 list \<Rightarrow> nat \<Rightarrow> nat" where
  "absSectStart mbr m = var_read32 mbr (446 + 16 * m + 8)"

definition partSize :: "u8 list \<Rightarrow> nat \<Rightarrow> nat" where
  "partSize mbr m = var_read32 mbr (446 + 16 * m + 12)"

definition startSector :: "u8 list \<Rightarrow> nat" where
  "startSector mbr =
     (case find (\<lambda>m. partSize mbr m \<noteq> 0) [0..<4] of None \<Rightarrow> 63 | Some m \<Rightarrow> absSectStart mbr m)"

definition valid_bpb :: "bootstrap \<Rightarrow> bool" where
  "valid_bpb bb \<longleftrightarrow>
     (nearjmp bb ! 0 = 0x69 \<or> nearjmp bb ! 0 = 0xe9 \<or> (nearjmp bb ! 0 = 0xeb \<and> nearjmp bb ! 2 = 0x90)) \<and>
     mediadescriptor bb AND 0xf0 = 0xf0"

definition fix_single_sided :: "bootstrap \<Rightarrow> bootstrap" where
  "fix_single_sided bb =
     (if mediadescriptor bb \<noteq> 0xf0 \<and> mediadescriptor bb AND 0x1 = 0 \<and>
         (oemname bb ! 5 \<noteq> 0x33 \<or> oemname bb ! 6 \<noteq> 0x2e \<or> oemname bb ! 7 < 0x32)
      then bb\<lparr>bb_sectorspercluster := 1\<rparr> else bb)"

definition dos1_bpb :: "u8 \<Rightarrow> bootstrap \<Rightarrow> bootstrap" where
  "dos1_bpb mdesc bb =
     (let bb = bb\<lparr>bb_bytespersector := BytePerSector, bb_sectorspercluster := 1, bb_reservedsectors := 1,
                  bb_fatcopies := 2, bb_rootdirentries := 64, totalsectorcount := 320,
                  mediadescriptor := mdesc, bb_sectorsperfat := 1, bb_sectorspertrack := 8,
                  bb_headcount := 1, magic1 := 0x55, magic2 := 0xaa\<rparr>;
          bb = (if mdesc AND 0x2 = 0
                then bb\<lparr>totalsectorcount := 360, bb_sectorsperfat := 2, bb_sectorspertrack := 9\<rparr>
                else bb)
      in if mdesc AND 0x1 \<noteq> 0
         then bb\<lparr>bb_sectorspercluster := 2, bb_rootdirentries := 112,
                 totalsectorcount := totalsectorcount bb * 2, bb_headcount := 2\<rparr>
         else bb)"

definition floppy_format :: "u8 \<Rightarrow> bootstrap \<Rightarrow> mount_fault + bootstrap" where
  "floppy_format mdesc bb =
     (if valid_bpb bb then Inr (fix_single_sided bb)
      else if 0xf8 \<le> mdesc then Inr (dos1_bpb mdesc bb)
      else Inl UnknownFloppy)"

definition sanity_checks :: "nat \<Rightarrow> nat \<Rightarrow> bootstrap \<Rightarrow> mount_fault option" where
  "sanity_checks headscyl cylsector bb =
     (if bb_sectorsperfat bb = 0 then Some NoSectorsPerFat
      else if bb_bytespersector bb \<noteq> BytePerSector then Some SectorSizeMismatch
      else if bb_sectorspercluster bb = 0 then Some NoSectorsPerCluster
      else if bb_rootdirentries bb = 0 then Some NoRootEntries
      else if bb_fatcopies bb = 0 then Some NoFatCopies
      else if bb_headcount bb = 0 then Some NoHeads
      else if bb_headcount bb > headscyl then Some TooManyHeads
      else if bb_sectorspertrack bb = 0 then Some NoSectorsPerTrack
      else if bb_sectorspertrack bb > cylsector then Some TooManySectors
      else None)"

section \<open>The constructor\<close>

definition RootDirSectors :: "bootstrap \<Rightarrow> nat" where
  "RootDirSectors bb =
     (bb_rootdirentries bb * 32 + (bb_bytespersector bb - 1)) div bb_bytespersector bb"

definition DataSectors :: "bootstrap \<Rightarrow> nat" where
  "DataSectors bb =
     sub32 (if totalsectorcount bb \<noteq> 0 then totalsectorcount bb else totalsecdword bb)
       (wrap32 (bb_reservedsectors bb + bb_fatcopies bb * bb_sectorsperfat bb + RootDirSectors bb))"

definition fat_type_of :: "nat \<Rightarrow> fat_type" where
  "fat_type_of count = (if count < 4085 then FAT12 else if count < 65525 then FAT16 else FAT32)"

text \<open>The drive the constructor leaves when all checks have passed.\<close>

definition volume :: "(nat \<Rightarrow> u8 list option) \<Rightarrow> image_disk \<Rightarrow> nat \<Rightarrow> bootstrap \<Rightarrow> fat_drive" where
  "volume img disk off bb =
     \<lparr>bytespersector = bb_bytespersector bb, sectorspercluster = bb_sectorspercluster bb,
      reservedsectors = bb_reservedsectors bb, fatcopies = bb_fatcopies bb,
      rootdirentries = bb_rootdirentries bb, sectorsperfat = bb_sectorsperfat bb,
      sectorspertrack = bb_sectorspertrack bb, headcount = bb_headcount bb,
      partSectOff = off,
      absolute = (bb_headcount bb = disk_heads disk \<and> bb_sectorspertrack bb = disk_sectors disk),
      fattype = fat_type_of (DataSectors bb div bb_sectorspercluster bb),
      CountOfClusters = DataSectors bb div bb_sectorspercluster bb,
      firstDataSector = wrap32 (bb_reservedsectors bb + bb_fatcopies bb * bb_sectorsperfat bb +
        RootDirSectors bb + off),
      firstRootDirSect = wrap32 (bb_reservedsectors bb + bb_fatcopies bb * bb_sectorsperfat bb + off),
      fatSectBuffer = replicate 1024 0, curFatSect = 0xffffffff,
      heads = disk_heads disk, sectors = disk_sectors disk, diskimg = img\<rparr>"

definition read_image :: "nat \<Rightarrow> u8 list \<Rightarrow> (nat \<Rightarrow> u8 list option) \<Rightarrow> u8 list" where
  "read_image sectnum buffer img = (case img sectnum of None \<Rightarrow> buffer | Some bytes \<Rightarrow> bytes)"

text \<open>The constructor up to the sanity checks: the disk, the first sector of the volume and its boot sector.\<close>

definition load_boot ::
  "(nat \<Rightarrow> u8 list option) \<Rightarrow> nat \<Rightarrow> u8 list \<Rightarrow> nat \<Rightarrow> nat \<Rightarrow> nat \<Rightarrow> nat \<Rightarrow>
   mount_fault + image_disk \<times> nat \<times> bootstrap" where
  "load_boot img filesize junk bytesector cylsector headscyl cylinders =
     (let is_hdd = filesize > 2880;
          disk = imageDisk filesize is_hdd;
          disk = (if is_hdd then Set_Geometry headscyl cylinders cylsector bytesector disk else disk);
          off = (if is_hdd then startSector (read_image 0 junk img) else 0);
          (headscyl, cylinders, cylsector, bytesector) = Get_Geometry disk
      in if bytesector \<noteq> BytePerSector then Inl SectorSize
         else let bb = boot_sector (read_image off (replicate 512 0) img)
              in if is_hdd then Inr (disk, off, bb)
                 else case floppy_format (read_image 1 junk img ! 0) bb of
                        Inl fault \<Rightarrow> Inl fault
                      | Inr bb \<Rightarrow> Inr (disk, off, bb))"

text \<open>
  \<open>Unloaded\<close> is a drive whose \<open>created_successfully\<close> is still true although no disk was loaded.
\<close>

datatype mounted = Mounted fat_drive | Refused mount_fault | Unloaded

definition fatDrive ::
  "(nat \<Rightarrow> u8 list option) option \<Rightarrow> nat option \<Rightarrow> u8 list \<Rightarrow> nat \<Rightarrow> nat \<Rightarrow> nat \<Rightarrow> nat \<Rightarrow> mounted" where
  "fatDrive diskfile sz junk bytesector cylsector headscyl cylinders =
     (case diskfile of None \<Rightarrow> Refused NoImage
      | Some img \<Rightarrow>
          (case sz of None \<Rightarrow> Unloaded
           | Some filesize \<Rightarrow>
               (case load_boot img filesize junk bytesector cylsector headscyl cylinders of
                  Inl fault \<Rightarrow> Refused fault
                | Inr (disk, off, bb) \<Rightarrow>
                    (case sanity_checks (disk_heads disk) (disk_sectors disk) bb of
                       Some fault \<Rightarrow> Refused fault
                     | None \<Rightarrow> Mounted (volume img disk off bb)))))"

section \<open>What the constructor checks\<close>

text \<open>The sectors in front of the data area, and those of the whole volume.\<close>

definition overhead :: "bootstrap \<Rightarrow> nat" where
  "overhead bb = bb_reservedsectors bb + bb_fatcopies bb * bb_sectorsperfat bb +
     (bb_rootdirentries bb * 32 + 511) div 512"

definition total_sectors :: "bootstrap \<Rightarrow> nat" where
  "total_sectors bb = (if totalsectorcount bb \<noteq> 0 then totalsectorcount bb else totalsecdword bb)"

definition bpb_ok :: "image_disk \<Rightarrow> bootstrap \<Rightarrow> bool" where
  "bpb_ok disk bb \<longleftrightarrow> bb_bytespersector bb = 512 \<and> 0 < bb_sectorspercluster bb \<and>
     0 < bb_fatcopies bb \<and> 0 < bb_rootdirentries bb \<and> 0 < bb_sectorsperfat bb \<and>
     0 < bb_headcount bb \<and> bb_headcount bb \<le> disk_heads disk \<and>
     0 < bb_sectorspertrack bb \<and> bb_sectorspertrack bb \<le> disk_sectors disk"

lemma sanity_checks: "sanity_checks (disk_heads disk) (disk_sectors disk) bb = None \<longleftrightarrow> bpb_ok disk bb"
  by (auto simp: sanity_checks_def bpb_ok_def BytePerSector_def)

text \<open>
  What the constructor does not check: the volume is larger than its tables, the table holds all
  clusters, and the image holds every sector from its start to the end of the volume.
\<close>

definition data_count :: "bootstrap \<Rightarrow> nat" where
  "data_count bb = (total_sectors bb - overhead bb) div bb_sectorspercluster bb"

definition table_holds :: "bootstrap \<Rightarrow> bool" where
  "table_holds bb \<longleftrightarrow> (let ty = fat_type_of (data_count bb)
     in entry_pos ty (data_count bb + 1) + entry_width ty \<le> 512 * bb_sectorsperfat bb)"

text \<open>
  Where a sector of the volume is in the image: on cylinders of the image's size, which may have heads and
  sectors that the volume does not use.
\<close>

definition placed_at :: "image_disk \<Rightarrow> bootstrap \<Rightarrow> nat \<Rightarrow> nat" where
  "placed_at disk bb n =
     (if bb_headcount bb = disk_heads disk \<and> bb_sectorspertrack bb = disk_sectors disk then n
      else let z = bb_headcount bb * bb_sectorspertrack bb
           in (n div z * disk_heads disk + n mod z div bb_sectorspertrack bb) * disk_sectors disk +
             n mod z mod bb_sectorspertrack bb)"

text \<open>Only a bound that keeps the sector numbers in 32 bits: the sectors of all cylinders up to the one behind the volume.\<close>

definition image_sectors :: "image_disk \<Rightarrow> nat \<Rightarrow> bootstrap \<Rightarrow> nat" where
  "image_sectors disk off bb =
     ((off + total_sectors bb) div (bb_headcount bb * bb_sectorspertrack bb) + 1) *
       disk_heads disk * disk_sectors disk"

definition complete_volume :: "(nat \<Rightarrow> u8 list option) \<Rightarrow> image_disk \<Rightarrow> nat \<Rightarrow> bootstrap \<Rightarrow> bool" where
  "complete_volume img disk off bb \<longleftrightarrow>
     overhead bb \<le> total_sectors bb \<and> table_holds bb \<and> image_sectors disk off bb < 2 ^ 32 \<and>
     (\<forall>n < off + total_sectors bb. \<exists>bytes. img (placed_at disk bb n) = Some bytes \<and> length bytes = 512)"

text \<open>The copies of the table are equal.\<close>

definition equal_copies :: "(nat \<Rightarrow> u8 list option) \<Rightarrow> image_disk \<Rightarrow> nat \<Rightarrow> bootstrap \<Rightarrow> bool" where
  "equal_copies img disk off bb \<longleftrightarrow> (\<forall>fc < bb_fatcopies bb. \<forall>j < bb_sectorsperfat bb.
     img (placed_at disk bb (off + bb_reservedsectors bb + fc * bb_sectorsperfat bb + j)) =
     img (placed_at disk bb (off + bb_reservedsectors bb + j)))"

section \<open>The widths of the fields\<close>

definition boot_widths :: "bootstrap \<Rightarrow> bool" where
  "boot_widths bb \<longleftrightarrow> bb_sectorspercluster bb < 2 ^ 8 \<and> bb_reservedsectors bb < 2 ^ 16 \<and>
     bb_fatcopies bb < 2 ^ 8 \<and> bb_rootdirentries bb < 2 ^ 16 \<and> bb_sectorsperfat bb < 2 ^ 16 \<and>
     total_sectors bb < 2 ^ 32"

lemma byte_bound: "unat (b :: u8) < 256"
  using unsigned_less [of b] by simp

lemma var_read16_bound: "var_read16 b i < 2 ^ 16"
  using byte_bound [of "b ! i"] byte_bound [of "b ! (i + 1)"] by (simp add: var_read16_def)

lemma var_read32_bound: "var_read32 b i < 2 ^ 32"
  using byte_bound [of "b ! i"] byte_bound [of "b ! (i + 1)"] byte_bound [of "b ! (i + 2)"]
    byte_bound [of "b ! (i + 3)"] by (simp add: var_read32_def)

lemma boot_sector_widths: "boot_widths (boot_sector b)"
  using var_read16_bound [of b] var_read32_bound [of b] byte_bound
    less_trans [OF var_read16_bound, of "2 ^ 32" b 19]
  by (simp add: boot_widths_def boot_sector_def total_sectors_def)

lemma fix_single_sided_widths: "boot_widths bb \<Longrightarrow> boot_widths (fix_single_sided bb)"
  by (auto simp: fix_single_sided_def boot_widths_def total_sectors_def split: if_splits)

lemma dos1_bpb_widths: "boot_widths (dos1_bpb mdesc bb)"
  by (simp add: dos1_bpb_def boot_widths_def total_sectors_def Let_def)

lemma floppy_format_widths: "floppy_format mdesc bb = Inr bb' \<Longrightarrow> boot_widths bb \<Longrightarrow> boot_widths bb'"
  by (auto simp: floppy_format_def fix_single_sided_widths dos1_bpb_widths split: if_splits)

lemma load_boot_widths:
  assumes "load_boot img filesize junk bytesector cylsector headscyl cylinders = Inr (disk, off, bb)"
  shows "boot_widths bb"
  using assms boot_sector_widths floppy_format_widths
  by (fastforce simp: load_boot_def Let_def split: if_splits prod.splits sum.splits)

lemma overhead_bound:
  assumes "boot_widths bb"
  shows "overhead bb < 2 ^ 25"
proof -
  have "bb_fatcopies bb * bb_sectorsperfat bb \<le> 255 * 65535"
    using assms by (intro mult_le_mono) (auto simp: boot_widths_def)
  moreover have "(bb_rootdirentries bb * 32 + 511) div 512 \<le> (65535 * 32 + 511) div 512"
    using assms by (intro div_le_mono) (simp add: boot_widths_def)
  moreover have "bb_reservedsectors bb < 2 ^ 16"
    using assms by (simp add: boot_widths_def)
  ultimately show ?thesis
    by (simp add: overhead_def)
qed

section \<open>The drive of a complete volume\<close>

lemma volume_fields:
  "bytespersector (volume img disk off bb) = bb_bytespersector bb"
  "sectorspercluster (volume img disk off bb) = bb_sectorspercluster bb"
  "reservedsectors (volume img disk off bb) = bb_reservedsectors bb"
  "fatcopies (volume img disk off bb) = bb_fatcopies bb"
  "rootdirentries (volume img disk off bb) = bb_rootdirentries bb"
  "sectorsperfat (volume img disk off bb) = bb_sectorsperfat bb"
  "sectorspertrack (volume img disk off bb) = bb_sectorspertrack bb"
  "headcount (volume img disk off bb) = bb_headcount bb"
  "partSectOff (volume img disk off bb) = off"
  "absolute (volume img disk off bb) \<longleftrightarrow> bb_headcount bb = disk_heads disk \<and> bb_sectorspertrack bb = disk_sectors disk"
  "heads (volume img disk off bb) = disk_heads disk"
  "sectors (volume img disk off bb) = disk_sectors disk"
  "fatSectBuffer (volume img disk off bb) = replicate 1024 0"
  "curFatSect (volume img disk off bb) = 0xffffffff"
  "diskimg (volume img disk off bb) = img"
  by (simp_all add: volume_def)

lemma image_sectors_bound:
  assumes "bpb_ok disk bb"
  shows "off + total_sectors bb < image_sectors disk off bb"
proof -
  let ?z = "bb_headcount bb * bb_sectorspertrack bb" and ?t = "off + total_sectors bb"
  have "0 < ?z"
    using assms by (simp add: bpb_ok_def)
  then have "?t < (?t div ?z + 1) * ?z"
    using dividend_less_div_times [of ?z ?t] by simp
  also have "\<dots> \<le> (?t div ?z + 1) * (disk_heads disk * disk_sectors disk)"
    using assms by (intro mult_left_mono mult_mono) (auto simp: bpb_ok_def)
  finally show ?thesis
    by (simp only: image_sectors_def mult.assoc)
qed

lemma volume_counts:
  assumes "bpb_ok disk bb" "boot_widths bb" "overhead bb \<le> total_sectors bb"
  shows "CountOfClusters (volume img disk off bb) = data_count bb"
    and "fattype (volume img disk off bb) = fat_type_of (data_count bb)"
proof -
  have "RootDirSectors bb = (bb_rootdirentries bb * 32 + 511) div 512"
    using assms(1) by (simp add: RootDirSectors_def bpb_ok_def)
  then have "DataSectors bb = sub32 (total_sectors bb) (wrap32 (overhead bb))"
    by (simp add: DataSectors_def total_sectors_def overhead_def)
  also have "\<dots> = total_sectors bb - overhead bb"
    using overhead_bound [OF assms(2)] assms(2,3) by (simp add: boot_widths_def)
  finally show "CountOfClusters (volume img disk off bb) = data_count bb"
    "fattype (volume img disk off bb) = fat_type_of (data_count bb)"
    by (simp_all add: volume_def data_count_def)
qed

lemma volume_starts:
  assumes "bpb_ok disk bb" "off + overhead bb < 2 ^ 32"
  shows "firstRootDirSect (volume img disk off bb) =
      bb_reservedsectors bb + off + bb_fatcopies bb * bb_sectorsperfat bb"
    and "firstDataSector (volume img disk off bb) = off + overhead bb"
proof -
  have "RootDirSectors bb = (bb_rootdirentries bb * 32 + 511) div 512"
    using assms(1) by (simp add: RootDirSectors_def bpb_ok_def)
  then have first: "firstDataSector (volume img disk off bb) = wrap32 (off + overhead bb)"
    by (simp add: volume_def overhead_def ac_simps)
  show "firstDataSector (volume img disk off bb) = off + overhead bb"
    unfolding first by (rule wrap32_small [OF assms(2)])
  have "bb_reservedsectors bb + bb_fatcopies bb * bb_sectorsperfat bb + off \<le> off + overhead bb"
    by (simp add: overhead_def)
  then have "bb_reservedsectors bb + bb_fatcopies bb * bb_sectorsperfat bb + off < 2 ^ 32"
    using assms(2) by (rule le_less_trans)
  from wrap32_small [OF this]
  show "firstRootDirSect (volume img disk off bb) =
      bb_reservedsectors bb + off + bb_fatcopies bb * bb_sectorsperfat bb"
    by (simp add: volume_def)
qed

lemma volume_sector_count:
  assumes "bpb_ok disk bb" "boot_widths bb" "overhead bb \<le> total_sectors bb" "off + total_sectors bb < 2 ^ 32"
  shows "sector_count (volume img disk off bb) \<le> off + total_sectors bb"
proof -
  have "data_count bb * bb_sectorspercluster bb \<le> total_sectors bb - overhead bb"
    by (simp add: data_count_def)
  moreover have "off + overhead bb < 2 ^ 32"
    using assms(3,4) by linarith
  ultimately show ?thesis
    using assms(3) volume_starts(2) [OF assms(1), of off img] volume_counts(1) [OF assms(1-3), of img off]
    by (simp add: sector_count_def volume_fields)
qed

lemma volume_geometry:
  assumes "bpb_ok disk bb" "boot_widths bb" "overhead bb \<le> total_sectors bb" "image_sectors disk off bb < 2 ^ 32"
  shows "geometry_ok (volume img disk off bb)"
    and "n < sector_count (volume img disk off bb) \<Longrightarrow>
      image_sector n (volume img disk off bb) = placed_at disk bb n"
proof -
  let ?d = "volume img disk off bb" and ?z = "bb_headcount bb * bb_sectorspertrack bb"
  have small: "off + total_sectors bb < image_sectors disk off bb" "off + total_sectors bb < 2 ^ 32"
    using image_sectors_bound [OF assms(1), of off] assms(4) by simp_all
  note count = volume_sector_count [OF assms(1-3) small(2), of img]
  have "(sector_count ?d div ?z + 1) * disk_heads disk * disk_sectors disk \<le> image_sectors disk off bb"
    unfolding image_sectors_def using count by (intro mult_right_mono add_mono div_le_mono) auto
  then have "(sector_count ?d div ?z + 1) * disk_heads disk * disk_sectors disk < 2 ^ 32"
    using assms(4) by (rule le_less_trans)
  then show ok: "geometry_ok ?d"
    using assms(1) count small(2) by (simp add: geometry_ok_def volume_fields bpb_ok_def)
  assume n: "n < sector_count ?d"
  show "image_sector n ?d = placed_at disk bb n"
  proof (cases "absolute ?d")
    case True
    then show ?thesis
      by (simp add: image_sector_def placed_at_def volume_fields)
  next
    case False
    then have "\<not> (bb_headcount bb = disk_heads disk \<and> bb_sectorspertrack bb = disk_sectors disk)"
      by (simp add: volume_fields)
    then show ?thesis
      using image_sector_chs [OF ok n False] unfolding placed_at_def volume_fields Let_def by (simp only: if_False)
  qed
qed

lemma table_holds_few:
  assumes "boot_widths bb" "table_holds bb"
  shows "few_clusters (fat_type_of (data_count bb)) (data_count bb)"
proof -
  have "bb_sectorsperfat bb < 2 ^ 16"
    using assms(1) by (simp add: boot_widths_def)
  then show ?thesis
    using assms(2) by (auto simp: table_holds_def fat_type_of_def)
qed

lemma volume_fat_ok:
  assumes "bpb_ok disk bb" "boot_widths bb" "complete_volume img disk off bb"
  shows "fat_ok (volume img disk off bb)"
proof -
  let ?d = "volume img disk off bb"
  have whole: "overhead bb \<le> total_sectors bb" "image_sectors disk off bb < 2 ^ 32"
    using assms(3) by (simp_all add: complete_volume_def)
  then have t: "off + total_sectors bb < 2 ^ 32"
    using image_sectors_bound [OF assms(1), of off] by simp
  then have o: "off + overhead bb < 2 ^ 32"
    using whole(1) by linarith
  note geo = volume_geometry [OF assms(1,2) whole] and counts = volume_counts [OF assms(1,2) whole(1), of img off]
    and starts = volume_starts [OF assms(1) o, of img]
  have "sectors_ok ?d"
    using geo assms(3) volume_sector_count [OF assms(1,2) whole(1) t, of img]
    by (simp add: sectors_ok_def volume_fields complete_volume_def)
  moreover have lay: "layout_ok ?d"
    using assms table_holds_few [OF assms(2)]
    by (simp add: layout_ok_def counts starts volume_fields fat_start_def bpb_ok_def complete_volume_def
        table_holds_def Let_def overhead_def)
  moreover have "cache_ok ?d"
  proof -
    have "\<not> in_fat ?d 0xffffffff"
    proof
      assume "in_fat ?d 0xffffffff"
      from in_fat_exists [OF lay this] volume_sector_count [OF assms(1,2) whole(1) t, of img] t
      show False
        by simp
    qed
    then show ?thesis
      by (simp add: cache_ok_def volume_fields)
  qed
  ultimately show ?thesis
    by (simp add: fat_ok_def)
qed

lemma volume_mirrored:
  assumes "bpb_ok disk bb" "boot_widths bb" "complete_volume img disk off bb" "equal_copies img disk off bb"
  shows "mirrored (volume img disk off bb)"
proof -
  let ?d = "volume img disk off bb"
  have whole: "overhead bb \<le> total_sectors bb" "image_sectors disk off bb < 2 ^ 32" and lay: "layout_ok ?d"
    using assms(3) volume_fat_ok [OF assms(1-3)] by (simp_all add: complete_volume_def fat_ok_def)
  have "fat_sector ?d fc j = (case img (placed_at disk bb (off + bb_reservedsectors bb + fc * bb_sectorsperfat bb + j)) of
      None \<Rightarrow> [] | Some bytes \<Rightarrow> bytes)" if "fc < fatcopies ?d" "j < sectorsperfat ?d" for fc j
    using fat_sectors_exist [OF lay that] volume_geometry(2) [OF assms(1,2) whole]
    by (simp add: fat_sector_def sector_def fat_start_def volume_fields ac_simps)
  moreover have "0 < fatcopies ?d"
    using assms(1) by (simp add: bpb_ok_def volume_fields)
  ultimately show ?thesis
    using assms(4) by (simp add: mirrored_def equal_copies_def volume_fields)
qed

section \<open>A volume smaller than its tables\<close>

lemma volume_underflow:
  assumes "bpb_ok disk bb" "boot_widths bb" "total_sectors bb < overhead bb"
  shows "fattype (volume img disk off bb) = FAT32"
    and "2 ^ 32 - 2 ^ 25 < (CountOfClusters (volume img disk off bb) + 1) * bb_sectorspercluster bb"
proof -
  let ?n = "DataSectors bb"
  have "RootDirSectors bb = (bb_rootdirentries bb * 32 + 511) div 512"
    using assms(1) by (simp add: RootDirSectors_def bpb_ok_def)
  then have "?n = sub32 (total_sectors bb) (wrap32 (overhead bb))"
    by (simp add: DataSectors_def total_sectors_def overhead_def)
  then have n: "2 ^ 32 - 2 ^ 25 < ?n"
    using overhead_bound [OF assms(2)] assms(3) by (simp add: sub32_def)
  have c: "0 < bb_sectorspercluster bb" "bb_sectorspercluster bb \<le> 255"
    using assms(1,2) by (simp_all add: bpb_ok_def boot_widths_def)
  have "?n < (?n div bb_sectorspercluster bb + 1) * bb_sectorspercluster bb"
    using dividend_less_div_times [OF c(1), of ?n] by simp
  then show wide: "2 ^ 32 - 2 ^ 25 < (CountOfClusters (volume img disk off bb) + 1) * bb_sectorspercluster bb"
    using n by (simp add: volume_def)
  have "?n div 255 \<le> ?n div bb_sectorspercluster bb"
    using c by (intro div_le_mono2) auto
  moreover have "65525 \<le> ?n div 255"
    using n by (simp add: less_eq_div_iff_mult_less_eq)
  ultimately show "fattype (volume img disk off bb) = FAT32"
    by (simp add: volume_def fat_type_of_def)
qed

section \<open>An example image\<close>

text \<open>
  A floppy disk of 160 KB with the table, the root directory and the files of \<^const>\<open>small_disk\<close> and a
  boot sector that announces the given number of sectors (its low and high byte); 320 is the right one, the whole disk.
\<close>

definition small_boot :: "u8 \<Rightarrow> u8 \<Rightarrow> u8 list" where
  "small_boot lo hi = [0xeb, 0x3c, 0x90, 0x20, 0x20, 0x20, 0x20, 0x20, 0x20, 0x20, 0x20,
     0x00, 0x02, 0x01, 0x01, 0x00, 0x02, 0x10, 0x00, lo, hi, 0xf0, 0x01, 0x00, 0x08, 0x00, 0x01, 0x00] @
     replicate 482 0 @ [0x55, 0xaa]"

definition small_image :: "u8 \<Rightarrow> u8 \<Rightarrow> nat \<Rightarrow> u8 list option" where
  "small_image lo hi n =
     (if n = 0 then Some (small_boot lo hi) else if n < 320 then diskimg small_disk n else None)"

definition floppy_160 :: image_disk where
  "floppy_160 = \<lparr>hardDrive = False, active = True, floppytype = 0, sector_size = 512, disk_heads = 1,
     disk_cylinders = 40, disk_sectors = 8\<rparr>"

lemma small_load:
  "load_boot (small_image lo hi) 160 junk a b c e = Inr (floppy_160, 0, boot_sector (small_boot lo hi))"
proof -
  have disk: "imageDisk 160 False = floppy_160"
    by (simp add: imageDisk_def disk_geometry_list_def geometry_def floppy_160_def)
  have boot: "floppy_format m (boot_sector (small_boot lo hi)) = Inr (boot_sector (small_boot lo hi))" for m
    by (simp add: floppy_format_def valid_bpb_def fix_single_sided_def boot_sector_def small_boot_def)
  show ?thesis
    by (simp add: load_boot_def disk Get_Geometry_def floppy_160_def BytePerSector_def read_image_def
        small_image_def boot)
qed

lemma small_boot_fields:
  "bb_bytespersector (boot_sector (small_boot lo hi)) = 512"
  "bb_sectorspercluster (boot_sector (small_boot lo hi)) = 1"
  "bb_reservedsectors (boot_sector (small_boot lo hi)) = 1"
  "bb_fatcopies (boot_sector (small_boot lo hi)) = 2"
  "bb_rootdirentries (boot_sector (small_boot lo hi)) = 16"
  "totalsectorcount (boot_sector (small_boot lo hi)) = unat lo + 256 * unat hi"
  "bb_sectorsperfat (boot_sector (small_boot lo hi)) = 1"
  "bb_sectorspertrack (boot_sector (small_boot lo hi)) = 8"
  "bb_headcount (boot_sector (small_boot lo hi)) = 1"
  by (simp_all add: boot_sector_def small_boot_def var_read16_def nth_append)

lemma small_bpb: "bpb_ok floppy_160 (boot_sector (small_boot lo hi))"
  by (simp add: bpb_ok_def small_boot_fields floppy_160_def)

lemma small_overhead: "overhead (boot_sector (small_boot lo hi)) = 4"
  by (simp add: overhead_def small_boot_fields)

lemma small_placed: "placed_at floppy_160 (boot_sector (small_boot lo hi)) n = n"
  by (simp add: placed_at_def small_boot_fields floppy_160_def)

lemma small_total: "total_sectors (boot_sector (small_boot 0x40 0x01)) = 320"
  by (simp add: total_sectors_def small_boot_fields)

lemma small_complete:
  "complete_volume (small_image 0x40 0x01) floppy_160 0 (boot_sector (small_boot 0x40 0x01))"
  "equal_copies (small_image 0x40 0x01) floppy_160 0 (boot_sector (small_boot 0x40 0x01))"
proof -
  let ?bb = "boot_sector (small_boot 0x40 0x01)"
  have n: "image_sectors floppy_160 0 ?bb = 328"
    by (simp add: image_sectors_def small_total small_boot_fields floppy_160_def)
  have "table_holds ?bb"
    by (simp add: table_holds_def data_count_def small_total small_overhead small_boot_fields fat_type_of_def)
  moreover have "\<exists>bytes. small_image 0x40 0x01 k = Some bytes \<and> length bytes = 512" if "k < 320" for k
    using that by (auto simp: small_image_def small_boot_def small_disk_def small_fat_def small_root_def)
  ultimately show "complete_volume (small_image 0x40 0x01) floppy_160 0 ?bb"
    by (simp add: complete_volume_def small_total n small_overhead small_placed)
  have "fc = 0 \<or> fc = 1" if "fc < 2" for fc :: nat
    using that by auto
  then show "equal_copies (small_image 0x40 0x01) floppy_160 0 ?bb"
    by (auto simp: equal_copies_def small_placed small_boot_fields small_image_def small_disk_def)
qed

section \<open>The property\<close>

text \<open>C16. Once the constructor of \<open>fatDrive\<close> has read a boot sector, it mounts the image exactly when the
  parameters pass its checks. On an image that holds every sector up to the end of the volume, with a table that has an entry for
  every cluster, the drive satisfies what all operations on tables, chains, directories and files rely on,
  has as many clusters as the data area has room for, and stays inside the volume; where the copies of the table
  are equal in the image, the drive is one whose copies agree. What is not checked is the
  number of sectors: if it is smaller than the tables, the difference wraps around, and the drive is mounted as
  FAT32 with clusters all over the 32-bit range.\<close>

theorem fat_mount:
  assumes "load_boot img filesize junk bytesector cylsector headscyl cylinders = Inr (disk, off, bb)"
  shows "let mounting = fatDrive (Some img) (Some filesize) junk bytesector cylsector headscyl cylinders
    in if bpb_ok disk bb
       then \<exists>d. mounting = Mounted d \<and> diskimg d = img \<and>
         (complete_volume img disk off bb \<longrightarrow>
            fat_ok d \<and> CountOfClusters d = data_count bb \<and> fattype d = fat_type_of (data_count bb) \<and>
            sector_count d \<le> off + total_sectors bb \<and> (equal_copies img disk off bb \<longrightarrow> mirrored d)) \<and>
         (total_sectors bb < overhead bb \<longrightarrow>
            fattype d = FAT32 \<and> 2 ^ 32 - 2 ^ 25 < (CountOfClusters d + 1) * bb_sectorspercluster bb)
       else \<exists>fault. mounting = Refused fault"
proof -
  let ?d = "volume img disk off bb"
  note wide = load_boot_widths [OF assms]
  have mounting: "fatDrive (Some img) (Some filesize) junk bytesector cylsector headscyl cylinders =
      (case sanity_checks (disk_heads disk) (disk_sectors disk) bb of
         Some fault \<Rightarrow> Refused fault | None \<Rightarrow> Mounted ?d)"
    by (simp add: fatDrive_def assms)
  show ?thesis
  proof (cases "bpb_ok disk bb")
    case True
    have "fat_ok ?d \<and> CountOfClusters ?d = data_count bb \<and> fattype ?d = fat_type_of (data_count bb) \<and>
        sector_count ?d \<le> off + total_sectors bb \<and> (equal_copies img disk off bb \<longrightarrow> mirrored ?d)"
      if whole: "complete_volume img disk off bb"
    proof -
      have le: "overhead bb \<le> total_sectors bb" "off + total_sectors bb < 2 ^ 32"
        using whole image_sectors_bound [OF True, of off] by (simp_all add: complete_volume_def)
      show ?thesis
        using volume_fat_ok [OF True wide whole] volume_counts [OF True wide le(1)]
          volume_sector_count [OF True wide le] volume_mirrored [OF True wide whole] by simp
    qed
    then show ?thesis
      using True volume_underflow [OF True wide, of img off] sanity_checks [of disk bb]
      by (simp add: mounting volume_fields)
  next
    case False
    then show ?thesis
      using sanity_checks [of disk bb] by (auto simp: mounting Let_def split: option.split)
  qed
qed

text \<open>The full disk of 320 sectors, and one that announces three.\<close>

theorem fat_mount_witness:
  "(\<exists>d. fatDrive (Some (small_image 0x40 0x01)) (Some 160) [] 0 0 0 0 = Mounted d \<and> fat_ok d \<and> mirrored d \<and>
      CountOfClusters d = 316 \<and> fattype d = FAT12) \<and>
   (\<exists>d. fatDrive (Some (small_image 3 0)) (Some 160) [] 0 0 0 0 = Mounted d \<and> fattype d = FAT32 \<and>
      CountOfClusters d > 4000000000)"
proof -
  note mount = fat_mount [OF small_load [where junk = "[]" and a = 0 and b = 0 and c = 0 and e = 0]]
  have count: "data_count (boot_sector (small_boot 0x40 0x01)) = 316"
    by (simp add: data_count_def small_total small_overhead small_boot_fields)
  have "total_sectors (boot_sector (small_boot 3 0)) = 3"
    by (simp add: total_sectors_def small_boot_fields)
  with mount [of 3 0] have three: "\<exists>d. fatDrive (Some (small_image 3 0)) (Some 160) [] 0 0 0 0 = Mounted d \<and> fattype d = FAT32 \<and>
      2 ^ 32 - 2 ^ 25 < CountOfClusters d + 1"
    by (auto simp: Let_def small_bpb small_overhead small_boot_fields)
  have "\<exists>d. fatDrive (Some (small_image 0x40 0x01)) (Some 160) [] 0 0 0 0 = Mounted d \<and> fat_ok d \<and> mirrored d \<and>
      CountOfClusters d = 316 \<and> fattype d = FAT12"
    using mount [of "0x40" "0x01"] small_complete by (auto simp: Let_def small_bpb count fat_type_of_def)
  moreover have "\<exists>d. fatDrive (Some (small_image 3 0)) (Some 160) [] 0 0 0 0 = Mounted d \<and> fattype d = FAT32 \<and>
      CountOfClusters d > 4000000000"
    using three by (elim exE, intro exI conjI) auto
  ultimately show ?thesis
    by blast
qed

end
