(* ===== verification/Spec2Isabelle.thy ===== *)
theory Spec2Isabelle
  imports Rotate_Correct Muldiv_Correct Pic_Deliver Queue_Run Pool_Scatter Xms_Correct Dma_Correct Ems_Correct
    Rwqueue_Correct Fat_Handles Fat_Mount
begin

text \<open>
  A verification library for the core of a DOS emulator (DOSBox Staging, \<open>src/src\<close>). The program
  emulates an x86 PC: a CPU core executes guest instructions for a slice of cycles; the programmable
  interrupt controllers and a queue of timed events decide when a slice ends and which interrupt is
  delivered; the memory manager hands out pages of extended memory; DOS keeps conventional memory
  as a chain of memory control blocks; the extended memory manager serves the guest's XMS calls
  with both allocators, and the expanded memory manager maps pages into the first megabyte; the DMA
  controllers move bytes between memory and the devices; a queue passes data between host threads; DOS
  drives are images with a FAT file system.

  \<^bold>\<open>Theories.\<close> \<open>Prelude\<close> has the word lemmas, the collections of rules and the contract
  \<open>refined_steps\<close> shared by the components.

  \<^item> Lazy flags (\<open>cpu/flags.cpp\<close>, \<open>cpu/lazyflags.h\<close>) and the arithmetic macros (\<open>cpu/instructions.h\<close>):
    \<open>Cpu_Flags\<close> models the pending operation and its operands, the six getters, \<open>FillFlags\<close> and the
    jump conditions; \<open>Alu\<close> and \<open>Alu_Mul\<close> one definition per macro and width. \<open>Flags_Correct\<close> and
    \<open>Fill_Correct\<close> relate getters and \<open>FillFlags\<close>; \<open>Alu_Correct\<close>, \<open>Rotate_Correct\<close> and
    \<open>Muldiv_Correct\<close> show that results and flags are those of exact integer arithmetic.
  \<^item> Interrupt controllers (\<open>hardware/pic.cpp\<close>): \<open>Pic\<close> models both 8259A with their registers and
    ports; \<open>Pic_Correct\<close> and \<open>Pic_Reach\<close> the invariants of reachable states (an \<open>inductive\<close> step
    relation over the writes a guest makes outside special mask and automatic EOI mode and the lines devices raise); \<open>Pic_Deliver\<close> delivery, end of interrupt and initialisation.
  \<^item> Timed events (\<open>hardware/pic.cpp\<close>, \<open>hardware/pic.h\<close>): \<open>Event_Queue\<close> models the pool of linked
    entries, the slices and the tick handlers; \<open>Queue_Correct\<close> the refinement to a sorted list;
    \<open>Queue_Run\<close> that \<open>PIC_RunQueue\<close> returns and serves what is due. Arithmetic on double, with its
    cast to 32 bits, is a parameter with the laws it is used with, and so are the handlers, which may schedule events that are not yet due.
  \<^item> Extended memory pages (\<open>hardware/memory.cpp\<close>): \<open>Page_Pool\<close> models the array of handles;
    \<open>Pool_Correct\<close> best fit, allocation, release and reallocation of contiguous blocks;
    \<open>Pool_Scatter\<close> scattered blocks; \<open>Pool_Store\<close> states the contract of a page allocator as the
    locale \<open>page_allocator\<close>, proves what a client's table of blocks gains from it, and interprets it.
  \<^item> Memory control blocks (\<open>dos/dos_memory.cpp\<close>): \<open>Mcb\<close> models the headers in memory and every
    function; \<open>Mcb_Chain\<close> reads them as a list of blocks; \<open>Mcb_Compress\<close>, \<open>Mcb_Search\<close>, \<open>Mcb_Alloc\<close>,
    \<open>Mcb_Resize\<close> and \<open>Mcb_Umb\<close> show what each function does to the list, \<open>Mcb_Correct\<close> the
    properties.
  \<^item> Extended memory manager (\<open>ints/xms.cpp\<close>): \<open>Xms\<close> models handles, moves, the A20 line, the high
    memory area and the dispatcher over the two allocators; \<open>Xms_Table\<close> and \<open>Xms_Calls\<close> show that
    sessions of calls keep the handles on disjoint blocks, \<open>Xms_Correct\<close> the properties. Moves go through the map of the first
    megabyte and the folding of the A20 line.
  \<^item> DMA controllers (\<open>hardware/dma.cpp\<close>): \<open>Dma\<close> models both controllers, their channels and transfers
    (with the option monad for accesses through null pointers and outside arrays and for failed assertions); \<open>Dma_Moves\<close> reduces the loops
    over pages to lists of addresses, \<open>Dma_Ring\<close> describes the transfers of a channel,
    \<open>Dma_Correct\<close> the properties. The callbacks of the devices are parameters, assumed not to
    touch the channel at the moments the properties name.
  \<^item> Expanded memory manager (\<open>ints/ems.cpp\<close>): \<open>Ems\<close> models handles and mappings over the page pool and the map of the first
    megabyte, \<open>Ems_Calls\<close> the interrupt 0x67; \<open>Ems_Map\<close> what mapped windows show, \<open>Ems_Correct\<close> the properties.
  \<^item> Producer/consumer queue (\<open>misc/rwqueue.cpp\<close>, \<open>utils/rwqueue.h\<close>): \<open>Rwqueue\<close> models every method as critical
    sections of threads with their waits and notifications, and the interleavings of any number of threads; \<open>Rwqueue_Fifo\<close> shows that all of
    them are defined but for the unlocked read of \<open>GetPercentFull\<close>, implement a FIFO and keep the capacity, through the locale \<open>interleaving_invariant\<close>; \<open>Rwqueue_Wakeup\<close> that
    one producer and one consumer lose no wake-up; \<open>Rwqueue_Correct\<close> what \<open>Stop\<close> and the bulk methods promise (locale
    \<open>bulk_account\<close>) and which waiters are forgotten.
  \<^item> FAT file system (\<open>dos/drive_fat.cpp\<close> over \<open>ints/bios_disk.cpp\<close>): \<open>Fat\<close> models the sectors of an image, the file allocation
    table with its one-sector cache and the cluster chains, \<open>Fat_Dir\<close> directory entries, \<open>Fat_File\<close> open files. \<open>Fat_Table\<close>
    and \<open>Fat_Set\<close> show that the packed entries behave as a function, \<open>Fat_Chain\<close>, \<open>Fat_Alloc\<close> and \<open>Fat_Cut\<close> what the
    operations do to chains, \<open>Fat_Slots\<close> and \<open>Fat_Dir_Correct\<close> what they do to directories, \<open>Fat_Read\<close>, \<open>Fat_Write\<close> and
    \<open>Fat_File_Correct\<close> that a handle is a window on the bytes of its chain; \<open>Fat_Correct\<close> and \<open>Fat_Handles\<close> have the
    properties and an example drive. \<open>Fat_Mount\<close> models mounting an image and shows that it establishes the invariant.

  \<^bold>\<open>State and errors.\<close> Each component has a \<open>record\<close> with the fields of its structs, machine integers are
  words of their width, and every function of the source is one definition (its loops are separate
  recursive definitions). \<open>E_Exit\<close> and divide errors are values of a sum type. A loop that may run
  forever is a \<open>partial_function\<close> over options, and \<open>None\<close> is also the result of an access outside
  an array; theorems that an operation returns are stated as such. No fuel is used. The bounds
  of statements are those of the machine: chains of memory control blocks below segment \<open>0xffff\<close>,
  at most \<open>2 ^ 20\<close> pages.

  \<^bold>\<open>Not modelled.\<close> The CPU cores around the arithmetic macros (decoding, segmentation, paging, the
  dynamic recompilers, the FPU); the translation of addresses, which is the identity here except for the
  map of the first megabyte in the expanded and extended memory managers and the DMA controllers; the VCPI functions and the V86 monitor; the
  video, audio, disk, network and input devices; DOS drives other than FAT images, the shell and programs; the BIOS
  interrupts; configuration, logging, debugger and the host's user interface. They are either
  input and output, floating point or host code, or large tables of device behaviour that the
  components above do not depend on.
\<close>

end
